(* ===== verification/Prelude.thy ===== *)
theory Prelude
  imports Main "HOL-Library.Word" "HOL-Library.Monad_Syntax"
begin

unbundle bit_operations_syntax

text \<open>
  Shared vocabulary of the development: the C++ integer types, byte buffers with
  bounds-checked access, little-endian loads and stores, and the arithmetic facts about
  overflow guards and alignment masks that every component uses.

  Conventions. A fixed-width unsigned integer is a word of that width. A \<open>std::size_t\<close> is a
  \<open>nat\<close>; where the code guards a \<open>size_t\<close> computation against wrapping, the guard is
  written out with \<open>SIZE_MAX\<close>. A byte span, array or vector is a list. A function that
  indexes a span returns an option: \<open>None\<close> is an access outside the span (undefined
  behaviour in C++), so that "the function never leaves the span" is a theorem of the form
  \<open>f x \<noteq> None\<close>. A \<open>std::optional\<close> result inside such a function is a nested option.
\<close>

section \<open>Types\<close>

type_synonym byte = "8 word"
type_synonym u16 = "16 word"
type_synonym u32 = "32 word"
type_synonym u64 = "64 word"

abbreviation SIZE_MAX :: nat where
  "SIZE_MAX \<equiv> 2 ^ 64 - 1"

abbreviation U32_MAX :: nat where
  "U32_MAX \<equiv> 2 ^ 32 - 1"

named_theorems mem_simps \<open>bounds-checked buffer access\<close>
named_theorems word_bounds \<open>word guards read as facts about natural numbers\<close>

section \<open>Overflow guards\<close>

text \<open>The code's idiom \<open>a > max - b\<close> is true exactly when \<open>a + b\<close> would wrap.\<close>

lemma unat_minus_one_sub: "unat (- 1 - b) = 2 ^ LENGTH('a) - 1 - unat (b :: 'a::len word)"
proof -
  have "b \<le> - 1" by simp
  then have "unat (- 1 - b) = unat (- 1 :: 'a word) - unat b" by (rule unat_sub)
  then show ?thesis by (simp add: unsigned_minus_1_eq_mask mask_eq_exp_minus_1)
qed

lemma add_guard_iff [word_bounds]:
  fixes a b :: "'a::len word"
  shows "a \<le> - 1 - b \<longleftrightarrow> unat a + unat b < 2 ^ LENGTH('a)"
proof -
  have shift: "y < N \<Longrightarrow> x \<le> N - 1 - y \<longleftrightarrow> x + y < N" for x y N :: nat by arith
  have "unat b < 2 ^ LENGTH('a)" by (rule unsigned_less)
  from shift [OF this, of "unat a"] show ?thesis
    by (simp only: word_le_nat_alt unat_minus_one_sub)
qed

lemma add_guard_less [word_bounds]:
  fixes a b :: "'a::len word"
  shows "- 1 - b < a \<longleftrightarrow> 2 ^ LENGTH('a) \<le> unat a + unat b"
  using add_guard_iff [of a b] by (auto simp: not_le [symmetric])

lemma len_words: "LENGTH(8) = 8" "LENGTH(16) = 16" "LENGTH(32) = 32" "LENGTH(64) = 64"
  by simp_all

lemmas add_guard64 = add_guard_iff [where 'a = 64, unfolded len_words]
  add_guard_less [where 'a = 64, unfolded len_words]

lemmas add_guard32 = add_guard_iff [where 'a = 32, unfolded len_words]
  add_guard_less [where 'a = 32, unfolded len_words]

lemma unat_lt: "unat (b :: byte) < 2 ^ 8" "unat (h :: u16) < 2 ^ 16" "unat (w :: u32) < 2 ^ 32"
    "unat (v :: u64) < 2 ^ 64"
  using unsigned_less [of b, where 'a = nat] unsigned_less [of h, where 'a = nat]
    unsigned_less [of w, where 'a = nat] unsigned_less [of v, where 'a = nat] by simp_all

lemma unat_of_nat_small:
  "n < 2 ^ 8 \<Longrightarrow> unat (of_nat n :: byte) = n" "n < 2 ^ 16 \<Longrightarrow> unat (of_nat n :: u16) = n"
  "n < 2 ^ 32 \<Longrightarrow> unat (of_nat n :: u32) = n" "n < 2 ^ 64 \<Longrightarrow> unat (of_nat n :: u64) = n"
  by (simp_all add: unat_of_nat)

lemma unat_add_nowrap:
  fixes a b :: "'a::len word"
  shows "unat a + unat b < 2 ^ LENGTH('a) \<Longrightarrow> unat (a + b) = unat a + unat b"
  by (simp add: unat_word_ariths)

lemma unat_inc:
  fixes e s :: "'a::len word"
  assumes "e < s"
  shows "unat (e + 1) = Suc (unat e)"
proof -
  have "unat e < unat s" using assms by (simp only: word_less_nat_alt)
  moreover have "unat s < 2 ^ LENGTH('a)" by (rule unsigned_less)
  moreover have "unat (1 :: 'a word) = 1" by simp
  ultimately have "unat e + unat (1 :: 'a word) < 2 ^ LENGTH('a)" by linarith
  then show ?thesis using unat_add_nowrap [of e 1] by simp
qed

text \<open>The idiom \<open>bytes > size - offset\<close>, once \<open>offset \<le> size\<close> is known.\<close>

lemma sub_less_iff:
  fixes v s n :: "'a::len word"
  assumes "v \<le> s"
  shows "s - v < n \<longleftrightarrow> \<not> unat v + unat n \<le> unat s"
proof -
  have "unat v \<le> unat s" using assms by (simp only: word_le_nat_alt)
  then show ?thesis
    by (simp only: word_less_nat_alt unat_sub [OF assms]) linarith
qed

text \<open>Widening keeps the value.\<close>

lemma unat_ucast_widen:
  fixes w :: "'a::len word"
  assumes "LENGTH('a) \<le> LENGTH('b::len)"
  shows "unat (ucast w :: 'b word) = unat w"
proof -
  have "unat w < 2 ^ LENGTH('a)" by (rule unsigned_less)
  also have "\<dots> \<le> 2 ^ LENGTH('b)" using assms by simp
  finally show ?thesis by (simp add: unsigned_ucast_eq take_bit_nat_eq_self_iff)
qed

lemma unat_ucast_simps [simp]:
  "unat (ucast (b :: byte) :: u16) = unat b" "unat (ucast (b :: byte) :: u32) = unat b"
  "unat (ucast (b :: byte) :: u64) = unat b" "unat (ucast (h :: u16) :: u32) = unat h"
  "unat (ucast (h :: u16) :: u64) = unat h" "unat (ucast (w :: u32) :: u64) = unat w"
  by (simp_all add: unat_ucast_widen)

lemma unat_ucast_narrow:
  fixes w :: "'a::len word"
  assumes "unat w < 2 ^ LENGTH('b::len)"
  shows "unat (ucast w :: 'b word) = unat w"
  using assms by (simp add: unsigned_ucast_eq take_bit_nat_eq_self_iff)

lemma ucast_eq_0_simps [simp]:
  "(ucast (h :: u16) :: u32) = 0 \<longleftrightarrow> h = 0" "(ucast (w :: u32) :: u64) = 0 \<longleftrightarrow> w = 0"
  by (simp_all add: word_unat_eq_iff)

lemma unat_mult_nowrap:
  fixes a b :: "'a::len word"
  shows "unat a * unat b < 2 ^ LENGTH('a) \<Longrightarrow> unat (a * b) = unat a * unat b"
  by (simp add: unat_word_ariths)

lemma mult_guard_iff [word_bounds]:
  fixes a b :: "'a::len word"
  assumes "b \<noteq> 0"
  shows "a \<le> - 1 div b \<longleftrightarrow> unat a * unat b < 2 ^ LENGTH('a)"
proof -
  have pos: "0 < unat b" using assms by (simp add: unat_gt_0)
  have "a \<le> - 1 div b \<longleftrightarrow> unat a \<le> (2 ^ LENGTH('a) - 1) div unat b"
    by (simp add: word_le_nat_alt unat_div_distrib unsigned_minus_1_eq_mask mask_eq_exp_minus_1)
  also have "\<dots> \<longleftrightarrow> unat a * unat b \<le> 2 ^ LENGTH('a) - 1"
    using pos by (simp add: less_eq_div_iff_mult_less_eq)
  also have "\<dots> \<longleftrightarrow> unat a * unat b < 2 ^ LENGTH('a)"
    by (metis Suc_pred' less_Suc_eq_le zero_less_power zero_less_numeral)
  finally show ?thesis .
qed

section \<open>Alignment masks\<close>

lemma word_mod_eq_0_iff: "a mod b = 0 \<longleftrightarrow> unat b dvd unat (a :: 'a::len word)"
  by (simp add: word_unat_eq_iff unat_mod_distrib mod_eq_0_iff_dvd)

text \<open>A power-of-two mask is a remainder.\<close>

lemma unat_and_mask: "unat (w AND mask n) = unat w mod 2 ^ n"
  by (simp only: take_bit_eq_mask [symmetric] unsigned_take_bit_eq) (simp add: take_bit_eq_mod)

lemma unat_and_not_mask:
  "unat (w AND NOT (mask n)) = unat (w :: 'a::len word) - unat w mod 2 ^ n"
proof -
  have "w = (w AND mask n) + (w AND NOT (mask n))"
    by (subst disjunctive_add) (auto simp add: bit_eq_iff bit_simps)
  moreover have "(w AND mask n) AND (w AND NOT (mask n)) = 0"
    by (simp add: bit_eq_iff bit_simps)
  ultimately have "w AND NOT (mask n) = w - (w AND mask n)"
    by (metis add_diff_cancel_left')
  moreover have "w AND mask n \<le> w" by (rule word_and_le2)
  ultimately show ?thesis by (simp add: unat_sub unat_and_mask)
qed

lemma and_mask_zero_iff: "w AND mask n = 0 \<longleftrightarrow> 2 ^ n dvd unat w"
  by (simp add: and_mask_dvd_nat)

lemma drop_bit_eq_0_iff: "drop_bit n w = 0 \<longleftrightarrow> unat (w :: 'a::len word) < 2 ^ n"
proof -
  have "drop_bit n w = 0 \<longleftrightarrow> unat (drop_bit n w) = 0" by (simp only: word_unat_eq_iff unat_0)
  also have "\<dots> \<longleftrightarrow> unat w div 2 ^ n = 0" unfolding unat_drop_bit_eq by (simp only: drop_bit_eq_div)
  also have "\<dots> \<longleftrightarrow> unat w < 2 ^ n" by (simp add: div_eq_0_iff)
  finally show ?thesis .
qed

lemma and_not_mask_zero_iff: "w AND NOT (mask n) = 0 \<longleftrightarrow> unat (w :: 'a::len word) < 2 ^ n"
proof -
  have "w AND NOT (mask n) = 0 \<longleftrightarrow> unat w - unat w mod 2 ^ n = 0"
    by (simp only: word_unat_eq_iff unat_and_not_mask unat_0)
  also have "\<dots> \<longleftrightarrow> unat w < 2 ^ n"
    by (metis diff_is_0_eq mod_less mod_less_divisor mod_less_eq_dividend le_antisym
        order_refl zero_less_numeral zero_less_power)
  finally show ?thesis .
qed

text \<open>The literal masks of the code.\<close>

lemma mask_numerals:
  "(255 :: 'a::len word) = mask 8"
  "(4095 :: 'a::len word) = mask 12"
  "(1048575 :: 'a::len word) = mask 20"
  by (simp_all add: mask_eq_exp_minus_1)

lemma full_complement [simp]: "(- 4294967296 :: u32) = 0"
  by simp

section \<open>Bounds-checked buffers\<close>

text \<open>Indexing a span outside its bounds is undefined behaviour, here \<open>None\<close>.\<close>

definition rd :: "'a list \<Rightarrow> nat \<Rightarrow> 'a option" where
  "rd xs i = (if i < length xs then Some (xs ! i) else None)"

definition wr :: "'a list \<Rightarrow> nat \<Rightarrow> 'a \<Rightarrow> 'a list option" where
  "wr xs i v = (if i < length xs then Some (xs[i := v]) else None)"

text \<open>Reading and writing consecutive elements, one access at a time.\<close>

fun rd_seq :: "'a list \<Rightarrow> nat \<Rightarrow> nat \<Rightarrow> 'a list option" where
  "rd_seq xs i 0 = Some []"
| "rd_seq xs i (Suc n) = do { x \<leftarrow> rd xs i; ys \<leftarrow> rd_seq xs (Suc i) n; Some (x # ys) }"

fun wr_seq :: "'a list \<Rightarrow> nat \<Rightarrow> 'a list \<Rightarrow> 'a list option" where
  "wr_seq xs i [] = Some xs"
| "wr_seq xs i (v # vs) = do { xs' \<leftarrow> wr xs i v; wr_seq xs' (Suc i) vs }"

text \<open>The effect of an in-range write, and the view of a range.\<close>

definition put :: "'a list \<Rightarrow> nat \<Rightarrow> 'a list \<Rightarrow> 'a list" where
  "put xs i vs = take i xs @ vs @ drop (i + length vs) xs"

definition slice :: "'a list \<Rightarrow> nat \<Rightarrow> nat \<Rightarrow> 'a list" where
  "slice xs i n = take n (drop i xs)"

lemma length_put [simp]: "i + length vs \<le> length xs \<Longrightarrow> length (put xs i vs) = length xs"
  by (simp add: put_def)

lemma length_slice [simp]: "i + n \<le> length xs \<Longrightarrow> length (slice xs i n) = n"
  by (simp add: slice_def)

lemma put_Nil [simp]: "put xs i [] = xs"
  by (simp add: put_def)

lemma put_Cons:
  assumes "i < length xs"
  shows "put (xs[i := v]) (Suc i) vs = put xs i (v # vs)"
  using assms by (simp add: put_def take_Suc_conv_app_nth)

lemma nth_put:
  assumes "i + length vs \<le> length xs" and "j < length xs"
  shows "put xs i vs ! j = (if i \<le> j \<and> j < i + length vs then vs ! (j - i) else xs ! j)"
  using assms by (auto simp: put_def nth_append)

lemma rd_seq_eq [mem_simps]:
  "rd_seq xs i n = (if n = 0 \<or> i + n \<le> length xs then Some (slice xs i n) else None)"
proof (induction n arbitrary: i)
  case 0
  then show ?case by (simp add: slice_def)
next
  case (Suc n)
  have "i < length xs \<Longrightarrow> slice xs i (Suc n) = xs ! i # slice xs (Suc i) n"
    by (simp add: slice_def Cons_nth_drop_Suc [symmetric])
  with Suc.IH [of "Suc i"] show ?case by (auto simp: rd_def slice_def)
qed

lemma wr_seq_eq [mem_simps]:
  "wr_seq xs i vs = (if vs = [] \<or> i + length vs \<le> length xs then Some (put xs i vs) else None)"
  by (induction vs arbitrary: xs i) (auto simp: wr_def put_Cons)

text \<open>What a read returns after a write: the same range, or a disjoint one.\<close>

lemma slice_put_same [simp]:
  "i + length vs \<le> length xs \<Longrightarrow> n = length vs \<Longrightarrow> slice (put xs i vs) i n = vs"
  by (simp add: slice_def put_def)

lemma slice_put_other [simp]:
  assumes "i + length vs \<le> length xs" and "j + n \<le> i \<or> i + length vs \<le> j"
  shows "slice (put xs i vs) j n = slice xs j n"
proof (rule nth_equalityI)
  show len: "length (slice (put xs i vs) j n) = length (slice xs j n)"
    using assms by (simp add: slice_def)
  fix k
  assume "k < length (slice (put xs i vs) j n)"
  then show "slice (put xs i vs) j n ! k = slice xs j n ! k"
    using assms by (auto simp: slice_def nth_put)
qed

lemma slice_put_inside:
  assumes "i + length vs \<le> length xs" and "i \<le> j" and "j + n \<le> i + length vs"
  shows "slice (put xs i vs) j n = slice vs (j - i) n"
proof (rule nth_equalityI)
  show "length (slice (put xs i vs) j n) = length (slice vs (j - i) n)"
    using assms by (simp add: slice_def)
  fix k
  assume "k < length (slice (put xs i vs) j n)"
  then show "slice (put xs i vs) j n ! k = slice vs (j - i) n ! k"
    using assms by (auto simp: slice_def nth_put)
qed

lemma put_put_adjacent:
  assumes "i + length us + length vs \<le> length xs"
  shows "put (put xs i us) (i + length us) vs = put xs i (us @ vs)"
  using assms by (simp add: put_def ac_simps)

text \<open>Consecutive intervals.\<close>

lemma upt_append: "[a ..< a + m] @ [a + m ..< a + m + n] = [a ..< a + m + (n :: nat)]"
  by (rule upt_add_eq_append [symmetric]) simp

section \<open>Little-endian words\<close>

text \<open>
  \<open>le_bytes n v\<close> are the low \<open>n\<close> bytes of \<open>v\<close>, least significant first: the bytes
  \<open>static_cast<uint8_t>(v >> 8 * i)\<close> the store helpers write. \<open>le_join\<close> is what the
  load helpers compute: each byte shifted to its place, combined with \<open>|\<close>.
\<close>

fun le_bytes :: "nat \<Rightarrow> 'a::len word \<Rightarrow> byte list" where
  "le_bytes 0 v = []"
| "le_bytes (Suc n) v = ucast v # le_bytes n (drop_bit 8 v)"

fun le_join :: "byte list \<Rightarrow> 'a::len word" where
  "le_join [] = 0"
| "le_join (b # bs) = ucast b OR push_bit 8 (le_join bs)"

definition StoreLe16 :: "byte list \<Rightarrow> nat \<Rightarrow> u16 \<Rightarrow> byte list option" where
  "StoreLe16 out off v = wr_seq out off (le_bytes 2 v)"

definition StoreLe32 :: "byte list \<Rightarrow> nat \<Rightarrow> u32 \<Rightarrow> byte list option" where
  "StoreLe32 out off v = wr_seq out off (le_bytes 4 v)"

definition StoreLe64 :: "byte list \<Rightarrow> nat \<Rightarrow> u64 \<Rightarrow> byte list option" where
  "StoreLe64 out off v = wr_seq out off (le_bytes 8 v)"

definition LoadLe16 :: "byte list \<Rightarrow> nat \<Rightarrow> u16 option" where
  "LoadLe16 d off = map_option le_join (rd_seq d off 2)"

definition LoadLe32 :: "byte list \<Rightarrow> nat \<Rightarrow> u32 option" where
  "LoadLe32 d off = map_option le_join (rd_seq d off 4)"

definition LoadLe64 :: "byte list \<Rightarrow> nat \<Rightarrow> u64 option" where
  "LoadLe64 d off = map_option le_join (rd_seq d off 8)"

lemma le_bytes_nth: "i < n \<Longrightarrow> le_bytes n v ! i = ucast (drop_bit (8 * i) v)"
  by (induction n arbitrary: v i) (auto simp: nth_Cons ac_simps split: nat.splits)

lemma le_join_4:
  "le_join [b0, b1, b2, b3] =
     ((ucast b0 OR push_bit 8 (ucast b1)) OR push_bit 16 (ucast b2)) OR push_bit 24 (ucast b3)"
  by (simp add: push_bit_or ac_simps)

lemma length_le_bytes [simp]: "length (le_bytes n v) = n"
  by (induction n arbitrary: v) auto

lemma le_bytes_eq_Nil [simp]: "le_bytes n v = [] \<longleftrightarrow> n = 0"
  by (cases n) auto

lemma le_join_le_bytes: "le_join (le_bytes n v) = take_bit (8 * n) v"
proof (induction n arbitrary: v)
  case 0
  then show ?case by simp
next
  case (Suc n)
  have "ucast (ucast v :: byte) OR push_bit 8 (take_bit (8 * n) (drop_bit 8 v)) =
      take_bit (8 * Suc n) v"
    by (rule bit_word_eqI) (auto simp: bit_simps)
  with Suc show ?case by simp
qed

lemma le_join_16 [simp]: "le_join (le_bytes 2 v) = (v :: u16)"
  by (simp only: le_join_le_bytes) (simp add: take_bit_word_eq_self)

lemma le_join_32 [simp]: "le_join (le_bytes 4 v) = (v :: u32)"
  by (simp only: le_join_le_bytes) (simp add: take_bit_word_eq_self)

lemma le_join_64 [simp]: "le_join (le_bytes 8 v) = (v :: u64)"
  by (simp only: le_join_le_bytes) (simp add: take_bit_word_eq_self)

lemma StoreLe_eq [mem_simps]:
  "StoreLe16 out off v16 = (if off + 2 \<le> length out then Some (put out off (le_bytes 2 v16)) else None)"
  "StoreLe32 out off v32 = (if off + 4 \<le> length out then Some (put out off (le_bytes 4 v32)) else None)"
  "StoreLe64 out off v64 = (if off + 8 \<le> length out then Some (put out off (le_bytes 8 v64)) else None)"
  by (simp_all only: StoreLe16_def StoreLe32_def StoreLe64_def mem_simps length_le_bytes
      le_bytes_eq_Nil) simp_all

lemma LoadLe_eq [mem_simps]:
  "LoadLe16 d off = (if off + 2 \<le> length d then Some (le_join (slice d off 2)) else None)"
  "LoadLe32 d off = (if off + 4 \<le> length d then Some (le_join (slice d off 4)) else None)"
  "LoadLe64 d off = (if off + 8 \<le> length d then Some (le_join (slice d off 8)) else None)"
  by (simp_all add: LoadLe16_def LoadLe32_def LoadLe64_def mem_simps del: rd_seq.simps)

text \<open>The little-endian words of a buffer, read without a bounds check.\<close>

definition half_at :: "byte list \<Rightarrow> nat \<Rightarrow> u16" where
  "half_at r off = le_join (slice r off 2)"

definition word_at :: "byte list \<Rightarrow> nat \<Rightarrow> u32" where
  "word_at r off = le_join (slice r off 4)"

definition long_at :: "byte list \<Rightarrow> nat \<Rightarrow> u64" where
  "long_at r off = le_join (slice r off 8)"

lemma LoadLe_at:
  "off + 2 \<le> length d \<Longrightarrow> LoadLe16 d off = Some (half_at d off)"
  "off + 4 \<le> length d \<Longrightarrow> LoadLe32 d off = Some (word_at d off)"
  "off + 8 \<le> length d \<Longrightarrow> LoadLe64 d off = Some (long_at d off)"
  by (simp_all add: LoadLe_eq half_at_def word_at_def long_at_def)

lemma rd_at: "i < length xs \<Longrightarrow> rd xs i = Some (xs ! i)"
  by (simp add: rd_def)

text \<open>A run of 64-bit words.\<close>

definition words_bytes :: "u64 list \<Rightarrow> byte list" where
  "words_bytes xs = concat (map (le_bytes 8) xs)"

lemma length_words_bytes [simp]: "length (words_bytes xs) = 8 * length xs"
  by (induction xs) (simp_all add: words_bytes_def)

lemma words_bytes_simps [simp]:
  "words_bytes [] = []" "words_bytes (x # xs) = le_bytes 8 x @ words_bytes xs"
  "words_bytes (xs @ ys) = words_bytes xs @ words_bytes ys"
  by (simp_all add: words_bytes_def)

lemma slice_words_bytes:
  "i < length xs \<Longrightarrow> slice (words_bytes xs) (8 * i) 8 = le_bytes 8 (xs ! i)"
proof (induction xs arbitrary: i)
  case (Cons x xs)
  then show ?case
    by (cases i) (simp_all add: slice_def del: le_bytes.simps)
qed simp

lemma LoadLe64_words:
  assumes "off + 8 * length xs \<le> length out" and "i < length xs"
  shows "LoadLe64 (put out off (words_bytes xs)) (off + 8 * i) = Some (xs ! i)"
proof -
  have i8: "8 * i + 8 \<le> 8 * length xs" using assms(2) by simp
  have "slice (put out off (words_bytes xs)) (off + 8 * i) 8 = slice (words_bytes xs) (8 * i) 8"
    using assms i8 slice_put_inside [of off "words_bytes xs" out "off + 8 * i" 8] by simp
  then show ?thesis using assms i8 by (simp add: LoadLe_eq slice_words_bytes)
qed

text \<open>A run of 32-bit words, for the sample inputs of the parsers.\<close>

definition words32 :: "u32 list \<Rightarrow> byte list" where
  "words32 xs = concat (map (le_bytes 4) xs)"

lemma length_words32 [simp]: "length (words32 xs) = 4 * length xs"
  by (induction xs) (simp_all add: words32_def)

lemma slice_words32: "i < length xs \<Longrightarrow> slice (words32 xs) (4 * i) 4 = le_bytes 4 (xs ! i)"
proof (induction xs arbitrary: i)
  case (Cons x xs)
  have "words32 (x # xs) = le_bytes 4 x @ words32 xs" by (simp add: words32_def)
  then show ?case
    using Cons by (cases i) (simp_all add: slice_def del: le_bytes.simps)
qed simp

lemma word_at_words32:
  assumes "off mod 4 = 0" and "off div 4 < length xs"
  shows "word_at (words32 xs) off = xs ! (off div 4)"
proof -
  have "off = 4 * (off div 4)" using assms(1) by auto
  then show ?thesis using slice_words32 [OF assms(2)] by (simp add: word_at_def)
qed

end
