(* ===== verification/Tiling.thy ===== *)
theory Tiling
  imports Prelude
begin

text \<open>
  Chunking a range. Several components cut a byte range into consecutive pieces: the DMA
  chunk planner, the RPC fragmenter, the PRAMIN window planner and the package staging
  planner. This theory states once what such a plan promises (the locale \<open>tiling\<close>) and
  what a client that processes the pieces one by one may conclude: the pieces lie in the
  range, do not overlap, cover every byte once, and copying piece by piece moves exactly the
  bytes of the whole range.
\<close>

section \<open>Consecutive pieces\<close>

text \<open>\<open>tiles lo ps hi\<close>: the pieces \<open>ps\<close> (offset, length) are non-empty and follow each
  other without a gap from \<open>lo\<close> to \<open>hi\<close>.\<close>

fun tiles :: "nat \<Rightarrow> (nat \<times> nat) list \<Rightarrow> nat \<Rightarrow> bool" where
  "tiles lo [] hi \<longleftrightarrow> lo = hi"
| "tiles lo ((off, n) # ps) hi \<longleftrightarrow> off = lo \<and> 0 < n \<and> tiles (lo + n) ps hi"

lemma tiles_append:
  "tiles lo ps mid \<Longrightarrow> tiles mid qs hi \<Longrightarrow> tiles lo (ps @ qs) hi"
  by (induction lo ps mid rule: tiles.induct) auto

lemma tiles_le: "tiles lo ps hi \<Longrightarrow> lo \<le> hi"
  by (induction lo ps hi rule: tiles.induct) auto

lemma tiles_bounds:
  "tiles lo ps hi \<Longrightarrow> (off, n) \<in> set ps \<Longrightarrow> lo \<le> off \<and> 0 < n \<and> off + n \<le> hi"
proof (induction lo ps hi rule: tiles.induct)
  case (2 lo off' n' ps hi)
  then show ?case using tiles_le [of "lo + n'" ps hi] by fastforce
qed simp

lemma tiles_sum: "tiles lo ps hi \<Longrightarrow> lo + sum_list (map snd ps) = hi"
  by (induction lo ps hi rule: tiles.induct) auto

lemma tiles_count: "tiles lo ps hi \<Longrightarrow> length ps \<le> hi - lo"
proof (induction lo ps hi rule: tiles.induct)
  case (2 lo off n ps hi)
  then show ?case using tiles_le [of "lo + n" ps hi] by auto
qed simp

lemma tiles_cover:
  "tiles lo ps hi \<Longrightarrow> lo \<le> i \<Longrightarrow> i < hi \<Longrightarrow> \<exists>(off, n) \<in> set ps. off \<le> i \<and> i < off + n"
proof (induction lo ps hi rule: tiles.induct)
  case (2 lo off n ps hi)
  then show ?case by (cases "i < lo + n") auto
qed simp

lemma tiles_disjoint:
  "tiles lo ps hi \<Longrightarrow> j < k \<Longrightarrow> k < length ps \<Longrightarrow> fst (ps ! j) + snd (ps ! j) \<le> fst (ps ! k)"
proof (induction lo ps hi arbitrary: j k rule: tiles.induct)
  case (2 lo off n ps hi)
  then obtain k' where k: "k = Suc k'" by (cases k) auto
  with 2 show ?case
  proof (cases j)
    case 0
    have "ps ! k' \<in> set ps" using 2 k by simp
    then have "lo + n \<le> fst (ps ! k')"
      using 2 tiles_bounds [of "lo + n" ps hi "fst (ps ! k')" "snd (ps ! k')"] by simp
    with 0 2 k show ?thesis by simp
  next
    case (Suc j')
    with 2 k show ?thesis by simp
  qed
qed simp

text \<open>Reading piece by piece yields the whole range; writing piece by piece writes it.\<close>

lemma slice_append: "slice xs i n @ slice xs (i + n) m = slice xs i (n + m)"
  unfolding slice_def take_add drop_drop by (simp add: add.commute [of n i])

lemma tiles_slices:
  "tiles lo ps hi \<Longrightarrow> concat (map (\<lambda>(off, n). slice xs off n) ps) = slice xs lo (hi - lo)"
proof (induction lo ps hi rule: tiles.induct)
  case (2 lo off n ps hi)
  then have "n + (hi - (lo + n)) = hi - lo" using tiles_le [of "lo + n" ps hi] by simp
  with 2 slice_append [of xs lo n "hi - (lo + n)"] show ?case by simp
qed (simp add: slice_def)

text \<open>The two operands of a copy: \<open>copy_piece\<close> moves one piece from the source to the same
  position, displaced by \<open>base\<close>, of the target.\<close>

definition copy_piece :: "'a list \<Rightarrow> nat \<Rightarrow> nat \<times> nat \<Rightarrow> 'a list \<Rightarrow> 'a list" where
  "copy_piece src base p dst = put dst (base + fst p) (slice src (fst p) (snd p))"

lemma length_copy_piece:
  "fst p + snd p \<le> length src \<Longrightarrow> base + fst p + snd p \<le> length dst \<Longrightarrow>
    length (copy_piece src base p dst) = length dst"
  by (simp add: copy_piece_def)

lemma tiles_copy_aux:
  assumes "tiles mid ps hi" "lo \<le> mid" "hi \<le> length src" "base + hi \<le> length dst"
  shows "fold (copy_piece src base) ps (put dst (base + lo) (slice src lo (mid - lo))) =
    put dst (base + lo) (slice src lo (hi - lo))"
  using assms
proof (induction mid ps hi rule: tiles.induct)
  case (2 mid off n ps hi)
  have le: "mid + n \<le> hi" using 2 tiles_le [of "mid + n" ps hi] by simp
  have "put (put dst (base + lo) (slice src lo (mid - lo))) (base + mid) (slice src mid n) =
      put dst (base + lo) (slice src lo (mid - lo) @ slice src mid n)"
    using put_put_adjacent [of "base + lo" "slice src lo (mid - lo)" "slice src mid n" dst] 2 le
    by simp
  also have "slice src lo (mid - lo) @ slice src mid n = slice src lo (mid + n - lo)"
    using slice_append [of src lo "mid - lo" n] 2 by simp
  finally show ?case using 2 le by (simp add: copy_piece_def)
qed simp

lemma tiles_copy:
  assumes "tiles lo ps hi" "hi \<le> length src" "base + hi \<le> length dst"
  shows "fold (copy_piece src base) ps dst = put dst (base + lo) (slice src lo (hi - lo))"
  using tiles_copy_aux [OF assms(1) order_refl assms(2,3)] by (simp add: slice_def)

section \<open>The contract of a chunk planner\<close>

text \<open>
  A planner maps a request to a list of chunks. For a \<open>valid\<close> request they tile the
  requested range \<open>lo .. hi\<close> and no chunk is longer than \<open>cap\<close>.
\<close>

locale tiling =
  fixes valid :: "'i \<Rightarrow> bool"
    and chunks :: "'i \<Rightarrow> 'c list"
    and start :: "'c \<Rightarrow> nat"
    and size_of :: "'c \<Rightarrow> nat"
    and lo :: "'i \<Rightarrow> nat"
    and hi :: "'i \<Rightarrow> nat"
    and cap :: "'i \<Rightarrow> nat"
  assumes chunks_tile: "valid i \<Longrightarrow> tiles (lo i) (map (\<lambda>c. (start c, size_of c)) (chunks i)) (hi i)"
    and chunks_cap: "valid i \<Longrightarrow> c \<in> set (chunks i) \<Longrightarrow> size_of c \<le> cap i"
begin

lemma in_range:
  "valid i \<Longrightarrow> c \<in> set (chunks i) \<Longrightarrow> lo i \<le> start c \<and> 0 < size_of c \<and> start c + size_of c \<le> hi i"
  by (rule tiles_bounds [OF chunks_tile]) auto

lemma total: "valid i \<Longrightarrow> lo i + (\<Sum>c\<leftarrow>chunks i. size_of c) = hi i"
  using tiles_sum [OF chunks_tile, of i] by (simp add: comp_def)

lemma covered:
  "valid i \<Longrightarrow> lo i \<le> a \<Longrightarrow> a < hi i \<Longrightarrow> \<exists>c \<in> set (chunks i). start c \<le> a \<and> a < start c + size_of c"
  using tiles_cover [OF chunks_tile, of i a] by auto

lemma separate:
  "valid i \<Longrightarrow> j < k \<Longrightarrow> k < length (chunks i) \<Longrightarrow>
    start (chunks i ! j) + size_of (chunks i ! j) \<le> start (chunks i ! k)"
  using tiles_disjoint [OF chunks_tile, of i j k] by simp

lemma reassembled:
  "valid i \<Longrightarrow> concat (map (\<lambda>c. slice xs (start c) (size_of c)) (chunks i)) = slice xs (lo i) (hi i - lo i)"
  using tiles_slices [OF chunks_tile, of i xs] by (simp add: comp_def)

lemma copied:
  "valid i \<Longrightarrow> hi i \<le> length src \<Longrightarrow> base + hi i \<le> length dst \<Longrightarrow>
    fold (\<lambda>c. copy_piece src base (start c, size_of c)) (chunks i) dst =
      put dst (base + lo i) (slice src (lo i) (hi i - lo i))"
  using tiles_copy [OF chunks_tile, of i src base dst] by (simp add: fold_map comp_def)

lemma nonempty_iff: "valid i \<Longrightarrow> chunks i = [] \<longleftrightarrow> lo i = hi i"
proof
  assume v: "valid i" and "lo i = hi i"
  then show "chunks i = []" using tiles_count [OF chunks_tile [OF v]] by simp
next
  assume v: "valid i" and "chunks i = []"
  then show "lo i = hi i" using chunks_tile [OF v] by simp
qed

end

end
