(* ===== verification/Dma.thy ===== *)
theory Dma
  imports Tiling
begin

text \<open>
  DMA segment lists (\<open>src/core/dma.cpp\<close>, \<open>include/rtxmac/dma.hpp\<close>) and the conservative
  chunk plan (\<open>src/core/dma_plan.cpp\<close>). A segment list is what DriverKit returns for a
  prepared buffer; the code validates that it covers exactly the requested bytes, resolves
  it to one linear range, or expands it to one address per page. The reference view of a
  segment list is \<open>dma_bytes\<close>, the bus address of every logical byte in order.
\<close>

section \<open>Data\<close>

record DmaSegment =
  address :: u64
  length' :: u64

datatype DmaCoverageStatus =
  Ok | Empty | ZeroLength | AddressOverflow | ByteCountOverflow | Truncated | Overrun

record DmaCoverage =
  status :: DmaCoverageStatus
  requestedBytes :: u64
  coveredBytes :: u64
  segmentCount :: nat

datatype DmaLinearRangeStatus = Ok | CoverageError | AddressDiscontinuity

record DmaLinearRange =
  status :: DmaLinearRangeStatus
  address :: u64
  length' :: u64

datatype DmaPageMapStatus =
  Ok | InvalidPageSize | RequestedSizeNotPageAligned | CoverageError
  | SegmentAddressUnaligned | SegmentLengthUnaligned | PageCountOverflow

record DmaPageMap =
  status :: DmaPageMapStatus
  pageBytes :: u64
  pageAddresses :: "u64 list"

definition kDriverKitMaxSegmentsPerPrepare :: u32 where
  "kDriverKitMaxSegmentsPerPrepare = 32"

definition kDefaultDmaPageSize :: u64 where
  "kDefaultDmaPageSize = 4096"

record DmaChunk =
  offset :: u64
  length' :: u64

datatype DmaPlanStatus = Ok | InvalidPageSize | SizeOverflow

record DmaPlan =
  status :: DmaPlanStatus
  totalBytes :: u64
  pageSize :: u64
  segmentLimit :: u32
  chunks :: "DmaChunk list"

section \<open>Operations\<close>

text \<open>The loop of \<open>ValidateDmaSegments\<close> with the final comparison; each error returns.\<close>

fun ValidateDmaSegments_loop :: "DmaSegment list \<Rightarrow> DmaCoverage \<Rightarrow> DmaCoverage" where
  "ValidateDmaSegments_loop [] out =
     (if coveredBytes out < requestedBytes out
      then out\<lparr>DmaCoverage.status := DmaCoverageStatus.Truncated\<rparr>
      else if requestedBytes out < coveredBytes out
      then out\<lparr>DmaCoverage.status := DmaCoverageStatus.Overrun\<rparr>
      else out)"
| "ValidateDmaSegments_loop (s # ss) out =
     (if DmaSegment.length' s = 0
      then out\<lparr>DmaCoverage.status := DmaCoverageStatus.ZeroLength\<rparr>
      else if - 1 - (DmaSegment.length' s - 1) < DmaSegment.address s
      then out\<lparr>DmaCoverage.status := DmaCoverageStatus.AddressOverflow\<rparr>
      else if - 1 - DmaSegment.length' s < coveredBytes out
      then out\<lparr>DmaCoverage.status := DmaCoverageStatus.ByteCountOverflow\<rparr>
      else ValidateDmaSegments_loop ss
             (out\<lparr>coveredBytes := coveredBytes out + DmaSegment.length' s\<rparr>))"

definition ValidateDmaSegments :: "DmaSegment list \<Rightarrow> u64 \<Rightarrow> DmaCoverage" where
  "ValidateDmaSegments segments req =
     (let out = \<lparr>DmaCoverage.status = DmaCoverageStatus.Ok, requestedBytes = req,
                 coveredBytes = 0, segmentCount = length segments\<rparr>
      in if segments = [] then out\<lparr>DmaCoverage.status := DmaCoverageStatus.Empty\<rparr>
         else ValidateDmaSegments_loop segments out)"

text \<open>The loop over adjacent pairs of \<open>ResolveLinearDmaRange\<close>: true when every segment
  starts where the previous one ended.\<close>

fun ResolveLinearDmaRange_loop :: "DmaSegment list \<Rightarrow> bool" where
  "ResolveLinearDmaRange_loop (p # s # ss) =
     (if - 1 - DmaSegment.length' p < DmaSegment.address p \<or>
         DmaSegment.address s \<noteq> DmaSegment.address p + DmaSegment.length' p
      then False else ResolveLinearDmaRange_loop (s # ss))"
| "ResolveLinearDmaRange_loop _ = True"

definition ResolveLinearDmaRange :: "DmaSegment list \<Rightarrow> u64 \<Rightarrow> DmaLinearRange" where
  "ResolveLinearDmaRange segments req =
     (let out = \<lparr>DmaLinearRange.status = DmaLinearRangeStatus.CoverageError,
                 address = 0, length' = 0\<rparr>;
          coverage = ValidateDmaSegments segments req
      in if DmaCoverage.status coverage \<noteq> DmaCoverageStatus.Ok \<or> coveredBytes coverage \<noteq> req
         then out\<lparr>DmaLinearRange.status := DmaLinearRangeStatus.CoverageError\<rparr>
         else if \<not> ResolveLinearDmaRange_loop segments
         then out\<lparr>DmaLinearRange.status := DmaLinearRangeStatus.AddressDiscontinuity\<rparr>
         else out\<lparr>DmaLinearRange.status := DmaLinearRangeStatus.Ok,
                  DmaLinearRange.address := DmaSegment.address (hd segments),
                  DmaLinearRange.length' := req\<rparr>)"

text \<open>The page loop of one segment. The offset is a 64-bit counter; the equation may recurse
  for ever (a zero step), which is the value \<open>None\<close>.\<close>

partial_function (option) ExpandDmaSegment_pages ::
    "u64 \<Rightarrow> u64 \<Rightarrow> u64 \<Rightarrow> u64 \<Rightarrow> u64 list \<Rightarrow> u64 list option" where
  "ExpandDmaSegment_pages base len step off acc =
     (if off < len then ExpandDmaSegment_pages base len step (off + step) (acc @ [base + off])
      else Some acc)"

fun ExpandDmaSegmentsToPages_loop :: "DmaSegment list \<Rightarrow> DmaPageMap \<Rightarrow> DmaPageMap option" where
  "ExpandDmaSegmentsToPages_loop [] out = Some (out\<lparr>DmaPageMap.status := DmaPageMapStatus.Ok\<rparr>)"
| "ExpandDmaSegmentsToPages_loop (s # ss) out =
     (if DmaSegment.address s mod pageBytes out \<noteq> 0
      then Some (out\<lparr>pageAddresses := [],
                     DmaPageMap.status := DmaPageMapStatus.SegmentAddressUnaligned\<rparr>)
      else if DmaSegment.length' s mod pageBytes out \<noteq> 0
      then Some (out\<lparr>pageAddresses := [],
                     DmaPageMap.status := DmaPageMapStatus.SegmentLengthUnaligned\<rparr>)
      else do {
        pages \<leftarrow> ExpandDmaSegment_pages (DmaSegment.address s) (DmaSegment.length' s)
                   (pageBytes out) 0 (pageAddresses out);
        ExpandDmaSegmentsToPages_loop ss (out\<lparr>pageAddresses := pages\<rparr>) })"

definition ExpandDmaSegmentsToPages :: "DmaSegment list \<Rightarrow> u64 \<Rightarrow> u64 \<Rightarrow> DmaPageMap option" where
  "ExpandDmaSegmentsToPages segments req page =
     (let out = \<lparr>DmaPageMap.status = DmaPageMapStatus.CoverageError, pageBytes = page,
                 pageAddresses = []\<rparr>
      in if page = 0 \<or> page AND (page - 1) \<noteq> 0
         then Some (out\<lparr>DmaPageMap.status := DmaPageMapStatus.InvalidPageSize\<rparr>)
         else if req = 0 \<or> req mod page \<noteq> 0
         then Some (out\<lparr>DmaPageMap.status := DmaPageMapStatus.RequestedSizeNotPageAligned\<rparr>)
         else let coverage = ValidateDmaSegments segments req
         in if DmaCoverage.status coverage \<noteq> DmaCoverageStatus.Ok \<or> coveredBytes coverage \<noteq> req
         then Some (out\<lparr>DmaPageMap.status := DmaPageMapStatus.CoverageError\<rparr>)
         else let pageCount64 = req div page
         in if SIZE_MAX < unat pageCount64
         then Some (out\<lparr>DmaPageMap.status := DmaPageMapStatus.PageCountOverflow\<rparr>)
         else do {
           r \<leftarrow> ExpandDmaSegmentsToPages_loop segments out;
           Some (if DmaPageMap.status r \<noteq> DmaPageMapStatus.Ok then r
                 else if length (pageAddresses r) \<noteq> unat pageCount64
                 then r\<lparr>pageAddresses := [], DmaPageMap.status := DmaPageMapStatus.CoverageError\<rparr>
                 else r) })"

partial_function (option) PlanConservativeDmaChunks_loop ::
    "u64 \<Rightarrow> u64 \<Rightarrow> u64 \<Rightarrow> DmaChunk list \<Rightarrow> DmaChunk list option" where
  "PlanConservativeDmaChunks_loop tot maxChunk off acc =
     (if off < tot
      then let remaining = tot - off; len = min maxChunk remaining
           in PlanConservativeDmaChunks_loop tot maxChunk (off + len)
                (acc @ [\<lparr>DmaChunk.offset = off, length' = len\<rparr>])
      else Some acc)"

definition PlanConservativeDmaChunks :: "u64 \<Rightarrow> u64 \<Rightarrow> u32 \<Rightarrow> DmaPlan option" where
  "PlanConservativeDmaChunks tot page limit =
     (let out = \<lparr>DmaPlan.status = DmaPlanStatus.Ok, totalBytes = tot, pageSize = page,
                 segmentLimit = limit, chunks = []\<rparr>
      in if page = 0 \<or> limit = 0
         then Some (out\<lparr>DmaPlan.status := DmaPlanStatus.InvalidPageSize\<rparr>)
         else if - 1 div (ucast limit :: u64) < page
         then Some (out\<lparr>DmaPlan.status := DmaPlanStatus.SizeOverflow\<rparr>)
         else let maxChunk = page * ucast limit
         in do {
           cs \<leftarrow> PlanConservativeDmaChunks_loop tot maxChunk 0 [];
           Some (out\<lparr>chunks := cs\<rparr>) })"

section \<open>Coverage\<close>

text \<open>A usable segment, and the bus address of every byte of a segment list in order.\<close>

definition seg_ok :: "DmaSegment \<Rightarrow> bool" where
  "seg_ok s \<longleftrightarrow> 0 < unat (DmaSegment.length' s) \<and>
     unat (DmaSegment.address s) + unat (DmaSegment.length' s) \<le> 2 ^ 64"

definition seg_bytes :: "DmaSegment \<Rightarrow> nat list" where
  "seg_bytes s = [unat (DmaSegment.address s) ..<
     unat (DmaSegment.address s) + unat (DmaSegment.length' s)]"

definition dma_bytes :: "DmaSegment list \<Rightarrow> nat list" where
  "dma_bytes segs = concat (map seg_bytes segs)"

definition seg_total :: "DmaSegment list \<Rightarrow> nat" where
  "seg_total segs = (\<Sum>s\<leftarrow>segs. unat (DmaSegment.length' s))"

lemma length_dma_bytes: "length (dma_bytes segs) = seg_total segs"
  by (induction segs) (auto simp: dma_bytes_def seg_total_def seg_bytes_def)

lemma seg_guard:
  assumes "l \<noteq> (0 :: u64)"
  shows "- 1 - (l - 1) < a \<longleftrightarrow> 2 ^ 64 < unat a + unat l"
proof -
  have "0 < unat l" using assms by (simp add: unat_gt_0)
  moreover have "unat (l - 1) = unat l - 1" using assms by (simp add: unat_minus_one)
  ultimately show ?thesis by (simp only: add_guard64) linarith
qed

lemma seg_guard_neg: "l \<noteq> (0 :: u64) \<Longrightarrow> - l < a \<longleftrightarrow> 2 ^ 64 < unat a + unat l"
  using seg_guard [of l a] by simp

lemma ValidateDmaSegments_loop_Ok:
  assumes "DmaCoverage.status out = DmaCoverageStatus.Ok"
  shows "DmaCoverage.status (ValidateDmaSegments_loop segs out) = DmaCoverageStatus.Ok \<longleftrightarrow>
    (\<forall>s \<in> set segs. seg_ok s) \<and>
    unat (coveredBytes out) + seg_total segs = unat (requestedBytes out)"
  using assms
proof (induction segs out rule: ValidateDmaSegments_loop.induct)
  case (1 out)
  then show ?case by (auto simp: seg_total_def word_less_nat_alt)
next
  case (2 s ss out)
  have req: "unat (requestedBytes out) < 2 ^ 64" using unsigned_less [of "requestedBytes out"] by simp
  show ?case
  proof (cases "DmaSegment.length' s = 0 \<or> - 1 - (DmaSegment.length' s - 1) < DmaSegment.address s")
    case True
    then show ?thesis using seg_guard [of "DmaSegment.length' s" "DmaSegment.address s"]
      by (auto simp: seg_ok_def seg_guard_neg)
  next
    case nz: False
    then have ok: "seg_ok s"
      using seg_guard [of "DmaSegment.length' s" "DmaSegment.address s"]
      by (auto simp: seg_ok_def unat_gt_0 word_less_nat_alt)
    show ?thesis
    proof (cases "- 1 - DmaSegment.length' s < coveredBytes out")
      case True
      then have "2 ^ 64 \<le> unat (coveredBytes out) + unat (DmaSegment.length' s)"
        by (simp add: add_guard_less)
      with True nz req show ?thesis by (auto simp: seg_total_def)
    next
      case False
      then have "unat (coveredBytes out + DmaSegment.length' s) =
          unat (coveredBytes out) + unat (DmaSegment.length' s)"
        by (intro unat_add_nowrap) (simp add: add_guard_less)
      with False nz ok 2 show ?thesis by (simp add: seg_total_def ac_simps)
    qed
  qed
qed

lemma ValidateDmaSegments_loop_covered:
  "DmaCoverage.status out = DmaCoverageStatus.Ok \<Longrightarrow>
   DmaCoverage.status (ValidateDmaSegments_loop segs out) = DmaCoverageStatus.Ok \<Longrightarrow>
   coveredBytes (ValidateDmaSegments_loop segs out) = requestedBytes out"
  by (induction segs out rule: ValidateDmaSegments_loop.induct) (auto split: if_splits)

lemma coverage_Ok_iff:
  "DmaCoverage.status (ValidateDmaSegments segs req) = DmaCoverageStatus.Ok \<longleftrightarrow>
    segs \<noteq> [] \<and> (\<forall>s \<in> set segs. seg_ok s) \<and> seg_total segs = unat req"
  by (simp add: ValidateDmaSegments_def Let_def ValidateDmaSegments_loop_Ok)

lemma coverage_bytes:
  "DmaCoverage.status (ValidateDmaSegments segs req) = DmaCoverageStatus.Ok \<Longrightarrow>
    coveredBytes (ValidateDmaSegments segs req) = req"
  by (auto simp: ValidateDmaSegments_def Let_def ValidateDmaSegments_loop_covered split: if_splits)

section \<open>Linear resolution\<close>

lemma dma_bytes_Cons [simp]: "dma_bytes (s # ss) = seg_bytes s @ dma_bytes ss"
  by (simp add: dma_bytes_def)

lemma dma_bytes_Nil [simp]: "dma_bytes [] = []"
  by (simp add: dma_bytes_def)

lemma seg_bytes_hd: "seg_ok s \<Longrightarrow> seg_bytes s = unat (DmaSegment.address s) # tl (seg_bytes s)"
  by (simp add: seg_bytes_def seg_ok_def upt_conv_Cons)

lemma dma_bytes_upt_hd:
  assumes "seg_ok s" and "dma_bytes (s # ss) = [b ..< b + n]"
  shows "b = unat (DmaSegment.address s)"
proof -
  have "hd (dma_bytes (s # ss)) = unat (DmaSegment.address s)"
    using seg_bytes_hd [OF assms(1)] by (metis append_Cons dma_bytes_Cons list.sel(1))
  moreover have "dma_bytes (s # ss) \<noteq> []"
    using seg_bytes_hd [OF assms(1)] by (metis append_is_Nil_conv dma_bytes_Cons list.distinct(1))
  ultimately show ?thesis using assms(2) by (metis hd_upt upt_eq_Nil_conv not_le)
qed

lemma segment_join_iff:
  assumes "seg_ok p" and "seg_ok s"
  shows "\<not> (- 1 - DmaSegment.length' p < DmaSegment.address p \<or>
      DmaSegment.address s \<noteq> DmaSegment.address p + DmaSegment.length' p) \<longleftrightarrow>
    unat (DmaSegment.address s) = unat (DmaSegment.address p) + unat (DmaSegment.length' p)"
    (is "\<not> (?w \<or> ?n) \<longleftrightarrow> ?eq")
proof
  assume "\<not> (?w \<or> ?n)"
  then show ?eq by (simp add: add_guard64 unat_add_nowrap)
next
  assume eq: ?eq
  have "unat (DmaSegment.address s) < 2 ^ 64" using unsigned_less [of "DmaSegment.address s"] by simp
  then have "\<not> ?w" using eq by (simp only: add_guard64)
  moreover have "unat (DmaSegment.address s) =
      unat (DmaSegment.address p + DmaSegment.length' p)"
    using eq \<open>\<not> ?w\<close> by (simp add: add_guard64 unat_add_nowrap)
  ultimately show "\<not> (?w \<or> ?n)" by (simp add: word_unat_eq_iff)
qed

lemma ResolveLinearDmaRange_loop_iff:
  "segs \<noteq> [] \<Longrightarrow> \<forall>s \<in> set segs. seg_ok s \<Longrightarrow>
    ResolveLinearDmaRange_loop segs \<longleftrightarrow> dma_bytes segs =
      [unat (DmaSegment.address (hd segs)) ..< unat (DmaSegment.address (hd segs)) + seg_total segs]"
proof (induction segs rule: ResolveLinearDmaRange_loop.induct)
  case (1 p s ss)
  let ?a = "unat (DmaSegment.address p)" and ?l = "unat (DmaSegment.length' p)"
    and ?t = "seg_total (s # ss)"
  have ok: "seg_ok p" "seg_ok s" using 1 by auto
  have "dma_bytes (p # s # ss) = [?a ..< ?a + seg_total (p # s # ss)] \<longleftrightarrow>
      [?a ..< ?a + ?l] @ dma_bytes (s # ss) = [?a ..< ?a + ?l] @ [?a + ?l ..< ?a + ?l + ?t]"
    by (simp only: upt_append) (simp add: seg_bytes_def seg_total_def ac_simps)
  also have "\<dots> \<longleftrightarrow> dma_bytes (s # ss) = [?a + ?l ..< ?a + ?l + ?t]" by simp
  also have "\<dots> \<longleftrightarrow> unat (DmaSegment.address s) = ?a + ?l \<and>
      dma_bytes (s # ss) = [unat (DmaSegment.address s) ..< unat (DmaSegment.address s) + ?t]"
    using dma_bytes_upt_hd [OF ok(2), of ss "?a + ?l" ?t] by metis
  finally have bytes: "dma_bytes (p # s # ss) = [?a ..< ?a + seg_total (p # s # ss)] \<longleftrightarrow> \<dots>" .
  have loop: "ResolveLinearDmaRange_loop (p # s # ss) \<longleftrightarrow>
      unat (DmaSegment.address s) = ?a + ?l \<and> ResolveLinearDmaRange_loop (s # ss)"
    using segment_join_iff [OF ok] by (subst ResolveLinearDmaRange_loop.simps(1)) argo
  have "unat (DmaSegment.address s) = ?a + ?l \<Longrightarrow> ResolveLinearDmaRange_loop (s # ss) \<longleftrightarrow>
      dma_bytes (s # ss) = [unat (DmaSegment.address s) ..< unat (DmaSegment.address s) + ?t]"
    using "1.IH" "1.prems" segment_join_iff [OF ok] by (metis list.sel(1) list.set_intros(2) list.simps(3))
  with loop bytes show ?case by (metis list.sel(1))
qed (auto simp: seg_bytes_def seg_total_def)

lemma ResolveLinearDmaRange_cases:
  "(DmaLinearRange.status (ResolveLinearDmaRange segs req) = DmaLinearRangeStatus.Ok \<longleftrightarrow>
     segs \<noteq> [] \<and> (\<forall>s \<in> set segs. seg_ok s) \<and> (\<exists>base. dma_bytes segs = [base ..< base + unat req])) \<and>
   (DmaLinearRange.status (ResolveLinearDmaRange segs req) = DmaLinearRangeStatus.Ok \<longrightarrow>
     dma_bytes segs = [unat (DmaLinearRange.address (ResolveLinearDmaRange segs req)) ..<
       unat (DmaLinearRange.address (ResolveLinearDmaRange segs req)) +
       unat (DmaLinearRange.length' (ResolveLinearDmaRange segs req))])"
proof -
  let ?r = "ResolveLinearDmaRange segs req"
  have Ok: "DmaLinearRange.status ?r = DmaLinearRangeStatus.Ok \<longleftrightarrow>
      DmaCoverage.status (ValidateDmaSegments segs req) = DmaCoverageStatus.Ok \<and>
      ResolveLinearDmaRange_loop segs"
    by (auto simp: ResolveLinearDmaRange_def Let_def coverage_bytes)
  have val: "DmaLinearRange.status ?r = DmaLinearRangeStatus.Ok \<Longrightarrow>
      DmaLinearRange.address ?r = DmaSegment.address (hd segs) \<and> DmaLinearRange.length' ?r = req"
    by (auto simp: ResolveLinearDmaRange_def Let_def split: if_splits)
  have len: "dma_bytes segs = [b ..< b + unat req] \<Longrightarrow> seg_total segs = unat req" for b
    using length_dma_bytes [of segs] by simp
  have base: "segs \<noteq> [] \<Longrightarrow> \<forall>s \<in> set segs. seg_ok s \<Longrightarrow> dma_bytes segs = [b ..< b + n] \<Longrightarrow>
      b = unat (DmaSegment.address (hd segs))" for b n
    using dma_bytes_upt_hd by (cases segs) auto
  show ?thesis
    using Ok val len base ResolveLinearDmaRange_loop_iff [of segs] by (auto simp: coverage_Ok_iff)
qed

text \<open>
  C20. \<open>ResolveLinearDmaRange\<close> accepts a segment list exactly when the segments are usable and
  the bus addresses of the requested bytes, in order, are consecutive; the range it returns is
  then that block of addresses.
\<close>
theorem ResolveLinearDmaRange_spec:
  "(DmaLinearRange.status (ResolveLinearDmaRange segs req) = DmaLinearRangeStatus.Ok \<longleftrightarrow>
     segs \<noteq> [] \<and> (\<forall>s \<in> set segs. seg_ok s) \<and> (\<exists>base. dma_bytes segs = [base ..< base + unat req])) \<and>
   (DmaLinearRange.status (ResolveLinearDmaRange segs req) = DmaLinearRangeStatus.Ok \<longrightarrow>
     dma_bytes segs = [unat (DmaLinearRange.address (ResolveLinearDmaRange segs req)) ..<
       unat (DmaLinearRange.address (ResolveLinearDmaRange segs req)) +
       unat (DmaLinearRange.length' (ResolveLinearDmaRange segs req))])"
  by (rule ResolveLinearDmaRange_cases)

theorem ResolveLinearDmaRange_spec_witness:
  "dma_bytes [\<lparr>DmaSegment.address = 0x1000, length' = 2\<rparr>, \<lparr>DmaSegment.address = 0x1002, length' = 1\<rparr>] =
    [0x1000 ..< 0x1003]"
  using ResolveLinearDmaRange_spec
    [of "[\<lparr>DmaSegment.address = 0x1000, length' = 2\<rparr>, \<lparr>DmaSegment.address = 0x1002, length' = 1\<rparr>]" "3"]
  by (simp add: ResolveLinearDmaRange_def ValidateDmaSegments_def)

section \<open>Page expansion\<close>

text \<open>The page addresses of one segment, and what they stand for.\<close>

definition seg_pages :: "u64 \<Rightarrow> DmaSegment \<Rightarrow> u64 list" where
  "seg_pages step s = map (\<lambda>i. DmaSegment.address s + of_nat (i * unat step))
     [0 ..< unat (DmaSegment.length' s) div unat step]"

definition seg_aligned :: "u64 \<Rightarrow> DmaSegment \<Rightarrow> bool" where
  "seg_aligned step s \<longleftrightarrow> unat step dvd unat (DmaSegment.address s) \<and>
     unat step dvd unat (DmaSegment.length' s)"

lemma seg_aligned_iff:
  "seg_aligned step s \<longleftrightarrow> DmaSegment.address s mod step = 0 \<and> DmaSegment.length' s mod step = 0"
  by (simp add: seg_aligned_def word_mod_eq_0_iff)

lemma Suc_mult_le_div: "i < l div k \<Longrightarrow> Suc i * k \<le> (l :: nat)"
proof -
  assume "i < l div k"
  then have "Suc i * k \<le> l div k * k" by (intro mult_le_mono1) simp
  also have "\<dots> \<le> l" by simp
  finally show ?thesis .
qed

lemma ExpandDmaSegment_pages_eq:
  assumes step: "0 < step" "unat step dvd unat len"
    and k: "k \<le> unat len div unat step" "unat off = k * unat step"
  shows "ExpandDmaSegment_pages base len step off acc =
    Some (acc @ map (\<lambda>i. base + of_nat (i * unat step)) [k ..< unat len div unat step])"
  using k
proof (induction "unat len div unat step - k" arbitrary: k off acc)
  case 0
  then have "k = unat len div unat step" by simp
  then have "k * unat step = unat len" using step(2) by (simp only: dvd_div_mult_self)
  with 0 show ?case
    by (subst ExpandDmaSegment_pages.simps) (simp add: word_less_nat_alt)
next
  case (Suc d)
  have pos: "0 < unat step" using step by (simp add: unat_gt_0)
  have lt: "k < unat len div unat step" using Suc.hyps(2) by simp
  then have "Suc k * unat step \<le> unat len" by (rule Suc_mult_le_div)
  then have fits: "unat off + unat step \<le> unat len" using Suc.prems by simp
  then have "unat (off + step) = Suc k * unat step"
    using Suc.prems unat_lt(4) [of len] by (subst unat_add_nowrap) auto
  moreover have "off < len" using fits pos by (simp add: word_less_nat_alt)
  moreover have "off = of_nat (k * unat step)" by (simp only: Suc.prems(2) [symmetric] of_nat_unat ucast_id)
  ultimately have rec: "ExpandDmaSegment_pages base len step off acc =
      Some ((acc @ [base + off]) @ map (\<lambda>i. base + of_nat (i * unat step))
        [Suc k ..< unat len div unat step])"
    using Suc.hyps(1) [of "Suc k" "off + step" "acc @ [base + off]"] Suc.hyps(2) lt
    by (subst ExpandDmaSegment_pages.simps) simp
  show ?case
    unfolding rec upt_conv_Cons [OF lt] using \<open>off = of_nat (k * unat step)\<close> by simp
qed

lemma ExpandDmaSegmentsToPages_loop_eq:
  assumes "0 < pageBytes out"
  shows "if \<forall>s \<in> set segs. seg_aligned (pageBytes out) s
    then ExpandDmaSegmentsToPages_loop segs out = Some (out\<lparr>pageAddresses :=
      pageAddresses out @ concat (map (seg_pages (pageBytes out)) segs),
      DmaPageMap.status := DmaPageMapStatus.Ok\<rparr>)
    else \<exists>r. ExpandDmaSegmentsToPages_loop segs out = Some r \<and>
      DmaPageMap.status r \<noteq> DmaPageMapStatus.Ok"
  using assms
proof (induction segs arbitrary: out)
  case (Cons s ss)
  show ?case
  proof (cases "seg_aligned (pageBytes out) s")
    case True
    then have "ExpandDmaSegment_pages (DmaSegment.address s) (DmaSegment.length' s) (pageBytes out) 0
        (pageAddresses out) = Some (pageAddresses out @ seg_pages (pageBytes out) s)"
      using Cons.prems ExpandDmaSegment_pages_eq [of "pageBytes out" "DmaSegment.length' s" 0 0]
      by (simp add: seg_aligned_def seg_pages_def)
    with True Cons.prems
      Cons.IH [of "out\<lparr>pageAddresses := pageAddresses out @ seg_pages (pageBytes out) s\<rparr>"]
    show ?thesis by (simp add: seg_aligned_iff)
  next
    case False
    then show ?thesis by (auto simp: seg_aligned_iff)
  qed
qed simp

lemma length_seg_pages:
  "(\<forall>s \<in> set segs. seg_aligned step s) \<Longrightarrow>
    length (concat (map (seg_pages step) segs)) = seg_total segs div unat step"
proof (induction segs)
  case (Cons s ss)
  then have "unat step dvd unat (DmaSegment.length' s)" by (simp add: seg_aligned_def)
  then have "(unat (DmaSegment.length' s) + m) div unat step =
      unat (DmaSegment.length' s) div unat step + m div unat step" for m
    by (simp add: div_plus_div_distrib_dvd_left)
  with Cons show ?case by (simp add: seg_total_def seg_pages_def)
qed (simp add: seg_total_def)

text \<open>The bytes a page list stands for: each page is a block of consecutive addresses.\<close>

definition page_bytes :: "u64 \<Rightarrow> u64 list \<Rightarrow> nat list" where
  "page_bytes step ps = concat (map (\<lambda>p. [unat p ..< unat p + unat step]) ps)"

lemma blocks_upt:
  "concat (map (\<lambda>i. [b + i * k ..< b + i * k + k]) [0 ..< n]) = [b ..< b + n * (k :: nat)]"
proof (induction n)
  case (Suc n)
  then show ?case using upt_append [of b "n * k" k] by (simp add: ac_simps)
qed simp

lemma seg_pages_bytes:
  assumes ok: "seg_ok s" and al: "seg_aligned step s" and pos: "0 < step"
  shows "page_bytes step (seg_pages step s) = seg_bytes s"
    and "p \<in> set (seg_pages step s) \<Longrightarrow> unat step dvd unat p"
proof -
  let ?b = "unat (DmaSegment.address s)" and ?l = "unat (DmaSegment.length' s)" and ?k = "unat step"
  have k: "0 < ?k" using pos by (simp add: unat_gt_0)
  have page: "unat (DmaSegment.address s + of_nat (i * ?k)) = ?b + i * ?k" if "i < ?l div ?k" for i
  proof -
    have "i * ?k < ?l" using Suc_mult_le_div [OF that] k by simp
    then have "?b + i * ?k < 2 ^ 64" using ok by (simp add: seg_ok_def)
    moreover from this have "unat (of_nat (i * ?k) :: u64) = i * ?k"
      by (intro unat_of_nat_small) simp
    ultimately show ?thesis by (subst unat_add_nowrap) auto
  qed
  have "page_bytes step (seg_pages step s) =
      concat (map (\<lambda>i. [?b + i * ?k ..< ?b + i * ?k + ?k]) [0 ..< ?l div ?k])"
    unfolding page_bytes_def seg_pages_def map_map
    by (intro arg_cong [where f = concat] map_cong refl) (simp add: page del: of_nat_mult)
  then show "page_bytes step (seg_pages step s) = seg_bytes s"
    using al by (simp only: blocks_upt) (simp add: seg_bytes_def seg_aligned_def)
  show "unat step dvd unat p" if p: "p \<in> set (seg_pages step s)"
    using p al page by (auto simp: seg_pages_def seg_aligned_def)
qed

lemma page_bytes_append: "page_bytes step (ps @ qs) = page_bytes step ps @ page_bytes step qs"
  by (simp add: page_bytes_def)

lemma segs_pages_bytes:
  assumes "\<forall>s \<in> set segs. seg_ok s \<and> seg_aligned step s" and "0 < step"
  shows "page_bytes step (concat (map (seg_pages step) segs)) = dma_bytes segs"
  using assms
  by (induction segs) (auto simp: page_bytes_append seg_pages_bytes(1), simp add: page_bytes_def)

definition page_size_ok :: "u64 \<Rightarrow> bool" where
  "page_size_ok p \<longleftrightarrow> p \<noteq> 0 \<and> p AND (p - 1) = 0"

lemma Expand_core:
  assumes "page_size_ok page" and "req \<noteq> 0" "unat page dvd unat req"
    and cov: "DmaCoverage.status (ValidateDmaSegments segs req) = DmaCoverageStatus.Ok"
  shows "\<exists>m. ExpandDmaSegmentsToPages segs req page = Some m \<and>
    (DmaPageMap.status m = DmaPageMapStatus.Ok \<longleftrightarrow> (\<forall>s \<in> set segs. seg_aligned page s)) \<and>
    (DmaPageMap.status m = DmaPageMapStatus.Ok \<longrightarrow>
      pageAddresses m = concat (map (seg_pages page) segs))"
proof -
  let ?out = "\<lparr>DmaPageMap.status = DmaPageMapStatus.CoverageError, pageBytes = page,
    pageAddresses = []\<rparr>"
  have tot: "seg_total segs = unat req" using cov by (simp add: coverage_Ok_iff)
  have small: "unat (req div page) \<le> SIZE_MAX" using unat_lt(4) [of "req div page"] by linarith
  have eq: "ExpandDmaSegmentsToPages segs req page = do {
      r \<leftarrow> ExpandDmaSegmentsToPages_loop segs ?out;
      Some (if DmaPageMap.status r \<noteq> DmaPageMapStatus.Ok then r
        else if length (pageAddresses r) \<noteq> unat (req div page)
        then r\<lparr>pageAddresses := [], DmaPageMap.status := DmaPageMapStatus.CoverageError\<rparr>
        else r) }"
    unfolding ExpandDmaSegmentsToPages_def Let_def
    using assms coverage_bytes [OF cov] small by (simp add: page_size_ok_def word_mod_eq_0_iff)
  have pos: "0 < pageBytes ?out" using assms(1) by (simp add: page_size_ok_def word_neq_0_conv)
  show ?thesis
  proof (cases "\<forall>s \<in> set segs. seg_aligned page s")
    case True
    then have "length (concat (map (seg_pages page) segs)) = unat (req div page)"
      using length_seg_pages [of segs page] by (simp only: tot unat_div_distrib)
    with True show ?thesis
      using ExpandDmaSegmentsToPages_loop_eq [OF pos, of segs] unfolding eq by simp
  next
    case False
    then obtain r where "ExpandDmaSegmentsToPages_loop segs ?out = Some r"
      "DmaPageMap.status r \<noteq> DmaPageMapStatus.Ok"
    proof -
      assume found: "\<And>r. ExpandDmaSegmentsToPages_loop segs ?out = Some r \<Longrightarrow>
        DmaPageMap.status r \<noteq> DmaPageMapStatus.Ok \<Longrightarrow> thesis"
      have "\<not> (\<forall>s \<in> set segs. seg_aligned (pageBytes ?out) s)" using False by simp
      with ExpandDmaSegmentsToPages_loop_eq [OF pos, of segs] found show thesis
        by (simp only: if_False) blast
    qed
    with False show ?thesis unfolding eq by simp
  qed
qed

lemma Expand_reject:
  assumes "\<not> (page_size_ok page \<and> req \<noteq> 0 \<and> unat page dvd unat req \<and>
    DmaCoverage.status (ValidateDmaSegments segs req) = DmaCoverageStatus.Ok)"
  shows "\<exists>m. ExpandDmaSegmentsToPages segs req page = Some m \<and>
    DmaPageMap.status m \<noteq> DmaPageMapStatus.Ok"
  using assms unfolding ExpandDmaSegmentsToPages_def Let_def page_size_ok_def word_mod_eq_0_iff
  by auto

definition page_request_ok :: "DmaSegment list \<Rightarrow> u64 \<Rightarrow> u64 \<Rightarrow> bool" where
  "page_request_ok segs req page \<longleftrightarrow> page_size_ok page \<and> req \<noteq> 0 \<and> unat page dvd unat req \<and>
     segs \<noteq> [] \<and> (\<forall>s \<in> set segs. seg_ok s \<and> seg_aligned page s) \<and> seg_total segs = unat req"

lemma Expand_Ok:
  "\<exists>m. ExpandDmaSegmentsToPages segs req page = Some m \<and>
    (DmaPageMap.status m = DmaPageMapStatus.Ok \<longleftrightarrow> page_request_ok segs req page) \<and>
    (DmaPageMap.status m = DmaPageMapStatus.Ok \<longrightarrow>
      pageAddresses m = concat (map (seg_pages page) segs))"
proof (cases "page_size_ok page \<and> req \<noteq> 0 \<and> unat page dvd unat req \<and>
    DmaCoverage.status (ValidateDmaSegments segs req) = DmaCoverageStatus.Ok")
  case True
  then obtain m where "ExpandDmaSegmentsToPages segs req page = Some m"
    "DmaPageMap.status m = DmaPageMapStatus.Ok \<longleftrightarrow> (\<forall>s \<in> set segs. seg_aligned page s)"
    "DmaPageMap.status m = DmaPageMapStatus.Ok \<longrightarrow>
      pageAddresses m = concat (map (seg_pages page) segs)"
    using Expand_core by blast
  with True show ?thesis by (auto simp: page_request_ok_def coverage_Ok_iff)
next
  case False
  then obtain m where "ExpandDmaSegmentsToPages segs req page = Some m"
    "DmaPageMap.status m \<noteq> DmaPageMapStatus.Ok" using Expand_reject by blast
  with False show ?thesis by (auto simp: page_request_ok_def coverage_Ok_iff)
qed

lemma ExpandDmaSegmentsToPages_cases:
  "\<exists>m. ExpandDmaSegmentsToPages segs req page = Some m \<and>
    (DmaPageMap.status m = DmaPageMapStatus.Ok \<longleftrightarrow> page_request_ok segs req page) \<and>
    (DmaPageMap.status m = DmaPageMapStatus.Ok \<longrightarrow>
      page_bytes page (pageAddresses m) = dma_bytes segs \<and>
      length (pageAddresses m) = unat req div unat page \<and>
      (\<forall>p \<in> set (pageAddresses m). unat page dvd unat p))"
proof -
  obtain m where m: "ExpandDmaSegmentsToPages segs req page = Some m"
    "DmaPageMap.status m = DmaPageMapStatus.Ok \<longleftrightarrow> page_request_ok segs req page"
    "DmaPageMap.status m = DmaPageMapStatus.Ok \<longrightarrow>
      pageAddresses m = concat (map (seg_pages page) segs)"
    using Expand_Ok by blast
  moreover have "page_request_ok segs req page \<Longrightarrow> 0 < page"
    by (simp add: page_request_ok_def page_size_ok_def word_neq_0_conv)
  ultimately show ?thesis
    using segs_pages_bytes [of segs page] length_seg_pages [of segs page] seg_pages_bytes(2)
    by (intro exI [of _ m]) (auto simp: page_request_ok_def)
qed

text \<open>
  C21. \<open>ExpandDmaSegmentsToPages\<close> always returns; it accepts exactly the page-aligned
  mappings of a whole number of pages, and then returns one page-aligned address per logical
  page whose blocks, in order, are the bus addresses of the mapping.
\<close>
theorem ExpandDmaSegmentsToPages_spec:
  "\<exists>m. ExpandDmaSegmentsToPages segs req page = Some m \<and>
    (DmaPageMap.status m = DmaPageMapStatus.Ok \<longleftrightarrow> page_request_ok segs req page) \<and>
    (DmaPageMap.status m = DmaPageMapStatus.Ok \<longrightarrow>
      page_bytes page (pageAddresses m) = dma_bytes segs \<and>
      length (pageAddresses m) = unat req div unat page \<and>
      (\<forall>p \<in> set (pageAddresses m). unat page dvd unat p))"
  by (rule ExpandDmaSegmentsToPages_cases)

theorem ExpandDmaSegmentsToPages_witness:
  "page_request_ok [\<lparr>DmaSegment.address = 0x5000, length' = 0x2000\<rparr>] 0x2000 0x1000 \<and>
   (\<exists>m. ExpandDmaSegmentsToPages [\<lparr>DmaSegment.address = 0x5000, length' = 0x2000\<rparr>] 0x2000 0x1000 =
     Some m \<and> page_bytes 0x1000 (pageAddresses m) = [0x5000 ..< 0x7000])"
proof -
  let ?segs = "[\<lparr>DmaSegment.address = 0x5000, length' = 0x2000\<rparr>]"
  have "page_request_ok ?segs 0x2000 0x1000"
    by (simp add: page_request_ok_def page_size_ok_def seg_ok_def seg_aligned_def seg_total_def)
  moreover have "dma_bytes ?segs = [0x5000 ..< 0x7000]"
    unfolding dma_bytes_def seg_bytes_def by (simp del: upt_rec_numeral)
  ultimately show ?thesis
    using ExpandDmaSegmentsToPages_spec [of ?segs "0x2000" "0x1000"] by (simp only:) blast
qed

section \<open>Conservative chunks\<close>

lemma PlanConservativeDmaChunks_loop_total:
  assumes "0 < maxChunk" and "unat off \<le> unat tot"
  shows "\<exists>cs. PlanConservativeDmaChunks_loop tot maxChunk off acc = Some (acc @ cs) \<and>
    tiles (unat off) (map (\<lambda>c. (unat (DmaChunk.offset c), unat (DmaChunk.length' c))) cs) (unat tot) \<and>
    (\<forall>c \<in> set cs. DmaChunk.length' c \<le> maxChunk) \<and>
    (unat maxChunk dvd unat off \<longrightarrow> (\<forall>c \<in> set cs. unat maxChunk dvd unat (DmaChunk.offset c)))"
  using assms(2)
proof (induction "unat tot - unat off" arbitrary: off acc rule: less_induct)
  case less
  show ?case
  proof (cases "off < tot")
    case False
    then have "unat off = unat tot" using less.prems by (simp add: word_less_nat_alt)
    with False show ?thesis by (subst PlanConservativeDmaChunks_loop.simps) simp
  next
    case True
    define n where "n = min maxChunk (tot - off)"
    let ?c = "\<lparr>DmaChunk.offset = off, length' = n\<rparr>"
    have diff: "unat (tot - off) = unat tot - unat off" using True by (intro unat_sub) simp
    have pos: "0 < unat n" using assms(1) True by (auto simp: n_def min_def unat_gt_0)
    have n_le: "unat n \<le> unat tot - unat off" using diff by (simp add: n_def min_def word_le_nat_alt)
    then have add: "unat (off + n) = unat off + unat n"
      using less.prems unat_lt(4) [of tot] by (intro unat_add_nowrap) simp
    have step: "PlanConservativeDmaChunks_loop tot maxChunk off acc =
        PlanConservativeDmaChunks_loop tot maxChunk (off + n) (acc @ [?c])"
      using True by (subst PlanConservativeDmaChunks_loop.simps) (simp add: n_def Let_def)
    have "unat tot - unat (off + n) < unat tot - unat off" "unat (off + n) \<le> unat tot"
      using add pos n_le less.prems by simp_all
    from less.hyps [OF this, of "acc @ [?c]"] obtain cs where cs:
      "PlanConservativeDmaChunks_loop tot maxChunk (off + n) (acc @ [?c]) = Some ((acc @ [?c]) @ cs)"
      "tiles (unat (off + n)) (map (\<lambda>c. (unat (DmaChunk.offset c), unat (DmaChunk.length' c))) cs) (unat tot)"
      "\<forall>c \<in> set cs. DmaChunk.length' c \<le> maxChunk"
      "unat maxChunk dvd unat (off + n) \<longrightarrow> (\<forall>c \<in> set cs. unat maxChunk dvd unat (DmaChunk.offset c))"
      by blast
    have "unat maxChunk dvd unat off \<Longrightarrow> \<forall>c \<in> set cs. unat maxChunk dvd unat (DmaChunk.offset c)"
    proof (cases "n = maxChunk")
      case True
      assume "unat maxChunk dvd unat off"
      with True cs(4) add show ?thesis by simp
    next
      case False
      then have "n = tot - off" by (auto simp: n_def min_def split: if_splits)
      then have "unat (off + n) = unat tot" using add diff less.prems by simp
      with cs(2) tiles_count [of "unat tot" _ "unat tot"] have "cs = []" by fastforce
      then show ?thesis by simp
    qed
    moreover have "n \<le> maxChunk" by (simp add: n_def)
    ultimately show ?thesis using step cs pos add by (intro exI [of _ "?c # cs"]) simp
  qed
qed

definition chunk_request_ok :: "u64 \<Rightarrow> u32 \<Rightarrow> bool" where
  "chunk_request_ok page limit \<longleftrightarrow> page \<noteq> 0 \<and> limit \<noteq> 0 \<and> unat page * unat limit < 2 ^ 64"

lemma chunk_guard_iff:
  assumes "limit \<noteq> (0 :: u32)"
  shows "- 1 div (ucast limit :: u64) < page \<longleftrightarrow> 2 ^ 64 \<le> unat page * unat limit"
proof -
  have "(ucast limit :: u64) \<noteq> 0" using assms by simp
  from mult_guard_iff [OF this, of page] show ?thesis by (auto simp: not_le [symmetric])
qed

lemma PlanConservativeDmaChunks_cases:
  "(chunk_request_ok page limit \<and> (\<exists>cs. PlanConservativeDmaChunks tot page limit =
      Some \<lparr>DmaPlan.status = DmaPlanStatus.Ok, totalBytes = tot, pageSize = page,
        segmentLimit = limit, chunks = cs\<rparr> \<and>
      tiles 0 (map (\<lambda>c. (unat (DmaChunk.offset c), unat (DmaChunk.length' c))) cs) (unat tot) \<and>
      (\<forall>c \<in> set cs. unat (DmaChunk.length' c) \<le> unat page * unat limit \<and>
        unat page * unat limit dvd unat (DmaChunk.offset c)))) \<or>
   (\<not> chunk_request_ok page limit \<and> (\<exists>p. PlanConservativeDmaChunks tot page limit = Some p \<and>
      DmaPlan.status p \<noteq> DmaPlanStatus.Ok))"
proof (cases "chunk_request_ok page limit")
  case True
  let ?m = "page * ucast limit :: u64"
  have m: "unat ?m = unat page * unat limit"
    using True by (subst unat_mult_nowrap) (simp_all add: chunk_request_ok_def)
  have "0 < unat ?m" using True by (simp only: m chunk_request_ok_def) (simp add: unat_gt_0)
  then have pos: "0 < ?m" by (simp add: unat_gt_0 word_neq_0_conv)
  have "\<not> - 1 div (ucast limit :: u64) < page"
    using True chunk_guard_iff [of limit page] by (simp add: chunk_request_ok_def)
  then have "PlanConservativeDmaChunks tot page limit = do {
      cs \<leftarrow> PlanConservativeDmaChunks_loop tot ?m 0 [];
      Some \<lparr>DmaPlan.status = DmaPlanStatus.Ok, totalBytes = tot, pageSize = page,
        segmentLimit = limit, chunks = cs\<rparr> }"
    using True by (simp add: PlanConservativeDmaChunks_def chunk_request_ok_def Let_def)
  moreover obtain cs where "PlanConservativeDmaChunks_loop tot ?m 0 [] = Some cs"
    "tiles 0 (map (\<lambda>c. (unat (DmaChunk.offset c), unat (DmaChunk.length' c))) cs) (unat tot)"
    "\<forall>c \<in> set cs. DmaChunk.length' c \<le> ?m" "\<forall>c \<in> set cs. unat ?m dvd unat (DmaChunk.offset c)"
    using PlanConservativeDmaChunks_loop_total [OF pos, of 0 tot "[]"] by auto
  ultimately show ?thesis using True m by (auto simp: word_le_nat_alt)
next
  case False
  then show ?thesis
    using chunk_guard_iff [of limit page]
    by (auto simp: PlanConservativeDmaChunks_def chunk_request_ok_def Let_def)
qed

text \<open>
  C22. \<open>PlanConservativeDmaChunks\<close> always returns; unless a parameter is zero or the chunk size
  overflows, its chunks tile the request, each holds at most \<open>segmentLimit\<close> pages and starts
  on a multiple of the chunk size.
\<close>
theorem PlanConservativeDmaChunks_spec:
  "\<exists>p. PlanConservativeDmaChunks tot page limit = Some p \<and>
    (DmaPlan.status p = DmaPlanStatus.Ok \<longleftrightarrow> chunk_request_ok page limit) \<and>
    (DmaPlan.status p = DmaPlanStatus.Ok \<longrightarrow>
      tiles 0 (map (\<lambda>c. (unat (DmaChunk.offset c), unat (DmaChunk.length' c))) (DmaPlan.chunks p))
        (unat tot) \<and>
      (\<forall>c \<in> set (DmaPlan.chunks p). unat (DmaChunk.length' c) \<le> unat page * unat limit \<and>
        unat page * unat limit dvd unat (DmaChunk.offset c)))"
  using PlanConservativeDmaChunks_cases [of page limit tot] by auto

theorem PlanConservativeDmaChunks_witness:
  "chunk_request_ok 0x1000 32 \<and> (\<exists>p. PlanConservativeDmaChunks 0x25000 0x1000 32 = Some p \<and>
    tiles 0 (map (\<lambda>c. (unat (DmaChunk.offset c), unat (DmaChunk.length' c))) (DmaPlan.chunks p)) 0x25000)"
proof -
  have ok: "chunk_request_ok 0x1000 32" by (simp add: chunk_request_ok_def)
  moreover have "unat (0x25000 :: u64) = 0x25000" by simp
  ultimately show ?thesis
    using PlanConservativeDmaChunks_spec [of "0x25000" "0x1000" "32"] by auto
qed

text \<open>The planner keeps the contract of a chunk planner.\<close>

definition conservative_chunks :: "u64 \<times> u64 \<times> u32 \<Rightarrow> DmaChunk list" where
  "conservative_chunks r = (case r of (tot, page, limit) \<Rightarrow>
     case PlanConservativeDmaChunks tot page limit of Some p \<Rightarrow> DmaPlan.chunks p | None \<Rightarrow> [])"

interpretation dma_chunks: tiling "\<lambda>(tot, page, limit). chunk_request_ok page limit"
  conservative_chunks "\<lambda>c. unat (DmaChunk.offset c)" "\<lambda>c. unat (DmaChunk.length' c)"
  "\<lambda>_. 0" "\<lambda>(tot, page, limit). unat tot" "\<lambda>(tot, page, limit). unat page * unat limit"
proof (unfold_locales, goal_cases)
  case (1 i)
  obtain tot page limit where i: "i = (tot, page, limit)" by (metis prod_cases3)
  with 1 PlanConservativeDmaChunks_cases [of page limit tot] show ?case
    by (auto simp: conservative_chunks_def)
next
  case (2 i c)
  obtain tot page limit where i: "i = (tot, page, limit)" by (metis prod_cases3)
  with 2 PlanConservativeDmaChunks_cases [of page limit tot] show ?case
    by (auto simp: conservative_chunks_def)
qed

end
