(* ===== verification/DriverKit.thy ===== *)
theory DriverKit
  imports Prelude
begin

text \<open>
  The DriverKit services the driver calls, as parameters. A register aperture is a record of
  functions: what \<open>CreateMapping\<close> answers and what a register read returns, as arbitrary
  functions of the history of accesses, so that a device may change registers on its own.
  Every access of the driver appends an event to the history. Nothing is assumed of the
  device beyond the documented effect of a mapping: a load or store at byte \<open>i\<close> of a mapping
  created at offset \<open>o\<close> reaches BAR offset \<open>o + i\<close>.
\<close>

text \<open>The return codes the sources name, and any other code of a service.\<close>

datatype kern_return =
  kIOReturnSuccess | kIOReturnBadArgument | kIOReturnError | kIOReturnIOError
  | kIOReturnNoDevice | kIOReturnNoMemory | kIOReturnNoResources | kIOReturnNotFound
  | kIOReturnNotPermitted | kIOReturnNotReady | kIOReturnTimeout | kIOReturnUnsupported
  | OtherReturn int

type_synonym handle = nat

text \<open>The events of the DMA services: what is created, released, prepared and completed, the
  synchronisations (direction, command, offset in the mapping, length, offset in the buffer) and
  the stores to host memory.\<close>

datatype DmaEvent =
  BufferCreated handle | BufferReleased handle
  | ChunksAllocated | ChunksFreed
  | CommandCreated handle | CommandReleased handle
  | DmaPrepared handle | DmaCompleted handle
  | DmaSynced bool handle u64 u64 u64
  | HostFill u64 u64
  | HostStore u64 "byte list"

datatype Event =
  Mapped u64 u64
  | RegRead u32 u32
  | RegWrite u32 u32
  | Sleep u64
  | CfgRead u64 u32
  | CfgWrite u64 u32
  | DeviceReset u32
  | Dma DmaEvent

type_synonym history = "Event list"

record Aperture =
  CreateMapping :: "history \<Rightarrow> u64 \<Rightarrow> u64 \<Rightarrow> kern_return \<times> u64 option"
  load :: "history \<Rightarrow> u32 \<Rightarrow> u32"

text \<open>The PCI device: configuration space, capabilities and resets.\<close>

record PciDevice =
  cfg_load :: "history \<Rightarrow> u64 \<Rightarrow> u32"
  FindPCICapability :: "history \<Rightarrow> u32 \<Rightarrow> kern_return \<times> u64"
  ResetDevice :: "history \<Rightarrow> u32 \<Rightarrow> kern_return"

definition ConfigurationRead16 :: "PciDevice \<Rightarrow> u64 \<Rightarrow> history \<Rightarrow> u16 \<times> history" where
  "ConfigurationRead16 pci off h = (let v = ucast (cfg_load pci h off) in (v, h @ [CfgRead off (ucast v)]))"

definition ConfigurationRead32 :: "PciDevice \<Rightarrow> u64 \<Rightarrow> history \<Rightarrow> u32 \<times> history" where
  "ConfigurationRead32 pci off h = (let v = cfg_load pci h off in (v, h @ [CfgRead off v]))"

definition ConfigurationWrite16 :: "u64 \<Rightarrow> u16 \<Rightarrow> history \<Rightarrow> history" where
  "ConfigurationWrite16 off v h = h @ [CfgWrite off (ucast v)]"

text \<open>One register load or store through a mapping.\<close>

definition reg_read :: "Aperture \<Rightarrow> u32 \<Rightarrow> history \<Rightarrow> u32 \<times> history" where
  "reg_read dev off h = (let v = load dev h off in (v, h @ [RegRead off v]))"

definition reg_write :: "u32 \<Rightarrow> u32 \<Rightarrow> history \<Rightarrow> history" where
  "reg_write off v h = h @ [RegWrite off v]"

text \<open>A system-wide view of a history: the milliseconds slept.\<close>

fun slept :: "history \<Rightarrow> nat" where
  "slept [] = 0"
| "slept (Sleep n # es) = unat n + slept es"
| "slept (_ # es) = slept es"

lemma slept_append [simp]: "slept (xs @ ys) = slept xs + slept ys"
  by (induction xs rule: slept.induct) auto

text \<open>
  Safety of the stores of a history: each store must satisfy \<open>P prev off v\<close>, where \<open>prev\<close> is
  the event just before it.
\<close>

fun stores_ok :: "(Event option \<Rightarrow> u32 \<Rightarrow> u32 \<Rightarrow> bool) \<Rightarrow> Event option \<Rightarrow> history \<Rightarrow> bool" where
  "stores_ok P prev [] \<longleftrightarrow> True"
| "stores_ok P prev (RegWrite off v # es) \<longleftrightarrow> P prev off v \<and> stores_ok P (Some (RegWrite off v)) es"
| "stores_ok P prev (e # es) \<longleftrightarrow> stores_ok P (Some e) es"

definition last_event :: "Event option \<Rightarrow> history \<Rightarrow> Event option" where
  "last_event prev es = (if es = [] then prev else Some (last es))"

lemma last_event_Cons [simp]: "last_event prev (e # es) = last_event (Some e) es"
  by (simp add: last_event_def)

lemma last_event_Nil [simp]: "last_event prev [] = prev"
  by (simp add: last_event_def)

lemma last_event_snoc [simp]: "last_event prev (es @ [e]) = Some e"
  by (simp add: last_event_def)

lemma stores_ok_append [simp]:
  "stores_ok P prev (xs @ ys) \<longleftrightarrow> stores_ok P prev xs \<and> stores_ok P (last_event prev xs) ys"
  by (induction P prev xs rule: stores_ok.induct) auto

text \<open>What one driver step may add to the history: safe stores only, and so much sleep.\<close>

definition extends ::
    "(Event option \<Rightarrow> u32 \<Rightarrow> u32 \<Rightarrow> bool) \<Rightarrow> history \<Rightarrow> history \<Rightarrow> nat \<Rightarrow> bool" where
  "extends P h h' ms \<longleftrightarrow> (\<exists>new. h' = h @ new \<and> slept new = ms \<and>
     stores_ok P (last_event None h) new)"

lemma extends_refl [simp]: "extends P h h 0"
  by (auto simp: extends_def)

lemma last_event_append: "last_event (last_event p xs) ys = last_event p (xs @ ys)"
  by (simp add: last_event_def)

lemma extends_trans:
  assumes "extends P h h1 m" and "extends P h1 h2 n"
  shows "extends P h h2 (m + n)"
proof -
  obtain x y where x: "h1 = h @ x" "slept x = m" "stores_ok P (last_event None h) x"
    and y: "h2 = h1 @ y" "slept y = n" "stores_ok P (last_event None h1) y"
    using assms by (auto simp: extends_def)
  then show ?thesis
    by (auto simp: extends_def last_event_append intro!: exI [of _ "x @ y"])
qed

lemma extends_event:
  "(case e of RegWrite off v \<Rightarrow> P (last_event None h) off v | _ \<Rightarrow> True) \<Longrightarrow>
    extends P h (h @ [e]) (case e of Sleep n \<Rightarrow> unat n | _ \<Rightarrow> 0)"
  by (cases e) (auto simp: extends_def)

lemma extends_read [simp]: "extends P h (h @ [RegRead a v]) 0"
  using extends_event [where e = "RegRead a v"] by simp

lemma extends_map [simp]: "extends P h (h @ [Mapped a v]) 0"
  using extends_event [where e = "Mapped a v"] by simp

lemma extends_sleep [simp]: "extends P h (h @ [Sleep n]) (unat n)"
  using extends_event [where e = "Sleep n"] by simp

end
