(* ===== verification/Falcon.thy ===== *)
theory Falcon
  imports Prelude
begin

text \<open>
  Falcon microcontroller plans: the planner (\<open>src/core/falcon_plan.cpp\<close>), which turns a
  reset or an authenticated firmware start into a list of register actions, and the static
  register policy (\<open>src/core/falcon_policy.cpp\<close>), which accepts or rejects such a list
  independently of the planner.
\<close>

section \<open>Data\<close>

datatype Engine = Gsp | Sec2

datatype ActionKind =
  Write32 | MaskedWrite | PollMaskEqual | DelayMilliseconds | StartCpuRespectAlias
  | IfMaskEqualBegin | EndIf

text \<open>The field \<open>mask\<close> is \<open>mask'\<close> here; \<open>mask n\<close> is the word with the low \<open>n\<close> bits set.\<close>

record Action =
  kind :: ActionKind
  address :: u32
  "value" :: u32
  mask' :: u32
  timeoutMs :: u32

record HsParameters =
  engine :: Engine
  imagePhysicalAddress :: u64
  codeOffset :: u32
  dataOffset :: u32
  imemPhysicalBase :: u32
  imemVirtualBase :: u32
  imemBytes :: u32
  dmemPhysicalBase :: u32
  dmemVirtualBase :: u32
  dmemBytes :: u32
  pkcOffset :: u32
  engineIdMask :: u32
  ucodeId :: byte
  mailbox :: "u64 option"

record Plan =
  valid :: bool
  actions :: "Action list"

datatype ActionPolicyDecision =
  Allowed | RequiresStartCpuAliasSupport | DeniedUnknownAddress | DeniedMask | DeniedValue
  | DeniedTimeout | DeniedControlFlow

record PlanPolicyReport =
  valid :: bool
  requiresStartCpuAliasSupport :: bool
  actionCount :: nat
  firstDeniedIndex :: nat
  firstDenied :: ActionPolicyDecision

record ResolvedStartCpuAction =
  valid :: bool
  usedAlias :: bool
  action :: Action

record RegisterRule =
  relative :: u32
  mask' :: u32

section \<open>Constants\<close>

named_theorems falcon_consts \<open>register offsets, masks and command words\<close>

definition EngineBase :: "Engine \<Rightarrow> u32" where
  "EngineBase e = (if e = Gsp then 0x00110000 else 0x00840000)"

definition kEngineReset :: u32 where [falcon_consts]: "kEngineReset = 0x3C0"
definition kMailbox0 :: u32 where [falcon_consts]: "kMailbox0 = 0x040"
definition kMailbox1 :: u32 where [falcon_consts]: "kMailbox1 = 0x044"
definition kHwcfg2 :: u32 where [falcon_consts]: "kHwcfg2 = 0x0F4"
definition kCpuCtl :: u32 where [falcon_consts]: "kCpuCtl = 0x100"
definition kBootVec :: u32 where [falcon_consts]: "kBootVec = 0x104"
definition kDmaCtl :: u32 where [falcon_consts]: "kDmaCtl = 0x10C"
definition kDmaBase :: u32 where [falcon_consts]: "kDmaBase = 0x110"
definition kDmaMemOffset :: u32 where [falcon_consts]: "kDmaMemOffset = 0x114"
definition kDmaCmd :: u32 where [falcon_consts]: "kDmaCmd = 0x118"
definition kDmaFbOffset :: u32 where [falcon_consts]: "kDmaFbOffset = 0x11C"
definition kDmaBase1 :: u32 where [falcon_consts]: "kDmaBase1 = 0x128"
definition kFalconRm :: u32 where [falcon_consts]: "kFalconRm = 0x084"
definition kRiscvBcrCtrl :: u32 where [falcon_consts]: "kRiscvBcrCtrl = 0x1668"
definition kFbifTransCfg0 :: u32 where [falcon_consts]: "kFbifTransCfg0 = 0x600"
definition kFbifCtl :: u32 where [falcon_consts]: "kFbifCtl = 0x624"
definition kBromModSel :: u32 where [falcon_consts]: "kBromModSel = 0x1180"
definition kBromUcodeId :: u32 where [falcon_consts]: "kBromUcodeId = 0x1198"
definition kBromEngineIdMask :: u32 where [falcon_consts]: "kBromEngineIdMask = 0x119C"
definition kBromParaAddr0 :: u32 where [falcon_consts]: "kBromParaAddr0 = 0x1210"
definition kHwcfg2RiscvMask :: u32 where [falcon_consts]: "kHwcfg2RiscvMask = 0x400"
definition kHwcfg2ScrubbingMask :: u32 where [falcon_consts]: "kHwcfg2ScrubbingMask = 0x1000"
definition kCpuCtlHaltedMask :: u32 where [falcon_consts]: "kCpuCtlHaltedMask = 0x10"
definition kDmaCmdFullMask :: u32 where [falcon_consts]: "kDmaCmdFullMask = 1"
definition kDmaCmdIdleMask :: u32 where [falcon_consts]: "kDmaCmdIdleMask = 2"
definition kFbifAllowPhysicalNoContextMask :: u32 where
  [falcon_consts]: "kFbifAllowPhysicalNoContextMask = 0x80"
definition kFbifTransCfgMask :: u32 where [falcon_consts]: "kFbifTransCfgMask = 7"
definition kFbifPhysicalFramebuffer :: u32 where [falcon_consts]: "kFbifPhysicalFramebuffer = 4"
definition kRiscvBcrMask :: u32 where [falcon_consts]: "kRiscvBcrMask = 0x111"
definition kRiscvBootValue :: u32 where [falcon_consts]: "kRiscvBootValue = 0x110"
definition kImemDmaCommand :: u32 where [falcon_consts]: "kImemDmaCommand = 0x614"
definition kDmemDmaCommand :: u32 where [falcon_consts]: "kDmemDmaCommand = 0x600"
definition kTransferBytes :: u32 where [falcon_consts]: "kTransferBytes = 256"
definition kDefaultPollTimeoutMs :: u32 where [falcon_consts]: "kDefaultPollTimeoutMs = 10000"

section \<open>The planner\<close>

abbreviation act :: "ActionKind \<Rightarrow> u32 \<Rightarrow> u32 \<Rightarrow> u32 \<Rightarrow> u32 \<Rightarrow> Action" where
  "act k a v m t \<equiv> \<lparr>Action.kind = k, address = a, value = v, mask' = m, timeoutMs = t\<rparr>"

definition push :: "Plan \<Rightarrow> Action list \<Rightarrow> Plan" where
  "push p as = p\<lparr>actions := actions p @ as\<rparr>"

definition poll :: "u32 \<Rightarrow> u32 \<Rightarrow> u32 \<Rightarrow> Action" where
  "poll a m v = act PollMaskEqual a v m kDefaultPollTimeoutMs"

definition AddPoll :: "Plan \<Rightarrow> u32 \<Rightarrow> u32 \<Rightarrow> u32 \<Rightarrow> Plan" where
  "AddPoll p a m v = push p [poll a m v]"

text \<open>The transfer loop of \<open>AddDma\<close>; the Boolean is its return value. A counter that never
  reaches \<open>bytes\<close> would be \<open>None\<close>.\<close>

partial_function (option) AddDma_loop ::
    "u32 \<Rightarrow> u32 \<Rightarrow> u32 \<Rightarrow> u32 \<Rightarrow> u32 \<Rightarrow> u32 \<Rightarrow> Plan \<Rightarrow> (Plan \<times> bool) option" where
  "AddDma_loop base dest memoryOffset bytes command done' p =
     (if done' < bytes
      then if - 1 - done' < dest \<or> - 1 - done' < memoryOffset then Some (p, False)
      else AddDma_loop base dest memoryOffset bytes command (done' + kTransferBytes)
             (push (AddPoll p (base + kDmaCmd) kDmaCmdFullMask 0)
               [act Write32 (base + kDmaMemOffset) (dest + done') 0x00FFFFFF 0,
                act Write32 (base + kDmaFbOffset) (memoryOffset + done') 0xFFFFFFFF 0,
                act Write32 (base + kDmaCmd) command 0x0001773F 0])
      else Some (AddPoll p (base + kDmaCmd) kDmaCmdIdleMask kDmaCmdIdleMask, True))"

definition AddDma :: "Plan \<Rightarrow> u32 \<Rightarrow> u64 \<Rightarrow> u32 \<Rightarrow> u32 \<Rightarrow> u32 \<Rightarrow> u32 \<Rightarrow> (Plan \<times> bool) option" where
  "AddDma p base source dest memoryOffset bytes command =
     (if bytes mod kTransferBytes \<noteq> 0 then Some (p, False)
      else if source AND 0xFF \<noteq> 0 then Some (p, False)
      else let shifted = drop_bit 8 source
      in if drop_bit 41 shifted \<noteq> 0 then Some (p, False)
      else AddDma_loop base dest memoryOffset bytes command 0
             (push (AddPoll p (base + kDmaCmd) kDmaCmdFullMask 0)
               [act Write32 (base + kDmaBase) (ucast shifted) 0xFFFFFFFF 0,
                act Write32 (base + kDmaBase1) (ucast (drop_bit 32 shifted AND 0x1FF)) 0x1FF 0]))"

definition PlanReset :: "Engine \<Rightarrow> bool \<Rightarrow> u32 \<Rightarrow> Plan" where
  "PlanReset e bootRiscv chipId =
     (let base = EngineBase e;
          out = \<lparr>Plan.valid = True, actions = []\<rparr>;
          out = push out
            [act MaskedWrite (base + kEngineReset) 1 1 0,
             act DelayMilliseconds 0 100 0 0,
             act MaskedWrite (base + kEngineReset) 0 1 0];
          out = AddPoll out (base + kHwcfg2) kHwcfg2ScrubbingMask 0
      in if bootRiscv
         then push out [act MaskedWrite (base + kRiscvBcrCtrl) kRiscvBootValue kRiscvBcrMask 0]
         else let out = push out
                [act IfMaskEqualBegin (base + kHwcfg2) kHwcfg2RiscvMask kHwcfg2RiscvMask 0,
                 act MaskedWrite (base + kRiscvBcrCtrl) 0 0x10 0];
              out = AddPoll out (base + kRiscvBcrCtrl) 1 1
         in push out
              [act Write32 (base + kFalconRm) chipId 0xFFFFFFFF 0,
               act EndIf 0 0 0 0])"

definition invalid_plan :: Plan where
  "invalid_plan = \<lparr>Plan.valid = False, actions = []\<rparr>"

definition PlanAuthenticatedExecution :: "HsParameters \<Rightarrow> Plan option" where
  "PlanAuthenticatedExecution params =
     (let out = \<lparr>Plan.valid = False, actions = []\<rparr>;
          base = EngineBase (engine params)
      in if imemBytes params mod kTransferBytes \<noteq> 0 \<or> dmemBytes params mod kTransferBytes \<noteq> 0
         then Some out
         else if codeOffset params < imemVirtualBase params \<or> dataOffset params < dmemVirtualBase params
         then Some out
         else if - 1 - ucast (codeOffset params) < imagePhysicalAddress params \<or>
             - 1 - ucast (dataOffset params) < imagePhysicalAddress params
         then Some out
         else let
           imemSource = imagePhysicalAddress params + ucast (codeOffset params) -
             ucast (imemVirtualBase params);
           dmemSource = imagePhysicalAddress params + ucast (dataOffset params) -
             ucast (dmemVirtualBase params);
           out = push out
             [act MaskedWrite (base + kFbifCtl) kFbifAllowPhysicalNoContextMask
                kFbifAllowPhysicalNoContextMask 0,
              act Write32 (base + kDmaCtl) 0 0x7 0,
              act MaskedWrite (base + kFbifTransCfg0) kFbifPhysicalFramebuffer kFbifTransCfgMask 0]
         in do {
           (out, ok) \<leftarrow> AddDma out base imemSource (imemPhysicalBase params)
             (imemVirtualBase params) (imemBytes params) kImemDmaCommand;
           if \<not> ok then Some invalid_plan else do {
           (out, ok) \<leftarrow> AddDma out base dmemSource (dmemPhysicalBase params)
             (dmemVirtualBase params) (dmemBytes params) kDmemDmaCommand;
           if \<not> ok then Some invalid_plan else
           let out = push out
             [act Write32 (base + kBromParaAddr0) (pkcOffset params) 0xFFFFFFFF 0,
              act Write32 (base + kBromEngineIdMask) (engineIdMask params) 0xFFFFFFFF 0,
              act Write32 (base + kBromUcodeId) (ucast (ucodeId params)) 0xFF 0,
              act MaskedWrite (base + kBromModSel) 1 0xFF 0,
              act Write32 (base + kBootVec) (imemVirtualBase params) 0xFFFFFFFF 0];
             out = (case mailbox params of None \<Rightarrow> out
               | Some m \<Rightarrow> push out
                   [act Write32 (base + kMailbox0) (ucast m) 0xFFFFFFFF 0,
                    act Write32 (base + kMailbox1) (ucast (drop_bit 32 m)) 0xFFFFFFFF 0]);
             out = push out [act StartCpuRespectAlias (base + kCpuCtl) 0 0 0];
             out = AddPoll out (base + kCpuCtl) kCpuCtlHaltedMask kCpuCtlHaltedMask
           in Some (out\<lparr>Plan.valid := True\<rparr>) } })"

section \<open>The policy\<close>

definition kCpuCtlAlias :: u32 where [falcon_consts]: "kCpuCtlAlias = 0x130"
definition kGspBase :: u32 where [falcon_consts]: "kGspBase = 0x00110000"
definition kSec2Base :: u32 where [falcon_consts]: "kSec2Base = 0x00840000"
definition kCpuCtlStartMask :: u32 where [falcon_consts]: "kCpuCtlStartMask = 2"
definition kCpuCtlAliasEnableMask :: u32 where [falcon_consts]: "kCpuCtlAliasEnableMask = 0x40"

abbreviation rule :: "u32 \<Rightarrow> u32 \<Rightarrow> RegisterRule" where
  "rule r m \<equiv> \<lparr>relative = r, mask' = m\<rparr>"

definition kWriteRules :: "RegisterRule list" where
  "kWriteRules =
    [rule 0x03C0 0x00000001, rule 0x1668 0x00000111, rule 0x0080 0xFFFFFFFF,
     rule 0x0084 0xFFFFFFFF, rule 0x0624 0x00000080, rule 0x010C 0x00000007,
     rule 0x0600 0x00000007, rule 0x0110 0xFFFFFFFF, rule 0x0128 0x000001FF,
     rule 0x0114 0x00FFFFFF, rule 0x011C 0xFFFFFFFF, rule 0x0118 0x0001773F,
     rule 0x1210 0xFFFFFFFF, rule 0x119C 0xFFFFFFFF, rule 0x1198 0x000000FF,
     rule 0x1180 0x000000FF, rule 0x0104 0xFFFFFFFF, rule 0x0040 0xFFFFFFFF,
     rule 0x0044 0xFFFFFFFF, rule kCpuCtl kCpuCtlStartMask, rule kCpuCtlAlias kCpuCtlStartMask]"

definition kReadRules :: "RegisterRule list" where
  "kReadRules =
    [rule 0x00F4 0x1400, rule 0x0118 3, rule 0x1668 0x00000111, rule kCpuCtl 0xFFFFFFFF]"

definition DecodeEngineAddress :: "u32 \<Rightarrow> u32 option" where
  "DecodeEngineAddress a =
     (if kGspBase \<le> a \<and> a < kGspBase + 0x2000 then Some (a - kGspBase)
      else if kSec2Base \<le> a \<and> a < kSec2Base + 0x2000 then Some (a - kSec2Base)
      else None)"

definition FindRule :: "RegisterRule list \<Rightarrow> u32 \<Rightarrow> RegisterRule option" where
  "FindRule rules rel = find (\<lambda>r. relative r = rel) rules"

definition ValueFitsMask :: "Action \<Rightarrow> bool" where
  "ValueFitsMask a \<longleftrightarrow> Action.value a AND NOT (Action.mask' a) = 0"

definition CheckGa102ActionPolicy :: "Action \<Rightarrow> ActionPolicyDecision" where
  "CheckGa102ActionPolicy a =
     (let check_write =
        (case DecodeEngineAddress (address a) of
           None \<Rightarrow> DeniedUnknownAddress
         | Some rel \<Rightarrow> (case FindRule kWriteRules rel of
             None \<Rightarrow> DeniedUnknownAddress
           | Some r \<Rightarrow>
               if Action.mask' a = 0 \<or> Action.mask' a AND NOT (RegisterRule.mask' r) \<noteq> 0
               then DeniedMask
               else if \<not> ValueFitsMask a then DeniedValue
               else if timeoutMs a \<noteq> 0 then DeniedTimeout
               else Allowed));
       check_read =
        (case DecodeEngineAddress (address a) of
           None \<Rightarrow> DeniedUnknownAddress
         | Some rel \<Rightarrow> (case FindRule kReadRules rel of
             None \<Rightarrow> DeniedUnknownAddress
           | Some r \<Rightarrow>
               if Action.mask' a = 0 \<or> Action.mask' a AND NOT (RegisterRule.mask' r) \<noteq> 0
               then DeniedMask
               else if \<not> ValueFitsMask a then DeniedValue
               else if kind a = PollMaskEqual
               then if timeoutMs a = 0 \<or> 60000 < timeoutMs a then DeniedTimeout else Allowed
               else if timeoutMs a \<noteq> 0 then DeniedTimeout
               else Allowed))
      in case kind a of
           Write32 \<Rightarrow> check_write
         | MaskedWrite \<Rightarrow> check_write
         | PollMaskEqual \<Rightarrow> check_read
         | IfMaskEqualBegin \<Rightarrow> check_read
         | DelayMilliseconds \<Rightarrow>
             if address a \<noteq> 0 \<or> Action.mask' a \<noteq> 0 \<or> timeoutMs a \<noteq> 0 \<or> Action.value a = 0 \<or>
               10000 < Action.value a
             then DeniedTimeout else Allowed
         | StartCpuRespectAlias \<Rightarrow>
             if DecodeEngineAddress (address a) \<noteq> Some kCpuCtl \<or> Action.value a \<noteq> 0 \<or>
               Action.mask' a \<noteq> 0 \<or> timeoutMs a \<noteq> 0
             then DeniedUnknownAddress else RequiresStartCpuAliasSupport
         | EndIf \<Rightarrow>
             if address a = 0 \<and> Action.value a = 0 \<and> Action.mask' a = 0 \<and> timeoutMs a = 0
             then Allowed else DeniedControlFlow)"

definition ResolveGa102StartCpuAction :: "Action \<Rightarrow> u32 \<Rightarrow> ResolvedStartCpuAction" where
  "ResolveGa102StartCpuAction a cpuCtlValue =
     (let out = \<lparr>ResolvedStartCpuAction.valid = False, usedAlias = False,
                 action = act Write32 0 0 0 0\<rparr>
      in if CheckGa102ActionPolicy a \<noteq> RequiresStartCpuAliasSupport then out
         else let alias = (cpuCtlValue AND kCpuCtlAliasEnableMask \<noteq> 0);
                  base = address a - kCpuCtl;
                  out = out\<lparr>usedAlias := alias,
                    action := (if alias
                      then act Write32 (base + kCpuCtlAlias) kCpuCtlStartMask kCpuCtlStartMask 0
                      else act MaskedWrite (base + kCpuCtl) kCpuCtlStartMask kCpuCtlStartMask 0)\<rparr>
         in out\<lparr>ResolvedStartCpuAction.valid := CheckGa102ActionPolicy (action out) = Allowed\<rparr>)"

text \<open>The loop of \<open>CheckGa102PlanPolicy\<close> from action index \<open>i\<close>, with the checks after it.\<close>

fun CheckGa102PlanPolicy_loop ::
    "Action list \<Rightarrow> nat \<Rightarrow> bool \<Rightarrow> PlanPolicyReport \<Rightarrow> PlanPolicyReport" where
  "CheckGa102PlanPolicy_loop [] i inIf out =
     (if inIf then out\<lparr>firstDeniedIndex := i, firstDenied := DeniedControlFlow\<rparr>
      else out\<lparr>PlanPolicyReport.valid := True\<rparr>)"
| "CheckGa102PlanPolicy_loop (a # as) i inIf out =
     (let decision = CheckGa102ActionPolicy a
      in if decision \<noteq> RequiresStartCpuAliasSupport \<and> decision \<noteq> Allowed
         then out\<lparr>firstDeniedIndex := i, firstDenied := decision\<rparr>
         else let out = (if decision = RequiresStartCpuAliasSupport
                         then out\<lparr>requiresStartCpuAliasSupport := True\<rparr> else out)
         in if kind a = IfMaskEqualBegin
            then if inIf then out\<lparr>firstDeniedIndex := i, firstDenied := DeniedControlFlow\<rparr>
                 else CheckGa102PlanPolicy_loop as (Suc i) True out
            else if kind a = EndIf
            then if \<not> inIf then out\<lparr>firstDeniedIndex := i, firstDenied := DeniedControlFlow\<rparr>
                 else CheckGa102PlanPolicy_loop as (Suc i) False out
            else CheckGa102PlanPolicy_loop as (Suc i) inIf out)"

definition CheckGa102PlanPolicy :: "Plan \<Rightarrow> PlanPolicyReport" where
  "CheckGa102PlanPolicy plan =
     (let out = \<lparr>PlanPolicyReport.valid = False, requiresStartCpuAliasSupport = False,
                 actionCount = length (actions plan), firstDeniedIndex = SIZE_MAX,
                 firstDenied = Allowed\<rparr>
      in if \<not> Plan.valid plan
         then out\<lparr>firstDeniedIndex := 0, firstDenied := DeniedControlFlow\<rparr>
         else CheckGa102PlanPolicy_loop (actions plan) 0 False out)"

section \<open>What the policy accepts\<close>

text \<open>The reference view: each action is allowed on its own, and conditional regions are
  closed and not nested.\<close>

definition action_ok :: "Action \<Rightarrow> bool" where
  "action_ok a \<longleftrightarrow> CheckGa102ActionPolicy a \<in> {Allowed, RequiresStartCpuAliasSupport}"

fun balanced :: "bool \<Rightarrow> Action list \<Rightarrow> bool" where
  "balanced inIf [] \<longleftrightarrow> \<not> inIf"
| "balanced inIf (a # as) \<longleftrightarrow>
     (case kind a of
        IfMaskEqualBegin \<Rightarrow> \<not> inIf \<and> balanced True as
      | EndIf \<Rightarrow> inIf \<and> balanced False as
      | _ \<Rightarrow> balanced inIf as)"

lemma policy_loop_valid_iff:
  "\<not> PlanPolicyReport.valid out \<Longrightarrow>
    PlanPolicyReport.valid (CheckGa102PlanPolicy_loop as i inIf out) \<longleftrightarrow>
      (\<forall>a \<in> set as. action_ok a) \<and> balanced inIf as"
proof (induction as i inIf out rule: CheckGa102PlanPolicy_loop.induct)
  case (2 a as i inIf out)
  show ?case
  proof (cases "action_ok a")
    case True
    then have "CheckGa102ActionPolicy a = Allowed \<or>
        CheckGa102ActionPolicy a = RequiresStartCpuAliasSupport"
      by (auto simp: action_ok_def)
    with True 2 show ?thesis
      by (cases "kind a") (auto simp: Let_def)
  next
    case False
    with 2 show ?thesis by (auto simp: action_ok_def Let_def)
  qed
qed auto

lemma plan_policy_valid_iff:
  "PlanPolicyReport.valid (CheckGa102PlanPolicy plan) \<longleftrightarrow>
    Plan.valid plan \<and> (\<forall>a \<in> set (actions plan). action_ok a) \<and> balanced False (actions plan)"
  by (simp add: CheckGa102PlanPolicy_def Let_def policy_loop_valid_iff)

lemma balanced_append_plain:
  "(\<And>a. a \<in> set as \<Longrightarrow> kind a \<noteq> IfMaskEqualBegin \<and> kind a \<noteq> EndIf) \<Longrightarrow>
    balanced inIf (as @ bs) = balanced inIf bs"
  by (induction as) (auto split: ActionKind.splits)

text \<open>Register lookups of the two engines.\<close>

lemma Decode_EngineBase:
  "rel < 0x2000 \<Longrightarrow> DecodeEngineAddress (EngineBase e + rel) = Some rel"
  by (cases e) (auto simp: DecodeEngineAddress_def EngineBase_def falcon_consts
      word_le_nat_alt word_less_nat_alt unat_add_nowrap)

lemma DecodeEngineAddress_Some:
  assumes "DecodeEngineAddress a = Some rel"
  shows "\<exists>e. a = EngineBase e + rel \<and> rel < 0x2000"
proof -
  from assms consider (gsp) "kGspBase \<le> a" "a < kGspBase + 0x2000" "rel = a - kGspBase"
    | (sec2) "kSec2Base \<le> a" "a < kSec2Base + 0x2000" "rel = a - kSec2Base"
    by (auto simp: DecodeEngineAddress_def split: if_splits)
  then show ?thesis
  proof cases
    case gsp
    then have "a = EngineBase Gsp + rel" by (simp add: EngineBase_def falcon_consts)
    moreover have "rel < 0x2000" using gsp
      by (simp add: falcon_consts word_less_nat_alt word_le_nat_alt unat_sub)
    ultimately show ?thesis by blast
  next
    case sec2
    then have "a = EngineBase Sec2 + rel" by (simp add: EngineBase_def falcon_consts)
    moreover have "rel < 0x2000" using sec2
      by (simp add: falcon_consts word_less_nat_alt word_le_nat_alt unat_sub)
    ultimately show ?thesis by blast
  qed
qed

lemma kind_poll [simp]: "kind (poll a m v) = PollMaskEqual"
  by (simp add: poll_def)

text \<open>The policy's decision on the actions the planner emits.\<close>

lemma policy_write:
  assumes "k = Write32 \<or> k = MaskedWrite" and "rel < 0x2000" and "FindRule kWriteRules rel = Some r"
  shows "CheckGa102ActionPolicy (act k (EngineBase e + rel) v m 0) =
    (if m = 0 \<or> m AND NOT (RegisterRule.mask' r) \<noteq> 0 then DeniedMask
     else if v AND NOT m \<noteq> 0 then DeniedValue else Allowed)"
  using assms by (auto simp: CheckGa102ActionPolicy_def Decode_EngineBase ValueFitsMask_def Let_def)

lemma policy_poll:
  assumes "rel < 0x2000" and "FindRule kReadRules rel = Some r"
  shows "CheckGa102ActionPolicy (poll (EngineBase e + rel) m v) =
    (if m = 0 \<or> m AND NOT (RegisterRule.mask' r) \<noteq> 0 then DeniedMask
     else if v AND NOT m \<noteq> 0 then DeniedValue else Allowed)"
  using assms
  by (auto simp: CheckGa102ActionPolicy_def poll_def Decode_EngineBase ValueFitsMask_def Let_def
      falcon_consts)

lemma policy_if:
  assumes "rel < 0x2000" and "FindRule kReadRules rel = Some r"
  shows "CheckGa102ActionPolicy (act IfMaskEqualBegin (EngineBase e + rel) v m 0) =
    (if m = 0 \<or> m AND NOT (RegisterRule.mask' r) \<noteq> 0 then DeniedMask
     else if v AND NOT m \<noteq> 0 then DeniedValue else Allowed)"
  using assms
  by (auto simp: CheckGa102ActionPolicy_def Decode_EngineBase ValueFitsMask_def Let_def)

lemma policy_start:
  "CheckGa102ActionPolicy (act StartCpuRespectAlias (EngineBase e + 0x100) 0 0 0) =
    RequiresStartCpuAliasSupport"
  by (simp add: CheckGa102ActionPolicy_def Decode_EngineBase Let_def falcon_consts)

lemmas policy_decisions = policy_write policy_poll policy_if policy_start

lemmas find_rule = FindRule_def kWriteRules_def kReadRules_def falcon_consts

lemma PlanReset_policy:
  "PlanPolicyReport.valid (CheckGa102PlanPolicy (PlanReset e bootRiscv chipId)) \<and>
   \<not> requiresStartCpuAliasSupport (CheckGa102PlanPolicy (PlanReset e bootRiscv chipId))"
proof -
  have delay: "CheckGa102ActionPolicy (act DelayMilliseconds 0 100 0 0) = Allowed"
    and endif: "CheckGa102ActionPolicy (act EndIf 0 0 0 0) = Allowed"
    by (simp_all add: CheckGa102ActionPolicy_def Let_def)
  show ?thesis
    by (cases bootRiscv)
      (simp_all add: PlanReset_def CheckGa102PlanPolicy_def push_def AddPoll_def Let_def delay endif
        policy_decisions find_rule)
qed

text \<open>
  Every reset plan, of either engine, for either boot mode and any chip id, is accepted by
  the register policy and needs no alias support.
\<close>
theorem PlanReset_accepted:
  "PlanPolicyReport.valid (CheckGa102PlanPolicy (PlanReset e bootRiscv chipId)) \<and>
   \<not> requiresStartCpuAliasSupport (CheckGa102PlanPolicy (PlanReset e bootRiscv chipId))"
  by (rule PlanReset_policy)

section \<open>The DMA block\<close>

text \<open>The closed form of \<open>AddDma\<close>: the two base registers, one transfer per 256 bytes, and
  the final wait.\<close>

definition dma_step :: "u32 \<Rightarrow> u32 \<Rightarrow> u32 \<Rightarrow> u32 \<Rightarrow> nat \<Rightarrow> Action list" where
  "dma_step base dest mo command i =
    [poll (base + kDmaCmd) kDmaCmdFullMask 0,
     act Write32 (base + kDmaMemOffset) (dest + of_nat (256 * i)) 0x00FFFFFF 0,
     act Write32 (base + kDmaFbOffset) (mo + of_nat (256 * i)) 0xFFFFFFFF 0,
     act Write32 (base + kDmaCmd) command 0x0001773F 0]"

definition dma_steps :: "u32 \<Rightarrow> u32 \<Rightarrow> u32 \<Rightarrow> u32 \<Rightarrow> nat \<Rightarrow> nat \<Rightarrow> Action list" where
  "dma_steps base dest mo command i n = concat (map (dma_step base dest mo command) [i ..< n])"

definition dma_block :: "u32 \<Rightarrow> u64 \<Rightarrow> u32 \<Rightarrow> u32 \<Rightarrow> u32 \<Rightarrow> u32 \<Rightarrow> Action list" where
  "dma_block base source dest mo bytes command =
    [poll (base + kDmaCmd) kDmaCmdFullMask 0,
     act Write32 (base + kDmaBase) (ucast (drop_bit 8 source)) 0xFFFFFFFF 0,
     act Write32 (base + kDmaBase1) (ucast (drop_bit 32 (drop_bit 8 source) AND 0x1FF)) 0x1FF 0] @
    dma_steps base dest mo command 0 (unat bytes div 256) @
    [poll (base + kDmaCmd) kDmaCmdIdleMask kDmaCmdIdleMask]"

text \<open>Every transfer offset \<open>x + 256 * i\<close> stays a 32-bit number.\<close>

definition offsets_fit :: "u32 \<Rightarrow> nat \<Rightarrow> nat \<Rightarrow> bool" where
  "offsets_fit x i n \<longleftrightarrow> (\<forall>j \<in> {i ..< n}. unat x + 256 * j < 2 ^ 32)"

lemma offsets_fit_0: "offsets_fit x 0 n \<longleftrightarrow> n = 0 \<or> unat x + 256 * (n - 1) < 2 ^ 32"
proof (cases n)
  case (Suc m)
  show ?thesis
  proof
    assume "offsets_fit x 0 n"
    with Suc show "n = 0 \<or> unat x + 256 * (n - 1) < 2 ^ 32" by (auto simp: offsets_fit_def)
  next
    assume "n = 0 \<or> unat x + 256 * (n - 1) < 2 ^ 32"
    with Suc have "unat x + 256 * m < 2 ^ 32" by simp
    moreover have "256 * j \<le> 256 * m" if "j \<in> {0 ..< n}" for j using that Suc by simp
    ultimately show "offsets_fit x 0 n" unfolding offsets_fit_def by (meson add_left_mono le_less_trans)
  qed
qed (simp add: offsets_fit_def)

lemma push_push [simp]: "push (push p as) bs = push p (as @ bs)"
  by (simp add: push_def)

lemma AddPoll_push: "AddPoll p a m v = push p [poll a m v]"
  by (simp add: AddPoll_def)

lemma AddDma_loop_eq:
  assumes "unat bytes = 256 * n" and "i \<le> n" and "unat d = 256 * i"
  shows "if offsets_fit dest i n \<and> offsets_fit mo i n
    then AddDma_loop base dest mo bytes command d p =
      Some (push p (dma_steps base dest mo command i n @
        [poll (base + kDmaCmd) kDmaCmdIdleMask kDmaCmdIdleMask]), True)
    else \<exists>q. AddDma_loop base dest mo bytes command d p = Some (q, False)"
  using assms(2,3)
proof (induction "n - i" arbitrary: i d p)
  case 0
  then have "i = n" by simp
  with 0 assms(1) show ?case
    by (subst (1 2) AddDma_loop.simps)
      (simp add: word_less_nat_alt offsets_fit_def dma_steps_def AddPoll_push)
next
  case (Suc k)
  then have lt: "i < n" by simp
  have d: "d = of_nat (256 * i)"
    by (simp only: Suc.prems(2) [symmetric] of_nat_unat ucast_id)
  have less: "d < bytes" using lt Suc.prems assms(1) by (simp add: word_less_nat_alt)
  have "unat d + 256 < 2 ^ 32 \<or> unat d + 256 = 2 ^ 32 \<and> False"
    using lt Suc.prems assms(1) unat_lt(3) [of bytes] by arith
  then have next_d: "unat (d + kTransferBytes) = 256 * Suc i"
    using Suc.prems by (subst unat_add_nowrap) (auto simp: kTransferBytes_def)
  have guards: "- 1 - d < dest \<longleftrightarrow> \<not> unat dest + 256 * i < 2 ^ 32"
    "- 1 - d < mo \<longleftrightarrow> \<not> unat mo + 256 * i < 2 ^ 32"
    using Suc.prems by (simp_all only: add_guard32 not_less)
  have split: "offsets_fit x i n \<longleftrightarrow> unat x + 256 * i < 2 ^ 32 \<and> offsets_fit x (Suc i) n" for x
    using lt unfolding offsets_fit_def
    by (metis Suc_leD Suc_leI atLeastLessThan_iff le_neq_implies_less order_refl)
  show ?case
  proof (cases "- 1 - d < dest \<or> - 1 - d < mo")
    case True
    then have "\<not> (offsets_fit dest i n \<and> offsets_fit mo i n)" using guards split by blast
    moreover have "AddDma_loop base dest mo bytes command d p = Some (p, False)"
      using True less by (subst AddDma_loop.simps) simp
    ultimately show ?thesis by simp
  next
    case False
    let ?p = "push p (dma_step base dest mo command i)"
    have rec: "AddDma_loop base dest mo bytes command d p =
        AddDma_loop base dest mo bytes command (d + kTransferBytes) ?p"
      using False less by (subst AddDma_loop.simps) (simp add: d AddPoll_push dma_step_def)
    have steps: "dma_steps base dest mo command i n =
        dma_step base dest mo command i @ dma_steps base dest mo command (Suc i) n"
      using lt by (simp add: dma_steps_def upt_conv_Cons)
    have "offsets_fit x i n \<longleftrightarrow> offsets_fit x (Suc i) n" if "x = dest \<or> x = mo" for x
      using that False guards split by blast
    then show ?thesis
      using Suc.hyps(1) [of "Suc i" "d + kTransferBytes" ?p] Suc.hyps(2) lt next_d
      unfolding rec steps by simp
  qed
qed

definition dma_ok :: "u64 \<Rightarrow> u32 \<Rightarrow> u32 \<Rightarrow> u32 \<Rightarrow> bool" where
  "dma_ok source dest mo bytes \<longleftrightarrow> 256 dvd unat bytes \<and> 256 dvd unat source \<and> unat source < 2 ^ 49 \<and>
     offsets_fit dest 0 (unat bytes div 256) \<and> offsets_fit mo 0 (unat bytes div 256)"

lemma AddDma_eq:
  "if dma_ok source dest mo bytes
   then AddDma p base source dest mo bytes command =
     Some (push p (dma_block base source dest mo bytes command), True)
   else \<exists>q. AddDma p base source dest mo bytes command = Some (q, False)"
proof (cases "256 dvd unat bytes \<and> 256 dvd unat source \<and> unat source < 2 ^ 49")
  case True
  then obtain n where n: "unat bytes = 256 * n" by (elim conjE dvdE)
  have "drop_bit 41 (drop_bit 8 source) = 0"
    using True by (simp add: drop_bit_eq_0_iff)
  moreover have "source AND 255 = 0" using True by (simp add: mask_numerals and_mask_zero_iff)
  moreover have "bytes mod kTransferBytes = 0"
    using n by (simp add: word_unat_eq_iff unat_mod_distrib kTransferBytes_def)
  ultimately have eq: "AddDma p base source dest mo bytes command =
      AddDma_loop base dest mo bytes command 0
        (push p [poll (base + kDmaCmd) kDmaCmdFullMask 0,
          act Write32 (base + kDmaBase) (ucast (drop_bit 8 source)) 0xFFFFFFFF 0,
          act Write32 (base + kDmaBase1) (ucast (drop_bit 32 (drop_bit 8 source) AND 0x1FF)) 0x1FF 0])"
    by (simp add: AddDma_def AddPoll_push Let_def)
  show ?thesis
    using AddDma_loop_eq [OF n, of 0 0 dest mo base command] True n unfolding eq
    by (simp add: dma_ok_def dma_block_def split: if_splits)
next
  case False
  then have "\<not> dma_ok source dest mo bytes" by (auto simp: dma_ok_def)
  moreover have "bytes mod kTransferBytes \<noteq> 0 \<or> source AND 255 \<noteq> 0 \<or> drop_bit 41 (drop_bit 8 source) \<noteq> 0"
  proof -
    have "drop_bit 41 (drop_bit 8 source) = 0 \<longleftrightarrow> unat source < 2 ^ 49"
      by (simp add: drop_bit_eq_0_iff)
    moreover have "source AND 255 = 0 \<longleftrightarrow> 256 dvd unat source"
      by (simp add: mask_numerals and_mask_zero_iff)
    moreover have "bytes mod kTransferBytes = 0 \<longleftrightarrow> 256 dvd unat bytes"
      by (simp add: word_unat_eq_iff unat_mod_distrib kTransferBytes_def mod_eq_0_iff_dvd)
    ultimately show ?thesis using False by argo
  qed
  ultimately show ?thesis by (auto simp: AddDma_def Let_def)
qed

section \<open>Authenticated execution\<close>

definition imem_source :: "HsParameters \<Rightarrow> u64" where
  "imem_source p = imagePhysicalAddress p + ucast (codeOffset p) - ucast (imemVirtualBase p)"

definition dmem_source :: "HsParameters \<Rightarrow> u64" where
  "dmem_source p = imagePhysicalAddress p + ucast (dataOffset p) - ucast (dmemVirtualBase p)"

definition auth_ok :: "HsParameters \<Rightarrow> bool" where
  "auth_ok p \<longleftrightarrow>
     imemVirtualBase p \<le> codeOffset p \<and> dmemVirtualBase p \<le> dataOffset p \<and>
     unat (imagePhysicalAddress p) + unat (codeOffset p) < 2 ^ 64 \<and>
     unat (imagePhysicalAddress p) + unat (dataOffset p) < 2 ^ 64 \<and>
     dma_ok (imem_source p) (imemPhysicalBase p) (imemVirtualBase p) (imemBytes p) \<and>
     dma_ok (dmem_source p) (dmemPhysicalBase p) (dmemVirtualBase p) (dmemBytes p)"

definition auth_actions :: "HsParameters \<Rightarrow> Action list" where
  "auth_actions p =
     (let base = EngineBase (engine p) in
      [act MaskedWrite (base + kFbifCtl) kFbifAllowPhysicalNoContextMask
         kFbifAllowPhysicalNoContextMask 0,
       act Write32 (base + kDmaCtl) 0 0x7 0,
       act MaskedWrite (base + kFbifTransCfg0) kFbifPhysicalFramebuffer kFbifTransCfgMask 0] @
      dma_block base (imem_source p) (imemPhysicalBase p) (imemVirtualBase p) (imemBytes p)
        kImemDmaCommand @
      dma_block base (dmem_source p) (dmemPhysicalBase p) (dmemVirtualBase p) (dmemBytes p)
        kDmemDmaCommand @
      [act Write32 (base + kBromParaAddr0) (pkcOffset p) 0xFFFFFFFF 0,
       act Write32 (base + kBromEngineIdMask) (engineIdMask p) 0xFFFFFFFF 0,
       act Write32 (base + kBromUcodeId) (ucast (ucodeId p)) 0xFF 0,
       act MaskedWrite (base + kBromModSel) 1 0xFF 0,
       act Write32 (base + kBootVec) (imemVirtualBase p) 0xFFFFFFFF 0] @
      (case mailbox p of None \<Rightarrow> []
       | Some m \<Rightarrow> [act Write32 (base + kMailbox0) (ucast m) 0xFFFFFFFF 0,
                   act Write32 (base + kMailbox1) (ucast (drop_bit 32 m)) 0xFFFFFFFF 0]) @
      [act StartCpuRespectAlias (base + kCpuCtl) 0 0 0,
       poll (base + kCpuCtl) kCpuCtlHaltedMask kCpuCtlHaltedMask])"

lemma push_valid: "Plan.valid p = False \<Longrightarrow> actions p = [] \<Longrightarrow>
    (push p as)\<lparr>Plan.valid := True\<rparr> = \<lparr>Plan.valid = True, actions = as\<rparr>"
  by (cases p) (simp add: push_def)

lemma PlanAuthenticatedExecution_eq:
  "PlanAuthenticatedExecution p =
    Some (if auth_ok p then \<lparr>Plan.valid = True, actions = auth_actions p\<rparr> else invalid_plan)"
proof (cases "imemBytes p mod kTransferBytes \<noteq> 0 \<or> dmemBytes p mod kTransferBytes \<noteq> 0 \<or>
    codeOffset p < imemVirtualBase p \<or> dataOffset p < dmemVirtualBase p \<or>
    - 1 - ucast (codeOffset p) < imagePhysicalAddress p \<or>
    - 1 - ucast (dataOffset p) < imagePhysicalAddress p")
  case True
  then have "\<not> auth_ok p"
    by (auto simp: auth_ok_def dma_ok_def add_guard64 word_unat_eq_iff unat_mod_distrib
        kTransferBytes_def not_le)
  with True show ?thesis by (auto simp: PlanAuthenticatedExecution_def invalid_plan_def Let_def)
next
  case False
  let ?base = "EngineBase (engine p)"
  let ?head = "[act MaskedWrite (?base + kFbifCtl) kFbifAllowPhysicalNoContextMask
         kFbifAllowPhysicalNoContextMask 0,
       act Write32 (?base + kDmaCtl) 0 0x7 0,
       act MaskedWrite (?base + kFbifTransCfg0) kFbifPhysicalFramebuffer kFbifTransCfgMask 0]"
  let ?p0 = "push \<lparr>Plan.valid = False, actions = []\<rparr> ?head"
  have ok: "auth_ok p \<longleftrightarrow>
      dma_ok (imem_source p) (imemPhysicalBase p) (imemVirtualBase p) (imemBytes p) \<and>
      dma_ok (dmem_source p) (dmemPhysicalBase p) (dmemVirtualBase p) (dmemBytes p)"
    using False by (auto simp: auth_ok_def add_guard64 not_less)
  note imem = AddDma_eq [of "imem_source p" "imemPhysicalBase p" "imemVirtualBase p" "imemBytes p"
      ?p0 ?base kImemDmaCommand]
  note dmem = AddDma_eq [of "dmem_source p" "dmemPhysicalBase p" "dmemVirtualBase p" "dmemBytes p"
      "push ?p0 (dma_block ?base (imem_source p) (imemPhysicalBase p) (imemVirtualBase p)
        (imemBytes p) kImemDmaCommand)" ?base kDmemDmaCommand]
  show ?thesis
  proof (cases "dma_ok (imem_source p) (imemPhysicalBase p) (imemVirtualBase p) (imemBytes p)")
    case no_imem: False
    with imem obtain q where "AddDma ?p0 ?base (imem_source p) (imemPhysicalBase p)
        (imemVirtualBase p) (imemBytes p) kImemDmaCommand = Some (q, False)" by auto
    with False no_imem ok show ?thesis
      by (simp add: PlanAuthenticatedExecution_def Let_def imem_source_def)
  next
    case imem_ok: True
    show ?thesis
    proof (cases "dma_ok (dmem_source p) (dmemPhysicalBase p) (dmemVirtualBase p) (dmemBytes p)")
      case no_dmem: False
      with dmem obtain q where "AddDma (push ?p0 (dma_block ?base (imem_source p)
          (imemPhysicalBase p) (imemVirtualBase p) (imemBytes p) kImemDmaCommand)) ?base
          (dmem_source p) (dmemPhysicalBase p) (dmemVirtualBase p) (dmemBytes p) kDmemDmaCommand =
          Some (q, False)" by auto
      with False no_dmem imem_ok imem ok show ?thesis
        by (simp add: PlanAuthenticatedExecution_def Let_def imem_source_def dmem_source_def)
    next
      case dmem_ok: True
      from False dmem_ok imem_ok imem dmem ok show ?thesis
        by (simp add: PlanAuthenticatedExecution_def Let_def imem_source_def dmem_source_def
            AddPoll_push auth_actions_def push_valid split: option.split)
    qed
  qed
qed

text \<open>The policy on the DMA block: the only condition left to the caller is that every
  destination offset fits the 24-bit memory offset register.\<close>

definition dest_ok :: "u32 \<Rightarrow> u32 \<Rightarrow> bool" where
  "dest_ok dest bytes \<longleftrightarrow> bytes = 0 \<or> unat dest + unat bytes < 2 ^ 24 + 256"

lemma fits_24: "w AND - 0x1000000 = 0 \<longleftrightarrow> unat (w :: u32) < 2 ^ 24"
  using and_not_mask_zero_iff [of w 24] by (simp add: mask_eq_exp_minus_1)

lemma fits_9: "w AND - 0x200 = 0 \<longleftrightarrow> unat (w :: u32) < 2 ^ 9"
  using and_not_mask_zero_iff [of w 9] by (simp add: mask_eq_exp_minus_1)

lemma fits_8: "w AND - 0x100 = 0 \<longleftrightarrow> unat (w :: u32) < 2 ^ 8"
  using and_not_mask_zero_iff [of w 8] by (simp add: mask_eq_exp_minus_1)

lemma base1_fits: "(ucast (v AND 0x1FF :: u64) :: u32) AND - 0x200 = 0"
proof -
  have "unat (v AND 0x1FF) = unat v mod 2 ^ 9"
    using unat_and_mask [of v 9] by (simp add: mask_eq_exp_minus_1)
  then have small: "unat (v AND 0x1FF) < 2 ^ 9" by simp
  have "unat (ucast (v AND 0x1FF) :: u32) = unat (v AND 0x1FF) mod 2 ^ 32"
    by (simp only: unsigned_ucast_eq take_bit_eq_mod len_words)
  also have "\<dots> \<le> unat (v AND 0x1FF)" by (rule mod_less_eq_dividend)
  finally show ?thesis unfolding fits_9 using small by (rule le_less_trans)
qed

lemma dma_step_ok:
  assumes "command \<in> {kImemDmaCommand, kDmemDmaCommand}" and "unat dest + 256 * i < 2 ^ 32"
  shows "(\<forall>a \<in> set (dma_step (EngineBase e) dest mo command i). action_ok a) \<longleftrightarrow>
    unat dest + 256 * i < 2 ^ 24"
proof -
  have "unat (of_nat (256 * i) :: u32) = 256 * i"
    using assms(2) by (intro unat_of_nat_small) simp
  then have "unat (dest + of_nat (256 * i)) = unat dest + 256 * i"
    using assms(2) by (subst unat_add_nowrap) auto
  then show ?thesis
    using assms(1) by (auto simp: dma_step_def action_ok_def policy_decisions find_rule fits_24
        simp del: of_nat_mult)
qed

lemma dma_steps_ok:
  assumes "command \<in> {kImemDmaCommand, kDmemDmaCommand}" and "offsets_fit dest 0 n"
  shows "(\<forall>a \<in> set (dma_steps (EngineBase e) dest mo command 0 n). action_ok a) \<longleftrightarrow>
    n = 0 \<or> unat dest + 256 * (n - 1) < 2 ^ 24"
proof -
  have "(\<forall>a \<in> set (dma_steps (EngineBase e) dest mo command 0 n). action_ok a) \<longleftrightarrow>
      (\<forall>i \<in> {0 ..< n}. \<forall>a \<in> set (dma_step (EngineBase e) dest mo command i). action_ok a)"
    by (auto simp: dma_steps_def)
  also have "\<dots> \<longleftrightarrow> (\<forall>i \<in> {0 ..< n}. unat dest + 256 * i < 2 ^ 24)"
    using dma_step_ok [OF assms(1)] assms(2) by (simp add: offsets_fit_def)
  also have "\<dots> \<longleftrightarrow> n = 0 \<or> unat dest + 256 * (n - 1) < 2 ^ 24"
  proof (cases n)
    case (Suc m)
    have "i \<le> m \<Longrightarrow> unat dest + 256 * m < 2 ^ 24 \<Longrightarrow> unat dest + 256 * i < 2 ^ 24" for i by simp
    with Suc show ?thesis by (auto simp: less_Suc_eq_le)
  qed simp
  finally show ?thesis .
qed

lemma dma_block_ok:
  assumes "command \<in> {kImemDmaCommand, kDmemDmaCommand}" and "dma_ok source dest mo bytes"
  shows "(\<forall>a \<in> set (dma_block (EngineBase e) source dest mo bytes command). action_ok a) \<longleftrightarrow>
    dest_ok dest bytes"
proof -
  let ?n = "unat bytes div 256"
  have n: "unat bytes = 256 * ?n" using assms(2) by (simp add: dma_ok_def)
  have ends: "action_ok (poll (EngineBase e + kDmaCmd) kDmaCmdFullMask 0)"
    "action_ok (poll (EngineBase e + kDmaCmd) kDmaCmdIdleMask kDmaCmdIdleMask)"
    "action_ok (act Write32 (EngineBase e + kDmaBase) v 0xFFFFFFFF 0)"
    "action_ok (act Write32 (EngineBase e + kDmaBase1) (ucast (w AND 0x1FF :: u64)) 0x1FF 0)" for v w
    by (simp_all add: action_ok_def policy_decisions find_rule base1_fits)
  have "(\<forall>a \<in> set (dma_block (EngineBase e) source dest mo bytes command). action_ok a) \<longleftrightarrow>
      (\<forall>a \<in> set (dma_steps (EngineBase e) dest mo command 0 ?n). action_ok a)"
    by (auto simp: dma_block_def ends)
  also have "\<dots> \<longleftrightarrow> ?n = 0 \<or> unat dest + 256 * (?n - 1) < 2 ^ 24"
    using assms by (intro dma_steps_ok) (auto simp: dma_ok_def)
  also have "\<dots> \<longleftrightarrow> dest_ok dest bytes"
    using n by (cases ?n) (auto simp: dest_ok_def unat_eq_0)
  finally show ?thesis .
qed

lemma kind_dma_block:
  "a \<in> set (dma_block base source dest mo bytes command) \<Longrightarrow>
    kind a \<noteq> IfMaskEqualBegin \<and> kind a \<noteq> EndIf"
  by (auto simp: dma_block_def dma_steps_def dma_step_def split: if_splits)

lemma kind_auth_actions:
  "a \<in> set (auth_actions p) \<Longrightarrow> kind a \<noteq> IfMaskEqualBegin \<and> kind a \<noteq> EndIf"
  by (auto simp: auth_actions_def Let_def kind_dma_block split: option.splits)

lemma PlanAuthenticatedExecution_policy:
  "\<exists>plan. PlanAuthenticatedExecution p = Some plan \<and>
    (Plan.valid plan \<longleftrightarrow> auth_ok p) \<and>
    (PlanPolicyReport.valid (CheckGa102PlanPolicy plan) \<longleftrightarrow>
      auth_ok p \<and> dest_ok (imemPhysicalBase p) (imemBytes p) \<and>
      dest_ok (dmemPhysicalBase p) (dmemBytes p))"
proof (cases "auth_ok p")
  case False
  then show ?thesis
    by (simp add: PlanAuthenticatedExecution_eq plan_policy_valid_iff invalid_plan_def)
next
  case True
  have "balanced False (auth_actions p)"
    using balanced_append_plain [of "auth_actions p" False "[]"] kind_auth_actions by auto
  moreover have "(\<forall>a \<in> set (auth_actions p). action_ok a) \<longleftrightarrow>
      dest_ok (imemPhysicalBase p) (imemBytes p) \<and> dest_ok (dmemPhysicalBase p) (dmemBytes p)"
  proof -
    have fixed: "action_ok (act MaskedWrite (EngineBase e + kFbifCtl)
          kFbifAllowPhysicalNoContextMask kFbifAllowPhysicalNoContextMask 0)"
      "action_ok (act Write32 (EngineBase e + kDmaCtl) 0 0x7 0)"
      "action_ok (act MaskedWrite (EngineBase e + kFbifTransCfg0) kFbifPhysicalFramebuffer
          kFbifTransCfgMask 0)"
      "action_ok (act Write32 (EngineBase e + kBromParaAddr0) v 0xFFFFFFFF 0)"
      "action_ok (act Write32 (EngineBase e + kBromEngineIdMask) v 0xFFFFFFFF 0)"
      "action_ok (act Write32 (EngineBase e + kBromUcodeId) (ucast (u :: byte)) 0xFF 0)"
      "action_ok (act MaskedWrite (EngineBase e + kBromModSel) 1 0xFF 0)"
      "action_ok (act Write32 (EngineBase e + kBootVec) v 0xFFFFFFFF 0)"
      "action_ok (act Write32 (EngineBase e + kMailbox0) v 0xFFFFFFFF 0)"
      "action_ok (act Write32 (EngineBase e + kMailbox1) v 0xFFFFFFFF 0)"
      "action_ok (act StartCpuRespectAlias (EngineBase e + kCpuCtl) 0 0 0)"
      "action_ok (poll (EngineBase e + kCpuCtl) kCpuCtlHaltedMask kCpuCtlHaltedMask)" for e v u
      using unat_lt(1) [of u]
      by (simp_all add: action_ok_def policy_decisions find_rule fits_8)
    show ?thesis
      using True dma_block_ok [of kImemDmaCommand "imem_source p" "imemPhysicalBase p"
          "imemVirtualBase p" "imemBytes p" "engine p"]
        dma_block_ok [of kDmemDmaCommand "dmem_source p" "dmemPhysicalBase p"
          "dmemVirtualBase p" "dmemBytes p" "engine p"]
      by (cases "mailbox p") (auto simp: auth_actions_def auth_ok_def Let_def ball_Un fixed)
  qed
  ultimately show ?thesis
    using True by (simp add: PlanAuthenticatedExecution_eq plan_policy_valid_iff)
qed

text \<open>
  C19. \<open>PlanAuthenticatedExecution\<close> always returns. Its plan is valid exactly when the image
  offsets, sizes and addresses satisfy \<open>auth_ok\<close>, and the register policy accepts exactly the
  valid plans whose IMEM and DMEM destinations fit the 24-bit memory offset register.
\<close>
theorem PlanAuthenticatedExecution_accepted:
  "\<exists>plan. PlanAuthenticatedExecution p = Some plan \<and>
    (Plan.valid plan \<longleftrightarrow> auth_ok p) \<and>
    (PlanPolicyReport.valid (CheckGa102PlanPolicy plan) \<longleftrightarrow>
      auth_ok p \<and> dest_ok (imemPhysicalBase p) (imemBytes p) \<and>
      dest_ok (dmemPhysicalBase p) (dmemBytes p))"
  by (rule PlanAuthenticatedExecution_policy)

section \<open>What an authenticated plan transfers\<close>

text \<open>
  A reference reading of the DMA registers: a write of the command register starts one
  256-byte transfer from the framebuffer address formed by the base registers and the
  framebuffer offset to the memory offset. \<open>transfers\<close> collects (source, destination,
  command) in order.
\<close>

record DmaRegs =
  r_base :: u32
  r_base1 :: u32
  r_mem :: u32
  r_fb :: u32

definition dma_effect ::
    "u32 \<Rightarrow> Action \<Rightarrow> DmaRegs \<times> (nat \<times> nat \<times> u32) list \<Rightarrow> DmaRegs \<times> (nat \<times> nat \<times> u32) list" where
  "dma_effect base a st = (case st of (r, ts) \<Rightarrow>
     if kind a \<noteq> Write32 then (r, ts)
     else if address a = base + kDmaBase then (r\<lparr>r_base := Action.value a\<rparr>, ts)
     else if address a = base + kDmaBase1 then (r\<lparr>r_base1 := Action.value a\<rparr>, ts)
     else if address a = base + kDmaMemOffset then (r\<lparr>r_mem := Action.value a\<rparr>, ts)
     else if address a = base + kDmaFbOffset then (r\<lparr>r_fb := Action.value a\<rparr>, ts)
     else if address a = base + kDmaCmd then (r, ts @
       [((unat (r_base r) + 2 ^ 32 * unat (r_base1 r)) * 256 + unat (r_fb r), unat (r_mem r),
         Action.value a)])
     else (r, ts))"

definition transfers :: "u32 \<Rightarrow> Action list \<Rightarrow> (nat \<times> nat \<times> u32) list" where
  "transfers base as =
     snd (fold (dma_effect base) as (\<lparr>r_base = 0, r_base1 = 0, r_mem = 0, r_fb = 0\<rparr>, []))"

definition block_transfers :: "nat \<Rightarrow> nat \<Rightarrow> u32 \<Rightarrow> nat \<Rightarrow> (nat \<times> nat \<times> u32) list" where
  "block_transfers src dest command n = map (\<lambda>i. (src + 256 * i, dest + 256 * i, command)) [0 ..< n]"

lemma dma_step_effect:
  assumes "unat dest + 256 * i < 2 ^ 32" and "unat mo + 256 * i < 2 ^ 32"
  shows "\<exists>r'. fold (dma_effect base) (dma_step base dest mo command i) (r, ts) =
    (r', ts @ [((unat (r_base r) + 2 ^ 32 * unat (r_base1 r)) * 256 + (unat mo + 256 * i),
      unat dest + 256 * i, command)]) \<and> r_base r' = r_base r \<and> r_base1 r' = r_base1 r"
proof -
  have i: "unat (of_nat (256 * i) :: u32) = 256 * i"
    using assms by (intro unat_of_nat_small) simp
  have "unat (dest + of_nat (256 * i)) = unat dest + 256 * i"
    "unat (mo + of_nat (256 * i)) = unat mo + 256 * i"
    using assms i by (simp_all add: unat_add_nowrap del: of_nat_mult)
  then show ?thesis
    by (simp add: dma_step_def dma_effect_def falcon_consts del: of_nat_mult)
qed

lemma dma_steps_effect:
  assumes "offsets_fit dest 0 n" and "offsets_fit mo 0 n"
  shows "\<exists>r'. fold (dma_effect base) (dma_steps base dest mo command 0 n) (r, ts) =
    (r', ts @ block_transfers ((unat (r_base r) + 2 ^ 32 * unat (r_base1 r)) * 256 + unat mo)
      (unat dest) command n) \<and> r_base r' = r_base r \<and> r_base1 r' = r_base1 r"
  using assms
proof (induction n)
  case 0
  then show ?case by (simp add: dma_steps_def block_transfers_def)
next
  case (Suc n)
  then have fit: "offsets_fit dest 0 n" "offsets_fit mo 0 n"
    and top: "unat dest + 256 * n < 2 ^ 32" "unat mo + 256 * n < 2 ^ 32"
    by (simp_all add: offsets_fit_def)
  obtain r1 where r1: "fold (dma_effect base) (dma_steps base dest mo command 0 n) (r, ts) =
      (r1, ts @ block_transfers ((unat (r_base r) + 2 ^ 32 * unat (r_base1 r)) * 256 + unat mo)
        (unat dest) command n)" "r_base r1 = r_base r" "r_base1 r1 = r_base1 r"
    using Suc.IH [OF fit] by blast
  obtain r2 where "fold (dma_effect base) (dma_step base dest mo command n)
      (r1, ts @ block_transfers ((unat (r_base r) + 2 ^ 32 * unat (r_base1 r)) * 256 + unat mo)
        (unat dest) command n) =
    (r2, (ts @ block_transfers ((unat (r_base r) + 2 ^ 32 * unat (r_base1 r)) * 256 + unat mo)
        (unat dest) command n) @ [((unat (r_base r1) + 2 ^ 32 * unat (r_base1 r1)) * 256 +
      (unat mo + 256 * n), unat dest + 256 * n, command)])" "r_base r2 = r_base r1" "r_base1 r2 = r_base1 r1"
    using dma_step_effect [OF top] by blast
  moreover have "dma_steps base dest mo command 0 (Suc n) =
      dma_steps base dest mo command 0 n @ dma_step base dest mo command n"
    by (simp add: dma_steps_def)
  ultimately show ?case
    using r1 by (simp add: block_transfers_def ac_simps)
qed

lemma base_regs_value:
  assumes "256 dvd unat s" and "unat s < 2 ^ 49"
  shows "(unat (ucast (drop_bit 8 s) :: u32) +
    2 ^ 32 * unat (ucast (drop_bit 32 (drop_bit 8 s) AND 0x1FF :: u64) :: u32)) * 256 = unat s"
proof -
  define q where "q = unat s div 256"
  have q: "unat s = 256 * q" using assms(1) by (simp add: q_def)
  then have q_lt: "q < 2 ^ 41" using assms(2) by simp
  have d8: "unat (drop_bit 8 s) = q" unfolding unat_drop_bit_eq by (simp add: drop_bit_eq_div q_def)
  have lo: "unat (ucast (drop_bit 8 s) :: u32) = q mod 2 ^ 32"
    by (simp only: unsigned_ucast_eq take_bit_eq_mod len_words d8)
  have d32: "unat (drop_bit 32 (drop_bit 8 s)) = q div 2 ^ 32"
    unfolding unat_drop_bit_eq [of 32] d8 by (simp only: drop_bit_eq_div)
  have hi_lt: "q div 2 ^ 32 < 2 ^ 9" using q_lt by (simp add: less_mult_imp_div_less)
  have "unat (drop_bit 32 (drop_bit 8 s) AND 0x1FF) = q div 2 ^ 32"
    using unat_and_mask [of "drop_bit 32 (drop_bit 8 s)" 9] hi_lt unfolding d32
    by (simp add: mask_eq_exp_minus_1)
  then have hi: "unat (ucast (drop_bit 32 (drop_bit 8 s) AND 0x1FF :: u64) :: u32) = q div 2 ^ 32"
    using hi_lt by (simp only: unsigned_ucast_eq take_bit_eq_mod len_words) simp
  show ?thesis unfolding lo hi q by (simp add: mult.commute)
qed

lemma dma_block_effect:
  assumes "dma_ok s dest mo bytes"
  shows "\<exists>r'. fold (dma_effect base) (dma_block base s dest mo bytes command) (r, ts) =
    (r', ts @ block_transfers (unat s + unat mo) (unat dest) command (unat bytes div 256))"
proof -
  let ?r = "r\<lparr>r_base := ucast (drop_bit 8 s),
    r_base1 := ucast (drop_bit 32 (drop_bit 8 s) AND 0x1FF)\<rparr>"
  have src: "(unat (r_base ?r) + 2 ^ 32 * unat (r_base1 ?r)) * 256 = unat s"
    using assms base_regs_value [of s] by (simp add: dma_ok_def)
  have start: "fold (dma_effect base)
      [poll (base + kDmaCmd) kDmaCmdFullMask 0,
       act Write32 (base + kDmaBase) (ucast (drop_bit 8 s)) 0xFFFFFFFF 0,
       act Write32 (base + kDmaBase1) (ucast (drop_bit 32 (drop_bit 8 s) AND 0x1FF)) 0x1FF 0] (r, ts) =
      (?r, ts)"
    by (simp add: dma_effect_def falcon_consts)
  obtain r' where "fold (dma_effect base) (dma_steps base dest mo command 0 (unat bytes div 256)) (?r, ts) =
      (r', ts @ block_transfers (unat s + unat mo) (unat dest) command (unat bytes div 256))"
    using dma_steps_effect [of dest "unat bytes div 256" mo base command ?r ts] assms
    unfolding src by (auto simp: dma_ok_def)
  then show ?thesis
    unfolding dma_block_def fold_append comp_apply start by (simp add: dma_effect_def)
qed

lemma source_plus_base:
  assumes "vb \<le> off" and "unat img + unat off < 2 ^ 64"
  shows "unat (img + ucast off - ucast vb :: u64) + unat (vb :: u32) = unat img + unat (off :: u32)"
proof -
  have sum: "unat (img + ucast off) = unat img + unat off"
    using assms(2) by (subst unat_add_nowrap) simp_all
  have vb: "unat vb \<le> unat off" using assms(1) by (simp add: word_le_nat_alt)
  then have "(ucast vb :: u64) \<le> img + ucast off"
    unfolding word_le_nat_alt sum by simp
  then have "unat (img + ucast off - ucast vb) = unat img + unat off - unat vb"
    by (simp add: unat_sub sum)
  with vb show ?thesis by simp
qed

text \<open>
  C17. What the plan of an authenticated execution loads: reading its register writes in order,
  the transfers it starts move exactly the \<open>imemBytes\<close> from the code offset of the image to the
  IMEM base with the secure IMEM command, then the \<open>dmemBytes\<close> from the data offset to the
  DMEM base with the DMEM command, 256 bytes at a time.
\<close>
theorem PlanAuthenticatedExecution_transfers:
  assumes "PlanAuthenticatedExecution p = Some plan" and "Plan.valid plan"
  shows "transfers (EngineBase (engine p)) (actions plan) =
    block_transfers (unat (imagePhysicalAddress p) + unat (codeOffset p))
      (unat (imemPhysicalBase p)) kImemDmaCommand (unat (imemBytes p) div 256) @
    block_transfers (unat (imagePhysicalAddress p) + unat (dataOffset p))
      (unat (dmemPhysicalBase p)) kDmemDmaCommand (unat (dmemBytes p) div 256)"
proof -
  have ok: "auth_ok p" and plan: "actions plan = auth_actions p"
    using assms by (auto simp: PlanAuthenticatedExecution_eq invalid_plan_def split: if_splits)
  let ?base = "EngineBase (engine p)"
  let ?eff = "dma_effect ?base"
  let ?t1 = "block_transfers (unat (imem_source p) + unat (imemVirtualBase p))
    (unat (imemPhysicalBase p)) kImemDmaCommand (unat (imemBytes p) div 256)"
  let ?t2 = "block_transfers (unat (dmem_source p) + unat (dmemVirtualBase p))
    (unat (dmemPhysicalBase p)) kDmemDmaCommand (unat (dmemBytes p) div 256)"
  have quiet: "?eff (act k (?base + rel) v m t) st = st"
    if "k \<noteq> Write32 \<or> rel \<notin> {kDmaBase, kDmaBase1, kDmaMemOffset, kDmaFbOffset, kDmaCmd}" for k rel v m t st
    using that by (cases st) (auto simp: dma_effect_def)
  have quiet_poll: "?eff (poll a m v) st = st" for a m v st
    by (cases st) (simp add: dma_effect_def)
  obtain r1 where imem: "fold ?eff (dma_block ?base (imem_source p) (imemPhysicalBase p)
      (imemVirtualBase p) (imemBytes p) kImemDmaCommand)
      (\<lparr>r_base = 0, r_base1 = 0, r_mem = 0, r_fb = 0\<rparr>, []) = (r1, [] @ ?t1)"
    using dma_block_effect ok unfolding auth_ok_def by blast
  obtain r2 where dmem: "fold ?eff (dma_block ?base (dmem_source p) (dmemPhysicalBase p)
      (dmemVirtualBase p) (dmemBytes p) kDmemDmaCommand) (r1, [] @ ?t1) = (r2, ([] @ ?t1) @ ?t2)"
    using dma_block_effect ok unfolding auth_ok_def by blast
  have "transfers ?base (auth_actions p) = ?t1 @ ?t2"
    unfolding transfers_def auth_actions_def Let_def fold_append comp_apply
    by (simp add: quiet quiet_poll falcon_consts imem [unfolded falcon_consts]
        dmem [unfolded falcon_consts append_Nil] split: option.split)
  then show ?thesis
    using ok plan source_plus_base [of "imemVirtualBase p" "codeOffset p" "imagePhysicalAddress p"]
      source_plus_base [of "dmemVirtualBase p" "dataOffset p" "imagePhysicalAddress p"]
    by (simp add: auth_ok_def imem_source_def dmem_source_def)
qed

definition sample_params :: HsParameters where
  "sample_params = \<lparr>engine = Sec2, imagePhysicalAddress = 0x10000000, codeOffset = 0x300,
     dataOffset = 0x100, imemPhysicalBase = 0, imemVirtualBase = 0x200, imemBytes = 0x200,
     dmemPhysicalBase = 0, dmemVirtualBase = 0, dmemBytes = 0x100, pkcOffset = 0x10,
     engineIdMask = 1, ucodeId = 3, mailbox = Some 0x1122334455667788\<rparr>"

lemma sample_params_ok: "auth_ok sample_params"
  by (simp add: auth_ok_def dma_ok_def sample_params_def imem_source_def dmem_source_def
      offsets_fit_0)

theorem PlanAuthenticatedExecution_transfers_witness:
  "transfers (EngineBase Sec2) (auth_actions sample_params) =
    [(0x10000300, 0, 0x614), (0x10000400, 0x100, 0x614), (0x10000100, 0, 0x600)]"
proof -
  have "PlanAuthenticatedExecution sample_params =
      Some \<lparr>Plan.valid = True, actions = auth_actions sample_params\<rparr>"
    by (simp add: PlanAuthenticatedExecution_eq sample_params_ok)
  from PlanAuthenticatedExecution_transfers [OF this] show ?thesis
    by (simp add: sample_params_def block_transfers_def falcon_consts upt_rec)
qed

end
