(* ===== verification/FalconExec.thy ===== *)
theory FalconExec
  imports DriverKit Falcon
begin

text \<open>
  The Falcon plan executor of the driver (\<open>macos/Driver/RTXMacFalcon.cpp\<close>): the only code
  that turns a Falcon plan into register accesses. The device is a parameter
  (\<open>DriverKit.Aperture\<close>); the history of its accesses is the state, passed explicitly.
\<close>

section \<open>Operations\<close>

record RTXMacFalconExecutionResult =
  status :: kern_return
  actionIndex :: nat
  actionsCompleted :: nat
  totalWaitMilliseconds :: u64
  hardwareActionsStarted :: bool

definition kPageBytes :: u64 where
  "kPageBytes = 0x1000"

text \<open>A null descriptor is \<open>None\<close>. Releasing a mapping has no effect the model keeps.\<close>

definition MapRegister :: "Aperture option \<Rightarrow> u64 \<Rightarrow> u32 \<Rightarrow> history \<Rightarrow> kern_return \<times> history" where
  "MapRegister bar0 bar0Size off h =
     (case bar0 of None \<Rightarrow> (kIOReturnBadArgument, h)
      | Some dev \<Rightarrow>
        if off AND 3 \<noteq> 0 \<or> bar0Size < ucast off + 4 then (kIOReturnNoResources, h)
        else let pageBase = ucast off AND NOT (kPageBytes - 1);
                 inPage = ucast off - pageBase;
                 mapLength = (if pageBase + kPageBytes \<le> bar0Size then kPageBytes
                              else bar0Size - pageBase)
        in if mapLength < inPage + 4 then (kIOReturnNoResources, h)
        else let (kr, m) = CreateMapping dev h pageBase mapLength;
                 h = h @ [Mapped pageBase mapLength]
        in if kr \<noteq> kIOReturnSuccess \<or> m = None
           then (if kr = kIOReturnSuccess then kIOReturnError else kr, h)
           else if m = Some 0 then (kIOReturnNoResources, h)
           else (kIOReturnSuccess, h))"

definition ReadRegister ::
    "Aperture option \<Rightarrow> u64 \<Rightarrow> u32 \<Rightarrow> history \<Rightarrow> kern_return \<times> u32 \<times> history" where
  "ReadRegister bar0 bar0Size off h =
     (let (kr, h) = MapRegister bar0 bar0Size off h
      in if kr \<noteq> kIOReturnSuccess then (kr, 0, h)
         else case bar0 of None \<Rightarrow> (kr, 0, h)
         | Some dev \<Rightarrow> let (v, h) = reg_read dev off h in (kIOReturnSuccess, v, h))"

definition ExecuteConcreteWrite ::
    "Aperture option \<Rightarrow> u64 \<Rightarrow> Action \<Rightarrow> history \<Rightarrow> kern_return \<times> history" where
  "ExecuteConcreteWrite bar0 bar0Size a h =
     (if CheckGa102ActionPolicy a \<noteq> Allowed \<or> (kind a \<noteq> Write32 \<and> kind a \<noteq> MaskedWrite)
      then (kIOReturnNotPermitted, h)
      else let (kr, h) = MapRegister bar0 bar0Size (address a) h
      in if kr \<noteq> kIOReturnSuccess then (kr, h)
         else case bar0 of None \<Rightarrow> (kr, h)
         | Some dev \<Rightarrow>
           let h = (if kind a = Write32 then reg_write (address a) (Action.value a) h
                    else let (oldValue, h) = reg_read dev (address a) h;
                             newValue = (oldValue AND NOT (Action.mask' a)) OR
                               (Action.value a AND Action.mask' a)
                         in reg_write (address a) newValue h);
               (postedWriteFlush, h) = reg_read dev (address a) h
           in (kIOReturnSuccess, h))"

definition CanConsumeWait :: "u64 \<Rightarrow> u64 \<Rightarrow> u64 \<Rightarrow> bool" where
  "CanConsumeWait tot addition maximum \<longleftrightarrow> addition \<le> maximum \<and> tot \<le> maximum - addition"

text \<open>The poll loop: the first component says whether the function returns with the status
  of the result, or goes on with the next action.\<close>

function ExecutePoll ::
    "Aperture option \<Rightarrow> u64 \<Rightarrow> u64 \<Rightarrow> Action \<Rightarrow> u64 \<Rightarrow> RTXMacFalconExecutionResult \<Rightarrow> history \<Rightarrow>
     bool \<times> RTXMacFalconExecutionResult \<times> history" where
  "ExecutePoll bar0 bar0Size maxWait a actionWait out h =
     (let (kr, v, h) = ReadRegister bar0 bar0Size (address a) h
      in if kr \<noteq> kIOReturnSuccess then (True, out\<lparr>status := kr\<rparr>, h)
         else if v AND Action.mask' a = Action.value a then (False, out, h)
         else if ucast (timeoutMs a) \<le> actionWait \<or>
             \<not> CanConsumeWait (totalWaitMilliseconds out) 1 maxWait
         then (True, out\<lparr>status := kIOReturnTimeout\<rparr>, h)
         else ExecutePoll bar0 bar0Size maxWait a (actionWait + 1)
                (out\<lparr>totalWaitMilliseconds := totalWaitMilliseconds out + 1\<rparr>) (h @ [Sleep 1]))"
  by pat_completeness auto

lemma poll_wait_step:
  "\<not> (ucast (t :: u32) :: u64) \<le> w \<Longrightarrow> unat t - unat (w + 1) < unat t - unat w"
proof -
  assume "\<not> (ucast t :: u64) \<le> w"
  then have "unat w < unat t" by (simp add: word_le_nat_alt)
  moreover from this have "unat (w + 1) = unat w + 1"
    using unat_lt(3) [of t] by (subst unat_add_nowrap) auto
  ultimately show ?thesis by simp
qed

termination ExecutePoll
  by (relation "measure (\<lambda>(_, _, _, a, w, _, _). unat (timeoutMs a) - unat w)")
    (auto simp: poll_wait_step)

text \<open>The loop over the actions from index \<open>i\<close>, and the return after it.\<close>

fun ExecuteActions ::
    "Aperture option \<Rightarrow> u64 \<Rightarrow> u64 \<Rightarrow> Action list \<Rightarrow> nat \<Rightarrow> bool \<Rightarrow> RTXMacFalconExecutionResult \<Rightarrow>
     history \<Rightarrow> RTXMacFalconExecutionResult \<times> history" where
  "ExecuteActions bar0 bar0Size maxWait [] i skipping out h =
     (out\<lparr>actionIndex := i, status := kIOReturnSuccess\<rparr>, h)"
| "ExecuteActions bar0 bar0Size maxWait (a # as) i skipping out h =
     (let out = out\<lparr>actionIndex := i\<rparr>;
          next = (\<lambda>skipping out h. ExecuteActions bar0 bar0Size maxWait as (Suc i) skipping
                    (out\<lparr>actionsCompleted := actionsCompleted out + 1\<rparr>) h)
      in if skipping \<and> kind a \<noteq> EndIf then next skipping out h
      else case kind a of
        Write32 \<Rightarrow> let (kr, h) = ExecuteConcreteWrite bar0 bar0Size a h in
          if kr \<noteq> kIOReturnSuccess then (out\<lparr>status := kr\<rparr>, h)
          else next skipping (out\<lparr>hardwareActionsStarted := True\<rparr>) h
      | MaskedWrite \<Rightarrow> let (kr, h) = ExecuteConcreteWrite bar0 bar0Size a h in
          if kr \<noteq> kIOReturnSuccess then (out\<lparr>status := kr\<rparr>, h)
          else next skipping (out\<lparr>hardwareActionsStarted := True\<rparr>) h
      | PollMaskEqual \<Rightarrow> let (returns, out, h) = ExecutePoll bar0 bar0Size maxWait a 0 out h in
          if returns then (out, h) else next skipping out h
      | DelayMilliseconds \<Rightarrow>
          if \<not> CanConsumeWait (totalWaitMilliseconds out) (ucast (Action.value a)) maxWait
          then (out\<lparr>status := kIOReturnTimeout\<rparr>, h)
          else next skipping
            (out\<lparr>totalWaitMilliseconds := totalWaitMilliseconds out + ucast (Action.value a)\<rparr>)
            (h @ [Sleep (ucast (Action.value a))])
      | StartCpuRespectAlias \<Rightarrow>
          let (kr, cpuCtl, h) = ReadRegister bar0 bar0Size (address a) h in
          if kr \<noteq> kIOReturnSuccess then (out\<lparr>status := kr\<rparr>, h)
          else let resolved = ResolveGa102StartCpuAction a cpuCtl in
          if \<not> ResolvedStartCpuAction.valid resolved
          then (out\<lparr>status := kIOReturnNotPermitted\<rparr>, h)
          else let (kr, h) = ExecuteConcreteWrite bar0 bar0Size (action resolved) h in
          if kr \<noteq> kIOReturnSuccess then (out\<lparr>status := kr\<rparr>, h)
          else next skipping (out\<lparr>hardwareActionsStarted := True\<rparr>) h
      | IfMaskEqualBegin \<Rightarrow>
          let (kr, v, h) = ReadRegister bar0 bar0Size (address a) h in
          if kr \<noteq> kIOReturnSuccess then (out\<lparr>status := kr\<rparr>, h)
          else next (v AND Action.mask' a \<noteq> Action.value a) out h
      | EndIf \<Rightarrow> next False out h)"

definition RTXMacExecuteFalconPlan ::
    "Aperture option \<Rightarrow> u64 \<Rightarrow> Plan \<Rightarrow> bool \<Rightarrow> u64 \<Rightarrow> history \<Rightarrow>
     RTXMacFalconExecutionResult \<times> history" where
  "RTXMacExecuteFalconPlan bar0 bar0Size plan writesEnabled maxWait h =
     (let out = \<lparr>status = kIOReturnNotPermitted, actionIndex = 0, actionsCompleted = 0,
                 totalWaitMilliseconds = 0, hardwareActionsStarted = False\<rparr>
      in if \<not> writesEnabled then (out, h)
         else if bar0 = None \<or> bar0Size = 0 \<or> maxWait = 0
         then (out\<lparr>status := kIOReturnBadArgument\<rparr>, h)
         else let report = CheckGa102PlanPolicy plan
         in if \<not> PlanPolicyReport.valid report
            then (out\<lparr>status := kIOReturnNotPermitted, actionIndex := firstDeniedIndex report\<rparr>, h)
            else ExecuteActions bar0 bar0Size maxWait (actions plan) 0 False out h)"

section \<open>Every store is one the policy allows\<close>

text \<open>
  An allowed store: the register is in the write allow-list of an engine, and either the
  whole value lies in the audited mask, or the store follows a read of the same register and
  changes only bits of the mask.
\<close>

definition store_allowed :: "Event option \<Rightarrow> u32 \<Rightarrow> u32 \<Rightarrow> bool" where
  "store_allowed prev off v \<longleftrightarrow> (\<exists>e rel r. off = EngineBase e + rel \<and> FindRule kWriteRules rel = Some r \<and>
     (v AND NOT (RegisterRule.mask' r) = 0 \<or>
      (\<exists>old. prev = Some (RegRead off old) \<and> (old XOR v) AND NOT (RegisterRule.mask' r) = 0)))"

lemma allowed_writeD:
  assumes "CheckGa102ActionPolicy a = Allowed" and "kind a = Write32 \<or> kind a = MaskedWrite"
  shows "\<exists>e rel r. address a = EngineBase e + rel \<and> FindRule kWriteRules rel = Some r \<and>
    Action.mask' a AND NOT (RegisterRule.mask' r) = 0 \<and> Action.value a AND NOT (Action.mask' a) = 0"
proof -
  obtain rel where rel: "DecodeEngineAddress (address a) = Some rel"
    using assms by (cases "DecodeEngineAddress (address a)")
      (auto simp: CheckGa102ActionPolicy_def Let_def)
  obtain r where r: "FindRule kWriteRules rel = Some r"
    using assms rel by (cases "FindRule kWriteRules rel")
      (auto simp: CheckGa102ActionPolicy_def Let_def)
  from assms rel r have "Action.mask' a AND NOT (RegisterRule.mask' r) = 0 \<and>
      Action.value a AND NOT (Action.mask' a) = 0"
    by (auto simp: CheckGa102ActionPolicy_def Let_def ValueFitsMask_def split: if_splits)
  with DecodeEngineAddress_Some [OF rel] r show ?thesis by blast
qed

lemma mask_trans:
  "v AND NOT m = 0 \<Longrightarrow> m AND NOT r = 0 \<Longrightarrow> v AND NOT r = (0 :: 'a::len word)"
  by (rule bit_word_eqI) (auto simp: bit_eq_iff bit_simps)

lemma masked_change:
  "m AND NOT r = 0 \<Longrightarrow> (old XOR ((old AND NOT m) OR (v AND m))) AND NOT r = (0 :: 'a::len word)"
  by (rule bit_word_eqI) (auto simp: bit_eq_iff bit_simps)

lemma MapRegister_extends:
  "extends store_allowed h (snd (MapRegister bar0 bar0Size off h)) 0"
  by (simp add: MapRegister_def Let_def split: option.split prod.split)

lemma ReadRegister_extends:
  "ReadRegister bar0 bar0Size off h = (kr, v, h') \<Longrightarrow> extends store_allowed h h' 0"
  using MapRegister_extends [of h bar0 bar0Size off]
    extends_trans [of store_allowed h "snd (MapRegister bar0 bar0Size off h)" 0 _ 0]
  by (auto simp: ReadRegister_def Let_def reg_read_def split: prod.splits if_splits option.splits)

lemma extends_write:
  "store_allowed (last_event None h) off v \<Longrightarrow> extends store_allowed h (reg_write off v h) 0"
  using extends_event [where e = "RegWrite off v" and P = store_allowed and h = h] by (simp add: reg_write_def)

lemma ExecuteConcreteWrite_extends:
  assumes "ExecuteConcreteWrite bar0 bar0Size a h = (kr, h')"
  shows "extends store_allowed h h' 0"
proof (cases "CheckGa102ActionPolicy a = Allowed \<and> (kind a = Write32 \<or> kind a = MaskedWrite)")
  case False
  with assms show ?thesis by (auto simp: ExecuteConcreteWrite_def)
next
  case True
  then obtain e rel r where r: "address a = EngineBase e + rel" "FindRule kWriteRules rel = Some r"
    "Action.mask' a AND NOT (RegisterRule.mask' r) = 0" "Action.value a AND NOT (Action.mask' a) = 0"
    using allowed_writeD by blast
  obtain kr1 h1 where m: "MapRegister bar0 bar0Size (address a) h = (kr1, h1)" by force
  have h1: "extends store_allowed h h1 0" using MapRegister_extends m by (metis snd_conv)
  show ?thesis
  proof (cases "kr1 = kIOReturnSuccess \<and> bar0 \<noteq> None")
    case False
    with assms True m h1 show ?thesis
      by (auto simp: ExecuteConcreteWrite_def split: option.splits if_splits)
  next
    case succ: True
    then obtain dev where dev: "bar0 = Some dev" by auto
    show ?thesis
    proof (cases "kind a = Write32")
      case w: True
      have "store_allowed (last_event None h1) (address a) (Action.value a)"
        using r mask_trans [OF r(4) r(3)] unfolding store_allowed_def by blast
      then have "extends store_allowed h1 (reg_write (address a) (Action.value a) h1) 0"
        by (rule extends_write)
      then have "extends store_allowed h (reg_write (address a) (Action.value a) h1) 0"
        using extends_trans [OF h1] by fastforce
      from extends_trans [OF this extends_read] w succ True assms m dev show ?thesis
        by (auto simp: ExecuteConcreteWrite_def reg_read_def Let_def)
    next
      case mw: False
      let ?old = "load dev h1 (address a)"
      let ?new = "(?old AND NOT (Action.mask' a)) OR (Action.value a AND Action.mask' a)"
      let ?h2 = "h1 @ [RegRead (address a) ?old]"
      have "store_allowed (last_event None ?h2) (address a) ?new"
        unfolding store_allowed_def last_event_snoc using r masked_change by blast
      then have "extends store_allowed ?h2 (reg_write (address a) ?new ?h2) 0"
        by (rule extends_write)
      then have "extends store_allowed h (reg_write (address a) ?new ?h2) 0"
        using extends_trans [OF extends_trans [OF h1 extends_read]] by fastforce
      from extends_trans [OF this extends_read] mw succ True assms m dev show ?thesis
        by (auto simp: ExecuteConcreteWrite_def reg_read_def Let_def)
    qed
  qed
qed

lemma consume_wait:
  "CanConsumeWait tot n maximum \<Longrightarrow>
    unat (tot + n) = unat tot + unat n \<and> unat tot + unat n \<le> unat maximum"
proof -
  assume c: "CanConsumeWait tot n maximum"
  then have "unat tot \<le> unat maximum - unat n" "unat n \<le> unat maximum"
    by (auto simp: CanConsumeWait_def word_le_nat_alt unat_sub)
  then have le: "unat tot + unat n \<le> unat maximum" by simp
  then show ?thesis using unat_lt(4) [of maximum] by (auto intro!: unat_add_nowrap)
qed

text \<open>What holds of every way a step ends: safe stores, and the wait counter of the result is
  the time slept, within the budget.\<close>

definition waits ::
    "u64 \<Rightarrow> RTXMacFalconExecutionResult \<Rightarrow> history \<Rightarrow> RTXMacFalconExecutionResult \<Rightarrow> history \<Rightarrow> bool" where
  "waits maxWait out h out' h' \<longleftrightarrow> (\<exists>ms. extends store_allowed h h' ms \<and>
     unat (totalWaitMilliseconds out') = unat (totalWaitMilliseconds out) + ms \<and>
     (unat (totalWaitMilliseconds out) \<le> unat maxWait \<longrightarrow>
      unat (totalWaitMilliseconds out') \<le> unat maxWait))"

lemma waits_trans: "waits m o1 h1 o2 h2 \<Longrightarrow> waits m o2 h2 o3 h3 \<Longrightarrow> waits m o1 h1 o3 h3"
  unfolding waits_def by (elim exE conjE) (intro exI conjI impI, rule extends_trans, auto)

lemma waits_0: "extends store_allowed h h' 0 \<Longrightarrow>
    totalWaitMilliseconds out' = totalWaitMilliseconds out \<Longrightarrow> waits m out h out' h'"
  by (auto simp: waits_def intro!: exI [of _ 0])

lemma waits_sleep:
  assumes "CanConsumeWait (totalWaitMilliseconds out) n m"
    and "totalWaitMilliseconds out' = totalWaitMilliseconds out + n"
  shows "waits m out h out' (h @ [Sleep n])"
  using consume_wait [OF assms(1)] assms(2) unfolding waits_def
  by (intro exI [of _ "unat n"]) simp

lemma ExecutePoll_waits:
  "ExecutePoll bar0 bar0Size maxWait a w out h = (returns, out', h') \<Longrightarrow> waits maxWait out h out' h'"
proof (induction bar0 bar0Size maxWait a w out h rule: ExecutePoll.induct)
  case (1 bar0 bar0Size maxWait a w out h)
  obtain kr v h1 where r: "ReadRegister bar0 bar0Size (address a) h = (kr, v, h1)" by (metis prod_cases3)
  have h1: "extends store_allowed h h1 0" using r by (rule ReadRegister_extends)
  let ?out = "out\<lparr>totalWaitMilliseconds := totalWaitMilliseconds out + 1\<rparr>"
  show ?case
  proof (cases "kr \<noteq> kIOReturnSuccess \<or> v AND Action.mask' a = Action.value a \<or>
      ucast (timeoutMs a) \<le> w \<or> \<not> CanConsumeWait (totalWaitMilliseconds out) 1 maxWait")
    case True
    then have "h' = h1 \<and> totalWaitMilliseconds out' = totalWaitMilliseconds out"
      using 1(2) r by (subst (asm) ExecutePoll.simps) (auto simp: Let_def split: if_splits)
    with h1 show ?thesis by (auto intro: waits_0)
  next
    case False
    then have "ExecutePoll bar0 bar0Size maxWait a (w + 1) ?out (h1 @ [Sleep 1]) = (returns, out', h')"
      using 1(2) r by (subst (asm) ExecutePoll.simps) (simp add: Let_def)
    then have "waits maxWait ?out (h1 @ [Sleep 1]) out' h'"
      using 1(1) [OF r [symmetric] refl refl] False by blast
    moreover have "waits maxWait out h1 ?out (h1 @ [Sleep 1])"
      using False by (intro waits_sleep) auto
    moreover have "waits maxWait out h out h1" using h1 by (intro waits_0) auto
    ultimately show ?thesis by (blast intro: waits_trans)
  qed
qed

lemma ExecutePoll_fields:
  "ExecutePoll bar0 bar0Size maxWait a w out h = (returns, out', h') \<Longrightarrow>
    actionsCompleted out' = actionsCompleted out \<and> (returns \<longrightarrow> status out' \<noteq> kIOReturnSuccess)"
proof (induction bar0 bar0Size maxWait a w out h rule: ExecutePoll.induct)
  case (1 bar0 bar0Size maxWait a w out h)
  obtain kr v h1 where r: "ReadRegister bar0 bar0Size (address a) h = (kr, v, h1)" by (metis prod_cases3)
  from 1(2) 1(1) [OF r [symmetric] refl refl] r show ?case
    by (subst (asm) ExecutePoll.simps) (auto simp: Let_def split: if_splits)
qed

lemma waits_refl_upd: "totalWaitMilliseconds out' = totalWaitMilliseconds out \<Longrightarrow> waits m out h out' h"
  by (rule waits_0) simp_all

text \<open>One action: either the function returns with a non-success status, or it goes on with
  the next action, having waited as recorded.\<close>

lemma ExecuteActions_Cons:
  assumes "ExecuteActions bar0 bar0Size maxWait (a # as) i skipping out h = (out', h')"
  shows "(waits maxWait out h out' h' \<and> status out' \<noteq> kIOReturnSuccess) \<or>
    (\<exists>skipping2 out2 h2. waits maxWait out h out2 h2 \<and>
      actionsCompleted out2 = actionsCompleted out + 1 \<and>
      ExecuteActions bar0 bar0Size maxWait as (Suc i) skipping2 out2 h2 = (out', h'))"
proof -
  obtain kr v h1 where r: "ReadRegister bar0 bar0Size (address a) h = (kr, v, h1)"
    by (metis prod_cases3)
  note read = ReadRegister_extends [OF r]
  obtain krw hw where w: "ExecuteConcreteWrite bar0 bar0Size a h = (krw, hw)" by force
  note wext = ExecuteConcreteWrite_extends [OF w]
  obtain ret outp hp where p: "ExecutePoll bar0 bar0Size maxWait a 0 (out\<lparr>actionIndex := i\<rparr>) h =
      (ret, outp, hp)" by (metis prod_cases3)
  note poll = ExecutePoll_waits [OF p] ExecutePoll_fields [OF p]
  let ?resolved = "ResolveGa102StartCpuAction a v"
  obtain krs hs where s: "ExecuteConcreteWrite bar0 bar0Size (action ?resolved) h1 = (krs, hs)"
    by force
  have start: "extends store_allowed h hs 0"
    using extends_trans [OF read ExecuteConcreteWrite_extends [OF s]] by simp
  let ?run = "ExecuteActions bar0 bar0Size maxWait as (Suc i)"
  have ret: ?thesis if "waits maxWait out h out' h'" "status out' \<noteq> kIOReturnSuccess"
    using that by blast
  have ret0: ?thesis if "extends store_allowed h h' 0" "status out' \<noteq> kIOReturnSuccess"
    "totalWaitMilliseconds out' = totalWaitMilliseconds out"
    using that ret waits_0 by blast
  have go: ?thesis if "?run sk o2 h2 = (out', h')" "waits maxWait out h o2 h2"
    "actionsCompleted o2 = actionsCompleted out + 1" for sk o2 h2
    using that by blast
  have go0: ?thesis if "?run sk o2 h2 = (out', h')" "extends store_allowed h h2 0"
    "totalWaitMilliseconds o2 = totalWaitMilliseconds out"
    "actionsCompleted o2 = actionsCompleted out + 1" for sk o2 h2
    using that go waits_0 by blast
  let ?out = "out\<lparr>actionIndex := i\<rparr>"
  let ?done = "\<lambda>o1. o1\<lparr>actionsCompleted := actionsCompleted out + 1\<rparr>"
  let ?wrote = "?done (?out\<lparr>hardwareActionsStarted := True\<rparr>)"
  show ?thesis
  proof (cases "skipping \<and> kind a \<noteq> EndIf")
    case True
    with assms have "?run skipping (?done ?out) h = (out', h')" by (simp add: Let_def)
    then show ?thesis by (rule go0) simp_all
  next
    case False
    note ex = assms [unfolded ExecuteActions.simps(2) Let_def if_not_P [OF False]]
    have writes: ?thesis if k: "kind a = Write32 \<or> kind a = MaskedWrite"
    proof (cases "krw = kIOReturnSuccess")
      case True
      with ex w k have "?run skipping ?wrote hw = (out', h')" by auto
      then show ?thesis by (rule go0) (simp_all add: wext)
    next
      case False
      with ex w k have "out' = ?out\<lparr>status := krw\<rparr>" "h' = hw" by auto
      with False wext show ?thesis by (intro ret0) simp_all
    qed
    show ?thesis
    proof (cases "kind a")
      case PollMaskEqual
      show ?thesis
      proof (cases ret)
        case True
        with PollMaskEqual ex p have "out' = outp" "h' = hp" by auto
        with True poll show ?thesis by (intro ret) (simp_all add: waits_def)
      next
        case False
        with PollMaskEqual ex p have "?run skipping (outp\<lparr>actionsCompleted :=
          actionsCompleted outp + 1\<rparr>) hp = (out', h')" by auto
        then show ?thesis by (rule go) (use poll in \<open>simp_all add: waits_def\<close>)
      qed
    next
      case DelayMilliseconds
      let ?ms = "ucast (Action.value a) :: u64"
      show ?thesis
      proof (cases "CanConsumeWait (totalWaitMilliseconds out) ?ms maxWait")
        case True
        with DelayMilliseconds ex have "?run skipping (?done (?out\<lparr>totalWaitMilliseconds :=
          totalWaitMilliseconds out + ?ms\<rparr>)) (h @ [Sleep ?ms]) = (out', h')" by simp
        then show ?thesis by (rule go) (use True in \<open>simp_all add: waits_sleep\<close>)
      next
        case False
        with DelayMilliseconds ex have "out' = ?out\<lparr>status := kIOReturnTimeout\<rparr>" "h' = h" by auto
        then show ?thesis by (intro ret0) simp_all
      qed
    next
      case StartCpuRespectAlias
      consider (unread) "kr \<noteq> kIOReturnSuccess"
        | (invalid) "kr = kIOReturnSuccess" "\<not> ResolvedStartCpuAction.valid ?resolved"
        | (failed) "kr = kIOReturnSuccess" "ResolvedStartCpuAction.valid ?resolved" "krs \<noteq> kIOReturnSuccess"
        | (started) "kr = kIOReturnSuccess" "ResolvedStartCpuAction.valid ?resolved" "krs = kIOReturnSuccess"
        by blast
      then show ?thesis
      proof cases
        case unread
        with StartCpuRespectAlias ex r have "out' = ?out\<lparr>status := kr\<rparr>" "h' = h1" by auto
        with unread read show ?thesis by (intro ret0) simp_all
      next
        case invalid
        with StartCpuRespectAlias ex r have "out' = ?out\<lparr>status := kIOReturnNotPermitted\<rparr>" "h' = h1"
          by auto
        with read show ?thesis by (intro ret0) simp_all
      next
        case failed
        with StartCpuRespectAlias ex r s have "out' = ?out\<lparr>status := krs\<rparr>" "h' = hs" by auto
        with failed start show ?thesis by (intro ret0) simp_all
      next
        case started
        with StartCpuRespectAlias ex r s have "?run skipping ?wrote hs = (out', h')" by simp
        then show ?thesis by (rule go0) (simp_all add: start)
      qed
    next
      case IfMaskEqualBegin
      show ?thesis
      proof (cases "kr = kIOReturnSuccess")
        case True
        with IfMaskEqualBegin ex r have "?run (v AND Action.mask' a \<noteq> Action.value a) (?done ?out) h1 =
          (out', h')" by simp
        then show ?thesis by (rule go0) (simp_all add: read)
      next
        case False
        with IfMaskEqualBegin ex r have "out' = ?out\<lparr>status := kr\<rparr>" "h' = h1" by auto
        with False read show ?thesis by (intro ret0) simp_all
      qed
    next
      case EndIf
      with ex have "?run False (?done ?out) h = (out', h')" by simp
      then show ?thesis by (rule go0) simp_all
    qed (use writes in simp_all)
  qed
qed

lemma ExecuteActions_waits:
  "ExecuteActions bar0 bar0Size maxWait as i skipping out h = (out', h') \<Longrightarrow>
    waits maxWait out h out' h' \<and> (status out' = kIOReturnSuccess \<longrightarrow>
      actionsCompleted out' = actionsCompleted out + length as)"
proof (induction as arbitrary: i skipping out h)
  case Nil
  then show ?case by (auto intro: waits_refl_upd)
next
  case (Cons a as)
  from ExecuteActions_Cons [OF Cons.prems] show ?case
  proof
    assume "\<exists>skipping2 out2 h2. waits maxWait out h out2 h2 \<and>
      actionsCompleted out2 = actionsCompleted out + 1 \<and>
      ExecuteActions bar0 bar0Size maxWait as (Suc i) skipping2 out2 h2 = (out', h')"
    then obtain sk o2 h2 where o2: "waits maxWait out h o2 h2"
      "actionsCompleted o2 = actionsCompleted out + 1"
      "ExecuteActions bar0 bar0Size maxWait as (Suc i) sk o2 h2 = (out', h')" by blast
    from Cons.IH [OF o2(3)] o2 waits_trans [OF o2(1)] show ?thesis by auto
  qed simp
qed

section \<open>Every store is reported\<close>

text \<open>The register stores of a history. A Falcon plan that has stored anything says so.\<close>

definition stores :: "history \<Rightarrow> history" where
  "stores h = filter (\<lambda>e. case e of RegWrite off v \<Rightarrow> True | _ \<Rightarrow> False) h"

lemma stores_simps [simp]:
  "stores [] = []" "stores (xs @ ys) = stores xs @ stores ys" "stores [RegWrite off v] = [RegWrite off v]"
  "stores [RegRead off v] = []" "stores [Mapped o' n] = []" "stores [Sleep m] = []" "stores [Dma d] = []"
  by (simp_all add: stores_def)

lemma MapRegister_stores: "stores (snd (MapRegister bar0 bar0Size off h)) = stores h"
  by (simp add: MapRegister_def Let_def split: option.split prod.split)

lemma ReadRegister_stores: "ReadRegister bar0 bar0Size off h = (kr, v, h') \<Longrightarrow> stores h' = stores h"
  using MapRegister_stores [of bar0 bar0Size off h]
  by (auto simp: ReadRegister_def Let_def reg_read_def split: prod.splits if_splits option.splits)

lemma ExecuteConcreteWrite_stores:
  "ExecuteConcreteWrite bar0 bar0Size a h = (kr, h') \<Longrightarrow> kr \<noteq> kIOReturnSuccess \<Longrightarrow> stores h' = stores h"
  using MapRegister_stores [of bar0 bar0Size "Action.address a" h]
  by (auto simp: ExecuteConcreteWrite_def Let_def reg_read_def reg_write_def
      split: prod.splits if_splits option.splits)

lemma ExecutePoll_stores:
  "ExecutePoll bar0 bar0Size maxWait a w out h = (returns, out', h') \<Longrightarrow> stores h' = stores h \<and>
    hardwareActionsStarted out' = hardwareActionsStarted out"
proof (induction bar0 bar0Size maxWait a w out h rule: ExecutePoll.induct)
  case (1 bar0 bar0Size maxWait a w out h)
  obtain kr v h1 where r: "ReadRegister bar0 bar0Size (Action.address a) h = (kr, v, h1)" by (metis prod_cases3)
  from 1(2) 1(1) [OF r [symmetric] refl refl] r ReadRegister_stores [OF r] show ?case
    by (subst (asm) ExecutePoll.simps) (auto simp: Let_def split: if_splits)
qed

definition reports_stores :: "RTXMacFalconExecutionResult \<Rightarrow> history \<Rightarrow> RTXMacFalconExecutionResult \<Rightarrow> history \<Rightarrow> bool" where
  "reports_stores out h out' h' \<longleftrightarrow>
     hardwareActionsStarted out' \<or>
     \<not> hardwareActionsStarted out \<and> stores h' = stores h"

lemma ExecuteActions_stores:
  "ExecuteActions bar0 bar0Size maxWait as i skipping out h = (out', h') \<Longrightarrow> reports_stores out h out' h'"
proof (induction as arbitrary: i skipping out h)
  case Nil
  then show ?case by (auto simp: reports_stores_def)
next
  case (Cons a as)
  obtain kr v h1 where r: "ReadRegister bar0 bar0Size (Action.address a) h = (kr, v, h1)" by (metis prod_cases3)
  note read = ReadRegister_stores [OF r]
  obtain krw hw where w: "ExecuteConcreteWrite bar0 bar0Size a h = (krw, hw)" by force
  note wr = ExecuteConcreteWrite_stores [OF w]
  obtain ret outp hp where p: "ExecutePoll bar0 bar0Size maxWait a 0 (out\<lparr>actionIndex := i\<rparr>) h = (ret, outp, hp)"
    by (metis prod_cases3)
  note poll = ExecutePoll_stores [OF p]
  obtain krs hs where s: "ExecuteConcreteWrite bar0 bar0Size (action (ResolveGa102StartCpuAction a v)) h1 = (krs, hs)"
    by force
  note start = ExecuteConcreteWrite_stores [OF s]
  show ?case
    by (cases "skipping \<and> Action.kind a \<noteq> EndIf"; cases "Action.kind a")
      (use Cons.prems r w p s read wr poll start in
        \<open>auto simp: Let_def reports_stores_def split: if_splits dest!: Cons.IH\<close>)
qed

lemma RTXMacExecuteFalconPlan_stores:
  assumes "RTXMacExecuteFalconPlan bar0 bar0Size plan writesEnabled maxWait h = (out, h')"
  shows "stores h' \<noteq> stores h \<longrightarrow> hardwareActionsStarted out"
proof (cases "writesEnabled \<and> bar0 \<noteq> None \<and> bar0Size \<noteq> 0 \<and> maxWait \<noteq> 0 \<and>
    PlanPolicyReport.valid (CheckGa102PlanPolicy plan)")
  case True
  with assms have "ExecuteActions bar0 bar0Size maxWait (actions plan) 0 False
      \<lparr>status = kIOReturnNotPermitted, actionIndex = 0, actionsCompleted = 0,
        totalWaitMilliseconds = 0, hardwareActionsStarted = False\<rparr> h = (out, h')"
    by (auto simp: RTXMacExecuteFalconPlan_def Let_def)
  from ExecuteActions_stores [OF this] show ?thesis by (auto simp: reports_stores_def)
next
  case False
  with assms show ?thesis by (auto simp: RTXMacExecuteFalconPlan_def Let_def split: if_splits)
qed

lemma RTXMacExecuteFalconPlan_cases:
  assumes "RTXMacExecuteFalconPlan bar0 bar0Size plan writesEnabled maxWait h = (out, h')"
  shows "\<exists>new. h' = h @ new \<and> stores_ok store_allowed (last_event None h) new \<and>
      slept new = unat (totalWaitMilliseconds out) \<and> slept new \<le> unat maxWait \<and>
      (new \<noteq> [] \<longrightarrow> writesEnabled \<and> PlanPolicyReport.valid (CheckGa102PlanPolicy plan)) \<and>
      (status out = kIOReturnSuccess \<longrightarrow> actionsCompleted out = length (actions plan))"
proof (cases "writesEnabled \<and> bar0 \<noteq> None \<and> bar0Size \<noteq> 0 \<and> maxWait \<noteq> 0 \<and>
    PlanPolicyReport.valid (CheckGa102PlanPolicy plan)")
  case True
  with assms have "ExecuteActions bar0 bar0Size maxWait (actions plan) 0 False
      \<lparr>status = kIOReturnNotPermitted, actionIndex = 0, actionsCompleted = 0,
        totalWaitMilliseconds = 0, hardwareActionsStarted = False\<rparr> h = (out, h')"
    by (auto simp: RTXMacExecuteFalconPlan_def Let_def)
  from ExecuteActions_waits [OF this] True show ?thesis by (auto simp: waits_def extends_def)
next
  case False
  with assms have "h' = h \<and> totalWaitMilliseconds out = 0 \<and> status out \<noteq> kIOReturnSuccess"
    by (auto simp: RTXMacExecuteFalconPlan_def Let_def split: if_splits)
  then show ?thesis by auto
qed

text \<open>
  C1. Executing a plan is safe on every device: whatever its registers return, every store that
  reaches the aperture is one the write allow-list permits (within the audited mask, or
  changing only bits of the mask of the value just read), the total time slept is at most the
  caller's budget, nothing is touched unless writes are enabled and the policy accepts the
  plan, and success means that every action was processed.
\<close>
theorem RTXMacExecuteFalconPlan_safe:
  assumes "RTXMacExecuteFalconPlan bar0 bar0Size plan writesEnabled maxWait h = (out, h')"
  shows "\<exists>new. h' = h @ new \<and> stores_ok store_allowed (last_event None h) new \<and>
      slept new = unat (totalWaitMilliseconds out) \<and> slept new \<le> unat maxWait \<and>
      (new \<noteq> [] \<longrightarrow> writesEnabled \<and> PlanPolicyReport.valid (CheckGa102PlanPolicy plan)) \<and>
      (status out = kIOReturnSuccess \<longrightarrow> actionsCompleted out = length (actions plan))"
  using assms by (rule RTXMacExecuteFalconPlan_cases)

text \<open>A device whose registers all read as zero.\<close>

definition quiet_device :: Aperture where
  "quiet_device = \<lparr>CreateMapping = \<lambda>h o1 n. (kIOReturnSuccess, Some 0x10000), load = \<lambda>h off. 0\<rparr>"

definition sample_plan :: Plan where
  "sample_plan = \<lparr>Plan.valid = True, actions =
     [act MaskedWrite (EngineBase Gsp + 0x3C0) 1 1 0, act DelayMilliseconds 0 100 0 0]\<rparr>"

theorem RTXMacExecuteFalconPlan_safe_witness:
  "\<exists>out h'. RTXMacExecuteFalconPlan (Some quiet_device) 0x1000000 sample_plan True 200 [] =
      (out, h') \<and> status out = kIOReturnSuccess \<and> slept h' = 100 \<and> stores_ok store_allowed None h'"
proof -
  let ?run = "RTXMacExecuteFalconPlan (Some quiet_device) 0x1000000 sample_plan True 200 []"
  let ?a = "act MaskedWrite (EngineBase Gsp + 0x3C0) 1 1 0"
  have allowed: "CheckGa102ActionPolicy ?a = Allowed"
    "CheckGa102ActionPolicy (act DelayMilliseconds 0 100 0 0) = Allowed"
    by (simp add: policy_decisions find_rule, simp add: CheckGa102ActionPolicy_def Let_def)
  have "MapRegister (Some quiet_device) 0x1000000 (EngineBase Gsp + 0x3C0) [] =
      (kIOReturnSuccess, [Mapped 0x110000 0x1000])"
    by (simp add: MapRegister_def quiet_device_def EngineBase_def kPageBytes_def Let_def)
  then have "fst (ExecuteConcreteWrite (Some quiet_device) 0x1000000 ?a []) = kIOReturnSuccess"
    using allowed by (simp add: ExecuteConcreteWrite_def reg_read_def Let_def)
  then obtain hw where "ExecuteConcreteWrite (Some quiet_device) 0x1000000 ?a [] = (kIOReturnSuccess, hw)"
    by (metis prod.collapse)
  then have run: "status (fst ?run) = kIOReturnSuccess \<and> totalWaitMilliseconds (fst ?run) = 100"
    using allowed
    by (simp add: RTXMacExecuteFalconPlan_def sample_plan_def CheckGa102PlanPolicy_def Let_def
        CanConsumeWait_def)
  obtain out h' where eq: "?run = (out, h')" by force
  from RTXMacExecuteFalconPlan_safe [OF eq] run show ?thesis unfolding eq by auto
qed

end
