(* ===== verification/WritePolicy.thy ===== *)
theory WritePolicy
  imports Prelude
begin

text \<open>
  The MMIO write policy (\<open>include/rtxmac/write_policy.hpp\<close>): the check of one register write
  against an allow-list with bit masks, the check of a region write against bounded apertures,
  and the two dry-run plans that log every request with its decision.
\<close>

section \<open>Single registers\<close>

record MmioWriteRule =
  offset :: u32
  writableMask :: u32

datatype WriteDecision = Allowed | DeniedUnknownRegister | DeniedBitOutsideMask

fun CheckMmioWrite :: "MmioWriteRule list \<Rightarrow> u32 \<Rightarrow> u32 \<Rightarrow> u32 \<Rightarrow> WriteDecision" where
  "CheckMmioWrite [] off oldValue newValue = WriteDecision.DeniedUnknownRegister"
| "CheckMmioWrite (rule # rules) off oldValue newValue =
     (if MmioWriteRule.offset rule \<noteq> off then CheckMmioWrite rules off oldValue newValue
      else let changed = oldValue XOR newValue
           in if changed AND NOT (writableMask rule) = 0 then WriteDecision.Allowed
              else WriteDecision.DeniedBitOutsideMask)"

record PlannedMmioWrite =
  offset :: u32
  oldValue :: u32
  newValue :: u32
  decision :: WriteDecision

record DryRunWritePlan =
  rules :: "MmioWriteRule list"
  writes :: "PlannedMmioWrite list"
  allAllowed :: bool

definition new_DryRunWritePlan :: "MmioWriteRule list \<Rightarrow> DryRunWritePlan" where
  "new_DryRunWritePlan rs = \<lparr>rules = rs, writes = [], allAllowed = True\<rparr>"

definition DryRunWritePlan_Add ::
    "DryRunWritePlan \<Rightarrow> u32 \<times> u32 \<times> u32 \<Rightarrow> WriteDecision \<times> DryRunWritePlan" where
  "DryRunWritePlan_Add p w = (case w of (off, old, new) \<Rightarrow>
     let d = CheckMmioWrite (rules p) off old new;
         p = p\<lparr>writes := writes p @ [\<lparr>PlannedMmioWrite.offset = off, oldValue = old,
               newValue = new, decision = d\<rparr>]\<rparr>
     in (d, if d \<noteq> WriteDecision.Allowed then p\<lparr>allAllowed := False\<rparr> else p))"

section \<open>Regions\<close>

record MmioWriteRegionRule =
  offset :: u32
  length' :: u32
  alignment :: u32

datatype RegionWriteDecision =
  Allowed | DeniedEmpty | DeniedOverflow | DeniedUnaligned | DeniedUnknownRange

text \<open>The rule loop of \<open>CheckMmioRegionWrite\<close>, for a request \<open>off .. end'\<close>.\<close>

fun CheckMmioRegionWrite_loop ::
    "MmioWriteRegionRule list \<Rightarrow> u32 \<Rightarrow> u64 \<Rightarrow> u64 \<Rightarrow> RegionWriteDecision" where
  "CheckMmioRegionWrite_loop [] off bytes end' = RegionWriteDecision.DeniedUnknownRange"
| "CheckMmioRegionWrite_loop (rule # rs) off bytes end' =
     (if MmioWriteRegionRule.length' rule = 0 \<or> alignment rule = 0
      then CheckMmioRegionWrite_loop rs off bytes end'
      else let ruleEnd = ucast (MmioWriteRegionRule.offset rule) +
                 ucast (MmioWriteRegionRule.length' rule) :: u64
      in if 0xFFFFFFFF + 1 < ruleEnd then CheckMmioRegionWrite_loop rs off bytes end'
      else if off < MmioWriteRegionRule.offset rule \<or> ruleEnd < end'
      then CheckMmioRegionWrite_loop rs off bytes end'
      else if off mod alignment rule \<noteq> 0 \<or> bytes mod ucast (alignment rule) \<noteq> 0
      then RegionWriteDecision.DeniedUnaligned
      else RegionWriteDecision.Allowed)"

definition CheckMmioRegionWrite :: "MmioWriteRegionRule list \<Rightarrow> u32 \<Rightarrow> u64 \<Rightarrow> RegionWriteDecision" where
  "CheckMmioRegionWrite rs off bytes =
     (if bytes = 0 then RegionWriteDecision.DeniedEmpty
      else if 0xFFFFFFFF < bytes then RegionWriteDecision.DeniedOverflow
      else let end' = ucast off + bytes
      in if 0xFFFFFFFF + 1 < end' then RegionWriteDecision.DeniedOverflow
         else CheckMmioRegionWrite_loop rs off bytes end')"

record PlannedMmioRegionWrite =
  offset :: u32
  bytes :: u64
  decision :: RegionWriteDecision

record DryRunRegionWritePlan =
  rules :: "MmioWriteRegionRule list"
  writes :: "PlannedMmioRegionWrite list"
  allAllowed :: bool

definition new_DryRunRegionWritePlan :: "MmioWriteRegionRule list \<Rightarrow> DryRunRegionWritePlan" where
  "new_DryRunRegionWritePlan rs =
     \<lparr>DryRunRegionWritePlan.rules = rs, writes = [], allAllowed = True\<rparr>"

definition DryRunRegionWritePlan_Add ::
    "DryRunRegionWritePlan \<Rightarrow> u32 \<times> u64 \<Rightarrow> RegionWriteDecision \<times> DryRunRegionWritePlan" where
  "DryRunRegionWritePlan_Add p w = (case w of (off, n) \<Rightarrow>
     let d = CheckMmioRegionWrite (DryRunRegionWritePlan.rules p) off n;
         p = p\<lparr>DryRunRegionWritePlan.writes := DryRunRegionWritePlan.writes p @
               [\<lparr>PlannedMmioRegionWrite.offset = off, bytes = n, decision = d\<rparr>]\<rparr>
     in (d, if d \<noteq> RegionWriteDecision.Allowed
            then p\<lparr>DryRunRegionWritePlan.allAllowed := False\<rparr> else p))"

section \<open>The contract of a dry run\<close>

text \<open>
  A dry run logs each request with the decision of a fixed check and keeps a flag. Its
  client may rely on the flag: it is true exactly when every logged request was allowed, and
  the log is the requests in order.
\<close>

locale dry_run =
  fixes empty_plan :: 'p
    and add :: "'p \<Rightarrow> 'q \<Rightarrow> 'd \<times> 'p"
    and log :: "'p \<Rightarrow> 'e list"
    and flag :: "'p \<Rightarrow> bool"
    and check :: "'q \<Rightarrow> 'd"
    and allowed :: 'd
    and request_of :: "'e \<Rightarrow> 'q"
    and decision_of :: "'e \<Rightarrow> 'd"
    and inv :: "'p \<Rightarrow> bool"
  assumes empty: "inv empty_plan" "log empty_plan = []" "flag empty_plan"
    and add_decision: "inv p \<Longrightarrow> fst (add p q) = check q"
    and add_log: "inv p \<Longrightarrow> \<exists>e. log (snd (add p q)) = log p @ [e] \<and> request_of e = q \<and>
      decision_of e = check q"
    and add_flag: "inv p \<Longrightarrow> flag (snd (add p q)) \<longleftrightarrow> flag p \<and> check q = allowed"
    and add_inv: "inv p \<Longrightarrow> inv (snd (add p q))"
begin

definition run :: "'q list \<Rightarrow> 'p" where
  "run qs = fold (\<lambda>q p. snd (add p q)) qs empty_plan"

lemma run_snoc: "run (qs @ [q]) = snd (add (run qs) q)"
  by (simp add: run_def)

lemma run_inv: "inv (run qs)"
  by (induction qs rule: rev_induct) (auto simp: run_snoc add_inv, simp add: run_def empty)

lemma run_log: "map request_of (log (run qs)) = qs \<and> map decision_of (log (run qs)) = map check qs"
proof (induction qs rule: rev_induct)
  case Nil
  then show ?case by (simp add: run_def empty)
next
  case (snoc q qs)
  from add_log [OF run_inv, of qs q] snoc show ?case by (auto simp: run_snoc)
qed

lemma run_flag: "flag (run qs) \<longleftrightarrow> (\<forall>q \<in> set qs. check q = allowed)"
  by (induction qs rule: rev_induct) (auto simp: run_snoc add_flag run_inv, simp_all add: run_def empty)

end

interpretation register_dry_run: dry_run "new_DryRunWritePlan rs" DryRunWritePlan_Add
  DryRunWritePlan.writes DryRunWritePlan.allAllowed
  "\<lambda>(off, old, new). CheckMmioWrite rs off old new" WriteDecision.Allowed
  "\<lambda>e. (PlannedMmioWrite.offset e, oldValue e, newValue e)" PlannedMmioWrite.decision
  "\<lambda>p. DryRunWritePlan.rules p = rs" for rs
  by unfold_locales (auto simp: new_DryRunWritePlan_def DryRunWritePlan_Add_def Let_def
      split: prod.splits)

interpretation region_dry_run: dry_run "new_DryRunRegionWritePlan rs" DryRunRegionWritePlan_Add
  DryRunRegionWritePlan.writes DryRunRegionWritePlan.allAllowed
  "\<lambda>(off, n). CheckMmioRegionWrite rs off n" RegionWriteDecision.Allowed
  "\<lambda>e. (PlannedMmioRegionWrite.offset e, PlannedMmioRegionWrite.bytes e)"
  PlannedMmioRegionWrite.decision
  "\<lambda>p. DryRunRegionWritePlan.rules p = rs" for rs
  by unfold_locales (auto simp: new_DryRunRegionWritePlan_def DryRunRegionWritePlan_Add_def Let_def
      split: prod.splits)

section \<open>What an allowed request is\<close>

lemma CheckMmioWrite_Allowed_iff:
  "CheckMmioWrite rs off old new = WriteDecision.Allowed \<longleftrightarrow>
    (\<exists>r. find (\<lambda>r. MmioWriteRule.offset r = off) rs = Some r \<and>
      (old XOR new) AND NOT (writableMask r) = 0)"
  by (induction rs off old new rule: CheckMmioWrite.induct) (auto simp: Let_def)

definition region_in_rule :: "MmioWriteRegionRule \<Rightarrow> nat \<Rightarrow> nat \<Rightarrow> bool" where
  "region_in_rule r off n \<longleftrightarrow>
     unat (MmioWriteRegionRule.offset r) \<le> off \<and>
     off + n \<le> unat (MmioWriteRegionRule.offset r) + unat (MmioWriteRegionRule.length' r) \<and>
     unat (MmioWriteRegionRule.offset r) + unat (MmioWriteRegionRule.length' r) \<le> 2 ^ 32 \<and>
     unat (alignment r) dvd off \<and> unat (alignment r) dvd n"

lemma unat_ucast_add32: "unat (ucast (a :: u32) + ucast (b :: u32) :: u64) = unat a + unat b"
  using unat_lt(3) [of a] unat_lt(3) [of b] by (subst unat_add_nowrap) simp_all

lemma region_loop_Cons:
  assumes "CheckMmioRegionWrite_loop (r # rs) off n e = RegionWriteDecision.Allowed"
    and "unat e = unat off + unat n"
    and "CheckMmioRegionWrite_loop rs off n e \<noteq> RegionWriteDecision.Allowed"
  shows "region_in_rule r (unat off) (unat n)"
  using assms
  by (auto simp: Let_def region_in_rule_def word_le_nat_alt word_less_nat_alt unat_ucast_add32
      word_mod_eq_0_iff split: if_splits)

lemma region_loop_Allowed:
  "CheckMmioRegionWrite_loop rs off n e = RegionWriteDecision.Allowed \<Longrightarrow>
    unat e = unat off + unat n \<Longrightarrow> \<exists>r \<in> set rs. region_in_rule r (unat off) (unat n)"
proof (induction rs)
  case (Cons r rs)
  then show ?case using region_loop_Cons [of r rs off n e] by auto
qed simp

lemma CheckMmioRegionWrite_Allowed:
  assumes "CheckMmioRegionWrite rs off n = RegionWriteDecision.Allowed"
  shows "0 < n \<and> (\<exists>r \<in> set rs. region_in_rule r (unat off) (unat n))"
proof -
  have n: "n \<noteq> 0" "unat n \<le> 0xFFFFFFFF"
    and loop: "CheckMmioRegionWrite_loop rs off n (ucast off + n) = RegionWriteDecision.Allowed"
    using assms by (auto simp: CheckMmioRegionWrite_def Let_def word_le_nat_alt word_less_nat_alt
        split: if_splits)
  have "unat (ucast off + n) = unat off + unat n"
    using n unat_lt(3) [of off] by (subst unat_add_nowrap) simp_all
  from region_loop_Allowed [OF loop this] n show ?thesis by (simp add: word_neq_0_conv)
qed

end
