(* ===== verification/Pramin.thy ===== *)
theory Pramin
  imports Tiling WritePolicy
begin

text \<open>
  PRAMIN staging plans (\<open>src/core/pramin.cpp\<close>, \<open>include/rtxmac/pramin.hpp\<close>): how a write to
  video memory is cut at the 1 MiB windows of the PRAMIN aperture, and how such a plan is
  turned into a policy-checked list of BAR0 accesses. The reference view of an access list is
  \<open>pramin_writes\<close>: the video memory addresses it writes, in order.
\<close>

section \<open>Data\<close>

definition kPraminWindowBytes :: u64 where "kPraminWindowBytes = 0x100000"
definition kPraminWindowMask :: u64 where "kPraminWindowMask = kPraminWindowBytes - 1"
definition kPraminWindowSelectOffset :: u32 where "kPraminWindowSelectOffset = 0x001700"
definition kPraminApertureOffset :: u32 where "kPraminApertureOffset = 0x700000"
definition kPraminApertureBytes :: u32 where "kPraminApertureBytes = 0x100000"

lemmas pramin_consts = kPraminWindowBytes_def kPraminWindowMask_def kPraminWindowSelectOffset_def
  kPraminApertureOffset_def kPraminApertureBytes_def

record PraminStageChunk =
  vramOffset :: u64
  sourceOffset :: u64
  bytes :: u64
  windowBase :: u64
  windowSelector :: u32
  bar0ApertureOffset :: u32

record PraminStagePlan =
  valid :: bool
  vramSize :: u64
  vramOffset :: u64
  totalBytes :: u64
  chunks :: "PraminStageChunk list"

datatype PraminMmioStepKind = SelectWindow | WriteApertureRegion

record PraminMmioStep =
  kind :: PraminMmioStepKind
  bar0Offset :: u32
  bytes :: u64
  "value" :: u32
  allowed :: bool

record PraminDryRunMmioPlan =
  valid :: bool
  steps :: "PraminMmioStep list"

section \<open>Planning\<close>

text \<open>The chunk loop of \<open>PlanPraminStage\<close>. It returns the chunks and the final source offset,
  or \<open>None\<close> where the code clears the chunks and returns.\<close>

function PlanPraminStage_loop ::
    "u64 \<Rightarrow> u64 \<Rightarrow> u64 \<Rightarrow> PraminStageChunk list \<Rightarrow> (PraminStageChunk list \<times> u64) option" where
  "PlanPraminStage_loop remaining currentVram source cs =
     (if remaining = 0 then Some (cs, source)
      else let base = currentVram AND NOT kPraminWindowMask;
               inWindow = currentVram AND kPraminWindowMask;
               room = kPraminWindowBytes - inWindow;
               chunkBytes = min remaining room;
               selector64 = drop_bit 16 base;
               aperture64 = ucast kPraminApertureOffset + inWindow
      in if 0xFFFFFFFF < selector64 \<or> 0xFFFFFFFF < aperture64 then None
         else PlanPraminStage_loop (remaining - chunkBytes) (currentVram + chunkBytes)
                (source + chunkBytes)
                (cs @ [\<lparr>PraminStageChunk.vramOffset = currentVram, sourceOffset = source,
                        bytes = chunkBytes, windowBase = base, windowSelector = ucast selector64,
                        bar0ApertureOffset = ucast aperture64\<rparr>]))"
  by pat_completeness auto

lemma window_mask: "kPraminWindowMask = mask 20"
  by (simp add: pramin_consts mask_numerals)

lemma unat_in_window: "unat (v AND kPraminWindowMask) = unat v mod 2 ^ 20"
  by (simp only: window_mask unat_and_mask)

lemma unat_room: "unat (kPraminWindowBytes - (v AND kPraminWindowMask)) = 2 ^ 20 - unat v mod 2 ^ 20"
proof -
  have "v AND kPraminWindowMask \<le> kPraminWindowBytes"
    by (simp only: word_le_nat_alt unat_in_window) (simp add: pramin_consts less_imp_le)
  then show ?thesis by (simp only: unat_sub unat_in_window) (simp add: pramin_consts)
qed

lemma chunk_bytes:
  assumes "remaining \<noteq> 0"
  shows "unat (min remaining (kPraminWindowBytes - (v AND kPraminWindowMask))) =
      min (unat remaining) (2 ^ 20 - unat v mod 2 ^ 20)"
    and "0 < min (unat remaining) (2 ^ 20 - unat v mod 2 ^ 20)"
proof -
  show "unat (min remaining (kPraminWindowBytes - (v AND kPraminWindowMask))) =
      min (unat remaining) (2 ^ 20 - unat v mod 2 ^ 20)"
    by (simp only: min_def word_le_nat_alt unat_room if_distrib [of unat])
  have "unat v mod 2 ^ 20 < 2 ^ 20" by simp
  with assms show "0 < min (unat remaining) (2 ^ 20 - unat v mod 2 ^ 20)"
    by (simp add: unat_gt_0)
qed

termination PlanPraminStage_loop
proof (relation "measure (\<lambda>(remaining, _). unat remaining)", goal_cases)
  case (2 remaining v source cs base inWindow room n)
  then have "n \<le> remaining" by (simp only: min.cobounded1)
  then have "unat (remaining - n) = unat remaining - unat n" by (rule unat_sub)
  moreover have "0 < unat n" using 2 chunk_bytes [of remaining v] by simp
  moreover have "0 < unat remaining" using 2 by (simp add: unat_gt_0)
  ultimately show ?case by simp
qed simp

definition PlanPraminStage :: "u64 \<Rightarrow> u64 \<Rightarrow> u64 \<Rightarrow> PraminStagePlan" where
  "PlanPraminStage vram byteCount size' =
     (let out = \<lparr>PraminStagePlan.valid = False, vramSize = size', vramOffset = vram,
                 totalBytes = byteCount, chunks = []\<rparr>
      in if size' = 0 \<or> byteCount = 0 \<or> size' \<le> vram then out
         else if size' - vram < byteCount then out
         else case PlanPraminStage_loop byteCount vram 0 [] of
             None \<Rightarrow> out\<lparr>PraminStagePlan.chunks := []\<rparr>
           | Some (cs, source) \<Rightarrow> out\<lparr>PraminStagePlan.chunks := cs,
               PraminStagePlan.valid := cs \<noteq> [] \<and> source = byteCount\<rparr>)"

section \<open>The dry run\<close>

definition selectorRules :: "MmioWriteRule list" where
  "selectorRules = [\<lparr>MmioWriteRule.offset = kPraminWindowSelectOffset, writableMask = 0xFFFFFFFF\<rparr>]"

definition apertureRules :: "MmioWriteRegionRule list" where
  "apertureRules = [\<lparr>MmioWriteRegionRule.offset = kPraminApertureOffset,
     length' = kPraminApertureBytes, alignment = 4\<rparr>]"

fun BuildPraminDryRunMmioPlan_loop ::
    "PraminStagePlan \<Rightarrow> PraminStageChunk list \<Rightarrow> u64 \<Rightarrow> u64 \<Rightarrow> PraminDryRunMmioPlan \<Rightarrow>
     PraminDryRunMmioPlan" where
  "BuildPraminDryRunMmioPlan_loop stage [] expectedVram expectedSource out =
     out\<lparr>PraminDryRunMmioPlan.valid := expectedSource = totalBytes stage \<and>
           expectedVram = PraminStagePlan.vramOffset stage + totalBytes stage\<rparr>"
| "BuildPraminDryRunMmioPlan_loop stage (c # cs) expectedVram expectedSource out =
     (if PraminStageChunk.bytes c = 0 \<or> PraminStageChunk.vramOffset c \<noteq> expectedVram \<or>
         sourceOffset c \<noteq> expectedSource \<or> PraminStageChunk.bytes c mod 4 \<noteq> 0
      then out\<lparr>steps := []\<rparr>
      else let expectedWindow = PraminStageChunk.vramOffset c AND NOT kPraminWindowMask;
               inWindow = PraminStageChunk.vramOffset c AND kPraminWindowMask;
               room = kPraminWindowBytes - inWindow;
               expectedSelector64 = drop_bit 16 expectedWindow;
               expectedAperture64 = ucast kPraminApertureOffset + inWindow
      in if room < PraminStageChunk.bytes c \<or> 0xFFFFFFFF < expectedSelector64 \<or>
            0xFFFFFFFF < expectedAperture64 \<or> windowBase c \<noteq> expectedWindow \<or>
            windowSelector c \<noteq> ucast expectedSelector64 \<or>
            bar0ApertureOffset c \<noteq> ucast expectedAperture64
         then out\<lparr>steps := []\<rparr>
         else let selectorAllowed =
                    (CheckMmioWrite selectorRules kPraminWindowSelectOffset 0 (windowSelector c) =
                      WriteDecision.Allowed);
                  apertureAllowed =
                    (CheckMmioRegionWrite apertureRules (bar0ApertureOffset c)
                      (PraminStageChunk.bytes c) = RegionWriteDecision.Allowed);
                  out = out\<lparr>steps := steps out @
                    [\<lparr>PraminMmioStep.kind = SelectWindow, bar0Offset = kPraminWindowSelectOffset,
                      bytes = 4, value = windowSelector c, allowed = selectorAllowed\<rparr>,
                     \<lparr>PraminMmioStep.kind = WriteApertureRegion, bar0Offset = bar0ApertureOffset c,
                      bytes = PraminStageChunk.bytes c, value = 0, allowed = apertureAllowed\<rparr>]\<rparr>
         in if \<not> selectorAllowed \<or> \<not> apertureAllowed
            then out\<lparr>PraminDryRunMmioPlan.valid := False\<rparr>
            else BuildPraminDryRunMmioPlan_loop stage cs
                   (expectedVram + PraminStageChunk.bytes c)
                   (expectedSource + PraminStageChunk.bytes c) out)"

definition BuildPraminDryRunMmioPlan :: "PraminStagePlan \<Rightarrow> PraminDryRunMmioPlan" where
  "BuildPraminDryRunMmioPlan stage =
     (let out = \<lparr>PraminDryRunMmioPlan.valid = False, steps = []\<rparr>
      in if \<not> PraminStagePlan.valid stage \<or> vramSize stage = 0 \<or> totalBytes stage = 0 \<or>
            chunks stage = [] \<or> vramSize stage \<le> PraminStagePlan.vramOffset stage \<or>
            vramSize stage - PraminStagePlan.vramOffset stage < totalBytes stage
         then out
         else BuildPraminDryRunMmioPlan_loop stage (chunks stage)
                (PraminStagePlan.vramOffset stage) 0 out)"

section \<open>The chunks of a plan\<close>

text \<open>A well-formed chunk, in plain numbers: it does not cross its 1 MiB window, and the
  selector and aperture offset address exactly its video memory range.\<close>

definition chunk_ok :: "PraminStageChunk \<Rightarrow> bool" where
  "chunk_ok c \<longleftrightarrow> (let v = unat (PraminStageChunk.vramOffset c) in
     PraminStageChunk.bytes c \<noteq> 0 \<and> v < 2 ^ 48 \<and>
     unat (PraminStageChunk.bytes c) \<le> 2 ^ 20 - v mod 2 ^ 20 \<and>
     unat (windowBase c) = v - v mod 2 ^ 20 \<and>
     unat (windowSelector c) = (v - v mod 2 ^ 20) div 2 ^ 16 \<and>
     unat (bar0ApertureOffset c) = 0x700000 + v mod 2 ^ 20)"

lemma unat_window: "unat (v AND NOT kPraminWindowMask) = unat v - unat v mod 2 ^ 20"
  by (simp only: window_mask unat_and_not_mask)

lemma unat_selector:
  "unat (drop_bit 16 (v AND NOT kPraminWindowMask)) = (unat v - unat v mod 2 ^ 20) div 2 ^ 16"
  unfolding unat_drop_bit_eq unat_window by (simp only: drop_bit_eq_div)

lemma window_below_iff: "(v - v mod 2 ^ 20) div 2 ^ 16 \<le> 0xFFFFFFFF \<longleftrightarrow> v < 2 ^ (48 :: nat)"
  for v :: nat
proof -
  have "v - v mod 2 ^ 20 = v div 2 ^ 20 * 2 ^ 20" by (simp add: minus_mod_eq_div_mult)
  then have "(v - v mod 2 ^ 20) div 2 ^ 16 = v div 2 ^ 20 * 2 ^ 4" by simp
  also have "\<dots> \<le> 0xFFFFFFFF \<longleftrightarrow> v div 2 ^ 20 < 2 ^ 28" by simp arith
  also have "\<dots> \<longleftrightarrow> v < 2 ^ 48" by (simp add: div_less_iff_less_mult)
  finally show ?thesis .
qed

lemma selector_fits: "drop_bit 16 (v AND NOT kPraminWindowMask) \<le> 0xFFFFFFFF \<longleftrightarrow> unat v < 2 ^ 48"
  by (simp only: word_le_nat_alt unat_selector window_below_iff [symmetric]) simp

lemma unat_aperture: "unat (ucast kPraminApertureOffset + (v AND kPraminWindowMask)) =
    0x700000 + unat v mod 2 ^ 20"
proof -
  have "unat v mod 2 ^ 20 < 2 ^ 20" by simp
  then show ?thesis
    by (subst unat_add_nowrap) (simp_all only: unat_in_window unat_ucast_simps,
        simp_all add: kPraminApertureOffset_def)
qed

lemma aperture_fits: "ucast kPraminApertureOffset + (v AND kPraminWindowMask) \<le> 0xFFFFFFFF"
proof -
  have "unat v mod 2 ^ 20 < 2 ^ 20" by simp
  then show ?thesis unfolding word_le_nat_alt unat_aperture by simp
qed

lemma word32_eq_ucast: "unat u < 2 ^ 32 \<Longrightarrow> w = ucast (u :: u64) \<longleftrightarrow> unat (w :: u32) = unat u"
  by (simp add: word_unat_eq_iff unat_ucast_narrow)

text \<open>The check the dry run repeats on every chunk is this well-formedness.\<close>

lemma chunk_check_iff:
  assumes "PraminStageChunk.bytes c \<noteq> 0" and v: "v = PraminStageChunk.vramOffset c"
  shows "\<not> (kPraminWindowBytes - (v AND kPraminWindowMask) < PraminStageChunk.bytes c \<or>
      0xFFFFFFFF < drop_bit 16 (v AND NOT kPraminWindowMask) \<or>
      0xFFFFFFFF < ucast kPraminApertureOffset + (v AND kPraminWindowMask) \<or>
      windowBase c \<noteq> v AND NOT kPraminWindowMask \<or>
      windowSelector c \<noteq> ucast (drop_bit 16 (v AND NOT kPraminWindowMask)) \<or>
      bar0ApertureOffset c \<noteq> ucast (ucast kPraminApertureOffset + (v AND kPraminWindowMask))) \<longleftrightarrow>
    chunk_ok c"
proof (cases "unat v < 2 ^ 48")
  case False
  then have "0xFFFFFFFF < drop_bit 16 (v AND NOT kPraminWindowMask)"
    using selector_fits [of v] by (simp only: not_le [symmetric]) blast
  with False v show ?thesis by (simp add: chunk_ok_def Let_def)
next
  case True
  have sel: "\<not> 0xFFFFFFFF < drop_bit 16 (v AND NOT kPraminWindowMask)"
    using True selector_fits [of v] by (simp only: not_less)
  then have "unat (drop_bit 16 (v AND NOT kPraminWindowMask)) < 2 ^ 32"
    by (simp only: not_less word_le_nat_alt) simp
  note s = word32_eq_ucast [OF this, unfolded unat_selector]
  have ap: "\<not> 0xFFFFFFFF < ucast kPraminApertureOffset + (v AND kPraminWindowMask)"
    using aperture_fits [of v] by (simp only: not_less)
  then have "unat (ucast kPraminApertureOffset + (v AND kPraminWindowMask)) < 2 ^ 32"
    by (simp only: not_less word_le_nat_alt) simp
  note a = word32_eq_ucast [OF this, unfolded unat_aperture]
  have w: "windowBase c = v AND NOT kPraminWindowMask \<longleftrightarrow> unat (windowBase c) = unat v - unat v mod 2 ^ 20"
    by (simp only: word_unat_eq_iff unat_window)
  have r: "kPraminWindowBytes - (v AND kPraminWindowMask) < PraminStageChunk.bytes c \<longleftrightarrow>
      \<not> unat (PraminStageChunk.bytes c) \<le> 2 ^ 20 - unat v mod 2 ^ 20"
    by (simp only: word_less_nat_alt unat_room not_le)
  show ?thesis
    unfolding chunk_ok_def Let_def v [symmetric] using True assms(1) sel ap
      s [of "windowSelector c"] a [of "bar0ApertureOffset c"] w r by argo
qed

section \<open>The plan covers the request\<close>

text \<open>A chunk ends where its window or the request ends.\<close>

definition chunk_full :: "nat \<Rightarrow> PraminStageChunk \<Rightarrow> bool" where
  "chunk_full e c \<longleftrightarrow>
     unat (PraminStageChunk.vramOffset c) + unat (PraminStageChunk.bytes c) = e \<or>
     2 ^ 20 dvd unat (PraminStageChunk.vramOffset c) + unat (PraminStageChunk.bytes c)"

lemma window_end: "v < 2 ^ 48 \<Longrightarrow> v + (2 ^ 20 - v mod 2 ^ 20) \<le> 2 ^ (48 :: nat)" for v :: nat
proof -
  assume low: "v < 2 ^ 48"
  define q r where "q = v div 2 ^ 20" and "r = v mod 2 ^ 20"
  then have v: "v = q * 2 ^ 20 + r" and r: "r < 2 ^ 20" by simp_all
  then have "q < 2 ^ 28" using low by simp
  moreover have "v mod 2 ^ 20 = r" using v r by simp
  ultimately show ?thesis using v r by simp
qed

lemma PlanPraminStage_loop_spec:
  assumes "unat v + unat n < 2 ^ 64" and "unat source + unat n < 2 ^ 64"
  shows "if n = 0 \<or> unat v + unat n \<le> 2 ^ 48
    then \<exists>cs'. PlanPraminStage_loop n v source cs = Some (cs @ cs', source + n) \<and>
      tiles (unat source) (map (\<lambda>c. (unat (sourceOffset c), unat (PraminStageChunk.bytes c))) cs')
        (unat source + unat n) \<and>
      (\<forall>c \<in> set cs'. chunk_ok c \<and> chunk_full (unat v + unat n) c \<and>
        unat (PraminStageChunk.vramOffset c) + unat source = unat v + unat (sourceOffset c))
    else PlanPraminStage_loop n v source cs = None"
  using assms
proof (induction n v source cs rule: PlanPraminStage_loop.induct)
  case (1 n v source cs)
  let ?room = "kPraminWindowBytes - (v AND kPraminWindowMask)"
  let ?m = "min n ?room"
  let ?c = "\<lparr>PraminStageChunk.vramOffset = v, sourceOffset = source, bytes = ?m,
    windowBase = v AND NOT kPraminWindowMask,
    windowSelector = ucast (drop_bit 16 (v AND NOT kPraminWindowMask)),
    bar0ApertureOffset = ucast (ucast kPraminApertureOffset + (v AND kPraminWindowMask))\<rparr>"
  show ?case
  proof (cases "n = 0")
    case True
    then show ?thesis by (subst (1 2) PlanPraminStage_loop.simps) simp
  next
    case nz: False
    note m = chunk_bytes [OF nz, of v]
    have room: "unat v mod 2 ^ 20 < 2 ^ 20" by simp
    have mn: "unat ?m \<le> unat n" "0 < unat ?m" using m by simp_all
    have ap: "\<not> 0xFFFFFFFF < ucast kPraminApertureOffset + (v AND kPraminWindowMask)"
      using aperture_fits [of v] by (simp only: not_less)
    show ?thesis
    proof (cases "unat v < 2 ^ 48")
      case False
      then have "0xFFFFFFFF < drop_bit 16 (v AND NOT kPraminWindowMask)"
        using selector_fits [of v] by (simp only: not_le [symmetric]) blast
      then have "PlanPraminStage_loop n v source cs = None"
        using nz by (subst PlanPraminStage_loop.simps) (simp only: Let_def if_False if_True simp_thms)
      moreover have "\<not> unat v + unat n \<le> 2 ^ 48" using False mn by linarith
      ultimately show ?thesis using nz by simp
    next
      case low: True
      then have sel: "\<not> 0xFFFFFFFF < drop_bit 16 (v AND NOT kPraminWindowMask)"
        using selector_fits [of v] by (simp only: not_less)
      have step: "PlanPraminStage_loop n v source cs =
          PlanPraminStage_loop (n - ?m) (v + ?m) (source + ?m) (cs @ [?c])"
        using nz sel ap
        by (subst PlanPraminStage_loop.simps) (simp only: Let_def if_False simp_thms)
      have um: "unat (n - ?m) = unat n - unat ?m" "unat (v + ?m) = unat v + unat ?m"
        "unat (source + ?m) = unat source + unat ?m"
        using mn "1.prems" by (simp_all add: unat_sub word_le_nat_alt unat_add_nowrap)
      have sum: "source + ?m + (n - ?m) = source + n" by simp
      have ok: "chunk_ok ?c"
      proof -
        have nz': "PraminStageChunk.bytes ?c \<noteq> 0" using mn by auto
        have "\<not> ?room < ?m" by (simp only: not_less min.cobounded2)
        then show ?thesis using sel ap
          by (subst chunk_check_iff [OF nz' refl, symmetric]) (simp only: PraminStageChunk.simps simp_thms)
      qed
      have full: "chunk_full (unat v + unat n) ?c"
      proof (cases "unat ?m = unat n")
        case False
        then have "unat ?m = 2 ^ 20 - unat v mod 2 ^ 20" using m by simp
        moreover have "2 ^ 20 dvd unat v - unat v mod 2 ^ 20 + 2 ^ 20"
          by (intro dvd_add) (simp_all add: minus_mod_eq_div_mult)
        moreover have "unat v mod 2 ^ 20 \<le> unat v" by simp
        ultimately have "2 ^ 20 dvd unat v + unat ?m" using room
          by (metis Nat.add_diff_assoc2 Nat.diff_add_assoc less_imp_le)
        then show ?thesis by (simp add: chunk_full_def)
      qed (simp add: chunk_full_def)
      have rest: "n - ?m = 0 \<or> unat (v + ?m) + unat (n - ?m) \<le> 2 ^ 48 \<longleftrightarrow> unat v + unat n \<le> 2 ^ 48"
      proof -
        have "unat v + unat n \<le> 2 ^ 48" if "n - ?m = 0"
        proof -
          have "unat n \<le> 2 ^ 20 - unat v mod 2 ^ 20" using that um(1) m mn by simp
          then show ?thesis using window_end [OF low] by linarith
        qed
        then show ?thesis using um mn by auto
      qed
      note IH = "1.IH" [OF nz refl refl refl refl refl refl]
      have "\<not> (0xFFFFFFFF < drop_bit 16 (v AND NOT kPraminWindowMask) \<or>
          0xFFFFFFFF < ucast kPraminApertureOffset + (v AND kPraminWindowMask))"
        using sel ap by blast
      note IH = IH [OF this, unfolded rest sum, folded step]
      show ?thesis
      proof (cases "unat v + unat n \<le> 2 ^ 48")
        case True
        with IH um mn "1.prems" obtain cs' where cs':
          "PlanPraminStage_loop n v source cs = Some ((cs @ [?c]) @ cs', source + n)"
          "tiles (unat source + unat ?m)
            (map (\<lambda>c. (unat (sourceOffset c), unat (PraminStageChunk.bytes c))) cs')
            (unat source + unat n)"
          "\<forall>c \<in> set cs'. chunk_ok c \<and> chunk_full (unat v + unat n) c \<and>
            unat (PraminStageChunk.vramOffset c) + (unat source + unat ?m) =
            unat v + unat ?m + unat (sourceOffset c)"
          by auto
        with True nz mn ok full show ?thesis by (auto intro!: exI [of _ "?c # cs'"])
      next
        case False
        with IH um mn "1.prems" nz show ?thesis by simp
      qed
    qed
  qed
qed

definition stage_request_ok :: "u64 \<Rightarrow> u64 \<Rightarrow> u64 \<Rightarrow> bool" where
  "stage_request_ok v n size' \<longleftrightarrow> n \<noteq> 0 \<and> unat v + unat n \<le> unat size' \<and> unat v + unat n \<le> 2 ^ 48"

lemma stage_guard_iff:
  "\<not> (size' = 0 \<or> n = 0 \<or> size' \<le> v) \<and> \<not> size' - v < n \<longleftrightarrow>
    n \<noteq> (0 :: u64) \<and> unat v + unat n \<le> unat (size' :: u64)"
proof (cases "size' \<le> v")
  case True
  then have "n = 0" if "unat v + unat n \<le> unat size'"
  proof -
    have "unat n = 0" using True that by (simp add: word_le_nat_alt)
    then show ?thesis by (simp only: unat_eq_0)
  qed
  with True show ?thesis by blast
next
  case False
  then have l: "size' - v < n \<longleftrightarrow> \<not> unat v + unat n \<le> unat size'"
    by (intro sub_less_iff) simp
  have "size' \<noteq> 0" using False by auto
  with False l show ?thesis by blast
qed

abbreviation source_pieces :: "PraminStageChunk list \<Rightarrow> (nat \<times> nat) list" where
  "source_pieces cs \<equiv> map (\<lambda>c. (unat (sourceOffset c), unat (PraminStageChunk.bytes c))) cs"

lemma PlanPraminStage_cases:
  "(stage_request_ok v n size' \<and> (\<exists>cs. PlanPraminStage v n size' =
      \<lparr>PraminStagePlan.valid = True, vramSize = size', vramOffset = v, totalBytes = n, chunks = cs\<rparr> \<and>
      tiles 0 (source_pieces cs) (unat n) \<and>
      (\<forall>c \<in> set cs. chunk_ok c \<and> chunk_full (unat v + unat n) c \<and>
        unat (PraminStageChunk.vramOffset c) = unat v + unat (sourceOffset c)))) \<or>
   (\<not> stage_request_ok v n size' \<and> PlanPraminStage v n size' =
      \<lparr>PraminStagePlan.valid = False, vramSize = size', vramOffset = v, totalBytes = n, chunks = []\<rparr>)"
proof (cases "n \<noteq> 0 \<and> unat v + unat n \<le> unat size'")
  case False
  then have "size' = 0 \<or> n = 0 \<or> size' \<le> v \<or> size' - v < n"
    using stage_guard_iff [of size' n v] by blast
  then have "PlanPraminStage v n size' =
      \<lparr>PraminStagePlan.valid = False, vramSize = size', vramOffset = v, totalBytes = n, chunks = []\<rparr>"
    by (simp only: PlanPraminStage_def Let_def) auto
  with False show ?thesis by (auto simp: stage_request_ok_def)
next
  case True
  then have "unat v + unat n < 2 ^ 64" "unat n < 2 ^ 64"
    using unat_lt(4) [of size'] unat_lt(4) [of n] by linarith+
  note loop = PlanPraminStage_loop_spec [of v n 0 "[]", simplified unat_0 add_0_left add_0_right
      append_Nil, OF this]
  have eq: "PlanPraminStage v n size' = (case PlanPraminStage_loop n v 0 [] of
        None \<Rightarrow> \<lparr>PraminStagePlan.valid = False, vramSize = size', vramOffset = v, totalBytes = n, chunks = []\<rparr>
      | Some (cs, source) \<Rightarrow> \<lparr>PraminStagePlan.valid = cs \<noteq> [] \<and> source = n, vramSize = size',
          vramOffset = v, totalBytes = n, chunks = cs\<rparr>)"
  proof -
    have "\<not> (size' = 0 \<or> n = 0 \<or> size' \<le> v)" "\<not> size' - v < n"
      using True stage_guard_iff [of size' n v] by blast+
    then show ?thesis
      by (cases "PlanPraminStage_loop n v 0 []") (auto simp: PlanPraminStage_def Let_def)
  qed
  show ?thesis
  proof (cases "unat v + unat n \<le> 2 ^ 48")
    case fits: True
    with loop True obtain cs where cs: "PlanPraminStage_loop n v 0 [] = Some (cs, n)"
      "tiles 0 (source_pieces cs) (unat n)"
      "\<forall>c \<in> set cs. chunk_ok c \<and> chunk_full (unat v + unat n) c \<and>
        unat (PraminStageChunk.vramOffset c) = unat v + unat (sourceOffset c)"
      by auto
    moreover have "cs \<noteq> []" using cs(2) True by (auto simp: unat_eq_0)
    ultimately show ?thesis using True fits unfolding eq by (simp add: stage_request_ok_def)
  next
    case False
    with loop True show ?thesis unfolding eq by (simp add: stage_request_ok_def)
  qed
qed

text \<open>
  C23. A PRAMIN stage plan is valid exactly when the request lies in video memory below the
  selector's reach. Its chunks then tile the source image, each goes to the matching video
  memory offset, each stays inside one window addressed by its selector and aperture offset, and
  each ends where its window or the request ends.
\<close>
theorem PlanPraminStage_spec:
  "(PraminStagePlan.valid (PlanPraminStage v n size') \<longleftrightarrow> stage_request_ok v n size') \<and>
   (stage_request_ok v n size' \<longrightarrow>
     tiles 0 (source_pieces (chunks (PlanPraminStage v n size'))) (unat n) \<and>
     (\<forall>c \<in> set (chunks (PlanPraminStage v n size')). chunk_ok c \<and>
       chunk_full (unat v + unat n) c \<and>
       unat (PraminStageChunk.vramOffset c) = unat v + unat (sourceOffset c)))"
  using PlanPraminStage_cases [of v n size'] by auto

theorem PlanPraminStage_witness:
  "stage_request_ok 0x1FF000 0x3000 0x10000000 \<and>
   tiles 0 (source_pieces (chunks (PlanPraminStage 0x1FF000 0x3000 0x10000000))) 0x3000"
proof -
  have "stage_request_ok 0x1FF000 0x3000 0x10000000" by (simp add: stage_request_ok_def)
  moreover have "unat (0x3000 :: u64) = 0x3000" by simp
  ultimately show ?thesis
    using PlanPraminStage_spec [of "0x1FF000" "0x3000" "0x10000000"] by (simp only: simp_thms)
qed

text \<open>The stage planner keeps the contract of a chunk planner.\<close>

interpretation pramin_chunks: tiling "\<lambda>(v, n, size'). stage_request_ok v n size'"
  "\<lambda>(v, n, size'). chunks (PlanPraminStage v n size')"
  "\<lambda>c. unat (sourceOffset c)" "\<lambda>c. unat (PraminStageChunk.bytes c)"
  "\<lambda>_. 0" "\<lambda>(v, n, size'). unat n" "\<lambda>_. 2 ^ 20"
proof (unfold_locales, goal_cases)
  case (1 i)
  then show ?case
    using PlanPraminStage_cases [of "fst i" "fst (snd i)" "snd (snd i)"] by (auto split: prod.splits)
next
  case (2 i c)
  then have "chunk_ok c"
    using PlanPraminStage_cases [of "fst i" "fst (snd i)" "snd (snd i)"] by (auto split: prod.splits)
  then show ?case by (auto simp: chunk_ok_def Let_def)
qed

section \<open>What a dry run writes\<close>

text \<open>The video memory addresses an access list writes: a selector store picks the window, a
  region store writes through the aperture.\<close>

definition pramin_step :: "PraminMmioStep \<Rightarrow> nat \<times> nat list \<Rightarrow> nat \<times> nat list" where
  "pramin_step s st = (case st of (sel, ws) \<Rightarrow> case PraminMmioStep.kind s of
     SelectWindow \<Rightarrow> (unat (PraminMmioStep.value s), ws)
   | WriteApertureRegion \<Rightarrow> (sel, ws @
       [sel * 2 ^ 16 + (unat (bar0Offset s) - 0x700000) ..<
        sel * 2 ^ 16 + (unat (bar0Offset s) - 0x700000) + unat (PraminMmioStep.bytes s)]))"

definition pramin_writes :: "PraminMmioStep list \<Rightarrow> nat list" where
  "pramin_writes ss = snd (fold pramin_step ss (0, []))"

definition chunk_steps :: "PraminStageChunk \<Rightarrow> PraminMmioStep list" where
  "chunk_steps c =
     [\<lparr>PraminMmioStep.kind = SelectWindow, bar0Offset = kPraminWindowSelectOffset, bytes = 4,
       value = windowSelector c, allowed = True\<rparr>,
      \<lparr>PraminMmioStep.kind = WriteApertureRegion, bar0Offset = bar0ApertureOffset c,
       bytes = PraminStageChunk.bytes c, value = 0, allowed = True\<rparr>]"

lemma chunk_writes:
  assumes "chunk_ok c"
  shows "\<exists>sel'. fold pramin_step (chunk_steps c) (sel, ws) = (sel', ws @
    [unat (PraminStageChunk.vramOffset c) ..<
     unat (PraminStageChunk.vramOffset c) + unat (PraminStageChunk.bytes c)])"
proof -
  let ?v = "unat (PraminStageChunk.vramOffset c)"
  define q where "q = ?v div 2 ^ 20"
  define r where "r = ?v mod 2 ^ 20"
  have v: "?v = q * 2 ^ 20 + r" by (simp add: q_def r_def)
  have "?v - ?v mod 2 ^ 20 = q * 2 ^ 20" by (simp add: q_def minus_mod_eq_div_mult)
  then have sel: "unat (windowSelector c) = q * 2 ^ 20 div 2 ^ 16"
    and ap: "unat (bar0ApertureOffset c) = 0x700000 + r"
    using assms by (simp_all only: chunk_ok_def Let_def r_def)
  have "unat (windowSelector c) * 2 ^ 16 + (unat (bar0ApertureOffset c) - 0x700000) = ?v"
    unfolding sel ap v by simp
  then show ?thesis by (simp add: chunk_steps_def pramin_step_def)
qed

lemma aperture_region_allowed:
  assumes "chunk_ok c" and "4 dvd unat (PraminStageChunk.bytes c)"
  shows "CheckMmioRegionWrite apertureRules (bar0ApertureOffset c) (PraminStageChunk.bytes c) =
      RegionWriteDecision.Allowed \<longleftrightarrow> 4 dvd unat (PraminStageChunk.vramOffset c)"
proof -
  let ?v = "unat (PraminStageChunk.vramOffset c)" and ?n = "unat (PraminStageChunk.bytes c)"
    and ?a = "unat (bar0ApertureOffset c)"
  define r where "r = ?v mod 2 ^ 20"
  have r: "r < 2 ^ 20" by (simp add: r_def)
  have a: "?a = 0x700000 + r" and n: "?n \<le> 2 ^ 20 - r" "PraminStageChunk.bytes c \<noteq> 0"
    using assms(1) unfolding chunk_ok_def Let_def r_def by blast+
  have small: "\<not> 0xFFFFFFFF < PraminStageChunk.bytes c" using n r by (simp add: word_less_nat_alt)
  have e: "unat (ucast (bar0ApertureOffset c) + PraminStageChunk.bytes c) = ?a + ?n"
    using a n r by (subst unat_add_nowrap) simp_all
  then have e2: "\<not> 0x100000000 < ucast (bar0ApertureOffset c) + PraminStageChunk.bytes c"
    "\<not> 0x800000 < ucast (bar0ApertureOffset c) + PraminStageChunk.bytes c"
    using a n r by (simp_all add: word_less_nat_alt)
  have low: "\<not> bar0ApertureOffset c < 0x700000" using a by (simp add: word_less_nat_alt)
  have "4 dvd ?a \<longleftrightarrow> 4 dvd r" unfolding a by (simp add: dvd_add_right_iff)
  also have "\<dots> \<longleftrightarrow> 4 dvd ?v" unfolding r_def by (rule dvd_mod_iff) simp
  finally have m: "bar0ApertureOffset c mod 4 = 0 \<longleftrightarrow> 4 dvd ?v" by (simp add: word_mod_eq_0_iff)
  have "PraminStageChunk.bytes c mod 4 = 0" using assms(2) by (simp add: word_mod_eq_0_iff)
  then show ?thesis
    using small e2 low m n
    by (simp add: CheckMmioRegionWrite_def apertureRules_def pramin_consts Let_def)
qed

lemma selector_write_allowed:
  "CheckMmioWrite selectorRules kPraminWindowSelectOffset 0 v = WriteDecision.Allowed"
  by (simp add: selectorRules_def)

text \<open>The dry-run loop, over well-formed chunks: it stops at the first chunk that does not
  follow the previous one, is not well formed or is not 4-byte aligned.\<close>

fun follows :: "u64 \<Rightarrow> u64 \<Rightarrow> PraminStageChunk list \<Rightarrow> bool" where
  "follows v src [] \<longleftrightarrow> True"
| "follows v src (c # cs) \<longleftrightarrow> PraminStageChunk.vramOffset c = v \<and> sourceOffset c = src \<and> chunk_ok c \<and>
     4 dvd unat (PraminStageChunk.bytes c) \<and> 4 dvd unat (PraminStageChunk.vramOffset c) \<and>
     follows (v + PraminStageChunk.bytes c) (src + PraminStageChunk.bytes c) cs"

lemma dry_run_step:
  "BuildPraminDryRunMmioPlan_loop stage (c # cs) v src out =
    (if PraminStageChunk.vramOffset c = v \<and> sourceOffset c = src \<and> chunk_ok c \<and>
        4 dvd unat (PraminStageChunk.bytes c)
     then if 4 dvd unat (PraminStageChunk.vramOffset c)
       then BuildPraminDryRunMmioPlan_loop stage cs (v + PraminStageChunk.bytes c)
         (src + PraminStageChunk.bytes c) (out\<lparr>steps := steps out @ chunk_steps c\<rparr>)
       else out\<lparr>PraminDryRunMmioPlan.valid := False, steps := steps out @
         [(chunk_steps c) ! 0, ((chunk_steps c) ! 1)\<lparr>allowed := False\<rparr>]\<rparr>
     else out\<lparr>steps := []\<rparr>)"
proof (cases "PraminStageChunk.bytes c = 0 \<or> PraminStageChunk.vramOffset c \<noteq> v \<or>
    sourceOffset c \<noteq> src \<or> \<not> 4 dvd unat (PraminStageChunk.bytes c)")
  case True
  then show ?thesis by (auto simp: word_mod_eq_0_iff chunk_ok_def Let_def)
next
  case False
  then have nz: "PraminStageChunk.bytes c \<noteq> 0" by blast
  show ?thesis
  proof (cases "chunk_ok c")
    case ok: True
    note region = aperture_region_allowed [OF ok]
    show ?thesis
      using False chunk_check_iff [OF nz refl] ok region
      by (simp add: word_mod_eq_0_iff Let_def selector_write_allowed chunk_steps_def)
  next
    case bad: False
    then show ?thesis
      using False chunk_check_iff [OF nz refl]
      by (simp only: BuildPraminDryRunMmioPlan_loop.simps Let_def word_mod_eq_0_iff)
        (simp only: if_True if_False if_cancel simp_thms)
  qed
qed

lemma dry_run_loop_valid:
  assumes "\<not> PraminDryRunMmioPlan.valid out"
  shows "PraminDryRunMmioPlan.valid (BuildPraminDryRunMmioPlan_loop stage cs v src out) \<longleftrightarrow>
      follows v src cs \<and>
      src + (\<Sum>c\<leftarrow>cs. PraminStageChunk.bytes c) = totalBytes stage \<and>
      v + (\<Sum>c\<leftarrow>cs. PraminStageChunk.bytes c) = PraminStagePlan.vramOffset stage + totalBytes stage"
    and "PraminDryRunMmioPlan.valid (BuildPraminDryRunMmioPlan_loop stage cs v src out) \<longrightarrow>
      steps (BuildPraminDryRunMmioPlan_loop stage cs v src out) = steps out @ concat (map chunk_steps cs)"
  using assms
  by (induction cs arbitrary: v src out)
    (auto simp: dry_run_step add.assoc simp del: BuildPraminDryRunMmioPlan_loop.simps(2))

lemma unat_sum_list:
  "(\<Sum>x\<leftarrow>xs. unat (f x)) < 2 ^ LENGTH('a::len) \<Longrightarrow>
    unat (\<Sum>x\<leftarrow>xs. f x :: 'a word) = (\<Sum>x\<leftarrow>xs. unat (f x))"
  by (induction xs) (auto simp: unat_add_nowrap)

lemma chunk_ok_end:
  assumes "chunk_ok c"
  shows "unat (PraminStageChunk.vramOffset c) + unat (PraminStageChunk.bytes c) \<le> 2 ^ 48"
proof -
  have "unat (PraminStageChunk.vramOffset c) < 2 ^ 48" and
    "unat (PraminStageChunk.bytes c) \<le> 2 ^ 20 - unat (PraminStageChunk.vramOffset c) mod 2 ^ 20"
    using assms unfolding chunk_ok_def Let_def by blast+
  with window_end [of "unat (PraminStageChunk.vramOffset c)"] show ?thesis by linarith
qed

lemma follows_writes:
  "follows v src cs \<Longrightarrow> unat v \<le> 2 ^ 48 \<Longrightarrow>
    unat v + (\<Sum>c\<leftarrow>cs. unat (PraminStageChunk.bytes c)) \<le> 2 ^ 48 \<and>
    (\<forall>sel ws. \<exists>sel'. fold pramin_step (concat (map chunk_steps cs)) (sel, ws) =
      (sel', ws @ [unat v ..< unat v + (\<Sum>c\<leftarrow>cs. unat (PraminStageChunk.bytes c))]))"
proof (induction v src cs rule: follows.induct)
  case (2 v src c cs)
  then have c: "chunk_ok c" "PraminStageChunk.vramOffset c = v"
    and rest: "follows (v + PraminStageChunk.bytes c) (src + PraminStageChunk.bytes c) cs" by auto
  have le: "unat v + unat (PraminStageChunk.bytes c) \<le> 2 ^ 48" using chunk_ok_end [OF c(1)] c(2) by simp
  then have n: "unat (v + PraminStageChunk.bytes c) = unat v + unat (PraminStageChunk.bytes c)"
    by (subst unat_add_nowrap) simp_all
  with 2(1) rest le have IH:
    "unat v + unat (PraminStageChunk.bytes c) + (\<Sum>c\<leftarrow>cs. unat (PraminStageChunk.bytes c)) \<le> 2 ^ 48"
    "\<And>sel ws. \<exists>sel'. fold pramin_step (concat (map chunk_steps cs)) (sel, ws) =
      (sel', ws @ [unat v + unat (PraminStageChunk.bytes c) ..<
        unat v + unat (PraminStageChunk.bytes c) + (\<Sum>c\<leftarrow>cs. unat (PraminStageChunk.bytes c))])"
    by auto
  have "\<exists>sel'. fold pramin_step (concat (map chunk_steps (c # cs))) (sel, ws) =
      (sel', ws @ [unat v ..< unat v + (\<Sum>c\<leftarrow>c # cs. unat (PraminStageChunk.bytes c))])" for sel ws
  proof -
    obtain s1 where s1: "fold pramin_step (chunk_steps c) (sel, ws) =
        (s1, ws @ [unat v ..< unat v + unat (PraminStageChunk.bytes c)])"
      using chunk_writes [OF c(1)] c(2) by blast
    show ?thesis
      using IH(2) [of s1 "ws @ [unat v ..< unat v + unat (PraminStageChunk.bytes c)]"] s1
        upt_append [of "unat v" "unat (PraminStageChunk.bytes c)"
          "\<Sum>c\<leftarrow>cs. unat (PraminStageChunk.bytes c)"]
      by (simp add: add.assoc)
  qed
  with IH(1) show ?case by simp
qed simp

lemma follows_plan:
  "tiles lo (source_pieces cs) hi \<Longrightarrow>
    \<forall>c \<in> set cs. chunk_ok c \<and> chunk_full (V + hi) c \<and>
      unat (PraminStageChunk.vramOffset c) = V + unat (sourceOffset c) \<Longrightarrow>
    4 dvd V + lo \<Longrightarrow> 4 dvd V + hi \<Longrightarrow> unat v = V + lo \<Longrightarrow> unat src = lo \<Longrightarrow> follows v src cs"
proof (induction cs arbitrary: lo v src)
  case (Cons c cs)
  let ?n = "PraminStageChunk.bytes c"
  have c: "chunk_ok c" "chunk_full (V + hi) c" "unat (PraminStageChunk.vramOffset c) = V + lo"
    "unat (sourceOffset c) = lo" "tiles (lo + unat ?n) (source_pieces cs) hi"
    using Cons.prems by auto
  have end4: "4 dvd V + lo + unat ?n"
  proof -
    have "(4 :: nat) dvd 2 ^ 20" by simp
    then show ?thesis using c(2,3) Cons.prems(4) unfolding chunk_full_def
      by (auto simp: add.assoc intro: dvd_trans)
  qed
  have n4: "4 dvd unat ?n" using end4 Cons.prems(3) by (simp add: dvd_add_right_iff)
  have le: "V + lo + unat ?n \<le> 2 ^ 48" using chunk_ok_end [OF c(1)] c(3) by simp
  have vs: "PraminStageChunk.vramOffset c = v" "sourceOffset c = src"
    using c Cons.prems by (simp_all add: word_unat_eq_iff)
  have "unat (v + ?n) = V + (lo + unat ?n)" "unat (src + ?n) = lo + unat ?n"
    using le Cons.prems(5,6) by (simp_all add: unat_add_nowrap)
  then have "follows (v + ?n) (src + ?n) cs"
    using Cons.IH [OF c(5)] Cons.prems(2,4) end4 by (simp add: add.assoc)
  then show ?case using c n4 vs Cons.prems(3,5) by simp
qed simp

lemma Build_valid_iff:
  "PraminDryRunMmioPlan.valid (BuildPraminDryRunMmioPlan stage) \<longleftrightarrow>
    PraminStagePlan.valid stage \<and> chunks stage \<noteq> [] \<and> totalBytes stage \<noteq> 0 \<and>
    unat (PraminStagePlan.vramOffset stage) + unat (totalBytes stage) \<le> unat (vramSize stage) \<and>
    follows (PraminStagePlan.vramOffset stage) 0 (chunks stage) \<and>
    (\<Sum>c\<leftarrow>chunks stage. PraminStageChunk.bytes c) = totalBytes stage"
proof -
  let ?out = "\<lparr>PraminDryRunMmioPlan.valid = False, steps = []\<rparr>"
  have "PraminDryRunMmioPlan.valid (BuildPraminDryRunMmioPlan stage) \<longleftrightarrow>
      PraminStagePlan.valid stage \<and> chunks stage \<noteq> [] \<and>
      (\<not> (vramSize stage = 0 \<or> totalBytes stage = 0 \<or> vramSize stage \<le> PraminStagePlan.vramOffset stage) \<and>
       \<not> vramSize stage - PraminStagePlan.vramOffset stage < totalBytes stage) \<and>
      PraminDryRunMmioPlan.valid (BuildPraminDryRunMmioPlan_loop stage (chunks stage)
        (PraminStagePlan.vramOffset stage) 0 ?out)"
    by (simp add: BuildPraminDryRunMmioPlan_def Let_def) blast
  then show ?thesis
    unfolding stage_guard_iff using dry_run_loop_valid(1) [of ?out] by auto
qed

lemma Build_steps:
  assumes "PraminDryRunMmioPlan.valid (BuildPraminDryRunMmioPlan stage)"
  shows "steps (BuildPraminDryRunMmioPlan stage) = concat (map chunk_steps (chunks stage))"
  using assms dry_run_loop_valid(2) [of "\<lparr>PraminDryRunMmioPlan.valid = False, steps = []\<rparr>"]
  by (auto simp: BuildPraminDryRunMmioPlan_def Let_def split: if_splits)

lemma Build_writes:
  assumes "PraminDryRunMmioPlan.valid (BuildPraminDryRunMmioPlan stage)"
  shows "pramin_writes (steps (BuildPraminDryRunMmioPlan stage)) =
      [unat (PraminStagePlan.vramOffset stage) ..<
       unat (PraminStagePlan.vramOffset stage) + unat (totalBytes stage)]"
proof -
  let ?v = "PraminStagePlan.vramOffset stage" and ?cs = "chunks stage"
  have f: "follows ?v 0 ?cs" "?cs \<noteq> []" "(\<Sum>c\<leftarrow>?cs. PraminStageChunk.bytes c) = totalBytes stage"
    using assms unfolding Build_valid_iff by auto
  obtain c cs where cs: "?cs = c # cs" using f(2) by (cases ?cs) auto
  have "unat ?v \<le> 2 ^ 48" using f(1) chunk_ok_end [of c] unfolding cs by simp
  from follows_writes [OF f(1) this] have sum: "(\<Sum>c\<leftarrow>?cs. unat (PraminStageChunk.bytes c)) \<le> 2 ^ 48"
    and w: "\<And>sel ws. \<exists>sel'. fold pramin_step (concat (map chunk_steps ?cs)) (sel, ws) =
      (sel', ws @ [unat ?v ..< unat ?v + (\<Sum>c\<leftarrow>?cs. unat (PraminStageChunk.bytes c))])"
    by auto
  have "unat (totalBytes stage) = (\<Sum>c\<leftarrow>?cs. unat (PraminStageChunk.bytes c))"
    unfolding f(3) [symmetric] using sum by (intro unat_sum_list) simp
  with w [of 0 "[]"] show ?thesis by (auto simp: Build_steps [OF assms] pramin_writes_def)
qed

lemma Build_planned_valid:
  assumes req: "stage_request_ok v n size' \<and> 4 dvd unat v \<and> 4 dvd unat n"
  shows "PraminDryRunMmioPlan.valid (BuildPraminDryRunMmioPlan (PlanPraminStage v n size'))"
proof -
  from req obtain cs where cs: "PlanPraminStage v n size' =
      \<lparr>PraminStagePlan.valid = True, vramSize = size', vramOffset = v, totalBytes = n, chunks = cs\<rparr>"
    "tiles 0 (source_pieces cs) (unat n)"
    "\<forall>c \<in> set cs. chunk_ok c \<and> chunk_full (unat v + unat n) c \<and>
        unat (PraminStageChunk.vramOffset c) = unat v + unat (sourceOffset c)"
    using PlanPraminStage_cases [of v n size'] by blast
  have "follows v 0 cs" using req by (intro follows_plan [OF cs(2,3)]) simp_all
  moreover have "(\<Sum>c\<leftarrow>cs. PraminStageChunk.bytes c) = n"
  proof -
    have "(\<Sum>c\<leftarrow>cs. unat (PraminStageChunk.bytes c)) = unat n"
      using tiles_sum [OF cs(2)] by (simp add: comp_def)
    then have "unat (\<Sum>c\<leftarrow>cs. PraminStageChunk.bytes c) = unat n"
      using unat_lt(4) [of n] by (subst unat_sum_list) simp_all
    then show ?thesis by (simp only: word_unat_eq_iff)
  qed
  moreover have "cs \<noteq> []" using cs(2) req by (auto simp: stage_request_ok_def unat_eq_0)
  ultimately show ?thesis
    using req unfolding Build_valid_iff cs(1) by (simp add: stage_request_ok_def)
qed

text \<open>
  C24. The dry run of any stage plan, also one that did not come from the planner, is accepted
  only if every access is allowed, and the addresses it then writes are exactly the requested
  range of video memory, in order, inside video memory. The planner's own plans are accepted
  whenever offset and size are multiples of four.
\<close>
theorem BuildPraminDryRunMmioPlan_sound:
  "(PraminDryRunMmioPlan.valid (BuildPraminDryRunMmioPlan stage) \<longrightarrow>
     (\<forall>s \<in> set (steps (BuildPraminDryRunMmioPlan stage)). allowed s) \<and>
     pramin_writes (steps (BuildPraminDryRunMmioPlan stage)) =
       [unat (PraminStagePlan.vramOffset stage) ..<
        unat (PraminStagePlan.vramOffset stage) + unat (totalBytes stage)] \<and>
     unat (PraminStagePlan.vramOffset stage) + unat (totalBytes stage) \<le> unat (vramSize stage)) \<and>
   (stage_request_ok v n size' \<and> 4 dvd unat v \<and> 4 dvd unat n \<longrightarrow>
     PraminDryRunMmioPlan.valid (BuildPraminDryRunMmioPlan (PlanPraminStage v n size')))"
proof (intro conjI impI)
  assume valid: "PraminDryRunMmioPlan.valid (BuildPraminDryRunMmioPlan stage)"
  show "\<forall>s \<in> set (steps (BuildPraminDryRunMmioPlan stage)). allowed s"
    unfolding Build_steps [OF valid] by (auto simp: chunk_steps_def)
  show "pramin_writes (steps (BuildPraminDryRunMmioPlan stage)) =
       [unat (PraminStagePlan.vramOffset stage) ..<
        unat (PraminStagePlan.vramOffset stage) + unat (totalBytes stage)]"
    by (rule Build_writes [OF valid])
  show "unat (PraminStagePlan.vramOffset stage) + unat (totalBytes stage) \<le> unat (vramSize stage)"
    using valid unfolding Build_valid_iff by blast
qed (rule Build_planned_valid)

theorem BuildPraminDryRunMmioPlan_witness:
  "pramin_writes (steps (BuildPraminDryRunMmioPlan (PlanPraminStage 0x1FF000 0x3000 0x10000000))) =
    [0x1FF000 ..< 0x202000]"
proof -
  let ?stage = "PlanPraminStage 0x1FF000 0x3000 0x10000000"
  have req: "stage_request_ok 0x1FF000 0x3000 0x10000000" by (simp add: stage_request_ok_def)
  have four: "(4 :: nat) dvd unat (0x1FF000 :: u64) \<and> (4 :: nat) dvd unat (0x3000 :: u64)" by simp
  have fields: "PraminStagePlan.vramOffset ?stage = 0x1FF000" "totalBytes ?stage = 0x3000"
    using PlanPraminStage_cases [of "0x1FF000" "0x3000" "0x10000000"] req by auto
  have "pramin_writes (steps (BuildPraminDryRunMmioPlan ?stage)) =
      [unat (0x1FF000 :: u64) ..< unat (0x1FF000 :: u64) + unat (0x3000 :: u64)]"
    using BuildPraminDryRunMmioPlan_sound
      [where stage = ?stage and v = "0x1FF000" and n = "0x3000" and size' = "0x10000000"] req four
    unfolding fields by blast
  then show ?thesis by (simp del: upt_rec_numeral)
qed

end
