(* ===== verification/Layout.thy ===== *)
theory Layout
  imports Prelude
begin

text \<open>
  Fixed binary layouts. Several components fill a zeroed buffer with a fixed sequence of
  little-endian stores (argument blocks, metadata pages, queue headers, RPC records). Such a
  sequence is a list of (offset, bytes) pairs here; \<open>write_all\<close> performs the stores one
  after the other, each bounds-checked. The locale \<open>record_layout\<close> is the contract of a
  layout whose fields are in increasing order and inside the buffer: the stores never leave
  the buffer, every field reads back, and every other byte stays zero.
\<close>

type_synonym store = "nat \<times> byte list"

abbreviation st8 :: "nat \<Rightarrow> byte \<Rightarrow> store" where "st8 off v \<equiv> (off, [v])"
abbreviation st16 :: "nat \<Rightarrow> u16 \<Rightarrow> store" where "st16 off v \<equiv> (off, le_bytes 2 v)"
abbreviation st32 :: "nat \<Rightarrow> u32 \<Rightarrow> store" where "st32 off v \<equiv> (off, le_bytes 4 v)"
abbreviation st64 :: "nat \<Rightarrow> u64 \<Rightarrow> store" where "st64 off v \<equiv> (off, le_bytes 8 v)"

text \<open>\<open>st64 off v\<close> is \<open>StoreLe64(out, off, v)\<close>, and so on.\<close>

fun write_all :: "byte list \<Rightarrow> store list \<Rightarrow> byte list option" where
  "write_all b [] = Some b"
| "write_all b ((off, vs) # ss) = do { b' \<leftarrow> wr_seq b off vs; write_all b' ss }"

lemma write_all_append:
  "write_all b (xs @ ys) = do { b' \<leftarrow> write_all b xs; write_all b' ys }"
  by (induction b xs rule: write_all.induct) (auto split: bind_splits)

fun fields_in :: "nat \<Rightarrow> store list \<Rightarrow> nat \<Rightarrow> bool" where
  "fields_in lo [] hi \<longleftrightarrow> lo \<le> hi"
| "fields_in lo ((off, vs) # ss) hi \<longleftrightarrow> lo \<le> off \<and> fields_in (off + length vs) ss hi"

lemma fields_in_le: "fields_in lo ss hi \<Longrightarrow> lo \<le> hi"
  by (induction lo ss hi rule: fields_in.induct) auto

lemma fields_in_bounds:
  "fields_in lo ss hi \<Longrightarrow> (off, vs) \<in> set ss \<Longrightarrow> lo \<le> off \<and> off + length vs \<le> hi"
proof (induction lo ss hi rule: fields_in.induct)
  case (2 lo off' vs' ss hi)
  then show ?case using fields_in_le [of "off' + length vs'" ss hi] by auto
qed simp

text \<open>The whole effect of the stores of a layout.\<close>

lemma write_all_layout:
  assumes "fields_in lo ss (length b)"
  shows "\<exists>b'. write_all b ss = Some b' \<and> length b' = length b \<and>
    take lo b' = take lo b \<and>
    (\<forall>(off, vs) \<in> set ss. slice b' off (length vs) = vs) \<and>
    (\<forall>i < length b. (\<forall>(off, vs) \<in> set ss. \<not> (off \<le> i \<and> i < off + length vs)) \<longrightarrow> b' ! i = b ! i)"
  using assms
proof (induction ss arbitrary: lo b)
  case (Cons s ss)
  obtain off vs where s: "s = (off, vs)" by (cases s)
  then have in_ss: "lo \<le> off" "fields_in (off + length vs) ss (length b)"
    using Cons.prems by auto
  then have fits: "off + length vs \<le> length b" using fields_in_le by blast
  let ?b1 = "put b off vs"
  have b1: "wr_seq b off vs = Some ?b1" "length ?b1 = length b" using fits by (auto simp: mem_simps)
  have "fields_in (off + length vs) ss (length ?b1)" using in_ss(2) b1(2) by simp
  from Cons.IH [OF this] obtain b' where b': "write_all ?b1 ss = Some b'" "length b' = length b"
    "take (off + length vs) b' = take (off + length vs) ?b1"
    "\<forall>(off, vs) \<in> set ss. slice b' off (length vs) = vs"
    "\<forall>i < length b. (\<forall>(off, vs) \<in> set ss. \<not> (off \<le> i \<and> i < off + length vs)) \<longrightarrow> b' ! i = ?b1 ! i"
    using b1(2) by auto
  have same: "b' ! i = ?b1 ! i" if "i < off + length vs" for i
    using that b'(3) by (metis nth_take)
  have "slice b' off (length vs) = slice ?b1 off (length vs)"
    using same b'(2) b1(2) fits by (intro nth_equalityI) (auto simp: slice_def)
  then have "slice b' off (length vs) = vs" using fits by simp
  moreover have "take lo b' = take lo b"
    using same b'(2) b1(2) fits in_ss(1) by (intro nth_equalityI) (auto simp: nth_put)
  moreover have "b' ! i = b ! i"
    if "i < length b" "\<forall>(o2, vs2) \<in> set (s # ss). \<not> (o2 \<le> i \<and> i < o2 + length vs2)" for i
    using that b'(5) fits by (auto simp: s nth_put)
  ultimately show ?case using b1(1) b' by (auto simp: s)
qed auto

section \<open>The contract of a layout\<close>

locale record_layout =
  fixes fields :: "'a \<Rightarrow> store list"
    and size_of :: "'a \<Rightarrow> nat"
  assumes laid_out: "fields_in 0 (fields x) (size_of x)"
begin

definition encode :: "'a \<Rightarrow> byte list option" where
  "encode x = write_all (replicate (size_of x) 0) (fields x)"

lemma encode_layout:
  "\<exists>b. encode x = Some b \<and> length b = size_of x \<and>
    (\<forall>(off, vs) \<in> set (fields x). slice b off (length vs) = vs) \<and>
    (\<forall>i < size_of x. (\<forall>(off, vs) \<in> set (fields x). \<not> (off \<le> i \<and> i < off + length vs)) \<longrightarrow> b ! i = 0)"
  using write_all_layout [of 0 "fields x" "replicate (size_of x) 0"] laid_out [of x]
  by (auto simp: encode_def)

lemma encode_total: "encode x \<noteq> None"
  using encode_layout [of x] by auto

lemma length_encode: "encode x = Some b \<Longrightarrow> length b = size_of x"
  using encode_layout [of x] by auto

lemma field_read: "encode x = Some b \<Longrightarrow> (off, vs) \<in> set (fields x) \<Longrightarrow> slice b off (length vs) = vs"
  using encode_layout [of x] by auto

lemma fields_read:
  "encode x = Some b \<Longrightarrow> \<forall>(off, vs) \<in> set (fields x). slice b off (length vs) = vs"
  using encode_layout [of x] by auto

lemma gap_zero:
  "encode x = Some b \<Longrightarrow> i < size_of x \<Longrightarrow>
    \<forall>(off, vs) \<in> set (fields x). \<not> (off \<le> i \<and> i < off + length vs) \<Longrightarrow> b ! i = 0"
  using encode_layout [of x] by auto

end

end
