(* ===== verification/GspQueue.thy ===== *)
theory GspQueue
  imports Layout
begin

text \<open>
  GSP message queue memory (\<open>src/core/gsp_boot.cpp\<close>, \<open>include/rtxmac/gsp_boot.hpp\<close>): the
  layout of the shared allocation (page table, command queue, status queue), its page table
  and the cached argument block that tells the firmware where the queues are.
\<close>

section \<open>Operations\<close>

definition kDefaultQueueBytes :: u64 where "kDefaultQueueBytes = 0x40000"
definition kGspPageBytes :: u64 where "kGspPageBytes = 0x1000"
definition kGspPteBytes :: u64 where "kGspPteBytes = 8"
definition kGspArgumentsCachedBytes :: nat where "kGspArgumentsCachedBytes = 72"

record QueueMemoryLayout =
  queueBytes :: u64
  pageBytes :: u64
  pteBytes :: u64
  queuePageCount :: u64
  pageTableEntryCount :: u64
  pageTableBytes :: u64
  commandQueueOffset :: u64
  statusQueueOffset :: u64
  totalBytes :: u64

definition RoundUp :: "u64 \<Rightarrow> u64 \<Rightarrow> u64" where
  "RoundUp v al =
     (if al = 0 then 0
      else let rem = v mod al in if rem = 0 then v else v + (al - rem))"

definition PlanQueueMemory :: "u64 \<Rightarrow> u64 \<Rightarrow> u64 \<Rightarrow> QueueMemoryLayout option" where
  "PlanQueueMemory queue page pte =
     (if queue = 0 \<or> page = 0 \<or> pte = 0 then None
      else if queue mod page \<noteq> 0 then None
      else if - 1 div 2 < queue then None
      else let queuesTotal = queue * 2;
               queuePteCount = queuesTotal div page
      in if - 1 div pte < queuePteCount then None
      else let queuePteBytes = queuePteCount * pte
      in if - 1 - (page - 1) < queuePteBytes then None
      else let pteStorageBytes = RoundUp queuePteBytes page;
               pteStoragePages = pteStorageBytes div page;
               pteCount = queuePteCount + pteStoragePages
      in if - 1 div pte < pteCount then None
      else let rawPtBytes = pteCount * pte
      in if - 1 - (page - 1) < rawPtBytes then None
      else let ptBytes = RoundUp rawPtBytes page
      in if - 1 - queuesTotal < ptBytes then None
      else Some \<lparr>queueBytes = queue, pageBytes = page, pteBytes = pte,
        queuePageCount = queuePteCount, pageTableEntryCount = pteCount, pageTableBytes = ptBytes,
        commandQueueOffset = ptBytes, statusQueueOffset = ptBytes + queue,
        totalBytes = ptBytes + queuesTotal\<rparr>)"

text \<open>The entry loop of \<open>BuildQueuePageTable\<close>: outer \<open>None\<close> is a store outside the table,
  inner \<open>None\<close> the rejection of an unaligned address.\<close>

fun BuildQueuePageTable_loop :: "u64 \<Rightarrow> nat \<Rightarrow> u64 list \<Rightarrow> byte list \<Rightarrow> byte list option option" where
  "BuildQueuePageTable_loop page i [] out = Some (Some out)"
| "BuildQueuePageTable_loop page i (a # as) out =
     (if a mod page \<noteq> 0 then Some None
      else do { out' \<leftarrow> StoreLe64 out (i * 8) a; BuildQueuePageTable_loop page (Suc i) as out' })"

definition BuildQueuePageTable :: "QueueMemoryLayout \<Rightarrow> u64 list \<Rightarrow> byte list option option" where
  "BuildQueuePageTable layout pages =
     (if pageBytes layout = 0 \<or> pteBytes layout \<noteq> 8 then Some None
      else if unat (pageTableEntryCount layout) \<noteq> length pages then Some None
      else if SIZE_MAX < unat (pageTableBytes layout) then Some None
      else if - 1 div pteBytes layout < pageTableEntryCount layout then Some None
      else let usedBytes = pageTableEntryCount layout * pteBytes layout
      in if pageTableBytes layout < usedBytes then Some None
      else BuildQueuePageTable_loop (pageBytes layout) 0 pages
             (replicate (unat (pageTableBytes layout)) 0))"

definition cached_argument_fields :: "QueueMemoryLayout \<times> u64 \<Rightarrow> store list" where
  "cached_argument_fields x = (case x of (layout, sharedMemPhysAddr) \<Rightarrow>
     [st64 0 sharedMemPhysAddr,
      st32 8 (ucast (pageTableEntryCount layout)),
      st64 16 (commandQueueOffset layout),
      st64 24 (statusQueueOffset layout),
      st32 48 1])"

definition BuildCachedArguments :: "QueueMemoryLayout \<Rightarrow> u64 \<Rightarrow> byte list option" where
  "BuildCachedArguments layout sharedMemPhysAddr =
     write_all (replicate kGspArgumentsCachedBytes 0)
       (cached_argument_fields (layout, sharedMemPhysAddr))"

section \<open>The layout\<close>

lemma unat_RoundUp:
  assumes "al \<noteq> 0" and "unat v + (unat al - 1) < 2 ^ 64"
  shows "unat (RoundUp v al) = (unat v + (unat al - 1)) div unat al * unat al"
proof -
  have pos: "0 < unat al" using assms(1) by (simp add: unat_gt_0)
  define q r where "q = unat v div unat al" and "r = unat v mod unat al"
  then have v: "unat v = q * unat al + r" and r: "r < unat al" using pos by simp_all
  have rem: "unat (v mod al) = r" by (simp add: unat_mod_distrib r_def)
  show ?thesis
  proof (cases "r = 0")
    case True
    then have "v mod al = 0" using rem by (simp add: word_unat_eq_iff)
    moreover have "(q * unat al + (unat al - 1)) div unat al = q"
      using pos by (intro div_nat_eqI) (simp_all add: mult.commute)
    ultimately show ?thesis using v True assms(1) by (simp add: RoundUp_def Let_def)
  next
    case False
    then have nz: "v mod al \<noteq> 0" using rem by (auto simp: word_unat_eq_iff)
    have "v mod al \<le> al" using r rem by (simp add: word_le_nat_alt)
    then have d: "unat (al - v mod al) = unat al - r" by (simp add: unat_sub rem)
    have "unat (v + (al - v mod al)) = q * unat al + unat al"
      using v r False assms(2) d by (subst unat_add_nowrap) simp_all
    moreover have "(q * unat al + r + (unat al - 1)) div unat al = Suc q"
    proof -
      have "q * unat al + r + (unat al - 1) = Suc q * unat al + (r - 1)"
        using False pos by simp
      moreover have "r - 1 < unat al" using r by simp
      ultimately show ?thesis by (simp only: div_mult_self3 [OF pos [THEN gr_implies_not0]]) simp
    qed
    ultimately show ?thesis using nz assms(1) v by (simp add: RoundUp_def Let_def)
  qed
qed

text \<open>A queue layout in plain numbers: a page table large enough for its entries, followed by
  the command queue and the status queue, all made of whole pages.\<close>

definition pages_for :: "nat \<Rightarrow> nat \<Rightarrow> nat" where
  "pages_for page n = (n + (page - 1)) div page"

definition queue_layout_ok :: "QueueMemoryLayout \<Rightarrow> bool" where
  "queue_layout_ok l \<longleftrightarrow>
     unat (pageTableEntryCount l) * unat (pteBytes l) \<le> unat (pageTableBytes l) \<and>
     unat (pageTableEntryCount l) = unat (queuePageCount l) +
       pages_for (unat (pageBytes l)) (unat (queuePageCount l) * unat (pteBytes l)) \<and>
     unat (queuePageCount l) * unat (pageBytes l) = 2 * unat (queueBytes l) \<and>
     unat (pageBytes l) dvd unat (queueBytes l) \<and> unat (pageBytes l) dvd unat (pageTableBytes l) \<and>
     0 < unat (pageTableBytes l) \<and>
     unat (commandQueueOffset l) = unat (pageTableBytes l) \<and>
     unat (statusQueueOffset l) = unat (commandQueueOffset l) + unat (queueBytes l) \<and>
     unat (totalBytes l) = unat (statusQueueOffset l) + unat (queueBytes l)"

lemma round_up_ge: "0 < a \<Longrightarrow> n \<le> (n + (a - 1)) div a * (a :: nat)"
proof -
  assume a: "0 < a"
  have "n + (a - 1) = (n + (a - 1)) div a * a + (n + (a - 1)) mod a" by simp
  moreover have "(n + (a - 1)) mod a \<le> a - 1" using a by (simp add: Suc_leI less_Suc_eq_le [symmetric])
  ultimately show ?thesis by linarith
qed

lemma add_minus_one_guard:
  assumes "p \<noteq> (0 :: u64)"
  shows "- 1 - (p - 1) < a \<longleftrightarrow> 2 ^ 64 \<le> unat a + (unat p - 1)"
  by (simp only: add_guard64 unat_minus_one [OF assms])

lemma PlanQueueMemory_ok:
  assumes "PlanQueueMemory queue page pte = Some l" and "page \<noteq> 1"
  shows "queue_layout_ok l \<and> queueBytes l = queue \<and> pageBytes l = page \<and> pteBytes l = pte \<and>
    queue \<noteq> 0 \<and> page \<noteq> 0 \<and> pte \<noteq> 0"
proof -
  let ?q = "unat queue" and ?p = "unat page" and ?t = "unat pte"
  have nz: "queue \<noteq> 0" "page \<noteq> 0" "pte \<noteq> 0" and dv: "queue mod page = 0"
    and q2: "\<not> - 1 div 2 < queue"
    using assms by (auto simp: PlanQueueMemory_def split: if_splits)
  have pos: "0 < ?p" "0 < ?t" "0 < ?q" using nz by (simp_all add: unat_gt_0)
  have dvd: "?p dvd ?q" using dv by (simp add: word_mod_eq_0_iff)
  have q2': "?q * 2 < 2 ^ 64"
    using q2 mult_guard_iff [of 2 queue] by (simp add: not_less)
  then have tot: "unat (queue * 2) = 2 * ?q" by (simp add: unat_mult_nowrap)
  define n where "n = 2 * ?q div ?p"
  have n: "n * ?p = 2 * ?q" using dvd by (simp add: n_def)
  have cnt: "unat (queue * 2 div page) = n" by (simp add: unat_div_distrib tot n_def)
  define c where "c = queue * 2 div page"
  have g1: "\<not> - 1 div pte < c" and g2: "\<not> - 1 - (page - 1) < c * pte"
    using assms nz dv q2 by (auto simp: PlanQueueMemory_def Let_def c_def split: if_splits)
  have cp: "unat (c * pte) = n * ?t"
    using g1 mult_guard_iff [OF nz(3), of c] cnt
    by (simp add: not_less c_def unat_mult_nowrap)
  have g2': "n * ?t + (?p - 1) < 2 ^ 64"
    using g2 add_minus_one_guard [OF nz(2)] cp by (simp only: not_less not_le)
  have ru: "unat (RoundUp (c * pte) page) = pages_for ?p (n * ?t) * ?p"
    using unat_RoundUp [OF nz(2), of "c * pte"] g2' cp by (simp add: pages_for_def)
  have sp: "unat (RoundUp (c * pte) page div page) = pages_for ?p (n * ?t)"
    using pos by (simp add: unat_div_distrib ru)
  define s where "s = RoundUp (c * pte) page div page"
  have p2: "2 \<le> ?p" using nz(2) assms(2) pos by (metis Suc_1 Suc_leI le_neq_implies_less
        less_one not_less_eq_eq unat_1 word_unat_eq_iff)
  have "n * 2 \<le> n * ?p" "pages_for ?p (n * ?t) * 2 \<le> pages_for ?p (n * ?t) * ?p"
    using p2 by simp_all
  moreover have "pages_for ?p (n * ?t) * ?p \<le> n * ?t + (?p - 1)" by (simp add: pages_for_def)
  ultimately have small: "n + pages_for ?p (n * ?t) < 2 ^ 64" using n q2' g2' by linarith
  have e: "unat (c + s) = n + pages_for ?p (n * ?t)"
    using small cnt sp by (subst unat_add_nowrap) (simp_all add: c_def s_def)
  have rest: "\<not> - 1 div pte < c + s" "\<not> - 1 - (page - 1) < (c + s) * pte"
    "\<not> - 1 - queue * 2 < RoundUp ((c + s) * pte) page"
    and l: "l = \<lparr>queueBytes = queue, pageBytes = page, pteBytes = pte, queuePageCount = c,
      pageTableEntryCount = c + s, pageTableBytes = RoundUp ((c + s) * pte) page,
      commandQueueOffset = RoundUp ((c + s) * pte) page,
      statusQueueOffset = RoundUp ((c + s) * pte) page + queue,
      totalBytes = RoundUp ((c + s) * pte) page + queue * 2\<rparr>"
    using assms(1) nz dv q2 g1 g2
    by (auto simp: PlanQueueMemory_def Let_def c_def s_def split: if_splits)
  have ep: "unat ((c + s) * pte) = unat (c + s) * ?t"
    using rest(1) mult_guard_iff [OF nz(3), of "c + s"] by (simp add: not_less unat_mult_nowrap)
  have "unat ((c + s) * pte) + (?p - 1) < 2 ^ 64"
    using rest(2) add_minus_one_guard [OF nz(2)] by (simp only: not_less not_le)
  then have pt: "unat (RoundUp ((c + s) * pte) page) = pages_for ?p (unat (c + s) * ?t) * ?p"
    using unat_RoundUp [OF nz(2)] ep by (simp add: pages_for_def)
  have fit: "unat (RoundUp ((c + s) * pte) page) + 2 * ?q < 2 ^ 64"
    using rest(3) tot by (simp only: add_guard64 not_le)
  have "unat (RoundUp ((c + s) * pte) page + queue) = unat (RoundUp ((c + s) * pte) page) + ?q"
    "unat (RoundUp ((c + s) * pte) page + queue * 2) = unat (RoundUp ((c + s) * pte) page) + 2 * ?q"
    using fit tot by (subst unat_add_nowrap; simp)+
  moreover have "unat (c + s) * ?t \<le> unat (RoundUp ((c + s) * pte) page)"
    unfolding pt pages_for_def by (rule round_up_ge [OF pos(1)])
  moreover have "0 < unat (RoundUp ((c + s) * pte) page)"
  proof -
    have "0 < unat (c + s) * ?t" using n pos e by (cases n) auto
    also have "\<dots> \<le> unat (RoundUp ((c + s) * pte) page)" by fact
    finally show ?thesis .
  qed
  ultimately show ?thesis
    using nz dvd n e pt cnt unfolding l queue_layout_ok_def by (simp add: c_def)
qed

section \<open>The page table\<close>

lemma BuildQueuePageTable_loop_spec:
  assumes "(i + length as) * 8 \<le> length out"
  shows "if \<forall>a \<in> set as. unat page dvd unat a
    then BuildQueuePageTable_loop page i as out =
      Some (Some (put out (i * 8) (concat (map (le_bytes 8) as))))
    else BuildQueuePageTable_loop page i as out = Some None"
  using assms
proof (induction as arbitrary: i out)
  case (Cons a as)
  have fits: "i * 8 + 8 \<le> length out" using Cons.prems by simp
  let ?out = "put out (i * 8) (le_bytes 8 a)"
  have len: "length (concat (map (le_bytes 8) xs)) = 8 * length xs" for xs :: "u64 list"
    by (induction xs) simp_all
  have "put ?out (Suc i * 8) (concat (map (le_bytes 8) as)) =
      put out (i * 8) (le_bytes 8 a @ concat (map (le_bytes 8) as))"
    using put_put_adjacent [of "i * 8" "le_bytes 8 a" "concat (map (le_bytes 8) as)" out]
      Cons.prems len by (simp add: add.commute)
  then show ?case
    using Cons.IH [of "Suc i" ?out] Cons.prems fits
    by (auto simp: mem_simps word_mod_eq_0_iff split: if_splits)
qed simp

definition page_table_ok :: "QueueMemoryLayout \<Rightarrow> u64 list \<Rightarrow> bool" where
  "page_table_ok l pages \<longleftrightarrow> pageBytes l \<noteq> 0 \<and> pteBytes l = 8 \<and>
     unat (pageTableEntryCount l) = length pages \<and> length pages * 8 \<le> unat (pageTableBytes l) \<and>
     (\<forall>a \<in> set pages. unat (pageBytes l) dvd unat a)"

lemma BuildQueuePageTable_eq:
  "BuildQueuePageTable l pages = Some (if page_table_ok l pages
     then Some (concat (map (le_bytes 8) pages) @
       replicate (unat (pageTableBytes l) - 8 * length pages) 0)
     else None)"
proof (cases "pageBytes l \<noteq> 0 \<and> pteBytes l = 8 \<and> unat (pageTableEntryCount l) = length pages \<and>
    length pages * 8 \<le> unat (pageTableBytes l)")
  case True
  let ?n = "length pages"
  have len: "length (concat (map (le_bytes 8) xs)) = 8 * length xs" for xs :: "u64 list"
    by (induction xs) simp_all
  have fits: "?n * 8 < 2 ^ 64" using True unat_lt(4) [of "pageTableBytes l"] by linarith
  then have g1: "\<not> - 1 div 8 < pageTableEntryCount l"
    using True mult_guard_iff [of 8 "pageTableEntryCount l"] by (simp add: not_less)
  have used: "unat (pageTableEntryCount l * 8) = ?n * 8"
    using True fits by (subst unat_mult_nowrap) simp_all
  have g2: "\<not> pageTableBytes l < pageTableEntryCount l * 8"
    using True by (simp only: not_less word_le_nat_alt used)
  have g3: "\<not> SIZE_MAX < unat (pageTableBytes l)" using unat_lt(4) [of "pageTableBytes l"] by linarith
  have "BuildQueuePageTable l pages = BuildQueuePageTable_loop (pageBytes l) 0 pages
      (replicate (unat (pageTableBytes l)) 0)"
    using True g1 g2 g3 by (simp add: BuildQueuePageTable_def Let_def)
  moreover have "put (replicate (unat (pageTableBytes l)) 0) 0 (concat (map (le_bytes 8) pages)) =
      concat (map (le_bytes 8) pages) @ replicate (unat (pageTableBytes l) - 8 * ?n) 0"
    by (simp add: put_def len)
  ultimately show ?thesis
    using BuildQueuePageTable_loop_spec [of 0 pages "replicate (unat (pageTableBytes l)) 0" "pageBytes l"]
      True by (auto simp: page_table_ok_def split: if_splits)
next
  case False
  have "BuildQueuePageTable l pages = Some None"
  proof (cases "pageBytes l \<noteq> 0 \<and> pteBytes l = 8 \<and> unat (pageTableEntryCount l) = length pages")
    case shape: True
    then have big: "unat (pageTableBytes l) < length pages * 8" using False by linarith
    have "- 1 div 8 < pageTableEntryCount l \<or> pageTableBytes l < pageTableEntryCount l * 8"
    proof (cases "length pages * 8 < 2 ^ 64")
      case True
      then have "unat (pageTableEntryCount l * 8) = length pages * 8"
        using shape by (subst unat_mult_nowrap) simp_all
      then show ?thesis using big by (intro disjI2) (simp only: word_less_nat_alt)
    next
      case False
      then show ?thesis
        using shape mult_guard_iff [of 8 "pageTableEntryCount l"] by (simp add: not_less [symmetric])
    qed
    then show ?thesis using shape by (auto simp: BuildQueuePageTable_def Let_def)
  qed (auto simp: BuildQueuePageTable_def)
  moreover have "\<not> page_table_ok l pages" using False by (auto simp: page_table_ok_def)
  ultimately show ?thesis by simp
qed

text \<open>
  Building the queue page table never stores outside the table, for any layout; it
  succeeds exactly for aligned page addresses that match the entry count and fit, and the
  table is then one little-endian entry per page followed by zeros.
\<close>
theorem BuildQueuePageTable_spec:
  "BuildQueuePageTable l pages = Some (if page_table_ok l pages
     then Some (concat (map (le_bytes 8) pages) @
       replicate (unat (pageTableBytes l) - 8 * length pages) 0)
     else None)"
  by (rule BuildQueuePageTable_eq)

section \<open>The cached arguments\<close>

interpretation cached_arguments: record_layout cached_argument_fields "\<lambda>_. 72"
  by unfold_locales (simp add: cached_argument_fields_def split: prod.split)

lemma BuildCachedArguments_reads:
  "\<exists>b. BuildCachedArguments l shared = Some b \<and> length b = 72 \<and>
      LoadLe64 b 0 = Some shared \<and> LoadLe32 b 8 = Some (ucast (pageTableEntryCount l)) \<and>
      LoadLe64 b 16 = Some (commandQueueOffset l) \<and> LoadLe64 b 24 = Some (statusQueueOffset l)"
proof -
  obtain b where b: "cached_arguments.encode (l, shared) = Some b"
    using cached_arguments.encode_total [of "(l, shared)"] by auto
  then have "BuildCachedArguments l shared = Some b"
    by (simp add: BuildCachedArguments_def cached_arguments.encode_def kGspArgumentsCachedBytes_def)
  moreover note len = cached_arguments.length_encode [OF b]
  moreover have "slice b 0 8 = le_bytes 8 shared" "slice b 8 4 = le_bytes 4 (ucast (pageTableEntryCount l) :: u32)"
    "slice b 16 8 = le_bytes 8 (commandQueueOffset l)" "slice b 24 8 = le_bytes 8 (statusQueueOffset l)"
    using cached_arguments.fields_read [OF b] by (simp_all add: cached_argument_fields_def)
  ultimately show ?thesis
    by (auto simp: LoadLe_eq)
qed

text \<open>
  A planned queue layout (any page size above one byte) is a page table that holds all its
  entries, then the command queue, then the status queue, without wrap-around and in whole
  pages; the argument block is written inside its 72 bytes and reads back the shared address,
  the entry count and the two queue offsets.
\<close>
theorem PlanQueueMemory_spec:
  assumes "PlanQueueMemory queue page pte = Some l" and "page \<noteq> 1"
  shows "queue_layout_ok l \<and> queueBytes l = queue \<and>
    (\<exists>b. BuildCachedArguments l shared = Some b \<and> length b = 72 \<and>
      LoadLe64 b 0 = Some shared \<and> LoadLe32 b 8 = Some (ucast (pageTableEntryCount l)) \<and>
      LoadLe64 b 16 = Some (commandQueueOffset l) \<and> LoadLe64 b 24 = Some (statusQueueOffset l))"
  using PlanQueueMemory_ok [OF assms] BuildCachedArguments_reads by blast

text \<open>The pages of the table are counted before their own entries are added. With queues of 1 MiB the table has
  513 entries and so takes two pages: the memory has 514 pages, one more than the table has entries.\<close>

lemma PlanQueueMemory_short_table:
  "\<exists>l. PlanQueueMemory 0x100000 kGspPageBytes kGspPteBytes = Some l \<and>
    pageTableEntryCount l = 513 \<and> totalBytes l = 514 * 0x1000"
  by (simp add: PlanQueueMemory_def kGspPageBytes_def kGspPteBytes_def RoundUp_def)

theorem PlanQueueMemory_witness:
  "\<exists>l. PlanQueueMemory kDefaultQueueBytes kGspPageBytes kGspPteBytes = Some l \<and>
    queue_layout_ok l \<and> totalBytes l = 0x81000"
proof -
  let ?l = "\<lparr>queueBytes = 0x40000, pageBytes = 0x1000, pteBytes = 8, queuePageCount = 128,
    pageTableEntryCount = 129, pageTableBytes = 0x1000, commandQueueOffset = 0x1000,
    statusQueueOffset = 0x41000, totalBytes = 0x81000\<rparr>"
  have "PlanQueueMemory kDefaultQueueBytes kGspPageBytes kGspPteBytes = Some ?l"
    by (simp add: PlanQueueMemory_def kDefaultQueueBytes_def kGspPageBytes_def kGspPteBytes_def
        RoundUp_def)
  note plan = this
  have "kGspPageBytes \<noteq> 1" by (simp add: kGspPageBytes_def)
  from PlanQueueMemory_spec [OF plan this] have "queue_layout_ok ?l" by (rule conjunct1)
  with plan show ?thesis by (intro exI [of _ ?l] conjI) simp_all
qed

end
