(* ===== verification/GspRadix3.thy ===== *)
theory GspRadix3
  imports Layout
begin

text \<open>
  The radix-3 page tables of the GSP firmware image (\<open>src/core/gsp_radix3.cpp\<close>,
  \<open>include/rtxmac/gsp_radix3.hpp\<close>): the plan of the three table levels, the tables
  themselves and the complete allocation image. The reference property is the table walk: for
  every image page the three lookups of a walk from the root end at its physical address.
\<close>

section \<open>Operations\<close>

definition kRadixPageBytes :: u64 where "kRadixPageBytes = 4096"
definition kRadixEntriesPerPage :: u64 where "kRadixEntriesPerPage = 512"

text \<open>The two \<open>std::array\<close>s of four elements are lists, [root, level 1, level 2, image].\<close>

record Radix3Layout =
  pageCounts :: "u64 list"
  offsets :: "u64 list"
  tableBytes :: u64
  imageBytes :: u64
  allocationBytes :: u64
  allocationPages :: u64

definition CeilDiv :: "u64 \<Rightarrow> u64 \<Rightarrow> u64 option" where
  "CeilDiv v divisor =
     (if divisor = 0 then None else if v = 0 then Some 0 else Some (1 + (v - 1) div divisor))"

text \<open>The offset loop: \<open>cs\<close> are the page counts from index \<open>i\<close>; the last one is not added.\<close>

fun PlanRadix3_offsets :: "u64 list \<Rightarrow> u64 \<Rightarrow> u64 list option" where
  "PlanRadix3_offsets [] prefixPages = Some []"
| "PlanRadix3_offsets (c # cs) prefixPages =
     (if - 1 div kRadixPageBytes < prefixPages then None
      else let off = prefixPages * kRadixPageBytes
      in if cs = [] then Some [off]
         else if - 1 - c < prefixPages then None
         else do { offs \<leftarrow> PlanRadix3_offsets cs (prefixPages + c); Some (off # offs) })"

definition PlanRadix3 :: "u64 \<Rightarrow> Radix3Layout option" where
  "PlanRadix3 image' =
     (if image' = 0 then None
      else do {
        count3 \<leftarrow> CeilDiv image' kRadixPageBytes;
        count2 \<leftarrow> CeilDiv count3 kRadixEntriesPerPage;
        count1 \<leftarrow> CeilDiv count2 kRadixEntriesPerPage;
        count0 \<leftarrow> CeilDiv count1 kRadixEntriesPerPage;
        if count0 \<noteq> 1 then None
        else do {
          offs \<leftarrow> PlanRadix3_offsets [count0, count1, count2, count3] 0;
          let table = offs ! 3;
          if - 1 - image' < table then None
          else do {
            let allocation = table + image';
            pages \<leftarrow> CeilDiv allocation kRadixPageBytes;
            Some \<lparr>pageCounts = [count0, count1, count2, count3], offsets = offs,
                  tableBytes = table, imageBytes = image', allocationBytes = allocation,
                  allocationPages = pages\<rparr> } } })"

text \<open>The entry loop of one level, over the entry indices; outer \<open>None\<close> is an access outside
  the page list or the tables, inner \<open>None\<close> a rejection.\<close>

fun BuildRadix3Tables_entries ::
    "Radix3Layout \<Rightarrow> u64 list \<Rightarrow> u64 \<Rightarrow> u64 \<Rightarrow> nat list \<Rightarrow> byte list \<Rightarrow> byte list option option" where
  "BuildRadix3Tables_entries layout pages tableOffset childStartPage [] out = Some (Some out)"
| "BuildRadix3Tables_entries layout pages tableOffset childStartPage (i # is) out =
     (let byteOffset = tableOffset + of_nat i * 8
      in if tableBytes layout < byteOffset + 8 then Some None
         else do {
           pa \<leftarrow> rd pages (unat (childStartPage + of_nat i));
           out' \<leftarrow> StoreLe64 out (unat byteOffset) pa;
           BuildRadix3Tables_entries layout pages tableOffset childStartPage is out' })"

fun BuildRadix3Tables_levels ::
    "Radix3Layout \<Rightarrow> u64 list \<Rightarrow> nat list \<Rightarrow> u64 \<Rightarrow> byte list \<Rightarrow> byte list option option" where
  "BuildRadix3Tables_levels layout pages [] parentStartPage out = Some (Some out)"
| "BuildRadix3Tables_levels layout pages (level # levels) parentStartPage out =
     (let childStartPage = parentStartPage + pageCounts layout ! level;
          childCount = pageCounts layout ! (level + 1);
          parentCapacity = pageCounts layout ! level * kRadixEntriesPerPage
      in if parentCapacity < childCount \<or> of_nat (length pages) < childStartPage + childCount
         then Some None
         else do {
           r \<leftarrow> BuildRadix3Tables_entries layout pages (offsets layout ! level) childStartPage
                  [0 ..< unat childCount] out;
           case r of None \<Rightarrow> Some None
           | Some out' \<Rightarrow> BuildRadix3Tables_levels layout pages levels childStartPage out' })"

definition BuildRadix3Tables :: "Radix3Layout \<Rightarrow> u64 list \<Rightarrow> byte list option option" where
  "BuildRadix3Tables layout pages =
     (if pageCounts layout ! 0 \<noteq> 1 \<or> tableBytes layout \<noteq> offsets layout ! 3 then Some None
      else if SIZE_MAX < unat (tableBytes layout) then Some None
      else if length pages \<noteq> unat (allocationPages layout) then Some None
      else if \<exists>pa \<in> set pages. pa AND (kRadixPageBytes - 1) \<noteq> 0 then Some None
      else BuildRadix3Tables_levels layout pages [0, 1, 2] 0
             (replicate (unat (tableBytes layout)) 0))"

definition BuildRadix3AllocationImage ::
    "Radix3Layout \<Rightarrow> u64 list \<Rightarrow> byte list \<Rightarrow> byte list option option" where
  "BuildRadix3AllocationImage layout pages firmware =
     (if length firmware \<noteq> unat (imageBytes layout) then Some None
      else if - 1 div kRadixPageBytes < allocationPages layout then Some None
      else let paddedBytes = allocationPages layout * kRadixPageBytes
      in if SIZE_MAX < unat paddedBytes then Some None
      else if paddedBytes < offsets layout ! 3 \<or>
          paddedBytes - offsets layout ! 3 < imageBytes layout then Some None
      else do {
        tables \<leftarrow> BuildRadix3Tables layout pages;
        case tables of None \<Rightarrow> Some None
        | Some t \<Rightarrow>
          if length t \<noteq> unat (tableBytes layout) then Some None
          else do {
            out \<leftarrow> wr_seq (replicate (unat paddedBytes) 0) 0 t;
            out \<leftarrow> wr_seq out (unat (offsets layout ! 3)) firmware;
            Some (Some out) } })"

section \<open>The plan\<close>

lemma unat_CeilDiv:
  assumes "d \<noteq> 0"
  shows "\<exists>c. CeilDiv v d = Some c \<and> unat v \<le> unat c * unat d \<and> unat c \<le> unat v \<and>
    (v \<noteq> 0 \<longrightarrow> 0 < unat c \<and> (unat c - 1) * unat d < unat v)"
proof (cases "v = 0")
  case False
  have pos: "0 < unat d" "0 < unat v" using assms False by (simp_all add: unat_gt_0)
  define q where "q = (unat v - 1) div unat d"
  have q: "unat ((v - 1) div d) = q" using False by (simp add: unat_div_distrib unat_minus_one q_def)
  have "q \<le> unat v - 1" by (simp add: q_def)
  then have small: "1 + q < 2 ^ 64" "1 + q \<le> unat v" using pos unat_lt(4) [of v] by linarith+
  then have c: "unat (1 + (v - 1) div d) = 1 + q" by (subst unat_add_nowrap) (simp_all add: q)
  have lo: "q * unat d \<le> unat v - 1" by (simp add: q_def)
  have "unat v - 1 < q * unat d + unat d" unfolding q_def
    using pos by (metis add.commute dividend_less_div_times)
  then have "unat v \<le> (1 + q) * unat d" "(1 + q - 1) * unat d < unat v" "0 < 1 + q"
    using lo pos by (simp_all add: add_mult_distrib)
  then show ?thesis
    using assms False c small by (simp only: CeilDiv_def if_False) auto
qed (use assms in \<open>simp add: CeilDiv_def\<close>)

text \<open>A planned layout in plain numbers: one root page, every level has at most 512 children
  per page, the levels follow each other in whole pages, and the image is the last of them.\<close>

definition radix_ok :: "Radix3Layout \<Rightarrow> nat \<Rightarrow> nat \<Rightarrow> nat \<Rightarrow> bool" where
  "radix_ok l n1 n2 n3 \<longleftrightarrow>
     (\<exists>c1 c2 c3 o3. pageCounts l = [1, c1, c2, c3] \<and> offsets l = [0, 4096, (1 + c1) * 4096, o3] \<and>
       unat c1 = n1 \<and> unat c2 = n2 \<and> unat c3 = n3 \<and> unat ((1 + c1) * 4096) = (1 + n1) * 4096 \<and>
       unat o3 = (1 + n1 + n2) * 4096 \<and> tableBytes l = o3) \<and>
     0 < n1 \<and> n1 \<le> 512 \<and> n2 \<le> 512 * n1 \<and> n3 \<le> 512 * n2 \<and>
     0 < unat (imageBytes l) \<and> unat (imageBytes l) \<le> n3 * 4096 \<and>
     unat (allocationPages l) = 1 + n1 + n2 + n3"

lemma PlanRadix3_ok:
  assumes "PlanRadix3 image' = Some l"
  shows "imageBytes l = image' \<and> (\<exists>n1 n2 n3. radix_ok l n1 n2 n3)"
proof -
  have page: "kRadixPageBytes \<noteq> 0" "unat kRadixPageBytes = 4096"
    "kRadixEntriesPerPage \<noteq> 0" "unat kRadixEntriesPerPage = 512"
    by (simp_all add: kRadixPageBytes_def kRadixEntriesPerPage_def)
  have nz: "image' \<noteq> 0" using assms by (auto simp: PlanRadix3_def)
  obtain c3 where c3: "CeilDiv image' kRadixPageBytes = Some c3"
    "unat image' \<le> unat c3 * 4096" "0 < unat c3" "(unat c3 - 1) * 4096 < unat image'"
    using unat_CeilDiv [OF page(1), of image'] page nz by auto
  obtain c2 where c2: "CeilDiv c3 kRadixEntriesPerPage = Some c2" "unat c3 \<le> unat c2 * 512" "0 < unat c2"
    using unat_CeilDiv [OF page(3), of c3] page c3(3) by (auto simp: unat_gt_0)
  obtain c1 where c1: "CeilDiv c2 kRadixEntriesPerPage = Some c1" "unat c2 \<le> unat c1 * 512" "0 < unat c1"
    using unat_CeilDiv [OF page(3), of c2] page c2(3) by (auto simp: unat_gt_0)
  obtain c0 where c0: "CeilDiv c1 kRadixEntriesPerPage = Some c0" "unat c1 \<le> unat c0 * 512"
    using unat_CeilDiv [OF page(3), of c1] page by auto
  have one: "c0 = 1" using assms nz c0 c1 c2 c3 by (auto simp: PlanRadix3_def split: if_splits)
  have n1: "unat c1 \<le> 512" using c0(2) one by simp
  have n2: "unat c2 \<le> 262144" "unat c3 \<le> 134217728" using n1 c1(2) c2(2) by simp_all
  have s1: "unat (1 + c1) = 1 + unat c1" using n1 by (subst unat_add_nowrap) simp_all
  have s2: "unat (1 + c1 + c2) = 1 + unat c1 + unat c2"
    using n1 n2 s1 by (subst unat_add_nowrap) simp_all
  have o2: "unat ((1 + c1) * 4096) = (1 + unat c1) * 4096"
    using n1 s1 by (subst unat_mult_nowrap) simp_all
  have o3: "unat ((1 + c1 + c2) * 4096) = (1 + unat c1 + unat c2) * 4096"
    using n1 n2 s2 by (subst unat_mult_nowrap) simp_all
  have guards: "\<not> - 1 div kRadixPageBytes < x" "\<not> - 1 - y < x" if "unat x \<le> 2 ^ 20" "unat y \<le> 2 ^ 20" for x y
    using that by (simp_all add: kRadixPageBytes_def word_less_nat_alt unat_minus_one_sub)
  have offs: "PlanRadix3_offsets [1, c1, c2, c3] 0 = Some [0, 4096, (1 + c1) * 4096, (1 + c1 + c2) * 4096]"
    using guards [of 0 1] guards [of 1 c1] guards [of "1 + c1" c2] guards [of "1 + c1 + c2" 0] n1 n2 s1 s2
    by (simp add: kRadixPageBytes_def)
  have im: "unat image' \<le> 134217728 * 4096" using c3(2) n2 by simp
  have alloc: "unat ((1 + c1 + c2) * 4096 + image') = (1 + unat c1 + unat c2) * 4096 + unat image'"
    using o3 im n1 n2 by (subst unat_add_nowrap) simp_all
  define a where "a = (1 + c1 + c2) * 4096 + image'"
  obtain p where p: "CeilDiv a kRadixPageBytes = Some p" "unat a \<le> unat p * 4096"
    "a \<noteq> 0 \<longrightarrow> (unat p - 1) * 4096 < unat a"
    using unat_CeilDiv [OF page(1), of a] page by auto
  have "a \<noteq> 0" using alloc c1(3) by (auto simp: a_def word_unat_eq_iff)
  then have "unat p = 1 + unat c1 + unat c2 + unat c3"
    using p(2,3) alloc c3(2,3,4) unfolding a_def by simp
  moreover have "l = \<lparr>pageCounts = [1, c1, c2, c3],
      offsets = [0, 4096, (1 + c1) * 4096, (1 + c1 + c2) * 4096],
      tableBytes = (1 + c1 + c2) * 4096, imageBytes = image', allocationBytes = a,
      allocationPages = p\<rparr>"
    using assms nz c0(1) c1(1) c2(1) c3(1) one offs p(1)
    by (auto simp: PlanRadix3_def Let_def a_def split: if_splits)
  ultimately show ?thesis
    using o2 o3 n1 c1 c2 c3 nz unfolding radix_ok_def
    by (simp add: unat_gt_0)
qed

section \<open>The tables\<close>

lemma entries_spec:
  assumes "k \<le> n" and "unat tableOffset + 8 * n \<le> length out" and "length out = unat (tableBytes l)"
    and "unat childStart + n \<le> length pages" and "length pages < 2 ^ 60" "length out < 2 ^ 60"
  shows "BuildRadix3Tables_entries l pages tableOffset childStart [k ..< n] out =
    Some (Some (put out (unat tableOffset + 8 * k)
      (words_bytes (map (\<lambda>i. pages ! (unat childStart + i)) [k ..< n]))))"
  using assms
proof (induction "n - k" arbitrary: k out)
  case (Suc d)
  then have lt: "k < n" by simp
  have kb: "8 * k + 8 \<le> 8 * n" using lt by simp
  have ik: "unat (of_nat k * 8 :: u64) = 8 * k"
    using Suc.prems kb by (subst unat_mult_nowrap) (simp_all add: unat_of_nat_small)
  have bo: "unat (tableOffset + of_nat k * 8) = unat tableOffset + 8 * k"
    using Suc.prems kb ik by (subst unat_add_nowrap) simp_all
  have be: "unat (tableOffset + of_nat k * 8 + 8) = unat tableOffset + 8 * k + 8"
    using Suc.prems kb bo by (subst unat_add_nowrap) simp_all
  have cs: "unat (childStart + of_nat k) = unat childStart + k"
    using Suc.prems lt by (subst unat_add_nowrap) (simp_all add: unat_of_nat_small)
  have guard: "\<not> tableBytes l < tableOffset + of_nat k * 8 + 8"
    using Suc.prems kb be by (simp add: word_less_nat_alt)
  let ?pa = "pages ! (unat childStart + k)"
  let ?out = "put out (unat tableOffset + 8 * k) (le_bytes 8 ?pa)"
  let ?rest = "words_bytes (map (\<lambda>i. pages ! (unat childStart + i)) [Suc k ..< n])"
  have fits: "unat tableOffset + 8 * k + 8 \<le> length out" using Suc.prems kb by simp
  have step: "BuildRadix3Tables_entries l pages tableOffset childStart [k ..< n] out =
      BuildRadix3Tables_entries l pages tableOffset childStart [Suc k ..< n] ?out"
    using lt guard Suc.prems fits
    by (simp add: upt_conv_Cons Let_def cs bo rd_def mem_simps)
  have "BuildRadix3Tables_entries l pages tableOffset childStart [Suc k ..< n] ?out =
      Some (Some (put ?out (unat tableOffset + 8 * Suc k) ?rest))"
    using Suc.hyps(1) [of "Suc k" ?out] Suc.hyps(2) Suc.prems lt fits by simp
  moreover have "put ?out (unat tableOffset + 8 * Suc k) ?rest =
      put out (unat tableOffset + 8 * k) (le_bytes 8 ?pa @ ?rest)"
    using put_put_adjacent [of "unat tableOffset + 8 * k" "le_bytes 8 ?pa" ?rest out] Suc.prems lt
    by (simp add: add.assoc add.commute [of 8])
  ultimately show ?case unfolding step using lt by (simp add: upt_conv_Cons)
qed simp

text \<open>The tables of a planned layout: the physical pages of each child level in order.\<close>

definition radix_tables :: "nat \<Rightarrow> nat \<Rightarrow> nat \<Rightarrow> u64 list \<Rightarrow> byte list" where
  "radix_tables n1 n2 n3 pages =
     (let zero = replicate ((1 + n1 + n2) * 4096) 0;
          child = (\<lambda>start n. words_bytes (map (\<lambda>i. pages ! (start + i)) [0 ..< n]))
      in put (put (put zero 0 (child 1 n1)) 4096 (child (1 + n1) n2))
           ((1 + n1) * 4096) (child (1 + n1 + n2) n3))"

lemma page_aligned_iff: "(\<exists>pa \<in> set pages. pa AND (kRadixPageBytes - 1) \<noteq> 0) \<longleftrightarrow>
    \<not> (\<forall>pa \<in> set pages. 4096 dvd unat (pa :: u64))"
  by (auto simp: kRadixPageBytes_def mask_numerals and_mask_zero_iff)

lemma BuildRadix3Tables_planned:
  assumes ok: "radix_ok l n1 n2 n3"
  shows "BuildRadix3Tables l pages = Some (if length pages = 1 + n1 + n2 + n3 \<and>
      (\<forall>pa \<in> set pages. 4096 dvd unat pa) then Some (radix_tables n1 n2 n3 pages) else None)"
proof -
  obtain c1 c2 c3 o3 where l: "pageCounts l = [1, c1, c2, c3]"
    "offsets l = [0, 4096, (1 + c1) * 4096, o3]"
    "unat c1 = n1" "unat c2 = n2" "unat c3 = n3" "unat ((1 + c1) * 4096) = (1 + n1) * 4096"
    "unat o3 = (1 + n1 + n2) * 4096" "tableBytes l = o3"
    using ok by (auto simp: radix_ok_def)
  have b: "0 < n1" "n1 \<le> 512" "n2 \<le> 512 * n1" "n3 \<le> 512 * n2"
    "unat (allocationPages l) = 1 + n1 + n2 + n3"
    using ok by (auto simp: radix_ok_def)
  have big: "n2 \<le> 262144" "n3 \<le> 134217728" using b by simp_all
  have small: "\<not> SIZE_MAX < unat (tableBytes l)" using unat_lt(4) [of "tableBytes l"] by linarith
  show ?thesis
  proof (cases "length pages = 1 + n1 + n2 + n3 \<and> (\<forall>pa \<in> set pages. 4096 dvd unat pa)")
    case True
    then have len: "length pages = 1 + n1 + n2 + n3" by blast
    let ?zero = "replicate ((1 + n1 + n2) * 4096) 0 :: byte list"
    let ?child = "\<lambda>start n. words_bytes (map (\<lambda>i. pages ! (start + i)) [0 ..< n])"
    let ?o1 = "put ?zero 0 (?child 1 n1)"
    let ?o2 = "put ?o1 4096 (?child (1 + n1) n2)"
    have lens: "length ?o1 = (1 + n1 + n2) * 4096" "length ?o2 = (1 + n1 + n2) * 4096"
      using b by simp_all
    have tb: "unat (tableBytes l) = (1 + n1 + n2) * 4096" using l by simp
    have e1: "BuildRadix3Tables_entries l pages 0 1 [0 ..< n1] ?zero = Some (Some ?o1)"
      using entries_spec [of 0 n1 0 ?zero l 1 pages] b big len tb by simp
    have e2: "BuildRadix3Tables_entries l pages 4096 (1 + c1) [0 ..< n2] ?o1 = Some (Some ?o2)"
      using entries_spec [of 0 n2 4096 ?o1 l "1 + c1" pages] b big len tb lens l
      by (simp add: unat_add_nowrap)
    have s3: "unat (1 + c1 + c2) = 1 + n1 + n2" "unat (1 + c1) = 1 + n1"
      using b big l by (simp_all add: unat_add_nowrap)
    have e3: "BuildRadix3Tables_entries l pages ((1 + c1) * 4096) (1 + c1 + c2) [0 ..< n3] ?o2 =
        Some (Some (put ?o2 ((1 + n1) * 4096) (?child (1 + n1 + n2) n3)))"
      using entries_spec [of 0 n3 "(1 + c1) * 4096" ?o2 l "1 + c1 + c2" pages] b big len tb lens l s3
      by simp
    have caps: "\<not> 1 * kRadixEntriesPerPage < c1" "\<not> c1 * kRadixEntriesPerPage < c2"
      "\<not> c2 * kRadixEntriesPerPage < c3"
      using b big l by (simp_all add: word_less_nat_alt kRadixEntriesPerPage_def unat_mult_nowrap)
    have tots: "\<not> of_nat (length pages) < 1 + c1" "\<not> of_nat (length pages) < 1 + c1 + c2"
      "\<not> of_nat (length pages) < 1 + c1 + c2 + c3"
      using b big l s3 len by (simp_all add: word_less_nat_alt unat_of_nat_small unat_add_nowrap
          del: of_nat_add of_nat_Suc)
    have lv: "BuildRadix3Tables_levels l pages [0, 1, 2] 0 ?zero =
        Some (Some (radix_tables n1 n2 n3 pages))"
      using caps tots e1 e2 e3 l by (simp add: Let_def radix_tables_def numeral_3_eq_3)
    have "\<not> (\<exists>pa \<in> set pages. pa AND (kRadixPageBytes - 1) \<noteq> 0)"
      using True unfolding page_aligned_iff by blast
    with lv True small l b show ?thesis by (simp add: BuildRadix3Tables_def)
  next
    case False
    then have "length pages \<noteq> unat (allocationPages l) \<or>
        (\<exists>pa \<in> set pages. pa AND (kRadixPageBytes - 1) \<noteq> 0)"
      unfolding page_aligned_iff using b by argo
    then have "BuildRadix3Tables l pages = Some None" by (auto simp: BuildRadix3Tables_def)
    with False show ?thesis by auto
  qed
qed

lemma length_radix_tables:
  assumes "radix_ok l n1 n2 n3"
  shows "length (radix_tables n1 n2 n3 pages) = (1 + n1 + n2) * 4096"
  using assms by (auto simp: radix_tables_def Let_def radix_ok_def)

lemma LoadLe64_put_other:
  assumes "off + length vs \<le> length b" and "i + 8 \<le> off \<or> off + length vs \<le> i"
  shows "LoadLe64 (put b off vs) i = LoadLe64 b i"
  using assms by (simp add: LoadLe_eq)

lemma radix_tables_read:
  assumes "radix_ok l n1 n2 n3"
  shows "i < n1 \<Longrightarrow> LoadLe64 (radix_tables n1 n2 n3 pages) (8 * i) = Some (pages ! (1 + i))"
    and "i < n2 \<Longrightarrow> LoadLe64 (radix_tables n1 n2 n3 pages) (4096 + 8 * i) = Some (pages ! (1 + n1 + i))"
    and "i < n3 \<Longrightarrow> LoadLe64 (radix_tables n1 n2 n3 pages) ((1 + n1) * 4096 + 8 * i) =
      Some (pages ! (1 + n1 + n2 + i))"
proof -
  have b: "n1 \<le> 512" "n2 \<le> 512 * n1" "n3 \<le> 512 * n2" using assms by (auto simp: radix_ok_def)
  let ?zero = "replicate ((1 + n1 + n2) * 4096) 0 :: byte list"
  let ?child = "\<lambda>start n. words_bytes (map (\<lambda>i. pages ! (start + i)) [0 ..< n])"
  let ?o1 = "put ?zero 0 (?child 1 n1)"
  let ?o2 = "put ?o1 4096 (?child (1 + n1) n2)"
  have lens: "length ?o1 = (1 + n1 + n2) * 4096" "length ?o2 = (1 + n1 + n2) * 4096"
    using b by simp_all
  have t: "radix_tables n1 n2 n3 pages = put ?o2 ((1 + n1) * 4096) (?child (1 + n1 + n2) n3)"
    by (simp only: radix_tables_def Let_def)
  show "LoadLe64 (radix_tables n1 n2 n3 pages) (8 * i) = Some (pages ! (1 + i))" if "i < n1"
  proof -
    have "LoadLe64 (radix_tables n1 n2 n3 pages) (8 * i) = LoadLe64 ?o1 (8 * i)"
      unfolding t using that b lens by (simp add: LoadLe64_put_other)
    also have "\<dots> = Some (pages ! (1 + i))"
      using LoadLe64_words [of 0 "map (\<lambda>i. pages ! (1 + i)) [0 ..< n1]" ?zero i] that b by simp
    finally show ?thesis .
  qed
  show "LoadLe64 (radix_tables n1 n2 n3 pages) (4096 + 8 * i) = Some (pages ! (1 + n1 + i))"
    if "i < n2"
  proof -
    have "LoadLe64 (radix_tables n1 n2 n3 pages) (4096 + 8 * i) = LoadLe64 ?o2 (4096 + 8 * i)"
      unfolding t using that b lens by (simp add: LoadLe64_put_other)
    also have "\<dots> = Some (pages ! (1 + n1 + i))"
      using LoadLe64_words [of 4096 "map (\<lambda>i. pages ! (1 + n1 + i)) [0 ..< n2]" ?o1 i] that b lens
      by simp
    finally show ?thesis .
  qed
  show "LoadLe64 (radix_tables n1 n2 n3 pages) ((1 + n1) * 4096 + 8 * i) =
      Some (pages ! (1 + n1 + n2 + i))" if "i < n3"
    unfolding t
    using LoadLe64_words [of "(1 + n1) * 4096" "map (\<lambda>i. pages ! (1 + n1 + n2 + i)) [0 ..< n3]" ?o2 i]
      that b lens by simp
qed

section \<open>The allocation image\<close>

lemma BuildRadix3AllocationImage_planned:
  assumes ok: "radix_ok l n1 n2 n3"
  shows "BuildRadix3AllocationImage l pages fw = Some (if length fw = unat (imageBytes l) \<and>
      length pages = 1 + n1 + n2 + n3 \<and> (\<forall>pa \<in> set pages. 4096 dvd unat pa)
    then Some (radix_tables n1 n2 n3 pages @ fw @ replicate (n3 * 4096 - length fw) 0) else None)"
proof (cases "length fw = unat (imageBytes l)")
  case False
  then show ?thesis by (simp add: BuildRadix3AllocationImage_def)
next
  case fw: True
  obtain c1 o3 where l0: "offsets l = [0, 4096, (1 + c1) * 4096, o3]" "unat o3 = (1 + n1 + n2) * 4096"
    "tableBytes l = o3"
    using ok unfolding radix_ok_def by blast
  then have l: "offsets l ! 3 = o3" "unat o3 = (1 + n1 + n2) * 4096" "tableBytes l = o3"
    by (simp_all add: numeral_3_eq_3)
  have b: "n1 \<le> 512" "n2 \<le> 512 * n1" "n3 \<le> 512 * n2" "unat (imageBytes l) \<le> n3 * 4096"
    "unat (allocationPages l) = 1 + n1 + n2 + n3"
    using ok by (auto simp: radix_ok_def)
  have pad: "unat (allocationPages l * kRadixPageBytes) = (1 + n1 + n2 + n3) * 4096"
    using b by (subst unat_mult_nowrap) (simp_all add: kRadixPageBytes_def)
  have g: "\<not> - 1 div kRadixPageBytes < allocationPages l"
    using b by (simp add: kRadixPageBytes_def word_less_nat_alt)
  have g2: "\<not> SIZE_MAX < (1 + n1 + n2 + n3) * 4096" using b by simp
  have le: "o3 \<le> allocationPages l * kRadixPageBytes"
    unfolding word_le_nat_alt pad l(2) by simp
  then have g3: "\<not> allocationPages l * kRadixPageBytes < o3" by (simp add: not_less)
  have g4: "\<not> allocationPages l * kRadixPageBytes - o3 < imageBytes l"
    unfolding sub_less_iff [OF le] pad l(2) using b by simp
  let ?t = "radix_tables n1 n2 n3 pages"
  let ?zero = "replicate ((1 + n1 + n2 + n3) * 4096) 0 :: byte list"
  note len = length_radix_tables [OF ok, of pages]
  have o1: "wr_seq ?zero 0 ?t = Some (put ?zero 0 ?t)" by (simp add: mem_simps len)
  have o2: "wr_seq (put ?zero 0 ?t) ((1 + n1 + n2) * 4096) fw =
      Some (put (put ?zero 0 ?t) ((1 + n1 + n2) * 4096) fw)"
    using b fw len by (simp add: mem_simps)
  have flat: "put (put ?zero 0 ?t) ((1 + n1 + n2) * 4096) fw = ?t @ fw @ replicate (n3 * 4096 - length fw) 0"
    using b fw len by (simp add: put_def)
  have lt: "length ?t = unat (tableBytes l)" using len l by simp
  have eq: "BuildRadix3AllocationImage l pages fw = do {
      tables \<leftarrow> BuildRadix3Tables l pages;
      case tables of None \<Rightarrow> Some None
      | Some t \<Rightarrow> if length t \<noteq> unat (tableBytes l) then Some None
        else do { out \<leftarrow> wr_seq ?zero 0 t;
          out \<leftarrow> wr_seq out ((1 + n1 + n2) * 4096) fw; Some (Some out) } }"
    unfolding BuildRadix3AllocationImage_def Let_def l(1)
    by (simp only: fw g g2 g3 g4 pad l(2) simp_thms if_False)
  show ?thesis
  proof (cases "length pages = 1 + n1 + n2 + n3 \<and> (\<forall>pa \<in> set pages. 4096 dvd unat pa)")
    case True
    have "BuildRadix3AllocationImage l pages fw =
        Some (Some (?t @ fw @ replicate (n3 * 4096 - length fw) 0))"
      unfolding eq BuildRadix3Tables_planned [OF ok] if_P [OF True]
      by (simp only: simp_thms if_False Option.bind.simps option.case lt o1 o2 flat)
    with True fw show ?thesis by simp
  next
    case False
    have "BuildRadix3AllocationImage l pages fw = Some None"
      unfolding eq BuildRadix3Tables_planned [OF ok] if_not_P [OF False]
      by (simp only: Option.bind.simps option.case)
    with False fw show ?thesis by auto
  qed
qed

text \<open>One lookup of a table walk: entry \<open>e\<close> of the page with number \<open>p\<close>.\<close>

definition radix_entry :: "byte list \<Rightarrow> nat \<Rightarrow> nat \<Rightarrow> u64 option" where
  "radix_entry out p e = LoadLe64 out (p * 4096 + 8 * e)"

lemma radix3_reads:
  assumes "PlanRadix3 image' = Some l"
    and "BuildRadix3AllocationImage l pages fw = Some (Some out)"
    and "k < unat (pageCounts l ! 3)"
  shows "radix_entry out 0 (k div 2 ^ 18) = Some (pages ! (1 + k div 2 ^ 18)) \<and>
    radix_entry out (1 + k div 2 ^ 18) (k div 512 mod 512) =
      Some (pages ! (1 + unat (pageCounts l ! 1) + k div 512)) \<and>
    radix_entry out (1 + unat (pageCounts l ! 1) + k div 512) (k mod 512) =
      Some (pages ! (1 + unat (pageCounts l ! 1) + unat (pageCounts l ! 2) + k)) \<and>
    slice out ((1 + unat (pageCounts l ! 1) + unat (pageCounts l ! 2)) * 4096) (length fw) = fw \<and>
    length fw = unat image' \<and> length out = length pages * 4096"
proof -
  obtain n1 n2 n3 where ok: "radix_ok l n1 n2 n3" and im: "imageBytes l = image'"
    using PlanRadix3_ok [OF assms(1)] by blast
  have counts: "unat (pageCounts l ! 1) = n1" "unat (pageCounts l ! 2) = n2" "unat (pageCounts l ! 3) = n3"
    using ok by (auto simp: radix_ok_def numeral_3_eq_3)
  have b: "n1 \<le> 512" "n2 \<le> 512 * n1" "n3 \<le> 512 * n2" "unat (imageBytes l) \<le> n3 * 4096"
    using ok by (auto simp: radix_ok_def)
  have k: "k < n3" using assms(3) counts by simp
  have ks: "k div 512 < n2" "k div 2 ^ 18 < n1"
    using k b by (simp_all add: div_less_iff_less_mult)
  let ?t = "radix_tables n1 n2 n3 pages"
  have fw: "length fw = unat image'" and len: "length pages = 1 + n1 + n2 + n3"
    and out: "out = ?t @ fw @ replicate (n3 * 4096 - length fw) 0"
    using assms(2) im unfolding BuildRadix3AllocationImage_planned [OF ok]
    by (auto split: if_splits)
  note lt = length_radix_tables [OF ok, of pages]
  have pre: "LoadLe64 out i = LoadLe64 ?t i" if "i + 8 \<le> (1 + n1 + n2) * 4096" for i
    using that lt by (simp add: LoadLe_eq out slice_def)
  have q: "k div 512 = 512 * (k div 2 ^ 18) + k div 512 mod 512"
  proof -
    have "k div 2 ^ 18 = k div 512 div 512" using div_mult2_eq [of k 512 512] by simp
    then show ?thesis by simp
  qed
  have r: "k = 512 * (k div 512) + k mod 512" by simp
  have p1: "(1 + k div 2 ^ 18) * 4096 + 8 * (k div 512 mod 512) = 4096 + 8 * (k div 512)"
    using q by simp
  have p2: "(1 + n1 + k div 512) * 4096 + 8 * (k mod 512) = (1 + n1) * 4096 + 8 * k"
    using r by (simp only: add_mult_distrib)
  have e0: "radix_entry out 0 (k div 2 ^ 18) = Some (pages ! (1 + k div 2 ^ 18))"
    using radix_tables_read(1) [OF ok ks(2)] pre [of "8 * (k div 2 ^ 18)"] ks b
    by (simp add: radix_entry_def)
  have e1: "radix_entry out (1 + k div 2 ^ 18) (k div 512 mod 512) =
      Some (pages ! (1 + n1 + k div 512))"
    unfolding radix_entry_def p1
    using radix_tables_read(2) [OF ok ks(1)] pre [of "4096 + 8 * (k div 512)"] ks b by simp
  have e2: "radix_entry out (1 + n1 + k div 512) (k mod 512) = Some (pages ! (1 + n1 + n2 + k))"
    unfolding radix_entry_def p2
    using radix_tables_read(3) [OF ok k] pre [of "(1 + n1) * 4096 + 8 * k"] k b by simp
  have "slice out ((1 + n1 + n2) * 4096) (length fw) = fw"
    using lt by (simp add: out slice_def)
  moreover have "length out = length pages * 4096"
    using lt b fw im by (simp add: out len)
  ultimately show ?thesis unfolding counts using e0 e1 e2 fw by blast
qed

text \<open>
  C25. The allocation image of a planned layout never leaves its buffers. When it is built, a
  walk for image page \<open>k\<close> starts at the root page and each entry holds the physical address of
  the page the next lookup reads, so that the last one is the physical address of image page
  \<open>k\<close>, and the firmware lies at that page.
\<close>
theorem radix3_walk:
  assumes "PlanRadix3 image' = Some l"
    and "BuildRadix3AllocationImage l pages fw = Some (Some out)"
    and "k < unat (pageCounts l ! 3)"
  shows "radix_entry out 0 (k div 2 ^ 18) = Some (pages ! (1 + k div 2 ^ 18)) \<and>
    radix_entry out (1 + k div 2 ^ 18) (k div 512 mod 512) =
      Some (pages ! (1 + unat (pageCounts l ! 1) + k div 512)) \<and>
    radix_entry out (1 + unat (pageCounts l ! 1) + k div 512) (k mod 512) =
      Some (pages ! (1 + unat (pageCounts l ! 1) + unat (pageCounts l ! 2) + k)) \<and>
    slice out ((1 + unat (pageCounts l ! 1) + unat (pageCounts l ! 2)) * 4096) (length fw) = fw \<and>
    length fw = unat image' \<and> length out = length pages * 4096"
  using assms by (rule radix3_reads)

theorem radix3_walk_witness:
  "\<exists>l out. PlanRadix3 3 = Some l \<and>
    BuildRadix3AllocationImage l [0x1000, 0x2000, 0x3000, 0x9000] [7, 8, 9] = Some (Some out) \<and>
    radix_entry out 2 0 = Some 0x9000"
proof -
  let ?l = "\<lparr>pageCounts = [1, 1, 1, 1], offsets = [0, 4096, 8192, 12288], tableBytes = 12288,
    imageBytes = 3, allocationBytes = 12291, allocationPages = 4\<rparr>"
  have plan: "PlanRadix3 3 = Some ?l"
    by (simp add: PlanRadix3_def CeilDiv_def kRadixPageBytes_def kRadixEntriesPerPage_def)
  have ok: "radix_ok ?l 1 1 1" by (simp add: radix_ok_def)
  have "BuildRadix3AllocationImage ?l [0x1000, 0x2000, 0x3000, 0x9000] [7, 8, 9] \<noteq> Some None"
    "BuildRadix3AllocationImage ?l [0x1000, 0x2000, 0x3000, 0x9000] [7, 8, 9] \<noteq> None"
    unfolding BuildRadix3AllocationImage_planned [OF ok] by simp_all
  then obtain out where out:
    "BuildRadix3AllocationImage ?l [0x1000, 0x2000, 0x3000, 0x9000] [7, 8, 9] = Some (Some out)"
    by auto
  from radix3_walk [OF plan out, of 0] plan out show ?thesis
    by (auto simp: numeral_3_eq_3 numeral_2_eq_2)
qed

end
