(* ===== verification/GspWpr.thy ===== *)
theory GspWpr
  imports Layout
begin

text \<open>
  GSP boot metadata (\<open>src/core/gsp_metadata.cpp\<close>, \<open>include/rtxmac/gsp_metadata.hpp\<close>): the
  layout of the write-protected region (WPR) at the top of video memory, its 256-byte
  metadata block and the LIBOS initialisation page.
\<close>

section \<open>Operations\<close>

definition kKiB128 :: u64 where "kKiB128 = 0x20000"
definition kKiB64 :: u64 where "kKiB64 = 0x10000"
definition kKiB4 :: u64 where "kKiB4 = 0x1000"
definition kMiB :: u64 where "kMiB = 0x100000"
definition kWprMetaMagic :: u64 where "kWprMetaMagic = 0xdc3aae21371a60b3"
definition kWprMetaRevision :: u64 where "kWprMetaRevision = 1"
definition kWprMetaBytes :: nat where "kWprMetaBytes = 256"
definition kLibosInitPageBytes :: nat where "kLibosInitPageBytes = 4096"
definition kLibosRegionBytes :: nat where "kLibosRegionBytes = 32"
definition kLibosRegionCapacity :: nat where
  "kLibosRegionCapacity = kLibosInitPageBytes div kLibosRegionBytes"

lemmas wpr_consts = kKiB128_def kKiB64_def kKiB4_def kMiB_def kWprMetaMagic_def
  kWprMetaRevision_def kWprMetaBytes_def kLibosInitPageBytes_def kLibosRegionBytes_def
  kLibosRegionCapacity_def

record WprLayoutInputs =
  fbSize :: u64
  vgaWorkspaceOffset :: u64
  vbiosReservedOffset :: u64
  wprEndMargin :: u64
  frtsSize :: u64
  bootloaderSize :: u64
  radix3ElfSize :: u64
  nonWprHeapSize :: u64
  requestedWprHeapSize :: u64

record WprLayout =
  fbSize :: u64
  vgaWorkspaceOffset :: u64
  vgaWorkspaceSize :: u64
  gspFwRsvdStart :: u64
  nonWprHeapOffset :: u64
  nonWprHeapSize :: u64
  gspFwWprStart :: u64
  gspFwHeapOffset :: u64
  gspFwHeapSize :: u64
  gspFwOffset :: u64
  bootBinOffset :: u64
  frtsOffset :: u64
  frtsSize :: u64
  gspFwWprEnd :: u64
  sizeOfRadix3Elf :: u64
  sizeOfBootloader :: u64

definition AlignDown :: "u64 \<Rightarrow> u64 \<Rightarrow> u64" where
  "AlignDown v al = (if al = 0 then 0 else v - v mod al)"

definition AlignUp :: "u64 \<Rightarrow> u64 \<Rightarrow> u64 option" where
  "AlignUp v al =
     (if al = 0 then None
      else let rem = v mod al
      in if rem = 0 then Some v
         else let add = al - rem
         in if - 1 - add < v then None else Some (v + add))"

definition Sub :: "u64 \<Rightarrow> u64 \<Rightarrow> u64 option" where
  "Sub a b = (if a < b then None else Some (a - b))"

definition PlanWprLayout :: "WprLayoutInputs \<Rightarrow> WprLayout option" where
  "PlanWprLayout i =
     (let fb = WprLayoutInputs.fbSize i; vga = WprLayoutInputs.vgaWorkspaceOffset i;
          vbios = vbiosReservedOffset i
      in if fb = 0 \<or> fb < vga \<or> fb < vbios then None
      else if bootloaderSize i = 0 \<or> radix3ElfSize i = 0 \<or> requestedWprHeapSize i = 0 then None
      else if vbios < wprEndMargin i then None
      else do {
        let wprEnd = AlignDown (vbios - wprEndMargin i) kKiB128;
        frts \<leftarrow> Sub wprEnd (WprLayoutInputs.frtsSize i);
        cursor \<leftarrow> Sub frts (bootloaderSize i);
        let bootBin = AlignDown cursor kKiB4;
        cursor \<leftarrow> Sub bootBin (radix3ElfSize i);
        let fwOffset = AlignDown cursor kKiB64;
        nonWprAligned \<leftarrow> AlignUp (WprLayoutInputs.nonWprHeapSize i) kMiB;
        cursor \<leftarrow> Sub fwOffset (requestedWprHeapSize i);
        let heapOffset = AlignDown cursor kMiB;
        let heapSize = AlignDown (fwOffset - heapOffset) kMiB;
        if heapSize = 0 then None
        else do {
          wprStart \<leftarrow> Sub heapOffset kMiB;
          nonWprOffset \<leftarrow> Sub wprStart nonWprAligned;
          if \<not> (nonWprOffset \<le> wprStart \<and> wprStart \<le> heapOffset \<and> heapOffset < fwOffset \<and>
              fwOffset < bootBin \<and> bootBin \<le> frts \<and> frts \<le> wprEnd \<and> wprEnd \<le> vbios \<and> vbios \<le> fb)
          then None
          else Some \<lparr>WprLayout.fbSize = fb, vgaWorkspaceOffset = vga, vgaWorkspaceSize = fb - vga,
            gspFwRsvdStart = nonWprOffset, nonWprHeapOffset = nonWprOffset,
            nonWprHeapSize = nonWprAligned, gspFwWprStart = wprStart, gspFwHeapOffset = heapOffset,
            gspFwHeapSize = heapSize, gspFwOffset = fwOffset, bootBinOffset = bootBin,
            frtsOffset = frts, frtsSize = WprLayoutInputs.frtsSize i, gspFwWprEnd = wprEnd,
            sizeOfRadix3Elf = radix3ElfSize i, sizeOfBootloader = bootloaderSize i\<rparr> } })"

record WprMetaInputs =
  layout :: WprLayout
  sysmemAddrOfRadix3Elf :: u64
  sysmemAddrOfBootloader :: u64
  bootloaderCodeOffset :: u64
  bootloaderDataOffset :: u64
  bootloaderManifestOffset :: u64
  sysmemAddrOfSignature :: u64
  sizeOfSignature :: u64
  gspFwHeapVfPartitionCount :: byte
  flags :: byte
  pmuReservedSize :: u32

definition wpr_meta_fields :: "WprMetaInputs \<Rightarrow> store list" where
  "wpr_meta_fields i =
    [st64 0 kWprMetaMagic, st64 8 kWprMetaRevision,
     st64 16 (sysmemAddrOfRadix3Elf i), st64 24 (sizeOfRadix3Elf (layout i)),
     st64 32 (sysmemAddrOfBootloader i), st64 40 (sizeOfBootloader (layout i)),
     st64 48 (bootloaderCodeOffset i), st64 56 (bootloaderDataOffset i),
     st64 64 (bootloaderManifestOffset i), st64 72 (sysmemAddrOfSignature i),
     st64 80 (sizeOfSignature i), st64 88 (gspFwRsvdStart (layout i)),
     st64 96 (nonWprHeapOffset (layout i)), st64 104 (WprLayout.nonWprHeapSize (layout i)),
     st64 112 (gspFwWprStart (layout i)), st64 120 (gspFwHeapOffset (layout i)),
     st64 128 (gspFwHeapSize (layout i)), st64 136 (gspFwOffset (layout i)),
     st64 144 (bootBinOffset (layout i)), st64 152 (frtsOffset (layout i)),
     st64 160 (WprLayout.frtsSize (layout i)), st64 168 (gspFwWprEnd (layout i)),
     st64 176 (WprLayout.fbSize (layout i)), st64 184 (WprLayout.vgaWorkspaceOffset (layout i)),
     st64 192 (vgaWorkspaceSize (layout i)), st64 200 0,
     st8 240 (gspFwHeapVfPartitionCount i), st8 241 (flags i),
     st32 244 (pmuReservedSize i), st64 248 0]"

definition BuildWprMeta :: "WprMetaInputs \<Rightarrow> byte list option" where
  "BuildWprMeta i = write_all (replicate kWprMetaBytes 0) (wpr_meta_fields i)"

record LibosRegion =
  id' :: "byte list"
  physicalAddress :: u64
  size' :: u64
  kind :: byte
  location :: byte

definition MakeLibosId8 :: "byte list \<Rightarrow> u64 option" where
  "MakeLibosId8 s =
     (if s = [] \<or> 8 < length s then None
      else Some (foldl (\<lambda>out c. push_bit 8 out OR ucast c) 0 s))"

definition libos_region_stores :: "nat \<Rightarrow> u64 \<Rightarrow> LibosRegion \<Rightarrow> store list" where
  "libos_region_stores off id8 r =
    [st64 (off + 0) id8, st64 (off + 8) (physicalAddress r), st64 (off + 16) (size' r),
     st8 (off + 24) (kind r), st8 (off + 25) (location r)]"

fun BuildLibosInitPage_loop :: "nat \<Rightarrow> LibosRegion list \<Rightarrow> byte list \<Rightarrow> byte list option option" where
  "BuildLibosInitPage_loop i [] out = Some (Some out)"
| "BuildLibosInitPage_loop i (r # rs) out =
     (case MakeLibosId8 (id' r) of None \<Rightarrow> Some None
      | Some id8 \<Rightarrow>
        if size' r = 0 then Some None
        else do {
          out' \<leftarrow> write_all out (libos_region_stores (i * kLibosRegionBytes) id8 r);
          BuildLibosInitPage_loop (Suc i) rs out' })"

definition BuildLibosInitPage :: "LibosRegion list \<Rightarrow> byte list option option" where
  "BuildLibosInitPage regions =
     (if kLibosRegionCapacity < length regions then Some None
      else BuildLibosInitPage_loop 0 regions (replicate kLibosInitPageBytes 0))"

section \<open>The layout of the protected region\<close>

lemma unat_AlignDown:
  "al \<noteq> 0 \<Longrightarrow> unat (AlignDown v al) = unat v - unat v mod unat al"
proof -
  assume "al \<noteq> 0"
  moreover have "v mod al \<le> v" by (simp add: word_le_nat_alt unat_mod_distrib)
  ultimately show ?thesis by (simp add: AlignDown_def unat_sub unat_mod_distrib)
qed

lemma Sub_Some_iff: "Sub a b = Some c \<longleftrightarrow> unat a = unat b + unat c"
proof
  assume "Sub a b = Some c"
  then show "unat a = unat b + unat c"
    by (auto simp: Sub_def not_less word_le_nat_alt unat_sub split: if_splits)
next
  assume eq: "unat a = unat b + unat c"
  then have le: "b \<le> a" by (simp add: word_le_nat_alt)
  have "unat (a - b) = unat c" using eq by (simp add: unat_sub [OF le])
  with le show "Sub a b = Some c" by (simp add: Sub_def not_less word_unat_eq_iff)
qed

lemma AlignUp_Some:
  assumes "AlignUp v al = Some w"
  shows "unat v \<le> unat w \<and> unat w < unat v + unat al \<and> unat al dvd unat w"
proof -
  have nz: "al \<noteq> 0" using assms by (auto simp: AlignUp_def)
  have pos: "0 < unat al" using nz by (simp add: unat_gt_0)
  show ?thesis
  proof (cases "v mod al = 0")
    case True
    then show ?thesis using assms nz pos by (auto simp: AlignUp_def word_mod_eq_0_iff)
  next
    case False
    have "v mod al < al" using nz by (simp add: word_less_nat_alt unat_mod_distrib pos)
    then have d: "unat (al - v mod al) = unat al - unat v mod unat al"
      by (simp add: unat_sub unat_mod_distrib)
    have w: "w = v + (al - v mod al)" "\<not> - 1 - (al - v mod al) < v"
      using assms nz False by (auto simp: AlignUp_def Let_def split: if_splits)
    then have "unat w = unat v + (unat al - unat v mod unat al)"
      using d by (simp only: add_guard64 not_le unat_add_nowrap len_words)
    moreover have "unat v mod unat al \<noteq> 0" using False by (simp add: word_mod_eq_0_iff mod_eq_0_iff_dvd)
    moreover have "unat v mod unat al < unat al" using pos by simp
    moreover have "unat al dvd unat v + (unat al - unat v mod unat al)"
    proof -
      have "unat v + (unat al - unat v mod unat al) = unat v - unat v mod unat al + unat al"
        using \<open>unat v mod unat al < unat al\<close> by (simp add: less_imp_le)
      then show ?thesis by (simp add: minus_mod_eq_div_mult)
    qed
    ultimately show ?thesis by simp
  qed
qed

text \<open>The layout in plain numbers, from the bottom up: the non-protected heap, the metadata
  MiB, the heap, the firmware, the boot loader, the FRTS region and the end of the region.
  Every piece fits below the next one and starts on its alignment.\<close>

definition wpr_ok :: "WprLayoutInputs \<Rightarrow> WprLayout \<Rightarrow> bool" where
  "wpr_ok i l \<longleftrightarrow>
     unat (gspFwRsvdStart l) = unat (nonWprHeapOffset l) \<and>
     unat (nonWprHeapOffset l) + unat (WprLayout.nonWprHeapSize l) = unat (gspFwWprStart l) \<and>
     unat (WprLayoutInputs.nonWprHeapSize i) \<le> unat (WprLayout.nonWprHeapSize l) \<and>
     2 ^ 20 dvd unat (WprLayout.nonWprHeapSize l) \<and>
     unat (gspFwWprStart l) + 2 ^ 20 = unat (gspFwHeapOffset l) \<and>
     2 ^ 20 dvd unat (gspFwHeapOffset l) \<and> 2 ^ 20 dvd unat (gspFwHeapSize l) \<and>
     0 < unat (gspFwHeapSize l) \<and>
     unat (requestedWprHeapSize i) < unat (gspFwHeapSize l) + 2 ^ 20 \<and>
     unat (gspFwHeapOffset l) + unat (gspFwHeapSize l) \<le> unat (gspFwOffset l) \<and>
     2 ^ 16 dvd unat (gspFwOffset l) \<and>
     unat (gspFwOffset l) + unat (radix3ElfSize i) \<le> unat (bootBinOffset l) \<and>
     2 ^ 12 dvd unat (bootBinOffset l) \<and>
     unat (bootBinOffset l) + unat (bootloaderSize i) \<le> unat (frtsOffset l) \<and>
     unat (frtsOffset l) + unat (WprLayoutInputs.frtsSize i) = unat (gspFwWprEnd l) \<and>
     2 ^ 17 dvd unat (gspFwWprEnd l) \<and>
     unat (gspFwWprEnd l) + unat (wprEndMargin i) \<le> unat (vbiosReservedOffset i) \<and>
     unat (vbiosReservedOffset i) < unat (gspFwWprEnd l) + unat (wprEndMargin i) + 2 ^ 17 \<and>
     unat (vbiosReservedOffset i) \<le> unat (WprLayoutInputs.fbSize i) \<and>
     WprLayout.fbSize l = WprLayoutInputs.fbSize i \<and>
     WprLayout.frtsSize l = WprLayoutInputs.frtsSize i \<and>
     sizeOfRadix3Elf l = radix3ElfSize i \<and> sizeOfBootloader l = bootloaderSize i"

lemma align_down_nat:
  "0 < (a :: nat) \<Longrightarrow> a dvd n - n mod a \<and> n - n mod a \<le> n \<and> n < n - n mod a + a"
proof -
  assume a: "0 < a"
  then have "n mod a < a" by simp
  moreover have "n mod a \<le> n" by simp
  ultimately show ?thesis by (simp add: minus_mod_eq_div_mult [symmetric] dvd_minus_mod)
qed

lemma PlanWprLayout_ok:
  assumes "PlanWprLayout i = Some l"
  shows "wpr_ok i l"
proof -
  have c: "kKiB128 \<noteq> 0" "kKiB64 \<noteq> 0" "kKiB4 \<noteq> 0" "kMiB \<noteq> 0" "unat kKiB128 = 2 ^ 17"
    "unat kKiB64 = 2 ^ 16" "unat kKiB4 = 2 ^ 12" "unat kMiB = 2 ^ 20"
    by (simp_all add: wpr_consts)
  define wprEnd where "wprEnd = AlignDown (vbiosReservedOffset i - wprEndMargin i) kKiB128"
  have margin: "wprEndMargin i \<le> vbiosReservedOffset i"
    and fb: "vbiosReservedOffset i \<le> WprLayoutInputs.fbSize i"
    using assms by (auto simp: PlanWprLayout_def Let_def not_less split: if_splits)
  obtain frts c1 c2 nonWpr c3 wprStart nonWprOffset bootBin fwOffset heapOffset heapSize where
    s: "Sub wprEnd (WprLayoutInputs.frtsSize i) = Some frts"
    "Sub frts (bootloaderSize i) = Some c1" "bootBin = AlignDown c1 kKiB4"
    "Sub bootBin (radix3ElfSize i) = Some c2" "fwOffset = AlignDown c2 kKiB64"
    "AlignUp (WprLayoutInputs.nonWprHeapSize i) kMiB = Some nonWpr"
    "Sub fwOffset (requestedWprHeapSize i) = Some c3" "heapOffset = AlignDown c3 kMiB"
    "heapSize = AlignDown (fwOffset - heapOffset) kMiB" "heapSize \<noteq> 0"
    "Sub heapOffset kMiB = Some wprStart" "Sub wprStart nonWpr = Some nonWprOffset"
    "heapOffset < fwOffset"
    and l: "l = \<lparr>WprLayout.fbSize = WprLayoutInputs.fbSize i,
      vgaWorkspaceOffset = WprLayoutInputs.vgaWorkspaceOffset i,
      vgaWorkspaceSize = WprLayoutInputs.fbSize i - WprLayoutInputs.vgaWorkspaceOffset i,
      gspFwRsvdStart = nonWprOffset, nonWprHeapOffset = nonWprOffset,
      nonWprHeapSize = nonWpr, gspFwWprStart = wprStart, gspFwHeapOffset = heapOffset,
      gspFwHeapSize = heapSize, gspFwOffset = fwOffset, bootBinOffset = bootBin,
      frtsOffset = frts, frtsSize = WprLayoutInputs.frtsSize i, gspFwWprEnd = wprEnd,
      sizeOfRadix3Elf = radix3ElfSize i, sizeOfBootloader = bootloaderSize i\<rparr>"
    using assms
    by (auto simp: PlanWprLayout_def Let_def wprEnd_def split: if_splits bind_splits)
  note subs = s(1,2,4,7,11,12) [unfolded Sub_Some_iff]
  have gap: "unat (fwOffset - heapOffset) = unat fwOffset - unat heapOffset"
    using s(13) by (intro unat_sub) simp
  have vm: "unat (vbiosReservedOffset i - wprEndMargin i) =
      unat (vbiosReservedOffset i) - unat (wprEndMargin i)"
    using margin by (rule unat_sub)
  have e: "unat wprEnd = unat (vbiosReservedOffset i - wprEndMargin i) -
        unat (vbiosReservedOffset i - wprEndMargin i) mod 2 ^ 17"
    "unat bootBin = unat c1 - unat c1 mod 2 ^ 12" "unat fwOffset = unat c2 - unat c2 mod 2 ^ 16"
    "unat heapOffset = unat c3 - unat c3 mod 2 ^ 20"
    "unat heapSize = unat (fwOffset - heapOffset) - unat (fwOffset - heapOffset) mod 2 ^ 20"
    using s(3,5,8,9) c by (simp_all only: wprEnd_def unat_AlignDown not_False_eq_True)
  have al: "2 ^ 17 dvd unat wprEnd" "unat wprEnd \<le> unat (vbiosReservedOffset i - wprEndMargin i)"
    "unat (vbiosReservedOffset i - wprEndMargin i) < unat wprEnd + 2 ^ 17"
    "2 ^ 12 dvd unat bootBin" "unat bootBin \<le> unat c1"
    "2 ^ 16 dvd unat fwOffset" "unat fwOffset \<le> unat c2"
    "2 ^ 20 dvd unat heapOffset" "unat heapOffset \<le> unat c3"
    "2 ^ 20 dvd unat heapSize" "unat heapSize \<le> unat (fwOffset - heapOffset)"
    "unat (fwOffset - heapOffset) < unat heapSize + 2 ^ 20"
    unfolding e using align_down_nat [of "2 ^ 17" "unat (vbiosReservedOffset i - wprEndMargin i)"]
      align_down_nat [of "2 ^ 12" "unat c1"] align_down_nat [of "2 ^ 16" "unat c2"]
      align_down_nat [of "2 ^ 20" "unat c3"] align_down_nat [of "2 ^ 20" "unat (fwOffset - heapOffset)"]
    by simp_all
  have up: "unat (WprLayoutInputs.nonWprHeapSize i) \<le> unat nonWpr" "2 ^ 20 dvd unat nonWpr"
    using AlignUp_Some [OF s(6)] c(8) by simp_all
  have hz: "0 < unat heapSize" using s(10) by (simp add: unat_gt_0)
  have lt: "unat heapOffset < unat fwOffset" using s(13) by (simp only: word_less_nat_alt)
  have le: "unat (wprEndMargin i) \<le> unat (vbiosReservedOffset i)"
    "unat (vbiosReservedOffset i) \<le> unat (WprLayoutInputs.fbSize i)"
    using margin fb by (simp_all only: word_le_nat_alt)
  have "unat nonWprOffset + unat nonWpr = unat wprStart" using subs(6) by simp
  moreover have "unat wprStart + 2 ^ 20 = unat heapOffset" using subs(5) c(8) by simp
  moreover have "unat (requestedWprHeapSize i) < unat heapSize + 2 ^ 20"
    using subs(4) al(9,12) lt unfolding gap by linarith
  moreover have "unat heapOffset + unat heapSize \<le> unat fwOffset"
    using al(11) lt unfolding gap by linarith
  moreover have "unat fwOffset + unat (radix3ElfSize i) \<le> unat bootBin" using subs(3) al(7) by linarith
  moreover have "unat bootBin + unat (bootloaderSize i) \<le> unat frts" using subs(2) al(5) by linarith
  moreover have "unat frts + unat (WprLayoutInputs.frtsSize i) = unat wprEnd" using subs(1) by linarith
  moreover have "unat wprEnd + unat (wprEndMargin i) \<le> unat (vbiosReservedOffset i)"
    "unat (vbiosReservedOffset i) < unat wprEnd + unat (wprEndMargin i) + 2 ^ 17"
    using al(2,3) le(1) unfolding vm by linarith+
  ultimately show ?thesis
    unfolding wpr_ok_def l WprLayout.simps using al up hz le(2) by blast
qed

text \<open>
  C26. A planned WPR layout fits between the reserved VBIOS area and zero: the regions are in
  order, none overlaps the next, each holds at least what was asked for (the heap up to less
  than one MiB of rounding) and starts on its alignment.
\<close>
theorem PlanWprLayout_spec:
  assumes "PlanWprLayout i = Some l"
  shows "wpr_ok i l"
  using assms by (rule PlanWprLayout_ok)

definition sample_wpr_inputs :: WprLayoutInputs where
  "sample_wpr_inputs = \<lparr>WprLayoutInputs.fbSize = 0x10000000, vgaWorkspaceOffset = 0xFF00000,
     vbiosReservedOffset = 0xFF00000, wprEndMargin = 0, frtsSize = 0x100000, bootloaderSize = 0x1234,
     radix3ElfSize = 0x2000000, nonWprHeapSize = 0x100000, requestedWprHeapSize = 0x4000000\<rparr>"

theorem PlanWprLayout_witness:
  "\<exists>l. PlanWprLayout sample_wpr_inputs = Some l \<and> wpr_ok sample_wpr_inputs l"
proof -
  have "\<exists>l. PlanWprLayout sample_wpr_inputs = Some l"
    by (simp add: PlanWprLayout_def sample_wpr_inputs_def wpr_consts AlignDown_def AlignUp_def Sub_def)
  then show ?thesis using PlanWprLayout_spec by blast
qed

section \<open>The metadata block\<close>

interpretation wpr_meta: record_layout wpr_meta_fields "\<lambda>_. 256"
  by unfold_locales (simp add: wpr_meta_fields_def)

lemma BuildWprMeta_encode: "BuildWprMeta i = wpr_meta.encode i"
  by (simp add: BuildWprMeta_def wpr_meta.encode_def kWprMetaBytes_def)

lemma BuildWprMeta_reads:
  "\<exists>b. BuildWprMeta i = Some b \<and> length b = 256 \<and>
    (\<forall>(off, vs) \<in> set (wpr_meta_fields i). slice b off (length vs) = vs) \<and>
    LoadLe64 b 0 = Some kWprMetaMagic \<and> LoadLe64 b 16 = Some (sysmemAddrOfRadix3Elf i) \<and>
    LoadLe64 b 112 = Some (gspFwWprStart (layout i)) \<and>
    LoadLe64 b 168 = Some (gspFwWprEnd (layout i)) \<and> LoadLe64 b 200 = Some 0 \<and>
    LoadLe64 b 248 = Some 0 \<and> (\<forall>k \<in> {208 ..< 240}. b ! k = 0)"
proof -
  obtain b where b: "wpr_meta.encode i = Some b" using wpr_meta.encode_total [of i] by auto
  note len = wpr_meta.length_encode [OF b] and fields = wpr_meta.fields_read [OF b]
  have "slice b 0 8 = le_bytes 8 kWprMetaMagic" "slice b 16 8 = le_bytes 8 (sysmemAddrOfRadix3Elf i)"
    "slice b 112 8 = le_bytes 8 (gspFwWprStart (layout i))"
    "slice b 168 8 = le_bytes 8 (gspFwWprEnd (layout i))" "slice b 200 8 = le_bytes 8 (0 :: u64)"
    "slice b 248 8 = le_bytes 8 (0 :: u64)"
    using fields by (simp_all add: wpr_meta_fields_def del: le_bytes.simps)
  moreover have "b ! k = 0" if "k \<in> {208 ..< 240}" for k
    using that by (intro wpr_meta.gap_zero [OF b]) (auto simp: wpr_meta_fields_def)
  ultimately show ?thesis
    using b len fields by (auto simp: BuildWprMeta_encode LoadLe_eq simp del: le_bytes.simps)
qed

text \<open>
  The WPR metadata block is written inside its 256 bytes: every field reads back at its ABI
  offset, the boot count and the verified marker are zero, and so is the partition area.
\<close>
theorem BuildWprMeta_fields:
  "\<exists>b. BuildWprMeta i = Some b \<and> length b = 256 \<and>
    (\<forall>(off, vs) \<in> set (wpr_meta_fields i). slice b off (length vs) = vs) \<and>
    LoadLe64 b 0 = Some kWprMetaMagic \<and> LoadLe64 b 16 = Some (sysmemAddrOfRadix3Elf i) \<and>
    LoadLe64 b 112 = Some (gspFwWprStart (layout i)) \<and>
    LoadLe64 b 168 = Some (gspFwWprEnd (layout i)) \<and> LoadLe64 b 200 = Some 0 \<and>
    LoadLe64 b 248 = Some 0 \<and> (\<forall>k \<in> {208 ..< 240}. b ! k = 0)"
  by (rule BuildWprMeta_reads)

definition sample_wpr_meta :: WprMetaInputs where
  "sample_wpr_meta = \<lparr>WprMetaInputs.layout =
       \<lparr>WprLayout.fbSize = 0x10000000, vgaWorkspaceOffset = 0xFF00000, vgaWorkspaceSize = 0x100000,
         gspFwRsvdStart = 0x9900000, nonWprHeapOffset = 0x9900000, nonWprHeapSize = 0x100000,
         gspFwWprStart = 0x9A00000, gspFwHeapOffset = 0x9B00000, gspFwHeapSize = 0x4200000,
         gspFwOffset = 0xDDE0000, bootBinOffset = 0xFDFE000, frtsOffset = 0xFE00000,
         frtsSize = 0x100000, gspFwWprEnd = 0xFF00000, sizeOfRadix3Elf = 0x2000000,
         sizeOfBootloader = 0x1234\<rparr>,
     sysmemAddrOfRadix3Elf = 0x80000000, sysmemAddrOfBootloader = 0x90000000,
     bootloaderCodeOffset = 0, bootloaderDataOffset = 0x1000, bootloaderManifestOffset = 0x2000,
     sysmemAddrOfSignature = 0xA0000000, sizeOfSignature = 0x1000,
     gspFwHeapVfPartitionCount = 0, flags = 0, pmuReservedSize = 0\<rparr>"

theorem BuildWprMeta_witness:
  "\<exists>b. BuildWprMeta sample_wpr_meta = Some b \<and> length b = 256 \<and> LoadLe64 b 16 = Some 0x80000000 \<and>
    LoadLe64 b 112 = Some 0x9A00000 \<and> b ! 210 = 0"
proof -
  obtain b where "BuildWprMeta sample_wpr_meta = Some b" "length b = 256"
    "LoadLe64 b 16 = Some (sysmemAddrOfRadix3Elf sample_wpr_meta)"
    "LoadLe64 b 112 = Some (gspFwWprStart (layout sample_wpr_meta))"
    and zero: "\<forall>k \<in> {208 ..< 240}. b ! k = 0"
    using BuildWprMeta_fields [of sample_wpr_meta] by blast
  moreover have "b ! 210 = 0" using zero by simp
  ultimately show ?thesis by (simp add: sample_wpr_meta_def)
qed

section \<open>The LIBOS page\<close>

definition region_valid :: "LibosRegion \<Rightarrow> bool" where
  "region_valid r \<longleftrightarrow> id' r \<noteq> [] \<and> length (id' r) \<le> 8 \<and> size' r \<noteq> 0"

lemma libos_stores_in:
  "fields_in off (libos_region_stores off id8 r) (off + 26)"
  by (simp add: libos_region_stores_def)

lemma fields_in_mono: "fields_in lo ss hi \<Longrightarrow> hi \<le> hi' \<Longrightarrow> fields_in lo ss hi'"
  by (induction lo ss hi rule: fields_in.induct) auto

text \<open>The loop keeps the page length, leaves the entries before \<open>i\<close> alone, and each entry it
  writes reads back.\<close>

definition entry_ok :: "byte list \<Rightarrow> nat \<Rightarrow> LibosRegion \<Rightarrow> bool" where
  "entry_ok b off r \<longleftrightarrow> LoadLe64 b off = MakeLibosId8 (id' r) \<and>
     LoadLe64 b (off + 8) = Some (physicalAddress r) \<and> LoadLe64 b (off + 16) = Some (size' r) \<and>
     rd b (off + 24) = Some (kind r) \<and> rd b (off + 25) = Some (location r)"

lemma entry_ok_cong:
  assumes "take n b = take n b'" and "off + 26 \<le> n" and "length b = length b'"
  shows "entry_ok b off r \<longleftrightarrow> entry_ok b' off r"
proof -
  have s: "slice b o2 m = slice b' o2 m" if "o2 + m \<le> n" for o2 m
  proof -
    have "slice b o2 m = slice (take n b) o2 m" "slice b' o2 m = slice (take n b') o2 m"
      using that by (simp_all add: slice_def take_drop min_def)
    then show ?thesis using assms(1) by simp
  qed
  have r: "b ! k = b' ! k" if "k < n" for k using that assms(1) by (metis nth_take)
  show ?thesis unfolding entry_ok_def using assms(2,3) s r by (simp add: LoadLe_eq rd_def)
qed

lemma libos_entry:
  assumes "MakeLibosId8 (id' r) = Some id8" and "off + 32 \<le> length b"
  shows "\<exists>b'. write_all b (libos_region_stores off id8 r) = Some b' \<and> length b' = length b \<and>
    take off b' = take off b \<and> entry_ok b' off r"
proof -
  have "fields_in off (libos_region_stores off id8 r) (length b)"
    using fields_in_mono [OF libos_stores_in] assms(2) by simp
  from write_all_layout [OF this] obtain b' where b': "write_all b (libos_region_stores off id8 r) = Some b'"
    "length b' = length b" "take off b' = take off b"
    "\<forall>(o2, vs) \<in> set (libos_region_stores off id8 r). slice b' o2 (length vs) = vs" by blast
  have one: "slice b' k (Suc 0) = [v] \<Longrightarrow> k < length b' \<Longrightarrow> b' ! k = v" for k v
    by (simp add: slice_def take_Suc_conv_app_nth hd_drop_conv_nth take_Suc)
  from b'(4) have "entry_ok b' off r"
    using assms b'(2) one
    by (simp add: entry_ok_def libos_region_stores_def LoadLe_eq rd_def del: le_bytes.simps)
  with b' show ?thesis by blast
qed

lemma MakeLibosId8_valid: "MakeLibosId8 s \<noteq> None \<longleftrightarrow> s \<noteq> [] \<and> length s \<le> 8"
  by (auto simp: MakeLibosId8_def)

lemma BuildLibosInitPage_loop_spec:
  assumes "(i + length rs) * 32 \<le> length b"
  shows "if \<forall>r \<in> set rs. region_valid r
    then \<exists>b'. BuildLibosInitPage_loop i rs b = Some (Some b') \<and> length b' = length b \<and>
      take (i * 32) b' = take (i * 32) b \<and>
      (\<forall>j < length rs. entry_ok b' ((i + j) * 32) (rs ! j))
    else BuildLibosInitPage_loop i rs b = Some None"
  using assms
proof (induction rs arbitrary: i b)
  case (Cons r rs)
  show ?case
  proof (cases "region_valid r")
    case False
    then show ?thesis
      using MakeLibosId8_valid [of "id' r"]
      by (auto simp: region_valid_def split: option.split)
  next
    case True
    then obtain id8 where id8: "MakeLibosId8 (id' r) = Some id8" "size' r \<noteq> 0"
      using MakeLibosId8_valid [of "id' r"] by (auto simp: region_valid_def)
    have "i * 32 + 32 \<le> length b" using Cons.prems by simp
    then obtain b1 where b1: "write_all b (libos_region_stores (i * 32) id8 r) = Some b1"
      "length b1 = length b" "take (i * 32) b1 = take (i * 32) b" "entry_ok b1 (i * 32) r"
      using libos_entry [OF id8(1)] by blast
    have step: "BuildLibosInitPage_loop i (r # rs) b = BuildLibosInitPage_loop (Suc i) rs b1"
      using id8 b1(1) by (simp add: kLibosRegionBytes_def)
    have IH: "if \<forall>r \<in> set rs. region_valid r
      then \<exists>b'. BuildLibosInitPage_loop (Suc i) rs b1 = Some (Some b') \<and> length b' = length b1 \<and>
        take (Suc i * 32) b' = take (Suc i * 32) b1 \<and>
        (\<forall>j < length rs. entry_ok b' ((Suc i + j) * 32) (rs ! j))
      else BuildLibosInitPage_loop (Suc i) rs b1 = Some None"
      using Cons.IH [of "Suc i" b1] Cons.prems b1(2) by simp
    show ?thesis
    proof (cases "\<forall>r \<in> set rs. region_valid r")
      case all: True
      from IH [unfolded if_P [OF all]] obtain b' where b': "BuildLibosInitPage_loop (Suc i) rs b1 = Some (Some b')"
        "length b' = length b1" "take (Suc i * 32) b' = take (Suc i * 32) b1"
        "\<forall>j < length rs. entry_ok b' ((Suc i + j) * 32) (rs ! j)"
        by blast
      have "take (i * 32) (take (Suc i * 32) b') = take (i * 32) (take (Suc i * 32) b1)"
        using b'(3) by simp
      then have pre: "take (i * 32) b' = take (i * 32) b" using b1(3) by (simp add: min_def)
      have here: "entry_ok b' (i * 32) r"
        using entry_ok_cong [OF b'(3), of "i * 32"] b'(2) b1(4) by simp
      have "entry_ok b' ((i + j) * 32) ((r # rs) ! j)" if "j < length (r # rs)" for j
        using that here b'(4) by (cases j) auto
      with step b' b1 pre all True show ?thesis by simp
    next
      case False
      from IH [unfolded if_not_P [OF this]] False step show ?thesis by auto
    qed
  qed
qed simp

lemma BuildLibosInitPage_cases:
  "BuildLibosInitPage rs \<noteq> None \<and>
   (BuildLibosInitPage rs \<noteq> Some None \<longleftrightarrow> length rs \<le> 128 \<and> (\<forall>r \<in> set rs. region_valid r)) \<and>
   (\<forall>b. BuildLibosInitPage rs = Some (Some b) \<longrightarrow>
     length b = 4096 \<and> (\<forall>j < length rs. entry_ok b (j * 32) (rs ! j)))"
proof (cases "length rs \<le> 128")
  case False
  then show ?thesis by (auto simp: BuildLibosInitPage_def wpr_consts)
next
  case True
  then have eq: "BuildLibosInitPage rs = BuildLibosInitPage_loop 0 rs (replicate 4096 0)"
    by (simp add: BuildLibosInitPage_def wpr_consts)
  have "(0 + length rs) * 32 \<le> length (replicate 4096 (0 :: byte))" using True by simp
  note loop = BuildLibosInitPage_loop_spec [OF this]
  show ?thesis
  proof (cases "\<forall>r \<in> set rs. region_valid r")
    case valid: True
    from loop [unfolded if_P [OF valid]] obtain b where "BuildLibosInitPage rs = Some (Some b)" "length b = 4096"
      "\<forall>j < length rs. entry_ok b (j * 32) (rs ! j)" unfolding eq by auto
    with True valid show ?thesis by auto
  next
    case False
    from loop [unfolded if_not_P [OF False]] have "BuildLibosInitPage rs = Some None" unfolding eq .
    with True False show ?thesis by auto
  qed
qed

text \<open>
  Building the LIBOS page never stores outside the 4096-byte page. It succeeds exactly for
  at most 128 regions with a name of 1 to 8 characters and a non-zero size, and every region
  then reads back at its 32-byte slot.
\<close>
theorem BuildLibosInitPage_spec:
  "BuildLibosInitPage rs \<noteq> None \<and>
   (BuildLibosInitPage rs \<noteq> Some None \<longleftrightarrow> length rs \<le> 128 \<and> (\<forall>r \<in> set rs. region_valid r)) \<and>
   (\<forall>b. BuildLibosInitPage rs = Some (Some b) \<longrightarrow>
     length b = 4096 \<and> (\<forall>j < length rs. entry_ok b (j * 32) (rs ! j)))"
  by (rule BuildLibosInitPage_cases)

theorem BuildLibosInitPage_witness:
  "\<exists>b. BuildLibosInitPage [\<lparr>id' = [0x4C, 0x4F, 0x47], physicalAddress = 0x5000, size' = 0x1000,
      kind = 1, location = 1\<rparr>] = Some (Some b) \<and> LoadLe64 b 0 = Some 0x4C4F47"
proof -
  let ?r = "\<lparr>id' = [0x4C, 0x4F, 0x47], physicalAddress = 0x5000, size' = 0x1000,
      kind = 1, location = 1\<rparr>"
  have valid: "region_valid ?r" by (simp add: region_valid_def)
  have "MakeLibosId8 (id' ?r) = Some 0x4C4F47" by (simp add: MakeLibosId8_def)
  moreover obtain b where b: "BuildLibosInitPage [?r] = Some (Some b)"
    using BuildLibosInitPage_spec [of "[?r]"] valid by fastforce
  moreover have "entry_ok b 0 ?r" using BuildLibosInitPage_spec [of "[?r]"] b by simp
  ultimately show ?thesis by (auto simp: entry_ok_def)
qed

end
