(* ===== verification/GspRpc.thy ===== *)
theory GspRpc
  imports Layout Tiling
begin

text \<open>
  The GSP message queue transport (\<open>src/core/gsp_rpc.cpp\<close>, \<open>include/rtxmac/gsp_rpc.hpp\<close>): the
  XOR checksum, the fragmentation of a payload, and building and validating one queue record
  (48-byte element header, 32-byte RPC header, payload, zero padding to whole elements).
  \<open>std::size_t\<close> is \<open>nat\<close> with the code's wrap guards written out.
\<close>

section \<open>Operations\<close>

definition kRpcHeaderVersion3 :: u32 where "kRpcHeaderVersion3 = 0x03000000"
definition kRpcSignatureValid :: u32 where "kRpcSignatureValid = 0x43505256"
definition kRpcPending :: u32 where "kRpcPending = 0xFFFFFFFF"
definition kQueueElementHeaderBytes :: nat where "kQueueElementHeaderBytes = 48"
definition kRpcHeaderBytes :: nat where "kRpcHeaderBytes = 32"
definition kProtocolOverheadBytes :: nat where
  "kProtocolOverheadBytes = kQueueElementHeaderBytes + kRpcHeaderBytes"
definition kChecksumOffset :: nat where "kChecksumOffset = 32"
definition kSequenceOffset :: nat where "kSequenceOffset = 36"
definition kElementCountOffset :: nat where "kElementCountOffset = 40"
definition kRpcOffset :: nat where "kRpcOffset = kQueueElementHeaderBytes"
definition kRpcLengthOffset :: nat where "kRpcLengthOffset = kRpcOffset + 8"

lemmas rpc_consts = kQueueElementHeaderBytes_def kRpcHeaderBytes_def kProtocolOverheadBytes_def
  kChecksumOffset_def kSequenceOffset_def kElementCountOffset_def kRpcOffset_def kRpcLengthOffset_def

record RpcFragment =
  payloadOffset :: nat
  payloadBytes :: nat
  continuation :: bool

record RpcRecord =
  bytes :: "byte list"
  checksum :: u32
  sequence :: u32
  elementCount :: u32
  function' :: u32
  payloadBytes :: nat

definition CeilDiv_size :: "nat \<Rightarrow> nat \<Rightarrow> nat" where
  "CeilDiv_size n d = n div d + (if n mod d \<noteq> 0 then 1 else 0)"

text \<open>One round of the checksum loop takes the next (up to) eight bytes as a little-endian word.\<close>

fun RpcChecksum_loop :: "u64 \<Rightarrow> byte list \<Rightarrow> u64" where
  "RpcChecksum_loop acc [] = acc"
| "RpcChecksum_loop acc (b # bs) =
     RpcChecksum_loop (acc XOR le_join (take 8 (b # bs))) (drop 8 (b # bs))"

definition RpcChecksum :: "byte list \<Rightarrow> u32" where
  "RpcChecksum bs = (let acc = RpcChecksum_loop 0 bs in ucast acc XOR ucast (drop_bit 32 acc))"

partial_function (option) PlanRpcFragments_loop ::
  "nat \<Rightarrow> nat \<Rightarrow> nat \<Rightarrow> RpcFragment list option" where
  "PlanRpcFragments_loop maxPayload n offset =
     (if offset < n
      then let count = min maxPayload (n - offset) in
        do { rest \<leftarrow> PlanRpcFragments_loop maxPayload n (offset + count);
             Some (\<lparr>payloadOffset = offset, payloadBytes = count, continuation = offset \<noteq> 0\<rparr> # rest) }
      else Some [])"

definition PlanRpcFragments :: "nat \<Rightarrow> nat \<Rightarrow> u32 \<Rightarrow> RpcFragment list option" where
  "PlanRpcFragments n messageSize maxElementsPerRecord =
     (if messageSize = 0 \<or> maxElementsPerRecord = 0 then Some []
      else if SIZE_MAX div unat maxElementsPerRecord < messageSize then Some []
      else let capacity = messageSize * unat maxElementsPerRecord
      in if capacity \<le> kProtocolOverheadBytes then Some []
      else let maxPayload = capacity - kProtocolOverheadBytes
      in if n = 0
        then Some [\<lparr>payloadOffset = 0, payloadBytes = 0, continuation = False\<rparr>]
        else PlanRpcFragments_loop maxPayload n 0)"

text \<open>The stores of \<open>BuildRpcRecord\<close> in front of the payload.\<close>

definition rpc_header_fields :: "u32 \<Rightarrow> u32 \<Rightarrow> u32 \<Rightarrow> u32 \<Rightarrow> store list" where
  "rpc_header_fields seq elements rpcLength func =
     [st32 kSequenceOffset seq,
      st32 kElementCountOffset elements,
      st32 (kRpcOffset + 0) kRpcHeaderVersion3,
      st32 (kRpcOffset + 4) kRpcSignatureValid,
      st32 (kRpcOffset + 8) rpcLength,
      st32 (kRpcOffset + 12) func,
      st32 (kRpcOffset + 16) kRpcPending,
      st32 (kRpcOffset + 20) kRpcPending,
      st32 (kRpcOffset + 24) 0,
      st32 (kRpcOffset + 28) 0]"

definition BuildRpcRecord ::
  "u32 \<Rightarrow> byte list \<Rightarrow> u32 \<Rightarrow> nat \<Rightarrow> u32 \<Rightarrow> RpcRecord option option" where
  "BuildRpcRecord func payload seq messageSize maxElements =
     (if messageSize = 0 \<or> maxElements = 0 then Some None
      else if U32_MAX - kRpcHeaderBytes < length payload then Some None
      else if SIZE_MAX - kProtocolOverheadBytes < length payload then Some None
      else let unpaddedBytes = kProtocolOverheadBytes + length payload;
               elementCountSz = CeilDiv_size unpaddedBytes messageSize
      in if elementCountSz = 0 \<or> unat maxElements < elementCountSz \<or> U32_MAX < elementCountSz
        then Some None
      else if SIZE_MAX div messageSize < elementCountSz then Some None
      else do {
        b1 \<leftarrow> write_all (replicate (elementCountSz * messageSize) 0)
          (rpc_header_fields seq (of_nat elementCountSz)
            (of_nat (kRpcHeaderBytes + length payload)) func);
        b2 \<leftarrow> wr_seq b1 kProtocolOverheadBytes payload;
        unpadded \<leftarrow> rd_seq b2 0 unpaddedBytes;
        let sum = RpcChecksum unpadded;
        b3 \<leftarrow> StoreLe32 b2 kChecksumOffset sum;
        Some (Some \<lparr>bytes = b3, checksum = sum, sequence = seq,
          elementCount = of_nat elementCountSz, function' = func, payloadBytes = length payload\<rparr>) })"

definition ValidateRpcRecord :: "byte list \<Rightarrow> nat \<Rightarrow> u32 \<Rightarrow> bool option" where
  "ValidateRpcRecord r messageSize maxElements =
     (if messageSize = 0 \<or> maxElements = 0 \<or> length r < kProtocolOverheadBytes then Some False
      else do {
        version \<leftarrow> LoadLe32 r (kRpcOffset + 0);
        if version \<noteq> kRpcHeaderVersion3 then Some False
        else do {
          signature \<leftarrow> LoadLe32 r (kRpcOffset + 4);
          if signature \<noteq> kRpcSignatureValid then Some False
          else do {
            rpcLength \<leftarrow> LoadLe32 r kRpcLengthOffset;
            if unat rpcLength < kRpcHeaderBytes then Some False
            else let unpaddedBytes = kQueueElementHeaderBytes + unat rpcLength
            in if length r < unpaddedBytes then Some False
            else do {
              elements \<leftarrow> LoadLe32 r kElementCountOffset;
              if elements = 0 \<or> maxElements < elements then Some False
              else if SIZE_MAX div messageSize < unat elements then Some False
              else if unat elements * messageSize \<noteq> length r then Some False
              else if CeilDiv_size unpaddedBytes messageSize \<noteq> unat elements then Some False
              else do {
                unpadded \<leftarrow> rd_seq r 0 unpaddedBytes;
                Some (RpcChecksum unpadded = 0) } } } } })"

section \<open>The checksum is linear in every byte\<close>

lemma le_join_update:
  "i < length bs \<Longrightarrow> le_join (bs[i := v]) =
    (le_join bs :: 'a::len word) XOR push_bit (8 * i) (ucast (bs ! i XOR v))"
proof (induction bs arbitrary: i)
  case (Cons b bs)
  show ?case
  proof (cases i)
    case 0
    show ?thesis
      unfolding 0 by (rule bit_word_eqI) (auto simp: bit_simps dest: bit_imp_le_length)
  next
    case (Suc k)
    with Cons have ih: "(le_join (bs[k := v]) :: 'a word) =
        le_join bs XOR push_bit (8 * k) (ucast (bs ! k XOR v))" by simp
    show ?thesis
      unfolding Suc by (rule bit_word_eqI) (auto simp: ih bit_simps dest: bit_imp_le_length)
  qed
qed simp

lemma RpcChecksum_loop_acc: "RpcChecksum_loop (a XOR x) bs = RpcChecksum_loop a bs XOR x"
  by (induction a bs arbitrary: x rule: RpcChecksum_loop.induct) (simp_all add: ac_simps)

lemma RpcChecksum_loop_step:
  "RpcChecksum_loop a bs = RpcChecksum_loop (a XOR le_join (take 8 bs)) (drop 8 bs)"
  by (cases bs) simp_all

lemma RpcChecksum_loop_update:
  "i < length bs \<Longrightarrow> RpcChecksum_loop a (bs[i := v]) =
    RpcChecksum_loop a bs XOR push_bit (8 * (i mod 8)) (ucast (bs ! i XOR v))"
proof (induction "length bs" arbitrary: a bs i rule: less_induct)
  case less
  let ?x = "ucast (bs ! i XOR v) :: u64"
  have step: "RpcChecksum_loop a cs = RpcChecksum_loop (a XOR le_join (take 8 cs)) (drop 8 cs)" for cs
    by (rule RpcChecksum_loop_step)
  show ?case
  proof (cases "i < 8")
    case True
    then have "take 8 (bs[i := v]) = (take 8 bs)[i := v]" "drop 8 (bs[i := v]) = drop 8 bs"
      "i < length (take 8 bs)" "take 8 bs ! i = bs ! i" "i mod 8 = i"
      using less.prems by (simp_all add: take_update_swap)
    then show ?thesis
      unfolding step [of "bs[i := v]"] step [of bs]
      by (simp add: le_join_update RpcChecksum_loop_acc xor.assoc [symmetric] flip: xor.assoc)
  next
    case False
    then have "take 8 (bs[i := v]) = take 8 bs" "drop 8 (bs[i := v]) = (drop 8 bs)[i - 8 := v]"
      "i - 8 < length (drop 8 bs)" "drop 8 bs ! (i - 8) = bs ! i" "(i - 8) mod 8 = i mod 8"
      using less.prems by (simp_all add: drop_update_swap le_mod_geq [of 8 i])
    moreover have "length (drop 8 bs) < length bs" using less.prems False by simp
    ultimately show ?thesis
      unfolding step [of "bs[i := v]"] step [of bs] using less.hyps by simp
  qed
qed

text \<open>Replacing one byte changes exactly the corresponding byte of the 32-bit checksum.\<close>

lemma RpcChecksum_update:
  assumes "i < length bs"
  shows "RpcChecksum (bs[i := v]) =
    RpcChecksum bs XOR push_bit (8 * (i mod 4)) (ucast (bs ! i XOR v))"
proof -
  have cut: "ucast (push_bit (8 * k) (ucast (w :: byte)) :: u64) XOR
      ucast (drop_bit 32 (push_bit (8 * k) (ucast w)) :: u64) =
      (push_bit (8 * (k mod 4)) (ucast w) :: u32)" if "k < 8" for k w
  proof -
    from that consider "k < 4" | "k = 4" | "k = 5" | "k = 6" | "k = 7" by linarith
    then show ?thesis
    proof cases
      case 1
      then show ?thesis by (intro bit_word_eqI) (auto simp: bit_simps dest: bit_imp_le_length)
    qed (auto intro!: bit_word_eqI simp: bit_simps dest: bit_imp_le_length)
  qed
  have mods: "i mod 8 mod 4 = i mod 4" by (simp add: mod_mod_cancel)
  have lin: "ucast (x XOR y :: u64) XOR ucast (drop_bit 32 (x XOR y)) =
      (ucast x XOR ucast (drop_bit 32 x) :: u32) XOR (ucast y XOR ucast (drop_bit 32 y))" for x y
    by (rule bit_word_eqI) (auto simp: bit_simps)
  show ?thesis
    unfolding RpcChecksum_def Let_def RpcChecksum_loop_update [OF assms] lin
    using cut [of "i mod 8" "bs ! i XOR v"] by (simp add: mods)
qed

lemma RpcChecksum_flip:
  assumes "i < length bs" and "v \<noteq> bs ! i"
  shows "RpcChecksum (bs[i := v]) \<noteq> RpcChecksum bs"
proof
  assume "RpcChecksum (bs[i := v]) = RpcChecksum bs"
  then have "RpcChecksum bs XOR (RpcChecksum bs XOR push_bit (8 * (i mod 4)) (ucast (bs ! i XOR v))) =
      RpcChecksum bs XOR RpcChecksum bs"
    using RpcChecksum_update [OF assms(1), of v] by simp
  then have z: "push_bit (8 * (i mod 4)) (ucast (bs ! i XOR v) :: u32) = 0"
    by (simp flip: xor.assoc)
  have "bit (bs ! i XOR v) n = False" for n
  proof (cases "n < 8")
    case True
    have "i mod 4 < 4" by simp
    then have "8 * (i mod 4) + n < 32" using True by linarith
    moreover have "\<not> bit (push_bit (8 * (i mod 4)) (ucast (bs ! i XOR v) :: u32)) (8 * (i mod 4) + n)"
      by (simp add: z)
    ultimately show ?thesis using True by (simp add: bit_simps)
  next
    case False
    then show ?thesis by (auto dest: bit_imp_le_length)
  qed
  then have "bs ! i XOR v = 0" by (intro bit_word_eqI) (simp add: bit_simps)
  then have "bs ! i XOR (bs ! i XOR v) = bs ! i" by simp
  then show False using assms(2) by (simp flip: xor.assoc)
qed

text \<open>Storing the checksum over its zeroed field makes the record's own checksum cancel.\<close>

lemma RpcChecksum_put:
  assumes "kChecksumOffset + 4 \<le> length z" and "\<And>k. k < 4 \<Longrightarrow> z ! (32 + k) = 0"
  shows "RpcChecksum (put z kChecksumOffset (le_bytes 4 c)) = RpcChecksum z XOR c"
proof -
  have z: "z ! 32 = 0" "z ! 33 = 0" "z ! 34 = 0" "z ! 35 = 0"
    using assms(2) [of 0] assms(2) [of 1] assms(2) [of 2] assms(2) [of 3] by simp_all
  have bytes: "le_bytes 4 c = [ucast c, ucast (drop_bit 8 c), ucast (drop_bit 16 c), ucast (drop_bit 24 c)]"
    by (simp add: numeral_eq_Suc)
  have "put z 32 (le_bytes 4 c) = z[32 := ucast c, 33 := ucast (drop_bit 8 c),
      34 := ucast (drop_bit 16 c), 35 := ucast (drop_bit 24 c)]"
    using assms(1) unfolding bytes by (simp add: put_Cons [symmetric] rpc_consts)
  moreover have "RpcChecksum (z[32 := ucast c, 33 := ucast (drop_bit 8 c),
      34 := ucast (drop_bit 16 c), 35 := ucast (drop_bit 24 c)]) =
      RpcChecksum z XOR ucast (ucast c :: byte) XOR push_bit 8 (ucast (ucast (drop_bit 8 c) :: byte)) XOR
        push_bit 16 (ucast (ucast (drop_bit 16 c) :: byte)) XOR
        push_bit 24 (ucast (ucast (drop_bit 24 c) :: byte))"
    using assms(1) z by (simp add: RpcChecksum_update rpc_consts xor.assoc)
  moreover have "ucast (ucast c :: byte) XOR push_bit 8 (ucast (ucast (drop_bit 8 c) :: byte)) XOR
        push_bit 16 (ucast (ucast (drop_bit 16 c) :: byte)) XOR
        push_bit 24 (ucast (ucast (drop_bit 24 c) :: byte)) = c"
  proof (rule bit_word_eqI)
    fix n assume "n < LENGTH(32)"
    then consider "n < 8" | "8 \<le> n" "n < 16" | "16 \<le> n" "n < 24" | "24 \<le> n" "n < 32" by fastforce
    then show "bit ((ucast (ucast c :: byte) :: u32) XOR push_bit 8 (ucast (ucast (drop_bit 8 c) :: byte)) XOR
        push_bit 16 (ucast (ucast (drop_bit 16 c) :: byte)) XOR
        push_bit 24 (ucast (ucast (drop_bit 24 c) :: byte))) n = bit c n"
      by cases (auto simp: bit_simps)
  qed
  ultimately show ?thesis by (simp add: kChecksumOffset_def xor.assoc)
qed

section \<open>Element counts\<close>

lemma CeilDiv_size_le_iff:
  assumes "0 < d"
  shows "CeilDiv_size n d \<le> k \<longleftrightarrow> n \<le> k * d"
proof -
  have n: "n = n div d * d + n mod d" and r: "n mod d < d" using assms by simp_all
  show ?thesis
  proof (cases "n mod d = 0")
    case True
    then have q: "n = n div d * d" using n by linarith
    have "n div d \<le> k \<longleftrightarrow> n div d * d \<le> k * d" using assms by simp
    then have "n div d \<le> k \<longleftrightarrow> n \<le> k * d" by (simp only: q [symmetric])
    then show ?thesis using True by (simp add: CeilDiv_size_def)
  next
    case False
    have "n div d + 1 \<le> k \<longleftrightarrow> n div d < k" by linarith
    also have "\<dots> \<longleftrightarrow> n < k * d" using assms by (rule div_less_iff_less_mult)
    also have "\<dots> \<longleftrightarrow> n \<le> k * d" using False by (metis le_neq_implies_less less_imp_le mod_mult_self2_is_0)
    finally show ?thesis using False by (simp add: CeilDiv_size_def)
  qed
qed

lemma CeilDiv_size_ge: "0 < d \<Longrightarrow> n \<le> CeilDiv_size n d * d"
  using CeilDiv_size_le_iff [of d n "CeilDiv_size n d"] by simp

section \<open>Validation\<close>

definition rpc_record_ok :: "byte list \<Rightarrow> nat \<Rightarrow> u32 \<Rightarrow> bool" where
  "rpc_record_ok r messageSize maxElements \<longleftrightarrow>
     0 < messageSize \<and> 80 \<le> length r \<and> word_at r 48 = kRpcHeaderVersion3 \<and>
     word_at r 52 = kRpcSignatureValid \<and> 32 \<le> unat (word_at r 56) \<and>
     48 + unat (word_at r 56) \<le> length r \<and> 0 < unat (word_at r 40) \<and>
     word_at r 40 \<le> maxElements \<and> unat (word_at r 40) \<le> SIZE_MAX div messageSize \<and>
     unat (word_at r 40) * messageSize = length r \<and>
     CeilDiv_size (48 + unat (word_at r 56)) messageSize = unat (word_at r 40) \<and>
     RpcChecksum (take (48 + unat (word_at r 56)) r) = 0"

lemma ValidateRpcRecord_eq:
  "ValidateRpcRecord r messageSize maxElements = Some (rpc_record_ok r messageSize maxElements)"
proof (cases "messageSize = 0 \<or> maxElements = 0 \<or> length r < 80")
  case True
  then show ?thesis by (auto simp: ValidateRpcRecord_def rpc_record_ok_def rpc_consts unat_eq_zero)
next
  case False
  have "LoadLe32 r 48 = Some (word_at r 48)" "LoadLe32 r 52 = Some (word_at r 52)"
    "LoadLe32 r 56 = Some (word_at r 56)" "LoadLe32 r 40 = Some (word_at r 40)"
    using False by (simp_all add: LoadLe_eq word_at_def)
  then show ?thesis
    using False by (auto simp: ValidateRpcRecord_def rpc_record_ok_def rpc_consts Let_def rd_seq_eq
      slice_def unat_eq_zero not_less unat_gt_0 simp del: rd_seq.simps)
qed

section \<open>Building a record\<close>

definition rpc_request_ok :: "nat \<Rightarrow> nat \<Rightarrow> u32 \<Rightarrow> bool" where
  "rpc_request_ok n messageSize maxElements \<longleftrightarrow>
     0 < messageSize \<and> 32 + n \<le> U32_MAX \<and> 80 + n \<le> unat maxElements * messageSize \<and>
     CeilDiv_size (80 + n) messageSize \<le> SIZE_MAX div messageSize"

text \<open>What a built record holds: its header words, the payload behind them, zero padding to whole
  elements, and a checksum that cancels.\<close>

definition rpc_built :: "u32 \<Rightarrow> byte list \<Rightarrow> u32 \<Rightarrow> nat \<Rightarrow> RpcRecord \<Rightarrow> bool" where
  "rpc_built func payload seq messageSize r \<longleftrightarrow>
     unat (elementCount r) = CeilDiv_size (80 + length payload) messageSize \<and>
     length (bytes r) = unat (elementCount r) * messageSize \<and>
     80 + length payload \<le> length (bytes r) \<and>
     word_at (bytes r) 36 = seq \<and> word_at (bytes r) 40 = elementCount r \<and>
     word_at (bytes r) 48 = kRpcHeaderVersion3 \<and> word_at (bytes r) 52 = kRpcSignatureValid \<and>
     unat (word_at (bytes r) 56) = 32 + length payload \<and> word_at (bytes r) 60 = func \<and>
     slice (bytes r) 80 (length payload) = payload \<and>
     word_at (bytes r) 32 = checksum r \<and>
     RpcChecksum (take (80 + length payload) (bytes r)) = 0 \<and>
     sequence r = seq \<and> function' r = func \<and> RpcRecord.payloadBytes r = length payload"

lemma BuildRpcRecord_accepts:
  assumes "rpc_request_ok (length payload) messageSize maxElements"
  shows "\<exists>r. BuildRpcRecord func payload seq messageSize maxElements = Some (Some r) \<and>
    rpc_built func payload seq messageSize r"
proof -
  let ?n = "length payload" and ?m = messageSize
  let ?e = "CeilDiv_size (80 + ?n) ?m"
  let ?fs = "rpc_header_fields seq (of_nat ?e) (of_nat (32 + ?n)) func"
  have m: "0 < ?m" and n32: "32 + ?n \<le> U32_MAX" and fits: "80 + ?n \<le> unat maxElements * ?m"
    and e_size: "?e \<le> SIZE_MAX div ?m"
    using assms by (auto simp: rpc_request_ok_def)
  have e_max: "?e \<le> unat maxElements" using fits by (simp only: CeilDiv_size_le_iff [OF m])
  have e_pos: "0 < ?e" using CeilDiv_size_le_iff [OF m, of "80 + ?n" 0] by simp
  have e_32: "?e < 2 ^ 32" using e_max unat_lt(3) [of maxElements] by (rule le_less_trans)
  have len: "80 + ?n \<le> ?e * ?m" by (rule CeilDiv_size_ge [OF m])
  have max_nz: "maxElements \<noteq> 0" using fits by auto
  let ?b0 = "replicate (?e * ?m) (0 :: byte)"
  have inside: "fields_in 0 ?fs (length ?b0)" using len by (simp add: rpc_header_fields_def rpc_consts)
  obtain b1 where b1: "write_all ?b0 ?fs = Some b1" and b1_len: "length b1 = ?e * ?m"
    and b1_fs: "\<forall>(off, vs) \<in> set ?fs. slice b1 off (length vs) = vs"
    and b1_0: "\<forall>i < length ?b0. (\<forall>(off, vs) \<in> set ?fs. \<not> (off \<le> i \<and> i < off + length vs)) \<longrightarrow> b1 ! i = ?b0 ! i"
    using write_all_layout [OF inside] by auto
  have words: "slice b1 36 4 = le_bytes 4 seq" "slice b1 40 4 = le_bytes 4 (of_nat ?e :: u32)"
    "slice b1 48 4 = le_bytes 4 kRpcHeaderVersion3" "slice b1 52 4 = le_bytes 4 kRpcSignatureValid"
    "slice b1 56 4 = le_bytes 4 (of_nat (32 + ?n) :: u32)" "slice b1 60 4 = le_bytes 4 func"
    using b1_fs by (simp_all add: rpc_header_fields_def rpc_consts del: le_bytes.simps of_nat_add)
  have zero: "b1 ! (32 + k) = 0" if "k < 4" for k
  proof -
    have "\<forall>(off, vs) \<in> set ?fs. \<not> (off \<le> 32 + k \<and> 32 + k < off + length vs)"
      using that by (simp add: rpc_header_fields_def rpc_consts)
    moreover have "32 + k < length ?b0" using that len by simp
    ultimately have "b1 ! (32 + k) = ?b0 ! (32 + k)" using b1_0 by blast
    then show ?thesis using \<open>32 + k < length ?b0\<close> by simp
  qed
  define b2 where "b2 = put b1 80 payload"
  have b2: "wr_seq b1 80 payload = Some b2" using len b1_len by (auto simp: wr_seq_eq b2_def)
  have b2_len: "length b2 = ?e * ?m" using len b1_len by (simp add: b2_def)
  define z where "z = take (80 + ?n) b2"
  have rd: "rd_seq b2 0 (80 + ?n) = Some z"
    using len b2_len by (simp add: rd_seq_eq slice_def z_def del: rd_seq.simps)
  define c where "c = RpcChecksum z"
  define b3 where "b3 = put b2 32 (le_bytes 4 c)"
  have b3: "StoreLe32 b2 32 c = Some b3" using len b2_len by (simp add: StoreLe_eq b3_def)
  have b3_len: "length b3 = ?e * ?m" using len b2_len by (simp add: b3_def)
  define r where "r = \<lparr>bytes = b3, checksum = c, sequence = seq, elementCount = of_nat ?e,
    function' = func, payloadBytes = ?n\<rparr>"
  have "BuildRpcRecord func payload seq ?m maxElements = Some (Some r)"
  proof -
    have g: "\<not> (?m = 0 \<or> maxElements = 0)" "\<not> U32_MAX - kRpcHeaderBytes < ?n"
      "\<not> SIZE_MAX - kProtocolOverheadBytes < ?n"
      "\<not> (?e = 0 \<or> unat maxElements < ?e \<or> U32_MAX < ?e)" "\<not> SIZE_MAX div ?m < ?e"
      using m max_nz n32 e_pos e_max e_32 e_size by (simp_all add: rpc_consts)
    have off: "kProtocolOverheadBytes = 80" "kChecksumOffset = 32" "kRpcHeaderBytes = 32"
      by (simp_all add: rpc_consts)
    show ?thesis
      unfolding BuildRpcRecord_def Let_def
      using g by (simp only: off if_False bind.bind_lunit b1 b2 rd c_def [symmetric] b3 r_def)
  qed
  moreover have "rpc_built func payload seq ?m r"
  proof -
    have cnt: "unat (of_nat ?e :: u32) = ?e" by (rule unat_of_nat_small(3) [OF e_32])
    have rl: "unat (of_nat (32 + ?n) :: u32) = 32 + ?n" using n32 by (intro unat_of_nat_small) simp
    have keep: "slice b3 off 4 = slice b1 off 4" if "36 \<le> off" "off + 4 \<le> 80" for off
    proof -
      have "slice b3 off 4 = slice b2 off 4"
        unfolding b3_def using len b2_len that by (intro slice_put_other) simp_all
      also have "\<dots> = slice b1 off 4"
        unfolding b2_def using len b1_len that by (intro slice_put_other) simp_all
      finally show ?thesis .
    qed
    have pay: "slice b3 80 ?n = payload"
    proof -
      have "slice b3 80 ?n = slice b2 80 ?n"
        unfolding b3_def using len b2_len by (intro slice_put_other) simp_all
      then show ?thesis using len b1_len by (simp add: b2_def)
    qed
    have z_zero: "z ! (32 + k) = 0" if "k < 4" for k
      using that zero len b1_len by (simp add: z_def b2_def nth_put)
    have z_len: "length z = 80 + ?n" using len b2_len by (simp add: z_def)
    have "take (80 + ?n) b3 = put z kChecksumOffset (le_bytes 4 c)"
      using len b2_len by (simp add: b3_def z_def put_def rpc_consts take_drop min_def)
    then have sum: "RpcChecksum (take (80 + ?n) b3) = 0"
      using RpcChecksum_put [of z c] z_zero z_len by (simp add: rpc_consts c_def)
    have chk: "slice b3 32 4 = le_bytes 4 c"
      unfolding b3_def using len b2_len by (intro slice_put_same) simp_all
    show ?thesis
      unfolding rpc_built_def word_at_def r_def
      using cnt rl len b3_len pay sum chk words by (simp add: keep del: le_bytes.simps of_nat_add)
  qed
  ultimately show ?thesis by blast
qed

lemma BuildRpcRecord_rejects:
  assumes "\<not> rpc_request_ok (length payload) messageSize maxElements"
  shows "BuildRpcRecord func payload seq messageSize maxElements = Some None"
proof (cases "messageSize = 0")
  case False
  then have m: "0 < messageSize" by simp
  have "U32_MAX - kRpcHeaderBytes < length payload \<or>
      unat maxElements < CeilDiv_size (80 + length payload) messageSize \<or>
      SIZE_MAX div messageSize < CeilDiv_size (80 + length payload) messageSize"
    using assms CeilDiv_size_le_iff [OF m, of "80 + length payload" "unat maxElements"] m
    by (auto simp: rpc_request_ok_def rpc_consts not_le)
  then show ?thesis
    by (elim disjE) (simp_all add: BuildRpcRecord_def Let_def rpc_consts)
qed (simp add: BuildRpcRecord_def)

text \<open>
  C27. Building a queue record never stores outside the record. It succeeds exactly when the
  payload and its 80 bytes of headers fit the permitted elements; the record then holds the
  header words, the payload and a cancelling checksum, and the receiver's validation accepts it.
\<close>
theorem BuildRpcRecord_valid:
  "if rpc_request_ok (length payload) messageSize maxElements
   then \<exists>r. BuildRpcRecord func payload seq messageSize maxElements = Some (Some r) \<and>
     rpc_built func payload seq messageSize r \<and>
     ValidateRpcRecord (bytes r) messageSize maxElements = Some True
   else BuildRpcRecord func payload seq messageSize maxElements = Some None"
proof (cases "rpc_request_ok (length payload) messageSize maxElements")
  case True
  then obtain r where r: "BuildRpcRecord func payload seq messageSize maxElements = Some (Some r)"
    "rpc_built func payload seq messageSize r" using BuildRpcRecord_accepts by blast
  have m: "0 < messageSize" using True by (simp add: rpc_request_ok_def)
  have "CeilDiv_size (80 + length payload) messageSize \<le> unat maxElements"
    using True by (simp add: rpc_request_ok_def CeilDiv_size_le_iff [OF m])
  moreover have "0 < CeilDiv_size (80 + length payload) messageSize"
    using CeilDiv_size_le_iff [OF m, of "80 + length payload" 0] by simp
  ultimately have "rpc_record_ok (bytes r) messageSize maxElements"
    using r(2) True m CeilDiv_size_ge [OF m, of "80 + length payload"]
    by (simp add: rpc_record_ok_def rpc_built_def rpc_request_ok_def word_le_nat_alt)
  then show ?thesis using True r by (simp add: ValidateRpcRecord_eq)
qed (simp add: BuildRpcRecord_rejects)

lemma word_at_update: "i < off \<or> off + 4 \<le> i \<Longrightarrow> word_at (r[i := v]) off = word_at r off"
  unfolding word_at_def slice_def by (auto simp: drop_update_swap drop_update_cancel)

text \<open>
  C28. Validation is total: for every byte string it returns whether the record is well formed. Let one
  byte of an accepted record change, other than the four bytes of the length field at 56. The changed
  record is rejected when the byte lies before the end of the payload, headers included, and is still
  accepted when it lies in the padding behind it, which the checksum does not cover.
\<close>
theorem ValidateRpcRecord_detects:
  "ValidateRpcRecord r messageSize maxElements = Some (rpc_record_ok r messageSize maxElements) \<and>
    (rpc_record_ok r messageSize maxElements \<longrightarrow> i < length r \<longrightarrow> v \<noteq> r ! i \<longrightarrow> i < 56 \<or> 60 \<le> i \<longrightarrow>
      ValidateRpcRecord (r[i := v]) messageSize maxElements = Some (48 + unat (word_at r 56) \<le> i))"
proof (intro conjI impI ValidateRpcRecord_eq)
  assume ok: "rpc_record_ok r messageSize maxElements" and i: "i < length r" "v \<noteq> r ! i" "i < 56 \<or> 60 \<le> i"
  let ?n = "48 + unat (word_at r 56)"
  have len: "?n \<le> length r" and n: "80 \<le> ?n" using ok by (simp_all add: rpc_record_ok_def)
  have length_word: "word_at (r[i := v]) 56 = word_at r 56" using i(3) by (simp add: word_at_update)
  have "rpc_record_ok (r[i := v]) messageSize maxElements \<longleftrightarrow> ?n \<le> i"
  proof (cases "?n \<le> i")
    case True
    then show ?thesis using ok n by (simp add: rpc_record_ok_def word_at_update)
  next
    case False
    then have "RpcChecksum ((take ?n r)[i := v]) \<noteq> RpcChecksum (take ?n r)"
      using i len by (intro RpcChecksum_flip) simp_all
    then show ?thesis using ok False by (simp add: rpc_record_ok_def take_update_swap length_word)
  qed
  then show "ValidateRpcRecord (r[i := v]) messageSize maxElements = Some (?n \<le> i)"
    by (simp add: ValidateRpcRecord_eq)
qed

text \<open>Witnesses: a two-byte payload in one 128-byte element.\<close>

theorem BuildRpcRecord_witness:
  "rpc_request_ok (length [0xAB, 0xCD :: byte]) 128 16 \<and>
   (\<exists>r. BuildRpcRecord 72 [0xAB, 0xCD] 7 128 16 = Some (Some r) \<and>
     rpc_built 72 [0xAB, 0xCD] 7 128 r \<and> ValidateRpcRecord (bytes r) 128 16 = Some True)"
proof -
  have ok: "rpc_request_ok (length [0xAB, 0xCD :: byte]) 128 16"
    by (simp add: rpc_request_ok_def CeilDiv_size_def)
  show ?thesis
    using BuildRpcRecord_valid [of "[0xAB, 0xCD]" 128 16 72 7] unfolding if_P [OF ok]
    using ok by blast
qed

theorem ValidateRpcRecord_witness:
  "\<exists>r. ValidateRpcRecord r 128 16 = Some True \<and> ValidateRpcRecord (r[81 := 0]) 128 16 = Some False \<and>
    ValidateRpcRecord (r[100 := r ! 100 + 1]) 128 16 = Some True"
proof -
  have ok: "rpc_request_ok (length [0xAB, 0xCD :: byte]) 128 16"
    by (simp add: rpc_request_ok_def CeilDiv_size_def)
  obtain r where r: "BuildRpcRecord 72 [0xAB, 0xCD] 7 128 16 = Some (Some r)"
    "rpc_built 72 [0xAB, 0xCD] 7 128 r" using BuildRpcRecord_accepts [OF ok] by blast
  have pay: "slice (bytes r) 80 2 = [0xAB, 0xCD]" and n: "48 + unat (word_at (bytes r) 56) = 82"
    and len: "length (bytes r) = CeilDiv_size 82 128 * 128" using r(2) by (simp_all add: rpc_built_def numeral_2_eq_2)
  have "bytes r ! 81 = slice (bytes r) 80 2 ! 1" using len by (simp add: slice_def CeilDiv_size_def)
  then have "(0 :: byte) \<noteq> bytes r ! 81" using pay by simp
  moreover have "rpc_record_ok (bytes r) 128 16"
    using r(2) by (simp add: rpc_record_ok_def rpc_built_def word_le_nat_alt CeilDiv_size_def)
  moreover have "length (bytes r) = 128" using len by (simp add: CeilDiv_size_def)
  ultimately show ?thesis
    using ValidateRpcRecord_detects [of "bytes r" 128 16 81 0] ValidateRpcRecord_detects [of "bytes r" 128 16 100 "bytes r ! 100 + 1"] n
    by auto
qed

section \<open>Fragmentation\<close>

definition fragments_ok :: "nat \<Rightarrow> u32 \<Rightarrow> bool" where
  "fragments_ok messageSize maxElements \<longleftrightarrow> 0 < messageSize \<and> maxElements \<noteq> 0 \<and>
     messageSize * unat maxElements \<le> SIZE_MAX \<and> 80 < messageSize * unat maxElements"

definition fragment_range :: "RpcFragment \<Rightarrow> nat \<times> nat" where
  "fragment_range f = (payloadOffset f, RpcFragment.payloadBytes f)"

lemma PlanRpcFragments_loop_spec:
  assumes "0 < cap" and "offset \<le> n"
  shows "\<exists>fs. PlanRpcFragments_loop cap n offset = Some fs \<and>
    tiles offset (map fragment_range fs) n \<and>
    (\<forall>f \<in> set fs. RpcFragment.payloadBytes f \<le> cap \<and> (continuation f \<longleftrightarrow> payloadOffset f \<noteq> 0))"
  using assms(2)
proof (induction "n - offset" arbitrary: offset rule: less_induct)
  case less
  show ?case
  proof (cases "offset < n")
    case True
    let ?c = "min cap (n - offset)"
    have c: "0 < ?c" "offset + ?c \<le> n" "n - (offset + ?c) < n - offset" using True assms(1) by auto
    from less.hyps [OF c(3) c(2)] obtain fs where
      "PlanRpcFragments_loop cap n (offset + ?c) = Some fs"
      "tiles (offset + ?c) (map fragment_range fs) n"
      "\<forall>f \<in> set fs. RpcFragment.payloadBytes f \<le> cap \<and> (continuation f \<longleftrightarrow> payloadOffset f \<noteq> 0)"
      by blast
    then show ?thesis
      using True c(1) by (subst PlanRpcFragments_loop.simps) (auto simp: Let_def fragment_range_def)
  next
    case False
    then show ?thesis using less.prems by (subst PlanRpcFragments_loop.simps) simp
  qed
qed

lemma PlanRpcFragments_cases:
  assumes "fragments_ok m x"
  shows "PlanRpcFragments n m x = (if n = 0
    then Some [\<lparr>payloadOffset = 0, payloadBytes = 0, continuation = False\<rparr>]
    else PlanRpcFragments_loop (m * unat x - 80) n 0)"
proof -
  have pos: "0 < unat x" using assms by (simp add: fragments_ok_def unat_gt_0)
  have "m \<le> SIZE_MAX div unat x"
    using assms less_eq_div_iff_mult_less_eq [OF pos, of m SIZE_MAX] by (simp add: fragments_ok_def)
  then show ?thesis
    using assms by (simp add: PlanRpcFragments_def fragments_ok_def rpc_consts not_less Let_def)
qed

lemma PlanRpcFragments_rejects:
  assumes "\<not> fragments_ok m x"
  shows "PlanRpcFragments n m x = Some []"
proof (cases "m = 0 \<or> x = 0")
  case False
  then have pos: "0 < unat x" by (simp add: unat_gt_0)
  have "SIZE_MAX div unat x < m \<or> m * unat x \<le> 80"
    using assms False less_eq_div_iff_mult_less_eq [OF pos, of m SIZE_MAX]
    by (auto simp: fragments_ok_def not_le)
  then show ?thesis by (auto simp: PlanRpcFragments_def rpc_consts Let_def)
qed (auto simp: PlanRpcFragments_def)

lemma PlanRpcFragments_total:
  assumes "fragments_ok m x"
  shows "\<exists>fs. PlanRpcFragments n m x = Some fs \<and> fs \<noteq> [] \<and>
    (0 < n \<longrightarrow> tiles 0 (map fragment_range fs) n) \<and>
    (\<forall>f \<in> set fs. RpcFragment.payloadBytes f \<le> m * unat x - 80 \<and>
      (continuation f \<longleftrightarrow> payloadOffset f \<noteq> 0))"
proof (cases "n = 0")
  case True
  then show ?thesis by (simp add: PlanRpcFragments_cases [OF assms])
next
  case False
  have cap: "0 < m * unat x - 80" using assms by (simp add: fragments_ok_def)
  from PlanRpcFragments_loop_spec [OF cap, of 0 n] obtain fs where
    "PlanRpcFragments_loop (m * unat x - 80) n 0 = Some fs" "tiles 0 (map fragment_range fs) n"
    "\<forall>f \<in> set fs. RpcFragment.payloadBytes f \<le> m * unat x - 80 \<and>
      (continuation f \<longleftrightarrow> payloadOffset f \<noteq> 0)" by auto
  then show ?thesis using False by (auto simp: PlanRpcFragments_cases [OF assms])
qed

interpretation rpc_fragments: tiling "\<lambda>(n, m, x). 0 < n \<and> fragments_ok m x"
  "\<lambda>(n, m, x). the (PlanRpcFragments n m x)" payloadOffset RpcFragment.payloadBytes
  "\<lambda>_. 0" "\<lambda>(n, m, x). n" "\<lambda>(n, m, x). m * unat x - 80"
proof unfold_locales
  fix i :: "nat \<times> nat \<times> u32"
  assume "case i of (n, m, x) \<Rightarrow> 0 < n \<and> fragments_ok m x"
  then show "tiles 0 (map (\<lambda>c. (payloadOffset c, RpcFragment.payloadBytes c))
      (case i of (n, m, x) \<Rightarrow> the (PlanRpcFragments n m x))) (case i of (n, m, x) \<Rightarrow> n)"
    using PlanRpcFragments_total [of "fst (snd i)" "snd (snd i)" "fst i"]
    by (auto simp: fragment_range_def [abs_def] split: prod.splits)
next
  fix i :: "nat \<times> nat \<times> u32" and c
  assume "case i of (n, m, x) \<Rightarrow> 0 < n \<and> fragments_ok m x"
    "c \<in> set (case i of (n, m, x) \<Rightarrow> the (PlanRpcFragments n m x))"
  then show "RpcFragment.payloadBytes c \<le> (case i of (n, m, x) \<Rightarrow> m * unat x - 80)"
    using PlanRpcFragments_total [of "fst (snd i)" "snd (snd i)" "fst i"] by (auto split: prod.splits)
qed

text \<open>
  C29. Fragmentation terminates and plans nothing exactly for degenerate queue parameters.
  Otherwise the fragments concatenate to the payload, exactly the later ones are continuations,
  and (for a queue capacity below 4 GiB) the record builder accepts every fragment.
\<close>
theorem PlanRpcFragments_spec:
  "\<exists>fs. PlanRpcFragments (length payload) m x = Some fs \<and> (fs = [] \<longleftrightarrow> \<not> fragments_ok m x) \<and>
    (fragments_ok m x \<longrightarrow>
      concat (map (\<lambda>f. slice payload (payloadOffset f) (RpcFragment.payloadBytes f)) fs) = payload \<and>
      (\<forall>f \<in> set fs. (continuation f \<longleftrightarrow> payloadOffset f \<noteq> 0) \<and>
        payloadOffset f + RpcFragment.payloadBytes f \<le> length payload \<and>
        (m * unat x \<le> U32_MAX \<longrightarrow> rpc_request_ok (RpcFragment.payloadBytes f) m x)))"
proof (cases "fragments_ok m x")
  case True
  let ?n = "length payload"
  obtain fs where fs: "PlanRpcFragments ?n m x = Some fs" "fs \<noteq> []"
    "\<forall>f \<in> set fs. RpcFragment.payloadBytes f \<le> m * unat x - 80 \<and>
      (continuation f \<longleftrightarrow> payloadOffset f \<noteq> 0)" using PlanRpcFragments_total [OF True] by blast
  have m: "0 < m" "80 < m * unat x" "m * unat x \<le> SIZE_MAX" using True by (simp_all add: fragments_ok_def)
  have ok: "rpc_request_ok k m x" if "k \<le> m * unat x - 80" "m * unat x \<le> U32_MAX" for k
  proof -
    have fit: "80 + k \<le> unat x * m" using that m(2) by (simp add: mult.commute)
    have "CeilDiv_size (80 + k) m \<le> unat x" using fit by (simp add: CeilDiv_size_le_iff [OF m(1)])
    moreover have "unat x \<le> SIZE_MAX div m"
      using m(3) less_eq_div_iff_mult_less_eq [OF m(1), of "unat x" SIZE_MAX] by (simp add: mult.commute)
    ultimately show ?thesis using fit that m by (simp add: rpc_request_ok_def)
  qed
  have "concat (map (\<lambda>f. slice payload (payloadOffset f) (RpcFragment.payloadBytes f)) fs) = payload \<and>
      (\<forall>f \<in> set fs. payloadOffset f + RpcFragment.payloadBytes f \<le> ?n)"
  proof (cases "?n = 0")
    case True
    then show ?thesis
      using fs(1) \<open>fragments_ok m x\<close> by (auto simp: PlanRpcFragments_cases slice_def)
  next
    case False
    then show ?thesis
      using rpc_fragments.reassembled [of "(?n, m, x)" payload] rpc_fragments.in_range [of "(?n, m, x)"]
        True fs(1) by (simp add: slice_def)
  qed
  then show ?thesis using True fs ok by auto
qed (simp add: PlanRpcFragments_rejects)

theorem PlanRpcFragments_witness:
  "\<exists>fs. PlanRpcFragments 5000 4096 1 = Some fs \<and>
    concat (map (\<lambda>f. slice (replicate 5000 (1 :: byte)) (payloadOffset f) (RpcFragment.payloadBytes f)) fs) =
      replicate 5000 1"
proof -
  have "fragments_ok 4096 1" by (simp add: fragments_ok_def)
  then show ?thesis
    using PlanRpcFragments_spec [of "replicate 5000 (1 :: byte)" 4096 1] by auto
qed

end
