(* ===== verification/GspBootstrap.thy ===== *)
theory GspBootstrap
  imports GspRpc GspQueue
begin

text \<open>
  The pre-boot content of the shared queue memory (\<open>src/core/gsp_bootstrap.cpp\<close>,
  \<open>include/rtxmac/gsp_bootstrap.hpp\<close>): the system information block and the registry table,
  the command queue prefilled with the two RPC records that carry them, and the complete
  shared allocation (page table, command queue, zeroed status queue).

  A \<open>string_view\<close> is its bytes. Outer \<open>None\<close> is an access outside a buffer, inner \<open>None\<close>
  the code's \<open>nullopt\<close> (or a false return).
\<close>

section \<open>Operations\<close>

definition kGspSystemInfo570Bytes :: nat where "kGspSystemInfo570Bytes = 928"
definition kRpcFunctionGspSetSystemInfo :: u32 where "kRpcFunctionGspSetSystemInfo = 72"
definition kRpcFunctionSetRegistry :: u32 where "kRpcFunctionSetRegistry = 73"
definition kBootstrapMessageSize :: u32 where "kBootstrapMessageSize = 0x1000"
definition kBootstrapEntryOffset :: u32 where "kBootstrapEntryOffset = 0x1000"
definition kQueueTxHeaderBytes :: u32 where "kQueueTxHeaderBytes = 32"

lemmas bootstrap_consts = kGspSystemInfo570Bytes_def kBootstrapMessageSize_def
  kBootstrapEntryOffset_def kQueueTxHeaderBytes_def

record GspSystemInfoInputs =
  bar0Physical :: u64
  bar1Physical :: u64
  bar3Physical :: u64
  domainBusDeviceFunction :: u64
  maxUserVa :: u64
  pciConfigMirrorBase :: u32
  pciConfigMirrorSize :: u32
  pciDeviceIdDword :: u32
  pciSubDeviceIdDword :: u32
  pciRevisionId :: u32
  passthrough :: bool

record RegistryDwordEntry =
  name :: "byte list"
  "value" :: u32

record BootstrapQueueImage =
  bytes :: "byte list"
  records :: "RpcRecord \<times> RpcRecord"
  finalWritePointer :: u32

record SharedQueueAllocationImage =
  bytes :: "byte list"
  cachedArguments :: "byte list"
  commandQueue :: BootstrapQueueImage

text \<open>\<open>PutRecord\<close> updates the queue and the write pointer in place: the new pair is the result.\<close>

definition PutRecord ::
  "byte list \<Rightarrow> u32 \<Rightarrow> u32 \<Rightarrow> RpcRecord \<Rightarrow> (byte list \<times> u32) option option" where
  "PutRecord queue msgCount writePtr record =
     (if msgCount = 0 \<or> elementCount record = 0 \<or> msgCount < elementCount record then Some None
      else let ringBytes = ucast msgCount * ucast kBootstrapMessageSize :: u64;
               ringOffset = ucast writePtr * ucast kBootstrapMessageSize :: u64;
               size = length (RpcRecord.bytes record)
      in if unat ringBytes < size \<or>
            length queue < unat (ucast kBootstrapEntryOffset + ringBytes :: u64) then Some None
      else let first = unat (min (of_nat size) (ringBytes - ringOffset)) in do {
        head \<leftarrow> rd_seq (RpcRecord.bytes record) 0 first;
        queue1 \<leftarrow> wr_seq queue (unat kBootstrapEntryOffset + unat ringOffset) head;
        queue2 \<leftarrow> (if first < size
          then wr_seq queue1 (unat kBootstrapEntryOffset) (drop first (RpcRecord.bytes record))
          else Some queue1);
        Some (Some (queue2, (writePtr + elementCount record) mod msgCount)) })"

definition EncodePciBdf :: "u32 \<Rightarrow> u32 \<Rightarrow> u32 \<Rightarrow> u64 option" where
  "EncodePciBdf bus device func =
     (if 0xFF < bus \<or> 0x1F < device \<or> 0x7 < func then None
      else Some ((push_bit 8 (ucast bus) OR push_bit 3 (ucast device)) OR ucast func))"

definition system_info_fields :: "GspSystemInfoInputs \<Rightarrow> store list" where
  "system_info_fields i =
     [st64 0 (bar0Physical i),
      st64 8 (bar1Physical i),
      st64 16 (bar3Physical i),
      st64 32 (domainBusDeviceFunction i),
      st64 72 (maxUserVa i),
      st32 80 (pciConfigMirrorBase i),
      st32 84 (pciConfigMirrorSize i),
      st32 88 (pciDeviceIdDword i),
      st32 92 (pciSubDeviceIdDword i),
      st32 96 (pciRevisionId i),
      st8 840 (if passthrough i then 1 else 0)]"

definition BuildGspSystemInfo570 :: "GspSystemInfoInputs \<Rightarrow> byte list option" where
  "BuildGspSystemInfo570 i = write_all (replicate kGspSystemInfo570Bytes 0) (system_info_fields i)"

text \<open>The size pass of \<open>BuildRegistryTable\<close>: \<open>None\<close> is its early return.\<close>

fun registry_strings_bytes :: "u64 \<Rightarrow> RegistryDwordEntry list \<Rightarrow> u64 option" where
  "registry_strings_bytes stringsBytes [] = Some stringsBytes"
| "registry_strings_bytes stringsBytes (e # es) =
     (if name e = [] \<or> 0 \<in> set (name e) then None
      else if 0xFFFFFFFF - of_nat (length (name e)) - 1 < stringsBytes then None
      else registry_strings_bytes (stringsBytes + (of_nat (length (name e)) + 1)) es)"

text \<open>The entry pass: entry \<open>i\<close> at \<open>8 + 16 * i\<close>, its zero-terminated name at the string cursor.\<close>

fun BuildRegistryTable_entries ::
  "nat \<Rightarrow> nat \<Rightarrow> RegistryDwordEntry list \<Rightarrow> byte list \<Rightarrow> byte list option" where
  "BuildRegistryTable_entries i stringCursor [] out = Some out"
| "BuildRegistryTable_entries i stringCursor (e # es) out = do {
     let off = 8 + i * 16;
     out1 \<leftarrow> write_all out [st32 (off + 0) (of_nat stringCursor), st8 (off + 4) 1,
       st32 (off + 8) (value e), st32 (off + 12) 4];
     out2 \<leftarrow> wr_seq out1 stringCursor (name e);
     let stringCursor = stringCursor + length (name e);
     out3 \<leftarrow> wr out2 stringCursor 0;
     BuildRegistryTable_entries (Suc i) (stringCursor + 1) es out3 }"

definition BuildRegistryTable :: "RegistryDwordEntry list \<Rightarrow> byte list option option" where
  "BuildRegistryTable entries =
     (if (U32_MAX - 8) div 16 < length entries then Some None
      else case registry_strings_bytes 0 entries of
        None \<Rightarrow> Some None
      | Some stringsBytes \<Rightarrow>
          let entriesBytes = of_nat (length entries) * 16 :: u64;
              total' = 8 + entriesBytes + stringsBytes
          in if 0xFFFFFFFF < total' \<or> SIZE_MAX < unat total' then Some None
          else do {
            out \<leftarrow> write_all (replicate (unat total') 0)
              [st32 0 (ucast total'), st32 4 (of_nat (length entries))];
            out' \<leftarrow> BuildRegistryTable_entries 0 (unat (8 + entriesBytes)) entries out;
            Some (Some out') })"

definition DefaultBootstrapRegistry :: "RegistryDwordEntry list" where
  "DefaultBootstrapRegistry =
     [\<lparr>name = map of_char ''RMForcePcieConfigSave'', value = 1\<rparr>,
      \<lparr>name = map of_char ''RMSecBusResetEnable'', value = 1\<rparr>]"

text \<open>The transmit header of the command queue.\<close>

definition queue_header_fields :: "u64 \<Rightarrow> u32 \<Rightarrow> store list" where
  "queue_header_fields queue msgCount =
     [st32 0 0,
      st32 4 (ucast queue),
      st32 8 kBootstrapMessageSize,
      st32 12 msgCount,
      st32 16 0,
      st32 20 1,
      st32 24 kQueueTxHeaderBytes,
      st32 28 kBootstrapEntryOffset]"

definition BuildBootstrapCommandQueue ::
  "QueueMemoryLayout \<Rightarrow> GspSystemInfoInputs \<Rightarrow> RegistryDwordEntry list \<Rightarrow>
     BootstrapQueueImage option option" where
  "BuildBootstrapCommandQueue layout systemInfo registry =
     (if 0xFFFFFFFF < queueBytes layout \<or> queueBytes layout < ucast (3 * kBootstrapMessageSize) \<or>
         SIZE_MAX < unat (queueBytes layout) \<or>
         queueBytes layout mod ucast kBootstrapMessageSize \<noteq> 0 then Some None
      else let msgCount = ucast ((queueBytes layout - ucast kBootstrapEntryOffset) div
                 ucast kBootstrapMessageSize) :: u32
      in if msgCount < 2 then Some None
      else do {
        reg \<leftarrow> BuildRegistryTable registry;
        case reg of
          None \<Rightarrow> Some None
        | Some reg \<Rightarrow> do {
            sys \<leftarrow> BuildGspSystemInfo570 systemInfo;
            sysRecord \<leftarrow> BuildRpcRecord kRpcFunctionGspSetSystemInfo sys 0
              (unat kBootstrapMessageSize) 16;
            regRecord \<leftarrow> BuildRpcRecord kRpcFunctionSetRegistry reg 1
              (unat kBootstrapMessageSize) 16;
            case (sysRecord, regRecord) of
              (Some sysRecord, Some regRecord) \<Rightarrow> do {
                b \<leftarrow> write_all (replicate (unat (queueBytes layout)) 0)
                  (queue_header_fields (queueBytes layout) msgCount);
                put1 \<leftarrow> PutRecord b msgCount 0 sysRecord;
                case put1 of
                  None \<Rightarrow> Some None
                | Some (b, wp) \<Rightarrow> do {
                    put2 \<leftarrow> PutRecord b msgCount wp regRecord;
                    case put2 of
                      None \<Rightarrow> Some None
                    | Some (b, wp) \<Rightarrow> do {
                        b \<leftarrow> StoreLe32 b 16 wp;
                        Some (Some \<lparr>BootstrapQueueImage.bytes = b, records = (sysRecord, regRecord),
                          finalWritePointer = wp\<rparr>) } } }
            | _ \<Rightarrow> Some None } })"

definition BuildSharedQueueAllocationImage ::
  "QueueMemoryLayout \<Rightarrow> u64 list \<Rightarrow> GspSystemInfoInputs \<Rightarrow> RegistryDwordEntry list \<Rightarrow>
     SharedQueueAllocationImage option option" where
  "BuildSharedQueueAllocationImage layout dmaPageAddresses systemInfo registry =
     (if dmaPageAddresses = [] then Some None
      else if SIZE_MAX < unat (totalBytes layout) then Some None
      else if totalBytes layout < commandQueueOffset layout \<or>
              totalBytes layout - commandQueueOffset layout < queueBytes layout then Some None
      else if totalBytes layout < statusQueueOffset layout \<or>
              totalBytes layout - statusQueueOffset layout < queueBytes layout then Some None
      else do {
        table' \<leftarrow> BuildQueuePageTable layout dmaPageAddresses;
        queue' \<leftarrow> BuildBootstrapCommandQueue layout systemInfo registry;
        case (table', queue') of
          (Some pageTable, Some queue) \<Rightarrow>
            if length pageTable \<noteq> unat (pageTableBytes layout) \<or>
               length (BootstrapQueueImage.bytes queue) \<noteq> unat (queueBytes layout)
            then Some None
            else do {
              b1 \<leftarrow> wr_seq (replicate (unat (totalBytes layout)) 0) 0 pageTable;
              b2 \<leftarrow> wr_seq b1 (unat (commandQueueOffset layout)) (BootstrapQueueImage.bytes queue);
              args \<leftarrow> BuildCachedArguments layout (hd dmaPageAddresses);
              Some (Some \<lparr>bytes = b2, cachedArguments = args, commandQueue = queue\<rparr>) }
        | _ \<Rightarrow> Some None })"

section \<open>The PCI address and the system information block\<close>

lemma EncodePciBdf_fields:
  assumes "EncodePciBdf bus device func = Some v"
  shows "unat v div 2 ^ 8 = unat bus \<and> unat v div 2 ^ 3 mod 2 ^ 5 = unat device \<and>
    unat v mod 2 ^ 3 = unat func"
proof -
  have g: "unat bus \<le> 255" "unat device \<le> 31" "unat func \<le> 7"
    and v: "v = (push_bit 8 (ucast bus) OR push_bit 3 (ucast device)) OR ucast func"
    using assms by (auto simp: EncodePciBdf_def word_less_nat_alt not_less split: if_splits)
  have n: "drop_bit 5 device = 0" "drop_bit 3 func = 0"
    using g by (simp_all add: drop_bit_eq_0_iff)
  have "bit device (5 + k) = bit (drop_bit 5 device) k" "bit func (3 + k) = bit (drop_bit 3 func) k" for k
    by (simp_all add: bit_drop_bit_eq)
  then have hi: "\<not> bit device (5 + k)" "\<not> bit func (3 + k)" for k
    by (simp_all add: n)
  have hi': "\<not> k < 5 \<Longrightarrow> \<not> bit device k" "\<not> k < 3 \<Longrightarrow> \<not> bit func k" for k
    using hi(1) [of "k - 5"] hi(2) [of "k - 3"] by simp_all
  have "drop_bit 8 v = ucast bus"
    unfolding v by (rule bit_word_eqI) (auto simp: bit_simps hi hi' dest: bit_imp_le_length)
  moreover have "take_bit 5 (drop_bit 3 v) = ucast device"
    unfolding v by (rule bit_word_eqI) (auto simp: bit_simps hi hi' dest: bit_imp_le_length)
  moreover have "take_bit 3 v = ucast func"
    unfolding v by (rule bit_word_eqI) (auto simp: bit_simps hi hi' dest: bit_imp_le_length)
  ultimately have "unat (drop_bit 8 v) = unat bus" "unat (take_bit 5 (drop_bit 3 v)) = unat device"
    "unat (take_bit 3 v) = unat func" by simp_all
  then show ?thesis
    by (simp add: unsigned_drop_bit_eq unsigned_take_bit_eq drop_bit_eq_div take_bit_eq_mod
        unat_div_distrib unat_mod_distrib)
qed

interpretation system_info: record_layout system_info_fields "\<lambda>_. 928"
  by unfold_locales (simp add: system_info_fields_def)

lemma BuildGspSystemInfo570_encode: "BuildGspSystemInfo570 i = system_info.encode i"
  by (simp add: BuildGspSystemInfo570_def system_info.encode_def bootstrap_consts)

section \<open>The registry table\<close>

definition registry_bytes :: "RegistryDwordEntry list \<Rightarrow> nat" where
  "registry_bytes es = (\<Sum>e\<leftarrow>es. length (name e) + 1)"

definition names_ok :: "RegistryDwordEntry list \<Rightarrow> bool" where
  "names_ok es \<longleftrightarrow> (\<forall>e \<in> set es. name e \<noteq> [] \<and> 0 \<notin> set (name e))"

lemma registry_strings_bytes_spec:
  assumes "unat acc + registry_bytes es < 2 ^ 64"
  shows "case registry_strings_bytes acc es of
      None \<Rightarrow> \<not> names_ok es \<or> U32_MAX < unat acc + registry_bytes es
    | Some n \<Rightarrow> names_ok es \<and> unat n = unat acc + registry_bytes es"
  using assms
proof (induction es arbitrary: acc)
  case (Cons e es)
  let ?n = "length (name e)"
  have n: "unat acc + (?n + 1) + registry_bytes es < 2 ^ 64" using Cons.prems by (simp add: registry_bytes_def)
  then have n1: "unat (of_nat ?n :: u64) = ?n" "unat (of_nat ?n + 1 :: u64) = ?n + 1"
    using unat_of_nat_small(4) [of ?n] unat_of_nat_small(4) [of "?n + 1"] by (simp_all add: add.commute)
  have acc': "unat (acc + (of_nat ?n + 1)) = unat acc + (?n + 1)"
    using n n1 by (subst unat_add_nowrap) simp_all
  show ?case
  proof (cases "name e = [] \<or> 0 \<in> set (name e)")
    case True
    then show ?thesis by (auto simp: names_ok_def)
  next
    case good: False
    show ?thesis
    proof (cases "0xFFFFFFFF - of_nat ?n - 1 < acc")
      case True
      have "U32_MAX < unat acc + (?n + 1)"
      proof (rule ccontr)
        assume "\<not> U32_MAX < unat acc + (?n + 1)"
        then have le: "?n + 1 \<le> U32_MAX" "unat acc + (?n + 1) \<le> U32_MAX" by simp_all
        have "(of_nat ?n + 1 :: u64) \<le> 0xFFFFFFFF" using le(1) n1(2) by (simp add: word_le_nat_alt)
        from unat_sub [OF this] have "unat (0xFFFFFFFF - (of_nat ?n + 1) :: u64) = U32_MAX - (?n + 1)"
          unfolding n1(2) by (simp del: of_nat_Suc)
        moreover have "0xFFFFFFFF - of_nat ?n - 1 = (0xFFFFFFFF - (of_nat ?n + 1) :: u64)" by simp
        ultimately show False using True le(2) by (simp add: word_less_nat_alt)
      qed
      then show ?thesis using True good by (simp add: registry_bytes_def)
    next
      case False
      have "unat (acc + (of_nat ?n + 1)) + registry_bytes es < 2 ^ 64" using n acc' by simp
      from Cons.IH [OF this] show ?thesis
        using good False acc' by (auto simp: registry_bytes_def names_ok_def split: option.splits)
    qed
  qed
qed (simp add: registry_bytes_def names_ok_def)

text \<open>One entry of a table: its name offset, type, value, length, and its terminated name.\<close>

definition registry_entry :: "byte list \<Rightarrow> nat \<Rightarrow> nat \<Rightarrow> RegistryDwordEntry \<Rightarrow> bool" where
  "registry_entry b off cursor e \<longleftrightarrow>
     off + 16 \<le> length b \<and> cursor + length (name e) + 1 \<le> length b \<and>
     slice b off 4 = le_bytes 4 (of_nat cursor :: u32) \<and> b ! (off + 4) = 1 \<and>
     slice b (off + 8) 4 = le_bytes 4 (value e) \<and> slice b (off + 12) 4 = le_bytes 4 (4 :: u32) \<and>
     slice b cursor (length (name e) + 1) = name e @ [0]"

lemma slice_cong:
  assumes "length b' = length b" and "\<And>k. off \<le> k \<Longrightarrow> k < off + n \<Longrightarrow> b' ! k = b ! k"
  shows "slice b' off n = slice b off n"
  using assms by (intro nth_equalityI) (auto simp: slice_def)

lemma registry_entry_cong:
  assumes "registry_entry b off cursor e" and "length b' = length b"
    and "\<And>k. off \<le> k \<Longrightarrow> k < off + 16 \<Longrightarrow> b' ! k = b ! k"
    and "\<And>k. cursor \<le> k \<Longrightarrow> k < cursor + length (name e) + 1 \<Longrightarrow> b' ! k = b ! k"
  shows "registry_entry b' off cursor e"
proof -
  have "slice b' (off + d) 4 = slice b (off + d) 4" if "d \<le> 12" for d
    using that assms(2,3) by (intro slice_cong) auto
  from this [of 0] this [of 8] this [of 12] have
    "slice b' off 4 = slice b off 4" "slice b' (off + 8) 4 = slice b (off + 8) 4"
    "slice b' (off + 12) 4 = slice b (off + 12) 4" by simp_all
  moreover have "slice b' cursor (length (name e) + 1) = slice b cursor (length (name e) + 1)"
    using assms(2,4) by (intro slice_cong) auto
  moreover have "b' ! (off + 4) = b ! (off + 4)" using assms(3) by simp
  ultimately show ?thesis using assms(1,2) by (simp add: registry_entry_def)
qed

lemma registry_bytes_simps [simp]:
  "registry_bytes [] = 0" "registry_bytes (e # es) = length (name e) + 1 + registry_bytes es"
  by (simp_all add: registry_bytes_def)

text \<open>Writing one entry.\<close>

lemma registry_entry_step:
  assumes "8 + 16 * i + 16 \<le> cursor" and "cursor + length (name e) + 1 \<le> length out"
  shows "\<exists>out'. (do {
      out1 \<leftarrow> write_all out [st32 (8 + 16 * i + 0) (of_nat cursor), st8 (8 + 16 * i + 4) 1,
        st32 (8 + 16 * i + 8) (value e), st32 (8 + 16 * i + 12) 4];
      out2 \<leftarrow> wr_seq out1 cursor (name e);
      wr out2 (cursor + length (name e)) 0 }) = Some out' \<and> length out' = length out \<and>
    registry_entry out' (8 + 16 * i) cursor e \<and>
    (\<forall>k. k < 8 + 16 * i \<or> (8 + 16 * i + 16 \<le> k \<and> k < cursor) \<longrightarrow> out' ! k = out ! k)"
proof -
  let ?o = "8 + 16 * i" and ?n = "length (name e)"
  let ?fs = "[st32 (?o + 0) (of_nat cursor), st8 (?o + 4) 1, st32 (?o + 8) (value e), st32 (?o + 12) 4]"
  have inside: "fields_in ?o ?fs (length out)" using assms by simp
  obtain out1 where out1: "write_all out ?fs = Some out1" and len1: "length out1 = length out"
    and fs1: "\<forall>(off, vs) \<in> set ?fs. slice out1 off (length vs) = vs"
    and same1: "\<forall>k < length out. (\<forall>(off, vs) \<in> set ?fs. \<not> (off \<le> k \<and> k < off + length vs)) \<longrightarrow> out1 ! k = out ! k"
    using write_all_layout [OF inside] by blast
  have keep1: "out1 ! k = out ! k" if "k < ?o \<or> ?o + 16 \<le> k" "k < length out" for k
    using that by (intro same1 [rule_format]) auto
  let ?out = "put out1 cursor (name e @ [0])"
  have bound: "cursor + length (name e @ [0 :: byte]) \<le> length out1" using assms(2) len1 by simp
  have "wr_seq out1 cursor (name e @ [0]) = Some ?out" using bound by (simp add: wr_seq_eq)
  moreover have "wr_seq out1 cursor (name e @ [0]) =
      do { out2 \<leftarrow> wr_seq out1 cursor (name e); wr out2 (cursor + ?n) 0 }"
  proof -
    have "wr_seq xs c (vs @ [v]) = do { ys \<leftarrow> wr_seq xs c vs; wr ys (c + length vs) v }"
      for xs :: "byte list" and c vs v
      by (induction vs arbitrary: xs c) (auto split: bind_splits)
    then show ?thesis .
  qed
  ultimately have "(do { out1 \<leftarrow> write_all out ?fs; out2 \<leftarrow> wr_seq out1 cursor (name e);
      wr out2 (cursor + ?n) 0 }) = Some ?out" using out1 by simp
  moreover have len: "length ?out = length out" using bound len1 by simp
  moreover have keep: "?out ! k = out1 ! k" if "k < cursor" for k
    using that bound len1 by (simp add: nth_put)
  have "registry_entry ?out ?o cursor e"
  proof -
    have "slice ?out (?o + d) 4 = slice out1 (?o + d) 4" if "d \<le> 12" for d
      using that keep assms(1) bound by (intro slice_cong) auto
    from this [of 0] this [of 8] this [of 12] have s: "slice ?out ?o 4 = slice out1 ?o 4"
      "slice ?out (?o + 8) 4 = slice out1 (?o + 8) 4" "slice ?out (?o + 12) 4 = slice out1 (?o + 12) 4"
      by simp_all
    have f: "slice out1 ?o 4 = le_bytes 4 (of_nat cursor :: u32)" "slice out1 (?o + 4) 1 = [1]"
      "slice out1 (?o + 8) 4 = le_bytes 4 (value e)" "slice out1 (?o + 12) 4 = le_bytes 4 (4 :: u32)"
      using fs1 by (simp_all del: le_bytes.simps)
    have "slice out1 (?o + 4) 1 = [out1 ! (?o + 4)]" using assms len1 by (simp add: slice_def take_Suc hd_drop_conv_nth)
    then have "?out ! (?o + 4) = 1" using f(2) keep [of "?o + 4"] assms(1) by simp
    moreover have "slice ?out cursor (?n + 1) = name e @ [0]" using bound by (intro slice_put_same) simp_all
    ultimately show ?thesis
      using s f assms len unfolding registry_entry_def by simp
  qed
  moreover have "?out ! k = out ! k" if "k < ?o \<or> (?o + 16 \<le> k \<and> k < cursor)" for k
    using that keep [of k] keep1 [of k] assms by auto
  ultimately show ?thesis by blast
qed

lemma BuildRegistryTable_entries_spec:
  assumes "8 + 16 * (i + length es) \<le> cursor" and "cursor + registry_bytes es \<le> length out"
  shows "\<exists>out'. BuildRegistryTable_entries i cursor es out = Some out' \<and> length out' = length out \<and>
    (\<forall>k. k < 8 + 16 * i \<or> (8 + 16 * (i + length es) \<le> k \<and> k < cursor) \<longrightarrow> out' ! k = out ! k) \<and>
    (\<forall>j < length es. registry_entry out' (8 + 16 * (i + j)) (cursor + registry_bytes (take j es)) (es ! j))"
  using assms
proof (induction es arbitrary: i cursor out)
  case (Cons e es)
  let ?n = "length (name e)"
  have "8 + 16 * i + 16 \<le> cursor" "cursor + ?n + 1 \<le> length out" using Cons.prems by simp_all
  from registry_entry_step [OF this] obtain out1 where
    out1: "(do {
      out1 \<leftarrow> write_all out [st32 (8 + 16 * i + 0) (of_nat cursor), st8 (8 + 16 * i + 4) 1,
        st32 (8 + 16 * i + 8) (value e), st32 (8 + 16 * i + 12) 4];
      out2 \<leftarrow> wr_seq out1 cursor (name e);
      wr out2 (cursor + length (name e)) 0 }) = Some out1" and len1: "length out1 = length out"
    and e1: "registry_entry out1 (8 + 16 * i) cursor e"
    and same1: "\<forall>k. k < 8 + 16 * i \<or> (8 + 16 * i + 16 \<le> k \<and> k < cursor) \<longrightarrow> out1 ! k = out ! k"
    by blast
  have "8 + 16 * (Suc i + length es) \<le> cursor + ?n + 1"
    "cursor + ?n + 1 + registry_bytes es \<le> length out1" using Cons.prems len1 by simp_all
  from Cons.IH [OF this] obtain out' where
    out': "BuildRegistryTable_entries (Suc i) (cursor + ?n + 1) es out1 = Some out'" "length out' = length out1"
    and same': "\<forall>k. k < 8 + 16 * Suc i \<or> (8 + 16 * (Suc i + length es) \<le> k \<and> k < cursor + ?n + 1) \<longrightarrow> out' ! k = out1 ! k"
    and es': "\<forall>j < length es. registry_entry out' (8 + 16 * (Suc i + j)) (cursor + ?n + 1 + registry_bytes (take j es)) (es ! j)"
    by blast
  have "BuildRegistryTable_entries i cursor (e # es) out = Some out'"
    using out1 out'(1) by (auto simp: Let_def mult.commute [of i] Option.bind_eq_Some_conv simp del: write_all.simps)
  moreover have "length out' = length out" using out'(2) len1 by simp
  moreover have "registry_entry out' (8 + 16 * (i + j)) (cursor + registry_bytes (take j (e # es))) ((e # es) ! j)"
    if "j < length (e # es)" for j
  proof (cases j)
    case 0
    have "registry_entry out' (8 + 16 * i) cursor e"
      by (rule registry_entry_cong [OF e1 out'(2)]; rule same' [rule_format]) (use Cons.prems in simp_all)
    then show ?thesis using 0 by simp
  next
    case (Suc j')
    then show ?thesis using es' [rule_format, of j'] that by (simp add: add.assoc)
  qed
  moreover have "\<forall>k. k < 8 + 16 * i \<or> (8 + 16 * (i + length (e # es)) \<le> k \<and> k < cursor) \<longrightarrow> out' ! k = out ! k"
    using same1 same' by auto
  ultimately show ?case by blast
qed simp

definition registry_size :: "RegistryDwordEntry list \<Rightarrow> nat" where
  "registry_size es = 8 + 16 * length es + registry_bytes es"

definition registry_table :: "RegistryDwordEntry list \<Rightarrow> byte list \<Rightarrow> bool" where
  "registry_table es t \<longleftrightarrow> length t = registry_size es \<and>
     LoadLe32 t 0 = Some (of_nat (registry_size es)) \<and> LoadLe32 t 4 = Some (of_nat (length es)) \<and>
     (\<forall>j < length es. registry_entry t (8 + 16 * j)
        (8 + 16 * length es + registry_bytes (take j es)) (es ! j))"

lemma BuildRegistryTable_eq:
  assumes "registry_bytes es < 2 ^ 63"
  shows "if names_ok es \<and> registry_size es \<le> U32_MAX
    then \<exists>t. BuildRegistryTable es = Some (Some t) \<and> registry_table es t
    else BuildRegistryTable es = Some None"
proof (cases "(U32_MAX - 8) div 16 < length es")
  case True
  then have "U32_MAX < registry_size es" by (simp add: registry_size_def)
  then show ?thesis using True by (simp add: BuildRegistryTable_def)
next
  case False
  let ?n = "length es" and ?r = "registry_bytes es"
  have n: "16 * ?n < 2 ^ 33" using False by simp
  have strings: "case registry_strings_bytes 0 es of
      None \<Rightarrow> \<not> names_ok es \<or> U32_MAX < ?r | Some k \<Rightarrow> names_ok es \<and> unat k = ?r"
    using registry_strings_bytes_spec [of 0 es] assms by (simp split: option.splits)
  show ?thesis
  proof (cases "registry_strings_bytes 0 es")
    case None
    then have "\<not> names_ok es \<or> U32_MAX < registry_size es" using strings by (auto simp: registry_size_def)
    then show ?thesis using None False by (auto simp: BuildRegistryTable_def)
  next
    case (Some k)
    then have names: "names_ok es" and k: "unat k = ?r" using strings by simp_all
    let ?e = "of_nat ?n * 16 :: u64"
    let ?t = "8 + ?e + k"
    have un: "unat (of_nat ?n :: u64) = ?n" using n by (intro unat_of_nat_small) simp
    have e: "unat ?e = 16 * ?n" using n un by (subst unat_mult_nowrap) simp_all
    have e8: "unat (8 + ?e) = 8 + 16 * ?n" using n e by (subst unat_add_nowrap) simp_all
    have t: "unat ?t = registry_size es"
      using n e8 k assms by (subst unat_add_nowrap) (simp_all add: registry_size_def)
    show ?thesis
    proof (cases "registry_size es \<le> U32_MAX")
      case False
      then have "0xFFFFFFFF < ?t" by (simp add: word_less_nat_alt t)
      then show ?thesis using Some False by (simp add: BuildRegistryTable_def Let_def)
    next
      case True
      then have g: "\<not> (0xFFFFFFFF < ?t \<or> SIZE_MAX < unat ?t)" by (simp add: word_less_nat_alt t)
      let ?h = "[st32 0 (ucast ?t), st32 4 (of_nat ?n)]"
      have "fields_in 0 ?h (length (replicate (unat ?t) (0 :: byte)))" by (simp add: t registry_size_def)
      from write_all_layout [OF this] obtain b where b: "write_all (replicate (unat ?t) 0) ?h = Some b"
        "length b = registry_size es" and h: "slice b 0 4 = le_bytes 4 (ucast ?t :: u32)"
        "slice b 4 4 = le_bytes 4 (of_nat ?n :: u32)" by (auto simp: t simp del: le_bytes.simps)
      obtain b' where b': "BuildRegistryTable_entries 0 (8 + 16 * ?n) es b = Some b'" "length b' = length b"
        and same: "\<forall>i. i < 8 + 16 * 0 \<or> (8 + 16 * (0 + ?n) \<le> i \<and> i < 8 + 16 * ?n) \<longrightarrow> b' ! i = b ! i"
        and ents: "\<forall>j < ?n. registry_entry b' (8 + 16 * (0 + j)) (8 + 16 * ?n + registry_bytes (take j es)) (es ! j)"
        using BuildRegistryTable_entries_spec [of 0 es "8 + 16 * ?n" b] b(2)
        by (auto simp: registry_size_def)
      have tt: "(ucast ?t :: u32) = of_nat (registry_size es)"
        using t by (metis of_nat_unat)
      have "slice b' 0 4 = slice b 0 4" "slice b' 4 4 = slice b 4 4"
        using same b'(2) by (intro slice_cong; simp)+
      then have "registry_table es b'"
        using b(2) b'(2) h ents tt by (simp add: registry_table_def LoadLe_eq registry_size_def del: of_nat_add)
      moreover have "BuildRegistryTable es = Some (Some b')"
        using \<open>\<not> (U32_MAX - 8) div 16 < ?n\<close> Some g b(1) b'(1)
        by (simp add: BuildRegistryTable_def Let_def e8 del: write_all.simps)
      ultimately show ?thesis using names True by auto
    qed
  qed
qed

section \<open>The ring\<close>

text \<open>The record's bytes in ring order: the part that fits up to the end of the ring, and the rest
  from its start.\<close>

definition ring_put :: "byte list \<Rightarrow> nat \<Rightarrow> nat \<Rightarrow> byte list \<Rightarrow> byte list" where
  "ring_put queue slots slot record =
     (let first = (slots - slot) * 4096 in
      if length record \<le> first then put queue (4096 + slot * 4096) record
      else put (put queue (4096 + slot * 4096) (take first record)) 4096 (drop first record))"

lemma PutRecord_eq:
  assumes "elementCount r \<noteq> 0" and "elementCount r \<le> n"
    and "length (RpcRecord.bytes r) = unat (elementCount r) * 4096"
    and "wp < n" and "4096 + unat n * 4096 \<le> length queue"
  shows "PutRecord queue n wp r = Some (Some (ring_put queue (unat n) (unat wp) (RpcRecord.bytes r),
    (wp + elementCount r) mod n))"
proof -
  let ?b = "RpcRecord.bytes r" and ?n = "unat n" and ?w = "unat wp"
  have w: "?w < ?n" and e: "unat (elementCount r) \<le> ?n"
    using assms(2,4) by (simp_all add: word_less_nat_alt word_le_nat_alt)
  have n32: "?n < 2 ^ 32" "?w < 2 ^ 32" by (rule unat_lt(3))+
  define ring off where "ring = (ucast n * ucast kBootstrapMessageSize :: u64)"
    and "off = (ucast wp * ucast kBootstrapMessageSize :: u64)"
  have ring: "unat ring = ?n * 4096" and off: "unat off = ?w * 4096"
    unfolding ring_def off_def bootstrap_consts using n32 by (subst unat_mult_nowrap; simp)+
  have entry: "unat (ucast kBootstrapEntryOffset + ring :: u64) = 4096 + ?n * 4096"
    unfolding bootstrap_consts using n32 ring by (subst unat_add_nowrap) simp_all
  have size: "unat (of_nat (length ?b) :: u64) = length ?b"
    using assms(3) e n32 by (intro unat_of_nat_small) simp
  have "off \<le> ring" using w by (simp add: word_le_nat_alt ring off)
  then have room: "unat (ring - off) = (?n - ?w) * 4096"
    by (simp add: unat_sub ring off diff_mult_distrib)
  have first: "unat (min (of_nat (length ?b)) (ring - off)) = min (length ?b) ((?n - ?w) * 4096)"
    using size room by (auto simp: min_def word_le_nat_alt)
  have fits: "length ?b \<le> ?n * 4096" using assms(3) e by simp
  have n0: "n \<noteq> 0" using w by auto
  have c: "unat kBootstrapEntryOffset = 4096" by (simp add: bootstrap_consts)
  have roomy: "?w * 4096 + (?n - ?w) * 4096 = ?n * 4096" using w by (simp flip: add_mult_distrib)
  define f where "f = min (length ?b) ((?n - ?w) * 4096)"
  have g1: "\<not> (n = 0 \<or> elementCount r = 0 \<or> n < elementCount r)" using assms(1,2) n0 by simp
  have g2: "\<not> (?n * 4096 < length ?b \<or> length queue < 4096 + ?n * 4096)" using fits assms(5) by simp
  have put: "PutRecord queue n wp r = (do {
      head \<leftarrow> rd_seq ?b 0 f;
      queue1 \<leftarrow> wr_seq queue (4096 + ?w * 4096) head;
      queue2 \<leftarrow> (if f < length ?b then wr_seq queue1 4096 (drop f ?b) else Some queue1);
      Some (Some (queue2, (wp + elementCount r) mod n)) })"
    unfolding PutRecord_def Let_def ring_def [symmetric] off_def [symmetric]
    by (simp only: if_not_P [OF g1] ring off entry first c if_not_P [OF g2] f_def)
  have f: "f \<le> length ?b" "4096 + ?w * 4096 + f \<le> length queue"
    using roomy assms(5) by (simp_all add: f_def)
  have rd: "rd_seq ?b 0 f = Some (take f ?b)" using f(1) by (auto simp: rd_seq_eq slice_def simp del: rd_seq.simps)
  let ?q1 = "put queue (4096 + ?w * 4096) (take f ?b)"
  have wr1: "wr_seq queue (4096 + ?w * 4096) (take f ?b) = Some ?q1" and len1: "length ?q1 = length queue"
    using f by (auto simp: wr_seq_eq min_absorb2)
  show ?thesis
  proof (cases "length ?b \<le> (?n - ?w) * 4096")
    case True
    then show ?thesis unfolding put rd using wr1 by (simp add: ring_put_def f_def)
  next
    case False
    then have ff: "f = (?n - ?w) * 4096" "f < length ?b" by (simp_all add: f_def)
    have "4096 + length (drop f ?b) \<le> length ?q1" using fits assms(5) len1 by simp
    then have wr2: "wr_seq ?q1 4096 (drop f ?b) = Some (put ?q1 4096 (drop f ?b))" by (simp only: wr_seq_eq) simp
    show ?thesis
      unfolding put rd bind.bind_lunit wr1 if_P [OF ff(2)] wr2
      using False by (simp add: ring_put_def Let_def ff(1))
  qed
qed

lemma length_ring_put:
  assumes "slot < slots" and "length r \<le> slots * 4096" and "4096 + slots * 4096 \<le> length q"
  shows "length (ring_put q slots slot r) = length q \<and> take 4096 (ring_put q slots slot r) = take 4096 q"
proof -
  have "slot * 4096 + (slots - slot) * 4096 = slots * 4096" using assms(1) by (simp flip: add_mult_distrib)
  then show ?thesis
    using assms(2,3) by (auto simp: ring_put_def Let_def put_def min_def)
qed

section \<open>The command queue\<close>

definition queue_slots :: "QueueMemoryLayout \<Rightarrow> nat" where
  "queue_slots l = unat (queueBytes l) div 4096 - 1"

definition registry_elements :: "RegistryDwordEntry list \<Rightarrow> nat" where
  "registry_elements es = CeilDiv_size (80 + registry_size es) 4096"

definition command_queue_request_ok :: "QueueMemoryLayout \<Rightarrow> RegistryDwordEntry list \<Rightarrow> bool" where
  "command_queue_request_ok l es \<longleftrightarrow>
     unat (queueBytes l) \<le> U32_MAX \<and> 3 * 4096 \<le> unat (queueBytes l) \<and> 4096 dvd unat (queueBytes l) \<and>
     names_ok es \<and> 80 + registry_size es \<le> 16 * 4096 \<and> registry_elements es \<le> queue_slots l"

text \<open>The finished queue: transmit header, then the system record in slot 0 and the registry
  record from slot 1 on (wrapping around when it does not fit).\<close>

definition command_queue_ok ::
  "QueueMemoryLayout \<Rightarrow> GspSystemInfoInputs \<Rightarrow> RegistryDwordEntry list \<Rightarrow> BootstrapQueueImage \<Rightarrow> bool" where
  "command_queue_ok l i es q \<longleftrightarrow>
     (\<exists>sys t h. system_info.encode i = Some sys \<and> registry_table es t \<and>
       rpc_built 72 sys 0 4096 (fst (records q)) \<and> rpc_built 73 t 1 4096 (snd (records q)) \<and>
       elementCount (fst (records q)) = 1 \<and>
       unat (elementCount (snd (records q))) = registry_elements es \<and>
       length h = unat (queueBytes l) \<and>
       word_at h 4 = ucast (queueBytes l) \<and> word_at h 8 = 4096 \<and>
       unat (word_at h 12) = queue_slots l \<and> word_at h 24 = 32 \<and> word_at h 28 = 4096 \<and>
       unat (finalWritePointer q) = (1 + registry_elements es) mod queue_slots l \<and>
       BootstrapQueueImage.bytes q = put (ring_put (put h 4096 (RpcRecord.bytes (fst (records q))))
         (queue_slots l) 1 (RpcRecord.bytes (snd (records q)))) 16 (le_bytes 4 (finalWritePointer q)))"

lemma rpc_request_4096:
  "rpc_request_ok n 4096 16 \<longleftrightarrow> 80 + n \<le> 16 * 4096"
proof -
  have "80 + n \<le> 16 * 4096 \<Longrightarrow> CeilDiv_size (80 + n) 4096 \<le> 16" by (simp add: CeilDiv_size_le_iff)
  then show ?thesis by (auto simp: rpc_request_ok_def)
qed

lemma queue_guard_iff:
  "(0xFFFFFFFF < qb \<or> qb < ucast (3 * kBootstrapMessageSize) \<or> SIZE_MAX < unat qb \<or>
      qb mod ucast kBootstrapMessageSize \<noteq> 0) \<longleftrightarrow>
    \<not> (unat qb \<le> U32_MAX \<and> 3 * 4096 \<le> unat qb \<and> 4096 dvd unat (qb :: u64))"
proof -
  have "\<not> SIZE_MAX < unat qb" using unat_lt(4) [of qb] by linarith
  moreover have "qb mod ucast kBootstrapMessageSize \<noteq> 0 \<longleftrightarrow> \<not> 4096 dvd unat qb"
    by (simp add: word_mod_eq_0_iff bootstrap_consts)
  moreover have "qb < ucast (3 * kBootstrapMessageSize) \<longleftrightarrow> unat qb < 3 * 4096"
    by (simp add: bootstrap_consts word_less_nat_alt)
  moreover have "0xFFFFFFFF < qb \<longleftrightarrow> U32_MAX < unat qb" by (simp add: word_less_nat_alt)
  ultimately show ?thesis by linarith
qed

lemma queue_slots_word:
  assumes "unat qb \<le> U32_MAX" and "3 * 4096 \<le> unat (qb :: u64)" and "4096 dvd unat qb"
  shows "unat (ucast ((qb - ucast kBootstrapEntryOffset) div ucast kBootstrapMessageSize) :: u32) =
      unat qb div 4096 - 1 \<and> 2 \<le> unat qb div 4096 - 1 \<and> 4096 + (unat qb div 4096 - 1) * 4096 = unat qb"
proof -
  obtain k where k: "unat qb = 4096 * k" using assms(3) by (elim dvdE)
  have "(4096 :: u64) \<le> qb" using assms(2) by (simp add: word_le_nat_alt)
  from unat_sub [OF this] have "unat (qb - 4096) = 4096 * k - 4096" by (simp add: k)
  then have u: "unat ((qb - 4096) div 4096) = k - 1" by (simp add: unat_div_distrib)
  have "k - 1 < 2 ^ 32" using assms(1) k by simp
  then have "unat (ucast ((qb - 4096) div 4096) :: u32) = k - 1" using u unat_ucast_narrow [where 'b = 32, of "(qb - 4096) div 4096"] by simp
  moreover have "3 \<le> k" using assms(2) k by simp
  moreover from this have "2 \<le> k - 1" "4096 + (k - 1) * 4096 = 4096 * k" by (simp_all add: diff_mult_distrib)
  ultimately show ?thesis by (simp add: bootstrap_consts k)
qed

lemma BuildBootstrapCommandQueue_eq:
  assumes small: "registry_bytes es < 2 ^ 63"
  shows "if command_queue_request_ok l es
    then \<exists>q. BuildBootstrapCommandQueue l i es = Some (Some q) \<and> command_queue_ok l i es q
    else BuildBootstrapCommandQueue l i es = Some None"
proof (cases "unat (queueBytes l) \<le> U32_MAX \<and> 3 * 4096 \<le> unat (queueBytes l) \<and> 4096 dvd unat (queueBytes l)")
  case False
  then have "BuildBootstrapCommandQueue l i es = Some None"
    unfolding BuildBootstrapCommandQueue_def queue_guard_iff by (rule if_P)
  moreover have "\<not> command_queue_request_ok l es" using False by (auto simp: command_queue_request_ok_def)
  ultimately show ?thesis by simp
next
  case guards: True
  define n where "n = (ucast ((queueBytes l - ucast kBootstrapEntryOffset) div ucast kBootstrapMessageSize) :: u32)"
  have n: "unat n = queue_slots l" "2 \<le> queue_slots l" "4096 + queue_slots l * 4096 = unat (queueBytes l)"
    using queue_slots_word [of "queueBytes l"] guards by (auto simp: n_def queue_slots_def)
  have n2: "\<not> n < 2" using n by (simp add: word_less_nat_alt)
  have g: "\<not> \<not> (unat (queueBytes l) \<le> U32_MAX \<and> 3 * 4096 \<le> unat (queueBytes l) \<and> 4096 dvd unat (queueBytes l))"
    using guards by blast
  note start = BuildBootstrapCommandQueue_def [of l i es, unfolded queue_guard_iff if_not_P [OF g],
      folded n_def, unfolded Let_def if_not_P [OF n2]]
  show ?thesis
  proof (cases "names_ok es \<and> registry_size es \<le> U32_MAX")
    case False
    then have "BuildRegistryTable es = Some None"
      using BuildRegistryTable_eq [OF small] unfolding if_not_P [OF False] by simp
    then have "BuildBootstrapCommandQueue l i es = Some None" unfolding start by simp
    moreover have "\<not> command_queue_request_ok l es" using False by (auto simp: command_queue_request_ok_def)
    ultimately show ?thesis by simp
  next
    case names: True
    obtain t where t: "BuildRegistryTable es = Some (Some t)" "registry_table es t"
      using BuildRegistryTable_eq [OF small] unfolding if_P [OF names] by blast
    have t_len: "length t = registry_size es" using t(2) by (simp add: registry_table_def)
    obtain sys where sys: "BuildGspSystemInfo570 i = Some sys" "system_info.encode i = Some sys" "length sys = 928"
      using system_info.encode_total [of i] system_info.length_encode [of i]
      by (auto simp: BuildGspSystemInfo570_encode)
    have msg: "unat kBootstrapMessageSize = 4096" by (simp add: bootstrap_consts)
    have "rpc_request_ok (length sys) 4096 16" by (simp add: sys(3) rpc_request_4096)
    from BuildRpcRecord_accepts [OF this] obtain r1 where
      r1: "BuildRpcRecord 72 sys 0 4096 16 = Some (Some r1)" "rpc_built 72 sys 0 4096 r1" by blast
    have e1: "elementCount r1 = 1" and len1: "length (RpcRecord.bytes r1) = 4096"
      using r1(2) by (simp_all add: rpc_built_def sys(3) CeilDiv_size_def word_unat_eq_iff)
    note funcs = kRpcFunctionGspSetSystemInfo_def kRpcFunctionSetRegistry_def
    show ?thesis
    proof (cases "80 + registry_size es \<le> 16 * 4096")
      case False
      then have "BuildRpcRecord 73 t 1 4096 16 = Some None"
        by (intro BuildRpcRecord_rejects) (simp add: t_len rpc_request_4096)
      then have "BuildBootstrapCommandQueue l i es = Some None"
        unfolding start msg funcs by (simp add: t(1) sys(1) r1(1))
      moreover have "\<not> command_queue_request_ok l es" using False by (auto simp: command_queue_request_ok_def)
      ultimately show ?thesis by simp
    next
      case fits: True
      then have "rpc_request_ok (length t) 4096 16" by (simp add: t_len rpc_request_4096)
      from BuildRpcRecord_accepts [OF this] obtain r2 where
        r2: "BuildRpcRecord 73 t 1 4096 16 = Some (Some r2)" "rpc_built 73 t 1 4096 r2" by blast
      have e2: "unat (elementCount r2) = registry_elements es"
        and len2: "length (RpcRecord.bytes r2) = unat (elementCount r2) * 4096"
        using r2(2) by (simp_all add: rpc_built_def registry_elements_def t_len)
      have e2pos: "0 < registry_elements es"
        using CeilDiv_size_le_iff [of 4096 "80 + registry_size es" 0] by (simp add: registry_elements_def)
      let ?hf = "queue_header_fields (queueBytes l) n"
      have "fields_in 0 ?hf (length (replicate (unat (queueBytes l)) (0 :: byte)))"
        using guards by (simp add: queue_header_fields_def)
      from write_all_layout [OF this] obtain h where
        h: "write_all (replicate (unat (queueBytes l)) 0) ?hf = Some h" "length h = unat (queueBytes l)"
        and h_fields: "\<forall>(off, vs) \<in> set ?hf. slice h off (length vs) = vs" by auto
      have h_words: "word_at h 4 = ucast (queueBytes l)" "word_at h 8 = 4096" "word_at h 12 = n"
        "word_at h 24 = 32" "word_at h 28 = 4096"
        using h_fields unfolding word_at_def by (simp_all add: queue_header_fields_def bootstrap_consts del: le_bytes.simps)
      have h_len: "4096 + unat n * 4096 \<le> length h" using n h(2) by simp
      have p1: "PutRecord h n 0 r1 = Some (Some (put h 4096 (RpcRecord.bytes r1), 1))"
      proof -
        have "n \<noteq> 0" "1 \<le> n" "0 < n" using n by (auto simp: word_le_nat_alt word_less_nat_alt)
        then have "PutRecord h n 0 r1 = Some (Some (ring_put h (unat n) (unat (0 :: u32)) (RpcRecord.bytes r1),
            (0 + elementCount r1) mod n))"
          using e1 len1 h_len by (intro PutRecord_eq) simp_all
        moreover have "(1 :: u32) mod n = 1" using n by (simp add: word_unat_eq_iff unat_mod_distrib)
        moreover have "ring_put h (unat n) 0 (RpcRecord.bytes r1) = put h 4096 (RpcRecord.bytes r1)"
          using n by (simp add: ring_put_def len1)
        ultimately show ?thesis by (simp add: e1)
      qed
      let ?h1 = "put h 4096 (RpcRecord.bytes r1)"
      have h1_len: "length ?h1 = length h" using n h_len len1 by simp
      note steps = t(1) sys(1) r1(1) r2(1) h(1) p1
      show ?thesis
      proof (cases "registry_elements es \<le> queue_slots l")
        case False
        then have "n < elementCount r2" using n e2 by (simp add: word_less_nat_alt)
        then have "PutRecord ?h1 n 1 r2 = Some None" by (simp add: PutRecord_def)
        then have "BuildBootstrapCommandQueue l i es = Some None"
          unfolding start msg funcs by (simp add: steps)
        moreover have "\<not> command_queue_request_ok l es" using False by (auto simp: command_queue_request_ok_def)
        ultimately show ?thesis by simp
      next
        case ring: True
        let ?h2 = "ring_put ?h1 (queue_slots l) 1 (RpcRecord.bytes r2)" and ?wp = "(1 + elementCount r2) mod n"
        have p2: "PutRecord ?h1 n 1 r2 = Some (Some (?h2, ?wp))"
        proof -
          have "elementCount r2 \<noteq> 0" "elementCount r2 \<le> n" "1 < n"
            using n e2 e2pos ring by (auto simp: word_le_nat_alt word_less_nat_alt)
          then show ?thesis using PutRecord_eq [of r2 n 1 ?h1] len2 h_len h1_len n(1) by simp
        qed
        have wp: "unat ?wp = (1 + registry_elements es) mod queue_slots l"
        proof -
          have "unat (1 + elementCount r2) = 1 + registry_elements es"
            using e2 fits CeilDiv_size_le_iff [of 4096 "80 + registry_size es" 16]
            by (subst unat_add_nowrap) (simp_all add: registry_elements_def)
          then show ?thesis by (simp add: unat_mod_distrib n(1))
        qed
        have "length ?h2 = length h"
          using length_ring_put [of 1 "queue_slots l" "RpcRecord.bytes r2" ?h1] n ring len2 e2 h1_len h(2) by simp
        then have b: "StoreLe32 ?h2 16 ?wp = Some (put ?h2 16 (le_bytes 4 ?wp))"
          using h_len by (simp add: StoreLe_eq)
        let ?q = "\<lparr>BootstrapQueueImage.bytes = put ?h2 16 (le_bytes 4 ?wp), records = (r1, r2), finalWritePointer = ?wp\<rparr>"
        have "BuildBootstrapCommandQueue l i es = Some (Some ?q)"
          unfolding start msg funcs by (simp add: steps p2 b del: One_nat_def)
        moreover have "command_queue_ok l i es ?q"
          unfolding command_queue_ok_def using sys(2) t(2) r1(2) r2(2) e1 e2 h(2) h_words n(1) wp
          by (intro exI [of _ sys] exI [of _ t] exI [of _ h]) auto
        moreover have "command_queue_request_ok l es"
          using guards names fits ring by (simp add: command_queue_request_ok_def)
        ultimately show ?thesis by auto
      qed
    qed
  qed
qed

text \<open>Reading the finished queue: its header, and its records when they do not wrap.\<close>

lemma command_queue_header:
  assumes "command_queue_ok l i es q" and "command_queue_request_ok l es"
  shows "length (BootstrapQueueImage.bytes q) = unat (queueBytes l) \<and>
    word_at (BootstrapQueueImage.bytes q) 4 = ucast (queueBytes l) \<and>
    word_at (BootstrapQueueImage.bytes q) 8 = 4096 \<and>
    unat (word_at (BootstrapQueueImage.bytes q) 12) = queue_slots l \<and>
    word_at (BootstrapQueueImage.bytes q) 16 = finalWritePointer q \<and>
    word_at (BootstrapQueueImage.bytes q) 24 = 32 \<and> word_at (BootstrapQueueImage.bytes q) 28 = 4096 \<and>
    unat (finalWritePointer q) = (1 + registry_elements es) mod queue_slots l"
proof -
  let ?r1 = "RpcRecord.bytes (fst (records q))" and ?r2 = "RpcRecord.bytes (snd (records q))"
  obtain sys t h where q: "length h = unat (queueBytes l)"
    "word_at h 4 = ucast (queueBytes l)" "word_at h 8 = 4096" "unat (word_at h 12) = queue_slots l"
    "word_at h 24 = 32" "word_at h 28 = 4096"
    "unat (finalWritePointer q) = (1 + registry_elements es) mod queue_slots l"
    and len1: "length ?r1 = 4096" and len2: "length ?r2 = registry_elements es * 4096"
    and b: "BootstrapQueueImage.bytes q = put (ring_put (put h 4096 ?r1) (queue_slots l) 1 ?r2) 16
      (le_bytes 4 (finalWritePointer q))"
    using assms(1) unfolding command_queue_ok_def rpc_built_def by auto
  have n: "2 \<le> queue_slots l" "4096 + queue_slots l * 4096 = unat (queueBytes l)"
    "registry_elements es \<le> queue_slots l"
    using queue_slots_word [of "queueBytes l"] assms(2)
    by (auto simp: queue_slots_def command_queue_request_ok_def)
  let ?h1 = "put h 4096 ?r1" let ?h2 = "ring_put ?h1 (queue_slots l) 1 ?r2"
  have h1: "length ?h1 = length h" using n q(1) len1 by simp
  have h2: "length ?h2 = length h" "take 4096 ?h2 = take 4096 ?h1"
    using length_ring_put [of 1 "queue_slots l" ?r2 ?h1] n len2 h1 q(1) by simp_all
  have sl: "slice b off 4 = slice (take 4096 b) off 4" if "off \<le> 28" for off and b :: "byte list"
    using that by (simp add: slice_def drop_take min_def)
  have "take 4096 ?h1 = take 4096 h" by (simp add: put_def min_def n q(1) flip: n(2))
  then have "slice ?h2 off 4 = slice h off 4" if "off \<le> 28" for off
    using that sl [of off ?h2] sl [of off h] h2(2) by simp
  moreover have "slice (BootstrapQueueImage.bytes q) off 4 = slice ?h2 off 4" if "off + 4 \<le> 16 \<or> 20 \<le> off" for off
    unfolding b using that h2(1) q(1) n by (intro slice_put_other) auto
  ultimately have w: "word_at (BootstrapQueueImage.bytes q) off = word_at h off"
    if "off \<in> {4, 8, 12, 24, 28}" for off using that by (auto simp: word_at_def)
  have "word_at (BootstrapQueueImage.bytes q) 16 = finalWritePointer q"
    unfolding b word_at_def using h2(1) q(1) n by (subst slice_put_same) simp_all
  moreover have "length (BootstrapQueueImage.bytes q) = unat (queueBytes l)"
    unfolding b using h2(1) q(1) n by simp
  ultimately show ?thesis using q w by simp
qed

lemma command_queue_records:
  assumes "command_queue_ok l i es q" and "command_queue_request_ok l es"
    and "1 + registry_elements es \<le> queue_slots l"
  shows "slice (BootstrapQueueImage.bytes q) 4096 4096 = RpcRecord.bytes (fst (records q)) \<and>
    slice (BootstrapQueueImage.bytes q) 8192 (registry_elements es * 4096) = RpcRecord.bytes (snd (records q))"
proof -
  let ?r1 = "RpcRecord.bytes (fst (records q))" and ?r2 = "RpcRecord.bytes (snd (records q))"
  obtain h where q: "length h = unat (queueBytes l)"
    and len1: "length ?r1 = 4096" and len2: "length ?r2 = registry_elements es * 4096"
    and b: "BootstrapQueueImage.bytes q = put (ring_put (put h 4096 ?r1) (queue_slots l) 1 ?r2) 16
      (le_bytes 4 (finalWritePointer q))"
    using assms(1) unfolding command_queue_ok_def rpc_built_def by auto
  have n: "4096 + queue_slots l * 4096 = unat (queueBytes l)"
    using queue_slots_word [of "queueBytes l"] assms(2)
    by (auto simp: queue_slots_def command_queue_request_ok_def)
  have "length ?r2 \<le> (queue_slots l - 1) * 4096" using assms(3) len2 by simp
  then have ring: "ring_put (put h 4096 ?r1) (queue_slots l) 1 ?r2 = put (put h 4096 ?r1) 8192 ?r2"
    by (simp add: ring_put_def)
  have fit: "8192 + registry_elements es * 4096 \<le> length h"
    using n assms(3) mult_le_mono1 [OF assms(3), of 4096] q by simp
  have "slice (BootstrapQueueImage.bytes q) 8192 (registry_elements es * 4096) = ?r2"
    unfolding b ring using fit len1 len2 by (subst slice_put_other) (simp_all add: len2)
  moreover have "slice (BootstrapQueueImage.bytes q) 4096 4096 = ?r1"
    unfolding b ring using fit len1 len2 by (subst slice_put_other; simp)+
  ultimately show ?thesis by simp
qed

text \<open>
  C30. Building the command queue never leaves a buffer. It succeeds exactly for a queue of whole
  pages (at least three, below 4 GiB), registry names that are non-empty and contain no zero, a
  table that fits sixteen elements and a ring whose size alone holds each record; the transmit header then describes
  the ring and its write pointer counts both records. Only when both records fit the ring together
  (\<open>1 + registry_elements es \<le> queue_slots l\<close>) does the theorem say that the receiver's validation accepts them
  where they lie and finds in them the system information and the registry table; the function does not
  check this, and the theorem after this one is what it does otherwise.
\<close>
theorem BuildBootstrapCommandQueue_spec:
  assumes "registry_bytes es < 2 ^ 63"
  shows "if command_queue_request_ok l es
    then \<exists>q b. BuildBootstrapCommandQueue l i es = Some (Some q) \<and> b = BootstrapQueueImage.bytes q \<and>
      length b = unat (queueBytes l) \<and> unat (word_at b 12) = queue_slots l \<and>
      word_at b 16 = finalWritePointer q \<and> word_at b 28 = 4096 \<and>
      unat (finalWritePointer q) = (1 + registry_elements es) mod queue_slots l \<and>
      (1 + registry_elements es \<le> queue_slots l \<longrightarrow>
        ValidateRpcRecord (slice b 4096 4096) 4096 16 = Some True \<and>
        ValidateRpcRecord (slice b 8192 (registry_elements es * 4096)) 4096 16 = Some True \<and>
        BuildGspSystemInfo570 i = Some (slice (slice b 4096 4096) 80 928) \<and>
        registry_table es (slice (slice b 8192 (registry_elements es * 4096)) 80 (registry_size es)))
    else BuildBootstrapCommandQueue l i es = Some None"
proof (cases "command_queue_request_ok l es")
  case False
  then show ?thesis using BuildBootstrapCommandQueue_eq [OF assms, of l i] by simp
next
  case True
  then obtain q where q: "BuildBootstrapCommandQueue l i es = Some (Some q)" "command_queue_ok l i es q"
    using BuildBootstrapCommandQueue_eq [OF assms, of l i] by auto
  obtain sys t where st: "system_info.encode i = Some sys" "registry_table es t"
    "rpc_built 72 sys 0 4096 (fst (records q))" "rpc_built 73 t 1 4096 (snd (records q))"
    using q(2) unfolding command_queue_ok_def by blast
  have len: "length sys = 928" "length t = registry_size es"
    using st system_info.length_encode by (auto simp: registry_table_def)
  have fits: "80 + registry_size es \<le> 16 * 4096" using True by (simp add: command_queue_request_ok_def)
  have ok: "ValidateRpcRecord (RpcRecord.bytes r) 4096 16 = Some True"
    if "rpc_built f p s 4096 r" "80 + length p \<le> 16 * 4096" for f p s r
  proof -
    have "CeilDiv_size (80 + length p) 4096 \<le> 16" using that(2) by (simp add: CeilDiv_size_le_iff)
    moreover have "0 < CeilDiv_size (80 + length p) 4096"
      using CeilDiv_size_le_iff [of 4096 "80 + length p" 0] by simp
    ultimately show ?thesis
      using that by (simp add: ValidateRpcRecord_eq rpc_record_ok_def rpc_built_def word_le_nat_alt)
  qed
  have "ValidateRpcRecord (RpcRecord.bytes (fst (records q))) 4096 16 = Some True"
    "ValidateRpcRecord (RpcRecord.bytes (snd (records q))) 4096 16 = Some True"
    using ok [OF st(3)] ok [OF st(4)] len fits by simp_all
  moreover have "slice (RpcRecord.bytes (fst (records q))) 80 928 = sys"
    "slice (RpcRecord.bytes (snd (records q))) 80 (registry_size es) = t"
    using st(3,4) len by (simp_all add: rpc_built_def)
  ultimately show ?thesis
    using True q command_queue_header [OF q(2) True] command_queue_records [OF q(2) True] st(1,2)
    by (auto simp: BuildGspSystemInfo570_encode)
qed

text \<open>When the registry record needs as many elements as the ring has, its last element wraps onto
  slot 0, where the system record lies.\<close>

lemma command_queue_overlap:
  assumes "command_queue_ok l i es q" and "command_queue_request_ok l es"
    and "registry_elements es = queue_slots l"
  shows "slice (BootstrapQueueImage.bytes q) 4096 4096 =
    drop ((queue_slots l - 1) * 4096) (RpcRecord.bytes (snd (records q)))"
proof -
  let ?r1 = "RpcRecord.bytes (fst (records q))" and ?r2 = "RpcRecord.bytes (snd (records q))"
  let ?f = "(queue_slots l - 1) * 4096"
  obtain h where q: "length h = unat (queueBytes l)"
    and len1: "length ?r1 = 4096" and len2: "length ?r2 = registry_elements es * 4096"
    and b: "BootstrapQueueImage.bytes q = put (ring_put (put h 4096 ?r1) (queue_slots l) 1 ?r2) 16
      (le_bytes 4 (finalWritePointer q))"
    using assms(1) unfolding command_queue_ok_def rpc_built_def by auto
  have n: "4096 + queue_slots l * 4096 = unat (queueBytes l)" "2 \<le> queue_slots l"
    using queue_slots_word [of "queueBytes l"] assms(2)
    by (auto simp: queue_slots_def command_queue_request_ok_def)
  have f: "?f + 4096 = length ?r2" "?f < length ?r2" using assms(3) len2 n(2) by (simp_all add: diff_mult_distrib)
  let ?b1 = "put (put h 4096 ?r1) 8192 (take ?f ?r2)"
  have ring: "ring_put (put h 4096 ?r1) (queue_slots l) 1 ?r2 = put ?b1 4096 (drop ?f ?r2)"
    using f(2) by (simp add: ring_put_def Let_def)
  have fit: "8192 + ?f = length h" using n q by (simp add: diff_mult_distrib)
  have b1: "length ?b1 = length h" using fit len1 f by simp
  have rest: "length (drop ?f ?r2) = 4096" using f(1) by simp
  have h_len: "8192 \<le> length h" using fit by simp
  show ?thesis
    unfolding b ring using b1 rest h_len by (subst slice_put_other) simp_all
qed

text \<open>
  C31. The ring accepts a registry record as long as the whole ring: the record is placed behind
  the system record and wraps around, so the slot of the first record then holds the last 4 KiB
  of the second one, and the system record is lost although the function reports success.
\<close>
theorem BuildBootstrapCommandQueue_overwrites:
  assumes "registry_bytes es < 2 ^ 63" and "command_queue_request_ok l es"
    and "registry_elements es = queue_slots l"
  shows "\<exists>q. BuildBootstrapCommandQueue l i es = Some (Some q) \<and>
    slice (BootstrapQueueImage.bytes q) 4096 4096 =
      drop ((queue_slots l - 1) * 4096) (RpcRecord.bytes (snd (records q))) \<and>
    finalWritePointer q = 1"
proof -
  obtain q where q: "BuildBootstrapCommandQueue l i es = Some (Some q)" "command_queue_ok l i es q"
    using BuildBootstrapCommandQueue_eq [OF assms(1), of l i] assms(2) by auto
  have "2 \<le> queue_slots l" using queue_slots_word [of "queueBytes l"] assms(2)
    by (auto simp: queue_slots_def command_queue_request_ok_def)
  then have "unat (finalWritePointer q) = 1"
    using command_queue_header [OF q(2) assms(2)] assms(3) by (simp add: mod_Suc)
  then show ?thesis using q command_queue_overlap [OF q(2) assms(2,3)] by (auto simp: word_unat_eq_iff)
qed

text \<open>Sample inputs: the default queue with the default registry, and a three-page queue with one
  registry value whose name is 4050 characters long.\<close>

definition sample_system_info :: GspSystemInfoInputs where
  "sample_system_info = \<lparr>bar0Physical = 0xE0000000, bar1Physical = 0xC0000000,
     bar3Physical = 0xD0000000, domainBusDeviceFunction = 0x100, maxUserVa = 0x7ffffffff000,
     pciConfigMirrorBase = 0x88000, pciConfigMirrorSize = 0x1000, pciDeviceIdDword = 0x248410de,
     pciSubDeviceIdDword = 0, pciRevisionId = 0xa1, passthrough = True\<rparr>"

definition sample_queue :: "u64 \<Rightarrow> QueueMemoryLayout" where
  "sample_queue n = \<lparr>queueBytes = n, pageBytes = 0x1000, pteBytes = 8, queuePageCount = 2 * (n div 0x1000),
     pageTableEntryCount = 2 * (n div 0x1000) + 1, pageTableBytes = 0x1000,
     commandQueueOffset = 0x1000, statusQueueOffset = 0x1000 + n, totalBytes = 0x1000 + 2 * n\<rparr>"

lemma default_registry_names: "names_ok DefaultBootstrapRegistry"
  by (simp add: names_ok_def DefaultBootstrapRegistry_def)

lemma default_registry_size: "registry_size DefaultBootstrapRegistry = 82"
  by (simp add: registry_size_def registry_bytes_def DefaultBootstrapRegistry_def)

theorem BuildBootstrapCommandQueue_witness:
  "command_queue_request_ok (sample_queue 0x40000) DefaultBootstrapRegistry \<and>
   (\<exists>q. BuildBootstrapCommandQueue (sample_queue 0x40000) sample_system_info DefaultBootstrapRegistry =
      Some (Some q) \<and> finalWritePointer q = 2 \<and>
      ValidateRpcRecord (slice (BootstrapQueueImage.bytes q) 4096 4096) 4096 16 = Some True)"
proof -
  have small: "registry_bytes DefaultBootstrapRegistry < 2 ^ 63"
    using default_registry_size by (simp add: registry_size_def)
  have e: "registry_elements DefaultBootstrapRegistry = 1" "queue_slots (sample_queue 0x40000) = 63"
    by (simp_all add: registry_elements_def default_registry_size CeilDiv_size_def queue_slots_def sample_queue_def)
  have ok: "command_queue_request_ok (sample_queue 0x40000) DefaultBootstrapRegistry"
    using e default_registry_names default_registry_size
    by (simp add: command_queue_request_ok_def) (simp add: sample_queue_def)
  from BuildBootstrapCommandQueue_spec [OF small, of "sample_queue 0x40000" sample_system_info]
  show ?thesis unfolding if_P [OF ok] using ok e by (auto simp: word_unat_eq_iff)
qed

theorem BuildBootstrapCommandQueue_overwrites_witness:
  "\<exists>q. BuildBootstrapCommandQueue (sample_queue 0x3000) sample_system_info
      [\<lparr>name = replicate 4050 65, value = 1\<rparr>] = Some (Some q) \<and>
    slice (BootstrapQueueImage.bytes q) 4096 4096 = drop 4096 (RpcRecord.bytes (snd (records q)))"
proof -
  let ?es = "[\<lparr>name = replicate 4050 65, value = 1\<rparr>]"
  have e: "registry_size ?es = 4075" "registry_bytes ?es = 4051" by (simp_all add: registry_size_def)
  have n: "registry_elements ?es = 2" "queue_slots (sample_queue 0x3000) = 2"
    using e by (simp_all add: registry_elements_def CeilDiv_size_def queue_slots_def sample_queue_def)
  have "names_ok ?es" by (simp add: names_ok_def)
  then have "command_queue_request_ok (sample_queue 0x3000) ?es"
    using e n unfolding command_queue_request_ok_def by (simp add: sample_queue_def)
  then show ?thesis
    using BuildBootstrapCommandQueue_overwrites [of ?es "sample_queue 0x3000" sample_system_info] e n by auto
qed

section \<open>The shared allocation\<close>

lemma cached_arguments_total: "\<exists>b. BuildCachedArguments l a = Some b"
  using cached_arguments.encode_total [of "(l, a)"]
  by (auto simp: BuildCachedArguments_def cached_arguments.encode_def kGspArgumentsCachedBytes_def)

definition shared_image_ok ::
  "QueueMemoryLayout \<Rightarrow> u64 list \<Rightarrow> GspSystemInfoInputs \<Rightarrow> RegistryDwordEntry list \<Rightarrow>
     SharedQueueAllocationImage \<Rightarrow> bool" where
  "shared_image_ok l pages i es img \<longleftrightarrow>
     (let b = SharedQueueAllocationImage.bytes img in
       length b = unat (totalBytes l) \<and>
       take (unat (pageTableBytes l)) b = concat (map (le_bytes 8) pages) @
         replicate (unat (pageTableBytes l) - 8 * length pages) 0 \<and>
       slice b (unat (commandQueueOffset l)) (unat (queueBytes l)) =
         BootstrapQueueImage.bytes (commandQueue img) \<and>
       drop (unat (statusQueueOffset l)) b = replicate (unat (queueBytes l)) 0 \<and>
       BuildBootstrapCommandQueue l i es = Some (Some (commandQueue img)) \<and>
       BuildCachedArguments l (hd pages) = Some (cachedArguments img))"

lemma BuildSharedQueueAllocationImage_cases:
  assumes "queue_layout_ok l" and "registry_bytes es < 2 ^ 63"
  shows "if page_table_ok l pages \<and> command_queue_request_ok l es
    then \<exists>img. BuildSharedQueueAllocationImage l pages i es = Some (Some img) \<and> shared_image_ok l pages i es img
    else BuildSharedQueueAllocationImage l pages i es = Some None"
proof -
  let ?pt = "unat (pageTableBytes l)" and ?q = "unat (queueBytes l)"
  have lay: "unat (commandQueueOffset l) = ?pt" "unat (statusQueueOffset l) = ?pt + ?q"
    "unat (totalBytes l) = ?pt + ?q + ?q"
    using assms(1) by (simp_all add: queue_layout_ok_def)
  have le: "commandQueueOffset l \<le> totalBytes l" "statusQueueOffset l \<le> totalBytes l"
    using lay by (simp_all add: word_le_nat_alt)
  have "\<not> totalBytes l - commandQueueOffset l < queueBytes l"
    "\<not> totalBytes l - statusQueueOffset l < queueBytes l"
    using sub_less_iff [OF le(1)] sub_less_iff [OF le(2)] lay by simp_all
  moreover have "\<not> SIZE_MAX < unat (totalBytes l)" using unat_lt(4) [of "totalBytes l"] by linarith
  ultimately have g: "\<not> (totalBytes l < commandQueueOffset l \<or> totalBytes l - commandQueueOffset l < queueBytes l)"
    "\<not> (totalBytes l < statusQueueOffset l \<or> totalBytes l - statusQueueOffset l < queueBytes l)"
    "\<not> SIZE_MAX < unat (totalBytes l)" using le by auto
  show ?thesis
  proof (cases "pages = []")
    case True
    have "0 < unat (pageTableEntryCount l)" if "command_queue_request_ok l es"
    proof -
      have "0 < ?q" using that by (auto simp: command_queue_request_ok_def)
      then have "0 < unat (queuePageCount l)" using assms(1)
        by (metis gr0I mult_0 mult_is_0 not_gr0 queue_layout_ok_def zero_neq_numeral)
      then show ?thesis using assms(1) by (simp add: queue_layout_ok_def)
    qed
    then have "\<not> (page_table_ok l pages \<and> command_queue_request_ok l es)"
      using True by (auto simp: page_table_ok_def)
    then show ?thesis using True by (simp add: BuildSharedQueueAllocationImage_def)
  next
    case False
    note start = BuildSharedQueueAllocationImage_def [of l pages i es, unfolded if_not_P [OF False]
        if_not_P [OF g(1)] if_not_P [OF g(2)] if_not_P [OF g(3)]]
    show ?thesis
    proof (cases "page_table_ok l pages \<and> command_queue_request_ok l es")
      case True
      let ?table = "concat (map (le_bytes 8) pages) @ replicate (?pt - 8 * length pages) 0"
      have table: "BuildQueuePageTable l pages = Some (Some ?table)"
        using BuildQueuePageTable_eq [of l pages] True by simp
      have "8 * length pages \<le> ?pt" using True by (simp add: page_table_ok_def mult.commute)
      then have table_len: "length ?table = ?pt"
        using length_words_bytes [of pages] unfolding words_bytes_def by simp
      obtain q where q: "BuildBootstrapCommandQueue l i es = Some (Some q)" "command_queue_ok l i es q"
        using BuildBootstrapCommandQueue_eq [OF assms(2), of l i] True by auto
      have q_len: "length (BootstrapQueueImage.bytes q) = ?q"
        using command_queue_header [OF q(2)] True by simp
      obtain args where args: "BuildCachedArguments l (hd pages) = Some args"
        using cached_arguments_total by blast
      let ?z = "replicate (unat (totalBytes l)) (0 :: byte)"
      define b1 where "b1 = put ?z 0 ?table"
      have "0 + length ?table \<le> length ?z" using table_len lay by simp
      then have b1: "wr_seq ?z 0 ?table = Some b1" by (simp only: wr_seq_eq b1_def) simp
      have b1_eq: "b1 = ?table @ replicate (?q + ?q) 0"
        using table_len lay by (simp add: b1_def put_def)
      define b2 where "b2 = put b1 (unat (commandQueueOffset l)) (BootstrapQueueImage.bytes q)"
      have "unat (commandQueueOffset l) + length (BootstrapQueueImage.bytes q) \<le> length b1"
        unfolding b1_eq using table_len lay q_len by simp
      then have b2: "wr_seq b1 (unat (commandQueueOffset l)) (BootstrapQueueImage.bytes q) = Some b2"
        by (simp only: wr_seq_eq b2_def) simp
      have b2_eq: "b2 = ?table @ BootstrapQueueImage.bytes q @ replicate ?q 0"
        unfolding b2_def b1_eq put_def lay(1) using table_len q_len by simp
      let ?img = "\<lparr>SharedQueueAllocationImage.bytes = b2, cachedArguments = args, commandQueue = q\<rparr>"
      have "BuildSharedQueueAllocationImage l pages i es = Some (Some ?img)"
        unfolding start table q(1) by (simp only: bind.bind_lunit prod.case option.case table_len q_len
            simp_thms if_False b1 b2 args)
      moreover have "shared_image_ok l pages i es ?img"
        unfolding shared_image_ok_def Let_def using table_len q_len lay args q(1)
        by (simp add: b2_eq slice_def)
      ultimately show ?thesis using True by auto
    next
      case bad: False
      have "BuildSharedQueueAllocationImage l pages i es = Some None"
      proof (cases "page_table_ok l pages")
        case True
        then have "BuildBootstrapCommandQueue l i es = Some None"
          using bad BuildBootstrapCommandQueue_eq [OF assms(2), of l i] by simp
        then show ?thesis unfolding start BuildQueuePageTable_eq by (simp split: if_splits)
      next
        case False
        then show ?thesis
          unfolding start BuildQueuePageTable_eq
          using BuildBootstrapCommandQueue_eq [OF assms(2), of l i] by (auto split: if_splits)
      qed
      then show ?thesis using bad by simp
    qed
  qed
qed

text \<open>
  C32. For a planned queue layout, building the shared allocation never stores outside it. It
  succeeds exactly when the page table and the command queue can be built, and the allocation is
  then the page table, the command queue and an all-zero status queue, in this order and without
  a gap.
\<close>
theorem BuildSharedQueueAllocationImage_spec:
  assumes "queue_layout_ok l" and "registry_bytes es < 2 ^ 63"
  shows "if page_table_ok l pages \<and> command_queue_request_ok l es
    then \<exists>img. BuildSharedQueueAllocationImage l pages i es = Some (Some img) \<and> shared_image_ok l pages i es img
    else BuildSharedQueueAllocationImage l pages i es = Some None"
  using assms by (rule BuildSharedQueueAllocationImage_cases)

theorem BuildSharedQueueAllocationImage_witness:
  "\<exists>img. BuildSharedQueueAllocationImage (sample_queue 0x40000) (replicate 129 0x7000) sample_system_info
      DefaultBootstrapRegistry = Some (Some img) \<and> length (SharedQueueAllocationImage.bytes img) = 0x81000"
proof -
  let ?l = "sample_queue 0x40000" and ?es = DefaultBootstrapRegistry
  have l: "?l = \<lparr>queueBytes = 0x40000, pageBytes = 0x1000, pteBytes = 8, queuePageCount = 128,
      pageTableEntryCount = 129, pageTableBytes = 0x1000, commandQueueOffset = 0x1000,
      statusQueueOffset = 0x41000, totalBytes = 0x81000\<rparr>" by (simp add: sample_queue_def)
  have lay: "queue_layout_ok ?l" by (simp add: l queue_layout_ok_def pages_for_def)
  have small: "registry_bytes ?es < 2 ^ 63" using default_registry_size by (simp add: registry_size_def)
  have e: "registry_elements ?es = 1" "queue_slots ?l = 63"
    by (simp_all add: registry_elements_def default_registry_size CeilDiv_size_def queue_slots_def l)
  have "page_table_ok ?l (replicate 129 0x7000)" by (simp add: l page_table_ok_def)
  moreover have "command_queue_request_ok ?l ?es"
    using e default_registry_names default_registry_size by (simp add: command_queue_request_ok_def) (simp add: l)
  ultimately have ok: "page_table_ok ?l (replicate 129 0x7000) \<and> command_queue_request_ok ?l ?es" by blast
  from BuildSharedQueueAllocationImage_spec [OF lay small, of "replicate 129 0x7000" sample_system_info]
  obtain img where "BuildSharedQueueAllocationImage ?l (replicate 129 0x7000) sample_system_info ?es = Some (Some img)"
    "shared_image_ok ?l (replicate 129 0x7000) sample_system_info ?es img" unfolding if_P [OF ok] by blast
  then show ?thesis by (auto simp: shared_image_ok_def Let_def l)
qed

end
