(* ===== verification/Nvfw.thy ===== *)
theory Nvfw
  imports Prelude
begin

text \<open>
  The parsers of NVIDIA firmware containers (\<open>src/core/nvfw.cpp\<close>, \<open>include/rtxmac/nvfw.hpp\<close>):
  the heavy-secure booter image, the selection and placement of its production signature, and
  the RISC-V bootloader with its descriptor.

  Every read is bounds-checked: \<open>None\<close> is a read outside the image. That no input reaches it
  is a property of each parser. A failed parse is a value: the record returned so far, with
  its status.
\<close>

section \<open>Data\<close>

definition kBinHeaderBytes :: nat where "kBinHeaderBytes = 24"
definition kHsHeaderV2Bytes :: nat where "kHsHeaderV2Bytes = 36"
definition kLoadHeaderV2Bytes :: nat where "kLoadHeaderV2Bytes = 20"
definition kAppHeaderV2Bytes :: nat where "kAppHeaderV2Bytes = 16"
definition kRiscvDescriptorV1Bytes :: nat where "kRiscvDescriptorV1Bytes = 84"
definition kRiscvDescriptorCurrentBytes :: nat where "kRiscvDescriptorCurrentBytes = 92"

lemmas nvfw_consts = kBinHeaderBytes_def kHsHeaderV2Bytes_def kLoadHeaderV2Bytes_def
  kAppHeaderV2Bytes_def kRiscvDescriptorV1Bytes_def kRiscvDescriptorCurrentBytes_def

datatype ParseStatus = Ok | TooSmall | BinSizeOutOfRange | HeaderOutOfRange | LoadHeaderOutOfRange
  | AppTableOutOfRange | NoApplications | DataOutOfRange | SignatureOutOfRange
  | PatchPointerOutOfRange | AppOutOfRange | OsDataOutOfRange | RiscvDescriptorOutOfRange
  | RiscvPayloadOutOfRange

record BinHeader =
  magic :: u32
  version :: u32
  binSize :: u32
  headerOffset :: u32
  dataOffset :: u32
  dataSize :: u32

record HsHeaderV2 =
  sigProdOffset :: u32
  sigProdSize :: u32
  patchLoc :: u32
  patchSig :: u32
  metaDataOffset :: u32
  metaDataSize :: u32
  numSig :: u32
  headerOffset :: u32
  headerSize :: u32

record LoadHeaderV2 =
  osCodeOffset :: u32
  osCodeSize :: u32
  osDataOffset :: u32
  osDataSize :: u32
  numApps :: u32

record AppHeaderV2 =
  offset :: u32
  size' :: u32
  dataOffset :: u32
  dataSize :: u32

record BooterImageInfo =
  status :: ParseStatus
  bin' :: BinHeader
  hs :: HsHeaderV2
  load' :: LoadHeaderV2
  firstApp :: AppHeaderV2

datatype BooterPatchStatus = Ok | InvalidBooter | NumSignaturesPointerOutOfRange | ZeroSignatures
  | InvalidSignatureTable | SignatureSelectionOutOfRange | PatchTargetOutOfRange

record BooterPatchResult =
  status :: BooterPatchStatus
  signatureCount :: u32
  signatureBytes :: u32
  selectedSignatureOffset :: u32
  patchOffset :: u32
  bytes :: "byte list"

record RiscvUcodeDescriptor =
  version :: u32
  bootloaderOffset :: u32
  bootloaderSize :: u32
  bootloaderParamOffset :: u32
  bootloaderParamSize :: u32
  riscvElfOffset :: u32
  riscvElfSize :: u32
  appVersion :: u32
  manifestOffset :: u32
  manifestSize :: u32
  monitorDataOffset :: u32
  monitorDataSize :: u32
  monitorCodeOffset :: u32
  monitorCodeSize :: u32
  isMonitorEnabled :: u32
  swbromCodeOffset :: u32
  swbromCodeSize :: u32
  swbromDataOffset :: u32
  swbromDataSize :: u32
  fbReservedSize :: u32
  signedAsCode :: u32
  isSmp :: u32
  isPlicEnabled :: u32
  hasExtendedFields :: bool

record RiscvBootloaderInfo =
  status :: ParseStatus
  bin' :: BinHeader
  descriptor :: RiscvUcodeDescriptor

text \<open>The value-initialised structures.\<close>

definition BinHeader0 :: BinHeader where
  "BinHeader0 = \<lparr>magic = 0, BinHeader.version = 0, binSize = 0, BinHeader.headerOffset = 0,
     BinHeader.dataOffset = 0, BinHeader.dataSize = 0\<rparr>"

definition BooterImageInfo0 :: BooterImageInfo where
  "BooterImageInfo0 = \<lparr>BooterImageInfo.status = TooSmall, BooterImageInfo.bin' = BinHeader0,
     hs = \<lparr>sigProdOffset = 0, sigProdSize = 0, patchLoc = 0, patchSig = 0, metaDataOffset = 0,
       metaDataSize = 0, numSig = 0, HsHeaderV2.headerOffset = 0, headerSize = 0\<rparr>,
     load' = \<lparr>osCodeOffset = 0, osCodeSize = 0, osDataOffset = 0, osDataSize = 0, numApps = 0\<rparr>,
     firstApp = \<lparr>offset = 0, size' = 0, AppHeaderV2.dataOffset = 0, AppHeaderV2.dataSize = 0\<rparr>\<rparr>"

definition BooterPatchResult0 :: BooterPatchResult where
  "BooterPatchResult0 = \<lparr>BooterPatchResult.status = InvalidBooter, signatureCount = 0, signatureBytes = 0,
     selectedSignatureOffset = 0, patchOffset = 0, bytes = []\<rparr>"

definition RiscvUcodeDescriptor0 :: RiscvUcodeDescriptor where
  "RiscvUcodeDescriptor0 = \<lparr>RiscvUcodeDescriptor.version = 0, bootloaderOffset = 0, bootloaderSize = 0,
     bootloaderParamOffset = 0, bootloaderParamSize = 0, riscvElfOffset = 0, riscvElfSize = 0,
     appVersion = 0, manifestOffset = 0, manifestSize = 0, monitorDataOffset = 0, monitorDataSize = 0,
     monitorCodeOffset = 0, monitorCodeSize = 0, isMonitorEnabled = 0, swbromCodeOffset = 0,
     swbromCodeSize = 0, swbromDataOffset = 0, swbromDataSize = 0, fbReservedSize = 0,
     signedAsCode = 0, isSmp = 0, isPlicEnabled = 0, hasExtendedFields = False\<rparr>"

definition RiscvBootloaderInfo0 :: RiscvBootloaderInfo where
  "RiscvBootloaderInfo0 = \<lparr>RiscvBootloaderInfo.status = TooSmall, RiscvBootloaderInfo.bin' = BinHeader0, descriptor = RiscvUcodeDescriptor0\<rparr>"

section \<open>Operations\<close>

definition RangeFits :: "nat \<Rightarrow> u64 \<Rightarrow> u64 \<Rightarrow> bool" where
  "RangeFits total' off n \<longleftrightarrow> unat off \<le> total' \<and> unat n \<le> total' - unat off"

definition ReadBin :: "byte list \<Rightarrow> BinHeader option" where
  "ReadBin d = do {
     a \<leftarrow> LoadLe32 d 0; b \<leftarrow> LoadLe32 d 4; c \<leftarrow> LoadLe32 d 8;
     e \<leftarrow> LoadLe32 d 12; f \<leftarrow> LoadLe32 d 16; g \<leftarrow> LoadLe32 d 20;
     Some \<lparr>magic = a, BinHeader.version = b, binSize = c, BinHeader.headerOffset = e,
       BinHeader.dataOffset = f, BinHeader.dataSize = g\<rparr> }"

definition ReadHs :: "byte list \<Rightarrow> nat \<Rightarrow> HsHeaderV2 option" where
  "ReadHs d o' = do {
     a \<leftarrow> LoadLe32 d (o' + 0); b \<leftarrow> LoadLe32 d (o' + 4); c \<leftarrow> LoadLe32 d (o' + 8);
     e \<leftarrow> LoadLe32 d (o' + 12); f \<leftarrow> LoadLe32 d (o' + 16); g \<leftarrow> LoadLe32 d (o' + 20);
     h \<leftarrow> LoadLe32 d (o' + 24); i \<leftarrow> LoadLe32 d (o' + 28); j \<leftarrow> LoadLe32 d (o' + 32);
     Some \<lparr>sigProdOffset = a, sigProdSize = b, patchLoc = c, patchSig = e, metaDataOffset = f,
       metaDataSize = g, numSig = h, HsHeaderV2.headerOffset = i, headerSize = j\<rparr> }"

definition ReadLoad :: "byte list \<Rightarrow> nat \<Rightarrow> LoadHeaderV2 option" where
  "ReadLoad d o' = do {
     a \<leftarrow> LoadLe32 d (o' + 0); b \<leftarrow> LoadLe32 d (o' + 4); c \<leftarrow> LoadLe32 d (o' + 8);
     e \<leftarrow> LoadLe32 d (o' + 12); f \<leftarrow> LoadLe32 d (o' + 16);
     Some \<lparr>osCodeOffset = a, osCodeSize = b, osDataOffset = c, osDataSize = e, numApps = f\<rparr> }"

definition ReadApp :: "byte list \<Rightarrow> nat \<Rightarrow> AppHeaderV2 option" where
  "ReadApp d o' = do {
     a \<leftarrow> LoadLe32 d (o' + 0); b \<leftarrow> LoadLe32 d (o' + 4); c \<leftarrow> LoadLe32 d (o' + 8);
     e \<leftarrow> LoadLe32 d (o' + 12);
     Some \<lparr>offset = a, size' = b, AppHeaderV2.dataOffset = c, AppHeaderV2.dataSize = e\<rparr> }"

definition DescriptorRangeFits :: "BinHeader \<Rightarrow> u32 \<Rightarrow> u32 \<Rightarrow> bool" where
  "DescriptorRangeFits b off n \<longleftrightarrow> (ucast off + ucast n :: u64) \<le> ucast (BinHeader.dataSize b)"

definition ParseBooterImage :: "byte list \<Rightarrow> BooterImageInfo option" where
  "ParseBooterImage img =
     (if length img < kBinHeaderBytes then Some BooterImageInfo0
      else do {
        b \<leftarrow> ReadBin img;
        let out = BooterImageInfo0\<lparr>BooterImageInfo.bin' := b\<rparr>;
        if unat (binSize b) < kBinHeaderBytes \<or> length img < unat (binSize b)
        then Some (out\<lparr>BooterImageInfo.status := BinSizeOutOfRange\<rparr>)
        else let logicalSize = unat (binSize b)
        in if \<not> RangeFits logicalSize (ucast (BinHeader.headerOffset b)) (of_nat kHsHeaderV2Bytes)
        then Some (out\<lparr>BooterImageInfo.status := HeaderOutOfRange\<rparr>)
        else do {
          h \<leftarrow> ReadHs img (unat (BinHeader.headerOffset b));
          let out = out\<lparr>hs := h\<rparr>;
          if \<not> RangeFits logicalSize (ucast (HsHeaderV2.headerOffset h)) (of_nat kLoadHeaderV2Bytes)
          then Some (out\<lparr>BooterImageInfo.status := LoadHeaderOutOfRange\<rparr>)
          else do {
            l \<leftarrow> ReadLoad img (unat (HsHeaderV2.headerOffset h));
            let out = out\<lparr>load' := l\<rparr>;
            if numApps l = 0 then Some (out\<lparr>BooterImageInfo.status := NoApplications\<rparr>)
            else let appBytes = ucast (numApps l) * of_nat kAppHeaderV2Bytes :: u64;
                     appTableOff = ucast (HsHeaderV2.headerOffset h) + of_nat kLoadHeaderV2Bytes :: u64
            in if \<not> RangeFits logicalSize appTableOff appBytes
            then Some (out\<lparr>BooterImageInfo.status := AppTableOutOfRange\<rparr>)
            else do {
              a \<leftarrow> ReadApp img (unat appTableOff);
              let out = out\<lparr>firstApp := a\<rparr>;
              if \<not> RangeFits logicalSize (ucast (BinHeader.dataOffset b)) (ucast (BinHeader.dataSize b))
              then Some (out\<lparr>BooterImageInfo.status := DataOutOfRange\<rparr>)
              else if \<not> RangeFits logicalSize (ucast (sigProdOffset h)) (ucast (sigProdSize h))
              then Some (out\<lparr>BooterImageInfo.status := SignatureOutOfRange\<rparr>)
              else if \<not> RangeFits logicalSize (ucast (patchLoc h)) 4 \<or>
                      \<not> RangeFits logicalSize (ucast (patchSig h)) 4
              then Some (out\<lparr>BooterImageInfo.status := PatchPointerOutOfRange\<rparr>)
              else if (ucast (BinHeader.dataSize b) :: u64) < ucast (offset a) + ucast (size' a) \<or>
                      (ucast (BinHeader.dataSize b) :: u64) <
                        ucast (AppHeaderV2.dataOffset a) + ucast (AppHeaderV2.dataSize a)
              then Some (out\<lparr>BooterImageInfo.status := AppOutOfRange\<rparr>)
              else if (ucast (BinHeader.dataSize b) :: u64) < ucast (osDataOffset l) + ucast (osDataSize l) \<or>
                      (ucast (BinHeader.dataSize b) :: u64) < ucast (osCodeOffset l) + ucast (osCodeSize l)
              then Some (out\<lparr>BooterImageInfo.status := OsDataOutOfRange\<rparr>)
              else Some (out\<lparr>BooterImageInfo.status := ParseStatus.Ok\<rparr>) } } } })"

text \<open>The copy loop of \<open>PatchBooterProductionSignature\<close>: byte \<open>i\<close> of the signature.\<close>

fun copy_signature :: "byte list \<Rightarrow> nat \<Rightarrow> nat \<Rightarrow> nat \<Rightarrow> nat \<Rightarrow> byte list \<Rightarrow> byte list option" where
  "copy_signature img src dst i 0 out = Some out"
| "copy_signature img src dst i (Suc k) out = do {
     v \<leftarrow> rd img (src + i);
     out' \<leftarrow> wr out (dst + i) v;
     copy_signature img src dst (Suc i) k out' }"

definition PatchBooterProductionSignature :: "byte list \<Rightarrow> BooterImageInfo \<Rightarrow> BooterPatchResult option" where
  "PatchBooterProductionSignature img info =
     (let b = BooterImageInfo.bin' info; h = hs info; out = BooterPatchResult0;
          total' = unat (binSize b)
      in if BooterImageInfo.status info \<noteq> ParseStatus.Ok \<or> length img < total' \<or>
            \<not> RangeFits total' (ucast (BinHeader.dataOffset b)) (ucast (BinHeader.dataSize b)) \<or>
            \<not> RangeFits total' (ucast (sigProdOffset h)) (ucast (sigProdSize h)) \<or>
            \<not> RangeFits total' (ucast (patchLoc h)) 4 \<or>
            \<not> RangeFits total' (ucast (patchSig h)) 4
         then Some out
      else if \<not> RangeFits total' (ucast (numSig h)) 4
         then Some (out\<lparr>BooterPatchResult.status := NumSignaturesPointerOutOfRange\<rparr>)
      else do {
        count \<leftarrow> LoadLe32 img (unat (numSig h));
        let out = out\<lparr>signatureCount := count\<rparr>;
        if count = 0 then Some (out\<lparr>BooterPatchResult.status := ZeroSignatures\<rparr>)
        else if sigProdSize h = 0 \<or> sigProdSize h mod count \<noteq> 0
        then Some (out\<lparr>BooterPatchResult.status := InvalidSignatureTable\<rparr>)
        else do {
          let sigBytes = sigProdSize h div count;
          patch \<leftarrow> LoadLe32 img (unat (patchLoc h));
          selected \<leftarrow> LoadLe32 img (unat (patchSig h));
          let out = out\<lparr>signatureBytes := sigBytes, patchOffset := patch, selectedSignatureOffset := selected\<rparr>;
          if sigProdSize h < selected \<or> sigProdSize h - selected < sigBytes
          then Some (out\<lparr>BooterPatchResult.status := SignatureSelectionOutOfRange\<rparr>)
          else if BinHeader.dataSize b < patch \<or> BinHeader.dataSize b - patch < sigBytes
          then Some (out\<lparr>BooterPatchResult.status := PatchTargetOutOfRange\<rparr>)
          else let signatureSource = ucast (sigProdOffset h) + ucast selected :: u64
          in if \<not> RangeFits total' signatureSource (ucast sigBytes)
          then Some (out\<lparr>BooterPatchResult.status := SignatureSelectionOutOfRange\<rparr>)
          else do {
            payload \<leftarrow> rd_seq img (unat (BinHeader.dataOffset b)) (unat (BinHeader.dataSize b));
            patched \<leftarrow> copy_signature img (unat signatureSource) (unat patch) 0 (unat sigBytes) payload;
            Some (out\<lparr>bytes := patched, BooterPatchResult.status := BooterPatchStatus.Ok\<rparr>) } } })"

text \<open>The fields of the RISC-V descriptor, in the order they are read.\<close>

definition ReadDescriptor :: "byte list \<Rightarrow> nat \<Rightarrow> bool \<Rightarrow> RiscvUcodeDescriptor option" where
  "ReadDescriptor d o' extended = do {
     f0 \<leftarrow> LoadLe32 d (o' + 0); f1 \<leftarrow> LoadLe32 d (o' + 4); f2 \<leftarrow> LoadLe32 d (o' + 8);
     f3 \<leftarrow> LoadLe32 d (o' + 12); f4 \<leftarrow> LoadLe32 d (o' + 16); f5 \<leftarrow> LoadLe32 d (o' + 20);
     f6 \<leftarrow> LoadLe32 d (o' + 24); f7 \<leftarrow> LoadLe32 d (o' + 28); f8 \<leftarrow> LoadLe32 d (o' + 32);
     f9 \<leftarrow> LoadLe32 d (o' + 36); f10 \<leftarrow> LoadLe32 d (o' + 40); f11 \<leftarrow> LoadLe32 d (o' + 44);
     f12 \<leftarrow> LoadLe32 d (o' + 48); f13 \<leftarrow> LoadLe32 d (o' + 52); f14 \<leftarrow> LoadLe32 d (o' + 56);
     f15 \<leftarrow> LoadLe32 d (o' + 60); f16 \<leftarrow> LoadLe32 d (o' + 64); f17 \<leftarrow> LoadLe32 d (o' + 68);
     f18 \<leftarrow> LoadLe32 d (o' + 72); f19 \<leftarrow> LoadLe32 d (o' + 76); f20 \<leftarrow> LoadLe32 d (o' + 80);
     let out = \<lparr>RiscvUcodeDescriptor.version = f0, bootloaderOffset = f1, bootloaderSize = f2,
       bootloaderParamOffset = f3, bootloaderParamSize = f4, riscvElfOffset = f5, riscvElfSize = f6,
       appVersion = f7, manifestOffset = f8, manifestSize = f9, monitorDataOffset = f10,
       monitorDataSize = f11, monitorCodeOffset = f12, monitorCodeSize = f13, isMonitorEnabled = f14,
       swbromCodeOffset = f15, swbromCodeSize = f16, swbromDataOffset = f17, swbromDataSize = f18,
       fbReservedSize = f19, signedAsCode = f20, isSmp = 0, isPlicEnabled = 0, hasExtendedFields = False\<rparr>;
     if extended then do {
       f21 \<leftarrow> LoadLe32 d (o' + 84); f22 \<leftarrow> LoadLe32 d (o' + 88);
       Some (out\<lparr>isSmp := f21, isPlicEnabled := f22, hasExtendedFields := True\<rparr>) }
     else Some out }"

definition ParseRiscvBootloader :: "byte list \<Rightarrow> RiscvBootloaderInfo option" where
  "ParseRiscvBootloader img =
     (if length img < kBinHeaderBytes then Some RiscvBootloaderInfo0
      else do {
        b \<leftarrow> ReadBin img;
        let out = RiscvBootloaderInfo0\<lparr>RiscvBootloaderInfo.bin' := b\<rparr>;
        let total' = unat (binSize b);
        if total' < kBinHeaderBytes \<or> length img < total'
        then Some (out\<lparr>RiscvBootloaderInfo.status := BinSizeOutOfRange\<rparr>)
        else if \<not> RangeFits total' (ucast (BinHeader.dataOffset b)) (ucast (BinHeader.dataSize b))
        then Some (out\<lparr>RiscvBootloaderInfo.status := DataOutOfRange\<rparr>)
        else if BinHeader.dataOffset b < BinHeader.headerOffset b \<or>
                \<not> RangeFits total' (ucast (BinHeader.headerOffset b)) (of_nat kRiscvDescriptorV1Bytes)
        then Some (out\<lparr>RiscvBootloaderInfo.status := RiscvDescriptorOutOfRange\<rparr>)
        else do {
          let descriptorRegionBytes = (ucast (BinHeader.dataOffset b) - ucast (BinHeader.headerOffset b) :: u64);
          let extended = (kRiscvDescriptorCurrentBytes \<le> unat descriptorRegionBytes \<and>
            RangeFits total' (ucast (BinHeader.headerOffset b)) (of_nat kRiscvDescriptorCurrentBytes));
          d \<leftarrow> ReadDescriptor img (unat (BinHeader.headerOffset b)) extended;
          let out = out\<lparr>descriptor := d\<rparr>;
          let payloadOk = (
            DescriptorRangeFits b (bootloaderOffset d) (bootloaderSize d) \<and>
            DescriptorRangeFits b (bootloaderParamOffset d) (bootloaderParamSize d) \<and>
            DescriptorRangeFits b (riscvElfOffset d) (riscvElfSize d) \<and>
            DescriptorRangeFits b (manifestOffset d) (manifestSize d) \<and>
            DescriptorRangeFits b (monitorDataOffset d) (monitorDataSize d) \<and>
            DescriptorRangeFits b (monitorCodeOffset d) (monitorCodeSize d) \<and>
            DescriptorRangeFits b (swbromCodeOffset d) (swbromCodeSize d) \<and>
            DescriptorRangeFits b (swbromDataOffset d) (swbromDataSize d));
          if \<not> payloadOk then Some (out\<lparr>RiscvBootloaderInfo.status := RiscvPayloadOutOfRange\<rparr>)
          else Some (out\<lparr>RiscvBootloaderInfo.status := ParseStatus.Ok\<rparr>) } })"

fun ParseStatusName :: "ParseStatus \<Rightarrow> string" where
  "ParseStatusName ParseStatus.Ok = ''ok''"
| "ParseStatusName TooSmall = ''too-small''"
| "ParseStatusName BinSizeOutOfRange = ''bin-size-out-of-range''"
| "ParseStatusName HeaderOutOfRange = ''hs-header-out-of-range''"
| "ParseStatusName LoadHeaderOutOfRange = ''load-header-out-of-range''"
| "ParseStatusName AppTableOutOfRange = ''app-table-out-of-range''"
| "ParseStatusName NoApplications = ''no-applications''"
| "ParseStatusName DataOutOfRange = ''data-out-of-range''"
| "ParseStatusName SignatureOutOfRange = ''signature-out-of-range''"
| "ParseStatusName PatchPointerOutOfRange = ''patch-pointer-out-of-range''"
| "ParseStatusName AppOutOfRange = ''app-out-of-range''"
| "ParseStatusName OsDataOutOfRange = ''os-data-out-of-range''"
| "ParseStatusName RiscvDescriptorOutOfRange = ''riscv-descriptor-out-of-range''"
| "ParseStatusName RiscvPayloadOutOfRange = ''riscv-payload-out-of-range''"

fun BooterPatchStatusName :: "BooterPatchStatus \<Rightarrow> string" where
  "BooterPatchStatusName BooterPatchStatus.Ok = ''ok''"
| "BooterPatchStatusName InvalidBooter = ''invalid-booter''"
| "BooterPatchStatusName NumSignaturesPointerOutOfRange = ''num-signatures-pointer-out-of-range''"
| "BooterPatchStatusName ZeroSignatures = ''zero-signatures''"
| "BooterPatchStatusName InvalidSignatureTable = ''invalid-signature-table''"
| "BooterPatchStatusName SignatureSelectionOutOfRange = ''signature-selection-out-of-range''"
| "BooterPatchStatusName PatchTargetOutOfRange = ''patch-target-out-of-range''"

section \<open>The header views\<close>

lemma RangeFits_iff: "RangeFits n off len \<longleftrightarrow> unat off + unat len \<le> n"
  by (auto simp: RangeFits_def)

definition bin_at :: "byte list \<Rightarrow> BinHeader" where
  "bin_at d = \<lparr>magic = word_at d 0, BinHeader.version = word_at d 4, binSize = word_at d 8,
     BinHeader.headerOffset = word_at d 12, BinHeader.dataOffset = word_at d 16,
     BinHeader.dataSize = word_at d 20\<rparr>"

definition hs_at :: "byte list \<Rightarrow> nat \<Rightarrow> HsHeaderV2" where
  "hs_at d k = \<lparr>sigProdOffset = word_at d k, sigProdSize = word_at d (k + 4), patchLoc = word_at d (k + 8),
     patchSig = word_at d (k + 12), metaDataOffset = word_at d (k + 16),
     metaDataSize = word_at d (k + 20), numSig = word_at d (k + 24),
     HsHeaderV2.headerOffset = word_at d (k + 28), headerSize = word_at d (k + 32)\<rparr>"

definition load_at :: "byte list \<Rightarrow> nat \<Rightarrow> LoadHeaderV2" where
  "load_at d k = \<lparr>osCodeOffset = word_at d k, osCodeSize = word_at d (k + 4),
     osDataOffset = word_at d (k + 8), osDataSize = word_at d (k + 12), numApps = word_at d (k + 16)\<rparr>"

definition app_at :: "byte list \<Rightarrow> nat \<Rightarrow> AppHeaderV2" where
  "app_at d k = \<lparr>offset = word_at d k, size' = word_at d (k + 4),
     AppHeaderV2.dataOffset = word_at d (k + 8), AppHeaderV2.dataSize = word_at d (k + 12)\<rparr>"

lemma Read_at:
  "24 \<le> length d \<Longrightarrow> ReadBin d = Some (bin_at d)"
  "k + 36 \<le> length d \<Longrightarrow> ReadHs d k = Some (hs_at d k)"
  "k + 20 \<le> length d \<Longrightarrow> ReadLoad d k = Some (load_at d k)"
  "k + 16 \<le> length d \<Longrightarrow> ReadApp d k = Some (app_at d k)"
  by (simp_all add: ReadBin_def ReadHs_def ReadLoad_def ReadApp_def LoadLe_at bin_at_def hs_at_def
      load_at_def app_at_def)

section \<open>The booter image\<close>

definition booter_view :: "byte list \<Rightarrow> BooterImageInfo" where
  "booter_view d = (let b = bin_at d; h = hs_at d (unat (BinHeader.headerOffset b));
       k = unat (HsHeaderV2.headerOffset h) in
     \<lparr>BooterImageInfo.status = ParseStatus.Ok, BooterImageInfo.bin' = b, hs = h,
       load' = load_at d k, firstApp = app_at d (k + 20)\<rparr>)"

text \<open>A well-formed booter container: every table and range lies inside the declared size, and the
  application and OS ranges inside the payload.\<close>

definition booter_ok :: "byte list \<Rightarrow> bool" where
  "booter_ok d \<longleftrightarrow> (let i = booter_view d; b = BooterImageInfo.bin' i; h = hs i; l = load' i; a = firstApp i;
       n = unat (binSize b) in
     24 \<le> n \<and> n \<le> length d \<and> unat (BinHeader.headerOffset b) + 36 \<le> n \<and>
     unat (HsHeaderV2.headerOffset h) + 20 + 16 * unat (numApps l) \<le> n \<and> numApps l \<noteq> 0 \<and>
     unat (BinHeader.dataOffset b) + unat (BinHeader.dataSize b) \<le> n \<and>
     unat (sigProdOffset h) + unat (sigProdSize h) \<le> n \<and>
     unat (patchLoc h) + 4 \<le> n \<and> unat (patchSig h) + 4 \<le> n \<and>
     unat (offset a) + unat (size' a) \<le> unat (BinHeader.dataSize b) \<and>
     unat (AppHeaderV2.dataOffset a) + unat (AppHeaderV2.dataSize a) \<le> unat (BinHeader.dataSize b) \<and>
     unat (osDataOffset l) + unat (osDataSize l) \<le> unat (BinHeader.dataSize b) \<and>
     unat (osCodeOffset l) + unat (osCodeSize l) \<le> unat (BinHeader.dataSize b))"

lemma unat_ucast_sum: "unat (ucast (a :: u32) + ucast (b :: u32) :: u64) = unat a + unat b"
  using unat_lt(3) [of a] unat_lt(3) [of b] by (subst unat_add_nowrap) simp_all

lemma sum_less_iff: "(ucast c :: u64) < ucast (a :: u32) + ucast (b :: u32) \<longleftrightarrow> \<not> unat a + unat b \<le> unat (c :: u32)"
  by (simp add: word_less_nat_alt unat_ucast_sum not_le)

lemma app_table_words:
  "unat (ucast n * 16 :: u64) = 16 * unat (n :: u32)" "unat (ucast k + 20 :: u64) = unat (k :: u32) + 20"
  using unat_lt(3) [of n] unat_lt(3) [of k]
  by (subst unat_mult_nowrap unat_add_nowrap; simp)+

lemma ParseBooterImage_cases:
  "\<exists>i. ParseBooterImage d = Some i \<and> (BooterImageInfo.status i = ParseStatus.Ok \<longleftrightarrow> booter_ok d) \<and>
    (BooterImageInfo.status i = ParseStatus.Ok \<longrightarrow> i = booter_view d)"
proof (cases "24 \<le> length d \<and> 24 \<le> unat (binSize (bin_at d)) \<and> unat (binSize (bin_at d)) \<le> length d")
  case False
  then show ?thesis
    by (auto simp: ParseBooterImage_def nvfw_consts Read_at Let_def booter_ok_def booter_view_def
        BooterImageInfo0_def)
next
  case True
  define b h where "b = bin_at d" and "h = hs_at d (unat (BinHeader.headerOffset b))"
  let ?n = "unat (binSize b)" and ?k = "unat (HsHeaderV2.headerOffset h)"
  define l a where "l = load_at d ?k" and "a = app_at d (?k + 20)"
  have n: "24 \<le> length d" "\<not> (?n < 24 \<or> length d < ?n)" "?n \<le> length d" using True by (auto simp: b_def)
  have view: "booter_view d = \<lparr>BooterImageInfo.status = ParseStatus.Ok, BooterImageInfo.bin' = b, hs = h,
      load' = l, firstApp = a\<rparr>"
    by (simp add: booter_view_def b_def h_def l_def a_def Let_def)
  note defs = ParseBooterImage_def nvfw_consts BooterImageInfo0_def RangeFits_iff Let_def
  show ?thesis
  proof (cases "unat (BinHeader.headerOffset b) + 36 \<le> ?n")
    case False
    then show ?thesis using n by (simp add: defs Read_at b_def [symmetric]) (auto simp: booter_ok_def view)
  next
    case hs: True
    have rh: "ReadHs d (unat (BinHeader.headerOffset b)) = Some h" using hs n by (simp add: Read_at h_def)
    show ?thesis
    proof (cases "?k + 20 \<le> ?n \<and> numApps l \<noteq> 0 \<and> ?k + 20 + 16 * unat (numApps l) \<le> ?n")
      case False
      then show ?thesis
        using n hs rh by (auto simp: defs Read_at b_def [symmetric] l_def [symmetric] app_table_words
          booter_ok_def view)
    next
      case True
      then have rl: "ReadLoad d ?k = Some l" using n by (simp add: Read_at l_def)
      have "unat (numApps l) \<noteq> 0" using True by (simp add: unat_eq_zero)
      then have "?k + 20 + 16 \<le> ?n" using True by linarith
      then have ra: "ReadApp d (?k + 20) = Some a" using n by (simp add: Read_at a_def)
      show ?thesis
        using n hs rh rl ra True
        by (auto simp: defs Read_at b_def [symmetric] app_table_words sum_less_iff booter_ok_def view)
    qed
  qed
qed

text \<open>
  C33. Parsing a booter image never reads outside it, whatever its bytes. It reports success
  exactly for a well-formed container, and the result then is the headers found at the offsets
  the container names.
\<close>
theorem ParseBooterImage_spec:
  "\<exists>i. ParseBooterImage d = Some i \<and> (BooterImageInfo.status i = ParseStatus.Ok \<longleftrightarrow> booter_ok d) \<and>
    (booter_ok d \<longrightarrow> i = booter_view d)"
  using ParseBooterImage_cases [of d] by auto

section \<open>The production signature\<close>

lemma copy_signature_eq:
  "src + i + k \<le> length img \<Longrightarrow> dst + i + k \<le> length out \<Longrightarrow>
    copy_signature img src dst i k out = Some (put out (dst + i) (slice img (src + i) k))"
proof (induction k arbitrary: i out)
  case 0
  then show ?case by (simp add: slice_def)
next
  case (Suc k)
  have "slice img (src + i) (Suc k) = img ! (src + i) # slice img (src + Suc i) k"
    using Suc.prems by (simp add: slice_def Cons_nth_drop_Suc [symmetric])
  moreover have "src + Suc i + k \<le> length img" "dst + Suc i + k \<le> length (out[dst + i := img ! (src + i)])"
    using Suc.prems by simp_all
  ultimately show ?case
    using Suc.prems Suc.IH [of "Suc i" "out[dst + i := img ! (src + i)]"]
    by (simp add: rd_def wr_def put_Cons)
qed

text \<open>When the patch applies: the signature count is readable and divides the signature table, and
  the selected signature and the patch target are inside the table and the payload.\<close>

definition booter_patch_ok :: "byte list \<Rightarrow> BooterImageInfo \<Rightarrow> bool" where
  "booter_patch_ok d i \<longleftrightarrow> (let b = BooterImageInfo.bin' i; h = hs i; n = unat (binSize b);
       count = word_at d (unat (numSig h)); sig = unat (sigProdSize h) div unat count;
       patch = unat (word_at d (unat (patchLoc h))); selected = unat (word_at d (unat (patchSig h))) in
     BooterImageInfo.status i = ParseStatus.Ok \<and> n \<le> length d \<and>
     unat (BinHeader.dataOffset b) + unat (BinHeader.dataSize b) \<le> n \<and>
     unat (sigProdOffset h) + unat (sigProdSize h) \<le> n \<and>
     unat (patchLoc h) + 4 \<le> n \<and> unat (patchSig h) + 4 \<le> n \<and> unat (numSig h) + 4 \<le> n \<and>
     count \<noteq> 0 \<and> sigProdSize h \<noteq> 0 \<and> unat count dvd unat (sigProdSize h) \<and>
     selected + sig \<le> unat (sigProdSize h) \<and> patch + sig \<le> unat (BinHeader.dataSize b))"

lemma PatchBooterProductionSignature_cases:
  "\<exists>r. PatchBooterProductionSignature d i = Some r \<and>
    (BooterPatchResult.status r = BooterPatchStatus.Ok \<longleftrightarrow> booter_patch_ok d i) \<and>
    (booter_patch_ok d i \<longrightarrow>
      (let b = BooterImageInfo.bin' i; h = hs i in
       unat (signatureBytes r) * unat (signatureCount r) = unat (sigProdSize h) \<and>
       bytes r = put (slice d (unat (BinHeader.dataOffset b)) (unat (BinHeader.dataSize b)))
         (unat (patchOffset r))
         (slice d (unat (sigProdOffset h) + unat (selectedSignatureOffset r)) (unat (signatureBytes r)))))"
proof -
  define b h where "b = BooterImageInfo.bin' i" and "h = hs i"
  let ?n = "unat (binSize b)"
  define count patch selected where "count = word_at d (unat (numSig h))"
    and "patch = word_at d (unat (patchLoc h))" and "selected = word_at d (unat (patchSig h))"
  let ?sig = "sigProdSize h div count"
  have sig: "unat ?sig = unat (sigProdSize h) div unat count" by (simp add: unat_div_distrib)
  have dvd: "sigProdSize h mod count = 0 \<longleftrightarrow> unat count dvd unat (sigProdSize h)" by (rule word_mod_eq_0_iff)
  have room: "(x < y \<or> x - y < z) \<longleftrightarrow> \<not> unat y + unat z \<le> unat x" for x y z :: u32
    using sub_less_iff [of y x z] by (cases "y \<le> x") (auto simp: word_le_nat_alt word_less_nat_alt)
  note defs = PatchBooterProductionSignature_def Let_def RangeFits_iff b_def [symmetric] h_def [symmetric]
    BooterPatchResult0_def
  have ok: "booter_patch_ok d i \<longleftrightarrow> BooterImageInfo.status i = ParseStatus.Ok \<and> ?n \<le> length d \<and>
      unat (BinHeader.dataOffset b) + unat (BinHeader.dataSize b) \<le> ?n \<and>
      unat (sigProdOffset h) + unat (sigProdSize h) \<le> ?n \<and> unat (patchLoc h) + 4 \<le> ?n \<and>
      unat (patchSig h) + 4 \<le> ?n \<and> unat (numSig h) + 4 \<le> ?n \<and> count \<noteq> 0 \<and> sigProdSize h \<noteq> 0 \<and>
      unat count dvd unat (sigProdSize h) \<and> unat selected + unat ?sig \<le> unat (sigProdSize h) \<and>
      unat patch + unat ?sig \<le> unat (BinHeader.dataSize b)"
    unfolding booter_patch_ok_def Let_def b_def [symmetric] h_def [symmetric] count_def [symmetric]
      patch_def [symmetric] selected_def [symmetric] sig by blast
  show ?thesis
  proof (cases "BooterImageInfo.status i = ParseStatus.Ok \<and> ?n \<le> length d \<and>
      unat (BinHeader.dataOffset b) + unat (BinHeader.dataSize b) \<le> ?n \<and>
      unat (sigProdOffset h) + unat (sigProdSize h) \<le> ?n \<and> unat (patchLoc h) + 4 \<le> ?n \<and>
      unat (patchSig h) + 4 \<le> ?n \<and> unat (numSig h) + 4 \<le> ?n")
    case False
    then show ?thesis by (auto simp: defs ok)
  next
    case ranges: True
    have rd: "LoadLe32 d (unat (numSig h)) = Some count" "LoadLe32 d (unat (patchLoc h)) = Some patch"
      "LoadLe32 d (unat (patchSig h)) = Some selected"
      using ranges by (simp_all add: LoadLe_at count_def patch_def selected_def)
    show ?thesis
    proof (cases "count \<noteq> 0 \<and> sigProdSize h \<noteq> 0 \<and> unat count dvd unat (sigProdSize h) \<and>
        unat selected + unat ?sig \<le> unat (sigProdSize h) \<and> unat patch + unat ?sig \<le> unat (BinHeader.dataSize b)")
      case False
      then have "\<not> booter_patch_ok d i" using ok by blast
      moreover have "\<exists>r. PatchBooterProductionSignature d i = Some r \<and>
          BooterPatchResult.status r \<noteq> BooterPatchStatus.Ok"
        using False ranges by (auto simp: defs rd room dvd)
      ultimately show ?thesis by blast
    next
      case fits: True
      let ?payload = "slice d (unat (BinHeader.dataOffset b)) (unat (BinHeader.dataSize b))"
      let ?src = "unat (sigProdOffset h) + unat selected"
      have payload: "rd_seq d (unat (BinHeader.dataOffset b)) (unat (BinHeader.dataSize b)) = Some ?payload"
        using ranges by (auto simp: rd_seq_eq slice_def simp del: rd_seq.simps)
      have len: "length ?payload = unat (BinHeader.dataSize b)" using ranges by simp
      have copy: "copy_signature d ?src (unat patch) 0 (unat ?sig) ?payload =
          Some (put ?payload (unat patch) (slice d ?src (unat ?sig)))"
        using copy_signature_eq [of ?src 0 "unat ?sig" d "unat patch" ?payload] ranges fits len by simp
      have run: "PatchBooterProductionSignature d i = Some (BooterPatchResult0\<lparr>signatureCount := count,
          signatureBytes := ?sig, patchOffset := patch, selectedSignatureOffset := selected,
          bytes := put ?payload (unat patch) (slice d ?src (unat ?sig)),
          BooterPatchResult.status := BooterPatchStatus.Ok\<rparr>)"
        using ranges fits by (simp add: defs rd room dvd unat_ucast_sum payload copy del: ucast_eq_0_simps)
      have "unat ?sig * unat count = unat (sigProdSize h)" using fits by (simp add: sig)
      then show ?thesis
        unfolding run Let_def b_def [symmetric] h_def [symmetric] using ok ranges fits by (auto simp: BooterPatchResult0_def)
    qed
  qed
qed

text \<open>
  C34. Placing the production signature never leaves the image or the payload, for any image and
  any parse result. It succeeds exactly when the count divides the signature table and the
  selected signature and the target fit; the output then is the payload with exactly the selected
  signature written at the patch location, and the table is the count times the signature size.
\<close>
theorem PatchBooterProductionSignature_spec:
  "\<exists>r. PatchBooterProductionSignature d i = Some r \<and>
    (BooterPatchResult.status r = BooterPatchStatus.Ok \<longleftrightarrow> booter_patch_ok d i) \<and>
    (booter_patch_ok d i \<longrightarrow>
      (let b = BooterImageInfo.bin' i; h = hs i in
       unat (signatureBytes r) * unat (signatureCount r) = unat (sigProdSize h) \<and>
       bytes r = put (slice d (unat (BinHeader.dataOffset b)) (unat (BinHeader.dataSize b)))
         (unat (patchOffset r))
         (slice d (unat (sigProdOffset h) + unat (selectedSignatureOffset r)) (unat (signatureBytes r)))))"
  by (rule PatchBooterProductionSignature_cases)

section \<open>The RISC-V bootloader\<close>

definition descriptor_at :: "byte list \<Rightarrow> nat \<Rightarrow> bool \<Rightarrow> RiscvUcodeDescriptor" where
  "descriptor_at d k ext = \<lparr>RiscvUcodeDescriptor.version = word_at d k,
     bootloaderOffset = word_at d (k + 4), bootloaderSize = word_at d (k + 8),
     bootloaderParamOffset = word_at d (k + 12), bootloaderParamSize = word_at d (k + 16),
     riscvElfOffset = word_at d (k + 20), riscvElfSize = word_at d (k + 24),
     appVersion = word_at d (k + 28), manifestOffset = word_at d (k + 32),
     manifestSize = word_at d (k + 36), monitorDataOffset = word_at d (k + 40),
     monitorDataSize = word_at d (k + 44), monitorCodeOffset = word_at d (k + 48),
     monitorCodeSize = word_at d (k + 52), isMonitorEnabled = word_at d (k + 56),
     swbromCodeOffset = word_at d (k + 60), swbromCodeSize = word_at d (k + 64),
     swbromDataOffset = word_at d (k + 68), swbromDataSize = word_at d (k + 72),
     fbReservedSize = word_at d (k + 76), signedAsCode = word_at d (k + 80),
     isSmp = (if ext then word_at d (k + 84) else 0),
     isPlicEnabled = (if ext then word_at d (k + 88) else 0), hasExtendedFields = ext\<rparr>"

lemma ReadDescriptor_at:
  "k + 84 \<le> length d \<Longrightarrow> (ext \<longrightarrow> k + 92 \<le> length d) \<Longrightarrow>
    ReadDescriptor d k ext = Some (descriptor_at d k ext)"
  by (cases ext) (simp_all add: ReadDescriptor_def LoadLe_at descriptor_at_def Let_def)

text \<open>The extended fields are read when the descriptor region in front of the payload holds them.\<close>

definition riscv_extended :: "byte list \<Rightarrow> bool" where
  "riscv_extended d \<longleftrightarrow> (let b = bin_at d in
     unat (BinHeader.headerOffset b) + 92 \<le> unat (BinHeader.dataOffset b) \<and>
     unat (BinHeader.headerOffset b) + 92 \<le> unat (binSize b))"

definition riscv_view :: "byte list \<Rightarrow> RiscvBootloaderInfo" where
  "riscv_view d = \<lparr>RiscvBootloaderInfo.status = ParseStatus.Ok, RiscvBootloaderInfo.bin' = bin_at d,
     descriptor = descriptor_at d (unat (BinHeader.headerOffset (bin_at d))) (riscv_extended d)\<rparr>"

definition descriptor_ranges :: "RiscvUcodeDescriptor \<Rightarrow> (u32 \<times> u32) list" where
  "descriptor_ranges d = [(bootloaderOffset d, bootloaderSize d), (bootloaderParamOffset d, bootloaderParamSize d),
     (riscvElfOffset d, riscvElfSize d), (manifestOffset d, manifestSize d),
     (monitorDataOffset d, monitorDataSize d), (monitorCodeOffset d, monitorCodeSize d),
     (swbromCodeOffset d, swbromCodeSize d), (swbromDataOffset d, swbromDataSize d)]"

definition riscv_ok :: "byte list \<Rightarrow> bool" where
  "riscv_ok d \<longleftrightarrow> (let b = bin_at d; n = unat (binSize b) in
     24 \<le> n \<and> n \<le> length d \<and> unat (BinHeader.dataOffset b) + unat (BinHeader.dataSize b) \<le> n \<and>
     BinHeader.headerOffset b \<le> BinHeader.dataOffset b \<and> unat (BinHeader.headerOffset b) + 84 \<le> n \<and>
     (\<forall>(off, len) \<in> set (descriptor_ranges (descriptor (riscv_view d))).
        unat off + unat len \<le> unat (BinHeader.dataSize b)))"

lemma DescriptorRangeFits_iff:
  "DescriptorRangeFits b off n \<longleftrightarrow> unat off + unat n \<le> unat (BinHeader.dataSize b)"
  by (simp add: DescriptorRangeFits_def word_le_nat_alt unat_ucast_sum)

lemma ParseRiscvBootloader_cases:
  "\<exists>i. ParseRiscvBootloader d = Some i \<and> (RiscvBootloaderInfo.status i = ParseStatus.Ok \<longleftrightarrow> riscv_ok d) \<and>
    (RiscvBootloaderInfo.status i = ParseStatus.Ok \<longrightarrow> i = riscv_view d)"
proof (cases "24 \<le> length d \<and> 24 \<le> unat (binSize (bin_at d)) \<and> unat (binSize (bin_at d)) \<le> length d")
  case False
  then show ?thesis
    by (auto simp: ParseRiscvBootloader_def nvfw_consts Read_at Let_def riscv_ok_def RiscvBootloaderInfo0_def)
next
  case True
  define b where "b = bin_at d"
  let ?n = "unat (binSize b)" and ?k = "unat (BinHeader.headerOffset b)"
  have n: "24 \<le> length d" "\<not> (?n < 24 \<or> length d < ?n)" "?n \<le> length d" using True by (auto simp: b_def)
  note defs = ParseRiscvBootloader_def nvfw_consts RiscvBootloaderInfo0_def RangeFits_iff Let_def
  show ?thesis
  proof (cases "unat (BinHeader.dataOffset b) + unat (BinHeader.dataSize b) \<le> ?n \<and>
      BinHeader.headerOffset b \<le> BinHeader.dataOffset b \<and> ?k + 84 \<le> ?n")
    case False
    then show ?thesis
      using n by (auto simp: defs Read_at b_def [symmetric] not_less [symmetric]) (auto simp: riscv_ok_def b_def [symmetric] Let_def)
  next
    case ranges: True
    have "ucast (BinHeader.headerOffset b) \<le> (ucast (BinHeader.dataOffset b) :: u64)"
      using ranges by (simp add: word_le_nat_alt)
    from unat_sub [OF this] have region: "unat (ucast (BinHeader.dataOffset b) - ucast (BinHeader.headerOffset b) :: u64) =
        unat (BinHeader.dataOffset b) - ?k" by simp
    have ext: "(92 \<le> unat (BinHeader.dataOffset b) - ?k \<and> ?k + 92 \<le> ?n) = riscv_extended d"
      using ranges by (auto simp: riscv_extended_def b_def [symmetric] Let_def word_le_nat_alt)
    define e where "e = descriptor_at d ?k (riscv_extended d)"
    have rdesc: "ReadDescriptor d ?k (riscv_extended d) = Some e"
      unfolding e_def using n ranges by (intro ReadDescriptor_at) (auto simp: riscv_extended_def b_def [symmetric] Let_def)
    have view: "riscv_view d = \<lparr>RiscvBootloaderInfo.status = ParseStatus.Ok, RiscvBootloaderInfo.bin' = b, descriptor = e\<rparr>"
      by (simp add: riscv_view_def b_def e_def)
    show ?thesis
      using n ranges by (auto simp: defs Read_at b_def [symmetric] region ext rdesc DescriptorRangeFits_iff riscv_ok_def view
        descriptor_ranges_def not_less)
  qed
qed

text \<open>
  Parsing a RISC-V bootloader never reads outside the image. It reports success exactly when
  the descriptor lies in front of the payload and all eight descriptor ranges lie inside the
  payload; the extended fields are taken exactly when the descriptor region holds them.
\<close>
theorem ParseRiscvBootloader_spec:
  "\<exists>i. ParseRiscvBootloader d = Some i \<and> (RiscvBootloaderInfo.status i = ParseStatus.Ok \<longleftrightarrow> riscv_ok d) \<and>
    (riscv_ok d \<longrightarrow> i = riscv_view d)"
  using ParseRiscvBootloader_cases [of d] by auto

section \<open>Sample images\<close>

text \<open>A 120-byte booter: headers up to byte 96, an eight-byte payload, one four-byte signature at 104,
  the patch location 4, the selection 0 and the count 1; and a 112-byte RISC-V container.\<close>

definition sample_booter :: "byte list" where
  "sample_booter = words32 [0x10de, 1, 120, 24, 96, 8,  104, 4, 108, 112, 0, 0, 116, 60, 36,
     0, 4, 4, 4, 1,  0, 8, 0, 8,  0x11111111, 0x22222222,  0x53494753,  4, 0, 1]"

definition sample_riscv :: "byte list" where
  "sample_riscv = words32 [0x10de, 1, 112, 24, 108, 4,  1, 0, 4, 0, 0, 0, 4, 7, 0, 0, 0, 0, 0, 4, 0, 0, 0,
     0, 0, 0, 1,  0xAAAAAAAA]"

lemma sample_booter_ok: "booter_ok sample_booter"
  by (simp add: booter_ok_def booter_view_def bin_at_def hs_at_def load_at_def app_at_def Let_def
      sample_booter_def word_at_words32)

theorem ParseBooterImage_witness:
  "booter_ok sample_booter \<and> ParseBooterImage sample_booter = Some (booter_view sample_booter)"
  using ParseBooterImage_spec [of sample_booter] sample_booter_ok by auto

theorem PatchBooterProductionSignature_witness:
  "\<exists>r. PatchBooterProductionSignature sample_booter (booter_view sample_booter) = Some r \<and>
    BooterPatchResult.status r = BooterPatchStatus.Ok"
proof -
  have "booter_patch_ok sample_booter (booter_view sample_booter)"
    by (simp add: booter_patch_ok_def booter_view_def bin_at_def hs_at_def Let_def sample_booter_def
        word_at_words32)
  then show ?thesis
    using PatchBooterProductionSignature_spec [of sample_booter "booter_view sample_booter"] by auto
qed

theorem ParseRiscvBootloader_witness:
  "riscv_ok sample_riscv \<and> (\<exists>i. ParseRiscvBootloader sample_riscv = Some i \<and> appVersion (descriptor i) = 7)"
proof -
  have "riscv_ok sample_riscv"
    by (simp add: riscv_ok_def riscv_view_def descriptor_ranges_def descriptor_at_def riscv_extended_def
        bin_at_def Let_def sample_riscv_def word_at_words32 word_le_nat_alt)
  moreover have "appVersion (descriptor (riscv_view sample_riscv)) = 7"
    by (simp add: riscv_view_def descriptor_at_def bin_at_def sample_riscv_def word_at_words32)
  ultimately show ?thesis using ParseRiscvBootloader_spec [of sample_riscv] by auto
qed

section \<open>Status names\<close>

lemma ParseStatusName_inj: "ParseStatusName s = ParseStatusName t \<longleftrightarrow> s = t"
  by (cases s; cases t) simp_all

lemma BooterPatchStatusName_inj: "BooterPatchStatusName s = BooterPatchStatusName t \<longleftrightarrow> s = t"
  by (cases s; cases t) simp_all

end
