(* ===== verification/Elf.thy ===== *)
theory Elf
  imports Prelude
begin

text \<open>
  The ELF64 section lookup (\<open>src/core/elf.cpp\<close>, \<open>include/rtxmac/elf.hpp\<close>). A section name is
  the byte sequence of its characters. \<open>None\<close> is a read outside the image.
\<close>

section \<open>Data\<close>

definition kElf64HeaderBytes :: nat where "kElf64HeaderBytes = 64"
definition kElf64SectionBytes :: u16 where "kElf64SectionBytes = 64"

datatype Status = Ok | TooSmall | BadMagic | UnsupportedClass | UnsupportedEndian | BadSectionTable
  | UnsupportedExtendedIndex | BadStringTable | BadSectionRange | BadSectionName | NotFound

record Section =
  status :: Status
  offset :: u64
  size' :: u64
  flags :: u64
  type' :: u32
  alignment :: u64

definition Section0 :: Section where
  "Section0 = \<lparr>status = TooSmall, offset = 0, size' = 0, flags = 0, type' = 0, alignment = 0\<rparr>"

record RawSection =
  name :: u32
  type' :: u32
  flags :: u64
  offset :: u64
  size' :: u64
  alignment :: u64

section \<open>Operations\<close>

definition RangeFits :: "nat \<Rightarrow> u64 \<Rightarrow> u64 \<Rightarrow> bool" where
  "RangeFits total' off n \<longleftrightarrow> unat off \<le> total' \<and> unat n \<le> total' - unat off"

definition ReadSection :: "byte list \<Rightarrow> nat \<Rightarrow> RawSection option" where
  "ReadSection img off = do {
     a \<leftarrow> LoadLe32 img (off + 0); b \<leftarrow> LoadLe32 img (off + 4); c \<leftarrow> LoadLe64 img (off + 8);
     d \<leftarrow> LoadLe64 img (off + 24); e \<leftarrow> LoadLe64 img (off + 32); f \<leftarrow> LoadLe64 img (off + 48);
     Some \<lparr>name = a, RawSection.type' = b, RawSection.flags = c, RawSection.offset = d,
       RawSection.size' = e, RawSection.alignment = f\<rparr> }"

text \<open>The scan for the end of a name.\<close>

function name_end :: "byte list \<Rightarrow> u64 \<Rightarrow> u64 \<Rightarrow> u64 option" where
  "name_end img strEnd e =
     (if e < strEnd then do {
        b \<leftarrow> rd img (unat e);
        if b \<noteq> 0 then name_end img strEnd (e + 1) else Some e }
      else Some e)"
  by auto
termination
proof (relation "measure (\<lambda>(img, strEnd, e). unat strEnd - unat e)")
  fix img :: "byte list" and strEnd e :: u64 and b :: byte
  assume "e < strEnd"
  then have "unat e < unat strEnd" "unat (e + 1) = unat e + 1"
    by (simp_all add: word_less_nat_alt unat_inc)
  then show "((img, strEnd, e + 1), img, strEnd, e) \<in> measure (\<lambda>(img, strEnd, e). unat strEnd - unat e)"
    by simp
qed simp

text \<open>The fields a found section reports.\<close>

definition result_of :: "RawSection \<Rightarrow> Section" where
  "result_of s = \<lparr>Section.status = Ok, Section.offset = RawSection.offset s,
     Section.size' = RawSection.size' s, Section.flags = RawSection.flags s,
     Section.type' = RawSection.type' s, Section.alignment = RawSection.alignment s\<rparr>"

text \<open>The loop over the section headers, from header \<open>i\<close> with \<open>n\<close> headers to go.\<close>

fun section_loop ::
    "byte list \<Rightarrow> byte list \<Rightarrow> u64 \<Rightarrow> u16 \<Rightarrow> RawSection \<Rightarrow> u16 \<Rightarrow> nat \<Rightarrow> Section option" where
  "section_loop img nm shoff shentsize strings i 0 = Some (Section0\<lparr>Section.status := NotFound\<rparr>)"
| "section_loop img nm shoff shentsize strings i (Suc n) = do {
     let hdrOff64 = (shoff + ucast i * ucast shentsize :: u64);
     s \<leftarrow> ReadSection img (unat hdrOff64);
     if \<not> RangeFits (length img) (RawSection.offset s) (RawSection.size' s) \<and> RawSection.type' s \<noteq> 8
     then Some (Section0\<lparr>Section.status := BadSectionRange\<rparr>)
     else if RawSection.size' strings \<le> ucast (name s)
     then Some (Section0\<lparr>Section.status := BadSectionName\<rparr>)
     else do {
       let nameOff = (RawSection.offset strings + ucast (name s) :: u64);
       let strEnd = (RawSection.offset strings + RawSection.size' strings :: u64);
       e \<leftarrow> name_end img strEnd nameOff;
       if e = strEnd then Some (Section0\<lparr>Section.status := BadSectionName\<rparr>)
       else do {
         sectionName \<leftarrow> rd_seq img (unat nameOff) (unat (e - nameOff));
         if sectionName = nm then
           if RawSection.type' s = 8 then Some (Section0\<lparr>Section.status := BadSectionRange\<rparr>)
           else Some (result_of s)
         else section_loop img nm shoff shentsize strings (i + 1) n } } }"

definition FindSection :: "byte list \<Rightarrow> byte list \<Rightarrow> Section option" where
  "FindSection img nm =
     (if length img < kElf64HeaderBytes then Some Section0
      else do {
        m0 \<leftarrow> rd img 0; m1 \<leftarrow> rd img 1; m2 \<leftarrow> rd img 2; m3 \<leftarrow> rd img 3;
        if m0 \<noteq> 0x7F \<or> m1 \<noteq> 0x45 \<or> m2 \<noteq> 0x4C \<or> m3 \<noteq> 0x46
        then Some (Section0\<lparr>Section.status := BadMagic\<rparr>)
        else do {
          cls \<leftarrow> rd img 4;
          if cls \<noteq> 2 then Some (Section0\<lparr>Section.status := UnsupportedClass\<rparr>)
          else do {
            endian \<leftarrow> rd img 5;
            if endian \<noteq> 1 then Some (Section0\<lparr>Section.status := UnsupportedEndian\<rparr>)
            else do {
              shoff \<leftarrow> LoadLe64 img 0x28;
              shentsize \<leftarrow> LoadLe16 img 0x3A;
              shnum \<leftarrow> LoadLe16 img 0x3C;
              shstrndx \<leftarrow> LoadLe16 img 0x3E;
              if shnum = 0 \<or> shstrndx = 0xFFFF
              then Some (Section0\<lparr>Section.status := UnsupportedExtendedIndex\<rparr>)
              else if shentsize < kElf64SectionBytes \<or> shnum \<le> shstrndx
              then Some (Section0\<lparr>Section.status := BadSectionTable\<rparr>)
              else if (- 1 :: u64) div ucast shentsize < ucast shnum \<or>
                \<not> RangeFits (length img) shoff (ucast shnum * ucast shentsize)
              then Some (Section0\<lparr>Section.status := BadSectionTable\<rparr>)
              else do {
                let strHdrOff64 = (shoff + ucast shstrndx * ucast shentsize :: u64);
                if unat strHdrOff64 > SIZE_MAX
                then Some (Section0\<lparr>Section.status := BadSectionTable\<rparr>)
                else do {
                  strings \<leftarrow> ReadSection img (unat strHdrOff64);
                  if \<not> RangeFits (length img) (RawSection.offset strings) (RawSection.size' strings)
                  then Some (Section0\<lparr>Section.status := BadStringTable\<rparr>)
                  else section_loop img nm shoff shentsize strings 0 (unat shnum) } } } } } })"

fun StatusName :: "Status \<Rightarrow> string" where
  "StatusName Ok = ''ok''"
| "StatusName TooSmall = ''too-small''"
| "StatusName BadMagic = ''bad-magic''"
| "StatusName UnsupportedClass = ''unsupported-class''"
| "StatusName UnsupportedEndian = ''unsupported-endian''"
| "StatusName BadSectionTable = ''bad-section-table''"
| "StatusName UnsupportedExtendedIndex = ''unsupported-extended-section-index''"
| "StatusName BadStringTable = ''bad-string-table''"
| "StatusName BadSectionRange = ''bad-section-range''"
| "StatusName BadSectionName = ''bad-section-name''"
| "StatusName NotFound = ''not-found''"

lemma StatusName_inj: "StatusName s = StatusName t \<longleftrightarrow> s = t"
  by (cases s; cases t) simp_all

section \<open>The section table as the image holds it\<close>

definition raw_at :: "byte list \<Rightarrow> nat \<Rightarrow> RawSection" where
  "raw_at img off = \<lparr>name = word_at img off, RawSection.type' = word_at img (off + 4),
     RawSection.flags = long_at img (off + 8), RawSection.offset = long_at img (off + 24),
     RawSection.size' = long_at img (off + 32), RawSection.alignment = long_at img (off + 48)\<rparr>"

definition header_at :: "byte list \<Rightarrow> nat \<Rightarrow> RawSection" where
  "header_at img i = raw_at img (unat (long_at img 0x28) + i * unat (half_at img 0x3A))"

definition string_table :: "byte list \<Rightarrow> RawSection" where
  "string_table img = header_at img (unat (half_at img 0x3E))"

text \<open>The zero-terminated name of a section.\<close>

definition name_bytes :: "byte list \<Rightarrow> RawSection \<Rightarrow> RawSection \<Rightarrow> byte list" where
  "name_bytes img strings s =
     takeWhile (\<lambda>b. b \<noteq> 0) (drop (unat (RawSection.offset strings) + unat (name s)) img)"

text \<open>What a lookup among the headers \<open>is\<close> may answer.\<close>

definition lookup_ok ::
    "byte list \<Rightarrow> byte list \<Rightarrow> (nat \<Rightarrow> RawSection) \<Rightarrow> RawSection \<Rightarrow> nat \<Rightarrow> nat \<Rightarrow> Section \<Rightarrow> bool" where
  "lookup_ok img nm hdr strings lo hi r \<longleftrightarrow>
     (Section.status r = Ok \<longrightarrow>
       (\<exists>j. lo \<le> j \<and> j < hi \<and> name_bytes img strings (hdr j) = nm \<and> r = result_of (hdr j) \<and>
         RawSection.type' (hdr j) \<noteq> 8 \<and>
         unat (RawSection.offset (hdr j)) + unat (RawSection.size' (hdr j)) \<le> length img \<and>
         (\<forall>k. lo \<le> k \<longrightarrow> k < j \<longrightarrow> name_bytes img strings (hdr k) \<noteq> nm))) \<and>
     (Section.status r = NotFound \<longrightarrow>
       (\<forall>k. lo \<le> k \<longrightarrow> k < hi \<longrightarrow> name_bytes img strings (hdr k) \<noteq> nm))"

section \<open>The lookup\<close>

lemma SectionRangeFits_iff: "RangeFits n off len \<longleftrightarrow> unat off + unat len \<le> n"
  by (auto simp: RangeFits_def)

lemma ReadSection_at: "off + 64 \<le> length img \<Longrightarrow> ReadSection img off = Some (raw_at img off)"
  by (simp add: ReadSection_def raw_at_def LoadLe_at)

declare name_end.simps [simp del]

lemma name_end_safe:
  assumes "unat strEnd \<le> length img" and "e \<le> strEnd"
  shows "\<exists>e'. name_end img strEnd e = Some e' \<and> e \<le> e' \<and> e' \<le> strEnd \<and>
    (e' \<noteq> strEnd \<longrightarrow>
      slice img (unat e) (unat e' - unat e) = takeWhile (\<lambda>b. b \<noteq> 0) (drop (unat e) img))"
  using assms
proof (induction img strEnd e rule: name_end.induct)
  case (1 img strEnd e)
  show ?case
  proof (cases "e < strEnd")
    case False
    then show ?thesis using "1.prems" by (simp add: name_end.simps)
  next
    case True
    then have e: "unat e < length img" using "1.prems" by (simp add: word_less_nat_alt)
    then have head: "drop (unat e) img = img ! unat e # drop (Suc (unat e)) img"
      by (simp add: Cons_nth_drop_Suc)
    have inc: "unat (e + 1) = Suc (unat e)" using True by (rule unat_inc)
    show ?thesis
    proof (cases "img ! unat e = 0")
      case zero: True
      then have "name_end img strEnd e = Some e" using True e by (simp add: name_end.simps rd_at)
      moreover have "slice img (unat e) (unat e - unat e) = takeWhile (\<lambda>b. b \<noteq> 0) (drop (unat e) img)"
        using zero by (simp add: head slice_def)
      ultimately show ?thesis using "1.prems" by blast
    next
      case False
      have le: "e + 1 \<le> strEnd" using True inc by (simp add: word_le_nat_alt word_less_nat_alt)
      from "1.IH" [OF True rd_at [OF e] False "1.prems"(1) le] obtain e' where e':
        "name_end img strEnd (e + 1) = Some e'" "e + 1 \<le> e'" "e' \<le> strEnd"
        "e' \<noteq> strEnd \<longrightarrow> slice img (unat (e + 1)) (unat e' - unat (e + 1)) =
          takeWhile (\<lambda>b. b \<noteq> 0) (drop (unat (e + 1)) img)" by blast
      have lt: "Suc (unat e) \<le> unat e'" using e'(2) inc by (simp add: word_le_nat_alt)
      then have "slice img (unat e) (unat e' - unat e) =
          img ! unat e # slice img (Suc (unat e)) (unat e' - Suc (unat e))"
        by (cases "unat e' - unat e") (simp_all add: slice_def head Suc_diff_Suc [symmetric])
      then have "e' \<noteq> strEnd \<longrightarrow> slice img (unat e) (unat e' - unat e) =
          takeWhile (\<lambda>b. b \<noteq> 0) (drop (unat e) img)"
        using e'(4) False by (simp add: head inc)
      moreover have "name_end img strEnd e = Some e'"
        using e'(1) True False e by (simp add: name_end.simps [of img strEnd e] rd_at)
      moreover have "e \<le> e'" using lt by (simp add: word_le_nat_alt)
      ultimately show ?thesis using e'(3) by blast
    qed
  qed
qed

text \<open>Entry \<open>i\<close> of a table that lies in the image, in 64-bit address arithmetic.\<close>

lemma table_offset:
  assumes "unat off + n * unat w \<le> N" and "N < 2 ^ 64" and "unat i < n"
  shows "unat (off + ucast (i :: u16) * ucast (w :: u16) :: u64) = unat off + unat i * unat w"
    and "unat off + unat i * unat w + unat w \<le> N"
proof -
  have "(unat i + 1) * unat w \<le> n * unat w" using assms(3) by (intro mult_le_mono1) simp
  then have le: "unat i * unat w + unat w \<le> n * unat w" by simp
  then have prod: "unat (ucast i * ucast w :: u64) = unat i * unat w"
    using assms by (subst unat_mult_nowrap) simp_all
  show "unat (off + ucast i * ucast w :: u64) = unat off + unat i * unat w"
    using assms le by (subst unat_add_nowrap) (simp_all add: prod)
  show "unat off + unat i * unat w + unat w \<le> N" using assms(1) le by simp
qed

lemma section_loop_safe:
  fixes img shoff ent strings
  defines "hdr \<equiv> \<lambda>k. raw_at img (unat shoff + k * unat ent)"
  assumes size: "length img < 2 ^ 64"
    and table: "unat shoff + m * unat ent \<le> length img" "64 \<le> unat ent" "m < 2 ^ 16"
    and str: "unat (RawSection.offset strings) + unat (RawSection.size' strings) \<le> length img"
    and i: "unat i + n = m"
  shows "\<exists>r. section_loop img nm shoff ent strings i n = Some r \<and>
    lookup_ok img nm hdr strings (unat i) m r"
  using i
proof (induction n arbitrary: i)
  case 0
  then show ?case by (simp add: lookup_ok_def Section0_def)
next
  case (Suc n)
  let ?s = "hdr (unat i)"
  have im: "unat i < m" using Suc.prems by simp
  note off = table_offset [OF table(1) size im]
  have rd: "ReadSection img (unat (shoff + ucast i * ucast ent)) = Some ?s"
    using ReadSection_at [of "unat shoff + unat i * unat ent" img] off table(2) by (simp add: hdr_def)
  note run = section_loop.simps(2) [of img nm shoff ent strings i n, unfolded Let_def, unfolded rd,
      unfolded bind.bind_lunit SectionRangeFits_iff]
  show ?case
  proof (cases "\<not> unat (RawSection.offset ?s) + unat (RawSection.size' ?s) \<le> length img \<and>
      RawSection.type' ?s \<noteq> 8 \<or> RawSection.size' strings \<le> ucast (name ?s)")
    case True
    then show ?thesis unfolding run by (auto simp: lookup_ok_def Section0_def)
  next
    case False
    then have range: "unat (RawSection.offset ?s) + unat (RawSection.size' ?s) \<le> length img \<or>
        RawSection.type' ?s = 8"
      and nm_lt: "unat (name ?s) < unat (RawSection.size' strings)"
      by (auto simp: word_le_nat_alt)
    let ?no = "RawSection.offset strings + ucast (name ?s) :: u64"
    let ?se = "RawSection.offset strings + RawSection.size' strings :: u64"
    have no: "unat ?no = unat (RawSection.offset strings) + unat (name ?s)"
      and se: "unat ?se = unat (RawSection.offset strings) + unat (RawSection.size' strings)"
      using str size nm_lt by (auto intro!: trans [OF unat_add_nowrap])
    have "unat ?se \<le> length img" "?no \<le> ?se" using str nm_lt by (simp_all add: no se word_le_nat_alt)
    from name_end_safe [OF this] obtain e where e: "name_end img ?se ?no = Some e" "?no \<le> e" "e \<le> ?se"
      "e \<noteq> ?se \<longrightarrow> slice img (unat ?no) (unat e - unat ?no) =
        takeWhile (\<lambda>b. b \<noteq> 0) (drop (unat ?no) img)" by blast
    have reach: "section_loop img nm shoff ent strings i (Suc n) = (if e = ?se
        then Some (Section0\<lparr>Section.status := BadSectionName\<rparr>)
        else do {
          sectionName \<leftarrow> rd_seq img (unat ?no) (unat (e - ?no));
          if sectionName = nm then
            if RawSection.type' ?s = 8 then Some (Section0\<lparr>Section.status := BadSectionRange\<rparr>)
            else Some (result_of ?s)
          else section_loop img nm shoff ent strings (i + 1) n })"
      using range nm_lt unfolding run by (auto simp: e(1) word_le_nat_alt result_of_def)
    show ?thesis
    proof (cases "e = ?se")
      case True
      then show ?thesis unfolding reach by (simp add: lookup_ok_def Section0_def)
    next
      case neq: False
      have sub: "unat (e - ?no) = unat e - unat ?no" using e(2) by (simp add: unat_sub)
      have "unat ?no \<le> unat e" "unat e \<le> length img"
        using e(2,3) str by (simp_all add: word_le_nat_alt se)
      then have nm: "rd_seq img (unat ?no) (unat (e - ?no)) = Some (name_bytes img strings ?s)"
        using e(4) neq by (simp add: rd_seq_eq sub name_bytes_def no)
      note reach' = reach [unfolded if_not_P [OF neq] nm bind.bind_lunit]
      show ?thesis
      proof (cases "name_bytes img strings ?s = nm")
        case True
        then show ?thesis
          using range im unfolding reach' by (auto simp: lookup_ok_def Section0_def result_of_def)
      next
        case False
        have inc: "unat (i + 1) = Suc (unat i)"
          using im table(3) unat_add_nowrap [of i 1] by simp
        with Suc obtain r where r: "section_loop img nm shoff ent strings (i + 1) n = Some r"
          "lookup_ok img nm hdr strings (Suc (unat i)) m r" by fastforce
        moreover have "lookup_ok img nm hdr strings (unat i) m r"
          using r(2) False unfolding lookup_ok_def by (metis Suc_leD Suc_leI le_neq_implies_less)
        ultimately show ?thesis using False unfolding reach' by simp
      qed
    qed
  qed
qed

text \<open>The headers are readable: magic, class, byte order, section table and string table.\<close>

definition elf_ok :: "byte list \<Rightarrow> bool" where
  "elf_ok img \<longleftrightarrow> 64 \<le> length img \<and> take 6 img = [0x7F, 0x45, 0x4C, 0x46, 2, 1] \<and>
     half_at img 0x3C \<noteq> 0 \<and> half_at img 0x3E \<noteq> 0xFFFF \<and> 64 \<le> unat (half_at img 0x3A) \<and>
     unat (half_at img 0x3E) < unat (half_at img 0x3C) \<and>
     unat (long_at img 0x28) + unat (half_at img 0x3C) * unat (half_at img 0x3A) \<le> length img \<and>
     unat (RawSection.offset (string_table img)) + unat (RawSection.size' (string_table img)) \<le> length img"

lemma take6: "6 \<le> length xs \<Longrightarrow> take 6 xs = [xs ! 0, xs ! 1, xs ! 2, xs ! 3, xs ! 4, xs ! 5]"
  by (rule nth_equalityI) (auto simp: less_Suc_eq numeral_eq_Suc)

text \<open>The checks before the section loop, read off the image.\<close>

lemma FindSection_head:
  assumes "64 \<le> length img"
  shows "FindSection img nm =
    (if img ! 0 \<noteq> 0x7F \<or> img ! 1 \<noteq> 0x45 \<or> img ! 2 \<noteq> 0x4C \<or> img ! 3 \<noteq> 0x46
     then Some (Section0\<lparr>Section.status := BadMagic\<rparr>)
     else if img ! 4 \<noteq> 2 then Some (Section0\<lparr>Section.status := UnsupportedClass\<rparr>)
     else if img ! 5 \<noteq> 1 then Some (Section0\<lparr>Section.status := UnsupportedEndian\<rparr>)
     else if half_at img 0x3C = 0 \<or> half_at img 0x3E = 0xFFFF
     then Some (Section0\<lparr>Section.status := UnsupportedExtendedIndex\<rparr>)
     else if half_at img 0x3A < 64 \<or> half_at img 0x3C \<le> half_at img 0x3E
     then Some (Section0\<lparr>Section.status := BadSectionTable\<rparr>)
     else if (- 1 :: u64) div ucast (half_at img 0x3A) < ucast (half_at img 0x3C) \<or>
       \<not> RangeFits (length img) (long_at img 0x28) (ucast (half_at img 0x3C) * ucast (half_at img 0x3A))
     then Some (Section0\<lparr>Section.status := BadSectionTable\<rparr>)
     else do {
       strings \<leftarrow> ReadSection img (unat (long_at img 0x28 +
         ucast (half_at img 0x3E) * ucast (half_at img 0x3A)));
       if \<not> RangeFits (length img) (RawSection.offset strings) (RawSection.size' strings)
       then Some (Section0\<lparr>Section.status := BadStringTable\<rparr>)
       else section_loop img nm (long_at img 0x28) (half_at img 0x3A) strings 0
         (unat (half_at img 0x3C)) })"
proof -
  have rds: "rd img 0 = Some (img ! 0)" "rd img 1 = Some (img ! 1)" "rd img 2 = Some (img ! 2)"
    "rd img 3 = Some (img ! 3)" "rd img 4 = Some (img ! 4)" "rd img 5 = Some (img ! 5)"
    "LoadLe64 img 0x28 = Some (long_at img 0x28)" "LoadLe16 img 0x3A = Some (half_at img 0x3A)"
    "LoadLe16 img 0x3C = Some (half_at img 0x3C)" "LoadLe16 img 0x3E = Some (half_at img 0x3E)"
    using assms by (auto intro!: rd_at LoadLe_at)
  have small: "\<not> SIZE_MAX < unat (v :: u64)" for v using unat_lt(4) [of v] by simp
  have size: "\<not> length img < kElf64HeaderBytes" using assms by (simp add: kElf64HeaderBytes_def)
  show ?thesis
    unfolding FindSection_def if_not_P [OF size] rds bind.bind_lunit Let_def if_not_P [OF small]
      kElf64SectionBytes_def ..
qed

lemma FindSection_cases:
  assumes size: "length img < 2 ^ 64"
  shows "\<exists>r. FindSection img nm = Some r \<and>
    (elf_ok img \<longrightarrow> lookup_ok img nm (header_at img) (string_table img) 0 (unat (half_at img 0x3C)) r) \<and>
    (\<not> elf_ok img \<longrightarrow> Section.status r \<notin> {Ok, NotFound})"
proof (cases "64 \<le> length img \<and> take 6 img = [0x7F, 0x45, 0x4C, 0x46, 2, 1]")
  case False
  then have not_ok: "\<not> elf_ok img" by (auto simp: elf_ok_def)
  show ?thesis
  proof (cases "64 \<le> length img")
    case True
    have "img ! 0 \<noteq> 0x7F \<or> img ! 1 \<noteq> 0x45 \<or> img ! 2 \<noteq> 0x4C \<or> img ! 3 \<noteq> 0x46 \<or> img ! 4 \<noteq> 2 \<or> img ! 5 \<noteq> 1"
      using True False by (auto simp: take6)
    then show ?thesis
      unfolding FindSection_head [OF True] using not_ok by (auto simp: Section0_def)
  next
    case False
    then show ?thesis using not_ok by (simp add: FindSection_def kElf64HeaderBytes_def Section0_def)
  qed
next
  case True
  then have len: "64 \<le> length img"
    and magic: "img ! 0 = 0x7F" "img ! 1 = 0x45" "img ! 2 = 0x4C" "img ! 3 = 0x46" "img ! 4 = 2" "img ! 5 = 1"
    using take6 [of img] by simp_all
  define shoff ent num idx where "shoff = long_at img 0x28" and "ent = half_at img 0x3A"
    and "num = half_at img 0x3C" and "idx = half_at img 0x3E"
  have bound: "unat num * unat ent < 2 ^ 64"
    using unat_lt(2) [of num] unat_lt(2) [of ent] mult_strict_mono' [of "unat num" "2 ^ 16" "unat ent" "2 ^ 16"]
    by simp
  have prod: "unat (ucast num * ucast ent :: u64) = unat num * unat ent"
    using bound by (subst unat_mult_nowrap) simp_all
  let ?table = "num \<noteq> 0 \<and> idx \<noteq> 0xFFFF \<and> 64 \<le> unat ent \<and> unat idx < unat num \<and>
    unat shoff + unat num * unat ent \<le> length img"
  have guard: "(- 1 :: u64) div ucast ent < ucast num \<or>
      \<not> RangeFits (length img) shoff (ucast num * ucast ent) \<longleftrightarrow>
      \<not> unat shoff + unat num * unat ent \<le> length img" if "64 \<le> unat ent"
  proof -
    have "(ucast ent :: u64) \<noteq> 0" using that by (auto simp: word_unat_eq_iff)
    then have "\<not> (- 1 :: u64) div ucast ent < ucast num"
      using bound by (simp add: not_less mult_guard_iff)
    then show ?thesis by (simp add: SectionRangeFits_iff prod)
  qed
  have run: "FindSection img nm = (if num = 0 \<or> idx = 0xFFFF
      then Some (Section0\<lparr>Section.status := UnsupportedExtendedIndex\<rparr>)
      else if \<not> ?table then Some (Section0\<lparr>Section.status := BadSectionTable\<rparr>)
      else do {
        strings \<leftarrow> ReadSection img (unat (shoff + ucast idx * ucast ent));
        if \<not> RangeFits (length img) (RawSection.offset strings) (RawSection.size' strings)
        then Some (Section0\<lparr>Section.status := BadStringTable\<rparr>)
        else section_loop img nm shoff ent strings 0 (unat num) })"
  proof (cases "64 \<le> unat ent \<and> unat idx < unat num")
    case True
    then have "\<not> (ent < 64 \<or> num \<le> idx)" by (simp add: word_less_nat_alt word_le_nat_alt)
    then show ?thesis
      unfolding FindSection_head [OF len] magic shoff_def [symmetric] ent_def [symmetric]
        num_def [symmetric] idx_def [symmetric] using guard True by simp
  next
    case False
    then have "ent < 64 \<or> num \<le> idx" by (auto simp: word_less_nat_alt word_le_nat_alt)
    then show ?thesis
      unfolding FindSection_head [OF len] magic shoff_def [symmetric] ent_def [symmetric]
        num_def [symmetric] idx_def [symmetric] using False by auto
  qed
  show ?thesis
  proof (cases ?table)
    case False
    then show ?thesis
      unfolding run by (auto simp: Section0_def elf_ok_def shoff_def ent_def num_def idx_def)
  next
    case table: True
    have tab: "unat shoff + unat num * unat ent \<le> length img" and i: "unat idx < unat num" and ent: "64 \<le> unat ent"
      using table by simp_all
    note off = table_offset [OF tab size i]
    have "ReadSection img (unat (shoff + ucast idx * ucast ent)) = Some (string_table img)"
      using off ent ReadSection_at [of "unat shoff + unat idx * unat ent" img]
      by (simp add: string_table_def header_at_def shoff_def ent_def idx_def)
    note run' = run [unfolded this bind.bind_lunit]
    show ?thesis
    proof (cases "RangeFits (length img) (RawSection.offset (string_table img)) (RawSection.size' (string_table img))")
      case False
      then have "\<not> elf_ok img" by (simp add: elf_ok_def SectionRangeFits_iff)
      then show ?thesis using table False unfolding run' by (auto simp: Section0_def)
    next
      case str: True
      have hdr: "header_at img = (\<lambda>k. raw_at img (unat shoff + k * unat ent))"
        by (rule ext) (simp add: header_at_def shoff_def ent_def)
      have "elf_ok img"
        using len True table str by (simp add: elf_ok_def SectionRangeFits_iff shoff_def ent_def num_def idx_def)
      moreover from section_loop_safe [OF size tab ent, of "string_table img" 0 "unat num" nm]
      obtain r where "section_loop img nm shoff ent (string_table img) 0 (unat num) = Some r"
        "lookup_ok img nm (header_at img) (string_table img) 0 (unat num) r"
        using str unat_lt(2) [of num] by (auto simp: SectionRangeFits_iff hdr)
      ultimately show ?thesis using table str unfolding run' by (auto simp: num_def)
    qed
  qed
qed

text \<open>
  C36. Looking up a section never reads outside the image, whatever its bytes. On a readable table
  an answer is the first section with that name, with the fields of its header and its payload
  inside the image, and "not found" means that no section has the name; on any other image the
  lookup reports a different status.
\<close>
theorem FindSection_spec:
  assumes "length img < 2 ^ 64"
  shows "\<exists>r. FindSection img nm = Some r \<and>
    (elf_ok img \<longrightarrow> lookup_ok img nm (header_at img) (string_table img) 0 (unat (half_at img 0x3C)) r) \<and>
    (\<not> elf_ok img \<longrightarrow> Section.status r \<notin> {Ok, NotFound})"
  using assms by (rule FindSection_cases)

text \<open>An image with a null section and a string table that names itself.\<close>

definition sample_elf :: "byte list" where
  "sample_elf = foldl (\<lambda>b s. put b (fst s) (snd s)) (replicate 197 0)
     [(0, [0x7F, 0x45, 0x4C, 0x46, 2, 1]), (0x28, [64]), (0x3A, [64, 0, 2, 0, 1, 0]),
      (128, [1]), (152, [192]), (160, [5]), (193, [0x61, 0x62])]"

theorem FindSection_witness:
  "\<exists>r. FindSection sample_elf [0x61, 0x62] = Some r \<and> Section.status r = Ok \<and>
    lookup_ok sample_elf [0x61, 0x62] (header_at sample_elf) (string_table sample_elf) 0 2 r"
proof -
  have num: "half_at sample_elf 0x3C = 2" by code_simp
  have len: "length sample_elf = 197" by (simp add: sample_elf_def)
  have "half_at sample_elf 0x3A = 64" "half_at sample_elf 0x3E = 1" "long_at sample_elf 0x28 = 64"
    "long_at sample_elf 152 = 192" "long_at sample_elf 160 = 5" "take 6 sample_elf = [0x7F, 0x45, 0x4C, 0x46, 2, 1]"
    by code_simp+
  then have ok: "elf_ok sample_elf"
    using num by (simp add: elf_ok_def len string_table_def header_at_def raw_at_def)
  have "64 \<le> length sample_elf" by (simp add: len)
  then have st: "map_option Section.status (FindSection sample_elf [0x61, 0x62]) = Some Ok"
    unfolding FindSection_head [OF \<open>64 \<le> length sample_elf\<close>] by code_simp
  show ?thesis using FindSection_spec [of sample_elf "[0x61, 0x62]"] len ok num st by auto
qed

end
