(* ===== verification/Vbios.thy ===== *)
theory Vbios
  imports Prelude
begin

text \<open>
  The VBIOS parser (\<open>src/core/vbios.cpp\<close>, \<open>include/rtxmac/vbios.hpp\<close>): walking the chain of
  ROM images, finding the BIT header, following the Falcon token to the microcode table and
  reading the descriptor of the production FWSEC image.

  \<open>None\<close> is a read outside the image (or a loop that does not return); a parse failure is a
  record with its status. An early return inside a loop is \<open>Inl\<close>, leaving the loop \<open>Inr\<close>.
\<close>

section \<open>Data\<close>

definition kRomSig :: u16 where "kRomSig = 0xAA55"
definition kRomSigNv :: u16 where "kRomSigNv = 0x4E56"
definition kRomSigNv2 :: u16 where "kRomSigNv2 = 0xBB77"
definition kPcirSig :: u32 where "kPcirSig = 0x52494350"
definition kPcirSigNv :: u32 where "kPcirSigNv = 0x5344504E"
definition kPcirSigNv2 :: u32 where "kPcirSigNv2 = 0x53494752"
definition kNvPciExtSig :: u32 where "kNvPciExtSig = 0x4544504E"
definition kNvPciExtRev10 :: u16 where "kNvPciExtRev10 = 0x0100"
definition kNvPciExtRev11 :: u16 where "kNvPciExtRev11 = 0x0101"
definition kImageBlockBytes :: u32 where "kImageBlockBytes = 512"
definition kCodeTypeBase :: byte where "kCodeTypeBase = 0x00"
definition kCodeTypeExt :: byte where "kCodeTypeExt = 0xE0"
definition kLastImage :: byte where "kLastImage = 0x80"
definition kBitId :: u16 where "kBitId = 0xB8FF"
definition kBitSignature :: u32 where "kBitSignature = 0x00544942"
definition kFalconToken :: byte where "kFalconToken = 0x70"
definition kFalconDataVersion :: byte where "kFalconDataVersion = 2"
definition kFwsecProdAppId :: byte where "kFwsecProdAppId = 0x85"
definition kUcodeTableVersion1 :: byte where "kUcodeTableVersion1 = 1"
definition kDescriptorV3PackedBytes :: u32 where "kDescriptorV3PackedBytes = 44"

datatype ParseStatus = Ok | TooSmall | InvalidRomSignature | PciDataOutOfRange
  | InvalidPciDataSignature | InvalidImageLength | ImageOutOfRange | BitHeaderNotFound
  | InvalidBitHeader | TokenTableOutOfRange | FalconDataOutOfRange | InvalidUcodeTable
  | UcodeEntryOutOfRange | FwsecProductionNotFound | DescriptorOutOfRange | UnsupportedDescriptor
  | StoredImageOutOfRange

record DescriptorV3 =
  storedSize :: u32
  pkcDataOffset :: u32
  interfaceOffset :: u32
  imemPhysBase :: u32
  imemLoadSize :: u32
  imemVirtBase :: u32
  dmemPhysBase :: u32
  dmemLoadSize :: u32
  engineIdMask :: u16
  ucodeId :: byte
  signatureCount :: byte
  signatureVersions :: u16

record RomLocation =
  status :: ParseStatus
  biosSize :: u32
  expansionRomOffset :: u32

record FwsecInfo =
  status :: ParseStatus
  biosSize :: u32
  expansionRomOffset :: u32
  bitOffset :: u32
  falconTableOffset :: u32
  descriptorOffset :: u32
  descriptorSize :: u32
  descriptorVersion :: byte
  v3 :: DescriptorV3

definition FwsecInfo0 :: FwsecInfo where
  "FwsecInfo0 = \<lparr>FwsecInfo.status = TooSmall, FwsecInfo.biosSize = 0, FwsecInfo.expansionRomOffset = 0,
     bitOffset = 0, falconTableOffset = 0, descriptorOffset = 0, descriptorSize = 0,
     descriptorVersion = 0, v3 = \<lparr>storedSize = 0, pkcDataOffset = 0, interfaceOffset = 0,
       imemPhysBase = 0, imemLoadSize = 0, imemVirtBase = 0, dmemPhysBase = 0, dmemLoadSize = 0,
       engineIdMask = 0, ucodeId = 0, signatureCount = 0, signatureVersions = 0\<rparr>\<rparr>"

section \<open>Operations\<close>

definition Fits :: "nat \<Rightarrow> u64 \<Rightarrow> u64 \<Rightarrow> bool" where
  "Fits total' off n \<longleftrightarrow> unat off \<le> total' \<and> unat n \<le> total' - unat off"

definition U8 :: "byte list \<Rightarrow> nat \<Rightarrow> byte option" where
  "U8 b o' = rd b o'"

definition U16 :: "byte list \<Rightarrow> nat \<Rightarrow> u16 option" where
  "U16 b o' = LoadLe16 b o'"

definition U32 :: "byte list \<Rightarrow> nat \<Rightarrow> u32 option" where
  "U32 b o' = LoadLe32 b o'"

definition ValidRomSig :: "u16 \<Rightarrow> bool" where
  "ValidRomSig v \<longleftrightarrow> v = kRomSig \<or> v = kRomSigNv \<or> v = kRomSigNv2"

definition ValidPcirSig :: "u32 \<Rightarrow> bool" where
  "ValidPcirSig v \<longleftrightarrow> v = kPcirSig \<or> v = kPcirSigNv \<or> v = kPcirSigNv2"

text \<open>The NPDE extension behind the PCI data structure may replace the image length and the
  last-image flag.\<close>

definition pci_extension :: "byte list \<Rightarrow> u64 \<Rightarrow> u64 \<Rightarrow> bool \<Rightarrow> (u64 \<times> bool) option" where
  "pci_extension img extAt subImageBlocks last' =
     (if \<not> Fits (length img) extAt 12 then Some (subImageBlocks, last')
      else do {
        sig \<leftarrow> U32 img (unat extAt);
        if sig \<noteq> kNvPciExtSig then Some (subImageBlocks, last')
        else do {
          rev' \<leftarrow> U16 img (unat (extAt + 4));
          if rev' = kNvPciExtRev10 \<or> rev' = kNvPciExtRev11
          then do {
            extLen \<leftarrow> U16 img (unat (extAt + 6));
            extBlocks \<leftarrow> U16 img (unat (extAt + 8));
            let subImageBlocks = (if extBlocks \<noteq> 0 then ucast extBlocks else subImageBlocks);
            if 10 < extLen
            then do { f \<leftarrow> U8 img (unat (extAt + 10)); Some (subImageBlocks, f AND kLastImage \<noteq> 0) }
            else Some (subImageBlocks, last') }
          else Some (subImageBlocks, last') } })"

text \<open>The image loop of \<open>LocateRoms\<close>, with \<open>k\<close> iterations left (\<open>imageIndex = 64 - k\<close>). The result
  of leaving it is \<open>(extRomOffset, baseRomSize, lastEnd)\<close>.\<close>

fun LocateRoms_loop ::
  "byte list \<Rightarrow> nat \<Rightarrow> u64 \<Rightarrow> u64 \<Rightarrow> u64 \<Rightarrow> u64 \<Rightarrow> (ParseStatus + u64 \<times> u64 \<times> u64) option" where
  "LocateRoms_loop img 0 current extRomOffset baseRomSize lastEnd =
     Some (Inr (extRomOffset, baseRomSize, lastEnd))"
| "LocateRoms_loop img (Suc k) current extRomOffset baseRomSize lastEnd =
     (if \<not> Fits (length img) current 0x1A then Some (Inl PciDataOutOfRange)
      else do {
        romSig \<leftarrow> U16 img (unat current);
        if \<not> ValidRomSig romSig then Some (Inl InvalidRomSignature)
        else do {
          pcirRel \<leftarrow> U16 img (unat (current + 0x18));
          let pcir = current + ucast pcirRel;
          if \<not> Fits (length img) pcir 0x18 then Some (Inl PciDataOutOfRange)
          else do {
            pcirSig \<leftarrow> U32 img (unat pcir);
            if \<not> ValidPcirSig pcirSig then Some (Inl InvalidPciDataSignature)
            else do {
              blocks \<leftarrow> U16 img (unat (pcir + 0x10));
              if blocks = 0 then Some (Inl InvalidImageLength)
              else do {
                flags \<leftarrow> U8 img (unat (pcir + 0x15));
                pcirLen \<leftarrow> U16 img (unat (pcir + 0x0A));
                let extAt = (pcir + ucast pcirLen + 0xF) AND NOT 0xF;
                (subImageBlocks, last') \<leftarrow> pci_extension img extAt (ucast blocks) (flags AND kLastImage \<noteq> 0);
                if - 1 div ucast kImageBlockBytes < subImageBlocks then Some (Inl InvalidImageLength)
                else do {
                  let blockBytes = subImageBlocks * ucast kImageBlockBytes;
                  if \<not> Fits (length img) current blockBytes then Some (Inl ImageOutOfRange)
                  else do {
                    codeType \<leftarrow> U8 img (unat (pcir + 0x14));
                    let isExt = (extRomOffset = 0 \<and> codeType = kCodeTypeExt);
                    let ext' = (if isExt then current else extRomOffset);
                    let base' = (if \<not> isExt \<and> baseRomSize = 0 \<and> codeType = kCodeTypeBase
                      then blockBytes else baseRomSize);
                    let lastEnd = current + blockBytes;
                    if last' then Some (Inr (ext', base', lastEnd))
                    else do {
                      let current = current + blockBytes;
                      if length img \<le> unat current then Some (Inl ImageOutOfRange)
                      else if k = 0 then Some (Inl InvalidImageLength)
                      else LocateRoms_loop img k current ext' base' lastEnd } } } } } } } })"

definition LocateRoms :: "byte list \<Rightarrow> RomLocation option" where
  "LocateRoms img =
     (let out = \<lparr>RomLocation.status = ParseStatus.Ok, RomLocation.biosSize = 0,
        RomLocation.expansionRomOffset = 0\<rparr> in
      if length img < 0x1A then Some (out\<lparr>RomLocation.status := InvalidRomSignature\<rparr>)
      else do {
        sig \<leftarrow> U16 img 0;
        if \<not> ValidRomSig sig then Some (out\<lparr>RomLocation.status := InvalidRomSignature\<rparr>)
        else do {
          r \<leftarrow> LocateRoms_loop img 64 0 0 0 0;
          case r of
            Inl e \<Rightarrow> Some (out\<lparr>RomLocation.status := e\<rparr>)
          | Inr (extRomOffset, baseRomSize, lastEnd) \<Rightarrow>
              if 0xFFFFFFFF < lastEnd then Some (out\<lparr>RomLocation.status := ImageOutOfRange\<rparr>)
              else let out = out\<lparr>RomLocation.biosSize := ucast lastEnd\<rparr>
              in Some (if 0 < extRomOffset \<and> 0 < baseRomSize \<and> baseRomSize \<le> extRomOffset
                then out\<lparr>RomLocation.expansionRomOffset := ucast (extRomOffset - baseRomSize)\<rparr>
                else out) } })"

text \<open>The byte sum of the BIT header from byte \<open>i\<close> on.\<close>

fun bit_header_sum :: "byte list \<Rightarrow> nat \<Rightarrow> nat \<Rightarrow> nat \<Rightarrow> u32 \<Rightarrow> u32 option" where
  "bit_header_sum img off i 0 acc = Some acc"
| "bit_header_sum img off i (Suc k) acc = do {
     b \<leftarrow> U8 img (off + i);
     bit_header_sum img off (Suc i) k (acc + ucast b) }"

partial_function (option) FindBit_loop :: "byte list \<Rightarrow> u32 \<Rightarrow> u32 \<Rightarrow> u32 option" where
  "FindBit_loop img bios off =
     (if \<not> (off + 12 \<le> bios) then Some 0xFFFFFFFF
      else do {
        id' \<leftarrow> U16 img (unat off);
        if id' \<noteq> kBitId then FindBit_loop img bios (off + 1)
        else do {
          sig \<leftarrow> U32 img (unat (off + 2));
          if sig \<noteq> kBitSignature then FindBit_loop img bios (off + 1)
          else do {
            headerSize \<leftarrow> U8 img (unat (off + 8));
            if headerSize < 12 \<or> \<not> Fits (unat bios) (ucast off) (ucast headerSize)
            then FindBit_loop img bios (off + 1)
            else do {
              acc \<leftarrow> bit_header_sum img (unat off) 0 (unat headerSize) 0;
              if acc AND 0xFF = 0 then Some off
              else FindBit_loop img bios (off + 1) } } } })"

definition FindBit :: "byte list \<Rightarrow> u32 \<Rightarrow> u32 option" where
  "FindBit img bios = (if bios < 12 then Some 0xFFFFFFFF else FindBit_loop img bios 0)"

definition ReadDescriptorV3 :: "byte list \<Rightarrow> u32 \<Rightarrow> DescriptorV3 option" where
  "ReadDescriptorV3 img desc = do {
     a \<leftarrow> U32 img (unat (desc + 4)); b \<leftarrow> U32 img (unat (desc + 8)); c \<leftarrow> U32 img (unat (desc + 12));
     e \<leftarrow> U32 img (unat (desc + 16)); f \<leftarrow> U32 img (unat (desc + 20)); g \<leftarrow> U32 img (unat (desc + 24));
     h \<leftarrow> U32 img (unat (desc + 28)); i \<leftarrow> U32 img (unat (desc + 32)); j \<leftarrow> U16 img (unat (desc + 36));
     k \<leftarrow> U8 img (unat (desc + 38)); l \<leftarrow> U8 img (unat (desc + 39)); m \<leftarrow> U16 img (unat (desc + 40));
     Some \<lparr>storedSize = a, pkcDataOffset = b, interfaceOffset = c, imemPhysBase = e, imemLoadSize = f,
       imemVirtBase = g, dmemPhysBase = h, dmemLoadSize = i, engineIdMask = j, ucodeId = k,
       signatureCount = l, signatureVersions = m\<rparr> }"

text \<open>The body of the entry loop for the production entry: every path returns.\<close>

definition fwsec_descriptor :: "byte list \<Rightarrow> u32 \<Rightarrow> FwsecInfo \<Rightarrow> FwsecInfo option" where
  "fwsec_descriptor img ent out =
     (let bios = unat (FwsecInfo.biosSize out) in do {
        descRel \<leftarrow> U32 img (unat (ent + 2));
        let desc64 = (ucast (FwsecInfo.expansionRomOffset out) + ucast descRel :: u64);
        if \<not> Fits bios desc64 4 then Some (out\<lparr>FwsecInfo.status := DescriptorOutOfRange\<rparr>)
        else do {
          let desc = (ucast desc64 :: u32);
          vDesc \<leftarrow> U32 img (unat desc);
          if vDesc AND 1 = 0 then Some (out\<lparr>FwsecInfo.status := UnsupportedDescriptor\<rparr>)
          else do {
            let out = out\<lparr>descriptorVersion := ucast (drop_bit 8 vDesc AND 0xFF),
              descriptorSize := drop_bit 16 vDesc AND 0xFFFF, descriptorOffset := desc\<rparr>;
            if descriptorVersion out \<noteq> 3 \<or> descriptorSize out < kDescriptorV3PackedBytes
            then Some (out\<lparr>FwsecInfo.status := UnsupportedDescriptor\<rparr>)
            else if \<not> Fits bios (ucast desc) (ucast (descriptorSize out))
            then Some (out\<lparr>FwsecInfo.status := DescriptorOutOfRange\<rparr>)
            else do {
              d \<leftarrow> ReadDescriptorV3 img desc;
              let out = out\<lparr>v3 := d\<rparr>;
              let imageStart = (ucast desc + ucast (descriptorSize out) :: u64);
              let roundedStored = ((ucast (storedSize d) + 255) AND NOT 255 :: u64);
              if \<not> Fits bios imageStart roundedStored
              then Some (out\<lparr>FwsecInfo.status := StoredImageOutOfRange\<rparr>)
              else if (ucast (storedSize d) :: u64) < ucast (imemLoadSize d) + ucast (interfaceOffset d)
              then Some (out\<lparr>FwsecInfo.status := StoredImageOutOfRange\<rparr>)
              else Some (out\<lparr>FwsecInfo.status := ParseStatus.Ok\<rparr>) } } } })"

fun fwsec_entries ::
  "byte list \<Rightarrow> u32 \<Rightarrow> byte \<Rightarrow> byte \<Rightarrow> nat \<Rightarrow> u32 \<Rightarrow> FwsecInfo \<Rightarrow> (FwsecInfo + FwsecInfo) option" where
  "fwsec_entries img table tableHeaderSize entrySize 0 e out = Some (Inr out)"
| "fwsec_entries img table tableHeaderSize entrySize (Suc k) e out =
     (let ent = table + ucast tableHeaderSize + e * ucast entrySize in do {
        appId \<leftarrow> U8 img (unat ent);
        if appId \<noteq> kFwsecProdAppId
        then fwsec_entries img table tableHeaderSize entrySize k (e + 1) out
        else map_option Inl (fwsec_descriptor img ent out) })"

text \<open>The body of the token loop for the Falcon token.\<close>

definition fwsec_table :: "byte list \<Rightarrow> u32 \<Rightarrow> FwsecInfo \<Rightarrow> (FwsecInfo + FwsecInfo) option" where
  "fwsec_table img dataPtr out =
     (let bios = unat (FwsecInfo.biosSize out) in
      if \<not> Fits bios (ucast dataPtr) 4
      then Some (Inl (out\<lparr>FwsecInfo.status := FalconDataOutOfRange\<rparr>))
      else do {
        tableRel \<leftarrow> U32 img (unat dataPtr);
        let table64 = (ucast (FwsecInfo.expansionRomOffset out) + ucast tableRel :: u64);
        if \<not> Fits bios table64 6 then Some (Inl (out\<lparr>FwsecInfo.status := InvalidUcodeTable\<rparr>))
        else do {
          let table = (ucast table64 :: u32);
          let out = out\<lparr>falconTableOffset := table\<rparr>;
          version \<leftarrow> U8 img (unat (table + 0));
          tableHeaderSize \<leftarrow> U8 img (unat (table + 1));
          entrySize \<leftarrow> U8 img (unat (table + 2));
          entryCount \<leftarrow> U8 img (unat (table + 3));
          if version \<noteq> kUcodeTableVersion1 \<or> tableHeaderSize < 6 \<or> entrySize < 6
          then Some (Inl (out\<lparr>FwsecInfo.status := InvalidUcodeTable\<rparr>))
          else if \<not> Fits bios (ucast table + ucast tableHeaderSize) (ucast entrySize * ucast entryCount)
          then Some (Inl (out\<lparr>FwsecInfo.status := UcodeEntryOutOfRange\<rparr>))
          else fwsec_entries img table tableHeaderSize entrySize (unat entryCount) 0 out } })"

fun fwsec_tokens ::
  "byte list \<Rightarrow> u32 \<Rightarrow> byte \<Rightarrow> byte \<Rightarrow> nat \<Rightarrow> u32 \<Rightarrow> FwsecInfo \<Rightarrow> FwsecInfo option" where
  "fwsec_tokens img bit' headerSize tokenSize 0 t out =
     Some (out\<lparr>FwsecInfo.status := FwsecProductionNotFound\<rparr>)"
| "fwsec_tokens img bit' headerSize tokenSize (Suc k) t out =
     (let tok = bit' + ucast headerSize + t * ucast tokenSize in do {
        tokenId \<leftarrow> U8 img (unat (tok + 0));
        dataVersion \<leftarrow> U8 img (unat (tok + 1));
        dataSize \<leftarrow> U16 img (unat (tok + 2));
        dataPtr \<leftarrow> (if 8 \<le> tokenSize then U32 img (unat (tok + 4))
          else map_option ucast (U16 img (unat (tok + 4))));
        if tokenId \<noteq> kFalconToken \<or> dataVersion \<noteq> kFalconDataVersion \<or> dataSize < 4
        then fwsec_tokens img bit' headerSize tokenSize k (t + 1) out
        else do {
          r \<leftarrow> fwsec_table img dataPtr out;
          case r of
            Inl out \<Rightarrow> Some out
          | Inr out \<Rightarrow> fwsec_tokens img bit' headerSize tokenSize k (t + 1) out } })"

definition ParseProductionFwsec :: "byte list \<Rightarrow> FwsecInfo option" where
  "ParseProductionFwsec img =
     (if length img < 0x40 then Some FwsecInfo0
      else do {
        rom \<leftarrow> LocateRoms img;
        if RomLocation.status rom \<noteq> ParseStatus.Ok
        then Some (FwsecInfo0\<lparr>FwsecInfo.status := RomLocation.status rom\<rparr>)
        else do {
          let out = FwsecInfo0\<lparr>FwsecInfo.biosSize := RomLocation.biosSize rom,
            FwsecInfo.expansionRomOffset := RomLocation.expansionRomOffset rom\<rparr>;
          bit' \<leftarrow> FindBit img (FwsecInfo.biosSize out);
          if bit' = 0xFFFFFFFF then Some (out\<lparr>FwsecInfo.status := BitHeaderNotFound\<rparr>)
          else do {
            let out = out\<lparr>bitOffset := bit'\<rparr>;
            headerSize \<leftarrow> U8 img (unat (bit' + 8));
            tokenSize \<leftarrow> U8 img (unat (bit' + 9));
            tokenCount \<leftarrow> U8 img (unat (bit' + 10));
            if tokenSize < 6 then Some (out\<lparr>FwsecInfo.status := InvalidBitHeader\<rparr>)
            else if \<not> Fits (unat (FwsecInfo.biosSize out)) (ucast bit' + ucast headerSize)
                (ucast tokenSize * ucast tokenCount)
            then Some (out\<lparr>FwsecInfo.status := TokenTableOutOfRange\<rparr>)
            else fwsec_tokens img bit' headerSize tokenSize (unat tokenCount) 0 out } } })"

fun ParseStatusName :: "ParseStatus \<Rightarrow> string" where
  "ParseStatusName ParseStatus.Ok = ''ok''"
| "ParseStatusName TooSmall = ''too-small''"
| "ParseStatusName InvalidRomSignature = ''invalid-rom-signature''"
| "ParseStatusName PciDataOutOfRange = ''pci-data-out-of-range''"
| "ParseStatusName InvalidPciDataSignature = ''invalid-pcir-signature''"
| "ParseStatusName InvalidImageLength = ''invalid-image-length''"
| "ParseStatusName ImageOutOfRange = ''image-out-of-range''"
| "ParseStatusName BitHeaderNotFound = ''bit-header-not-found''"
| "ParseStatusName InvalidBitHeader = ''invalid-bit-header''"
| "ParseStatusName TokenTableOutOfRange = ''token-table-out-of-range''"
| "ParseStatusName FalconDataOutOfRange = ''falcon-data-out-of-range''"
| "ParseStatusName InvalidUcodeTable = ''invalid-ucode-table''"
| "ParseStatusName UcodeEntryOutOfRange = ''ucode-entry-out-of-range''"
| "ParseStatusName FwsecProductionNotFound = ''fwsec-production-not-found''"
| "ParseStatusName DescriptorOutOfRange = ''descriptor-out-of-range''"
| "ParseStatusName UnsupportedDescriptor = ''unsupported-descriptor''"
| "ParseStatusName StoredImageOutOfRange = ''stored-image-out-of-range''"

section \<open>The ROM chain\<close>

lemma Fits_iff: "Fits n off len \<longleftrightarrow> unat off + unat len \<le> n"
  by (auto simp: Fits_def)

lemma U_at:
  "k < length d \<Longrightarrow> U8 d k = Some (d ! k)"
  "k + 2 \<le> length d \<Longrightarrow> U16 d k = Some (half_at d k)"
  "k + 4 \<le> length d \<Longrightarrow> U32 d k = Some (word_at d k)"
  by (simp_all add: U8_def U16_def U32_def LoadLe_at rd_at)

lemma off64:
  assumes "unat x + n \<le> N" and "N < 2 ^ 64" and "unat c \<le> n"
  shows "unat (x + c :: u64) = unat x + unat c"
  using assms by (intro unat_add_nowrap) simp

lemma off32:
  assumes "unat x + n \<le> N" and "N < 2 ^ 32" and "unat c \<le> n"
  shows "unat (x + c :: u32) = unat x + unat c"
  using assms by (intro unat_add_nowrap) simp

lemma pci_extension_total:
  assumes "length img < 2 ^ 64" and "unat blocks < 2 ^ 16"
  shows "\<exists>b l. pci_extension img at blocks last' = Some (b, l) \<and> unat b < 2 ^ 16"
proof (cases "Fits (length img) at 12")
  case False
  then show ?thesis using assms by (simp add: pci_extension_def)
next
  case True
  then have fit: "unat at + 12 \<le> length img" by (simp add: Fits_iff)
  have offs: "unat (at + 4) = unat at + 4" "unat (at + 6) = unat at + 6" "unat (at + 8) = unat at + 8"
    "unat (at + 10) = unat at + 10"
    using off64 [OF fit assms(1), of 4] off64 [OF fit assms(1), of 6] off64 [OF fit assms(1), of 8]
      off64 [OF fit assms(1), of 10] by simp_all
  have small: "unat (h :: u16) < 2 ^ 16" for h by (rule unat_lt(2))
  show ?thesis
    using True fit assms(2) small [of "half_at img (unat at + 8)"]
    by (simp add: pci_extension_def U_at offs Let_def)
qed

text \<open>The chain ends inside the image, at a multiple of the block size.\<close>

lemma LocateRoms_loop_safe:
  assumes "length img < 2 ^ 64" and "unat lastEnd \<le> length img" and "512 dvd unat lastEnd"
    and "512 dvd unat current"
  shows "\<exists>r. LocateRoms_loop img k current ext base lastEnd = Some r \<and>
    (\<forall>e. r = Inl e \<longrightarrow> e \<noteq> ParseStatus.Ok) \<and>
    (\<forall>ext' base' end'. r = Inr (ext', base', end') \<longrightarrow> unat end' \<le> length img \<and> 512 dvd unat end')"
  using assms(2-)
proof (induction k arbitrary: current ext base lastEnd)
  case 0
  then show ?case by simp
next
  case (Suc k)
  show ?case
  proof (cases "Fits (length img) current 0x1A")
    case False
    then show ?thesis by simp
  next
    case True
    then have cur: "unat current + 26 \<le> length img" by (simp add: Fits_iff)
    have c18: "unat (current + 0x18) = unat current + 24" using off64 [OF cur assms(1), of 24] by simp
    define pcir where "pcir = current + ucast (half_at img (unat current + 24))"
    show ?thesis
    proof (cases "ValidRomSig (half_at img (unat current)) \<and> Fits (length img) pcir 0x18")
      case False
      then show ?thesis using cur c18 True
        by (cases "ValidRomSig (half_at img (unat current))") (auto simp: U_at Let_def pcir_def)
    next
      case pcir_ok: True
      then have pcir: "unat pcir + 24 \<le> length img" by (simp add: Fits_iff)
      have offs: "unat (pcir + 0x10) = unat pcir + 16" "unat (pcir + 0x15) = unat pcir + 21"
        "unat (pcir + 0x0A) = unat pcir + 10" "unat (pcir + 0x14) = unat pcir + 20"
        using off64 [OF pcir assms(1), of 16] off64 [OF pcir assms(1), of 21]
          off64 [OF pcir assms(1), of 10] off64 [OF pcir assms(1), of 20] by simp_all
      define blocks where "blocks = half_at img (unat pcir + 16)"
      show ?thesis
      proof (cases "ValidPcirSig (word_at img (unat pcir)) \<and> blocks \<noteq> 0")
        case False
        then show ?thesis using cur c18 True pcir_ok pcir offs
          by (cases "ValidPcirSig (word_at img (unat pcir))")
            (auto simp: U_at Let_def pcir_def [symmetric] blocks_def [symmetric])
      next
        case sig_ok: True
        define at where "at = (pcir + ucast (half_at img (unat pcir + 10)) + 0xF) AND NOT 0xF"
        have at_eq: "at = (pcir + ucast (half_at img (unat pcir + 10)) + 15) AND - 16" by (simp add: at_def)
        have "unat (ucast blocks :: u64) < 2 ^ 16" using unat_lt(2) [of blocks] by simp
        from pci_extension_total [OF assms(1) this, of at "img ! (unat pcir + 21) AND kLastImage \<noteq> 0"]
        obtain b l where ext: "pci_extension img at (ucast blocks) (img ! (unat pcir + 21) AND kLastImage \<noteq> 0) = Some (b, l)"
          and b: "unat b < 2 ^ 16" by blast
        have bb: "unat (b * 512) = unat b * 512" using b by (subst unat_mult_nowrap) simp_all
        note run = U_at Let_def pcir_def [symmetric] blocks_def [symmetric] at_eq [symmetric] ext
          kImageBlockBytes_def c18 True pcir_ok offs sig_ok
        show ?thesis
        proof (cases "Fits (length img) current (b * 512)")
          case False
          then show ?thesis using cur pcir by (simp add: run split: if_splits)
        next
          case fit: True
          then have "unat current + unat b * 512 \<le> length img" by (simp add: Fits_iff bb)
          moreover from this have e: "unat (current + b * 512) = unat current + unat b * 512"
            using assms(1) bb by (subst unat_add_nowrap) simp_all
          ultimately have next': "unat (current + b * 512) \<le> length img" "512 dvd unat (current + b * 512)"
            using Suc.prems(3) by (simp_all add: e)
          show ?thesis
            using Suc.IH [OF next' next'(2)] next' fit cur pcir by (simp add: run split: if_splits)
        qed
      qed
    qed
  qed
qed

lemma LocateRoms_safe:
  assumes "length img < 2 ^ 64"
  shows "\<exists>r. LocateRoms img = Some r \<and> (RomLocation.status r = ParseStatus.Ok \<longrightarrow>
    unat (RomLocation.biosSize r) \<le> length img \<and> 512 dvd unat (RomLocation.biosSize r))"
proof -
  obtain r where r: "LocateRoms_loop img 64 0 0 0 0 = Some r" "\<forall>e. r = Inl e \<longrightarrow> e \<noteq> ParseStatus.Ok"
    "\<forall>ext' base' end'. r = Inr (ext', base', end') \<longrightarrow> unat end' \<le> length img \<and> 512 dvd unat end'"
    using LocateRoms_loop_safe [OF assms, of 0 0 64 0 0] by auto
  have narrow: "unat (ucast e :: u32) = unat e" if "\<not> 0xFFFFFFFF < (e :: u64)" for e
    using that by (intro unat_ucast_narrow) (simp add: word_less_nat_alt not_less)
  show ?thesis
    using r by (cases r) (auto simp: LocateRoms_def U_at Let_def narrow split: if_splits)
qed

section \<open>The BIT header\<close>

lemma bit_header_sum_eq:
  "off + i + k \<le> length img \<Longrightarrow>
    bit_header_sum img off i k acc = Some (acc + (\<Sum>b\<leftarrow>slice img (off + i) k. ucast b))"
proof (induction k arbitrary: i acc)
  case 0
  then show ?case by (simp add: slice_def)
next
  case (Suc k)
  have "slice img (off + i) (Suc k) = img ! (off + i) # slice img (off + Suc i) k"
    using Suc.prems by (simp add: slice_def Cons_nth_drop_Suc [symmetric])
  then show ?case using Suc by (simp add: U_at add.assoc)
qed

text \<open>A BIT header: identifier, signature, a plausible size inside the BIOS, and a byte sum of zero.\<close>

definition bit_header :: "byte list \<Rightarrow> u32 \<Rightarrow> u32 \<Rightarrow> bool" where
  "bit_header img bios off \<longleftrightarrow> (let k = unat off; n = unat (img ! (k + 8)) in
     k + 12 \<le> unat bios \<and> half_at img k = kBitId \<and> word_at img (k + 2) = kBitSignature \<and>
     12 \<le> n \<and> k + n \<le> unat bios \<and> (\<Sum>b\<leftarrow>slice img k n. ucast b :: u32) AND 0xFF = 0)"

lemma FindBit_loop_safe:
  assumes "unat bios \<le> length img" and "unat bios + 512 \<le> 2 ^ 32" and "unat off \<le> unat bios"
  shows "\<exists>r. FindBit_loop img bios off = Some r \<and> (r \<noteq> 0xFFFFFFFF \<longrightarrow> bit_header img bios r)"
  using assms(3)
proof (induction "unat bios - unat off" arbitrary: off rule: less_induct)
  case less
  have o12: "unat (off + 12) = unat off + 12" and o1: "unat (off + 1) = unat off + 1"
    using less.prems assms(2) by (subst unat_add_nowrap; simp)+
  show ?case
  proof (cases "off + 12 \<le> bios")
    case False
    then show ?thesis by (subst FindBit_loop.simps) simp
  next
    case True
    then have k: "unat off + 12 \<le> unat bios" by (simp add: word_le_nat_alt o12)
    have offs: "unat (off + 2) = unat off + 2" "unat (off + 8) = unat off + 8"
      using k assms(2) by (subst unat_add_nowrap; simp)+
    obtain r where r: "FindBit_loop img bios (off + 1) = Some r" "r \<noteq> 0xFFFFFFFF \<longrightarrow> bit_header img bios r"
    proof -
      have "unat bios - unat (off + 1) < unat bios - unat off" "unat (off + 1) \<le> unat bios"
        using o1 k by linarith+
      from less.hyps [OF this] show ?thesis using that by blast
    qed
    define n where "n = img ! (unat off + 8)"
    have sum: "bit_header_sum img (unat off) 0 (unat n) 0 = Some (\<Sum>b\<leftarrow>slice img (unat off) (unat n). ucast b)"
      if "unat off + unat n \<le> unat bios" using that assms(1) bit_header_sum_eq [of "unat off" 0 "unat n" img 0] by simp
    have fits: "Fits (unat bios) (ucast off) (ucast n) \<longleftrightarrow> unat off + unat n \<le> unat bios"
      by (simp add: Fits_iff)
    have "FindBit_loop img bios off = Some r \<or> FindBit_loop img bios off = Some off \<and> bit_header img bios off"
    proof (cases "half_at img (unat off) = kBitId \<and> word_at img (unat off + 2) = kBitSignature \<and>
        12 \<le> unat n \<and> unat off + unat n \<le> unat bios")
      case False
      have "FindBit_loop img bios off = Some r"
        using False k assms(1) r(1) fits
        by (subst FindBit_loop.simps) (auto simp: U_at True offs n_def [symmetric] word_less_nat_alt not_le)
      then show ?thesis ..
    next
      case found: True
      show ?thesis
        using found k assms(1) r(1) fits sum
        by (subst (1 2) FindBit_loop.simps)
          (simp add: U_at True offs n_def [symmetric] word_less_nat_alt not_less bit_header_def Let_def)
    qed
    then show ?thesis using r by blast
  qed
qed

section \<open>The descriptor\<close>

definition v3_at :: "byte list \<Rightarrow> nat \<Rightarrow> DescriptorV3" where
  "v3_at d k = \<lparr>storedSize = word_at d (k + 4), pkcDataOffset = word_at d (k + 8),
     interfaceOffset = word_at d (k + 12), imemPhysBase = word_at d (k + 16),
     imemLoadSize = word_at d (k + 20), imemVirtBase = word_at d (k + 24),
     dmemPhysBase = word_at d (k + 28), dmemLoadSize = word_at d (k + 32),
     engineIdMask = half_at d (k + 36), ucodeId = d ! (k + 38), signatureCount = d ! (k + 39),
     signatureVersions = half_at d (k + 40)\<rparr>"

lemma ReadDescriptorV3_at:
  assumes "unat desc + 44 \<le> n" and "n \<le> length d" and "n < 2 ^ 32"
  shows "ReadDescriptorV3 d desc = Some (v3_at d (unat desc))"
proof -
  have "unat (desc + c) = unat desc + unat c" if "unat c \<le> 40" for c :: u32
    using that assms by (intro off32 [of desc 44 n]) simp_all
  then show ?thesis using assms(1,2) by (simp add: ReadDescriptorV3_def U_at v3_at_def)
qed

text \<open>What a successful parse promises: a version-3 descriptor of at least 44 bytes, its fields as they
  lie in the image, and the stored image (rounded to 256 bytes) inside the BIOS.\<close>

definition fwsec_ok :: "byte list \<Rightarrow> FwsecInfo \<Rightarrow> bool" where
  "fwsec_ok d i \<longleftrightarrow> (let k = unat (descriptorOffset i); n = unat (FwsecInfo.biosSize i); v = v3 i in
     n \<le> length d \<and> word_at d k AND 1 \<noteq> 0 \<and> descriptorVersion i = 3 \<and>
     descriptorSize i = drop_bit 16 (word_at d k) AND 0xFFFF \<and> 44 \<le> unat (descriptorSize i) \<and>
     v = v3_at d k \<and>
     k + unat (descriptorSize i) + (unat (storedSize v) + 255) div 256 * 256 \<le> n \<and>
     unat (imemLoadSize v) + unat (interfaceOffset v) \<le> unat (storedSize v))"

lemma rounded_stored: "unat ((ucast s + 255) AND - 256 :: u64) = (unat (s :: u32) + 255) div 256 * 256"
proof -
  have "unat (ucast s + 255 :: u64) = unat s + 255"
    using unat_lt(3) [of s] by (subst unat_add_nowrap) simp_all
  moreover have "(255 :: u64) = mask 8" by (rule mask_numerals)
  moreover have "NOT (255 :: u64) = - 256" by simp
  ultimately have "unat ((ucast s + 255) AND - 256 :: u64) = (unat s + 255) - (unat s + 255) mod 2 ^ 8"
    using unat_and_not_mask [of "ucast s + 255 :: u64" 8] by simp
  then show ?thesis by (simp add: minus_mod_eq_div_mult)
qed

lemma wide_sum:
  "unat (ucast (a :: u32) + ucast (b :: u32) :: u64) = unat a + unat b"
  "unat (ucast (a :: u32) + ucast (c :: byte) :: u64) = unat a + unat c"
  "unat (ucast (c :: byte) * ucast (e :: byte) :: u64) = unat c * unat e"
proof -
  have "unat c * unat e < 256 * 256"
    using unat_lt(1) [of c] unat_lt(1) [of e] by (intro mult_strict_mono) simp_all
  then show "unat (ucast c * ucast e :: u64) = unat c * unat e" by (subst unat_mult_nowrap) simp_all
qed (use unat_lt(3) [of a] unat_lt(3) [of b] unat_lt(1) [of c] in \<open>subst unat_add_nowrap; simp\<close>)+

lemma fwsec_descriptor_safe:
  assumes "unat (FwsecInfo.biosSize out) \<le> length d" and "unat ent + 6 \<le> unat (FwsecInfo.biosSize out)"
  shows "\<exists>r. fwsec_descriptor d ent out = Some r \<and> FwsecInfo.biosSize r = FwsecInfo.biosSize out \<and>
    bitOffset r = bitOffset out \<and> (FwsecInfo.status r = ParseStatus.Ok \<longrightarrow> fwsec_ok d r)"
proof -
  let ?n = "unat (FwsecInfo.biosSize out)"
  have n32: "?n < 2 ^ 32" by (rule unat_lt(3))
  have e2: "unat (ent + 2) = unat ent + 2" using off32 [OF assms(2) n32, of 2] by simp
  define rel where "rel = word_at d (unat ent + 2)"
  have rd_rel: "U32 d (unat (ent + 2)) = Some rel" using assms by (simp add: U_at rel_def e2)
  define w where "w = (ucast (FwsecInfo.expansionRomOffset out) + ucast rel :: u64)"
  show ?thesis
  proof (cases "Fits ?n w 4")
    case False
    then show ?thesis by (simp add: fwsec_descriptor_def Let_def rd_rel w_def [symmetric])
  next
    case True
    then have w: "unat w + 4 \<le> ?n" by (simp add: Fits_iff)
    define desc where "desc = (ucast w :: u32)"
    have desc: "unat desc = unat w" using w n32 unat_ucast_narrow [where 'b = 32, of w] by (simp add: desc_def)
    define v where "v = word_at d (unat desc)"
    have rd_v: "U32 d (unat desc) = Some v" using w desc assms by (simp add: U_at v_def)
    define size' where "size' = drop_bit 16 v AND 0xFFFF"
    note run = fwsec_descriptor_def Let_def rd_rel w_def [symmetric] True desc_def [symmetric] rd_v
      size'_def [symmetric] kDescriptorV3PackedBytes_def
    show ?thesis
    proof (cases "v AND 1 \<noteq> 0 \<and> (ucast (drop_bit 8 v AND 0xFF) :: byte) = 3 \<and> \<not> size' < 44 \<and> unat desc + unat size' \<le> ?n")
      case False
      show ?thesis
      proof (cases "v AND 1 = 0")
        case True
        then show ?thesis by (simp add: run)
      next
        case odd: False
        show ?thesis
        proof (cases "(ucast (drop_bit 8 v AND 0xFF) :: byte) \<noteq> 3 \<or> size' < 44")
          case True
          then show ?thesis using odd by (simp add: run)
        next
          case ok: False
          then have "\<not> unat desc + unat size' \<le> ?n" using False odd by blast
          then show ?thesis using odd ok by (simp add: run Fits_iff)
        qed
      qed
    next
      case good: True
      then have s44: "44 \<le> unat size'" by (simp add: word_less_nat_alt not_less)
      then have "unat desc + 44 \<le> ?n" using good by linarith
      from ReadDescriptorV3_at [OF this assms(1) n32] have rdesc: "ReadDescriptorV3 d desc = Some (v3_at d (unat desc))" .
      show ?thesis
        using good assms(1) s44
        by (simp add: run rdesc Fits_iff wide_sum rounded_stored word_less_nat_alt not_less fwsec_ok_def v_def)
    qed
  qed
qed

section \<open>The tables\<close>

text \<open>Element \<open>e\<close> of a table of byte-sized elements, addressed in 32 bits.\<close>

lemma table_element:
  assumes "unat base + unat hdr + unat size' * (unat e + Suc k) \<le> n" and "n < 2 ^ 32"
  shows "unat (base + ucast (hdr :: byte) + e * ucast (size' :: byte) :: u32) =
      unat base + unat hdr + unat e * unat size' \<and>
    unat base + unat hdr + unat e * unat size' + unat size' \<le> n"
proof -
  have split: "unat size' * (unat e + Suc k) = unat e * unat size' + unat size' + unat size' * k"
    by (simp add: algebra_simps)
  then have le: "unat base + unat hdr + unat e * unat size' + unat size' \<le> n" using assms(1) by linarith
  have "unat (e * ucast size' :: u32) = unat e * unat size'"
    using le assms(2) by (subst unat_mult_nowrap) simp_all
  moreover have "unat (base + ucast hdr :: u32) = unat base + unat hdr"
    using le assms(2) by (subst unat_add_nowrap) simp_all
  ultimately have "unat (base + ucast hdr + e * ucast size' :: u32) = unat base + unat hdr + unat e * unat size'"
    using le assms(2) by (subst unat_add_nowrap) simp_all
  with le show ?thesis by blast
qed

text \<open>The state a loop body may return: same BIOS and BIT header, and \<open>Ok\<close> only with a sound
  descriptor.\<close>

definition keeps :: "byte list \<Rightarrow> FwsecInfo \<Rightarrow> FwsecInfo \<Rightarrow> bool" where
  "keeps d out r \<longleftrightarrow> FwsecInfo.biosSize r = FwsecInfo.biosSize out \<and> bitOffset r = bitOffset out \<and>
     (FwsecInfo.status r = ParseStatus.Ok \<longrightarrow> fwsec_ok d r)"

lemma fwsec_entries_safe:
  assumes "unat (FwsecInfo.biosSize out) \<le> length d" and "6 \<le> unat entrySize"
    and "unat table + unat hdr + unat entrySize * (unat e + k) \<le> unat (FwsecInfo.biosSize out)"
    and "unat e + k < 2 ^ 8"
  shows "\<exists>r. fwsec_entries d table hdr entrySize k e out = Some r \<and>
    (\<forall>o'. r = Inl o' \<longrightarrow> keeps d out o') \<and> (\<forall>o'. r = Inr o' \<longrightarrow> o' = out)"
  using assms(3,4)
proof (induction k arbitrary: e)
  case 0
  then show ?case by simp
next
  case (Suc k)
  let ?n = "unat (FwsecInfo.biosSize out)"
  define ent where "ent = (table + ucast hdr + e * ucast entrySize :: u32)"
  have ent: "unat ent + unat entrySize \<le> ?n"
    using table_element [OF Suc.prems(1) unat_lt(3)] unfolding ent_def by simp
  then have "unat ent + 6 \<le> ?n" "unat ent < length d" using assms(1,2) by linarith+
  then obtain r where r: "fwsec_descriptor d ent out = Some r" "keeps d out r"
    using fwsec_descriptor_safe [OF assms(1), of ent] by (auto simp: keeps_def)
  have e1: "unat (e + 1) = unat e + 1" using Suc.prems(2) by (subst unat_add_nowrap) simp_all
  have "unat table + unat hdr + unat entrySize * (unat (e + 1) + k) \<le> ?n" "unat (e + 1) + k < 2 ^ 8"
    using Suc.prems by (simp_all add: e1)
  from Suc.IH [OF this] show ?case
    using r \<open>unat ent < length d\<close> by (auto simp: U_at Let_def ent_def [symmetric])
qed

lemma fwsec_table_safe:
  assumes "unat (FwsecInfo.biosSize out) \<le> length d"
  shows "\<exists>r. fwsec_table d dataPtr out = Some r \<and> (\<forall>o'. r = Inl o' \<longrightarrow> keeps d out o') \<and>
    (\<forall>o'. r = Inr o' \<longrightarrow> FwsecInfo.biosSize o' = FwsecInfo.biosSize out \<and> bitOffset o' = bitOffset out)"
proof -
  let ?n = "unat (FwsecInfo.biosSize out)"
  have n32: "?n < 2 ^ 32" by (rule unat_lt(3))
  show ?thesis
  proof (cases "Fits ?n (ucast dataPtr) 4")
    case False
    then show ?thesis by (simp add: fwsec_table_def keeps_def)
  next
    case ptr: True
    define rel where "rel = word_at d (unat dataPtr)"
    have rd_rel: "U32 d (unat dataPtr) = Some rel" using ptr assms by (simp add: U_at rel_def Fits_iff)
    define w where "w = (ucast (FwsecInfo.expansionRomOffset out) + ucast rel :: u64)"
    show ?thesis
    proof (cases "Fits ?n w 6")
      case False
      then show ?thesis using ptr by (simp add: fwsec_table_def Let_def rd_rel w_def [symmetric] keeps_def)
    next
      case True
      then have w: "unat w + 6 \<le> ?n" by (simp add: Fits_iff)
      define table where "table = (ucast w :: u32)"
      have tw: "unat table = unat w" using w n32 unat_ucast_narrow [where 'b = 32, of w] by (simp add: table_def)
      then have t: "unat table + 6 \<le> ?n" using w by simp
      have offs: "unat (table + 1) = unat table + 1" "unat (table + 2) = unat table + 2"
        "unat (table + 3) = unat table + 3"
        using off32 [OF t n32, of 1] off32 [OF t n32, of 2] off32 [OF t n32, of 3] by simp_all
      define hdr entrySize count where "hdr = d ! (unat table + 1)" and "entrySize = d ! (unat table + 2)"
        and "count = d ! (unat table + 3)"
      have rd: "U8 d (unat table) = Some (d ! unat table)" "U8 d (unat (table + 1)) = Some hdr"
        "U8 d (unat (table + 2)) = Some entrySize" "U8 d (unat (table + 3)) = Some count"
        using t assms by (simp_all only: offs U_at hdr_def entrySize_def count_def)
      let ?out = "out\<lparr>falconTableOffset := table\<rparr>"
      note run = fwsec_table_def Let_def rd_rel w_def [symmetric] table_def [symmetric] ptr True rd add_0_right
      show ?thesis
      proof (cases "d ! unat table \<noteq> kUcodeTableVersion1 \<or> hdr < 6 \<or> entrySize < 6")
        case True
        then show ?thesis by (simp add: run keeps_def)
      next
        case plausible: False
        show ?thesis
        proof (cases "Fits ?n (ucast table + ucast hdr) (ucast entrySize * ucast count)")
          case False
          then show ?thesis using plausible by (simp add: run keeps_def)
        next
          case fits: True
          have "unat table + unat hdr + unat entrySize * (unat (0 :: u32) + unat count) \<le> ?n"
            using fits by (simp add: Fits_iff wide_sum)
          moreover have "6 \<le> unat entrySize" using plausible by (simp add: word_less_nat_alt not_less)
          moreover have "unat (0 :: u32) + unat count < 2 ^ 8" using unat_lt(1) [of count] by simp
          ultimately obtain r where r: "fwsec_entries d table hdr entrySize (unat count) 0 ?out = Some r"
            "\<forall>o'. r = Inl o' \<longrightarrow> keeps d ?out o'" "\<forall>o'. r = Inr o' \<longrightarrow> o' = ?out"
            using fwsec_entries_safe [of ?out d entrySize table hdr 0 "unat count"] assms by auto
          have "fwsec_table d dataPtr out = Some r" using plausible fits r(1) by (simp add: run)
          then show ?thesis using r(2,3) by (auto simp: keeps_def)
        qed
      qed
    qed
  qed
qed

lemma fwsec_tokens_safe:
  assumes "unat (FwsecInfo.biosSize out) \<le> length d" and "6 \<le> unat tokenSize"
    and "unat b + unat hdr + unat tokenSize * (unat t + k) \<le> unat (FwsecInfo.biosSize out)"
    and "unat t + k < 2 ^ 8"
  shows "\<exists>r. fwsec_tokens d b hdr tokenSize k t out = Some r \<and> keeps d out r"
  using assms(1,3,4)
proof (induction k arbitrary: t out)
  case 0
  then show ?case by (simp add: keeps_def)
next
  case (Suc k)
  let ?n = "unat (FwsecInfo.biosSize out)"
  have n32: "?n < 2 ^ 32" by (rule unat_lt(3))
  define tok where "tok = (b + ucast hdr + t * ucast tokenSize :: u32)"
  have tok: "unat tok + unat tokenSize \<le> ?n"
    using table_element [OF Suc.prems(2) n32] unfolding tok_def by simp
  then have tok6: "unat tok + 6 \<le> ?n" using assms(2) by linarith
  have offs: "unat (tok + 1) = unat tok + 1" "unat (tok + 2) = unat tok + 2" "unat (tok + 4) = unat tok + 4"
    using off32 [OF tok6 n32, of 1] off32 [OF tok6 n32, of 2] off32 [OF tok6 n32, of 4] by simp_all
  have ids: "U8 d (unat tok) = Some (d ! unat tok)" "U8 d (unat (tok + 1)) = Some (d ! (unat tok + 1))"
    "U16 d (unat (tok + 2)) = Some (half_at d (unat tok + 2))"
    using tok6 Suc.prems(1) by (simp_all only: offs U_at)
  have ptr: "\<exists>p. (if 8 \<le> tokenSize then U32 d (unat (tok + 4)) else map_option ucast (U16 d (unat (tok + 4)))) = Some (p :: u32)"
  proof (cases "8 \<le> tokenSize")
    case True
    then have "8 \<le> unat tokenSize" by (simp add: word_le_nat_alt)
    then have "unat tok + 4 + 4 \<le> length d" using tok Suc.prems(1) by linarith
    then have "U32 d (unat (tok + 4)) = Some (word_at d (unat tok + 4))" by (simp only: offs U_at)
    then show ?thesis using True by simp
  next
    case False
    have "unat tok + 4 + 2 \<le> length d" using tok6 Suc.prems(1) by linarith
    then have "U16 d (unat (tok + 4)) = Some (half_at d (unat tok + 4))" by (simp only: offs U_at)
    then show ?thesis using False by simp
  qed
  then obtain p where p: "(if 8 \<le> tokenSize then U32 d (unat (tok + 4))
      else map_option ucast (U16 d (unat (tok + 4)))) = Some (p :: u32)" by blast
  obtain r where r: "fwsec_table d p out = Some r" "\<forall>o'. r = Inl o' \<longrightarrow> keeps d out o'"
    "\<forall>o'. r = Inr o' \<longrightarrow> FwsecInfo.biosSize o' = FwsecInfo.biosSize out \<and> bitOffset o' = bitOffset out"
    using fwsec_table_safe [OF Suc.prems(1)] by blast
  have t1: "unat (t + 1) = unat t + 1" using Suc.prems(3) by (subst unat_add_nowrap) simp_all
  have next': "\<exists>r. fwsec_tokens d b hdr tokenSize k (t + 1) o' = Some r \<and> keeps d out r"
    if "FwsecInfo.biosSize o' = FwsecInfo.biosSize out" "bitOffset o' = bitOffset out" for o'
  proof -
    have "unat b + unat hdr + unat tokenSize * (unat (t + 1) + k) \<le> unat (FwsecInfo.biosSize o')"
      "unat (t + 1) + k < 2 ^ 8" "unat (FwsecInfo.biosSize o') \<le> length d"
      using Suc.prems that by (simp_all add: t1)
    from Suc.IH [OF this(3,1,2)] show ?thesis using that by (auto simp: keeps_def)
  qed
  show ?case
    using next' [of out] next' r
    by (cases r) (auto simp: Let_def tok_def [symmetric] ids p simp del: if_split_asm)
qed

section \<open>The parser\<close>

lemma ParseProductionFwsec_cases:
  assumes "length img < 2 ^ 64"
  shows "\<exists>i. ParseProductionFwsec img = Some i \<and> (FwsecInfo.status i = ParseStatus.Ok \<longrightarrow>
    fwsec_ok img i \<and> bit_header img (FwsecInfo.biosSize i) (bitOffset i))"
proof (cases "length img < 0x40")
  case True
  then show ?thesis by (simp add: ParseProductionFwsec_def FwsecInfo0_def)
next
  case False
  obtain rom where rom: "LocateRoms img = Some rom"
    and rom_ok: "RomLocation.status rom = ParseStatus.Ok \<longrightarrow>
      unat (RomLocation.biosSize rom) \<le> length img \<and> 512 dvd unat (RomLocation.biosSize rom)"
    using LocateRoms_safe [OF assms] by blast
  show ?thesis
  proof (cases "RomLocation.status rom = ParseStatus.Ok")
    case bad: False
    then show ?thesis using False rom by (simp add: ParseProductionFwsec_def)
  next
    case ok: True
    let ?bios = "RomLocation.biosSize rom"
    have n: "unat ?bios \<le> length img" and dvd: "512 dvd unat ?bios" using rom_ok ok by auto
    have n32: "unat ?bios < 2 ^ 32" by (rule unat_lt(3))
    obtain q where q: "unat ?bios = 512 * q" using dvd by (elim dvdE)
    have "q < 2 ^ 23" using n32 q by simp
    then have room: "unat ?bios + 512 \<le> 2 ^ 32" using q by simp
    have "\<exists>b. FindBit img ?bios = Some b \<and> (b \<noteq> 0xFFFFFFFF \<longrightarrow> bit_header img ?bios b)"
      using FindBit_loop_safe [OF n room, of 0] by (simp add: FindBit_def)
    then obtain b where b: "FindBit img ?bios = Some b" "b \<noteq> 0xFFFFFFFF \<longrightarrow> bit_header img ?bios b" by blast
    let ?out = "FwsecInfo0\<lparr>FwsecInfo.biosSize := ?bios,
        FwsecInfo.expansionRomOffset := RomLocation.expansionRomOffset rom\<rparr>"
    show ?thesis
    proof (cases "b = 0xFFFFFFFF")
      case True
      then show ?thesis using False rom ok b by (simp add: ParseProductionFwsec_def)
    next
      case found: False
      then have hdr: "bit_header img ?bios b" using b by blast
      then have b12: "unat b + 12 \<le> unat ?bios" by (simp add: bit_header_def Let_def)
      have offs: "unat (b + 8) = unat b + 8" "unat (b + 9) = unat b + 9" "unat (b + 10) = unat b + 10"
        using off32 [OF b12 n32, of 8] off32 [OF b12 n32, of 9] off32 [OF b12 n32, of 10] by simp_all
      define h ts tc where "h = img ! (unat b + 8)" and "ts = img ! (unat b + 9)" and "tc = img ! (unat b + 10)"
      have rd: "U8 img (unat (b + 8)) = Some h" "U8 img (unat (b + 9)) = Some ts" "U8 img (unat (b + 10)) = Some tc"
        using b12 n by (simp_all only: offs U_at h_def ts_def tc_def)
      let ?out1 = "?out\<lparr>bitOffset := b\<rparr>"
      have run: "ParseProductionFwsec img = (if ts < 6 then Some (?out1\<lparr>FwsecInfo.status := InvalidBitHeader\<rparr>)
          else if \<not> Fits (unat ?bios) (ucast b + ucast h) (ucast ts * ucast tc)
          then Some (?out1\<lparr>FwsecInfo.status := TokenTableOutOfRange\<rparr>)
          else fwsec_tokens img b h ts (unat tc) 0 ?out1)"
        using False rom ok b(1) found by (simp add: ParseProductionFwsec_def rd)
      show ?thesis
      proof (cases "ts < 6 \<or> \<not> Fits (unat ?bios) (ucast b + ucast h) (ucast ts * ucast tc)")
        case True
        then show ?thesis unfolding run by auto
      next
        case good: False
        then have "6 \<le> unat ts" "unat b + unat h + unat ts * unat tc \<le> unat ?bios"
          by (simp_all add: word_less_nat_alt not_less Fits_iff wide_sum)
        moreover have "unat tc < 2 ^ 8" by (rule unat_lt(1))
        ultimately obtain r where "fwsec_tokens img b h ts (unat tc) 0 ?out1 = Some r" "keeps img ?out1 r"
          using fwsec_tokens_safe [of ?out1 img ts b h 0 "unat tc"] n by auto
        then show ?thesis unfolding run using good hdr by (auto simp: keeps_def)
      qed
    qed
  qed
qed

text \<open>
  C35. Parsing a VBIOS terminates and never reads outside the image, whatever its bytes. When it
  reports success, the BIT header has its signature and a zero byte sum, the descriptor is a
  version-3 descriptor read from the image, its load sizes are consistent, and the stored image
  lies inside the BIOS.
\<close>
theorem ParseProductionFwsec_spec:
  assumes "length img < 2 ^ 64"
  shows "\<exists>i. ParseProductionFwsec img = Some i \<and> (FwsecInfo.status i = ParseStatus.Ok \<longrightarrow>
    fwsec_ok img i \<and> bit_header img (FwsecInfo.biosSize i) (bitOffset i))"
  using assms by (rule ParseProductionFwsec_cases)

text \<open>A one-block ROM with a BIT header at 0x40, the Falcon token, a one-entry microcode table at
  0x70 and a 44-byte descriptor at 0x80.\<close>

definition sample_vbios :: "byte list" where
  "sample_vbios = foldl (\<lambda>b s. put b (fst s) (snd s)) (replicate 512 0)
     [(0, [0x55, 0xAA]), (0x18, [0x20]), (0x20, [0x50, 0x43, 0x49, 0x52]), (0x2A, [0x18]), (0x30, [1]),
      (0x35, [0x80]), (0x40, [0xFF, 0xB8, 0x42, 0x49, 0x54, 0, 0, 0, 12, 6, 1, 0x57]),
      (0x4C, [0x70, 2, 4, 0, 0x60, 0]), (0x60, [0x70]), (0x70, [1, 6, 6, 1]),
      (0x76, [0x85, 0, 0x80]), (0x80, [1, 3, 44, 0, 0x80]), (0x94, [0x40])]"

declare FindBit_loop.simps [code]

lemma sample_vbios_status:
  "map_option FwsecInfo.status (ParseProductionFwsec sample_vbios) = Some ParseStatus.Ok"
  by code_simp

theorem ParseProductionFwsec_witness:
  "\<exists>i. ParseProductionFwsec sample_vbios = Some i \<and> fwsec_ok sample_vbios i \<and>
    bit_header sample_vbios (FwsecInfo.biosSize i) (bitOffset i)"
proof -
  have "length sample_vbios < 2 ^ 64" by (simp add: sample_vbios_def)
  from ParseProductionFwsec_spec [OF this] obtain i where
    i: "ParseProductionFwsec sample_vbios = Some i"
      "FwsecInfo.status i = ParseStatus.Ok \<longrightarrow> fwsec_ok sample_vbios i \<and>
        bit_header sample_vbios (FwsecInfo.biosSize i) (bitOffset i)" by blast
  moreover from i(1) sample_vbios_status have "FwsecInfo.status i = ParseStatus.Ok" by simp
  ultimately show ?thesis by blast
qed

end
