(* ===== verification/Frts.thy ===== *)
theory Frts
  imports Layout Vbios
begin

text \<open>
  The FRTS command of the FWSEC microcode (\<open>src/core/frts.cpp\<close>, \<open>include/rtxmac/frts.hpp\<close>):
  encoding the command, planning where it and the signature go in a stored image, and applying
  the plan to a copy of the image. The offsets of a plan are \<open>size_t\<close> values; the sums the code
  computes on them unguarded wrap, which \<open>size_add\<close> writes out.
\<close>

section \<open>Data\<close>

definition kReadVbiosDescBytes :: nat where "kReadVbiosDescBytes = 24"
definition kFrtsRegionDescBytes :: nat where "kFrtsRegionDescBytes = 20"
definition kFrtsCommandBytes :: nat where "kFrtsCommandBytes = 44"
definition kFrtsCommandId :: u32 where "kFrtsCommandId = 0x15"
definition kFrtsReadVbiosFlags :: u32 where "kFrtsReadVbiosFlags = 2"
definition kFrtsRegionMediaFramebuffer :: u32 where "kFrtsRegionMediaFramebuffer = 2"
definition kFrtsRegionPages4K :: u32 where "kFrtsRegionPages4K = 0x100"
definition kFrtsReserveFromVramEnd :: u64 where "kFrtsReserveFromVramEnd = 0x200000"
definition kRsa3072SignatureBytes :: nat where "kRsa3072SignatureBytes = 0x180"
definition kDmemMapperEntryId :: u32 where "kDmemMapperEntryId = 4"

lemmas frts_consts = kReadVbiosDescBytes_def kFrtsRegionDescBytes_def kFrtsCommandBytes_def
  kFrtsCommandId_def kFrtsReadVbiosFlags_def kFrtsRegionMediaFramebuffer_def kFrtsRegionPages4K_def
  kFrtsReserveFromVramEnd_def kRsa3072SignatureBytes_def kDmemMapperEntryId_def

record FrtsCommand =
  bytes :: "byte list"
  regionOffsetBytes :: u64
  regionOffset4K :: u32

datatype PatchStatus = Ok | InvalidStoredImage | InterfaceHeaderOutOfRange | InvalidInterfaceHeader
  | InterfaceEntriesOutOfRange | DmemMapperNotFound | DmemMapperOutOfRange | CommandBufferOutOfRange
  | SignatureDestinationOutOfRange | SignatureSourceTooSmall

record PatchPlan =
  status :: PatchStatus
  logicalImageBytes :: nat
  interfaceHeaderOffset :: nat
  dmemMapperOffset :: nat
  initCommandFieldOffset :: nat
  commandBufferOffset :: nat
  commandBufferCapacity :: nat
  signatureDestinationOffset :: nat
  signatureBytes :: nat

definition PatchPlan0 :: PatchPlan where
  "PatchPlan0 = \<lparr>PatchPlan.status = InvalidStoredImage, logicalImageBytes = 0,
     interfaceHeaderOffset = 0, dmemMapperOffset = 0, initCommandFieldOffset = 0,
     commandBufferOffset = 0, commandBufferCapacity = 0, signatureDestinationOffset = 0,
     signatureBytes = kRsa3072SignatureBytes\<rparr>"

section \<open>Operations\<close>

definition size_add :: "nat \<Rightarrow> nat \<Rightarrow> nat" where
  "size_add a b = (a + b) mod 2 ^ 64"

definition AddFits :: "nat \<Rightarrow> nat \<Rightarrow> nat \<Rightarrow> nat option" where
  "AddFits base add limit =
     (if limit < base \<or> limit - base < add then None else Some (base + add))"

definition RoundUp256 :: "nat \<Rightarrow> nat" where
  "RoundUp256 v = (if SIZE_MAX - 255 < v then 0 else unat ((of_nat v + 255 :: u64) AND NOT 255))"

text \<open>The stores of the command, in the order of the code.\<close>

definition frts_fields :: "u32 \<Rightarrow> store list" where
  "frts_fields region4k =
     [st32 0 1, st32 4 (of_nat kReadVbiosDescBytes), st64 8 0, st32 16 0, st32 20 kFrtsReadVbiosFlags,
      st32 24 1, st32 28 (of_nat kFrtsRegionDescBytes), st32 32 region4k, st32 36 kFrtsRegionPages4K,
      st32 40 kFrtsRegionMediaFramebuffer]"

interpretation frts_command: record_layout frts_fields "\<lambda>_. 44"
  by unfold_locales (simp add: frts_fields_def)

definition BuildFrtsCommand :: "u64 \<Rightarrow> FrtsCommand option option" where
  "BuildFrtsCommand vramBytes =
     (if vramBytes < kFrtsReserveFromVramEnd then Some None
      else let region = vramBytes - kFrtsReserveFromVramEnd in
        if region AND 0xFFF \<noteq> 0 then Some None
        else let region4k = drop_bit 12 region in
          if 0xFFFFFFFF < region4k then Some None
          else do {
            b \<leftarrow> write_all (replicate kFrtsCommandBytes 0) (frts_fields (ucast region4k));
            Some (Some \<lparr>bytes = b, regionOffsetBytes = region, regionOffset4K = ucast region4k\<rparr>) })"

text \<open>The search for the DMEM mapper entry, from entry \<open>i\<close> with \<open>n\<close> entries to go.\<close>

fun find_mapper :: "byte list \<Rightarrow> nat \<Rightarrow> nat \<Rightarrow> nat \<Rightarrow> nat \<Rightarrow> u32 option option" where
  "find_mapper img entriesOffset entrySize i 0 = Some None"
| "find_mapper img entriesOffset entrySize i (Suc n) = do {
     let ent = entriesOffset + i * entrySize;
     e \<leftarrow> LoadLe32 img ent;
     if e = kDmemMapperEntryId then do { off \<leftarrow> LoadLe32 img (ent + 4); Some (Some off) }
     else find_mapper img entriesOffset entrySize (Suc i) n }"

text \<open>
  The planner, in three parts: the checks behind a found mapper, the interface table, and the
  whole. \<open>out\<close> is the plan filled in so far.
\<close>

definition plan_mapper ::
    "DescriptorV3 \<Rightarrow> byte list \<Rightarrow> nat \<Rightarrow> nat \<Rightarrow> u32 \<Rightarrow> PatchPlan \<Rightarrow> PatchPlan option" where
  "plan_mapper d img signatureSourceBytes rounded dmemOffset out =
     (case AddFits (unat (imemLoadSize d)) (unat dmemOffset) rounded of
        None \<Rightarrow> Some (out\<lparr>PatchPlan.status := DmemMapperOutOfRange\<rparr>)
      | Some mapper \<Rightarrow>
          if rounded < mapper + 64 then Some (out\<lparr>PatchPlan.status := DmemMapperOutOfRange\<rparr>)
          else do {
            let out2 = out\<lparr>dmemMapperOffset := mapper, initCommandFieldOffset := mapper + 44\<rparr>;
            cmdRel \<leftarrow> LoadLe32 img (mapper + 8);
            cmdCapacity \<leftarrow> LoadLe32 img (mapper + 12);
            if unat cmdCapacity < kFrtsCommandBytes
            then Some (out2\<lparr>PatchPlan.status := CommandBufferOutOfRange\<rparr>)
            else case AddFits (unat (imemLoadSize d)) (unat cmdRel) rounded of
              None \<Rightarrow> Some (out2\<lparr>PatchPlan.status := CommandBufferOutOfRange\<rparr>)
            | Some cmd \<Rightarrow>
                if rounded < cmd \<or> rounded - cmd < kFrtsCommandBytes
                then Some (out2\<lparr>PatchPlan.status := CommandBufferOutOfRange\<rparr>)
                else let out3 = out2\<lparr>commandBufferOffset := cmd, commandBufferCapacity := unat cmdCapacity\<rparr> in
                  (case AddFits (unat (imemLoadSize d)) (unat (pkcDataOffset d)) rounded of
                     None \<Rightarrow> Some (out3\<lparr>PatchPlan.status := SignatureDestinationOutOfRange\<rparr>)
                   | Some sigDest \<Rightarrow>
                       if rounded < sigDest \<or> rounded - sigDest < kRsa3072SignatureBytes
                       then Some (out3\<lparr>PatchPlan.status := SignatureDestinationOutOfRange\<rparr>)
                       else let out4 = out3\<lparr>signatureDestinationOffset := sigDest\<rparr> in
                         if signatureSourceBytes < kRsa3072SignatureBytes
                         then Some (out4\<lparr>PatchPlan.status := SignatureSourceTooSmall\<rparr>)
                         else Some (out4\<lparr>PatchPlan.status := Ok\<rparr>)) })"

definition plan_interface ::
    "DescriptorV3 \<Rightarrow> byte list \<Rightarrow> nat \<Rightarrow> nat \<Rightarrow> nat \<Rightarrow> PatchPlan \<Rightarrow> PatchPlan option" where
  "plan_interface d img signatureSourceBytes rounded interfaceOffset' out = do {
     headerSize \<leftarrow> rd img (interfaceOffset' + 1);
     entrySize \<leftarrow> rd img (interfaceOffset' + 2);
     entryCount \<leftarrow> rd img (interfaceOffset' + 3);
     if headerSize < 4 \<or> entrySize < 8 \<or> entryCount = 0
     then Some (out\<lparr>PatchPlan.status := InvalidInterfaceHeader\<rparr>)
     else case AddFits interfaceOffset' (unat headerSize) rounded of
       None \<Rightarrow> Some (out\<lparr>PatchPlan.status := InterfaceEntriesOutOfRange\<rparr>)
     | Some entriesOffset \<Rightarrow>
         let tableBytes = unat entrySize * unat entryCount in
         if rounded < entriesOffset \<or> rounded - entriesOffset < tableBytes
         then Some (out\<lparr>PatchPlan.status := InterfaceEntriesOutOfRange\<rparr>)
         else do {
           found \<leftarrow> find_mapper img entriesOffset (unat entrySize) 0 (unat entryCount);
           case found of
             None \<Rightarrow> Some (out\<lparr>PatchPlan.status := DmemMapperNotFound\<rparr>)
           | Some dmemOffset \<Rightarrow> plan_mapper d img signatureSourceBytes rounded dmemOffset out } }"

definition PlanFwsecFrtsPatch :: "DescriptorV3 \<Rightarrow> byte list \<Rightarrow> nat \<Rightarrow> PatchPlan option" where
  "PlanFwsecFrtsPatch d img signatureSourceBytes =
     (if storedSize d = 0 then Some PatchPlan0
      else let rounded = RoundUp256 (unat (storedSize d)) in
        if rounded = 0 \<or> length img < rounded then Some PatchPlan0
        else let out = PatchPlan0\<lparr>logicalImageBytes := rounded\<rparr> in
          (case AddFits (unat (imemLoadSize d)) (unat (interfaceOffset d)) rounded of
             None \<Rightarrow> Some (out\<lparr>PatchPlan.status := InterfaceHeaderOutOfRange\<rparr>)
           | Some off \<Rightarrow>
               if rounded < off + 4 then Some (out\<lparr>PatchPlan.status := InterfaceHeaderOutOfRange\<rparr>)
               else plan_interface d img signatureSourceBytes rounded off
                 (out\<lparr>interfaceHeaderOffset := off\<rparr>)))"

definition ApplyFwsecFrtsPatch ::
    "byte list \<Rightarrow> PatchPlan \<Rightarrow> FrtsCommand \<Rightarrow> byte list \<Rightarrow> byte list option option" where
  "ApplyFwsecFrtsPatch img plan command sig =
     (if PatchPlan.status plan \<noteq> Ok \<or> logicalImageBytes plan = 0 \<or>
        length img < logicalImageBytes plan \<or> length sig < signatureBytes plan then Some None
      else if logicalImageBytes plan < size_add (initCommandFieldOffset plan) 4 \<or>
        logicalImageBytes plan < size_add (commandBufferOffset plan) (length (bytes command)) \<or>
        logicalImageBytes plan < size_add (signatureDestinationOffset plan) (signatureBytes plan)
      then Some None
      else do {
        out1 \<leftarrow> StoreLe32 (take (logicalImageBytes plan) img) (initCommandFieldOffset plan) kFrtsCommandId;
        out2 \<leftarrow> wr_seq out1 (commandBufferOffset plan) (bytes command);
        let sigTail = drop (length sig - signatureBytes plan) sig;
        out3 \<leftarrow> wr_seq out2 (signatureDestinationOffset plan) sigTail;
        Some (Some out3) })"

fun PatchStatusName :: "PatchStatus \<Rightarrow> string" where
  "PatchStatusName Ok = ''ok''"
| "PatchStatusName InvalidStoredImage = ''invalid-stored-image''"
| "PatchStatusName InterfaceHeaderOutOfRange = ''interface-header-out-of-range''"
| "PatchStatusName InvalidInterfaceHeader = ''invalid-interface-header''"
| "PatchStatusName InterfaceEntriesOutOfRange = ''interface-entries-out-of-range''"
| "PatchStatusName DmemMapperNotFound = ''dmem-mapper-not-found''"
| "PatchStatusName DmemMapperOutOfRange = ''dmem-mapper-out-of-range''"
| "PatchStatusName CommandBufferOutOfRange = ''command-buffer-out-of-range''"
| "PatchStatusName SignatureDestinationOutOfRange = ''signature-destination-out-of-range''"
| "PatchStatusName SignatureSourceTooSmall = ''signature-source-too-small''"

lemma PatchStatusName_inj: "PatchStatusName s = PatchStatusName t \<longleftrightarrow> s = t"
  by (cases s; cases t) simp_all

section \<open>The command\<close>

lemma AddFits_eq: "AddFits a b n = (if a + b \<le> n then Some (a + b) else None)"
  by (auto simp: AddFits_def)

lemma room_guard: "(n < a \<or> n - a < k) \<longleftrightarrow> \<not> a + k \<le> (n :: nat)"
  by arith

lemma RoundUp256_eq: "v \<le> SIZE_MAX - 255 \<Longrightarrow> RoundUp256 v = (v + 255) div 256 * 256"
proof -
  assume v: "v \<le> SIZE_MAX - 255"
  have "unat (of_nat v + 255 :: u64) = v + 255"
    using v by (subst unat_add_nowrap) (simp_all add: unat_of_nat)
  then have "unat ((of_nat v + 255 :: u64) AND NOT (mask 8)) = v + 255 - (v + 255) mod 2 ^ 8"
    by (simp only: unat_and_not_mask)
  then show ?thesis using v by (simp add: RoundUp256_def mask_eq_exp_minus_1 minus_mod_eq_div_mult)
qed

lemma RoundUp256_u32:
  "RoundUp256 (unat (w :: u32)) = (unat w + 255) div 256 * 256"
  using unat_lt(3) [of w] by (intro RoundUp256_eq) simp

text \<open>A command for video memory of \<open>v\<close> bytes.\<close>

definition frts_command_ok :: "u64 \<Rightarrow> FrtsCommand \<Rightarrow> bool" where
  "frts_command_ok v c \<longleftrightarrow> length (bytes c) = 44 \<and>
     unat (regionOffsetBytes c) = unat v - 0x200000 \<and>
     unat (regionOffset4K c) * 4096 = unat (regionOffsetBytes c) \<and>
     (\<forall>(off, vs) \<in> set (frts_fields (regionOffset4K c)). slice (bytes c) off (length vs) = vs)"

lemma BuildFrtsCommand_cases:
  "(\<exists>c. BuildFrtsCommand v = Some (Some c) \<and> frts_command_ok v c) \<and>
      0x200000 \<le> unat v \<and> 4096 dvd unat v \<and> unat v < 2 ^ 44 + 0x200000
   \<or> BuildFrtsCommand v = Some None \<and>
      \<not> (0x200000 \<le> unat v \<and> 4096 dvd unat v \<and> unat v < 2 ^ 44 + 0x200000)"
proof (cases "v < kFrtsReserveFromVramEnd")
  case True
  then show ?thesis by (simp add: BuildFrtsCommand_def frts_consts word_less_nat_alt)
next
  case False
  define r where "r = v - 0x200000"
  have r: "unat r = unat v - 0x200000" "0x200000 \<le> unat v"
    using False by (simp_all add: r_def frts_consts unat_sub word_le_nat_alt not_less)
  have rdvd: "4096 dvd unat r \<longleftrightarrow> 4096 dvd unat v"
  proof -
    have "(4096 :: nat) dvd 0x200000" by simp
    then have "4096 dvd unat r + 0x200000 \<longleftrightarrow> 4096 dvd unat r" by (rule dvd_add_left_iff)
    moreover have "unat v = unat r + 0x200000" using r by simp
    ultimately show ?thesis by simp
  qed
  have dvd: "r AND 0xFFF = 0 \<longleftrightarrow> 4096 dvd unat v"
    using and_mask_zero_iff [of r 12] rdvd by (simp add: mask_eq_exp_minus_1)
  have k: "unat (drop_bit 12 r) = unat r div 4096"
    by (simp only: unat_drop_bit_eq) (simp add: drop_bit_eq_div)
  have fits: "0xFFFFFFFF < drop_bit 12 r \<longleftrightarrow> \<not> unat v < 2 ^ 44 + 0x200000"
    using r by (simp add: word_less_nat_alt k) arith
  show ?thesis
  proof (cases "4096 dvd unat v \<and> unat v < 2 ^ 44 + 0x200000")
    case False
    then show ?thesis using \<open>\<not> v < kFrtsReserveFromVramEnd\<close>
      by (auto simp: BuildFrtsCommand_def frts_consts Let_def r_def [symmetric] dvd fits)
  next
    case True
    obtain b where b: "frts_command.encode (ucast (drop_bit 12 r)) = Some b" "length b = 44"
      "\<forall>(off, vs) \<in> set (frts_fields (ucast (drop_bit 12 r))). slice b off (length vs) = vs"
      using frts_command.encode_layout [of "ucast (drop_bit 12 r)"] by auto
    have "unat (drop_bit 12 r) < 2 ^ 32" using True r by (simp add: k) arith
    then have u: "unat (ucast (drop_bit 12 r) :: u32) * 4096 = unat r"
      using True rdvd by (simp add: unat_ucast_narrow k)
    have "BuildFrtsCommand v = Some (Some \<lparr>bytes = b, regionOffsetBytes = r,
        regionOffset4K = ucast (drop_bit 12 r)\<rparr>)"
      using \<open>\<not> v < kFrtsReserveFromVramEnd\<close> True b(1)
      by (simp add: BuildFrtsCommand_def frts_consts(9) frts_consts(3) frts_consts(8) Let_def r_def [symmetric]
          dvd fits frts_command.encode_def)
    then show ?thesis using b u r True by (simp add: frts_command_ok_def)
  qed
qed

text \<open>
  The FRTS command exists exactly for video memory of at least 2 MiB, page aligned, whose last
  2 MiB start below page 2^32. It is then 44 bytes, encodes the start of those 2 MiB in 4 KiB
  pages, and every field of both descriptors reads back.
\<close>
theorem BuildFrtsCommand_spec:
  "(\<exists>c. BuildFrtsCommand v = Some (Some c) \<and> frts_command_ok v c) \<and>
      0x200000 \<le> unat v \<and> 4096 dvd unat v \<and> unat v < 2 ^ 44 + 0x200000
   \<or> BuildFrtsCommand v = Some None \<and>
      \<not> (0x200000 \<le> unat v \<and> 4096 dvd unat v \<and> unat v < 2 ^ 44 + 0x200000)"
  by (rule BuildFrtsCommand_cases)

section \<open>The plan\<close>

lemma find_mapper_total:
  assumes "8 \<le> w" and "off + (i + n) * w \<le> length img"
  shows "\<exists>r. find_mapper img off w i n = Some r"
  using assms(2)
proof (induction n arbitrary: i)
  case (Suc n)
  have "i * w + w \<le> (i + Suc n) * w" by (simp add: add_mult_distrib)
  then have "off + i * w + 8 \<le> length img" using Suc.prems assms(1) by linarith
  moreover have "off + (Suc i + n) * w \<le> length img" using Suc.prems by simp
  ultimately show ?case using Suc.IH by (simp add: Let_def LoadLe_at)
qed simp

text \<open>What a plan promises: the three places it patches lie in the image, as does the mapper.\<close>

definition plan_ok :: "DescriptorV3 \<Rightarrow> byte list \<Rightarrow> nat \<Rightarrow> PatchPlan \<Rightarrow> bool" where
  "plan_ok d img sigBytes p \<longleftrightarrow>
     logicalImageBytes p = (unat (storedSize d) + 255) div 256 * 256 \<and> 0 < logicalImageBytes p \<and>
     logicalImageBytes p \<le> length img \<and>
     initCommandFieldOffset p = dmemMapperOffset p + 44 \<and>
     dmemMapperOffset p + 64 \<le> logicalImageBytes p \<and>
     commandBufferOffset p = unat (imemLoadSize d) + unat (word_at img (dmemMapperOffset p + 8)) \<and>
     commandBufferCapacity p = unat (word_at img (dmemMapperOffset p + 12)) \<and>
     kFrtsCommandBytes \<le> commandBufferCapacity p \<and>
     commandBufferOffset p + kFrtsCommandBytes \<le> logicalImageBytes p \<and>
     signatureBytes p = kRsa3072SignatureBytes \<and> signatureBytes p \<le> sigBytes \<and>
     signatureDestinationOffset p = unat (imemLoadSize d) + unat (pkcDataOffset d) \<and>
     signatureDestinationOffset p + signatureBytes p \<le> logicalImageBytes p"

lemma plan_mapper_ok:
  assumes "logicalImageBytes out = rounded" and "signatureBytes out = kRsa3072SignatureBytes"
    and "rounded = (unat (storedSize d) + 255) div 256 * 256" and "0 < rounded" and "rounded \<le> length img"
  shows "\<exists>p. plan_mapper d img sigBytes rounded off out = Some p \<and>
    (PatchPlan.status p = Ok \<longrightarrow> plan_ok d img sigBytes p)"
proof (cases "unat (imemLoadSize d) + unat off + 64 \<le> rounded")
  case False
  then show ?thesis by (auto simp: plan_mapper_def AddFits_eq)
next
  case True
  then have "LoadLe32 img (unat (imemLoadSize d) + unat off + 8) =
      Some (word_at img (unat (imemLoadSize d) + unat off + 8))"
    "LoadLe32 img (unat (imemLoadSize d) + unat off + 12) =
      Some (word_at img (unat (imemLoadSize d) + unat off + 12))"
    using assms(5) by (auto intro!: LoadLe_at)
  then show ?thesis
    using True assms(1,2,4,5) unfolding plan_mapper_def plan_ok_def assms(3) [symmetric]
    by (auto simp: room_guard AddFits_eq Let_def)
qed

lemma plan_interface_ok:
  assumes "logicalImageBytes out = rounded" and "signatureBytes out = kRsa3072SignatureBytes"
    and "rounded = (unat (storedSize d) + 255) div 256 * 256" and "0 < rounded" and "rounded \<le> length img"
    and "off + 4 \<le> rounded"
  shows "\<exists>p. plan_interface d img sigBytes rounded off out = Some p \<and>
    (PatchPlan.status p = Ok \<longrightarrow> plan_ok d img sigBytes p)"
proof -
  define h w n where "h = img ! (off + 1)" and "w = img ! (off + 2)" and "n = img ! (off + 3)"
  have rd: "rd img (off + 1) = Some h" "rd img (off + 2) = Some w" "rd img (off + 3) = Some n"
    using assms(5,6) by (auto simp: h_def w_def n_def rd_def)
  note run = plan_interface_def [of d img sigBytes rounded off out, unfolded rd bind.bind_lunit]
  show ?thesis
  proof (cases "(h < 4 \<or> w < 8 \<or> n = 0) \<or> \<not> off + unat h + unat w * unat n \<le> rounded")
    case True
    then show ?thesis unfolding run by (auto simp: AddFits_eq Let_def)
  next
    case False
    then have ok: "\<not> (h < 4 \<or> w < 8 \<or> n = 0)" and tab: "off + unat h + unat w * unat n \<le> rounded"
      by blast+
    have "8 \<le> unat w" using ok by (simp add: word_less_nat_alt not_less)
    moreover have "off + unat h + (0 + unat n) * unat w \<le> length img"
      using tab assms(5) by (simp add: mult.commute)
    ultimately obtain r where r: "find_mapper img (off + unat h) (unat w) 0 (unat n) = Some r"
      using find_mapper_total by blast
    show ?thesis
    proof (cases r)
      case None
      then show ?thesis unfolding run using ok tab r by (auto simp: AddFits_eq Let_def)
    next
      case (Some m)
      then show ?thesis
        unfolding run using ok tab r plan_mapper_ok [OF assms(1-5), of sigBytes m]
        by (auto simp: AddFits_eq Let_def)
    qed
  qed
qed

lemma PlanFwsecFrtsPatch_cases:
  "\<exists>p. PlanFwsecFrtsPatch d img sigBytes = Some p \<and>
    (PatchPlan.status p = Ok \<longrightarrow> plan_ok d img sigBytes p)"
proof (cases "storedSize d = 0 \<or> length img < RoundUp256 (unat (storedSize d))")
  case True
  then show ?thesis by (auto simp: PlanFwsecFrtsPatch_def PatchPlan0_def Let_def)
next
  case False
  let ?n = "(unat (storedSize d) + 255) div 256 * 256"
  have "0 < unat (storedSize d)" using False by (simp add: unat_gt_0)
  then have pos: "0 < ?n" by (simp add: div_greater_zero_iff)
  have size: "?n \<le> length img" using False by (simp add: RoundUp256_u32)
  let ?off = "unat (imemLoadSize d) + unat (interfaceOffset d)"
  let ?out = "PatchPlan0\<lparr>logicalImageBytes := ?n\<rparr>"
  have run: "PlanFwsecFrtsPatch d img sigBytes = (if \<not> ?off + 4 \<le> ?n
      then Some (?out\<lparr>PatchPlan.status := InterfaceHeaderOutOfRange\<rparr>)
      else plan_interface d img sigBytes ?n ?off (?out\<lparr>interfaceHeaderOffset := ?off\<rparr>))"
    using False pos by (auto simp: PlanFwsecFrtsPatch_def RoundUp256_u32 AddFits_eq Let_def)
  show ?thesis
  proof (cases "?off + 4 \<le> ?n")
    case False
    then show ?thesis unfolding run by simp
  next
    case True
    then show ?thesis
      unfolding run using plan_interface_ok [OF _ _ refl pos size True, of "?out\<lparr>interfaceHeaderOffset := ?off\<rparr>"]
      by (simp add: PatchPlan0_def)
  qed
qed

text \<open>
  C37. Planning a patch never reads outside the stored image. A plan reported as usable describes an
  image rounded up to 256 bytes inside the stored one, a DMEM mapper in it, and three places to
  write (the mapper's command field, the command buffer it names, with room for the command, and
  the signature slot) that lie inside that image, for a signature source that is long enough.
\<close>
theorem PlanFwsecFrtsPatch_spec:
  "\<exists>p. PlanFwsecFrtsPatch d img sigBytes = Some p \<and>
    (PatchPlan.status p = Ok \<longrightarrow> plan_ok d img sigBytes p)"
  by (rule PlanFwsecFrtsPatch_cases)

section \<open>Applying the plan\<close>

text \<open>Bytes outside the three patched places.\<close>

definition patched :: "PatchPlan \<Rightarrow> nat \<Rightarrow> bool" where
  "patched p i \<longleftrightarrow> (initCommandFieldOffset p \<le> i \<and> i < initCommandFieldOffset p + 4) \<or>
     (commandBufferOffset p \<le> i \<and> i < commandBufferOffset p + kFrtsCommandBytes) \<or>
     (signatureDestinationOffset p \<le> i \<and> i < signatureDestinationOffset p + signatureBytes p)"

definition apart :: "nat \<Rightarrow> nat \<Rightarrow> nat \<Rightarrow> nat \<Rightarrow> bool" where
  "apart a m b n \<longleftrightarrow> a + m \<le> b \<or> b + n \<le> a"

lemma ApplyFwsecFrtsPatch_cases:
  assumes p: "plan_ok d img (length sig) p" "PatchPlan.status p = Ok"
    and c: "length (bytes c) = kFrtsCommandBytes"
  shows "\<exists>out. ApplyFwsecFrtsPatch img p c sig = Some (Some out) \<and>
    length out = logicalImageBytes p \<and>
    out = put (put (put (take (logicalImageBytes p) img) (initCommandFieldOffset p) (le_bytes 4 kFrtsCommandId))
      (commandBufferOffset p) (bytes c)) (signatureDestinationOffset p) (drop (length sig - 0x180) sig) \<and>
    slice out (signatureDestinationOffset p) 0x180 = drop (length sig - 0x180) sig \<and>
    (apart (commandBufferOffset p) 44 (signatureDestinationOffset p) 0x180 \<longrightarrow>
      slice out (commandBufferOffset p) 44 = bytes c \<and>
      (apart (initCommandFieldOffset p) 4 (signatureDestinationOffset p) 0x180 \<longrightarrow>
       apart (initCommandFieldOffset p) 4 (commandBufferOffset p) 44 \<longrightarrow>
         word_at out (initCommandFieldOffset p) = 0x15)) \<and>
    (\<forall>i < logicalImageBytes p. \<not> patched p i \<longrightarrow> out ! i = img ! i)"
proof -
  note p' = p(1) [unfolded plan_ok_def]
  let ?n = "logicalImageBytes p"
  let ?tail = "drop (length sig - 0x180) sig"
  have n: "?n < 2 ^ 33"
  proof -
    have "?n \<le> unat (storedSize d) + 255" using p' by (simp add: div_times_less_eq_dividend)
    then show ?thesis using unat_lt(3) [of "storedSize d"] by simp
  qed
  let ?o0 = "take ?n img"
  let ?o1 = "put ?o0 (initCommandFieldOffset p) (le_bytes 4 kFrtsCommandId)"
  let ?o2 = "put ?o1 (commandBufferOffset p) (bytes c)"
  let ?o3 = "put ?o2 (signatureDestinationOffset p) ?tail"
  have sig: "signatureBytes p = 0x180" "0x180 \<le> length sig" using p' by (simp_all add: frts_consts)
  have len: "length ?o0 = ?n" "length (bytes c) = 44" "length ?tail = 0x180"
    using p' c sig by (simp_all add: frts_consts)
  have st: "?n \<noteq> 0" "\<not> length img < ?n" using p' by simp_all
  have in1: "initCommandFieldOffset p + 4 \<le> ?n" and in2: "commandBufferOffset p + 44 \<le> ?n"
    and in3: "signatureDestinationOffset p + 0x180 \<le> ?n"
    using p' by (simp_all add: frts_consts)
  have lens: "length ?o1 = ?n" "length ?o2 = ?n" "length ?o3 = ?n"
    using len in1 in2 in3 by simp_all
  have exact: "size_add (initCommandFieldOffset p) 4 = initCommandFieldOffset p + 4"
    "size_add (commandBufferOffset p) 44 = commandBufferOffset p + 44"
    "size_add (signatureDestinationOffset p) 0x180 = signatureDestinationOffset p + 0x180"
    using n in1 in2 in3 by (simp_all add: size_add_def)
  have "ApplyFwsecFrtsPatch img p c sig = Some (Some ?o3)"
    using p(2) st sig len lens in1 in2 in3
    by (simp add: ApplyFwsecFrtsPatch_def exact mem_simps)
  moreover have "slice ?o3 (signatureDestinationOffset p) 0x180 = ?tail"
    using lens in3 len by simp
  moreover have "slice ?o3 (commandBufferOffset p) 44 = bytes c"
    if "apart (commandBufferOffset p) 44 (signatureDestinationOffset p) 0x180"
    using that lens len in2 in3 by (auto simp: apart_def)
  moreover have "word_at ?o3 (initCommandFieldOffset p) = 0x15"
    if "apart (initCommandFieldOffset p) 4 (signatureDestinationOffset p) 0x180"
      "apart (initCommandFieldOffset p) 4 (commandBufferOffset p) 44"
  proof -
    have "slice ?o3 (initCommandFieldOffset p) 4 = slice ?o2 (initCommandFieldOffset p) 4"
      using that(1) lens len in1 in3 by (auto simp: apart_def)
    also have "\<dots> = slice ?o1 (initCommandFieldOffset p) 4"
      using that(2) lens len in1 in2 by (auto simp: apart_def)
    also have "\<dots> = le_bytes 4 kFrtsCommandId" using len in1 by simp
    finally show ?thesis by (simp only: word_at_def le_join_32 kFrtsCommandId_def)
  qed
  moreover have "?o3 ! i = img ! i" if "i < ?n" "\<not> patched p i" for i
    using that lens len in1 in2 in3 sig(1) by (auto simp: patched_def nth_put frts_consts(3))
  ultimately show ?thesis using lens(3) by blast
qed

text \<open>
  C38. A usable plan can be applied, and the result is exactly the rounded image with three stores in this
  order: the command identifier at the mapper's command field, the command in the command buffer, the tail
  of the production signature in its slot. So the signature is always in its slot and every byte outside
  the three places is unchanged. The command survives when the signature slot is apart from it, and then the identifier
  when both later places are apart from it; the planner does not rule out that they overlap
  (\<open>PlanFwsecFrtsPatch_overlap\<close> is a plan reported as usable whose signature overwrites the command).
\<close>
theorem ApplyFwsecFrtsPatch_spec:
  assumes "PlanFwsecFrtsPatch d img (length sig) = Some p" and "PatchPlan.status p = Ok"
    and "BuildFrtsCommand v = Some (Some c)"
  shows "\<exists>out. ApplyFwsecFrtsPatch img p c sig = Some (Some out) \<and>
    length out = logicalImageBytes p \<and>
    out = put (put (put (take (logicalImageBytes p) img) (initCommandFieldOffset p) (le_bytes 4 kFrtsCommandId))
      (commandBufferOffset p) (bytes c)) (signatureDestinationOffset p) (drop (length sig - 0x180) sig) \<and>
    slice out (signatureDestinationOffset p) 0x180 = drop (length sig - 0x180) sig \<and>
    (apart (commandBufferOffset p) 44 (signatureDestinationOffset p) 0x180 \<longrightarrow>
      slice out (commandBufferOffset p) 44 = bytes c \<and>
      (apart (initCommandFieldOffset p) 4 (signatureDestinationOffset p) 0x180 \<longrightarrow>
       apart (initCommandFieldOffset p) 4 (commandBufferOffset p) 44 \<longrightarrow>
         word_at out (initCommandFieldOffset p) = 0x15)) \<and>
    (\<forall>i < logicalImageBytes p. \<not> patched p i \<longrightarrow> out ! i = img ! i)"
proof (rule ApplyFwsecFrtsPatch_cases)
  show "plan_ok d img (length sig) p"
    using PlanFwsecFrtsPatch_cases [of d img "length sig"] assms(1,2) by auto
  show "PatchPlan.status p = Ok" by (rule assms(2))
  show "length (bytes c) = kFrtsCommandBytes"
    using BuildFrtsCommand_cases [of v] assms(3) by (auto simp: frts_command_ok_def frts_consts)
qed

section \<open>An example\<close>

text \<open>A 1 KiB image: interface table at 0, mapper at 32, command buffer at 128, signature at 256.\<close>

definition sample_descriptor :: DescriptorV3 where
  "sample_descriptor = \<lparr>storedSize = 1000, pkcDataOffset = 256, interfaceOffset = 0, imemPhysBase = 0,
     imemLoadSize = 0, imemVirtBase = 0, dmemPhysBase = 0, dmemLoadSize = 0, engineIdMask = 0,
     ucodeId = 0, signatureCount = 1, signatureVersions = 0\<rparr>"

definition sample_image :: "byte list" where
  "sample_image = put (put (put (replicate 1024 0) 0 [1, 4, 8, 1]) 4 [4, 0, 0, 0, 32]) 40 [128, 0, 0, 0, 64]"

lemma sample_words [simp]:
  "sample_image ! Suc 0 = 4" "sample_image ! 2 = 8" "sample_image ! 3 = 1" "word_at sample_image 4 = 4"
  "word_at sample_image 8 = 32" "word_at sample_image 40 = 128" "word_at sample_image 44 = 64"
  "length sample_image = 1024"
  by code_simp+

lemma sample_plan:
  "PlanFwsecFrtsPatch sample_descriptor sample_image 0x180 = Some \<lparr>PatchPlan.status = Ok,
     logicalImageBytes = 1024, interfaceHeaderOffset = 0, dmemMapperOffset = 32,
     initCommandFieldOffset = 76, commandBufferOffset = 128, commandBufferCapacity = 64,
     signatureDestinationOffset = 256, signatureBytes = 0x180\<rparr>"
proof -
  have n: "RoundUp256 1000 = 1024" by (subst RoundUp256_eq) simp_all
  have rds: "rd sample_image (Suc 0) = Some 4" "rd sample_image 2 = Some 8" "rd sample_image 3 = Some 1"
    "rd sample_image (Suc (Suc 0)) = Some 8"
    "LoadLe32 sample_image 4 = Some 4" "LoadLe32 sample_image 8 = Some 32"
    "LoadLe32 sample_image 40 = Some 128" "LoadLe32 sample_image 44 = Some 64"
    by (simp_all add: rd_at LoadLe_at flip: numeral_2_eq_2)
  show ?thesis
    by (simp add: Let_def PlanFwsecFrtsPatch_def sample_descriptor_def n AddFits_eq plan_interface_def rds
        plan_mapper_def frts_consts PatchPlan0_def)
qed

text \<open>The same image with a signature slot at 128, on the command buffer: the plan is still reported as usable, and
  what the patched image holds in the command buffer is the signature.\<close>

lemma PlanFwsecFrtsPatch_overlap:
  "\<exists>p c out. PlanFwsecFrtsPatch (sample_descriptor\<lparr>pkcDataOffset := 128\<rparr>) sample_image 0x180 = Some p \<and> PatchPlan.status p = Ok \<and>
    BuildFrtsCommand 0x300000 = Some (Some c) \<and>
    ApplyFwsecFrtsPatch sample_image p c (replicate 0x180 7) = Some (Some out) \<and>
    slice out (commandBufferOffset p) 44 = replicate 44 7"
proof -
  let ?p = "\<lparr>PatchPlan.status = Ok, logicalImageBytes = 1024, interfaceHeaderOffset = 0, dmemMapperOffset = 32,
     initCommandFieldOffset = 76, commandBufferOffset = 128, commandBufferCapacity = 64,
     signatureDestinationOffset = 128, signatureBytes = 0x180\<rparr>"
  have n: "RoundUp256 1000 = 1024" by (subst RoundUp256_eq) simp_all
  have rds: "rd sample_image (Suc 0) = Some 4" "rd sample_image 2 = Some 8" "rd sample_image 3 = Some 1"
    "rd sample_image (Suc (Suc 0)) = Some 8"
    "LoadLe32 sample_image 4 = Some 4" "LoadLe32 sample_image 8 = Some 32"
    "LoadLe32 sample_image 40 = Some 128" "LoadLe32 sample_image 44 = Some 64"
    by (simp_all add: rd_at LoadLe_at flip: numeral_2_eq_2)
  have p: "PlanFwsecFrtsPatch (sample_descriptor\<lparr>pkcDataOffset := 128\<rparr>) sample_image 0x180 = Some ?p"
    by (simp add: Let_def PlanFwsecFrtsPatch_def sample_descriptor_def n AddFits_eq plan_interface_def rds
        plan_mapper_def frts_consts PatchPlan0_def)
  obtain c where c: "BuildFrtsCommand 0x300000 = Some (Some c)" "length (bytes c) = kFrtsCommandBytes"
    using BuildFrtsCommand_cases [of "0x300000"] by (auto simp: frts_command_ok_def frts_consts)
  have "plan_ok (sample_descriptor\<lparr>pkcDataOffset := 128\<rparr>) sample_image (length (replicate 0x180 (7 :: byte))) ?p"
    using PlanFwsecFrtsPatch_cases [of "sample_descriptor\<lparr>pkcDataOffset := 128\<rparr>" sample_image "0x180"] p by simp
  from ApplyFwsecFrtsPatch_cases [OF this _ c(2)] obtain out where
    out: "ApplyFwsecFrtsPatch sample_image ?p c (replicate 0x180 7) = Some (Some out)" "slice out 128 0x180 = replicate 0x180 7"
    by auto
  have "slice out 128 44 = take 44 (slice out 128 0x180)" by (simp add: slice_def)
  then have "slice out 128 44 = replicate 44 7" using out(2) by simp
  then show ?thesis using p c(1) out(1) by auto
qed

theorem ApplyFwsecFrtsPatch_witness:
  "\<exists>p c out. PlanFwsecFrtsPatch sample_descriptor sample_image 0x180 = Some p \<and>
    BuildFrtsCommand 0x300000 = Some (Some c) \<and>
    ApplyFwsecFrtsPatch sample_image p c (replicate 0x180 7) = Some (Some out) \<and>
    slice out 128 44 = bytes c \<and> slice out 256 0x180 = replicate 0x180 7 \<and> word_at out 76 = 0x15"
proof -
  obtain c where c: "BuildFrtsCommand 0x300000 = Some (Some c)"
    using BuildFrtsCommand_cases [of "0x300000"] by auto
  have "PlanFwsecFrtsPatch sample_descriptor sample_image (length (replicate 0x180 (7 :: byte))) =
      Some \<lparr>PatchPlan.status = Ok,
     logicalImageBytes = 1024, interfaceHeaderOffset = 0, dmemMapperOffset = 32,
     initCommandFieldOffset = 76, commandBufferOffset = 128, commandBufferCapacity = 64,
     signatureDestinationOffset = 256, signatureBytes = 0x180\<rparr>" using sample_plan by simp
  from ApplyFwsecFrtsPatch_spec [OF this _ c] show ?thesis
    using c sample_plan by (auto simp: apart_def)
qed

text \<open>The command for 3 MiB of video memory.\<close>

theorem PlanFwsecFrtsPatch_witness:
  "\<exists>p. PlanFwsecFrtsPatch sample_descriptor sample_image 0x180 = Some p \<and>
    plan_ok sample_descriptor sample_image 0x180 p"
  using PlanFwsecFrtsPatch_spec [of sample_descriptor sample_image "0x180"] sample_plan by auto

theorem BuildFrtsCommand_witness:
  "\<exists>c. BuildFrtsCommand 0x300000 = Some (Some c) \<and> unat (regionOffset4K c) = 256"
  using BuildFrtsCommand_spec [of "0x300000"] by (auto simp: frts_command_ok_def)

end
