(* ===== verification/PraminExec.thy ===== *)
theory PraminExec
  imports DriverKit Pramin
begin

text \<open>
  The PRAMIN executor of the driver (\<open>macos/Driver/RTXMacPramin.cpp\<close> and
  \<open>RTXMacPraminTransaction.cpp\<close>): staging, verifying and reading back video memory through the
  1 MiB window, and the transaction backup, stage, verify, restore. The device is a parameter; the
  history of its accesses is passed explicitly. A host buffer is a byte list and a null pointer is
  \<open>None\<close>. The outer \<open>None\<close> of a result is an access outside a host buffer.
\<close>

section \<open>Mapping\<close>

definition kPageBytes :: u64 where "kPageBytes = 0x1000"

definition MapBar0Range ::
    "Aperture option \<Rightarrow> u64 \<Rightarrow> u64 \<Rightarrow> u64 \<Rightarrow> history \<Rightarrow> kern_return \<times> history" where
  "MapBar0Range bar0 bar0Size off byteCount h =
     (case bar0 of None \<Rightarrow> (kIOReturnBadArgument, h)
      | Some dev \<Rightarrow>
        if byteCount = 0 then (kIOReturnBadArgument, h)
        else if bar0Size \<le> off \<or> bar0Size - off < byteCount then (kIOReturnNoResources, h)
        else if - 1 - (byteCount - 1) < off then (kIOReturnBadArgument, h)
        else let pageBase = off AND NOT (kPageBytes - 1);
                 inPage = off - pageBase;
                 needed = inPage + byteCount
        in if - 1 - (kPageBytes - 1) < needed then (kIOReturnBadArgument, h)
        else let mapLength = (needed + kPageBytes - 1) AND NOT (kPageBytes - 1)
        in if bar0Size \<le> pageBase \<or> bar0Size - pageBase < mapLength then (kIOReturnNoResources, h)
        else let (kr, m) = CreateMapping dev h pageBase mapLength;
                 h = h @ [Mapped pageBase mapLength]
        in if kr \<noteq> kIOReturnSuccess \<or> m = None
           then (if kr = kIOReturnSuccess then kIOReturnError else kr, h)
           else if m = Some 0 then (kIOReturnNoResources, h)
           else (kIOReturnSuccess, h))"

definition WriteSelector :: "Aperture option \<Rightarrow> u64 \<Rightarrow> u32 \<Rightarrow> history \<Rightarrow> kern_return \<times> history" where
  "WriteSelector bar0 bar0Size v h =
     (if CheckMmioWrite selectorRules kPraminWindowSelectOffset 0 v \<noteq> WriteDecision.Allowed
      then (kIOReturnNotPermitted, h)
      else let (kr, h) = MapBar0Range bar0 bar0Size (ucast kPraminWindowSelectOffset) 4 h
      in if kr \<noteq> kIOReturnSuccess then (kr, h)
         else case bar0 of None \<Rightarrow> (kr, h)
         | Some dev \<Rightarrow>
           let h = reg_write kPraminWindowSelectOffset v h;
               (postedWriteFlush, h) = reg_read dev kPraminWindowSelectOffset h
           in (kIOReturnSuccess, h))"

section \<open>The aperture\<close>

text \<open>The word loops. A host buffer is addressed by the offset of the chunk in it and the offset of
  the word in the chunk.\<close>

partial_function (option) WriteAperture_loop ::
    "u32 \<Rightarrow> byte list \<Rightarrow> nat \<Rightarrow> u64 \<Rightarrow> u64 \<Rightarrow> history \<Rightarrow> history option" where
  "WriteAperture_loop off source base byteCount i h =
     (if i < byteCount
      then do {
        v \<leftarrow> LoadLe32 source (base + unat i);
        WriteAperture_loop off source base byteCount (i + 4) (reg_write (off + ucast i) v h) }
      else Some h)"

definition WriteAperture ::
    "Aperture option \<Rightarrow> u64 \<Rightarrow> u32 \<Rightarrow> byte list \<Rightarrow> nat \<Rightarrow> u64 \<Rightarrow> history \<Rightarrow>
     (kern_return \<times> history) option" where
  "WriteAperture bar0 bar0Size off source base byteCount h =
     (if byteCount = 0 \<or> byteCount AND 3 \<noteq> 0 then Some (kIOReturnBadArgument, h)
      else if CheckMmioRegionWrite apertureRules off byteCount \<noteq> RegionWriteDecision.Allowed
      then Some (kIOReturnNotPermitted, h)
      else let (kr, h) = MapBar0Range bar0 bar0Size (ucast off) byteCount h
      in if kr \<noteq> kIOReturnSuccess then Some (kr, h)
         else case bar0 of None \<Rightarrow> Some (kr, h)
         | Some dev \<Rightarrow> do {
             h \<leftarrow> WriteAperture_loop off source base byteCount 0 h;
             let (postedWriteFlush, h) = reg_read dev (off + ucast (byteCount - 4)) h;
             Some (kIOReturnSuccess, h) })"

partial_function (option) CompareAperture_loop ::
    "Aperture \<Rightarrow> u32 \<Rightarrow> byte list \<Rightarrow> nat \<Rightarrow> u64 \<Rightarrow> u64 \<Rightarrow> history \<Rightarrow> (kern_return \<times> history) option" where
  "CompareAperture_loop dev off expected base byteCount i h =
     (if i < byteCount
      then do {
        expectedValue \<leftarrow> LoadLe32 expected (base + unat i);
        let (v, h) = reg_read dev (off + ucast i) h;
        if v \<noteq> expectedValue then Some (kIOReturnIOError, h)
        else CompareAperture_loop dev off expected base byteCount (i + 4) h }
      else Some (kIOReturnSuccess, h))"

definition CompareAperture ::
    "Aperture option \<Rightarrow> u64 \<Rightarrow> u32 \<Rightarrow> byte list \<Rightarrow> nat \<Rightarrow> u64 \<Rightarrow> history \<Rightarrow>
     (kern_return \<times> history) option" where
  "CompareAperture bar0 bar0Size off expected base byteCount h =
     (if byteCount = 0 \<or> byteCount AND 3 \<noteq> 0 then Some (kIOReturnBadArgument, h)
      else if CheckMmioRegionWrite apertureRules off byteCount \<noteq> RegionWriteDecision.Allowed
      then Some (kIOReturnNotPermitted, h)
      else let (kr, h) = MapBar0Range bar0 bar0Size (ucast off) byteCount h
      in if kr \<noteq> kIOReturnSuccess then Some (kr, h)
         else case bar0 of None \<Rightarrow> Some (kr, h)
         | Some dev \<Rightarrow> CompareAperture_loop dev off expected base byteCount 0 h)"

definition ValidateStage :: "PraminStagePlan \<Rightarrow> u64 \<Rightarrow> kern_return" where
  "ValidateStage stage sourceBytes =
     (if \<not> PraminStagePlan.valid stage \<or> vramSize stage = 0 \<or> totalBytes stage = 0 \<or>
         chunks stage = [] \<or> sourceBytes \<noteq> totalBytes stage \<or>
         vramSize stage \<le> PraminStagePlan.vramOffset stage \<or>
         vramSize stage - PraminStagePlan.vramOffset stage < totalBytes stage
      then kIOReturnBadArgument else kIOReturnSuccess)"

text \<open>The check of one chunk. \<open>RTXMacStagePramin\<close> and \<open>RTXMacVerifyPramin\<close> write it out as two early
  returns with the same status, the transaction file has it as a function.\<close>

definition ValidateChunk :: "PraminStageChunk \<Rightarrow> u64 \<Rightarrow> u64 \<Rightarrow> u64 \<Rightarrow> bool" where
  "ValidateChunk c expectedVram expectedSource tot =
     (if PraminStageChunk.bytes c = 0 \<or> PraminStageChunk.bytes c AND 3 \<noteq> 0 \<or>
         PraminStageChunk.vramOffset c \<noteq> expectedVram \<or> sourceOffset c \<noteq> expectedSource \<or>
         tot < sourceOffset c \<or> tot - sourceOffset c < PraminStageChunk.bytes c
      then False
      else let base = PraminStageChunk.vramOffset c AND NOT kPraminWindowMask;
               inWindow = PraminStageChunk.vramOffset c AND kPraminWindowMask;
               selector = drop_bit 16 base;
               aperture = ucast kPraminApertureOffset + inWindow
      in PraminStageChunk.bytes c \<le> kPraminWindowBytes - inWindow \<and>
         selector \<le> 0xFFFFFFFF \<and> aperture \<le> 0xFFFFFFFF \<and> windowBase c = base \<and>
         windowSelector c = ucast selector \<and> bar0ApertureOffset c = ucast aperture)"

section \<open>Staging and verifying\<close>

fun RTXMacStagePramin_loop ::
    "Aperture option \<Rightarrow> u64 \<Rightarrow> PraminStagePlan \<Rightarrow> byte list \<Rightarrow> u64 \<Rightarrow> PraminStageChunk list \<Rightarrow> u64 \<Rightarrow> u64 \<Rightarrow>
     history \<Rightarrow> (kern_return \<times> history) option" where
  "RTXMacStagePramin_loop bar0 bar0Size stage source sourceBytes [] expectedVram expectedSource h =
     Some (if expectedSource \<noteq> totalBytes stage \<or>
              expectedVram \<noteq> PraminStagePlan.vramOffset stage + totalBytes stage
           then kIOReturnBadArgument else kIOReturnSuccess, h)"
| "RTXMacStagePramin_loop bar0 bar0Size stage source sourceBytes (c # cs) expectedVram expectedSource h =
     (if \<not> ValidateChunk c expectedVram expectedSource sourceBytes then Some (kIOReturnBadArgument, h)
      else let (kr, h) = WriteSelector bar0 bar0Size (windowSelector c) h
      in if kr \<noteq> kIOReturnSuccess then Some (kr, h)
      else do {
        (kr, h) \<leftarrow> WriteAperture bar0 bar0Size (bar0ApertureOffset c) source (unat (sourceOffset c))
                   (PraminStageChunk.bytes c) h;
        if kr \<noteq> kIOReturnSuccess then Some (kr, h)
        else if - 1 - PraminStageChunk.bytes c < expectedVram \<or>
                - 1 - PraminStageChunk.bytes c < expectedSource
        then Some (kIOReturnBadArgument, h)
        else RTXMacStagePramin_loop bar0 bar0Size stage source sourceBytes cs
               (expectedVram + PraminStageChunk.bytes c) (expectedSource + PraminStageChunk.bytes c) h })"

definition RTXMacStagePramin ::
    "Aperture option \<Rightarrow> u64 \<Rightarrow> PraminStagePlan \<Rightarrow> byte list option \<Rightarrow> u64 \<Rightarrow> bool \<Rightarrow> history \<Rightarrow>
     (kern_return \<times> history) option" where
  "RTXMacStagePramin bar0 bar0Size stage source sourceBytes writesEnabled h =
     (if \<not> writesEnabled then Some (kIOReturnNotPermitted, h)
      else case source of None \<Rightarrow> Some (kIOReturnBadArgument, h)
      | Some src \<Rightarrow>
        if bar0 = None then Some (kIOReturnBadArgument, h)
        else let validation = ValidateStage stage sourceBytes
        in if validation \<noteq> kIOReturnSuccess then Some (validation, h)
           else RTXMacStagePramin_loop bar0 bar0Size stage src sourceBytes (chunks stage)
                  (PraminStagePlan.vramOffset stage) 0 h)"

fun RTXMacVerifyPramin_loop ::
    "Aperture option \<Rightarrow> u64 \<Rightarrow> PraminStagePlan \<Rightarrow> byte list \<Rightarrow> u64 \<Rightarrow> PraminStageChunk list \<Rightarrow> u64 \<Rightarrow> u64 \<Rightarrow>
     history \<Rightarrow> (kern_return \<times> history) option" where
  "RTXMacVerifyPramin_loop bar0 bar0Size stage expected expectedBytes [] expectedVram expectedSource h =
     Some (if expectedSource \<noteq> totalBytes stage \<or>
              expectedVram \<noteq> PraminStagePlan.vramOffset stage + totalBytes stage
           then kIOReturnBadArgument else kIOReturnSuccess, h)"
| "RTXMacVerifyPramin_loop bar0 bar0Size stage expected expectedBytes (c # cs) expectedVram expectedSource h =
     (if \<not> ValidateChunk c expectedVram expectedSource expectedBytes then Some (kIOReturnBadArgument, h)
      else let (kr, h) = WriteSelector bar0 bar0Size (windowSelector c) h
      in if kr \<noteq> kIOReturnSuccess then Some (kr, h)
      else do {
        (kr, h) \<leftarrow> CompareAperture bar0 bar0Size (bar0ApertureOffset c) expected (unat (sourceOffset c))
                   (PraminStageChunk.bytes c) h;
        if kr \<noteq> kIOReturnSuccess then Some (kr, h)
        else RTXMacVerifyPramin_loop bar0 bar0Size stage expected expectedBytes cs
               (expectedVram + PraminStageChunk.bytes c) (expectedSource + PraminStageChunk.bytes c) h })"

definition RTXMacVerifyPramin ::
    "Aperture option \<Rightarrow> u64 \<Rightarrow> PraminStagePlan \<Rightarrow> byte list option \<Rightarrow> u64 \<Rightarrow> bool \<Rightarrow> history \<Rightarrow>
     (kern_return \<times> history) option" where
  "RTXMacVerifyPramin bar0 bar0Size stage expected expectedBytes writesEnabled h =
     (if \<not> writesEnabled then Some (kIOReturnNotPermitted, h)
      else case expected of None \<Rightarrow> Some (kIOReturnBadArgument, h)
      | Some exp \<Rightarrow>
        if bar0 = None then Some (kIOReturnBadArgument, h)
        else let validation = ValidateStage stage expectedBytes
        in if validation \<noteq> kIOReturnSuccess then Some (validation, h)
           else RTXMacVerifyPramin_loop bar0 bar0Size stage exp expectedBytes (chunks stage)
                  (PraminStagePlan.vramOffset stage) 0 h)"

section \<open>Reading back and the transaction\<close>

text \<open>\<open>MapBar0ReadRange\<close> and \<open>SelectWindow\<close> of the transaction file have the text of the functions
  above.\<close>

definition MapBar0ReadRange ::
    "Aperture option \<Rightarrow> u64 \<Rightarrow> u64 \<Rightarrow> u64 \<Rightarrow> history \<Rightarrow> kern_return \<times> history" where
  "MapBar0ReadRange = MapBar0Range"

definition SelectWindow :: "Aperture option \<Rightarrow> u64 \<Rightarrow> u32 \<Rightarrow> history \<Rightarrow> kern_return \<times> history" where
  "SelectWindow = WriteSelector"

partial_function (option) ReadAperture_loop ::
    "Aperture \<Rightarrow> u32 \<Rightarrow> nat \<Rightarrow> u64 \<Rightarrow> u64 \<Rightarrow> byte list \<Rightarrow> history \<Rightarrow> (byte list \<times> history) option" where
  "ReadAperture_loop dev off base byteCount i destination h =
     (if i < byteCount
      then do {
        let (v, h) = reg_read dev (off + ucast i) h;
        destination \<leftarrow> StoreLe32 destination (base + unat i) v;
        ReadAperture_loop dev off base byteCount (i + 4) destination h }
      else Some (destination, h))"

definition ReadAperture ::
    "Aperture option \<Rightarrow> u64 \<Rightarrow> u32 \<Rightarrow> byte list \<Rightarrow> nat \<Rightarrow> u64 \<Rightarrow> history \<Rightarrow>
     (kern_return \<times> byte list \<times> history) option" where
  "ReadAperture bar0 bar0Size off destination base byteCount h =
     (if byteCount = 0 \<or> byteCount AND 3 \<noteq> 0 then Some (kIOReturnBadArgument, destination, h)
      else if CheckMmioRegionWrite apertureRules off byteCount \<noteq> RegionWriteDecision.Allowed
      then Some (kIOReturnNotPermitted, destination, h)
      else let (kr, h) = MapBar0ReadRange bar0 bar0Size (ucast off) byteCount h
      in if kr \<noteq> kIOReturnSuccess then Some (kr, destination, h)
         else case bar0 of None \<Rightarrow> Some (kr, destination, h)
         | Some dev \<Rightarrow> do {
             (destination, h) \<leftarrow> ReadAperture_loop dev off base byteCount 0 destination h;
             Some (kIOReturnSuccess, destination, h) })"

text \<open>The destination of a read is a byte list, so the null check of the destination pointer that the code makes
  first has no counterpart; the transaction tests its buffers before it reads.\<close>

fun RTXMacReadPramin_loop ::
    "Aperture option \<Rightarrow> u64 \<Rightarrow> PraminStagePlan \<Rightarrow> u64 \<Rightarrow> PraminStageChunk list \<Rightarrow> u64 \<Rightarrow> u64 \<Rightarrow> byte list \<Rightarrow>
     history \<Rightarrow> (kern_return \<times> byte list \<times> history) option" where
  "RTXMacReadPramin_loop bar0 bar0Size stage destinationBytes [] expectedVram expectedSource out h =
     Some (if expectedSource = totalBytes stage \<and>
              expectedVram = PraminStagePlan.vramOffset stage + totalBytes stage
           then kIOReturnSuccess else kIOReturnBadArgument, out, h)"
| "RTXMacReadPramin_loop bar0 bar0Size stage destinationBytes (c # cs) expectedVram expectedSource out h =
     (if \<not> ValidateChunk c expectedVram expectedSource destinationBytes
      then Some (kIOReturnBadArgument, out, h)
      else let (kr, h) = SelectWindow bar0 bar0Size (windowSelector c) h
      in if kr \<noteq> kIOReturnSuccess then Some (kr, out, h)
      else do {
        (kr, out, h) \<leftarrow> ReadAperture bar0 bar0Size (bar0ApertureOffset c) out (unat (sourceOffset c))
                   (PraminStageChunk.bytes c) h;
        if kr \<noteq> kIOReturnSuccess then Some (kr, out, h)
        else RTXMacReadPramin_loop bar0 bar0Size stage destinationBytes cs
               (expectedVram + PraminStageChunk.bytes c) (expectedSource + PraminStageChunk.bytes c) out h })"

definition RTXMacReadPramin ::
    "Aperture option \<Rightarrow> u64 \<Rightarrow> PraminStagePlan \<Rightarrow> byte list \<Rightarrow> u64 \<Rightarrow> bool \<Rightarrow> history \<Rightarrow>
     (kern_return \<times> byte list \<times> history) option" where
  "RTXMacReadPramin bar0 bar0Size stage destination destinationBytes writesEnabled h =
     (if \<not> writesEnabled then Some (kIOReturnNotPermitted, destination, h)
      else if bar0 = None \<or> \<not> PraminStagePlan.valid stage \<or> vramSize stage = 0 \<or>
              totalBytes stage = 0 \<or> chunks stage = [] \<or> destinationBytes \<noteq> totalBytes stage \<or>
              vramSize stage \<le> PraminStagePlan.vramOffset stage \<or>
              vramSize stage - PraminStagePlan.vramOffset stage < totalBytes stage
      then Some (kIOReturnBadArgument, destination, h)
      else RTXMacReadPramin_loop bar0 bar0Size stage destinationBytes (chunks stage)
             (PraminStagePlan.vramOffset stage) 0 destination h)"

definition RTXMacStagePraminTransactional ::
    "Aperture option \<Rightarrow> u64 \<Rightarrow> PraminStagePlan \<Rightarrow> byte list option \<Rightarrow> u64 \<Rightarrow> byte list option \<Rightarrow> u64 \<Rightarrow> bool \<Rightarrow>
     history \<Rightarrow> (kern_return \<times> byte list option \<times> history) option" where
  "RTXMacStagePraminTransactional bar0 bar0Size stage source sourceBytes backupStorage backupBytes
       writesEnabled h =
     (if \<not> writesEnabled then Some (kIOReturnNotPermitted, backupStorage, h)
      else if bar0 = None \<or> source = None \<or> backupStorage = None \<or> sourceBytes = 0 \<or>
              backupBytes \<noteq> sourceBytes \<or> sourceBytes \<noteq> totalBytes stage
      then Some (kIOReturnBadArgument, backupStorage, h)
      else do {
        (kr, backup, h) \<leftarrow> RTXMacReadPramin bar0 bar0Size stage (the backupStorage) backupBytes True h;
        if kr \<noteq> kIOReturnSuccess then Some (kr, Some backup, h)
        else do {
          (kr, h) \<leftarrow> RTXMacStagePramin bar0 bar0Size stage source sourceBytes True h;
          (kr, h) \<leftarrow> (if kr = kIOReturnSuccess
                     then RTXMacVerifyPramin bar0 bar0Size stage source sourceBytes True h
                     else Some (kr, h));
          if kr = kIOReturnSuccess then Some (kIOReturnSuccess, Some backup, h)
          else do {
            (rollback, h) \<leftarrow> RTXMacStagePramin bar0 bar0Size stage (Some backup) backupBytes True h;
            (rollback, h) \<leftarrow> (if rollback = kIOReturnSuccess
                     then RTXMacVerifyPramin bar0 bar0Size stage (Some backup) backupBytes True h
                     else Some (rollback, h));
            Some (if rollback = kIOReturnSuccess then kr else kIOReturnError, Some backup, h) }}})"

section \<open>The video memory behind the aperture\<close>

text \<open>
  What the executor relies on in the GPU: a store to the selector register picks the window, a
  word store through the aperture lands in the selected window, and a word load through it
  returns what is there. The state is the selector and the bytes of video memory; other
  registers do not matter.
\<close>

definition window_address :: "u32 \<Rightarrow> u32 \<Rightarrow> nat" where
  "window_address sel off = unat sel * 2 ^ 16 + (unat off - 0x700000)"

definition in_aperture :: "u32 \<Rightarrow> bool" where
  "in_aperture off \<longleftrightarrow> 0x700000 \<le> unat off \<and> unat off < 0x800000"

definition gpu_step :: "Event \<Rightarrow> u32 \<times> byte list \<Rightarrow> u32 \<times> byte list" where
  "gpu_step e g = (case g of (sel, vram) \<Rightarrow> case e of
     RegWrite off v \<Rightarrow>
       if off = kPraminWindowSelectOffset then (v, vram)
       else if in_aperture off \<and> window_address sel off + 4 \<le> length vram
       then (sel, put vram (window_address sel off) (le_bytes 4 v)) else (sel, vram)
   | _ \<Rightarrow> (sel, vram))"

definition gpu_after :: "u32 \<times> byte list \<Rightarrow> history \<Rightarrow> u32 \<times> byte list" where
  "gpu_after g h = fold gpu_step h g"

definition pramin_device :: "Aperture \<Rightarrow> u32 \<times> byte list \<Rightarrow> bool" where
  "pramin_device dev g \<longleftrightarrow> (\<forall>h off sel vram. gpu_after g h = (sel, vram) \<longrightarrow> in_aperture off \<longrightarrow>
     window_address sel off + 4 \<le> length vram \<longrightarrow> load dev h off = word_at vram (window_address sel off))"

lemma gpu_after_Nil [simp]: "gpu_after g [] = g"
  by (simp add: gpu_after_def)

lemma gpu_after_append [simp]: "gpu_after g (h @ h') = gpu_after (gpu_after g h) h'"
  by (simp add: gpu_after_def)

lemma gpu_after_Cons [simp]: "gpu_after g (e # h) = gpu_after (gpu_step e g) h"
  by (simp add: gpu_after_def)

lemma gpu_step_simps [simp]:
  "gpu_step (Mapped a n) g = g" "gpu_step (RegRead off v) g = g" "gpu_step (Sleep n) g = g"
  "gpu_step (RegWrite kPraminWindowSelectOffset v) g = (v, snd g)"
  "gpu_step (CfgRead a w) g = g" "gpu_step (CfgWrite a w) g = g" "gpu_step (DeviceReset t) g = g"
  "gpu_step (Dma d) g = g"
  by (cases g, simp add: gpu_step_def)+

lemma gpu_step_aperture:
  "in_aperture off \<Longrightarrow> window_address sel off + 4 \<le> length vram \<Longrightarrow>
    gpu_step (RegWrite off v) (sel, vram) = (sel, put vram (window_address sel off) (le_bytes 4 v))"
  by (auto simp: gpu_step_def in_aperture_def kPraminWindowSelectOffset_def)

text \<open>The executor's stores: the selector and the aperture only.\<close>

definition pramin_store :: "Event option \<Rightarrow> u32 \<Rightarrow> u32 \<Rightarrow> bool" where
  "pramin_store prev off v \<longleftrightarrow> off = kPraminWindowSelectOffset \<or> in_aperture off"

text \<open>What a step may do to the history: \<open>quiet\<close> steps map, read and select, but leave memory alone.\<close>

definition quiet :: "history \<Rightarrow> history \<Rightarrow> bool" where
  "quiet h h' \<longleftrightarrow> extends pramin_store h h' 0 \<and> (\<forall>g. snd (gpu_after g h') = snd (gpu_after g h))"

lemma quiet_vram: "quiet h h' \<Longrightarrow> snd (gpu_after g h') = snd (gpu_after g h)"
  unfolding quiet_def by blast

lemma quiet_refl [simp]: "quiet h h"
  by (simp add: quiet_def)

lemma quiet_trans: "quiet h h1 \<Longrightarrow> quiet h1 h2 \<Longrightarrow> quiet h h2"
  using extends_trans [of pramin_store h h1 0 h2 0] by (auto simp: quiet_def)

lemma quiet_read [simp]: "quiet h (h @ [RegRead off v])"
  by (simp add: quiet_def)

lemma quiet_map [simp]: "quiet h (h @ [Mapped a n])"
  by (simp add: quiet_def)

lemma quiet_select: "quiet h (h @ [RegWrite kPraminWindowSelectOffset v])"
  using extends_event [where e = "RegWrite kPraminWindowSelectOffset v" and P = pramin_store and h = h]
  by (simp add: quiet_def pramin_store_def)

lemma MapBar0Range_cases:
  assumes "MapBar0Range bar0 bar0Size off n h = (kr, h')"
  shows "quiet h h' \<and> (\<forall>g. gpu_after g h' = gpu_after g h)"
  using assms by (auto simp: MapBar0Range_def Let_def split: option.splits if_splits prod.splits)

lemma WriteSelector_cases:
  assumes "WriteSelector bar0 bar0Size v h = (kr, h')"
  shows "quiet h h'" and "kr = kIOReturnSuccess \<Longrightarrow> bar0 \<noteq> None \<Longrightarrow> gpu_after g h' = (v, snd (gpu_after g h))"
proof -
  obtain k h1 where m: "MapBar0Range bar0 bar0Size (ucast kPraminWindowSelectOffset) 4 h = (k, h1)" by force
  note q = MapBar0Range_cases [OF m]
  have res: "h' = h1 \<and> kr \<noteq> kIOReturnSuccess \<or> bar0 = None \<and> h' = h1 \<or>
      (\<exists>w. h' = (h1 @ [RegWrite kPraminWindowSelectOffset v]) @ [RegRead kPraminWindowSelectOffset w])"
    using assms m by (auto simp: WriteSelector_def selector_write_allowed reg_read_def reg_write_def Let_def
        split: option.splits if_splits)
  have "quiet h1 ((h1 @ [RegWrite kPraminWindowSelectOffset v]) @ [RegRead kPraminWindowSelectOffset w])" for w
    by (rule quiet_trans [OF quiet_select quiet_read])
  then show "quiet h h'" using res q quiet_trans by blast
  show "kr = kIOReturnSuccess \<Longrightarrow> bar0 \<noteq> None \<Longrightarrow> gpu_after g h' = (v, snd (gpu_after g h))"
    using res q by (cases g) auto
qed

section \<open>The word loops\<close>

text \<open>The words of a chunk, from word \<open>j\<close> on.\<close>

definition chunk_words :: "u32 \<Rightarrow> byte list \<Rightarrow> nat \<Rightarrow> nat \<Rightarrow> nat \<Rightarrow> history" where
  "chunk_words off source base j m =
     map (\<lambda>k. RegWrite (off + of_nat (4 * k)) (word_at source (base + 4 * k))) [j ..< m]"

lemma word_index:
  assumes "unat (i :: u64) = 4 * j" and "4 * m = unat (n :: u64)" and "j < m"
  shows "i < n" and "unat (i + 4) = 4 * Suc j" and "(ucast i :: u32) = of_nat (4 * j)"
proof -
  show lt: "i < n" using assms by (simp add: word_less_nat_alt)
  have "4 * Suc j \<le> unat n" using assms by simp
  then show "unat (i + 4) = 4 * Suc j" using assms(1) unat_lt(4) [of n] by (subst unat_add_nowrap) simp_all
  have "(ucast i :: u32) = of_nat (unat i)" by (rule bit_word_eqI) (simp add: bit_simps)
  then show "(ucast i :: u32) = of_nat (4 * j)" using assms(1) by simp
qed

lemma WriteAperture_loop_eq:
  assumes "4 * m = unat n" and "base + 4 * m \<le> length source" and "j \<le> m" and "unat i = 4 * j"
  shows "WriteAperture_loop off source base n i h = Some (h @ chunk_words off source base j m)"
  using assms(3,4)
proof (induction "m - j" arbitrary: j i h)
  case 0
  then have "\<not> i < n" using assms(1) by (simp add: word_less_nat_alt)
  then show ?case using 0 by (subst WriteAperture_loop.simps) (simp add: chunk_words_def)
next
  case (Suc d)
  then have j: "j < m" by simp
  note w = word_index [OF Suc.prems(2) assms(1) j]
  have load: "LoadLe32 source (base + unat i) = Some (word_at source (base + 4 * j))"
    using j assms(2) Suc.prems(2) by (simp add: LoadLe_at)
  have "WriteAperture_loop off source base n (i + 4) (reg_write (off + ucast i) (word_at source (base + 4 * j)) h) =
      Some (reg_write (off + ucast i) (word_at source (base + 4 * j)) h @ chunk_words off source base (Suc j) m)"
    using Suc.hyps j w(2) by (intro Suc.hyps(1)) auto
  then show ?case
    using w load j by (subst WriteAperture_loop.simps)
      (simp add: chunk_words_def upt_rec [of j] reg_write_def)
qed

text \<open>Where the words of a well-formed chunk lie.\<close>

lemma chunk_address:
  assumes "chunk_ok c" and "4 * k < unat (PraminStageChunk.bytes c)"
  shows "in_aperture (bar0ApertureOffset c + of_nat (4 * k))"
    and "window_address (windowSelector c) (bar0ApertureOffset c + of_nat (4 * k)) =
      unat (PraminStageChunk.vramOffset c) + 4 * k"
proof -
  let ?v = "unat (PraminStageChunk.vramOffset c)"
  define q r where "q = ?v div 2 ^ 20" and "r = ?v mod 2 ^ 20"
  have v: "?v = q * 2 ^ 20 + r" and r: "r < 2 ^ 20" by (simp_all add: q_def r_def)
  have "?v - ?v mod 2 ^ 20 = q * 2 ^ 20" by (simp add: q_def minus_mod_eq_div_mult)
  then have sel: "unat (windowSelector c) = q * 2 ^ 20 div 2 ^ 16"
    and ap: "unat (bar0ApertureOffset c) = 0x700000 + r"
    and n: "unat (PraminStageChunk.bytes c) \<le> 2 ^ 20 - r"
    using assms(1) by (simp_all only: chunk_ok_def Let_def r_def)
  have k: "4 * k < 2 ^ 20 - r" using assms(2) n by linarith
  then have "unat (of_nat (4 * k) :: u32) = 4 * k" by (intro unat_of_nat_small) simp
  then have off: "unat (bar0ApertureOffset c + of_nat (4 * k)) = 0x700000 + r + 4 * k"
    using ap k r by (subst unat_add_nowrap) simp_all
  show "in_aperture (bar0ApertureOffset c + of_nat (4 * k))" unfolding in_aperture_def off using k by simp
  show "window_address (windowSelector c) (bar0ApertureOffset c + of_nat (4 * k)) = ?v + 4 * k"
    unfolding window_address_def off sel using v by simp
qed

lemma bit_le_join:
  "bit (le_join bs :: 'a::len word) k \<longleftrightarrow> k < LENGTH('a) \<and> k div 8 < length bs \<and> bit (bs ! (k div 8)) (k mod 8)"
proof (induction bs arbitrary: k)
  case (Cons b bs)
  show ?case
  proof (cases "k < 8")
    case True
    then show ?thesis by (auto simp: bit_simps)
  next
    case False
    then have "\<not> bit b k" using bit_imp_le_length [of b k] by auto
    then show ?thesis using False Cons.IH [of "k - 8"] by (auto simp: bit_simps le_div_geq le_mod_geq)
  qed
qed simp

lemma le_bytes_le_join:
  assumes "8 * length bs \<le> LENGTH('a)"
  shows "le_bytes (length bs) (le_join bs :: 'a::len word) = bs"
proof (rule nth_equalityI)
  fix i
  assume "i < length (le_bytes (length bs) (le_join bs :: 'a word))"
  then have i: "i < length bs" by simp
  show "le_bytes (length bs) (le_join bs :: 'a word) ! i = bs ! i"
  proof (rule bit_word_eqI)
    fix n
    assume "n < LENGTH(8)"
    then have n: "n < 8" by simp
    then have "(8 * i + n) div 8 = i" "(8 * i + n) mod 8 = n" "8 * i + n < LENGTH('a)" using i assms by simp_all
    then show "bit (le_bytes (length bs) (le_join bs :: 'a word) ! i) n = bit (bs ! i) n"
      using i n by (simp add: le_bytes_nth bit_simps bit_le_join)
  qed
qed simp

lemma le_bytes_word_at: "p + 4 \<le> length xs \<Longrightarrow> le_bytes 4 (word_at xs p) = slice xs p 4"
  using le_bytes_le_join [of "slice xs p 4", where 'a = 32] by (simp add: word_at_def)

lemma extends_stores:
  "\<forall>e \<in> set es. \<exists>off v. e = RegWrite off v \<and> in_aperture off \<Longrightarrow> extends pramin_store h (h @ es) 0"
proof (induction es rule: rev_induct)
  case (snoc e es)
  then obtain off v where e: "e = RegWrite off v" "in_aperture off" by auto
  have "extends pramin_store (h @ es) ((h @ es) @ [e]) 0"
    using extends_event [where e = e and P = pramin_store and h = "h @ es"] e by (simp add: pramin_store_def)
  moreover have "extends pramin_store h (h @ es) 0" using snoc by simp
  ultimately show ?case using extends_trans [of pramin_store h "h @ es" 0 "h @ es @ [e]" 0] by simp
qed simp

lemma chunk_words_extends:
  assumes "chunk_ok c" and "4 * m = unat (PraminStageChunk.bytes c)"
  shows "extends pramin_store h (h @ chunk_words (bar0ApertureOffset c) source base 0 m) 0"
proof (rule extends_stores, rule ballI)
  fix e
  assume "e \<in> set (chunk_words (bar0ApertureOffset c) source base 0 m)"
  then obtain k where "k < m" and e: "e = RegWrite (bar0ApertureOffset c + of_nat (4 * k)) (word_at source (base + 4 * k))"
    by (auto simp: chunk_words_def)
  then have "4 * k < unat (PraminStageChunk.bytes c)" using assms(2) by simp
  from chunk_address(1) [OF assms(1) this] e
  show "\<exists>off v. e = RegWrite off v \<and> in_aperture off" by blast
qed

lemma chunk_words_gpu:
  assumes ok: "chunk_ok c" and m: "4 * m = unat (PraminStageChunk.bytes c)"
    and src: "base + 4 * m \<le> length source"
    and "j \<le> m" and "unat (PraminStageChunk.vramOffset c) + 4 * m \<le> length vram"
  shows "gpu_after (windowSelector c, vram) (chunk_words (bar0ApertureOffset c) source base j m) =
    (windowSelector c, put vram (unat (PraminStageChunk.vramOffset c) + 4 * j)
      (slice source (base + 4 * j) (4 * (m - j))))"
  using assms(4,5)
proof (induction "m - j" arbitrary: j vram)
  case 0
  then show ?case by (simp add: chunk_words_def slice_def)
next
  case (Suc d)
  let ?a = "unat (PraminStageChunk.vramOffset c)"
  let ?w = "word_at source (base + 4 * j)"
  have j: "j < m" using Suc.hyps(2) by simp
  then have k: "4 * j < unat (PraminStageChunk.bytes c)" using m by simp
  have w: "le_bytes 4 ?w = slice source (base + 4 * j) 4" using src j by (intro le_bytes_word_at) simp
  let ?vram = "put vram (?a + 4 * j) (slice source (base + 4 * j) 4)"
  have step: "gpu_step (RegWrite (bar0ApertureOffset c + of_nat (4 * j)) ?w) (windowSelector c, vram) =
      (windowSelector c, ?vram)"
    using gpu_step_aperture [OF chunk_address(1) [OF ok k], of "windowSelector c" vram ?w] Suc.prems(2) j
    unfolding chunk_address(2) [OF ok k] w by simp
  have len: "length ?vram = length vram" using Suc.prems(2) src j by simp
  have "gpu_after (windowSelector c, ?vram) (chunk_words (bar0ApertureOffset c) source base (Suc j) m) =
      (windowSelector c, put ?vram (?a + 4 * Suc j) (slice source (base + 4 * Suc j) (4 * (m - Suc j))))"
    using Suc.hyps Suc.prems(2) j len by (intro Suc.hyps(1)) auto
  moreover have "put ?vram (?a + 4 * Suc j) (slice source (base + 4 * Suc j) (4 * (m - Suc j))) =
      put vram (?a + 4 * j) (slice source (base + 4 * j) (4 * (m - j)))"
  proof -
    have "?vram = put vram (?a + 4 * j) (slice source (base + 4 * j) 4)" by simp
    moreover have "put ?vram (?a + 4 * j + 4) (slice source (base + 4 * j + 4) (4 * (m - Suc j))) =
        put vram (?a + 4 * j) (slice source (base + 4 * j) 4 @ slice source (base + 4 * j + 4) (4 * (m - Suc j)))"
      using put_put_adjacent [of "?a + 4 * j" "slice source (base + 4 * j) 4"
          "slice source (base + 4 * j + 4) (4 * (m - Suc j))" vram] src j Suc.prems(2) by simp
    moreover have "4 + 4 * (m - Suc j) = 4 * (m - j)" using j by simp
    ultimately show ?thesis
      using slice_append [of source "base + 4 * j" 4 "4 * (m - Suc j)"] by (simp add: ac_simps)
  qed
  moreover have "chunk_words (bar0ApertureOffset c) source base j m =
      RegWrite (bar0ApertureOffset c + of_nat (4 * j)) ?w # chunk_words (bar0ApertureOffset c) source base (Suc j) m"
    using j by (simp add: chunk_words_def upt_rec [of j])
  ultimately show ?case by (simp only: gpu_after_Cons step)
qed

text \<open>The comparison and the read-back, word by word: both are quiet.\<close>

lemma quiet_gpu_read:
  "quiet h (h @ [RegRead off v]) \<and> (\<forall>g. gpu_after g (h @ [RegRead off v]) = gpu_after g h)"
  by simp

definition same_words :: "byte list \<Rightarrow> nat \<Rightarrow> byte list \<Rightarrow> nat \<Rightarrow> nat \<Rightarrow> nat \<Rightarrow> bool" where
  "same_words xs a ys b j m \<longleftrightarrow> (\<forall>k. j \<le> k \<longrightarrow> k < m \<longrightarrow> word_at xs (a + 4 * k) = word_at ys (b + 4 * k))"

lemma same_words_step: "j < m \<Longrightarrow>
    same_words xs a ys b j m \<longleftrightarrow> word_at xs (a + 4 * j) = word_at ys (b + 4 * j) \<and> same_words xs a ys b (Suc j) m"
  by (auto simp: same_words_def dest: Suc_leI) (metis Suc_leI le_neq_implies_less)

lemma same_words_slice:
  assumes "a + 4 * m \<le> length xs" and "b + 4 * m \<le> length ys" and "same_words xs a ys b 0 m"
  shows "slice xs a (4 * m) = slice ys b (4 * m)"
  using assms
proof (induction m)
  case (Suc m)
  have "same_words xs a ys b 0 m" "word_at xs (a + 4 * m) = word_at ys (b + 4 * m)"
    using Suc.prems(3) by (simp_all add: same_words_def)
  then have "slice xs a (4 * m) = slice ys b (4 * m)" "slice xs (a + 4 * m) 4 = slice ys (b + 4 * m) 4"
    using Suc.IH Suc.prems(1,2) le_bytes_word_at [of "a + 4 * m" xs] le_bytes_word_at [of "b + 4 * m" ys] by auto
  then have "slice xs a (4 * m) @ slice xs (a + 4 * m) 4 = slice ys b (4 * m) @ slice ys (b + 4 * m) 4" by simp
  then show ?case by (simp only: slice_append) (simp add: add.commute)
qed (simp add: slice_def)

lemma slice_slice: "p + k \<le> n \<Longrightarrow> slice (slice xs c n) p k = slice xs (c + p) k"
  by (simp add: slice_def drop_take min_def add.commute)

lemma slice_same_words:
  assumes "slice xs a (4 * m) = slice ys b (4 * m)"
  shows "same_words xs a ys b 0 m"
  unfolding same_words_def
proof (intro allI impI)
  fix k
  assume "k < m"
  then have "4 * k + 4 \<le> 4 * m" by simp
  from slice_slice [OF this] show "word_at xs (a + 4 * k) = word_at ys (b + 4 * k)"
    using assms unfolding word_at_def by metis
qed

text \<open>What the device shows through the window of a chunk.\<close>

definition window_view :: "Aperture \<Rightarrow> history \<Rightarrow> PraminStageChunk \<Rightarrow> byte list \<Rightarrow> bool" where
  "window_view dev h c vram \<longleftrightarrow> (\<exists>g. pramin_device dev g \<and> gpu_after g h = (windowSelector c, vram)) \<and>
     unat (PraminStageChunk.vramOffset c) + unat (PraminStageChunk.bytes c) \<le> length vram"

lemma window_view_read [simp]: "window_view dev (h @ [RegRead off v]) c vram = window_view dev h c vram"
  by (simp add: window_view_def)

lemma device_word:
  assumes "window_view dev h c vram" and "chunk_ok c"
    and "4 * m = unat (PraminStageChunk.bytes c)" and "k < m"
  shows "load dev h (bar0ApertureOffset c + of_nat (4 * k)) =
    word_at vram (unat (PraminStageChunk.vramOffset c) + 4 * k)"
proof -
  have k: "4 * k < unat (PraminStageChunk.bytes c)" using assms(3,4) by simp
  note a = chunk_address [OF assms(2) k]
  obtain g where g: "pramin_device dev g" "gpu_after g h = (windowSelector c, vram)"
    using assms(1) by (auto simp: window_view_def)
  have "unat (PraminStageChunk.vramOffset c) + 4 * k + 4 \<le> length vram"
    using assms(1,3,4) by (auto simp: window_view_def)
  then show ?thesis using g a unfolding pramin_device_def by metis
qed

lemma CompareAperture_loop_cases:
  assumes ok: "chunk_ok c" and m: "4 * m = unat (PraminStageChunk.bytes c)"
    and e: "base + 4 * m \<le> length expected" and "j \<le> m" and "unat i = 4 * j"
  shows "\<exists>kr h'. CompareAperture_loop dev (bar0ApertureOffset c) expected base (PraminStageChunk.bytes c) i h =
      Some (kr, h') \<and> quiet h h' \<and>
    (\<forall>vram. window_view dev h c vram \<longrightarrow>
      (kr = kIOReturnSuccess \<longleftrightarrow> same_words vram (unat (PraminStageChunk.vramOffset c)) expected base j m))"
  using assms(4,5)
proof (induction "m - j" arbitrary: j i h)
  case 0
  then have "\<not> i < PraminStageChunk.bytes c" "m \<le> j" using m by (simp_all add: word_less_nat_alt)
  then show ?case by (subst CompareAperture_loop.simps) (simp add: same_words_def)
next
  case (Suc d)
  then have j: "j < m" by simp
  note w = word_index [OF Suc.prems(2) m j]
  have lde: "LoadLe32 expected (base + unat i) = Some (word_at expected (base + 4 * j))"
    using j e Suc.prems(2) by (simp add: LoadLe_at)
  let ?off = "bar0ApertureOffset c + ucast i"
  let ?v = "load dev h ?off"
  let ?h = "h @ [RegRead ?off ?v]"
  have eq: "CompareAperture_loop dev (bar0ApertureOffset c) expected base (PraminStageChunk.bytes c) i h =
      (if ?v \<noteq> word_at expected (base + 4 * j) then Some (kIOReturnIOError, ?h)
       else CompareAperture_loop dev (bar0ApertureOffset c) expected base (PraminStageChunk.bytes c) (i + 4) ?h)"
    using w(1) lde by (subst CompareAperture_loop.simps) (simp add: reg_read_def Let_def)
  have word: "window_view dev h c vram \<Longrightarrow> ?v = word_at vram (unat (PraminStageChunk.vramOffset c) + 4 * j)" for vram
    using device_word [OF _ ok m j] w(3) by simp
  show ?case
  proof (cases "?v = word_at expected (base + 4 * j)")
    case False
    then have "\<not> same_words vram (unat (PraminStageChunk.vramOffset c)) expected base j m"
      if "window_view dev h c vram" for vram using word [OF that] same_words_step [OF j] by simp
    then show ?thesis unfolding eq using False by simp
  next
    case True
    have "d = m - Suc j" "Suc j \<le> m" using Suc.hyps(2) j by simp_all
    from Suc.hyps(1) [OF this w(2), of ?h] obtain kr h' where
      IH: "CompareAperture_loop dev (bar0ApertureOffset c) expected base (PraminStageChunk.bytes c) (i + 4) ?h =
        Some (kr, h')" "quiet ?h h'"
      "\<And>vram. window_view dev h c vram \<Longrightarrow>
        (kr = kIOReturnSuccess \<longleftrightarrow> same_words vram (unat (PraminStageChunk.vramOffset c)) expected base (Suc j) m)"
      by (simp only: window_view_read) blast
    have "kr = kIOReturnSuccess \<longleftrightarrow> same_words vram (unat (PraminStageChunk.vramOffset c)) expected base j m"
      if "window_view dev h c vram" for vram
      using IH(3) [OF that] word [OF that] True same_words_step [OF j] by simp
    moreover have "quiet h h'" by (rule quiet_trans [OF quiet_read IH(2)])
    ultimately show ?thesis unfolding eq using True IH(1) by simp
  qed
qed

lemma ReadAperture_loop_cases:
  assumes ok: "chunk_ok c" and m: "4 * m = unat (PraminStageChunk.bytes c)"
    and "base + 4 * m \<le> length destination" and "j \<le> m" and "unat i = 4 * j"
  shows "\<exists>dst h'. ReadAperture_loop dev (bar0ApertureOffset c) base (PraminStageChunk.bytes c) i destination h =
      Some (dst, h') \<and> quiet h h' \<and> length dst = length destination \<and>
    (\<forall>vram. window_view dev h c vram \<longrightarrow> dst = put destination (base + 4 * j)
        (slice vram (unat (PraminStageChunk.vramOffset c) + 4 * j) (4 * (m - j))))"
  using assms(3,4,5)
proof (induction "m - j" arbitrary: j i h destination)
  case 0
  then have "\<not> i < PraminStageChunk.bytes c" "m \<le> j" using m by (simp_all add: word_less_nat_alt)
  then show ?case by (subst ReadAperture_loop.simps) (simp add: slice_def)
next
  case (Suc d)
  then have j: "j < m" by simp
  note w = word_index [OF Suc.prems(3) m j]
  let ?a = "unat (PraminStageChunk.vramOffset c)"
  let ?off = "bar0ApertureOffset c + ucast i"
  let ?v = "load dev h ?off"
  let ?h = "h @ [RegRead ?off ?v]" and ?dst = "put destination (base + 4 * j) (le_bytes 4 ?v)"
  have eq: "ReadAperture_loop dev (bar0ApertureOffset c) base (PraminStageChunk.bytes c) i destination h =
      ReadAperture_loop dev (bar0ApertureOffset c) base (PraminStageChunk.bytes c) (i + 4) ?dst ?h"
    using w(1) j Suc.prems(1,3) by (subst ReadAperture_loop.simps) (simp add: reg_read_def Let_def StoreLe_eq)
  have len: "length ?dst = length destination" using j Suc.prems(1) by simp
  have "d = m - Suc j" "Suc j \<le> m" "base + 4 * m \<le> length ?dst" using Suc.hyps(2) Suc.prems(1) j len by simp_all
  from Suc.hyps(1) [OF this(1,3,2) w(2), of ?h] obtain dst h' where
    IH: "ReadAperture_loop dev (bar0ApertureOffset c) base (PraminStageChunk.bytes c) (i + 4) ?dst ?h = Some (dst, h')"
      "quiet ?h h'" "length dst = length ?dst"
      "\<And>vram. window_view dev h c vram \<Longrightarrow>
        dst = put ?dst (base + 4 * Suc j) (slice vram (?a + 4 * Suc j) (4 * (m - Suc j)))"
    by (simp only: window_view_read) blast
  have "dst = put destination (base + 4 * j) (slice vram (?a + 4 * j) (4 * (m - j)))"
    if view: "window_view dev h c vram" for vram
  proof -
    have room: "?a + 4 * m \<le> length vram" using view m by (simp add: window_view_def)
    have "?v = word_at vram (?a + 4 * j)" using device_word [OF view ok m j] w(3) by simp
    then have v: "le_bytes 4 ?v = slice vram (?a + 4 * j) 4" using room j by (simp add: le_bytes_word_at)
    have "dst = put ?dst (base + 4 * j + 4) (slice vram (?a + 4 * j + 4) (4 * (m - Suc j)))"
      using IH(4) [OF view] by (simp add: ac_simps)
    also have "\<dots> = put destination (base + 4 * j) (slice vram (?a + 4 * j) 4 @ slice vram (?a + 4 * j + 4) (4 * (m - Suc j)))"
      using put_put_adjacent [of "base + 4 * j" "slice vram (?a + 4 * j) 4" "slice vram (?a + 4 * j + 4) (4 * (m - Suc j))" destination]
        v j room Suc.prems(1) by simp
    also have "slice vram (?a + 4 * j) 4 @ slice vram (?a + 4 * j + 4) (4 * (m - Suc j)) =
        slice vram (?a + 4 * j) (4 + 4 * (m - Suc j))" by (rule slice_append)
    also have "4 + 4 * (m - Suc j) = 4 * (m - j)" using j by simp
    finally show ?thesis .
  qed
  moreover have "quiet h h'" by (rule quiet_trans [OF quiet_read IH(2)])
  ultimately show ?case unfolding eq using IH(1,3) len by simp
qed

section \<open>Chunks\<close>

lemma and_3_iff: "n AND 3 = 0 \<longleftrightarrow> 4 dvd unat (n :: u64)"
  using and_mask_zero_iff [of n 2] by (simp add: mask_eq_exp_minus_1)

lemma ValidateChunk_iff:
  "ValidateChunk c ev es tot \<longleftrightarrow> PraminStageChunk.vramOffset c = ev \<and> sourceOffset c = es \<and> chunk_ok c \<and>
    4 dvd unat (PraminStageChunk.bytes c) \<and> unat (sourceOffset c) + unat (PraminStageChunk.bytes c) \<le> unat tot"
proof (cases "PraminStageChunk.bytes c = 0")
  case True
  then show ?thesis by (simp add: ValidateChunk_def chunk_ok_def Let_def)
next
  case False
  have "\<not> (tot < sourceOffset c \<or> tot - sourceOffset c < PraminStageChunk.bytes c) \<longleftrightarrow>
      unat (sourceOffset c) + unat (PraminStageChunk.bytes c) \<le> unat tot"
    using sub_less_iff [of "sourceOffset c" tot "PraminStageChunk.bytes c"]
    by (cases "tot < sourceOffset c") (auto simp: word_less_nat_alt word_le_nat_alt not_less)
  then show ?thesis
    using chunk_check_iff [OF False refl] False
    unfolding ValidateChunk_def Let_def and_3_iff not_less [symmetric] by argo
qed

definition maps_ok :: "Aperture \<Rightarrow> u64 \<Rightarrow> bool" where
  "maps_ok dev bar0Size \<longleftrightarrow> 0x800000 \<le> unat bar0Size \<and>
     (\<forall>h off n. \<exists>a. CreateMapping dev h off n = (kIOReturnSuccess, Some a) \<and> a \<noteq> 0)"

lemma page_round:
  fixes x :: u64
  shows "unat (x AND NOT (kPageBytes - 1)) = unat x div 4096 * 4096"
    and "unat (x - (x AND NOT (kPageBytes - 1))) = unat x mod 4096"
proof -
  have m: "kPageBytes - 1 = mask 12" by (simp add: kPageBytes_def mask_eq_exp_minus_1)
  show page: "unat (x AND NOT (kPageBytes - 1)) = unat x div 4096 * 4096"
    unfolding m unat_and_not_mask by (simp add: minus_mod_eq_div_mult)
  have "x AND NOT (kPageBytes - 1) \<le> x" by (rule word_and_le2)
  then have "unat (x - (x AND NOT (kPageBytes - 1))) = unat x - unat x div 4096 * 4096"
    by (simp only: unat_sub page)
  then show "unat (x - (x AND NOT (kPageBytes - 1))) = unat x mod 4096" by (simp add: minus_div_mult_eq_mod)
qed

text \<open>Any range below the end of the aperture can be mapped on such a device: the pages it
  touches lie in BAR0.\<close>

lemma MapBar0Range_ok:
  assumes "maps_ok dev bar0Size" and "n \<noteq> 0" and fit: "unat off + unat n \<le> 0x800000"
  shows "fst (MapBar0Range (Some dev) bar0Size off n h) = kIOReturnSuccess"
proof -
  let ?page = "off AND NOT (kPageBytes - 1)"
  let ?needed = "off - ?page + n"
  let ?len = "(?needed + kPageBytes - 1) AND NOT (kPageBytes - 1)"
  note page = page_round [of off]
  have size: "0x800000 \<le> unat bar0Size" using assms(1) by (simp add: maps_ok_def)
  have n0: "0 < unat n" using assms(2) by (simp add: unat_gt_0)
  have g1: "\<not> (bar0Size \<le> off \<or> bar0Size - off < n)"
  proof -
    have "off < bar0Size" using fit size n0 by (simp add: word_less_nat_alt)
    then show ?thesis using sub_less_iff [of off bar0Size n] fit size by (simp add: not_le)
  qed
  have "unat (n - 1) = unat n - 1" using n0 by (simp add: unat_minus_one assms(2))
  then have g2: "\<not> - 1 - (n - 1) < off" using fit unfolding add_guard64 by simp
  have r: "unat off mod 4096 < 4096" by simp
  have needed: "unat ?needed = unat off mod 4096 + unat n"
    using page fit r by (subst unat_add_nowrap) simp_all
  have g3: "\<not> - 1 - (kPageBytes - 1) < ?needed"
    unfolding add_guard64 using needed fit r by (simp add: kPageBytes_def)
  have "unat (?needed + kPageBytes) = unat off mod 4096 + unat n + 4096"
    using needed fit r by (subst unat_add_nowrap) (simp_all add: kPageBytes_def)
  moreover have "?needed + kPageBytes \<noteq> 0" using calculation by (auto simp: unat_gt_0 [symmetric])
  ultimately have up: "unat (?needed + kPageBytes - 1) = unat off mod 4096 + unat n + 4095"
    by (simp add: unat_minus_one)
  define q where "q = unat off div 4096"
  have len: "unat ?len = (unat off mod 4096 + unat n + 4095) div 4096 * 4096"
    using page_round(1) [of "?needed + kPageBytes - 1"] up by simp
  have split: "unat off = q * 4096 + unat off mod 4096" by (simp add: q_def)
  have "(unat off mod 4096 + unat n + 4095) div 4096 * 4096 + q * 4096 \<le> 0x800000"
  proof -
    have "q * 4096 + (unat off mod 4096 + unat n) \<le> 2048 * 4096" using fit split by linarith
    then have "unat off mod 4096 + unat n \<le> (2048 - q) * 4096" "q \<le> 2048" by (simp_all add: left_diff_distrib')
    then have "(unat off mod 4096 + unat n + 4095) div 4096 \<le> 2048 - q" by simp
    then have "(unat off mod 4096 + unat n + 4095) div 4096 * 4096 \<le> (2048 - q) * 4096" by (rule mult_le_mono1)
    then show ?thesis using \<open>q \<le> 2048\<close> by simp
  qed
  then have end_le: "unat ?page + unat ?len \<le> unat bar0Size" using page(1) len size by (simp add: q_def)
  have len0: "0 < unat ?len" unfolding len using n0 by (simp add: div_greater_zero_iff)
  have g4: "\<not> (bar0Size \<le> ?page \<or> bar0Size - ?page < ?len)"
  proof -
    have "?page < bar0Size" using end_le len0 by (simp only: word_less_nat_alt)
    then show ?thesis using sub_less_iff [of ?page bar0Size ?len] end_le by (simp add: not_le)
  qed
  obtain a where "CreateMapping dev h ?page ?len = (kIOReturnSuccess, Some a)" "a \<noteq> 0"
    using assms(1) unfolding maps_ok_def by blast
  then show ?thesis
    unfolding MapBar0Range_def Let_def option.case if_not_P [OF assms(2)] if_not_P [OF g1] if_not_P [OF g2]
      if_not_P [OF g3] if_not_P [OF g4] by simp
qed

text \<open>The three chunk operations on a well-formed chunk.\<close>

lemma aperture_unaligned:
  assumes "chunk_ok c" and "4 dvd unat (PraminStageChunk.bytes c)"
  shows "\<not> (PraminStageChunk.bytes c = 0 \<or> PraminStageChunk.bytes c AND 3 \<noteq> 0)"
  using assms by (simp add: and_3_iff chunk_ok_def Let_def)

lemma aperture_map_ok:
  assumes "maps_ok dev bar0Size" and "chunk_ok c"
  shows "fst (MapBar0Range (Some dev) bar0Size (ucast (bar0ApertureOffset c)) (PraminStageChunk.bytes c) h) =
    kIOReturnSuccess"
proof (rule MapBar0Range_ok [OF assms(1)])
  let ?r = "unat (PraminStageChunk.vramOffset c) mod 2 ^ 20"
  have "?r < 2 ^ 20" by simp
  moreover have "unat (bar0ApertureOffset c) = 0x700000 + ?r" "unat (PraminStageChunk.bytes c) \<le> 2 ^ 20 - ?r"
    using assms(2) unfolding chunk_ok_def Let_def by blast+
  ultimately show "unat (ucast (bar0ApertureOffset c) :: u64) + unat (PraminStageChunk.bytes c) \<le> 0x800000"
    unfolding unat_ucast_simps by simp
  show "PraminStageChunk.bytes c \<noteq> 0" using assms(2) by (simp add: chunk_ok_def Let_def)
qed

lemma WriteAperture_cases:
  assumes ok: "chunk_ok c" and n4: "4 dvd unat (PraminStageChunk.bytes c)"
    and src: "base + unat (PraminStageChunk.bytes c) \<le> length source"
  shows "\<exists>kr h'. WriteAperture (Some dev) bar0Size (bar0ApertureOffset c) source base (PraminStageChunk.bytes c) h =
      Some (kr, h') \<and> extends pramin_store h h' 0 \<and> (kr \<noteq> kIOReturnSuccess \<longrightarrow> quiet h h') \<and>
    (kr = kIOReturnSuccess \<longrightarrow> (\<forall>g vram. gpu_after g h = (windowSelector c, vram) \<longrightarrow>
      unat (PraminStageChunk.vramOffset c) + unat (PraminStageChunk.bytes c) \<le> length vram \<longrightarrow>
      snd (gpu_after g h') = put vram (unat (PraminStageChunk.vramOffset c))
        (slice source base (unat (PraminStageChunk.bytes c))))) \<and>
    (maps_ok dev bar0Size \<longrightarrow> 4 dvd unat (PraminStageChunk.vramOffset c) \<longrightarrow> kr = kIOReturnSuccess)"
proof (cases "4 dvd unat (PraminStageChunk.vramOffset c)")
  case False
  then show ?thesis
    using aperture_region_allowed [OF ok n4] aperture_unaligned [OF ok n4] by (simp add: WriteAperture_def)
next
  case True
  obtain m where m: "4 * m = unat (PraminStageChunk.bytes c)" using n4 by (auto elim: dvdE)
  obtain k h1 where map: "MapBar0Range (Some dev) bar0Size (ucast (bar0ApertureOffset c)) (PraminStageChunk.bytes c) h =
    (k, h1)" by force
  note q = MapBar0Range_cases [OF map]
  have eq: "WriteAperture (Some dev) bar0Size (bar0ApertureOffset c) source base (PraminStageChunk.bytes c) h =
      (if k \<noteq> kIOReturnSuccess then Some (k, h1)
       else do { h' \<leftarrow> WriteAperture_loop (bar0ApertureOffset c) source base (PraminStageChunk.bytes c) 0 h1;
         let (flush, h') = reg_read dev (bar0ApertureOffset c + ucast (PraminStageChunk.bytes c - 4)) h';
         Some (kIOReturnSuccess, h') })"
    using aperture_region_allowed [OF ok n4] aperture_unaligned [OF ok n4] True map
    by (simp add: WriteAperture_def)
  show ?thesis
  proof (cases "k = kIOReturnSuccess")
    case False
    then show ?thesis unfolding eq using q aperture_map_ok [OF _ ok, of dev bar0Size h] map
      by (auto simp: quiet_def)
  next
    case ksucc: True
    let ?ws = "chunk_words (bar0ApertureOffset c) source base 0 m"
    let ?off = "bar0ApertureOffset c + ucast (PraminStageChunk.bytes c - 4)"
    let ?h' = "(h1 @ ?ws) @ [RegRead ?off (load dev (h1 @ ?ws) ?off)]"
    have "WriteAperture_loop (bar0ApertureOffset c) source base (PraminStageChunk.bytes c) 0 h1 = Some (h1 @ ?ws)"
      using WriteAperture_loop_eq [OF m, of base source 0 0] src m by simp
    then have run: "WriteAperture (Some dev) bar0Size (bar0ApertureOffset c) source base (PraminStageChunk.bytes c) h =
        Some (kIOReturnSuccess, ?h')"
      unfolding eq using ksucc by (simp add: reg_read_def Let_def)
    have "extends pramin_store h h1 0" using q by (simp add: quiet_def)
    then have "extends pramin_store h (h1 @ ?ws) 0"
      using extends_trans [OF _ chunk_words_extends [OF ok m, of h1 source base]] by fastforce
    then have ext: "extends pramin_store h ?h' 0"
      using extends_trans [OF _ extends_read] by fastforce
    have "snd (gpu_after g ?h') = put vram (unat (PraminStageChunk.vramOffset c))
        (slice source base (unat (PraminStageChunk.bytes c)))"
      if "gpu_after g h = (windowSelector c, vram)"
        "unat (PraminStageChunk.vramOffset c) + unat (PraminStageChunk.bytes c) \<le> length vram" for g vram
    proof -
      have "gpu_after g h1 = (windowSelector c, vram)" using q that(1) by (metis (no_types))
      then show ?thesis using chunk_words_gpu [OF ok m, of base source 0 vram] src that(2) m by simp
    qed
    then show ?thesis using run ext by blast
  qed
qed

lemma CompareAperture_cases:
  assumes ok: "chunk_ok c" and n4: "4 dvd unat (PraminStageChunk.bytes c)"
    and src: "base + unat (PraminStageChunk.bytes c) \<le> length expected"
  shows "\<exists>kr h'. CompareAperture (Some dev) bar0Size (bar0ApertureOffset c) expected base (PraminStageChunk.bytes c) h =
      Some (kr, h') \<and> quiet h h' \<and>
    (\<forall>vram. window_view dev h c vram \<longrightarrow>
      (kr = kIOReturnSuccess \<longrightarrow> slice vram (unat (PraminStageChunk.vramOffset c)) (unat (PraminStageChunk.bytes c)) =
         slice expected base (unat (PraminStageChunk.bytes c))) \<and>
      (maps_ok dev bar0Size \<longrightarrow> 4 dvd unat (PraminStageChunk.vramOffset c) \<longrightarrow>
       slice vram (unat (PraminStageChunk.vramOffset c)) (unat (PraminStageChunk.bytes c)) =
         slice expected base (unat (PraminStageChunk.bytes c)) \<longrightarrow> kr = kIOReturnSuccess))"
proof (cases "4 dvd unat (PraminStageChunk.vramOffset c)")
  case False
  then show ?thesis
    using aperture_region_allowed [OF ok n4] aperture_unaligned [OF ok n4] by (simp add: CompareAperture_def)
next
  case True
  obtain m where m: "4 * m = unat (PraminStageChunk.bytes c)" using n4 by (auto elim: dvdE)
  obtain k h1 where map: "MapBar0Range (Some dev) bar0Size (ucast (bar0ApertureOffset c)) (PraminStageChunk.bytes c) h =
    (k, h1)" by force
  note q = MapBar0Range_cases [OF map]
  have view: "window_view dev h1 c vram = window_view dev h c vram" for vram
    using q by (simp add: window_view_def)
  have eq: "CompareAperture (Some dev) bar0Size (bar0ApertureOffset c) expected base (PraminStageChunk.bytes c) h =
      (if k \<noteq> kIOReturnSuccess then Some (k, h1)
       else CompareAperture_loop dev (bar0ApertureOffset c) expected base (PraminStageChunk.bytes c) 0 h1)"
    using aperture_region_allowed [OF ok n4] aperture_unaligned [OF ok n4] True map
    by (simp add: CompareAperture_def)
  show ?thesis
  proof (cases "k = kIOReturnSuccess")
    case False
    then show ?thesis unfolding eq using q aperture_map_ok [OF _ ok, of dev bar0Size h] map by auto
  next
    case ksucc: True
    obtain kr h' where loop: "CompareAperture_loop dev (bar0ApertureOffset c) expected base (PraminStageChunk.bytes c) 0 h1 =
        Some (kr, h')" "quiet h1 h'"
      "\<forall>vram. window_view dev h c vram \<longrightarrow>
        (kr = kIOReturnSuccess \<longleftrightarrow> same_words vram (unat (PraminStageChunk.vramOffset c)) expected base 0 m)"
      using CompareAperture_loop_cases [OF ok m, of base expected 0 0 dev h1] src m view by auto
    have same: "same_words vram (unat (PraminStageChunk.vramOffset c)) expected base 0 m \<longleftrightarrow>
        slice vram (unat (PraminStageChunk.vramOffset c)) (unat (PraminStageChunk.bytes c)) =
         slice expected base (unat (PraminStageChunk.bytes c))"
      if "window_view dev h c vram" for vram
      using same_words_slice [of _ m vram base expected] slice_same_words [of vram _ m expected base] that src
      unfolding m by (auto simp: window_view_def m)
    show ?thesis unfolding eq using ksucc loop same q by (auto intro: quiet_trans)
  qed
qed

lemma ReadAperture_cases:
  assumes ok: "chunk_ok c" and n4: "4 dvd unat (PraminStageChunk.bytes c)"
    and dst: "base + unat (PraminStageChunk.bytes c) \<le> length destination"
  shows "\<exists>kr dst h'. ReadAperture (Some dev) bar0Size (bar0ApertureOffset c) destination base (PraminStageChunk.bytes c) h =
      Some (kr, dst, h') \<and> quiet h h' \<and> length dst = length destination \<and>
    (kr = kIOReturnSuccess \<longrightarrow> (\<forall>vram. window_view dev h c vram \<longrightarrow> dst = put destination base
      (slice vram (unat (PraminStageChunk.vramOffset c)) (unat (PraminStageChunk.bytes c))))) \<and>
    (maps_ok dev bar0Size \<longrightarrow> 4 dvd unat (PraminStageChunk.vramOffset c) \<longrightarrow> kr = kIOReturnSuccess)"
proof (cases "4 dvd unat (PraminStageChunk.vramOffset c)")
  case False
  then show ?thesis
    using aperture_region_allowed [OF ok n4] aperture_unaligned [OF ok n4] by (simp add: ReadAperture_def)
next
  case True
  obtain m where m: "4 * m = unat (PraminStageChunk.bytes c)" using n4 by (auto elim: dvdE)
  obtain k h1 where map: "MapBar0Range (Some dev) bar0Size (ucast (bar0ApertureOffset c)) (PraminStageChunk.bytes c) h =
    (k, h1)" by force
  note q = MapBar0Range_cases [OF map]
  have view: "window_view dev h1 c vram = window_view dev h c vram" for vram
    using q by (simp add: window_view_def)
  have eq: "ReadAperture (Some dev) bar0Size (bar0ApertureOffset c) destination base (PraminStageChunk.bytes c) h =
      (if k \<noteq> kIOReturnSuccess then Some (k, destination, h1)
       else do { (dst, h') \<leftarrow> ReadAperture_loop dev (bar0ApertureOffset c) base (PraminStageChunk.bytes c) 0 destination h1;
         Some (kIOReturnSuccess, dst, h') })"
    using aperture_region_allowed [OF ok n4] aperture_unaligned [OF ok n4] True map
    by (simp add: ReadAperture_def MapBar0ReadRange_def)
  show ?thesis
  proof (cases "k = kIOReturnSuccess")
    case False
    then show ?thesis unfolding eq using q aperture_map_ok [OF _ ok, of dev bar0Size h] map by auto
  next
    case ksucc: True
    obtain dst h' where loop: "ReadAperture_loop dev (bar0ApertureOffset c) base (PraminStageChunk.bytes c) 0 destination h1 =
        Some (dst, h')" "quiet h1 h'" "length dst = length destination"
      "\<forall>vram. window_view dev h c vram \<longrightarrow> dst = put destination base
        (slice vram (unat (PraminStageChunk.vramOffset c)) (4 * m))"
      using ReadAperture_loop_cases [OF ok m, of base destination 0 0 dev h1] dst m view by auto
    show ?thesis unfolding eq using ksucc loop q m by (auto intro: quiet_trans)
  qed
qed

section \<open>Whole plans\<close>

lemma select_view:
  assumes "WriteSelector (Some dev) bar0Size (windowSelector c) h = (kIOReturnSuccess, h1)"
    and "pramin_device dev g"
    and "unat (PraminStageChunk.vramOffset c) + unat (PraminStageChunk.bytes c) \<le> length (snd (gpu_after g h))"
  shows "window_view dev h1 c (snd (gpu_after g h))"
  using WriteSelector_cases(2) [OF assms(1), of g] assms(2,3) unfolding window_view_def by blast

lemma WriteSelector_ok:
  assumes "maps_ok dev bar0Size"
  shows "fst (WriteSelector (Some dev) bar0Size v h) = kIOReturnSuccess"
  using MapBar0Range_ok [OF assms, of 4 "ucast kPraminWindowSelectOffset" h]
  by (cases "MapBar0Range (Some dev) bar0Size (ucast kPraminWindowSelectOffset) 4 h")
    (simp add: WriteSelector_def selector_write_allowed reg_read_def Let_def, simp add: kPraminWindowSelectOffset_def)

text \<open>The chunks that are left, from the expected offsets on.\<close>

definition stage_room :: "PraminStagePlan \<Rightarrow> nat \<Rightarrow> nat \<Rightarrow> bool" where
  "stage_room stage v tot \<longleftrightarrow> v = unat (PraminStagePlan.vramOffset stage) \<and> tot = unat (totalBytes stage) \<and>
     v + tot < 2 ^ 64"

lemma chunk_next:
  assumes "ValidateChunk c ev es (totalBytes stage)" and "unat ev = v + unat es" and "stage_room stage v tot"
  shows "unat (ev + PraminStageChunk.bytes c) = unat ev + unat (PraminStageChunk.bytes c)"
    and "unat (es + PraminStageChunk.bytes c) = unat es + unat (PraminStageChunk.bytes c)"
    and "unat es + unat (PraminStageChunk.bytes c) \<le> tot" and "chunk_ok c"
    and "4 dvd unat (PraminStageChunk.bytes c)"
    and "PraminStageChunk.vramOffset c = ev" "sourceOffset c = es"
    and "\<not> (- 1 - PraminStageChunk.bytes c < ev \<or> - 1 - PraminStageChunk.bytes c < es)"
proof -
  have tot: "tot = unat (totalBytes stage)" and room: "v + tot < 2 ^ 64" using assms(3) by (simp_all add: stage_room_def)
  show c: "chunk_ok c" "4 dvd unat (PraminStageChunk.bytes c)" "PraminStageChunk.vramOffset c = ev"
      "sourceOffset c = es" "unat es + unat (PraminStageChunk.bytes c) \<le> tot"
    using assms(1) tot unfolding ValidateChunk_iff by blast+
  show "unat (ev + PraminStageChunk.bytes c) = unat ev + unat (PraminStageChunk.bytes c)"
    "unat (es + PraminStageChunk.bytes c) = unat es + unat (PraminStageChunk.bytes c)"
    using c(5) assms(2) room by (simp_all add: unat_add_nowrap)
  show "\<not> (- 1 - PraminStageChunk.bytes c < ev \<or> - 1 - PraminStageChunk.bytes c < es)"
    unfolding add_guard64 using c(5) assms(2) room by simp
qed

lemma final_check:
  assumes "unat ev = v + unat es" and "unat es \<le> tot" and "stage_room stage v tot"
  shows "\<not> (es \<noteq> totalBytes stage \<or> ev \<noteq> PraminStagePlan.vramOffset stage + totalBytes stage) \<longleftrightarrow> unat es = tot"
proof -
  have "unat (PraminStagePlan.vramOffset stage + totalBytes stage) = v + tot"
    using assms(3) by (simp add: stage_room_def unat_add_nowrap)
  then show ?thesis using assms by (auto simp: stage_room_def word_unat_eq_iff)
qed

lemma stage_loop:
  assumes len: "length source = tot" and room: "stage_room stage v tot"
  shows "unat ev = v + unat es \<Longrightarrow> unat es \<le> tot \<Longrightarrow>
    \<exists>kr h' k. RTXMacStagePramin_loop (Some dev) bar0Size stage source (totalBytes stage) cs ev es h = Some (kr, h') \<and>
      extends pramin_store h h' 0 \<and> unat es \<le> k \<and> k \<le> tot \<and> (kr = kIOReturnSuccess \<longrightarrow> k = tot) \<and>
      (\<forall>g. v + tot \<le> length (snd (gpu_after g h)) \<longrightarrow> snd (gpu_after g h') =
        put (snd (gpu_after g h)) (unat ev) (slice source (unat es) (k - unat es)))"
proof (induction cs arbitrary: ev es h)
  case Nil
  then show ?case using final_check [OF Nil room] by (auto simp: slice_def)
next
  case (Cons c cs)
  show ?case
  proof (cases "ValidateChunk c ev es (totalBytes stage)")
    case False
    then show ?thesis using Cons.prems by (auto simp: slice_def)
  next
    case True
    note c = chunk_next [OF True Cons.prems(1) room]
    let ?n = "unat (PraminStageChunk.bytes c)"
    obtain k1 h1 where sel: "WriteSelector (Some dev) bar0Size (windowSelector c) h = (k1, h1)" by force
    note q1 = WriteSelector_cases [OF sel]
    show ?thesis
    proof (cases "k1 = kIOReturnSuccess")
      case False
      then show ?thesis using True sel q1(1) Cons.prems(2)
        by (intro exI [of _ k1] exI [of _ h1] exI [of _ "unat es"]) (auto simp: quiet_def slice_def)
    next
      case s1: True
      have src: "unat (sourceOffset c) + ?n \<le> length source" using c(3,7) len by simp
      obtain k2 h2 where ap: "WriteAperture (Some dev) bar0Size (bar0ApertureOffset c) source (unat (sourceOffset c))
          (PraminStageChunk.bytes c) h1 = Some (k2, h2)" "extends pramin_store h1 h2 0"
        "k2 \<noteq> kIOReturnSuccess \<longrightarrow> quiet h1 h2"
        "k2 = kIOReturnSuccess \<longrightarrow> (\<forall>g vram. gpu_after g h1 = (windowSelector c, vram) \<longrightarrow>
          unat ev + ?n \<le> length vram \<longrightarrow> snd (gpu_after g h2) = put vram (unat ev) (slice source (unat es) ?n))"
        using WriteAperture_cases [OF c(4,5) src, of dev bar0Size h1] c(6,7) by auto
      have run: "RTXMacStagePramin_loop (Some dev) bar0Size stage source (totalBytes stage) (c # cs) ev es h =
          (if k2 \<noteq> kIOReturnSuccess then Some (k2, h2)
           else RTXMacStagePramin_loop (Some dev) bar0Size stage source (totalBytes stage) cs
             (ev + PraminStageChunk.bytes c) (es + PraminStageChunk.bytes c) h2)"
        using True sel s1 ap(1) c(8) by simp
      have ext: "extends pramin_store h h2 0"
        using extends_trans [OF _ ap(2)] q1(1) by (fastforce simp: quiet_def)
      show ?thesis
      proof (cases "k2 = kIOReturnSuccess")
        case False
        have "quiet h h2" using quiet_trans [OF q1(1)] ap(3) False by blast
        then show ?thesis using run False Cons.prems(2)
          by (intro exI [of _ k2] exI [of _ h2] exI [of _ "unat es"]) (auto simp: quiet_def slice_def)
      next
        case s2: True
        have "unat (ev + PraminStageChunk.bytes c) = v + unat (es + PraminStageChunk.bytes c)"
          "unat (es + PraminStageChunk.bytes c) \<le> tot" using c(1,2,3) Cons.prems(1) by simp_all
        from Cons.IH [OF this, of h2] obtain kr h' k where IH:
          "RTXMacStagePramin_loop (Some dev) bar0Size stage source (totalBytes stage) cs
             (ev + PraminStageChunk.bytes c) (es + PraminStageChunk.bytes c) h2 = Some (kr, h')"
          "extends pramin_store h2 h' 0" "unat es + ?n \<le> k" "k \<le> tot" "kr = kIOReturnSuccess \<longrightarrow> k = tot"
          "\<And>g. v + tot \<le> length (snd (gpu_after g h2)) \<Longrightarrow> snd (gpu_after g h') =
            put (snd (gpu_after g h2)) (unat ev + ?n) (slice source (unat es + ?n) (k - (unat es + ?n)))"
          using c(1,2) by auto
        have "snd (gpu_after g h') = put (snd (gpu_after g h)) (unat ev) (slice source (unat es) (k - unat es))"
          if fits: "v + tot \<le> length (snd (gpu_after g h))" for g
        proof -
          let ?V = "snd (gpu_after g h)"
          have fit: "unat ev + ?n \<le> length ?V" using fits c(3) Cons.prems(1) by simp
          have "gpu_after g h1 = (windowSelector c, ?V)" using q1(2) [of g] s1 by simp
          then have h2: "snd (gpu_after g h2) = put ?V (unat ev) (slice source (unat es) ?n)"
            using ap(4) s2 fit by blast
          have ln: "length (slice source (unat es) ?n) = ?n" using src c(7) by simp
          then have "length (snd (gpu_after g h2)) = length ?V" unfolding h2 using fit by simp
          then have "snd (gpu_after g h') =
              put (put ?V (unat ev) (slice source (unat es) ?n)) (unat ev + ?n) (slice source (unat es + ?n) (k - (unat es + ?n)))"
            using IH(6) [of g] fits h2 by simp
          also have "\<dots> = put ?V (unat ev) (slice source (unat es) ?n @ slice source (unat es + ?n) (k - (unat es + ?n)))"
            using put_put_adjacent [of "unat ev" "slice source (unat es) ?n" "slice source (unat es + ?n) (k - (unat es + ?n))" ?V]
              ln IH(3,4) len fits Cons.prems(1) by simp
          also have "slice source (unat es) ?n @ slice source (unat es + ?n) (k - (unat es + ?n)) =
              slice source (unat es) (k - unat es)" using IH(3) by (simp add: slice_append)
          finally show ?thesis .
        qed
        moreover have "extends pramin_store h h' 0" using extends_trans [OF ext IH(2)] by simp
        ultimately show ?thesis using run s2 IH(1,3,4,5) by (intro exI [of _ kr] exI [of _ h'] exI [of _ k]) simp
      qed
    qed
  qed
qed

text \<open>A list of chunks that runs to the end of the plan: what the dry run accepts.\<close>

definition runs_to_end :: "u64 \<Rightarrow> u64 \<Rightarrow> nat \<Rightarrow> PraminStageChunk list \<Rightarrow> bool" where
  "runs_to_end ev es tot cs \<longleftrightarrow> follows ev es cs \<and> unat es + (\<Sum>c\<leftarrow>cs. unat (PraminStageChunk.bytes c)) = tot"

lemma runs_to_end_Nil [simp]: "runs_to_end ev es tot [] \<longleftrightarrow> unat es = tot"
  by (simp add: runs_to_end_def)

lemma runs_to_end_Cons:
  assumes "runs_to_end ev es tot (c # cs)" and "stage_room stage v tot" and "unat ev = v + unat es"
  shows "ValidateChunk c ev es (totalBytes stage)" and "4 dvd unat (PraminStageChunk.vramOffset c)"
    and "runs_to_end (ev + PraminStageChunk.bytes c) (es + PraminStageChunk.bytes c) tot cs"
proof -
  have f: "PraminStageChunk.vramOffset c = ev" "sourceOffset c = es" "chunk_ok c"
    "4 dvd unat (PraminStageChunk.bytes c)" "4 dvd unat (PraminStageChunk.vramOffset c)"
    "follows (ev + PraminStageChunk.bytes c) (es + PraminStageChunk.bytes c) cs"
    "unat es + unat (PraminStageChunk.bytes c) + (\<Sum>c\<leftarrow>cs. unat (PraminStageChunk.bytes c)) = tot"
    using assms(1) by (auto simp: runs_to_end_def)
  show valid: "ValidateChunk c ev es (totalBytes stage)"
    using f(1-4,7) assms(2) unfolding ValidateChunk_iff by (simp add: stage_room_def)
  show "4 dvd unat (PraminStageChunk.vramOffset c)" by (rule f(5))
  show "runs_to_end (ev + PraminStageChunk.bytes c) (es + PraminStageChunk.bytes c) tot cs"
    using f(6,7) chunk_next(2) [OF valid assms(3,2)] by (simp add: runs_to_end_def)
qed

lemma stage_loop_ok:
  assumes maps: "maps_ok dev bar0Size" and len: "length source = tot" and room: "stage_room stage v tot"
  shows "runs_to_end ev es tot cs \<Longrightarrow> unat ev = v + unat es \<Longrightarrow>
    \<exists>h'. RTXMacStagePramin_loop (Some dev) bar0Size stage source (totalBytes stage) cs ev es h =
      Some (kIOReturnSuccess, h')"
proof (induction cs arbitrary: ev es h)
  case Nil
  then show ?case using final_check [OF Nil(2) _ room] by simp
next
  case (Cons c cs)
  note r = runs_to_end_Cons [OF Cons.prems(1) room Cons.prems(2)]
  note c = chunk_next [OF r(1) Cons.prems(2) room]
  obtain h1 where sel: "WriteSelector (Some dev) bar0Size (windowSelector c) h = (kIOReturnSuccess, h1)"
    using WriteSelector_ok [OF maps] by (metis prod.collapse)
  have src: "unat (sourceOffset c) + unat (PraminStageChunk.bytes c) \<le> length source" using c(3,7) len by simp
  obtain h2 where "WriteAperture (Some dev) bar0Size (bar0ApertureOffset c) source (unat (sourceOffset c))
      (PraminStageChunk.bytes c) h1 = Some (kIOReturnSuccess, h2)"
    using WriteAperture_cases [OF c(4,5) src, of dev bar0Size h1] maps r(2) by blast
  moreover have "unat (ev + PraminStageChunk.bytes c) = v + unat (es + PraminStageChunk.bytes c)"
    using c(1,2) Cons.prems(2) by simp
  ultimately show ?case using Cons.IH [OF r(3)] r(1) sel c(8) by simp
qed

lemma verify_loop:
  assumes len: "length expected = tot" and room: "stage_room stage v tot" and device: "pramin_device dev g"
  shows "unat ev = v + unat es \<Longrightarrow> unat es \<le> tot \<Longrightarrow> v + tot \<le> length (snd (gpu_after g h)) \<Longrightarrow>
    \<exists>kr h'. RTXMacVerifyPramin_loop (Some dev) bar0Size stage expected (totalBytes stage) cs ev es h = Some (kr, h') \<and>
      quiet h h' \<and>
      (kr = kIOReturnSuccess \<longrightarrow> slice (snd (gpu_after g h)) (unat ev) (tot - unat es) =
        slice expected (unat es) (tot - unat es)) \<and>
      (maps_ok dev bar0Size \<longrightarrow> runs_to_end ev es tot cs \<longrightarrow>
        slice (snd (gpu_after g h)) (unat ev) (tot - unat es) = slice expected (unat es) (tot - unat es) \<longrightarrow>
        kr = kIOReturnSuccess)"
proof (induction cs arbitrary: ev es h)
  case Nil
  then show ?case using final_check [OF Nil(1,2) room] by (auto simp: slice_def)
next
  case (Cons c cs)
  show ?case
  proof (cases "ValidateChunk c ev es (totalBytes stage)")
    case False
    then show ?thesis using runs_to_end_Cons(1) [OF _ room Cons.prems(1)] by auto
  next
    case True
    note c = chunk_next [OF True Cons.prems(1) room]
    let ?n = "unat (PraminStageChunk.bytes c)" and ?V = "snd (gpu_after g h)"
    obtain k1 h1 where sel: "WriteSelector (Some dev) bar0Size (windowSelector c) h = (k1, h1)" by force
    note q1 = WriteSelector_cases [OF sel]
    show ?thesis
    proof (cases "k1 = kIOReturnSuccess")
      case False
      then show ?thesis using True sel q1(1) WriteSelector_ok [of dev bar0Size "windowSelector c" h] by auto
    next
      case s1: True
      have exp: "unat (sourceOffset c) + ?n \<le> length expected" using c(3,7) len by simp
      have "unat (PraminStageChunk.vramOffset c) + ?n \<le> length ?V"
        unfolding c(6) using Cons.prems(1,3) c(3) by simp
      then have view: "window_view dev h1 c ?V" using select_view [OF _ device] sel s1 by simp
      obtain k2 h2 where cmp: "CompareAperture (Some dev) bar0Size (bar0ApertureOffset c) expected (unat (sourceOffset c))
          (PraminStageChunk.bytes c) h1 = Some (k2, h2)" "quiet h1 h2"
        "k2 = kIOReturnSuccess \<Longrightarrow> slice ?V (unat ev) ?n = slice expected (unat es) ?n"
        "maps_ok dev bar0Size \<Longrightarrow> 4 dvd unat (PraminStageChunk.vramOffset c) \<Longrightarrow>
          slice ?V (unat ev) ?n = slice expected (unat es) ?n \<Longrightarrow> k2 = kIOReturnSuccess"
        using CompareAperture_cases [OF c(4,5) exp, of dev bar0Size h1] view unfolding c(6,7) by blast
      have run: "RTXMacVerifyPramin_loop (Some dev) bar0Size stage expected (totalBytes stage) (c # cs) ev es h =
          (if k2 \<noteq> kIOReturnSuccess then Some (k2, h2)
           else RTXMacVerifyPramin_loop (Some dev) bar0Size stage expected (totalBytes stage) cs
             (ev + PraminStageChunk.bytes c) (es + PraminStageChunk.bytes c) h2)"
        using True sel s1 cmp(1) by simp
      have q2: "quiet h h2" by (rule quiet_trans [OF q1(1) cmp(2)])
      have split: "slice zs a (tot - unat es) = slice zs a ?n @ slice zs (a + ?n) (tot - (unat es + ?n))" for zs :: "byte list" and a
        using c(3) by (simp add: slice_append)
      have len1: "length (slice ?V (unat ev) ?n) = ?n" "length (slice expected (unat es) ?n) = ?n"
        using exp Cons.prems(1,3) c(3,7) by simp_all
      show ?thesis
      proof (cases "k2 = kIOReturnSuccess")
        case False
        have "\<not> slice ?V (unat ev) (tot - unat es) = slice expected (unat es) (tot - unat es)"
          if "maps_ok dev bar0Size" "runs_to_end ev es tot (c # cs)"
          using False cmp(4) that runs_to_end_Cons(2) [OF that(2) room Cons.prems(1)] split len1
          by (metis append_eq_append_conv)
        then show ?thesis using run False q2 by auto
      next
        case s2: True
        have V: "snd (gpu_after g h2) = ?V" by (rule quiet_vram [OF q2])
        have "unat (ev + PraminStageChunk.bytes c) = v + unat (es + PraminStageChunk.bytes c)"
          "unat (es + PraminStageChunk.bytes c) \<le> tot" "v + tot \<le> length (snd (gpu_after g h2))"
          using c(1,2,3) Cons.prems(1,3) V by simp_all
        from Cons.IH [OF this] obtain kr h' where IH:
          "RTXMacVerifyPramin_loop (Some dev) bar0Size stage expected (totalBytes stage) cs
             (ev + PraminStageChunk.bytes c) (es + PraminStageChunk.bytes c) h2 = Some (kr, h')" "quiet h2 h'"
          "kr = kIOReturnSuccess \<Longrightarrow> slice ?V (unat ev + ?n) (tot - (unat es + ?n)) =
            slice expected (unat es + ?n) (tot - (unat es + ?n))"
          "maps_ok dev bar0Size \<Longrightarrow> runs_to_end (ev + PraminStageChunk.bytes c) (es + PraminStageChunk.bytes c) tot cs \<Longrightarrow>
            slice ?V (unat ev + ?n) (tot - (unat es + ?n)) = slice expected (unat es + ?n) (tot - (unat es + ?n)) \<Longrightarrow>
            kr = kIOReturnSuccess"
          unfolding V c(1,2) by blast
        have eq: "slice ?V (unat ev) (tot - unat es) = slice expected (unat es) (tot - unat es) \<longleftrightarrow>
            slice ?V (unat ev + ?n) (tot - (unat es + ?n)) = slice expected (unat es + ?n) (tot - (unat es + ?n))"
          using cmp(3) [OF s2] split by simp
        show ?thesis
          using run s2 IH(1,3,4) quiet_trans [OF q2 IH(2)] runs_to_end_Cons(3) [OF _ room Cons.prems(1)]
          unfolding eq by auto
      qed
    qed
  qed
qed

lemma read_loop:
  assumes room: "stage_room stage v tot"
  shows "unat ev = v + unat es \<Longrightarrow> unat es \<le> tot \<Longrightarrow> length out = tot \<Longrightarrow>
    \<exists>kr dst h'. RTXMacReadPramin_loop (Some dev) bar0Size stage (totalBytes stage) cs ev es out h = Some (kr, dst, h') \<and>
      quiet h h' \<and> length dst = tot \<and>
      (kr = kIOReturnSuccess \<longrightarrow> (\<forall>g. pramin_device dev g \<longrightarrow> v + tot \<le> length (snd (gpu_after g h)) \<longrightarrow>
        dst = put out (unat es) (slice (snd (gpu_after g h)) (unat ev) (tot - unat es)))) \<and>
      (maps_ok dev bar0Size \<longrightarrow> runs_to_end ev es tot cs \<longrightarrow> kr = kIOReturnSuccess)"
proof (induction cs arbitrary: ev es out h)
  case Nil
  then show ?case using final_check [OF Nil(1,2) room] by (auto simp: slice_def)
next
  case (Cons c cs)
  show ?case
  proof (cases "ValidateChunk c ev es (totalBytes stage)")
    case False
    then show ?thesis using runs_to_end_Cons(1) [OF _ room Cons.prems(1)] Cons.prems(3) by auto
  next
    case True
    note c = chunk_next [OF True Cons.prems(1) room]
    let ?n = "unat (PraminStageChunk.bytes c)"
    obtain k1 h1 where sel: "WriteSelector (Some dev) bar0Size (windowSelector c) h = (k1, h1)" by force
    note q1 = WriteSelector_cases [OF sel]
    show ?thesis
    proof (cases "k1 = kIOReturnSuccess")
      case False
      then show ?thesis using True sel q1(1) Cons.prems(3) WriteSelector_ok [of dev bar0Size "windowSelector c" h]
        by (auto simp: SelectWindow_def)
    next
      case s1: True
      have dst: "unat (sourceOffset c) + ?n \<le> length out" using c(3,7) Cons.prems(3) by simp
      have view: "window_view dev h1 c (snd (gpu_after g h))"
        if "pramin_device dev g" "v + tot \<le> length (snd (gpu_after g h))" for g
        using select_view [OF _ that(1)] sel s1 that(2) c(3,6) Cons.prems(1) by simp
      obtain k2 d2 h2 where rd: "ReadAperture (Some dev) bar0Size (bar0ApertureOffset c) out (unat (sourceOffset c))
          (PraminStageChunk.bytes c) h1 = Some (k2, d2, h2)" "quiet h1 h2" "length d2 = length out"
        "\<And>vram. k2 = kIOReturnSuccess \<Longrightarrow> window_view dev h1 c vram \<Longrightarrow> d2 = put out (unat es) (slice vram (unat ev) ?n)"
        "maps_ok dev bar0Size \<Longrightarrow> 4 dvd unat (PraminStageChunk.vramOffset c) \<Longrightarrow> k2 = kIOReturnSuccess"
        using ReadAperture_cases [OF c(4,5) dst, of dev bar0Size h1] unfolding c(6,7) by blast
      have run: "RTXMacReadPramin_loop (Some dev) bar0Size stage (totalBytes stage) (c # cs) ev es out h =
          (if k2 \<noteq> kIOReturnSuccess then Some (k2, d2, h2)
           else RTXMacReadPramin_loop (Some dev) bar0Size stage (totalBytes stage) cs
             (ev + PraminStageChunk.bytes c) (es + PraminStageChunk.bytes c) d2 h2)"
        using True sel s1 rd(1) by (simp add: SelectWindow_def)
      have q2: "quiet h h2" by (rule quiet_trans [OF q1(1) rd(2)])
      show ?thesis
      proof (cases "k2 = kIOReturnSuccess")
        case False
        then show ?thesis using run q2 rd(3,5) Cons.prems(3) runs_to_end_Cons(2) [OF _ room Cons.prems(1)] by auto
      next
        case s2: True
        have "unat (ev + PraminStageChunk.bytes c) = v + unat (es + PraminStageChunk.bytes c)"
          "unat (es + PraminStageChunk.bytes c) \<le> tot" "length d2 = tot"
          using c(1,2,3) Cons.prems(1,3) rd(3) by simp_all
        from Cons.IH [OF this, of h2] obtain kr dst h' where IH:
          "RTXMacReadPramin_loop (Some dev) bar0Size stage (totalBytes stage) cs
             (ev + PraminStageChunk.bytes c) (es + PraminStageChunk.bytes c) d2 h2 = Some (kr, dst, h')" "quiet h2 h'"
          "length dst = tot"
          "\<And>g. kr = kIOReturnSuccess \<Longrightarrow> pramin_device dev g \<Longrightarrow> v + tot \<le> length (snd (gpu_after g h)) \<Longrightarrow>
            dst = put d2 (unat es + ?n) (slice (snd (gpu_after g h)) (unat ev + ?n) (tot - (unat es + ?n)))"
          "maps_ok dev bar0Size \<Longrightarrow> runs_to_end (ev + PraminStageChunk.bytes c) (es + PraminStageChunk.bytes c) tot cs \<Longrightarrow>
            kr = kIOReturnSuccess"
          unfolding quiet_vram [OF q2] c(1,2) by blast
        have "dst = put out (unat es) (slice (snd (gpu_after g h)) (unat ev) (tot - unat es))"
          if g: "kr = kIOReturnSuccess" "pramin_device dev g" "v + tot \<le> length (snd (gpu_after g h))" for g
        proof -
          let ?V = "snd (gpu_after g h)"
          have "dst = put (put out (unat es) (slice ?V (unat ev) ?n)) (unat es + ?n) (slice ?V (unat ev + ?n) (tot - (unat es + ?n)))"
            using IH(4) [OF g] rd(4) [OF s2 view [OF g(2,3)]] by simp
          also have "\<dots> = put out (unat es) (slice ?V (unat ev) ?n @ slice ?V (unat ev + ?n) (tot - (unat es + ?n)))"
            using put_put_adjacent [of "unat es" "slice ?V (unat ev) ?n" "slice ?V (unat ev + ?n) (tot - (unat es + ?n))" out]
              c(3) Cons.prems(1,3) g(3) by simp
          also have "slice ?V (unat ev) ?n @ slice ?V (unat ev + ?n) (tot - (unat es + ?n)) = slice ?V (unat ev) (tot - unat es)"
            using c(3) by (simp add: slice_append)
          finally show ?thesis .
        qed
        then show ?thesis
          using run s2 IH(1,3,5) quiet_trans [OF q2 IH(2)] runs_to_end_Cons(3) [OF _ room Cons.prems(1)] by auto
      qed
    qed
  qed
qed

section \<open>Staging is a transaction\<close>

declare split_paired_All [simp del]

text \<open>The plans the executor accepts, and those it can carry out: the ones the dry run accepts.\<close>

definition stage_ok :: "PraminStagePlan \<Rightarrow> bool" where
  "stage_ok stage \<longleftrightarrow> PraminStagePlan.valid stage \<and> totalBytes stage \<noteq> 0 \<and> chunks stage \<noteq> [] \<and>
     unat (PraminStagePlan.vramOffset stage) + unat (totalBytes stage) \<le> unat (vramSize stage)"

lemma stage_guard:
  "\<not> (\<not> PraminStagePlan.valid stage \<or> vramSize stage = 0 \<or> totalBytes stage = 0 \<or> chunks stage = [] \<or>
      n \<noteq> totalBytes stage \<or> vramSize stage \<le> PraminStagePlan.vramOffset stage \<or>
      vramSize stage - PraminStagePlan.vramOffset stage < totalBytes stage) \<longleftrightarrow> stage_ok stage \<and> n = totalBytes stage"
proof (cases "totalBytes stage = 0")
  case False
  then have "0 < unat (totalBytes stage)" by (simp add: unat_gt_0)
  then have "\<not> (vramSize stage = 0 \<or> vramSize stage \<le> PraminStagePlan.vramOffset stage \<or>
      vramSize stage - PraminStagePlan.vramOffset stage < totalBytes stage) \<longleftrightarrow>
      unat (PraminStagePlan.vramOffset stage) + unat (totalBytes stage) \<le> unat (vramSize stage)"
    using sub_less_iff [of "PraminStagePlan.vramOffset stage" "vramSize stage" "totalBytes stage"]
    by (auto simp: word_less_nat_alt word_le_nat_alt unat_eq_0 not_le)
  then show ?thesis using False by (auto simp: stage_ok_def)
qed (simp add: stage_ok_def)

lemma stage_ok_room:
  "stage_ok stage \<Longrightarrow> stage_room stage (unat (PraminStagePlan.vramOffset stage)) (unat (totalBytes stage))"
  using unat_lt(4) [of "vramSize stage"] by (simp add: stage_ok_def stage_room_def)

lemma dry_run_stage:
  assumes "PraminDryRunMmioPlan.valid (BuildPraminDryRunMmioPlan stage)"
  shows "stage_ok stage"
    and "runs_to_end (PraminStagePlan.vramOffset stage) 0 (unat (totalBytes stage)) (chunks stage)"
proof -
  let ?v = "PraminStagePlan.vramOffset stage"
  note f = assms [unfolded Build_valid_iff]
  show "stage_ok stage" using f by (simp add: stage_ok_def)
  obtain c cs where cs: "chunks stage = c # cs" using f by (cases "chunks stage") auto
  have "unat ?v \<le> 2 ^ 48" using f chunk_ok_end [of c] unfolding cs by simp
  then have "(\<Sum>c\<leftarrow>chunks stage. unat (PraminStageChunk.bytes c)) \<le> 2 ^ 48"
    using follows_writes [of ?v 0 "chunks stage"] f by auto
  then have "unat (\<Sum>c\<leftarrow>chunks stage. PraminStageChunk.bytes c) =
      (\<Sum>c\<leftarrow>chunks stage. unat (PraminStageChunk.bytes c))" by (intro unat_sum_list) simp
  then show "runs_to_end ?v 0 (unat (totalBytes stage)) (chunks stage)"
    using f by (simp add: runs_to_end_def)
qed

lemma extends_quiet: "extends pramin_store h h1 0 \<Longrightarrow> quiet h1 h2 \<Longrightarrow> extends pramin_store h h2 0"
  using extends_trans [of pramin_store h h1 0 h2 0] by (simp add: quiet_def)

text \<open>What staging does to the memory of any device: a prefix of the source arrives, all of it on
  success.\<close>

lemma RTXMacStagePramin_cases:
  assumes len: "length source = unat (totalBytes stage)"
  shows "\<exists>kr h' k. RTXMacStagePramin (Some dev) bar0Size stage (Some source) (totalBytes stage) True h = Some (kr, h') \<and>
    extends pramin_store h h' 0 \<and> k \<le> unat (totalBytes stage) \<and>
    (kr = kIOReturnSuccess \<longrightarrow> stage_ok stage \<and> k = unat (totalBytes stage)) \<and>
    (\<forall>g. unat (vramSize stage) \<le> length (snd (gpu_after g h)) \<longrightarrow>
      snd (gpu_after g h') = put (snd (gpu_after g h)) (unat (PraminStagePlan.vramOffset stage)) (take k source)) \<and>
    (maps_ok dev bar0Size \<longrightarrow> PraminDryRunMmioPlan.valid (BuildPraminDryRunMmioPlan stage) \<longrightarrow> kr = kIOReturnSuccess)"
proof (cases "stage_ok stage")
  case False
  then have "ValidateStage stage (totalBytes stage) = kIOReturnBadArgument"
    using stage_guard [of stage "totalBytes stage"] unfolding ValidateStage_def by (metis (no_types))
  then show ?thesis using False dry_run_stage(1) [of stage]
    by (intro exI [of _ kIOReturnBadArgument] exI [of _ h] exI [of _ 0]) (auto simp: RTXMacStagePramin_def)
next
  case True
  let ?v = "unat (PraminStagePlan.vramOffset stage)" and ?tot = "unat (totalBytes stage)"
  let ?loop = "RTXMacStagePramin_loop (Some dev) bar0Size stage source (totalBytes stage) (chunks stage)
      (PraminStagePlan.vramOffset stage) 0 h"
  have "ValidateStage stage (totalBytes stage) = kIOReturnSuccess"
    using True stage_guard [of stage "totalBytes stage"] unfolding ValidateStage_def by (metis (no_types))
  then have run: "RTXMacStagePramin (Some dev) bar0Size stage (Some source) (totalBytes stage) True h = ?loop"
    by (simp add: RTXMacStagePramin_def)
  note room = stage_ok_room [OF True]
  obtain kr h' k where loop: "?loop = Some (kr, h')" "extends pramin_store h h' 0" "k \<le> ?tot"
    "kr = kIOReturnSuccess \<longrightarrow> k = ?tot"
    "\<forall>g. ?v + ?tot \<le> length (snd (gpu_after g h)) \<longrightarrow> snd (gpu_after g h') = put (snd (gpu_after g h)) ?v (take k source)"
    using stage_loop [OF len room, of "PraminStagePlan.vramOffset stage" 0 dev bar0Size "chunks stage" h]
    by (auto simp: slice_def)
  have "?v + ?tot \<le> unat (vramSize stage)" using True by (simp add: stage_ok_def)
  moreover have "kr = kIOReturnSuccess" if "maps_ok dev bar0Size" "PraminDryRunMmioPlan.valid (BuildPraminDryRunMmioPlan stage)"
    using stage_loop_ok [OF that(1) len room dry_run_stage(2) [OF that(2)], of h] loop(1) by simp
  ultimately show ?thesis unfolding run using loop True by (intro exI [of _ kr] exI [of _ h'] exI [of _ k]) auto
qed

lemma RTXMacVerifyPramin_cases:
  assumes len: "length expected = unat (totalBytes stage)" and device: "pramin_device dev g"
    and vram: "unat (vramSize stage) \<le> length (snd (gpu_after g h))"
  shows "\<exists>kr h'. RTXMacVerifyPramin (Some dev) bar0Size stage (Some expected) (totalBytes stage) True h = Some (kr, h') \<and>
    quiet h h' \<and>
    (kr = kIOReturnSuccess \<longrightarrow> slice (snd (gpu_after g h)) (unat (PraminStagePlan.vramOffset stage))
      (unat (totalBytes stage)) = expected) \<and>
    (maps_ok dev bar0Size \<longrightarrow> PraminDryRunMmioPlan.valid (BuildPraminDryRunMmioPlan stage) \<longrightarrow>
      slice (snd (gpu_after g h)) (unat (PraminStagePlan.vramOffset stage)) (unat (totalBytes stage)) = expected \<longrightarrow>
      kr = kIOReturnSuccess)"
proof (cases "stage_ok stage")
  case False
  then have "ValidateStage stage (totalBytes stage) = kIOReturnBadArgument"
    using stage_guard [of stage "totalBytes stage"] unfolding ValidateStage_def by (metis (no_types))
  then show ?thesis using False dry_run_stage(1) [of stage] by (auto simp: RTXMacVerifyPramin_def)
next
  case True
  have "ValidateStage stage (totalBytes stage) = kIOReturnSuccess"
    using True stage_guard [of stage "totalBytes stage"] unfolding ValidateStage_def by (metis (no_types))
  then have run: "RTXMacVerifyPramin (Some dev) bar0Size stage (Some expected) (totalBytes stage) True h =
      RTXMacVerifyPramin_loop (Some dev) bar0Size stage expected (totalBytes stage) (chunks stage)
      (PraminStagePlan.vramOffset stage) 0 h"
    by (simp add: RTXMacVerifyPramin_def)
  have "unat (PraminStagePlan.vramOffset stage) + unat (totalBytes stage) \<le> length (snd (gpu_after g h))"
    using True vram by (simp add: stage_ok_def)
  moreover have "slice expected 0 (unat (totalBytes stage)) = expected" using len by (simp add: slice_def)
  ultimately show ?thesis
    unfolding run
    using verify_loop [OF len stage_ok_room [OF True] device, of "PraminStagePlan.vramOffset stage" 0 h bar0Size "chunks stage"]
      dry_run_stage(2) [of stage] by auto
qed

lemma RTXMacReadPramin_cases:
  assumes len: "length destination = unat (totalBytes stage)" and device: "pramin_device dev g"
    and vram: "unat (vramSize stage) \<le> length (snd (gpu_after g h))"
  shows "\<exists>kr dst h'. RTXMacReadPramin (Some dev) bar0Size stage destination (totalBytes stage) True h = Some (kr, dst, h') \<and>
    quiet h h' \<and> length dst = unat (totalBytes stage) \<and>
    (kr = kIOReturnSuccess \<longrightarrow> stage_ok stage \<and>
      dst = slice (snd (gpu_after g h)) (unat (PraminStagePlan.vramOffset stage)) (unat (totalBytes stage))) \<and>
    (maps_ok dev bar0Size \<longrightarrow> PraminDryRunMmioPlan.valid (BuildPraminDryRunMmioPlan stage) \<longrightarrow> kr = kIOReturnSuccess)"
proof (cases "stage_ok stage")
  case False
  then have "RTXMacReadPramin (Some dev) bar0Size stage destination (totalBytes stage) True h =
      Some (kIOReturnBadArgument, destination, h)"
    using stage_guard [of stage "totalBytes stage"] unfolding RTXMacReadPramin_def by auto
  then show ?thesis using False dry_run_stage(1) [of stage] len by auto
next
  case True
  then have run: "RTXMacReadPramin (Some dev) bar0Size stage destination (totalBytes stage) True h =
      RTXMacReadPramin_loop (Some dev) bar0Size stage (totalBytes stage) (chunks stage)
      (PraminStagePlan.vramOffset stage) 0 destination h"
    using stage_guard [of stage "totalBytes stage"] unfolding RTXMacReadPramin_def by auto
  have fit: "unat (PraminStagePlan.vramOffset stage) + unat (totalBytes stage) \<le> length (snd (gpu_after g h))"
    using True vram by (simp add: stage_ok_def)
  obtain kr dst h' where loop: "RTXMacReadPramin_loop (Some dev) bar0Size stage (totalBytes stage) (chunks stage)
      (PraminStagePlan.vramOffset stage) 0 destination h = Some (kr, dst, h')" "quiet h h'"
    "length dst = unat (totalBytes stage)"
    "kr = kIOReturnSuccess \<Longrightarrow> dst = put destination 0
      (slice (snd (gpu_after g h)) (unat (PraminStagePlan.vramOffset stage)) (unat (totalBytes stage)))"
    "maps_ok dev bar0Size \<Longrightarrow> runs_to_end (PraminStagePlan.vramOffset stage) 0 (unat (totalBytes stage)) (chunks stage) \<Longrightarrow>
      kr = kIOReturnSuccess"
    using read_loop [OF stage_ok_room [OF True] _ _ len, of "PraminStagePlan.vramOffset stage" 0 dev bar0Size "chunks stage" h,
      unfolded unat_0 add_0_right minus_nat.diff_0, OF refl le0] device fit by metis
  have "put destination 0 (slice (snd (gpu_after g h)) (unat (PraminStagePlan.vramOffset stage)) (unat (totalBytes stage))) =
      slice (snd (gpu_after g h)) (unat (PraminStagePlan.vramOffset stage)) (unat (totalBytes stage))"
    using fit len by (simp add: put_def)
  then show ?thesis unfolding run using loop True dry_run_stage(2) [of stage] by auto
qed

lemma put_put_prefix:
  assumes "i + length us \<le> length xs" and "i + length vs \<le> length xs"
  shows "put (put xs i us) i vs = put xs i (vs @ drop (length vs) us)"
proof (cases "length us \<le> length vs")
  case True
  have "length xs \<le> i \<longrightarrow> us = []" using assms(1) by (cases us) auto
  then show ?thesis using True assms by (simp add: put_def min_def add.commute)
next
  case False
  then show ?thesis using assms by (simp add: put_def min_def)
qed

lemma put_put_over:
  assumes "length us \<le> length vs" and "i + length vs \<le> length xs"
  shows "put (put xs i us) i vs = put xs i vs"
  using put_put_prefix [of i us xs vs] assms by simp

lemma put_slice_same: "i + n \<le> length xs \<Longrightarrow> put xs i (slice xs i n) = xs"
  by (simp add: put_def slice_def take_add [symmetric] add.commute flip: append_assoc)

lemma transaction_cases:
  assumes device: "pramin_device dev g" and vram: "unat (vramSize stage) \<le> length (snd (gpu_after g h))"
    and source: "length source = unat (totalBytes stage)" and backup: "length backup = unat (totalBytes stage)"
  shows "\<exists>kr b h'. RTXMacStagePraminTransactional (Some dev) bar0Size stage (Some source) (totalBytes stage)
      (Some backup) (totalBytes stage) True h = Some (kr, b, h') \<and>
    extends pramin_store h h' 0 \<and>
    (\<exists>bs. length bs \<le> unat (totalBytes stage) \<and>
      snd (gpu_after g h') = put (snd (gpu_after g h)) (unat (PraminStagePlan.vramOffset stage)) bs) \<and>
    (kr = kIOReturnSuccess \<longrightarrow>
      snd (gpu_after g h') = put (snd (gpu_after g h)) (unat (PraminStagePlan.vramOffset stage)) source) \<and>
    (kr \<noteq> kIOReturnSuccess \<and> kr \<noteq> kIOReturnError \<longrightarrow> snd (gpu_after g h') = snd (gpu_after g h)) \<and>
    (maps_ok dev bar0Size \<longrightarrow> PraminDryRunMmioPlan.valid (BuildPraminDryRunMmioPlan stage) \<longrightarrow> kr = kIOReturnSuccess)"
proof (cases "totalBytes stage = 0")
  case True
  then have "\<not> stage_ok stage" by (simp add: stage_ok_def)
  then show ?thesis using True dry_run_stage(1) [of stage]
    by (auto simp: RTXMacStagePraminTransactional_def intro!: exI [of _ "[]"])
next
  case nz: False
  let ?v = "unat (PraminStagePlan.vramOffset stage)" and ?n = "unat (totalBytes stage)" and ?V = "snd (gpu_after g h)"
  let ?ok = "maps_ok dev bar0Size \<and> PraminDryRunMmioPlan.valid (BuildPraminDryRunMmioPlan stage)"
  obtain k0 bk h0 where rd: "RTXMacReadPramin (Some dev) bar0Size stage backup (totalBytes stage) True h = Some (k0, bk, h0)"
    "quiet h h0" "length bk = ?n" "k0 = kIOReturnSuccess \<longrightarrow> stage_ok stage \<and> bk = slice ?V ?v ?n"
    "?ok \<longrightarrow> k0 = kIOReturnSuccess"
    using RTXMacReadPramin_cases [OF backup device vram, of bar0Size] by blast
  have ext0: "extends pramin_store h h0 0" and V0: "snd (gpu_after g h0) = ?V"
    using rd(2) quiet_vram [OF rd(2)] by (simp_all add: quiet_def)
  show ?thesis
  proof (cases "k0 = kIOReturnSuccess")
    case False
    have "RTXMacStagePraminTransactional (Some dev) bar0Size stage (Some source) (totalBytes stage)
      (Some backup) (totalBytes stage) True h = Some (k0, Some bk, h0)"
      using False rd(1) nz by (simp add: RTXMacStagePraminTransactional_def)
    then show ?thesis using False rd(5) ext0 V0 by (auto intro!: exI [of _ "[]"])
  next
    case s0: True
    have ok: "stage_ok stage" and bk: "bk = slice ?V ?v ?n" using rd(4) s0 by blast+
    have fit: "?v + ?n \<le> length ?V" using ok vram by (simp add: stage_ok_def)
    obtain k1 h1 j where st: "RTXMacStagePramin (Some dev) bar0Size stage (Some source) (totalBytes stage) True h0 = Some (k1, h1)"
      "extends pramin_store h0 h1 0" "j \<le> ?n" "k1 = kIOReturnSuccess \<longrightarrow> j = ?n"
      "snd (gpu_after g h1) = put (snd (gpu_after g h0)) ?v (take j source)" "?ok \<longrightarrow> k1 = kIOReturnSuccess"
      using RTXMacStagePramin_cases [OF source, of dev bar0Size h0] vram [folded V0] by blast
    note st = st [unfolded V0]
    have ext1: "extends pramin_store h h1 0" using extends_trans [OF ext0 st(2)] by simp
    have vram1: "unat (vramSize stage) \<le> length (snd (gpu_after g h1))"
      using st(3,5) fit vram source by (simp add: min_def)
    obtain k2 h2 where vf: "(if k1 = kIOReturnSuccess
        then RTXMacVerifyPramin (Some dev) bar0Size stage (Some source) (totalBytes stage) True h1 else Some (k1, h1)) = Some (k2, h2)"
      "quiet h1 h2" "k2 = kIOReturnSuccess \<longrightarrow> k1 = kIOReturnSuccess" "?ok \<longrightarrow> k2 = kIOReturnSuccess"
    proof (cases "k1 = kIOReturnSuccess")
      case False
      then show ?thesis using that [of k1 h1] st(6) by auto
    next
      case True
      have "slice (snd (gpu_after g h1)) ?v ?n = source"
        using True st(4,5) fit source by simp
      then show ?thesis
        using True that RTXMacVerifyPramin_cases [OF source device vram1, of bar0Size] by auto
    qed
    have ext2: "extends pramin_store h h2 0" by (rule extends_quiet [OF ext1 vf(2)])
    have V2: "snd (gpu_after g h2) = put ?V ?v (take j source)" using quiet_vram [OF vf(2)] st(5) by simp
    show ?thesis
    proof (cases "k2 = kIOReturnSuccess")
      case True
      have "RTXMacStagePraminTransactional (Some dev) bar0Size stage (Some source) (totalBytes stage)
        (Some backup) (totalBytes stage) True h = Some (kIOReturnSuccess, Some bk, h2)"
        using True s0 rd(1) st(1) vf(1) nz by (simp add: RTXMacStagePraminTransactional_def)
      moreover have "take j source = source" using True vf(3) st(4) source by simp
      ultimately show ?thesis using ext2 V2 source by (auto intro!: exI [of _ source])
    next
      case False
      have vram2: "unat (vramSize stage) \<le> length (snd (gpu_after g h2))"
        using vram1 quiet_vram [OF vf(2)] by simp
      obtain k3 h3 i where rb: "RTXMacStagePramin (Some dev) bar0Size stage (Some bk) (totalBytes stage) True h2 = Some (k3, h3)"
        "extends pramin_store h2 h3 0" "i \<le> ?n" "k3 = kIOReturnSuccess \<longrightarrow> i = ?n"
        "snd (gpu_after g h3) = put (snd (gpu_after g h2)) ?v (take i bk)"
        using RTXMacStagePramin_cases [OF rd(3), of dev bar0Size h2] vram2 by blast
      note rb = rb [unfolded V2]
      have ext3: "extends pramin_store h h3 0" using extends_trans [OF ext2 rb(2)] by simp
      have vram3: "unat (vramSize stage) \<le> length (snd (gpu_after g h3))"
        using rb(3,5) fit st(3) vram source rd(3) by (simp add: min_def)
      obtain k4 h4 where rv: "(if k3 = kIOReturnSuccess
          then RTXMacVerifyPramin (Some dev) bar0Size stage (Some bk) (totalBytes stage) True h3 else Some (k3, h3)) = Some (k4, h4)"
        "quiet h3 h4" "k4 = kIOReturnSuccess \<longrightarrow> k3 = kIOReturnSuccess"
        using RTXMacVerifyPramin_cases [OF rd(3) device vram3, of bar0Size] by (cases "k3 = kIOReturnSuccess") auto
      let ?kr = "if k4 = kIOReturnSuccess then k2 else kIOReturnError"
      have "RTXMacStagePraminTransactional (Some dev) bar0Size stage (Some source) (totalBytes stage)
        (Some backup) (totalBytes stage) True h = Some (?kr, Some bk, h4)"
        using False s0 rd(1) st(1) vf(1) rb(1) rv(1) nz by (simp add: RTXMacStagePraminTransactional_def)
      moreover have "extends pramin_store h h4 0" by (rule extends_quiet [OF ext3 rv(2)])
      moreover have "snd (gpu_after g h4) = ?V" if "k4 = kIOReturnSuccess"
      proof -
        have "snd (gpu_after g h4) = put (put ?V ?v (take j source)) ?v bk"
          using that rv(3) rb(4,5) rd(3) quiet_vram [OF rv(2)] by simp
        also have "\<dots> = put ?V ?v bk" using st(3) source rd(3) fit by (intro put_put_over) simp_all
        also have "\<dots> = ?V" unfolding bk using fit by (rule put_slice_same)
        finally show ?thesis .
      qed
      moreover have "\<exists>bs. length bs \<le> ?n \<and> snd (gpu_after g h4) = put ?V ?v bs"
      proof (intro exI conjI)
        show "length (take i bk @ drop (length (take i bk)) (take j source)) \<le> ?n" using st(3) rb(3) source rd(3) by simp
        show "snd (gpu_after g h4) = put ?V ?v (take i bk @ drop (length (take i bk)) (take j source))"
          unfolding quiet_vram [OF rv(2)] rb(5)
          using st(3) rb(3) source rd(3) fit by (intro put_put_prefix) simp_all
      qed
      ultimately show ?thesis using False vf(4) by auto
    qed
  qed
qed

text \<open>
  C11. Staging video memory is a transaction. On every device whose aperture reaches the memory
  behind the selected window, for any stage plan, the executor never leaves a host buffer, stores
  only to the selector and the aperture, and changes no byte outside the planned range. If it
  reports success, the range holds the source; if it reports a failure other than
  \<open>kIOReturnError\<close>, the memory is what it was. Without the write permission it does nothing. When
  every mapping succeeds, it carries out every plan the dry run accepts.
\<close>
theorem RTXMacStagePraminTransactional_atomic:
  assumes "pramin_device dev g" and "unat (vramSize stage) \<le> length (snd (gpu_after g h))"
    and "length source = unat (totalBytes stage)" and "length backup = unat (totalBytes stage)"
  shows "\<exists>kr b h'. RTXMacStagePraminTransactional (Some dev) bar0Size stage (Some source) (totalBytes stage)
      (Some backup) (totalBytes stage) writesEnabled h = Some (kr, b, h') \<and>
    extends pramin_store h h' 0 \<and> (\<not> writesEnabled \<longrightarrow> h' = h) \<and>
    (\<exists>bs. length bs \<le> unat (totalBytes stage) \<and>
      snd (gpu_after g h') = put (snd (gpu_after g h)) (unat (PraminStagePlan.vramOffset stage)) bs) \<and>
    (kr = kIOReturnSuccess \<longrightarrow>
      snd (gpu_after g h') = put (snd (gpu_after g h)) (unat (PraminStagePlan.vramOffset stage)) source) \<and>
    (kr \<noteq> kIOReturnSuccess \<and> kr \<noteq> kIOReturnError \<longrightarrow> snd (gpu_after g h') = snd (gpu_after g h)) \<and>
    (writesEnabled \<and> maps_ok dev bar0Size \<and> PraminDryRunMmioPlan.valid (BuildPraminDryRunMmioPlan stage) \<longrightarrow>
      kr = kIOReturnSuccess)"
proof (cases writesEnabled)
  case True
  then show ?thesis using transaction_cases [OF assms, of bar0Size] by simp blast
next
  case False
  then show ?thesis by (auto simp: RTXMacStagePraminTransactional_def intro!: exI [of _ "[]"])
qed

text \<open>A device with 2 MiB of video memory that always maps.\<close>

definition sample_gpu :: Aperture where
  "sample_gpu = \<lparr>CreateMapping = \<lambda>h off n. (kIOReturnSuccess, Some 1),
     load = \<lambda>h off. (case gpu_after (0, replicate 0x200000 0) h of
       (sel, vram) \<Rightarrow> word_at vram (window_address sel off))\<rparr>"

lemma sample_gpu: "pramin_device sample_gpu (0, replicate 0x200000 0)" "maps_ok sample_gpu 0x1000000"
  by (auto simp: pramin_device_def maps_ok_def sample_gpu_def)

theorem RTXMacStagePraminTransactional_witness:
  "\<exists>b h'. RTXMacStagePraminTransactional (Some sample_gpu) 0x1000000 (PlanPraminStage 0xFFFF8 0x10 0x200000)
      (Some (replicate 16 7)) 16 (Some (replicate 16 0)) 16 True [] = Some (kIOReturnSuccess, b, h') \<and>
    snd (gpu_after (0, replicate 0x200000 0) h') = put (replicate 0x200000 0) 0xFFFF8 (replicate 16 7)"
proof -
  let ?stage = "PlanPraminStage 0xFFFF8 0x10 0x200000"
  have req: "stage_request_ok 0xFFFF8 0x10 0x200000" by (simp add: stage_request_ok_def)
  then have fields: "PraminStagePlan.vramOffset ?stage = 0xFFFF8" "totalBytes ?stage = 0x10" "vramSize ?stage = 0x200000"
    using PlanPraminStage_cases [of "0xFFFF8" "0x10" "0x200000"] by auto
  have "PraminDryRunMmioPlan.valid (BuildPraminDryRunMmioPlan ?stage)"
    using Build_planned_valid [of "0xFFFF8" "0x10" "0x200000"] req by simp
  moreover have "length (replicate 16 (7 :: byte)) = unat (totalBytes ?stage)" unfolding fields by simp
  moreover have "length (replicate 16 (0 :: byte)) = unat (totalBytes ?stage)" unfolding fields by simp
  moreover have "unat (vramSize ?stage) \<le> length (snd (gpu_after (0, replicate 0x200000 0) []))"
    unfolding fields gpu_after_Nil snd_conv length_replicate by simp
  moreover have "unat (0xFFFF8 :: u64) = 0xFFFF8" "(0x10 :: u64) = 16" by simp_all
  ultimately show ?thesis
    using RTXMacStagePraminTransactional_atomic [OF sample_gpu(1), of ?stage "[]" "replicate 16 7" "replicate 16 0"
        "0x1000000" True] sample_gpu(2)
    unfolding fields gpu_after_Nil snd_conv by metis
qed

declare split_paired_All [simp]

end
