(* ===== verification/DmaBuffer.thy ===== *)
theory DmaBuffer
  imports DriverKit Dma
begin

text \<open>
  The DMA buffers of the driver (\<open>macos/Driver/RTXMacDma.cpp\<close>, \<open>RTXMacDma.hpp\<close>): a host buffer
  prepared for device DMA in chunks of at most 32 segments, its page list, the copies into it and
  the synchronised read of one word. The DriverKit services are a parameter: functions of the
  history, which records every object they hand out and every one given back. An array access
  outside an array is \<open>None\<close>.
\<close>

section \<open>Services\<close>

text \<open>\<open>IOAddressSegment\<close> has an address and a length, like the portable segment.\<close>

type_synonym IOAddressSegment = DmaSegment

record DmaServices =
  CreateBuffer :: "history \<Rightarrow> u64 \<Rightarrow> u64 \<Rightarrow> kern_return \<times> handle option"
  SetLength :: "history \<Rightarrow> handle \<Rightarrow> u64 \<Rightarrow> kern_return"
  NewChunks :: "history \<Rightarrow> u32 \<Rightarrow> bool"
  CreateCommand :: "history \<Rightarrow> kern_return \<times> handle option"
  PrepareForDMA :: "history \<Rightarrow> handle \<Rightarrow> handle \<Rightarrow> u64 \<Rightarrow> u64 \<Rightarrow>
    kern_return \<times> u64 \<times> u32 \<times> (nat \<Rightarrow> IOAddressSegment)"
  PerformOperation :: "history \<Rightarrow> bool \<Rightarrow> handle \<Rightarrow> u64 \<Rightarrow> u64 \<Rightarrow> u64 \<Rightarrow> handle \<Rightarrow> kern_return"
  GetAddressRange :: "history \<Rightarrow> handle \<Rightarrow> kern_return \<times> IOAddressSegment"
  LoadHost32 :: "history \<Rightarrow> u64 \<Rightarrow> u32"

section \<open>Data\<close>

definition kRTXMacDmaPageBytes :: u64 where "kRTXMacDmaPageBytes = 0x1000"
definition kRTXMacMaxDmaSegments :: u32 where "kRTXMacMaxDmaSegments = 32"
definition kRTXMacMaxDmaChunkBytes :: u64 where
  "kRTXMacMaxDmaChunkBytes = ucast kRTXMacMaxDmaSegments * kRTXMacDmaPageBytes"

record RTXMacPreparedDmaChunk =
  command :: "handle option"
  segments :: "IOAddressSegment list"
  segmentCount :: u32
  flags :: u64
  offset :: u64
  length' :: u64

record RTXMacPreparedDmaBuffer =
  memory :: "handle option"
  chunks :: "RTXMacPreparedDmaChunk list option"
  chunkCount :: u32
  length' :: u64

definition ResetChunk :: RTXMacPreparedDmaChunk where
  "ResetChunk = \<lparr>command = None,
     segments = replicate (unat kRTXMacMaxDmaSegments) \<lparr>DmaSegment.address = 0, length' = 0\<rparr>,
     segmentCount = 0, flags = 0, offset = 0, length' = 0\<rparr>"

definition ResetBuffer :: RTXMacPreparedDmaBuffer where
  "ResetBuffer = \<lparr>memory = None, chunks = None, chunkCount = 0, length' = 0\<rparr>"

definition CompleteChunk :: "RTXMacPreparedDmaChunk \<Rightarrow> history \<Rightarrow> RTXMacPreparedDmaChunk \<times> history" where
  "CompleteChunk c h = (ResetChunk, case command c of None \<Rightarrow> h
     | Some cmd \<Rightarrow> h @ [Dma (DmaCompleted cmd), Dma (CommandReleased cmd)])"

section \<open>Preparing\<close>

text \<open>The check of the segments a service returned. The counter is the number of segments left;
  reading past the array is \<open>None\<close>, an invalid segment \<open>Some None\<close>.\<close>

fun PrepareChunk_loop :: "IOAddressSegment list \<Rightarrow> nat \<Rightarrow> u64 \<Rightarrow> u64 \<Rightarrow> u64 option option" where
  "PrepareChunk_loop segs 0 len covered = Some (Some covered)"
| "PrepareChunk_loop [] (Suc n) len covered = None"
| "PrepareChunk_loop (s # segs) (Suc n) len covered =
     (if DmaSegment.length' s = 0 \<or> DmaSegment.address s mod kRTXMacDmaPageBytes \<noteq> 0 \<or>
         DmaSegment.length' s mod kRTXMacDmaPageBytes \<noteq> 0 \<or>
         - 1 - (DmaSegment.length' s - 1) < DmaSegment.address s \<or>
         len < covered \<or> len - covered < DmaSegment.length' s
      then Some None
      else PrepareChunk_loop segs n len (covered + DmaSegment.length' s))"

definition PrepareChunk ::
    "DmaServices option \<Rightarrow> handle option \<Rightarrow> u64 \<Rightarrow> u64 \<Rightarrow> RTXMacPreparedDmaChunk \<Rightarrow> history \<Rightarrow>
     (kern_return \<times> RTXMacPreparedDmaChunk \<times> history) option" where
  "PrepareChunk pci mem off len out h =
     (case (pci, mem) of
       (Some svc, Some m) \<Rightarrow>
         if len = 0 \<or> kRTXMacMaxDmaChunkBytes < len \<or> off mod kRTXMacDmaPageBytes \<noteq> 0 \<or>
            len mod kRTXMacDmaPageBytes \<noteq> 0 \<or> - 1 - len < off
         then Some (kIOReturnBadArgument, out, h)
         else let out = ResetChunk; (kr, created) = CreateCommand svc h
         in if kr \<noteq> kIOReturnSuccess \<or> created = None
            then Some (if kr = kIOReturnSuccess then kIOReturnError else kr, out, h)
         else let cmd = the created;
                  h = h @ [Dma (CommandCreated cmd)];
                  (kr, flags, segmentCount, answer) = PrepareForDMA svc h cmd m off len;
                  segments = map answer [0 ..< unat kRTXMacMaxDmaSegments]
         in if kr \<noteq> kIOReturnSuccess then Some (kr, out, h @ [Dma (CommandReleased cmd)])
         else let h = h @ [Dma (DmaPrepared cmd)]
         in do {
           covered \<leftarrow> (if 0 < segmentCount \<and> segmentCount \<le> kRTXMacMaxDmaSegments
                      then PrepareChunk_loop segments (unat segmentCount) len 0 else Some None);
           Some (if covered \<noteq> Some len
                 then (kIOReturnError, out, h @ [Dma (DmaCompleted cmd), Dma (CommandReleased cmd)])
                 else (kIOReturnSuccess, \<lparr>command = Some cmd,
                        segments = take (unat segmentCount) segments @
                          drop (unat segmentCount) (RTXMacPreparedDmaChunk.segments out),
                        segmentCount = segmentCount, flags = flags, offset = off, length' = len\<rparr>, h)) }
     | _ \<Rightarrow> Some (kIOReturnBadArgument, out, h))"

fun CompleteChunks :: "RTXMacPreparedDmaChunk list \<Rightarrow> history \<Rightarrow> history" where
  "CompleteChunks [] h = h"
| "CompleteChunks (c # cs) h = CompleteChunks cs (snd (CompleteChunk c h))"

text \<open>The loop that prepares the chunks. \<open>done\<close> holds the chunks prepared so far, the front of the
  array; on a failure they are completed and the array and the memory are given back.\<close>

function RTXMacAllocateAndPrepareDmaBuffer_loop ::
    "DmaServices option \<Rightarrow> handle \<Rightarrow> u64 \<Rightarrow> u32 \<Rightarrow> u32 \<Rightarrow> RTXMacPreparedDmaChunk list \<Rightarrow> history \<Rightarrow>
     (kern_return \<times> RTXMacPreparedDmaChunk list \<times> history) option" where
  "RTXMacAllocateAndPrepareDmaBuffer_loop pci mem len count i done' h =
     (if i < count
      then let off = ucast i * kRTXMacMaxDmaChunkBytes;
               remaining = len - off;
               chunkLength = (if remaining < kRTXMacMaxDmaChunkBytes then remaining else kRTXMacMaxDmaChunkBytes)
      in case PrepareChunk pci (Some mem) off chunkLength ResetChunk h of
           None \<Rightarrow> None
         | Some (kr, c, h) \<Rightarrow>
             if kr \<noteq> kIOReturnSuccess
             then Some (kr, [], CompleteChunks done' h @ [Dma ChunksFreed, Dma (BufferReleased mem)])
             else RTXMacAllocateAndPrepareDmaBuffer_loop pci mem len count (i + 1) (done' @ [c]) h
      else Some (kIOReturnSuccess, done', h))"
  by pat_completeness auto

termination RTXMacAllocateAndPrepareDmaBuffer_loop
  by (relation "measure (\<lambda>(_, _, _, count, i, _, _). unat count - unat i)")
    (auto simp: unat_inc word_less_nat_alt)

definition RTXMacAllocateAndPrepareDmaBuffer ::
    "DmaServices option \<Rightarrow> u64 \<Rightarrow> RTXMacPreparedDmaBuffer \<Rightarrow> history \<Rightarrow>
     (kern_return \<times> RTXMacPreparedDmaBuffer \<times> history) option" where
  "RTXMacAllocateAndPrepareDmaBuffer pci len out h =
     (case pci of None \<Rightarrow> Some (kIOReturnBadArgument, out, h)
      | Some svc \<Rightarrow>
        if len = 0 \<or> len mod kRTXMacDmaPageBytes \<noteq> 0 then Some (kIOReturnBadArgument, out, h)
        else let out = ResetBuffer
        in if - 1 - (kRTXMacMaxDmaChunkBytes - 1) < len then Some (kIOReturnNoResources, out, h)
        else let chunkCount64 = (len + kRTXMacMaxDmaChunkBytes - 1) div kRTXMacMaxDmaChunkBytes
        in if chunkCount64 = 0 \<or> 0xFFFFFFFF < chunkCount64 then Some (kIOReturnNoResources, out, h)
        else let count = ucast chunkCount64; (kr, created) = CreateBuffer svc h len kRTXMacDmaPageBytes
        in if kr \<noteq> kIOReturnSuccess \<or> created = None
           then Some (if kr = kIOReturnSuccess then kIOReturnNoMemory else kr, out, h)
        else let mem = the created; h = h @ [Dma (BufferCreated mem)]; kr = SetLength svc h mem len
        in if kr \<noteq> kIOReturnSuccess then Some (kr, out, h @ [Dma (BufferReleased mem)])
        else if \<not> NewChunks svc h count then Some (kIOReturnNoMemory, out, h @ [Dma (BufferReleased mem)])
        else do {
          (kr, cs, h) \<leftarrow> RTXMacAllocateAndPrepareDmaBuffer_loop (Some svc) mem len count 0 []
                         (h @ [Dma ChunksAllocated]);
          Some (if kr \<noteq> kIOReturnSuccess then (kr, out, h)
                else (kIOReturnSuccess, \<lparr>memory = Some mem, chunks = Some cs, chunkCount = count,
                        length' = len\<rparr>, h)) })"

section \<open>Giving back\<close>

fun RTXMacReleasePreparedDmaBuffer_loop ::
    "RTXMacPreparedDmaChunk list \<Rightarrow> nat \<Rightarrow> history \<Rightarrow> history option" where
  "RTXMacReleasePreparedDmaBuffer_loop cs 0 h = Some h"
| "RTXMacReleasePreparedDmaBuffer_loop [] (Suc n) h = None"
| "RTXMacReleasePreparedDmaBuffer_loop (c # cs) (Suc n) h =
     RTXMacReleasePreparedDmaBuffer_loop cs n (snd (CompleteChunk c h))"

definition RTXMacReleasePreparedDmaBuffer ::
    "RTXMacPreparedDmaBuffer \<Rightarrow> history \<Rightarrow> (RTXMacPreparedDmaBuffer \<times> history) option" where
  "RTXMacReleasePreparedDmaBuffer b h = do {
     h \<leftarrow> (case chunks b of None \<Rightarrow> Some h
          | Some cs \<Rightarrow> do {
              h \<leftarrow> RTXMacReleasePreparedDmaBuffer_loop cs (unat (chunkCount b)) h;
              Some (h @ [Dma ChunksFreed]) });
     let h = (case memory b of None \<Rightarrow> h | Some m \<Rightarrow> h @ [Dma (BufferReleased m)]);
     Some (ResetBuffer, h) }"

section \<open>The page list\<close>

text \<open>The pages of one segment. The caller's array is filled from index 0, only below
  \<open>expected\<close>, which its capacity covers; here it is the list of the pages written. On an error the
  count stays 0, and what the array then holds is not kept.\<close>

partial_function (option) CollectSegment_pages ::
    "u64 \<Rightarrow> u64 \<Rightarrow> u32 \<Rightarrow> u64 \<Rightarrow> u64 list \<Rightarrow> (bool \<times> u64 list) option" where
  "CollectSegment_pages base len expected off pages =
     (if off < len
      then if unat expected \<le> List.length pages then Some (False, pages)
           else CollectSegment_pages base len expected (off + kRTXMacDmaPageBytes) (pages @ [base + off])
      else Some (True, pages))"

text \<open>The segments of one chunk; \<open>Some None\<close> where the code returns an error.\<close>

fun CollectChunk_loop ::
    "IOAddressSegment list \<Rightarrow> nat \<Rightarrow> u64 \<Rightarrow> u32 \<Rightarrow> u64 \<Rightarrow> u64 list \<Rightarrow> (u64 \<times> u64 list) option option" where
  "CollectChunk_loop segs 0 len expected covered pages = Some (Some (covered, pages))"
| "CollectChunk_loop [] (Suc n) len expected covered pages = None"
| "CollectChunk_loop (s # segs) (Suc n) len expected covered pages =
     (if DmaSegment.length' s = 0 \<or> DmaSegment.address s mod kRTXMacDmaPageBytes \<noteq> 0 \<or>
         DmaSegment.length' s mod kRTXMacDmaPageBytes \<noteq> 0 \<or>
         - 1 - (DmaSegment.length' s - 1) < DmaSegment.address s \<or>
         len < covered \<or> len - covered < DmaSegment.length' s
      then Some None
      else do {
        (fits, pages) \<leftarrow> CollectSegment_pages (DmaSegment.address s) (DmaSegment.length' s) expected 0 pages;
        if \<not> fits then Some None
        else CollectChunk_loop segs n len expected (covered + DmaSegment.length' s) pages })"

text \<open>The page addresses and their count are the result of the function, so the null checks of these two
  output pointers have no counterpart; a null buffer is one without memory or chunks.\<close>

fun RTXMacCollectDmaPageAddresses_loop ::
    "RTXMacPreparedDmaChunk list \<Rightarrow> nat \<Rightarrow> u32 \<Rightarrow> u64 \<Rightarrow> u64 list \<Rightarrow> (u64 \<times> u64 list) option option" where
  "RTXMacCollectDmaPageAddresses_loop cs 0 expected expectedOffset pages = Some (Some (expectedOffset, pages))"
| "RTXMacCollectDmaPageAddresses_loop [] (Suc n) expected expectedOffset pages = None"
| "RTXMacCollectDmaPageAddresses_loop (c # cs) (Suc n) expected expectedOffset pages =
     (let len = RTXMacPreparedDmaChunk.length' c in
      if command c = None \<or> RTXMacPreparedDmaChunk.offset c \<noteq> expectedOffset \<or> len = 0 \<or>
         len mod kRTXMacDmaPageBytes \<noteq> 0 \<or> segmentCount c = 0 \<or> kRTXMacMaxDmaSegments < segmentCount c
      then Some None
      else do {
        r \<leftarrow> CollectChunk_loop (segments c) (unat (segmentCount c)) len expected 0 pages;
        case r of None \<Rightarrow> Some None
        | Some (covered, pages) \<Rightarrow>
            if covered \<noteq> len \<or> - 1 - len < expectedOffset then Some None
            else RTXMacCollectDmaPageAddresses_loop cs n expected (expectedOffset + len) pages })"

definition RTXMacCollectDmaPageAddresses ::
    "RTXMacPreparedDmaBuffer option \<Rightarrow> u32 \<Rightarrow> (kern_return \<times> u64 list) option" where
  "RTXMacCollectDmaPageAddresses prepared pageCapacity =
     (case prepared of None \<Rightarrow> Some (kIOReturnBadArgument, [])
      | Some b \<Rightarrow>
        if memory b = None \<or> chunks b = None \<or> RTXMacPreparedDmaBuffer.length' b = 0 \<or>
           RTXMacPreparedDmaBuffer.length' b mod kRTXMacDmaPageBytes \<noteq> 0
        then Some (kIOReturnBadArgument, [])
        else let expected64 = RTXMacPreparedDmaBuffer.length' b div kRTXMacDmaPageBytes
        in if expected64 = 0 \<or> 0xFFFFFFFF < expected64 \<or> ucast pageCapacity < expected64
           then Some (kIOReturnNoResources, [])
        else do {
          r \<leftarrow> RTXMacCollectDmaPageAddresses_loop (the (chunks b)) (unat (chunkCount b)) (ucast expected64) 0 [];
          Some (case r of None \<Rightarrow> (kIOReturnError, [])
            | Some (expectedOffset, pages) \<Rightarrow>
                if expectedOffset \<noteq> RTXMacPreparedDmaBuffer.length' b \<or>
                   List.length pages \<noteq> unat (ucast expected64 :: u32)
                then (kIOReturnError, []) else (kIOReturnSuccess, pages)) })"

section \<open>Copies\<close>

fun SynchronizePreparedWrites_loop ::
    "DmaServices \<Rightarrow> RTXMacPreparedDmaBuffer \<Rightarrow> handle \<Rightarrow> RTXMacPreparedDmaChunk list \<Rightarrow> nat \<Rightarrow> history \<Rightarrow>
     (kern_return \<times> history) option" where
  "SynchronizePreparedWrites_loop svc b m cs 0 h = Some (kIOReturnSuccess, h)"
| "SynchronizePreparedWrites_loop svc b m [] (Suc n) h = None"
| "SynchronizePreparedWrites_loop svc b m (c # cs) (Suc n) h =
     (case command c of None \<Rightarrow> Some (kIOReturnError, h)
      | Some cmd \<Rightarrow>
        let len = RTXMacPreparedDmaChunk.length' c; off = RTXMacPreparedDmaChunk.offset c in
        if len = 0 \<or> RTXMacPreparedDmaBuffer.length' b < off \<or> RTXMacPreparedDmaBuffer.length' b - off < len
        then Some (kIOReturnError, h)
        else let kr = PerformOperation svc h True cmd 0 len off m;
                 h = h @ [Dma (DmaSynced True cmd 0 len off)]
        in if kr \<noteq> kIOReturnSuccess then Some (kr, h)
           else SynchronizePreparedWrites_loop svc b m cs n h)"

definition SynchronizePreparedWrites ::
    "DmaServices \<Rightarrow> RTXMacPreparedDmaBuffer option \<Rightarrow> history \<Rightarrow> (kern_return \<times> history) option" where
  "SynchronizePreparedWrites svc prepared h =
     (case prepared of None \<Rightarrow> Some (kIOReturnBadArgument, h)
      | Some b \<Rightarrow> (case (memory b, chunks b) of
          (Some m, Some cs) \<Rightarrow>
            if RTXMacPreparedDmaBuffer.length' b = 0 then Some (kIOReturnBadArgument, h)
            else SynchronizePreparedWrites_loop svc b m cs (unat (chunkCount b)) h
        | _ \<Rightarrow> Some (kIOReturnBadArgument, h)))"

text \<open>The two copies. A source pointer is a byte list, reading past it is \<open>None\<close>; the comparisons
  with the largest \<open>size_t\<close> are always false on a 64-bit host and are kept as such.\<close>

definition RTXMacCopyIntoPreparedDmaBufferPadded ::
    "DmaServices \<Rightarrow> RTXMacPreparedDmaBuffer option \<Rightarrow> byte list option \<Rightarrow> u64 \<Rightarrow> history \<Rightarrow>
     (kern_return \<times> history) option" where
  "RTXMacCopyIntoPreparedDmaBufferPadded svc prepared source sourceBytes h =
     (case (prepared, source) of
       (Some b, Some src) \<Rightarrow>
         if memory b = None \<or> chunks b = None \<or> sourceBytes = 0 \<or>
            RTXMacPreparedDmaBuffer.length' b < sourceBytes \<or> - 1 < RTXMacPreparedDmaBuffer.length' b \<or>
            - 1 < sourceBytes
         then Some (kIOReturnBadArgument, h)
         else let (kr, range) = GetAddressRange svc h (the (memory b))
         in if kr \<noteq> kIOReturnSuccess then Some (kr, h)
         else if DmaSegment.address range = 0 \<or> DmaSegment.length' range < RTXMacPreparedDmaBuffer.length' b
         then Some (kIOReturnNoResources, h)
         else do {
           bytes \<leftarrow> rd_seq src 0 (unat sourceBytes);
           SynchronizePreparedWrites svc prepared
             (h @ [Dma (HostFill (DmaSegment.address range) (RTXMacPreparedDmaBuffer.length' b)),
                   Dma (HostStore (DmaSegment.address range) bytes)]) }
     | _ \<Rightarrow> Some (kIOReturnBadArgument, h))"

definition RTXMacCopyIntoPreparedDmaBuffer ::
    "DmaServices \<Rightarrow> RTXMacPreparedDmaBuffer option \<Rightarrow> byte list option \<Rightarrow> u64 \<Rightarrow> history \<Rightarrow>
     (kern_return \<times> history) option" where
  "RTXMacCopyIntoPreparedDmaBuffer svc prepared source sourceBytes h =
     (case prepared of None \<Rightarrow> Some (kIOReturnBadArgument, h)
      | Some b \<Rightarrow> if sourceBytes \<noteq> RTXMacPreparedDmaBuffer.length' b then Some (kIOReturnBadArgument, h)
          else RTXMacCopyIntoPreparedDmaBufferPadded svc prepared source sourceBytes h)"

definition RTXMacZeroPreparedDmaBuffer ::
    "DmaServices \<Rightarrow> RTXMacPreparedDmaBuffer option \<Rightarrow> history \<Rightarrow> (kern_return \<times> history) option" where
  "RTXMacZeroPreparedDmaBuffer svc prepared h =
     (case prepared of None \<Rightarrow> Some (kIOReturnBadArgument, h)
      | Some b \<Rightarrow>
        if memory b = None \<or> chunks b = None \<or> RTXMacPreparedDmaBuffer.length' b = 0 \<or>
           - 1 < RTXMacPreparedDmaBuffer.length' b
        then Some (kIOReturnBadArgument, h)
        else let (kr, range) = GetAddressRange svc h (the (memory b))
        in if kr \<noteq> kIOReturnSuccess then Some (kr, h)
        else if DmaSegment.address range = 0 \<or> DmaSegment.length' range < RTXMacPreparedDmaBuffer.length' b
        then Some (kIOReturnNoResources, h)
        else SynchronizePreparedWrites svc prepared
          (h @ [Dma (HostFill (DmaSegment.address range) (RTXMacPreparedDmaBuffer.length' b))]))"

section \<open>The synchronised read\<close>

fun FindChunk_loop ::
    "RTXMacPreparedDmaChunk list \<Rightarrow> nat \<Rightarrow> u64 \<Rightarrow> u64 \<Rightarrow> RTXMacPreparedDmaChunk option option" where
  "FindChunk_loop cs 0 off byteCount = Some None"
| "FindChunk_loop [] (Suc n) off byteCount = None"
| "FindChunk_loop (c # cs) (Suc n) off byteCount =
     (let coff = RTXMacPreparedDmaChunk.offset c; len = RTXMacPreparedDmaChunk.length' c in
      if command c = None \<or> len = 0 then Some None
      else if coff \<le> off \<and> off - coff \<le> len \<and> byteCount \<le> len - (off - coff) then Some (Some c)
      else FindChunk_loop cs n off byteCount)"

definition FindChunk ::
    "RTXMacPreparedDmaBuffer option \<Rightarrow> u64 \<Rightarrow> u64 \<Rightarrow> RTXMacPreparedDmaChunk option option" where
  "FindChunk prepared off byteCount =
     (case prepared of None \<Rightarrow> Some None
      | Some b \<Rightarrow> (case chunks b of None \<Rightarrow> Some None
        | Some cs \<Rightarrow>
            if byteCount = 0 \<or> RTXMacPreparedDmaBuffer.length' b < off \<or>
               RTXMacPreparedDmaBuffer.length' b - off < byteCount then Some None
            else FindChunk_loop cs (unat (chunkCount b)) off byteCount))"

definition RTXMacReadPreparedDmaU32 ::
    "DmaServices \<Rightarrow> RTXMacPreparedDmaBuffer option \<Rightarrow> u64 \<Rightarrow> history \<Rightarrow> (kern_return \<times> u32 \<times> history) option" where
  "RTXMacReadPreparedDmaU32 svc prepared off h =
     (if (case prepared of None \<Rightarrow> True | Some b \<Rightarrow> memory b = None) \<or> off AND 3 \<noteq> 0
      then Some (kIOReturnBadArgument, 0, h)
      else do {
        found \<leftarrow> FindChunk prepared off 4;
        case found of None \<Rightarrow> Some (kIOReturnNoResources, 0, h)
        | Some c \<Rightarrow>
            let m = the (memory (the prepared));
                localOffset = off - RTXMacPreparedDmaChunk.offset c;
                kr = PerformOperation svc h False (the (command c)) localOffset 4 off m;
                h = h @ [Dma (DmaSynced False (the (command c)) localOffset 4 off)]
            in if kr \<noteq> kIOReturnSuccess then Some (kr, 0, h)
            else let (kr, range) = GetAddressRange svc h m
            in if kr \<noteq> kIOReturnSuccess then Some (kr, 0, h)
            else if DmaSegment.address range = 0 \<or> DmaSegment.length' range < off \<or>
                    DmaSegment.length' range - off < 4
            then Some (kIOReturnNoResources, 0, h)
            else Some (kIOReturnSuccess, LoadHost32 svc h (DmaSegment.address range + off), h) })"

section \<open>The ledger\<close>

text \<open>What the driver holds after a history: objects handed out minus objects given back. A command
  that is prepared also holds a mapping.\<close>

datatype resource = Buffer handle | ChunkArray | Command handle | Mapping handle

fun ledger_step :: "Event \<Rightarrow> resource \<Rightarrow> int" where
  "ledger_step (Dma (BufferCreated m)) r = (if r = Buffer m then 1 else 0)"
| "ledger_step (Dma (BufferReleased m)) r = (if r = Buffer m then - 1 else 0)"
| "ledger_step (Dma ChunksAllocated) r = (if r = ChunkArray then 1 else 0)"
| "ledger_step (Dma ChunksFreed) r = (if r = ChunkArray then - 1 else 0)"
| "ledger_step (Dma (CommandCreated c)) r = (if r = Command c then 1 else 0)"
| "ledger_step (Dma (CommandReleased c)) r = (if r = Command c then - 1 else 0)"
| "ledger_step (Dma (DmaPrepared c)) r = (if r = Mapping c then 1 else 0)"
| "ledger_step (Dma (DmaCompleted c)) r = (if r = Mapping c then - 1 else 0)"
| "ledger_step _ r = 0"

definition ledger :: "history \<Rightarrow> resource \<Rightarrow> int" where
  "ledger h r = (\<Sum>e\<leftarrow>h. ledger_step e r)"

lemma ledger_simps [simp]:
  "ledger [] r = 0" "ledger (e # h) r = ledger_step e r + ledger h r" "ledger (h @ h') r = ledger h r + ledger h' r"
  by (simp_all add: ledger_def)

text \<open>What a chunk, a list of chunks and a buffer own.\<close>

definition chunk_owns :: "RTXMacPreparedDmaChunk \<Rightarrow> resource \<Rightarrow> int" where
  "chunk_owns c r = (case command c of None \<Rightarrow> 0
     | Some cmd \<Rightarrow> (if r = Command cmd \<or> r = Mapping cmd then 1 else 0))"

definition chunks_own :: "RTXMacPreparedDmaChunk list \<Rightarrow> resource \<Rightarrow> int" where
  "chunks_own cs r = (\<Sum>c\<leftarrow>cs. chunk_owns c r)"

definition owns :: "RTXMacPreparedDmaBuffer \<Rightarrow> resource \<Rightarrow> int" where
  "owns b r = (case memory b of None \<Rightarrow> 0 | Some m \<Rightarrow> if r = Buffer m then 1 else 0) +
     (case chunks b of None \<Rightarrow> 0 | Some cs \<Rightarrow> (if r = ChunkArray then 1 else 0) + chunks_own cs r)"

lemma chunks_own_simps [simp]:
  "chunks_own [] r = 0" "chunks_own (c # cs) r = chunk_owns c r + chunks_own cs r"
  "chunks_own (cs @ ds) r = chunks_own cs r + chunks_own ds r"
  by (simp_all add: chunks_own_def)

lemma owns_ResetBuffer [simp]: "owns ResetBuffer r = 0"
  by (simp add: owns_def ResetBuffer_def)

lemma ledger_CompleteChunk: "ledger (snd (CompleteChunk c h)) r = ledger h r - chunk_owns c r"
  by (simp add: CompleteChunk_def chunk_owns_def split: option.split)

lemma ledger_CompleteChunks: "ledger (CompleteChunks cs h) r = ledger h r - chunks_own cs r"
  by (induction cs arbitrary: h) (simp_all add: ledger_CompleteChunk)

lemma release_loop:
  "n \<le> List.length cs \<Longrightarrow> \<exists>h'. RTXMacReleasePreparedDmaBuffer_loop cs n h = Some h' \<and>
    ledger h' r = ledger h r - chunks_own (take n cs) r"
  by (induction cs n h rule: RTXMacReleasePreparedDmaBuffer_loop.induct) (auto simp: ledger_CompleteChunk)

text \<open>Releasing gives back exactly what a buffer owns.\<close>

lemma RTXMacReleasePreparedDmaBuffer_cases:
  assumes "\<forall>cs. chunks b = Some cs \<longrightarrow> List.length cs = unat (chunkCount b)"
  shows "\<exists>h'. RTXMacReleasePreparedDmaBuffer b h = Some (ResetBuffer, h') \<and>
    (\<forall>r. ledger h' r = ledger h r - owns b r)"
proof (cases "chunks b")
  case None
  then show ?thesis
    by (auto simp: RTXMacReleasePreparedDmaBuffer_def owns_def Let_def split: option.split)
next
  case (Some cs)
  have len: "List.length cs = unat (chunkCount b)" using assms Some by blast
  obtain h1 where h1: "RTXMacReleasePreparedDmaBuffer_loop cs (unat (chunkCount b)) h = Some h1"
    using release_loop [of "unat (chunkCount b)" cs h] len by auto
  moreover have "ledger h1 r = ledger h r - chunks_own cs r" for r
    using release_loop [of "unat (chunkCount b)" cs h r] len h1 by simp
  ultimately show ?thesis using Some
    by (auto simp: RTXMacReleasePreparedDmaBuffer_def owns_def Let_def split: option.split)
qed

section \<open>A prepared chunk\<close>

definition chunk_segments :: "RTXMacPreparedDmaChunk \<Rightarrow> DmaSegment list" where
  "chunk_segments c = take (unat (segmentCount c)) (segments c)"

definition prepared_chunk :: "RTXMacPreparedDmaChunk \<Rightarrow> bool" where
  "prepared_chunk c \<longleftrightarrow> command c \<noteq> None \<and> List.length (segments c) = 32 \<and> segmentCount c \<le> 32 \<and>
     unat (RTXMacPreparedDmaChunk.length' c) \<le> 0x20000 \<and>
     page_request_ok (chunk_segments c) (RTXMacPreparedDmaChunk.length' c) kRTXMacDmaPageBytes"

lemma page_size_4k [simp]: "page_size_ok kRTXMacDmaPageBytes"
  by (simp add: page_size_ok_def kRTXMacDmaPageBytes_def)

lemma unat_4k [simp]: "unat kRTXMacDmaPageBytes = 4096"
  by (simp add: kRTXMacDmaPageBytes_def)

lemma segment_check_iff:
  "\<not> (DmaSegment.length' s = 0 \<or> DmaSegment.address s mod kRTXMacDmaPageBytes \<noteq> 0 \<or>
      DmaSegment.length' s mod kRTXMacDmaPageBytes \<noteq> 0 \<or>
      - 1 - (DmaSegment.length' s - 1) < DmaSegment.address s) \<longleftrightarrow>
    seg_ok s \<and> seg_aligned kRTXMacDmaPageBytes s"
proof (cases "DmaSegment.length' s = 0")
  case False
  then have "0 < unat (DmaSegment.length' s)" by (simp add: unat_gt_0)
  then show ?thesis
    using seg_guard [OF False, of "DmaSegment.address s"] False
    unfolding seg_ok_def seg_aligned_iff not_less [symmetric] by blast
qed (simp add: seg_ok_def)

lemma covered_check_iff:
  "\<not> (len < covered \<or> len - covered < n) \<longleftrightarrow> unat covered + unat n \<le> unat (len :: u64)"
  using sub_less_iff [of covered len n] by (cases "len < covered") (auto simp: word_less_nat_alt not_less word_le_nat_alt)

lemma PrepareChunk_loop_cases:
  "n \<le> List.length segs \<Longrightarrow> \<exists>r. PrepareChunk_loop segs n len covered = Some r \<and>
    (r = Some len \<longleftrightarrow> (\<forall>s \<in> set (take n segs). seg_ok s \<and> seg_aligned kRTXMacDmaPageBytes s) \<and>
      unat covered + seg_total (take n segs) = unat len)"
proof (induction segs n len covered rule: PrepareChunk_loop.induct)
  case (1 segs len covered)
  then show ?case by (auto simp: seg_total_def word_unat_eq_iff)
next
  case (3 s segs n len covered)
  let ?n = "DmaSegment.length' s"
  show ?case
  proof (cases "seg_ok s \<and> seg_aligned kRTXMacDmaPageBytes s \<and> unat covered + unat ?n \<le> unat len")
    case True
    then have "unat (covered + ?n) = unat covered + unat ?n"
      using unat_lt(4) [of len] by (simp add: unat_add_nowrap)
    moreover have step: "PrepareChunk_loop (s # segs) (Suc n) len covered = PrepareChunk_loop segs n len (covered + ?n)"
      using True segment_check_iff [of s] covered_check_iff [of len covered ?n]
      unfolding PrepareChunk_loop.simps(3) by (metis (full_types))
    ultimately show ?thesis
      using 3 True segment_check_iff [of s] covered_check_iff [of len covered ?n]
      unfolding step by (auto simp: seg_total_def)
  next
    case False
    have "PrepareChunk_loop (s # segs) (Suc n) len covered = Some None"
      using False segment_check_iff [of s] covered_check_iff [of len covered ?n]
      unfolding PrepareChunk_loop.simps(3) by (metis (full_types))
    then show ?thesis using False by (auto simp: seg_total_def)
  qed
qed simp

text \<open>Preparing a chunk: no array is left, a failure leaves nothing behind, a success is a prepared
  chunk for the requested range.\<close>

lemma max_chunk [simp]: "unat kRTXMacMaxDmaChunkBytes = 0x20000" "unat kRTXMacMaxDmaSegments = 32"
  by (simp_all add: kRTXMacMaxDmaChunkBytes_def kRTXMacMaxDmaSegments_def kRTXMacDmaPageBytes_def)

lemma PrepareChunk_cases:
  "\<exists>kr c h'. PrepareChunk pci mem off len ResetChunk h = Some (kr, c, h') \<and>
    (\<forall>r. ledger h' r = ledger h r + (if kr = kIOReturnSuccess then chunk_owns c r else 0)) \<and>
    (kr = kIOReturnSuccess \<longrightarrow> prepared_chunk c \<and> RTXMacPreparedDmaChunk.offset c = off \<and>
      RTXMacPreparedDmaChunk.length' c = len)"
proof (cases "\<exists>svc m. pci = Some svc \<and> mem = Some m \<and>
    \<not> (len = 0 \<or> kRTXMacMaxDmaChunkBytes < len \<or> off mod kRTXMacDmaPageBytes \<noteq> 0 \<or>
      len mod kRTXMacDmaPageBytes \<noteq> 0 \<or> - 1 - len < off)")
  case False
  then have "PrepareChunk pci mem off len ResetChunk h = Some (kIOReturnBadArgument, ResetChunk, h)"
    by (cases pci; cases mem) (simp_all add: PrepareChunk_def)
  then show ?thesis by simp
next
  case True
  then obtain svc m where pm: "pci = Some svc" "mem = Some m"
    and g: "\<not> (len = 0 \<or> kRTXMacMaxDmaChunkBytes < len \<or> off mod kRTXMacDmaPageBytes \<noteq> 0 \<or>
      len mod kRTXMacDmaPageBytes \<noteq> 0 \<or> - 1 - len < off)" by (elim exE conjE) (rule that)
  obtain kr created where cc: "CreateCommand svc h = (kr, created)" by force
  show ?thesis
  proof (cases "kr \<noteq> kIOReturnSuccess \<or> created = None")
    case True
    then show ?thesis unfolding pm PrepareChunk_def option.case prod.case if_not_P [OF g] Let_def cc by auto
  next
    case False
    then obtain cmd where cmd: "created = Some cmd" "kr = kIOReturnSuccess" by auto
    let ?h1 = "h @ [Dma (CommandCreated cmd)]"
    obtain kr2 fl n answer where pf: "PrepareForDMA svc ?h1 cmd m off len = (kr2, fl, n, answer)"
      by (metis prod_cases4)
    let ?segs = "map answer [0 ..< 32]" and ?h2 = "?h1 @ [Dma (DmaPrepared cmd)]"
    let ?check = "if 0 < n \<and> n \<le> kRTXMacMaxDmaSegments then PrepareChunk_loop ?segs (unat n) len 0 else Some None"
    let ?c = "\<lparr>command = Some cmd, segments = take (unat n) ?segs @ drop (unat n) (segments ResetChunk),
      segmentCount = n, flags = fl, offset = off, length' = len\<rparr>"
    have eq: "PrepareChunk pci mem off len ResetChunk h =
        (if kr2 \<noteq> kIOReturnSuccess then Some (kr2, ResetChunk, ?h1 @ [Dma (CommandReleased cmd)])
         else do { covered \<leftarrow> ?check;
           Some (if covered \<noteq> Some len
             then (kIOReturnError, ResetChunk, ?h2 @ [Dma (DmaCompleted cmd), Dma (CommandReleased cmd)])
             else (kIOReturnSuccess, ?c, ?h2)) })"
      unfolding pm PrepareChunk_def option.case prod.case if_not_P [OF g] Let_def cc cmd option.sel max_chunk
      by (simp add: pf)
    have len32: "n \<le> 32 \<Longrightarrow> unat n \<le> 32" by (simp add: word_le_nat_alt)
    obtain covered where check: "?check = Some covered"
      "covered = Some len \<longrightarrow> 0 < n \<and> n \<le> 32 \<and>
        (\<forall>s \<in> set (take (unat n) ?segs). seg_ok s \<and> seg_aligned kRTXMacDmaPageBytes s) \<and>
        seg_total (take (unat n) ?segs) = unat len"
    proof (cases "0 < n \<and> n \<le> 32")
      case True
      then show ?thesis using that PrepareChunk_loop_cases [of "unat n" ?segs len 0] len32
        by (auto simp: kRTXMacMaxDmaSegments_def)
    next
      case False
      then show ?thesis using that by (auto simp: kRTXMacMaxDmaSegments_def)
    qed
    show ?thesis
    proof (cases "kr2 = kIOReturnSuccess \<and> covered = Some len")
      case False
      then show ?thesis unfolding eq using check by (auto simp: chunk_owns_def)
    next
      case s: True
      have n: "0 < n" "n \<le> 32" "unat n \<le> 32" using check(2) s len32 by auto
      have "unat len \<le> 0x20000" "0 < unat len" "4096 dvd unat len"
        using g by (auto simp: word_less_nat_alt unat_gt_0 word_mod_eq_0_iff)
      moreover have "take (unat n) (take (unat n) ?segs @ drop (unat n) (segments ResetChunk)) = take (unat n) ?segs"
        using n by simp
      moreover have "take (unat n) ?segs \<noteq> []" using n by (simp add: unat_gt_0)
      ultimately have "prepared_chunk ?c"
        using n check(2) s g
        by (simp add: prepared_chunk_def chunk_segments_def page_request_ok_def ResetChunk_def del: take_map)
      then show ?thesis unfolding eq using check(1) s by (auto simp: chunk_owns_def)
    qed
  qed
qed

section \<open>A prepared buffer\<close>

definition chunk_pieces :: "RTXMacPreparedDmaChunk list \<Rightarrow> (nat \<times> nat) list" where
  "chunk_pieces cs = map (\<lambda>c. (unat (RTXMacPreparedDmaChunk.offset c), unat (RTXMacPreparedDmaChunk.length' c))) cs"

text \<open>The chunks cover the buffer one after the other, and each is mapped page by page.\<close>

definition prepared_buffer :: "RTXMacPreparedDmaBuffer \<Rightarrow> bool" where
  "prepared_buffer b \<longleftrightarrow> (\<exists>m cs. memory b = Some m \<and> chunks b = Some cs \<and>
     List.length cs = unat (chunkCount b) \<and> (\<forall>c \<in> set cs. prepared_chunk c) \<and>
     RTXMacPreparedDmaBuffer.length' b \<noteq> 0 \<and> 4096 dvd unat (RTXMacPreparedDmaBuffer.length' b) \<and>
     tiles 0 (chunk_pieces cs) (unat (RTXMacPreparedDmaBuffer.length' b)))"

lemma chunk_pieces_simps [simp]:
  "chunk_pieces [] = []" "chunk_pieces (cs @ ds) = chunk_pieces cs @ chunk_pieces ds"
  "chunk_pieces (c # cs) = (unat (RTXMacPreparedDmaChunk.offset c), unat (RTXMacPreparedDmaChunk.length' c)) # chunk_pieces cs"
  by (simp_all add: chunk_pieces_def)

lemma chunk_window:
  assumes "unat (i :: u32) * 0x20000 < unat (len :: u64)"
  shows "unat (ucast i * kRTXMacMaxDmaChunkBytes) = unat i * 0x20000"
    and "unat (len - ucast i * kRTXMacMaxDmaChunkBytes) = unat len - unat i * 0x20000"
    and "unat (if len - ucast i * kRTXMacMaxDmaChunkBytes < kRTXMacMaxDmaChunkBytes
      then len - ucast i * kRTXMacMaxDmaChunkBytes else kRTXMacMaxDmaChunkBytes) =
      min 0x20000 (unat len - unat i * 0x20000)"
proof -
  show off: "unat (ucast i * kRTXMacMaxDmaChunkBytes) = unat i * 0x20000"
    using assms unat_lt(4) [of len] by (subst unat_mult_nowrap) simp_all
  then have "ucast i * kRTXMacMaxDmaChunkBytes \<le> len" using assms by (simp add: word_le_nat_alt)
  then show rem: "unat (len - ucast i * kRTXMacMaxDmaChunkBytes) = unat len - unat i * 0x20000"
    using off by (simp add: unat_sub)
  show "unat (if len - ucast i * kRTXMacMaxDmaChunkBytes < kRTXMacMaxDmaChunkBytes
      then len - ucast i * kRTXMacMaxDmaChunkBytes else kRTXMacMaxDmaChunkBytes) =
      min 0x20000 (unat len - unat i * 0x20000)"
    using rem by (simp add: word_less_nat_alt)
qed

text \<open>The preparing loop, from chunk \<open>i\<close> on.\<close>

lemma allocate_loop:
  assumes count: "\<forall>k < unat count. k * 0x20000 < unat len" "unat len \<le> unat count * 0x20000"
  shows "unat i \<le> unat count \<Longrightarrow> List.length cs = unat i \<Longrightarrow> \<forall>c \<in> set cs. prepared_chunk c \<Longrightarrow>
    tiles 0 (chunk_pieces cs) (min (unat i * 0x20000) (unat len)) \<Longrightarrow>
    \<exists>kr ds h'. RTXMacAllocateAndPrepareDmaBuffer_loop pci mem len count i cs h = Some (kr, ds, h') \<and>
      (\<forall>r. ledger h' r = ledger h r - chunks_own cs r + (if kr = kIOReturnSuccess then chunks_own ds r
         else - (if r = ChunkArray \<or> r = Buffer mem then 1 else 0))) \<and>
      (kr = kIOReturnSuccess \<longrightarrow> List.length ds = unat count \<and> (\<forall>c \<in> set ds. prepared_chunk c) \<and>
        tiles 0 (chunk_pieces ds) (unat len))"
proof (induction "unat count - unat i" arbitrary: i cs h)
  case 0
  then have "unat i = unat count" "\<not> i < count" by (simp_all add: word_less_nat_alt)
  then show ?case using 0 count(2)
    by (subst RTXMacAllocateAndPrepareDmaBuffer_loop.simps) (simp add: min_absorb2)
next
  case (Suc d)
  then have i: "i < count" by (simp add: word_less_nat_alt)
  then have in_len: "unat i * 0x20000 < unat len" using count(1) by (simp add: word_less_nat_alt)
  note w = chunk_window [OF in_len]
  let ?off = "ucast i * kRTXMacMaxDmaChunkBytes"
  let ?n = "if len - ?off < kRTXMacMaxDmaChunkBytes then len - ?off else kRTXMacMaxDmaChunkBytes"
  obtain kr c h1 where pc: "PrepareChunk pci (Some mem) ?off ?n ResetChunk h = Some (kr, c, h1)"
    "\<And>r. ledger h1 r = ledger h r + (if kr = kIOReturnSuccess then chunk_owns c r else 0)"
    "kr = kIOReturnSuccess \<Longrightarrow> prepared_chunk c \<and> RTXMacPreparedDmaChunk.offset c = ?off \<and>
      RTXMacPreparedDmaChunk.length' c = ?n"
    using PrepareChunk_cases [of pci "Some mem" ?off ?n h] by blast
  have eq: "RTXMacAllocateAndPrepareDmaBuffer_loop pci mem len count i cs h =
      (if kr \<noteq> kIOReturnSuccess
       then Some (kr, [], CompleteChunks cs h1 @ [Dma ChunksFreed, Dma (BufferReleased mem)])
       else RTXMacAllocateAndPrepareDmaBuffer_loop pci mem len count (i + 1) (cs @ [c]) h1)"
    using i pc(1) by (subst RTXMacAllocateAndPrepareDmaBuffer_loop.simps) (simp only: Let_def if_True option.case prod.case)
  show ?case
  proof (cases "kr = kIOReturnSuccess")
    case False
    then show ?thesis unfolding eq using pc(2) by (auto simp: ledger_CompleteChunks)
  next
    case True
    have inc: "unat (i + 1) = Suc (unat i)" using i by (rule unat_inc)
    have c: "prepared_chunk c" "chunk_pieces [c] = [(unat i * 0x20000, min 0x20000 (unat len - unat i * 0x20000))]"
      using pc(3) [OF True] w by (simp_all only: chunk_pieces_simps)
    have piece: "tiles (unat i * 0x20000) (chunk_pieces [c]) (min (Suc (unat i) * 0x20000) (unat len))"
      unfolding c(2) using in_len by simp
    then have t: "tiles 0 (chunk_pieces (cs @ [c])) (min (unat (i + 1) * 0x20000) (unat len))"
      unfolding inc chunk_pieces_simps(2) using tiles_append [OF _ piece, of 0 "chunk_pieces cs"] Suc.prems(4) in_len
      by (simp only: min_absorb1 less_imp_le)
    have "d = unat count - unat (i + 1)" "unat (i + 1) \<le> unat count" "List.length (cs @ [c]) = unat (i + 1)"
      "\<forall>c \<in> set (cs @ [c]). prepared_chunk c"
      using Suc.hyps(2) Suc.prems(2,3) inc c(1) by simp_all
    from Suc.hyps(1) [OF this t, of h1] show ?thesis unfolding eq using True pc(2) by (auto simp: algebra_simps)
  qed
qed

lemma chunk_count:
  assumes "len \<noteq> 0" and g: "\<not> - 1 - (kRTXMacMaxDmaChunkBytes - 1) < len"
    and big: "(len + kRTXMacMaxDmaChunkBytes - 1) div kRTXMacMaxDmaChunkBytes \<le> 0xFFFFFFFF"
  shows "\<forall>k < unat (ucast ((len + kRTXMacMaxDmaChunkBytes - 1) div kRTXMacMaxDmaChunkBytes) :: u32).
      k * 0x20000 < unat len"
    and "unat len \<le> unat (ucast ((len + kRTXMacMaxDmaChunkBytes - 1) div kRTXMacMaxDmaChunkBytes) :: u32) * 0x20000"
proof -
  have g': "unat len + 0x1FFFF < 2 ^ 64"
    using g unfolding add_guard64 by (simp add: kRTXMacMaxDmaChunkBytes_def kRTXMacMaxDmaSegments_def kRTXMacDmaPageBytes_def)
  have e: "len + kRTXMacMaxDmaChunkBytes - 1 = len + 0x1FFFF"
    by (simp add: kRTXMacMaxDmaChunkBytes_def kRTXMacMaxDmaSegments_def kRTXMacDmaPageBytes_def)
  have "unat (len + kRTXMacMaxDmaChunkBytes - 1) = unat len + 0x1FFFF"
    unfolding e using g' by (simp add: unat_add_nowrap)
  then have "unat ((len + kRTXMacMaxDmaChunkBytes - 1) div kRTXMacMaxDmaChunkBytes) = (unat len + 0x1FFFF) div 0x20000"
    by (simp only: unat_div_distrib max_chunk)
  moreover from this have "(unat len + 0x1FFFF) div 0x20000 < 2 ^ 32" using big by (simp add: word_le_nat_alt)
  ultimately have n: "unat (ucast ((len + kRTXMacMaxDmaChunkBytes - 1) div kRTXMacMaxDmaChunkBytes) :: u32) =
      (unat len + 0x1FFFF) div 0x20000"
    by (simp add: unat_ucast_narrow)
  show "\<forall>k < unat (ucast ((len + kRTXMacMaxDmaChunkBytes - 1) div kRTXMacMaxDmaChunkBytes) :: u32).
      k * 0x20000 < unat len"
    unfolding n by (auto dest!: Suc_mult_le_div)
  show "unat len \<le> unat (ucast ((len + kRTXMacMaxDmaChunkBytes - 1) div kRTXMacMaxDmaChunkBytes) :: u32) * 0x20000"
    unfolding n by simp
qed

lemma RTXMacAllocateAndPrepareDmaBuffer_cases:
  "\<exists>kr b h'. RTXMacAllocateAndPrepareDmaBuffer pci len ResetBuffer h = Some (kr, b, h') \<and>
    (\<forall>r. ledger h' r = ledger h r + owns b r) \<and>
    (kr = kIOReturnSuccess \<longrightarrow> prepared_buffer b \<and> RTXMacPreparedDmaBuffer.length' b = len) \<and>
    (kr \<noteq> kIOReturnSuccess \<longrightarrow> b = ResetBuffer)"
proof (cases "\<exists>svc. pci = Some svc \<and> \<not> (len = 0 \<or> len mod kRTXMacDmaPageBytes \<noteq> 0)")
  case False
  then have "RTXMacAllocateAndPrepareDmaBuffer pci len ResetBuffer h = Some (kIOReturnBadArgument, ResetBuffer, h)"
    by (cases pci) (auto simp: RTXMacAllocateAndPrepareDmaBuffer_def)
  then show ?thesis by simp
next
  case True
  then obtain svc where svc: "pci = Some svc" and g1: "\<not> (len = 0 \<or> len mod kRTXMacDmaPageBytes \<noteq> 0)"
    by (elim exE conjE) (rule that)
  let ?g2 = "- 1 - (kRTXMacMaxDmaChunkBytes - 1) < len"
  let ?count64 = "(len + kRTXMacMaxDmaChunkBytes - 1) div kRTXMacMaxDmaChunkBytes"
  let ?g3 = "?count64 = 0 \<or> 0xFFFFFFFF < ?count64"
  show ?thesis
  proof (cases "?g2 \<or> ?g3")
    case True
    then have "RTXMacAllocateAndPrepareDmaBuffer pci len ResetBuffer h = Some (kIOReturnNoResources, ResetBuffer, h)"
      unfolding svc RTXMacAllocateAndPrepareDmaBuffer_def option.case if_not_P [OF g1] Let_def by argo
    then show ?thesis by simp
  next
    case False
    then have g2: "\<not> ?g2" and g3: "\<not> ?g3" by blast+
    let ?count = "ucast ?count64 :: u32"
    obtain kr created where cb: "CreateBuffer svc h len kRTXMacDmaPageBytes = (kr, created)" by force
    show ?thesis
    proof (cases "kr \<noteq> kIOReturnSuccess \<or> created = None")
      case True
      then show ?thesis
        unfolding svc RTXMacAllocateAndPrepareDmaBuffer_def option.case if_not_P [OF g1] if_not_P [OF g2]
          if_not_P [OF g3] Let_def cb by auto
    next
      case False
      then obtain m where m: "created = Some m" "kr = kIOReturnSuccess" by auto
      let ?h1 = "h @ [Dma (BufferCreated m)]"
      have eq: "RTXMacAllocateAndPrepareDmaBuffer pci len ResetBuffer h =
        (if SetLength svc ?h1 m len \<noteq> kIOReturnSuccess
         then Some (SetLength svc ?h1 m len, ResetBuffer, ?h1 @ [Dma (BufferReleased m)])
         else if \<not> NewChunks svc ?h1 ?count then Some (kIOReturnNoMemory, ResetBuffer, ?h1 @ [Dma (BufferReleased m)])
         else do {
           (kr, cs, h) \<leftarrow> RTXMacAllocateAndPrepareDmaBuffer_loop (Some svc) m len ?count 0 [] (?h1 @ [Dma ChunksAllocated]);
           Some (if kr \<noteq> kIOReturnSuccess then (kr, ResetBuffer, h)
                 else (kIOReturnSuccess, \<lparr>memory = Some m, chunks = Some cs, chunkCount = ?count, length' = len\<rparr>, h)) })"
        unfolding svc RTXMacAllocateAndPrepareDmaBuffer_def option.case prod.case if_not_P [OF g1] if_not_P [OF g2]
          if_not_P [OF g3] Let_def cb m option.sel by simp
      show ?thesis
      proof (cases "SetLength svc ?h1 m len = kIOReturnSuccess \<and> NewChunks svc ?h1 ?count")
        case False
        then show ?thesis unfolding eq by auto
      next
        case go: True
        have len: "len \<noteq> 0" "4096 dvd unat len" using g1 by (simp_all add: word_mod_eq_0_iff)
        have "?count64 \<le> 0xFFFFFFFF" using g3 by (simp add: not_less)
        note count = chunk_count [OF len(1) g2 this]
        obtain k cs h' where loop:
          "RTXMacAllocateAndPrepareDmaBuffer_loop (Some svc) m len ?count 0 [] (?h1 @ [Dma ChunksAllocated]) = Some (k, cs, h')"
          "\<And>r. ledger h' r = ledger (?h1 @ [Dma ChunksAllocated]) r + (if k = kIOReturnSuccess then chunks_own cs r
             else - (if r = ChunkArray \<or> r = Buffer m then 1 else 0))"
          "k = kIOReturnSuccess \<Longrightarrow> List.length cs = unat ?count \<and> (\<forall>c \<in> set cs. prepared_chunk c) \<and>
             tiles 0 (chunk_pieces cs) (unat len)"
          using allocate_loop [OF count, of 0 "[]" "Some svc" m "?h1 @ [Dma ChunksAllocated]"] by auto
        show ?thesis
        proof (cases "k = kIOReturnSuccess")
          case True
          then show ?thesis unfolding eq using go loop len
            by (auto simp: owns_def prepared_buffer_def)
        next
          case False
          then show ?thesis unfolding eq using go loop by auto
        qed
      qed
    qed
  qed
qed

section \<open>The page list agrees with the portable one\<close>

lemma CollectSegment_pages_from:
  assumes "ExpandDmaSegment_pages base len step off pages = Some r"
  shows "List.length pages \<le> List.length r \<and> (step = kRTXMacDmaPageBytes \<longrightarrow> List.length r \<le> unat expected \<longrightarrow>
    CollectSegment_pages base len expected off pages = Some (True, r))"
proof (rule ExpandDmaSegment_pages.raw_induct [OF _ assms, where P = "\<lambda>base len step off pages r.
    List.length pages \<le> List.length r \<and> (step = kRTXMacDmaPageBytes \<longrightarrow> List.length r \<le> unat expected \<longrightarrow>
    CollectSegment_pages base len expected off pages = Some (True, r))"])
  fix rec :: "u64 \<Rightarrow> u64 \<Rightarrow> u64 \<Rightarrow> u64 \<Rightarrow> u64 list \<Rightarrow> u64 list option" and base len step off pages r
  assume IH: "\<And>base len step off pages r. rec base len step off pages = Some r \<Longrightarrow>
      List.length pages \<le> List.length r \<and> (step = kRTXMacDmaPageBytes \<longrightarrow> List.length r \<le> unat expected \<longrightarrow>
      CollectSegment_pages base len expected off pages = Some (True, r))"
    and body: "(if off < len then rec base len step (off + step) (pages @ [base + off]) else Some pages) = Some r"
  show "List.length pages \<le> List.length r \<and> (step = kRTXMacDmaPageBytes \<longrightarrow> List.length r \<le> unat expected \<longrightarrow>
      CollectSegment_pages base len expected off pages = Some (True, r))"
  proof (cases "off < len")
    case True
    then show ?thesis using IH [of base len step "off + step" "pages @ [base + off]" r] body
      by (subst CollectSegment_pages.simps) auto
  next
    case False
    then show ?thesis using body by (subst CollectSegment_pages.simps) auto
  qed
qed

lemma CollectSegment_pages_eq:
  assumes "seg_aligned kRTXMacDmaPageBytes s"
    and "List.length (pages @ seg_pages kRTXMacDmaPageBytes s) \<le> unat expected"
  shows "CollectSegment_pages (DmaSegment.address s) (DmaSegment.length' s) expected 0 pages =
    Some (True, pages @ seg_pages kRTXMacDmaPageBytes s)"
proof -
  have "0 < kRTXMacDmaPageBytes" by (simp add: kRTXMacDmaPageBytes_def)
  then have "ExpandDmaSegment_pages (DmaSegment.address s) (DmaSegment.length' s) kRTXMacDmaPageBytes 0 pages =
      Some (pages @ seg_pages kRTXMacDmaPageBytes s)"
    using assms(1) ExpandDmaSegment_pages_eq [of kRTXMacDmaPageBytes "DmaSegment.length' s" 0 0]
    by (simp add: seg_aligned_def seg_pages_def)
  from CollectSegment_pages_from [OF this, of expected] assms(2) show ?thesis by simp
qed

lemma CollectChunk_loop_eq:
  "n \<le> List.length segs \<Longrightarrow> \<forall>s \<in> set (take n segs). seg_ok s \<and> seg_aligned kRTXMacDmaPageBytes s \<Longrightarrow>
    unat covered + seg_total (take n segs) \<le> unat len \<Longrightarrow>
    List.length (pages @ concat (map (seg_pages kRTXMacDmaPageBytes) (take n segs))) \<le> unat expected \<Longrightarrow>
    \<exists>c. CollectChunk_loop segs n len expected covered pages =
      Some (Some (c, pages @ concat (map (seg_pages kRTXMacDmaPageBytes) (take n segs)))) \<and>
      unat c = unat covered + seg_total (take n segs)"
proof (induction segs n len expected covered pages rule: CollectChunk_loop.induct)
  case (1 segs len expected covered pages)
  then show ?case by (simp add: seg_total_def)
next
  case (3 s segs n len expected covered pages)
  let ?n = "DmaSegment.length' s"
  have fit: "unat covered + unat ?n \<le> unat len" using 3(4) by (simp add: seg_total_def)
  have inc: "unat (covered + ?n) = unat covered + unat ?n"
    using fit unat_lt(4) [of len] by (simp add: unat_add_nowrap)
  have ok: "\<not> (?n = 0 \<or> DmaSegment.address s mod kRTXMacDmaPageBytes \<noteq> 0 \<or> ?n mod kRTXMacDmaPageBytes \<noteq> 0 \<or>
      - 1 - (?n - 1) < DmaSegment.address s \<or> len < covered \<or> len - covered < ?n)"
    using 3(3) fit segment_check_iff [of s] covered_check_iff [of len covered ?n] by simp
  have pages: "CollectSegment_pages (DmaSegment.address s) ?n expected 0 pages =
      Some (True, pages @ seg_pages kRTXMacDmaPageBytes s)"
    using 3(3,5) by (intro CollectSegment_pages_eq) simp_all
  have step: "CollectChunk_loop (s # segs) (Suc n) len expected covered pages =
      CollectChunk_loop segs n len expected (covered + ?n) (pages @ seg_pages kRTXMacDmaPageBytes s)"
    unfolding CollectChunk_loop.simps(3) if_not_P [OF ok] pages by simp
  have "seg_total (take (Suc n) (s # segs)) = unat ?n + seg_total (take n segs)" by (simp add: seg_total_def)
  moreover have "\<exists>c. CollectChunk_loop segs n len expected (covered + ?n) (pages @ seg_pages kRTXMacDmaPageBytes s) =
      Some (Some (c, (pages @ seg_pages kRTXMacDmaPageBytes s) @ concat (map (seg_pages kRTXMacDmaPageBytes) (take n segs)))) \<and>
      unat c = unat (covered + ?n) + seg_total (take n segs)"
    using 3(1) [OF ok pages refl] 3(2-5) inc
    by (simp add: seg_total_def)
  ultimately show ?case unfolding step using inc by auto
qed simp

text \<open>All the segments of the chunks, in order.\<close>

definition buffer_segments :: "RTXMacPreparedDmaChunk list \<Rightarrow> DmaSegment list" where
  "buffer_segments cs = concat (map chunk_segments cs)"

lemma buffer_segments_simps [simp]:
  "buffer_segments [] = []" "buffer_segments (c # cs) = chunk_segments c @ buffer_segments cs"
  by (simp_all add: buffer_segments_def)

lemma seg_total_append [simp]: "seg_total (xs @ ys) = seg_total xs + seg_total ys"
  by (simp add: seg_total_def)

lemma buffer_segments_ok:
  assumes "\<forall>c \<in> set cs. prepared_chunk c"
  shows "\<forall>s \<in> set (buffer_segments cs). seg_ok s \<and> seg_aligned kRTXMacDmaPageBytes s"
  using assms unfolding buffer_segments_def prepared_chunk_def page_request_ok_def by auto

lemma buffer_segments_total:
  "\<forall>c \<in> set cs. prepared_chunk c \<Longrightarrow> tiles lo (chunk_pieces cs) hi \<Longrightarrow> lo + seg_total (buffer_segments cs) = hi"
proof (induction cs arbitrary: lo)
  case (Cons c cs)
  then have "seg_total (chunk_segments c) = unat (RTXMacPreparedDmaChunk.length' c)"
    by (simp add: prepared_chunk_def page_request_ok_def)
  then show ?case using Cons.IH [of "lo + unat (RTXMacPreparedDmaChunk.length' c)"] Cons.prems by simp
qed (simp add: seg_total_def)

lemma collect_chunk:
  assumes c: "prepared_chunk c"
    and fit: "List.length (pages @ concat (map (seg_pages kRTXMacDmaPageBytes) (chunk_segments c))) \<le> unat expected"
  shows "CollectChunk_loop (segments c) (unat (segmentCount c)) (RTXMacPreparedDmaChunk.length' c) expected 0 pages =
    Some (Some (RTXMacPreparedDmaChunk.length' c,
      pages @ concat (map (seg_pages kRTXMacDmaPageBytes) (chunk_segments c))))"
proof -
  have n: "unat (segmentCount c) \<le> List.length (segments c)"
    using c by (simp add: prepared_chunk_def word_le_nat_alt)
  have ok: "\<forall>s \<in> set (take (unat (segmentCount c)) (segments c)). seg_ok s \<and> seg_aligned kRTXMacDmaPageBytes s"
    and tot: "seg_total (take (unat (segmentCount c)) (segments c)) = unat (RTXMacPreparedDmaChunk.length' c)"
    using c by (auto simp: prepared_chunk_def page_request_ok_def chunk_segments_def)
  show ?thesis
    using CollectChunk_loop_eq [OF n ok, of 0 "RTXMacPreparedDmaChunk.length' c" pages expected] tot fit
    by (auto simp: chunk_segments_def word_unat_eq_iff)
qed

lemma collect_loop:
  "\<forall>c \<in> set cs. prepared_chunk c \<Longrightarrow> tiles (unat eo) (chunk_pieces cs) hi \<Longrightarrow> hi < 2 ^ 64 \<Longrightarrow>
    List.length (pages @ concat (map (seg_pages kRTXMacDmaPageBytes) (buffer_segments cs))) \<le> unat expected \<Longrightarrow>
    \<exists>eo'. RTXMacCollectDmaPageAddresses_loop cs (List.length cs) expected eo pages =
      Some (Some (eo', pages @ concat (map (seg_pages kRTXMacDmaPageBytes) (buffer_segments cs)))) \<and> unat eo' = hi"
proof (induction cs arbitrary: eo pages)
  case (Cons c cs)
  let ?len = "RTXMacPreparedDmaChunk.length' c"
  let ?pages = "pages @ concat (map (seg_pages kRTXMacDmaPageBytes) (chunk_segments c))"
  have c: "prepared_chunk c" using Cons.prems(1) by simp
  have t: "RTXMacPreparedDmaChunk.offset c = eo" "0 < unat ?len" "tiles (unat eo + unat ?len) (chunk_pieces cs) hi"
    using Cons.prems(2) by (simp_all add: word_unat_eq_iff)
  have fit: "unat eo + unat ?len < 2 ^ 64" using tiles_le [OF t(3)] Cons.prems(3) by simp
  then have inc: "unat (eo + ?len) = unat eo + unat ?len" by (simp add: unat_add_nowrap)
  have "segmentCount c \<noteq> 0" using c by (auto simp: prepared_chunk_def page_request_ok_def chunk_segments_def)
  then have guard: "\<not> (command c = None \<or> RTXMacPreparedDmaChunk.offset c \<noteq> eo \<or> ?len = 0 \<or>
      ?len mod kRTXMacDmaPageBytes \<noteq> 0 \<or> segmentCount c = 0 \<or> kRTXMacMaxDmaSegments < segmentCount c)"
    using c t by (auto simp: prepared_chunk_def page_request_ok_def word_mod_eq_0_iff kRTXMacMaxDmaSegments_def)
  have room: "\<not> - 1 - ?len < eo" using fit unfolding add_guard64 by simp
  have collect: "CollectChunk_loop (segments c) (unat (segmentCount c)) ?len expected 0 pages = Some (Some (?len, ?pages))"
    using Cons.prems(4) by (intro collect_chunk [OF c]) simp
  have step: "RTXMacCollectDmaPageAddresses_loop (c # cs) (List.length (c # cs)) expected eo pages =
      RTXMacCollectDmaPageAddresses_loop cs (List.length cs) expected (eo + ?len) ?pages"
    unfolding length_Cons RTXMacCollectDmaPageAddresses_loop.simps(3) Let_def if_not_P [OF guard] collect
    using room by simp
  show ?case unfolding step
    using Cons.IH [of "eo + ?len" ?pages] Cons.prems t(3) inc by simp
qed simp

text \<open>The page list of a prepared buffer: complete, page-aligned, in order, the same as the
  portable expansion of all its segments.\<close>

lemma RTXMacCollectDmaPageAddresses_prepared:
  assumes b: "prepared_buffer b"
    and room: "unat (RTXMacPreparedDmaBuffer.length' b) div 4096 \<le> unat capacity"
  shows "\<exists>m. RTXMacCollectDmaPageAddresses (Some b) capacity = Some (kIOReturnSuccess, pageAddresses m) \<and>
    ExpandDmaSegmentsToPages (buffer_segments (the (chunks b))) (RTXMacPreparedDmaBuffer.length' b)
      kRTXMacDmaPageBytes = Some m \<and> DmaPageMap.status m = DmaPageMapStatus.Ok \<and>
    List.length (pageAddresses m) = unat (RTXMacPreparedDmaBuffer.length' b) div 4096"
proof -
  let ?len = "RTXMacPreparedDmaBuffer.length' b"
  from b obtain m cs where m: "memory b = Some m" and cs: "chunks b = Some cs"
    and count: "List.length cs = unat (chunkCount b)" and ok: "\<forall>c \<in> set cs. prepared_chunk c"
    and len: "?len \<noteq> 0" "4096 dvd unat ?len" and t: "tiles 0 (chunk_pieces cs) (unat ?len)"
    by (auto simp: prepared_buffer_def)
  let ?pages = "concat (map (seg_pages kRTXMacDmaPageBytes) (buffer_segments cs))"
  have segs: "\<forall>s \<in> set (buffer_segments cs). seg_ok s \<and> seg_aligned kRTXMacDmaPageBytes s"
    using buffer_segments_ok [OF ok] .
  have tot: "seg_total (buffer_segments cs) = unat ?len" using buffer_segments_total [OF ok t] by simp
  have n: "List.length ?pages = unat ?len div 4096" using length_seg_pages [of "buffer_segments cs"] segs tot by simp
  have "buffer_segments cs \<noteq> []" using tot len by (auto simp: seg_total_def unat_eq_0)
  then have req: "page_request_ok (buffer_segments cs) ?len kRTXMacDmaPageBytes"
    using segs tot len by (simp add: page_request_ok_def)
  obtain e where e: "ExpandDmaSegmentsToPages (buffer_segments cs) ?len kRTXMacDmaPageBytes = Some e"
    "DmaPageMap.status e = DmaPageMapStatus.Ok" "pageAddresses e = ?pages"
    using Expand_Ok [of "buffer_segments cs" ?len kRTXMacDmaPageBytes] req by auto
  have small: "unat ?len div 4096 < 2 ^ 32" using room unat_lt(3) [of capacity] by simp
  let ?e64 = "?len div kRTXMacDmaPageBytes"
  have e64: "unat ?e64 = unat ?len div 4096" by (simp add: unat_div_distrib)
  then have e32: "unat (ucast ?e64 :: u32) = unat ?len div 4096" using small by (simp add: unat_ucast_narrow)
  have "0 < unat ?len" using len by (simp add: unat_gt_0)
  then have "0 < unat ?len div 4096" using len(2) by (auto elim: dvdE)
  then have guard: "\<not> (?e64 = 0 \<or> 0xFFFFFFFF < ?e64 \<or> ucast capacity < ?e64)"
    using e64 small room by (auto simp: word_less_nat_alt not_less)
  obtain eo where loop: "RTXMacCollectDmaPageAddresses_loop cs (List.length cs) (ucast ?e64) 0 [] = Some (Some (eo, ?pages))"
    "unat eo = unat ?len"
    using collect_loop [OF ok, of 0 "unat ?len" "[]" "ucast ?e64"] t n e32 unat_lt(4) [of ?len] by auto
  have "?len mod kRTXMacDmaPageBytes = 0" "eo = ?len"
    using len loop(2) unfolding word_mod_eq_0_iff by (simp_all add: word_unat_eq_iff)
  then have "RTXMacCollectDmaPageAddresses (Some b) capacity = Some (kIOReturnSuccess, ?pages)"
    unfolding RTXMacCollectDmaPageAddresses_def option.case Let_def if_not_P [OF guard]
    using loop(1) m cs len count n e32 by simp
  then show ?thesis using e cs n by auto
qed

section \<open>Copies and reads stay in the buffer\<close>

text \<open>The synchronisation of one chunk, and what the write synchronisation of a prepared buffer does:
  a front of the list of its chunks, all of it on success.\<close>

definition sync_event :: "RTXMacPreparedDmaChunk \<Rightarrow> Event" where
  "sync_event c = Dma (DmaSynced True (the (command c)) 0 (RTXMacPreparedDmaChunk.length' c)
     (RTXMacPreparedDmaChunk.offset c))"

lemma SynchronizePreparedWrites_loop_cases:
  "\<forall>c \<in> set cs. command c \<noteq> None \<and> RTXMacPreparedDmaChunk.length' c \<noteq> 0 \<and>
      unat (RTXMacPreparedDmaChunk.offset c) + unat (RTXMacPreparedDmaChunk.length' c) \<le>
        unat (RTXMacPreparedDmaBuffer.length' b) \<Longrightarrow>
    \<exists>kr k. SynchronizePreparedWrites_loop svc b m cs (List.length cs) h = Some (kr, h @ map sync_event (take k cs)) \<and>
      (kr = kIOReturnSuccess \<longrightarrow> k = List.length cs)"
proof (induction cs arbitrary: h)
  case Nil
  then show ?case by simp
next
  case (Cons c cs)
  then obtain cmd where cmd: "command c = Some cmd" by auto
  let ?len = "RTXMacPreparedDmaChunk.length' c" and ?off = "RTXMacPreparedDmaChunk.offset c"
  let ?blen = "RTXMacPreparedDmaBuffer.length' b"
  have "\<not> (?blen < ?off \<or> ?blen - ?off < ?len)" using Cons.prems by (simp add: covered_check_iff del: de_Morgan_disj)
  then have guard: "\<not> (?len = 0 \<or> ?blen < ?off \<or> ?blen - ?off < ?len)" using Cons.prems by simp
  let ?kr = "PerformOperation svc h True cmd 0 ?len ?off m" and ?h = "h @ [sync_event c]"
  have step: "SynchronizePreparedWrites_loop svc b m (c # cs) (List.length (c # cs)) h =
      (if ?kr \<noteq> kIOReturnSuccess then Some (?kr, ?h) else SynchronizePreparedWrites_loop svc b m cs (List.length cs) ?h)"
    unfolding length_Cons SynchronizePreparedWrites_loop.simps(3) cmd option.case Let_def if_not_P [OF guard]
    by (simp add: sync_event_def cmd)
  obtain kr k where "SynchronizePreparedWrites_loop svc b m cs (List.length cs) ?h =
      Some (kr, ?h @ map sync_event (take k cs))" "kr = kIOReturnSuccess \<longrightarrow> k = List.length cs"
    using Cons.IH [of ?h] Cons.prems by auto
  then show ?case unfolding step
    by (cases "?kr = kIOReturnSuccess") (auto intro: exI [of _ "Suc k"] exI [of _ "Suc 0"])
qed

lemma prepared_chunks_inside:
  assumes "prepared_buffer b" and "chunks b = Some cs" and "c \<in> set cs"
  shows "command c \<noteq> None \<and> RTXMacPreparedDmaChunk.length' c \<noteq> 0 \<and>
    unat (RTXMacPreparedDmaChunk.offset c) + unat (RTXMacPreparedDmaChunk.length' c) \<le>
      unat (RTXMacPreparedDmaBuffer.length' b)"
proof -
  have "tiles 0 (chunk_pieces cs) (unat (RTXMacPreparedDmaBuffer.length' b))" "prepared_chunk c"
    using assms by (auto simp: prepared_buffer_def)
  moreover have "(unat (RTXMacPreparedDmaChunk.offset c), unat (RTXMacPreparedDmaChunk.length' c)) \<in> set (chunk_pieces cs)"
    using assms(3) by (auto simp: chunk_pieces_def)
  ultimately show ?thesis using tiles_bounds by (fastforce simp: prepared_chunk_def unat_gt_0)
qed

lemma SynchronizePreparedWrites_cases:
  assumes b: "prepared_buffer b"
  shows "\<exists>kr k. SynchronizePreparedWrites svc (Some b) h = Some (kr, h @ map sync_event (take k (the (chunks b)))) \<and>
    (kr = kIOReturnSuccess \<longrightarrow> k = List.length (the (chunks b)))"
proof -
  from b obtain m cs where m: "memory b = Some m" "chunks b = Some cs" "List.length cs = unat (chunkCount b)"
    "RTXMacPreparedDmaBuffer.length' b \<noteq> 0"
    by (auto simp: prepared_buffer_def)
  then have eq: "SynchronizePreparedWrites svc (Some b) h = SynchronizePreparedWrites_loop svc b m cs (List.length cs) h"
    by (simp add: SynchronizePreparedWrites_def)
  show ?thesis unfolding eq using SynchronizePreparedWrites_loop_cases prepared_chunks_inside [OF b m(2)] m(2) by simp
qed

text \<open>A copy that succeeds has cleared the whole buffer, stored the source at its start and then
  synchronised every chunk, so the device sees all of it.\<close>

lemma RTXMacCopyIntoPreparedDmaBufferPadded_success:
  assumes b: "prepared_buffer b" and src: "unat n \<le> List.length src"
    and ok: "RTXMacCopyIntoPreparedDmaBufferPadded svc (Some b) (Some src) n h = Some (kIOReturnSuccess, h')"
  shows "unat n \<le> unat (RTXMacPreparedDmaBuffer.length' b) \<and>
    (\<exists>base. h' = h @ Dma (HostFill base (RTXMacPreparedDmaBuffer.length' b)) # Dma (HostStore base (take (unat n) src)) #
      map sync_event (the (chunks b)))"
proof -
  let ?len = "RTXMacPreparedDmaBuffer.length' b"
  from b obtain m where m: "memory b = Some m" "chunks b \<noteq> None" by (auto simp: prepared_buffer_def)
  obtain kr range where ar: "GetAddressRange svc h m = (kr, range)" by force
  have rd: "rd_seq src 0 (unat n) = Some (take (unat n) src)" using src by (simp add: rd_seq_eq slice_def)
  have g: "n \<noteq> 0" "\<not> ?len < n" "kr = kIOReturnSuccess"
    "\<not> (DmaSegment.address range = 0 \<or> DmaSegment.length' range < ?len)"
    using ok m ar by (auto simp: RTXMacCopyIntoPreparedDmaBufferPadded_def Let_def split: if_splits)
  let ?h = "h @ [Dma (HostFill (DmaSegment.address range) ?len), Dma (HostStore (DmaSegment.address range) (take (unat n) src))]"
  have "SynchronizePreparedWrites svc (Some b) ?h = Some (kIOReturnSuccess, h')"
    using ok m ar g rd by (simp add: RTXMacCopyIntoPreparedDmaBufferPadded_def Let_def)
  then show ?thesis using SynchronizePreparedWrites_cases [OF b, of svc ?h] g by (auto simp: word_le_nat_alt not_less)
qed

text \<open>The chunk search finds the chunk that holds an aligned word of the buffer.\<close>

lemma FindChunk_loop_finds:
  assumes "4 dvd unat off"
  shows "\<forall>c \<in> set cs. prepared_chunk c \<Longrightarrow> tiles lo (chunk_pieces cs) hi \<Longrightarrow> 4 dvd lo \<Longrightarrow> lo \<le> unat off \<Longrightarrow>
    unat off + 4 \<le> hi \<Longrightarrow> \<exists>c \<in> set cs. FindChunk_loop cs (List.length cs) off 4 = Some (Some c) \<and>
      unat (RTXMacPreparedDmaChunk.offset c) \<le> unat off \<and>
      unat off + 4 \<le> unat (RTXMacPreparedDmaChunk.offset c) + unat (RTXMacPreparedDmaChunk.length' c)"
proof (induction cs arbitrary: lo)
  case Nil
  then show ?case using assms by simp
next
  case (Cons c cs)
  let ?len = "RTXMacPreparedDmaChunk.length' c" and ?off = "RTXMacPreparedDmaChunk.offset c"
  have c: "command c \<noteq> None" "4096 dvd unat ?len" using Cons.prems(1) by (simp_all add: prepared_chunk_def page_request_ok_def)
  have t: "unat ?off = lo" "0 < unat ?len" "tiles (lo + unat ?len) (chunk_pieces cs) hi" using Cons.prems(2) by simp_all
  have le: "?off \<le> off" using t(1) Cons.prems(4) by (simp add: word_le_nat_alt)
  then have sub: "unat (off - ?off) = unat off - lo" using t(1) by (simp add: unat_sub)
  have four: "4 dvd unat ?len" using c(2) by (rule dvd_trans [rotated]) simp
  show ?case
  proof (cases "unat off + 4 \<le> lo + unat ?len")
    case True
    then have "off - ?off \<le> ?len" using sub Cons.prems(4) by (simp add: word_le_nat_alt)
    moreover from this have "4 \<le> ?len - (off - ?off)" using True sub Cons.prems(4) by (simp add: word_le_nat_alt unat_sub)
    ultimately show ?thesis using c t True Cons.prems(4) le by (auto simp: Let_def)
  next
    case False
    then have out: "lo + unat ?len \<le> unat off" using assms Cons.prems(3) four by presburger
    have "\<not> 4 \<le> ?len - (off - ?off) \<or> \<not> off - ?off \<le> ?len"
      using out sub by (auto simp: word_le_nat_alt unat_sub)
    then have "FindChunk_loop (c # cs) (List.length (c # cs)) off 4 = FindChunk_loop cs (List.length cs) off 4"
      using c t by (auto simp: Let_def)
    then show ?thesis using Cons.IH [OF _ t(3)] Cons.prems four out by (auto intro: dvd_add)
  qed
qed

lemma and3_iff: "(off :: u64) AND 3 = 0 \<longleftrightarrow> 4 dvd unat off"
  using and_mask_zero_iff [of off 2] by (simp add: mask_eq_exp_minus_1)

text \<open>A word read asks the device for exactly four bytes inside one chunk and inside the buffer, and
  on success returns the host word at that offset.\<close>

lemma RTXMacReadPreparedDmaU32_prepared:
  assumes b: "prepared_buffer b" and off: "4 dvd unat off" "unat off + 4 \<le> unat (RTXMacPreparedDmaBuffer.length' b)"
  shows "\<exists>c kr v. c \<in> set (the (chunks b)) \<and> unat (RTXMacPreparedDmaChunk.offset c) \<le> unat off \<and>
    unat off + 4 \<le> unat (RTXMacPreparedDmaChunk.offset c) + unat (RTXMacPreparedDmaChunk.length' c) \<and>
    RTXMacReadPreparedDmaU32 svc (Some b) off h =
      Some (kr, v, h @ [Dma (DmaSynced False (the (command c)) (off - RTXMacPreparedDmaChunk.offset c) 4 off)]) \<and>
    (kr = kIOReturnSuccess \<longrightarrow> (\<exists>range :: IOAddressSegment. DmaSegment.address range \<noteq> 0 \<and>
      unat off + 4 \<le> unat (DmaSegment.length' range) \<and>
      v = LoadHost32 svc (h @ [Dma (DmaSynced False (the (command c)) (off - RTXMacPreparedDmaChunk.offset c) 4 off)])
        (DmaSegment.address range + off)))"
proof -
  from b obtain m cs where m: "memory b = Some m" "chunks b = Some cs" "List.length cs = unat (chunkCount b)"
    and ok: "\<forall>c \<in> set cs. prepared_chunk c"
    and t: "tiles 0 (chunk_pieces cs) (unat (RTXMacPreparedDmaBuffer.length' b))"
    by (auto simp: prepared_buffer_def)
  have in_buffer: "\<not> (RTXMacPreparedDmaBuffer.length' b < off \<or> RTXMacPreparedDmaBuffer.length' b - off < 4)"
    using off(2) unfolding covered_check_iff by simp
  obtain c where c: "c \<in> set cs" "FindChunk (Some b) off 4 = Some (Some c)"
    "unat (RTXMacPreparedDmaChunk.offset c) \<le> unat off"
    "unat off + 4 \<le> unat (RTXMacPreparedDmaChunk.offset c) + unat (RTXMacPreparedDmaChunk.length' c)"
    using FindChunk_loop_finds [OF off(1) ok t] off(2) in_buffer m by (auto simp: FindChunk_def)
  let ?h = "h @ [Dma (DmaSynced False (the (command c)) (off - RTXMacPreparedDmaChunk.offset c) 4 off)]"
  obtain kr range where ar: "GetAddressRange svc ?h m = (kr, range)" by force
  have inside: "\<not> (DmaSegment.length' range < off \<or> DmaSegment.length' range - off < 4) \<longleftrightarrow>
      unat off + 4 \<le> unat (DmaSegment.length' range)"
    using covered_check_iff [of "DmaSegment.length' range" off 4] by simp
  have "\<exists>kr v. RTXMacReadPreparedDmaU32 svc (Some b) off h = Some (kr, v, ?h) \<and>
      (kr = kIOReturnSuccess \<longrightarrow> DmaSegment.address range \<noteq> 0 \<and> unat off + 4 \<le> unat (DmaSegment.length' range) \<and>
        v = LoadHost32 svc ?h (DmaSegment.address range + off))"
    using c(2) m off(1) ar inside by (auto simp: RTXMacReadPreparedDmaU32_def Let_def and3_iff)
  then obtain kr v where r: "RTXMacReadPreparedDmaU32 svc (Some b) off h = Some (kr, v, ?h)"
    "kr = kIOReturnSuccess \<longrightarrow> DmaSegment.address range \<noteq> 0 \<and> unat off + 4 \<le> unat (DmaSegment.length' range) \<and>
        v = LoadHost32 svc ?h (DmaSegment.address range + off)"
    by (elim exE conjE) (rule that)
  have "kr = kIOReturnSuccess \<longrightarrow> (\<exists>range :: IOAddressSegment. DmaSegment.address range \<noteq> 0 \<and>
      unat off + 4 \<le> unat (DmaSegment.length' range) \<and> v = LoadHost32 svc ?h (DmaSegment.address range + off))"
    using r(2) by (intro impI exI [of _ range]) (erule mp)
  moreover have "c \<in> set (the (chunks b))" using c(1) m(2) by simp
  ultimately show ?thesis using c(3,4) r(1) by (intro exI [of _ c] exI [of _ kr] exI [of _ v] conjI)
qed

text \<open>
  C15. Preparing a DMA buffer is all or nothing, whatever the services answer: a failure at any point
  (a short or misaligned segment list included) has given back every object it was handed, a success
  owns exactly one memory object, one chunk array and one prepared command for each chunk, the chunks
  tile the buffer and their segments are page-aligned and add up; and releasing the buffer gives back
  exactly what it owns.
\<close>

theorem RTXMacAllocateAndPrepareDmaBuffer_balanced:
  "\<exists>kr b h'. RTXMacAllocateAndPrepareDmaBuffer pci len ResetBuffer h = Some (kr, b, h') \<and>
    (if kr = kIOReturnSuccess
     then prepared_buffer b \<and> RTXMacPreparedDmaBuffer.length' b = len \<and>
       (\<forall>r. ledger h' r = ledger h r + owns b r)
     else b = ResetBuffer \<and> ledger h' = ledger h) \<and>
    (\<exists>h''. RTXMacReleasePreparedDmaBuffer b (h' @ e) = Some (ResetBuffer, h'') \<and>
       (\<forall>r. ledger h'' r = ledger h r + ledger e r))"
proof -
  obtain kr b h' where a: "RTXMacAllocateAndPrepareDmaBuffer pci len ResetBuffer h = Some (kr, b, h')"
    "\<forall>r. ledger h' r = ledger h r + owns b r"
    "kr = kIOReturnSuccess \<longrightarrow> prepared_buffer b \<and> RTXMacPreparedDmaBuffer.length' b = len"
    "kr \<noteq> kIOReturnSuccess \<longrightarrow> b = ResetBuffer"
    using RTXMacAllocateAndPrepareDmaBuffer_cases [of pci len h] by blast
  have "\<forall>cs. chunks b = Some cs \<longrightarrow> List.length cs = unat (chunkCount b)"
    using a(3,4) by (cases "kr = kIOReturnSuccess") (auto simp: prepared_buffer_def ResetBuffer_def)
  then obtain h'' where "RTXMacReleasePreparedDmaBuffer b (h' @ e) = Some (ResetBuffer, h'')"
    "\<forall>r. ledger h'' r = ledger (h' @ e) r - owns b r"
    using RTXMacReleasePreparedDmaBuffer_cases [of b "h' @ e"] by blast
  then show ?thesis using a by (auto simp: fun_eq_iff)
qed

text \<open>A service that maps the buffer at 64 KiB, one chunk in one segment.\<close>

definition flat_services :: DmaServices where
  "flat_services = \<lparr>CreateBuffer = (\<lambda>h len align. (kIOReturnSuccess, Some 5)),
     SetLength = (\<lambda>h m len. kIOReturnSuccess), NewChunks = (\<lambda>h n. True),
     CreateCommand = (\<lambda>h. (kIOReturnSuccess, Some (List.length h))),
     PrepareForDMA = (\<lambda>h cmd m off len. (kIOReturnSuccess, 0, 1, \<lambda>i. \<lparr>DmaSegment.address = 0x10000 + off, length' = len\<rparr>)),
     PerformOperation = (\<lambda>h write cmd local len off m. kIOReturnSuccess),
     GetAddressRange = (\<lambda>h m. (kIOReturnSuccess, \<lparr>DmaSegment.address = 0x7000000, length' = 0x2000\<rparr>)),
     LoadHost32 = (\<lambda>h a. 7)\<rparr>"

lemma flat_services_PrepareChunk [simp]:
  "PrepareChunk (Some flat_services) (Some 5) 0 0x2000 ResetChunk h = Some (kIOReturnSuccess,
     \<lparr>command = Some (List.length h), segments = \<lparr>DmaSegment.address = 0x10000, length' = 0x2000\<rparr> #
        drop 1 (segments ResetChunk), segmentCount = 1, flags = 0, offset = 0, length' = 0x2000\<rparr>,
     h @ [Dma (CommandCreated (List.length h)), Dma (DmaPrepared (List.length h))])"
  by (simp add: PrepareChunk_def flat_services_def upt_rec kRTXMacDmaPageBytes_def
      kRTXMacMaxDmaChunkBytes_def kRTXMacMaxDmaSegments_def Let_def)

lemma flat_services_prepares:
  "case RTXMacAllocateAndPrepareDmaBuffer (Some flat_services) 0x2000 ResetBuffer [] of None \<Rightarrow> False
   | Some (kr, b, h) \<Rightarrow> kr = kIOReturnSuccess \<and> chunkCount b = 1 \<and> ledger h (Buffer 5) = 1"
proof -
  let ?h = "[Dma (BufferCreated 5), Dma ChunksAllocated]"
  have "CreateBuffer flat_services [] 0x2000 0x1000 = (kIOReturnSuccess, Some 5)"
    "SetLength flat_services h m len = kIOReturnSuccess" "NewChunks flat_services h n" for h m len n
    by (simp_all add: flat_services_def)
  then show ?thesis
    by (simp add: RTXMacAllocateAndPrepareDmaBuffer_def kRTXMacDmaPageBytes_def
        kRTXMacMaxDmaChunkBytes_def kRTXMacMaxDmaSegments_def RTXMacAllocateAndPrepareDmaBuffer_loop.simps [of _ _ _ 1 0]
        RTXMacAllocateAndPrepareDmaBuffer_loop.simps [of _ _ _ 1 1])
qed

text \<open>
  C18. The page list the driver hands to the GSP is the portable one: for a prepared buffer and
  an array that is large enough, \<open>RTXMacCollectDmaPageAddresses\<close> succeeds and writes exactly the
  pages of \<open>ExpandDmaSegmentsToPages\<close> over the segments of all chunks in order, one entry for each
  4 KiB page of the buffer.
\<close>

theorem RTXMacCollectDmaPageAddresses_portable:
  assumes "prepared_buffer b" and "unat (RTXMacPreparedDmaBuffer.length' b) div 4096 \<le> unat capacity"
  shows "\<exists>m. RTXMacCollectDmaPageAddresses (Some b) capacity = Some (kIOReturnSuccess, pageAddresses m) \<and>
    ExpandDmaSegmentsToPages (buffer_segments (the (chunks b))) (RTXMacPreparedDmaBuffer.length' b)
      kRTXMacDmaPageBytes = Some m \<and> DmaPageMap.status m = DmaPageMapStatus.Ok \<and>
    List.length (pageAddresses m) = unat (RTXMacPreparedDmaBuffer.length' b) div 4096"
  using assms by (rule RTXMacCollectDmaPageAddresses_prepared)

definition one_chunk_buffer :: RTXMacPreparedDmaBuffer where
  "one_chunk_buffer = \<lparr>memory = Some 1, chunks = Some [\<lparr>command = Some 2,
     segments = \<lparr>DmaSegment.address = 0x10000, length' = 0x2000\<rparr> # replicate 31 \<lparr>DmaSegment.address = 0, length' = 0\<rparr>,
     segmentCount = 1, flags = 0, offset = 0, length' = 0x2000\<rparr>], chunkCount = 1, length' = 0x2000\<rparr>"

lemma one_chunk_prepared: "prepared_buffer one_chunk_buffer"
  by (simp add: prepared_buffer_def prepared_chunk_def page_request_ok_def one_chunk_buffer_def chunk_segments_def
      seg_ok_def seg_aligned_def seg_total_def)

theorem RTXMacCollectDmaPageAddresses_witness:
  "prepared_buffer one_chunk_buffer \<and>
    RTXMacCollectDmaPageAddresses (Some one_chunk_buffer) 2 = Some (kIOReturnSuccess, [0x10000, 0x11000]) \<and>
    (\<exists>m. ExpandDmaSegmentsToPages (buffer_segments (the (chunks one_chunk_buffer))) 0x2000 kRTXMacDmaPageBytes = Some m \<and>
      pageAddresses m = [0x10000, 0x11000])"
proof -
  let ?segs = "buffer_segments (the (chunks one_chunk_buffer))"
  have segs: "?segs = [\<lparr>DmaSegment.address = 0x10000, length' = 0x2000\<rparr>]"
    by (simp add: one_chunk_buffer_def chunk_segments_def)
  obtain m where m: "RTXMacCollectDmaPageAddresses (Some one_chunk_buffer) 2 = Some (kIOReturnSuccess, pageAddresses m)"
    "ExpandDmaSegmentsToPages ?segs 0x2000 kRTXMacDmaPageBytes = Some m" "DmaPageMap.status m = DmaPageMapStatus.Ok"
    using RTXMacCollectDmaPageAddresses_portable [OF one_chunk_prepared, of 2] by (auto simp: one_chunk_buffer_def)
  then have "pageAddresses m = concat (map (seg_pages kRTXMacDmaPageBytes) ?segs)"
    using Expand_Ok [of ?segs "0x2000" kRTXMacDmaPageBytes] by auto
  then have "pageAddresses m = [0x10000, 0x11000]" unfolding segs by (simp add: seg_pages_def upt_rec)
  then show ?thesis using m one_chunk_prepared by simp
qed

end
