(* ===== verification/Manifest.thy ===== *)
theory Manifest
  imports Dma Pramin GspQueue GspRadix3 GspWpr GspBootstrap Nvfw
begin

text \<open>
  The GSP boot manifest (\<open>src/core/gsp_manifest.cpp\<close>, \<open>src/core/framebuffer_stage.cpp\<close>,
  \<open>include/rtxmac/gsp_manifest.hpp\<close>): the list of allocations a boot needs, their resolution to
  DMA addresses, the placement of the two framebuffer images, and the construction of the host
  buffers. The boot sequence of the same source file is in \<open>Sequence\<close>.
\<close>

section \<open>Data\<close>

datatype MemoryDomain = System | Framebuffer

datatype AllocationKind = QueueBacking | CachedArguments | LibosInitArguments | WprMetadata
  | Radix3Firmware | FirmwareSignature | GspBootloader | FrtsFwsecImage | Sec2BooterImage

datatype DmaLayoutRequirement = NoLayout | Linear | PageList

record AllocationRequirement =
  kind :: AllocationKind
  domain :: MemoryDomain
  logicalBytes :: u64
  allocationBytes :: u64
  alignment :: u64
  requiresDmaMapping :: bool
  dmaLayout :: DmaLayoutRequirement

record ResolvedDmaAllocation =
  kind :: AllocationKind
  layout :: DmaLayoutRequirement
  baseAddress :: u64
  allocationBytes :: u64
  pageAddresses :: "u64 list"

record ManifestInputs =
  fbSize :: u64
  vgaWorkspaceOffset :: u64
  vbiosReservedOffset :: u64
  wprEndMargin :: u64
  frtsSize :: u64
  nonWprHeapSize :: u64
  requestedWprHeapSize :: u64
  gspFirmwareImageBytes :: u64
  gspSignatureBytes :: u64
  gspBootloaderBytes :: u64
  frtsFwsecImageBytes :: u64
  sec2BooterImageBytes :: u64
  queueBytes :: u64

record BootManifest =
  valid :: bool
  inputs :: ManifestInputs
  queues :: QueueMemoryLayout
  radix3 :: Radix3Layout
  wpr :: WprLayout
  allocations :: "AllocationRequirement list"
  bootstrapRpcPrefillImplemented :: bool

record ResolvedAddresses =
  queueBacking :: u64
  cachedArguments :: u64
  libosInitArguments :: u64
  wprMetadata :: u64
  radix3FirmwareRoot :: u64
  firmwareSignature :: u64
  gspBootloader :: u64
  frtsFwsecImage :: u64
  sec2BooterImage :: u64

record FramebufferStageImage =
  kind :: AllocationKind
  vramOffset :: u64
  logicalBytes :: u64
  allocationBytes :: u64
  pramin :: PraminStagePlan

record FramebufferStagingPlan =
  valid :: bool
  images :: "FramebufferStageImage list"

record FramebufferStageArtifact =
  kind :: AllocationKind
  vramOffset :: u64
  logicalBytes :: u64
  allocationBytes :: u64
  pramin :: PraminStagePlan
  bytes :: "byte list"

record ResolvedArtifacts =
  cachedArguments :: "byte list"
  wprMetadata :: "byte list"
  libosInitArguments :: "byte list"
  sharedQueueAllocation :: "byte list"
  radix3FirmwareAllocation :: "byte list"
  bootstrapCommandQueue :: "byte list"

text \<open>The value-initialised manifest.\<close>

definition BootManifest0 :: "ManifestInputs \<Rightarrow> BootManifest" where
  "BootManifest0 i = \<lparr>BootManifest.valid = False, inputs = i,
     queues = \<lparr>QueueMemoryLayout.queueBytes = 0, pageBytes = 0, pteBytes = 0, queuePageCount = 0,
       pageTableEntryCount = 0, pageTableBytes = 0, commandQueueOffset = 0, statusQueueOffset = 0,
       totalBytes = 0\<rparr>,
     radix3 = \<lparr>pageCounts = [0, 0, 0, 0], offsets = [0, 0, 0, 0], tableBytes = 0, imageBytes = 0,
       Radix3Layout.allocationBytes = 0, allocationPages = 0\<rparr>,
     wpr = \<lparr>WprLayout.fbSize = 0, vgaWorkspaceOffset = 0, vgaWorkspaceSize = 0, gspFwRsvdStart = 0,
       nonWprHeapOffset = 0, nonWprHeapSize = 0, gspFwWprStart = 0, gspFwHeapOffset = 0,
       gspFwHeapSize = 0, gspFwOffset = 0, bootBinOffset = 0, frtsOffset = 0, frtsSize = 0,
       gspFwWprEnd = 0, sizeOfRadix3Elf = 0, sizeOfBootloader = 0\<rparr>,
     allocations = [], bootstrapRpcPrefillImplemented = False\<rparr>"

section \<open>The manifest\<close>

definition kPage :: u64 where "kPage = 0x1000"

definition AlignUp :: "u64 \<Rightarrow> u64 \<Rightarrow> u64 option" where
  "AlignUp v a =
     (if a = 0 then None
      else let r = v mod a in
        if r = 0 then Some v
        else let d = a - r in if - 1 - d < v then None else Some (v + d))"

definition PageAligned :: "u64 \<Rightarrow> bool" where
  "PageAligned v \<longleftrightarrow> v AND (kPage - 1) = 0"

definition AddAlloc ::
    "BootManifest \<Rightarrow> AllocationKind \<Rightarrow> MemoryDomain \<Rightarrow> u64 \<Rightarrow> u64 \<Rightarrow> DmaLayoutRequirement \<Rightarrow> BootManifest" where
  "AddAlloc m k d l a dl =
     (case AlignUp l a of
        None \<Rightarrow> m\<lparr>BootManifest.valid := False\<rparr>
      | Some x \<Rightarrow> m\<lparr>allocations := allocations m @
          [\<lparr>AllocationRequirement.kind = k, domain = d, logicalBytes = l, allocationBytes = x,
            alignment = a, requiresDmaMapping = (dl \<noteq> NoLayout), dmaLayout = dl\<rparr>]\<rparr>)"

definition AddressesOk :: "ResolvedAddresses \<Rightarrow> bool" where
  "AddressesOk a \<longleftrightarrow> PageAligned (queueBacking a) \<and> PageAligned (ResolvedAddresses.cachedArguments a) \<and>
     PageAligned (ResolvedAddresses.libosInitArguments a) \<and> PageAligned (ResolvedAddresses.wprMetadata a) \<and>
     PageAligned (radix3FirmwareRoot a) \<and> PageAligned (firmwareSignature a) \<and>
     PageAligned (gspBootloader a) \<and> PageAligned (frtsFwsecImage a) \<and> PageAligned (sec2BooterImage a)"

definition FindAllocation :: "BootManifest \<Rightarrow> AllocationKind \<Rightarrow> AllocationRequirement option" where
  "FindAllocation m k = find (\<lambda>r. AllocationRequirement.kind r = k) (allocations m)"

definition wpr_inputs :: "ManifestInputs \<Rightarrow> WprLayoutInputs" where
  "wpr_inputs i = \<lparr>WprLayoutInputs.fbSize = ManifestInputs.fbSize i,
     vgaWorkspaceOffset = ManifestInputs.vgaWorkspaceOffset i,
     vbiosReservedOffset = ManifestInputs.vbiosReservedOffset i,
     wprEndMargin = ManifestInputs.wprEndMargin i, frtsSize = ManifestInputs.frtsSize i,
     bootloaderSize = gspBootloaderBytes i, radix3ElfSize = gspFirmwareImageBytes i,
     nonWprHeapSize = ManifestInputs.nonWprHeapSize i,
     requestedWprHeapSize = ManifestInputs.requestedWprHeapSize i\<rparr>"

definition PlanBootManifest :: "ManifestInputs \<Rightarrow> BootManifest" where
  "PlanBootManifest i =
     (let o0 = BootManifest0 i in
      if gspFirmwareImageBytes i = 0 \<or> gspSignatureBytes i = 0 \<or> gspBootloaderBytes i = 0 \<or>
        frtsFwsecImageBytes i = 0 \<or> sec2BooterImageBytes i = 0 then o0
      else case (PlanQueueMemory (ManifestInputs.queueBytes i) kGspPageBytes kGspPteBytes,
          PlanRadix3 (gspFirmwareImageBytes i), PlanWprLayout (wpr_inputs i)) of
        (Some q, Some r, Some w) \<Rightarrow>
          (let m = o0\<lparr>queues := q, radix3 := r, wpr := w, BootManifest.valid := True,
                 bootstrapRpcPrefillImplemented := True\<rparr>;
               m = AddAlloc m QueueBacking System (totalBytes q) kPage PageList;
               m = AddAlloc m CachedArguments System (of_nat kGspArgumentsCachedBytes) kPage Linear;
               m = AddAlloc m LibosInitArguments System (of_nat kLibosInitPageBytes) kPage Linear;
               m = AddAlloc m WprMetadata System (of_nat kWprMetaBytes) kPage Linear;
               m = AddAlloc m Radix3Firmware System (Radix3Layout.allocationBytes r) kPage PageList;
               m = AddAlloc m FirmwareSignature System (gspSignatureBytes i) kPage Linear;
               m = AddAlloc m GspBootloader System (gspBootloaderBytes i) kPage Linear;
               m = AddAlloc m FrtsFwsecImage Framebuffer (frtsFwsecImageBytes i) kPage NoLayout
           in AddAlloc m Sec2BooterImage Framebuffer (sec2BooterImageBytes i) kPage NoLayout)
      | _ \<Rightarrow> o0)"

section \<open>DMA resolution\<close>

definition ResolveSystemDmaAllocation ::
    "AllocationRequirement \<Rightarrow> DmaSegment list \<Rightarrow> ResolvedDmaAllocation option option" where
  "ResolveSystemDmaAllocation req segments =
     (if domain req \<noteq> System \<or> \<not> requiresDmaMapping req \<or> dmaLayout req = NoLayout \<or>
        AllocationRequirement.allocationBytes req = 0 \<or> alignment req = 0 then Some None
      else let out = \<lparr>ResolvedDmaAllocation.kind = AllocationRequirement.kind req, layout = dmaLayout req,
             baseAddress = 0, allocationBytes = AllocationRequirement.allocationBytes req,
             pageAddresses = []\<rparr> in
        case dmaLayout req of
          Linear \<Rightarrow>
            let linear = ResolveLinearDmaRange segments (AllocationRequirement.allocationBytes req) in
            if DmaLinearRange.status linear \<noteq> DmaLinearRangeStatus.Ok \<or>
              DmaLinearRange.length' linear \<noteq> AllocationRequirement.allocationBytes req \<or>
              DmaLinearRange.address linear mod alignment req \<noteq> 0 then Some None
            else Some (Some (out\<lparr>baseAddress := DmaLinearRange.address linear\<rparr>))
        | PageList \<Rightarrow> do {
            pages \<leftarrow> ExpandDmaSegmentsToPages segments (AllocationRequirement.allocationBytes req) kPage;
            case DmaPageMap.pageAddresses pages of
              [] \<Rightarrow> Some None
            | p # ps \<Rightarrow>
                if DmaPageMap.status pages \<noteq> DmaPageMapStatus.Ok \<or> p mod alignment req \<noteq> 0 then Some None
                else Some (Some (out\<lparr>baseAddress := p, ResolvedDmaAllocation.pageAddresses := p # ps\<rparr>)) }
        | NoLayout \<Rightarrow> Some None)"

section \<open>Framebuffer staging\<close>

definition MakeFramebufferStageImage ::
    "BootManifest \<Rightarrow> AllocationKind \<Rightarrow> u64 \<Rightarrow> FramebufferStageImage option" where
  "MakeFramebufferStageImage m k vram =
     (case FindAllocation m k of
        None \<Rightarrow> None
      | Some req \<Rightarrow>
          if domain req \<noteq> Framebuffer \<or> requiresDmaMapping req \<or> dmaLayout req \<noteq> NoLayout \<or>
            AllocationRequirement.logicalBytes req = 0 \<or> AllocationRequirement.allocationBytes req = 0 \<or>
            alignment req = 0 \<or> vram mod alignment req \<noteq> 0 then None
          else if WprLayout.fbSize (wpr m) = 0 \<or> WprLayout.fbSize (wpr m) < gspFwRsvdStart (wpr m) \<or>
            WprLayout.fbSize (wpr m) \<le> vram \<or>
            WprLayout.fbSize (wpr m) - vram < AllocationRequirement.allocationBytes req then None
          else let e = vram + AllocationRequirement.allocationBytes req in
            if gspFwRsvdStart (wpr m) < e then None
            else let p = PlanPraminStage vram (AllocationRequirement.allocationBytes req) (WprLayout.fbSize (wpr m)) in
              if \<not> PraminStagePlan.valid p then None
              else Some \<lparr>FramebufferStageImage.kind = k, vramOffset = vram,
                logicalBytes = AllocationRequirement.logicalBytes req,
                allocationBytes = AllocationRequirement.allocationBytes req, pramin = p\<rparr>)"

definition RangesOverlap :: "u64 \<Rightarrow> u64 \<Rightarrow> u64 \<Rightarrow> u64 \<Rightarrow> bool" where
  "RangesOverlap aStart aBytes bStart bBytes \<longleftrightarrow>
     (let aEnd = aStart + aBytes; bEnd = bStart + bBytes in aStart < bEnd \<and> bStart < aEnd)"

definition PlanFramebufferStaging :: "BootManifest \<Rightarrow> ResolvedAddresses \<Rightarrow> FramebufferStagingPlan" where
  "PlanFramebufferStaging m a =
     (let out = \<lparr>FramebufferStagingPlan.valid = False, images = []\<rparr> in
      if \<not> BootManifest.valid m \<or> \<not> AddressesOk a then out
      else case (MakeFramebufferStageImage m FrtsFwsecImage (frtsFwsecImage a),
          MakeFramebufferStageImage m Sec2BooterImage (sec2BooterImage a)) of
        (Some frts, Some sec2) \<Rightarrow>
          if RangesOverlap (FramebufferStageImage.vramOffset frts) (FramebufferStageImage.allocationBytes frts)
            (FramebufferStageImage.vramOffset sec2) (FramebufferStageImage.allocationBytes sec2) then out
          else \<lparr>FramebufferStagingPlan.valid = True, images = [frts, sec2]\<rparr>
      | _ \<Rightarrow> out)"

definition BuildFramebufferStageArtifact ::
    "FramebufferStageImage \<Rightarrow> byte list \<Rightarrow> FramebufferStageArtifact option option" where
  "BuildFramebufferStageArtifact plan firmware =
     (let v = FramebufferStageImage.vramOffset plan; n = FramebufferStageImage.allocationBytes plan;
          l = FramebufferStageImage.logicalBytes plan; p = FramebufferStageImage.pramin plan in
      if l = 0 \<or> n = 0 \<or> n < l \<or> length firmware \<noteq> unat l \<or> \<not> PraminStagePlan.valid p \<or>
        PraminStagePlan.vramOffset p \<noteq> v \<or> PraminStagePlan.totalBytes p \<noteq> n \<or> vramSize p = 0 \<or>
        vramSize p \<le> v \<or> vramSize p - v < n \<or> v AND 0xFFF \<noteq> 0 \<or> n AND 0xFFF \<noteq> 0 \<or> n AND 3 \<noteq> 0 \<or>
        SIZE_MAX < unat n then Some None
      else do {
        b \<leftarrow> wr_seq (replicate (unat n) 0) 0 firmware;
        if \<not> list_all (\<lambda>x. x = 0) (drop (unat l) b) then Some None
        else Some (Some \<lparr>FramebufferStageArtifact.kind = FramebufferStageImage.kind plan, vramOffset = v,
          logicalBytes = l, allocationBytes = n, pramin = p, bytes = b\<rparr>) })"

section \<open>Host artifacts\<close>

definition BuildResolvedArtifacts ::
    "BootManifest \<Rightarrow> ResolvedAddresses \<Rightarrow> RiscvBootloaderInfo \<Rightarrow> u64 list \<Rightarrow> u64 list \<Rightarrow> byte list \<Rightarrow>
     LibosRegion list \<Rightarrow> GspSystemInfoInputs \<Rightarrow> RegistryDwordEntry list \<Rightarrow> ResolvedArtifacts option option" where
  "BuildResolvedArtifacts m a bl queuePages radixPages firmware regions sys registry =
     (if \<not> BootManifest.valid m \<or> RiscvBootloaderInfo.status bl \<noteq> ParseStatus.Ok \<or> \<not> AddressesOk a \<or>
        ucast (BinHeader.dataSize (RiscvBootloaderInfo.bin' bl)) \<noteq> gspBootloaderBytes (inputs m) then Some None
      else if queuePages = [] \<or> length queuePages \<noteq> unat (pageTableEntryCount (queues m)) \<or>
        hd queuePages \<noteq> queueBacking a then Some None
      else if radixPages = [] \<or> length radixPages \<noteq> unat (allocationPages (radix3 m)) \<or>
        hd radixPages \<noteq> radix3FirmwareRoot a then Some None
      else if length firmware \<noteq> unat (gspFirmwareImageBytes (inputs m)) \<or>
        length firmware \<noteq> unat (imageBytes (radix3 m)) then Some None
      else do {
        lib' \<leftarrow> BuildLibosInitPage regions;
        case lib' of None \<Rightarrow> Some None | Some lib \<Rightarrow> do {
          shared' \<leftarrow> BuildSharedQueueAllocationImage (queues m) queuePages sys registry;
          case shared' of None \<Rightarrow> Some None | Some shared \<Rightarrow> do {
            radix' \<leftarrow> BuildRadix3AllocationImage (radix3 m) radixPages firmware;
            case radix' of None \<Rightarrow> Some None | Some radix \<Rightarrow> do {
              meta \<leftarrow> BuildWprMeta \<lparr>WprMetaInputs.layout = wpr m,
                sysmemAddrOfRadix3Elf = radix3FirmwareRoot a, sysmemAddrOfBootloader = gspBootloader a,
                bootloaderCodeOffset = ucast (monitorCodeOffset (descriptor bl)),
                bootloaderDataOffset = ucast (monitorDataOffset (descriptor bl)),
                bootloaderManifestOffset = ucast (manifestOffset (descriptor bl)),
                sysmemAddrOfSignature = firmwareSignature a,
                sizeOfSignature = gspSignatureBytes (inputs m),
                gspFwHeapVfPartitionCount = 0, flags = 0, pmuReservedSize = 0\<rparr>;
              Some (Some \<lparr>ResolvedArtifacts.cachedArguments = SharedQueueAllocationImage.cachedArguments shared,
                wprMetadata = meta, libosInitArguments = lib,
                sharedQueueAllocation = SharedQueueAllocationImage.bytes shared,
                radix3FirmwareAllocation = radix,
                bootstrapCommandQueue = BootstrapQueueImage.bytes (commandQueue shared)\<rparr>) } } } })"

section \<open>What a manifest promises\<close>

lemma AlignUp_same: "AlignUp = GspWpr.AlignUp"
  by (intro ext) (simp add: AlignUp_def GspWpr.AlignUp_def Let_def)

lemma AlignUp_page:
  "AlignUp v kPage \<noteq> None \<longleftrightarrow> unat v \<le> 2 ^ 64 - 4096"
  "AlignUp v kPage = Some w \<Longrightarrow> unat v \<le> unat w \<and> unat w < unat v + 4096 \<and> 4096 dvd unat w"
proof -
  have v64: "unat v < 2 ^ 64" by (rule unat_lt(4))
  have m: "unat (v mod 0x1000) = unat v mod 4096" by (simp add: unat_mod_distrib)
  show "AlignUp v kPage \<noteq> None \<longleftrightarrow> unat v \<le> 2 ^ 64 - 4096"
  proof (cases "v mod 0x1000 = 0")
    case True
    then have "4096 dvd unat v" by (simp add: word_mod_eq_0_iff)
    then obtain k where "unat v = 4096 * k" by (elim dvdE)
    then have "unat v \<le> 2 ^ 64 - 4096" using v64 by simp
    then show ?thesis using True by (simp add: AlignUp_def kPage_def)
  next
    case False
    have r: "unat v mod 4096 < 4096" "unat v mod 4096 \<noteq> 0"
      using False m by (simp_all add: word_unat_eq_iff)
    have "v mod 0x1000 \<le> 0x1000" using r(1) m by (simp add: word_le_nat_alt)
    then have d: "unat (0x1000 - v mod 0x1000) = 4096 - unat v mod 4096" by (simp add: unat_sub m)
    have "- 1 - (0x1000 - v mod 0x1000) < v \<longleftrightarrow> 2 ^ 64 \<le> unat v + (4096 - unat v mod 4096)"
      by (simp only: add_guard64 d)
    also have "\<dots> \<longleftrightarrow> \<not> unat v \<le> 2 ^ 64 - 4096"
    proof -
      define q r where "q = unat v div 4096" and "r = unat v mod 4096"
      have "unat v = 4096 * q + r" "r < 4096" "r \<noteq> 0" using r by (simp_all add: q_def r_def)
      then show ?thesis unfolding r_def [symmetric] by simp arith
    qed
    finally show ?thesis using False by (simp add: AlignUp_def kPage_def)
  qed
  assume "AlignUp v kPage = Some w"
  then show "unat v \<le> unat w \<and> unat w < unat v + 4096 \<and> 4096 dvd unat w"
    using AlignUp_Some [of v kPage w] by (simp add: AlignUp_same kPage_def)
qed

text \<open>The allocation requests of a manifest: kind, domain, logical size and DMA layout.\<close>

type_synonym request = "AllocationKind \<times> MemoryDomain \<times> u64 \<times> DmaLayoutRequirement"

definition requests :: "ManifestInputs \<Rightarrow> QueueMemoryLayout \<Rightarrow> Radix3Layout \<Rightarrow> request list" where
  "requests i q r =
     [(QueueBacking, System, totalBytes q, PageList), (CachedArguments, System, 72, Linear),
      (LibosInitArguments, System, 4096, Linear), (WprMetadata, System, 256, Linear),
      (Radix3Firmware, System, Radix3Layout.allocationBytes r, PageList),
      (FirmwareSignature, System, gspSignatureBytes i, Linear),
      (GspBootloader, System, gspBootloaderBytes i, Linear),
      (FrtsFwsecImage, Framebuffer, frtsFwsecImageBytes i, NoLayout),
      (Sec2BooterImage, Framebuffer, sec2BooterImageBytes i, NoLayout)]"

definition requirement :: "request \<Rightarrow> AllocationRequirement" where
  "requirement x = (case x of (k, d, l, dl) \<Rightarrow>
     \<lparr>AllocationRequirement.kind = k, domain = d, logicalBytes = l,
      allocationBytes = (case AlignUp l kPage of Some b \<Rightarrow> b | None \<Rightarrow> 0), alignment = kPage,
      requiresDmaMapping = (dl \<noteq> NoLayout), dmaLayout = dl\<rparr>)"

definition add_request :: "BootManifest \<Rightarrow> request \<Rightarrow> BootManifest" where
  "add_request m x = (case x of (k, d, l, dl) \<Rightarrow> AddAlloc m k d l kPage dl)"

lemma add_requests:
  "inputs (foldl add_request m xs) = inputs m" "queues (foldl add_request m xs) = queues m"
  "radix3 (foldl add_request m xs) = radix3 m" "wpr (foldl add_request m xs) = wpr m"
  "bootstrapRpcPrefillImplemented (foldl add_request m xs) = bootstrapRpcPrefillImplemented m"
  "BootManifest.valid (foldl add_request m xs) \<longleftrightarrow>
    BootManifest.valid m \<and> (\<forall>(k, d, l, dl) \<in> set xs. unat l \<le> 2 ^ 64 - 4096)"
  "\<forall>(k, d, l, dl) \<in> set xs. unat l \<le> 2 ^ 64 - 4096 \<Longrightarrow>
    allocations (foldl add_request m xs) = allocations m @ map requirement xs"
proof (induction xs arbitrary: m)
  case (Cons x xs)
  obtain k d l dl where x: "x = (k, d, l, dl)" by (cases x)
  have step: "inputs (add_request m x) = inputs m" "queues (add_request m x) = queues m"
    "radix3 (add_request m x) = radix3 m" "wpr (add_request m x) = wpr m"
    "bootstrapRpcPrefillImplemented (add_request m x) = bootstrapRpcPrefillImplemented m" for m
    by (auto simp: x add_request_def AddAlloc_def split: option.split)
  {
    case 1 show ?case using Cons.IH(1) [of "add_request m x"] step by simp
  next
    case 2 show ?case using Cons.IH(2) [of "add_request m x"] step by simp
  next
    case 3 show ?case using Cons.IH(3) [of "add_request m x"] step by simp
  next
    case 4 show ?case using Cons.IH(4) [of "add_request m x"] step by simp
  next
    case 5 show ?case using Cons.IH(5) [of "add_request m x"] step by simp
  next
    case 6
    show ?case using Cons.IH(6) [of "add_request m x"] AlignUp_page(1) [of l]
      by (cases "AlignUp l kPage") (auto simp: x add_request_def AddAlloc_def)
  next
    case 7
    then have "unat l \<le> 2 ^ 64 - 4096" by (simp add: x)
    then obtain b where b: "AlignUp l kPage = Some b" using AlignUp_page(1) [of l] by auto
    show ?case using Cons.IH(7) [of "add_request m x"] 7 b
      by (simp add: x add_request_def AddAlloc_def requirement_def)
  }
qed simp_all

text \<open>The requests that get a manifest.\<close>

definition manifest_request_ok :: "ManifestInputs \<Rightarrow> bool" where
  "manifest_request_ok i \<longleftrightarrow>
     gspFirmwareImageBytes i \<noteq> 0 \<and> gspSignatureBytes i \<noteq> 0 \<and> gspBootloaderBytes i \<noteq> 0 \<and>
     frtsFwsecImageBytes i \<noteq> 0 \<and> sec2BooterImageBytes i \<noteq> 0 \<and> PlanWprLayout (wpr_inputs i) \<noteq> None \<and>
     (case (PlanQueueMemory (ManifestInputs.queueBytes i) kGspPageBytes kGspPteBytes,
        PlanRadix3 (gspFirmwareImageBytes i)) of
        (Some q, Some r) \<Rightarrow> \<forall>(k, d, l, dl) \<in> set (requests i q r). unat l \<le> 2 ^ 64 - 4096
      | _ \<Rightarrow> False)"

text \<open>An allocation: the logical bytes in whole pages; DMA exactly for system memory.\<close>

definition requirement_ok :: "AllocationRequirement \<Rightarrow> bool" where
  "requirement_ok r \<longleftrightarrow> AllocationRequirement.logicalBytes r \<noteq> 0 \<and> alignment r = kPage \<and>
     unat (AllocationRequirement.logicalBytes r) \<le> unat (AllocationRequirement.allocationBytes r) \<and>
     unat (AllocationRequirement.allocationBytes r) < unat (AllocationRequirement.logicalBytes r) + 4096 \<and>
     4096 dvd unat (AllocationRequirement.allocationBytes r) \<and>
     (requiresDmaMapping r \<longleftrightarrow> domain r = System) \<and> (dmaLayout r = NoLayout \<longleftrightarrow> domain r = Framebuffer)"

definition manifest_ok :: "ManifestInputs \<Rightarrow> BootManifest \<Rightarrow> bool" where
  "manifest_ok i m \<longleftrightarrow> BootManifest.valid m \<and> bootstrapRpcPrefillImplemented m \<and> inputs m = i \<and>
     queue_layout_ok (queues m) \<and> wpr_ok (wpr_inputs i) (wpr m) \<and>
     PlanQueueMemory (ManifestInputs.queueBytes i) kGspPageBytes kGspPteBytes = Some (queues m) \<and>
     PlanRadix3 (gspFirmwareImageBytes i) = Some (radix3 m) \<and>
     PlanWprLayout (wpr_inputs i) = Some (wpr m) \<and>
     allocations m = map requirement (requests i (queues m) (radix3 m)) \<and>
     (\<forall>r \<in> set (allocations m). requirement_ok r)"

lemma PlanRadix3_alloc:
  assumes "PlanRadix3 n = Some l"
  shows "unat (Radix3Layout.allocationBytes l) = unat (tableBytes l) + unat (imageBytes l)"
proof -
  have "Radix3Layout.allocationBytes l = tableBytes l + imageBytes l \<and> \<not> - 1 - imageBytes l < tableBytes l"
    using assms by (auto simp: PlanRadix3_def Let_def split: if_splits bind_splits)
  then show ?thesis by (simp only: add_guard64 not_le unat_add_nowrap len_words)
qed

text \<open>
  A manifest is valid exactly when the request is: all five images are present, the queue, page
  table and WPR planners succeed, and no allocation is within a page of 2^64. It then carries the
  three planned layouts and nine allocations in a fixed order, each the logical size rounded up to
  whole pages, with a DMA mapping exactly for the system-memory ones.
\<close>
lemma PlanBootManifest_cases:
  "(if manifest_request_ok i then manifest_ok i (PlanBootManifest i)
    else \<not> BootManifest.valid (PlanBootManifest i))"
proof (cases "PlanQueueMemory (ManifestInputs.queueBytes i) kGspPageBytes kGspPteBytes = None \<or>
    PlanRadix3 (gspFirmwareImageBytes i) = None \<or> PlanWprLayout (wpr_inputs i) = None \<or>
    gspFirmwareImageBytes i = 0 \<or> gspSignatureBytes i = 0 \<or> gspBootloaderBytes i = 0 \<or>
    frtsFwsecImageBytes i = 0 \<or> sec2BooterImageBytes i = 0")
  case True
  then have "PlanBootManifest i = BootManifest0 i"
    unfolding PlanBootManifest_def Let_def by (elim disjE) (simp_all split: option.split)
  moreover have "\<not> manifest_request_ok i"
    using True unfolding manifest_request_ok_def by (elim disjE) (simp_all split: option.split)
  ultimately show ?thesis by (simp add: BootManifest0_def)
next
  case False
  then obtain q r w where plans: "PlanQueueMemory (ManifestInputs.queueBytes i) kGspPageBytes kGspPteBytes = Some q"
    "PlanRadix3 (gspFirmwareImageBytes i) = Some r" "PlanWprLayout (wpr_inputs i) = Some w" by auto
  let ?m0 = "(BootManifest0 i)\<lparr>queues := q, radix3 := r, wpr := w, BootManifest.valid := True,
    bootstrapRpcPrefillImplemented := True\<rparr>"
  have plan: "PlanBootManifest i = foldl add_request ?m0 (requests i q r)"
    using False by (simp add: PlanBootManifest_def add_request_def plans requests_def kGspArgumentsCachedBytes_def
        kLibosInitPageBytes_def kWprMetaBytes_def)
  have ok: "manifest_request_ok i \<longleftrightarrow> (\<forall>(k, d, l, dl) \<in> set (requests i q r). unat l \<le> 2 ^ 64 - 4096)"
    using False by (simp add: manifest_request_ok_def plans)
  have m0: "allocations ?m0 = []" "BootManifest.valid ?m0" by (simp_all add: BootManifest0_def)
  show ?thesis
  proof (cases "manifest_request_ok i")
    case False
    then show ?thesis using ok m0 by (auto simp: plan add_requests)
  next
    case True
    let ?m = "PlanBootManifest i"
    have small: "\<forall>(k, d, l, dl) \<in> set (requests i q r). unat l \<le> 2 ^ 64 - 4096" using True ok by blast
    have alloc: "allocations ?m = map requirement (requests i q r)"
      using add_requests(7) [OF small] m0(1) by (simp add: plan)
    have queue: "queue_layout_ok q"
      using PlanQueueMemory_ok [OF plans(1)] by (simp add: kGspPageBytes_def)
    obtain n1 n2 n3 where radix: "radix_ok r n1 n2 n3" using PlanRadix3_ok [OF plans(2)] by blast
    have "0 < unat (totalBytes q)" using queue by (simp add: queue_layout_ok_def)
    moreover have "0 < unat (Radix3Layout.allocationBytes r)"
      using PlanRadix3_alloc [OF plans(2)] radix by (simp add: radix_ok_def)
    ultimately have sizes: "totalBytes q \<noteq> 0" "Radix3Layout.allocationBytes r \<noteq> 0"
      by (simp_all add: unat_gt_0)
    have nz: "l \<noteq> 0 \<and> (d = System \<longleftrightarrow> dl \<noteq> NoLayout)" if "(k, d, l, dl) \<in> set (requests i q r)" for k d l dl
      using that sizes False by (auto simp: requests_def)
    have "requirement_ok (requirement x)" if "x \<in> set (requests i q r)" for x
    proof -
      obtain k d l dl where x: "x = (k, d, l, dl)" by (cases x)
      have "unat l \<le> 2 ^ 64 - 4096" using small that x by auto
      then obtain b where b: "AlignUp l kPage = Some b" using AlignUp_page(1) [of l] by auto
      show ?thesis using AlignUp_page(2) [OF b] nz [of k d l dl] that
        by (cases d) (auto simp: x requirement_def requirement_ok_def b)
    qed
    then show ?thesis
      using True small queue plans PlanWprLayout_ok [OF plans(3)] m0 alloc
      by (auto simp: manifest_ok_def plan add_requests BootManifest0_def)
  qed
qed

lemma manifest_ok_valid: "BootManifest.valid (PlanBootManifest i) \<Longrightarrow> manifest_ok i (PlanBootManifest i)"
  using PlanBootManifest_cases [of i] by (auto split: if_splits)

definition sample_manifest_inputs :: ManifestInputs where
  "sample_manifest_inputs = \<lparr>ManifestInputs.fbSize = 0x10000000, vgaWorkspaceOffset = 0xFF00000,
     vbiosReservedOffset = 0xFF00000, wprEndMargin = 0, frtsSize = 0x100000, nonWprHeapSize = 0x100000,
     requestedWprHeapSize = 0x4000000, gspFirmwareImageBytes = 0x1800000, gspSignatureBytes = 4096,
     gspBootloaderBytes = 0x1234, frtsFwsecImageBytes = 0x5000, sec2BooterImageBytes = 0x3001,
     queueBytes = 0x40000\<rparr>"

lemma sample_manifest_request: "manifest_request_ok sample_manifest_inputs"
proof -
  have q: "\<exists>q. PlanQueueMemory 0x40000 kGspPageBytes kGspPteBytes = Some q \<and> unat (totalBytes q) \<le> 2 ^ 64 - 4096"
    by (simp add: PlanQueueMemory_def kGspPageBytes_def kGspPteBytes_def RoundUp_def)
  have r: "\<exists>r. PlanRadix3 0x1800000 = Some r \<and> unat (Radix3Layout.allocationBytes r) \<le> 2 ^ 64 - 4096"
    by (simp add: PlanRadix3_def CeilDiv_def kRadixPageBytes_def kRadixEntriesPerPage_def)
  have w: "PlanWprLayout (wpr_inputs sample_manifest_inputs) \<noteq> None"
    by (simp add: PlanWprLayout_def wpr_inputs_def sample_manifest_inputs_def wpr_consts AlignDown_def
        GspWpr.AlignUp_def Sub_def)
  have fields: "ManifestInputs.queueBytes sample_manifest_inputs = 0x40000"
    "gspFirmwareImageBytes sample_manifest_inputs = 0x1800000" by (simp_all add: sample_manifest_inputs_def)
  obtain q' r' where "PlanQueueMemory 0x40000 kGspPageBytes kGspPteBytes = Some q'" "unat (totalBytes q') \<le> 2 ^ 64 - 4096"
    "PlanRadix3 0x1800000 = Some r'" "unat (Radix3Layout.allocationBytes r') \<le> 2 ^ 64 - 4096"
    using q r by blast
  moreover from this have "\<forall>(k, d, l, dl) \<in> set (requests sample_manifest_inputs q' r'). unat l \<le> 2 ^ 64 - 4096"
    by (simp add: requests_def sample_manifest_inputs_def)
  moreover have "gspSignatureBytes sample_manifest_inputs \<noteq> 0" "gspBootloaderBytes sample_manifest_inputs \<noteq> 0"
    "frtsFwsecImageBytes sample_manifest_inputs \<noteq> 0" "sec2BooterImageBytes sample_manifest_inputs \<noteq> 0"
    by (simp_all add: sample_manifest_inputs_def)
  ultimately show ?thesis
    using w unfolding manifest_request_ok_def fields by simp
qed

section \<open>Staging the framebuffer images\<close>

lemma PageAligned_iff: "PageAligned v \<longleftrightarrow> 4096 dvd unat v"
  using and_mask_zero_iff [of v 12] by (simp add: PageAligned_def kPage_def mask_eq_exp_minus_1)

text \<open>A staged image: its place, page aligned and below the reserved area, and its upload plan.\<close>

definition staged :: "BootManifest \<Rightarrow> AllocationKind \<Rightarrow> u64 \<Rightarrow> u64 \<Rightarrow> FramebufferStageImage \<Rightarrow> bool" where
  "staged m k v l img \<longleftrightarrow> FramebufferStageImage.kind img = k \<and> FramebufferStageImage.vramOffset img = v \<and>
     FramebufferStageImage.logicalBytes img = l \<and> 0 < unat l \<and> 4096 dvd unat v \<and>
     unat l \<le> unat (FramebufferStageImage.allocationBytes img) \<and>
     unat (FramebufferStageImage.allocationBytes img) < unat l + 4096 \<and>
     4096 dvd unat (FramebufferStageImage.allocationBytes img) \<and>
     unat v + unat (FramebufferStageImage.allocationBytes img) \<le> unat (gspFwRsvdStart (wpr m)) \<and>
     stage_request_ok v (FramebufferStageImage.allocationBytes img) (WprLayout.fbSize (wpr m)) \<and>
     FramebufferStageImage.pramin img =
       PlanPraminStage v (FramebufferStageImage.allocationBytes img) (WprLayout.fbSize (wpr m))"

lemma MakeFramebufferStageImage_staged:
  assumes "FindAllocation m k = Some req" and "requirement_ok req"
    and "MakeFramebufferStageImage m k v = Some img"
  shows "staged m k v (AllocationRequirement.logicalBytes req) img"
proof -
  let ?n = "AllocationRequirement.allocationBytes req" and ?fb = "WprLayout.fbSize (wpr m)"
  have f: "v mod alignment req = 0" "\<not> ?fb \<le> v" "\<not> ?fb - v < ?n" "\<not> gspFwRsvdStart (wpr m) < v + ?n"
    "PraminStagePlan.valid (PlanPraminStage v ?n ?fb)"
    "img = \<lparr>FramebufferStageImage.kind = k, vramOffset = v, logicalBytes = AllocationRequirement.logicalBytes req,
      allocationBytes = ?n, pramin = PlanPraminStage v ?n ?fb\<rparr>"
    using assms(1,3) by (auto simp: MakeFramebufferStageImage_def Let_def split: if_splits)
  have req: "stage_request_ok v ?n ?fb" using PlanPraminStage_cases [of v ?n ?fb] f(5) by auto
  then have fit: "unat v + unat ?n \<le> unat ?fb" by (simp add: stage_request_ok_def)
  then have "unat (v + ?n) = unat v + unat ?n"
    using unat_lt(4) [of ?fb] by (intro unat_add_nowrap) simp
  then have "unat v + unat ?n \<le> unat (gspFwRsvdStart (wpr m))"
    using f(4) by (simp add: word_less_nat_alt not_less)
  moreover have "4096 dvd unat v"
    using f(1) assms(2) by (simp add: requirement_ok_def kPage_def word_mod_eq_0_iff)
  ultimately show ?thesis
    using assms(2) req by (simp add: staged_def f(6) requirement_ok_def unat_gt_0)
qed

lemma staged_artifact:
  assumes s: "staged m k v l img" and fw: "length fw = unat l"
  shows "\<exists>art. BuildFramebufferStageArtifact img fw = Some (Some art) \<and>
    FramebufferStageArtifact.bytes art =
      fw @ replicate (unat (FramebufferStageImage.allocationBytes img) - unat l) 0 \<and>
    FramebufferStageArtifact.pramin art = FramebufferStageImage.pramin img"
proof -
  let ?n = "FramebufferStageImage.allocationBytes img"
  note s' = s [unfolded staged_def]
  obtain cs where p: "PlanPraminStage v ?n (WprLayout.fbSize (wpr m)) =
      \<lparr>PraminStagePlan.valid = True, vramSize = WprLayout.fbSize (wpr m), vramOffset = v, totalBytes = ?n, chunks = cs\<rparr>"
    using PlanPraminStage_cases [of v ?n "WprLayout.fbSize (wpr m)"] s' by auto
  have align: "x AND 0xFFF = 0" "x AND 3 = 0" if "4096 dvd unat x" for x :: u64
  proof -
    show "x AND 0xFFF = 0" using that and_mask_zero_iff [of x 12] by (simp add: mask_eq_exp_minus_1)
    have "(4 :: nat) dvd 4096" by simp
    then have "4 dvd unat x" using that dvd_trans by blast
    then show "x AND 3 = 0" using and_mask_zero_iff [of x 2] by (simp add: mask_eq_exp_minus_1)
  qed
  have fits: "unat v + unat ?n \<le> unat (WprLayout.fbSize (wpr m))" "?n \<noteq> 0"
    using s' by (simp_all add: stage_request_ok_def)
  then have "0 < unat ?n" by (simp add: unat_gt_0)
  then have v: "v < WprLayout.fbSize (wpr m)" using fits by (simp add: word_less_nat_alt)
  have room: "\<not> WprLayout.fbSize (wpr m) - v < ?n"
    using fits v by (simp add: sub_less_iff)
  have b: "wr_seq (replicate (unat ?n) 0) 0 fw = Some (fw @ replicate (unat ?n - unat l) (0 :: byte))"
    using s' fw by (auto simp: mem_simps put_def)
  have "list_all (\<lambda>x. x = 0) (replicate (unat ?n - unat l) (0 :: byte))"
    by (simp add: list_all_iff)
  moreover have "\<not> ?n < l" "l \<noteq> 0" using s' by (auto simp: word_less_nat_alt)
  moreover have "WprLayout.fbSize (wpr m) \<noteq> 0" using v by auto
  moreover have "\<not> SIZE_MAX < unat ?n" using unat_lt(4) [of ?n] by simp
  ultimately show ?thesis
    using s' fw fits(2) v room align [of v] align [of ?n] b
    by (simp add: BuildFramebufferStageArtifact_def p not_le Let_def)
qed

lemma staged_upload:
  assumes "staged m k v l img"
  shows "PraminDryRunMmioPlan.valid (BuildPraminDryRunMmioPlan (FramebufferStageImage.pramin img)) \<and>
    pramin_writes (steps (BuildPraminDryRunMmioPlan (FramebufferStageImage.pramin img))) =
      [unat v ..< unat v + unat (FramebufferStageImage.allocationBytes img)]"
proof -
  let ?n = "FramebufferStageImage.allocationBytes img" and ?p = "FramebufferStageImage.pramin img"
  note s' = assms [unfolded staged_def]
  have "(4 :: nat) dvd 4096" by simp
  then have "4 dvd unat v" "4 dvd unat ?n" using s' dvd_trans by blast+
  then have "PraminDryRunMmioPlan.valid (BuildPraminDryRunMmioPlan ?p)"
    using s' Build_planned_valid [of v ?n "WprLayout.fbSize (wpr m)"] by simp
  moreover have "PraminStagePlan.vramOffset ?p = v" "PraminStagePlan.totalBytes ?p = ?n"
    using PlanPraminStage_cases [of v ?n "WprLayout.fbSize (wpr m)"] s' by auto
  ultimately show ?thesis using Build_writes [of ?p] by simp
qed

lemma manifest_framebuffer:
  assumes "manifest_ok i m"
  shows "FindAllocation m FrtsFwsecImage = Some (requirement (FrtsFwsecImage, Framebuffer, frtsFwsecImageBytes i, NoLayout))"
    "FindAllocation m Sec2BooterImage = Some (requirement (Sec2BooterImage, Framebuffer, sec2BooterImageBytes i, NoLayout))"
    "requirement_ok (requirement (FrtsFwsecImage, Framebuffer, frtsFwsecImageBytes i, NoLayout))"
    "requirement_ok (requirement (Sec2BooterImage, Framebuffer, sec2BooterImageBytes i, NoLayout))"
  using assms by (simp_all add: manifest_ok_def FindAllocation_def requests_def) (simp_all add: requirement_def)

text \<open>
  C39. A valid staging plan of a planned manifest holds the FRTS image and then the SEC2 booter.
  Both are page aligned, lie below the reserved start and so below the whole WPR region, and do
  not overlap. Each image of the right length gives an artifact that is the image padded with
  zeros, and the dry run of its upload is accepted and writes exactly its place in video memory.
\<close>
theorem PlanFramebufferStaging_spec:
  assumes "BootManifest.valid (PlanBootManifest i)"
    and "s = PlanFramebufferStaging (PlanBootManifest i) a" and "FramebufferStagingPlan.valid s"
  shows "\<exists>frts sec2. images s = [frts, sec2] \<and>
    staged (PlanBootManifest i) FrtsFwsecImage (frtsFwsecImage a) (frtsFwsecImageBytes i) frts \<and>
    staged (PlanBootManifest i) Sec2BooterImage (sec2BooterImage a) (sec2BooterImageBytes i) sec2 \<and>
    unat (gspFwRsvdStart (wpr (PlanBootManifest i))) \<le> unat (gspFwWprStart (wpr (PlanBootManifest i))) \<and>
    (unat (frtsFwsecImage a) + unat (FramebufferStageImage.allocationBytes frts) \<le> unat (sec2BooterImage a) \<or>
     unat (sec2BooterImage a) + unat (FramebufferStageImage.allocationBytes sec2) \<le> unat (frtsFwsecImage a)) \<and>
    (\<forall>img \<in> {frts, sec2}. \<forall>fw. length fw = unat (FramebufferStageImage.logicalBytes img) \<longrightarrow>
      (\<exists>art. BuildFramebufferStageArtifact img fw = Some (Some art) \<and>
        FramebufferStageArtifact.bytes art = fw @ replicate (unat (FramebufferStageImage.allocationBytes img) - length fw) 0 \<and>
        PraminDryRunMmioPlan.valid (BuildPraminDryRunMmioPlan (FramebufferStageArtifact.pramin art)) \<and>
        pramin_writes (steps (BuildPraminDryRunMmioPlan (FramebufferStageArtifact.pramin art))) =
          [unat (FramebufferStageImage.vramOffset img) ..<
           unat (FramebufferStageImage.vramOffset img) + unat (FramebufferStageImage.allocationBytes img)]))"
proof -
  let ?m = "PlanBootManifest i"
  have ok: "manifest_ok i ?m" using assms(1) by (rule manifest_ok_valid)
  note find = manifest_framebuffer [OF ok]
  obtain frts sec2 where f: "MakeFramebufferStageImage ?m FrtsFwsecImage (frtsFwsecImage a) = Some frts"
    "MakeFramebufferStageImage ?m Sec2BooterImage (sec2BooterImage a) = Some sec2" "images s = [frts, sec2]"
    "\<not> RangesOverlap (FramebufferStageImage.vramOffset frts) (FramebufferStageImage.allocationBytes frts)
       (FramebufferStageImage.vramOffset sec2) (FramebufferStageImage.allocationBytes sec2)"
    using assms(2,3) by (auto simp: PlanFramebufferStaging_def Let_def split: option.splits if_splits)
  have s1: "staged ?m FrtsFwsecImage (frtsFwsecImage a) (frtsFwsecImageBytes i) frts"
    using MakeFramebufferStageImage_staged [OF find(1,3) f(1)] by (simp add: requirement_def)
  have s2: "staged ?m Sec2BooterImage (sec2BooterImage a) (sec2BooterImageBytes i) sec2"
    using MakeFramebufferStageImage_staged [OF find(2,4) f(2)] by (simp add: requirement_def)
  have no_wrap: "unat (v + FramebufferStageImage.allocationBytes img) = unat v + unat (FramebufferStageImage.allocationBytes img)"
    if "staged ?m k v l img" for k v l img
    using that unat_lt(4) [of "gspFwRsvdStart (wpr ?m)"] by (intro unat_add_nowrap) (simp add: staged_def)
  have apart: "unat (frtsFwsecImage a) + unat (FramebufferStageImage.allocationBytes frts) \<le> unat (sec2BooterImage a) \<or>
     unat (sec2BooterImage a) + unat (FramebufferStageImage.allocationBytes sec2) \<le> unat (frtsFwsecImage a)"
    using f(4) s1 s2 no_wrap [OF s1] no_wrap [OF s2]
    by (auto simp: RangesOverlap_def staged_def word_less_nat_alt not_less)
  have wpr: "unat (gspFwRsvdStart (wpr ?m)) \<le> unat (gspFwWprStart (wpr ?m))"
    using ok by (simp add: manifest_ok_def wpr_ok_def)
  have art: "\<exists>art. BuildFramebufferStageArtifact img fw = Some (Some art) \<and>
        FramebufferStageArtifact.bytes art = fw @ replicate (unat (FramebufferStageImage.allocationBytes img) - length fw) 0 \<and>
        PraminDryRunMmioPlan.valid (BuildPraminDryRunMmioPlan (FramebufferStageArtifact.pramin art)) \<and>
        pramin_writes (steps (BuildPraminDryRunMmioPlan (FramebufferStageArtifact.pramin art))) =
          [unat (FramebufferStageImage.vramOffset img) ..<
           unat (FramebufferStageImage.vramOffset img) + unat (FramebufferStageImage.allocationBytes img)]"
    if "staged ?m k v l img" "length fw = unat (FramebufferStageImage.logicalBytes img)" for k v l img fw
  proof -
    have "length fw = unat l" "FramebufferStageImage.vramOffset img = v" using that by (simp_all add: staged_def)
    then show ?thesis using staged_artifact [OF that(1), of fw] staged_upload [OF that(1)] by auto
  qed
  show ?thesis using f(3) s1 s2 wpr apart art [OF s1] art [OF s2] by blast
qed

lemma MakeFramebufferStageImage_defined:
  assumes "FindAllocation m k = Some req" and "requirement_ok req" and "domain req = Framebuffer"
    and "4096 dvd unat v" and "gspFwRsvdStart (wpr m) \<le> WprLayout.fbSize (wpr m)"
    and "unat v + unat (AllocationRequirement.allocationBytes req) \<le> unat (gspFwRsvdStart (wpr m))"
    and "unat v + unat (AllocationRequirement.allocationBytes req) \<le> 2 ^ 48"
  shows "\<exists>img. MakeFramebufferStageImage m k v = Some img \<and>
    FramebufferStageImage.vramOffset img = v \<and>
    FramebufferStageImage.allocationBytes img = AllocationRequirement.allocationBytes req"
proof -
  let ?n = "AllocationRequirement.allocationBytes req" and ?fb = "WprLayout.fbSize (wpr m)"
  have r: "alignment req \<noteq> 0" "v mod alignment req = 0" "dmaLayout req = NoLayout" "\<not> requiresDmaMapping req"
    "AllocationRequirement.logicalBytes req \<noteq> 0"
    using assms(2,3,4) by (auto simp: requirement_ok_def kPage_def word_mod_eq_0_iff)
  have pos: "0 < unat ?n"
  proof -
    have "0 < unat (AllocationRequirement.logicalBytes req)" using r(5) by (simp add: unat_gt_0)
    then show ?thesis using assms(2) by (simp add: requirement_ok_def)
  qed
  have fb: "unat v + unat ?n \<le> unat ?fb" using assms(5,6) by (simp add: word_le_nat_alt)
  then have v: "v < ?fb" using pos by (simp add: word_less_nat_alt)
  then have room: "\<not> ?fb - v < ?n" using fb by (simp add: sub_less_iff)
  have e: "unat (v + ?n) = unat v + unat ?n"
    using fb unat_lt(4) [of ?fb] by (intro unat_add_nowrap) simp
  have "\<not> gspFwRsvdStart (wpr m) < v + ?n" using assms(6) by (simp add: word_less_nat_alt e)
  moreover have "stage_request_ok v ?n ?fb" using pos fb assms(7) by (simp add: stage_request_ok_def unat_gt_0)
  then have "PraminStagePlan.valid (PlanPraminStage v ?n ?fb)"
    using PlanPraminStage_cases [of v ?n ?fb] by auto
  moreover have "?fb \<noteq> 0" "?n \<noteq> 0" using v pos by auto
  ultimately show ?thesis
    using assms(1,3,5) r v room by (simp add: MakeFramebufferStageImage_def Let_def not_le not_less)
qed

definition sample_addresses :: ResolvedAddresses where
  "sample_addresses = \<lparr>queueBacking = 0x100000000, cachedArguments = 0x100100000,
     libosInitArguments = 0x100101000, wprMetadata = 0x100102000, radix3FirmwareRoot = 0x100200000,
     firmwareSignature = 0x100103000, gspBootloader = 0x100104000, frtsFwsecImage = 0x100000,
     sec2BooterImage = 0x200000\<rparr>"

lemma sample_wpr: "gspFwRsvdStart (wpr (PlanBootManifest sample_manifest_inputs)) = 0xA300000"
proof -
  have "map_option gspFwRsvdStart (PlanWprLayout (wpr_inputs sample_manifest_inputs)) = Some 0xA300000"
    by (simp add: PlanWprLayout_def wpr_inputs_def sample_manifest_inputs_def wpr_consts AlignDown_def
        GspWpr.AlignUp_def Sub_def)
  moreover have "PlanWprLayout (wpr_inputs sample_manifest_inputs) = Some (wpr (PlanBootManifest sample_manifest_inputs))"
    using PlanBootManifest_cases [of sample_manifest_inputs] sample_manifest_request
    by (simp add: manifest_ok_def)
  ultimately show ?thesis by simp
qed

theorem PlanFramebufferStaging_witness:
  "\<exists>frts sec2. images (PlanFramebufferStaging (PlanBootManifest sample_manifest_inputs) sample_addresses) = [frts, sec2] \<and>
    FramebufferStageImage.allocationBytes frts = 0x5000 \<and> FramebufferStageImage.allocationBytes sec2 = 0x4000 \<and>
    (\<exists>art. BuildFramebufferStageArtifact sec2 (replicate 0x3001 7) = Some (Some art) \<and>
      FramebufferStageArtifact.bytes art = replicate 0x3001 7 @ replicate 0xFFF 0)"
proof -
  let ?i = sample_manifest_inputs and ?m = "PlanBootManifest sample_manifest_inputs" and ?a = sample_addresses
  have ok: "manifest_ok ?i ?m" using PlanBootManifest_cases [of ?i] sample_manifest_request by simp
  note find = manifest_framebuffer [OF ok]
  have sizes: "AlignUp 0x5000 kPage = Some 0x5000" "AlignUp 0x3001 kPage = Some 0x4000"
    by (simp_all add: AlignUp_def kPage_def)
  have fb: "gspFwRsvdStart (wpr ?m) \<le> WprLayout.fbSize (wpr ?m)"
    using ok sample_wpr by (simp add: manifest_ok_def wpr_ok_def wpr_inputs_def) (simp add: sample_manifest_inputs_def)
  have in_fields: "frtsFwsecImageBytes ?i = 0x5000" "sec2BooterImageBytes ?i = 0x3001"
    "frtsFwsecImage ?a = 0x100000" "sec2BooterImage ?a = 0x200000"
    by (simp_all add: sample_manifest_inputs_def sample_addresses_def)
  obtain frts where frts: "MakeFramebufferStageImage ?m FrtsFwsecImage 0x100000 = Some frts"
    "FramebufferStageImage.vramOffset frts = 0x100000" "FramebufferStageImage.allocationBytes frts = 0x5000"
    using MakeFramebufferStageImage_defined [OF find(1,3) _ _ fb, of "0x100000"]
    by (auto simp: requirement_def in_fields sizes sample_wpr)
  obtain sec2 where sec2: "MakeFramebufferStageImage ?m Sec2BooterImage 0x200000 = Some sec2"
    "FramebufferStageImage.vramOffset sec2 = 0x200000" "FramebufferStageImage.allocationBytes sec2 = 0x4000"
    using MakeFramebufferStageImage_defined [OF find(2,4) _ _ fb, of "0x200000"]
    by (auto simp: requirement_def in_fields sizes sample_wpr)
  have valid: "BootManifest.valid ?m" using ok by (simp add: manifest_ok_def)
  have "AddressesOk ?a" by (simp add: AddressesOk_def PageAligned_def sample_addresses_def kPage_def)
  then have plan: "PlanFramebufferStaging ?m ?a = \<lparr>FramebufferStagingPlan.valid = True, images = [frts, sec2]\<rparr>"
    using valid frts sec2 by (simp add: PlanFramebufferStaging_def in_fields RangesOverlap_def)
  have "FramebufferStageImage.logicalBytes sec2 = 0x3001"
    using MakeFramebufferStageImage_staged [OF find(2,4) sec2(1)] by (simp add: staged_def requirement_def in_fields)
  then have len: "length (replicate 0x3001 (7 :: byte)) = unat (FramebufferStageImage.logicalBytes sec2)" by simp
  have "\<exists>art. BuildFramebufferStageArtifact sec2 fw = Some (Some art) \<and>
      FramebufferStageArtifact.bytes art = fw @ replicate (unat (FramebufferStageImage.allocationBytes sec2) - length fw) 0"
    if "length fw = unat (FramebufferStageImage.logicalBytes sec2)" for fw
    using PlanFramebufferStaging_spec [OF valid refl, of ?a] that by (fastforce simp: plan)
  from this [OF len] show ?thesis using plan frts(3) sec2(3) by auto
qed

section \<open>Resolving an allocation\<close>

text \<open>What a resolved allocation is: all its bytes in order, from a page-aligned base.\<close>

definition resolved_ok :: "AllocationRequirement \<Rightarrow> DmaSegment list \<Rightarrow> ResolvedDmaAllocation \<Rightarrow> bool" where
  "resolved_ok r segs out \<longleftrightarrow> ResolvedDmaAllocation.kind out = AllocationRequirement.kind r \<and>
     4096 dvd unat (baseAddress out) \<and>
     (if dmaLayout r = Linear
      then dma_bytes segs = [unat (baseAddress out) ..<
        unat (baseAddress out) + unat (AllocationRequirement.allocationBytes r)]
      else dmaLayout r = PageList \<and> page_bytes kPage (ResolvedDmaAllocation.pageAddresses out) = dma_bytes segs \<and>
        ResolvedDmaAllocation.pageAddresses out \<noteq> [] \<and>
        hd (ResolvedDmaAllocation.pageAddresses out) = baseAddress out \<and>
        length (ResolvedDmaAllocation.pageAddresses out) = unat (AllocationRequirement.allocationBytes r) div 4096)"

lemma ResolveSystemDmaAllocation_cases:
  assumes "requirement_ok r"
  shows "\<exists>x. ResolveSystemDmaAllocation r segs = Some x \<and>
    (\<forall>out. x = Some out \<longrightarrow> domain r = System \<and> resolved_ok r segs out)"
proof -
  have al: "alignment r = 0x1000" "unat kPage = 4096"
    using assms by (simp_all add: requirement_ok_def kPage_def)
  let ?n = "AllocationRequirement.allocationBytes r"
  show ?thesis
  proof (cases "dmaLayout r")
    case NoLayout
    then show ?thesis by (auto simp: ResolveSystemDmaAllocation_def)
  next
    case Linear
    let ?l = "ResolveLinearDmaRange segs ?n"
    have "dma_bytes segs = [unat (DmaLinearRange.address ?l) ..< unat (DmaLinearRange.address ?l) + unat ?n]"
      if "DmaLinearRange.status ?l = DmaLinearRangeStatus.Ok" "DmaLinearRange.length' ?l = ?n"
      using ResolveLinearDmaRange_cases [of segs ?n] that by auto
    then show ?thesis
      using Linear by (auto simp: ResolveSystemDmaAllocation_def resolved_ok_def Let_def al word_mod_eq_0_iff)
  next
    case PageList
    obtain p where p: "ExpandDmaSegmentsToPages segs ?n kPage = Some p"
      "DmaPageMap.status p = DmaPageMapStatus.Ok \<longrightarrow>
        page_bytes kPage (DmaPageMap.pageAddresses p) = dma_bytes segs \<and>
        length (DmaPageMap.pageAddresses p) = unat ?n div unat kPage \<and>
        (\<forall>a \<in> set (DmaPageMap.pageAddresses p). unat kPage dvd unat a)"
      using ExpandDmaSegmentsToPages_cases [of segs ?n kPage] by blast
    show ?thesis
      using PageList p
      by (cases "DmaPageMap.pageAddresses p")
        (auto simp: ResolveSystemDmaAllocation_def resolved_ok_def Let_def al word_mod_eq_0_iff)
  qed
qed

text \<open>
  Resolving an allocation of a manifest always returns. A linear allocation it accepts is one
  contiguous range of bus addresses of the allocation's size; a page list it accepts expands to
  exactly the bytes of the segments, one entry per page, with the base as its first entry; both
  bases are page aligned, and framebuffer allocations are never resolved.
\<close>
theorem ResolveSystemDmaAllocation_spec:
  assumes "requirement_ok r"
  shows "\<exists>x. ResolveSystemDmaAllocation r segs = Some x \<and>
    (\<forall>out. x = Some out \<longrightarrow> domain r = System \<and> resolved_ok r segs out)"
  using assms by (rule ResolveSystemDmaAllocation_cases)

theorem ResolveSystemDmaAllocation_witness:
  "\<exists>out. ResolveSystemDmaAllocation (requirement (WprMetadata, System, 256, Linear))
      [\<lparr>DmaSegment.address = 0x5000, length' = 0x1000\<rparr>] = Some (Some out) \<and>
    resolved_ok (requirement (WprMetadata, System, 256, Linear))
      [\<lparr>DmaSegment.address = 0x5000, length' = 0x1000\<rparr>] out \<and> baseAddress out = 0x5000"
proof -
  let ?r = "requirement (WprMetadata, System, 256, Linear)"
  let ?s = "[\<lparr>DmaSegment.address = 0x5000, length' = 0x1000\<rparr>]"
  have r: "?r = \<lparr>AllocationRequirement.kind = WprMetadata, domain = System, logicalBytes = 256,
      allocationBytes = 0x1000, alignment = kPage, requiresDmaMapping = True, dmaLayout = Linear\<rparr>"
    by (simp add: requirement_def AlignUp_def kPage_def)
  have "requirement_ok ?r" by (simp add: r requirement_ok_def kPage_def)
  moreover have "ResolveSystemDmaAllocation ?r ?s = Some (Some \<lparr>ResolvedDmaAllocation.kind = WprMetadata,
      layout = Linear, baseAddress = 0x5000, allocationBytes = 0x1000, pageAddresses = []\<rparr>)"
    by (simp add: r ResolveSystemDmaAllocation_def ResolveLinearDmaRange_def ValidateDmaSegments_def kPage_def)
  ultimately show ?thesis using ResolveSystemDmaAllocation_spec [of ?r ?s] by auto
qed

section \<open>Building the host buffers\<close>

text \<open>The inputs the builder accepts.\<close>

definition artifacts_request_ok ::
    "BootManifest \<Rightarrow> ResolvedAddresses \<Rightarrow> RiscvBootloaderInfo \<Rightarrow> u64 list \<Rightarrow> u64 list \<Rightarrow> byte list \<Rightarrow>
     LibosRegion list \<Rightarrow> RegistryDwordEntry list \<Rightarrow> bool" where
  "artifacts_request_ok m a bl queuePages radixPages fw regions es \<longleftrightarrow>
     RiscvBootloaderInfo.status bl = ParseStatus.Ok \<and> AddressesOk a \<and>
     unat (BinHeader.dataSize (RiscvBootloaderInfo.bin' bl)) = unat (gspBootloaderBytes (inputs m)) \<and>
     queuePages \<noteq> [] \<and> hd queuePages = queueBacking a \<and> page_table_ok (queues m) queuePages \<and>
     radixPages \<noteq> [] \<and> hd radixPages = radix3FirmwareRoot a \<and>
     length radixPages = unat (allocationPages (radix3 m)) \<and> (\<forall>p \<in> set radixPages. 4096 dvd unat p) \<and>
     length fw = unat (gspFirmwareImageBytes (inputs m)) \<and>
     length regions \<le> 128 \<and> (\<forall>r \<in> set regions. region_valid r) \<and>
     command_queue_request_ok (queues m) es"

text \<open>The 64-bit words of the WPR metadata, by offset, in terms of the manifest and the resolved addresses.\<close>

definition wpr_words :: "BootManifest \<Rightarrow> ResolvedAddresses \<Rightarrow> RiscvBootloaderInfo \<Rightarrow> (nat \<times> u64) list" where
  "wpr_words m a bl =
     [(0, kWprMetaMagic), (8, kWprMetaRevision),
      (16, radix3FirmwareRoot a), (24, sizeOfRadix3Elf (wpr m)),
      (32, gspBootloader a), (40, sizeOfBootloader (wpr m)),
      (48, ucast (monitorCodeOffset (descriptor bl))), (56, ucast (monitorDataOffset (descriptor bl))),
      (64, ucast (manifestOffset (descriptor bl))),
      (72, firmwareSignature a), (80, gspSignatureBytes (inputs m)),
      (88, gspFwRsvdStart (wpr m)), (96, nonWprHeapOffset (wpr m)), (104, WprLayout.nonWprHeapSize (wpr m)),
      (112, gspFwWprStart (wpr m)), (120, gspFwHeapOffset (wpr m)), (128, gspFwHeapSize (wpr m)),
      (136, gspFwOffset (wpr m)), (144, bootBinOffset (wpr m)),
      (152, frtsOffset (wpr m)), (160, WprLayout.frtsSize (wpr m)), (168, gspFwWprEnd (wpr m)),
      (176, WprLayout.fbSize (wpr m)), (184, WprLayout.vgaWorkspaceOffset (wpr m)), (192, vgaWorkspaceSize (wpr m)),
      (200, 0), (248, 0)]"

text \<open>The walk for image page \<open>k\<close>: entry by entry the address of the page that the next lookup reads.\<close>

definition radix_walk_ok :: "Radix3Layout \<Rightarrow> u64 list \<Rightarrow> byte list \<Rightarrow> bool" where
  "radix_walk_ok l pages out \<longleftrightarrow> (\<forall>k < unat (pageCounts l ! 3).
     radix_entry out 0 (k div 2 ^ 18) = Some (pages ! (1 + k div 2 ^ 18)) \<and>
     radix_entry out (1 + k div 2 ^ 18) (k div 512 mod 512) =
       Some (pages ! (1 + unat (pageCounts l ! 1) + k div 512)) \<and>
     radix_entry out (1 + unat (pageCounts l ! 1) + k div 512) (k mod 512) =
       Some (pages ! (1 + unat (pageCounts l ! 1) + unat (pageCounts l ! 2) + k)))"

text \<open>
  What the buffers hold. The argument block names the queue memory and its layout; the WPR metadata holds the
  words above; the LIBOS page one entry per region; the queue memory the page addresses, the command
  queue and an empty status queue; the firmware allocation the firmware behind page tables whose walk for
  image page \<open>k\<close> reads the given page addresses from the root on.
\<close>

definition artifacts_ok ::
    "BootManifest \<Rightarrow> ResolvedAddresses \<Rightarrow> RiscvBootloaderInfo \<Rightarrow> u64 list \<Rightarrow> u64 list \<Rightarrow> byte list \<Rightarrow>
     LibosRegion list \<Rightarrow> GspSystemInfoInputs \<Rightarrow> RegistryDwordEntry list \<Rightarrow> ResolvedArtifacts \<Rightarrow> bool" where
  "artifacts_ok m a bl queuePages radixPages fw regions sys es o' \<longleftrightarrow>
     length (ResolvedArtifacts.cachedArguments o') = 72 \<and>
     LoadLe64 (ResolvedArtifacts.cachedArguments o') 0 = Some (queueBacking a) \<and>
     LoadLe32 (ResolvedArtifacts.cachedArguments o') 8 = Some (ucast (pageTableEntryCount (queues m))) \<and>
     LoadLe64 (ResolvedArtifacts.cachedArguments o') 16 = Some (commandQueueOffset (queues m)) \<and>
     LoadLe64 (ResolvedArtifacts.cachedArguments o') 24 = Some (statusQueueOffset (queues m)) \<and>
     length (ResolvedArtifacts.wprMetadata o') = 256 \<and>
     (\<forall>(off, v) \<in> set (wpr_words m a bl). LoadLe64 (ResolvedArtifacts.wprMetadata o') off = Some v) \<and>
     length (ResolvedArtifacts.libosInitArguments o') = 4096 \<and>
     (\<forall>j < length regions. entry_ok (ResolvedArtifacts.libosInitArguments o') (j * 32) (regions ! j)) \<and>
     length (sharedQueueAllocation o') = unat (totalBytes (queues m)) \<and>
     take (unat (pageTableBytes (queues m))) (sharedQueueAllocation o') = concat (map (le_bytes 8) queuePages) @
       replicate (unat (pageTableBytes (queues m)) - 8 * length queuePages) 0 \<and>
     slice (sharedQueueAllocation o') (unat (commandQueueOffset (queues m)))
       (unat (QueueMemoryLayout.queueBytes (queues m))) = bootstrapCommandQueue o' \<and>
     (\<exists>q. BuildBootstrapCommandQueue (queues m) sys es = Some (Some q) \<and>
       bootstrapCommandQueue o' = BootstrapQueueImage.bytes q) \<and>
     drop (unat (statusQueueOffset (queues m))) (sharedQueueAllocation o') =
       replicate (unat (QueueMemoryLayout.queueBytes (queues m))) 0 \<and>
     length (radix3FirmwareAllocation o') = unat (allocationPages (radix3 m)) * 4096 \<and>
     slice (radix3FirmwareAllocation o') (unat (tableBytes (radix3 m))) (length fw) = fw \<and>
     radix_walk_ok (radix3 m) radixPages (radix3FirmwareAllocation o')"

lemma wpr_words_read:
  assumes "BuildWprMeta \<lparr>WprMetaInputs.layout = wpr m,
    sysmemAddrOfRadix3Elf = radix3FirmwareRoot a, sysmemAddrOfBootloader = gspBootloader a,
    bootloaderCodeOffset = ucast (monitorCodeOffset (descriptor bl)),
    bootloaderDataOffset = ucast (monitorDataOffset (descriptor bl)),
    bootloaderManifestOffset = ucast (manifestOffset (descriptor bl)),
    sysmemAddrOfSignature = firmwareSignature a, sizeOfSignature = gspSignatureBytes (inputs m),
    gspFwHeapVfPartitionCount = 0, flags = 0, pmuReservedSize = 0\<rparr> = Some b"
  shows "length b = 256 \<and> (\<forall>(off, v) \<in> set (wpr_words m a bl). LoadLe64 b off = Some v)"
proof -
  let ?meta = "\<lparr>WprMetaInputs.layout = wpr m,
    sysmemAddrOfRadix3Elf = radix3FirmwareRoot a, sysmemAddrOfBootloader = gspBootloader a,
    bootloaderCodeOffset = ucast (monitorCodeOffset (descriptor bl)),
    bootloaderDataOffset = ucast (monitorDataOffset (descriptor bl)),
    bootloaderManifestOffset = ucast (manifestOffset (descriptor bl)),
    sysmemAddrOfSignature = firmwareSignature a, sizeOfSignature = gspSignatureBytes (inputs m),
    gspFwHeapVfPartitionCount = 0, flags = 0, pmuReservedSize = 0\<rparr>"
  have len: "length b = 256" and fields: "\<forall>(off, vs) \<in> set (wpr_meta_fields ?meta). slice b off (length vs) = vs"
    using BuildWprMeta_reads [of ?meta] assms by auto
  have "\<forall>(off, v) \<in> set (wpr_words m a bl). off + 8 \<le> 256 \<and> (off, le_bytes 8 v) \<in> set (wpr_meta_fields ?meta)"
    by (simp add: wpr_words_def wpr_meta_fields_def del: le_bytes.simps)
  then have "LoadLe64 b off = Some v" if "(off, v) \<in> set (wpr_words m a bl)" for off v
    using that len fields by (force simp: LoadLe_eq simp del: le_bytes.simps)
  then show ?thesis using len by blast
qed

lemma if_chain4:
  "A \<or> B \<or> C \<or> D \<Longrightarrow> (if A then x else if B then x else if C then x else if D then x else t) = x"
  "\<not> A \<Longrightarrow> \<not> B \<Longrightarrow> \<not> C \<Longrightarrow> \<not> D \<Longrightarrow> (if A then x else if B then x else if C then x else if D then x else t) = t"
  by auto

lemma BuildResolvedArtifacts_cases:
  assumes m: "manifest_ok i m" and small: "registry_bytes es < 2 ^ 63"
  shows "if artifacts_request_ok m a bl queuePages radixPages fw regions es
    then \<exists>o'. BuildResolvedArtifacts m a bl queuePages radixPages fw regions sys es = Some (Some o') \<and>
      artifacts_ok m a bl queuePages radixPages fw regions sys es o'
    else BuildResolvedArtifacts m a bl queuePages radixPages fw regions sys es = Some None"
proof -
  let ?meta = "\<lparr>WprMetaInputs.layout = wpr m,
    sysmemAddrOfRadix3Elf = radix3FirmwareRoot a, sysmemAddrOfBootloader = gspBootloader a,
    bootloaderCodeOffset = ucast (monitorCodeOffset (descriptor bl)),
    bootloaderDataOffset = ucast (monitorDataOffset (descriptor bl)),
    bootloaderManifestOffset = ucast (manifestOffset (descriptor bl)),
    sysmemAddrOfSignature = firmwareSignature a, sizeOfSignature = gspSignatureBytes (inputs m),
    gspFwHeapVfPartitionCount = 0, flags = 0, pmuReservedSize = 0\<rparr>"
  let ?build = "BuildResolvedArtifacts m a bl queuePages radixPages fw regions sys es"
  have lay: "queue_layout_ok (queues m)" and valid: "BootManifest.valid m" and in_m: "inputs m = i"
    and radix: "PlanRadix3 (gspFirmwareImageBytes i) = Some (radix3 m)"
    using m by (simp_all add: manifest_ok_def)
  obtain n1 n2 n3 where ok: "radix_ok (radix3 m) n1 n2 n3" and im: "imageBytes (radix3 m) = gspFirmwareImageBytes i"
    using PlanRadix3_ok [OF radix] by blast
  have n: "unat (allocationPages (radix3 m)) = 1 + n1 + n2 + n3" "unat (tableBytes (radix3 m)) = (1 + n1 + n2) * 4096"
    "unat (imageBytes (radix3 m)) \<le> n3 * 4096" using ok by (auto simp: radix_ok_def)
  note lib = BuildLibosInitPage_cases [of regions]
  note shared = BuildSharedQueueAllocationImage_cases [OF lay small, of queuePages sys]
  note rad = BuildRadix3AllocationImage_planned [OF ok, of radixPages fw]
  define pre where "pre \<longleftrightarrow> RiscvBootloaderInfo.status bl = ParseStatus.Ok \<and> AddressesOk a \<and>
     ucast (BinHeader.dataSize (RiscvBootloaderInfo.bin' bl)) = gspBootloaderBytes (inputs m) \<and>
     queuePages \<noteq> [] \<and> length queuePages = unat (pageTableEntryCount (queues m)) \<and> hd queuePages = queueBacking a \<and>
     radixPages \<noteq> [] \<and> length radixPages = unat (allocationPages (radix3 m)) \<and> hd radixPages = radix3FirmwareRoot a \<and>
     length fw = unat (gspFirmwareImageBytes (inputs m)) \<and> length fw = unat (imageBytes (radix3 m))"
  have data: "ucast (BinHeader.dataSize (RiscvBootloaderInfo.bin' bl)) = gspBootloaderBytes (inputs m) \<longleftrightarrow>
      unat (BinHeader.dataSize (RiscvBootloaderInfo.bin' bl)) = unat (gspBootloaderBytes (inputs m))"
    by (simp add: word_unat_eq_iff)
  show ?thesis
  proof (cases pre)
    case False
    then have "?build = Some None"
      unfolding BuildResolvedArtifacts_def by (intro if_chain4(1)) (use False in \<open>auto simp: pre_def\<close>)
    moreover have "\<not> artifacts_request_ok m a bl queuePages radixPages fw regions es"
      using False unfolding pre_def data artifacts_request_ok_def
      by (auto simp: page_table_ok_def im in_m)
    ultimately show ?thesis by simp
  next
    case True
    have run: "?build = do {
        lib' \<leftarrow> BuildLibosInitPage regions;
        case lib' of None \<Rightarrow> Some None | Some lib \<Rightarrow> do {
          shared' \<leftarrow> BuildSharedQueueAllocationImage (queues m) queuePages sys es;
          case shared' of None \<Rightarrow> Some None | Some shared \<Rightarrow> do {
            radix' \<leftarrow> BuildRadix3AllocationImage (radix3 m) radixPages fw;
            case radix' of None \<Rightarrow> Some None | Some radix \<Rightarrow> do {
              meta \<leftarrow> BuildWprMeta ?meta;
              Some (Some \<lparr>ResolvedArtifacts.cachedArguments = SharedQueueAllocationImage.cachedArguments shared,
                wprMetadata = meta, libosInitArguments = lib,
                sharedQueueAllocation = SharedQueueAllocationImage.bytes shared,
                radix3FirmwareAllocation = radix,
                bootstrapCommandQueue = BootstrapQueueImage.bytes (commandQueue shared)\<rparr>) } } } }"
      unfolding BuildResolvedArtifacts_def by (intro if_chain4(2)) (use valid True in \<open>auto simp: pre_def\<close>)
    have req: "artifacts_request_ok m a bl queuePages radixPages fw regions es \<longleftrightarrow>
        length regions \<le> 128 \<and> (\<forall>r \<in> set regions. region_valid r) \<and>
        page_table_ok (queues m) queuePages \<and> command_queue_request_ok (queues m) es \<and>
        (\<forall>p \<in> set radixPages. 4096 dvd unat p)"
      using True unfolding pre_def artifacts_request_ok_def data by auto
    show ?thesis
    proof (cases "artifacts_request_ok m a bl queuePages radixPages fw regions es")
      case False
      then have "?build = Some None"
        unfolding run rad using lib shared req True
        by (cases "BuildLibosInitPage regions"; cases "the (BuildLibosInitPage regions)")
          (auto simp: pre_def split: if_splits)
      then show ?thesis using False by simp
    next
      case ok: True
      obtain lib where l: "BuildLibosInitPage regions = Some (Some lib)" "length lib = 4096"
        "\<forall>j < length regions. entry_ok lib (j * 32) (regions ! j)"
        using lib ok req by (cases "BuildLibosInitPage regions"; cases "the (BuildLibosInitPage regions)") auto
      obtain img where img: "BuildSharedQueueAllocationImage (queues m) queuePages sys es = Some (Some img)"
        "shared_image_ok (queues m) queuePages sys es img" using shared ok req by auto
      let ?radix = "radix_tables n1 n2 n3 radixPages @ fw @ replicate (n3 * 4096 - length fw) 0"
      have r: "BuildRadix3AllocationImage (radix3 m) radixPages fw = Some (Some ?radix)"
        unfolding rad using True ok req n by (simp add: pre_def)
      obtain meta where w: "BuildWprMeta ?meta = Some meta"
        using BuildWprMeta_reads [of ?meta] by auto
      note words = wpr_words_read [OF w]
      obtain args where args: "BuildCachedArguments (queues m) (hd queuePages) = Some args" "length args = 72"
        "LoadLe64 args 0 = Some (hd queuePages)" "LoadLe32 args 8 = Some (ucast (pageTableEntryCount (queues m)))"
        "LoadLe64 args 16 = Some (commandQueueOffset (queues m))" "LoadLe64 args 24 = Some (statusQueueOffset (queues m))"
        using BuildCachedArguments_reads [of "queues m" "hd queuePages"] by auto
      have walk: "radix_walk_ok (radix3 m) radixPages ?radix"
        using radix3_reads [OF radix r] unfolding radix_walk_ok_def by blast
      have "hd queuePages = queueBacking a" using ok by (simp add: artifacts_request_ok_def)
      moreover have "length (radix_tables n1 n2 n3 radixPages) = unat (tableBytes (radix3 m))"
        using length_radix_tables [OF \<open>radix_ok (radix3 m) n1 n2 n3\<close>, of radixPages] n(2) by simp
      moreover have "length fw \<le> n3 * 4096" using True n(3) by (simp add: pre_def)
      ultimately show ?thesis
        using ok l img(2) words args n walk
        unfolding run l(1) img(1) r w bind.bind_lunit option.case
        by (simp add: artifacts_ok_def shared_image_ok_def Let_def slice_def in_m)
    qed
  qed
qed

text \<open>
  C40. For a valid manifest, building the host buffers never stores outside a buffer, whatever the
  other inputs. It succeeds exactly for admissible inputs, and then every word of the buffers that tells
  the GSP an address, an offset or a size is pinned: the queue address, entry count and queue offsets of the argument
  block; in the WPR metadata the firmware root, the bootloader and the signature, each with its size, the
  bootloader's offsets and the planned region; one LIBOS entry per region; the page addresses, the command queue and the
  empty status queue of the shared allocation; and the firmware behind page tables whose walk reads the given page
  addresses.
\<close>
theorem BuildResolvedArtifacts_spec:
  assumes "BootManifest.valid (PlanBootManifest i)" and "registry_bytes es < 2 ^ 63"
  shows "if artifacts_request_ok (PlanBootManifest i) a bl queuePages radixPages fw regions es
    then \<exists>o'. BuildResolvedArtifacts (PlanBootManifest i) a bl queuePages radixPages fw regions sys es =
        Some (Some o') \<and> artifacts_ok (PlanBootManifest i) a bl queuePages radixPages fw regions sys es o'
    else BuildResolvedArtifacts (PlanBootManifest i) a bl queuePages radixPages fw regions sys es = Some None"
  using manifest_ok_valid [OF assms(1)] assms(2) by (rule BuildResolvedArtifacts_cases)

theorem BuildResolvedArtifacts_witness:
  "\<exists>o'. BuildResolvedArtifacts (PlanBootManifest sample_manifest_inputs) sample_addresses
      (RiscvBootloaderInfo0\<lparr>RiscvBootloaderInfo.status := ParseStatus.Ok,
        RiscvBootloaderInfo.bin' := BinHeader0\<lparr>BinHeader.dataSize := 0x1234\<rparr>\<rparr>)
      (replicate 129 0x100000000) (replicate 6158 0x100200000) (replicate 0x1800000 7) []
      sample_system_info DefaultBootstrapRegistry = Some (Some o') \<and>
    LoadLe64 (ResolvedArtifacts.cachedArguments o') 0 = Some 0x100000000 \<and>
    LoadLe64 (ResolvedArtifacts.wprMetadata o') 32 = Some (gspBootloader sample_addresses) \<and>
    LoadLe64 (ResolvedArtifacts.wprMetadata o') 72 = Some (firmwareSignature sample_addresses) \<and>
    length (radix3FirmwareAllocation o') = 6158 * 4096"
proof -
  let ?i = sample_manifest_inputs and ?m = "PlanBootManifest sample_manifest_inputs" and ?a = sample_addresses
  let ?es = DefaultBootstrapRegistry
  let ?bl = "RiscvBootloaderInfo0\<lparr>RiscvBootloaderInfo.status := ParseStatus.Ok,
    RiscvBootloaderInfo.bin' := BinHeader0\<lparr>BinHeader.dataSize := 0x1234\<rparr>\<rparr>"
  have ok: "manifest_ok ?i ?m" using PlanBootManifest_cases [of ?i] sample_manifest_request by simp
  have fields: "ManifestInputs.queueBytes ?i = 0x40000" "gspFirmwareImageBytes ?i = 0x1800000"
    "gspBootloaderBytes ?i = 0x1234" by (simp_all add: sample_manifest_inputs_def)
  have "PlanQueueMemory 0x40000 kGspPageBytes kGspPteBytes = Some (sample_queue 0x40000)"
    by (simp add: PlanQueueMemory_def kGspPageBytes_def kGspPteBytes_def RoundUp_def sample_queue_def)
  then have q: "queues ?m = sample_queue 0x40000" using ok by (simp add: manifest_ok_def fields)
  have "map_option allocationPages (PlanRadix3 0x1800000) = Some 6158"
    by (simp add: PlanRadix3_def CeilDiv_def kRadixPageBytes_def kRadixEntriesPerPage_def)
  then have r: "allocationPages (radix3 ?m) = 6158" using ok by (auto simp: manifest_ok_def fields)
  have e: "registry_elements ?es = 1" "queue_slots (sample_queue 0x40000) = 63" "registry_bytes ?es < 2 ^ 63"
    using default_registry_size
    by (simp_all add: registry_elements_def default_registry_size CeilDiv_size_def queue_slots_def
        sample_queue_def registry_size_def)
  have es: "command_queue_request_ok (sample_queue 0x40000) ?es"
    using e default_registry_names default_registry_size
    by (simp add: command_queue_request_ok_def) (simp add: sample_queue_def)
  have addr: "AddressesOk ?a" "queueBacking ?a = 0x100000000" "radix3FirmwareRoot ?a = 0x100200000"
    by (simp_all add: AddressesOk_def PageAligned_def sample_addresses_def kPage_def)
  have "page_table_ok (sample_queue 0x40000) (replicate 129 0x100000000)"
    by (simp add: sample_queue_def page_table_ok_def)
  then have req: "artifacts_request_ok ?m ?a ?bl (replicate 129 0x100000000) (replicate 6158 0x100200000)
      (replicate 0x1800000 7) [] ?es"
    using ok es addr
    by (simp add: artifacts_request_ok_def q r manifest_ok_def fields RiscvBootloaderInfo0_def BinHeader0_def)
  have valid: "BootManifest.valid ?m" using ok by (simp add: manifest_ok_def)
  from BuildResolvedArtifacts_spec [OF valid e(3), of ?a ?bl "replicate 129 0x100000000"
      "replicate 6158 0x100200000" "replicate 0x1800000 7" "[]" sample_system_info]
  show ?thesis unfolding if_P [OF req] by (auto simp: artifacts_ok_def wpr_words_def addr r)
qed

end
