(* ===== verification/Sequence.thy ===== *)
theory Sequence
  imports Manifest Falcon Vbios
begin

text \<open>
  The boot sequence and its audit (\<open>PlanBootSequence\<close> of \<open>src/core/gsp_manifest.cpp\<close>,
  \<open>src/core/boot_sequence_policy.cpp\<close> and their headers). The planner lays out twelve phases of
  register actions and checks; the audit accepts a sequence independently of the planner. Both
  sources define the same register offsets; they are defined once here.
\<close>

section \<open>Data\<close>

datatype CheckKind = MmioMaskEqual | MmioNonZero | SharedMemoryU32Equal | HostPreparationRequired

record Check =
  kind :: CheckKind
  addressOrOffset :: u64
  mask' :: u32
  "value" :: u32

datatype BootPhase = PrefillBootstrapRpcRecords | ResetGspForFrts | ExecuteFrtsFwsec | VerifyWpr2
  | ResetGspForRiscv | ProgramLibosMailbox | ResetSec2 | ExecuteSec2Booter | VerifySec2Booter
  | ReleaseGspRiscv | VerifyGspRiscv | WaitStatusQueue

record PhasePlan =
  phase :: BootPhase
  actions :: "Action list"
  checks :: "Check list"

record BootSequence =
  valid :: bool
  executableWithCurrentCore :: bool
  phases :: "PhasePlan list"

datatype BootSequencePolicyFailure = NoFailure | InvalidManifest | InvalidSequence
  | InvalidExpectations | WrongPhaseCount | WrongPhaseOrder | FalconActionDenied | UnexpectedAction
  | MissingAction | UnexpectedCheck | MissingCheck

record BootSequencePolicyExpectations =
  libosInitArguments :: u64
  gspAppVersion :: u32

record BootSequencePolicyReport =
  valid :: bool
  failure :: BootSequencePolicyFailure
  phaseIndex :: nat
  actionIndex :: nat
  actionCount :: nat
  checkCount :: nat

definition kWpr2Hi :: u32 where "kWpr2Hi = 0x001FA828"
definition kGspMailbox0 :: u32 where "kGspMailbox0 = 0x00110040"
definition kGspMailbox1 :: u32 where "kGspMailbox1 = 0x00110044"
definition kGspFalconOs :: u32 where "kGspFalconOs = 0x00110080"
definition kSec2Mailbox0 :: u32 where "kSec2Mailbox0 = 0x00840040"
definition kGspRiscvCpuCtl :: u32 where "kGspRiscvCpuCtl = 0x00111388"
definition kRiscvActiveMask :: u32 where "kRiscvActiveMask = push_bit 7 1"
definition kStatusQueueEntryOffField :: u64 where "kStatusQueueEntryOffField = 28"
definition kExpectedQueueEntryOff :: u32 where "kExpectedQueueEntryOff = 0x1000"

lemmas sequence_consts = kWpr2Hi_def kGspMailbox0_def kGspMailbox1_def kGspFalconOs_def
  kSec2Mailbox0_def kGspRiscvCpuCtl_def kRiscvActiveMask_def kStatusQueueEntryOffField_def
  kExpectedQueueEntryOff_def

definition kExpectedPhases :: "BootPhase list" where
  "kExpectedPhases = [PrefillBootstrapRpcRecords, ResetGspForFrts, ExecuteFrtsFwsec, VerifyWpr2,
     ResetGspForRiscv, ProgramLibosMailbox, ResetSec2, ExecuteSec2Booter, VerifySec2Booter,
     ReleaseGspRiscv, VerifyGspRiscv, WaitStatusQueue]"

section \<open>The planner\<close>

abbreviation phase_plan :: "BootPhase \<Rightarrow> Action list \<Rightarrow> Check list \<Rightarrow> PhasePlan" where
  "phase_plan p as cs \<equiv> \<lparr>phase = p, actions = as, checks = cs\<rparr>"

abbreviation check :: "CheckKind \<Rightarrow> u64 \<Rightarrow> u32 \<Rightarrow> u32 \<Rightarrow> Check" where
  "check k a m v \<equiv> \<lparr>Check.kind = k, addressOrOffset = a, mask' = m, value = v\<rparr>"

definition AppendActions :: "PhasePlan \<Rightarrow> Plan \<Rightarrow> PhasePlan" where
  "AppendActions p x = p\<lparr>PhasePlan.actions := PhasePlan.actions p @ Plan.actions x\<rparr>"

definition Write32 :: "u32 \<Rightarrow> u32 \<Rightarrow> Action" where
  "Write32 a v = act ActionKind.Write32 a v 0xFFFFFFFF 0"

definition frts_parameters :: "ResolvedAddresses \<Rightarrow> DescriptorV3 \<Rightarrow> HsParameters" where
  "frts_parameters a f = \<lparr>engine = Gsp, imagePhysicalAddress = frtsFwsecImage a, codeOffset = 0,
     dataOffset = imemLoadSize f, imemPhysicalBase = imemPhysBase f, imemVirtualBase = imemVirtBase f,
     imemBytes = imemLoadSize f, dmemPhysicalBase = dmemPhysBase f, dmemVirtualBase = 0,
     dmemBytes = dmemLoadSize f, pkcOffset = pkcDataOffset f,
     engineIdMask = ucast (DescriptorV3.engineIdMask f), ucodeId = DescriptorV3.ucodeId f, mailbox = None\<rparr>"

definition sec2_parameters :: "ResolvedAddresses \<Rightarrow> BooterImageInfo \<Rightarrow> HsParameters" where
  "sec2_parameters a s = \<lparr>engine = Sec2, imagePhysicalAddress = sec2BooterImage a,
     codeOffset = AppHeaderV2.offset (firstApp s), dataOffset = osDataOffset (load' s),
     imemPhysicalBase = 0, imemVirtualBase = AppHeaderV2.offset (firstApp s),
     imemBytes = AppHeaderV2.size' (firstApp s), dmemPhysicalBase = 0, dmemVirtualBase = 0,
     dmemBytes = osDataSize (load' s), pkcOffset = 0x10, engineIdMask = 1, ucodeId = 3,
     mailbox = Some (ResolvedAddresses.wprMetadata a)\<rparr>"

definition BootSequence0 :: BootSequence where
  "BootSequence0 = \<lparr>BootSequence.valid = False, executableWithCurrentCore = False, phases = []\<rparr>"

definition PlanBootSequence ::
    "BootManifest \<Rightarrow> ResolvedAddresses \<Rightarrow> RiscvBootloaderInfo \<Rightarrow> DescriptorV3 \<Rightarrow> BooterImageInfo \<Rightarrow> u32 \<Rightarrow>
     BootSequence option" where
  "PlanBootSequence m a g f s chip =
     (if \<not> BootManifest.valid m \<or> RiscvBootloaderInfo.status g \<noteq> Nvfw.ParseStatus.Ok \<or>
        BooterImageInfo.status s \<noteq> Nvfw.ParseStatus.Ok \<or> \<not> AddressesOk a \<or>
        ucast (BinHeader.dataSize (RiscvBootloaderInfo.bin' g)) \<noteq> gspBootloaderBytes (inputs m) \<or>
        ucast (BinHeader.dataSize (BooterImageInfo.bin' s)) \<noteq> sec2BooterImageBytes (inputs m) \<or>
        imemLoadSize f = 0 \<or> dmemLoadSize f = 0 then Some BootSequence0
      else do {
        let p0 = phase_plan PrefillBootstrapRpcRecords [] [];
        let p1 = AppendActions (phase_plan ResetGspForFrts [] []) (PlanReset Gsp False chip);
        fx \<leftarrow> PlanAuthenticatedExecution (frts_parameters a f);
        if \<not> Plan.valid fx then Some BootSequence0
        else do {
          let p2 = AppendActions (phase_plan ExecuteFrtsFwsec [] []) fx;
          let p3 = phase_plan VerifyWpr2 [] [check MmioNonZero (ucast kWpr2Hi) 0xFFFFFFFF 0];
          let p4 = AppendActions (phase_plan ResetGspForRiscv [] []) (PlanReset Gsp True chip);
          let p5 = phase_plan ProgramLibosMailbox
            [Write32 kGspMailbox0 (ucast (ResolvedAddresses.libosInitArguments a)),
             Write32 kGspMailbox1 (ucast (drop_bit 32 (ResolvedAddresses.libosInitArguments a)))] [];
          let p6 = AppendActions (phase_plan ResetSec2 [] []) (PlanReset Sec2 False chip);
          sx \<leftarrow> PlanAuthenticatedExecution (sec2_parameters a s);
          if \<not> Plan.valid sx then Some BootSequence0
          else do {
            let p7 = AppendActions (phase_plan ExecuteSec2Booter [] []) sx;
            let p8 = phase_plan VerifySec2Booter [] [check MmioMaskEqual (ucast kSec2Mailbox0) 0xFFFFFFFF 0];
            let p9 = phase_plan ReleaseGspRiscv [Write32 kGspFalconOs (appVersion (descriptor g))] [];
            let p10 = phase_plan VerifyGspRiscv []
              [check MmioMaskEqual (ucast kGspRiscvCpuCtl) kRiscvActiveMask kRiscvActiveMask];
            let p11 = phase_plan WaitStatusQueue []
              [check SharedMemoryU32Equal (statusQueueOffset (queues m) + kStatusQueueEntryOffField)
                 0xFFFFFFFF kExpectedQueueEntryOff];
            Some \<lparr>BootSequence.valid = True,
              executableWithCurrentCore = bootstrapRpcPrefillImplemented m,
              phases = [p0, p1, p2, p3, p4, p5, p6, p7, p8, p9, p10, p11]\<rparr> } } })"

section \<open>The audit\<close>

definition ExactCheck :: "Check \<Rightarrow> CheckKind \<Rightarrow> u64 \<Rightarrow> u32 \<Rightarrow> u32 \<Rightarrow> bool" where
  "ExactCheck c k a m v \<longleftrightarrow>
     Check.kind c = k \<and> addressOrOffset c = a \<and> Check.mask' c = m \<and> Check.value c = v"

definition ExactWrite32 :: "Action \<Rightarrow> u32 \<Rightarrow> u32 \<Rightarrow> bool" where
  "ExactWrite32 x a v \<longleftrightarrow> Action.kind x = ActionKind.Write32 \<and> Action.address x = a \<and>
     Action.value x = v \<and> Action.mask' x = 0xFFFFFFFF \<and> timeoutMs x = 0"

definition PhaseActionShapePolicy ::
    "PhasePlan \<Rightarrow> BootSequencePolicyExpectations \<Rightarrow> BootSequencePolicyFailure" where
  "PhaseActionShapePolicy p e =
     (let as = PhasePlan.actions p in
      if phase p \<in> {PrefillBootstrapRpcRecords, VerifyWpr2, VerifySec2Booter, VerifyGspRiscv, WaitStatusQueue}
      then if as = [] then NoFailure else UnexpectedAction
      else if phase p = ProgramLibosMailbox then
        if length as < 2 then MissingAction
        else if length as \<noteq> 2 then UnexpectedAction
        else let low = ucast (BootSequencePolicyExpectations.libosInitArguments e);
                 high = ucast (drop_bit 32 (BootSequencePolicyExpectations.libosInitArguments e))
          in if ExactWrite32 (as ! 0) kGspMailbox0 low \<and> ExactWrite32 (as ! 1) kGspMailbox1 high
             then NoFailure else UnexpectedAction
      else if phase p = ReleaseGspRiscv then
        if as = [] then MissingAction
        else if length as \<noteq> 1 then UnexpectedAction
        else if ExactWrite32 (as ! 0) kGspFalconOs (gspAppVersion e) then NoFailure else UnexpectedAction
      else if as = [] then MissingAction else NoFailure)"

definition PhaseCheckPolicy :: "BootManifest \<Rightarrow> PhasePlan \<Rightarrow> bool" where
  "PhaseCheckPolicy m p \<longleftrightarrow>
     (let cs = checks p in
      case phase p of
        VerifyWpr2 \<Rightarrow> length cs = 1 \<and> ExactCheck (cs ! 0) MmioNonZero (ucast kWpr2Hi) 0xFFFFFFFF 0
      | VerifySec2Booter \<Rightarrow>
          length cs = 1 \<and> ExactCheck (cs ! 0) MmioMaskEqual (ucast kSec2Mailbox0) 0xFFFFFFFF 0
      | VerifyGspRiscv \<Rightarrow> length cs = 1 \<and>
          ExactCheck (cs ! 0) MmioMaskEqual (ucast kGspRiscvCpuCtl) kRiscvActiveMask kRiscvActiveMask
      | WaitStatusQueue \<Rightarrow>
          (if - 1 - kStatusQueueEntryOffField < statusQueueOffset (queues m) then False
           else length cs = 1 \<and> ExactCheck (cs ! 0) SharedMemoryU32Equal
             (statusQueueOffset (queues m) + kStatusQueueEntryOffField) 0xFFFFFFFF kExpectedQueueEntryOff)
      | _ \<Rightarrow> cs = [])"

text \<open>The loop of the audit: \<open>ps\<close> are the phases from index \<open>i\<close>, \<open>es\<close> the expected ones.\<close>

fun CheckGa102BootSequencePolicy_loop ::
    "BootManifest \<Rightarrow> BootSequencePolicyExpectations \<Rightarrow> PhasePlan list \<Rightarrow> BootPhase list \<Rightarrow> nat \<Rightarrow>
     BootSequencePolicyReport \<Rightarrow> BootSequencePolicyReport + BootSequencePolicyReport" where
  "CheckGa102BootSequencePolicy_loop m e (p # ps) (x # xs) i out =
     (let out = out\<lparr>phaseIndex := i\<rparr> in
      if phase p \<noteq> x then Inl (out\<lparr>failure := WrongPhaseOrder\<rparr>)
      else let shape = PhaseActionShapePolicy p e in
        if shape \<noteq> NoFailure then Inl (out\<lparr>failure := shape\<rparr>)
        else let out = out\<lparr>actionCount := actionCount out + length (PhasePlan.actions p)\<rparr>;
                 r = CheckGa102PlanPolicy \<lparr>Plan.valid = True, actions = PhasePlan.actions p\<rparr>
          in if PhasePlan.actions p \<noteq> [] \<and> \<not> PlanPolicyReport.valid r
             then Inl (out\<lparr>failure := FalconActionDenied, actionIndex := firstDeniedIndex r\<rparr>)
             else let out = out\<lparr>checkCount := checkCount out + length (checks p)\<rparr> in
               if \<not> PhaseCheckPolicy m p
               then Inl (out\<lparr>failure := (if checks p = [] then MissingCheck else UnexpectedCheck)\<rparr>)
               else CheckGa102BootSequencePolicy_loop m e ps xs (Suc i) out)"
| "CheckGa102BootSequencePolicy_loop m e _ _ i out = Inr out"

definition CheckGa102BootSequencePolicy ::
    "BootManifest \<Rightarrow> BootSequence \<Rightarrow> BootSequencePolicyExpectations \<Rightarrow> BootSequencePolicyReport" where
  "CheckGa102BootSequencePolicy m s e =
     (let out = \<lparr>BootSequencePolicyReport.valid = False, failure = NoFailure, phaseIndex = 0,
                 actionIndex = SIZE_MAX, actionCount = 0, checkCount = 0\<rparr>;
          libos = BootSequencePolicyExpectations.libosInitArguments e
      in if \<not> BootManifest.valid m then out\<lparr>failure := InvalidManifest\<rparr>
      else if \<not> BootSequence.valid s \<or> \<not> executableWithCurrentCore s then out\<lparr>failure := InvalidSequence\<rparr>
      else if libos = 0 \<or> libos AND 0xFFF \<noteq> 0 then out\<lparr>failure := InvalidExpectations\<rparr>
      else if length (phases s) \<noteq> length kExpectedPhases then out\<lparr>failure := WrongPhaseCount\<rparr>
      else case CheckGa102BootSequencePolicy_loop m e (phases s) kExpectedPhases 0 out of
        Inl r \<Rightarrow> r
      | Inr r \<Rightarrow> r\<lparr>BootSequencePolicyReport.valid := True, failure := NoFailure, phaseIndex := length (phases s)\<rparr>)"

section \<open>What the audit accepts\<close>

text \<open>A phase passes the audit on its own.\<close>

definition actions_ok :: "Action list \<Rightarrow> bool" where
  "actions_ok as \<longleftrightarrow> as \<noteq> [] \<and>
     PlanPolicyReport.valid (CheckGa102PlanPolicy \<lparr>Plan.valid = True, actions = as\<rparr>)"

definition phase_ok :: "BootManifest \<Rightarrow> BootSequencePolicyExpectations \<Rightarrow> PhasePlan \<Rightarrow> bool" where
  "phase_ok m e p \<longleftrightarrow> PhaseActionShapePolicy p e = NoFailure \<and>
     (PhasePlan.actions p = [] \<or> actions_ok (PhasePlan.actions p)) \<and> PhaseCheckPolicy m p"

lemma audit_loop:
  assumes "length ps = length xs"
  shows "(case CheckGa102BootSequencePolicy_loop m e ps xs i out of
      Inl r \<Rightarrow> \<not> list_all2 (\<lambda>p x. phase p = x \<and> phase_ok m e p) ps xs \<and>
        BootSequencePolicyReport.valid r = BootSequencePolicyReport.valid out
    | Inr r \<Rightarrow> list_all2 (\<lambda>p x. phase p = x \<and> phase_ok m e p) ps xs)"
  using assms
proof (induction ps xs arbitrary: i out rule: list_induct2)
  case (Cons p ps x xs)
  show ?case
  proof (cases "phase p = x \<and> phase_ok m e p")
    case True
    let ?out = "out\<lparr>phaseIndex := i, actionCount := actionCount out + length (PhasePlan.actions p),
      checkCount := checkCount out + length (checks p)\<rparr>"
    have "CheckGa102BootSequencePolicy_loop m e (p # ps) (x # xs) i out =
        CheckGa102BootSequencePolicy_loop m e ps xs (Suc i) ?out"
      using True by (auto simp: phase_ok_def actions_ok_def Let_def)
    then show ?thesis using True Cons.IH [where i = "Suc i" and out = ?out] by (simp split: sum.splits)
  next
    case False
    then show ?thesis by (auto simp: phase_ok_def actions_ok_def Let_def)
  qed
qed simp

lemma audit_iff:
  "BootSequencePolicyReport.valid (CheckGa102BootSequencePolicy m s e) \<longleftrightarrow>
    BootManifest.valid m \<and> BootSequence.valid s \<and> executableWithCurrentCore s \<and>
    BootSequencePolicyExpectations.libosInitArguments e \<noteq> 0 \<and>
    4096 dvd unat (BootSequencePolicyExpectations.libosInitArguments e) \<and>
    list_all2 (\<lambda>p x. phase p = x \<and> phase_ok m e p) (phases s) kExpectedPhases"
proof (cases "length (phases s) = length kExpectedPhases")
  case True
  let ?out = "\<lparr>BootSequencePolicyReport.valid = False, failure = NoFailure, phaseIndex = 0,
    actionIndex = SIZE_MAX, actionCount = 0, checkCount = 0\<rparr>"
  have page: "x AND 0xFFF = 0 \<longleftrightarrow> 4096 dvd unat x" for x :: u64
    using and_mask_zero_iff [of x 12] by (simp add: mask_eq_exp_minus_1)
  show ?thesis
    using audit_loop [OF True, where m = m and e = e and i = 0 and out = ?out] True
    by (auto simp: CheckGa102BootSequencePolicy_def Let_def page split: sum.splits)
next
  case False
  then show ?thesis by (auto simp: CheckGa102BootSequencePolicy_def Let_def dest: list_all2_lengthD)
qed

lemma direct_actions_ok:
  "actions_ok [Write32 kGspMailbox0 low, Write32 kGspMailbox1 high]" "actions_ok [Write32 kGspFalconOs v]"
proof -
  have regs: "kGspMailbox0 = EngineBase Gsp + 0x40" "kGspMailbox1 = EngineBase Gsp + 0x44"
    "kGspFalconOs = EngineBase Gsp + 0x80"
    by (simp_all add: sequence_consts EngineBase_def)
  have "action_ok (Write32 kGspMailbox0 low)" "action_ok (Write32 kGspMailbox1 high)"
    "action_ok (Write32 kGspFalconOs v)"
    unfolding regs Write32_def action_ok_def by (simp_all add: policy_decisions find_rule)
  then show "actions_ok [Write32 kGspMailbox0 low, Write32 kGspMailbox1 high]" "actions_ok [Write32 kGspFalconOs v]"
    by (simp_all add: actions_ok_def plan_policy_valid_iff) (simp_all add: Write32_def)
qed

text \<open>The only shape of a sequence that passes: five free action lists, everything else fixed.\<close>

definition boot_phases ::
    "u64 \<Rightarrow> u32 \<Rightarrow> u64 \<Rightarrow> Action list \<Rightarrow> Action list \<Rightarrow> Action list \<Rightarrow> Action list \<Rightarrow> Action list \<Rightarrow> PhasePlan list" where
  "boot_phases libos app st as1 as2 as4 as6 as7 =
     [phase_plan PrefillBootstrapRpcRecords [] [],
      phase_plan ResetGspForFrts as1 [],
      phase_plan ExecuteFrtsFwsec as2 [],
      phase_plan VerifyWpr2 [] [check MmioNonZero (ucast kWpr2Hi) 0xFFFFFFFF 0],
      phase_plan ResetGspForRiscv as4 [],
      phase_plan ProgramLibosMailbox
        [Write32 kGspMailbox0 (ucast libos), Write32 kGspMailbox1 (ucast (drop_bit 32 libos))] [],
      phase_plan ResetSec2 as6 [],
      phase_plan ExecuteSec2Booter as7 [],
      phase_plan VerifySec2Booter [] [check MmioMaskEqual (ucast kSec2Mailbox0) 0xFFFFFFFF 0],
      phase_plan ReleaseGspRiscv [Write32 kGspFalconOs app] [],
      phase_plan VerifyGspRiscv [] [check MmioMaskEqual (ucast kGspRiscvCpuCtl) kRiscvActiveMask kRiscvActiveMask],
      phase_plan WaitStatusQueue []
        [check SharedMemoryU32Equal (st + kStatusQueueEntryOffField) 0xFFFFFFFF kExpectedQueueEntryOff]]"

lemma length_1_iff: "length xs = Suc 0 \<longleftrightarrow> (\<exists>x. xs = [x])"
  by (cases xs) auto

lemma length_2_iff: "length xs = 2 \<longleftrightarrow> (\<exists>x y. xs = [x, y])"
  by (auto simp: numeral_2_eq_2 length_Suc_conv)

lemma ExactCheck_iff: "ExactCheck c k a m v \<longleftrightarrow> c = check k a m v"
  by (cases c) (auto simp: ExactCheck_def)

lemma ExactWrite32_iff: "ExactWrite32 x a v \<longleftrightarrow> x = Write32 a v"
  by (cases x) (auto simp: ExactWrite32_def Write32_def)

lemma phase_forms:
  "phase p = PrefillBootstrapRpcRecords \<and> phase_ok m e p \<longleftrightarrow> p = phase_plan PrefillBootstrapRpcRecords [] []"
  "phase p = VerifyWpr2 \<and> phase_ok m e p \<longleftrightarrow>
    p = phase_plan VerifyWpr2 [] [check MmioNonZero (ucast kWpr2Hi) 0xFFFFFFFF 0]"
  "phase p = VerifySec2Booter \<and> phase_ok m e p \<longleftrightarrow>
    p = phase_plan VerifySec2Booter [] [check MmioMaskEqual (ucast kSec2Mailbox0) 0xFFFFFFFF 0]"
  "phase p = VerifyGspRiscv \<and> phase_ok m e p \<longleftrightarrow>
    p = phase_plan VerifyGspRiscv [] [check MmioMaskEqual (ucast kGspRiscvCpuCtl) kRiscvActiveMask kRiscvActiveMask]"
  "phase p = WaitStatusQueue \<and> phase_ok m e p \<longleftrightarrow>
    unat (statusQueueOffset (queues m)) + 28 < 2 ^ 64 \<and>
    p = phase_plan WaitStatusQueue [] [check SharedMemoryU32Equal
      (statusQueueOffset (queues m) + kStatusQueueEntryOffField) 0xFFFFFFFF kExpectedQueueEntryOff]"
  "phase p = ProgramLibosMailbox \<and> phase_ok m e p \<longleftrightarrow>
    p = phase_plan ProgramLibosMailbox
      [Write32 kGspMailbox0 (ucast (BootSequencePolicyExpectations.libosInitArguments e)),
       Write32 kGspMailbox1 (ucast (drop_bit 32 (BootSequencePolicyExpectations.libosInitArguments e)))] []"
  "phase p = ReleaseGspRiscv \<and> phase_ok m e p \<longleftrightarrow>
    p = phase_plan ReleaseGspRiscv [Write32 kGspFalconOs (gspAppVersion e)] []"
proof -
  note defs = phase_ok_def PhaseActionShapePolicy_def PhaseCheckPolicy_def length_1_iff length_2_iff
    ExactCheck_iff ExactWrite32_iff direct_actions_ok
  have wrap: "- 1 - kStatusQueueEntryOffField < x \<longleftrightarrow> \<not> unat x + 28 < 2 ^ 64" for x
    by (simp only: add_guard64 kStatusQueueEntryOffField_def) auto
  show "phase p = PrefillBootstrapRpcRecords \<and> phase_ok m e p \<longleftrightarrow> p = phase_plan PrefillBootstrapRpcRecords [] []"
    by (cases p) (auto simp: defs)
  show "phase p = VerifyWpr2 \<and> phase_ok m e p \<longleftrightarrow>
    p = phase_plan VerifyWpr2 [] [check MmioNonZero (ucast kWpr2Hi) 0xFFFFFFFF 0]"
    by (cases p) (auto simp: defs)
  show "phase p = VerifySec2Booter \<and> phase_ok m e p \<longleftrightarrow>
    p = phase_plan VerifySec2Booter [] [check MmioMaskEqual (ucast kSec2Mailbox0) 0xFFFFFFFF 0]"
    by (cases p) (auto simp: defs)
  show "phase p = VerifyGspRiscv \<and> phase_ok m e p \<longleftrightarrow>
    p = phase_plan VerifyGspRiscv [] [check MmioMaskEqual (ucast kGspRiscvCpuCtl) kRiscvActiveMask kRiscvActiveMask]"
    by (cases p) (auto simp: defs)
  show "phase p = WaitStatusQueue \<and> phase_ok m e p \<longleftrightarrow>
    unat (statusQueueOffset (queues m)) + 28 < 2 ^ 64 \<and>
    p = phase_plan WaitStatusQueue [] [check SharedMemoryU32Equal
      (statusQueueOffset (queues m) + kStatusQueueEntryOffField) 0xFFFFFFFF kExpectedQueueEntryOff]"
    by (cases p) (auto simp: defs wrap)
  show "phase p = ProgramLibosMailbox \<and> phase_ok m e p \<longleftrightarrow>
    p = phase_plan ProgramLibosMailbox
      [Write32 kGspMailbox0 (ucast (BootSequencePolicyExpectations.libosInitArguments e)),
       Write32 kGspMailbox1 (ucast (drop_bit 32 (BootSequencePolicyExpectations.libosInitArguments e)))] []"
    by (cases p) (auto simp: defs Let_def split: if_splits)
  show "phase p = ReleaseGspRiscv \<and> phase_ok m e p \<longleftrightarrow>
    p = phase_plan ReleaseGspRiscv [Write32 kGspFalconOs (gspAppVersion e)] []"
    by (cases p) (auto simp: defs split: if_splits)
qed

lemma phase_forms_free:
  assumes "x \<in> {ResetGspForFrts, ExecuteFrtsFwsec, ResetGspForRiscv, ResetSec2, ExecuteSec2Booter}"
  shows "phase p = x \<and> phase_ok m e p \<longleftrightarrow> (\<exists>as. actions_ok as \<and> p = phase_plan x as [])"
  using assms
  by (cases p) (auto simp: phase_ok_def PhaseActionShapePolicy_def PhaseCheckPolicy_def actions_ok_def)

lemma audit_phases:
  "list_all2 (\<lambda>p x. phase p = x \<and> phase_ok m e p) ps kExpectedPhases \<longleftrightarrow>
    unat (statusQueueOffset (queues m)) + 28 < 2 ^ 64 \<and>
    (\<exists>as1 as2 as4 as6 as7. actions_ok as1 \<and> actions_ok as2 \<and> actions_ok as4 \<and> actions_ok as6 \<and> actions_ok as7 \<and>
      ps = boot_phases (BootSequencePolicyExpectations.libosInitArguments e) (gspAppVersion e)
        (statusQueueOffset (queues m)) as1 as2 as4 as6 as7)" (is "?l \<longleftrightarrow> ?r")
proof -
  note free = phase_forms_free [of ResetGspForFrts, simplified] phase_forms_free [of ExecuteFrtsFwsec, simplified]
    phase_forms_free [of ResetGspForRiscv, simplified] phase_forms_free [of ResetSec2, simplified]
    phase_forms_free [of ExecuteSec2Booter, simplified]
  show ?thesis
  proof
    assume ?l
    then obtain p0 p1 p2 p3 p4 p5 p6 p7 p8 p9 p10 p11 where
      ps: "ps = [p0, p1, p2, p3, p4, p5, p6, p7, p8, p9, p10, p11]"
      and ok: "phase p0 = PrefillBootstrapRpcRecords \<and> phase_ok m e p0" "phase p1 = ResetGspForFrts \<and> phase_ok m e p1"
        "phase p2 = ExecuteFrtsFwsec \<and> phase_ok m e p2" "phase p3 = VerifyWpr2 \<and> phase_ok m e p3"
        "phase p4 = ResetGspForRiscv \<and> phase_ok m e p4" "phase p5 = ProgramLibosMailbox \<and> phase_ok m e p5"
        "phase p6 = ResetSec2 \<and> phase_ok m e p6" "phase p7 = ExecuteSec2Booter \<and> phase_ok m e p7"
        "phase p8 = VerifySec2Booter \<and> phase_ok m e p8" "phase p9 = ReleaseGspRiscv \<and> phase_ok m e p9"
        "phase p10 = VerifyGspRiscv \<and> phase_ok m e p10" "phase p11 = WaitStatusQueue \<and> phase_ok m e p11"
      unfolding kExpectedPhases_def list_all2_Cons2 list_all2_Nil2 by (elim exE conjE) (rule that, simp_all)
    note forms = ok [unfolded phase_forms free]
    from forms(2) obtain as1 where as1: "actions_ok as1" "p1 = phase_plan ResetGspForFrts as1 []" by (elim exE conjE)
    from forms(3) obtain as2 where as2: "actions_ok as2" "p2 = phase_plan ExecuteFrtsFwsec as2 []" by (elim exE conjE)
    from forms(5) obtain as4 where as4: "actions_ok as4" "p4 = phase_plan ResetGspForRiscv as4 []" by (elim exE conjE)
    from forms(7) obtain as6 where as6: "actions_ok as6" "p6 = phase_plan ResetSec2 as6 []" by (elim exE conjE)
    from forms(8) obtain as7 where as7: "actions_ok as7" "p7 = phase_plan ExecuteSec2Booter as7 []" by (elim exE conjE)
    have "ps = boot_phases (BootSequencePolicyExpectations.libosInitArguments e) (gspAppVersion e)
        (statusQueueOffset (queues m)) as1 as2 as4 as6 as7"
      unfolding ps boot_phases_def by (simp only: as1(2) as2(2) as4(2) as6(2) as7(2) forms(1,4,6,9,10,11) forms(12) [THEN conjunct2])
    then show ?r using as1(1) as2(1) as4(1) as6(1) as7(1) forms(12) [THEN conjunct1] by (intro conjI exI)
  next
    assume ?r
    then obtain as1 as2 as4 as6 as7 where r: "unat (statusQueueOffset (queues m)) + 28 < 2 ^ 64"
      "actions_ok as1" "actions_ok as2" "actions_ok as4" "actions_ok as6" "actions_ok as7"
      and ps: "ps = boot_phases (BootSequencePolicyExpectations.libosInitArguments e) (gspAppVersion e)
        (statusQueueOffset (queues m)) as1 as2 as4 as6 as7" by (elim exE conjE)
    show ?l
      unfolding ps boot_phases_def kExpectedPhases_def list_all2_Cons phase_forms free using r by simp
  qed
qed

text \<open>
  C13. The audit accepts exactly the sequences of one shape: for a valid manifest and page-aligned
  non-zero LIBOS arguments, twelve phases in the fixed order whose checks and direct writes are
  determined by the manifest and the expectations, and whose five Falcon phases hold non-empty
  action lists that pass the register policy. No other write can be smuggled in.
\<close>
theorem CheckGa102BootSequencePolicy_iff:
  "BootSequencePolicyReport.valid (CheckGa102BootSequencePolicy m s e) \<longleftrightarrow>
    BootManifest.valid m \<and> BootSequence.valid s \<and> executableWithCurrentCore s \<and>
    BootSequencePolicyExpectations.libosInitArguments e \<noteq> 0 \<and>
    4096 dvd unat (BootSequencePolicyExpectations.libosInitArguments e) \<and>
    unat (statusQueueOffset (queues m)) + 28 < 2 ^ 64 \<and>
    (\<exists>as1 as2 as4 as6 as7. actions_ok as1 \<and> actions_ok as2 \<and> actions_ok as4 \<and> actions_ok as6 \<and> actions_ok as7 \<and>
      phases s = boot_phases (BootSequencePolicyExpectations.libosInitArguments e) (gspAppVersion e)
        (statusQueueOffset (queues m)) as1 as2 as4 as6 as7)"
  unfolding audit_iff audit_phases by blast

section \<open>The planner's sequences pass the audit\<close>

text \<open>The inputs the planner accepts.\<close>

definition sequence_request_ok ::
    "BootManifest \<Rightarrow> ResolvedAddresses \<Rightarrow> RiscvBootloaderInfo \<Rightarrow> DescriptorV3 \<Rightarrow> BooterImageInfo \<Rightarrow> bool" where
  "sequence_request_ok m a g f s \<longleftrightarrow> BootManifest.valid m \<and>
     RiscvBootloaderInfo.status g = Nvfw.ParseStatus.Ok \<and> BooterImageInfo.status s = Nvfw.ParseStatus.Ok \<and>
     AddressesOk a \<and>
     unat (BinHeader.dataSize (RiscvBootloaderInfo.bin' g)) = unat (gspBootloaderBytes (inputs m)) \<and>
     unat (BinHeader.dataSize (BooterImageInfo.bin' s)) = unat (sec2BooterImageBytes (inputs m)) \<and>
     imemLoadSize f \<noteq> 0 \<and> dmemLoadSize f \<noteq> 0 \<and>
     auth_ok (frts_parameters a f) \<and> auth_ok (sec2_parameters a s)"

lemma PlanBootSequence_eq:
  "PlanBootSequence m a g f s chip = Some (if sequence_request_ok m a g f s
     then \<lparr>BootSequence.valid = True, executableWithCurrentCore = bootstrapRpcPrefillImplemented m,
       phases = boot_phases (ResolvedAddresses.libosInitArguments a) (appVersion (descriptor g))
         (statusQueueOffset (queues m)) (Plan.actions (PlanReset Gsp False chip))
         (auth_actions (frts_parameters a f)) (Plan.actions (PlanReset Gsp True chip))
         (Plan.actions (PlanReset Sec2 False chip)) (auth_actions (sec2_parameters a s))\<rparr>
     else BootSequence0)"
proof -
  have data: "(ucast x :: u64) = y \<longleftrightarrow> unat x = unat y" for x :: u32 and y by (simp add: word_unat_eq_iff)
  show ?thesis
    by (auto simp: PlanBootSequence_def PlanAuthenticatedExecution_eq sequence_request_ok_def data
        invalid_plan_def AppendActions_def boot_phases_def Let_def)
qed

lemma planned_actions_ok:
  "actions_ok (Plan.actions (PlanReset e riscv chip))"
  "auth_ok p \<Longrightarrow> actions_ok (auth_actions p) \<longleftrightarrow>
    dest_ok (imemPhysicalBase p) (imemBytes p) \<and> dest_ok (dmemPhysicalBase p) (dmemBytes p)"
proof -
  have "PlanReset e riscv chip = \<lparr>Plan.valid = True, actions = Plan.actions (PlanReset e riscv chip)\<rparr>"
    by (simp add: PlanReset_def push_def AddPoll_def Let_def)
  moreover have "Plan.actions (PlanReset e riscv chip) \<noteq> []"
    by (simp add: PlanReset_def push_def AddPoll_def Let_def)
  ultimately show "actions_ok (Plan.actions (PlanReset e riscv chip))"
    using PlanReset_policy [of e riscv chip] by (simp add: actions_ok_def)
  assume "auth_ok p"
  then show "actions_ok (auth_actions p) \<longleftrightarrow>
      dest_ok (imemPhysicalBase p) (imemBytes p) \<and> dest_ok (dmemPhysicalBase p) (dmemBytes p)"
    using PlanAuthenticatedExecution_policy [of p]
    by (simp add: PlanAuthenticatedExecution_eq actions_ok_def) (auto simp: auth_actions_def Let_def)
qed

lemma boot_phases_inj:
  "boot_phases l v st as1 as2 as4 as6 as7 = boot_phases l v st bs1 bs2 bs4 bs6 bs7 \<longleftrightarrow>
    as1 = bs1 \<and> as2 = bs2 \<and> as4 = bs4 \<and> as6 = bs6 \<and> as7 = bs7"
  by (auto simp: boot_phases_def)

lemma PlanBootSequence_cases:
  assumes "BootManifest.valid (PlanBootManifest i)"
  shows "\<exists>o'. PlanBootSequence (PlanBootManifest i) a g f s chip = Some o' \<and>
    (BootSequence.valid o' \<longleftrightarrow> sequence_request_ok (PlanBootManifest i) a g f s) \<and>
    (BootSequence.valid o' \<longrightarrow>
      (BootSequencePolicyReport.valid (CheckGa102BootSequencePolicy (PlanBootManifest i) o'
          \<lparr>BootSequencePolicyExpectations.libosInitArguments = ResolvedAddresses.libosInitArguments a,
            gspAppVersion = appVersion (descriptor g)\<rparr>) \<longleftrightarrow>
        ResolvedAddresses.libosInitArguments a \<noteq> 0 \<and>
        dest_ok (imemPhysBase f) (imemLoadSize f) \<and> dest_ok (dmemPhysBase f) (dmemLoadSize f) \<and>
        dest_ok 0 (AppHeaderV2.size' (firstApp s)) \<and> dest_ok 0 (osDataSize (load' s))))"
proof -
  let ?m = "PlanBootManifest i"
  let ?e = "\<lparr>BootSequencePolicyExpectations.libosInitArguments = ResolvedAddresses.libosInitArguments a,
            gspAppVersion = appVersion (descriptor g)\<rparr>"
  have ok: "manifest_ok i ?m" using assms by (rule manifest_ok_valid)
  show ?thesis
  proof (cases "sequence_request_ok ?m a g f s")
    case False
    then show ?thesis by (simp add: PlanBootSequence_eq BootSequence0_def)
  next
    case True
    let ?o = "\<lparr>BootSequence.valid = True, executableWithCurrentCore = bootstrapRpcPrefillImplemented ?m,
       phases = boot_phases (ResolvedAddresses.libosInitArguments a) (appVersion (descriptor g))
         (statusQueueOffset (queues ?m)) (Plan.actions (PlanReset Gsp False chip))
         (auth_actions (frts_parameters a f)) (Plan.actions (PlanReset Gsp True chip))
         (Plan.actions (PlanReset Sec2 False chip)) (auth_actions (sec2_parameters a s))\<rparr>"
    have plan: "PlanBootSequence ?m a g f s chip = Some ?o" using True by (simp add: PlanBootSequence_eq)
    have lay: "queue_layout_ok (queues ?m)" and exec: "bootstrapRpcPrefillImplemented ?m"
      using ok by (simp_all add: manifest_ok_def)
    have q: "0 < unat (QueueMemoryLayout.queueBytes (queues ?m))" "4096 dvd unat (QueueMemoryLayout.queueBytes (queues ?m))"
      using ok PlanQueueMemory_ok [of "ManifestInputs.queueBytes i" kGspPageBytes kGspPteBytes "queues ?m"] lay
      by (auto simp: manifest_ok_def kGspPageBytes_def unat_gt_0 queue_layout_ok_def)
    then have "4096 \<le> unat (QueueMemoryLayout.queueBytes (queues ?m))" by (auto elim: dvdE)
    then have wrap: "unat (statusQueueOffset (queues ?m)) + 28 < 2 ^ 64"
      using lay unat_lt(4) [of "totalBytes (queues ?m)"] by (simp add: queue_layout_ok_def)
    have libos: "4096 dvd unat (ResolvedAddresses.libosInitArguments a)"
      using True by (simp add: sequence_request_ok_def AddressesOk_def PageAligned_iff)
    have auth: "auth_ok (frts_parameters a f)" "auth_ok (sec2_parameters a s)"
      using True by (simp_all add: sequence_request_ok_def)
    have acts: "actions_ok (auth_actions (frts_parameters a f)) \<longleftrightarrow>
        dest_ok (imemPhysBase f) (imemLoadSize f) \<and> dest_ok (dmemPhysBase f) (dmemLoadSize f)"
      "actions_ok (auth_actions (sec2_parameters a s)) \<longleftrightarrow>
        dest_ok 0 (AppHeaderV2.size' (firstApp s)) \<and> dest_ok 0 (osDataSize (load' s))"
      using planned_actions_ok(2) [OF auth(1)] planned_actions_ok(2) [OF auth(2)]
      by (simp_all add: frts_parameters_def sec2_parameters_def)
    have "BootSequencePolicyReport.valid (CheckGa102BootSequencePolicy ?m ?o ?e) \<longleftrightarrow>
        ResolvedAddresses.libosInitArguments a \<noteq> 0 \<and> actions_ok (auth_actions (frts_parameters a f)) \<and>
        actions_ok (auth_actions (sec2_parameters a s))"
      unfolding audit_iff audit_phases using assms exec libos wrap planned_actions_ok(1)
      by (auto simp: boot_phases_inj)
    then show ?thesis using True plan acts by auto
  qed
qed

text \<open>
  C14. Planning a boot sequence always returns, with a valid sequence exactly for admissible inputs.
  The audit, run with the LIBOS address and firmware version the sequence was planned for, then
  accepts the sequence exactly when the LIBOS address is not zero and the four destinations of the
  DMA transfers fit the 24-bit Falcon offsets: the planner refines the policy up to these facts.
\<close>
theorem PlanBootSequence_accepted:
  assumes "BootManifest.valid (PlanBootManifest i)"
  shows "\<exists>o'. PlanBootSequence (PlanBootManifest i) a g f s chip = Some o' \<and>
    (BootSequence.valid o' \<longleftrightarrow> sequence_request_ok (PlanBootManifest i) a g f s) \<and>
    (BootSequence.valid o' \<longrightarrow>
      (BootSequencePolicyReport.valid (CheckGa102BootSequencePolicy (PlanBootManifest i) o'
          \<lparr>BootSequencePolicyExpectations.libosInitArguments = ResolvedAddresses.libosInitArguments a,
            gspAppVersion = appVersion (descriptor g)\<rparr>) \<longleftrightarrow>
        ResolvedAddresses.libosInitArguments a \<noteq> 0 \<and>
        dest_ok (imemPhysBase f) (imemLoadSize f) \<and> dest_ok (dmemPhysBase f) (dmemLoadSize f) \<and>
        dest_ok 0 (AppHeaderV2.size' (firstApp s)) \<and> dest_ok 0 (osDataSize (load' s))))"
  using assms by (rule PlanBootSequence_cases)

definition sample_fwsec :: DescriptorV3 where
  "sample_fwsec = \<lparr>storedSize = 0x1000, pkcDataOffset = 0x100, interfaceOffset = 0, imemPhysBase = 0,
     imemLoadSize = 0x400, imemVirtBase = 0, dmemPhysBase = 0, dmemLoadSize = 0x200, engineIdMask = 0x400,
     ucodeId = 9, signatureCount = 1, signatureVersions = 1\<rparr>"

definition sample_sec2 :: BooterImageInfo where
  "sample_sec2 = BooterImageInfo0\<lparr>BooterImageInfo.status := Nvfw.ParseStatus.Ok,
     BooterImageInfo.bin' := BinHeader0\<lparr>BinHeader.dataSize := 0x3001\<rparr>,
     load' := (load' BooterImageInfo0)\<lparr>osDataOffset := 0x100, osDataSize := 0x100\<rparr>,
     firstApp := (firstApp BooterImageInfo0)\<lparr>AppHeaderV2.offset := 0x300, AppHeaderV2.size' := 0x200\<rparr>\<rparr>"

definition sample_gsp :: RiscvBootloaderInfo where
  "sample_gsp = RiscvBootloaderInfo0\<lparr>RiscvBootloaderInfo.status := Nvfw.ParseStatus.Ok,
     RiscvBootloaderInfo.bin' := BinHeader0\<lparr>BinHeader.dataSize := 0x1234\<rparr>\<rparr>"

lemma sample_sequence_request:
  "sequence_request_ok (PlanBootManifest sample_manifest_inputs) sample_addresses sample_gsp sample_fwsec sample_sec2"
proof -
  have "manifest_ok sample_manifest_inputs (PlanBootManifest sample_manifest_inputs)"
    using PlanBootManifest_cases [of sample_manifest_inputs] sample_manifest_request by simp
  moreover have "auth_ok (frts_parameters sample_addresses sample_fwsec)"
    by (simp add: auth_ok_def frts_parameters_def sample_addresses_def sample_fwsec_def dma_ok_def offsets_fit_def
        imem_source_def dmem_source_def)
  moreover have "auth_ok (sec2_parameters sample_addresses sample_sec2)"
    by (simp add: auth_ok_def sec2_parameters_def sample_addresses_def sample_sec2_def dma_ok_def offsets_fit_def
        imem_source_def dmem_source_def)
  ultimately show ?thesis
    by (simp add: sequence_request_ok_def manifest_ok_def)
      (simp add: sample_gsp_def sample_sec2_def sample_fwsec_def sample_manifest_inputs_def sample_addresses_def
        AddressesOk_def PageAligned_def kPage_def)
qed

definition sample_expectations :: BootSequencePolicyExpectations where
  "sample_expectations = \<lparr>BootSequencePolicyExpectations.libosInitArguments = 0x100101000, gspAppVersion = 0\<rparr>"

lemma sample_destinations:
  "dest_ok (imemPhysBase sample_fwsec) (imemLoadSize sample_fwsec)"
  "dest_ok (dmemPhysBase sample_fwsec) (dmemLoadSize sample_fwsec)"
  "dest_ok 0 (AppHeaderV2.size' (firstApp sample_sec2))" "dest_ok 0 (osDataSize (load' sample_sec2))"
  "\<lparr>BootSequencePolicyExpectations.libosInitArguments = ResolvedAddresses.libosInitArguments sample_addresses,
    gspAppVersion = appVersion (descriptor sample_gsp)\<rparr> = sample_expectations"
  "ResolvedAddresses.libosInitArguments sample_addresses \<noteq> 0"
  "BootManifest.valid (PlanBootManifest sample_manifest_inputs)"
  using PlanBootManifest_cases [of sample_manifest_inputs] sample_manifest_request
  by (simp_all add: sample_fwsec_def sample_sec2_def sample_addresses_def sample_gsp_def sample_expectations_def
      RiscvBootloaderInfo0_def RiscvUcodeDescriptor0_def dest_ok_def manifest_ok_def)

theorem PlanBootSequence_witness:
  "\<exists>o'. PlanBootSequence (PlanBootManifest sample_manifest_inputs) sample_addresses sample_gsp sample_fwsec
      sample_sec2 0x172 = Some o' \<and> BootSequence.valid o' \<and>
    BootSequencePolicyReport.valid (CheckGa102BootSequencePolicy (PlanBootManifest sample_manifest_inputs) o'
      sample_expectations)"
  using PlanBootSequence_accepted [OF sample_destinations(7), of sample_addresses sample_gsp sample_fwsec sample_sec2 "0x172"]
    sample_sequence_request sample_destinations by auto

text \<open>The sample's sequence, for the theories that run it.\<close>

lemma sample_accepted:
  "\<exists>o'. PlanBootSequence (PlanBootManifest sample_manifest_inputs) sample_addresses sample_gsp sample_fwsec
      sample_sec2 0x172 = Some o' \<and>
    BootSequencePolicyReport.valid (CheckGa102BootSequencePolicy (PlanBootManifest sample_manifest_inputs) o'
      sample_expectations)"
  using PlanBootSequence_cases [OF sample_destinations(7), of sample_addresses sample_gsp sample_fwsec sample_sec2 "0x172"]
    sample_sequence_request sample_destinations by auto

end
