(* ===== verification/Attempt.thy ===== *)
theory Attempt
  imports Sequence
begin

text \<open>
  One boot attempt: the preflight gate (\<open>src/core/boot_preflight.cpp\<close>), the recovery policy after
  a failed phase (\<open>boot_recovery.cpp\<close>), the choice of a reset (\<open>reset_recovery.cpp\<close>) and the check
  after it (\<open>reset_postcheck.cpp\<close>), and the state machine that ties them together
  (\<open>boot_orchestrator.cpp\<close>), with their headers. \<open>attempt_step\<close> is the relation of its events.
\<close>

section \<open>Preflight\<close>

datatype BootPreflightFailure = NoFailure | ExecutionGateDisabled | ArmingContractRejected
  | PciCommandNotReady | SysmemFlushPageNotReady | SystemDmaNotReady | ArtifactsNotReady
  | FrtsImageNotVerified | Sec2ImageNotVerified | BootstrapRpcNotPrefilled | FalconPolicyNotReady
  | Wpr2AlreadyActive

record BootCommitPrerequisites =
  executionGateEnabled :: bool
  armingContractAccepted :: bool
  pciMemorySpaceEnabled :: bool
  pciBusMasterEnabled :: bool
  sysmemFlushPageProgrammed :: bool
  allSystemDmaResolved :: bool
  resolvedArtifactsBuilt :: bool
  frtsFramebufferImageVerified :: bool
  sec2FramebufferImageVerified :: bool
  bootstrapRpcPrefilled :: bool
  falconPlansPolicyValid :: bool
  wpr2AddrHi :: u32

record BootPreflightReport =
  ready :: bool
  coldRollbackStillSafe :: bool
  firstFailure :: BootPreflightFailure

definition CheckBootCommitPreflight :: "BootCommitPrerequisites \<Rightarrow> BootPreflightReport" where
  "CheckBootCommitPreflight p =
     (let fail = (\<lambda>f. \<lparr>ready = False, coldRollbackStillSafe = True, firstFailure = f\<rparr>) in
      if \<not> executionGateEnabled p then fail ExecutionGateDisabled
      else if \<not> armingContractAccepted p then fail ArmingContractRejected
      else if \<not> pciMemorySpaceEnabled p \<or> \<not> pciBusMasterEnabled p then fail PciCommandNotReady
      else if \<not> sysmemFlushPageProgrammed p then fail SysmemFlushPageNotReady
      else if \<not> allSystemDmaResolved p then fail SystemDmaNotReady
      else if \<not> resolvedArtifactsBuilt p then fail ArtifactsNotReady
      else if \<not> frtsFramebufferImageVerified p then fail FrtsImageNotVerified
      else if \<not> sec2FramebufferImageVerified p then fail Sec2ImageNotVerified
      else if \<not> bootstrapRpcPrefilled p then fail BootstrapRpcNotPrefilled
      else if \<not> falconPlansPolicyValid p then fail FalconPolicyNotReady
      else if wpr2AddrHi p \<noteq> 0 then fail Wpr2AlreadyActive
      else \<lparr>ready = True, coldRollbackStillSafe = True, firstFailure = NoFailure\<rparr>)"

section \<open>Recovery\<close>

record BootFailureRecovery =
  fullGpuResetRequired :: bool
  mayRetryBootstrap :: bool
  mayRollbackPraminScratch :: bool
  mayRollbackPciCommand :: bool
  mayRollbackSysmemFlushPage :: bool
  mayReleaseDmaBuffers :: bool
  keepDmaAndFlushPinned :: bool

definition ColdReversible :: BootFailureRecovery where
  "ColdReversible = \<lparr>fullGpuResetRequired = False, mayRetryBootstrap = True,
     mayRollbackPraminScratch = True, mayRollbackPciCommand = True, mayRollbackSysmemFlushPage = True,
     mayReleaseDmaBuffers = True, keepDmaAndFlushPinned = False\<rparr>"

definition FullResetRequired :: BootFailureRecovery where
  "FullResetRequired = \<lparr>fullGpuResetRequired = True, mayRetryBootstrap = False,
     mayRollbackPraminScratch = False, mayRollbackPciCommand = False, mayRollbackSysmemFlushPage = False,
     mayReleaseDmaBuffers = False, keepDmaAndFlushPinned = True\<rparr>"

definition RecoveryForBootFailure :: "BootPhase \<Rightarrow> bool \<Rightarrow> BootFailureRecovery" where
  "RecoveryForBootFailure failedPhase phaseActionsStarted =
     (case failedPhase of
        PrefillBootstrapRpcRecords \<Rightarrow> ColdReversible
      | ResetGspForFrts \<Rightarrow> if phaseActionsStarted then FullResetRequired else ColdReversible
      | _ \<Rightarrow> FullResetRequired)"

definition IsFullResetRecoveryConsistent :: "BootFailureRecovery \<Rightarrow> bool" where
  "IsFullResetRecoveryConsistent r \<longleftrightarrow>
     (if \<not> fullGpuResetRequired r then True
      else \<not> mayRetryBootstrap r \<and> \<not> mayRollbackPraminScratch r \<and> \<not> mayRollbackPciCommand r \<and>
        \<not> mayRollbackSysmemFlushPage r \<and> \<not> mayReleaseDmaBuffers r \<and> keepDmaAndFlushPinned r)"

section \<open>Reset\<close>

datatype PciResetMechanism = NoReset | FunctionLevelReset | HotReset

datatype ResetPlanFailure = NoFailure | ExecutionGateDisabled | NoSupportedReset

record ResetCapabilities =
  functionLevelResetSupported :: bool
  hotResetAllowed :: bool

record GpuResetPlan =
  valid :: bool
  mechanism :: PciResetMechanism
  failure :: ResetPlanFailure
  invalidateSystemDma :: bool
  invalidateFramebufferStaging :: bool
  invalidateSysmemFlushProgramming :: bool
  invalidatePciCommandProgramming :: bool
  invalidateFalconPlans :: bool
  requireWpr2DownBeforeRebuild :: bool
  requireCompleteColdRebuild :: bool

definition PlanGpuRecoveryReset :: "ResetCapabilities \<Rightarrow> bool \<Rightarrow> GpuResetPlan" where
  "PlanGpuRecoveryReset c gate =
     (let out = \<lparr>GpuResetPlan.valid = False, mechanism = NoReset, failure = ResetPlanFailure.NoFailure,
        invalidateSystemDma = False, invalidateFramebufferStaging = False,
        invalidateSysmemFlushProgramming = False, invalidatePciCommandProgramming = False,
        invalidateFalconPlans = False, requireWpr2DownBeforeRebuild = False,
        requireCompleteColdRebuild = False\<rparr>;
      full = (\<lambda>k. \<lparr>GpuResetPlan.valid = True, mechanism = k, failure = ResetPlanFailure.NoFailure,
        invalidateSystemDma = True, invalidateFramebufferStaging = True,
        invalidateSysmemFlushProgramming = True, invalidatePciCommandProgramming = True,
        invalidateFalconPlans = True, requireWpr2DownBeforeRebuild = True,
        requireCompleteColdRebuild = True\<rparr>)
      in if \<not> gate then out\<lparr>failure := ResetPlanFailure.ExecutionGateDisabled\<rparr>
      else if functionLevelResetSupported c then full FunctionLevelReset
      else if hotResetAllowed c then full HotReset
      else out\<lparr>failure := NoSupportedReset\<rparr>)"

definition ResetPlanInvalidatesBootState :: "GpuResetPlan \<Rightarrow> bool" where
  "ResetPlanInvalidatesBootState p \<longleftrightarrow> GpuResetPlan.valid p \<and> invalidateSystemDma p \<and>
     invalidateFramebufferStaging p \<and> invalidateSysmemFlushProgramming p \<and>
     invalidatePciCommandProgramming p \<and> invalidateFalconPlans p \<and>
     requireWpr2DownBeforeRebuild p \<and> requireCompleteColdRebuild p"

datatype ResetPostcheckFailure = NoFailure | ResetDidNotSucceed | PciIdentityUnavailable
  | PciIdentityChanged | Bar0Unavailable | Wpr2StillActive

record ResetPostcheckInputs =
  resetSucceeded :: bool
  pciIdentityReadable :: bool
  expectedVendor :: u16
  expectedDevice :: u16
  liveVendor :: u16
  liveDevice :: u16
  bar0Accessible :: bool
  wpr2AddrHi :: u32

record ResetPostcheckReport =
  recovered :: bool
  mayReleasePinnedBootBuffers :: bool
  mayBeginColdRebuild :: bool
  keepPinnedAndRequireReset :: bool
  firstFailure :: ResetPostcheckFailure

definition ResetPostcheckReport0 :: ResetPostcheckReport where
  "ResetPostcheckReport0 = \<lparr>recovered = False, mayReleasePinnedBootBuffers = False,
     mayBeginColdRebuild = False, keepPinnedAndRequireReset = False,
     firstFailure = ResetPostcheckFailure.NoFailure\<rparr>"

definition CheckResetPostconditions :: "ResetPostcheckInputs \<Rightarrow> ResetPostcheckReport" where
  "CheckResetPostconditions i =
     (let fail = (\<lambda>f. ResetPostcheckReport0\<lparr>firstFailure := f, keepPinnedAndRequireReset := True\<rparr>) in
      if \<not> resetSucceeded i then fail ResetDidNotSucceed
      else if \<not> pciIdentityReadable i then fail PciIdentityUnavailable
      else if expectedVendor i = 0 \<or> expectedDevice i = 0 \<or> liveVendor i \<noteq> expectedVendor i \<or>
        liveDevice i \<noteq> expectedDevice i then fail PciIdentityChanged
      else if \<not> bar0Accessible i then fail Bar0Unavailable
      else if ResetPostcheckInputs.wpr2AddrHi i \<noteq> 0 then fail Wpr2StillActive
      else \<lparr>recovered = True, mayReleasePinnedBootBuffers = True, mayBeginColdRebuild = True,
        keepPinnedAndRequireReset = False, firstFailure = ResetPostcheckFailure.NoFailure\<rparr>)"

section \<open>The attempt\<close>

datatype BootAttemptState = Cold | Ready | Running | Succeeded | Rejected | FailedColdReversible
  | FailedNeedsGpuReset | ResetRecovered | Unrecovered

datatype BootAttemptEventStatus = Ok | NotRunnable | WrongPhase | InvalidHardwareActionFlag
  | NotAwaitingReset

record BootAttempt =
  state :: BootAttemptState
  preflight :: BootPreflightReport
  sequencePolicy :: BootSequencePolicyReport
  recovery :: BootFailureRecovery
  resetPostcheck :: ResetPostcheckReport
  nextPhaseIndex :: nat
  firstResetCommitCrossed :: bool

text \<open>The value-initialised recovery: nothing is required and nothing is permitted.\<close>

definition BootFailureRecovery0 :: BootFailureRecovery where
  "BootFailureRecovery0 = \<lparr>fullGpuResetRequired = False, mayRetryBootstrap = False,
     mayRollbackPraminScratch = False, mayRollbackPciCommand = False, mayRollbackSysmemFlushPage = False,
     mayReleaseDmaBuffers = False, keepDmaAndFlushPinned = False\<rparr>"

definition BeginBootAttempt ::
    "BootManifest \<Rightarrow> BootSequence \<Rightarrow> BootSequencePolicyExpectations \<Rightarrow> BootCommitPrerequisites \<Rightarrow> BootAttempt" where
  "BeginBootAttempt m s e p =
     (let out = \<lparr>state = Cold, preflight = CheckBootCommitPreflight p,
        sequencePolicy = CheckGa102BootSequencePolicy m s e, recovery = BootFailureRecovery0,
        resetPostcheck = ResetPostcheckReport0, nextPhaseIndex = 0, firstResetCommitCrossed = False\<rparr>
      in if \<not> ready (preflight out) \<or> \<not> BootSequencePolicyReport.valid (sequencePolicy out)
         then out\<lparr>state := Rejected\<rparr> else out\<lparr>state := Ready\<rparr>)"

definition RecordBootPhaseResult ::
    "BootAttempt \<Rightarrow> BootSequence \<Rightarrow> nat \<Rightarrow> bool \<Rightarrow> bool \<Rightarrow> BootAttemptEventStatus \<times> BootAttempt" where
  "RecordBootPhaseResult a s i succeeded hardwareActionsStarted =
     (if state a \<noteq> Ready \<and> state a \<noteq> Running then (NotRunnable, a)
      else if \<not> BootSequence.valid s \<or> i \<noteq> nextPhaseIndex a \<or> length (phases s) \<le> i then (WrongPhase, a)
      else let p = phases s ! i; hasActions = (PhasePlan.actions p \<noteq> []) in
        if succeeded \<and> hasActions \<noteq> hardwareActionsStarted then (InvalidHardwareActionFlag, a)
        else if \<not> hasActions \<and> hardwareActionsStarted then (InvalidHardwareActionFlag, a)
        else let a = (if phase p = ResetGspForFrts \<and> hardwareActionsStarted
                      then a\<lparr>firstResetCommitCrossed := True\<rparr> else a) in
          if \<not> succeeded then
            (let r = RecoveryForBootFailure (phase p) hardwareActionsStarted;
                 r = (if firstResetCommitCrossed a \<and> \<not> fullGpuResetRequired r
                      then RecoveryForBootFailure ResetGspForFrts True else r)
             in (Ok, a\<lparr>recovery := r, state := (if fullGpuResetRequired r then FailedNeedsGpuReset
                                                else FailedColdReversible)\<rparr>))
          else let a = a\<lparr>nextPhaseIndex := Suc (nextPhaseIndex a)\<rparr> in
            (Ok, a\<lparr>state := (if nextPhaseIndex a = length (phases s) then Succeeded else Running)\<rparr>))"

definition RecordBootResetPostcheck ::
    "BootAttempt \<Rightarrow> ResetPostcheckReport \<Rightarrow> BootAttemptEventStatus \<times> BootAttempt" where
  "RecordBootResetPostcheck a r =
     (if state a \<noteq> FailedNeedsGpuReset then (NotAwaitingReset, a)
      else (Ok, a\<lparr>resetPostcheck := r,
        state := (if recovered r \<and> mayReleasePinnedBootBuffers r \<and> mayBeginColdRebuild r \<and>
                     \<not> keepPinnedAndRequireReset r then ResetRecovered else Unrecovered)\<rparr>))"

definition BootAttemptTerminal :: "BootAttempt \<Rightarrow> bool" where
  "BootAttemptTerminal a \<longleftrightarrow>
     state a \<in> {Succeeded, Rejected, FailedColdReversible, ResetRecovered, Unrecovered}"

section \<open>The step relation\<close>

text \<open>An event the attempt accepts. The postcheck report is the one the reset check computes.\<close>

inductive attempt_step :: "BootSequence \<Rightarrow> BootAttempt \<Rightarrow> BootAttempt \<Rightarrow> bool" for s where
  phase_result: "RecordBootPhaseResult a s i succeeded hw = (Ok, a') \<Longrightarrow> attempt_step s a a'"
| reset_postcheck: "RecordBootResetPostcheck a (CheckResetPostconditions inp) = (Ok, a') \<Longrightarrow> attempt_step s a a'"

inductive_cases attempt_stepE: "attempt_step s a a'"
inductive_simps attempt_step_iff: "attempt_step s a a'"

lemma rejected_event:
  "RecordBootPhaseResult a s i succeeded hw = (st, a') \<Longrightarrow> st = Ok \<or> a' = a"
  "RecordBootResetPostcheck a r = (st, a') \<Longrightarrow> st = Ok \<or> a' = a"
  by (auto simp: RecordBootPhaseResult_def RecordBootResetPostcheck_def Let_def split: if_split_asm)

lemma rejected_event_unchanged:
  "fst (RecordBootPhaseResult a s i succeeded hw) \<noteq> Ok \<Longrightarrow> snd (RecordBootPhaseResult a s i succeeded hw) = a"
  using rejected_event(1) [of a s i succeeded hw] by (cases "RecordBootPhaseResult a s i succeeded hw") auto

text \<open>The preflight gate.\<close>

definition all_prerequisites :: "BootCommitPrerequisites \<Rightarrow> bool" where
  "all_prerequisites p \<longleftrightarrow> executionGateEnabled p \<and> armingContractAccepted p \<and> pciMemorySpaceEnabled p \<and>
     pciBusMasterEnabled p \<and> sysmemFlushPageProgrammed p \<and> allSystemDmaResolved p \<and>
     resolvedArtifactsBuilt p \<and> frtsFramebufferImageVerified p \<and> sec2FramebufferImageVerified p \<and>
     bootstrapRpcPrefilled p \<and> falconPlansPolicyValid p \<and> BootCommitPrerequisites.wpr2AddrHi p = 0"

lemma preflight_iff: "ready (CheckBootCommitPreflight p) \<longleftrightarrow> all_prerequisites p"
  by (auto simp: CheckBootCommitPreflight_def all_prerequisites_def Let_def)

text \<open>What the audit says of the sequence: twelve phases, no actions in phase 0, some in phase 1.\<close>

definition audited :: "BootSequence \<Rightarrow> bool" where
  "audited s \<longleftrightarrow> BootSequence.valid s \<and> length (phases s) = 12 \<and>
     phase (phases s ! 0) = PrefillBootstrapRpcRecords \<and> PhasePlan.actions (phases s ! 0) = [] \<and>
     phase (phases s ! 1) = ResetGspForFrts \<and> PhasePlan.actions (phases s ! 1) \<noteq> [] \<and>
     (\<forall>i < 12. 2 \<le> i \<longrightarrow> phase (phases s ! i) \<notin> {PrefillBootstrapRpcRecords, ResetGspForFrts})"

lemma accepted_audited:
  assumes "BootSequencePolicyReport.valid (CheckGa102BootSequencePolicy m s e)"
  shows "audited s"
proof -
  obtain as1 as2 as4 as6 as7 l v st where "phases s = boot_phases l v st as1 as2 as4 as6 as7"
    "actions_ok as1" "BootSequence.valid s"
    using assms unfolding audit_iff audit_phases by blast
  then show ?thesis
    by (simp add: audited_def boot_phases_def actions_ok_def All_less_Suc numeral_eq_Suc)
qed

text \<open>The invariant of an attempt: where each state can be, and what it may undo.\<close>

definition attempt_inv :: "BootAttempt \<Rightarrow> bool" where
  "attempt_inv a \<longleftrightarrow> (case state a of
     Cold \<Rightarrow> False
   | Rejected \<Rightarrow> nextPhaseIndex a = 0 \<and> \<not> firstResetCommitCrossed a
   | Ready \<Rightarrow> nextPhaseIndex a = 0 \<and> \<not> firstResetCommitCrossed a
   | Running \<Rightarrow> 0 < nextPhaseIndex a \<and> nextPhaseIndex a < 12 \<and>
       (firstResetCommitCrossed a \<longleftrightarrow> 2 \<le> nextPhaseIndex a)
   | Succeeded \<Rightarrow> nextPhaseIndex a = 12 \<and> firstResetCommitCrossed a
   | FailedColdReversible \<Rightarrow> nextPhaseIndex a \<le> 1 \<and> \<not> firstResetCommitCrossed a \<and> recovery a = ColdReversible
   | FailedNeedsGpuReset \<Rightarrow> 0 < nextPhaseIndex a \<and> nextPhaseIndex a < 12 \<and> firstResetCommitCrossed a \<and>
       recovery a = FullResetRequired
   | ResetRecovered \<Rightarrow> firstResetCommitCrossed a \<and> recovery a = FullResetRequired \<and>
       recovered (resetPostcheck a) \<and> mayReleasePinnedBootBuffers (resetPostcheck a)
   | Unrecovered \<Rightarrow> firstResetCommitCrossed a \<and> recovery a = FullResetRequired)"

lemma phase_result_inv:
  assumes s: "audited s" and inv: "attempt_inv a" and step: "RecordBootPhaseResult a s i succeeded hw = (Ok, a')"
  shows "attempt_inv a'"
proof -
  let ?p = "phases s ! i" and ?n = "nextPhaseIndex a"
  have run: "state a = Ready \<or> state a = Running" "i = ?n" "i < 12"
    and flags: "succeeded \<Longrightarrow> (PhasePlan.actions ?p \<noteq> []) = hw" "hw \<Longrightarrow> PhasePlan.actions ?p \<noteq> []"
    using step s by (auto simp: RecordBootPhaseResult_def audited_def Let_def split: if_splits)
  define c where "c \<longleftrightarrow> firstResetCommitCrossed a \<or> phase ?p = ResetGspForFrts \<and> hw"
  have crossed: "firstResetCommitCrossed a \<longleftrightarrow> 2 \<le> i" using run inv by (auto simp: attempt_inv_def)
  have len: "length (phases s) = 12" using s by (simp add: audited_def)
  show ?thesis
  proof (cases succeeded)
    case True
    have "a' = a\<lparr>firstResetCommitCrossed := c, nextPhaseIndex := Suc i,
        state := (if Suc i = 12 then Succeeded else Running)\<rparr>"
      using step run True flags s by (auto simp: RecordBootPhaseResult_def Let_def c_def audited_def split: if_splits)
    moreover have "c \<longleftrightarrow> 1 \<le> i"
    proof (cases "i \<le> 1")
      case True
      then consider "i = 0" | "i = 1" by linarith
      then show ?thesis using crossed s flags \<open>succeeded\<close> by cases (auto simp: c_def audited_def)
    next
      case False
      then show ?thesis using crossed by (simp add: c_def)
    qed
    ultimately show ?thesis using run(3) by (auto simp: attempt_inv_def)
  next
    case False
    define r where "r = (if c \<and> \<not> fullGpuResetRequired (RecoveryForBootFailure (phase ?p) hw)
      then FullResetRequired else RecoveryForBootFailure (phase ?p) hw)"
    have "a' = a\<lparr>firstResetCommitCrossed := c, recovery := r,
        state := (if fullGpuResetRequired r then FailedNeedsGpuReset else FailedColdReversible)\<rparr>"
      using step run False flags s
      by (auto simp: RecordBootPhaseResult_def Let_def c_def r_def audited_def RecoveryForBootFailure_def
          split: if_splits)
    moreover consider "i = 0" | "i = 1" | "2 \<le> i" by linarith
    then have "if c then r = FullResetRequired \<and> 0 < i else r = ColdReversible \<and> i \<le> 1"
    proof cases
      case 1
      then show ?thesis using s crossed by (simp add: c_def r_def audited_def RecoveryForBootFailure_def)
    next
      case 2
      then show ?thesis using s crossed
        by (simp add: c_def r_def audited_def RecoveryForBootFailure_def ColdReversible_def FullResetRequired_def)
    next
      case 3
      then have "phase ?p \<notin> {PrefillBootstrapRpcRecords, ResetGspForFrts}" using s run(3) by (simp add: audited_def)
      then have "RecoveryForBootFailure (phase ?p) hw = FullResetRequired"
        by (auto simp: RecoveryForBootFailure_def split: BootPhase.split)
      then show ?thesis using 3 crossed by (simp add: c_def r_def)
    qed
    ultimately show ?thesis
      using run by (auto simp: attempt_inv_def ColdReversible_def FullResetRequired_def split: if_splits)
  qed
qed

lemma postcheck_inv:
  assumes "attempt_inv a" and "RecordBootResetPostcheck a r = (Ok, a')"
  shows "attempt_inv a'"
  using assms by (auto simp: RecordBootResetPostcheck_def attempt_inv_def split: if_splits)

lemma attempt_step_inv: "attempt_step s a a' \<Longrightarrow> audited s \<Longrightarrow> attempt_inv a \<Longrightarrow> attempt_inv a'"
  by (elim attempt_stepE) (auto intro: phase_result_inv postcheck_inv)

lemma begin_state:
  "attempt_inv (BeginBootAttempt m s e p)"
  "state (BeginBootAttempt m s e p) = (if all_prerequisites p \<and>
     BootSequencePolicyReport.valid (CheckGa102BootSequencePolicy m s e) then Ready else Rejected)"
  by (auto simp: BeginBootAttempt_def attempt_inv_def preflight_iff Let_def)

lemma rejected_stuck: "state a = Rejected \<Longrightarrow> \<not> attempt_step s a a'"
  by (auto simp: attempt_step_iff RecordBootPhaseResult_def RecordBootResetPostcheck_def)

lemma reachable_inv:
  assumes "(attempt_step s)\<^sup>*\<^sup>* (BeginBootAttempt m s e p) a"
  shows "attempt_inv a \<and> (state a \<noteq> Rejected \<longrightarrow> all_prerequisites p \<and>
    BootSequencePolicyReport.valid (CheckGa102BootSequencePolicy m s e))"
proof (cases "state (BeginBootAttempt m s e p) = Rejected")
  case True
  then have "a = BeginBootAttempt m s e p"
    using assms rejected_stuck by (auto elim: converse_rtranclpE)
  then show ?thesis using True begin_state(1) by simp
next
  case False
  then have ok: "all_prerequisites p" "BootSequencePolicyReport.valid (CheckGa102BootSequencePolicy m s e)"
    by (auto simp: begin_state(2) split: if_splits)
  from assms have "attempt_inv a"
  proof induction
    case base
    show ?case by (rule begin_state(1))
  next
    case (step b c)
    then show ?case using attempt_step_inv accepted_audited [OF ok(2)] by blast
  qed
  then show ?thesis using ok by simp
qed

text \<open>
  C12. Whatever events an attempt sees, it keeps its invariant, and it leaves the rejected state only
  with every prerequisite met and an audited sequence. Boot DMA buffers may be released only while
  the first Falcon reset has not been crossed, and once it has, a failure demands a full GPU reset
  and permits none of the rollbacks; an event the attempt rejects does not change it.
\<close>
theorem boot_attempt_invariant:
  assumes "(attempt_step s)\<^sup>*\<^sup>* (BeginBootAttempt m s e p) a"
  shows "attempt_inv a \<and>
    (state a \<noteq> Rejected \<longrightarrow> all_prerequisites p \<and>
      BootSequencePolicyReport.valid (CheckGa102BootSequencePolicy m s e)) \<and>
    (state a \<in> {FailedColdReversible, FailedNeedsGpuReset} \<longrightarrow>
      (mayReleaseDmaBuffers (recovery a) \<longleftrightarrow> \<not> firstResetCommitCrossed a) \<and>
      (firstResetCommitCrossed a \<longleftrightarrow> fullGpuResetRequired (recovery a)) \<and>
      IsFullResetRecoveryConsistent (recovery a)) \<and>
    (fst (RecordBootPhaseResult a s i succeeded hw) \<noteq> Ok \<longrightarrow> snd (RecordBootPhaseResult a s i succeeded hw) = a)"
  using reachable_inv [OF assms] rejected_event_unchanged [of a s i succeeded hw]
  by (auto simp: attempt_inv_def IsFullResetRecoveryConsistent_def ColdReversible_def FullResetRequired_def)

definition sample_prerequisites :: BootCommitPrerequisites where
  "sample_prerequisites = \<lparr>executionGateEnabled = True, armingContractAccepted = True, pciMemorySpaceEnabled = True,
     pciBusMasterEnabled = True, sysmemFlushPageProgrammed = True, allSystemDmaResolved = True,
     resolvedArtifactsBuilt = True, frtsFramebufferImageVerified = True, sec2FramebufferImageVerified = True,
     bootstrapRpcPrefilled = True, falconPlansPolicyValid = True, wpr2AddrHi = 0\<rparr>"

lemma sample_prerequisites: "all_prerequisites sample_prerequisites"
  by (simp add: all_prerequisites_def sample_prerequisites_def)

lemma sample_failure:
  assumes "BootSequencePolicyReport.valid (CheckGa102BootSequencePolicy m s e)"
  shows "\<exists>a. attempt_step s (BeginBootAttempt m s e sample_prerequisites) a \<and> state a = FailedColdReversible"
proof -
  let ?b = "BeginBootAttempt m s e sample_prerequisites"
  have "state ?b = Ready" "nextPhaseIndex ?b = 0"
    using assms begin_state [of m s e sample_prerequisites] by (simp_all add: sample_prerequisites attempt_inv_def)
  then have "\<exists>a. RecordBootPhaseResult ?b s 0 False False = (Ok, a) \<and> state a = FailedColdReversible"
    using accepted_audited [OF assms] begin_state(1) [of m s e sample_prerequisites]
    by (simp add: RecordBootPhaseResult_def audited_def RecoveryForBootFailure_def ColdReversible_def attempt_inv_def)
  then show ?thesis using phase_result by blast
qed

theorem boot_attempt_invariant_witness:
  "\<exists>s a. (attempt_step s)\<^sup>*\<^sup>* (BeginBootAttempt (PlanBootManifest sample_manifest_inputs) s sample_expectations
      sample_prerequisites) a \<and> state a = FailedColdReversible \<and> mayReleaseDmaBuffers (recovery a)"
proof -
  obtain s where "BootSequencePolicyReport.valid
      (CheckGa102BootSequencePolicy (PlanBootManifest sample_manifest_inputs) s sample_expectations)"
    using sample_accepted by blast
  then obtain a where a: "attempt_step s (BeginBootAttempt (PlanBootManifest sample_manifest_inputs) s
      sample_expectations sample_prerequisites) a" "state a = FailedColdReversible"
    using sample_failure by blast
  moreover have "mayReleaseDmaBuffers (recovery a)"
    using boot_attempt_invariant [OF r_into_rtranclp [of "attempt_step s", OF a(1)], where i = 0 and succeeded = False and hw = False] a(2)
    by (simp add: attempt_inv_def ColdReversible_def)
  ultimately show ?thesis by blast
qed

section \<open>Progress and termination\<close>

text \<open>How many events are left at most.\<close>

definition attempt_rank :: "BootAttempt \<Rightarrow> nat" where
  "attempt_rank a = (case state a of Ready \<Rightarrow> 13 - nextPhaseIndex a | Running \<Rightarrow> 13 - nextPhaseIndex a
     | FailedNeedsGpuReset \<Rightarrow> 1 | _ \<Rightarrow> 0)"

lemma attempt_step_rank:
  assumes "attempt_step s a a'" and "audited s" and "attempt_inv a"
  shows "attempt_rank a' < attempt_rank a"
  using assms(1)
proof (cases rule: attempt_step.cases)
  case (phase_result i succeeded hw)
  then have "state a = Ready \<or> state a = Running" "nextPhaseIndex a < 12"
    and "state a' = FailedNeedsGpuReset \<or> state a' = FailedColdReversible \<or>
      (state a' = Running \<or> state a' = Succeeded) \<and> nextPhaseIndex a' = Suc (nextPhaseIndex a)"
    using assms(2) by (auto simp: RecordBootPhaseResult_def Let_def audited_def split: if_splits)
  then show ?thesis by (auto simp: attempt_rank_def)
next
  case (reset_postcheck inp)
  then show ?thesis by (auto simp: RecordBootResetPostcheck_def attempt_rank_def split: if_splits)
qed

lemma phase_success:
  assumes "audited s" and "attempt_inv a" and "state a = Ready \<or> state a = Running"
  shows "\<exists>a'. RecordBootPhaseResult a s (nextPhaseIndex a) True
      (PhasePlan.actions (phases s ! nextPhaseIndex a) \<noteq> []) = (Ok, a') \<and>
    nextPhaseIndex a' = Suc (nextPhaseIndex a) \<and>
    state a' = (if Suc (nextPhaseIndex a) = 12 then Succeeded else Running)"
proof -
  have "nextPhaseIndex a < 12" using assms(2,3) by (auto simp: attempt_inv_def)
  then show ?thesis using assms by (auto simp: RecordBootPhaseResult_def audited_def Let_def)
qed

lemma success_run:
  assumes "audited s" and "attempt_inv a" and "state a = Ready \<or> state a = Running"
  shows "\<exists>a'. (attempt_step s)\<^sup>*\<^sup>* a a' \<and> state a' = Succeeded"
  using assms(2,3)
proof (induction "12 - nextPhaseIndex a" arbitrary: a rule: less_induct)
  case less
  obtain a' where a': "RecordBootPhaseResult a s (nextPhaseIndex a) True
      (PhasePlan.actions (phases s ! nextPhaseIndex a) \<noteq> []) = (Ok, a')"
    "nextPhaseIndex a' = Suc (nextPhaseIndex a)"
    "state a' = (if Suc (nextPhaseIndex a) = 12 then Succeeded else Running)"
    using phase_success [OF assms(1) less.prems] by blast
  then have step: "attempt_step s a a'" by (auto intro: phase_result)
  show ?case
  proof (cases "Suc (nextPhaseIndex a) = 12")
    case True
    then show ?thesis using step a'(3) by auto
  next
    case False
    have "nextPhaseIndex a < 12" using less.prems by (auto simp: attempt_inv_def)
    then have smaller: "12 - nextPhaseIndex a' < 12 - nextPhaseIndex a" using a'(2) by simp
    have "state a' = Ready \<or> state a' = Running" using a'(3) False by simp
    then obtain b where "(attempt_step s)\<^sup>*\<^sup>* a' b" "state b = Succeeded"
      using less.hyps [OF smaller attempt_step_inv [OF step assms(1) less.prems(1)]] by blast
    then show ?thesis using step by (auto intro: converse_rtranclp_into_rtranclp)
  qed
qed

lemma step_exists_iff:
  assumes "audited s" and "attempt_inv a"
  shows "(\<exists>a'. attempt_step s a a') \<longleftrightarrow> \<not> BootAttemptTerminal a"
proof
  assume "\<exists>a'. attempt_step s a a'"
  then show "\<not> BootAttemptTerminal a"
    by (auto simp: attempt_step_iff RecordBootPhaseResult_def RecordBootResetPostcheck_def BootAttemptTerminal_def
        split: if_splits)
next
  assume "\<not> BootAttemptTerminal a"
  then consider "state a = Ready \<or> state a = Running" | "state a = FailedNeedsGpuReset"
    using assms(2) by (cases "state a") (auto simp: BootAttemptTerminal_def attempt_inv_def)
  then show "\<exists>a'. attempt_step s a a'"
  proof cases
    case 1
    then show ?thesis using phase_success [OF assms] phase_result by blast
  next
    case 2
    then have "\<exists>a'. RecordBootResetPostcheck a (CheckResetPostconditions undefined) = (Ok, a')"
      by (simp add: RecordBootResetPostcheck_def)
    then show ?thesis using reset_postcheck by blast
  qed
qed

text \<open>
  C16. An attempt that begins runnable can reach success, by the twelve phases succeeding in order;
  no attempt takes more than thirteen accepted events; and a reachable attempt can take one exactly
  when it is not terminal.
\<close>
theorem boot_attempt_progress:
  assumes "BootSequencePolicyReport.valid (CheckGa102BootSequencePolicy m s e)" and "all_prerequisites p"
  shows "(\<exists>a. (attempt_step s)\<^sup>*\<^sup>* (BeginBootAttempt m s e p) a \<and> state a = Succeeded) \<and>
    (\<forall>n a. (attempt_step s ^^ n) (BeginBootAttempt m s e p) a \<longrightarrow>
      n \<le> 13 \<and> ((\<exists>a'. attempt_step s a a') \<longleftrightarrow> \<not> BootAttemptTerminal a))"
proof -
  let ?b = "BeginBootAttempt m s e p"
  have s: "audited s" by (rule accepted_audited [OF assms(1)])
  have start: "attempt_inv ?b" "state ?b = Ready" using assms begin_state by simp_all
  have "n + attempt_rank a \<le> 13 \<and> attempt_inv a" if "(attempt_step s ^^ n) ?b a" for n a
    using that
  proof (induction n arbitrary: a)
    case 0
    then show ?case using start by (simp add: attempt_rank_def attempt_inv_def)
  next
    case (Suc n)
    then obtain c where c: "(attempt_step s ^^ n) ?b c" "attempt_step s c a" by auto
    have "n + attempt_rank c \<le> 13" and inv: "attempt_inv c" using Suc.IH [OF c(1)] by blast+
    then show ?case
      using attempt_step_rank [OF c(2) s inv] attempt_step_inv [OF c(2) s inv] by simp
  qed
  then have bounded: "n \<le> 13 \<and> attempt_inv a" if "(attempt_step s ^^ n) ?b a" for n a
    using that by (meson add_leE)
  have "\<exists>a. (attempt_step s)\<^sup>*\<^sup>* ?b a \<and> state a = Succeeded"
    using success_run [OF s start(1)] start(2) by blast
  then show ?thesis using bounded step_exists_iff [OF s] by blast
qed

theorem boot_attempt_progress_witness:
  "\<exists>s a. PlanBootSequence (PlanBootManifest sample_manifest_inputs) sample_addresses sample_gsp sample_fwsec
      sample_sec2 0x172 = Some s \<and>
    (attempt_step s)\<^sup>*\<^sup>* (BeginBootAttempt (PlanBootManifest sample_manifest_inputs) s sample_expectations
      sample_prerequisites) a \<and> state a = Succeeded"
  using sample_accepted boot_attempt_progress [OF _ sample_prerequisites] by blast

end
