(* ===== verification/PhaseExec.thy ===== *)
theory PhaseExec
  imports FalconExec DmaBuffer Attempt
begin

text \<open>
  The executor of one boot phase (\<open>macos/Driver/RTXMacBootPhase.cpp\<close>, \<open>RTXMacBootPhase.hpp\<close>): the
  composition of the sequence audit, the Falcon plan executor, the checks (register and shared
  memory) and the attempt state machine. The register aperture and the DMA services are parameters;
  the history of their use is the state.
\<close>

section \<open>Operations\<close>

record RTXMacBootPhaseResult =
  status :: kern_return
  phaseIndex :: nat
  phase :: BootPhase
  hardwareActionsStarted :: bool
  checkPassed :: bool
  attemptUpdated :: bool
  waitMilliseconds :: u64

text \<open>A register read. Register offsets of the model have 32 bits; \<open>None\<close> stands for a read the guards
  let through at 4 GiB or beyond, where no audited check points.\<close>

definition ReadBar0U32 ::
    "Aperture option \<Rightarrow> u64 \<Rightarrow> u64 \<Rightarrow> history \<Rightarrow> (kern_return \<times> u32 \<times> history) option" where
  "ReadBar0U32 bar0 bar0Size off h =
     (case bar0 of None \<Rightarrow> Some (kIOReturnBadArgument, 0, h)
      | Some dev \<Rightarrow>
        if off AND 3 \<noteq> 0 \<or> bar0Size < off \<or> bar0Size - off < 4 then Some (kIOReturnBadArgument, 0, h)
        else let pageBase = off AND NOT (kPageBytes - 1);
                 inPage = off - pageBase;
                 mapLength = (if pageBase + kPageBytes \<le> bar0Size then kPageBytes else bar0Size - pageBase)
        in if mapLength < inPage + 4 then Some (kIOReturnNoResources, 0, h)
        else let (kr, m) = CreateMapping dev h pageBase mapLength;
                 h = h @ [Mapped pageBase mapLength]
        in if kr \<noteq> kIOReturnSuccess \<or> m = None
           then Some (if kr = kIOReturnSuccess then kIOReturnError else kr, 0, h)
        else if m = Some 0 then Some (kIOReturnNoResources, 0, h)
        else if 0xFFFFFFFF < off then None
        else let (v, h) = reg_read dev (ucast off) h in Some (kIOReturnSuccess, v, h))"

definition CheckSatisfied :: "Check \<Rightarrow> u32 \<Rightarrow> bool" where
  "CheckSatisfied c v = (case Check.kind c of
       MmioMaskEqual \<Rightarrow> v AND Check.mask' c = Check.value c
     | SharedMemoryU32Equal \<Rightarrow> v AND Check.mask' c = Check.value c
     | MmioNonZero \<Rightarrow> v AND Check.mask' c \<noteq> 0
     | HostPreparationRequired \<Rightarrow> False)"

text \<open>The value a check looks at, and the loop that waits for it a millisecond at a time.\<close>

definition ReadCheck ::
    "DmaServices \<Rightarrow> Check \<Rightarrow> Aperture option \<Rightarrow> u64 \<Rightarrow> RTXMacPreparedDmaBuffer option \<Rightarrow> history \<Rightarrow>
     (kern_return \<times> u32 \<times> history) option" where
  "ReadCheck svc c bar0 bar0Size sharedQueueDma h =
     (if Check.kind c = SharedMemoryU32Equal
      then if sharedQueueDma = None then Some (kIOReturnBadArgument, 0, h)
           else RTXMacReadPreparedDmaU32 svc sharedQueueDma (addressOrOffset c) h
      else ReadBar0U32 bar0 bar0Size (addressOrOffset c) h)"

function ExecuteCheck_loop ::
    "DmaServices \<Rightarrow> Check \<Rightarrow> Aperture option \<Rightarrow> u64 \<Rightarrow> RTXMacPreparedDmaBuffer option \<Rightarrow> u64 \<Rightarrow> u64 \<Rightarrow> history \<Rightarrow>
     (kern_return \<times> u64 \<times> history) option" where
  "ExecuteCheck_loop svc c bar0 bar0Size sharedQueueDma maxWait waited h =
     (case ReadCheck svc c bar0 bar0Size sharedQueueDma h of
        None \<Rightarrow> None
      | Some (kr, v, h) \<Rightarrow>
          if kr \<noteq> kIOReturnSuccess then Some (kr, waited, h)
          else if CheckSatisfied c v then Some (kIOReturnSuccess, waited, h)
          else if maxWait \<le> waited then Some (kIOReturnTimeout, waited, h)
          else ExecuteCheck_loop svc c bar0 bar0Size sharedQueueDma maxWait (waited + 1) (h @ [Sleep 1]))"
  by pat_completeness auto

termination ExecuteCheck_loop
  by (relation "measure (\<lambda>(_, _, _, _, _, maxWait, waited, _). unat maxWait - unat waited)")
    (auto simp: unat_inc not_le word_less_nat_alt)

definition ExecuteCheck ::
    "DmaServices \<Rightarrow> Check \<Rightarrow> Aperture option \<Rightarrow> u64 \<Rightarrow> RTXMacPreparedDmaBuffer option \<Rightarrow> u64 \<Rightarrow> history \<Rightarrow>
     (kern_return \<times> u64 \<times> history) option" where
  "ExecuteCheck svc c bar0 bar0Size sharedQueueDma maxWait h =
     (if maxWait = 0 then Some (kIOReturnBadArgument, 0, h)
      else if Check.kind c = HostPreparationRequired then Some (kIOReturnNotPermitted, 0, h)
      else ExecuteCheck_loop svc c bar0 bar0Size sharedQueueDma maxWait 0 h)"

text \<open>The checks of a phase, from the milliseconds already waited.\<close>

fun ExecuteChecks ::
    "DmaServices \<Rightarrow> Check list \<Rightarrow> Aperture option \<Rightarrow> u64 \<Rightarrow> RTXMacPreparedDmaBuffer option \<Rightarrow> u64 \<Rightarrow> u64 \<Rightarrow>
     history \<Rightarrow> (kern_return \<times> u64 \<times> history) option" where
  "ExecuteChecks svc [] bar0 bar0Size sharedQueueDma maxWait waited h = Some (kIOReturnSuccess, waited, h)"
| "ExecuteChecks svc (c # cs) bar0 bar0Size sharedQueueDma maxWait waited h =
     (if maxWait \<le> waited then Some (kIOReturnTimeout, waited, h)
      else do {
        (kr, checkWait, h) \<leftarrow> ExecuteCheck svc c bar0 bar0Size sharedQueueDma (maxWait - waited) h;
        if kr \<noteq> kIOReturnSuccess then Some (kr, waited + checkWait, h)
        else ExecuteChecks svc cs bar0 bar0Size sharedQueueDma maxWait (waited + checkWait) h })"

definition RTXMacExecuteNextBootPhase ::
    "DmaServices \<Rightarrow> BootAttempt \<Rightarrow> BootManifest \<Rightarrow> BootSequence \<Rightarrow> BootSequencePolicyExpectations \<Rightarrow>
     Aperture option \<Rightarrow> u64 \<Rightarrow> RTXMacPreparedDmaBuffer option \<Rightarrow> bool \<Rightarrow> u64 \<Rightarrow> history \<Rightarrow>
     (RTXMacBootPhaseResult \<times> BootAttempt \<times> history) option" where
  "RTXMacExecuteNextBootPhase svc attempt manifest s expectations bar0 bar0Size sharedQueueDma
       writesEnabled maxWait h =
     (let out = \<lparr>status = kIOReturnNotPermitted, phaseIndex = nextPhaseIndex attempt,
                 phase = PrefillBootstrapRpcRecords, hardwareActionsStarted = False, checkPassed = False,
                 attemptUpdated = False, waitMilliseconds = 0\<rparr>
      in if (state attempt \<noteq> Ready \<and> state attempt \<noteq> Running) \<or> bar0 = None \<or> bar0Size = 0 \<or> maxWait = 0
         then Some (out, attempt, h)
      else if \<not> BootSequencePolicyReport.valid (CheckGa102BootSequencePolicy manifest s expectations) \<or>
              length (phases s) \<le> nextPhaseIndex attempt
         then Some (out, attempt, h)
      else let i = nextPhaseIndex attempt; p = phases s ! i;
               out = out\<lparr>phaseIndex := i, phase := PhasePlan.phase p\<rparr>
      in if PhasePlan.actions p \<noteq> [] \<and> \<not> writesEnabled
         then Some (out\<lparr>status := kIOReturnNotPermitted\<rparr>, attempt, h)
      else let (succeeded, started, out, h) =
             (if PhasePlan.actions p \<noteq> []
              then let (exec, h) = RTXMacExecuteFalconPlan bar0 bar0Size
                         \<lparr>Plan.valid = True, actions = PhasePlan.actions p\<rparr> writesEnabled maxWait h;
                       out = out\<lparr>waitMilliseconds := waitMilliseconds out + totalWaitMilliseconds exec\<rparr>
                   in if RTXMacFalconExecutionResult.status exec \<noteq> kIOReturnSuccess
                      then (False, RTXMacFalconExecutionResult.hardwareActionsStarted exec,
                            out\<lparr>status := RTXMacFalconExecutionResult.status exec\<rparr>, h)
                      else (True, RTXMacFalconExecutionResult.hardwareActionsStarted exec, out, h)
              else (True, False, out, h))
      in do {
        (succeeded, out, h) \<leftarrow>
          (if succeeded then do {
             (kr, waited, h) \<leftarrow> ExecuteChecks svc (checks p) bar0 bar0Size sharedQueueDma maxWait (waitMilliseconds out) h;
             let out = out\<lparr>waitMilliseconds := waited\<rparr>;
             Some (if kr \<noteq> kIOReturnSuccess then (False, out\<lparr>status := kr\<rparr>, h) else (True, out, h)) }
           else Some (succeeded, out, h));
        let out = out\<lparr>hardwareActionsStarted := started, checkPassed := succeeded\<rparr>;
        let out = (if succeeded then out\<lparr>status := kIOReturnSuccess\<rparr> else out);
        let (event, attempt) = RecordBootPhaseResult attempt s i succeeded started;
        Some (if event \<noteq> Attempt.Ok then (out\<lparr>status := kIOReturnNotPermitted\<rparr>, attempt, h)
              else (out\<lparr>attemptUpdated := True\<rparr>, attempt, h)) })"

section \<open>Checks only read and sleep\<close>

text \<open>What reading and waiting adds to the history: no store, and so many milliseconds.\<close>

definition reads_only :: "history \<Rightarrow> nat \<Rightarrow> bool" where
  "reads_only es ms \<longleftrightarrow> stores es = [] \<and> slept es = ms"

lemma reads_only_simps [simp]:
  "reads_only [] 0" "reads_only [Mapped o' n] 0" "reads_only [RegRead off v] 0" "reads_only [Dma d] 0"
  "reads_only [Mapped o' n, RegRead off v] 0" "reads_only [Sleep 1] (Suc 0)"
  by (simp_all add: reads_only_def stores_def)

lemma reads_only_append: "reads_only xs m \<Longrightarrow> reads_only ys n \<Longrightarrow> reads_only (xs @ ys) (m + n)"
  by (simp add: reads_only_def)

lemma stores_Nil_ok: "stores es = [] \<Longrightarrow> stores_ok P prev es"
  by (induction P prev es rule: stores_ok.induct) (auto simp: stores_def)

lemma ReadBar0U32_cases:
  assumes "off \<le> 0xFFFFFFFF"
  shows "\<exists>kr v es. ReadBar0U32 bar0 bar0Size off h = Some (kr, v, h @ es) \<and> reads_only es 0 \<and>
    (kr = kIOReturnSuccess \<longrightarrow> RegRead (ucast off) v \<in> set es)"
proof (cases bar0)
  case None
  then show ?thesis by (auto simp: ReadBar0U32_def)
next
  case (Some dev)
  have small: "\<not> 0xFFFFFFFF < off" using assms by simp
  show ?thesis
    unfolding ReadBar0U32_def Some option.case Let_def if_not_P [OF small]
    by (auto simp: reg_read_def Let_def split: prod.split)
qed

lemma FindChunk_loop_total: "n \<le> List.length cs \<Longrightarrow> \<exists>r. FindChunk_loop cs n off k = Some r"
  by (induction cs n off k rule: FindChunk_loop.induct) (auto simp: Let_def)

lemma RTXMacReadPreparedDmaU32_cases:
  assumes "prepared_buffer b"
  shows "\<exists>kr v es. RTXMacReadPreparedDmaU32 svc (Some b) off h = Some (kr, v, h @ es) \<and> reads_only es 0"
proof -
  from assms obtain m cs where m: "memory b = Some m" "RTXMacPreparedDmaBuffer.chunks b = Some cs"
    "List.length cs = unat (RTXMacPreparedDmaBuffer.chunkCount b)"
    by (auto simp: prepared_buffer_def)
  then have "\<exists>found. FindChunk (Some b) off 4 = Some found"
    using FindChunk_loop_total [of "unat (RTXMacPreparedDmaBuffer.chunkCount b)" cs off 4] by (simp add: FindChunk_def)
  then obtain found where "FindChunk (Some b) off 4 = Some found" ..
  then show ?thesis
    using m by (cases found) (auto simp: RTXMacReadPreparedDmaU32_def Let_def split: prod.split)
qed

text \<open>A check the model can run: a register below 4 GiB, or a word of a prepared buffer.\<close>

definition runnable :: "RTXMacPreparedDmaBuffer option \<Rightarrow> Check \<Rightarrow> bool" where
  "runnable shared c \<longleftrightarrow> (case shared of None \<Rightarrow> True | Some b \<Rightarrow> prepared_buffer b) \<and>
     (Check.kind c \<noteq> SharedMemoryU32Equal \<longrightarrow> addressOrOffset c \<le> 0xFFFFFFFF)"

text \<open>A register check was seen to hold.\<close>

definition observed :: "Check \<Rightarrow> history \<Rightarrow> bool" where
  "observed c es \<longleftrightarrow> Check.kind c = SharedMemoryU32Equal \<or>
     (\<exists>v. RegRead (ucast (addressOrOffset c)) v \<in> set es \<and> CheckSatisfied c v)"

lemma observed_append: "observed c xs \<or> observed c ys \<Longrightarrow> observed c (xs @ ys)"
  by (auto simp: observed_def)

lemma ReadCheck_cases:
  assumes "runnable shared c"
  shows "\<exists>kr v es. ReadCheck svc c bar0 bar0Size shared h = Some (kr, v, h @ es) \<and> reads_only es 0 \<and>
    (kr = kIOReturnSuccess \<longrightarrow> CheckSatisfied c v \<longrightarrow> observed c es)"
proof (cases "Check.kind c = SharedMemoryU32Equal")
  case True
  then show ?thesis
    using assms RTXMacReadPreparedDmaU32_cases [of _ svc "addressOrOffset c" h]
    by (cases shared) (auto simp: ReadCheck_def runnable_def observed_def)
next
  case False
  then obtain kr v es where "ReadBar0U32 bar0 bar0Size (addressOrOffset c) h = Some (kr, v, h @ es)" "reads_only es 0"
    "kr = kIOReturnSuccess \<longrightarrow> RegRead (ucast (addressOrOffset c)) v \<in> set es"
    using assms ReadBar0U32_cases [of "addressOrOffset c" bar0 bar0Size h] by (auto simp: runnable_def)
  then show ?thesis using False by (auto simp: ReadCheck_def observed_def)
qed

lemma ExecuteCheck_loop_cases:
  "runnable shared c \<Longrightarrow> waited \<le> maxWait \<Longrightarrow>
    \<exists>kr waited' es ms. ExecuteCheck_loop svc c bar0 bar0Size shared maxWait waited h = Some (kr, waited', h @ es) \<and>
      reads_only es ms \<and> unat waited' = unat waited + ms \<and> waited' \<le> maxWait \<and>
      (kr = kIOReturnSuccess \<longrightarrow> observed c es)"
proof (induction svc c bar0 bar0Size shared maxWait waited h rule: ExecuteCheck_loop.induct)
  case (1 svc c bar0 bar0Size shared maxWait waited h)
  obtain kr v es where r: "ReadCheck svc c bar0 bar0Size shared h = Some (kr, v, h @ es)" "reads_only es 0"
    "kr = kIOReturnSuccess \<longrightarrow> CheckSatisfied c v \<longrightarrow> observed c es"
    using ReadCheck_cases [OF 1(2), of svc bar0 bar0Size h] by auto
  show ?case
  proof (cases "kr \<noteq> kIOReturnSuccess \<or> CheckSatisfied c v \<or> maxWait \<le> waited")
    case True
    then show ?thesis using r 1(3) by (subst ExecuteCheck_loop.simps) (auto intro: exI [of _ 0])
  next
    case False
    then have more: "waited < maxWait" by (simp add: not_le)
    then have inc: "unat (waited + 1) = Suc (unat waited)" by (rule unat_inc)
    have le: "waited + 1 \<le> maxWait" using inc more by (simp add: word_le_nat_alt word_less_nat_alt)
    obtain kr2 w2 es2 ms where s: "ExecuteCheck_loop svc c bar0 bar0Size shared maxWait (waited + 1) (h @ es @ [Sleep 1]) =
        Some (kr2, w2, h @ es @ [Sleep 1] @ es2)" "reads_only es2 ms" "unat w2 = unat (waited + 1) + ms" "w2 \<le> maxWait"
      "kr2 = kIOReturnSuccess \<longrightarrow> observed c es2"
      using 1(1) [OF r(1) refl refl] False 1(2) le by auto
    have "ExecuteCheck_loop svc c bar0 bar0Size shared maxWait waited h = Some (kr2, w2, h @ es @ [Sleep 1] @ es2)"
      using False r(1) s(1) by (subst ExecuteCheck_loop.simps) simp
    moreover have "reads_only (es @ [Sleep 1] @ es2) (0 + (1 + ms))"
      using r(2) s(2) by (intro reads_only_append) simp_all
    ultimately show ?thesis using s inc
      by (intro exI [of _ kr2] exI [of _ w2] exI [of _ "es @ [Sleep 1] @ es2"] exI [of _ "Suc ms"])
        (auto simp: observed_def)
  qed
qed

lemma ExecuteCheck_cases:
  assumes "runnable shared c"
  shows "\<exists>kr waited es. ExecuteCheck svc c bar0 bar0Size shared maxWait h = Some (kr, waited, h @ es) \<and>
    reads_only es (unat waited) \<and> waited \<le> maxWait \<and> (kr = kIOReturnSuccess \<longrightarrow> observed c es)"
  using ExecuteCheck_loop_cases [OF assms, of 0 maxWait svc bar0 bar0Size h]
  by (auto simp: ExecuteCheck_def)

lemma ExecuteChecks_cases:
  "\<forall>c \<in> set cs. runnable shared c \<Longrightarrow> waited \<le> maxWait \<Longrightarrow>
    \<exists>kr waited' es ms. ExecuteChecks svc cs bar0 bar0Size shared maxWait waited h = Some (kr, waited', h @ es) \<and>
      reads_only es ms \<and> unat waited' = unat waited + ms \<and> waited' \<le> maxWait \<and>
      (kr = kIOReturnSuccess \<longrightarrow> (\<forall>c \<in> set cs. observed c es))"
proof (induction cs arbitrary: waited h)
  case (Cons c cs)
  show ?case
  proof (cases "maxWait \<le> waited")
    case True
    then show ?thesis using Cons.prems(2) by (auto intro: exI [of _ 0])
  next
    case False
    obtain kr w es where c: "ExecuteCheck svc c bar0 bar0Size shared (maxWait - waited) h = Some (kr, w, h @ es)"
      "reads_only es (unat w)" "w \<le> maxWait - waited" "kr = kIOReturnSuccess \<longrightarrow> observed c es"
      using ExecuteCheck_cases [of shared c svc bar0 bar0Size "maxWait - waited" h] Cons.prems(1) by auto
    have fit: "unat w \<le> unat maxWait - unat waited"
      using c(3) Cons.prems(2) by (simp add: word_le_nat_alt unat_sub)
    have "unat waited \<le> unat maxWait" using Cons.prems(2) by (simp add: word_le_nat_alt)
    then have sum: "unat (waited + w) = unat waited + unat w"
      using fit unat_lt(4) [of maxWait] by (intro unat_add_nowrap) simp_all
    then have le: "waited + w \<le> maxWait"
      using fit \<open>unat waited \<le> unat maxWait\<close> by (simp add: word_le_nat_alt)
    show ?thesis
    proof (cases "kr = kIOReturnSuccess")
      case True
      obtain kr2 w2 es2 ms where s: "ExecuteChecks svc cs bar0 bar0Size shared maxWait (waited + w) (h @ es) =
          Some (kr2, w2, (h @ es) @ es2)" "reads_only es2 ms" "unat w2 = unat (waited + w) + ms" "w2 \<le> maxWait"
        "kr2 = kIOReturnSuccess \<longrightarrow> (\<forall>c \<in> set cs. observed c es2)"
        using Cons.IH [OF _ le, of "h @ es"] Cons.prems(1) by auto
      show ?thesis using False True c s sum reads_only_append [OF c(2) s(2)] observed_append
        by (intro exI [of _ kr2] exI [of _ w2] exI [of _ "es @ es2"] exI [of _ "unat w + ms"]) auto
    next
      case err: False
      then show ?thesis using False c sum le
        by (intro exI [of _ kr] exI [of _ "waited + w"] exI [of _ es] exI [of _ "unat w"]) auto
    qed
  qed
qed (auto intro: exI [of _ 0])

section \<open>One phase\<close>

text \<open>The checks of an audited sequence are runnable.\<close>

lemma audited_checks_runnable:
  assumes "BootSequencePolicyReport.valid (CheckGa102BootSequencePolicy m s e)"
    and "case shared of None \<Rightarrow> True | Some b \<Rightarrow> prepared_buffer b" and "i < length (phases s)"
  shows "\<forall>c \<in> set (checks (phases s ! i)). runnable shared c"
proof -
  have small: "(ucast (x :: u32) :: u64) \<le> 0xFFFFFFFF" for x
    using unat_lt(3) [of x] by (simp add: word_le_nat_alt)
  obtain as1 as2 as4 as6 as7 l v st where "phases s = boot_phases l v st as1 as2 as4 as6 as7"
    using assms(1) unfolding audit_iff audit_phases by blast
  then have "\<forall>p \<in> set (phases s). \<forall>c \<in> set (checks p). runnable shared c"
    using assms(2) by (simp add: boot_phases_def runnable_def small)
  then show ?thesis using assms(3) by (meson nth_mem)
qed

text \<open>Recording the result of the phase that is next: only a success without its stores is refused.\<close>

lemma record_phase:
  assumes rec: "RecordBootPhaseResult a s (nextPhaseIndex a) succeeded
      (PhasePlan.actions (phases s ! nextPhaseIndex a) \<noteq> [] \<and> started) = (event, a')"
    and ok: "state a \<in> {Ready, Running}" "nextPhaseIndex a < length (phases s)" and "audited s" and "attempt_inv a"
  shows "(event \<noteq> Attempt.Ok \<longrightarrow> a' = a \<and> succeeded \<and> \<not> started) \<and>
    (event = Attempt.Ok \<longrightarrow> attempt_step s a a' \<and> (succeeded \<longrightarrow> nextPhaseIndex a' = Suc (nextPhaseIndex a)) \<and>
      (PhasePlan.actions (phases s ! nextPhaseIndex a) \<noteq> [] \<and> started \<longrightarrow> firstResetCommitCrossed a'))"
proof -
  let ?i = "nextPhaseIndex a"
  have crossed: "PhasePlan.actions (phases s ! ?i) \<noteq> [] \<Longrightarrow>
      PhasePlan.phase (phases s ! ?i) = ResetGspForFrts \<or> firstResetCommitCrossed a"
    using assms(4,5) ok unfolding audited_def attempt_inv_def
    by (cases "?i = 0"; cases "?i = 1") auto
  have valid: "BootSequence.valid s" using assms(4) by (simp add: audited_def)
  show ?thesis
  proof (cases "event = Attempt.Ok")
    case True
    then have "attempt_step s a a'" using rec by (auto intro: phase_result)
    then show ?thesis using True rec crossed valid ok
      by (auto simp: RecordBootPhaseResult_def Let_def split: if_split_asm)
  next
    case False
    then show ?thesis using rec valid ok by (auto simp: RecordBootPhaseResult_def Let_def split: if_split_asm)
  qed
qed

lemma RTXMacExecuteNextBootPhase_cases:
  assumes shared: "case shared of None \<Rightarrow> True | Some b \<Rightarrow> prepared_buffer b"
    and inv: "attempt_inv a"
  shows "\<exists>out a' new. RTXMacExecuteNextBootPhase svc a m s e bar0 bar0Size shared writesEnabled maxWait h =
      Some (out, a', h @ new) \<and>
    stores_ok store_allowed (last_event None h) new \<and>
    slept new = unat (waitMilliseconds out) \<and> slept new \<le> unat maxWait \<and>
    (new \<noteq> [] \<longrightarrow> state a \<in> {Ready, Running} \<and> BootSequencePolicyReport.valid (CheckGa102BootSequencePolicy m s e)) \<and>
    (stores new \<noteq> [] \<longrightarrow> writesEnabled \<and> attemptUpdated out \<and> firstResetCommitCrossed a') \<and>
    (if attemptUpdated out then attempt_step s a a' else a' = a) \<and>
    (status out = kIOReturnSuccess \<longrightarrow> attemptUpdated out \<and> nextPhaseIndex a' = Suc (nextPhaseIndex a) \<and>
      (\<forall>c \<in> set (checks (phases s ! nextPhaseIndex a)). observed c new))"
proof -
  let ?i = "nextPhaseIndex a"
  let ?p = "phases s ! ?i"
  let ?as = "PhasePlan.actions ?p"
  let ?out0 = "\<lparr>status = kIOReturnNotPermitted, phaseIndex = ?i, phase = PrefillBootstrapRpcRecords,
    hardwareActionsStarted = False, checkPassed = False, attemptUpdated = False, waitMilliseconds = 0\<rparr>"
  let ?run = "RTXMacExecuteNextBootPhase svc a m s e bar0 bar0Size shared writesEnabled maxWait h"
  let ?g1 = "(state a \<noteq> Ready \<and> state a \<noteq> Running) \<or> bar0 = None \<or> bar0Size = 0 \<or> maxWait = 0"
  let ?valid = "BootSequencePolicyReport.valid (CheckGa102BootSequencePolicy m s e)"
  let ?g2 = "\<not> ?valid \<or> length (phases s) \<le> ?i"
  let ?g3 = "?as \<noteq> [] \<and> \<not> writesEnabled"
  show ?thesis
  proof (cases "?g1 \<or> ?g2 \<or> ?g3")
    case True
    then have "\<exists>out. ?run = Some (out, a, h) \<and> status out = kIOReturnNotPermitted \<and> \<not> attemptUpdated out \<and>
        waitMilliseconds out = 0"
    proof (cases "?g1 \<or> ?g2")
      case True
      then have "?run = Some (?out0, a, h)" unfolding RTXMacExecuteNextBootPhase_def Let_def by argo
      then show ?thesis by simp
    next
      case False
      then have g1: "\<not> ?g1" and g2: "\<not> ?g2" by blast+
      have g3: ?g3 using True False by blast
      show ?thesis
        unfolding RTXMacExecuteNextBootPhase_def Let_def if_not_P [OF g1] if_not_P [OF g2] if_P [OF g3] by simp
    qed
    then obtain out where "?run = Some (out, a, h)" "status out = kIOReturnNotPermitted" "\<not> attemptUpdated out"
      "waitMilliseconds out = 0" by blast
    then show ?thesis by (intro exI [of _ out] exI [of _ a] exI [of _ "[]"]) simp
  next
    case False
    then have g1: "\<not> ?g1" and g2: "\<not> ?g2" and g3: "\<not> ?g3" by blast+
    obtain exec h1 where ex: "RTXMacExecuteFalconPlan bar0 bar0Size \<lparr>Plan.valid = True, actions = ?as\<rparr> writesEnabled maxWait h =
        (exec, h1)" by force
    let ?ok = "?as = [] \<or> RTXMacFalconExecutionResult.status exec = kIOReturnSuccess"
    let ?started = "?as \<noteq> [] \<and> RTXMacFalconExecutionResult.hardwareActionsStarted exec"
    let ?wait = "if ?as = [] then 0 else totalWaitMilliseconds exec"
    define h2 where "h2 = (if ?as = [] then h else h1)"
    obtain es where es: "h2 = h @ es" "stores_ok store_allowed (last_event None h) es"
      "slept es = unat ?wait" "slept es \<le> unat maxWait" "stores es \<noteq> [] \<longrightarrow> ?started \<and> writesEnabled"
      using RTXMacExecuteFalconPlan_cases [OF ex] RTXMacExecuteFalconPlan_stores [OF ex] g3
      by (cases "?as = []") (auto simp: h2_def)
    let ?mid = "if ?ok then ExecuteChecks svc (checks ?p) bar0 bar0Size shared maxWait ?wait h2
      else Some (RTXMacFalconExecutionResult.status exec, ?wait, h2)"
    let ?fin = "\<lambda>kr waited h3. case RecordBootPhaseResult a s ?i (kr = kIOReturnSuccess) ?started of (event, a') \<Rightarrow>
      Some (\<lparr>status = (if event = Attempt.Ok then kr else kIOReturnNotPermitted), phaseIndex = ?i,
        phase = PhasePlan.phase ?p, hardwareActionsStarted = ?started, checkPassed = (kr = kIOReturnSuccess),
        attemptUpdated = (event = Attempt.Ok), waitMilliseconds = waited\<rparr>, a', h3)"
    have eq: "?run = (case ?mid of None \<Rightarrow> None | Some (kr, waited, h3) \<Rightarrow> ?fin kr waited h3)"
      unfolding RTXMacExecuteNextBootPhase_def Let_def if_not_P [OF g1] if_not_P [OF g2] if_not_P [OF g3]
      by (cases "?as = []"; cases "RTXMacFalconExecutionResult.status exec = kIOReturnSuccess")
        (auto simp: ex h2_def split: option.split prod.split)
    obtain kr waited es2 ms where mid: "?mid = Some (kr, waited, h2 @ es2)" "reads_only es2 ms"
      "unat waited = unat ?wait + ms" "waited \<le> maxWait"
      "kr = kIOReturnSuccess \<longrightarrow> (\<forall>c \<in> set (checks ?p). observed c es2)"
    proof (cases ?ok)
      case True
      have "\<forall>c \<in> set (checks ?p). runnable shared c"
        using audited_checks_runnable [OF _ shared, of m s e ?i] g2 by simp
      moreover have "?wait \<le> maxWait" using es(3,4) by (simp add: word_le_nat_alt)
      ultimately show ?thesis
        using ExecuteChecks_cases [of "checks ?p" shared ?wait maxWait svc bar0 bar0Size h2] if_P [OF True] that by metis
    next
      case False
      have "?wait \<le> maxWait" using es(3,4) by (simp add: word_le_nat_alt)
      with False show ?thesis by (intro that [of "RTXMacFalconExecutionResult.status exec" ?wait "[]" 0]) auto
    qed
    obtain event a' where rec: "RecordBootPhaseResult a s ?i (kr = kIOReturnSuccess) ?started = (event, a')" by force
    let ?new = "es @ es2"
    have run: "?run = Some (\<lparr>status = (if event = Attempt.Ok then kr else kIOReturnNotPermitted), phaseIndex = ?i,
        phase = PhasePlan.phase ?p, hardwareActionsStarted = ?started, checkPassed = (kr = kIOReturnSuccess),
        attemptUpdated = (event = Attempt.Ok), waitMilliseconds = waited\<rparr>, a', h @ ?new)"
      unfolding eq mid(1) using es(1) rec by simp
    have valid: ?valid "state a \<in> {Ready, Running}" "?i < length (phases s)" using g1 g2 by auto
    have audited: "audited s" using valid(1) by (rule accepted_audited)
    note r = record_phase [OF rec valid(2,3) audited inv]
    have "slept ?new = unat waited" "stores ?new = stores es" "stores_ok store_allowed (last_event None h) ?new"
      using es(2,3) mid(2,3) stores_Nil_ok by (auto simp: reads_only_def)
    moreover have "unat waited \<le> unat maxWait" using mid(4) by (simp add: word_le_nat_alt)
    moreover have "\<forall>c \<in> set (checks ?p). observed c ?new" if "kr = kIOReturnSuccess"
      using mid(5) that observed_append by blast
    ultimately show ?thesis unfolding run using valid r es(5) by auto
  qed
qed

text \<open>
  C2. Running the next boot phase is safe on every device: it always returns; every register store
  is one the write allow-list permits; the time slept is the reported one and at most the budget;
  nothing is touched unless the attempt is runnable and the whole sequence passes the audit again,
  and nothing is stored without the separate write gate. A phase that stored anything is always
  recorded in the attempt, which from then on has crossed the first reset; an attempt changes only by
  an event of its state machine; and success means that the attempt moved to the next phase after
  every register check of this one was read and held.
\<close>

theorem RTXMacExecuteNextBootPhase_safe:
  assumes "case shared of None \<Rightarrow> True | Some b \<Rightarrow> prepared_buffer b"
    and "attempt_inv a"
  shows "\<exists>out a' new. RTXMacExecuteNextBootPhase svc a m s e bar0 bar0Size shared writesEnabled maxWait h =
      Some (out, a', h @ new) \<and>
    stores_ok store_allowed (last_event None h) new \<and>
    slept new = unat (waitMilliseconds out) \<and> slept new \<le> unat maxWait \<and>
    (new \<noteq> [] \<longrightarrow> state a \<in> {Ready, Running} \<and> BootSequencePolicyReport.valid (CheckGa102BootSequencePolicy m s e)) \<and>
    (stores new \<noteq> [] \<longrightarrow> writesEnabled \<and> attemptUpdated out \<and> firstResetCommitCrossed a') \<and>
    (if attemptUpdated out then attempt_step s a a' else a' = a) \<and>
    (status out = kIOReturnSuccess \<longrightarrow> attemptUpdated out \<and> nextPhaseIndex a' = Suc (nextPhaseIndex a) \<and>
      (\<forall>c \<in> set (checks (phases s ! nextPhaseIndex a)). observed c new))"
  using assms by (rule RTXMacExecuteNextBootPhase_cases)

text \<open>A device whose registers are all ones, and an attempt that is to verify WPR2.\<close>

definition ones_device :: Aperture where
  "ones_device = \<lparr>CreateMapping = \<lambda>h o1 n. (kIOReturnSuccess, Some 0x10000), load = \<lambda>h off. 0xFFFFFFFF\<rparr>"

definition verifying_attempt :: "BootAttempt \<Rightarrow> BootAttempt" where
  "verifying_attempt a = a\<lparr>state := Running, nextPhaseIndex := 3, firstResetCommitCrossed := True\<rparr>"

theorem RTXMacExecuteNextBootPhase_safe_witness:
  "\<exists>s out a' new. RTXMacExecuteNextBootPhase flat_services
      (verifying_attempt (BeginBootAttempt (PlanBootManifest sample_manifest_inputs) s sample_expectations sample_prerequisites))
      (PlanBootManifest sample_manifest_inputs) s sample_expectations (Some ones_device) 0x1000000 None False 5 [] =
      Some (out, a', new) \<and> status out = kIOReturnSuccess \<and> nextPhaseIndex a' = 4 \<and> stores new = [] \<and> slept new \<le> 5"
proof -
  let ?m = "PlanBootManifest sample_manifest_inputs"
  obtain s where s: "BootSequencePolicyReport.valid (CheckGa102BootSequencePolicy ?m s sample_expectations)"
    using sample_accepted by blast
  let ?a = "verifying_attempt (BeginBootAttempt ?m s sample_expectations sample_prerequisites)"
  let ?run = "RTXMacExecuteNextBootPhase flat_services ?a ?m s sample_expectations (Some ones_device) 0x1000000 None False 5 []"
  obtain as1 as2 as4 as6 as7 l v st where p: "phases s = boot_phases l v st as1 as2 as4 as6 as7" "BootSequence.valid s"
    using s unfolding audit_iff audit_phases by blast
  have phase3: "length (phases s) = 12" "phases s ! 3 = phase_plan VerifyWpr2 [] [check MmioNonZero (ucast kWpr2Hi) 0xFFFFFFFF 0]"
    by (simp_all add: p(1) boot_phases_def)
  have inv: "attempt_inv ?a" by (simp add: attempt_inv_def verifying_attempt_def)
  obtain out a' new where run: "?run = Some (out, a', new)" "slept new \<le> 5"
    "stores new \<noteq> [] \<longrightarrow> False" "status out = kIOReturnSuccess \<longrightarrow> nextPhaseIndex a' = 4"
    using RTXMacExecuteNextBootPhase_safe [of None ?a flat_services ?m s sample_expectations "Some ones_device" "0x1000000" False 5 "[]"]
      inv by (auto simp: verifying_attempt_def)
  have "ReadBar0U32 (Some ones_device) 0x1000000 (ucast kWpr2Hi) [] =
      Some (kIOReturnSuccess, 0xFFFFFFFF, [Mapped 0x1FA000 0x1000, RegRead 0x1FA828 0xFFFFFFFF])"
    by (simp add: ReadBar0U32_def ones_device_def kWpr2Hi_def kPageBytes_def Let_def reg_read_def)
  then have "ExecuteChecks flat_services [check MmioNonZero (ucast kWpr2Hi) 0xFFFFFFFF 0] (Some ones_device) 0x1000000 None 5 0 [] =
      Some (kIOReturnSuccess, 0, [Mapped 0x1FA000 0x1000, RegRead 0x1FA828 0xFFFFFFFF])"
    by (simp add: ExecuteCheck_def ReadCheck_def CheckSatisfied_def)
  moreover obtain b where "RecordBootPhaseResult ?a s 3 True False = (Attempt.Ok, b)"
    using p(2) phase3 by (simp add: RecordBootPhaseResult_def verifying_attempt_def Let_def)
  moreover have "nextPhaseIndex ?a = 3" "state ?a = Running" by (simp_all add: verifying_attempt_def)
  ultimately have "\<exists>out b h. ?run = Some (out, b, h) \<and> status out = kIOReturnSuccess"
    using s phase3 unfolding RTXMacExecuteNextBootPhase_def by (simp add: Let_def del: ExecuteChecks.simps)
  with run show ?thesis by auto
qed

end
