(* ===== verification/Fips180.thy ===== *)
theory Fips180
  imports Main "HOL-Library.Word"
begin

unbundle bit_operations_syntax

text \<open>
  SHA-256 as FIPS 180-4 states it, written without any definition of the program: this theory imports
  the word library only, and \<open>Sha256\<close> compares the code with it. The constants are those of the
  standard's text (sections 4.2.2 and 5.3.3): the first 32 fraction bits of the cube roots of the first
  64 primes and of the square roots of the first 8. The published digest of the message \<open>abc\<close> is
  checked in \<open>Sha256\<close>.
\<close>

section \<open>Constants\<close>

text \<open>The integer part of a root, and the fraction bits of \<open>root k p\<close>: \<open>p\<close> is scaled by \<open>2 ^ (32 * k)\<close>.\<close>

definition floor_root :: "nat \<Rightarrow> nat \<Rightarrow> nat" where
  "floor_root k n = (GREATEST r. r ^ k \<le> n)"

definition fraction_bits :: "nat \<Rightarrow> nat \<Rightarrow> 32 word" where
  "fraction_bits k p = of_nat (floor_root k (p * 2 ^ (32 * k)))"

definition primes_below :: "nat \<Rightarrow> nat list" where
  "primes_below n = filter (\<lambda>p. \<forall>d \<in> set [2 ..< p]. \<not> d dvd p) [2 ..< n]"

definition fips_K :: "32 word list" where
  "fips_K = map (fraction_bits 3) (primes_below 312)"

definition fips_H0 :: "32 word list" where
  "fips_H0 = map (fraction_bits 2) (primes_below 20)"

section \<open>Functions\<close>

definition fips_Ch :: "32 word \<Rightarrow> 32 word \<Rightarrow> 32 word \<Rightarrow> 32 word" where
  "fips_Ch x y z = (x AND y) XOR (NOT x AND z)"

definition fips_Maj :: "32 word \<Rightarrow> 32 word \<Rightarrow> 32 word \<Rightarrow> 32 word" where
  "fips_Maj x y z = (x AND y) XOR (x AND z) XOR (y AND z)"

definition fips_Sigma0 :: "32 word \<Rightarrow> 32 word" where
  "fips_Sigma0 x = word_rotr 2 x XOR word_rotr 13 x XOR word_rotr 22 x"

definition fips_Sigma1 :: "32 word \<Rightarrow> 32 word" where
  "fips_Sigma1 x = word_rotr 6 x XOR word_rotr 11 x XOR word_rotr 25 x"

definition fips_sigma0 :: "32 word \<Rightarrow> 32 word" where
  "fips_sigma0 x = word_rotr 7 x XOR word_rotr 18 x XOR drop_bit 3 x"

definition fips_sigma1 :: "32 word \<Rightarrow> 32 word" where
  "fips_sigma1 x = word_rotr 17 x XOR word_rotr 19 x XOR drop_bit 10 x"

section \<open>Message\<close>

text \<open>The \<open>n\<close> bytes of a word, most significant first, and the word that four bytes of a block form.\<close>

definition octets :: "nat \<Rightarrow> 'a::len word \<Rightarrow> 8 word list" where
  "octets n x = map (\<lambda>j. ucast (drop_bit (8 * (n - 1 - j)) x)) [0 ..< n]"

definition block_word :: "8 word list \<Rightarrow> nat \<Rightarrow> 32 word" where
  "block_word b t = push_bit 24 (ucast (b ! (4 * t))) OR push_bit 16 (ucast (b ! (4 * t + 1))) OR
     push_bit 8 (ucast (b ! (4 * t + 2))) OR ucast (b ! (4 * t + 3))"

text \<open>A one bit, the fewest zero bits that leave room for the length in whole blocks, and the length in
  bits; the blocks of 64 bytes.\<close>

definition sha256_pad :: "8 word list \<Rightarrow> 8 word list" where
  "sha256_pad m = m @ [0x80] @ replicate (LEAST z. (length m + 1 + z) mod 64 = 56) 0 @
     octets 8 (of_nat (8 * length m) :: 64 word)"

definition blocks :: "8 word list \<Rightarrow> 8 word list list" where
  "blocks m = map (\<lambda>i. take 64 (drop (64 * i) m)) [0 ..< length m div 64]"

section \<open>Digest\<close>

fun schedule :: "8 word list \<Rightarrow> nat \<Rightarrow> 32 word" where
  "schedule b t = (if t < 16 then block_word b t
     else fips_sigma1 (schedule b (t - 2)) + schedule b (t - 7) + fips_sigma0 (schedule b (t - 15)) + schedule b (t - 16))"

declare schedule.simps [simp del]

text \<open>One step on the working variables \<open>a\<close> to \<open>h\<close>, kept as a list, and one block.\<close>

definition fips_step :: "8 word list \<Rightarrow> nat \<Rightarrow> 32 word list \<Rightarrow> 32 word list" where
  "fips_step b t v =
    (let T1 = v ! 7 + fips_Sigma1 (v ! 4) + fips_Ch (v ! 4) (v ! 5) (v ! 6) + fips_K ! t + schedule b t;
         T2 = fips_Sigma0 (v ! 0) + fips_Maj (v ! 0) (v ! 1) (v ! 2)
     in [T1 + T2, v ! 0, v ! 1, v ! 2, v ! 3 + T1, v ! 4, v ! 5, v ! 6])"

definition compress :: "8 word list \<Rightarrow> 32 word list \<Rightarrow> 32 word list" where
  "compress b H = map2 (+) H (fold (fips_step b) [0 ..< 64] H)"

definition sha256 :: "8 word list \<Rightarrow> 8 word list" where
  "sha256 m = concat (map (octets 4) (fold compress (blocks (sha256_pad m)) fips_H0))"

section \<open>The values of the constants\<close>

lemma floor_rootI: "0 < k \<Longrightarrow> r ^ k \<le> n \<Longrightarrow> n < Suc r ^ k \<Longrightarrow> floor_root k n = r"
  unfolding floor_root_def
proof (rule Greatest_equality)
  fix s assume "n < Suc r ^ k" "s ^ k \<le> n"
  then have "s ^ k < Suc r ^ k" by simp
  then show "s \<le> r" using power_less_imp_less_base [of s k "Suc r"] by simp
qed

lemma fraction_bitsI:
  "0 < k \<Longrightarrow> r ^ k \<le> p * 2 ^ (32 * k) \<Longrightarrow> p * 2 ^ (32 * k) < (r + 1) ^ k \<Longrightarrow> fraction_bits k p = of_nat r"
  by (simp add: fraction_bits_def floor_rootI)

lemma map_fraction_bits:
  assumes "0 < k"
    and "list_all2 (\<lambda>p r. r ^ k \<le> p * 2 ^ (32 * k) \<and> p * 2 ^ (32 * k) < (r + 1) ^ k) ps rs"
  shows "map (fraction_bits k) ps = map of_nat rs"
  using assms(2) by (induction rule: list_all2_induct) (auto simp: fraction_bitsI [OF assms(1)])

text \<open>A number below \<open>19 * 19\<close> that has a proper divisor has one below 19.\<close>

lemma divisor_below_19:
  assumes "p < 361" and "d dvd p" and "2 \<le> d" and "d < p"
  shows "\<exists>d' \<in> {2 ..< 19}. d' < p \<and> d' dvd (p :: nat)"
proof -
  from assms(2) obtain e where e: "p = d * e" by (rule dvdE)
  have e2: "2 \<le> e" using e assms by (cases e; cases "e - 1") auto
  show ?thesis
  proof (cases "d < 19")
    case False
    then have "19 * e \<le> p" using e by simp
    then have "e < 19" "e < p" using assms(1) e2 by linarith+
    then show ?thesis using e e2 by (intro bexI [of _ e]) auto
  qed (use assms in auto)
qed

definition small_test :: "nat \<Rightarrow> bool" where
  "small_test p \<longleftrightarrow> list_all (\<lambda>d. d < p \<longrightarrow> \<not> d dvd p) [2, 3, 4, 5, 6, 7, 8, 9, 10, 11, 12, 13, 14, 15, 16, 17, 18]"

lemma primes_below_eq: "n \<le> 361 \<Longrightarrow> primes_below n = filter small_test [2 ..< n]"
proof -
  assume n: "n \<le> 361"
  have l: "[2, 3, 4, 5, 6, 7, 8, 9, 10, 11, 12, 13, 14, 15, 16, 17, 18] = [2 ..< 19 :: nat]"
    by (simp add: upt_rec_numeral)
  have "(\<forall>d \<in> set [2 ..< p]. \<not> d dvd p) \<longleftrightarrow> list_all (\<lambda>d. d < p \<longrightarrow> \<not> d dvd p) [2 ..< 19]"
    if "p \<in> set [2 ..< n]" for p
  proof -
    have "p < 361" using n that by simp
    note small = divisor_below_19 [OF this]
    show ?thesis by (auto simp only: list_all_iff set_upt atLeastLessThan_iff dest: small)
  qed
  then show ?thesis unfolding primes_below_def small_test_def l by (rule filter_cong [OF refl])
qed

lemma primes_below_20: "primes_below 20 = [2, 3, 5, 7, 11, 13, 17, 19]"
  by (simp add: primes_below_eq small_test_def upt_rec_numeral)

text \<open>The first 64 primes, by ranges.\<close>

lemma primes_2: "filter small_test [2 ..< 52] = [2, 3, 5, 7, 11, 13, 17, 19, 23, 29, 31, 37, 41, 43, 47]"
  by (simp add: small_test_def upt_rec_numeral)

lemma primes_52: "filter small_test [52 ..< 102] = [53, 59, 61, 67, 71, 73, 79, 83, 89, 97, 101]"
  by (simp add: small_test_def upt_rec_numeral)

lemma primes_102: "filter small_test [102 ..< 152] = [103, 107, 109, 113, 127, 131, 137, 139, 149, 151]"
  by (simp add: small_test_def upt_rec_numeral)

lemma primes_152: "filter small_test [152 ..< 202] = [157, 163, 167, 173, 179, 181, 191, 193, 197, 199]"
  by (simp add: small_test_def upt_rec_numeral)

lemma primes_202: "filter small_test [202 ..< 232] = [211, 223, 227, 229]"
  by (simp add: small_test_def upt_rec_numeral)

lemma primes_232: "filter small_test [232 ..< 262] = [233, 239, 241, 251, 257]"
  by (simp add: small_test_def upt_rec_numeral)

lemma primes_262: "filter small_test [262 ..< 287] = [263, 269, 271, 277, 281, 283]"
  by (simp add: small_test_def upt_rec_numeral)

lemma primes_287: "filter small_test [287 ..< 312] = [293, 307, 311]"
  by (simp add: small_test_def upt_rec_numeral)

lemma primes_below_312: "primes_below 312 = concat
    [[2, 3, 5, 7, 11, 13, 17, 19, 23, 29, 31, 37, 41, 43, 47],
     [53, 59, 61, 67, 71, 73, 79, 83, 89, 97, 101],
     [103, 107, 109, 113, 127, 131, 137, 139, 149, 151],
     [157, 163, 167, 173, 179, 181, 191, 193, 197, 199],
     [211, 223, 227, 229],
     [233, 239, 241, 251, 257],
     [263, 269, 271, 277, 281, 283],
     [293, 307, 311]]"
proof -
  have split: "[i ..< k] = [i ..< j] @ [j ..< k]" if "i \<le> j" "j \<le> k" for i j k :: nat
    using that upt_add_eq_append [of i j "k - j"] by simp
  have "[2 ..< 312 :: nat] = [2 ..< 52] @ [52 ..< 102] @ [102 ..< 152] @ [152 ..< 202] @ [202 ..< 232] @ [232 ..< 262] @ [262 ..< 287] @ [287 ..< 312]"
    using split [of 2 52 312] split [of 52 102 312] split [of 102 152 312] split [of 152 202 312] split [of 202 232 312] split [of 232 262 312] split [of 262 287 312]
    by (simp del: upt_rec_numeral)
  note ranges = this
  have "(312 :: nat) \<le> 361" by simp
  from primes_below_eq [OF this] show ?thesis
    by (simp only: ranges filter_append primes_2 primes_52 primes_102 primes_152 primes_202 primes_232 primes_262 primes_287 concat.simps append_Nil2 append.simps append_assoc)
qed

lemma fips_K_values: "fips_K = map of_nat (concat
    [[0x1428a2f98, 0x171374491, 0x1b5c0fbcf, 0x1e9b5dba5],
     [0x23956c25b, 0x259f111f1, 0x2923f82a4, 0x2ab1c5ed5],
     [0x2d807aa98, 0x312835b01, 0x3243185be, 0x3550c7dc3],
     [0x372be5d74, 0x380deb1fe, 0x39bdc06a7, 0x3c19bf174],
     [0x3e49b69c1, 0x3efbe4786, 0x40fc19dc6, 0x4240ca1cc],
     [0x42de92c6f, 0x44a7484aa, 0x45cb0a9dc, 0x476f988da],
     [0x4983e5152, 0x4a831c66d, 0x4b00327c8, 0x4bf597fc7],
     [0x4c6e00bf3, 0x4d5a79147, 0x506ca6351, 0x514292967],
     [0x527b70a85, 0x52e1b2138, 0x54d2c6dfc, 0x553380d13],
     [0x5650a7354, 0x5766a0abb, 0x581c2c92e, 0x592722c85],
     [0x5a2bfe8a1, 0x5a81a664b, 0x5c24b8b70, 0x5c76c51a3],
     [0x5d192e819, 0x5d6990624, 0x5f40e3585, 0x6106aa070],
     [0x619a4c116, 0x61e376c08, 0x62748774c, 0x634b0bcb5],
     [0x6391c0cb3, 0x64ed8aa4a, 0x65b9cca4f, 0x6682e6ff3],
     [0x6748f82ee, 0x678a5636f, 0x684c87814, 0x68cc70208],
     [0x690befffa, 0x6a4506ceb, 0x6bef9a3f7, 0x6c67178f2]])"
  unfolding fips_K_def primes_below_312 by (rule map_fraction_bits) simp_all

lemma fips_H0_values: "fips_H0 = map of_nat [0x16a09e667, 0x1bb67ae85, 0x23c6ef372, 0x2a54ff53a, 0x3510e527f, 0x39b05688c, 0x41f83d9ab, 0x45be0cd19]"
  unfolding fips_H0_def primes_below_20 by (rule map_fraction_bits) simp_all

lemma length_primes: "length (primes_below 20) = 8" "length (primes_below 312) = 64"
  by (simp_all add: primes_below_20 primes_below_312)

lemma length_fips_K [simp]: "length fips_K = 64" and length_fips_H0 [simp]: "length fips_H0 = 8"
  by (simp_all add: fips_K_def fips_H0_def length_primes)

section \<open>Lengths\<close>

lemma length_octets [simp]: "length (octets n x) = n"
  by (simp add: octets_def)

lemma length_fips_step [simp]: "length (fips_step b t v) = 8"
  by (simp add: fips_step_def Let_def)

lemma length_compress [simp]: "length H = 8 \<Longrightarrow> length (compress b H) = 8"
proof -
  have "length v = 8 \<Longrightarrow> length (fold (fips_step b) ts v) = 8" for ts v
    by (induction ts arbitrary: v) auto
  then show "length H = 8 \<Longrightarrow> ?thesis" by (simp add: compress_def)
qed

lemma length_sha256 [simp]: "length (sha256 m) = 32"
proof -
  have "length H = 8 \<Longrightarrow> length (fold compress bs H) = 8" for bs H
    by (induction bs arbitrary: H) auto
  then show ?thesis by (simp add: sha256_def length_concat sum_list_triv comp_def)
qed

text \<open>The padding fills whole blocks.\<close>

lemma pad_zeros: "(LEAST z. (n + 1 + z) mod 64 = (56 :: nat)) = (119 - n mod 64) mod 64"
proof -
  obtain r where r: "n mod 64 = r" "r < 64" by simp
  have n: "(n + 1 + z) mod 64 = (r + 1 + z) mod 64" for z
    using mod_add_left_eq [of n 64 "1 + z"] r(1) by (simp only: add.assoc)
  have wrap: "x mod 64 = (if x < 64 then x else x - 64)" if "x < 128" for x :: nat
    using that by (simp add: mod_if)
  have pad: "(119 - r) mod 64 = (if r < 56 then 55 - r else 119 - r)"
    using r(2) by (simp add: wrap)
  show ?thesis unfolding n r(1)
  proof (rule Least_equality)
    show "(r + 1 + (119 - r) mod 64) mod 64 = 56" using r(2) by (simp add: pad wrap)
    show "(119 - r) mod 64 \<le> z" if z: "(r + 1 + z) mod 64 = 56" for z
    proof (cases "z < 64")
      case True
      then have "r + 1 + z = (if r + 1 + z < 64 then 56 else 120)" using z r(2) by (simp add: wrap split: if_splits)
      then show ?thesis unfolding pad by (auto split: if_splits)
    qed (use r(2) in \<open>auto simp: pad\<close>)
  qed
qed

end
