(* ===== verification/Fips180Example.thy ===== *)
theory Fips180Example
  imports Fips180
begin

text \<open>
  The published one-block example of FIPS 180-4: the digest of the message \<open>abc\<close>, computed in the kernel
  from the definitions of \<open>Fips180\<close>. Words are read as their unsigned values, so that the rounds are
  integer arithmetic.
\<close>

definition int_rotr :: "nat \<Rightarrow> int \<Rightarrow> int" where
  "int_rotr n x = x div 2 ^ n + 2 ^ (32 - n) * (x mod 2 ^ n)"

definition int_sigma0 :: "int \<Rightarrow> int" where
  "int_sigma0 x = int_rotr 7 x XOR int_rotr 18 x XOR (x div 2 ^ 3)"

definition int_sigma1 :: "int \<Rightarrow> int" where
  "int_sigma1 x = int_rotr 17 x XOR int_rotr 19 x XOR (x div 2 ^ 10)"

text \<open>The schedule, newest word first, and one step.\<close>

fun int_schedule :: "nat \<Rightarrow> int list \<Rightarrow> int list" where
  "int_schedule 0 w = w"
| "int_schedule (Suc n) w =
    int_schedule n ((int_sigma1 (w ! 1) + w ! 6 + int_sigma0 (w ! 14) + w ! 15) mod 2 ^ 32 # w)"

fun int_step :: "int \<times> int \<Rightarrow> int list \<Rightarrow> int list" where
  "int_step (k, w) [a, b, c, d, e, f, g, h] =
    (let T1 = h + (int_rotr 6 e XOR int_rotr 11 e XOR int_rotr 25 e)
              + ((e AND f) XOR ((2 ^ 32 - 1 - e) AND g)) + k + w;
         T2 = (int_rotr 2 a XOR int_rotr 13 a XOR int_rotr 22 a) + ((a AND b) XOR (a AND c) XOR (b AND c))
     in [(T1 + T2) mod 2 ^ 32, a, b, c, (d + T1) mod 2 ^ 32, e, f, g])"
| "int_step _ v = v"

section \<open>The values of the standard's functions\<close>

lemma take_bit_uint: "take_bit 32 (uint (x :: 32 word)) = uint x"
  using uint_lt2p [of x] by (simp add: take_bit_int_eq_self)

lemma uint_drop: "uint (drop_bit n (x :: 32 word)) = uint x div 2 ^ n"
  by (simp add: unsigned_drop_bit_eq drop_bit_eq_div [where 'a = int] take_bit_uint)

lemma uint_rotr: "0 < n \<Longrightarrow> n < 32 \<Longrightarrow> uint (word_rotr n (x :: 32 word)) = int_rotr n (uint x)"
proof -
  assume n: "0 < n" "n < 32"
  then have small: "take_bit (32 - n) (drop_bit n (uint x)) = drop_bit n (uint x)"
    by (simp only: take_bit_drop_bit) (simp add: take_bit_uint)
  show ?thesis
    using n by (simp add: uint_word_rotr_eq concat_bit_eq small) (simp add: int_rotr_def drop_bit_eq_div [where 'a = int]
        push_bit_eq_mult [where 'a = int] unsigned_take_bit_eq take_bit_eq_mod [where 'a = int] mult.commute)
qed

lemma uint_sigma: "uint (fips_sigma0 x) = int_sigma0 (uint x)" "uint (fips_sigma1 x) = int_sigma1 (uint x)"
  by (simp_all add: fips_sigma0_def fips_sigma1_def int_sigma0_def int_sigma1_def unsigned_xor_eq uint_rotr uint_drop)

lemma uint_NOT: "uint (NOT (x :: 32 word)) = 2 ^ 32 - 1 - uint x"
proof -
  have "uint (NOT x) = (- uint x - 1) mod 2 ^ 32"
    by (simp add: unsigned_not_eq take_bit_eq_mod [where 'a = int] not_int_def)
  also have "\<dots> = (2 ^ 32 + (- uint x - 1)) mod 2 ^ 32"
    by (simp only: mod_add_self1)
  also have "\<dots> = 2 ^ 32 + (- uint x - 1)"
  proof (rule mod_pos_pos_trivial)
    show "0 \<le> 2 ^ 32 + (- uint x - 1)" using uint_lt2p [of x] by simp
    have "- uint x - 1 < 0" using uint_ge_0 [of x] by linarith
    then show "2 ^ 32 + (- uint x - 1) < 2 ^ 32" by (rule add_less_same_cancel1 [THEN iffD2])
  qed
  finally show ?thesis by simp
qed

lemma uint_step: "length v = 8 \<Longrightarrow>
    map uint (fips_step b t v) = int_step (uint (fips_K ! t), uint (schedule b t)) (map uint v)"
proof -
  assume "length v = 8"
  then obtain x0 x1 x2 x3 x4 x5 x6 x7 where v: "v = [x0, x1, x2, x3, x4, x5, x6, x7]"
    by (auto simp: numeral_eq_Suc length_Suc_conv)
  show ?thesis unfolding v
    by (simp add: fips_step_def Let_def fips_Sigma0_def fips_Sigma1_def fips_Ch_def fips_Maj_def
        unsigned_xor_eq unsigned_and_eq uint_rotr uint_NOT uint_word_ariths mod_simps)
qed

lemma uint_steps: "length v = 8 \<Longrightarrow> map uint (fold (fips_step b) ts v) =
    fold int_step (map (\<lambda>t. (uint (fips_K ! t), uint (schedule b t))) ts) (map uint v)"
  by (induction ts arbitrary: v) (simp_all add: uint_step)

text \<open>The words of the schedule below \<open>m\<close>, newest first.\<close>

definition newest :: "8 word list \<Rightarrow> nat \<Rightarrow> int list" where
  "newest b m = rev (map (\<lambda>t. uint (schedule b t)) [0 ..< m])"

lemma uint_schedule: "16 \<le> m \<Longrightarrow> int_schedule n (newest b m) = newest b (m + n)"
proof (induction n arbitrary: m)
  case (Suc n)
  have nth: "newest b m ! i = uint (schedule b (m - 1 - i))" if "i < m" for i
    using that by (simp add: newest_def rev_nth)
  have "uint (schedule b m) = (int_sigma1 (newest b m ! 1) + newest b m ! 6 + int_sigma0 (newest b m ! 14) +
      newest b m ! 15) mod 2 ^ 32"
    using Suc.prems by (subst schedule.simps) (simp add: nth uint_word_ariths uint_sigma mod_simps flip: numeral_2_eq_2)
  then have "int_schedule (Suc n) (newest b m) = int_schedule n (newest b (Suc m))"
    by (simp add: newest_def)
  then show ?case using Suc.IH [of "Suc m"] Suc.prems by simp
qed simp

lemma uint_compress: "length H = 8 \<Longrightarrow> map uint (compress b H) =
    map2 (\<lambda>x y. (x + y) mod 2 ^ 32) (map uint H)
      (fold int_step (zip (map uint fips_K) (rev (int_schedule 48 (newest b 16)))) (map uint H))"
proof -
  assume H: "length H = 8"
  have "map (\<lambda>t. (uint (fips_K ! t), uint (schedule b t))) [0 ..< 64] = zip (map uint fips_K) (rev (newest b 64))"
    by (intro nth_equalityI) (simp_all add: newest_def)
  then have steps: "map uint (fold (fips_step b) [0 ..< 64] H) =
      fold int_step (zip (map uint fips_K) (rev (int_schedule 48 (newest b 16)))) (map uint H)"
    using uint_steps [OF H, of b "[0 ..< 64]"] uint_schedule [of 16 48 b] by simp
  have "map uint (map2 (+) xs ys) = map2 (\<lambda>x y. (x + y) mod 2 ^ 32) (map uint xs) (map uint (ys :: 32 word list))" for xs ys
    by (simp add: zip_map_map uint_word_ariths split_def)
  then show ?thesis by (simp add: compress_def steps)
qed

section \<open>The example\<close>

lemma schedule_abc: "int_schedule 48 [0x18, 0x0, 0x0, 0x0, 0x0, 0x0, 0x0, 0x0, 0x0, 0x0, 0x0, 0x0, 0x0, 0x0, 0x0, 0x61626380] =
  rev (concat
    [[0x61626380, 0x0, 0x0, 0x0, 0x0, 0x0, 0x0, 0x0],
     [0x0, 0x0, 0x0, 0x0, 0x0, 0x0, 0x0, 0x18],
     [0x61626380, 0xf0000, 0x7da86405, 0x600003c6, 0x3e9d7b78, 0x183fc00, 0x12dcbfdb, 0xe2e2c38e],
     [0xc8215c1a, 0xb73679a2, 0xe5bc3909, 0x32663c5b, 0x9d209d67, 0xec8726cb, 0x702138a4, 0xd3b7973b],
     [0x93f5997f, 0x3b68ba73, 0xaff4ffc1, 0xf10a5c62, 0xa8b3996, 0x72af830a, 0x9409e33e, 0x24641522],
     [0x9f47bf94, 0xf0a64f5a, 0x3e246a79, 0x27333ba3, 0xc4763f2, 0x840abf27, 0x7a290d5d, 0x65c43da],
     [0xfb3e89cb, 0xcc7617db, 0xb9e66c34, 0xa9993667, 0x84badedd, 0xc21462bc, 0x1487472c, 0xb20f7a99],
     [0xef57b9cd, 0xebe6b238, 0x9fe3095e, 0x78bc8d4b, 0xa43fcf15, 0x668b2ff8, 0xeeaba2cc, 0x12b1edeb]])"
  by code_simp

lemma steps_abc: "fold int_step (zip (concat
    [[0x428a2f98, 0x71374491, 0xb5c0fbcf, 0xe9b5dba5, 0x3956c25b, 0x59f111f1, 0x923f82a4, 0xab1c5ed5],
     [0xd807aa98, 0x12835b01, 0x243185be, 0x550c7dc3, 0x72be5d74, 0x80deb1fe, 0x9bdc06a7, 0xc19bf174],
     [0xe49b69c1, 0xefbe4786, 0xfc19dc6, 0x240ca1cc, 0x2de92c6f, 0x4a7484aa, 0x5cb0a9dc, 0x76f988da],
     [0x983e5152, 0xa831c66d, 0xb00327c8, 0xbf597fc7, 0xc6e00bf3, 0xd5a79147, 0x6ca6351, 0x14292967],
     [0x27b70a85, 0x2e1b2138, 0x4d2c6dfc, 0x53380d13, 0x650a7354, 0x766a0abb, 0x81c2c92e, 0x92722c85],
     [0xa2bfe8a1, 0xa81a664b, 0xc24b8b70, 0xc76c51a3, 0xd192e819, 0xd6990624, 0xf40e3585, 0x106aa070],
     [0x19a4c116, 0x1e376c08, 0x2748774c, 0x34b0bcb5, 0x391c0cb3, 0x4ed8aa4a, 0x5b9cca4f, 0x682e6ff3],
     [0x748f82ee, 0x78a5636f, 0x84c87814, 0x8cc70208, 0x90befffa, 0xa4506ceb, 0xbef9a3f7, 0xc67178f2]])
    (concat
    [[0x61626380, 0x0, 0x0, 0x0, 0x0, 0x0, 0x0, 0x0],
     [0x0, 0x0, 0x0, 0x0, 0x0, 0x0, 0x0, 0x18],
     [0x61626380, 0xf0000, 0x7da86405, 0x600003c6, 0x3e9d7b78, 0x183fc00, 0x12dcbfdb, 0xe2e2c38e],
     [0xc8215c1a, 0xb73679a2, 0xe5bc3909, 0x32663c5b, 0x9d209d67, 0xec8726cb, 0x702138a4, 0xd3b7973b],
     [0x93f5997f, 0x3b68ba73, 0xaff4ffc1, 0xf10a5c62, 0xa8b3996, 0x72af830a, 0x9409e33e, 0x24641522],
     [0x9f47bf94, 0xf0a64f5a, 0x3e246a79, 0x27333ba3, 0xc4763f2, 0x840abf27, 0x7a290d5d, 0x65c43da],
     [0xfb3e89cb, 0xcc7617db, 0xb9e66c34, 0xa9993667, 0x84badedd, 0xc21462bc, 0x1487472c, 0xb20f7a99],
     [0xef57b9cd, 0xebe6b238, 0x9fe3095e, 0x78bc8d4b, 0xa43fcf15, 0x668b2ff8, 0xeeaba2cc, 0x12b1edeb]])) [0x6a09e667, 0xbb67ae85, 0x3c6ef372, 0xa54ff53a, 0x510e527f, 0x9b05688c, 0x1f83d9ab, 0x5be0cd19] = [0x506e3058, 0xd39a2165, 0x4d24d6c, 0xb85e2ce9, 0x5ef50f24, 0xfb121210, 0x948d25b6, 0x961f4894]"
  by code_simp


lemma upt_values: "[0 ..< 4] = [0, 1, 2, 3 :: nat]" "[0 ..< 8] = [0, 1, 2, 3, 4, 5, 6, 7 :: nat]"
  "[0 ..< 16] = [0, 1, 2, 3, 4, 5, 6, 7, 8, 9, 10, 11, 12, 13, 14, 15 :: nat]"
  by (simp_all add: upt_rec)

lemma pad_abc: "sha256_pad [0x61, 0x62, 0x63] = concat
    [[0x61, 0x62, 0x63, 0x80], replicate 52 0, [0, 0, 0, 0, 0, 0, 0, 24]]"
  unfolding sha256_pad_def pad_zeros by (simp add: octets_def upt_values)

lemma newest_abc: "newest (sha256_pad [0x61, 0x62, 0x63]) 16 = [0x18, 0x0, 0x0, 0x0, 0x0, 0x0, 0x0, 0x0, 0x0, 0x0, 0x0, 0x0, 0x0, 0x0, 0x0, 0x61626380]"
  unfolding pad_abc by (simp add: newest_def upt_values schedule.simps block_word_def nth_append nth_Cons')

lemma uint_fips_K: "map uint fips_K = concat
    [[0x428a2f98, 0x71374491, 0xb5c0fbcf, 0xe9b5dba5, 0x3956c25b, 0x59f111f1, 0x923f82a4, 0xab1c5ed5],
     [0xd807aa98, 0x12835b01, 0x243185be, 0x550c7dc3, 0x72be5d74, 0x80deb1fe, 0x9bdc06a7, 0xc19bf174],
     [0xe49b69c1, 0xefbe4786, 0xfc19dc6, 0x240ca1cc, 0x2de92c6f, 0x4a7484aa, 0x5cb0a9dc, 0x76f988da],
     [0x983e5152, 0xa831c66d, 0xb00327c8, 0xbf597fc7, 0xc6e00bf3, 0xd5a79147, 0x6ca6351, 0x14292967],
     [0x27b70a85, 0x2e1b2138, 0x4d2c6dfc, 0x53380d13, 0x650a7354, 0x766a0abb, 0x81c2c92e, 0x92722c85],
     [0xa2bfe8a1, 0xa81a664b, 0xc24b8b70, 0xc76c51a3, 0xd192e819, 0xd6990624, 0xf40e3585, 0x106aa070],
     [0x19a4c116, 0x1e376c08, 0x2748774c, 0x34b0bcb5, 0x391c0cb3, 0x4ed8aa4a, 0x5b9cca4f, 0x682e6ff3],
     [0x748f82ee, 0x78a5636f, 0x84c87814, 0x8cc70208, 0x90befffa, 0xa4506ceb, 0xbef9a3f7, 0xc67178f2]]"
  by (simp add: fips_K_values)

lemma uint_fips_H0: "map uint fips_H0 = [0x6a09e667, 0xbb67ae85, 0x3c6ef372, 0xa54ff53a, 0x510e527f, 0x9b05688c, 0x1f83d9ab, 0x5be0cd19]"
  by (simp add: fips_H0_values)

theorem sha256_abc: "sha256 [0x61, 0x62, 0x63] = concat
    [[0xba, 0x78, 0x16, 0xbf, 0x8f, 0x01, 0xcf, 0xea], [0x41, 0x41, 0x40, 0xde, 0x5d, 0xae, 0x22, 0x23],
     [0xb0, 0x03, 0x61, 0xa3, 0x96, 0x17, 0x7a, 0x9c], [0xb4, 0x10, 0xff, 0x61, 0xf2, 0x00, 0x15, 0xad]]"
proof -
  let ?b = "sha256_pad [0x61, 0x62, 0x63]"
  have b: "blocks ?b = [?b]" by (simp add: pad_abc blocks_def)
  have "map uint (compress ?b fips_H0) = [0xba7816bf, 0x8f01cfea, 0x414140de, 0x5dae2223, 0xb00361a3, 0x96177a9c, 0xb410ff61, 0xf20015ad]"
    unfolding uint_compress [OF length_fips_H0] newest_abc schedule_abc rev_rev_ident uint_fips_K uint_fips_H0 steps_abc
    by simp
  then have "map ((of_int :: int \<Rightarrow> 32 word) \<circ> uint) (compress ?b fips_H0) = map of_int [0xba7816bf, 0x8f01cfea, 0x414140de, 0x5dae2223, 0xb00361a3, 0x96177a9c, 0xb410ff61, 0xf20015ad]"
    by (simp only: map_map [symmetric])
  then have "compress ?b fips_H0 = [0xba7816bf, 0x8f01cfea, 0x414140de, 0x5dae2223, 0xb00361a3, 0x96177a9c, 0xb410ff61, 0xf20015ad]"
    by (simp add: comp_def)
  then show ?thesis
    by (simp add: sha256_def b octets_def upt_values)
qed

end
