(* ===== verification/Sha256.thy ===== *)
theory Sha256
  imports Prelude Fips180Example
begin

text \<open>
  The SHA-256 of the boot package (\<open>src/core/sha256.cpp\<close>). The operations follow the code: the
  message schedule and the 64 rounds of one block, the loop over whole blocks, the padded tail of one
  or two blocks, the big-endian digest and the comparison. Byte spans are lists; a read or store
  outside an array is \<open>None\<close>. The reference is the theory \<open>Fips180\<close>, which uses no definition of this one.
\<close>

section \<open>Operations\<close>

definition kK :: "u32 list" where
  "kK = concat
    [[0x428a2f98, 0x71374491, 0xb5c0fbcf, 0xe9b5dba5], [0x3956c25b, 0x59f111f1, 0x923f82a4, 0xab1c5ed5],
     [0xd807aa98, 0x12835b01, 0x243185be, 0x550c7dc3], [0x72be5d74, 0x80deb1fe, 0x9bdc06a7, 0xc19bf174],
     [0xe49b69c1, 0xefbe4786, 0x0fc19dc6, 0x240ca1cc], [0x2de92c6f, 0x4a7484aa, 0x5cb0a9dc, 0x76f988da],
     [0x983e5152, 0xa831c66d, 0xb00327c8, 0xbf597fc7], [0xc6e00bf3, 0xd5a79147, 0x06ca6351, 0x14292967],
     [0x27b70a85, 0x2e1b2138, 0x4d2c6dfc, 0x53380d13], [0x650a7354, 0x766a0abb, 0x81c2c92e, 0x92722c85],
     [0xa2bfe8a1, 0xa81a664b, 0xc24b8b70, 0xc76c51a3], [0xd192e819, 0xd6990624, 0xf40e3585, 0x106aa070],
     [0x19a4c116, 0x1e376c08, 0x2748774c, 0x34b0bcb5], [0x391c0cb3, 0x4ed8aa4a, 0x5b9cca4f, 0x682e6ff3],
     [0x748f82ee, 0x78a5636f, 0x84c87814, 0x8cc70208], [0x90befffa, 0xa4506ceb, 0xbef9a3f7, 0xc67178f2]]"

definition Ror :: "u32 \<Rightarrow> nat \<Rightarrow> u32" where
  "Ror v n = drop_bit n v OR push_bit (32 - n) v"

text \<open>The first 16 words of the schedule, the next one, and all 64.\<close>

definition Transform_load :: "byte list \<Rightarrow> nat \<Rightarrow> u32 option" where
  "Transform_load block i = do {
     b0 \<leftarrow> rd block (i * 4); b1 \<leftarrow> rd block (i * 4 + 1); b2 \<leftarrow> rd block (i * 4 + 2); b3 \<leftarrow> rd block (i * 4 + 3);
     Some (push_bit 24 (ucast b0) OR push_bit 16 (ucast b1) OR push_bit 8 (ucast b2) OR ucast b3) }"

definition Transform_next :: "u32 list \<Rightarrow> nat \<Rightarrow> u32 option" where
  "Transform_next w i = do {
     w15 \<leftarrow> rd w (i - 15); w2 \<leftarrow> rd w (i - 2); w16 \<leftarrow> rd w (i - 16); w7 \<leftarrow> rd w (i - 7);
     let s0 = Ror w15 7 XOR Ror w15 18 XOR drop_bit 3 w15;
     let s1 = Ror w2 17 XOR Ror w2 19 XOR drop_bit 10 w2;
     Some (w16 + s0 + w7 + s1) }"

fun Transform_schedule :: "byte list \<Rightarrow> nat \<Rightarrow> nat \<Rightarrow> u32 list \<Rightarrow> u32 list option" where
  "Transform_schedule block i 0 w = Some w"
| "Transform_schedule block i (Suc n) w = do {
     v \<leftarrow> (if i < 16 then Transform_load block i else Transform_next w i);
     w \<leftarrow> wr w i v;
     Transform_schedule block (Suc i) n w }"

type_synonym working = "u32 \<times> u32 \<times> u32 \<times> u32 \<times> u32 \<times> u32 \<times> u32 \<times> u32"

definition Transform_round :: "u32 \<Rightarrow> u32 \<Rightarrow> working \<Rightarrow> working" where
  "Transform_round k w = (\<lambda>(a, b, c, d, e, f, g, hh).
     let s1 = Ror e 6 XOR Ror e 11 XOR Ror e 25;
         ch = (e AND f) XOR (NOT e AND g);
         t1 = hh + s1 + ch + k + w;
         s0 = Ror a 2 XOR Ror a 13 XOR Ror a 22;
         maj = (a AND b) XOR (a AND c) XOR (b AND c);
         t2 = s0 + maj
     in (t1 + t2, a, b, c, d + t1, e, f, g))"

fun Transform_rounds :: "u32 list \<Rightarrow> nat \<Rightarrow> nat \<Rightarrow> working \<Rightarrow> working option" where
  "Transform_rounds w i 0 s = Some s"
| "Transform_rounds w i (Suc n) s = do {
     k \<leftarrow> rd kK i; v \<leftarrow> rd w i;
     Transform_rounds w (Suc i) n (Transform_round k v s) }"

definition Transform :: "byte list \<Rightarrow> working \<Rightarrow> working option" where
  "Transform block h = do {
     w \<leftarrow> Transform_schedule block 0 64 (replicate 64 0);
     s \<leftarrow> Transform_rounds w 0 64 h;
     let (h0, h1, h2, h3, h4, h5, h6, h7) = h;
     let (a, b, c, d, e, f, g, hh) = s;
     Some (h0 + a, h1 + b, h2 + c, h3 + d, h4 + e, h5 + f, h6 + g, h7 + hh) }"

function Sha256_loop :: "byte list \<Rightarrow> nat \<Rightarrow> working \<Rightarrow> (nat \<times> working) option" where
  "Sha256_loop data off h =
     (if 64 \<le> length data - off
      then do {
        block \<leftarrow> rd_seq data off 64;
        h \<leftarrow> Transform block h;
        Sha256_loop data (off + 64) h }
      else Some (off, h))"
  by pat_completeness auto
termination by (relation "measure (\<lambda>(data, off, _). length data - off)") auto

declare Sha256_loop.simps [simp del]

text \<open>The bytes of a word, most significant first, and the digest.\<close>

definition be_bytes :: "nat \<Rightarrow> 'a::len word \<Rightarrow> byte list" where
  "be_bytes n v = rev (le_bytes n v)"

definition Sha256_digest :: "working \<Rightarrow> byte list" where
  "Sha256_digest = (\<lambda>(h0, h1, h2, h3, h4, h5, h6, h7).
     concat (map (be_bytes 4) [h0, h1, h2, h3, h4, h5, h6, h7]))"

definition Sha256_start :: working where
  "Sha256_start = (0x6a09e667, 0xbb67ae85, 0x3c6ef372, 0xa54ff53a, 0x510e527f, 0x9b05688c, 0x1f83d9ab, 0x5be0cd19)"

definition Sha256 :: "byte list \<Rightarrow> byte list option" where
  "Sha256 data = do {
     (off, h) \<leftarrow> Sha256_loop data 0 Sha256_start;
     let rem = length data - off;
     rest \<leftarrow> rd_seq data off rem;
     tail \<leftarrow> wr_seq (replicate 128 0) 0 rest;
     tail \<leftarrow> wr tail rem 0x80;
     let totalTail = (if rem < 56 then 64 else 128);
     let bitLength = (of_nat (length data) * 8 :: u64);
     tail \<leftarrow> wr_seq tail (totalTail - 8) (be_bytes 8 bitLength);
     block \<leftarrow> rd_seq tail 0 64;
     h \<leftarrow> Transform block h;
     h \<leftarrow> (if totalTail = 128 then do { block \<leftarrow> rd_seq tail 64 64; Transform block h } else Some h);
     Some (Sha256_digest h) }"

fun Sha256Equal_loop :: "byte list \<Rightarrow> byte list \<Rightarrow> byte \<Rightarrow> byte" where
  "Sha256Equal_loop (x # xs) (y # ys) diff = Sha256Equal_loop xs ys (diff OR (x XOR y))"
| "Sha256Equal_loop _ _ diff = diff"

definition Sha256Equal :: "byte list \<Rightarrow> byte list \<Rightarrow> bool" where
  "Sha256Equal a b \<longleftrightarrow> Sha256Equal_loop a b 0 = 0"

section \<open>The functions and constants against the standard\<close>

text \<open>The working variables as the list of the standard.\<close>

definition working_list :: "working \<Rightarrow> u32 list" where
  "working_list = (\<lambda>(a, b, c, d, e, f, g, hh). [a, b, c, d, e, f, g, hh])"

lemma length_working_list [simp]: "length (working_list s) = 8"
  by (simp add: working_list_def split: prod.split)

lemma Ror_eq: "0 < n \<Longrightarrow> n < 32 \<Longrightarrow> Ror v n = word_rotr n v"
proof (rule bit_word_eqI)
  fix i assume "0 < n" "n < 32" "i < LENGTH(32)"
  moreover then have "(i + n) mod 32 = (if i + n < 32 then i + n else i + n - 32)" by (simp add: mod_if)
  ultimately show "bit (Ror v n) i \<longleftrightarrow> bit (word_rotr n v) i"
    by (auto simp: Ror_def bit_simps bit_word_rotr_iff add.commute dest: bit_imp_le_length)
qed

lemma kK_eq: "kK = fips_K"
  unfolding fips_K_values kK_def by simp

lemma Sha256_start_eq: "working_list Sha256_start = fips_H0"
  unfolding fips_H0_values working_list_def Sha256_start_def by simp

lemma Transform_round_eq:
  "t < 64 \<Longrightarrow> working_list (Transform_round (kK ! t) (schedule b t) s) = fips_step b t (working_list s)"
  by (simp add: working_list_def Transform_round_def fips_step_def Let_def Ror_eq kK_eq fips_Sigma0_def
      fips_Sigma1_def fips_Ch_def fips_Maj_def numeral_eq_Suc split: prod.split)

lemma be_bytes_eq: "be_bytes n v = octets n v"
  by (intro nth_equalityI) (simp_all add: be_bytes_def octets_def rev_nth le_bytes_nth)

lemma Sha256_digest_eq: "Sha256_digest h = concat (map (octets 4) (working_list h))"
  by (simp add: Sha256_digest_def working_list_def be_bytes_eq split: prod.split)

section \<open>One block\<close>

lemma rd_nth [simp]: "i < length xs \<Longrightarrow> rd xs i = Some (xs ! i)"
  by (simp add: rd_def)

lemma length_kK [simp]: "length kK = 64"
  by (simp add: kK_def)

lemma Transform_load_eq: "length block = 64 \<Longrightarrow> i < 16 \<Longrightarrow> Transform_load block i = Some (block_word block i)"
  by (simp add: Transform_load_def block_word_def mult.commute)

lemma Transform_next_eq:
  "16 \<le> i \<Longrightarrow> i \<le> length w \<Longrightarrow> \<forall>j < i. w ! j = schedule b j \<Longrightarrow> Transform_next w i = Some (schedule b i)"
  by (subst schedule.simps) (simp add: Transform_next_def fips_sigma0_def fips_sigma1_def Ror_eq Let_def add_ac)

lemma Transform_schedule_eq:
  "length block = 64 \<Longrightarrow> length w = 64 \<Longrightarrow> i + n = 64 \<Longrightarrow> \<forall>j < i. w ! j = schedule block j \<Longrightarrow>
    Transform_schedule block i n w = Some (map (schedule block) [0 ..< 64])"
proof (induction block i n w rule: Transform_schedule.induct)
  case (1 block i w)
  then show ?case by (auto intro!: nth_equalityI)
next
  case (2 block i n w)
  have v: "(if i < 16 then Transform_load block i else Transform_next w i) = Some (schedule block i)"
    using 2 Transform_next_eq [of i w block] Transform_load_eq [of block i]
    by (auto simp: schedule.simps [of block i] split: if_splits)
  have "Transform_schedule block (Suc i) n (w[i := schedule block i]) = Some (map (schedule block) [0 ..< 64])"
    using 2(2-) by (intro 2(1) [OF v]) (auto simp: wr_def less_Suc_eq)
  then show ?case using v 2(3,4) by (simp add: wr_def)
qed

lemma Transform_rounds_eq:
  "length w = 64 \<Longrightarrow> i + n = 64 \<Longrightarrow> Transform_rounds w i n s =
    Some (fold (\<lambda>t. Transform_round (kK ! t) (w ! t)) [i ..< i + n] s)"
  by (induction w i n s rule: Transform_rounds.induct) (simp_all add: upt_rec)

text \<open>One block of the code, and that it is one block of the standard.\<close>

definition Transform_value :: "byte list \<Rightarrow> working \<Rightarrow> working" where
  "Transform_value b h = (case h of (h0, h1, h2, h3, h4, h5, h6, h7) \<Rightarrow>
     case fold (\<lambda>t. Transform_round (kK ! t) (schedule b t)) [0 ..< 64] h of (a, b, c, d, e, f, g, hh) \<Rightarrow>
       (h0 + a, h1 + b, h2 + c, h3 + d, h4 + e, h5 + f, h6 + g, h7 + hh))"

lemma Transform_eq: "length block = 64 \<Longrightarrow> Transform block h = Some (Transform_value block h)"
proof -
  assume b: "length block = 64"
  have "fold (\<lambda>t. Transform_round (kK ! t) (map (schedule block) [0 ..< 64] ! t)) [0 ..< 64] h =
      fold (\<lambda>t. Transform_round (kK ! t) (schedule block t)) [0 ..< 64] h"
    by (intro fold_cong) auto
  then show ?thesis
    using b Transform_schedule_eq [of block "replicate 64 0" 0 64] Transform_rounds_eq [of "map (schedule block) [0 ..< 64]" 0 64 h]
    by (simp add: Transform_def Transform_value_def split: prod.split)
qed

lemma Transform_value_eq: "working_list (Transform_value b h) = compress b (working_list h)"
proof -
  have steps: "working_list (fold (\<lambda>t. Transform_round (kK ! t) (schedule b t)) ts s) = fold (fips_step b) ts (working_list s)"
    if "\<forall>t \<in> set ts. t < 64" for ts s
    using that by (induction ts arbitrary: s) (simp_all add: Transform_round_eq)
  obtain s where s: "fold (\<lambda>t. Transform_round (kK ! t) (schedule b t)) [0 ..< 64] h = s" by simp
  have "fold (fips_step b) [0 ..< 64] (working_list h) = working_list s"
    using steps [of "[0 ..< 64]" h] s by simp
  then show ?thesis
    unfolding Transform_value_def compress_def s by (simp add: working_list_def split: prod.split)
qed

lemma fold_Transform_value: "working_list (fold Transform_value bs h) = fold compress bs (working_list h)"
  by (induction bs arbitrary: h) (simp_all add: Transform_value_eq)

section \<open>Blocks and padding\<close>

lemma Sha256_loop_eq:
  "k \<le> length data div 64 \<Longrightarrow> Sha256_loop data (64 * k) h =
    Some (64 * (length data div 64), fold Transform_value (map (\<lambda>i. slice data (64 * i) 64) [k ..< length data div 64]) h)"
proof (induction "length data div 64 - k" arbitrary: k h)
  case 0
  then have k: "k = length data div 64" by simp
  then have "\<not> 64 \<le> length data - 64 * k" by simp
  then show ?case unfolding k by (subst Sha256_loop.simps) simp
next
  case (Suc d)
  then have k: "k < length data div 64" by simp
  then have fit: "64 * k + 64 \<le> length data"
    using less_eq_div_iff_mult_less_eq [of 64 "Suc k" "length data"] by simp
  then have le: "64 \<le> length data - 64 * k" by simp
  have next': "64 * k + 64 = 64 * Suc k" by simp
  have "Sha256_loop data (64 * k) h = Sha256_loop data (64 * Suc k) (Transform_value (slice data (64 * k) 64) h)"
    using fit unfolding next' [symmetric]
    by (subst Sha256_loop.simps) (simp add: le rd_seq_eq Transform_eq)
  then show ?case
    using Suc.hyps(1) [of "Suc k" "Transform_value (slice data (64 * k) 64) h"] Suc.hyps(2) k by (simp add: upt_conv_Cons)
qed

lemma length_be_bytes [simp]: "length (be_bytes n v) = n"
  by (simp add: be_bytes_def)

lemma blocks_slice: "blocks m = map (\<lambda>i. slice m (64 * i) 64) [0 ..< length m div 64]"
  by (simp add: blocks_def slice_def)

lemma blocks_append: "length xs = 64 * k \<Longrightarrow> blocks (xs @ ys) = blocks xs @ blocks ys"
proof -
  assume xs: "length xs = 64 * k"
  have div: "length (xs @ ys) div 64 = k + length ys div 64" using xs by simp
  have front: "map (\<lambda>i. slice (xs @ ys) (64 * i) 64) [0 ..< k] = map (\<lambda>i. slice xs (64 * i) 64) [0 ..< k]"
    using xs by (intro map_cong) (auto simp: slice_def)
  have shift: "[k ..< k + length ys div 64] = map (\<lambda>i. i + k) [0 ..< length ys div 64]"
    using map_add_upt [of k "length ys div 64"] by (simp only: add.commute)
  have "slice (xs @ ys) (64 * (i + k)) 64 = slice ys (64 * i) 64" for i
    using xs by (simp add: slice_def algebra_simps)
  then have rear: "map (\<lambda>i. slice (xs @ ys) (64 * i) 64) [k ..< k + length ys div 64] =
      map (\<lambda>i. slice ys (64 * i) 64) [0 ..< length ys div 64]"
    unfolding shift map_map by (intro map_cong refl) (simp only: comp_apply)
  have "[0 ..< k + length ys div 64] = [0 ..< k] @ [k ..< k + length ys div 64]" using upt_add_eq_append [of 0 k "length ys div 64"] by simp
  then show ?thesis using xs div front rear by (simp add: blocks_slice)
qed

lemma blocks_64: "length ys = 64 \<Longrightarrow> blocks ys = [slice ys 0 64]"
  by (simp add: blocks_slice)

lemma blocks_128: "length ys = 128 \<Longrightarrow> blocks ys = [slice ys 0 64, slice ys 64 64]"
  by (simp add: blocks_slice upt_rec)

lemma pad_length: "r < 64 \<Longrightarrow> r + 1 + (119 - r) mod 64 + 8 = (if r < 56 then 64 else 128 :: nat)"
  by (auto simp: mod_if)

text \<open>The tail buffer after the stores of the code.\<close>

lemma tail_buffer:
  assumes "length rest < 64" and "t = (if length rest < 56 then 64 else 128)" and "length be = 8"
  shows "put ((put (replicate 128 0) 0 rest)[length rest := 0x80]) (t - 8) be =
    rest @ [0x80] @ replicate ((119 - length rest) mod 64) 0 @ be @ replicate (128 - t) (0 :: byte)"
proof -
  have z: "length rest + 1 + (119 - length rest) mod 64 + 8 = t" using pad_length [OF assms(1)] assms(2) by simp
  then have room: "length rest + 1 \<le> t - 8" "t \<le> 128" using assms by auto
  have "(put (replicate 128 0) 0 rest)[length rest := 0x80] = rest @ [0x80] @ replicate (127 - length rest) 0"
    using assms(1) by (simp add: put_def list_update_append Cons_replicate_eq upd_conv_take_nth_drop
        drop_replicate [symmetric] del: drop_replicate) (simp add: nth_Cons drop_Suc list_update.simps)
  moreover have "t - (8 + length rest) = Suc ((119 - length rest) mod 64)"
    "t - length rest = Suc (127 - length rest - (128 - t))" "(119 - length rest) mod 64 \<le> 127 - length rest"
    "127 - length rest - (t - length rest - 1) = 128 - t"
    using z room assms(1) by auto
  ultimately show ?thesis using room assms(3) by (simp add: put_def)
qed

text \<open>The last one or two blocks, read from the tail buffer.\<close>

lemma last_blocks:
  assumes "length tl' = t" and "t = 64 \<or> t = 128" and "length (tl' @ z) = 128"
  shows "do { block \<leftarrow> rd_seq (tl' @ z) 0 64; h \<leftarrow> Transform block h;
      if t = 128 then do { block \<leftarrow> rd_seq (tl' @ z) 64 64; Transform block h } else Some h } =
    Some (fold Transform_value (blocks tl') h)"
proof (cases "t = 64")
  case True
  then have "blocks tl' = [slice (tl' @ z) 0 64]" using assms(1) by (simp add: blocks_64) (simp add: slice_def)
  then show ?thesis using True assms(3) by (simp add: rd_seq_eq Transform_eq)
next
  case False
  then have "t = 128" "z = []" using assms by auto
  then show ?thesis using assms(1) by (simp add: rd_seq_eq Transform_eq blocks_128)
qed

lemma Sha256_eq: "Sha256 data = Some (sha256 data)"
proof -
  let ?k = "length data div 64" and ?rem = "length data mod 64"
  let ?t = "if ?rem < 56 then 64 else 128"
  let ?be = "be_bytes 8 (of_nat (length data) * 8 :: u64)"
  let ?rest = "slice data (64 * ?k) ?rem"
  let ?tail = "?rest @ [0x80] @ replicate ((119 - ?rem) mod 64) 0 @ ?be"
  have rem: "length data - 64 * ?k = ?rem" "64 * ?k + ?rem = length data" "?rem < 64"
    using mult_div_mod_eq [of 64 "length data"] by (simp_all add: minus_mult_div_eq_mod)
  have rest: "length ?rest = ?rem" using rem by simp
  have split: "data = take (64 * ?k) data @ ?rest" using rem by (simp add: slice_def)
  have pad: "sha256_pad data = take (64 * ?k) data @ ?tail"
    unfolding sha256_pad_def pad_zeros be_bytes_eq by (subst split) (simp add: mult.commute)
  have len: "length ?tail = ?t" using pad_length [OF rem(3)] rest by simp
  have front: "blocks (take (64 * ?k) data) = map (\<lambda>i. slice data (64 * i) 64) [0 ..< ?k]"
    using rem by (auto simp: blocks_slice slice_def drop_take)
  have bl: "blocks (sha256_pad data) = map (\<lambda>i. slice data (64 * i) 64) [0 ..< ?k] @ blocks ?tail"
    unfolding pad using blocks_append [of "take (64 * ?k) data" ?k ?tail] front rem by simp
  let ?buf = "?tail @ replicate (128 - ?t) 0"
  have buf: "put ((put (replicate 128 0) 0 ?rest)[?rem := 0x80]) (?t - 8) ?be = ?buf"
    using tail_buffer [of ?rest ?t ?be, unfolded rest, OF rem(3) refl length_be_bytes] by simp
  have t: "?t = 64 \<or> ?t = 128" by simp
  have "length ?buf = 128" unfolding length_append [of ?tail] len by simp
  note final = last_blocks [OF len t this]
  have loop: "Sha256_loop data 0 Sha256_start =
      Some (64 * ?k, fold Transform_value (map (\<lambda>i. slice data (64 * i) 64) [0 ..< ?k]) Sha256_start)"
    using Sha256_loop_eq [of 0 data Sha256_start] by simp
  have small: "?rem \<le> 128" "?rem < 128" using rem(3) by linarith+
  have reads: "rd_seq data (64 * ?k) ?rem = Some ?rest"
    "wr_seq (replicate 128 0) 0 ?rest = Some (put (replicate 128 0) 0 ?rest)"
    "wr (put (replicate 128 0) 0 ?rest) ?rem 0x80 = Some ((put (replicate 128 0) 0 ?rest)[?rem := 0x80])"
    "wr_seq ((put (replicate 128 0) 0 ?rest)[?rem := 0x80]) (?t - 8) ?be = Some ?buf"
    using rem rest buf small by (simp_all add: rd_seq_eq wr_seq_eq wr_def)
  have bind: "do { b \<leftarrow> x; h \<leftarrow> f b; h \<leftarrow> (g h :: 'a option); Some (d h) } =
      map_option d (do { b \<leftarrow> x; h \<leftarrow> f b; g h })" for x :: "'c option" and f :: "'c \<Rightarrow> 'b option" and g and d
    by (simp add: map_option_case Option.bind_assoc split: Option.bind_splits)
  show ?thesis
    unfolding Sha256_def loop Option.bind_lunit Let_def prod.case rem(1) reads bind final
    by (simp add: sha256_def bl Sha256_digest_eq fold_Transform_value Sha256_start_eq)
qed

lemma or_xor_0: "(d OR (x XOR y) = 0) \<longleftrightarrow> d = 0 \<and> x = (y :: 'a::len word)"
  by (auto simp: bit_eq_iff bit_simps)

lemma Sha256Equal_loop_eq:
  "length a = length b \<Longrightarrow> Sha256Equal_loop a b d = 0 \<longleftrightarrow> d = 0 \<and> a = b"
  by (induction a b d rule: Sha256Equal_loop.induct) (auto simp: or_xor_0)

lemma Sha256Equal_iff: "length a = length b \<Longrightarrow> Sha256Equal a b \<longleftrightarrow> a = b"
  by (simp add: Sha256Equal_def Sha256Equal_loop_eq)

text \<open>
  C10. \<open>Sha256\<close> computes the SHA-256 of the standard: it stays in its buffers for every message, and its
  32 bytes are those of \<open>sha256\<close>, the definition of FIPS 180-4 in the theory \<open>Fips180\<close>, which shares no
  constant and no function with the code: its round constants and its first hash value are the fraction bits of
  the roots of primes, its rotations those of the word library (the length field is taken modulo \<open>2 ^ 64\<close> bits, the
  standard's domain). The example of the standard is the last conjunct: the code returns the published
  digest of \<open>abc\<close>. \<open>Sha256Equal\<close> decides equality of digests.
\<close>

theorem Sha256_reference:
  "Sha256 data = Some (sha256 data) \<and> length (sha256 data) = 32 \<and>
    (Sha256Equal (sha256 data) (sha256 data') \<longleftrightarrow> sha256 data = sha256 data') \<and>
    Sha256 [0x61, 0x62, 0x63] = Some (concat
      [[0xba, 0x78, 0x16, 0xbf, 0x8f, 0x01, 0xcf, 0xea], [0x41, 0x41, 0x40, 0xde, 0x5d, 0xae, 0x22, 0x23],
       [0xb0, 0x03, 0x61, 0xa3, 0x96, 0x17, 0x7a, 0x9c], [0xb4, 0x10, 0xff, 0x61, 0xf2, 0x00, 0x15, 0xad]])"
  by (simp only: Sha256_eq Sha256Equal_iff length_sha256 sha256_abc simp_thms)

end
