(* ===== verification/PciIdentity.thy ===== *)
theory PciIdentity
  imports Prelude
begin

text \<open>
  PCI identities (\<open>src/core/pci_identity.cpp\<close>, \<open>src/core/pci_identity_policy.cpp\<close>): the parser of
  Windows hardware identifiers, the description, and the policy that names the one supported device.
  Text is a string; \<open>std::toupper\<close> is the one of the "C" locale.
\<close>

section \<open>Operations\<close>

record PciIdentity =
  vendor :: u16
  device :: u16
  subsystemVendor :: u16
  subsystemDevice :: u16

definition IsNvidia :: "PciIdentity \<Rightarrow> bool" where
  "IsNvidia i \<longleftrightarrow> vendor i = 0x10DE"

definition IsKnownRtx3060Ti :: "PciIdentity \<Rightarrow> bool" where
  "IsKnownRtx3060Ti i \<longleftrightarrow> IsNvidia i \<and> device i = 0x2489"

definition toupper :: "char \<Rightarrow> char" where
  "toupper c = (let n = of_char c :: nat in if 0x61 \<le> n \<and> n \<le> 0x7A then char_of (n - 0x20) else c)"

definition Upper :: "string \<Rightarrow> string" where
  "Upper s = map toupper s"

text \<open>The value of a hexadecimal digit, and \<open>std::from_chars\<close> with base 16: the value of the longest
  run of digits at the front and what follows it; no digit is an error.\<close>

definition hex_value :: "char \<Rightarrow> nat option" where
  "hex_value c = (let n = of_char c :: nat in
     if 0x30 \<le> n \<and> n \<le> 0x39 then Some (n - 0x30)
     else if 0x41 \<le> n \<and> n \<le> 0x46 then Some (n - 0x37)
     else if 0x61 \<le> n \<and> n \<le> 0x66 then Some (n - 0x57)
     else None)"

fun from_chars :: "string \<Rightarrow> nat \<Rightarrow> nat \<times> string" where
  "from_chars [] v = (v, [])"
| "from_chars (c # cs) v = (case hex_value c of None \<Rightarrow> (v, c # cs) | Some d \<Rightarrow> from_chars cs (16 * v + d))"

definition Hex16 :: "string \<Rightarrow> u16 option" where
  "Hex16 s = (if length s \<noteq> 4 then None
     else let (v, rest) = from_chars s 0
       in if rest = s \<or> rest \<noteq> [] \<or> 0xFFFF < v then None else Some (of_nat v))"

text \<open>\<open>std::string_view::find\<close>, from position \<open>pos\<close>.\<close>

fun find_from :: "string \<Rightarrow> string \<Rightarrow> nat \<Rightarrow> nat option" where
  "find_from [] marker pos = (if marker = [] then Some pos else None)"
| "find_from (c # cs) marker pos =
     (if take (length marker) (c # cs) = marker then Some pos else find_from cs marker (Suc pos))"

definition Field :: "string \<Rightarrow> string \<Rightarrow> nat \<Rightarrow> string option" where
  "Field s marker width = (case find_from s marker 0 of None \<Rightarrow> None
     | Some pos \<Rightarrow> let begin' = pos + length marker in
         if length s < begin' + width then None else Some (slice s begin' width))"

definition ParseWindowsPciHardwareId :: "string \<Rightarrow> PciIdentity option" where
  "ParseWindowsPciHardwareId txt =
     (let upper = Upper txt in
      if take 4 upper \<noteq> ''PCI'' @ [char_of (0x5C :: nat)] then None
      else case (Field upper ''VEN_'' 4, Field upper ''DEV_'' 4) of
        (Some venText, Some devText) \<Rightarrow>
          (case (Hex16 venText, Hex16 devText) of
             (Some ven, Some dev) \<Rightarrow>
               let result = \<lparr>vendor = ven, device = dev, subsystemVendor = 0, subsystemDevice = 0\<rparr> in
               Some (case Field upper ''SUBSYS_'' 8 of None \<Rightarrow> result
                 | Some subsys \<Rightarrow>
                     (case (Hex16 (slice subsys 0 4), Hex16 (slice subsys 4 4)) of
                        (Some subDevice, Some subVendor) \<Rightarrow>
                          result\<lparr>subsystemDevice := subDevice, subsystemVendor := subVendor\<rparr>
                      | _ \<Rightarrow> result))
           | _ \<Rightarrow> None)
      | _ \<Rightarrow> None)"

text \<open>An identity field as the stream prints it: hexadecimal, upper case, padded to four digits.\<close>

definition hex_digit :: "nat \<Rightarrow> char" where
  "hex_digit d = char_of (if d < 10 then 0x30 + d else 0x37 + d)"

definition hex4 :: "u16 \<Rightarrow> string" where
  "hex4 v = map (\<lambda>k. hex_digit (unat v div 16 ^ k mod 16)) [3, 2, 1, 0]"

definition Describe :: "PciIdentity \<Rightarrow> string" where
  "Describe i = ''PCI '' @ hex4 (vendor i) @ '':'' @ hex4 (device i) @
     (if subsystemVendor i \<noteq> 0 \<or> subsystemDevice i \<noteq> 0
      then '' subsystem '' @ hex4 (subsystemVendor i) @ '':'' @ hex4 (subsystemDevice i) else []) @
     (if IsKnownRtx3060Ti i then '' (known RTX 3060 Ti / GA104 ID)''
      else if IsNvidia i then '' (NVIDIA; exact model not classified yet)'' else [])"

section \<open>Round trip\<close>

lemma hex_value_digit: "d < 16 \<Longrightarrow> hex_value (hex_digit d) = Some d"
  by (auto simp: hex_value_def hex_digit_def Let_def of_char_of)

lemma hex_digit_of_char: "d < 16 \<Longrightarrow> (of_char (hex_digit d) :: nat) = (if d < 10 then 0x30 + d else 0x37 + d)"
  by (simp add: hex_digit_def of_char_of)

lemma hex_digit_neq:
  assumes "d < 16" and "(of_char c :: nat) \<notin> {0x30 .. 0x46}"
  shows "hex_digit d \<noteq> c"
  using assms hex_digit_of_char [OF assms(1)] by (auto split: if_splits)

lemma hex4_sum:
  "v mod 16 + (16 * (v div 16 mod 16) + (256 * (v div 256 mod 16) + 4096 * (v div 4096))) = (v :: nat)"
proof -
  have e: "v div 256 = v div 16 div 16" "v div 4096 = v div 256 div 16"
    using div_mult2_eq [of v 16 16] div_mult2_eq [of v 256 16] by simp_all
  have "16 * (v div 16) + v mod 16 = v" by simp
  moreover have "16 * (v div 256) + v div 16 mod 16 = v div 16" unfolding e(1) by (rule mult_div_mod_eq)
  moreover have "16 * (v div 4096) + v div 256 mod 16 = v div 256" unfolding e(2) by (rule mult_div_mod_eq)
  ultimately show ?thesis by linarith
qed

lemma Hex16_hex4: "Hex16 (hex4 v) = Some v"
proof -
  have v: "unat v < 65536" using unat_lt(2) [of v] by simp
  have "from_chars (hex4 v) 0 = (unat v, [])"
    using hex4_sum [of "unat v"] v by (simp add: hex4_def hex_value_digit algebra_simps)
  then show ?thesis using v by (simp add: Hex16_def) (simp add: hex4_def)
qed

text \<open>
  The identifier Windows reports, with any prefix of further fields behind it, parses to the
  identity it spells, whatever the case of its letters.
\<close>

definition hardware_id :: "PciIdentity \<Rightarrow> string" where
  "hardware_id i = ''PCI'' @ [char_of (0x5C :: nat)] @ ''VEN_'' @ hex4 (vendor i) @ ''&DEV_'' @ hex4 (device i) @
     ''&SUBSYS_'' @ hex4 (subsystemDevice i) @ hex4 (subsystemVendor i)"

lemma hex4_chars: "\<exists>a b c d. hex4 v = [a, b, c, d] \<and>
    {a, b, c, d} \<inter> {CHR ''_'', CHR ''V'', CHR ''S'', CHR ''U'', CHR ''Y'', CHR ''&''} = {}"
proof -
  have "hex_digit (n mod 16) \<notin> {CHR ''_'', CHR ''V'', CHR ''S'', CHR ''U'', CHR ''Y'', CHR ''&''}" for n
    using hex_digit_neq [of "n mod 16"] by auto
  moreover have "hex4 v = [hex_digit (unat v div 4096 mod 16), hex_digit (unat v div 256 mod 16),
      hex_digit (unat v div 16 mod 16), hex_digit (unat v mod 16)]" by (simp add: hex4_def)
  ultimately show ?thesis by blast
qed

lemma ParseWindowsPciHardwareId_hardware_id:
  assumes "Upper txt = hardware_id i @ rest"
  shows "ParseWindowsPciHardwareId txt = Some i"
proof -
  obtain a b c d where v: "hex4 (vendor i) = [a, b, c, d]"
    "{a, b, c, d} \<inter> {CHR ''_'', CHR ''V'', CHR ''S'', CHR ''U'', CHR ''Y'', CHR ''&''} = {}"
    using hex4_chars [of "vendor i"] by (elim exE conjE) (rule that)
  obtain e f g h where dv: "hex4 (device i) = [e, f, g, h]"
    "{e, f, g, h} \<inter> {CHR ''_'', CHR ''V'', CHR ''S'', CHR ''U'', CHR ''Y'', CHR ''&''} = {}"
    using hex4_chars [of "device i"] by (elim exE conjE) (rule that)
  obtain s1 s2 s3 s4 where sd: "hex4 (subsystemDevice i) = [s1, s2, s3, s4]" using hex4_chars [of "subsystemDevice i"] by (elim exE conjE) (rule that)
  obtain t1 t2 t3 t4 where sv: "hex4 (subsystemVendor i) = [t1, t2, t3, t4]" using hex4_chars [of "subsystemVendor i"] by (elim exE conjE) (rule that)
  let ?u = "hardware_id i @ rest"
  have u: "?u = [CHR ''P'', CHR ''C'', CHR ''I'', char_of (0x5C :: nat), CHR ''V'', CHR ''E'', CHR ''N'', CHR ''_'', a, b, c, d,
      CHR ''&'', CHR ''D'', CHR ''E'', CHR ''V'', CHR ''_'', e, f, g, h, CHR ''&'', CHR ''S'', CHR ''U'', CHR ''B'',
      CHR ''S'', CHR ''Y'', CHR ''S'', CHR ''_'', s1, s2, s3, s4, t1, t2, t3, t4] @ rest"
    by (simp add: hardware_id_def v(1) dv(1) sd sv)
  have "find_from ?u ''VEN_'' 0 = Some 4" unfolding u by (simp add: char_of_def)
  then have "Field ?u ''VEN_'' 4 = Some (hex4 (vendor i))"
    unfolding u by (simp add: Field_def slice_def v(1))
  moreover have "find_from ?u ''DEV_'' 0 = Some 13" unfolding u using v(2) by (auto simp: char_of_def)
  then have "Field ?u ''DEV_'' 4 = Some (hex4 (device i))"
    unfolding u by (simp add: Field_def slice_def dv(1))
  moreover have "find_from ?u ''SUBSYS_'' 0 = Some 22" unfolding u using v(2) dv(2) by (auto simp: char_of_def)
  then have "Field ?u ''SUBSYS_'' 8 = Some (hex4 (subsystemDevice i) @ hex4 (subsystemVendor i))"
    unfolding u by (simp add: Field_def slice_def sd sv)
  moreover have "take 4 ?u = ''PCI'' @ [char_of (0x5C :: nat)]" by (simp add: hardware_id_def)
  moreover have "slice (hex4 (subsystemDevice i) @ hex4 (subsystemVendor i)) 0 4 = hex4 (subsystemDevice i)"
    "slice (hex4 (subsystemDevice i) @ hex4 (subsystemVendor i)) 4 4 = hex4 (subsystemVendor i)"
    by (simp_all add: slice_def sd sv)
  ultimately show ?thesis
    using assms by (simp add: ParseWindowsPciHardwareId_def Hex16_hex4)
qed

end
