(* ===== verification/Package.thy ===== *)
theory Package
  imports Sha256 PciIdentity Vbios Frts Elf Nvfw
begin

text \<open>
  The boot package (\<open>include/rtxmac/boot_package.hpp\<close>, \<open>src/core/boot_package.cpp\<close>): the container that
  carries the five prepared payloads from the offline tool to the driver. The builder composes the
  VBIOS parser, the FRTS patch, the ELF lookup and the firmware containers and serialises their
  results; the parser accepts nothing it has not checked, hashes included. A read or store outside
  a span is \<open>None\<close>.
\<close>

section \<open>Data\<close>

definition kMagic :: "byte list" where
  "kMagic = map of_char ''RTXMACP1''"
definition kVersion :: u32 where "kVersion = 1"
definition kHeaderBytes :: u32 where "kHeaderBytes = 160"
definition kSectionRecordBytes :: u32 where "kSectionRecordBytes = 56"
definition kSectionCount :: u32 where "kSectionCount = 5"
definition kPayloadAlignment :: u64 where "kPayloadAlignment = 0x1000"
definition kSectionTableOffset :: u64 where "kSectionTableOffset = 160"
definition kVbiosDescriptorV3Bytes :: u64 where "kVbiosDescriptorV3Bytes = 44"
definition kReservedHeaderBegin :: nat where "kReservedHeaderBegin = 116"
definition kReservedHeaderEnd :: nat where "kReservedHeaderEnd = 160"

lemmas package_consts = kVersion_def kHeaderBytes_def kSectionRecordBytes_def kSectionCount_def
  kPayloadAlignment_def kSectionTableOffset_def kVbiosDescriptorV3Bytes_def kReservedHeaderBegin_def
  kReservedHeaderEnd_def

text \<open>The enumeration has a fixed 32-bit type, so a cast may produce any other value.\<close>

datatype SectionKind = GspFirmwareImage | GspFirmwareSignature | GspBootloader | FrtsFwsecImage
  | Sec2BooterImage | OtherSection u32

fun kind_value :: "SectionKind \<Rightarrow> u32" where
  "kind_value GspFirmwareImage = 1"
| "kind_value GspFirmwareSignature = 2"
| "kind_value GspBootloader = 3"
| "kind_value FrtsFwsecImage = 4"
| "kind_value Sec2BooterImage = 5"
| "kind_value (OtherSection v) = v"

definition cast_kind :: "u32 \<Rightarrow> SectionKind" where
  "cast_kind v = (if v = 1 then GspFirmwareImage else if v = 2 then GspFirmwareSignature
     else if v = 3 then GspBootloader else if v = 4 then FrtsFwsecImage
     else if v = 5 then Sec2BooterImage else OtherSection v)"

record SectionRecord =
  kind :: SectionKind
  offset :: u64
  size' :: u64
  sha256 :: "byte list"

record StaticMetadata =
  pci :: PciIdentity
  vramBytes :: u64
  gspAppVersion :: u32
  gspMonitorCodeOffset :: u32
  gspMonitorDataOffset :: u32
  gspManifestOffset :: u32
  fwsecPkcDataOffset :: u32
  fwsecImemPhysBase :: u32
  fwsecImemLoadSize :: u32
  fwsecImemVirtBase :: u32
  fwsecDmemPhysBase :: u32
  fwsecDmemLoadSize :: u32
  fwsecEngineIdMask :: u16
  fwsecUcodeId :: byte
  sec2CodeOffset :: u32
  sec2CodeSize :: u32
  sec2DataOffset :: u32
  sec2DataSize :: u32

record SourceInputs =
  pci :: PciIdentity
  vramBytes :: u64
  vbios :: "byte list"
  gspElf :: "byte list"
  gspBootloaderContainer :: "byte list"
  sec2BooterContainer :: "byte list"

datatype BuildStatus = Ok | InvalidTarget | InvalidVram | VbiosParseFailed | VbiosSignatureMissing
  | FrtsPatchFailed | GspFirmwareSectionMissing | GspSignatureSectionMissing | GspBootloaderParseFailed
  | Sec2BooterParseFailed | Sec2BooterPatchFailed | SizeOverflow

record BuildResult =
  status :: BuildStatus
  metadata :: StaticMetadata
  sections :: "SectionRecord list"
  bytes :: "byte list"

datatype ParseStatus = Ok | TooSmall | BadMagic | UnsupportedVersion | BadHeader | BadPackageSize
  | BadTarget | BadSectionTable | DuplicateOrUnknownSection | BadSectionRange | BadSectionAlignment
  | OverlappingSections | HashMismatch

record PackageView =
  status :: ParseStatus
  metadata :: StaticMetadata
  sections :: "SectionRecord list"
  packageBytes :: u64

text \<open>The value-initialised structures.\<close>

definition SectionRecord0 :: SectionRecord where
  "SectionRecord0 = \<lparr>kind = OtherSection 0, offset = 0, size' = 0, sha256 = replicate 32 0\<rparr>"

definition StaticMetadata0 :: StaticMetadata where
  "StaticMetadata0 = \<lparr>StaticMetadata.pci = \<lparr>vendor = 0, device = 0, subsystemVendor = 0, subsystemDevice = 0\<rparr>,
     vramBytes = 0, gspAppVersion = 0, gspMonitorCodeOffset = 0, gspMonitorDataOffset = 0, gspManifestOffset = 0,
     fwsecPkcDataOffset = 0, fwsecImemPhysBase = 0, fwsecImemLoadSize = 0, fwsecImemVirtBase = 0,
     fwsecDmemPhysBase = 0, fwsecDmemLoadSize = 0, fwsecEngineIdMask = 0, fwsecUcodeId = 0,
     sec2CodeOffset = 0, sec2CodeSize = 0, sec2DataOffset = 0, sec2DataSize = 0\<rparr>"

definition BuildResult0 :: BuildResult where
  "BuildResult0 = \<lparr>BuildResult.status = InvalidTarget, metadata = StaticMetadata0,
     sections = replicate 5 SectionRecord0, bytes = []\<rparr>"

definition PackageView0 :: PackageView where
  "PackageView0 = \<lparr>status = TooSmall, metadata = StaticMetadata0, sections = replicate 5 SectionRecord0,
     packageBytes = 0\<rparr>"

section \<open>Helpers\<close>

definition Fits :: "nat \<Rightarrow> u64 \<Rightarrow> u64 \<Rightarrow> bool" where
  "Fits total' off n \<longleftrightarrow> unat off \<le> total' \<and> unat n \<le> total' - unat off"

definition AlignUp :: "u64 \<Rightarrow> u64 \<Rightarrow> u64" where
  "AlignUp v a = (if a = 0 \<or> a AND (a - 1) \<noteq> 0 \<or> - 1 - (a - 1) < v then 0
     else (v + a - 1) AND NOT (a - 1))"

definition IsKnownKind :: "SectionKind \<Rightarrow> bool" where
  "IsKnownKind k \<longleftrightarrow> 1 \<le> kind_value k \<and> kind_value k \<le> 5"

definition Slice :: "byte list \<Rightarrow> u64 \<Rightarrow> u64 \<Rightarrow> byte list" where
  "Slice b off n = (if \<not> Fits (length b) off n then [] else slice b (unat off) (unat n))"

text \<open>The metadata block: the stores of the serialiser, in the order of the code, and the loads.\<close>

definition metadata_fields :: "StaticMetadata \<Rightarrow> store list" where
  "metadata_fields m =
     [st16 40 (vendor (StaticMetadata.pci m)), st16 42 (device (StaticMetadata.pci m)),
      st16 44 (subsystemVendor (StaticMetadata.pci m)), st16 46 (subsystemDevice (StaticMetadata.pci m)),
      st64 48 (StaticMetadata.vramBytes m), st32 56 (gspAppVersion m), st32 60 (gspMonitorCodeOffset m),
      st32 64 (gspMonitorDataOffset m), st32 68 (gspManifestOffset m), st32 72 (fwsecPkcDataOffset m),
      st32 76 (fwsecImemPhysBase m), st32 80 (fwsecImemLoadSize m), st32 84 (fwsecImemVirtBase m),
      st32 88 (fwsecDmemPhysBase m), st32 92 (fwsecDmemLoadSize m), st16 96 (fwsecEngineIdMask m),
      st8 98 (fwsecUcodeId m), st32 100 (sec2CodeOffset m), st32 104 (sec2CodeSize m),
      st32 108 (sec2DataOffset m), st32 112 (sec2DataSize m)]"

definition SerializeMetadata :: "byte list \<Rightarrow> StaticMetadata \<Rightarrow> byte list option" where
  "SerializeMetadata out m = write_all out (metadata_fields m)"

definition ParseMetadata :: "byte list \<Rightarrow> StaticMetadata option" where
  "ParseMetadata b = do {
     v \<leftarrow> LoadLe16 b 40; d \<leftarrow> LoadLe16 b 42; sv \<leftarrow> LoadLe16 b 44; sd \<leftarrow> LoadLe16 b 46; vram \<leftarrow> LoadLe64 b 48;
     a1 \<leftarrow> LoadLe32 b 56; a2 \<leftarrow> LoadLe32 b 60; a3 \<leftarrow> LoadLe32 b 64; a4 \<leftarrow> LoadLe32 b 68;
     f1 \<leftarrow> LoadLe32 b 72; f2 \<leftarrow> LoadLe32 b 76; f3 \<leftarrow> LoadLe32 b 80; f4 \<leftarrow> LoadLe32 b 84; f5 \<leftarrow> LoadLe32 b 88;
     f6 \<leftarrow> LoadLe32 b 92; f7 \<leftarrow> LoadLe16 b 96; f8 \<leftarrow> rd b 98;
     s1 \<leftarrow> LoadLe32 b 100; s2 \<leftarrow> LoadLe32 b 104; s3 \<leftarrow> LoadLe32 b 108; s4 \<leftarrow> LoadLe32 b 112;
     Some \<lparr>StaticMetadata.pci = \<lparr>vendor = v, device = d, subsystemVendor = sv, subsystemDevice = sd\<rparr>,
       vramBytes = vram, gspAppVersion = a1, gspMonitorCodeOffset = a2, gspMonitorDataOffset = a3,
       gspManifestOffset = a4, fwsecPkcDataOffset = f1, fwsecImemPhysBase = f2, fwsecImemLoadSize = f3,
       fwsecImemVirtBase = f4, fwsecDmemPhysBase = f5, fwsecDmemLoadSize = f6, fwsecEngineIdMask = f7,
       fwsecUcodeId = f8, sec2CodeOffset = s1, sec2CodeSize = s2, sec2DataOffset = s3, sec2DataSize = s4\<rparr> }"

section \<open>Building\<close>

text \<open>The first part of \<open>BuildGa10xPackage\<close>: the checks of the inputs up to the five payloads, or the
  status of the first failure.\<close>

definition PreparePayloads ::
    "SourceInputs \<Rightarrow> (BuildStatus + StaticMetadata \<times> byte list list) option" where
  "PreparePayloads inp =
     (if \<not> IsKnownRtx3060Ti (SourceInputs.pci inp) then Some (Inl InvalidTarget)
      else do {
        frtsCommand \<leftarrow> BuildFrtsCommand (SourceInputs.vramBytes inp);
        if frtsCommand = None \<or> SourceInputs.vramBytes inp AND (kPayloadAlignment - 1) \<noteq> 0
        then Some (Inl InvalidVram)
        else do {
          fwsec \<leftarrow> ParseProductionFwsec (vbios inp);
          if FwsecInfo.status fwsec \<noteq> Vbios.ParseStatus.Ok then Some (Inl VbiosParseFailed)
          else if ucast (descriptorSize fwsec) \<le> kVbiosDescriptorV3Bytes then Some (Inl VbiosSignatureMissing)
          else let signatureOffset = ucast (descriptorOffset fwsec) + kVbiosDescriptorV3Bytes;
                   sigBytes = ucast (descriptorSize fwsec) - kVbiosDescriptorV3Bytes;
                   storedImageOffset = ucast (descriptorOffset fwsec) + ucast (descriptorSize fwsec);
                   roundedStored = (ucast (storedSize (v3 fwsec)) + 255) AND NOT 255;
                   vbiosSignature = Slice (vbios inp) signatureOffset sigBytes;
                   storedImage = Slice (vbios inp) storedImageOffset roundedStored
          in if vbiosSignature = [] \<or> storedImage = [] then Some (Inl VbiosSignatureMissing)
          else do {
            frtsPlan \<leftarrow> PlanFwsecFrtsPatch (v3 fwsec) storedImage (length vbiosSignature);
            patchedFrts \<leftarrow> ApplyFwsecFrtsPatch storedImage frtsPlan (the frtsCommand) vbiosSignature;
            if patchedFrts = None then Some (Inl FrtsPatchFailed)
            else do {
              fwSection \<leftarrow> Elf.FindSection (gspElf inp) (map of_char ''.fwimage'');
              if Section.status fwSection \<noteq> Elf.Status.Ok \<or> Section.size' fwSection = 0
              then Some (Inl GspFirmwareSectionMissing)
              else do {
                sigSection \<leftarrow> Elf.FindSection (gspElf inp) (map of_char ''.fwsignature_ga10x'');
                if Section.status sigSection \<noteq> Elf.Status.Ok \<or> Section.size' sigSection = 0
                then Some (Inl GspSignatureSectionMissing)
                else let gspFirmware = Slice (gspElf inp) (Section.offset fwSection) (Section.size' fwSection);
                         gspSignature = Slice (gspElf inp) (Section.offset sigSection) (Section.size' sigSection)
                in if gspFirmware = [] \<or> gspSignature = [] then Some (Inl GspFirmwareSectionMissing)
                else do {
                  gspBoot \<leftarrow> ParseRiscvBootloader (gspBootloaderContainer inp);
                  if RiscvBootloaderInfo.status gspBoot \<noteq> Nvfw.ParseStatus.Ok \<or>
                     BinHeader.dataSize (RiscvBootloaderInfo.bin' gspBoot) = 0
                  then Some (Inl GspBootloaderParseFailed)
                  else let gspBootPayload = Slice (gspBootloaderContainer inp)
                             (ucast (BinHeader.dataOffset (RiscvBootloaderInfo.bin' gspBoot)))
                             (ucast (BinHeader.dataSize (RiscvBootloaderInfo.bin' gspBoot)))
                  in if gspBootPayload = [] then Some (Inl GspBootloaderParseFailed)
                  else do {
                    sec2Info \<leftarrow> ParseBooterImage (sec2BooterContainer inp);
                    if BooterImageInfo.status sec2Info \<noteq> Nvfw.ParseStatus.Ok then Some (Inl Sec2BooterParseFailed)
                    else do {
                      patchedSec2 \<leftarrow> PatchBooterProductionSignature (sec2BooterContainer inp) sec2Info;
                      if BooterPatchResult.status patchedSec2 \<noteq> BooterPatchStatus.Ok \<or>
                         BooterPatchResult.bytes patchedSec2 = []
                      then Some (Inl Sec2BooterPatchFailed)
                      else Some (Inr (\<lparr>StaticMetadata.pci = SourceInputs.pci inp,
                          vramBytes = SourceInputs.vramBytes inp,
                          gspAppVersion = appVersion (descriptor gspBoot),
                          gspMonitorCodeOffset = monitorCodeOffset (descriptor gspBoot),
                          gspMonitorDataOffset = monitorDataOffset (descriptor gspBoot),
                          gspManifestOffset = manifestOffset (descriptor gspBoot),
                          fwsecPkcDataOffset = pkcDataOffset (v3 fwsec),
                          fwsecImemPhysBase = imemPhysBase (v3 fwsec),
                          fwsecImemLoadSize = imemLoadSize (v3 fwsec),
                          fwsecImemVirtBase = imemVirtBase (v3 fwsec),
                          fwsecDmemPhysBase = dmemPhysBase (v3 fwsec),
                          fwsecDmemLoadSize = dmemLoadSize (v3 fwsec),
                          fwsecEngineIdMask = engineIdMask (v3 fwsec),
                          fwsecUcodeId = ucodeId (v3 fwsec),
                          sec2CodeOffset = AppHeaderV2.offset (firstApp sec2Info),
                          sec2CodeSize = AppHeaderV2.size' (firstApp sec2Info),
                          sec2DataOffset = osDataOffset (load' sec2Info),
                          sec2DataSize = osDataSize (load' sec2Info)\<rparr>,
                        [gspFirmware, gspSignature, gspBootPayload, the patchedFrts,
                         BooterPatchResult.bytes patchedSec2])) } } } } } } } })"

definition kinds :: "SectionKind list" where
  "kinds = [GspFirmwareImage, GspFirmwareSignature, GspBootloader, FrtsFwsecImage, Sec2BooterImage]"

text \<open>The layout loop over the payloads from index \<open>i\<close>; an overflow returns the records filled so far.\<close>

fun LayoutSections ::
    "nat \<Rightarrow> byte list list \<Rightarrow> u64 \<Rightarrow> SectionRecord list \<Rightarrow> (SectionRecord list \<times> u64 option) option" where
  "LayoutSections i [] cursor recs = Some (recs, Some cursor)"
| "LayoutSections i (p # ps) cursor recs =
     (if p = [] \<or> SIZE_MAX - unat cursor < length p then Some (recs, None)
      else do {
        digest \<leftarrow> Sha256 p;
        let recs = recs[i := \<lparr>kind = kinds ! i, offset = cursor, size' = of_nat (length p), sha256 = digest\<rparr>];
        let cursor = cursor + of_nat (length p);
        let cursor = (if i + 1 \<noteq> 5 then AlignUp cursor kPayloadAlignment else cursor);
        if i + 1 \<noteq> 5 \<and> cursor = 0 then Some (recs, None)
        else LayoutSections (Suc i) ps cursor recs })"

text \<open>The stores of the serialisation: the header, the metadata, and each record with its payload.\<close>

definition header_fields :: "u64 \<Rightarrow> store list" where
  "header_fields cursor =
     [(0, kMagic), st32 8 kVersion, st32 12 kHeaderBytes, st64 16 cursor, st64 24 kSectionTableOffset,
      st32 32 kSectionCount, st32 36 kSectionRecordBytes]"

definition section_fields :: "nat \<Rightarrow> SectionRecord \<Rightarrow> byte list \<Rightarrow> store list" where
  "section_fields i r p = (let ro = unat kSectionTableOffset + i * unat kSectionRecordBytes in
     [st32 ro (kind_value (kind r)), st32 (ro + 4) 0, st64 (ro + 8) (offset r), st64 (ro + 16) (size' r),
      (ro + 24, sha256 r), (unat (offset r), p)])"

definition BuildGa10xPackage :: "SourceInputs \<Rightarrow> BuildResult option" where
  "BuildGa10xPackage inp = do {
     prepared \<leftarrow> PreparePayloads inp;
     case prepared of
       Inl e \<Rightarrow> Some (BuildResult0\<lparr>BuildResult.status := e\<rparr>)
     | Inr (m, payloads) \<Rightarrow>
         let out = BuildResult0\<lparr>BuildResult.metadata := m\<rparr>;
             tableEnd = kSectionTableOffset + ucast kSectionCount * ucast kSectionRecordBytes;
             cursor = AlignUp tableEnd kPayloadAlignment
         in if cursor = 0 then Some (out\<lparr>BuildResult.status := SizeOverflow\<rparr>)
         else do {
           (recs, finished) \<leftarrow> LayoutSections 0 payloads cursor (BuildResult.sections out);
           let out = out\<lparr>BuildResult.sections := recs\<rparr>;
           case finished of
             None \<Rightarrow> Some (out\<lparr>BuildResult.status := SizeOverflow\<rparr>)
           | Some cursor \<Rightarrow>
               if SIZE_MAX < unat cursor then Some (out\<lparr>BuildResult.status := SizeOverflow\<rparr>)
               else do {
                 b \<leftarrow> write_all (replicate (unat cursor) 0) (header_fields cursor);
                 b \<leftarrow> SerializeMetadata b m;
                 b \<leftarrow> write_all b (concat (map (\<lambda>i. section_fields i (recs ! i) (payloads ! i)) [0 ..< 5]));
                 Some (out\<lparr>BuildResult.bytes := b, BuildResult.status := BuildStatus.Ok\<rparr>) } } }"

section \<open>Parsing\<close>

text \<open>The reserved bytes of the header, from index \<open>i\<close>; \<open>Some False\<close> is a byte that is not zero.\<close>

fun reserved_zero :: "byte list \<Rightarrow> nat \<Rightarrow> nat \<Rightarrow> bool option" where
  "reserved_zero b i 0 = Some True"
| "reserved_zero b i (Suc n) = do { x \<leftarrow> rd b i; if x \<noteq> 0 then Some False else reserved_zero b (Suc i) n }"

text \<open>The section table: the record at index \<open>i\<close>, and the loop.\<close>

definition ParseSection ::
    "byte list \<Rightarrow> u64 \<Rightarrow> nat \<Rightarrow> bool list \<Rightarrow> (ParseStatus + SectionRecord \<times> bool list) option" where
  "ParseSection b payloadBegin i seen = do {
     let ro = unat kSectionTableOffset + i * unat kSectionRecordBytes;
     k \<leftarrow> LoadLe32 b ro;
     z \<leftarrow> LoadLe32 b (ro + 4);
     let knd = cast_kind k;
     if z \<noteq> 0 \<or> \<not> IsKnownKind knd then Some (Inl DuplicateOrUnknownSection)
     else do {
       let kindIndex = unat (kind_value knd - 1);
       dup \<leftarrow> rd seen kindIndex;
       if dup then Some (Inl DuplicateOrUnknownSection)
       else do {
         off \<leftarrow> LoadLe64 b (ro + 8);
         n \<leftarrow> LoadLe64 b (ro + 16);
         digest \<leftarrow> rd_seq b (ro + 24) 32;
         if n = 0 \<or> \<not> Fits (length b) off n \<or> off < payloadBegin then Some (Inl BadSectionRange)
         else if off AND (kPayloadAlignment - 1) \<noteq> 0 then Some (Inl BadSectionAlignment)
         else Some (Inr (\<lparr>kind = knd, offset = off, size' = n, sha256 = digest\<rparr>, seen[kindIndex := True])) } } }"

fun ParseSections ::
    "byte list \<Rightarrow> u64 \<Rightarrow> nat \<Rightarrow> nat \<Rightarrow> bool list \<Rightarrow> SectionRecord list \<Rightarrow> (ParseStatus \<times> SectionRecord list) option" where
  "ParseSections b payloadBegin i 0 seen recs = Some (ParseStatus.Ok, recs)"
| "ParseSections b payloadBegin i (Suc n) seen recs = do {
     r \<leftarrow> ParseSection b payloadBegin i seen;
     case r of Inl e \<Rightarrow> Some (e, recs)
     | Inr (rec, seen) \<Rightarrow> ParseSections b payloadBegin (Suc i) n seen (recs[i := rec]) }"

definition overlaps :: "SectionRecord \<Rightarrow> SectionRecord \<Rightarrow> bool" where
  "overlaps a b \<longleftrightarrow> offset a < offset b + size' b \<and> offset b < offset a + size' a"

fun any_overlap :: "SectionRecord list \<Rightarrow> bool" where
  "any_overlap [] \<longleftrightarrow> False"
| "any_overlap (a # rs) \<longleftrightarrow> list_ex (overlaps a) rs \<or> any_overlap rs"

fun hashes_match :: "byte list \<Rightarrow> SectionRecord list \<Rightarrow> bool option" where
  "hashes_match b [] = Some True"
| "hashes_match b (r # rs) = do {
     let payload = Slice b (offset r) (size' r);
     digest \<leftarrow> Sha256 payload;
     if payload = [] \<or> \<not> Sha256Equal digest (sha256 r) then Some False else hashes_match b rs }"

definition ParseAndVerify :: "byte list \<Rightarrow> PackageView option" where
  "ParseAndVerify b =
     (let out = PackageView0; tableBytes = ucast kSectionCount * ucast kSectionRecordBytes in
      if length b < unat kHeaderBytes \<or> \<not> Fits (length b) kSectionTableOffset tableBytes then Some out
      else do {
        magic \<leftarrow> rd_seq b 0 8;
        if magic \<noteq> kMagic then Some (out\<lparr>status := BadMagic\<rparr>)
        else do {
          ver \<leftarrow> LoadLe32 b 8;
          if ver \<noteq> kVersion then Some (out\<lparr>status := UnsupportedVersion\<rparr>)
          else do {
            a \<leftarrow> LoadLe32 b 12; c \<leftarrow> LoadLe64 b 24; d \<leftarrow> LoadLe32 b 32; e \<leftarrow> LoadLe32 b 36; x \<leftarrow> rd b 99;
            if a \<noteq> kHeaderBytes \<or> c \<noteq> kSectionTableOffset \<or> d \<noteq> kSectionCount \<or> e \<noteq> kSectionRecordBytes \<or> x \<noteq> 0
            then Some (out\<lparr>status := BadHeader\<rparr>)
            else do {
              zero \<leftarrow> reserved_zero b kReservedHeaderBegin (kReservedHeaderEnd - kReservedHeaderBegin);
              if \<not> zero then Some (out\<lparr>status := BadHeader\<rparr>)
              else do {
                n \<leftarrow> LoadLe64 b 16;
                let out = out\<lparr>packageBytes := n\<rparr>;
                if unat n \<noteq> length b then Some (out\<lparr>status := BadPackageSize\<rparr>)
                else do {
                  m \<leftarrow> ParseMetadata b;
                  let out = out\<lparr>metadata := m\<rparr>;
                  frts \<leftarrow> BuildFrtsCommand (StaticMetadata.vramBytes m);
                  if \<not> IsKnownRtx3060Ti (StaticMetadata.pci m) \<or> frts = None \<or>
                     StaticMetadata.vramBytes m AND (kPayloadAlignment - 1) \<noteq> 0
                  then Some (out\<lparr>status := BadTarget\<rparr>)
                  else let payloadBegin = AlignUp (kSectionTableOffset + tableBytes) kPayloadAlignment in
                    if payloadBegin = 0 then Some (out\<lparr>status := BadSectionTable\<rparr>)
                    else do {
                      (st, recs) \<leftarrow> ParseSections b payloadBegin 0 5 (replicate 5 False) (sections out);
                      let out = out\<lparr>sections := recs\<rparr>;
                      if st \<noteq> ParseStatus.Ok then Some (out\<lparr>status := st\<rparr>)
                      else if any_overlap recs then Some (out\<lparr>status := OverlappingSections\<rparr>)
                      else do {
                        ok \<leftarrow> hashes_match b recs;
                        Some (out\<lparr>status := (if ok then ParseStatus.Ok else HashMismatch)\<rparr>) } } } } } } } })"

fun FindSection_in :: "SectionRecord list \<Rightarrow> byte list \<Rightarrow> SectionKind \<Rightarrow> byte list" where
  "FindSection_in [] b k = []"
| "FindSection_in (r # rs) b k = (if kind r = k then Slice b (offset r) (size' r) else FindSection_in rs b k)"

definition FindSection :: "byte list \<Rightarrow> PackageView \<Rightarrow> SectionKind \<Rightarrow> byte list" where
  "FindSection b v k =
     (if status v \<noteq> ParseStatus.Ok \<or> \<not> IsKnownKind k \<or> unat (packageBytes v) \<noteq> length b then []
      else FindSection_in (sections v) b k)"

fun BuildStatusName :: "BuildStatus \<Rightarrow> string" where
  "BuildStatusName BuildStatus.Ok = ''ok''"
| "BuildStatusName InvalidTarget = ''invalid-target''"
| "BuildStatusName InvalidVram = ''invalid-vram''"
| "BuildStatusName VbiosParseFailed = ''vbios-parse-failed''"
| "BuildStatusName VbiosSignatureMissing = ''vbios-signature-missing''"
| "BuildStatusName FrtsPatchFailed = ''frts-patch-failed''"
| "BuildStatusName GspFirmwareSectionMissing = ''gsp-fwimage-missing''"
| "BuildStatusName GspSignatureSectionMissing = ''gsp-ga10x-signature-missing''"
| "BuildStatusName GspBootloaderParseFailed = ''gsp-bootloader-parse-failed''"
| "BuildStatusName Sec2BooterParseFailed = ''sec2-booter-parse-failed''"
| "BuildStatusName Sec2BooterPatchFailed = ''sec2-booter-patch-failed''"
| "BuildStatusName SizeOverflow = ''size-overflow''"

fun ParseStatusName :: "ParseStatus \<Rightarrow> string" where
  "ParseStatusName ParseStatus.Ok = ''ok''"
| "ParseStatusName TooSmall = ''too-small''"
| "ParseStatusName BadMagic = ''bad-magic''"
| "ParseStatusName UnsupportedVersion = ''unsupported-version''"
| "ParseStatusName BadHeader = ''bad-header''"
| "ParseStatusName BadPackageSize = ''bad-package-size''"
| "ParseStatusName BadTarget = ''bad-target''"
| "ParseStatusName ParseStatus.BadSectionTable = ''bad-section-table''"
| "ParseStatusName DuplicateOrUnknownSection = ''duplicate-or-unknown-section''"
| "ParseStatusName ParseStatus.BadSectionRange = ''bad-section-range''"
| "ParseStatusName BadSectionAlignment = ''bad-section-alignment''"
| "ParseStatusName OverlappingSections = ''overlapping-sections''"
| "ParseStatusName HashMismatch = ''hash-mismatch''"

lemma PackageStatusName_inj:
  "BuildStatusName e = BuildStatusName e' \<longleftrightarrow> e = e'" "ParseStatusName s = ParseStatusName s' \<longleftrightarrow> s = s'"
  by (cases e; cases e'; simp) (cases s; cases s'; simp)

section \<open>Disjoint stores\<close>

text \<open>Stores in any order: if they are in range and pairwise disjoint, each reads back and every other
  byte is unchanged.\<close>

definition disjoint_stores :: "store list \<Rightarrow> bool" where
  "disjoint_stores ss \<longleftrightarrow> sorted_wrt (\<lambda>(o1, v1) (o2, v2). o1 + length v1 \<le> o2 \<or> o2 + length v2 \<le> o1) ss"

lemma disjoint_stores_simps [simp]:
  "disjoint_stores []"
  "disjoint_stores ((off, vs) # ss) \<longleftrightarrow> disjoint_stores ss \<and>
     (\<forall>(o2, v2) \<in> set ss. off + length vs \<le> o2 \<or> o2 + length v2 \<le> off)"
  by (auto simp: disjoint_stores_def)

lemma write_all_disjoint:
  assumes "disjoint_stores ss" and "\<forall>(off, vs) \<in> set ss. off + length vs \<le> length b"
  shows "\<exists>b'. write_all b ss = Some b' \<and> length b' = length b \<and>
    (\<forall>(off, vs) \<in> set ss. slice b' off (length vs) = vs) \<and>
    (\<forall>j n. (\<forall>(off, vs) \<in> set ss. j + n \<le> off \<or> off + length vs \<le> j) \<longrightarrow> slice b' j n = slice b j n)"
  using assms
proof (induction ss arbitrary: b)
  case (Cons s ss)
  obtain off vs where s: "s = (off, vs)" by (cases s)
  have fits: "off + length vs \<le> length b" using Cons.prems(2) by (simp add: s)
  let ?b = "put b off vs"
  have put: "wr_seq b off vs = Some ?b" "length ?b = length b" using fits by (auto simp: mem_simps)
  have dis: "\<forall>(o2, v2) \<in> set ss. off + length vs \<le> o2 \<or> o2 + length v2 \<le> off" "disjoint_stores ss"
    using Cons.prems(1) by (simp_all add: s)
  obtain b' where b': "write_all ?b ss = Some b'" "length b' = length b"
    "\<forall>(off, vs) \<in> set ss. slice b' off (length vs) = vs"
    "\<And>j n. (\<forall>(off, vs) \<in> set ss. j + n \<le> off \<or> off + length vs \<le> j) \<Longrightarrow> slice b' j n = slice ?b j n"
    using Cons.IH [of ?b] dis(2) Cons.prems(2) put(2) by auto
  have "slice b' off (length vs) = slice ?b off (length vs)" using dis(1) by (intro b'(4)) auto
  then have "slice b' off (length vs) = vs" using fits by simp
  moreover have "slice b' j n = slice b j n"
    if "\<forall>(o2, v2) \<in> set (s # ss). j + n \<le> o2 \<or> o2 + length v2 \<le> j" for j n
  proof -
    have "slice b' j n = slice ?b j n" using that by (intro b'(4)) auto
    also have "\<dots> = slice b j n" using that fits by (intro slice_put_other) (auto simp: s)
    finally show ?thesis .
  qed
  ultimately show ?case using put(1) b'(1-3) by (auto simp: s)
qed simp

section \<open>Layout of the payloads\<close>

lemma AlignUp_to_page:
  assumes "AlignUp v kPayloadAlignment \<noteq> 0"
  shows "unat v \<le> unat (AlignUp v kPayloadAlignment) \<and> 4096 dvd unat (AlignUp v kPayloadAlignment)"
proof -
  have g: "\<not> - 1 - (0xFFF :: u64) < v" using assms by (auto simp: AlignUp_def kPayloadAlignment_def)
  then have "unat v + 0xFFF < 2 ^ 64" unfolding add_guard64 by simp
  then have sum: "unat (v + 0xFFF) = unat v + 0xFFF" by (simp add: unat_add_nowrap)
  have "AlignUp v kPayloadAlignment = (v + 0xFFF) AND NOT (mask 12)"
    using g by (simp add: AlignUp_def kPayloadAlignment_def mask_eq_exp_minus_1) (simp add: add.commute)
  then have e: "unat (AlignUp v kPayloadAlignment) = unat v + 0xFFF - (unat v + 0xFFF) mod 4096"
    using unat_and_not_mask [of "v + 0xFFF" 12] by (simp only: sum) simp
  have "4096 dvd unat v + 0xFFF - (unat v + 0xFFF) mod 4096" by (rule dvd_minus_mod)
  moreover have "(unat v + 0xFFF) mod 4096 \<le> 0xFFF"
    using mod_less_divisor [of 4096 "unat v + 0xFFF"] by linarith
  ultimately show ?thesis unfolding e by linarith
qed

text \<open>What the layout loop makes of the payloads from index \<open>i\<close>: each gets a page-aligned place behind
  everything before it.\<close>

definition laid_out :: "nat \<Rightarrow> nat \<Rightarrow> byte list \<Rightarrow> SectionRecord \<Rightarrow> bool" where
  "laid_out lo i p r \<longleftrightarrow> kind r = kinds ! i \<and> lo \<le> unat (offset r) \<and> 4096 dvd unat (offset r) \<and>
     unat (size' r) = length p \<and> 0 < length p \<and> sha256 r = Fips180.sha256 p"

fun sections_laid_out :: "nat \<Rightarrow> nat \<Rightarrow> byte list list \<Rightarrow> SectionRecord list \<Rightarrow> nat \<Rightarrow> bool" where
  "sections_laid_out lo i [] [] hi \<longleftrightarrow> lo \<le> hi"
| "sections_laid_out lo i (p # ps) (r # rs) hi \<longleftrightarrow> laid_out lo i p r \<and>
     sections_laid_out (unat (offset r) + length p) (Suc i) ps rs hi"
| "sections_laid_out lo i _ _ hi \<longleftrightarrow> False"

lemma sections_laid_out_mono: "sections_laid_out lo i ps rs hi \<Longrightarrow> lo' \<le> lo \<Longrightarrow> sections_laid_out lo' i ps rs hi"
  by (cases ps; cases rs) (auto simp: laid_out_def)

lemma LayoutSections_laid_out:
  "LayoutSections i ps cursor recs = Some (recs', Some fin) \<Longrightarrow> i + length ps = 5 \<Longrightarrow> length recs = 5 \<Longrightarrow>
    (ps \<noteq> [] \<longrightarrow> 4096 dvd unat cursor) \<Longrightarrow> length recs' = 5 \<and> take i recs' = take i recs \<and>
    sections_laid_out (unat cursor) i ps (drop i recs') (unat fin)"
proof (induction i ps cursor recs rule: LayoutSections.induct)
  case (1 i cursor recs)
  then show ?case by simp
next
  case (2 i p ps cursor recs)
  have p: "p \<noteq> []" "length p \<le> SIZE_MAX - unat cursor"
    using 2(2) by (auto split: if_splits)
  let ?r = "\<lparr>kind = kinds ! i, offset = cursor, size' = of_nat (length p), sha256 = Fips180.sha256 p\<rparr>"
  let ?c1 = "cursor + of_nat (length p)"
  let ?c2 = "if i + 1 \<noteq> 5 then AlignUp ?c1 kPayloadAlignment else ?c1"
  have small: "length p < 2 ^ 64" using p(2) by simp
  have "unat cursor + length p < 2 ^ 64" using p(2) unat_lt(4) [of cursor] by simp
  then have c1: "unat ?c1 = unat cursor + length p" using small by (simp add: unat_add_nowrap unat_of_nat_small)
  have next': "\<not> (i + 1 \<noteq> 5 \<and> ?c2 = 0)" "LayoutSections (Suc i) ps ?c2 (recs[i := ?r]) = Some (recs', Some fin)"
    using 2(2) p by (auto simp: Sha256_eq Let_def split: if_splits)
  have c2: "unat ?c1 \<le> unat ?c2" "ps \<noteq> [] \<longrightarrow> 4096 dvd unat ?c2"
    using next'(1) AlignUp_to_page [of ?c1] 2(3) by (auto split: if_splits)
  have i: "i < length recs" using 2(3,4) by simp
  have IH: "length recs' = 5 \<and> take (Suc i) recs' = take (Suc i) (recs[i := ?r]) \<and>
      sections_laid_out (unat ?c2) (Suc i) ps (drop (Suc i) recs') (unat fin)"
    using p 2(3,4) c2(2) by (intro 2(1) [OF _ Sha256_eq refl refl refl next']) auto
  then have e: "take (Suc i) recs' = take (Suc i) (recs[i := ?r])" by blast
  have "recs' ! i = take (Suc i) recs' ! i" by simp
  also have "\<dots> = ?r" using i unfolding e by simp
  finally have ri1: "recs' ! i = ?r" .
  have "take i recs' = take i (take (Suc i) recs')" by (simp add: min_def)
  also have "\<dots> = take i recs" unfolding e by (simp add: min_def)
  finally have ri2: "take i recs' = take i recs" .
  have "drop i recs' = ?r # drop (Suc i) recs'" using IH i ri1 2(4) by (metis Cons_nth_drop_Suc)
  moreover have "laid_out (unat cursor) i p ?r"
    using p(1) 2(5) small by (simp add: laid_out_def unat_of_nat_small)
  moreover have "sections_laid_out (unat cursor + length p) (Suc i) ps (drop (Suc i) recs') (unat fin)"
    using IH c1 c2(1) by (auto intro: sections_laid_out_mono)
  ultimately show ?case using IH ri2 by simp
qed

lemma sections_laid_out_le: "sections_laid_out lo i ps rs hi \<Longrightarrow> lo \<le> hi"
  by (induction lo i ps rs hi rule: sections_laid_out.induct) (auto simp: laid_out_def)

lemma sections_laid_out_nth:
  "sections_laid_out lo i ps rs hi \<Longrightarrow> length ps = length rs \<and>
    (\<forall>j < length rs. laid_out lo (i + j) (ps ! j) (rs ! j) \<and> unat (offset (rs ! j)) + length (ps ! j) \<le> hi \<and>
      (\<forall>k < j. unat (offset (rs ! k)) + length (ps ! k) \<le> unat (offset (rs ! j))))"
proof (induction lo i ps rs hi rule: sections_laid_out.induct)
  case (2 lo i p ps r rs hi)
  let ?mid = "unat (offset r) + length p"
  have r: "laid_out lo i p r" and rest: "sections_laid_out ?mid (Suc i) ps rs hi" using 2(2) by simp_all
  have mid: "lo \<le> ?mid" "?mid \<le> hi" using r sections_laid_out_le [OF rest] by (simp_all add: laid_out_def)
  note IH = 2(1) [OF rest]
  show ?case
  proof (intro conjI allI impI)
    show "length (p # ps) = length (r # rs)" using IH by simp
  next
    fix j
    assume "j < length (r # rs)"
    then show "laid_out lo (i + j) ((p # ps) ! j) ((r # rs) ! j)"
      using r IH mid by (cases j) (auto simp: laid_out_def)
  next
    fix j
    assume "j < length (r # rs)"
    then show "unat (offset ((r # rs) ! j)) + length ((p # ps) ! j) \<le> hi"
      using mid IH by (cases j) auto
  next
    fix j k
    assume j: "j < length (r # rs)" "k < j"
    then obtain j' where j': "j = Suc j'" "j' < length rs" by (cases j) auto
    show "unat (offset ((r # rs) ! k)) + length ((p # ps) ! k) \<le> unat (offset ((r # rs) ! j))"
    proof (cases k)
      case 0
      then show ?thesis using IH j' by (auto simp: laid_out_def)
    next
      case (Suc k')
      then show ?thesis using IH j' j(2) by auto
    qed
  qed
qed simp_all

section \<open>The serialised package\<close>

definition package_fields :: "u64 \<Rightarrow> StaticMetadata \<Rightarrow> SectionRecord list \<Rightarrow> byte list list \<Rightarrow> store list" where
  "package_fields cursor m recs ps = header_fields cursor @ metadata_fields m @
     concat (map (\<lambda>i. section_fields i (recs ! i) (ps ! i)) [0 ..< 5])"

lemma disjoint_stores_append:
  "disjoint_stores (xs @ ys) \<longleftrightarrow> disjoint_stores xs \<and> disjoint_stores ys \<and>
    (\<forall>(o1, v1) \<in> set xs. \<forall>(o2, v2) \<in> set ys. o1 + length v1 \<le> o2 \<or> o2 + length v2 \<le> o1)"
  by (auto simp: disjoint_stores_def sorted_wrt_append split_beta)

lemma fields_in_disjoint: "fields_in lo ss hi \<Longrightarrow> disjoint_stores ss"
proof (induction lo ss hi rule: fields_in.induct)
  case (2 lo off vs ss hi)
  then show ?case using fields_in_bounds [of "off + length vs" ss hi] by auto
qed simp

lemma disjoint_stores_concat:
  "\<forall>i < n. disjoint_stores (g i) \<Longrightarrow>
    \<forall>j < n. \<forall>i < j. \<forall>(o1, v1) \<in> set (g i). \<forall>(o2, v2) \<in> set (g j). o1 + length v1 \<le> o2 \<or> o2 + length v2 \<le> o1 \<Longrightarrow>
    disjoint_stores (concat (map g [0 ..< n]))"
  by (induction n) (auto simp: disjoint_stores_append)

lemma stores_apart:
  assumes "\<And>off vs. (off, vs) \<in> set xs \<Longrightarrow> off + length vs \<le> k" and "\<And>off vs. (off, vs) \<in> set ys \<Longrightarrow> k \<le> off"
  shows "\<forall>(o1, v1) \<in> set xs. \<forall>(o2, v2) \<in> set ys. o1 + length v1 \<le> o2 \<or> o2 + length v2 \<le> o1"
  using assms by (fastforce intro: order_trans)

lemma stores_below:
  assumes "\<And>off vs. (off, vs) \<in> set xs \<Longrightarrow> off + length vs \<le> k" and "k \<le> hi"
    and "\<And>off vs. (off, vs) \<in> set ys \<Longrightarrow> k \<le> off \<and> off + length vs \<le> hi"
  shows "\<forall>(off, vs) \<in> set (xs @ ys). off + length vs \<le> hi"
  using assms by (fastforce intro: order_trans)

lemma header_fields_in: "fields_in 0 (header_fields cursor @ metadata_fields m) 116"
  by (simp add: header_fields_def metadata_fields_def kMagic_def)

lemma section_fields_split:
  "section_fields i r p = [st32 (160 + 56 * i) (kind_value (kind r)), st32 (164 + 56 * i) 0,
     st64 (168 + 56 * i) (offset r), st64 (176 + 56 * i) (size' r), (184 + 56 * i, sha256 r), (unat (offset r), p)]"
  by (simp add: section_fields_def package_consts Let_def)

text \<open>Every field of a laid-out package is inside it and apart from the others.\<close>

lemma package_fields_disjoint:
  assumes "sections_laid_out 4096 0 ps recs hi" and "length recs = 5"
  shows "disjoint_stores (package_fields cursor m recs ps)"
    and "\<forall>(off, vs) \<in> set (package_fields cursor m recs ps). off + length vs \<le> hi"
proof -
  note nth = sections_laid_out_nth [OF assms(1)]
  have hi: "4096 \<le> hi" using sections_laid_out_le [OF assms(1)] .
  have lo: "4096 \<le> unat (offset (recs ! i))" "length (sha256 (recs ! i)) = 32"
      "unat (offset (recs ! i)) + length (ps ! i) \<le> hi" if "i < 5" for i
    using nth that assms(2) by (auto simp: laid_out_def)
  have ord: "unat (offset (recs ! i)) + length (ps ! i) \<le> unat (offset (recs ! j))" if "i < j" "j < 5" for i j
    using nth that assms(2) by auto
  have one: "disjoint_stores (section_fields i (recs ! i) (ps ! i))" if "i < 5" for i
    using lo [OF that] that by (simp add: section_fields_split)
  have two: "\<forall>(o1, v1) \<in> set (section_fields i (recs ! i) (ps ! i)). \<forall>(o2, v2) \<in> set (section_fields j (recs ! j) (ps ! j)).
      o1 + length v1 \<le> o2 \<or> o2 + length v2 \<le> o1" if "i < j" "j < 5" for i j
    using lo [of i] lo [of j] ord [OF that] that by (simp add: section_fields_split)
  let ?secs = "concat (map (\<lambda>i. section_fields i (recs ! i) (ps ! i)) [0 ..< 5])"
  have secs: "disjoint_stores ?secs" using one two by (intro disjoint_stores_concat) blast+
  have bounds: "160 \<le> off \<and> off + length vs \<le> hi"
    if "(off, vs) \<in> set (section_fields i (recs ! i) (ps ! i))" "i < 5" for i off vs
    using that lo [of i] hi by (auto simp: section_fields_split)
  have low: "160 \<le> off \<and> off + length vs \<le> hi" if "(off, vs) \<in> set ?secs" for off vs
    using that bounds by (auto simp del: upt.simps)
  have head: "off + length vs \<le> 116" if "(off, vs) \<in> set (header_fields cursor @ metadata_fields m)" for off vs
    using fields_in_bounds [OF header_fields_in that] by simp
  have split: "package_fields cursor m recs ps = (header_fields cursor @ metadata_fields m) @ ?secs"
    by (simp add: package_fields_def)
  have "\<forall>(o1, v1) \<in> set (header_fields cursor @ metadata_fields m). \<forall>(o2, v2) \<in> set ?secs.
      o1 + length v1 \<le> o2 \<or> o2 + length v2 \<le> o1"
  proof (rule stores_apart [of _ 116])
    show "off + length vs \<le> 116" if "(off, vs) \<in> set (header_fields cursor @ metadata_fields m)" for off vs
      using head [OF that] .
    show "116 \<le> off" if "(off, vs) \<in> set ?secs" for off vs using low [OF that] by linarith
  qed
  note apart = this
  show "disjoint_stores (package_fields cursor m recs ps)"
    unfolding split disjoint_stores_append [of "header_fields cursor @ metadata_fields m" ?secs]
    by (intro conjI secs apart fields_in_disjoint [OF header_fields_in])
  show "\<forall>(off, vs) \<in> set (package_fields cursor m recs ps). off + length vs \<le> hi"
    unfolding split
  proof (rule stores_below [of _ 116])
    show "off + length vs \<le> 116" if "(off, vs) \<in> set (header_fields cursor @ metadata_fields m)" for off vs
      using head [OF that] .
    show "116 \<le> off \<and> off + length vs \<le> hi" if "(off, vs) \<in> set ?secs" for off vs using low [OF that] by linarith
    show "116 \<le> hi" using hi by linarith
  qed
qed

lemma package_fields_gaps:
  assumes "sections_laid_out 4096 0 ps recs hi" and "length recs = 5"
  shows "\<forall>(off, vs) \<in> set (package_fields cursor m recs ps). 116 + 44 \<le> off \<or> off + length vs \<le> 116"
    and "\<forall>(off, vs) \<in> set (package_fields cursor m recs ps). 99 + 1 \<le> off \<or> off + length vs \<le> 99"
proof -
  have "160 \<le> off" if "(off, vs) \<in> set (section_fields i (recs ! i) (ps ! i))" "i < 5" for i off vs
    using that sections_laid_out_nth [OF assms(1)] assms(2) by (auto simp: section_fields_split laid_out_def)
  then have "\<forall>(off, vs) \<in> set (concat (map (\<lambda>i. section_fields i (recs ! i) (ps ! i)) [0 ..< 5])). 160 \<le> off"
    by (auto simp del: upt.simps)
  moreover have "\<forall>(off, vs) \<in> set (header_fields cursor @ metadata_fields m). off + length vs \<le> 116"
    "\<forall>(off, vs) \<in> set (header_fields cursor @ metadata_fields m). 99 + 1 \<le> off \<or> off + length vs \<le> 99"
    by (simp_all add: header_fields_def metadata_fields_def kMagic_def)
  ultimately show "\<forall>(off, vs) \<in> set (package_fields cursor m recs ps). 116 + 44 \<le> off \<or> off + length vs \<le> 116"
    and "\<forall>(off, vs) \<in> set (package_fields cursor m recs ps). 99 + 1 \<le> off \<or> off + length vs \<le> 99"
    unfolding package_fields_def append_assoc [symmetric] set_append ball_Un
    by (fastforce simp del: upt.simps)+
qed

text \<open>What the serialised bytes are.\<close>

definition is_package :: "byte list \<Rightarrow> StaticMetadata \<Rightarrow> SectionRecord list \<Rightarrow> byte list list \<Rightarrow> bool" where
  "is_package b m recs ps \<longleftrightarrow> length recs = 5 \<and> length ps = 5 \<and> length b < 2 ^ 64 \<and>
     sections_laid_out 4096 0 ps recs (length b) \<and>
     (\<forall>(off, vs) \<in> set (package_fields (of_nat (length b)) m recs ps). slice b off (length vs) = vs) \<and>
     b ! 99 = 0 \<and> slice b 116 44 = replicate 44 0"

lemma package_written:
  assumes lay: "sections_laid_out 4096 0 ps recs (unat cursor)" and n: "length recs = 5" "length ps = 5"
  shows "\<exists>b. write_all (replicate (unat cursor) 0) (package_fields cursor m recs ps) = Some b \<and>
    length b = unat cursor \<and> is_package b m recs ps"
proof -
  note dis = package_fields_disjoint [OF lay n(1)]
  let ?z = "replicate (unat cursor) (0 :: byte)" and ?fs = "package_fields cursor m recs ps"
  obtain b where b: "write_all ?z ?fs = Some b" "length b = unat cursor"
      "\<forall>(off, vs) \<in> set ?fs. slice b off (length vs) = vs"
    and keep: "\<And>j k. \<forall>(off, vs) \<in> set ?fs. j + k \<le> off \<or> off + length vs \<le> j \<Longrightarrow> slice b j k = slice ?z j k"
    using write_all_disjoint [where b = ?z, unfolded length_replicate, OF dis [of cursor m]]
    by (elim exE conjE) (rule that, assumption+, blast)
  have size: "4096 \<le> unat cursor" using sections_laid_out_le [OF lay] .
  have gap: "slice b 116 44 = slice ?z 116 44"
    by (rule keep) (use package_fields_gaps [OF lay n(1)] in blast)
  have "slice b 99 1 = slice ?z 99 1"
    by (rule keep) (use package_fields_gaps [OF lay n(1)] in blast)
  then have "b ! 99 = 0" using size b(2) by (simp add: slice_def take_Suc_conv_app_nth)
  then show ?thesis using b n lay gap size unat_lt(4) [of cursor] by (auto simp: is_package_def slice_def)
qed

section \<open>The parser on a serialised package\<close>

lemma LoadLe_slice:
  "slice b off 2 = le_bytes 2 v2 \<Longrightarrow> off + 2 \<le> length b \<Longrightarrow> LoadLe16 b off = Some v2"
  "slice b off 4 = le_bytes 4 v4 \<Longrightarrow> off + 4 \<le> length b \<Longrightarrow> LoadLe32 b off = Some v4"
  "slice b off 8 = le_bytes 8 v8 \<Longrightarrow> off + 8 \<le> length b \<Longrightarrow> LoadLe64 b off = Some v8"
  by (simp_all add: LoadLe_eq del: le_bytes.simps)

lemma rd_slice: "slice b off 1 = [v] \<Longrightarrow> off < length b \<Longrightarrow> rd b off = Some v"
  by (simp add: rd_def slice_def take_Suc_conv_app_nth)

lemma and_FFF_iff: "(v :: u64) AND (kPayloadAlignment - 1) = 0 \<longleftrightarrow> 4096 dvd unat v"
  using and_mask_zero_iff [of v 12] by (simp add: mask_eq_exp_minus_1 kPayloadAlignment_def)

lemma less_5: "(i :: nat) < 5 \<Longrightarrow> i = 0 \<or> i = 1 \<or> i = 2 \<or> i = 3 \<or> i = 4"
  by linarith

lemma cast_kind_value: "i < 5 \<Longrightarrow> cast_kind (kind_value (kinds ! i)) = kinds ! i"
  "i < 5 \<Longrightarrow> IsKnownKind (kinds ! i) \<and> unat (kind_value (kinds ! i) - 1) = i"
  by (drule less_5, elim disjE; simp add: kinds_def cast_kind_def IsKnownKind_def)+

lemma package_section:
  assumes pkg: "is_package b m recs ps" and i: "i < 5"
  shows "LoadLe32 b (160 + 56 * i) = Some (kind_value (kinds ! i))" "LoadLe32 b (164 + 56 * i) = Some 0"
    "LoadLe64 b (168 + 56 * i) = Some (offset (recs ! i))" "LoadLe64 b (176 + 56 * i) = Some (size' (recs ! i))"
    "rd_seq b (184 + 56 * i) 32 = Some (sha256 (recs ! i))"
    "kind (recs ! i) = kinds ! i" "sha256 (recs ! i) = Fips180.sha256 (ps ! i)" "ps ! i \<noteq> []"
    "Slice b (offset (recs ! i)) (size' (recs ! i)) = ps ! i"
    "Fits (length b) (offset (recs ! i)) (size' (recs ! i))" "size' (recs ! i) \<noteq> 0"
    "\<not> offset (recs ! i) < 0x1000" "4096 dvd unat (offset (recs ! i))"
proof -
  have lay: "sections_laid_out 4096 0 ps recs (length b)" and n: "length recs = 5"
    and fields: "\<forall>(off, vs) \<in> set (package_fields (of_nat (length b)) m recs ps). slice b off (length vs) = vs"
    using pkg by (simp_all add: is_package_def)
  have len: "4096 \<le> length b" using sections_laid_out_le [OF lay] .
  have r: "laid_out 4096 i (ps ! i) (recs ! i)" "unat (offset (recs ! i)) + length (ps ! i) \<le> length b"
    using sections_laid_out_nth [OF lay] n i by auto
  show k: "kind (recs ! i) = kinds ! i" and h: "sha256 (recs ! i) = Fips180.sha256 (ps ! i)" and "ps ! i \<noteq> []"
    and "4096 dvd unat (offset (recs ! i))" and sz: "size' (recs ! i) \<noteq> 0"
    using r(1) by (auto simp: laid_out_def unat_eq_0)
  show "\<not> offset (recs ! i) < 0x1000" using r(1) by (simp add: laid_out_def word_less_nat_alt)
  show f: "Fits (length b) (offset (recs ! i)) (size' (recs ! i))" using r by (simp add: laid_out_def Fits_def)
  have "\<forall>(off, vs) \<in> set (section_fields i (recs ! i) (ps ! i)). slice b off (length vs) = vs"
    using fields i unfolding package_fields_def by (auto simp del: upt.simps)
  note s = this [unfolded section_fields_split k h, simplified, folded One_nat_def]
  show "LoadLe32 b (160 + 56 * i) = Some (kind_value (kinds ! i))" "LoadLe32 b (164 + 56 * i) = Some 0"
    "LoadLe64 b (168 + 56 * i) = Some (offset (recs ! i))" "LoadLe64 b (176 + 56 * i) = Some (size' (recs ! i))"
    using s len i by (auto intro!: LoadLe_slice simp del: le_bytes.simps)
  show "rd_seq b (184 + 56 * i) 32 = Some (sha256 (recs ! i))" using s len i h by (simp add: rd_seq_eq)
  show "Slice b (offset (recs ! i)) (size' (recs ! i)) = ps ! i"
    using f r(1) s by (simp add: Slice_def laid_out_def)
qed

lemma ParseSection_package:
  assumes pkg: "is_package b m recs ps" and i: "i < 5" and "length seen = 5" "\<not> seen ! i"
  shows "ParseSection b 0x1000 i seen = Some (Inr (recs ! i, seen[i := True]))"
proof -
  note s = package_section [OF pkg i]
  have rec: "\<lparr>kind = kinds ! i, offset = offset (recs ! i), size' = size' (recs ! i), sha256 = sha256 (recs ! i)\<rparr> = recs ! i"
    using s(6) by simp
  have "offset (recs ! i) AND (kPayloadAlignment - 1) = 0" using s(13) unfolding and_FFF_iff .
  moreover have ro: "unat kSectionTableOffset + i * unat kSectionRecordBytes = 160 + 56 * i"
    by (simp add: package_consts)
  have "160 + 56 * i + 4 = 164 + 56 * i" "160 + 56 * i + 8 = 168 + 56 * i" "160 + 56 * i + 16 = 176 + 56 * i"
    "160 + 56 * i + 24 = 184 + 56 * i" by simp_all
  note at = this
  have dup: "rd seen i = Some False" using assms(3,4) i by (simp add: rd_def)
  ultimately show ?thesis
    using cast_kind_value [OF i] s rec dup unfolding ParseSection_def Let_def ro at
    by (simp del: rd_seq.simps)
qed

lemma ParseSections_package:
  assumes pkg: "is_package b m recs ps"
  shows "i + n = 5 \<Longrightarrow> length seen = 5 \<Longrightarrow> length acc = 5 \<Longrightarrow> \<forall>j < n. \<not> seen ! (i + j) \<Longrightarrow>
    ParseSections b 0x1000 i n seen acc = Some (ParseStatus.Ok, take i acc @ drop i recs)"
proof (induction n arbitrary: i seen acc)
  case 0
  then show ?case using pkg by (simp add: is_package_def)
next
  case (Suc n)
  have i: "i < 5" "length recs = 5" using Suc.prems(1) pkg by (simp_all add: is_package_def)
  have "\<not> seen ! i" using Suc.prems(4) by (metis add_0_right zero_less_Suc)
  note step = ParseSection_package [OF pkg i(1) Suc.prems(2) this]
  have later: "\<forall>j < n. \<not> seen[i := True] ! (Suc i + j)" using Suc.prems(4) by (auto simp: nth_list_update)
  have "ParseSections b 0x1000 (Suc i) n (seen[i := True]) (acc[i := recs ! i]) =
      Some (ParseStatus.Ok, take (Suc i) (acc[i := recs ! i]) @ drop (Suc i) recs)"
    using Suc.prems later by (intro Suc.IH) simp_all
  moreover have "take (Suc i) (acc[i := recs ! i]) @ drop (Suc i) recs = take i acc @ drop i recs"
    using i Suc.prems(3) by (simp add: take_Suc_conv_app_nth Cons_nth_drop_Suc)
  ultimately show ?case by (simp add: step)
qed

lemma no_overlap:
  "sections_laid_out lo i ps rs hi \<Longrightarrow> hi < 2 ^ 64 \<Longrightarrow>
    \<not> any_overlap rs \<and> (\<forall>r \<in> set rs. lo \<le> unat (offset r))"
proof (induction lo i ps rs hi rule: sections_laid_out.induct)
  case (2 lo i p ps r rs hi)
  let ?mid = "unat (offset r) + length p"
  have r: "laid_out lo i p r" and rest: "sections_laid_out ?mid (Suc i) ps rs hi" using 2(2) by simp_all
  note IH = 2(1) [OF rest 2(3)]
  have "?mid < 2 ^ 64" using sections_laid_out_le [OF rest] 2(3) by simp
  then have fin: "unat (offset r + size' r) = ?mid" using r by (simp add: laid_out_def unat_add_nowrap)
  have "\<not> overlaps r q" if "q \<in> set rs" for q
    using IH that by (auto simp: overlaps_def word_less_nat_alt fin)
  then show ?case using IH r by (auto simp: list_ex_iff laid_out_def)
qed simp_all

lemma hashes_match_all:
  "\<forall>r \<in> set rs. Slice b (offset r) (size' r) \<noteq> [] \<and> sha256 r = Fips180.sha256 (Slice b (offset r) (size' r)) \<Longrightarrow>
    hashes_match b rs = Some True"
  by (induction rs) (auto simp: Sha256_eq Sha256Equal_iff Let_def)

lemma hashes_match_iff:
  assumes "\<forall>r \<in> set rs. length (sha256 r) = 32"
  shows "hashes_match b rs = Some (\<forall>r \<in> set rs. Slice b (offset r) (size' r) \<noteq> [] \<and>
    sha256 r = Fips180.sha256 (Slice b (offset r) (size' r)))"
  using assms by (induction rs) (auto simp: Sha256_eq Sha256Equal_iff Let_def)

lemma reserved_zero_eq:
  "i + n \<le> length b \<Longrightarrow> reserved_zero b i n = Some (\<forall>j < n. b ! (i + j) = 0)"
proof (induction n arbitrary: i)
  case (Suc n)
  have "(\<forall>j < Suc n. b ! (i + j) = 0) \<longleftrightarrow> b ! i = 0 \<and> (\<forall>j < n. b ! (Suc i + j) = 0)"
    using less_Suc_eq_0_disj by (auto simp: less_Suc_eq_0_disj)
  then show ?case using Suc by (simp add: rd_def)
qed simp

lemma package_header:
  assumes pkg: "is_package b m recs ps"
  shows "rd_seq b 0 8 = Some kMagic" "LoadLe32 b 8 = Some kVersion" "LoadLe32 b 12 = Some kHeaderBytes"
    "LoadLe64 b 16 = Some (of_nat (length b))" "LoadLe64 b 24 = Some kSectionTableOffset"
    "LoadLe32 b 32 = Some kSectionCount" "LoadLe32 b 36 = Some kSectionRecordBytes" "rd b 99 = Some 0"
    "reserved_zero b 116 44 = Some True" "ParseMetadata b = Some m" "4096 \<le> length b"
proof -
  show len: "4096 \<le> length b" using pkg sections_laid_out_le by (auto simp: is_package_def)
  have all: "\<forall>(off, vs) \<in> set (package_fields (of_nat (length b)) m recs ps). slice b off (length vs) = vs"
    using pkg by (simp add: is_package_def)
  have f: "\<forall>(off, vs) \<in> set (header_fields (of_nat (length b))). slice b off (length vs) = vs"
    and g: "\<forall>(off, vs) \<in> set (metadata_fields m). slice b off (length vs) = vs"
    using all unfolding package_fields_def set_append ball_Un by blast+
  have "length kMagic = 8" by (simp add: kMagic_def)
  moreover have "slice b 0 (length kMagic) = kMagic" using f by (simp add: header_fields_def)
  ultimately show "rd_seq b 0 8 = Some kMagic" using len by (simp add: rd_seq_eq)
  show "LoadLe32 b 8 = Some kVersion" "LoadLe32 b 12 = Some kHeaderBytes"
    "LoadLe64 b 16 = Some (of_nat (length b))" "LoadLe64 b 24 = Some kSectionTableOffset"
    "LoadLe32 b 32 = Some kSectionCount" "LoadLe32 b 36 = Some kSectionRecordBytes"
    using f len by (auto simp: header_fields_def intro!: LoadLe_slice simp del: le_bytes.simps)
  show "rd b 99 = Some 0" using pkg len by (simp add: is_package_def rd_def)
  have "b ! (116 + j) = 0" if "j < 44" for j
  proof -
    have "slice b 116 44 ! j = 0" using pkg that by (simp add: is_package_def)
    then show ?thesis using that len by (simp add: slice_def)
  qed
  then show "reserved_zero b 116 44 = Some True" using len by (simp add: reserved_zero_eq)
  note h = g [unfolded metadata_fields_def, simplified, folded One_nat_def]
  have "LoadLe16 b 40 = Some (vendor (StaticMetadata.pci m))" "LoadLe16 b 42 = Some (device (StaticMetadata.pci m))"
    "LoadLe16 b 44 = Some (subsystemVendor (StaticMetadata.pci m))"
    "LoadLe16 b 46 = Some (subsystemDevice (StaticMetadata.pci m))" "LoadLe64 b 48 = Some (StaticMetadata.vramBytes m)"
    "LoadLe32 b 56 = Some (gspAppVersion m)" "LoadLe32 b 60 = Some (gspMonitorCodeOffset m)"
    "LoadLe32 b 64 = Some (gspMonitorDataOffset m)" "LoadLe32 b 68 = Some (gspManifestOffset m)"
    "LoadLe32 b 72 = Some (fwsecPkcDataOffset m)" "LoadLe32 b 76 = Some (fwsecImemPhysBase m)"
    "LoadLe32 b 80 = Some (fwsecImemLoadSize m)" "LoadLe32 b 84 = Some (fwsecImemVirtBase m)"
    "LoadLe32 b 88 = Some (fwsecDmemPhysBase m)" "LoadLe32 b 92 = Some (fwsecDmemLoadSize m)"
    "LoadLe16 b 96 = Some (fwsecEngineIdMask m)" "LoadLe32 b 100 = Some (sec2CodeOffset m)"
    "LoadLe32 b 104 = Some (sec2CodeSize m)" "LoadLe32 b 108 = Some (sec2DataOffset m)"
    "LoadLe32 b 112 = Some (sec2DataSize m)"
    using h len by (auto intro!: LoadLe_slice simp del: le_bytes.simps)
  note loads = this
  have "rd b 98 = Some (fwsecUcodeId m)" using h len by (intro rd_slice) simp_all
  then show "ParseMetadata b = Some m" unfolding ParseMetadata_def by (simp add: loads)
qed

text \<open>A package whose target passes the checks of the parser.\<close>

definition target_ok :: "StaticMetadata \<Rightarrow> bool" where
  "target_ok m \<longleftrightarrow> IsKnownRtx3060Ti (StaticMetadata.pci m) \<and> 4096 dvd unat (StaticMetadata.vramBytes m) \<and>
     0x200000 \<le> unat (StaticMetadata.vramBytes m) \<and> unat (StaticMetadata.vramBytes m) < 2 ^ 44 + 0x200000"

lemma BuildFrtsCommand_some:
  "0x200000 \<le> unat v \<Longrightarrow> 4096 dvd unat v \<Longrightarrow> unat v < 2 ^ 44 + 0x200000 \<Longrightarrow>
    \<exists>c. BuildFrtsCommand v = Some (Some c)"
  using BuildFrtsCommand_cases [of v] by blast

lemma payload_begin: "AlignUp (kSectionTableOffset + ucast kSectionCount * ucast kSectionRecordBytes) kPayloadAlignment = 0x1000"
  by (simp add: package_consts AlignUp_def)

lemma ParseAndVerify_package:
  assumes pkg: "is_package b m recs ps" and t: "target_ok m"
  shows "ParseAndVerify b = Some \<lparr>status = ParseStatus.Ok, metadata = m, sections = recs, packageBytes = of_nat (length b)\<rparr>"
proof -
  note h = package_header [OF pkg]
  have lay: "sections_laid_out 4096 0 ps recs (length b)" and n: "length recs = 5" and big: "length b < 2 ^ 64"
    using pkg by (simp_all add: is_package_def)
  obtain c where c: "BuildFrtsCommand (StaticMetadata.vramBytes m) = Some (Some c)"
    using t BuildFrtsCommand_some by (auto simp: target_ok_def)
  have al: "StaticMetadata.vramBytes m AND (kPayloadAlignment - 1) = 0" "IsKnownRtx3060Ti (StaticMetadata.pci m)"
    using t by (simp_all add: target_ok_def and_FFF_iff)
  have fit: "\<not> (length b < unat kHeaderBytes \<or>
      \<not> Fits (length b) kSectionTableOffset (ucast kSectionCount * ucast kSectionRecordBytes))"
    using h(11) by (simp add: package_consts Fits_def)
  have un: "unat (of_nat (length b) :: u64) = length b" using big by (simp add: unat_of_nat_small)
  have secs: "ParseSections b 0x1000 0 5 (replicate 5 False) (replicate 5 SectionRecord0) = Some (ParseStatus.Ok, recs)"
    using ParseSections_package [OF pkg, of 0 5 "replicate 5 False" "replicate 5 SectionRecord0"] by simp
  have hash: "hashes_match b recs = Some True"
    by (rule hashes_match_all) (use package_section [OF pkg] n in \<open>auto simp: in_set_conv_nth\<close>)
  have over: "\<not> any_overlap recs" using no_overlap [OF lay big] by blast
  have res: "kReservedHeaderBegin = 116" "kReservedHeaderEnd - 116 = 44" by (simp_all add: package_consts)
  show ?thesis
    unfolding ParseAndVerify_def Let_def if_not_P [OF fit] payload_begin res
    by (simp add: h(1-10) un c al over hash PackageView0_def secs del: ParseSections.simps reserved_zero.simps rd_seq.simps)
qed

lemma FindSection_in_nth:
  "i < length rs \<Longrightarrow> \<forall>j < i. kind (rs ! j) \<noteq> k \<Longrightarrow> kind (rs ! i) = k \<Longrightarrow>
    FindSection_in rs b k = Slice b (offset (rs ! i)) (size' (rs ! i))"
proof (induction rs arbitrary: i)
  case (Cons r rs)
  show ?case
  proof (cases i)
    case (Suc n)
    have no: "kind ((r # rs) ! j) \<noteq> k" if "j < Suc n" for j using Cons.prems(2) Suc that by blast
    have "kind (rs ! j) \<noteq> k" if "j < n" for j using no [of "Suc j"] that by simp
    then have "FindSection_in rs b k = Slice b (offset (rs ! n)) (size' (rs ! n))"
      using Cons.prems Suc by (intro Cons.IH) auto
    then show ?thesis using no [of 0] Suc by simp
  qed (use Cons in simp)
qed simp

lemma FindSection_package:
  assumes pkg: "is_package b m recs ps" and i: "i < 5"
  shows "FindSection b \<lparr>status = ParseStatus.Ok, metadata = m, sections = recs, packageBytes = of_nat (length b)\<rparr> (kinds ! i) = ps ! i"
proof -
  have n: "length recs = 5" and big: "length b < 2 ^ 64" using pkg by (simp_all add: is_package_def)
  have "kind (recs ! j) \<noteq> kinds ! i" if "j < i" for j
    using package_section(6) [OF pkg, of j] that i nth_eq_iff_index_eq [of kinds j i] by (simp add: kinds_def)
  then have "FindSection_in recs b (kinds ! i) = Slice b (offset (recs ! i)) (size' (recs ! i))"
    using n i package_section(6) [OF pkg i] by (intro FindSection_in_nth) simp_all
  then show ?thesis
    using package_section(9) [OF pkg i] cast_kind_value [OF i] big by (simp add: FindSection_def unat_of_nat_small)
qed

section \<open>The builder\<close>

text \<open>What the first part of the builder promises about the payloads it hands on.\<close>

fun prepared_ok :: "nat \<Rightarrow> BuildStatus + StaticMetadata \<times> byte list list \<Rightarrow> bool" where
  "prepared_ok n (Inl e) \<longleftrightarrow> e \<noteq> BuildStatus.Ok"
| "prepared_ok n (Inr (m, ps)) \<longleftrightarrow> target_ok m \<and> length ps = 5 \<and> (\<forall>p \<in> set ps. p \<noteq> [] \<and> length p < n)"

lemma length_Slice: "length (Slice b off n) \<le> length b"
  by (auto simp: Slice_def slice_def)

lemma ApplyFwsecFrtsPatch_total:
  assumes p: "PlanFwsecFrtsPatch d img (length sig) = Some p" and c: "length (FrtsCommand.bytes c) = kFrtsCommandBytes"
    and n: "length img < n"
  shows "\<exists>q. ApplyFwsecFrtsPatch img p c sig = Some q \<and>
    (\<forall>out. q = Some out \<longrightarrow> out \<noteq> [] \<and> length out < n)"
proof (cases "PatchPlan.status p = Frts.PatchStatus.Ok \<and> logicalImageBytes p \<noteq> 0 \<and> logicalImageBytes p \<le> length img")
  case True
  then have "plan_ok d img (length sig) p" using PlanFwsecFrtsPatch_cases [of d img "length sig"] p by auto
  from ApplyFwsecFrtsPatch_cases [OF this _ c] True n show ?thesis by auto
next
  case False
  then show ?thesis by (auto simp: ApplyFwsecFrtsPatch_def)
qed

lemma length_put_le: "length (put xs k vs) \<le> length xs + length vs"
  by (simp add: put_def)

lemma PatchBooter_total:
  "\<exists>r. PatchBooterProductionSignature d i = Some r \<and>
    (BooterPatchResult.status r = BooterPatchStatus.Ok \<longrightarrow> length (BooterPatchResult.bytes r) < 2 ^ 34)"
proof -
  obtain r where r: "PatchBooterProductionSignature d i = Some r"
    "BooterPatchResult.status r = BooterPatchStatus.Ok \<longrightarrow>
      (let b = BooterImageInfo.bin' i; h = hs i in
       BooterPatchResult.bytes r = put (slice d (unat (BinHeader.dataOffset b)) (unat (BinHeader.dataSize b)))
         (unat (patchOffset r))
         (slice d (unat (sigProdOffset h) + unat (selectedSignatureOffset r)) (unat (signatureBytes r))))"
    using PatchBooterProductionSignature_cases [of d i] by (auto simp: Let_def)
  have small: "length (slice d x (unat (w :: u32))) < 2 ^ 32" for x w
    using unat_lt(3) [of w] by (simp add: slice_def)
  show ?thesis
  proof (intro exI conjI impI)
    assume "BooterPatchResult.status r = BooterPatchStatus.Ok"
    then have "length (BooterPatchResult.bytes r) \<le>
        length (slice d (unat (BinHeader.dataOffset (BooterImageInfo.bin' i))) (unat (BinHeader.dataSize (BooterImageInfo.bin' i)))) +
        length (slice d (unat (sigProdOffset (hs i)) + unat (selectedSignatureOffset r)) (unat (signatureBytes r)))"
      using r(2) length_put_le by (simp add: Let_def)
    also have "\<dots> < 2 ^ 32 + 2 ^ 32" using small by (intro add_strict_mono)
    finally show "length (BooterPatchResult.bytes r) < 2 ^ 34" by simp
  qed (rule r(1))
qed

lemma PreparePayloads_total:
  assumes "length (vbios inp) < n" "length (gspElf inp) < n" "length (gspBootloaderContainer inp) < n"
    and "2 ^ 34 \<le> n" "n \<le> 2 ^ 60"
  shows "\<exists>r. PreparePayloads inp = Some r \<and> prepared_ok n r"
proof -
  let ?v = "SourceInputs.vramBytes inp"
  obtain c where c: "BuildFrtsCommand ?v = Some c" "\<And>x. c = Some x \<Longrightarrow> length (FrtsCommand.bytes x) = kFrtsCommandBytes"
    and cv: "c \<noteq> None \<longrightarrow> 0x200000 \<le> unat ?v \<and> 4096 dvd unat ?v \<and> unat ?v < 2 ^ 44 + 0x200000"
  proof (cases "BuildFrtsCommand ?v = Some None")
    case True
    then show ?thesis by (intro that [of None]) simp_all
  next
    case False
    then obtain x where "BuildFrtsCommand ?v = Some (Some x)" "frts_command_ok ?v x"
      "0x200000 \<le> unat ?v \<and> 4096 dvd unat ?v \<and> unat ?v < 2 ^ 44 + 0x200000"
      using BuildFrtsCommand_cases [of ?v] by blast
    then show ?thesis by (intro that [of "Some x"]) (simp_all add: frts_command_ok_def kFrtsCommandBytes_def)
  qed
  obtain i where i: "ParseProductionFwsec (vbios inp) = Some i"
    using ParseProductionFwsec_cases [of "vbios inp"] assms(1,5) by auto
  define sig where "sig = Slice (vbios inp) (ucast (descriptorOffset i) + kVbiosDescriptorV3Bytes)
    (ucast (descriptorSize i) - kVbiosDescriptorV3Bytes)"
  define img where "img = Slice (vbios inp) (ucast (descriptorOffset i) + ucast (descriptorSize i))
    ((ucast (storedSize (v3 i)) + 255) AND NOT 255)"
  obtain p where p: "PlanFwsecFrtsPatch (v3 i) img (length sig) = Some p"
    using PlanFwsecFrtsPatch_cases by blast
  have img: "length img < n" using length_Slice assms(1) order.strict_trans1 unfolding img_def by blast
  obtain q where q: "c \<noteq> None \<longrightarrow> ApplyFwsecFrtsPatch img p (the c) sig = Some q \<and>
      (\<forall>out. q = Some out \<longrightarrow> out \<noteq> [] \<and> length out < n)"
  proof (cases c)
    case None
    then show ?thesis by (intro that [of None]) simp
  next
    case (Some x)
    from ApplyFwsecFrtsPatch_total [OF p c(2) [OF Some] img] obtain q where
      "ApplyFwsecFrtsPatch img p x sig = Some q" "\<forall>out. q = Some out \<longrightarrow> out \<noteq> [] \<and> length out < n"
      by (elim exE conjE) (rule that)
    then show ?thesis by (intro that [of q]) (simp add: Some)
  qed
  obtain s1 s2 where s: "Elf.FindSection (gspElf inp) (map of_char ''.fwimage'') = Some s1"
    "Elf.FindSection (gspElf inp) (map of_char ''.fwsignature_ga10x'') = Some s2"
    using Elf.FindSection_cases [of "gspElf inp"] assms(2,5) by fastforce
  obtain g where g: "ParseRiscvBootloader (gspBootloaderContainer inp) = Some g"
    using ParseRiscvBootloader_cases by blast
  obtain h where h: "ParseBooterImage (sec2BooterContainer inp) = Some h"
    using ParseBooterImage_cases by blast
  obtain r where r: "PatchBooterProductionSignature (sec2BooterContainer inp) h = Some r"
    "BooterPatchResult.status r = BooterPatchStatus.Ok \<Longrightarrow> length (BooterPatchResult.bytes r) < n"
    using PatchBooter_total [of "sec2BooterContainer inp" h] assms(4) by auto
  have sl: "length (Slice (gspElf inp) x y) < n" "length (Slice (gspBootloaderContainer inp) x y) < n" for x y
    using length_Slice assms(2,3) order.strict_trans1 by blast+
  show ?thesis
    unfolding PreparePayloads_def Let_def c(1) i Option.bind_lunit sig_def [symmetric] img_def [symmetric] p s g h r(1)
    using q r(2) cv sl by (auto simp: target_ok_def)
qed

lemma AlignUp_less:
  assumes "unat v < 2 ^ 63"
  shows "unat (AlignUp v kPayloadAlignment) \<le> unat v + 0xFFF \<and> (v \<noteq> 0 \<longrightarrow> AlignUp v kPayloadAlignment \<noteq> 0)"
proof -
  have sum: "unat (v + 0xFFF) = unat v + 0xFFF" using assms by (subst unat_add_nowrap) simp_all
  have g: "\<not> - 1 - (0xFFF :: u64) < v" unfolding add_guard64 using assms by simp
  have "AlignUp v kPayloadAlignment = (v + 0xFFF) AND NOT (mask 12)"
    using g by (simp add: AlignUp_def kPayloadAlignment_def mask_eq_exp_minus_1) (simp add: add.commute)
  then have e: "unat (AlignUp v kPayloadAlignment) = unat v + 0xFFF - (unat v + 0xFFF) mod 4096"
    using unat_and_not_mask [of "v + 0xFFF" 12] by (simp only: sum) simp
  have m: "(unat v + 0xFFF) mod 4096 \<le> 0xFFF"
    using mod_less_divisor [of 4096 "unat v + 0xFFF"] by linarith
  have "AlignUp v kPayloadAlignment \<noteq> 0" if "v \<noteq> 0"
  proof -
    have "0 < unat v" using that by (simp add: unat_gt_0)
    then have "0 < unat (AlignUp v kPayloadAlignment)" unfolding e using m by linarith
    then show ?thesis by auto
  qed
  then show ?thesis unfolding e by simp
qed

lemma LayoutSections_total:
  "\<forall>p \<in> set ps. p \<noteq> [] \<and> length p < n \<Longrightarrow> cursor \<noteq> 0 \<Longrightarrow>
    unat cursor + length ps * (n + 4096) < 2 ^ 63 \<Longrightarrow>
    \<exists>recs' fin. LayoutSections i ps cursor recs = Some (recs', Some fin) \<and>
      unat fin \<le> unat cursor + length ps * (n + 4096)"
proof (induction i ps cursor recs rule: LayoutSections.induct)
  case (2 i p ps cursor recs)
  let ?r = "\<lparr>kind = kinds ! i, offset = cursor, size' = of_nat (length p), sha256 = Fips180.sha256 p\<rparr>"
  let ?c1 = "cursor + of_nat (length p)"
  let ?c2 = "if i + 1 \<noteq> 5 then AlignUp ?c1 kPayloadAlignment else ?c1"
  have p: "p \<noteq> []" "length p < n" using 2(2) by auto
  have room: "unat cursor + (n + 4096) + length ps * (n + 4096) < 2 ^ 63" using 2(4) by simp
  have c1: "unat ?c1 = unat cursor + length p"
    using p(2) room by (subst unat_add_nowrap) (simp_all add: unat_of_nat_small)
  have nz: "?c1 \<noteq> 0" using c1 p(1) by (metis add_is_0 length_0_conv unat_0)
  have "unat ?c1 < 2 ^ 63" using c1 p(2) room by simp
  from AlignUp_less [OF this] have c2: "?c2 \<noteq> 0" "unat ?c2 \<le> unat cursor + length p + 4095" using nz c1 by auto
  have g: "\<not> (p = [] \<or> SIZE_MAX - unat cursor < length p)" using p room by simp
  have "\<exists>recs' fin. LayoutSections (Suc i) ps ?c2 (recs[i := ?r]) = Some (recs', Some fin) \<and>
      unat fin \<le> unat ?c2 + length ps * (n + 4096)"
    using 2(2) c2 p(2) room by (intro 2(1) [OF g Sha256_eq refl refl refl]) auto
  then obtain recs' fin where r: "LayoutSections (Suc i) ps ?c2 (recs[i := ?r]) = Some (recs', Some fin)"
    "unat fin \<le> unat ?c2 + length ps * (n + 4096)" by blast
  have "LayoutSections i (p # ps) cursor recs = Some (recs', Some fin)"
    using g c2(1) r(1) by (auto simp: Sha256_eq Let_def)
  moreover have "unat fin \<le> unat cursor + length (p # ps) * (n + 4096)" using r(2) c2(2) p(2) by simp
  ultimately show ?case by blast
qed auto

lemma write_package:
  "(do { b \<leftarrow> write_all z (header_fields cursor); b \<leftarrow> SerializeMetadata b m;
      b \<leftarrow> write_all b (concat (map (\<lambda>i. section_fields i (recs ! i) (ps ! i)) [0 ..< 5])); f b }) =
    (write_all z (package_fields cursor m recs ps) \<bind> f)"
  by (simp only: package_fields_def write_all_append SerializeMetadata_def Option.bind_assoc)

lemma BuildGa10xPackage_prepared:
  assumes prep: "PreparePayloads inp = Some (Inr (m, ps))" and ok: "prepared_ok n (Inr (m, ps))" and n: "n \<le> 2 ^ 60"
  shows "\<exists>b recs. BuildGa10xPackage inp =
      Some \<lparr>BuildResult.status = BuildStatus.Ok, metadata = m, sections = recs, bytes = b\<rparr> \<and>
    is_package b m recs ps \<and> target_ok m \<and> length b \<le> 4096 + 5 * (n + 4096)"
proof -
  have ps: "length ps = 5" "\<forall>p \<in> set ps. p \<noteq> [] \<and> length p < n" "target_ok m" using ok by simp_all
  obtain recs fin where lay: "LayoutSections 0 ps 0x1000 (replicate 5 SectionRecord0) = Some (recs, Some fin)"
    "unat fin \<le> 4096 + 5 * (n + 4096)"
    using LayoutSections_total [OF ps(2), of "0x1000" 0 "replicate 5 SectionRecord0"] ps(1) n by auto
  have l: "length recs = 5" "sections_laid_out 4096 0 ps recs (unat fin)"
    using LayoutSections_laid_out [OF lay(1)] ps(1) by simp_all
  obtain b where b: "write_all (replicate (unat fin) 0) (package_fields fin m recs ps) = Some b" "is_package b m recs ps"
    "length b = unat fin"
    using package_written [OF l(2,1) ps(1)] by blast
  have "unat fin \<le> SIZE_MAX" using unat_lt(4) [of fin] by simp
  then have "BuildGa10xPackage inp =
      Some \<lparr>BuildResult.status = BuildStatus.Ok, metadata = m, sections = recs, bytes = b\<rparr>"
    unfolding BuildGa10xPackage_def prep write_package Let_def payload_begin
    by (simp add: BuildResult0_def lay(1) b(1))
  then show ?thesis using b(2,3) ps(3) lay(2) by simp
qed

text \<open>
  C3. The builder and the parser agree: for inputs below 2^60 bytes \<open>BuildGa10xPackage\<close> never reads
  or writes outside a span, and either it returns the status of the first failed preparation with no
  bytes, or it returns \<open>Ok\<close> with bytes that \<open>ParseAndVerify\<close> accepts: the view has the metadata and
  the records of the builder and the package's own size, and \<open>FindSection\<close> returns for each of the
  five kinds exactly the prepared payload (the patched FWSEC and booter images included).
\<close>
theorem BuildGa10xPackage_parses:
  assumes "length (vbios inp) < 2 ^ 60" "length (gspElf inp) < 2 ^ 60" "length (gspBootloaderContainer inp) < 2 ^ 60"
  shows "\<exists>p r. PreparePayloads inp = Some p \<and> BuildGa10xPackage inp = Some r \<and>
    (case p of
       Inl e \<Rightarrow> e \<noteq> BuildStatus.Ok \<and> BuildResult.status r = e \<and> bytes r = []
     | Inr (m, ps) \<Rightarrow> BuildResult.status r = BuildStatus.Ok \<and> BuildResult.metadata r = m \<and>
         (\<exists>v. ParseAndVerify (bytes r) = Some v \<and> status v = ParseStatus.Ok \<and> metadata v = m \<and>
            sections v = BuildResult.sections r \<and> unat (packageBytes v) = length (bytes r) \<and>
            map (FindSection (bytes r) v) kinds = ps))"
proof -
  obtain p where p: "PreparePayloads inp = Some p" "prepared_ok (2 ^ 60) p" using PreparePayloads_total [OF assms] by auto
  show ?thesis
  proof (cases p)
    case (Inl e)
    then show ?thesis using p by (simp add: BuildGa10xPackage_def BuildResult0_def)
  next
    case (Inr q)
    obtain m ps where q: "p = Inr (m, ps)" using Inr by (cases q) simp
    obtain b recs where r: "BuildGa10xPackage inp =
        Some \<lparr>BuildResult.status = BuildStatus.Ok, metadata = m, sections = recs, bytes = b\<rparr>"
      "is_package b m recs ps" "target_ok m"
      using BuildGa10xPackage_prepared [of inp m ps "2 ^ 60"] p q by blast
    note v = ParseAndVerify_package [OF r(2,3)] and f = FindSection_package [OF r(2)]
    have "length ps = 5" "length b < 2 ^ 64" using r(2) by (simp_all add: is_package_def)
    note len = this
    have "length kinds = 5" by (simp add: kinds_def)
    then have "map (FindSection b \<lparr>status = ParseStatus.Ok, metadata = m, sections = recs, packageBytes = of_nat (length b)\<rparr>) kinds = ps"
      using f len(1) by (intro nth_equalityI) simp_all
    moreover have "unat (of_nat (length b) :: u64) = length b" using len(2) by (simp add: unat_of_nat_small)
    ultimately show ?thesis using p q r(1) v by simp
  qed
qed

section \<open>The parser on any bytes\<close>

text \<open>What an accepted view guarantees.\<close>

definition record_ok :: "nat \<Rightarrow> SectionRecord \<Rightarrow> bool" where
  "record_ok n r \<longleftrightarrow> IsKnownKind (kind r) \<and> size' r \<noteq> 0 \<and> 4096 \<le> unat (offset r) \<and> 4096 dvd unat (offset r) \<and>
     unat (offset r) + unat (size' r) \<le> n \<and> length (sha256 r) = 32"

definition view_ok :: "byte list \<Rightarrow> PackageView \<Rightarrow> bool" where
  "view_ok b v \<longleftrightarrow> target_ok (metadata v) \<and> unat (packageBytes v) = length b \<and> length (sections v) = 5 \<and>
     distinct (map kind (sections v)) \<and>
     (\<forall>r \<in> set (sections v). record_ok (length b) r \<and> sha256 r = Fips180.sha256 (slice b (unat (offset r)) (unat (size' r)))) \<and>
     sorted_wrt (\<lambda>r q. unat (offset r) + unat (size' r) \<le> unat (offset q) \<or>
       unat (offset q) + unat (size' q) \<le> unat (offset r)) (sections v)"

lemma known_kinds: "IsKnownKind k \<longleftrightarrow> (\<exists>i < 5. kind_value k = of_nat (i + 1))"
proof -
  have "IsKnownKind k \<longleftrightarrow> kind_value k \<in> {1, 2, 3, 4, 5}"
  proof -
    have "1 \<le> w \<and> w \<le> 5 \<longleftrightarrow> w \<in> {1, 2, 3, 4, 5}" for w :: u32
    proof
      assume "1 \<le> w \<and> w \<le> 5"
      then have "1 \<le> unat w" "unat w \<le> 5" by (simp_all add: word_le_nat_alt)
      then have "unat w = 1 \<or> unat w = 2 \<or> unat w = 3 \<or> unat w = 4 \<or> unat w = 5" by linarith
      then show "w \<in> {1, 2, 3, 4, 5}" by (auto simp: word_unat_eq_iff)
    qed auto
    then show ?thesis by (simp add: IsKnownKind_def)
  qed
  also have "\<dots> \<longleftrightarrow> (\<exists>i < 5. kind_value k = of_nat (i + 1))"
    by (simp add: eval_nat_numeral Ex_less_Suc)  (auto)
  finally show ?thesis .
qed

abbreviation kind_index :: "SectionKind \<Rightarrow> nat" where
  "kind_index k \<equiv> unat (kind_value k - 1)"

lemma kind_index_less: "IsKnownKind k \<Longrightarrow> kind_index k < 5"
  unfolding known_kinds by (auto simp: unat_of_nat_small)

lemma ParseSection_any:
  assumes "160 + 56 * (i + 1) \<le> length b" and "length seen = 5"
  shows "\<exists>r. ParseSection b 0x1000 i seen = Some r \<and> (\<forall>e. r = Inl e \<longrightarrow> e \<noteq> ParseStatus.Ok) \<and>
    (\<forall>q seen'. r = Inr (q, seen') \<longrightarrow> record_ok (length b) q \<and> \<not> seen ! kind_index (kind q) \<and>
       seen' = seen[kind_index (kind q) := True])"
proof -
  have ro: "unat kSectionTableOffset + i * unat kSectionRecordBytes = 160 + 56 * i" by (simp add: package_consts)
  let ?o = "160 + 56 * i"
  have loads: "LoadLe32 b ?o = Some (word_at b ?o)" "LoadLe32 b (?o + 4) = Some (word_at b (?o + 4))"
    "LoadLe64 b (?o + 8) = Some (long_at b (?o + 8))" "LoadLe64 b (?o + 16) = Some (long_at b (?o + 16))"
    using assms(1) by (auto intro!: LoadLe_at)
  have digest: "rd_seq b (?o + 24) 32 = Some (slice b (?o + 24) 32)" "length (slice b (?o + 24) 32) = 32"
    using assms(1) by (simp_all add: rd_seq_eq)
  define k where "k = cast_kind (word_at b ?o)"
  define off where "off = long_at b (?o + 8)"
  define n where "n = long_at b (?o + 16)"
  have seen: "IsKnownKind k \<Longrightarrow> rd seen (kind_index k) = Some (seen ! kind_index k)"
    using kind_index_less assms(2) by (simp add: rd_def)
  have fit: "Fits (length b) off n \<Longrightarrow> unat off + unat n \<le> length b" by (auto simp: Fits_def)
  have low: "\<not> off < 0x1000 \<Longrightarrow> 4096 \<le> unat off" by (simp add: word_less_nat_alt)
  show ?thesis
    unfolding ParseSection_def Let_def ro loads Option.bind_lunit k_def [symmetric] off_def [symmetric] n_def [symmetric]
    using seen fit low digest
    by (cases "IsKnownKind k") (simp_all add: record_ok_def and_FFF_iff)
qed

lemma ParseSections_any:
  assumes "440 \<le> length b"
  shows "i + n = 5 \<Longrightarrow> length seen = 5 \<Longrightarrow> length acc = 5 \<Longrightarrow> distinct (map kind (take i acc)) \<Longrightarrow>
    \<forall>r \<in> set (take i acc). record_ok (length b) r \<and> seen ! kind_index (kind r) \<Longrightarrow>
    \<exists>st recs. ParseSections b 0x1000 i n seen acc = Some (st, recs) \<and>
      (st = ParseStatus.Ok \<longrightarrow> length recs = 5 \<and> distinct (map kind recs) \<and> (\<forall>r \<in> set recs. record_ok (length b) r))"
proof (induction n arbitrary: i seen acc)
  case (Suc n)
  have i: "i < length acc" "160 + 56 * (i + 1) \<le> length b" using Suc.prems(1,3) assms by simp_all
  obtain r where r: "ParseSection b 0x1000 i seen = Some r" "\<And>e. r = Inl e \<Longrightarrow> e \<noteq> ParseStatus.Ok"
    "\<And>q seen'. r = Inr (q, seen') \<Longrightarrow> record_ok (length b) q \<and> \<not> seen ! kind_index (kind q) \<and>
       seen' = seen[kind_index (kind q) := True]"
    using ParseSection_any [OF i(2) Suc.prems(2)] by blast
  show ?case
  proof (cases r)
    case (Inl e)
    then show ?thesis using r(1,2) by simp
  next
    case (Inr x)
    obtain q seen' where x: "x = (q, seen')" by (cases x)
    have q: "record_ok (length b) q" "\<not> seen ! kind_index (kind q)" "seen' = seen[kind_index (kind q) := True]"
      using r(3) Inr x by auto
    have idx: "kind_index (kind q) < length seen" using q(1) kind_index_less Suc.prems(2) by (simp add: record_ok_def)
    have tk: "take (Suc i) (acc[i := q]) = take i acc @ [q]" using i(1) by (simp add: take_Suc_conv_app_nth)
    have "distinct (map kind (take (Suc i) (acc[i := q])))" unfolding tk using Suc.prems(4,5) q(2) by auto
    moreover have "\<forall>r \<in> set (take (Suc i) (acc[i := q])). record_ok (length b) r \<and> seen' ! kind_index (kind r)"
      unfolding tk q(3) using Suc.prems(5) q(1) idx by (auto simp: nth_list_update)
    ultimately have "\<exists>st recs. ParseSections b 0x1000 (Suc i) n seen' (acc[i := q]) = Some (st, recs) \<and>
        (st = ParseStatus.Ok \<longrightarrow> length recs = 5 \<and> distinct (map kind recs) \<and> (\<forall>r \<in> set recs. record_ok (length b) r))"
      using Suc.prems(1-3) q(3) by (intro Suc.IH) simp_all
    then show ?thesis using r(1) Inr x by auto
  qed
qed auto

lemma any_overlap_iff:
  assumes "n < 2 ^ 64"
  shows "\<forall>r \<in> set rs. record_ok n r \<Longrightarrow> \<not> any_overlap rs \<longleftrightarrow>
    sorted_wrt (\<lambda>r q. unat (offset r) + unat (size' r) \<le> unat (offset q) \<or>
       unat (offset q) + unat (size' q) \<le> unat (offset r)) rs"
proof (induction rs)
  case (Cons a rs)
  have fin: "unat (offset r + size' r) = unat (offset r) + unat (size' r)" if "record_ok n r" for r
    using that assms by (intro unat_add_nowrap) (simp add: record_ok_def)
  have "overlaps a q \<longleftrightarrow> \<not> (unat (offset a) + unat (size' a) \<le> unat (offset q) \<or>
      unat (offset q) + unat (size' q) \<le> unat (offset a))" if "q \<in> set rs" for q
    using that Cons.prems fin by (auto simp: overlaps_def word_less_nat_alt)
  then show ?case using Cons by (auto simp: list_ex_iff)
qed simp

lemma ParseAndVerify_cases:
  assumes len: "length b < 2 ^ 64"
  shows "\<exists>v. ParseAndVerify b = Some v \<and> (status v = ParseStatus.Ok \<longrightarrow> view_ok b v)"
proof (cases "length b < unat kHeaderBytes \<or>
    \<not> Fits (length b) kSectionTableOffset (ucast kSectionCount * ucast kSectionRecordBytes)")
  case True
  then show ?thesis by (simp add: ParseAndVerify_def PackageView0_def)
next
  case False
  then have n: "440 \<le> length b" by (auto simp: package_consts Fits_def)
  have loads: "LoadLe32 b 8 = Some (word_at b 8)" "LoadLe32 b 12 = Some (word_at b 12)" "LoadLe64 b 24 = Some (long_at b 24)"
    "LoadLe32 b 32 = Some (word_at b 32)" "LoadLe32 b 36 = Some (word_at b 36)" "LoadLe64 b 16 = Some (long_at b 16)"
    "rd b 99 = Some (b ! 99)" "rd_seq b 0 8 = Some (slice b 0 8)"
    using n by (auto intro!: LoadLe_at simp: rd_def rd_seq_eq)
  obtain z where z: "reserved_zero b kReservedHeaderBegin (kReservedHeaderEnd - kReservedHeaderBegin) = Some z"
    using reserved_zero_eq [of 116 44 b] n by (simp add: package_consts)
  have "\<exists>m. ParseMetadata b = Some m"
    using n by (simp add: ParseMetadata_def LoadLe_eq rd_def)
  then obtain m where m: "ParseMetadata b = Some m" ..
  obtain c where c: "BuildFrtsCommand (StaticMetadata.vramBytes m) = Some c"
    "c \<noteq> None \<longrightarrow> 0x200000 \<le> unat (StaticMetadata.vramBytes m) \<and> unat (StaticMetadata.vramBytes m) < 2 ^ 44 + 0x200000"
    using BuildFrtsCommand_cases [of "StaticMetadata.vramBytes m"] by blast
  obtain st recs where p: "ParseSections b 0x1000 0 5 (replicate 5 False) (replicate 5 SectionRecord0) = Some (st, recs)"
    "st = ParseStatus.Ok \<longrightarrow> length recs = 5 \<and> distinct (map kind recs) \<and> (\<forall>r \<in> set recs. record_ok (length b) r)"
    using ParseSections_any [OF n, of 0 5 "replicate 5 False" "replicate 5 SectionRecord0"] by auto
  have h: "hashes_match b recs = Some (\<forall>r \<in> set recs. Slice b (offset r) (size' r) \<noteq> [] \<and>
      sha256 r = Fips180.sha256 (Slice b (offset r) (size' r)))" if "st = ParseStatus.Ok"
    using p(2) that by (intro hashes_match_iff) (simp add: record_ok_def)
  have o: "\<not> any_overlap recs \<longleftrightarrow> sorted_wrt (\<lambda>r q. unat (offset r) + unat (size' r) \<le> unat (offset q) \<or>
       unat (offset q) + unat (size' q) \<le> unat (offset r)) recs" if "st = ParseStatus.Ok"
    using p(2) that by (intro any_overlap_iff [OF len]) blast
  have sl: "Slice b (offset r) (size' r) = slice b (unat (offset r)) (unat (size' r))" if "record_ok (length b) r" for r
    using that by (auto simp: Slice_def Fits_def record_ok_def)
  show ?thesis
    unfolding ParseAndVerify_def Let_def if_not_P [OF False] loads z Option.bind_lunit m c(1) payload_begin
    using p(2) h sl c(2)
    by (simp add: PackageView0_def p(1) view_ok_def target_ok_def and_FFF_iff del: ParseSections.simps) (use o in blast)
qed

text \<open>
  C4. \<open>ParseAndVerify\<close> never reads outside the span, whatever the bytes are, and the status \<open>Ok\<close> means
  a verified package: a supported target with an admissible amount of video memory, a size field that
  is the length of the span, five records of pairwise different known kinds, each at a 4 KiB boundary
  behind the table and inside the package, no two of them overlapping, and each with the SHA-256 of
  the bytes it covers.
\<close>
theorem ParseAndVerify_sound:
  assumes "length b < 2 ^ 64"
  shows "\<exists>v. ParseAndVerify b = Some v \<and> (status v = ParseStatus.Ok \<longrightarrow> view_ok b v)"
  using assms by (rule ParseAndVerify_cases)

end
