(* ===== verification/PackageDma.thy ===== *)
theory PackageDma
  imports Package Manifest
begin

text \<open>
  What the driver checks and plans for an accepted package: the second-stage semantic policy
  (\<open>src/core/boot_package_policy.cpp\<close>), the plan of the DMA allocations of the five payloads
  (\<open>src/core/package_dma_plan.cpp\<close>) and the resolution of their physical page lists
  (\<open>src/core/package_dma_resolve.cpp\<close>).
\<close>

section \<open>The semantic policy\<close>

definition kGa10xGspSignatureBytes :: u64 where "kGa10xGspSignatureBytes = 0x1000"

datatype SemanticFailure = NoFailure | PackageNotVerified | MissingSection | GspSignatureWrongSize
  | GspBootloaderMetadataOutOfRange | FwsecMetadataOutOfRange | Sec2MetadataOutOfRange

record SemanticReport =
  valid :: bool
  failure :: SemanticFailure

definition RangeFits :: "u64 \<Rightarrow> u64 \<Rightarrow> u64 \<Rightarrow> bool" where
  "RangeFits total' off n \<longleftrightarrow> off \<le> total' \<and> n \<le> total' - off"

definition OffsetInside :: "u64 \<Rightarrow> u64 \<Rightarrow> bool" where
  "OffsetInside total' off \<longleftrightarrow> total' \<noteq> 0 \<and> off < total'"

definition CheckGa10xPackageSemantics :: "byte list \<Rightarrow> PackageView \<Rightarrow> SemanticReport" where
  "CheckGa10xPackageSemantics b v =
     (let out = \<lparr>valid = False, failure = PackageNotVerified\<rparr>
      in if PackageView.status v \<noteq> Package.ParseStatus.Ok \<or> unat (packageBytes v) \<noteq> length b
      then out\<lparr>failure := PackageNotVerified\<rparr>
      else let gspFirmware = Package.FindSection b v GspFirmwareImage;
               gspSignature = Package.FindSection b v GspFirmwareSignature;
               gspBootloader = Package.FindSection b v SectionKind.GspBootloader;
               fwsec = Package.FindSection b v SectionKind.FrtsFwsecImage;
               sec2 = Package.FindSection b v SectionKind.Sec2BooterImage;
               m = PackageView.metadata v
      in if gspFirmware = [] \<or> gspSignature = [] \<or> gspBootloader = [] \<or> fwsec = [] \<or> sec2 = []
      then out\<lparr>failure := MissingSection\<rparr>
      else if length gspSignature \<noteq> unat kGa10xGspSignatureBytes
      then out\<lparr>failure := GspSignatureWrongSize\<rparr>
      else let bootBytes = of_nat (length gspBootloader)
      in if \<not> OffsetInside bootBytes (ucast (StaticMetadata.gspMonitorCodeOffset m)) \<or>
            \<not> OffsetInside bootBytes (ucast (StaticMetadata.gspMonitorDataOffset m)) \<or>
            \<not> OffsetInside bootBytes (ucast (StaticMetadata.gspManifestOffset m))
      then out\<lparr>failure := GspBootloaderMetadataOutOfRange\<rparr>
      else let fwsecBytes = of_nat (length fwsec);
               imem = ucast (fwsecImemLoadSize m); dmem = ucast (fwsecDmemLoadSize m);
               pkc = ucast (fwsecPkcDataOffset m)
      in if imem = 0 \<or> dmem = 0 \<or> \<not> RangeFits fwsecBytes 0 imem \<or> \<not> RangeFits fwsecBytes imem dmem \<or>
            - 1 - imem < pkc \<or> \<not> RangeFits fwsecBytes (imem + pkc) (of_nat kRsa3072SignatureBytes) \<or>
            fwsecEngineIdMask m = 0 \<or> fwsecUcodeId m = 0
      then out\<lparr>failure := FwsecMetadataOutOfRange\<rparr>
      else let sec2Bytes = of_nat (length sec2)
      in if sec2CodeSize m = 0 \<or> sec2DataSize m = 0 \<or>
            \<not> RangeFits sec2Bytes (ucast (sec2CodeOffset m)) (ucast (sec2CodeSize m)) \<or>
            \<not> RangeFits sec2Bytes (ucast (sec2DataOffset m)) (ucast (sec2DataSize m))
      then out\<lparr>failure := Sec2MetadataOutOfRange\<rparr>
      else \<lparr>valid = True, failure = NoFailure\<rparr>)"

fun SemanticFailureName :: "SemanticFailure \<Rightarrow> string" where
  "SemanticFailureName NoFailure = ''ok''"
| "SemanticFailureName PackageNotVerified = ''package-not-verified''"
| "SemanticFailureName MissingSection = ''missing-section''"
| "SemanticFailureName GspSignatureWrongSize = ''gsp-signature-wrong-size''"
| "SemanticFailureName GspBootloaderMetadataOutOfRange = ''gsp-bootloader-metadata-out-of-range''"
| "SemanticFailureName FwsecMetadataOutOfRange = ''fwsec-metadata-out-of-range''"
| "SemanticFailureName Sec2MetadataOutOfRange = ''sec2-metadata-out-of-range''"

text \<open>The policy in numbers: what every offset of the metadata addresses is inside its section.\<close>

definition semantics_ok :: "byte list \<Rightarrow> PackageView \<Rightarrow> bool" where
  "semantics_ok b v \<longleftrightarrow> (let sec = Package.FindSection b v; m = PackageView.metadata v;
       boot = length (sec SectionKind.GspBootloader); fwsec = length (sec SectionKind.FrtsFwsecImage);
       sec2 = length (sec SectionKind.Sec2BooterImage); imem = unat (fwsecImemLoadSize m) in
     PackageView.status v = Package.ParseStatus.Ok \<and> unat (packageBytes v) = length b \<and>
     sec GspFirmwareImage \<noteq> [] \<and> length (sec GspFirmwareSignature) = 4096 \<and>
     unat (StaticMetadata.gspMonitorCodeOffset m) < boot \<and> unat (StaticMetadata.gspMonitorDataOffset m) < boot \<and>
     unat (StaticMetadata.gspManifestOffset m) < boot \<and>
     fwsecImemLoadSize m \<noteq> 0 \<and> fwsecDmemLoadSize m \<noteq> 0 \<and> imem + unat (fwsecDmemLoadSize m) \<le> fwsec \<and>
     imem + unat (fwsecPkcDataOffset m) + kRsa3072SignatureBytes \<le> fwsec \<and>
     fwsecEngineIdMask m \<noteq> 0 \<and> fwsecUcodeId m \<noteq> 0 \<and> sec2CodeSize m \<noteq> 0 \<and> sec2DataSize m \<noteq> 0 \<and>
     unat (sec2CodeOffset m) + unat (sec2CodeSize m) \<le> sec2 \<and>
     unat (sec2DataOffset m) + unat (sec2DataSize m) \<le> sec2)"

lemma SemanticFailureName_inj: "SemanticFailureName f = SemanticFailureName g \<longleftrightarrow> f = g"
  by (cases f; cases g) simp_all

lemma RangeFits_nat: "RangeFits t off n \<longleftrightarrow> unat off + unat n \<le> unat t"
proof (cases "off \<le> t")
  case True
  then have "unat (t - off) = unat t - unat off" by (simp add: unat_sub)
  then show ?thesis using True by (auto simp: RangeFits_def word_le_nat_alt)
next
  case False
  then show ?thesis by (simp add: RangeFits_def word_le_nat_alt)
qed

lemma OffsetInside_nat: "OffsetInside t off \<longleftrightarrow> unat off < unat t"
  by (auto simp: OffsetInside_def word_less_nat_alt)

lemma length_FindSection_in: "length (FindSection_in rs b k) \<le> length b"
  by (induction rs) (auto simp: length_Slice)

lemma length_FindSection: "length (Package.FindSection b v k) \<le> length b"
  by (simp add: Package.FindSection_def length_FindSection_in)

lemma CheckGa10xPackageSemantics_cases:
  "(valid (CheckGa10xPackageSemantics b v) \<longleftrightarrow> semantics_ok b v) \<and>
    (valid (CheckGa10xPackageSemantics b v) \<longleftrightarrow> failure (CheckGa10xPackageSemantics b v) = NoFailure)"
proof (cases "PackageView.status v \<noteq> Package.ParseStatus.Ok \<or> unat (packageBytes v) \<noteq> length b")
  case True
  then show ?thesis by (auto simp: CheckGa10xPackageSemantics_def semantics_ok_def Let_def)
next
  case False
  then have len: "length b < 2 ^ 64" using unat_lt(4) [of "packageBytes v"] by simp
  define sec where "sec = Package.FindSection b v"
  have n: "unat (of_nat (length (sec k)) :: u64) = length (sec k)" for k
    using length_FindSection [of b v k] len by (simp add: sec_def unat_of_nat_small)
  let ?m = "PackageView.metadata v"
  have g: "\<not> - 1 - (ucast (fwsecImemLoadSize ?m) :: u64) < ucast (fwsecPkcDataOffset ?m)"
    "unat (ucast (fwsecImemLoadSize ?m) + ucast (fwsecPkcDataOffset ?m) :: u64) =
      unat (fwsecImemLoadSize ?m) + unat (fwsecPkcDataOffset ?m)"
    using unat_lt(3) [of "fwsecImemLoadSize ?m"] unat_lt(3) [of "fwsecPkcDataOffset ?m"]
    by (simp_all add: add_guard64 unat_add_nowrap)
  show ?thesis
    unfolding CheckGa10xPackageSemantics_def semantics_ok_def Let_def sec_def [symmetric]
    using g by (simp add: RangeFits_nat OffsetInside_nat n kGa10xGspSignatureBytes_def kRsa3072SignatureBytes_def)
      (auto simp: unat_eq_0)
qed

text \<open>
  C7. The semantic policy is exactly its numeric reading: a package passes iff it has been verified, its
  signature section is 4096 bytes, the three GSP offsets are inside the bootloader, the FWSEC code,
  data and signature ranges are inside the FWSEC image with the engine mask and the microcode id set,
  and both SEC2 ranges are non-empty and inside the booter image; every other package gets a failure.
  No sum of offsets wraps around.
\<close>
theorem CheckGa10xPackageSemantics_iff:
  "(valid (CheckGa10xPackageSemantics b v) \<longleftrightarrow> semantics_ok b v) \<and>
    (valid (CheckGa10xPackageSemantics b v) \<longleftrightarrow> failure (CheckGa10xPackageSemantics b v) = NoFailure)"
  by (rule CheckGa10xPackageSemantics_cases)

section \<open>The DMA staging plan\<close>

definition kPackageDmaPageBytes :: u64 where "kPackageDmaPageBytes = 0x1000"

datatype DmaSectionLayout = PageList | Linear

record DmaSectionPlan =
  kind :: SectionKind
  layout :: DmaSectionLayout
  logicalBytes :: u64
  allocationBytes :: u64
  pageCount :: u64

datatype DmaStagingPlanStatus = Ok | PackageNotVerified | MissingOrEmptySection | SizeOverflow | TotalOverflow

record DmaStagingPlan =
  status :: DmaStagingPlanStatus
  sections :: "DmaSectionPlan list"
  totalLogicalBytes :: u64
  totalAllocationBytes :: u64

definition DmaSectionPlan0 :: DmaSectionPlan where
  "DmaSectionPlan0 = \<lparr>kind = OtherSection 0, layout = PageList, logicalBytes = 0, allocationBytes = 0, pageCount = 0\<rparr>"

definition DmaStagingPlan0 :: DmaStagingPlan where
  "DmaStagingPlan0 = \<lparr>status = DmaStagingPlanStatus.PackageNotVerified, sections = replicate 5 DmaSectionPlan0,
     totalLogicalBytes = 0, totalAllocationBytes = 0\<rparr>"

definition Add :: "u64 \<Rightarrow> u64 \<Rightarrow> u64 option" where
  "Add a b = (if - 1 - b < a then None else Some (a + b))"

definition AlignUp :: "u64 \<Rightarrow> u64 \<Rightarrow> u64 option" where
  "AlignUp v al = (if al = 0 \<or> al AND (al - 1) \<noteq> 0 then None
     else let m = al - 1 in if - 1 - m < v then None else Some ((v + m) AND NOT m))"

fun RequiredLayout :: "SectionKind \<Rightarrow> DmaSectionLayout" where
  "RequiredLayout GspFirmwareSignature = Linear"
| "RequiredLayout SectionKind.GspBootloader = Linear"
| "RequiredLayout k = PageList"

fun PlanPackageDmaStaging_loop ::
    "nat \<Rightarrow> SectionRecord list \<Rightarrow> u64 \<Rightarrow> u64 \<Rightarrow> DmaStagingPlan \<Rightarrow> DmaStagingPlan" where
  "PlanPackageDmaStaging_loop i [] logicalTotal allocationTotal out =
     out\<lparr>totalLogicalBytes := logicalTotal, totalAllocationBytes := allocationTotal, status := Ok\<rparr>"
| "PlanPackageDmaStaging_loop i (s # ss) logicalTotal allocationTotal out =
     (if SectionRecord.size' s = 0 then out\<lparr>status := MissingOrEmptySection\<rparr>
      else case AlignUp (SectionRecord.size' s) kPackageDmaPageBytes of
        None \<Rightarrow> out\<lparr>status := SizeOverflow\<rparr>
      | Some n \<Rightarrow>
          if n = 0 then out\<lparr>status := SizeOverflow\<rparr>
          else case Add logicalTotal (SectionRecord.size' s) of
            None \<Rightarrow> out\<lparr>status := TotalOverflow\<rparr>
          | Some logicalTotal \<Rightarrow>
              (case Add allocationTotal n of
                 None \<Rightarrow> out\<lparr>status := TotalOverflow\<rparr>
               | Some allocationTotal \<Rightarrow>
                   PlanPackageDmaStaging_loop (Suc i) ss logicalTotal allocationTotal
                     (out\<lparr>sections := (sections out)[i := \<lparr>kind = SectionRecord.kind s,
                        layout = RequiredLayout (SectionRecord.kind s), logicalBytes = SectionRecord.size' s,
                        allocationBytes = n, pageCount = n div kPackageDmaPageBytes\<rparr>]\<rparr>)))"

definition PlanPackageDmaStaging :: "PackageView \<Rightarrow> DmaStagingPlan" where
  "PlanPackageDmaStaging v =
     (if PackageView.status v \<noteq> Package.ParseStatus.Ok
      then DmaStagingPlan0\<lparr>status := DmaStagingPlanStatus.PackageNotVerified\<rparr>
      else PlanPackageDmaStaging_loop 0 (PackageView.sections v) 0 0 DmaStagingPlan0)"

definition IsLinearDmaPageList :: "u64 list \<Rightarrow> u64 \<Rightarrow> bool" where
  "IsLinearDmaPageList pages pb \<longleftrightarrow>
     \<not> (pages = [] \<or> pb = 0 \<or> pb AND (pb - 1) \<noteq> 0) \<and>
     list_all (\<lambda>a. a AND (pb - 1) = 0) pages \<and>
     list_all (\<lambda>i. \<not> (- 1 - pb < pages ! (i - 1) \<or> pages ! i \<noteq> pages ! (i - 1) + pb)) [1 ..< length pages]"

fun DmaStagingPlanStatusName :: "DmaStagingPlanStatus \<Rightarrow> string" where
  "DmaStagingPlanStatusName Ok = ''ok''"
| "DmaStagingPlanStatusName DmaStagingPlanStatus.PackageNotVerified = ''package-not-verified''"
| "DmaStagingPlanStatusName MissingOrEmptySection = ''missing-or-empty-section''"
| "DmaStagingPlanStatusName SizeOverflow = ''size-overflow''"
| "DmaStagingPlanStatusName TotalOverflow = ''total-overflow''"

text \<open>What the plan of a record is, in numbers.\<close>

definition planned :: "SectionRecord \<Rightarrow> DmaSectionPlan \<Rightarrow> bool" where
  "planned r p \<longleftrightarrow> kind p = SectionRecord.kind r \<and> layout p = RequiredLayout (SectionRecord.kind r) \<and>
     logicalBytes p = SectionRecord.size' r \<and>
     unat (allocationBytes p) = (unat (SectionRecord.size' r) + 4095) div 4096 * 4096 \<and>
     unat (pageCount p) = (unat (SectionRecord.size' r) + 4095) div 4096"

lemma AlignUp_pages:
  assumes "unat v \<le> 2 ^ 60"
  shows "\<exists>n. AlignUp v kPackageDmaPageBytes = Some n \<and> unat n = (unat v + 4095) div 4096 * 4096"
proof -
  have g: "\<not> - 1 - (0xFFF :: u64) < v" unfolding add_guard64 using assms by simp
  have sum: "unat (v + 0xFFF) = unat v + 0xFFF" using assms by (subst unat_add_nowrap) simp_all
  have "unat ((v + 0xFFF) AND NOT 0xFFF) = unat v + 0xFFF - (unat v + 0xFFF) mod 4096"
    using unat_and_not_mask [of "v + 0xFFF" 12] by (simp only: sum mask_eq_exp_minus_1) simp
  also have "\<dots> = (unat v + 4095) div 4096 * 4096"
    using minus_mod_eq_div_mult [of "unat v + 4095" 4096] by simp
  finally have e: "unat ((v + 0xFFF) AND NOT 0xFFF) = (unat v + 4095) div 4096 * 4096" .
  have "AlignUp v kPackageDmaPageBytes = Some ((v + 0xFFF) AND NOT 0xFFF)"
    using g by (simp add: AlignUp_def kPackageDmaPageBytes_def Let_def)
  then show ?thesis using e by blast
qed

lemma Add_fits: "unat a + unat b < 2 ^ 64 \<Longrightarrow> Add a b = Some (a + b) \<and> unat (a + b) = unat a + unat b"
  by (simp add: Add_def add_guard64 unat_add_nowrap)

lemma staging_loop:
  "\<forall>s \<in> set ss. 0 < unat (SectionRecord.size' s) \<and> unat (SectionRecord.size' s) \<le> 2 ^ 60 \<Longrightarrow>
    unat lt + length ss * (2 ^ 60 + 4096) < 2 ^ 64 \<Longrightarrow> unat at + length ss * (2 ^ 60 + 4096) < 2 ^ 64 \<Longrightarrow>
    i + length ss = length (sections out) \<Longrightarrow>
    \<exists>p. PlanPackageDmaStaging_loop i ss lt at out = p \<and> status p = Ok \<and>
      length (sections p) = length (sections out) \<and> take i (sections p) = take i (sections out) \<and>
      list_all2 planned ss (drop i (sections p)) \<and>
      unat (totalLogicalBytes p) = unat lt + (\<Sum>s \<leftarrow> ss. unat (SectionRecord.size' s)) \<and>
      unat (totalAllocationBytes p) = unat at + (\<Sum>q \<leftarrow> drop i (sections p). unat (allocationBytes q))"
proof (induction i ss lt at out rule: PlanPackageDmaStaging_loop.induct)
  case (2 i s ss lt at out)
  have s: "SectionRecord.size' s \<noteq> 0" "unat (SectionRecord.size' s) \<le> 2 ^ 60" using 2(2) by auto
  obtain n where n: "AlignUp (SectionRecord.size' s) kPackageDmaPageBytes = Some n"
    "unat n = (unat (SectionRecord.size' s) + 4095) div 4096 * 4096" using AlignUp_pages [OF s(2)] by blast
  have room: "unat lt + (2 ^ 60 + 4096) + length ss * (2 ^ 60 + 4096) < 2 ^ 64"
    "unat at + (2 ^ 60 + 4096) + length ss * (2 ^ 60 + 4096) < 2 ^ 64" using 2(3,4) by simp_all
  have le: "unat n \<le> 2 ^ 60 + 4096" unfolding n(2)
    using s(2) div_times_less_eq_dividend [of "unat (SectionRecord.size' s) + 4095" 4096] by linarith
  have "unat (SectionRecord.size' s) > 0" using s(1) by (simp add: unat_gt_0)
  then have "0 < (unat (SectionRecord.size' s) + 4095) div 4096" by simp
  then have nz: "n \<noteq> 0" using n(2) by (auto simp: unat_eq_0)
  have lt: "Add lt (SectionRecord.size' s) = Some (lt + SectionRecord.size' s)"
    "unat (lt + SectionRecord.size' s) = unat lt + unat (SectionRecord.size' s)"
    using Add_fits [of lt "SectionRecord.size' s"] room(1) s(2) by auto
  have at: "Add at n = Some (at + n)" "unat (at + n) = unat at + unat n"
    using Add_fits [of at n] room(2) le by auto
  let ?q = "\<lparr>kind = SectionRecord.kind s, layout = RequiredLayout (SectionRecord.kind s),
    logicalBytes = SectionRecord.size' s, allocationBytes = n, pageCount = n div kPackageDmaPageBytes\<rparr>"
  let ?out = "out\<lparr>sections := (sections out)[i := ?q]\<rparr>"
  let ?p = "PlanPackageDmaStaging_loop (Suc i) ss (lt + SectionRecord.size' s) (at + n) ?out"
  have "\<exists>p. ?p = p \<and> status p = Ok \<and>
      length (sections p) = length (sections ?out) \<and> take (Suc i) (sections p) = take (Suc i) (sections ?out) \<and>
      list_all2 planned ss (drop (Suc i) (sections p)) \<and>
      unat (totalLogicalBytes p) = unat (lt + SectionRecord.size' s) + (\<Sum>s \<leftarrow> ss. unat (SectionRecord.size' s)) \<and>
      unat (totalAllocationBytes p) = unat (at + n) + (\<Sum>q \<leftarrow> drop (Suc i) (sections p). unat (allocationBytes q))"
    using 2(2,5) room le s(2) nz by (intro 2(1) [OF s(1) n(1) nz lt(1) at(1)]) (auto simp: lt(2) at(2))
  then have p: "status ?p = Ok" "length (sections ?p) = length (sections out)"
    "take (Suc i) (sections ?p) = take (Suc i) ((sections out)[i := ?q])"
    "list_all2 planned ss (drop (Suc i) (sections ?p))"
    "unat (totalLogicalBytes ?p) = unat lt + unat (SectionRecord.size' s) + (\<Sum>s \<leftarrow> ss. unat (SectionRecord.size' s))"
    "unat (totalAllocationBytes ?p) = unat at + unat n + (\<Sum>q \<leftarrow> drop (Suc i) (sections ?p). unat (allocationBytes q))"
    by (simp_all add: lt(2) at(2))
  have i: "i < length (sections out)" using 2(5) by simp
  have "sections ?p ! i = take (Suc i) (sections ?p) ! i" by simp
  also have "\<dots> = ?q" using i unfolding p(3) by simp
  finally have at_i: "sections ?p ! i = ?q" .
  have "take i (sections ?p) = take i (take (Suc i) (sections ?p))" by (simp add: min_def)
  also have "\<dots> = take i (sections out)" unfolding p(3) by (simp add: min_def)
  finally have before: "take i (sections ?p) = take i (sections out)" .
  have dr: "drop i (sections ?p) = ?q # drop (Suc i) (sections ?p)" using i at_i p(2) by (metis Cons_nth_drop_Suc)
  have "planned s ?q" by (simp add: planned_def n(2) kPackageDmaPageBytes_def unat_div)
  then show ?case
    using s(1) n(1) nz lt(1) at(1) p before dr by simp
qed simp

lemma sum_list_bound: "\<forall>x \<in> set xs. f x \<le> k \<Longrightarrow> (\<Sum>x \<leftarrow> xs. f x) \<le> length xs * (k :: nat)"
  by (induction xs) fastforce+

lemma PlanPackageDmaStaging_verified:
  assumes v: "view_ok b v" "PackageView.status v = Package.ParseStatus.Ok" and len: "length b < 2 ^ 60"
  shows "\<exists>p. PlanPackageDmaStaging v = p \<and> status p = Ok \<and> list_all2 planned (PackageView.sections v) (sections p) \<and>
    unat (totalLogicalBytes p) = (\<Sum>s \<leftarrow> PackageView.sections v. unat (SectionRecord.size' s)) \<and>
    unat (totalAllocationBytes p) = (\<Sum>q \<leftarrow> sections p. unat (allocationBytes q))"
proof -
  have "0 < unat (SectionRecord.size' s) \<and> unat (SectionRecord.size' s) \<le> 2 ^ 60" if "s \<in> set (PackageView.sections v)" for s
  proof -
    have "record_ok (length b) s" using v(1) that by (simp add: view_ok_def)
    then show ?thesis using len by (auto simp: record_ok_def unat_gt_0)
  qed
  moreover have "length (PackageView.sections v) = 5" using v(1) by (simp add: view_ok_def)
  ultimately show ?thesis
    using staging_loop [of "PackageView.sections v" 0 0 0 DmaStagingPlan0] v(2)
    by (simp add: PlanPackageDmaStaging_def DmaStagingPlan0_def)
qed

lemma unat_mult_page: "k < 2 ^ 52 \<Longrightarrow> unat (of_nat k * kPackageDmaPageBytes) = k * 4096"
  by (subst unat_mult_nowrap) (simp_all add: unat_of_nat_small kPackageDmaPageBytes_def)

text \<open>A linear page list is one contiguous range, without wrap-around.\<close>

lemma IsLinearDmaPageList_iff:
  "IsLinearDmaPageList pages kPackageDmaPageBytes \<longleftrightarrow> pages \<noteq> [] \<and> 4096 dvd unat (hd pages) \<and>
     (\<forall>i < length pages. unat (pages ! i) = unat (hd pages) + 4096 * i)"
proof -
  have al: "a AND (kPackageDmaPageBytes - 1) = 0 \<longleftrightarrow> 4096 dvd unat a" for a
    using and_FFF_iff [of a] by (simp add: kPackageDmaPageBytes_def kPayloadAlignment_def)
  have step: "\<not> (- 1 - kPackageDmaPageBytes < p \<or> q \<noteq> p + kPackageDmaPageBytes) \<longleftrightarrow> unat q = unat p + 4096" for p q
  proof
    assume *: "\<not> (- 1 - kPackageDmaPageBytes < p \<or> q \<noteq> p + kPackageDmaPageBytes)"
    then have "unat p + 4096 < 2 ^ 64" unfolding add_guard64 by (simp add: kPackageDmaPageBytes_def)
    then show "unat q = unat p + 4096" using * by (simp add: kPackageDmaPageBytes_def unat_add_nowrap)
  next
    assume *: "unat q = unat p + 4096"
    then have "unat p + 4096 < 2 ^ 64" using unat_lt(4) [of q] by simp
    then have "unat (p + kPackageDmaPageBytes) = unat p + 4096" "\<not> - 1 - kPackageDmaPageBytes < p"
      unfolding add_guard64 by (simp_all add: kPackageDmaPageBytes_def unat_add_nowrap)
    then show "\<not> (- 1 - kPackageDmaPageBytes < p \<or> q \<noteq> p + kPackageDmaPageBytes)"
      using * by (auto simp: word_unat_eq_iff)
  qed
  have lin: "(\<forall>i \<in> {1 ..< length pages}. unat (pages ! i) = unat (pages ! (i - 1)) + 4096) \<longleftrightarrow>
      (\<forall>i < length pages. unat (pages ! i) = unat (hd pages) + 4096 * i)" (is "?l \<longleftrightarrow> ?r") if "pages \<noteq> []"
  proof
    assume l: ?l
    show ?r
    proof (intro allI impI)
      fix i
      show "i < length pages \<Longrightarrow> unat (pages ! i) = unat (hd pages) + 4096 * i"
      proof (induction i)
        case 0
        then show ?case using that by (simp add: hd_conv_nth)
      next
        case (Suc i)
        then have "unat (pages ! Suc i) = unat (pages ! i) + 4096" using l by auto
        then show ?case using Suc by simp
      qed
    qed
  next
    assume r: ?r
    show ?l
    proof
      fix i
      assume "i \<in> {1 ..< length pages}"
      then have "unat (pages ! i) = unat (hd pages) + 4096 * i" "unat (pages ! (i - 1)) = unat (hd pages) + 4096 * (i - 1)"
        "4096 * i = 4096 * (i - 1) + 4096" using r by auto
      then show "unat (pages ! i) = unat (pages ! (i - 1)) + 4096" by linarith
    qed
  qed
  have dvd: "(\<forall>a \<in> set pages. 4096 dvd unat a) \<longleftrightarrow> 4096 dvd unat (hd pages)"
    if "\<forall>i < length pages. unat (pages ! i) = unat (hd pages) + 4096 * i" "pages \<noteq> []"
  proof
    assume "\<forall>a \<in> set pages. 4096 dvd unat a"
    then show "4096 dvd unat (hd pages)" using that(2) by simp
  qed (use that in \<open>auto simp: in_set_conv_nth\<close>)
  show ?thesis
  proof (cases "pages = []")
    case False
    have "IsLinearDmaPageList pages kPackageDmaPageBytes \<longleftrightarrow> (\<forall>a \<in> set pages. 4096 dvd unat a) \<and>
        (\<forall>i \<in> {1 ..< length pages}. unat (pages ! i) = unat (pages ! (i - 1)) + 4096)"
      unfolding IsLinearDmaPageList_def list_all_iff al step set_upt using False
      by (simp add: kPackageDmaPageBytes_def)
    then show ?thesis unfolding lin [OF False] using dvd False by blast
  qed (simp add: IsLinearDmaPageList_def)
qed

section \<open>The resolution of the staged payloads\<close>

record StagedSectionPhysicalView =
  kind :: SectionKind
  layout :: DmaSectionLayout
  logicalBytes :: u64
  allocationBytes :: u64
  pageAddresses :: "u64 list"

datatype DmaResolveStatus = Ok | BadPlan | WrongSectionCount | SectionMismatch | BadAllocationSize
  | BadPageCount | BadPageAddress | LinearLayoutRejected

record ResolvedPackageDmaEntry =
  kind :: AllocationKind
  layout :: DmaLayoutRequirement
  baseAddress :: u64
  allocationBytes :: u64
  pageCount :: u64

record ResolvedPackageDmaSummary =
  status :: DmaResolveStatus
  allocations :: "ResolvedPackageDmaEntry list"
  totalPages :: u64

record ResolvedPackageDma =
  status :: DmaResolveStatus
  allocations :: "ResolvedDmaAllocation list"
  totalPages :: u64

definition ResolvedPackageDmaSummary0 :: ResolvedPackageDmaSummary where
  "ResolvedPackageDmaSummary0 = \<lparr>ResolvedPackageDmaSummary.status = BadPlan,
     ResolvedPackageDmaSummary.allocations = replicate 5 \<lparr>kind = QueueBacking, layout = NoLayout,
       baseAddress = 0, allocationBytes = 0, pageCount = 0\<rparr>, ResolvedPackageDmaSummary.totalPages = 0\<rparr>"

definition ResolvedPackageDma0 :: ResolvedPackageDma where
  "ResolvedPackageDma0 = \<lparr>status = BadPlan, allocations = replicate 5 \<lparr>ResolvedDmaAllocation.kind = QueueBacking,
     ResolvedDmaAllocation.layout = NoLayout, ResolvedDmaAllocation.baseAddress = 0, ResolvedDmaAllocation.allocationBytes = 0, ResolvedDmaAllocation.pageAddresses = []\<rparr>, totalPages = 0\<rparr>"

fun MapAllocationKind :: "SectionKind \<Rightarrow> AllocationKind" where
  "MapAllocationKind GspFirmwareImage = Radix3Firmware"
| "MapAllocationKind GspFirmwareSignature = FirmwareSignature"
| "MapAllocationKind SectionKind.GspBootloader = AllocationKind.GspBootloader"
| "MapAllocationKind SectionKind.FrtsFwsecImage = AllocationKind.FrtsFwsecImage"
| "MapAllocationKind SectionKind.Sec2BooterImage = AllocationKind.Sec2BooterImage"
| "MapAllocationKind (OtherSection v) = Radix3Firmware"

definition MapLayout :: "DmaSectionLayout \<Rightarrow> DmaLayoutRequirement" where
  "MapLayout l = (if l = Linear then DmaLayoutRequirement.Linear else DmaLayoutRequirement.PageList)"

definition ValidPageList :: "u64 list \<Rightarrow> u64 \<Rightarrow> bool" where
  "ValidPageList pages pb \<longleftrightarrow> \<not> (pages = [] \<or> pb = 0 \<or> pb AND (pb - 1) \<noteq> 0) \<and>
     list_all (\<lambda>a. a AND (pb - 1) = 0) pages"

fun ResolvePackageDmaSummary_loop ::
    "nat \<Rightarrow> DmaSectionPlan list \<Rightarrow> StagedSectionPhysicalView list \<Rightarrow> ResolvedPackageDmaSummary \<Rightarrow>
     ResolvedPackageDmaSummary option" where
  "ResolvePackageDmaSummary_loop i [] views out = Some (out\<lparr>ResolvedPackageDmaSummary.status := Ok\<rparr>)"
| "ResolvePackageDmaSummary_loop i (e # es) views out = do {
     a \<leftarrow> rd views i;
     if StagedSectionPhysicalView.kind a \<noteq> DmaSectionPlan.kind e \<or>
        StagedSectionPhysicalView.layout a \<noteq> DmaSectionPlan.layout e \<or>
        StagedSectionPhysicalView.logicalBytes a \<noteq> DmaSectionPlan.logicalBytes e
     then Some (out\<lparr>ResolvedPackageDmaSummary.status := SectionMismatch\<rparr>)
     else if StagedSectionPhysicalView.allocationBytes a \<noteq> DmaSectionPlan.allocationBytes e \<or>
        StagedSectionPhysicalView.allocationBytes a = 0 \<or>
        StagedSectionPhysicalView.allocationBytes a mod kPackageDmaPageBytes \<noteq> 0
     then Some (out\<lparr>ResolvedPackageDmaSummary.status := BadAllocationSize\<rparr>)
     else if DmaSectionPlan.pageCount e = 0 \<or> SIZE_MAX < unat (DmaSectionPlan.pageCount e) \<or>
        length (pageAddresses a) \<noteq> unat (DmaSectionPlan.pageCount e)
     then Some (out\<lparr>ResolvedPackageDmaSummary.status := BadPageCount\<rparr>)
     else if \<not> ValidPageList (pageAddresses a) kPackageDmaPageBytes
     then Some (out\<lparr>ResolvedPackageDmaSummary.status := BadPageAddress\<rparr>)
     else if DmaSectionPlan.layout e = Linear \<and> \<not> IsLinearDmaPageList (pageAddresses a) kPackageDmaPageBytes
     then Some (out\<lparr>ResolvedPackageDmaSummary.status := LinearLayoutRejected\<rparr>)
     else if - 1 - DmaSectionPlan.pageCount e < ResolvedPackageDmaSummary.totalPages out
     then Some (out\<lparr>ResolvedPackageDmaSummary.status := BadPageCount\<rparr>)
     else do {
       base \<leftarrow> rd (pageAddresses a) 0;
       ResolvePackageDmaSummary_loop (Suc i) es views
         (out\<lparr>ResolvedPackageDmaSummary.allocations := (ResolvedPackageDmaSummary.allocations out)[i := \<lparr>kind = MapAllocationKind (DmaSectionPlan.kind e),
            layout = MapLayout (DmaSectionPlan.layout e), baseAddress = base,
            allocationBytes = StagedSectionPhysicalView.allocationBytes a, pageCount = DmaSectionPlan.pageCount e\<rparr>],
            ResolvedPackageDmaSummary.totalPages := ResolvedPackageDmaSummary.totalPages out + DmaSectionPlan.pageCount e\<rparr>) } }"

definition ResolvePackageDmaSummary ::
    "DmaStagingPlan \<Rightarrow> StagedSectionPhysicalView list \<Rightarrow> ResolvedPackageDmaSummary option" where
  "ResolvePackageDmaSummary plan views =
     (let out = ResolvedPackageDmaSummary0
      in if DmaStagingPlan.status plan \<noteq> DmaStagingPlanStatus.Ok then Some (out\<lparr>ResolvedPackageDmaSummary.status := BadPlan\<rparr>)
      else if length views \<noteq> unat kSectionCount then Some (out\<lparr>ResolvedPackageDmaSummary.status := WrongSectionCount\<rparr>)
      else ResolvePackageDmaSummary_loop 0 (DmaStagingPlan.sections plan) views out)"

fun ResolvePackageDma_loop ::
    "nat \<Rightarrow> ResolvedPackageDmaEntry list \<Rightarrow> StagedSectionPhysicalView list \<Rightarrow> ResolvedPackageDma \<Rightarrow>
     ResolvedPackageDma option" where
  "ResolvePackageDma_loop i [] views out = Some out"
| "ResolvePackageDma_loop i (e # es) views out = do {
     a \<leftarrow> rd views i;
     ResolvePackageDma_loop (Suc i) es views
       (out\<lparr>ResolvedPackageDma.allocations := (ResolvedPackageDma.allocations out)[i :=
          \<lparr>ResolvedDmaAllocation.kind = kind e, ResolvedDmaAllocation.layout = layout e, ResolvedDmaAllocation.baseAddress = baseAddress e,
            ResolvedDmaAllocation.allocationBytes = allocationBytes e, ResolvedDmaAllocation.pageAddresses = StagedSectionPhysicalView.pageAddresses a\<rparr>]\<rparr>) }"

definition ResolvePackageDma ::
    "DmaStagingPlan \<Rightarrow> StagedSectionPhysicalView list \<Rightarrow> ResolvedPackageDma option" where
  "ResolvePackageDma plan views = do {
     summary \<leftarrow> ResolvePackageDmaSummary plan views;
     let out = ResolvedPackageDma0\<lparr>ResolvedPackageDma.status := ResolvedPackageDmaSummary.status summary,
       ResolvedPackageDma.totalPages := ResolvedPackageDmaSummary.totalPages summary\<rparr>;
     if ResolvedPackageDmaSummary.status summary \<noteq> Ok then Some out
     else ResolvePackageDma_loop 0 (ResolvedPackageDmaSummary.allocations summary) views out }"

fun DmaResolveStatusName :: "DmaResolveStatus \<Rightarrow> string" where
  "DmaResolveStatusName Ok = ''ok''"
| "DmaResolveStatusName BadPlan = ''bad-plan''"
| "DmaResolveStatusName WrongSectionCount = ''wrong-section-count''"
| "DmaResolveStatusName SectionMismatch = ''section-mismatch''"
| "DmaResolveStatusName BadAllocationSize = ''bad-allocation-size''"
| "DmaResolveStatusName BadPageCount = ''bad-page-count''"
| "DmaResolveStatusName BadPageAddress = ''bad-page-address''"
| "DmaResolveStatusName LinearLayoutRejected = ''linear-layout-rejected''"

lemma DmaStatusName_inj:
  "DmaResolveStatusName s = DmaResolveStatusName t \<longleftrightarrow> s = t"
  "DmaStagingPlanStatusName p = DmaStagingPlanStatusName q \<longleftrightarrow> p = q"
  by (cases s; cases t; simp) (cases p; cases q; simp)

text \<open>A views payload that matches its plan, and what it resolves to.\<close>

definition section_resolved :: "DmaSectionPlan \<Rightarrow> StagedSectionPhysicalView \<Rightarrow> bool" where
  "section_resolved e a \<longleftrightarrow> StagedSectionPhysicalView.kind a = DmaSectionPlan.kind e \<and>
     StagedSectionPhysicalView.layout a = DmaSectionPlan.layout e \<and>
     StagedSectionPhysicalView.logicalBytes a = DmaSectionPlan.logicalBytes e \<and>
     StagedSectionPhysicalView.allocationBytes a = DmaSectionPlan.allocationBytes e \<and>
     0 < unat (DmaSectionPlan.allocationBytes e) \<and> 4096 dvd unat (DmaSectionPlan.allocationBytes e) \<and>
     length (pageAddresses a) = unat (DmaSectionPlan.pageCount e) \<and> pageAddresses a \<noteq> [] \<and>
     (\<forall>p \<in> set (pageAddresses a). 4096 dvd unat p) \<and>
     (DmaSectionPlan.layout e = Linear \<longrightarrow>
       (\<forall>i < length (pageAddresses a). unat (pageAddresses a ! i) = unat (hd (pageAddresses a)) + 4096 * i))"

definition resolved_entry :: "DmaSectionPlan \<Rightarrow> StagedSectionPhysicalView \<Rightarrow> ResolvedPackageDmaEntry" where
  "resolved_entry e a = \<lparr>kind = MapAllocationKind (DmaSectionPlan.kind e), layout = MapLayout (DmaSectionPlan.layout e),
     baseAddress = hd (pageAddresses a), allocationBytes = StagedSectionPhysicalView.allocationBytes a,
     pageCount = DmaSectionPlan.pageCount e\<rparr>"

definition resolved_allocation :: "DmaSectionPlan \<Rightarrow> StagedSectionPhysicalView \<Rightarrow> ResolvedDmaAllocation" where
  "resolved_allocation e a = \<lparr>ResolvedDmaAllocation.kind = MapAllocationKind (DmaSectionPlan.kind e),
     ResolvedDmaAllocation.layout = MapLayout (DmaSectionPlan.layout e), ResolvedDmaAllocation.baseAddress = hd (pageAddresses a),
     ResolvedDmaAllocation.allocationBytes = StagedSectionPhysicalView.allocationBytes a, ResolvedDmaAllocation.pageAddresses = pageAddresses a\<rparr>"

lemma ValidPageList_iff:
  "ValidPageList pages kPackageDmaPageBytes \<longleftrightarrow> pages \<noteq> [] \<and> (\<forall>p \<in> set pages. 4096 dvd unat p)"
proof -
  have "a AND (kPackageDmaPageBytes - 1) = 0 \<longleftrightarrow> 4096 dvd unat a" for a
    using and_FFF_iff [of a] by (simp add: kPackageDmaPageBytes_def kPayloadAlignment_def)
  then show ?thesis by (simp add: ValidPageList_def list_all_iff) (simp add: kPackageDmaPageBytes_def)
qed

lemma page_multiple: "(v :: u64) mod kPackageDmaPageBytes = 0 \<longleftrightarrow> 4096 dvd unat v"
  by (simp add: word_mod_eq_0_iff kPackageDmaPageBytes_def)

lemma section_guards:
  assumes "\<not> - 1 - DmaSectionPlan.pageCount e < t"
  shows "section_resolved e a \<longleftrightarrow>
    \<not> (StagedSectionPhysicalView.kind a \<noteq> DmaSectionPlan.kind e \<or>
        StagedSectionPhysicalView.layout a \<noteq> DmaSectionPlan.layout e \<or>
        StagedSectionPhysicalView.logicalBytes a \<noteq> DmaSectionPlan.logicalBytes e) \<and>
    \<not> (StagedSectionPhysicalView.allocationBytes a \<noteq> DmaSectionPlan.allocationBytes e \<or>
        StagedSectionPhysicalView.allocationBytes a = 0 \<or>
        StagedSectionPhysicalView.allocationBytes a mod kPackageDmaPageBytes \<noteq> 0) \<and>
    \<not> (DmaSectionPlan.pageCount e = 0 \<or> SIZE_MAX < unat (DmaSectionPlan.pageCount e) \<or>
        length (pageAddresses a) \<noteq> unat (DmaSectionPlan.pageCount e)) \<and>
    ValidPageList (pageAddresses a) kPackageDmaPageBytes \<and>
    (DmaSectionPlan.layout e = Linear \<longrightarrow> IsLinearDmaPageList (pageAddresses a) kPackageDmaPageBytes)"
proof -
  have max: "\<not> SIZE_MAX < unat (DmaSectionPlan.pageCount e)" using unat_lt(4) [of "DmaSectionPlan.pageCount e"] by simp
  have hd: "pageAddresses a \<noteq> [] \<Longrightarrow> \<forall>p \<in> set (pageAddresses a). 4096 dvd unat p \<Longrightarrow> 4096 dvd unat (hd (pageAddresses a))"
    by simp
  show ?thesis
    unfolding section_resolved_def ValidPageList_iff IsLinearDmaPageList_iff page_multiple
    using max hd by (auto simp: unat_gt_0 unat_eq_0)
qed

abbreviation resolve_next ::
    "nat \<Rightarrow> DmaSectionPlan \<Rightarrow> StagedSectionPhysicalView \<Rightarrow> ResolvedPackageDmaSummary \<Rightarrow> ResolvedPackageDmaSummary" where
  "resolve_next i e a out \<equiv>
     out\<lparr>ResolvedPackageDmaSummary.allocations := (ResolvedPackageDmaSummary.allocations out)[i := resolved_entry e a],
       ResolvedPackageDmaSummary.totalPages := ResolvedPackageDmaSummary.totalPages out + DmaSectionPlan.pageCount e\<rparr>"

lemma if_chain5:
  "\<not> (\<not> c1 \<and> \<not> c2 \<and> \<not> c3 \<and> v \<and> (l \<longrightarrow> il)) \<Longrightarrow> \<exists>st. st \<noteq> Ok \<and>
    (if c1 then f SectionMismatch else if c2 then f BadAllocationSize else if c3 then f BadPageCount
     else if \<not> v then f BadPageAddress else if l \<and> \<not> il then f LinearLayoutRejected else z) = f st"
  by auto

lemma resolve_step:
  assumes i: "i < length views" and t: "\<not> - 1 - DmaSectionPlan.pageCount e < ResolvedPackageDmaSummary.totalPages out"
  shows "section_resolved e (views ! i) \<Longrightarrow> ResolvePackageDmaSummary_loop i (e # es) views out =
      ResolvePackageDmaSummary_loop (Suc i) es views (resolve_next i e (views ! i) out)"
    and "\<not> section_resolved e (views ! i) \<Longrightarrow> \<exists>st. st \<noteq> Ok \<and> ResolvePackageDmaSummary_loop i (e # es) views out =
      Some (out\<lparr>ResolvedPackageDmaSummary.status := st\<rparr>)"
proof -
  have r: "rd views i = Some (views ! i)" using i by (simp add: rd_def)
  note g = section_guards [OF t, of "views ! i"]
  have hd: "rd (pageAddresses a) 0 = Some (hd (pageAddresses a))" if "pageAddresses a \<noteq> []" for a
    using that by (cases "pageAddresses a") (simp_all add: rd_def)
  show "ResolvePackageDmaSummary_loop i (e # es) views out =
      ResolvePackageDmaSummary_loop (Suc i) es views (resolve_next i e (views ! i) out)" if *: "section_resolved e (views ! i)"
  proof -
    have ne: "pageAddresses (views ! i) \<noteq> []" using * by (simp add: section_resolved_def)
    note p = * [unfolded g]
    have v: "\<not> \<not> ValidPageList (pageAddresses (views ! i)) kPackageDmaPageBytes"
      "\<not> (DmaSectionPlan.layout e = Linear \<and> \<not> IsLinearDmaPageList (pageAddresses (views ! i)) kPackageDmaPageBytes)"
      using p by simp_all
    show ?thesis
      unfolding ResolvePackageDmaSummary_loop.simps r Option.bind_lunit if_not_P [OF p [THEN conjunct1]]
        if_not_P [OF p [THEN conjunct2, THEN conjunct1]] if_not_P [OF p [THEN conjunct2, THEN conjunct2, THEN conjunct1]]
        if_not_P [OF v(1)] if_not_P [OF v(2)] if_not_P [OF t] hd [OF ne] resolved_entry_def ..
  qed
  show "\<exists>st. st \<noteq> Ok \<and> ResolvePackageDmaSummary_loop i (e # es) views out =
      Some (out\<lparr>ResolvedPackageDmaSummary.status := st\<rparr>)" if *: "\<not> section_resolved e (views ! i)"
    using * unfolding g ResolvePackageDmaSummary_loop.simps r Option.bind_lunit
    by (intro if_chain5 [where f = "\<lambda>st. Some (out\<lparr>ResolvedPackageDmaSummary.status := st\<rparr>)"])
qed

declare ResolvePackageDmaSummary_loop.simps(2) [simp del]

lemma resolve_loop:
  "i + length es = length views \<Longrightarrow> length (ResolvedPackageDmaSummary.allocations out) = length views \<Longrightarrow>
    unat (ResolvedPackageDmaSummary.totalPages out) + (\<Sum>e \<leftarrow> es. unat (DmaSectionPlan.pageCount e)) < 2 ^ 64 \<Longrightarrow>
    \<exists>r. ResolvePackageDmaSummary_loop i es views out = Some r \<and>
      (ResolvedPackageDmaSummary.status r = Ok \<longleftrightarrow> list_all2 section_resolved es (drop i views)) \<and>
      (ResolvedPackageDmaSummary.status r = Ok \<longrightarrow>
        ResolvedPackageDmaSummary.allocations r = take i (ResolvedPackageDmaSummary.allocations out) @ map2 resolved_entry es (drop i views) \<and>
        unat (ResolvedPackageDmaSummary.totalPages r) =
          unat (ResolvedPackageDmaSummary.totalPages out) + (\<Sum>e \<leftarrow> es. unat (DmaSectionPlan.pageCount e)))"
proof (induction es arbitrary: i out)
  case (Cons e es)
  have i: "i < length views" using Cons.prems(1) by simp
  have dr: "drop i views = views ! i # drop (Suc i) views" using i by (simp add: Cons_nth_drop_Suc)
  have t: "\<not> - 1 - DmaSectionPlan.pageCount e < ResolvedPackageDmaSummary.totalPages out"
    "unat (ResolvedPackageDmaSummary.totalPages out + DmaSectionPlan.pageCount e) =
      unat (ResolvedPackageDmaSummary.totalPages out) + unat (DmaSectionPlan.pageCount e)"
    using Cons.prems(3) by (simp_all add: add_guard64 unat_add_nowrap)
  show ?case
  proof (cases "section_resolved e (views ! i)")
    case True
    let ?out = "resolve_next i e (views ! i) out"
    have tk: "take (Suc i) (ResolvedPackageDmaSummary.allocations ?out) =
        take i (ResolvedPackageDmaSummary.allocations out) @ [resolved_entry e (views ! i)]"
      using i Cons.prems(2) by (simp add: take_Suc_conv_app_nth)
    have tot: "unat (ResolvedPackageDmaSummary.totalPages ?out) =
        unat (ResolvedPackageDmaSummary.totalPages out) + unat (DmaSectionPlan.pageCount e)" using t(2) by simp
    have "\<exists>r. ResolvePackageDmaSummary_loop (Suc i) es views ?out = Some r \<and>
      (ResolvedPackageDmaSummary.status r = Ok \<longleftrightarrow> list_all2 section_resolved es (drop (Suc i) views)) \<and>
      (ResolvedPackageDmaSummary.status r = Ok \<longrightarrow>
        ResolvedPackageDmaSummary.allocations r = take (Suc i) (ResolvedPackageDmaSummary.allocations ?out) @ map2 resolved_entry es (drop (Suc i) views) \<and>
        unat (ResolvedPackageDmaSummary.totalPages r) =
          unat (ResolvedPackageDmaSummary.totalPages ?out) + (\<Sum>e \<leftarrow> es. unat (DmaSectionPlan.pageCount e)))"
      using Cons.prems tot by (intro Cons.IH) simp_all
    then show ?thesis unfolding resolve_step(1) [OF i t(1) True] tk tot dr using True by auto
  next
    case False
    then show ?thesis using resolve_step(2) [OF i t(1) False, of es] by (auto simp: dr)
  qed
qed simp

lemma copy_loop:
  "i + length es = length views \<Longrightarrow> length (ResolvedPackageDma.allocations out) = length views \<Longrightarrow>
    \<exists>r. ResolvePackageDma_loop i es views out = Some r \<and>
      ResolvedPackageDma.status r = ResolvedPackageDma.status out \<and>
      ResolvedPackageDma.totalPages r = ResolvedPackageDma.totalPages out \<and>
      ResolvedPackageDma.allocations r = take i (ResolvedPackageDma.allocations out) @
        map2 (\<lambda>e a. \<lparr>ResolvedDmaAllocation.kind = ResolvedPackageDmaEntry.kind e, ResolvedDmaAllocation.layout = ResolvedPackageDmaEntry.layout e,
          ResolvedDmaAllocation.baseAddress = ResolvedPackageDmaEntry.baseAddress e,
          ResolvedDmaAllocation.allocationBytes = ResolvedPackageDmaEntry.allocationBytes e,
          ResolvedDmaAllocation.pageAddresses = pageAddresses a\<rparr>) es (drop i views)"
proof (induction i es views out rule: ResolvePackageDma_loop.induct)
  case (2 i e es views out)
  have i: "rd views i = Some (views ! i)" "drop i views = views ! i # drop (Suc i) views"
    using 2(2) by (simp_all add: rd_def Cons_nth_drop_Suc)
  show ?case using 2(1) [OF i(1)] 2(2,3) by (simp add: i take_Suc_conv_app_nth)
qed simp

lemma map2_resolved:
  "length es = length as \<Longrightarrow> map2 (\<lambda>e a. \<lparr>ResolvedDmaAllocation.kind = ResolvedPackageDmaEntry.kind e, ResolvedDmaAllocation.layout = ResolvedPackageDmaEntry.layout e,
      ResolvedDmaAllocation.baseAddress = ResolvedPackageDmaEntry.baseAddress e,
      ResolvedDmaAllocation.allocationBytes = ResolvedPackageDmaEntry.allocationBytes e,
      ResolvedDmaAllocation.pageAddresses = pageAddresses a\<rparr>) (map2 resolved_entry es as) as = map2 resolved_allocation es as"
  by (induction es as rule: list_induct2) (simp_all add: resolved_entry_def resolved_allocation_def)

lemma ResolvePackageDma_cases:
  assumes plan: "DmaStagingPlan.status plan = DmaStagingPlanStatus.Ok" "length (DmaStagingPlan.sections plan) = 5"
    and tot: "(\<Sum>e \<leftarrow> DmaStagingPlan.sections plan. unat (DmaSectionPlan.pageCount e)) < 2 ^ 64"
  shows "\<exists>r. ResolvePackageDma plan views = Some r \<and>
    (ResolvedPackageDma.status r = Ok \<longleftrightarrow> list_all2 section_resolved (DmaStagingPlan.sections plan) views) \<and>
    (ResolvedPackageDma.status r = Ok \<longrightarrow>
      ResolvedPackageDma.allocations r = map2 resolved_allocation (DmaStagingPlan.sections plan) views \<and>
      unat (ResolvedPackageDma.totalPages r) = (\<Sum>a \<leftarrow> views. length (pageAddresses a)))"
proof (cases "length views = 5")
  case False
  then show ?thesis
    using plan by (auto simp: ResolvePackageDma_def ResolvePackageDmaSummary_def Let_def kSectionCount_def
        ResolvedPackageDmaSummary0_def ResolvedPackageDma0_def list_all2_lengthD)
next
  case True
  have k: "length views = unat kSectionCount" using True by (simp add: kSectionCount_def)
  let ?es = "DmaStagingPlan.sections plan"
  obtain s where s: "ResolvePackageDmaSummary plan views = Some s"
    "ResolvedPackageDmaSummary.status s = Ok \<longleftrightarrow> list_all2 section_resolved ?es views"
    "ResolvedPackageDmaSummary.status s = Ok \<longrightarrow> ResolvedPackageDmaSummary.allocations s = map2 resolved_entry ?es views \<and>
      unat (ResolvedPackageDmaSummary.totalPages s) = (\<Sum>e \<leftarrow> ?es. unat (DmaSectionPlan.pageCount e))"
    using resolve_loop [of 0 ?es views ResolvedPackageDmaSummary0] plan tot True k
    by (auto simp: ResolvePackageDmaSummary_def ResolvedPackageDmaSummary0_def)
  show ?thesis
  proof (cases "list_all2 section_resolved ?es views")
    case False
    then show ?thesis using s by (simp add: ResolvePackageDma_def Let_def)
  next
    case all: True
    have st: "ResolvedPackageDmaSummary.status s = Ok"
      "ResolvedPackageDmaSummary.allocations s = map2 resolved_entry ?es views"
      "unat (ResolvedPackageDmaSummary.totalPages s) = (\<Sum>e \<leftarrow> ?es. unat (DmaSectionPlan.pageCount e))"
      using s(2,3) all by simp_all
    have len: "(\<Sum>e \<leftarrow> es. unat (DmaSectionPlan.pageCount e)) = (\<Sum>a \<leftarrow> as. length (pageAddresses a))"
      if "list_all2 section_resolved es as" for es as
      using that by (induction rule: list_all2_induct) (simp_all add: section_resolved_def)
    let ?out = "ResolvedPackageDma0\<lparr>ResolvedPackageDma.status := Ok,
      ResolvedPackageDma.totalPages := ResolvedPackageDmaSummary.totalPages s\<rparr>"
    have n: "length ?es = length views" using plan(2) True by simp
    obtain r where r: "ResolvePackageDma_loop 0 (map2 resolved_entry ?es views) views ?out = Some r"
      "ResolvedPackageDma.status r = Ok" "ResolvedPackageDma.totalPages r = ResolvedPackageDmaSummary.totalPages s"
      "ResolvedPackageDma.allocations r = map2 resolved_allocation ?es views"
      using copy_loop [of 0 "map2 resolved_entry ?es views" views ?out] n True
      by (auto simp: ResolvedPackageDma0_def map2_resolved)
    then show ?thesis using s(1) st all len [OF all] by (simp add: ResolvePackageDma_def Let_def)
  qed
qed

lemma planned_pages:
  assumes "list_all2 planned rs ps" and "\<forall>r \<in> set rs. unat (SectionRecord.size' r) \<le> 2 ^ 60" "length rs = 5"
  shows "(\<Sum>e \<leftarrow> ps. unat (DmaSectionPlan.pageCount e)) < 2 ^ 64"
proof -
  have "\<forall>e \<in> set ps. unat (DmaSectionPlan.pageCount e) \<le> 2 ^ 61"
  proof
    fix e
    assume "e \<in> set ps"
    then obtain i where i: "i < length ps" "e = ps ! i" by (auto simp: in_set_conv_nth)
    then have "planned (rs ! i) e" "unat (SectionRecord.size' (rs ! i)) \<le> 2 ^ 60"
      using assms(1,2) by (auto simp: list_all2_conv_all_nth)
    then have "unat (DmaSectionPlan.pageCount e) \<le> (2 ^ 60 + 4095) div 4096"
      by (simp add: planned_def div_le_mono)
    then show "unat (DmaSectionPlan.pageCount e) \<le> 2 ^ 61" by simp
  qed
  from sum_list_bound [OF this] have "(\<Sum>e \<leftarrow> ps. unat (DmaSectionPlan.pageCount e)) \<le> length ps * 2 ^ 61" .
  moreover have "length ps = 5" using assms(1,3) list_all2_lengthD by fastforce
  ultimately show ?thesis by simp
qed

lemma accepted_records:
  assumes "view_ok b v" and "length b < 2 ^ 60"
  shows "\<forall>r \<in> set (PackageView.sections v). unat (SectionRecord.size' r) \<le> 2 ^ 60" "length (PackageView.sections v) = 5"
  using assms by (auto simp: view_ok_def record_ok_def)

lemma ResolvePackageDma_staged:
  assumes "view_ok b v" "PackageView.status v = Package.ParseStatus.Ok" and "length b < 2 ^ 60"
  shows "\<exists>r. ResolvePackageDma (PlanPackageDmaStaging v) views = Some r \<and>
    (ResolvedPackageDma.status r = Ok \<longleftrightarrow>
      list_all2 section_resolved (DmaStagingPlan.sections (PlanPackageDmaStaging v)) views) \<and>
    (ResolvedPackageDma.status r = Ok \<longrightarrow>
      ResolvedPackageDma.allocations r = map2 resolved_allocation (DmaStagingPlan.sections (PlanPackageDmaStaging v)) views \<and>
      unat (ResolvedPackageDma.totalPages r) = (\<Sum>a \<leftarrow> views. length (pageAddresses a)))"
proof -
  note p = PlanPackageDmaStaging_verified [OF assms]
  have st: "DmaStagingPlan.status (PlanPackageDmaStaging v) = DmaStagingPlanStatus.Ok"
    "list_all2 planned (PackageView.sections v) (DmaStagingPlan.sections (PlanPackageDmaStaging v))" using p by simp_all
  have "length (DmaStagingPlan.sections (PlanPackageDmaStaging v)) = 5"
    using list_all2_lengthD [OF st(2)] accepted_records(2) [OF assms(1,3)] by simp
  then show ?thesis
    using ResolvePackageDma_cases [OF st(1)] planned_pages [OF st(2) accepted_records [OF assms(1,3)]] by blast
qed

text \<open>A staging that always fits: one contiguous range from address 0 for each payload.\<close>

definition flat_view :: "DmaSectionPlan \<Rightarrow> StagedSectionPhysicalView" where
  "flat_view e = \<lparr>StagedSectionPhysicalView.kind = DmaSectionPlan.kind e, StagedSectionPhysicalView.layout = DmaSectionPlan.layout e, StagedSectionPhysicalView.logicalBytes = DmaSectionPlan.logicalBytes e,
     StagedSectionPhysicalView.allocationBytes = DmaSectionPlan.allocationBytes e,
     StagedSectionPhysicalView.pageAddresses = map (\<lambda>i. of_nat (4096 * i)) [0 ..< unat (DmaSectionPlan.pageCount e)]\<rparr>"

lemma flat_view_resolved:
  assumes "planned r e" and r: "SectionRecord.size' r \<noteq> 0" "unat (SectionRecord.size' r) \<le> 2 ^ 50"
  shows "section_resolved e (flat_view e)"
proof -
  let ?k = "unat (DmaSectionPlan.pageCount e)"
  have k: "?k = (unat (SectionRecord.size' r) + 4095) div 4096" "unat (DmaSectionPlan.allocationBytes e) = ?k * 4096"
    using assms(1) by (simp_all add: planned_def)
  have "?k \<le> (2 ^ 50 + 4095) div 4096" unfolding k(1) using r(2) by (intro div_le_mono) simp
  then have small: "?k < 2 ^ 51" by simp
  have "unat (SectionRecord.size' r) > 0" using r(1) by (simp add: unat_gt_0)
  then have pos: "0 < ?k" unfolding k(1) by simp
  have u: "unat (of_nat (4096 * i) :: u64) = 4096 * i" if "i < ?k" for i
    using that small by (intro unat_of_nat_small) simp
  have "hd (map (\<lambda>i. of_nat (4096 * i) :: u64) [0 ..< ?k]) = 0" using pos by (simp add: hd_map hd_upt)
  then show ?thesis using pos u k(2) by (auto simp: section_resolved_def flat_view_def)
qed

text \<open>
  C6. The staging plan of a package that the parser accepted always succeeds (for packages below 2^60
  bytes), one allocation for each record in order: its kind and logical size are the record's, its
  size is the size rounded up to whole 4 KiB pages, its page count is that size in pages, and the
  signature and the bootloader must be linear; the two totals are the sums, with no wrap-around.
\<close>
theorem PlanPackageDmaStaging_accepted:
  assumes "ParseAndVerify b = Some v" and "PackageView.status v = Package.ParseStatus.Ok" and "length b < 2 ^ 60"
  shows "\<exists>p. PlanPackageDmaStaging v = p \<and> DmaStagingPlan.status p = DmaStagingPlanStatus.Ok \<and>
    list_all2 planned (PackageView.sections v) (DmaStagingPlan.sections p) \<and>
    unat (totalLogicalBytes p) = (\<Sum>s \<leftarrow> PackageView.sections v. unat (SectionRecord.size' s)) \<and>
    unat (totalAllocationBytes p) = (\<Sum>q \<leftarrow> DmaStagingPlan.sections p. unat (DmaSectionPlan.allocationBytes q))"
  by (rule PlanPackageDmaStaging_verified)
    (use assms ParseAndVerify_cases [of b] in auto)

text \<open>
  C5. For an accepted package, whatever physical views the driver presents, the resolution never reads
  outside them and succeeds exactly when there are five and each matches its plan: same kind, layout
  and sizes, the planned number of 4 KiB aligned page addresses and, where the plan is linear, one
  contiguous range of bus addresses without wrap-around. The result then has one allocation per
  section with its mapped kind, the first page as its base and the whole page list, and the page
  total is the sum.
\<close>
theorem ResolvePackageDma_accepted:
  assumes "ParseAndVerify b = Some v" and "PackageView.status v = Package.ParseStatus.Ok" and "length b < 2 ^ 60"
  shows "\<exists>r. ResolvePackageDma (PlanPackageDmaStaging v) views = Some r \<and>
    (ResolvedPackageDma.status r = Ok \<longleftrightarrow>
      list_all2 section_resolved (DmaStagingPlan.sections (PlanPackageDmaStaging v)) views) \<and>
    (ResolvedPackageDma.status r = Ok \<longrightarrow>
      ResolvedPackageDma.allocations r = map2 resolved_allocation (DmaStagingPlan.sections (PlanPackageDmaStaging v)) views \<and>
      unat (ResolvedPackageDma.totalPages r) = (\<Sum>a \<leftarrow> views. length (pageAddresses a)))"
  by (rule ResolvePackageDma_staged)
    (use assms ParseAndVerify_cases [of b] in auto)

end
