(* ===== verification/PackageSample.thy ===== *)
theory PackageSample
  imports PackageDma
begin

text \<open>
  A concrete run of the boot package builder: an ELF image with the two firmware sections, a two-block
  ROM with a BIT header, a one-entry microcode table, a version 3 descriptor, its signature and a
  512-byte FWSEC image, and the two sample containers. All five payloads are prepared.
\<close>

definition sample_package_elf :: "byte list" where
  "sample_package_elf = foldl (\<lambda>b s. put b (fst s) (snd s)) (replicate 368 0)
     [(0, [0x7F, 0x45, 0x4C, 0x46, 2, 1]), (0x28, [64]), (0x3A, [64, 0, 4, 0, 3, 0]),
      (128, [1]), (152, [0x68, 1]), (160, [4]), (192, [10]), (216, [0x6C, 1]), (224, [4]),
      (280, [0x40, 1]), (288, [29]), (321, map of_char ''.fwimage''),
      (330, map of_char ''.fwsignature_ga10x''), (360, [1, 2, 3, 4, 5, 6, 7, 8])]"

definition sample_package_vbios :: "byte list" where
  "sample_package_vbios = foldl (\<lambda>b s. put b (fst s) (snd s)) (replicate 1024 0)
     [(0, [0x55, 0xAA]), (0x18, [0x20]), (0x20, [0x50, 0x43, 0x49, 0x52]), (0x2A, [0x18]), (0x30, [2]),
      (0x35, [0x80]), (0x38, [0xFF, 0xB8, 0x42, 0x49, 0x54, 0, 0, 0, 12, 6, 1, 0x57]),
      (0x44, [0x70, 2, 4, 0, 0x90, 0]), (0x4C, [1, 3, 0xAC, 1, 0, 2]), (0x54, [0x80]), (0x90, [0xA0]), (0xA0, [1, 6, 6, 1]),
      (0xA6, [0x85, 0, 0x4C]), (0x1F8, [1, 4, 8, 1, 4, 0, 0, 0, 12]), (0x20C, [80, 0, 0, 0, 44])]"

definition sample_inputs :: SourceInputs where
  "sample_inputs = \<lparr>SourceInputs.pci = \<lparr>vendor = 0x10DE, device = 0x2489, subsystemVendor = 0, subsystemDevice = 0\<rparr>,
     vramBytes = 0x300000, vbios = sample_package_vbios, gspElf = sample_package_elf,
     gspBootloaderContainer = sample_riscv, sec2BooterContainer = sample_booter\<rparr>"

lemma length_sample_vbios: "length sample_package_vbios = 1024" by (simp add: sample_package_vbios_def)
lemma length_sample_elf: "length sample_package_elf = 368" by (simp add: sample_package_elf_def)
lemma sample_elf_header: "64 \<le> length sample_package_elf" by (simp add: length_sample_elf)


lemma sample_elf_bytes: "sample_package_elf = [127, 69, 76, 70, 2, 1, 0, 0, 0, 0, 0, 0, 0, 0, 0, 0,
     0, 0, 0, 0, 0, 0, 0, 0, 0, 0, 0, 0, 0, 0, 0, 0, 0, 0, 0, 0, 0, 0, 0, 0, 64, 0, 0, 0, 0, 0, 0,
     0, 0, 0, 0, 0, 0, 0, 0, 0, 0, 0, 64, 0, 4, 0, 3, 0, 0, 0, 0, 0, 0, 0, 0, 0, 0, 0, 0, 0, 0, 0,
     0, 0, 0, 0, 0, 0, 0, 0, 0, 0, 0, 0, 0, 0, 0, 0, 0, 0, 0, 0, 0, 0, 0, 0, 0, 0, 0, 0, 0, 0, 0, 0,
     0, 0, 0, 0, 0, 0, 0, 0, 0, 0, 0, 0, 0, 0, 0, 0, 0, 0, 1, 0, 0, 0, 0, 0, 0, 0, 0, 0, 0, 0, 0, 0,
     0, 0, 0, 0, 0, 0, 0, 0, 0, 0, 104, 1, 0, 0, 0, 0, 0, 0, 4, 0, 0, 0, 0, 0, 0, 0, 0, 0, 0, 0, 0,
     0, 0, 0, 0, 0, 0, 0, 0, 0, 0, 0, 0, 0, 0, 0, 0, 0, 0, 0, 10, 0, 0, 0, 0, 0, 0, 0, 0, 0, 0, 0,
     0, 0, 0, 0, 0, 0, 0, 0, 0, 0, 0, 0, 108, 1, 0, 0, 0, 0, 0, 0, 4, 0, 0, 0, 0, 0, 0, 0, 0, 0, 0,
     0, 0, 0, 0, 0, 0, 0, 0, 0, 0, 0, 0, 0, 0, 0, 0, 0, 0, 0, 0, 0, 0, 0, 0, 0, 0, 0, 0, 0, 0, 0, 0,
     0, 0, 0, 0, 0, 0, 0, 0, 0, 0, 0, 0, 0, 64, 1, 0, 0, 0, 0, 0, 0, 29, 0, 0, 0, 0, 0, 0, 0, 0, 0,
     0, 0, 0, 0, 0, 0, 0, 0, 0, 0, 0, 0, 0, 0, 0, 0, 0, 0, 0, 0, 0, 0, 0, 46, 102, 119, 105, 109,
     97, 103, 101, 0, 46, 102, 119, 115, 105, 103, 110, 97, 116, 117, 114, 101, 95, 103, 97, 49, 48,
     120, 0, 0, 0, 0, 0, 0, 0, 0, 0, 0, 0, 0, 1, 2, 3, 4, 5, 6, 7, 8]" by code_simp

lemma elf_strings: "take 29 (drop 320 sample_package_elf) =
    0 # map of_char ''.fwimage'' @ 0 # map of_char ''.fwsignature_ga10x'' @ [0]"
  unfolding sample_elf_bytes by simp

lemma elf_words:
  "half_at sample_package_elf 0x3A = 64" "half_at sample_package_elf 0x3C = 4" "half_at sample_package_elf 0x3E = 3"
  "long_at sample_package_elf 0x28 = 64" "take 6 sample_package_elf = [0x7F, 0x45, 0x4C, 0x46, 2, 1]"
  "word_at sample_package_elf 64 = 0" "word_at sample_package_elf 128 = 1" "word_at sample_package_elf 192 = 10"
  "word_at sample_package_elf 68 = 0" "word_at sample_package_elf 132 = 0" "word_at sample_package_elf 196 = 0"
  "long_at sample_package_elf 88 = 0" "long_at sample_package_elf 152 = 360" "long_at sample_package_elf 216 = 364"
  "long_at sample_package_elf 96 = 0" "long_at sample_package_elf 160 = 4" "long_at sample_package_elf 224 = 4"
  "long_at sample_package_elf 280 = 320" "long_at sample_package_elf 288 = 29"
  unfolding sample_elf_bytes by code_simp+


lemma elf_rd: "k < 29 \<Longrightarrow> rd sample_package_elf (320 + k) =
    Some ((0 # map of_char ''.fwimage'' @ 0 # map of_char ''.fwsignature_ga10x'' @ [0]) ! k)"
  unfolding elf_strings [symmetric] by (simp add: rd_def length_sample_elf)

lemma elf_name_end:
  "name_end sample_package_elf 349 320 = Some 320" "name_end sample_package_elf 349 321 = Some 329"
  "name_end sample_package_elf 349 330 = Some 348"
  using elf_rd [of 0] elf_rd [of 1] elf_rd [of 2] elf_rd [of 3] elf_rd [of 4] elf_rd [of 5] elf_rd [of 6]
    elf_rd [of 7] elf_rd [of 8] elf_rd [of 9] elf_rd [of 10] elf_rd [of 11] elf_rd [of 12] elf_rd [of 13]
    elf_rd [of 14] elf_rd [of 15] elf_rd [of 16] elf_rd [of 17] elf_rd [of 18] elf_rd [of 19] elf_rd [of 20]
    elf_rd [of 21] elf_rd [of 22] elf_rd [of 23] elf_rd [of 24] elf_rd [of 25] elf_rd [of 26] elf_rd [of 27] elf_rd [of 28]
  by (simp_all add: name_end.simps)

lemma elf_names:
  "rd_seq sample_package_elf 320 0 = Some []" "rd_seq sample_package_elf 321 8 = Some (map of_char ''.fwimage'')"
  "rd_seq sample_package_elf 330 18 = Some (map of_char ''.fwsignature_ga10x'')"
  unfolding rd_seq_eq length_sample_elf unfolding sample_elf_bytes by code_simp+

lemma elf_sections:
  "\<exists>s. Elf.FindSection sample_package_elf (map of_char ''.fwimage'') = Some s \<and> Section.status s = Elf.Status.Ok \<and>
     Section.offset s = 360 \<and> Section.size' s = 4"
  "\<exists>s. Elf.FindSection sample_package_elf (map of_char ''.fwsignature_ga10x'') = Some s \<and> Section.status s = Elf.Status.Ok \<and>
     Section.offset s = 364 \<and> Section.size' s = 4"
proof -
  have img: "sample_package_elf ! 0 = 0x7F" "sample_package_elf ! 1 = 0x45" "sample_package_elf ! 2 = 0x4C"
    "sample_package_elf ! 3 = 0x46" "sample_package_elf ! 4 = 2" "sample_package_elf ! 5 = 1"
    unfolding sample_elf_bytes by code_simp+
  have four: "unat (4 :: u16) = Suc (Suc (Suc (Suc 0)))" by simp
  have small: "\<not> (29 :: u64) \<le> 1" by (simp add: word_le_nat_alt)
  note run = FindSection_head [OF sample_elf_header]
  show "\<exists>s. Elf.FindSection sample_package_elf (map of_char ''.fwimage'') = Some s \<and> Section.status s = Elf.Status.Ok \<and>
     Section.offset s = 360 \<and> Section.size' s = 4"
    "\<exists>s. Elf.FindSection sample_package_elf (map of_char ''.fwsignature_ga10x'') = Some s \<and> Section.status s = Elf.Status.Ok \<and>
     Section.offset s = 364 \<and> Section.size' s = 4"
    unfolding run img elf_words four
    by (simp_all add: ReadSection_at length_sample_elf raw_at_def elf_words SectionRangeFits_iff elf_name_end elf_names result_of_def small)
qed

lemma sample_vbios_bytes: "sample_package_vbios = [85, 170, 0, 0, 0, 0, 0, 0, 0, 0, 0, 0, 0, 0, 0,
     0, 0, 0, 0, 0, 0, 0, 0, 0, 32, 0, 0, 0, 0, 0, 0, 0, 80, 67, 73, 82, 0, 0, 0, 0, 0, 0, 24, 0, 0,
     0, 0, 0, 2, 0, 0, 0, 0, 128, 0, 0, 255, 184, 66, 73, 84, 0, 0, 0, 12, 6, 1, 87, 112, 2, 4, 0,
     144, 0, 0, 0, 1, 3, 172, 1, 0, 2, 0, 0, 128, 0, 0, 0, 0, 0, 0, 0, 0, 0, 0, 0, 0, 0, 0, 0, 0, 0,
     0, 0, 0, 0, 0, 0, 0, 0, 0, 0, 0, 0, 0, 0, 0, 0, 0, 0, 0, 0, 0, 0, 0, 0, 0, 0, 0, 0, 0, 0, 0, 0,
     0, 0, 0, 0, 0, 0, 0, 0, 0, 0, 160, 0, 0, 0, 0, 0, 0, 0, 0, 0, 0, 0, 0, 0, 0, 0, 1, 6, 6, 1, 0,
     0, 133, 0, 76, 0, 0, 0, 0, 0, 0, 0, 0, 0, 0, 0, 0, 0, 0, 0, 0, 0, 0, 0, 0, 0, 0, 0, 0, 0, 0, 0,
     0, 0, 0, 0, 0, 0, 0, 0, 0, 0, 0, 0, 0, 0, 0, 0, 0, 0, 0, 0, 0, 0, 0, 0, 0, 0, 0, 0, 0, 0, 0, 0,
     0, 0, 0, 0, 0, 0, 0, 0, 0, 0, 0, 0, 0, 0, 0, 0, 0, 0, 0, 0, 0, 0, 0, 0, 0, 0, 0, 0, 0, 0, 0, 0,
     0, 0, 0, 0, 0, 0, 0, 0, 0, 0, 0, 0, 0, 0, 0, 0, 0, 0, 0, 0, 0, 0, 0, 0, 0, 0, 0, 0, 0, 0, 0, 0,
     0, 0, 0, 0, 0, 0, 0, 0, 0, 0, 0, 0, 0, 0, 0, 0, 0, 0, 0, 0, 0, 0, 0, 0, 0, 0, 0, 0, 0, 0, 0, 0,
     0, 0, 0, 0, 0, 0, 0, 0, 0, 0, 0, 0, 0, 0, 0, 0, 0, 0, 0, 0, 0, 0, 0, 0, 0, 0, 0, 0, 0, 0, 0, 0,
     0, 0, 0, 0, 0, 0, 0, 0, 0, 0, 0, 0, 0, 0, 0, 0, 0, 0, 0, 0, 0, 0, 0, 0, 0, 0, 0, 0, 0, 0, 0, 0,
     0, 0, 0, 0, 0, 0, 0, 0, 0, 0, 0, 0, 0, 0, 0, 0, 0, 0, 0, 0, 0, 0, 0, 0, 0, 0, 0, 0, 0, 0, 0, 0,
     0, 0, 0, 0, 0, 0, 0, 0, 0, 0, 0, 0, 0, 0, 0, 0, 0, 0, 0, 0, 0, 0, 0, 0, 0, 0, 0, 0, 0, 0, 0, 0,
     0, 0, 0, 0, 0, 0, 0, 0, 0, 0, 0, 0, 0, 0, 0, 0, 0, 0, 0, 0, 0, 0, 0, 0, 0, 0, 0, 0, 0, 0, 0, 0,
     0, 0, 0, 0, 0, 0, 0, 0, 0, 0, 0, 0, 0, 0, 0, 0, 0, 0, 0, 0, 1, 4, 8, 1, 4, 0, 0, 0, 12, 0, 0,
     0, 0, 0, 0, 0, 0, 0, 0, 0, 80, 0, 0, 0, 44, 0, 0, 0, 0, 0, 0, 0, 0, 0, 0, 0, 0, 0, 0, 0] @
     replicate 480 0" by code_simp

lemma vbios_fwsec:
  "\<exists>i. ParseProductionFwsec sample_package_vbios = Some i \<and> FwsecInfo.status i = Vbios.ParseStatus.Ok \<and>
    descriptorOffset i = 0x4C \<and> descriptorSize i = 0x1AC \<and> storedSize (v3 i) = 512 \<and> pkcDataOffset (v3 i) = 128 \<and>
    interfaceOffset (v3 i) = 0 \<and> imemLoadSize (v3 i) = 0 \<and> dmemLoadSize (v3 i) = 0"
proof -
  have "map_option (\<lambda>i. (FwsecInfo.status i, descriptorOffset i, descriptorSize i, storedSize (v3 i), pkcDataOffset (v3 i),
      interfaceOffset (v3 i), imemLoadSize (v3 i), dmemLoadSize (v3 i))) (ParseProductionFwsec sample_package_vbios) =
    Some (Vbios.ParseStatus.Ok, 0x4C, 0x1AC, 512, 128, 0, 0, 0)" unfolding sample_vbios_bytes by code_simp
  then show ?thesis by auto
qed

definition sample_fwsec :: "byte list" where
  "sample_fwsec = put (put (replicate 512 0) 0 [1, 4, 8, 1, 4, 0, 0, 0, 12]) 20 [80, 0, 0, 0, 44]"

lemma vbios_slices:
  "Slice sample_package_vbios 120 384 \<noteq> []" "length (Slice sample_package_vbios 120 384) = 384"
  "Slice sample_package_vbios 504 512 = sample_fwsec"
proof -
  have "length sample_package_vbios = 1024" by (simp add: sample_package_vbios_def)
  note n = this
  show "length (Slice sample_package_vbios 120 384) = 384" by (simp add: Slice_def Fits_def n)
  then show "Slice sample_package_vbios 120 384 \<noteq> []" by auto
  show "Slice sample_package_vbios 504 512 = sample_fwsec" unfolding Slice_def slice_def sample_fwsec_def
    by (simp add: Fits_def n) code_simp
qed

lemma sample_fwsec_words:
  "rd sample_fwsec 0 = Some 1" "rd sample_fwsec 1 = Some 4" "rd sample_fwsec 2 = Some 8" "rd sample_fwsec 3 = Some 1"
  "LoadLe32 sample_fwsec 4 = Some 4" "LoadLe32 sample_fwsec 8 = Some 12" "LoadLe32 sample_fwsec 20 = Some 80"
  "LoadLe32 sample_fwsec 24 = Some 44" "length sample_fwsec = 512"
  by code_simp+

lemma sample_fwsec_plan:
  assumes "storedSize d = 512" "pkcDataOffset d = 128" "interfaceOffset d = 0" "imemLoadSize d = 0"
  shows "\<exists>p. PlanFwsecFrtsPatch d sample_fwsec 384 = Some p \<and> PatchPlan.status p = Frts.PatchStatus.Ok"
proof -
  have n: "RoundUp256 512 = 512" by (subst RoundUp256_eq) simp_all
  show ?thesis
    using sample_fwsec_words
    by (simp add: Let_def PlanFwsecFrtsPatch_def assms n AddFits_eq plan_interface_def
        plan_mapper_def frts_consts PatchPlan0_def flip: numeral_2_eq_2)
qed

lemma put_nonempty: "xs \<noteq> [] \<Longrightarrow> put xs k vs \<noteq> []"
  by (auto simp: put_def)

lemma sample_prepared: "\<exists>x. PreparePayloads sample_inputs = Some (Inr x)"
proof -
  obtain c where c: "BuildFrtsCommand 0x300000 = Some (Some c)" "length (FrtsCommand.bytes c) = kFrtsCommandBytes"
    using BuildFrtsCommand_cases [of "0x300000"] by (auto simp: frts_command_ok_def kFrtsCommandBytes_def)
  obtain i where i: "ParseProductionFwsec sample_package_vbios = Some i" "FwsecInfo.status i = Vbios.ParseStatus.Ok"
    "descriptorOffset i = 0x4C" "descriptorSize i = 0x1AC" "storedSize (v3 i) = 512"
    and v: "pkcDataOffset (v3 i) = 128" "interfaceOffset (v3 i) = 0" "imemLoadSize (v3 i) = 0"
    using vbios_fwsec by blast
  obtain p where p: "PlanFwsecFrtsPatch (v3 i) sample_fwsec 384 = Some p" "PatchPlan.status p = Frts.PatchStatus.Ok"
    using sample_fwsec_plan [OF i(5) v] by blast
  let ?sig = "Slice sample_package_vbios 120 384"
  have "plan_ok (v3 i) sample_fwsec (length ?sig) p"
    using PlanFwsecFrtsPatch_cases [of "v3 i" sample_fwsec 384] p by (simp add: vbios_slices)
  from ApplyFwsecFrtsPatch_cases [OF this p(2) c(2)] obtain out where
    out: "ApplyFwsecFrtsPatch sample_fwsec p c ?sig = Some (Some out)" by blast
  obtain s1 where s1: "Elf.FindSection sample_package_elf (map of_char ''.fwimage'') = Some s1"
    "Section.status s1 = Elf.Status.Ok" "Section.offset s1 = 360" "Section.size' s1 = 4" using elf_sections(1) by blast
  obtain s2 where s2: "Elf.FindSection sample_package_elf (map of_char ''.fwsignature_ga10x'') = Some s2"
    "Section.status s2 = Elf.Status.Ok" "Section.offset s2 = 364" "Section.size' s2 = 4" using elf_sections(2) by blast
  have elf: "Slice sample_package_elf 360 4 \<noteq> []" "Slice sample_package_elf 364 4 \<noteq> []"
    by (simp_all add: Slice_def slice_def Fits_def length_sample_elf)
  have "riscv_ok sample_riscv"
    by (simp add: riscv_ok_def riscv_view_def descriptor_at_def riscv_extended_def descriptor_ranges_def
        bin_at_def Let_def sample_riscv_def word_at_words32 word_le_nat_alt)
  then have g: "ParseRiscvBootloader sample_riscv = Some (riscv_view sample_riscv)"
    using ParseRiscvBootloader_cases [of sample_riscv] by auto
  have g2: "BinHeader.dataSize (RiscvBootloaderInfo.bin' (riscv_view sample_riscv)) = 4"
    "Slice sample_riscv (ucast (BinHeader.dataOffset (RiscvBootloaderInfo.bin' (riscv_view sample_riscv)))) 4 \<noteq> []"
    "RiscvBootloaderInfo.status (riscv_view sample_riscv) = Nvfw.ParseStatus.Ok"
    by (simp_all add: riscv_view_def bin_at_def sample_riscv_def word_at_words32 Slice_def slice_def Fits_def)
  have h: "ParseBooterImage sample_booter = Some (booter_view sample_booter)"
    "BooterImageInfo.status (booter_view sample_booter) = Nvfw.ParseStatus.Ok"
    using ParseBooterImage_cases [of sample_booter] sample_booter_ok by (auto simp: booter_view_def Let_def)
  have "booter_patch_ok sample_booter (booter_view sample_booter)"
    by (simp add: booter_patch_ok_def booter_view_def bin_at_def hs_at_def Let_def sample_booter_def
        word_at_words32)
  moreover have "BinHeader.dataSize (BooterImageInfo.bin' (booter_view sample_booter)) = 8"
    "BinHeader.dataOffset (BooterImageInfo.bin' (booter_view sample_booter)) = 96"
    by (simp_all add: booter_view_def bin_at_def Let_def sample_booter_def word_at_words32)
  moreover have "slice sample_booter 96 8 \<noteq> []" by (simp add: slice_def sample_booter_def)
  ultimately obtain r where r: "PatchBooterProductionSignature sample_booter (booter_view sample_booter) = Some r"
    "BooterPatchResult.status r = BooterPatchStatus.Ok" "BooterPatchResult.bytes r \<noteq> []"
    using PatchBooterProductionSignature_cases [of sample_booter "booter_view sample_booter"]
    by (auto simp: Let_def put_nonempty)
  have ne: "sample_fwsec \<noteq> []" using sample_fwsec_words(9) by auto
  have k: "IsKnownRtx3060Ti \<lparr>vendor = 0x10DE, device = 0x2489, subsystemVendor = 0, subsystemDevice = 0\<rparr>" by code_simp
  show ?thesis
    unfolding PreparePayloads_def sample_inputs_def SourceInputs.simps c Option.bind_lunit i Let_def s1(1) s2(1)
    by (simp add: k ne kPayloadAlignment_def kVbiosDescriptorV3Bytes_def i vbios_slices p out c s1 s2 elf g g2 h r)
qed

theorem BuildGa10xPackage_witness:
  "\<exists>m ps r v. PreparePayloads sample_inputs = Some (Inr (m, ps)) \<and> BuildGa10xPackage sample_inputs = Some r \<and>
    ParseAndVerify (BuildResult.bytes r) = Some v \<and> PackageView.status v = Package.ParseStatus.Ok \<and> map (Package.FindSection (BuildResult.bytes r) v) kinds = ps"
proof -
  obtain m ps where m: "PreparePayloads sample_inputs = Some (Inr (m, ps))" using sample_prepared by auto
  have "length (vbios sample_inputs) < 2 ^ 60" "length (gspElf sample_inputs) < 2 ^ 60"
    "length (gspBootloaderContainer sample_inputs) < 2 ^ 60"
    by (simp_all add: sample_inputs_def sample_package_vbios_def sample_package_elf_def sample_riscv_def)
  from BuildGa10xPackage_parses [OF this] m show ?thesis by auto
qed

lemma sample_package_accepted:
  "\<exists>r v. BuildGa10xPackage sample_inputs = Some r \<and> ParseAndVerify (BuildResult.bytes r) = Some v \<and>
    PackageView.status v = Package.ParseStatus.Ok \<and> length (BuildResult.bytes r) < 2 ^ 40"
proof -
  obtain m ps where m: "PreparePayloads sample_inputs = Some (Inr (m, ps))" using sample_prepared by auto
  have small: "length (vbios sample_inputs) < 2 ^ 34" "length (gspElf sample_inputs) < 2 ^ 34"
    "length (gspBootloaderContainer sample_inputs) < 2 ^ 34"
    by (simp_all add: sample_inputs_def sample_package_vbios_def sample_package_elf_def sample_riscv_def)
  have "prepared_ok (2 ^ 34) (Inr (m, ps))"
    using PreparePayloads_total [OF small] m by auto
  from BuildGa10xPackage_prepared [OF m this] obtain b recs where
    r: "BuildGa10xPackage sample_inputs =
      Some \<lparr>BuildResult.status = BuildStatus.Ok, metadata = m, sections = recs, bytes = b\<rparr>"
      "is_package b m recs ps" "target_ok m" "length b \<le> 4096 + 5 * (2 ^ 34 + 4096)" by auto
  then show ?thesis using ParseAndVerify_package [OF r(2,3)] by auto
qed

theorem ParseAndVerify_witness:
  "\<exists>r v. BuildGa10xPackage sample_inputs = Some r \<and> ParseAndVerify (BuildResult.bytes r) = Some v \<and>
    PackageView.status v = Package.ParseStatus.Ok \<and> view_ok (BuildResult.bytes r) v"
proof -
  obtain r v where r: "BuildGa10xPackage sample_inputs = Some r" "ParseAndVerify (BuildResult.bytes r) = Some v"
    "PackageView.status v = Package.ParseStatus.Ok" "length (BuildResult.bytes r) < 2 ^ 40" using sample_package_accepted by blast
  then have "length (BuildResult.bytes r) < 2 ^ 64" by simp
  from ParseAndVerify_sound [OF this] r show ?thesis by auto
qed

theorem PlanPackageDmaStaging_witness:
  "\<exists>r v. BuildGa10xPackage sample_inputs = Some r \<and> ParseAndVerify (BuildResult.bytes r) = Some v \<and>
    DmaStagingPlan.status (PlanPackageDmaStaging v) = DmaStagingPlanStatus.Ok \<and>
    list_all2 planned (PackageView.sections v) (DmaStagingPlan.sections (PlanPackageDmaStaging v))"
proof -
  obtain r v where r: "BuildGa10xPackage sample_inputs = Some r" "ParseAndVerify (BuildResult.bytes r) = Some v"
    "PackageView.status v = Package.ParseStatus.Ok" "length (BuildResult.bytes r) < 2 ^ 40" using sample_package_accepted by blast
  then have "length (BuildResult.bytes r) < 2 ^ 60" by simp
  from PlanPackageDmaStaging_accepted [OF r(2,3) this] r show ?thesis by auto
qed

theorem ResolvePackageDma_witness:
  "\<exists>r v d. BuildGa10xPackage sample_inputs = Some r \<and> ParseAndVerify (BuildResult.bytes r) = Some v \<and>
    ResolvePackageDma (PlanPackageDmaStaging v)
      (map flat_view (DmaStagingPlan.sections (PlanPackageDmaStaging v))) = Some d \<and>
    ResolvedPackageDma.status d = DmaResolveStatus.Ok"
proof -
  obtain r v where r: "BuildGa10xPackage sample_inputs = Some r" "ParseAndVerify (BuildResult.bytes r) = Some v"
    "PackageView.status v = Package.ParseStatus.Ok" "length (BuildResult.bytes r) < 2 ^ 40" using sample_package_accepted by blast
  then have len: "length (BuildResult.bytes r) < 2 ^ 60" by simp
  have v: "view_ok (BuildResult.bytes r) v" using ParseAndVerify_cases [of "BuildResult.bytes r"] r by auto
  let ?es = "DmaStagingPlan.sections (PlanPackageDmaStaging v)"
  have "list_all2 planned (PackageView.sections v) ?es" using PlanPackageDmaStaging_verified [OF v r(3) len] by simp
  moreover have "SectionRecord.size' q \<noteq> 0 \<and> unat (SectionRecord.size' q) \<le> 2 ^ 50" if "q \<in> set (PackageView.sections v)" for q
    using v that r(4) by (auto simp: view_ok_def record_ok_def)
  ultimately have "list_all2 section_resolved ?es (map flat_view ?es)"
    by (auto simp: list_all2_conv_all_nth intro!: flat_view_resolved)
  with ResolvePackageDma_accepted [OF r(2,3) len, of "map flat_view ?es"] r show ?thesis by auto
qed

end
