(* ===== verification/BootPrepare.thy ===== *)
theory BootPrepare
  imports PackageDma
begin

text \<open>
  From a verified package to the memory plan of a boot: the prototype profile
  (\<open>src/core/ga10x_prototype.cpp\<close>), which turns the package's metadata into the inputs of the boot
  manifest, and the preparation plan (\<open>src/core/ga10x_boot_prepare.cpp\<close>), which lists the host
  buffers to generate and places the two scratch images below the reserved framebuffer region.
\<close>

section \<open>The profile\<close>

definition kVgaWorkspaceBytes :: u64 where "kVgaWorkspaceBytes = 0x100000"
definition kFrtsBytes :: u64 where "kFrtsBytes = 0x100000"
definition kNonWprHeapBytes :: u64 where "kNonWprHeapBytes = 0x100000"
definition kRequestedWprHeapBytes :: u64 where "kRequestedWprHeapBytes = 0x8100000"
definition kWprEndMarginBytes :: u64 where "kWprEndMarginBytes = 0"

lemmas profile_consts = kVgaWorkspaceBytes_def kFrtsBytes_def kNonWprHeapBytes_def kRequestedWprHeapBytes_def
  kWprEndMarginBytes_def

datatype ProfileStatus = Ok | PackageNotVerified | UnsupportedTarget | InvalidVram | MissingSection
  | SectionTooLarge | InvalidMetadata | ManifestRejected | InvalidReservedBoundary

record Profile =
  status :: ProfileStatus
  assumesNoLowerVbiosMmuLock :: bool
  manifestInputs :: ManifestInputs
  manifest :: BootManifest
  gspBootloader :: RiscvBootloaderInfo
  fwsec :: DescriptorV3
  sec2Booter :: BooterImageInfo

definition ManifestInputs0 :: ManifestInputs where
  "ManifestInputs0 = \<lparr>ManifestInputs.fbSize = 0, vgaWorkspaceOffset = 0, vbiosReservedOffset = 0, wprEndMargin = 0,
     frtsSize = 0x100000, nonWprHeapSize = 0, requestedWprHeapSize = 0, gspFirmwareImageBytes = 0,
     gspSignatureBytes = 0, gspBootloaderBytes = 0, frtsFwsecImageBytes = 0, sec2BooterImageBytes = 0,
     queueBytes = kDefaultQueueBytes\<rparr>"

definition Profile0 :: Profile where
  "Profile0 = \<lparr>status = ProfileStatus.PackageNotVerified, assumesNoLowerVbiosMmuLock = True,
     manifestInputs = ManifestInputs0, manifest = BootManifest0 ManifestInputs0,
     gspBootloader = RiscvBootloaderInfo0, fwsec = v3 FwsecInfo0, sec2Booter = BooterImageInfo0\<rparr>"

fun SectionBytes_in :: "SectionRecord list \<Rightarrow> SectionKind \<Rightarrow> u64" where
  "SectionBytes_in [] k = 0"
| "SectionBytes_in (r # rs) k = (if SectionRecord.kind r = k then SectionRecord.size' r else SectionBytes_in rs k)"

definition SectionBytes :: "PackageView \<Rightarrow> SectionKind \<Rightarrow> u64" where
  "SectionBytes v k = SectionBytes_in (PackageView.sections v) k"

definition FitsU32 :: "u64 \<Rightarrow> bool" where
  "FitsU32 v \<longleftrightarrow> v \<le> 0xFFFFFFFF"

definition profile_inputs :: "PackageView \<Rightarrow> u64 \<Rightarrow> ManifestInputs" where
  "profile_inputs v boundary = (let fb = StaticMetadata.vramBytes (PackageView.metadata v) in
     \<lparr>ManifestInputs.fbSize = fb, vgaWorkspaceOffset = fb - kVgaWorkspaceBytes, vbiosReservedOffset = boundary,
      wprEndMargin = kWprEndMarginBytes, frtsSize = kFrtsBytes, nonWprHeapSize = kNonWprHeapBytes,
      requestedWprHeapSize = kRequestedWprHeapBytes,
      gspFirmwareImageBytes = SectionBytes v GspFirmwareImage,
      gspSignatureBytes = SectionBytes v GspFirmwareSignature,
      gspBootloaderBytes = SectionBytes v SectionKind.GspBootloader,
      frtsFwsecImageBytes = SectionBytes v SectionKind.FrtsFwsecImage,
      sec2BooterImageBytes = SectionBytes v SectionKind.Sec2BooterImage, queueBytes = kDefaultQueueBytes\<rparr>)"

text \<open>The overload with an explicit reserved boundary, and the default one.\<close>

definition BuildGa10xPrototypeProfile_at :: "PackageView \<Rightarrow> u64 \<Rightarrow> Profile" where
  "BuildGa10xPrototypeProfile_at v boundary =
     (let out = Profile0; meta = PackageView.metadata v; fb = StaticMetadata.vramBytes meta;
          vga = fb - kVgaWorkspaceBytes
      in if PackageView.status v \<noteq> Package.ParseStatus.Ok
      then out\<lparr>status := ProfileStatus.PackageNotVerified\<rparr>
      else if \<not> IsKnownRtx3060Ti (StaticMetadata.pci meta) then out\<lparr>status := UnsupportedTarget\<rparr>
      else if fb \<le> kVgaWorkspaceBytes + kFrtsBytes + kRequestedWprHeapBytes + kNonWprHeapBytes + 0x400000
      then out\<lparr>status := ProfileStatus.InvalidVram\<rparr>
      else if boundary = 0 \<or> vga < boundary \<or> boundary mod 0x1000 \<noteq> 0
      then out\<lparr>status := InvalidReservedBoundary\<rparr>
      else if SectionBytes v GspFirmwareImage = 0 \<or> SectionBytes v GspFirmwareSignature = 0 \<or>
        SectionBytes v SectionKind.GspBootloader = 0 \<or> SectionBytes v SectionKind.FrtsFwsecImage = 0 \<or>
        SectionBytes v SectionKind.Sec2BooterImage = 0
      then out\<lparr>status := ProfileStatus.MissingSection\<rparr>
      else if \<not> FitsU32 (SectionBytes v SectionKind.GspBootloader) \<or>
        \<not> FitsU32 (SectionBytes v SectionKind.Sec2BooterImage)
      then out\<lparr>status := SectionTooLarge\<rparr>
      else if StaticMetadata.gspAppVersion meta = 0 \<or> fwsecImemLoadSize meta = 0 \<or> fwsecDmemLoadSize meta = 0 \<or>
        sec2CodeSize meta = 0 \<or> sec2DataSize meta = 0
      then out\<lparr>status := InvalidMetadata\<rparr>
      else let i = profile_inputs v boundary; m = PlanBootManifest i;
             out = out\<lparr>manifestInputs := i, assumesNoLowerVbiosMmuLock := (boundary = vga), manifest := m\<rparr>
      in if \<not> BootManifest.valid m then out\<lparr>status := ManifestRejected\<rparr>
      else out\<lparr>
        gspBootloader := (gspBootloader out)\<lparr>RiscvBootloaderInfo.status := Nvfw.ParseStatus.Ok,
          RiscvBootloaderInfo.bin' := (RiscvBootloaderInfo.bin' (gspBootloader out))
            \<lparr>BinHeader.dataSize := ucast (SectionBytes v SectionKind.GspBootloader)\<rparr>,
          descriptor := (descriptor (gspBootloader out))\<lparr>appVersion := StaticMetadata.gspAppVersion meta,
            monitorCodeOffset := StaticMetadata.gspMonitorCodeOffset meta,
            monitorDataOffset := StaticMetadata.gspMonitorDataOffset meta,
            manifestOffset := StaticMetadata.gspManifestOffset meta\<rparr>\<rparr>,
        fwsec := (fwsec out)\<lparr>pkcDataOffset := fwsecPkcDataOffset meta, imemPhysBase := fwsecImemPhysBase meta,
          imemLoadSize := fwsecImemLoadSize meta, imemVirtBase := fwsecImemVirtBase meta,
          dmemPhysBase := fwsecDmemPhysBase meta, dmemLoadSize := fwsecDmemLoadSize meta,
          engineIdMask := fwsecEngineIdMask meta, ucodeId := fwsecUcodeId meta\<rparr>,
        sec2Booter := (sec2Booter out)\<lparr>BooterImageInfo.status := Nvfw.ParseStatus.Ok,
          BooterImageInfo.bin' := (BooterImageInfo.bin' (sec2Booter out))
            \<lparr>BinHeader.dataSize := ucast (SectionBytes v SectionKind.Sec2BooterImage)\<rparr>,
          firstApp := (firstApp (sec2Booter out))\<lparr>AppHeaderV2.offset := sec2CodeOffset meta,
            AppHeaderV2.size' := sec2CodeSize meta\<rparr>,
          load' := (load' (sec2Booter out))\<lparr>osDataOffset := sec2DataOffset meta, osDataSize := sec2DataSize meta\<rparr>\<rparr>,
        status := Ok\<rparr>)"

definition BuildGa10xPrototypeProfile :: "PackageView \<Rightarrow> Profile" where
  "BuildGa10xPrototypeProfile v =
     (let fb = StaticMetadata.vramBytes (PackageView.metadata v) in
      BuildGa10xPrototypeProfile_at v (if kVgaWorkspaceBytes < fb then fb - kVgaWorkspaceBytes else 0))"

fun ProfileStatusName :: "ProfileStatus \<Rightarrow> string" where
  "ProfileStatusName Ok = ''ok''"
| "ProfileStatusName ProfileStatus.PackageNotVerified = ''package-not-verified''"
| "ProfileStatusName UnsupportedTarget = ''unsupported-target''"
| "ProfileStatusName ProfileStatus.InvalidVram = ''invalid-vram''"
| "ProfileStatusName ProfileStatus.MissingSection = ''missing-section''"
| "ProfileStatusName SectionTooLarge = ''section-too-large''"
| "ProfileStatusName InvalidMetadata = ''invalid-metadata''"
| "ProfileStatusName ManifestRejected = ''manifest-rejected''"
| "ProfileStatusName InvalidReservedBoundary = ''invalid-reserved-boundary''"

section \<open>The preparation plan\<close>

definition kBootPreparePageBytes :: u64 where "kBootPreparePageBytes = 0x1000"
definition kLibosLogRegionBytes :: u64 where "kLibosLogRegionBytes = 0x10000"
definition kLibosLogRegionCount :: nat where "kLibosLogRegionCount = 5"
definition kGeneratedDmaRequirementCount :: nat where "kGeneratedDmaRequirementCount = 10"

datatype GeneratedBufferKind = QueueBacking | CachedArguments | LibosInitArguments | WprMetadata
  | Radix3Firmware | LogInit | LogIntr | LogRm | LogMnoc | LogKrnl

datatype GeneratedDmaLayout = PageList | Linear

record GeneratedDmaRequirement =
  kind :: GeneratedBufferKind
  layout :: GeneratedDmaLayout
  logicalBytes :: u64
  allocationBytes :: u64
  pageCount :: u64

record FramebufferScratchPlan =
  frtsFwsecOffset :: u64
  frtsFwsecBytes :: u64
  sec2BooterOffset :: u64
  sec2BooterBytes :: u64
  frtsRegionOffset :: u64
  frtsRegionBytes :: u64

datatype BootPreparationPlanStatus = Ok | InvalidProfile | InvalidManifest | SizeOverflow
  | FramebufferScratchUnderflow | FrtsPlacementMismatch

record BootPreparationPlan =
  status :: BootPreparationPlanStatus
  generated :: "GeneratedDmaRequirement list"
  totalGeneratedAllocationBytes :: u64
  reusedSignatureAllocationBytes :: u64
  reusedBootloaderAllocationBytes :: u64
  framebuffer :: FramebufferScratchPlan

definition BootPreparationPlan0 :: BootPreparationPlan where
  "BootPreparationPlan0 = \<lparr>status = InvalidProfile,
     generated = replicate kGeneratedDmaRequirementCount \<lparr>kind = QueueBacking, layout = PageList, logicalBytes = 0,
       allocationBytes = 0, pageCount = 0\<rparr>,
     totalGeneratedAllocationBytes = 0, reusedSignatureAllocationBytes = 0, reusedBootloaderAllocationBytes = 0,
     framebuffer = \<lparr>frtsFwsecOffset = 0, frtsFwsecBytes = 0, sec2BooterOffset = 0, sec2BooterBytes = 0,
       frtsRegionOffset = 0, frtsRegionBytes = 0\<rparr>\<rparr>"

definition AlignUpPage :: "u64 \<Rightarrow> u64" where
  "AlignUpPage v = (if v = 0 \<or> - 1 - (kBootPreparePageBytes - 1) < v then 0
     else (v + kBootPreparePageBytes - 1) AND NOT (kBootPreparePageBytes - 1))"

text \<open>Adding a requirement; \<open>False\<close> leaves the plan as it is.\<close>

definition AddRequirement ::
    "BootPreparationPlan \<Rightarrow> nat \<Rightarrow> GeneratedBufferKind \<Rightarrow> GeneratedDmaLayout \<Rightarrow> u64 \<Rightarrow> u64 \<Rightarrow>
     bool \<times> BootPreparationPlan" where
  "AddRequirement out i k l lb ab =
     (if length (generated out) \<le> i \<or> lb = 0 \<or> ab = 0 \<or> ab < lb \<or> ab mod kBootPreparePageBytes \<noteq> 0 then (False, out)
      else if - 1 - ab < totalGeneratedAllocationBytes out then (False, out)
      else (True, out\<lparr>generated := (generated out)[i := \<lparr>kind = k, layout = l, logicalBytes = lb, allocationBytes = ab,
          pageCount = ab div kBootPreparePageBytes\<rparr>],
        totalGeneratedAllocationBytes := totalGeneratedAllocationBytes out + ab\<rparr>))"

definition AddManifestRequirement ::
    "BootPreparationPlan \<Rightarrow> nat \<Rightarrow> GeneratedBufferKind \<Rightarrow> BootManifest \<Rightarrow> AllocationKind \<Rightarrow> GeneratedDmaLayout \<Rightarrow>
     bool \<times> BootPreparationPlan" where
  "AddManifestRequirement out i k m ak l =
     (case FindAllocation m ak of
        None \<Rightarrow> (False, out)
      | Some r \<Rightarrow>
          if domain r \<noteq> System \<or> \<not> requiresDmaMapping r \<or> AllocationRequirement.logicalBytes r = 0 \<or>
            AllocationRequirement.allocationBytes r = 0 then (False, out)
          else if dmaLayout r \<noteq> (if l = Linear then DmaLayoutRequirement.Linear else DmaLayoutRequirement.PageList)
          then (False, out)
          else AddRequirement out i k l (AllocationRequirement.logicalBytes r) (AllocationRequirement.allocationBytes r))"

text \<open>The chain of the five manifest buffers, stopping at the first failure, and the loop over the five
  log regions.\<close>

fun AddManifestRequirements ::
    "BootPreparationPlan \<Rightarrow> nat \<Rightarrow> BootManifest \<Rightarrow> (GeneratedBufferKind \<times> AllocationKind \<times> GeneratedDmaLayout) list \<Rightarrow>
     bool \<times> BootPreparationPlan" where
  "AddManifestRequirements out i m [] = (True, out)"
| "AddManifestRequirements out i m ((k, ak, l) # rs) =
     (case AddManifestRequirement out i k m ak l of
        (False, out) \<Rightarrow> (False, out)
      | (True, out) \<Rightarrow> AddManifestRequirements out (Suc i) m rs)"

definition manifest_buffers :: "(GeneratedBufferKind \<times> AllocationKind \<times> GeneratedDmaLayout) list" where
  "manifest_buffers =
     [(QueueBacking, AllocationKind.QueueBacking, PageList), (CachedArguments, AllocationKind.CachedArguments, Linear),
      (LibosInitArguments, AllocationKind.LibosInitArguments, Linear), (WprMetadata, AllocationKind.WprMetadata, Linear),
      (Radix3Firmware, AllocationKind.Radix3Firmware, PageList)]"

fun AddLogRequirements ::
    "BootPreparationPlan \<Rightarrow> nat \<Rightarrow> GeneratedBufferKind list \<Rightarrow> bool \<times> BootPreparationPlan" where
  "AddLogRequirements out i [] = (True, out)"
| "AddLogRequirements out i (k # ks) =
     (case AddRequirement out i k Linear kLibosLogRegionBytes kLibosLogRegionBytes of
        (False, out) \<Rightarrow> (False, out)
      | (True, out) \<Rightarrow> AddLogRequirements out (Suc i) ks)"

definition log_buffers :: "GeneratedBufferKind list" where
  "log_buffers = [LogInit, LogIntr, LogRm, LogMnoc, LogKrnl]"

text \<open>The last part: the reused allocations, the scratch images and the FRTS placement.\<close>

definition PlanScratch :: "BootPreparationPlan \<Rightarrow> BootManifest \<Rightarrow> BootPreparationPlan option" where
  "PlanScratch out m =
     (case (FindAllocation m FirmwareSignature, FindAllocation m AllocationKind.GspBootloader) of
        (Some signature, Some bootloader) \<Rightarrow>
          if domain signature \<noteq> System \<or> domain bootloader \<noteq> System \<or>
            dmaLayout signature \<noteq> DmaLayoutRequirement.Linear \<or> dmaLayout bootloader \<noteq> DmaLayoutRequirement.Linear \<or>
            AllocationRequirement.allocationBytes signature = 0 \<or> AllocationRequirement.allocationBytes bootloader = 0
          then Some (out\<lparr>status := InvalidManifest\<rparr>)
          else let out = out\<lparr>reusedSignatureAllocationBytes := AllocationRequirement.allocationBytes signature,
                     reusedBootloaderAllocationBytes := AllocationRequirement.allocationBytes bootloader\<rparr>;
                   fwsecAllocation = AlignUpPage (ManifestInputs.frtsFwsecImageBytes (inputs m));
                   sec2Allocation = AlignUpPage (ManifestInputs.sec2BooterImageBytes (inputs m));
                   reservedStart = gspFwRsvdStart (wpr m)
          in if fwsecAllocation = 0 \<or> sec2Allocation = 0 then Some (out\<lparr>status := SizeOverflow\<rparr>)
          else if reservedStart < sec2Allocation \<or> reservedStart - sec2Allocation < fwsecAllocation
          then Some (out\<lparr>status := FramebufferScratchUnderflow\<rparr>)
          else let sec2Offset = reservedStart - sec2Allocation; fwsecOffset = sec2Offset - fwsecAllocation
          in if sec2Offset mod kBootPreparePageBytes \<noteq> 0 \<or> fwsecOffset mod kBootPreparePageBytes \<noteq> 0
          then Some (out\<lparr>status := InvalidManifest\<rparr>)
          else do {
            frtsCommand \<leftarrow> BuildFrtsCommand (ManifestInputs.fbSize (inputs m));
            case frtsCommand of
              None \<Rightarrow> Some (out\<lparr>status := FrtsPlacementMismatch\<rparr>)
            | Some c \<Rightarrow>
                if regionOffsetBytes c \<noteq> WprLayout.frtsOffset (wpr m) \<or> WprLayout.frtsSize (wpr m) \<noteq> kFrtsBytes
                then Some (out\<lparr>status := FrtsPlacementMismatch\<rparr>)
                else Some (out\<lparr>framebuffer := \<lparr>frtsFwsecOffset = fwsecOffset, frtsFwsecBytes = fwsecAllocation,
                    sec2BooterOffset = sec2Offset, sec2BooterBytes = sec2Allocation,
                    frtsRegionOffset = WprLayout.frtsOffset (wpr m), frtsRegionBytes = WprLayout.frtsSize (wpr m)\<rparr>,
                  status := Ok\<rparr>) }
      | _ \<Rightarrow> Some (out\<lparr>status := InvalidManifest\<rparr>))"

definition PlanGa10xBootPreparation :: "Profile \<Rightarrow> BootPreparationPlan option" where
  "PlanGa10xBootPreparation p =
     (let out = BootPreparationPlan0; m = manifest p
      in if Profile.status p \<noteq> ProfileStatus.Ok then Some (out\<lparr>status := InvalidProfile\<rparr>)
      else if \<not> BootManifest.valid m \<or> length (BootManifest.allocations m) \<noteq> 9 then Some (out\<lparr>status := InvalidManifest\<rparr>)
      else case AddManifestRequirements out 0 m manifest_buffers of
        (False, out) \<Rightarrow> Some (out\<lparr>status := InvalidManifest\<rparr>)
      | (True, out) \<Rightarrow>
          (case AddLogRequirements out (length manifest_buffers) log_buffers of
             (False, out) \<Rightarrow> Some (out\<lparr>status := SizeOverflow\<rparr>)
           | (True, out) \<Rightarrow>
               if length manifest_buffers + length log_buffers \<noteq> length (generated out)
               then Some (out\<lparr>status := InvalidManifest\<rparr>)
               else PlanScratch out m))"

fun BootPreparationPlanStatusName :: "BootPreparationPlanStatus \<Rightarrow> string" where
  "BootPreparationPlanStatusName Ok = ''ok''"
| "BootPreparationPlanStatusName InvalidProfile = ''invalid-profile''"
| "BootPreparationPlanStatusName InvalidManifest = ''invalid-manifest''"
| "BootPreparationPlanStatusName SizeOverflow = ''size-overflow''"
| "BootPreparationPlanStatusName FramebufferScratchUnderflow = ''framebuffer-scratch-underflow''"
| "BootPreparationPlanStatusName FrtsPlacementMismatch = ''frts-placement-mismatch''"

lemma PrepareStatusName_inj:
  "ProfileStatusName s = ProfileStatusName t \<longleftrightarrow> s = t"
  "BootPreparationPlanStatusName p = BootPreparationPlanStatusName q \<longleftrightarrow> p = q"
  by (cases s; cases t; simp) (cases p; cases q; simp)

section \<open>The profile of a verified package\<close>

lemma profile_ok:
  assumes "Profile.status (BuildGa10xPrototypeProfile_at v boundary) = ProfileStatus.Ok"
  shows "manifest_ok (profile_inputs v boundary) (manifest (BuildGa10xPrototypeProfile_at v boundary))"
    and "manifest (BuildGa10xPrototypeProfile_at v boundary) = PlanBootManifest (profile_inputs v boundary)"
    and "0x8800000 < unat (StaticMetadata.vramBytes (PackageView.metadata v))"
    and "unat boundary \<le> unat (StaticMetadata.vramBytes (PackageView.metadata v)) - 0x100000"
    and "4096 dvd unat boundary"
    and "SectionBytes v SectionKind.FrtsFwsecImage \<noteq> 0" "SectionBytes v SectionKind.Sec2BooterImage \<noteq> 0"
proof -
  let ?P = "BuildGa10xPrototypeProfile_at v boundary" and ?fb = "StaticMetadata.vramBytes (PackageView.metadata v)"
  have g: "manifest ?P = PlanBootManifest (profile_inputs v boundary)" "BootManifest.valid (manifest ?P)"
    "\<not> ?fb \<le> 0x8800000" "\<not> ?fb - kVgaWorkspaceBytes < boundary" "boundary mod 0x1000 = 0"
    "SectionBytes v SectionKind.FrtsFwsecImage \<noteq> 0" "SectionBytes v SectionKind.Sec2BooterImage \<noteq> 0"
    using assms
    by (auto simp: BuildGa10xPrototypeProfile_at_def Let_def Profile0_def profile_consts split: if_splits)
  then show "manifest ?P = PlanBootManifest (profile_inputs v boundary)"
    and "SectionBytes v SectionKind.FrtsFwsecImage \<noteq> 0" "SectionBytes v SectionKind.Sec2BooterImage \<noteq> 0" by blast+
  show "manifest_ok (profile_inputs v boundary) (manifest ?P)" using manifest_ok_valid g(1,2) by simp
  show fb: "0x8800000 < unat ?fb" using g(3) by (simp add: word_le_nat_alt)
  have "unat (?fb - kVgaWorkspaceBytes) = unat ?fb - 0x100000"
    using fb by (simp add: unat_sub word_le_nat_alt kVgaWorkspaceBytes_def)
  then show "unat boundary \<le> unat ?fb - 0x100000" using g(4) by (simp add: word_less_nat_alt)
  show "4096 dvd unat boundary" using g(5) by (simp add: word_mod_eq_0_iff)
qed

lemma manifest_requirements:
  assumes "manifest_ok i m"
  shows "length (BootManifest.allocations m) = 9"
    and "FindAllocation m AllocationKind.QueueBacking = Some (requirement (AllocationKind.QueueBacking, System, totalBytes (queues m), DmaLayoutRequirement.PageList))"
    and "FindAllocation m AllocationKind.CachedArguments = Some (requirement (AllocationKind.CachedArguments, System, 72, DmaLayoutRequirement.Linear))"
    and "FindAllocation m AllocationKind.LibosInitArguments = Some (requirement (AllocationKind.LibosInitArguments, System, 4096, DmaLayoutRequirement.Linear))"
    and "FindAllocation m AllocationKind.WprMetadata = Some (requirement (AllocationKind.WprMetadata, System, 256, DmaLayoutRequirement.Linear))"
    and "FindAllocation m AllocationKind.Radix3Firmware = Some (requirement (AllocationKind.Radix3Firmware, System, Radix3Layout.allocationBytes (radix3 m), DmaLayoutRequirement.PageList))"
    and "FindAllocation m FirmwareSignature = Some (requirement (FirmwareSignature, System, gspSignatureBytes i, DmaLayoutRequirement.Linear))"
    and "FindAllocation m AllocationKind.GspBootloader = Some (requirement (AllocationKind.GspBootloader, System, gspBootloaderBytes i, DmaLayoutRequirement.Linear))"
  using assms by (simp_all add: manifest_ok_def requests_def FindAllocation_def requirement_def)

definition buffer_ok :: "GeneratedDmaRequirement \<Rightarrow> bool" where
  "buffer_ok q \<longleftrightarrow> 0 < unat (logicalBytes q) \<and> unat (logicalBytes q) \<le> unat (allocationBytes q) \<and>
     unat (pageCount q) * 4096 = unat (allocationBytes q)"

definition generated_buffer :: "GeneratedBufferKind \<Rightarrow> GeneratedDmaLayout \<Rightarrow> AllocationRequirement \<Rightarrow> GeneratedDmaRequirement" where
  "generated_buffer k l r = \<lparr>kind = k, layout = l, logicalBytes = AllocationRequirement.logicalBytes r,
     allocationBytes = AllocationRequirement.allocationBytes r,
     pageCount = AllocationRequirement.allocationBytes r div kBootPreparePageBytes\<rparr>"

definition log_buffer :: "GeneratedBufferKind \<Rightarrow> GeneratedDmaRequirement" where
  "log_buffer k = \<lparr>kind = k, layout = Linear, logicalBytes = 0x10000, allocationBytes = 0x10000, pageCount = 16\<rparr>"

definition total_bytes :: "GeneratedDmaRequirement list \<Rightarrow> nat" where
  "total_bytes qs = (\<Sum>q \<leftarrow> qs. unat (allocationBytes q))"

lemma page_div: "4096 dvd unat w \<Longrightarrow> unat (w div kBootPreparePageBytes) * 4096 = unat w"
  by (simp add: kBootPreparePageBytes_def unat_div)

lemma AddRequirement_ok:
  assumes "i < length (generated out)" "0 < unat lb" "unat lb \<le> unat ab" "4096 dvd unat ab"
    "unat (totalGeneratedAllocationBytes out) + unat ab < 2 ^ 64"
  shows "AddRequirement out i k l lb ab = (True, out\<lparr>generated := (generated out)[i := \<lparr>kind = k, layout = l,
      logicalBytes = lb, allocationBytes = ab, pageCount = ab div kBootPreparePageBytes\<rparr>],
      totalGeneratedAllocationBytes := totalGeneratedAllocationBytes out + ab\<rparr>)"
    and "unat (totalGeneratedAllocationBytes out + ab) = unat (totalGeneratedAllocationBytes out) + unat ab"
proof -
  have "lb \<noteq> 0" "ab \<noteq> 0" using assms(2,3) by auto
  moreover have "\<not> ab < lb" using assms(3) by (simp add: word_less_nat_alt)
  moreover have "ab mod kBootPreparePageBytes = 0"
    using assms(4) by (simp add: kBootPreparePageBytes_def word_mod_eq_0_iff)
  moreover have "\<not> - 1 - ab < totalGeneratedAllocationBytes out" unfolding add_guard64 using assms(5) by simp
  ultimately show "AddRequirement out i k l lb ab = (True, out\<lparr>generated := (generated out)[i := \<lparr>kind = k, layout = l,
      logicalBytes = lb, allocationBytes = ab, pageCount = ab div kBootPreparePageBytes\<rparr>],
      totalGeneratedAllocationBytes := totalGeneratedAllocationBytes out + ab\<rparr>)"
    using assms(1) by (simp add: AddRequirement_def)
  show "unat (totalGeneratedAllocationBytes out + ab) = unat (totalGeneratedAllocationBytes out) + unat ab"
    using assms(5) by (simp add: unat_add_nowrap)
qed

lemma log_requirements:
  "i + length ks \<le> length (generated out) \<Longrightarrow> unat (totalGeneratedAllocationBytes out) + length ks * 0x10000 < 2 ^ 64 \<Longrightarrow>
    \<exists>out'. AddLogRequirements out i ks = (True, out') \<and>
      generated out' = take i (generated out) @ map log_buffer ks @ drop (i + length ks) (generated out) \<and>
      unat (totalGeneratedAllocationBytes out') = unat (totalGeneratedAllocationBytes out) + length ks * 0x10000 \<and>
      framebuffer out' = framebuffer out"
proof (induction ks arbitrary: i out)
  case (Cons k ks)
  let ?out = "out\<lparr>generated := (generated out)[i := log_buffer k],
      totalGeneratedAllocationBytes := totalGeneratedAllocationBytes out + 0x10000\<rparr>"
  have i: "i < length (generated out)" using Cons.prems(1) by simp
  note add = AddRequirement_ok(1) [OF i, where lb = "0x10000" and ab = "0x10000" and k = k and l = Linear]
    AddRequirement_ok(2) [OF i, where lb = "0x10000" and ab = "0x10000"]
  have add1: "AddRequirement out i k Linear kLibosLogRegionBytes kLibosLogRegionBytes = (True, ?out)"
    "unat (totalGeneratedAllocationBytes ?out) = unat (totalGeneratedAllocationBytes out) + 0x10000"
    using add Cons.prems(2) by (simp_all add: kLibosLogRegionBytes_def log_buffer_def kBootPreparePageBytes_def)
  have "\<exists>out'. AddLogRequirements ?out (Suc i) ks = (True, out') \<and>
      generated out' = take (Suc i) (generated ?out) @ map log_buffer ks @ drop (Suc i + length ks) (generated ?out) \<and>
      unat (totalGeneratedAllocationBytes out') = unat (totalGeneratedAllocationBytes ?out) + length ks * 0x10000 \<and>
      framebuffer out' = framebuffer ?out"
    using Cons.prems add1(2) by (intro Cons.IH) simp_all
  moreover have "take (Suc i) (generated ?out) = take i (generated out) @ [log_buffer k]"
    using i by (simp add: take_Suc_conv_app_nth)
  ultimately show ?case using add1 by auto
qed simp

text \<open>One buffer of the manifest.\<close>

lemma manifest_buffer_step:
  assumes "FindAllocation m ak = Some r" "requirement_ok r" "domain r = System"
    "dmaLayout r = (if l = Linear then DmaLayoutRequirement.Linear else DmaLayoutRequirement.PageList)"
    and "i < length (generated out)" "unat (totalGeneratedAllocationBytes out) + unat (AllocationRequirement.allocationBytes r) < 2 ^ 64"
  shows "\<exists>out'. AddManifestRequirement out i k m ak l = (True, out') \<and>
    generated out' = (generated out)[i := generated_buffer k l r] \<and> framebuffer out' = framebuffer out \<and>
    unat (totalGeneratedAllocationBytes out') =
      unat (totalGeneratedAllocationBytes out) + unat (AllocationRequirement.allocationBytes r) \<and>
    buffer_ok (generated_buffer k l r)"
proof -
  have r: "0 < unat (AllocationRequirement.logicalBytes r)"
    "unat (AllocationRequirement.logicalBytes r) \<le> unat (AllocationRequirement.allocationBytes r)"
    "4096 dvd unat (AllocationRequirement.allocationBytes r)" "requiresDmaMapping r"
    using assms(2,3) by (simp_all add: requirement_ok_def unat_gt_0)
  have nz: "AllocationRequirement.logicalBytes r \<noteq> 0" "AllocationRequirement.allocationBytes r \<noteq> 0" using r(1,2) by auto
  note add = AddRequirement_ok [OF assms(5) r(1-3) assms(6)]
  show ?thesis
    using assms(1,3,4) r nz add page_div [OF r(3)]
    by (simp add: AddManifestRequirement_def generated_buffer_def buffer_ok_def)
qed

definition manifest_generated :: "BootManifest \<Rightarrow> GeneratedDmaRequirement list" where
  "manifest_generated m = map (\<lambda>(k, ak, l). generated_buffer k l (the (FindAllocation m ak))) manifest_buffers"

lemma manifest_chain:
  "\<forall>(k, ak, l) \<in> set rs. \<exists>r. FindAllocation m ak = Some r \<and> requirement_ok r \<and> domain r = System \<and>
      dmaLayout r = (if l = Linear then DmaLayoutRequirement.Linear else DmaLayoutRequirement.PageList) \<and>
      unat (AllocationRequirement.allocationBytes r) < 2 ^ 50 \<Longrightarrow>
    i + length rs \<le> length (generated out) \<Longrightarrow> unat (totalGeneratedAllocationBytes out) + length rs * 2 ^ 50 < 2 ^ 64 \<Longrightarrow>
    \<exists>out'. AddManifestRequirements out i m rs = (True, out') \<and>
      (let qs = map (\<lambda>(k, ak, l). generated_buffer k l (the (FindAllocation m ak))) rs in
       generated out' = take i (generated out) @ qs @ drop (i + length rs) (generated out) \<and>
       unat (totalGeneratedAllocationBytes out') = unat (totalGeneratedAllocationBytes out) + total_bytes qs \<and>
       framebuffer out' = framebuffer out \<and> (\<forall>q \<in> set qs. buffer_ok q))"
proof (induction rs arbitrary: i out)
  case (Cons x rs)
  obtain k ak l where x: "x = (k, ak, l)" by (cases x)
  obtain r where r: "FindAllocation m ak = Some r" "requirement_ok r" "domain r = System"
    "dmaLayout r = (if l = Linear then DmaLayoutRequirement.Linear else DmaLayoutRequirement.PageList)"
    "unat (AllocationRequirement.allocationBytes r) < 2 ^ 50"
    using Cons.prems(1) by (auto simp: x)
  have i: "i < length (generated out)" using Cons.prems(2) by simp
  have "unat (totalGeneratedAllocationBytes out) + unat (AllocationRequirement.allocationBytes r) < 2 ^ 64"
    using Cons.prems(3) r(5) by simp
  from manifest_buffer_step [OF r(1-4) i this] obtain out1 where out1:
    "AddManifestRequirement out i k m ak l = (True, out1)" "generated out1 = (generated out)[i := generated_buffer k l r]"
    "framebuffer out1 = framebuffer out" "unat (totalGeneratedAllocationBytes out1) =
      unat (totalGeneratedAllocationBytes out) + unat (AllocationRequirement.allocationBytes r)"
    "buffer_ok (generated_buffer k l r)" by blast
  have tk: "take (Suc i) (generated out1) = take i (generated out) @ [generated_buffer k l r]"
    using i by (simp add: out1(2) take_Suc_conv_app_nth)
  have "\<exists>out'. AddManifestRequirements out1 (Suc i) m rs = (True, out') \<and>
      (let qs = map (\<lambda>(k, ak, l). generated_buffer k l (the (FindAllocation m ak))) rs in
       generated out' = take (Suc i) (generated out1) @ qs @ drop (Suc i + length rs) (generated out1) \<and>
       unat (totalGeneratedAllocationBytes out') = unat (totalGeneratedAllocationBytes out1) + total_bytes qs \<and>
       framebuffer out' = framebuffer out1 \<and> (\<forall>q \<in> set qs. buffer_ok q))"
    using Cons.prems out1(2,4) r(5) by (intro Cons.IH) auto
  then show ?case using out1 r(1) unfolding tk
    by (auto simp: x Let_def total_bytes_def generated_buffer_def)
qed (simp add: total_bytes_def)

lemma manifest_sizes:
  assumes m: "manifest_ok i m" and q: "ManifestInputs.queueBytes i = kDefaultQueueBytes"
  shows "totalBytes (queues m) = 0x81000" and "unat (Radix3Layout.allocationBytes (radix3 m)) < 2 ^ 41"
proof -
  have "map_option totalBytes (PlanQueueMemory kDefaultQueueBytes kGspPageBytes kGspPteBytes) = Some 0x81000"
    by (simp add: PlanQueueMemory_def kDefaultQueueBytes_def kGspPageBytes_def kGspPteBytes_def RoundUp_def)
  then show "totalBytes (queues m) = 0x81000" using m q by (simp add: manifest_ok_def)
  have r: "PlanRadix3 (gspFirmwareImageBytes i) = Some (radix3 m)" using m by (simp add: manifest_ok_def)
  obtain n1 n2 n3 where ok: "radix_ok (radix3 m) n1 n2 n3" using PlanRadix3_ok [OF r] by blast
  have n: "n1 \<le> 512" "n2 \<le> 512 * n1" "n3 \<le> 512 * n2" "unat (imageBytes (radix3 m)) \<le> n3 * 4096"
    "unat (tableBytes (radix3 m)) = (1 + n1 + n2) * 4096"
    using ok by (auto simp: radix_ok_def)
  have "n2 \<le> 2 ^ 18" "n3 \<le> 2 ^ 27" using n(1-3) by simp_all
  then have "unat (imageBytes (radix3 m)) \<le> 2 ^ 39" "unat (tableBytes (radix3 m)) \<le> 2 ^ 32" using n by simp_all
  then show "unat (Radix3Layout.allocationBytes (radix3 m)) < 2 ^ 41" using PlanRadix3_alloc [OF r] by simp
qed

lemma manifest_chain_ok:
  assumes m: "manifest_ok i m" and q: "ManifestInputs.queueBytes i = kDefaultQueueBytes"
  shows "\<forall>(k, ak, l) \<in> set manifest_buffers. \<exists>r. FindAllocation m ak = Some r \<and> requirement_ok r \<and> domain r = System \<and>
      dmaLayout r = (if l = Linear then DmaLayoutRequirement.Linear else DmaLayoutRequirement.PageList) \<and>
      unat (AllocationRequirement.allocationBytes r) < 2 ^ 50"
proof -
  have ok: "requirement_ok (requirement x)" if "x \<in> set (requests i (queues m) (radix3 m))" for x
    using m that by (simp add: manifest_ok_def)
  have small: "unat (AllocationRequirement.allocationBytes (requirement (k, d, lb, dl))) < unat lb + 4096"
    if "requirement_ok (requirement (k, d, lb, dl))" for k d lb dl
    using that by (simp add: requirement_ok_def requirement_def)
  have ok5: "requirement_ok (requirement (AllocationKind.QueueBacking, System, totalBytes (queues m), DmaLayoutRequirement.PageList))"
    "requirement_ok (requirement (AllocationKind.CachedArguments, System, 72, DmaLayoutRequirement.Linear))"
    "requirement_ok (requirement (AllocationKind.LibosInitArguments, System, 4096, DmaLayoutRequirement.Linear))"
    "requirement_ok (requirement (AllocationKind.WprMetadata, System, 256, DmaLayoutRequirement.Linear))"
    "requirement_ok (requirement (AllocationKind.Radix3Firmware, System, Radix3Layout.allocationBytes (radix3 m), DmaLayoutRequirement.PageList))"
    by (intro ok; simp add: requests_def)+
  note sm = ok5 [THEN small] and sz = manifest_sizes [OF m q] and f = manifest_requirements [OF m]
  have sm': "unat (AllocationRequirement.allocationBytes (requirement (AllocationKind.QueueBacking, System, totalBytes (queues m), DmaLayoutRequirement.PageList))) < 2 ^ 50"
    "unat (AllocationRequirement.allocationBytes (requirement (AllocationKind.CachedArguments, System, 72, DmaLayoutRequirement.Linear))) < 2 ^ 50"
    "unat (AllocationRequirement.allocationBytes (requirement (AllocationKind.LibosInitArguments, System, 4096, DmaLayoutRequirement.Linear))) < 2 ^ 50"
    "unat (AllocationRequirement.allocationBytes (requirement (AllocationKind.WprMetadata, System, 256, DmaLayoutRequirement.Linear))) < 2 ^ 50"
    "unat (AllocationRequirement.allocationBytes (requirement (AllocationKind.Radix3Firmware, System, Radix3Layout.allocationBytes (radix3 m), DmaLayoutRequirement.PageList))) < 2 ^ 50"
    using sm sz by simp_all
  have "domain (requirement (k, d, lb, dl)) = d" "dmaLayout (requirement (k, d, lb, dl)) = dl" for k d lb dl
    by (simp_all add: requirement_def)
  note rd = this
  show ?thesis unfolding manifest_buffers_def using ok5 sm' rd f(2-6) by simp
qed

lemma AlignUpPage_ok:
  assumes "v \<noteq> 0" "unat v \<le> 2 ^ 64 - 4096"
  shows "unat (AlignUpPage v) = (unat v + 4095) div 4096 * 4096 \<and> AlignUpPage v \<noteq> 0"
proof -
  have g: "\<not> - 1 - (kBootPreparePageBytes - 1) < v"
    unfolding add_guard64 using assms(2) by (simp add: kBootPreparePageBytes_def)
  have sum: "unat (v + 0xFFF) = unat v + 0xFFF" using assms(2) by (subst unat_add_nowrap) simp_all
  have "AlignUpPage v = (v + 0xFFF) AND NOT (mask 12)"
    using g assms(1) by (simp add: AlignUpPage_def kBootPreparePageBytes_def mask_eq_exp_minus_1)
      (simp add: add.commute)
  then have "unat (AlignUpPage v) = unat v + 0xFFF - (unat v + 0xFFF) mod 4096"
    using unat_and_not_mask [of "v + 0xFFF" 12] by (simp only: sum) simp
  then have e: "unat (AlignUpPage v) = (unat v + 4095) div 4096 * 4096"
    using minus_mod_eq_div_mult [of "unat v + 4095" 4096] by simp
  have "0 < unat v" using assms(1) by (simp add: unat_gt_0)
  then have "0 < unat (AlignUpPage v)" unfolding e by simp
  then show ?thesis using e by auto
qed

text \<open>Where the FRTS region must be: exactly below the workspace, so the boundary is not lowered.\<close>

abbreviation round_page :: "nat \<Rightarrow> nat" where
  "round_page n \<equiv> (n + 4095) div 4096 * 4096"

lemma frts_placement:
  fixes fb boundary wprEnd frts :: nat
  assumes "0x8800000 < fb" "boundary \<le> fb - 0x100000" "frts + 0x100000 = wprEnd" "2 ^ 17 dvd wprEnd"
    "wprEnd \<le> boundary" "boundary < wprEnd + 2 ^ 17"
  shows "frts = fb - 0x200000 \<longleftrightarrow> boundary = fb - 0x100000 \<and> 2 ^ 17 dvd fb"
proof
  assume "frts = fb - 0x200000"
  then have e: "wprEnd = fb - 0x100000" using assms(1,3) by linarith
  then have "fb = wprEnd + 0x100000" using assms(1) by linarith
  moreover have "(2 :: nat) ^ 17 dvd 0x100000" by simp
  ultimately have "2 ^ 17 dvd fb" using assms(4) by (simp only: dvd_add)
  then show "boundary = fb - 0x100000 \<and> 2 ^ 17 dvd fb" using e assms(2,5) by linarith
next
  assume *: "boundary = fb - 0x100000 \<and> 2 ^ 17 dvd fb"
  have "(2 :: nat) ^ 17 dvd 0x100000" by simp
  then have "2 ^ 17 dvd boundary" using * by (simp only: dvd_diff_nat)
  then have "2 ^ 17 dvd boundary - wprEnd" using assms(4) by (rule dvd_diff_nat)
  moreover have "boundary - wprEnd < 2 ^ 17" using assms(5,6) by simp
  ultimately have "boundary - wprEnd = 0" by (metis dvd_imp_le gr0I not_less)
  then show "frts = fb - 0x200000" using * assms(1,3,5) by linarith
qed

lemma round_page_unique:
  fixes a b :: nat
  assumes "a \<le> b" "b < a + 4096" "4096 dvd b"
  shows "b = round_page a"
proof -
  obtain q where q: "b = 4096 * q" using assms(3) by (elim dvdE)
  have "(a + 4095) div 4096 = q" using assms(1,2) unfolding q by (intro div_nat_eqI) simp_all
  then show ?thesis unfolding q by simp
qed

lemma requirement_pages:
  assumes "requirement_ok (requirement (k, d, lb, dl))"
  shows "unat (AllocationRequirement.allocationBytes (requirement (k, d, lb, dl))) = round_page (unat lb)"
  by (rule round_page_unique; insert assms; simp add: requirement_ok_def requirement_def)

lemma requirement_pages_nz: "requirement_ok r \<Longrightarrow> AllocationRequirement.allocationBytes r \<noteq> 0"
  by (auto simp: requirement_ok_def unat_eq_0)

definition scratch_ok :: "ManifestInputs \<Rightarrow> BootManifest \<Rightarrow> FramebufferScratchPlan \<Rightarrow> bool" where
  "scratch_ok i m f \<longleftrightarrow>
     unat (frtsFwsecBytes f) = round_page (unat (ManifestInputs.frtsFwsecImageBytes i)) \<and>
     unat (sec2BooterBytes f) = round_page (unat (ManifestInputs.sec2BooterImageBytes i)) \<and>
     4096 dvd unat (frtsFwsecOffset f) \<and> 4096 dvd unat (sec2BooterOffset f) \<and>
     unat (frtsFwsecOffset f) + unat (frtsFwsecBytes f) = unat (sec2BooterOffset f) \<and>
     unat (sec2BooterOffset f) + unat (sec2BooterBytes f) = unat (gspFwRsvdStart (wpr m)) \<and>
     unat (frtsRegionOffset f) = unat (ManifestInputs.fbSize i) - 0x200000 \<and> unat (frtsRegionBytes f) = 0x100000"

lemma page_bound: "4096 dvd n \<Longrightarrow> n < 2 ^ 64 \<Longrightarrow> n \<le> 2 ^ 64 - (4096 :: nat)"
  by (elim dvdE) simp

lemma manifest_image_bounds:
  assumes "manifest_ok i m"
  shows "unat (ManifestInputs.frtsFwsecImageBytes i) \<le> 2 ^ 64 - 4096" "unat (ManifestInputs.sec2BooterImageBytes i) \<le> 2 ^ 64 - 4096"
proof -
  have "unat lb \<le> 2 ^ 64 - 4096" if "(k, d, lb, dl) \<in> set (requests i (queues m) (radix3 m))" for k d lb dl
  proof -
    have "requirement_ok (requirement (k, d, lb, dl))"
      using assms that by (simp add: manifest_ok_def)
    then have "unat lb \<le> unat (AllocationRequirement.allocationBytes (requirement (k, d, lb, dl)))"
      "4096 dvd unat (AllocationRequirement.allocationBytes (requirement (k, d, lb, dl)))"
      by (simp_all add: requirement_ok_def requirement_def)
    then show ?thesis using page_bound unat_lt(4) by (meson order_trans)
  qed
  note b = this
  show "unat (ManifestInputs.frtsFwsecImageBytes i) \<le> 2 ^ 64 - 4096"
    by (rule b [of AllocationKind.FrtsFwsecImage Framebuffer _ NoLayout]) (simp add: requests_def)
  show "unat (ManifestInputs.sec2BooterImageBytes i) \<le> 2 ^ 64 - 4096"
    by (rule b [of AllocationKind.Sec2BooterImage Framebuffer _ NoLayout]) (simp add: requests_def)
qed

lemma PlanScratch_cases:
  fixes v boundary m
  defines "i \<equiv> profile_inputs v boundary"
  defines "fb \<equiv> unat (ManifestInputs.fbSize i)"
  assumes m: "manifest_ok i m" and fb: "0x8800000 < fb" and bd: "unat boundary \<le> fb - 0x100000"
    and img: "ManifestInputs.frtsFwsecImageBytes i \<noteq> 0" "ManifestInputs.sec2BooterImageBytes i \<noteq> 0"
  shows "\<exists>out'. PlanScratch out m = Some out' \<and> generated out' = generated out \<and>
    totalGeneratedAllocationBytes out' = totalGeneratedAllocationBytes out \<and>
    unat (reusedSignatureAllocationBytes out') = round_page (unat (gspSignatureBytes i)) \<and>
    unat (reusedBootloaderAllocationBytes out') = round_page (unat (gspBootloaderBytes i)) \<and>
    status out' =
      (if unat (gspFwRsvdStart (wpr m)) < round_page (unat (ManifestInputs.frtsFwsecImageBytes i)) +
          round_page (unat (ManifestInputs.sec2BooterImageBytes i)) then FramebufferScratchUnderflow
       else if unat boundary = fb - 0x100000 \<and> 2 ^ 17 dvd fb \<and> fb < 2 ^ 44 + 0x200000 then Ok
       else FrtsPlacementMismatch) \<and>
    (status out' = Ok \<longrightarrow> scratch_ok i m (framebuffer out'))"
proof -
  have inp: "inputs m = i" and wpr: "wpr_ok (wpr_inputs i) (wpr m)" using m by (simp_all add: manifest_ok_def)
  note f = manifest_requirements [OF m]
  let ?sig = "requirement (FirmwareSignature, System, gspSignatureBytes i, DmaLayoutRequirement.Linear)"
  let ?boot = "requirement (AllocationKind.GspBootloader, System, gspBootloaderBytes i, DmaLayoutRequirement.Linear)"
  have ok: "requirement_ok ?sig" "requirement_ok ?boot" using m by (simp_all add: manifest_ok_def requests_def)
  have fields: "domain ?sig = System" "domain ?boot = System" "dmaLayout ?sig = DmaLayoutRequirement.Linear"
    "dmaLayout ?boot = DmaLayoutRequirement.Linear" by (simp_all add: requirement_def)
  note sizes = requirement_pages [OF ok(1)] requirement_pages [OF ok(2)]
  note nz = requirement_pages_nz [OF ok(1)] requirement_pages_nz [OF ok(2)]
  let ?fw = "AlignUpPage (ManifestInputs.frtsFwsecImageBytes i)" and ?s2 = "AlignUpPage (ManifestInputs.sec2BooterImageBytes i)"
  have al: "unat ?fw = round_page (unat (ManifestInputs.frtsFwsecImageBytes i))" "?fw \<noteq> 0"
    "unat ?s2 = round_page (unat (ManifestInputs.sec2BooterImageBytes i))" "?s2 \<noteq> 0"
    using AlignUpPage_ok [OF img(1)] AlignUpPage_ok [OF img(2)] manifest_image_bounds [OF m] by simp_all
  let ?R = "gspFwRsvdStart (wpr m)"
  have room: "(?R < ?s2 \<or> ?R - ?s2 < ?fw) \<longleftrightarrow> unat ?R < unat ?fw + unat ?s2"
  proof (cases "?s2 \<le> ?R")
    case True
    then have "unat (?R - ?s2) = unat ?R - unat ?s2" by (simp add: unat_sub)
    then show ?thesis using True by (auto simp: word_less_nat_alt word_le_nat_alt)
  qed (simp add: word_le_nat_alt not_le word_less_nat_alt)
  have w: "unat (WprLayout.frtsOffset (wpr m)) + 0x100000 = unat (gspFwWprEnd (wpr m))" "2 ^ 17 dvd unat (gspFwWprEnd (wpr m))"
    "unat (gspFwWprEnd (wpr m)) \<le> unat boundary" "unat boundary < unat (gspFwWprEnd (wpr m)) + 2 ^ 17"
    "WprLayout.frtsSize (wpr m) = kFrtsBytes"
    using wpr by (simp_all add: wpr_ok_def wpr_inputs_def i_def profile_inputs_def Let_def profile_consts)
  have dvdR: "4096 dvd unat ?R"
  proof -
    have e: "unat ?R + unat (WprLayout.nonWprHeapSize (wpr m)) + 2 ^ 20 = unat (gspFwHeapOffset (wpr m))"
      and d: "2 ^ 20 dvd unat (WprLayout.nonWprHeapSize (wpr m))" "2 ^ 20 dvd unat (gspFwHeapOffset (wpr m))"
      using wpr by (simp_all add: wpr_ok_def)
    have "2 ^ 20 dvd unat ?R + (unat (WprLayout.nonWprHeapSize (wpr m)) + 2 ^ 20)" using d(2) e by (simp add: add.assoc)
    moreover have "2 ^ 20 dvd unat (WprLayout.nonWprHeapSize (wpr m)) + 2 ^ 20" using d(1) by simp
    ultimately have "2 ^ 20 dvd unat ?R" using dvd_add_left_iff by blast
    moreover have "(4096 :: nat) dvd 2 ^ 20" by simp
    ultimately show ?thesis by (rule dvd_trans [rotated])
  qed
  note place = frts_placement [OF fb bd w(1-4)]
  obtain c where c: "BuildFrtsCommand (ManifestInputs.fbSize i) = Some c"
    "c = None \<longleftrightarrow> \<not> (4096 dvd fb \<and> fb < 2 ^ 44 + 0x200000)"
    "\<And>x. c = Some x \<Longrightarrow> unat (regionOffsetBytes x) = fb - 0x200000"
    using BuildFrtsCommand_cases [of "ManifestInputs.fbSize i"] fb by (auto simp: fb_def frts_command_ok_def)
  show ?thesis
  proof (cases "unat ?R < unat ?fw + unat ?s2")
    case True
    then show ?thesis using f fields nz sizes al room by (simp add: PlanScratch_def inp Let_def)
  next
    case False
    then have "?s2 \<le> ?R" "?fw \<le> ?R - ?s2" using room by (simp_all add: not_less)
    then have off: "unat (?R - ?s2) + unat ?s2 = unat ?R" "unat (?R - ?s2 - ?fw) + unat ?fw = unat (?R - ?s2)"
      by (simp_all add: unat_sub word_le_nat_alt)
    have d4: "4096 dvd unat ?s2" "4096 dvd unat ?fw" using al by simp_all
    have "4096 dvd unat (?R - ?s2) + unat ?s2" using dvdR off(1) by simp
    then have d2: "4096 dvd unat (?R - ?s2)" using d4(1) dvd_add_left_iff by blast
    then have "4096 dvd unat (?R - ?s2 - ?fw) + unat ?fw" using off(2) by simp
    then have d3: "4096 dvd unat (?R - ?s2 - ?fw)" using d4(2) dvd_add_left_iff by blast
    have md: "(?R - ?s2) mod kBootPreparePageBytes = 0" "(?R - ?s2 - ?fw) mod kBootPreparePageBytes = 0"
      using d2 d3 by (simp_all add: kBootPreparePageBytes_def word_mod_eq_0_iff)
    have run: "PlanScratch out m = (case c of
        None \<Rightarrow> Some (out\<lparr>reusedSignatureAllocationBytes := AllocationRequirement.allocationBytes ?sig,
          reusedBootloaderAllocationBytes := AllocationRequirement.allocationBytes ?boot, status := FrtsPlacementMismatch\<rparr>)
      | Some x \<Rightarrow> if regionOffsetBytes x \<noteq> WprLayout.frtsOffset (wpr m)
          then Some (out\<lparr>reusedSignatureAllocationBytes := AllocationRequirement.allocationBytes ?sig,
            reusedBootloaderAllocationBytes := AllocationRequirement.allocationBytes ?boot, status := FrtsPlacementMismatch\<rparr>)
          else Some (out\<lparr>reusedSignatureAllocationBytes := AllocationRequirement.allocationBytes ?sig,
            reusedBootloaderAllocationBytes := AllocationRequirement.allocationBytes ?boot,
            framebuffer := \<lparr>frtsFwsecOffset = ?R - ?s2 - ?fw, frtsFwsecBytes = ?fw, sec2BooterOffset = ?R - ?s2,
              sec2BooterBytes = ?s2, frtsRegionOffset = WprLayout.frtsOffset (wpr m), frtsRegionBytes = kFrtsBytes\<rparr>,
            status := Ok\<rparr>))"
      using f fields nz al room md False w(5) c(1)
      by (simp add: PlanScratch_def inp Let_def split: option.split)
    have dv: "4096 dvd fb" if "2 ^ 17 dvd fb"
    proof (rule dvd_trans [OF _ that])
      show "(4096 :: nat) dvd 2 ^ 17" by simp
    qed
    have k: "unat kFrtsBytes = 0x100000" by (simp add: kFrtsBytes_def)
    show ?thesis
    proof (cases c)
      case None
      then show ?thesis using run sizes False al c(2) dv by auto
    next
      case (Some x)
      have "regionOffsetBytes x = WprLayout.frtsOffset (wpr m) \<longleftrightarrow> unat boundary = fb - 0x100000 \<and> 2 ^ 17 dvd fb"
        using c(3) [OF Some] place by (auto simp: word_unat_eq_iff)
      then show ?thesis
        using run sizes False al c(2) Some off d2 d3 k c(3) [OF Some]
        by (auto simp: scratch_ok_def fb_def)
    qed
  qed
qed

lemma total_bytes_bound:
  "\<forall>x \<in> set xs. unat (GeneratedDmaRequirement.allocationBytes x) < 2 ^ 50 \<Longrightarrow> total_bytes xs \<le> length xs * 2 ^ 50"
  by (induction xs) (auto simp: total_bytes_def)

lemma manifest_run:
  assumes m: "manifest_ok i m" and q: "ManifestInputs.queueBytes i = kDefaultQueueBytes"
  shows "\<exists>out. AddManifestRequirements BootPreparationPlan0 0 m manifest_buffers = (True, out) \<and>
    generated out = manifest_generated m @ drop 5 (generated BootPreparationPlan0) \<and>
    unat (totalGeneratedAllocationBytes out) = total_bytes (manifest_generated m) \<and>
    (\<forall>x \<in> set (manifest_generated m). buffer_ok x) \<and> total_bytes (manifest_generated m) < 2 ^ 53"
proof -
  note ok = manifest_chain_ok [OF m q]
  have "\<forall>x \<in> set (manifest_generated m). unat (GeneratedDmaRequirement.allocationBytes x) < 2 ^ 50"
    using ok by (auto simp: manifest_generated_def generated_buffer_def)
  then have t: "total_bytes (manifest_generated m) < 2 ^ 53"
    using total_bytes_bound [of "manifest_generated m"] by (simp add: manifest_generated_def manifest_buffers_def)
  have l5: "length manifest_buffers = 5" by (simp add: manifest_buffers_def)
  have z: "length (generated BootPreparationPlan0) = 10" "totalGeneratedAllocationBytes BootPreparationPlan0 = 0"
    by (simp_all add: BootPreparationPlan0_def kGeneratedDmaRequirementCount_def)
  show ?thesis
    using manifest_chain [OF ok, of 0 BootPreparationPlan0] t l5 z
    by (auto simp: Let_def simp flip: manifest_generated_def)
qed

lemma PlanGa10xBootPreparation_cases:
  fixes v boundary
  defines "i \<equiv> profile_inputs v boundary"
  defines "p \<equiv> BuildGa10xPrototypeProfile_at v boundary"
  defines "fb \<equiv> unat (ManifestInputs.fbSize i)"
  assumes ok: "Profile.status p = ProfileStatus.Ok"
  shows "\<exists>plan. PlanGa10xBootPreparation p = Some plan \<and>
    generated plan = manifest_generated (manifest p) @ map log_buffer log_buffers \<and>
    (\<forall>q \<in> set (generated plan). buffer_ok q) \<and>
    unat (totalGeneratedAllocationBytes plan) = total_bytes (generated plan) \<and>
    unat (reusedSignatureAllocationBytes plan) = round_page (unat (gspSignatureBytes i)) \<and>
    unat (reusedBootloaderAllocationBytes plan) = round_page (unat (gspBootloaderBytes i)) \<and>
    BootPreparationPlan.status plan =
      (if unat (gspFwRsvdStart (wpr (manifest p))) < round_page (unat (ManifestInputs.frtsFwsecImageBytes i)) +
          round_page (unat (ManifestInputs.sec2BooterImageBytes i)) then FramebufferScratchUnderflow
       else if unat boundary = fb - 0x100000 \<and> 2 ^ 17 dvd fb \<and> fb < 2 ^ 44 + 0x200000 then Ok
       else FrtsPlacementMismatch) \<and>
    (BootPreparationPlan.status plan = Ok \<longrightarrow> scratch_ok i (manifest p) (framebuffer plan))"
proof -
  let ?m = "manifest p"
  have m: "manifest_ok i ?m" and fb: "0x8800000 < fb" and bd: "unat boundary \<le> fb - 0x100000"
    and img: "ManifestInputs.frtsFwsecImageBytes i \<noteq> 0" "ManifestInputs.sec2BooterImageBytes i \<noteq> 0"
    using profile_ok [OF ok [unfolded p_def]]
    by (simp_all add: p_def i_def fb_def profile_inputs_def Let_def)
  have q: "ManifestInputs.queueBytes i = kDefaultQueueBytes" by (simp add: i_def profile_inputs_def Let_def)
  note z = BootPreparationPlan0_def kGeneratedDmaRequirementCount_def
  obtain o1 where o1: "AddManifestRequirements BootPreparationPlan0 0 ?m manifest_buffers = (True, o1)"
    "generated o1 = manifest_generated ?m @ drop 5 (generated BootPreparationPlan0)"
    "unat (totalGeneratedAllocationBytes o1) = total_bytes (manifest_generated ?m)"
    "\<forall>x \<in> set (manifest_generated ?m). buffer_ok x" "total_bytes (manifest_generated ?m) < 2 ^ 53"
    using manifest_run [OF m q] by blast
  have l5: "length (manifest_generated ?m) = 5" by (simp add: manifest_generated_def manifest_buffers_def)
  obtain o2 where o2: "AddLogRequirements o1 5 log_buffers = (True, o2)"
    "generated o2 = take 5 (generated o1) @ map log_buffer log_buffers @ drop 10 (generated o1)"
    "unat (totalGeneratedAllocationBytes o2) = unat (totalGeneratedAllocationBytes o1) + 5 * 0x10000"
    using log_requirements [of 5 log_buffers o1] o1 l5 by (auto simp: log_buffers_def z)
  have g2: "generated o2 = manifest_generated ?m @ map log_buffer log_buffers"
    using o2(2) o1(2) l5 by (simp add: z)
  have t2: "unat (totalGeneratedAllocationBytes o2) = total_bytes (generated o2)"
    unfolding g2 using o2(3) o1(3) by (simp add: total_bytes_def log_buffers_def log_buffer_def)
  have b2: "\<forall>x \<in> set (generated o2). buffer_ok x"
    unfolding g2 using o1(4) by (auto simp: log_buffer_def buffer_ok_def)
  have len: "length (generated o2) = 10" unfolding g2 using l5 by (simp add: log_buffers_def)
  have lens: "length manifest_buffers = 5" "length log_buffers = 5"
    by (simp_all add: manifest_buffers_def log_buffers_def)
  have v: "BootManifest.valid ?m" using m by (simp add: manifest_ok_def)
  have run: "PlanGa10xBootPreparation p = PlanScratch o2 ?m"
    unfolding PlanGa10xBootPreparation_def Let_def lens o1(1) prod.case bool.case o2(1)
    using ok v len manifest_requirements(1) [OF m] by simp
  show ?thesis
    using PlanScratch_cases [OF m [unfolded i_def] fb [unfolded fb_def i_def] bd [unfolded fb_def i_def]
        img [unfolded i_def], of o2] g2 t2 b2
    unfolding run i_def fb_def by (elim exE conjE, intro exI conjI) (assumption | simp only:)+
qed

text \<open>
  C9. Planning the memory of a boot. From any verified package whose profile is accepted, the plan lists
  exactly ten host buffers: the five of the manifest and the five 64 KiB log regions, each page sized and
  large enough, with the total being their sum without wrapping, and reuses the signature and the
  bootloader at their sizes in whole pages. What can still fail is only the room below
  the reserved framebuffer region and the FRTS placement, and the placement is right exactly when the
  reserved boundary was not lowered below the workspace and the framebuffer size is a multiple of 128 KiB.
  In an accepted plan the two scratch images are page aligned and adjacent, below the reserved region.
  The refusal of a lowered boundary is what the code does, not what it is meant to do: the FRTS command is computed from
  the framebuffer size while the planned FRTS region moves with the boundary, so the rebuild that
  \<open>docs/ARCHITECTURE.md\<close> and \<open>macos/Driver/RTXMacBootSession.cpp\<close> describe always ends in \<open>FrtsPlacementMismatch\<close>
  (\<open>lowered_boundary_refused\<close> in \<open>LiveCheck\<close> follows it from the live check).
\<close>

theorem PlanGa10xBootPreparation_profile:
  fixes v boundary
  defines "i \<equiv> profile_inputs v boundary"
  defines "p \<equiv> BuildGa10xPrototypeProfile_at v boundary"
  defines "fb \<equiv> unat (ManifestInputs.fbSize i)"
  assumes ok: "Profile.status p = ProfileStatus.Ok"
  shows "\<exists>plan. PlanGa10xBootPreparation p = Some plan \<and>
    generated plan = manifest_generated (manifest p) @ map log_buffer log_buffers \<and>
    (\<forall>q \<in> set (generated plan). buffer_ok q) \<and>
    unat (totalGeneratedAllocationBytes plan) = total_bytes (generated plan) \<and>
    unat (reusedSignatureAllocationBytes plan) = round_page (unat (gspSignatureBytes i)) \<and>
    unat (reusedBootloaderAllocationBytes plan) = round_page (unat (gspBootloaderBytes i)) \<and>
    BootPreparationPlan.status plan =
      (if unat (gspFwRsvdStart (wpr (manifest p))) < round_page (unat (ManifestInputs.frtsFwsecImageBytes i)) +
          round_page (unat (ManifestInputs.sec2BooterImageBytes i)) then FramebufferScratchUnderflow
       else if unat boundary = fb - 0x100000 \<and> 2 ^ 17 dvd fb \<and> fb < 2 ^ 44 + 0x200000 then Ok
       else FrtsPlacementMismatch) \<and>
    (BootPreparationPlan.status plan = Ok \<longrightarrow> scratch_ok i (manifest p) (framebuffer plan))"
  unfolding i_def fb_def p_def by (rule PlanGa10xBootPreparation_cases [OF ok [unfolded p_def]])

definition sample_view :: PackageView where
  "sample_view = \<lparr>PackageView.status = Package.ParseStatus.Ok,
     metadata = StaticMetadata0\<lparr>StaticMetadata.pci := \<lparr>vendor = 0x10DE, device = 0x2489, subsystemVendor = 0, subsystemDevice = 0\<rparr>,
       StaticMetadata.vramBytes := 0x10000000, StaticMetadata.gspAppVersion := 1, fwsecImemLoadSize := 0x100,
       fwsecDmemLoadSize := 0x100, sec2CodeSize := 0x100, sec2DataSize := 0x100\<rparr>,
     sections = map (\<lambda>(k, l). SectionRecord0\<lparr>SectionRecord.kind := k, SectionRecord.size' := l\<rparr>)
       [(GspFirmwareImage, 0x1800000), (GspFirmwareSignature, 0x1000), (SectionKind.GspBootloader, 0x2000),
        (SectionKind.FrtsFwsecImage, 0x3000), (SectionKind.Sec2BooterImage, 0x4800)],
     packageBytes = 0\<rparr>"

lemma sample_inputs:
  "profile_inputs sample_view b = \<lparr>ManifestInputs.fbSize = 0x10000000, vgaWorkspaceOffset = 0xFF00000,
     vbiosReservedOffset = b, wprEndMargin = 0, frtsSize = 0x100000, nonWprHeapSize = 0x100000,
     requestedWprHeapSize = 0x8100000, gspFirmwareImageBytes = 0x1800000, gspSignatureBytes = 0x1000,
     gspBootloaderBytes = 0x2000, frtsFwsecImageBytes = 0x3000, sec2BooterImageBytes = 0x4800,
     queueBytes = kDefaultQueueBytes\<rparr>"
  by (simp add: profile_inputs_def sample_view_def SectionBytes_def SectionRecord0_def StaticMetadata0_def profile_consts)

lemma sample_request:
  assumes "PlanWprLayout (wpr_inputs (profile_inputs sample_view b)) \<noteq> None"
  shows "manifest_request_ok (profile_inputs sample_view b)"
proof -
  obtain q where q: "PlanQueueMemory kDefaultQueueBytes kGspPageBytes kGspPteBytes = Some q" "unat (totalBytes q) \<le> 2 ^ 64 - 4096"
    by (simp add: PlanQueueMemory_def kDefaultQueueBytes_def kGspPageBytes_def kGspPteBytes_def RoundUp_def)
  obtain r where r: "PlanRadix3 0x1800000 = Some r" "unat (Radix3Layout.allocationBytes r) \<le> 2 ^ 64 - 4096"
    by (simp add: PlanRadix3_def CeilDiv_def kRadixPageBytes_def kRadixEntriesPerPage_def)
  have "\<forall>(k, d, l, dl) \<in> set (requests (profile_inputs sample_view b) q r). unat l \<le> 2 ^ 64 - 4096"
    using q r by (simp add: requests_def sample_inputs)
  then show ?thesis
    using assms q r unfolding manifest_request_ok_def by (simp add: sample_inputs)
qed

lemma sample_rsvd:
  "map_option gspFwRsvdStart (PlanWprLayout (wpr_inputs (profile_inputs sample_view 0xFF00000))) = Some 0x6200000"
  "map_option gspFwRsvdStart (PlanWprLayout (wpr_inputs (profile_inputs sample_view 0xFD00000))) = Some 0x6000000"
  by (simp_all add: PlanWprLayout_def wpr_inputs_def sample_inputs wpr_consts AlignDown_def
        GspWpr.AlignUp_def Sub_def)

lemma sample_profile:
  assumes b: "b = 0xFF00000 \<or> b = 0xFD00000"
  shows "Profile.status (BuildGa10xPrototypeProfile_at sample_view b) = ProfileStatus.Ok"
    and "manifest (BuildGa10xPrototypeProfile_at sample_view b) = PlanBootManifest (profile_inputs sample_view b)"
    and "wpr (PlanBootManifest (profile_inputs sample_view b)) = the (PlanWprLayout (wpr_inputs (profile_inputs sample_view b)))"
proof -
  have "PlanWprLayout (wpr_inputs (profile_inputs sample_view b)) \<noteq> None"
    using b sample_rsvd by auto
  then have m: "manifest_ok (profile_inputs sample_view b) (PlanBootManifest (profile_inputs sample_view b))"
    using sample_request PlanBootManifest_cases by meson
  then have v: "BootManifest.valid (PlanBootManifest (profile_inputs sample_view b))" by (simp add: manifest_ok_def)
  show "wpr (PlanBootManifest (profile_inputs sample_view b)) = the (PlanWprLayout (wpr_inputs (profile_inputs sample_view b)))"
    using m by (simp add: manifest_ok_def)
  have meta: "PackageView.status sample_view = Package.ParseStatus.Ok"
    "IsKnownRtx3060Ti (StaticMetadata.pci (PackageView.metadata sample_view))"
    "StaticMetadata.vramBytes (PackageView.metadata sample_view) = 0x10000000"
    "StaticMetadata.gspAppVersion (PackageView.metadata sample_view) = 1"
    "fwsecImemLoadSize (PackageView.metadata sample_view) = 0x100"
    "fwsecDmemLoadSize (PackageView.metadata sample_view) = 0x100"
    "sec2CodeSize (PackageView.metadata sample_view) = 0x100" "sec2DataSize (PackageView.metadata sample_view) = 0x100"
    by (simp_all add: sample_view_def IsKnownRtx3060Ti_def IsNvidia_def StaticMetadata0_def)
  have sec: "SectionBytes sample_view GspFirmwareImage = 0x1800000" "SectionBytes sample_view GspFirmwareSignature = 0x1000"
    "SectionBytes sample_view SectionKind.GspBootloader = 0x2000" "SectionBytes sample_view SectionKind.FrtsFwsecImage = 0x3000"
    "SectionBytes sample_view SectionKind.Sec2BooterImage = 0x4800"
    by (simp_all add: sample_view_def SectionBytes_def SectionRecord0_def)
  show "Profile.status (BuildGa10xPrototypeProfile_at sample_view b) = ProfileStatus.Ok"
    and "manifest (BuildGa10xPrototypeProfile_at sample_view b) = PlanBootManifest (profile_inputs sample_view b)"
    using b by (auto simp: BuildGa10xPrototypeProfile_at_def Let_def meta sec v FitsU32_def profile_consts)
qed

text \<open>With the boundary at the workspace the plan is accepted; lowered by 2 MiB, it is refused.\<close>

theorem PlanGa10xBootPreparation_witness:
  "(\<exists>plan. PlanGa10xBootPreparation (BuildGa10xPrototypeProfile_at sample_view 0xFF00000) = Some plan \<and>
      BootPreparationPlan.status plan = Ok \<and> frtsRegionOffset (framebuffer plan) = 0xFE00000) \<and>
    (\<exists>plan. PlanGa10xBootPreparation (BuildGa10xPrototypeProfile_at sample_view 0xFD00000) = Some plan \<and>
      BootPreparationPlan.status plan = FrtsPlacementMismatch)"
proof
  let ?p = "BuildGa10xPrototypeProfile_at sample_view 0xFF00000"
  have r: "gspFwRsvdStart (wpr (manifest ?p)) = 0x6200000" using sample_profile [of "0xFF00000"] sample_rsvd(1) by auto
  show "\<exists>plan. PlanGa10xBootPreparation ?p = Some plan \<and> BootPreparationPlan.status plan = Ok \<and>
      frtsRegionOffset (framebuffer plan) = 0xFE00000"
    using PlanGa10xBootPreparation_profile [OF sample_profile(1) [of "0xFF00000"]] unfolding r sample_inputs
    by (auto simp: scratch_ok_def word_unat_eq_iff)
  let ?q = "BuildGa10xPrototypeProfile_at sample_view 0xFD00000"
  have r: "gspFwRsvdStart (wpr (manifest ?q)) = 0x6000000" using sample_profile [of "0xFD00000"] sample_rsvd(2) by auto
  show "\<exists>plan. PlanGa10xBootPreparation ?q = Some plan \<and> BootPreparationPlan.status plan = FrtsPlacementMismatch"
    using PlanGa10xBootPreparation_profile [OF sample_profile(1) [of "0xFD00000"]] unfolding r sample_inputs
    by auto
qed

end
