(* ===== verification/BootResolve.thy ===== *)
theory BootResolve
  imports BootPrepare
begin

text \<open>
  The resolution of the boot memory (\<open>src/core/ga10x_boot_resolve.cpp\<close>): the driver presents the
  physical pages of the ten generated buffers and the summary of the staged package, and the resolver
  checks them against the plan and fills in the address graph of the boot. The lemmas follow the
  addresses on to the framebuffer staging of the manifest.
\<close>

section \<open>The data and the checks\<close>

record GeneratedPhysicalView =
  kind :: GeneratedBufferKind
  pageAddresses :: "u64 list"

datatype BootResolveStatus = Ok | BadProfile | BadPreparationPlan | BadStagedPackageSummary | WrongGeneratedCount
  | GeneratedKindMismatch | GeneratedPageCountMismatch | GeneratedPageAddressInvalid
  | GeneratedLinearLayoutRejected | PackageReuseMissing | PackageReuseMismatch

record ResolvedBootMemory =
  status :: BootResolveStatus
  addresses :: ResolvedAddresses
  libosRegions :: "LibosRegion list"
  generatedTotalPages :: u64

definition ResolvedAddresses0 :: ResolvedAddresses where
  "ResolvedAddresses0 = \<lparr>queueBacking = 0, ResolvedAddresses.cachedArguments = 0, ResolvedAddresses.libosInitArguments = 0,
     ResolvedAddresses.wprMetadata = 0, radix3FirmwareRoot = 0, firmwareSignature = 0, ResolvedAddresses.gspBootloader = 0,
     frtsFwsecImage = 0, sec2BooterImage = 0\<rparr>"

definition LibosRegion1 :: "string \<Rightarrow> u64 \<Rightarrow> u64 \<Rightarrow> LibosRegion" where
  "LibosRegion1 s a n = \<lparr>LibosRegion.id' = map of_char s, physicalAddress = a, LibosRegion.size' = n,
     LibosRegion.kind = 1, LibosRegion.location = 1\<rparr>"

definition ResolvedBootMemory0 :: ResolvedBootMemory where
  "ResolvedBootMemory0 = \<lparr>status = BadProfile, addresses = ResolvedAddresses0,
     libosRegions = replicate 6 (LibosRegion1 [] 0 0), generatedTotalPages = 0\<rparr>"

definition FindPackageEntry :: "ResolvedPackageDmaSummary \<Rightarrow> AllocationKind \<Rightarrow> ResolvedPackageDmaEntry option" where
  "FindPackageEntry s k = find (\<lambda>e. ResolvedPackageDmaEntry.kind e = k) (ResolvedPackageDmaSummary.allocations s)"

definition ValidPages :: "u64 list \<Rightarrow> bool" where
  "ValidPages pages \<longleftrightarrow> pages \<noteq> [] \<and> list_all (\<lambda>a. \<not> (a = 0 \<or> a mod kBootPreparePageBytes \<noteq> 0)) pages"

text \<open>The switch over the kind: where the base address of a buffer goes; \<open>None\<close> for a log too many.\<close>

fun StoreBase ::
    "GeneratedBufferKind \<Rightarrow> u64 \<Rightarrow> ResolvedAddresses \<times> u64 list \<times> nat \<Rightarrow> (ResolvedAddresses \<times> u64 list \<times> nat) option" where
  "StoreBase GeneratedBufferKind.QueueBacking b (a, ls, li) = Some (a\<lparr>queueBacking := b\<rparr>, ls, li)"
| "StoreBase GeneratedBufferKind.CachedArguments b (a, ls, li) = Some (a\<lparr>ResolvedAddresses.cachedArguments := b\<rparr>, ls, li)"
| "StoreBase GeneratedBufferKind.LibosInitArguments b (a, ls, li) = Some (a\<lparr>ResolvedAddresses.libosInitArguments := b\<rparr>, ls, li)"
| "StoreBase GeneratedBufferKind.WprMetadata b (a, ls, li) = Some (a\<lparr>ResolvedAddresses.wprMetadata := b\<rparr>, ls, li)"
| "StoreBase GeneratedBufferKind.Radix3Firmware b (a, ls, li) = Some (a\<lparr>radix3FirmwareRoot := b\<rparr>, ls, li)"
| "StoreBase k b (a, ls, li) = (if length ls \<le> li then None else Some (a, ls[li := b], Suc li))"

text \<open>The loop over the planned buffers. It returns whether it reached the end; otherwise the result is
  the one to return.\<close>

fun ResolveGenerated_loop ::
    "nat \<Rightarrow> GeneratedDmaRequirement list \<Rightarrow> GeneratedPhysicalView list \<Rightarrow> u64 list \<Rightarrow> nat \<Rightarrow> ResolvedBootMemory \<Rightarrow>
     (bool \<times> ResolvedBootMemory \<times> u64 list \<times> nat) option" where
  "ResolveGenerated_loop i [] views ls li out = Some (True, out, ls, li)"
| "ResolveGenerated_loop i (q # qs) views ls li out = do {
     a \<leftarrow> rd views i;
     if kind a \<noteq> GeneratedDmaRequirement.kind q
     then Some (False, out\<lparr>status := GeneratedKindMismatch\<rparr>, ls, li)
     else if GeneratedDmaRequirement.pageCount q = 0 \<or> SIZE_MAX < unat (GeneratedDmaRequirement.pageCount q) \<or>
       length (pageAddresses a) \<noteq> unat (GeneratedDmaRequirement.pageCount q)
     then Some (False, out\<lparr>status := GeneratedPageCountMismatch\<rparr>, ls, li)
     else if \<not> ValidPages (pageAddresses a)
     then Some (False, out\<lparr>status := GeneratedPageAddressInvalid\<rparr>, ls, li)
     else if GeneratedDmaRequirement.layout q = GeneratedDmaLayout.Linear \<and>
       \<not> IsLinearDmaPageList (pageAddresses a) kBootPreparePageBytes
     then Some (False, out\<lparr>status := GeneratedLinearLayoutRejected\<rparr>, ls, li)
     else if - 1 - GeneratedDmaRequirement.pageCount q < generatedTotalPages out
     then Some (False, out\<lparr>status := GeneratedPageCountMismatch\<rparr>, ls, li)
     else do {
       base \<leftarrow> rd (pageAddresses a) 0;
       let out = out\<lparr>generatedTotalPages := generatedTotalPages out + GeneratedDmaRequirement.pageCount q\<rparr>;
       case StoreBase (GeneratedDmaRequirement.kind q) base (addresses out, ls, li) of
         None \<Rightarrow> Some (False, out\<lparr>status := GeneratedKindMismatch\<rparr>, ls, li)
       | Some (as, ls, li) \<Rightarrow> ResolveGenerated_loop (Suc i) qs views ls li (out\<lparr>addresses := as\<rparr>) } }"

definition ResolveGa10xBootMemory ::
    "Profile \<Rightarrow> BootPreparationPlan \<Rightarrow> ResolvedPackageDmaSummary \<Rightarrow> GeneratedPhysicalView list \<Rightarrow>
     ResolvedBootMemory option" where
  "ResolveGa10xBootMemory p plan stagedPackage views =
     (let out = ResolvedBootMemory0
      in if Profile.status p \<noteq> ProfileStatus.Ok \<or> \<not> BootManifest.valid (manifest p)
      then Some (out\<lparr>status := BadProfile\<rparr>)
      else if BootPreparationPlan.status plan \<noteq> BootPreparationPlanStatus.Ok
      then Some (out\<lparr>status := BadPreparationPlan\<rparr>)
      else if ResolvedPackageDmaSummary.status stagedPackage \<noteq> DmaResolveStatus.Ok
      then Some (out\<lparr>status := BadStagedPackageSummary\<rparr>)
      else if length views \<noteq> length (generated plan) then Some (out\<lparr>status := WrongGeneratedCount\<rparr>)
      else do {
        (completed, out, logBases, logIndex) \<leftarrow>
          ResolveGenerated_loop 0 (generated plan) views (replicate kLibosLogRegionCount 0) 0 out;
        if \<not> completed then Some out
        else if logIndex \<noteq> length logBases then Some (out\<lparr>status := GeneratedKindMismatch\<rparr>)
        else case (FindPackageEntry stagedPackage FirmwareSignature, FindPackageEntry stagedPackage AllocationKind.GspBootloader) of
          (Some signature, Some bootloader) \<Rightarrow>
            if ResolvedPackageDmaEntry.layout signature \<noteq> DmaLayoutRequirement.Linear \<or>
              ResolvedPackageDmaEntry.layout bootloader \<noteq> DmaLayoutRequirement.Linear \<or>
              ResolvedPackageDmaEntry.baseAddress signature = 0 \<or> ResolvedPackageDmaEntry.baseAddress bootloader = 0 \<or>
              ResolvedPackageDmaEntry.baseAddress signature mod kBootPreparePageBytes \<noteq> 0 \<or>
              ResolvedPackageDmaEntry.baseAddress bootloader mod kBootPreparePageBytes \<noteq> 0 \<or>
              ResolvedPackageDmaEntry.allocationBytes signature \<noteq> reusedSignatureAllocationBytes plan \<or>
              ResolvedPackageDmaEntry.allocationBytes bootloader \<noteq> reusedBootloaderAllocationBytes plan
            then Some (out\<lparr>status := PackageReuseMismatch\<rparr>)
            else let a = (addresses out)\<lparr>firmwareSignature := ResolvedPackageDmaEntry.baseAddress signature,
                   ResolvedAddresses.gspBootloader := ResolvedPackageDmaEntry.baseAddress bootloader,
                   frtsFwsecImage := frtsFwsecOffset (framebuffer plan),
                   sec2BooterImage := sec2BooterOffset (framebuffer plan)\<rparr>
            in Some (out\<lparr>addresses := a, libosRegions :=
                 [LibosRegion1 ''LOGINIT'' (logBases ! 0) kLibosLogRegionBytes,
                  LibosRegion1 ''LOGINTR'' (logBases ! 1) kLibosLogRegionBytes,
                  LibosRegion1 ''LOGRM'' (logBases ! 2) kLibosLogRegionBytes,
                  LibosRegion1 ''LOGMNOC'' (logBases ! 3) kLibosLogRegionBytes,
                  LibosRegion1 ''LOGKRNL'' (logBases ! 4) kLibosLogRegionBytes,
                  LibosRegion1 ''RMARGS'' (ResolvedAddresses.cachedArguments a) kBootPreparePageBytes],
                 status := Ok\<rparr>)
        | _ \<Rightarrow> Some (out\<lparr>status := PackageReuseMissing\<rparr>) })"

fun BootResolveStatusName :: "BootResolveStatus \<Rightarrow> string" where
  "BootResolveStatusName Ok = ''ok''"
| "BootResolveStatusName BadProfile = ''bad-profile''"
| "BootResolveStatusName BadPreparationPlan = ''bad-preparation-plan''"
| "BootResolveStatusName BadStagedPackageSummary = ''bad-staged-package-summary''"
| "BootResolveStatusName WrongGeneratedCount = ''wrong-generated-count''"
| "BootResolveStatusName GeneratedKindMismatch = ''generated-kind-mismatch''"
| "BootResolveStatusName GeneratedPageCountMismatch = ''generated-page-count-mismatch''"
| "BootResolveStatusName GeneratedPageAddressInvalid = ''generated-page-address-invalid''"
| "BootResolveStatusName GeneratedLinearLayoutRejected = ''generated-linear-layout-rejected''"
| "BootResolveStatusName PackageReuseMissing = ''package-reuse-missing''"
| "BootResolveStatusName PackageReuseMismatch = ''package-reuse-mismatch''"

lemma BootResolveStatusName_inj: "BootResolveStatusName s = BootResolveStatusName t \<longleftrightarrow> s = t"
  by (cases s; cases t; simp)

section \<open>One buffer\<close>

definition buffer_resolved :: "GeneratedDmaRequirement \<Rightarrow> GeneratedPhysicalView \<Rightarrow> bool" where
  "buffer_resolved q a \<longleftrightarrow> kind a = GeneratedDmaRequirement.kind q \<and>
     length (pageAddresses a) = unat (GeneratedDmaRequirement.pageCount q) \<and> pageAddresses a \<noteq> [] \<and>
     (\<forall>p \<in> set (pageAddresses a). 0 < unat p \<and> 4096 dvd unat p) \<and>
     (GeneratedDmaRequirement.layout q = GeneratedDmaLayout.Linear \<longrightarrow>
       (\<forall>i < length (pageAddresses a). unat (pageAddresses a ! i) = unat (hd (pageAddresses a)) + 4096 * i))"

lemma four_guards:
  "A \<or> B \<or> C \<or> D \<Longrightarrow> (if A then a else if B then b else if C then c else if D then d else e) \<in> {a, b, c, d}"
  by auto

lemma ValidPages_iff: "ValidPages pages \<longleftrightarrow> pages \<noteq> [] \<and> (\<forall>p \<in> set pages. 0 < unat p \<and> 4096 dvd unat p)"
  by (auto simp: ValidPages_def list_all_iff kBootPreparePageBytes_def word_mod_eq_0_iff unat_gt_0)

lemma prepare_page: "kBootPreparePageBytes = kPackageDmaPageBytes"
  by (simp add: kBootPreparePageBytes_def kPackageDmaPageBytes_def)

text \<open>A buffer that matches its plan is passed over, and any other one ends the resolution.\<close>

lemma ResolveGenerated_step:
  assumes "rd views i = Some a" and "\<not> - 1 - GeneratedDmaRequirement.pageCount q < generatedTotalPages out"
    and "StoreBase (GeneratedDmaRequirement.kind q) (hd (pageAddresses a)) (addresses out, ls, li) = Some (as, ls', li')"
  shows "buffer_resolved q a \<Longrightarrow> ResolveGenerated_loop i (q # qs) views ls li out =
      ResolveGenerated_loop (Suc i) qs views ls' li' (out\<lparr>generatedTotalPages := generatedTotalPages out +
        GeneratedDmaRequirement.pageCount q, addresses := as\<rparr>)"
    and "\<not> buffer_resolved q a \<Longrightarrow> \<exists>r. ResolveGenerated_loop i (q # qs) views ls li out = Some (False, r, ls, li) \<and> status r \<noteq> Ok"
proof -
  have max: "\<not> SIZE_MAX < unat (GeneratedDmaRequirement.pageCount q)" using unat_lt(4) [of "GeneratedDmaRequirement.pageCount q"] by simp
  have z: "GeneratedDmaRequirement.pageCount q = 0 \<longleftrightarrow> unat (GeneratedDmaRequirement.pageCount q) = 0" by (simp add: unat_eq_0)
  show "ResolveGenerated_loop i (q # qs) views ls li out =
      ResolveGenerated_loop (Suc i) qs views ls' li' (out\<lparr>generatedTotalPages := generatedTotalPages out +
        GeneratedDmaRequirement.pageCount q, addresses := as\<rparr>)" if b: "buffer_resolved q a"
  proof -
    have n: "GeneratedDmaRequirement.pageCount q \<noteq> 0"
      using b unfolding buffer_resolved_def z by (metis length_0_conv)
    have "4096 dvd unat (hd (pageAddresses a))" using b by (simp add: buffer_resolved_def)
    then have g: "kind a = GeneratedDmaRequirement.kind q"
      "length (pageAddresses a) = unat (GeneratedDmaRequirement.pageCount q)" "ValidPages (pageAddresses a)"
      "\<not> (GeneratedDmaRequirement.layout q = GeneratedDmaLayout.Linear \<and> \<not> IsLinearDmaPageList (pageAddresses a) kBootPreparePageBytes)"
      using b unfolding buffer_resolved_def ValidPages_iff z prepare_page IsLinearDmaPageList_iff by blast+
    have "pageAddresses a \<noteq> []" using b by (simp add: buffer_resolved_def)
    then have "rd (pageAddresses a) 0 = Some (hd (pageAddresses a))" by (simp add: rd_def hd_conv_nth)
    moreover have "addresses (out\<lparr>generatedTotalPages := t\<rparr>) = addresses out" for t by simp
    moreover note g n
    ultimately show ?thesis
      by (simp only: ResolveGenerated_loop.simps assms max bind.simps Let_def option.case prod.case simp_thms if_False)
  qed
  show "\<exists>r. ResolveGenerated_loop i (q # qs) views ls li out = Some (False, r, ls, li) \<and> status r \<noteq> Ok" if b: "\<not> buffer_resolved q a"
  proof -
    have "kind a \<noteq> GeneratedDmaRequirement.kind q \<or> (GeneratedDmaRequirement.pageCount q = 0 \<or>
        SIZE_MAX < unat (GeneratedDmaRequirement.pageCount q) \<or>
        length (pageAddresses a) \<noteq> unat (GeneratedDmaRequirement.pageCount q)) \<or> \<not> ValidPages (pageAddresses a) \<or>
      GeneratedDmaRequirement.layout q = GeneratedDmaLayout.Linear \<and> \<not> IsLinearDmaPageList (pageAddresses a) kBootPreparePageBytes"
      using b unfolding buffer_resolved_def ValidPages_iff z prepare_page IsLinearDmaPageList_iff by blast
    then have "ResolveGenerated_loop i (q # qs) views ls li out \<in>
        {Some (False, out\<lparr>status := GeneratedKindMismatch\<rparr>, ls, li), Some (False, out\<lparr>status := GeneratedPageCountMismatch\<rparr>, ls, li),
         Some (False, out\<lparr>status := GeneratedPageAddressInvalid\<rparr>, ls, li), Some (False, out\<lparr>status := GeneratedLinearLayoutRejected\<rparr>, ls, li)}"
      unfolding ResolveGenerated_loop.simps assms(1) bind.simps by (rule four_guards)
    then show ?thesis by auto
  qed
qed

text \<open>The whole loop, for a list of kinds that has a place for every base address.\<close>

fun StoreBases ::
    "GeneratedBufferKind list \<Rightarrow> u64 list \<Rightarrow> ResolvedAddresses \<times> u64 list \<times> nat \<Rightarrow> (ResolvedAddresses \<times> u64 list \<times> nat) option" where
  "StoreBases (k # ks) (b # bs) s = (case StoreBase k b s of None \<Rightarrow> None | Some s \<Rightarrow> StoreBases ks bs s)"
| "StoreBases ks bs s = Some s"

lemma ResolveGenerated_run:
  "length views = i + length qs \<Longrightarrow>
    StoreBases (map GeneratedDmaRequirement.kind qs) (map (\<lambda>a. hd (pageAddresses a)) (drop i views)) (addresses out, ls, li) =
      Some (as, ls', li') \<Longrightarrow>
    unat (generatedTotalPages out) + (\<Sum>q \<leftarrow> qs. unat (GeneratedDmaRequirement.pageCount q)) < 2 ^ 64 \<Longrightarrow>
    (if list_all2 buffer_resolved qs (drop i views)
     then \<exists>t. ResolveGenerated_loop i qs views ls li out = Some (True, out\<lparr>addresses := as, generatedTotalPages := t\<rparr>, ls', li') \<and>
       unat t = unat (generatedTotalPages out) + (\<Sum>q \<leftarrow> qs. unat (GeneratedDmaRequirement.pageCount q))
     else \<exists>r ls'' li''. ResolveGenerated_loop i qs views ls li out = Some (False, r, ls'', li'') \<and> status r \<noteq> Ok)"
proof (induction qs arbitrary: i out ls li)
  case (Cons q qs)
  let ?a = "views ! i"
  have i: "i < length views" using Cons.prems(1) by simp
  then have rd: "rd views i = Some ?a" and dr: "drop i views = ?a # drop (Suc i) views"
    by (simp_all add: rd_def Cons_nth_drop_Suc)
  obtain as1 ls1 li1 where st: "StoreBase (GeneratedDmaRequirement.kind q) (hd (pageAddresses ?a)) (addresses out, ls, li) = Some (as1, ls1, li1)"
    and rest: "StoreBases (map GeneratedDmaRequirement.kind qs) (map (\<lambda>a. hd (pageAddresses a)) (drop (Suc i) views)) (as1, ls1, li1) =
      Some (as, ls', li')"
    using Cons.prems(2) unfolding dr by (auto split: option.splits)
  have fit: "unat (generatedTotalPages out) + unat (GeneratedDmaRequirement.pageCount q) < 2 ^ 64" using Cons.prems(3) by simp
  then have g: "\<not> - 1 - GeneratedDmaRequirement.pageCount q < generatedTotalPages out" unfolding add_guard64 by simp
  let ?out = "out\<lparr>generatedTotalPages := generatedTotalPages out + GeneratedDmaRequirement.pageCount q, addresses := as1\<rparr>"
  have tot: "unat (generatedTotalPages ?out) = unat (generatedTotalPages out) + unat (GeneratedDmaRequirement.pageCount q)"
    using fit by (simp add: unat_add_nowrap)
  have ih: "if list_all2 buffer_resolved qs (drop (Suc i) views)
     then \<exists>t. ResolveGenerated_loop (Suc i) qs views ls1 li1 ?out = Some (True, ?out\<lparr>addresses := as, generatedTotalPages := t\<rparr>, ls', li') \<and>
       unat t = unat (generatedTotalPages ?out) + (\<Sum>q \<leftarrow> qs. unat (GeneratedDmaRequirement.pageCount q))
     else \<exists>r ls'' li''. ResolveGenerated_loop (Suc i) qs views ls1 li1 ?out = Some (False, r, ls'', li'') \<and> status r \<noteq> Ok"
    using Cons.prems(1,3) rest tot by (intro Cons.IH) simp_all
  show ?case
  proof (cases "buffer_resolved q ?a")
    case True
    then show ?thesis
      using ih tot unfolding dr ResolveGenerated_step(1) [OF rd g st True]
      by (auto simp del: ResolveGenerated_loop.simps split: if_splits)
  next
    case False
    then show ?thesis using ResolveGenerated_step(2) [OF rd g st False, of qs] unfolding dr
      by (auto simp del: ResolveGenerated_loop.simps)
  qed
next
  case Nil
  then show ?case by (auto intro!: exI [of _ "generatedTotalPages out"])
qed


section \<open>The resolution of a prepared boot\<close>

definition reuse_ok :: "BootPreparationPlan \<Rightarrow> ResolvedPackageDmaEntry \<Rightarrow> ResolvedPackageDmaEntry \<Rightarrow> bool" where
  "reuse_ok plan s b \<longleftrightarrow>
     ResolvedPackageDmaEntry.layout s = DmaLayoutRequirement.Linear \<and> ResolvedPackageDmaEntry.layout b = DmaLayoutRequirement.Linear \<and>
     0 < unat (ResolvedPackageDmaEntry.baseAddress s) \<and> 0 < unat (ResolvedPackageDmaEntry.baseAddress b) \<and>
     4096 dvd unat (ResolvedPackageDmaEntry.baseAddress s) \<and> 4096 dvd unat (ResolvedPackageDmaEntry.baseAddress b) \<and>
     ResolvedPackageDmaEntry.allocationBytes s = reusedSignatureAllocationBytes plan \<and>
     ResolvedPackageDmaEntry.allocationBytes b = reusedBootloaderAllocationBytes plan"

definition all_kinds :: "GeneratedBufferKind list" where
  "all_kinds = map fst manifest_buffers @ log_buffers"

definition base :: "GeneratedPhysicalView list \<Rightarrow> nat \<Rightarrow> u64" where
  "base views i = hd (pageAddresses (views ! i))"

text \<open>The ten kinds have a place each, and the logs fill their array in order.\<close>

definition generated_addresses :: "GeneratedPhysicalView list \<Rightarrow> ResolvedAddresses" where
  "generated_addresses views = ResolvedAddresses0\<lparr>queueBacking := base views 0,
     ResolvedAddresses.cachedArguments := base views 1, ResolvedAddresses.libosInitArguments := base views 2,
     ResolvedAddresses.wprMetadata := base views 3, radix3FirmwareRoot := base views 4\<rparr>"

lemma StoreBases_all:
  assumes "length views = 10"
  shows "StoreBases all_kinds (map (\<lambda>a. hd (pageAddresses a)) views) (ResolvedAddresses0, replicate 5 0, 0) =
    Some (generated_addresses views, map (base views) [5, 6, 7, 8, 9], 5)"
proof -
  obtain v0 v1 v2 v3 v4 v5 v6 v7 v8 v9 where v: "views = [v0, v1, v2, v3, v4, v5, v6, v7, v8, v9]"
    using assms by (auto simp: numeral_eq_Suc length_Suc_conv)
  show ?thesis
    unfolding v by (simp add: all_kinds_def manifest_buffers_def log_buffers_def generated_addresses_def base_def numeral_eq_Suc)
qed

lemma prepared_plan:
  assumes ok: "Profile.status (BuildGa10xPrototypeProfile_at v boundary) = ProfileStatus.Ok"
    and plan: "PlanGa10xBootPreparation (BuildGa10xPrototypeProfile_at v boundary) = Some plan"
  shows "map GeneratedDmaRequirement.kind (generated plan) = all_kinds" and "length (generated plan) = 10"
    and "(\<Sum>q \<leftarrow> generated plan. unat (GeneratedDmaRequirement.pageCount q)) * 4096 = unat (totalGeneratedAllocationBytes plan)"
proof -
  let ?p = "BuildGa10xPrototypeProfile_at v boundary"
  have g: "generated plan = manifest_generated (manifest ?p) @ map log_buffer log_buffers"
    and b: "\<forall>q \<in> set (generated plan). buffer_ok q"
    and t: "unat (totalGeneratedAllocationBytes plan) = total_bytes (generated plan)"
    using PlanGa10xBootPreparation_cases [OF ok] plan by auto
  show "map GeneratedDmaRequirement.kind (generated plan) = all_kinds" "length (generated plan) = 10"
    by (simp_all add: g manifest_generated_def all_kinds_def manifest_buffers_def log_buffers_def generated_buffer_def log_buffer_def)
  have "(\<Sum>q \<leftarrow> qs. unat (GeneratedDmaRequirement.pageCount q)) * 4096 = total_bytes qs" if "\<forall>q \<in> set qs. buffer_ok q" for qs
    using that by (induction qs) (auto simp: total_bytes_def buffer_ok_def algebra_simps)
  then show "(\<Sum>q \<leftarrow> generated plan. unat (GeneratedDmaRequirement.pageCount q)) * 4096 = unat (totalGeneratedAllocationBytes plan)"
    using b t by simp
qed

definition resolved_ok ::
    "BootPreparationPlan \<Rightarrow> ResolvedPackageDmaEntry \<Rightarrow> ResolvedPackageDmaEntry \<Rightarrow> GeneratedPhysicalView list \<Rightarrow>
     ResolvedBootMemory \<Rightarrow> bool" where
  "resolved_ok plan s b views r \<longleftrightarrow>
     addresses r = (generated_addresses views)\<lparr>firmwareSignature := ResolvedPackageDmaEntry.baseAddress s,
       ResolvedAddresses.gspBootloader := ResolvedPackageDmaEntry.baseAddress b,
       frtsFwsecImage := frtsFwsecOffset (framebuffer plan), sec2BooterImage := sec2BooterOffset (framebuffer plan)\<rparr> \<and>
     libosRegions r = map (\<lambda>(n, i). LibosRegion1 n (base views i) 0x10000)
       [(''LOGINIT'', 5), (''LOGINTR'', 6), (''LOGRM'', 7), (''LOGMNOC'', 8), (''LOGKRNL'', 9)] @
       [LibosRegion1 ''RMARGS'' (base views 1) 0x1000] \<and>
     unat (generatedTotalPages r) = (\<Sum>a \<leftarrow> views. length (pageAddresses a)) \<and>
     unat (generatedTotalPages r) * 4096 = unat (totalGeneratedAllocationBytes plan)"

lemma memory0: "addresses ResolvedBootMemory0 = ResolvedAddresses0" "generatedTotalPages ResolvedBootMemory0 = 0"
  by (simp_all add: ResolvedBootMemory0_def)

lemma resolved_pages:
  "list_all2 buffer_resolved qs views \<Longrightarrow>
    (\<Sum>q \<leftarrow> qs. unat (GeneratedDmaRequirement.pageCount q)) = (\<Sum>a \<leftarrow> views. length (pageAddresses a))"
  by (induction rule: list_all2_induct) (simp_all add: buffer_resolved_def)

lemma reuse_guards:
  "(ResolvedPackageDmaEntry.layout s \<noteq> DmaLayoutRequirement.Linear \<or>
     ResolvedPackageDmaEntry.layout b \<noteq> DmaLayoutRequirement.Linear \<or>
     ResolvedPackageDmaEntry.baseAddress s = 0 \<or> ResolvedPackageDmaEntry.baseAddress b = 0 \<or>
     ResolvedPackageDmaEntry.baseAddress s mod kBootPreparePageBytes \<noteq> 0 \<or>
     ResolvedPackageDmaEntry.baseAddress b mod kBootPreparePageBytes \<noteq> 0 \<or>
     ResolvedPackageDmaEntry.allocationBytes s \<noteq> reusedSignatureAllocationBytes plan \<or>
     ResolvedPackageDmaEntry.allocationBytes b \<noteq> reusedBootloaderAllocationBytes plan) \<longleftrightarrow> \<not> reuse_ok plan s b"
  by (auto simp: reuse_ok_def kBootPreparePageBytes_def word_mod_eq_0_iff unat_gt_0)

lemma ResolveGa10xBootMemory_cases:
  fixes v boundary
  defines "p \<equiv> BuildGa10xPrototypeProfile_at v boundary"
  assumes ok: "Profile.status p = ProfileStatus.Ok" and plan: "PlanGa10xBootPreparation p = Some plan"
    and accepted: "BootPreparationPlan.status plan = BootPreparationPlanStatus.Ok"
    and st: "ResolvedPackageDmaSummary.status st = DmaResolveStatus.Ok"
  shows "if list_all2 buffer_resolved (generated plan) views \<and> (\<exists>s b. FindPackageEntry st FirmwareSignature = Some s \<and>
      FindPackageEntry st AllocationKind.GspBootloader = Some b \<and> reuse_ok plan s b)
    then \<exists>s b r. FindPackageEntry st FirmwareSignature = Some s \<and> FindPackageEntry st AllocationKind.GspBootloader = Some b \<and>
      reuse_ok plan s b \<and> ResolveGa10xBootMemory p plan st views = Some r \<and> status r = Ok \<and> resolved_ok plan s b views r
    else \<exists>r. ResolveGa10xBootMemory p plan st views = Some r \<and> status r \<noteq> Ok"
proof -
  have valid: "BootManifest.valid (manifest p)" using profile_ok(1) [OF ok [unfolded p_def]] by (simp add: p_def manifest_ok_def)
  note pp = prepared_plan [OF ok [unfolded p_def] plan [unfolded p_def]]
  note unf = ResolveGa10xBootMemory_def [of p plan st views] Let_def
  have pre: "\<not> (Profile.status p \<noteq> ProfileStatus.Ok \<or> \<not> BootManifest.valid (manifest p))"
    "\<not> BootPreparationPlan.status plan \<noteq> BootPreparationPlanStatus.Ok"
    "\<not> ResolvedPackageDmaSummary.status st \<noteq> DmaResolveStatus.Ok"
    using ok valid accepted st by simp_all
  show ?thesis
  proof (cases "length views = 10")
    case False
    then have "length views \<noteq> length (generated plan)" using pp(2) by simp
    moreover from this have "\<not> list_all2 buffer_resolved (generated plan) views" by (auto dest: list_all2_lengthD)
    ultimately show ?thesis unfolding unf pre [THEN if_not_P] by simp
  next
    case True
    then have len: "\<not> length views \<noteq> length (generated plan)" using pp(2) by simp
    have fit: "(\<Sum>q \<leftarrow> generated plan. unat (GeneratedDmaRequirement.pageCount q)) < 2 ^ 64"
      using pp(3) unat_lt(4) [of "totalGeneratedAllocationBytes plan"] by linarith
    have run: "if list_all2 buffer_resolved (generated plan) views
      then \<exists>t. ResolveGenerated_loop 0 (generated plan) views (replicate kLibosLogRegionCount 0) 0 ResolvedBootMemory0 =
          Some (True, ResolvedBootMemory0\<lparr>addresses := generated_addresses views, generatedTotalPages := t\<rparr>,
            map (base views) [5, 6, 7, 8, 9], 5) \<and>
        unat t = (\<Sum>q \<leftarrow> generated plan. unat (GeneratedDmaRequirement.pageCount q))
      else \<exists>r ls li. ResolveGenerated_loop 0 (generated plan) views (replicate kLibosLogRegionCount 0) 0 ResolvedBootMemory0 =
          Some (False, r, ls, li) \<and> status r \<noteq> Ok"
    proof -
      have l: "length views = 0 + length (generated plan)" using True pp(2) by simp
      have sb: "StoreBases (map GeneratedDmaRequirement.kind (generated plan)) (map (\<lambda>a. hd (pageAddresses a)) (drop 0 views))
          (addresses ResolvedBootMemory0, replicate 5 0, 0) = Some (generated_addresses views, map (base views) [5, 6, 7, 8, 9], 5)"
        unfolding drop_0 memory0 pp(1) by (rule StoreBases_all [OF True])
      have f: "unat (generatedTotalPages ResolvedBootMemory0) +
          (\<Sum>q \<leftarrow> generated plan. unat (GeneratedDmaRequirement.pageCount q)) < 2 ^ 64" using fit by (simp add: memory0)
      show ?thesis
        using ResolveGenerated_run [OF l sb f] unfolding kLibosLogRegionCount_def drop_0 memory0 unat_0 add_0 .
    qed
    show ?thesis
    proof (cases "list_all2 buffer_resolved (generated plan) views")
      case False
      then obtain r ls li where "ResolveGenerated_loop 0 (generated plan) views (replicate kLibosLogRegionCount 0) 0 ResolvedBootMemory0 =
          Some (False, r, ls, li)" "status r \<noteq> Ok" using run by auto
      then show ?thesis using False unfolding unf pre [THEN if_not_P] len [THEN if_not_P] by simp
    next
      case all: True
      then obtain t where t: "ResolveGenerated_loop 0 (generated plan) views (replicate kLibosLogRegionCount 0) 0 ResolvedBootMemory0 =
          Some (True, ResolvedBootMemory0\<lparr>addresses := generated_addresses views, generatedTotalPages := t\<rparr>,
            map (base views) [5, 6, 7, 8, 9], 5)"
        "unat t = (\<Sum>q \<leftarrow> generated plan. unat (GeneratedDmaRequirement.pageCount q))" using run by auto
      show ?thesis
      proof (cases "FindPackageEntry st FirmwareSignature = None \<or> FindPackageEntry st AllocationKind.GspBootloader = None")
        case True
        then show ?thesis using t unfolding unf pre [THEN if_not_P] len [THEN if_not_P]
          by (auto split: option.split)
      next
        case False
        then obtain s b where sb: "FindPackageEntry st FirmwareSignature = Some s" "FindPackageEntry st AllocationKind.GspBootloader = Some b" by auto
        show ?thesis
          using t sb all resolved_pages [OF all] pp(3) unfolding unf pre [THEN if_not_P] len [THEN if_not_P] reuse_guards
          by (simp add: resolved_ok_def generated_addresses_def kLibosLogRegionBytes_def kBootPreparePageBytes_def)
      qed
    qed
  qed
qed

section \<open>On to the framebuffer staging\<close>

lemma scratch_staged:
  assumes m: "manifest_ok i m" and f: "scratch_ok i m f" and fb: "unat (ManifestInputs.fbSize i) < 2 ^ 44 + 0x200000"
    and a: "AddressesOk a" "frtsFwsecImage a = frtsFwsecOffset f" "sec2BooterImage a = sec2BooterOffset f"
  shows "FramebufferStagingPlan.valid (PlanFramebufferStaging m a)"
proof -
  note find = manifest_framebuffer [OF m]
  let ?fw = "requirement (AllocationKind.FrtsFwsecImage, Framebuffer, frtsFwsecImageBytes i, NoLayout)"
  let ?s2 = "requirement (AllocationKind.Sec2BooterImage, Framebuffer, sec2BooterImageBytes i, NoLayout)"
  have rsvd: "unat (gspFwRsvdStart (wpr m)) \<le> unat (WprLayout.fbSize (wpr m))" "WprLayout.fbSize (wpr m) = ManifestInputs.fbSize i"
    using m by (simp_all add: manifest_ok_def wpr_ok_def wpr_inputs_def)
  have sizes: "unat (AllocationRequirement.allocationBytes ?fw) = unat (frtsFwsecBytes f)"
    "unat (AllocationRequirement.allocationBytes ?s2) = unat (sec2BooterBytes f)"
    using requirement_pages [OF find(3)] requirement_pages [OF find(4)] f by (simp_all add: scratch_ok_def)
  have place: "4096 dvd unat (frtsFwsecOffset f)" "4096 dvd unat (sec2BooterOffset f)"
    "unat (frtsFwsecOffset f) + unat (frtsFwsecBytes f) = unat (sec2BooterOffset f)"
    "unat (sec2BooterOffset f) + unat (sec2BooterBytes f) = unat (gspFwRsvdStart (wpr m))"
    using f by (simp_all add: scratch_ok_def)
  have dom: "domain ?fw = Framebuffer" "domain ?s2 = Framebuffer" by (simp_all add: requirement_def)
  have le: "gspFwRsvdStart (wpr m) \<le> WprLayout.fbSize (wpr m)" using rsvd(1) by (simp add: word_le_nat_alt)
  have b: "unat (gspFwRsvdStart (wpr m)) \<le> 2 ^ 48" using rsvd fb by simp
  obtain x where x: "MakeFramebufferStageImage m AllocationKind.FrtsFwsecImage (frtsFwsecOffset f) = Some x"
    "FramebufferStageImage.vramOffset x = frtsFwsecOffset f" "FramebufferStageImage.allocationBytes x = AllocationRequirement.allocationBytes ?fw"
    using MakeFramebufferStageImage_defined [OF find(1,3) dom(1) place(1) le] place sizes b by auto
  obtain y where y: "MakeFramebufferStageImage m AllocationKind.Sec2BooterImage (sec2BooterOffset f) = Some y"
    "FramebufferStageImage.vramOffset y = sec2BooterOffset f" "FramebufferStageImage.allocationBytes y = AllocationRequirement.allocationBytes ?s2"
    using MakeFramebufferStageImage_defined [OF find(2,4) dom(2) place(2) le] place sizes b by auto
  have "unat (frtsFwsecOffset f + AllocationRequirement.allocationBytes ?fw) = unat (sec2BooterOffset f)"
    using place(3) sizes(1) unat_lt(4) [of "sec2BooterOffset f"] by (simp add: unat_add_nowrap)
  then have "\<not> RangesOverlap (FramebufferStageImage.vramOffset x) (FramebufferStageImage.allocationBytes x)
      (FramebufferStageImage.vramOffset y) (FramebufferStageImage.allocationBytes y)"
    by (simp add: RangesOverlap_def Let_def x y word_less_nat_alt)
  then show ?thesis
    using m a x y by (simp add: PlanFramebufferStaging_def Let_def manifest_ok_def)
qed

lemma addresses_resolved:
  assumes "list_all2 buffer_resolved qs views" "length qs = 10" "reuse_ok plan s b" "resolved_ok plan s b views r"
    and "scratch_ok i m (framebuffer plan)"
  shows "AddressesOk (addresses r)"
proof -
  have "4096 dvd unat (base views i)" if "i < 10" for i
  proof -
    have "buffer_resolved (qs ! i) (views ! i)" using assms(1,2) that by (simp add: list_all2_nthD)
    then show ?thesis by (simp add: buffer_resolved_def base_def)
  qed
  then show ?thesis
    using assms(3-5)
    by (simp add: AddressesOk_def PageAligned_iff resolved_ok_def generated_addresses_def reuse_ok_def scratch_ok_def)
qed

text \<open>
  C8. The whole cold boot memory, from the package to the staging of the scratch images. For an accepted
  profile and preparation plan and a resolved staging summary, whatever page lists the driver presents,
  the resolution is defined and succeeds exactly when there are ten buffers, each of the planned kind and
  page count with nonzero page-aligned addresses, contiguous where the plan is linear, and the reused
  signature and bootloader are linear, aligned and of the planned sizes. Every address is then the first
  page of the buffer of its kind, the log regions follow the planned order, the page total accounts for
  the whole planned allocation, the address graph passes the alignment check of the boot planner, and the
  framebuffer staging of the manifest accepts the two scratch places.
\<close>

theorem ResolveGa10xBootMemory_prepared:
  fixes v boundary
  defines "p \<equiv> BuildGa10xPrototypeProfile_at v boundary"
  assumes "Profile.status p = ProfileStatus.Ok" and "PlanGa10xBootPreparation p = Some plan"
    and "BootPreparationPlan.status plan = BootPreparationPlanStatus.Ok"
    and "ResolvedPackageDmaSummary.status st = DmaResolveStatus.Ok"
  shows "if list_all2 buffer_resolved (generated plan) views \<and> (\<exists>s b. FindPackageEntry st FirmwareSignature = Some s \<and>
      FindPackageEntry st AllocationKind.GspBootloader = Some b \<and> reuse_ok plan s b)
    then \<exists>s b r. FindPackageEntry st FirmwareSignature = Some s \<and> FindPackageEntry st AllocationKind.GspBootloader = Some b \<and>
      reuse_ok plan s b \<and> ResolveGa10xBootMemory p plan st views = Some r \<and> status r = Ok \<and> resolved_ok plan s b views r \<and>
      AddressesOk (addresses r) \<and> FramebufferStagingPlan.valid (PlanFramebufferStaging (manifest p) (addresses r))
    else \<exists>r. ResolveGa10xBootMemory p plan st views = Some r \<and> status r \<noteq> Ok"
proof -
  note cases = ResolveGa10xBootMemory_cases [OF assms(2,3) [unfolded p_def] assms(4,5), of views, folded p_def]
  have m: "manifest_ok (profile_inputs v boundary) (manifest p)" using profile_ok(1) [OF assms(2) [unfolded p_def]] by (simp add: p_def)
  have sc: "scratch_ok (profile_inputs v boundary) (manifest p) (framebuffer plan)"
    and fb: "unat (ManifestInputs.fbSize (profile_inputs v boundary)) < 2 ^ 44 + 0x200000"
    using PlanGa10xBootPreparation_cases [OF assms(2) [unfolded p_def]] assms(3,4) by (auto simp: p_def split: if_splits)
  have "AddressesOk (addresses r) \<and> FramebufferStagingPlan.valid (PlanFramebufferStaging (manifest p) (addresses r))"
    if "list_all2 buffer_resolved (generated plan) views" "reuse_ok plan s b" "resolved_ok plan s b views r" for s b r
  proof -
    have a: "AddressesOk (addresses r)"
      using addresses_resolved [OF that(1) _ that(2,3) sc] prepared_plan(2) [OF assms(2,3) [unfolded p_def]] by simp
    moreover have "FramebufferStagingPlan.valid (PlanFramebufferStaging (manifest p) (addresses r))"
      using that(3) by (intro scratch_staged [OF m sc fb a]) (simp_all add: resolved_ok_def)
    ultimately show ?thesis ..
  qed
  then show ?thesis using cases by (auto split: if_splits)
qed

section \<open>An example\<close>

definition page_run :: "u64 \<Rightarrow> nat \<Rightarrow> u64 list" where
  "page_run a n = map (\<lambda>k. a + of_nat k * 0x1000) [0 ..< n]"

definition sample_views :: "GeneratedPhysicalView list" where
  "sample_views = map (\<lambda>(k, ps). \<lparr>kind = k, pageAddresses = ps\<rparr>)
     [(GeneratedBufferKind.QueueBacking, replicate 129 0x100000), (GeneratedBufferKind.CachedArguments, [0x200000]),
      (GeneratedBufferKind.LibosInitArguments, [0x201000]), (GeneratedBufferKind.WprMetadata, [0x202000]),
      (GeneratedBufferKind.Radix3Firmware, replicate 6158 0x300000), (LogInit, page_run 0x400000 16),
      (LogIntr, page_run 0x410000 16), (LogRm, page_run 0x420000 16), (LogMnoc, page_run 0x430000 16),
      (LogKrnl, page_run 0x440000 16)]"

definition sample_staged :: ResolvedPackageDmaSummary where
  "sample_staged = \<lparr>ResolvedPackageDmaSummary.status = DmaResolveStatus.Ok,
     ResolvedPackageDmaSummary.allocations =
       [\<lparr>ResolvedPackageDmaEntry.kind = FirmwareSignature, layout = DmaLayoutRequirement.Linear, baseAddress = 0x500000,
          allocationBytes = 0x1000, pageCount = 1\<rparr>,
        \<lparr>ResolvedPackageDmaEntry.kind = AllocationKind.GspBootloader, layout = DmaLayoutRequirement.Linear, baseAddress = 0x600000,
          allocationBytes = 0x2000, pageCount = 2\<rparr>],
     ResolvedPackageDmaSummary.totalPages = 3\<rparr>"

lemma generated_resolved:
  assumes "requirement_ok (requirement (k, d, lb, dl))" and "length ps = (unat lb + 4095) div 4096"
    and "ps \<noteq> []" "\<forall>q \<in> set ps. 0 < unat q \<and> 4096 dvd unat q"
    and "l = GeneratedDmaLayout.Linear \<longrightarrow> (\<forall>i < length ps. unat (ps ! i) = unat (hd ps) + 4096 * i)"
  shows "buffer_resolved (generated_buffer g l (requirement (k, d, lb, dl))) \<lparr>kind = g, pageAddresses = ps\<rparr>"
  using assms requirement_pages [OF assms(1)]
  by (simp add: buffer_resolved_def generated_buffer_def kBootPreparePageBytes_def unat_div)

lemma log_resolved:
  assumes "a \<in> {0x400000, 0x410000, 0x420000, 0x430000, 0x440000}"
  shows "buffer_resolved (log_buffer k) \<lparr>kind = k, pageAddresses = page_run a 16\<rparr>"
proof -
  have u: "unat (page_run a 16 ! i) = unat a + 4096 * i" if "i < 16" for i
    using assms that by (auto simp: page_run_def unat_word_ariths unat_of_nat)
  have "page_run a 16 ! 0 = hd (page_run a 16)" by (simp add: page_run_def upt_rec)
  then have h: "hd (page_run a 16) = a" by (simp add: page_run_def)
  have "4096 dvd unat a" "0 < unat a" using assms by auto
  then have "0 < unat q \<and> 4096 dvd unat q" if "q \<in> set (page_run a 16)" for q
    using that u by (auto simp: in_set_conv_nth page_run_def)
  then show ?thesis using u h by (auto simp: buffer_resolved_def log_buffer_def) (simp_all add: page_run_def)
qed

abbreviation sample_p :: Profile where
  "sample_p \<equiv> BuildGa10xPrototypeProfile_at sample_view 0xFF00000"

lemma sample_p:
  "Profile.status sample_p = ProfileStatus.Ok"
  "manifest_ok (profile_inputs sample_view 0xFF00000) (manifest sample_p)"
  "gspFwRsvdStart (wpr (manifest sample_p)) = 0x6200000"
  "unat (Radix3Layout.allocationBytes (radix3 (manifest sample_p))) = 6158 * 4096"
  "totalBytes (queues (manifest sample_p)) = 0x81000"
proof -
  show ok: "Profile.status sample_p = ProfileStatus.Ok" and "gspFwRsvdStart (wpr (manifest sample_p)) = 0x6200000"
    using sample_profile [of "0xFF00000"] sample_rsvd(1) by auto
  show m: "manifest_ok (profile_inputs sample_view 0xFF00000) (manifest sample_p)" using profile_ok(1) [OF ok] .
  have "map_option Radix3Layout.allocationBytes (PlanRadix3 0x1800000) = Some (6158 * 4096)"
    by (simp add: PlanRadix3_def CeilDiv_def kRadixPageBytes_def kRadixEntriesPerPage_def)
  then show "unat (Radix3Layout.allocationBytes (radix3 (manifest sample_p))) = 6158 * 4096"
    using m by (auto simp: manifest_ok_def sample_inputs)
  show "totalBytes (queues (manifest sample_p)) = 0x81000"
    using manifest_sizes(1) [OF m] by (simp add: sample_inputs)
qed

lemma sample_resolved:
  assumes "PlanGa10xBootPreparation sample_p = Some plan"
  shows "list_all2 buffer_resolved (generated plan) sample_views"
proof -
  let ?i = "profile_inputs sample_view 0xFF00000" and ?m = "manifest sample_p"
  have g: "generated plan = manifest_generated ?m @ map log_buffer log_buffers"
    using PlanGa10xBootPreparation_cases [OF sample_p(1)] assms by auto
  note find = manifest_requirements(2-6) [OF sample_p(2)]
  have rq: "requirement_ok (requirement x)" if "x \<in> set (requests ?i (queues ?m) (radix3 ?m))" for x
    using sample_p(2) that by (simp add: manifest_ok_def)
  have ok: "requirement_ok (requirement (AllocationKind.QueueBacking, System, totalBytes (queues ?m), DmaLayoutRequirement.PageList))"
    "requirement_ok (requirement (AllocationKind.CachedArguments, System, 72, DmaLayoutRequirement.Linear))"
    "requirement_ok (requirement (AllocationKind.LibosInitArguments, System, 4096, DmaLayoutRequirement.Linear))"
    "requirement_ok (requirement (AllocationKind.WprMetadata, System, 256, DmaLayoutRequirement.Linear))"
    "requirement_ok (requirement (AllocationKind.Radix3Firmware, System, Radix3Layout.allocationBytes (radix3 ?m), DmaLayoutRequirement.PageList))"
    by (rule rq, simp add: requests_def)+
  have five: "list_all2 buffer_resolved (manifest_generated ?m) (take 5 sample_views)"
    unfolding manifest_generated_def manifest_buffers_def sample_views_def
    using generated_resolved [OF ok(1), of "replicate 129 0x100000" GeneratedDmaLayout.PageList]
      generated_resolved [OF ok(2), of "[0x200000]" GeneratedDmaLayout.Linear]
      generated_resolved [OF ok(3), of "[0x201000]" GeneratedDmaLayout.Linear]
      generated_resolved [OF ok(4), of "[0x202000]" GeneratedDmaLayout.Linear]
      generated_resolved [OF ok(5), of "replicate 6158 0x300000" GeneratedDmaLayout.PageList]
    by (simp add: find sample_p)
  have "list_all2 buffer_resolved (map log_buffer log_buffers) (drop 5 sample_views)"
    unfolding log_buffers_def sample_views_def using log_resolved by simp
  then have "list_all2 buffer_resolved (manifest_generated ?m @ map log_buffer log_buffers) (take 5 sample_views @ drop 5 sample_views)"
    using five by (intro list_all2_appendI)
  then show ?thesis unfolding g append_take_drop_id .
qed

theorem ResolveGa10xBootMemory_witness:
  "\<exists>plan r. PlanGa10xBootPreparation sample_p = Some plan \<and>
    ResolveGa10xBootMemory sample_p plan sample_staged sample_views = Some r \<and> status r = Ok \<and>
    radix3FirmwareRoot (addresses r) = 0x300000 \<and>
    FramebufferStagingPlan.valid (PlanFramebufferStaging (manifest sample_p) (addresses r))"
proof -
  obtain plan where plan: "PlanGa10xBootPreparation sample_p = Some plan" "BootPreparationPlan.status plan = BootPreparationPlanStatus.Ok"
    "unat (reusedSignatureAllocationBytes plan) = 0x1000" "unat (reusedBootloaderAllocationBytes plan) = 0x2000"
    using PlanGa10xBootPreparation_cases [OF sample_p(1)] unfolding sample_p(3) sample_inputs by auto
  have st: "ResolvedPackageDmaSummary.status sample_staged = DmaResolveStatus.Ok" by (simp add: sample_staged_def)
  have entries: "\<exists>s b. FindPackageEntry sample_staged FirmwareSignature = Some s \<and>
      FindPackageEntry sample_staged AllocationKind.GspBootloader = Some b \<and> reuse_ok plan s b"
    using plan(3,4) by (simp add: FindPackageEntry_def sample_staged_def reuse_ok_def word_unat_eq_iff)
  show ?thesis
    using ResolveGa10xBootMemory_prepared [OF sample_p(1) plan(1,2) st, of sample_views] sample_resolved [OF plan(1)] entries plan(1)
    by (auto simp: resolved_ok_def generated_addresses_def base_def sample_views_def)
qed

end
