(* ===== verification/BootArm.thy ===== *)
theory BootArm
  imports Sha256
begin

text \<open>
  The arming contract of an experimental boot (\<open>src/core/boot_arm.cpp\<close>): the facts of a cold session
  are checked, serialised with a nonce and hashed, and the operator has to answer with the digest, the
  confirmation constant and a separate write request. A digest or nonce of the source is an array of 32
  bytes; here it is a byte list, and the lemmas say where the length matters.
\<close>

section \<open>The contract\<close>

definition kBootArmContractVersion :: u32 where "kBootArmContractVersion = 1"
definition kBootArmNonceBytes :: nat where "kBootArmNonceBytes = 32"
definition kGa102BootPhaseCount :: u32 where "kGa102BootPhaseCount = 12"
definition kExperimentalBootArmConfirmation :: u64 where "kExperimentalBootArmConfirmation = 0x5254584D41434152"

definition kDomain :: "byte list" where
  "kDomain = map of_char ''RTXMAC-EXPERIMENTAL-BOOT-ARM-1''"

definition kPageBytes :: u64 where "kPageBytes = 0x1000"

datatype BootArmFailure = NoFailure | UnsupportedVersion | PackageDigestMissing | PackageDigestMismatch
  | PciIdentityMissing | PciIdentityMismatch | LiveBoundaryNotBound | BootSessionNotReady | AddressGraphInvalid
  | WrongBootPhaseCount | SequencePolicyRejected | RecoveryPolicyRejected | NonceMissing
  | ExperimentalWritesNotRequested | ConfirmationMismatch | ChallengeMismatch

record BootArmContext =
  version :: u32
  packageDigest :: "byte list"
  stagedPackageDigest :: "byte list"
  livePciIdentity :: u64
  packagePciIdentity :: u64
  effectiveBoundary :: u64
  queueBacking :: u64
  radix3FirmwareRoot :: u64
  bootPhaseCount :: u32
  liveBoundaryBound :: bool
  bootSessionReady :: bool
  sequencePolicyValid :: bool
  recoveryPolicyValid :: bool

record BootArmChallenge =
  valid :: bool
  failure :: BootArmFailure
  digest :: "byte list"

record BootArmRequest =
  context' :: BootArmContext
  nonce :: "byte list"
  challengeResponse :: "byte list"
  confirmation :: u64
  enableExperimentalWrites :: bool

record BootArmReport =
  accepted :: bool
  failure :: BootArmFailure
  expectedChallenge :: "byte list"

definition DigestPresent :: "byte list \<Rightarrow> bool" where
  "DigestPresent d \<longleftrightarrow> list_ex (\<lambda>b. b \<noteq> 0) d"

definition CheckContext :: "BootArmContext \<Rightarrow> BootArmFailure" where
  "CheckContext c =
     (if version c \<noteq> kBootArmContractVersion then UnsupportedVersion
      else if \<not> DigestPresent (packageDigest c) \<or> \<not> DigestPresent (stagedPackageDigest c) then PackageDigestMissing
      else if \<not> Sha256Equal (packageDigest c) (stagedPackageDigest c) then PackageDigestMismatch
      else if livePciIdentity c = 0 \<or> packagePciIdentity c = 0 then PciIdentityMissing
      else if livePciIdentity c \<noteq> packagePciIdentity c then PciIdentityMismatch
      else if \<not> liveBoundaryBound c \<or> effectiveBoundary c = 0 \<or> effectiveBoundary c mod kPageBytes \<noteq> 0
      then LiveBoundaryNotBound
      else if \<not> bootSessionReady c then BootSessionNotReady
      else if queueBacking c = 0 \<or> radix3FirmwareRoot c = 0 \<or> queueBacking c mod kPageBytes \<noteq> 0 \<or>
        radix3FirmwareRoot c mod kPageBytes \<noteq> 0 then AddressGraphInvalid
      else if bootPhaseCount c \<noteq> kGa102BootPhaseCount then WrongBootPhaseCount
      else if \<not> sequencePolicyValid c then SequencePolicyRejected
      else if \<not> recoveryPolicyValid c then RecoveryPolicyRejected
      else NoFailure)"

text \<open>Appending to the fixed buffer at the running offset; \<open>None\<close> would be a store outside it.\<close>

definition Append :: "byte list \<Rightarrow> byte list \<times> nat \<Rightarrow> (byte list \<times> nat) option" where
  "Append bs = (\<lambda>(out, offset). map_option (\<lambda>out. (out, offset + length bs)) (wr_seq out offset bs))"

definition AppendLe32 :: "u32 \<Rightarrow> byte list \<times> nat \<Rightarrow> (byte list \<times> nat) option" where
  "AppendLe32 v = Append (le_bytes 4 v)"

definition AppendLe64 :: "u64 \<Rightarrow> byte list \<times> nat \<Rightarrow> (byte list \<times> nat) option" where
  "AppendLe64 v = Append (le_bytes 8 v)"

definition NoncePresent :: "byte list \<Rightarrow> bool" where
  "NoncePresent n \<longleftrightarrow> length n = kBootArmNonceBytes \<and> list_ex (\<lambda>b. b \<noteq> 0) n"

definition BuildBootArmChallenge :: "BootArmContext \<Rightarrow> byte list \<Rightarrow> BootArmChallenge option" where
  "BuildBootArmChallenge c n =
     (let out = \<lparr>valid = False, failure = CheckContext c, digest = replicate 32 0\<rparr>
      in if BootArmChallenge.failure out \<noteq> NoFailure then Some out
      else if \<not> NoncePresent n then Some (out\<lparr>BootArmChallenge.failure := NonceMissing\<rparr>)
      else do {
        s \<leftarrow> Append kDomain (replicate 160 0, 0);
        s \<leftarrow> AppendLe32 (version c) s;
        s \<leftarrow> Append (packageDigest c) s;
        s \<leftarrow> AppendLe64 (livePciIdentity c) s;
        s \<leftarrow> AppendLe64 (packagePciIdentity c) s;
        s \<leftarrow> AppendLe64 (effectiveBoundary c) s;
        s \<leftarrow> AppendLe64 (queueBacking c) s;
        s \<leftarrow> AppendLe64 (radix3FirmwareRoot c) s;
        s \<leftarrow> AppendLe32 (bootPhaseCount c) s;
        s \<leftarrow> Append [0x0F] s;
        (serialized, offset) \<leftarrow> Append n s;
        bytes \<leftarrow> rd_seq serialized 0 offset;
        d \<leftarrow> Sha256 bytes;
        Some (out\<lparr>digest := d, valid := True, BootArmChallenge.failure := NoFailure\<rparr>) })"

definition CheckBootArmRequest :: "BootArmRequest \<Rightarrow> BootArmReport option" where
  "CheckBootArmRequest q = do {
     expected \<leftarrow> BuildBootArmChallenge (context' q) (nonce q);
     let out = \<lparr>accepted = False, failure = NoFailure, expectedChallenge = digest expected\<rparr>;
     Some (if \<not> valid expected then out\<lparr>BootArmReport.failure := BootArmChallenge.failure expected\<rparr>
       else if \<not> enableExperimentalWrites q then out\<lparr>BootArmReport.failure := ExperimentalWritesNotRequested\<rparr>
       else if confirmation q \<noteq> kExperimentalBootArmConfirmation
       then out\<lparr>BootArmReport.failure := ConfirmationMismatch\<rparr>
       else if \<not> Sha256Equal (challengeResponse q) (digest expected)
       then out\<lparr>BootArmReport.failure := ChallengeMismatch\<rparr>
       else out\<lparr>accepted := True, BootArmReport.failure := NoFailure\<rparr>) }"

fun BootArmFailureName :: "BootArmFailure \<Rightarrow> string" where
  "BootArmFailureName NoFailure = ''none''"
| "BootArmFailureName UnsupportedVersion = ''unsupported-version''"
| "BootArmFailureName PackageDigestMissing = ''package-digest-missing''"
| "BootArmFailureName PackageDigestMismatch = ''package-digest-mismatch''"
| "BootArmFailureName PciIdentityMissing = ''pci-identity-missing''"
| "BootArmFailureName PciIdentityMismatch = ''pci-identity-mismatch''"
| "BootArmFailureName LiveBoundaryNotBound = ''live-boundary-not-bound''"
| "BootArmFailureName BootSessionNotReady = ''boot-session-not-ready''"
| "BootArmFailureName AddressGraphInvalid = ''address-graph-invalid''"
| "BootArmFailureName WrongBootPhaseCount = ''wrong-boot-phase-count''"
| "BootArmFailureName SequencePolicyRejected = ''sequence-policy-rejected''"
| "BootArmFailureName RecoveryPolicyRejected = ''recovery-policy-rejected''"
| "BootArmFailureName NonceMissing = ''nonce-missing''"
| "BootArmFailureName ExperimentalWritesNotRequested = ''experimental-writes-not-requested''"
| "BootArmFailureName ConfirmationMismatch = ''confirmation-mismatch''"
| "BootArmFailureName ChallengeMismatch = ''challenge-mismatch''"

lemma BootArmFailureName_inj: "BootArmFailureName s = BootArmFailureName t \<longleftrightarrow> s = t"
  by (cases s; cases t; simp)

section \<open>The serialised context\<close>

definition arm_bytes :: "BootArmContext \<Rightarrow> byte list \<Rightarrow> byte list" where
  "arm_bytes c n = kDomain @ le_bytes 4 (version c) @ packageDigest c @ le_bytes 8 (livePciIdentity c) @
     le_bytes 8 (packagePciIdentity c) @ le_bytes 8 (effectiveBoundary c) @ le_bytes 8 (queueBacking c) @
     le_bytes 8 (radix3FirmwareRoot c) @ le_bytes 4 (bootPhaseCount c) @ [0x0F] @ n"

lemma length_kDomain [simp]: "length kDomain = 30"
  by (simp add: kDomain_def)

text \<open>The buffer with its first bytes filled grows by the appended bytes.\<close>

definition filled :: "byte list \<Rightarrow> byte list \<times> nat" where
  "filled xs = (xs @ replicate (160 - length xs) 0, length xs)"

lemma Append_filled:
  assumes "length xs + length bs \<le> 160"
  shows "Append bs (filled xs) = Some (filled (xs @ bs))"
proof -
  have "put (xs @ replicate (160 - length xs) 0) (length xs) bs = (xs @ bs) @ replicate (160 - length (xs @ bs)) (0 :: byte)"
    using assms by (simp add: put_def)
  then show ?thesis using assms by (simp add: Append_def filled_def mem_simps)
qed

lemma le_bytes_inj:
  "le_bytes 4 (v :: u32) = le_bytes 4 w \<longleftrightarrow> v = w" "le_bytes 8 (a :: u64) = le_bytes 8 b \<longleftrightarrow> a = b"
  by (metis le_join_32) (metis le_join_64)

text \<open>The encoding is injective on the fields it covers.\<close>

lemma arm_bytes_inj:
  assumes "length (packageDigest c) = length (packageDigest c')"
  shows "arm_bytes c n = arm_bytes c' n' \<longleftrightarrow>
    version c = version c' \<and> packageDigest c = packageDigest c' \<and> livePciIdentity c = livePciIdentity c' \<and>
    packagePciIdentity c = packagePciIdentity c' \<and> effectiveBoundary c = effectiveBoundary c' \<and>
    queueBacking c = queueBacking c' \<and> radix3FirmwareRoot c = radix3FirmwareRoot c' \<and>
    bootPhaseCount c = bootPhaseCount c' \<and> n = n'"
  using assms by (simp add: arm_bytes_def le_bytes_inj)

lemma challenge_bytes:
  assumes "length (packageDigest c) = 32" and "length n = 32"
  shows "do {
      s \<leftarrow> Append kDomain (replicate 160 0, 0);
      s \<leftarrow> AppendLe32 (version c) s;
      s \<leftarrow> Append (packageDigest c) s;
      s \<leftarrow> AppendLe64 (livePciIdentity c) s;
      s \<leftarrow> AppendLe64 (packagePciIdentity c) s;
      s \<leftarrow> AppendLe64 (effectiveBoundary c) s;
      s \<leftarrow> AppendLe64 (queueBacking c) s;
      s \<leftarrow> AppendLe64 (radix3FirmwareRoot c) s;
      s \<leftarrow> AppendLe32 (bootPhaseCount c) s;
      s \<leftarrow> Append [0x0F] s;
      (serialized, offset) \<leftarrow> Append n s;
      bytes \<leftarrow> rd_seq serialized 0 offset;
      k bytes } = k (arm_bytes c n)"
proof -
  have start: "(replicate 160 0, 0) = filled []" by (simp add: filled_def)
  have read: "(case filled xs of (b, i) \<Rightarrow> rd_seq b 0 i \<bind> k) = k xs" for xs
    by (simp add: filled_def mem_simps slice_def)
  have fit: "length kDomain + (4 + (32 + (8 + (8 + (8 + (8 + (8 + (4 + (1 + 32))))))))) \<le> 160" by simp
  show ?thesis
    unfolding start AppendLe32_def AppendLe64_def using assms by (simp add: Append_filled read arm_bytes_def)
qed

section \<open>The decision\<close>

definition nonzero :: "byte list \<Rightarrow> bool" where
  "nonzero d \<longleftrightarrow> (\<exists>b \<in> set d. b \<noteq> 0)"

text \<open>A context proves a cold session, and a request has the lengths of the arrays.\<close>

definition context_ok :: "BootArmContext \<Rightarrow> bool" where
  "context_ok c \<longleftrightarrow> version c = 1 \<and> nonzero (packageDigest c) \<and> stagedPackageDigest c = packageDigest c \<and>
     livePciIdentity c \<noteq> 0 \<and> packagePciIdentity c = livePciIdentity c \<and>
     liveBoundaryBound c \<and> 0 < unat (effectiveBoundary c) \<and> 4096 dvd unat (effectiveBoundary c) \<and>
     bootSessionReady c \<and> 0 < unat (queueBacking c) \<and> 4096 dvd unat (queueBacking c) \<and>
     0 < unat (radix3FirmwareRoot c) \<and> 4096 dvd unat (radix3FirmwareRoot c) \<and>
     bootPhaseCount c = 12 \<and> sequencePolicyValid c \<and> recoveryPolicyValid c"

definition request_shape :: "BootArmRequest \<Rightarrow> bool" where
  "request_shape q \<longleftrightarrow> length (packageDigest (context' q)) = 32 \<and> length (stagedPackageDigest (context' q)) = 32 \<and>
     length (nonce q) = 32 \<and> length (challengeResponse q) = 32"

lemma present_iff: "DigestPresent d \<longleftrightarrow> nonzero d" "NoncePresent n \<longleftrightarrow> length n = 32 \<and> nonzero n"
  by (simp_all add: DigestPresent_def NoncePresent_def nonzero_def list_ex_iff kBootArmNonceBytes_def)

lemma CheckContext_ok:
  assumes "length (packageDigest c) = 32" "length (stagedPackageDigest c) = 32"
  shows "CheckContext c = NoFailure \<longleftrightarrow> context_ok c"
proof -
  have e: "Sha256Equal (packageDigest c) (stagedPackageDigest c) \<longleftrightarrow> stagedPackageDigest c = packageDigest c"
    using assms by (auto simp: Sha256Equal_iff)
  have page: "v mod kPageBytes = 0 \<longleftrightarrow> 4096 dvd unat v" for v
    by (simp add: kPageBytes_def word_mod_eq_0_iff)
  have z: "v = 0 \<longleftrightarrow> \<not> 0 < unat v" for v :: u64 by (simp add: unat_gt_0)
  show ?thesis
    unfolding CheckContext_def context_ok_def present_iff e page kBootArmContractVersion_def kGa102BootPhaseCount_def
      z [of "effectiveBoundary c"] z [of "queueBacking c"] z [of "radix3FirmwareRoot c"]
    by auto
qed

lemma BuildBootArmChallenge_cases:
  assumes "length (packageDigest c) = 32" "length (stagedPackageDigest c) = 32" "length n = 32"
  shows "\<exists>r. BuildBootArmChallenge c n = Some r \<and> (valid r \<longleftrightarrow> context_ok c \<and> nonzero n) \<and>
    (valid r \<longleftrightarrow> BootArmChallenge.failure r = NoFailure) \<and> (valid r \<longrightarrow> digest r = sha256 (arm_bytes c n))"
proof -
  have sha: "Sha256 (arm_bytes c n) = Some (sha256 (arm_bytes c n))" by (rule Sha256_eq)
  show ?thesis
  proof (cases "context_ok c \<and> nonzero n")
    case True
    then have "CheckContext c = NoFailure" "NoncePresent n" using CheckContext_ok [OF assms(1,2)] assms(3) by (simp_all add: present_iff)
    then show ?thesis
      using True sha by (simp add: BuildBootArmChallenge_def Let_def challenge_bytes [OF assms(1,3)])
  next
    case False
    then show ?thesis using CheckContext_ok [OF assms(1,2)] assms(3)
      by (auto simp: BuildBootArmChallenge_def Let_def present_iff)
  qed
qed

lemma CheckBootArmRequest_cases:
  assumes "request_shape q"
  shows "\<exists>r. CheckBootArmRequest q = Some r \<and> (accepted r \<longleftrightarrow> BootArmReport.failure r = NoFailure) \<and>
    (accepted r \<longleftrightarrow> context_ok (context' q) \<and> nonzero (nonce q) \<and> enableExperimentalWrites q \<and>
      confirmation q = kExperimentalBootArmConfirmation \<and>
      challengeResponse q = sha256 (arm_bytes (context' q) (nonce q)))"
proof -
  obtain e where e: "BuildBootArmChallenge (context' q) (nonce q) = Some e"
    "valid e \<longleftrightarrow> context_ok (context' q) \<and> nonzero (nonce q)" "valid e \<longleftrightarrow> BootArmChallenge.failure e = NoFailure"
    "valid e \<longrightarrow> digest e = sha256 (arm_bytes (context' q) (nonce q))"
    using BuildBootArmChallenge_cases [of "context' q" "nonce q"] assms by (auto simp: request_shape_def)
  have "length (sha256 x) = 32" for x by simp
  then have "valid e \<Longrightarrow> Sha256Equal (challengeResponse q) (digest e) \<longleftrightarrow> challengeResponse q = sha256 (arm_bytes (context' q) (nonce q))"
    using e(4) assms by (simp add: request_shape_def Sha256Equal_iff)
  then show ?thesis using e by (auto simp: CheckBootArmRequest_def Let_def)
qed

lemma context_fields:
  assumes "context_ok c" "context_ok c'" and "length (packageDigest c) = length (packageDigest c')"
    and "arm_bytes c n = arm_bytes c' n'"
  shows "c = c' \<and> n = n'"
  using assms arm_bytes_inj [OF assms(3), of n n'] by (auto simp: context_ok_def intro: BootArmContext.equality)

text \<open>
  Arming. For every request of the right shape the check never stores outside its buffer, and it
  accepts exactly when the context proves a ready cold session, the nonce is not zero, the operator asked
  for experimental writes with the confirmation constant, and the response is the SHA-256 of the
  serialised context and nonce. A response is bound to its session: if it is accepted for two requests,
  they have the same context and the same nonce, unless it is a SHA-256 collision of two different
  messages of 143 bytes.
\<close>

theorem CheckBootArmRequest_binds:
  assumes "request_shape q" and "request_shape q'"
  shows "\<exists>r r'. CheckBootArmRequest q = Some r \<and> CheckBootArmRequest q' = Some r' \<and>
    (accepted r \<longleftrightarrow> BootArmReport.failure r = NoFailure) \<and>
    (accepted r \<longleftrightarrow> context_ok (context' q) \<and> nonzero (nonce q) \<and> enableExperimentalWrites q \<and>
      confirmation q = kExperimentalBootArmConfirmation \<and>
      challengeResponse q = sha256 (arm_bytes (context' q) (nonce q))) \<and>
    (accepted r \<and> accepted r' \<and> challengeResponse q' = challengeResponse q \<longrightarrow>
      context' q' = context' q \<and> nonce q' = nonce q \<or>
      (\<exists>x y. x \<noteq> y \<and> length x = 143 \<and> length y = 143 \<and> sha256 x = sha256 y))"
proof -
  let ?x = "arm_bytes (context' q) (nonce q)" and ?y = "arm_bytes (context' q') (nonce q')"
  obtain r where r: "CheckBootArmRequest q = Some r" "accepted r \<longleftrightarrow> BootArmReport.failure r = NoFailure"
    "accepted r \<longleftrightarrow> context_ok (context' q) \<and> nonzero (nonce q) \<and> enableExperimentalWrites q \<and>
      confirmation q = kExperimentalBootArmConfirmation \<and> challengeResponse q = sha256 ?x"
    using CheckBootArmRequest_cases [OF assms(1)] by blast
  obtain r' where r': "CheckBootArmRequest q' = Some r'"
    "accepted r' \<longrightarrow> context_ok (context' q') \<and> challengeResponse q' = sha256 ?y"
    using CheckBootArmRequest_cases [OF assms(2)] by blast
  have len: "length ?x = 143" "length ?y = 143" using assms by (simp_all add: request_shape_def arm_bytes_def)
  have "context' q' = context' q \<and> nonce q' = nonce q \<or> (\<exists>x y. x \<noteq> y \<and> length x = 143 \<and> length y = 143 \<and> sha256 x = sha256 y)"
    if "accepted r \<and> accepted r' \<and> challengeResponse q' = challengeResponse q"
  proof (cases "?x = ?y")
    case True
    then show ?thesis using context_fields [of "context' q" "context' q'" "nonce q" "nonce q'"] that r(3) r'(2) assms by (auto simp: request_shape_def)
  next
    case False
    moreover have "sha256 ?x = sha256 ?y" using that r(3) r'(2) by simp
    ultimately show ?thesis using len by blast
  qed
  then show ?thesis using r r' by blast
qed

definition sample_context :: BootArmContext where
  "sample_context = \<lparr>version = 1, packageDigest = replicate 32 7, stagedPackageDigest = replicate 32 7,
     livePciIdentity = 0x10DE2489, packagePciIdentity = 0x10DE2489, effectiveBoundary = 0xFF00000,
     queueBacking = 0x100000, radix3FirmwareRoot = 0x300000, bootPhaseCount = 12, liveBoundaryBound = True,
     bootSessionReady = True, sequencePolicyValid = True, recoveryPolicyValid = True\<rparr>"

definition sample_request :: BootArmRequest where
  "sample_request = \<lparr>context' = sample_context, nonce = replicate 32 1,
     challengeResponse = sha256 (arm_bytes sample_context (replicate 32 1)),
     confirmation = kExperimentalBootArmConfirmation, enableExperimentalWrites = True\<rparr>"

theorem CheckBootArmRequest_witness:
  "(\<exists>r. CheckBootArmRequest sample_request = Some r \<and> accepted r) \<and>
    (\<exists>r. CheckBootArmRequest (sample_request\<lparr>enableExperimentalWrites := False\<rparr>) = Some r \<and> \<not> accepted r)"
proof
  have shape: "request_shape (sample_request\<lparr>enableExperimentalWrites := w\<rparr>)" "request_shape sample_request" for w
    by (simp_all add: request_shape_def sample_request_def sample_context_def)
  have ok: "context_ok sample_context" "nonzero (replicate 32 1)"
    by (simp_all add: context_ok_def sample_context_def nonzero_def)
  show "\<exists>r. CheckBootArmRequest sample_request = Some r \<and> accepted r"
    using CheckBootArmRequest_binds [OF shape(2) shape(2)] ok by (auto simp: sample_request_def)
  show "\<exists>r. CheckBootArmRequest (sample_request\<lparr>enableExperimentalWrites := False\<rparr>) = Some r \<and> \<not> accepted r"
    using CheckBootArmRequest_binds [OF shape(1) shape(2), of False] by auto
qed

end
