(* ===== verification/ColdState.thy ===== *)
theory ColdState
  imports FalconExec Attempt
begin

text \<open>
  The cold hardware state a boot changes before its first reset, and the reset that ends a failed one:
  the PCI command register (\<open>include/rtxmac/pci_command.hpp\<close>, \<open>macos/Driver/RTXMacPciCommand.cpp\<close>), the
  system-memory flush page (\<open>src/core/sysmem_flush.cpp\<close>, \<open>macos/Driver/RTXMacSysmemFlush.cpp\<close>) and the
  recovery reset (\<open>macos/Driver/RTXMacReset.cpp\<close>). Constants of PCIDriverKit are arguments.
\<close>

section \<open>The PCI command register\<close>

definition kPciCommandIoSpace :: u16 where "kPciCommandIoSpace = 1"
definition kPciCommandMemorySpace :: u16 where "kPciCommandMemorySpace = 2"
definition kPciCommandBusMaster :: u16 where "kPciCommandBusMaster = 4"
definition kPciDmaWritableMask :: u16 where "kPciDmaWritableMask = kPciCommandMemorySpace OR kPciCommandBusMaster"

datatype PciCommandPlanStatus = Ok | NoChange | InvalidRequestedMask

record PciCommandTransition =
  status :: PciCommandPlanStatus
  oldValue :: u16
  newValue :: u16
  requestedSetMask :: u16
  changedMask :: u16
  rollbackValue :: u16

definition PlanPciCommandEnable :: "u16 \<Rightarrow> u16 \<Rightarrow> PciCommandTransition" where
  "PlanPciCommandEnable current requested =
     (let out = \<lparr>status = InvalidRequestedMask, oldValue = current, newValue = 0, requestedSetMask = requested,
            changedMask = 0, rollbackValue = current\<rparr>
      in if requested AND NOT kPciDmaWritableMask \<noteq> 0 then out\<lparr>status := InvalidRequestedMask\<rparr>
      else let new = current OR requested; changed = current XOR new
      in out\<lparr>newValue := new, changedMask := changed, status := (if changed = 0 then NoChange else Ok)\<rparr>)"

definition ValidatePciCommandTransition :: "PciCommandTransition \<Rightarrow> u16 \<Rightarrow> bool" where
  "ValidatePciCommandTransition plan observedCurrent \<longleftrightarrow>
     (status plan = Ok \<or> status plan = NoChange) \<and>
     observedCurrent = oldValue plan \<and> rollbackValue plan = oldValue plan \<and>
     requestedSetMask plan AND NOT kPciDmaWritableMask = 0 \<and>
     newValue plan = oldValue plan OR requestedSetMask plan \<and>
     changedMask plan AND NOT kPciDmaWritableMask = 0 \<and>
     oldValue plan XOR newValue plan = changedMask plan \<and>
     newValue plan AND NOT kPciDmaWritableMask = oldValue plan AND NOT kPciDmaWritableMask \<and>
     oldValue plan AND kPciDmaWritableMask AND NOT (newValue plan) = 0"

text \<open>\<open>cmd\<close> is \<open>kIOPCIConfigurationOffsetCommand\<close>.\<close>

definition ReadCommand :: "u64 \<Rightarrow> PciDevice \<Rightarrow> history \<Rightarrow> u16 \<times> history" where
  "ReadCommand cmd pci h = ConfigurationRead16 pci cmd h"

definition PlanShapeValid :: "PciCommandTransition \<Rightarrow> bool" where
  "PlanShapeValid plan \<longleftrightarrow> ValidatePciCommandTransition plan (oldValue plan)"

definition RTXMacApplyPciCommandTransition ::
    "u64 \<Rightarrow> PciDevice option \<Rightarrow> PciCommandTransition \<Rightarrow> bool \<Rightarrow> history \<Rightarrow> kern_return \<times> history" where
  "RTXMacApplyPciCommandTransition cmd pci plan writesEnabled h =
     (if \<not> writesEnabled then (kIOReturnNotPermitted, h)
      else case pci of None \<Rightarrow> (kIOReturnBadArgument, h)
      | Some dev \<Rightarrow>
        if \<not> PlanShapeValid plan then (kIOReturnBadArgument, h)
        else let (observed, h) = ReadCommand cmd dev h
        in if \<not> ValidatePciCommandTransition plan observed then (kIOReturnNotReady, h)
        else if status plan = NoChange then (kIOReturnSuccess, h)
        else let h = ConfigurationWrite16 cmd (newValue plan) h; (v, h) = ReadCommand cmd dev h
        in if v = newValue plan then (kIOReturnSuccess, h)
        else let h = ConfigurationWrite16 cmd (rollbackValue plan) h; (v, h) = ReadCommand cmd dev h
        in (if v = rollbackValue plan then kIOReturnIOError else kIOReturnError, h))"

definition RTXMacRollbackPciCommandTransition ::
    "u64 \<Rightarrow> PciDevice option \<Rightarrow> PciCommandTransition \<Rightarrow> bool \<Rightarrow> history \<Rightarrow> kern_return \<times> history" where
  "RTXMacRollbackPciCommandTransition cmd pci plan writesEnabled h =
     (if \<not> writesEnabled then (kIOReturnNotPermitted, h)
      else case pci of None \<Rightarrow> (kIOReturnBadArgument, h)
      | Some dev \<Rightarrow>
        if \<not> PlanShapeValid plan then (kIOReturnBadArgument, h)
        else let (observed, h) = ReadCommand cmd dev h
        in if observed = rollbackValue plan then (kIOReturnSuccess, h)
        else if observed \<noteq> newValue plan then (kIOReturnNotReady, h)
        else let h = ConfigurationWrite16 cmd (rollbackValue plan) h; (v, h) = ReadCommand cmd dev h
        in (if v = rollbackValue plan then kIOReturnSuccess else kIOReturnError, h))"

text \<open>A planned transition: what it may change.\<close>

lemma enable_bits:
  fixes cur req m :: u16
  assumes "req AND NOT m = 0"
  shows "(cur XOR (cur OR req)) AND NOT m = 0" and "(cur OR req) AND NOT m = cur AND NOT m"
    and "cur AND m AND NOT (cur OR req) = 0" and "cur XOR (cur OR req) = 0 \<longleftrightarrow> cur OR req = cur"
proof -
  have r: "bit m n" if "bit req n" for n
    using arg_cong [OF assms, of "\<lambda>w. bit w n"] that by (auto simp: bit_simps dest: bit_imp_le_length)
  show "(cur XOR (cur OR req)) AND NOT m = 0" "(cur OR req) AND NOT m = cur AND NOT m" "cur AND m AND NOT (cur OR req) = 0"
    by (rule bit_word_eqI; auto simp: bit_simps dest: r)+
  have "cur = (cur XOR (cur OR req)) XOR (cur OR req)" by (simp add: xor.assoc)
  then show "cur XOR (cur OR req) = 0 \<longleftrightarrow> cur OR req = cur" by auto
qed

lemma writable_mask: "kPciDmaWritableMask = 6"
  by (simp add: kPciDmaWritableMask_def kPciCommandMemorySpace_def kPciCommandBusMaster_def)

lemma PlanPciCommandEnable_valid:
  "ValidatePciCommandTransition (PlanPciCommandEnable cur req) v \<longleftrightarrow> req AND NOT kPciDmaWritableMask = 0 \<and> v = cur"
proof (cases "req AND NOT kPciDmaWritableMask = 0")
  case True
  then show ?thesis
    using enable_bits [OF True, of cur] by (auto simp: ValidatePciCommandTransition_def PlanPciCommandEnable_def Let_def)
next
  case False
  then show ?thesis by (simp add: ValidatePciCommandTransition_def PlanPciCommandEnable_def Let_def)
qed

lemma PlanPciCommandEnable_fields:
  assumes "req AND NOT kPciDmaWritableMask = 0"
  shows "newValue (PlanPciCommandEnable cur req) = cur OR req" "oldValue (PlanPciCommandEnable cur req) = cur"
    "rollbackValue (PlanPciCommandEnable cur req) = cur"
    "status (PlanPciCommandEnable cur req) = NoChange \<longleftrightarrow> cur OR req = cur"
    "PlanShapeValid (PlanPciCommandEnable cur req)"
  using assms enable_bits(4) [OF assms, of cur] PlanPciCommandEnable_valid [of cur req cur]
  by (simp_all add: PlanPciCommandEnable_def Let_def PlanShapeValid_def)

text \<open>A device whose command register holds the last value stored in it.\<close>

fun command_after :: "u64 \<Rightarrow> u16 \<Rightarrow> history \<Rightarrow> u16" where
  "command_after cmd v [] = v"
| "command_after cmd v (CfgWrite off w # es) = command_after cmd (if off = cmd then ucast w else v) es"
| "command_after cmd v (_ # es) = command_after cmd v es"

definition command_register :: "u64 \<Rightarrow> PciDevice \<Rightarrow> u16 \<Rightarrow> bool" where
  "command_register cmd dev v \<longleftrightarrow> (\<forall>h. ucast (cfg_load dev h cmd) = command_after cmd v h)"

lemma command_after_append [simp]: "command_after cmd v (xs @ ys) = command_after cmd (command_after cmd v xs) ys"
  by (induction cmd v xs rule: command_after.induct) auto

definition cfg_only :: "u64 \<Rightarrow> u16 set \<Rightarrow> history \<Rightarrow> bool" where
  "cfg_only cmd vs new \<longleftrightarrow> (\<forall>e \<in> set new. (\<exists>v. e = CfgRead cmd v) \<or> (\<exists>v \<in> vs. e = CfgWrite cmd (ucast v)))"

lemma ucast_ucast_16 [simp]: "ucast (ucast (v :: u16) :: u32) = v"
  by (rule bit_word_eqI) (auto simp: bit_simps dest: bit_imp_le_length)

lemma apply_cases:
  fixes req :: u16
  assumes req: "req AND NOT kPciDmaWritableMask = 0"
  shows "\<exists>new. snd (RTXMacApplyPciCommandTransition cmd (Some dev) (PlanPciCommandEnable cur req) w h) = h @ new \<and>
    cfg_only cmd {cur OR req, cur} new \<and>
    (fst (RTXMacApplyPciCommandTransition cmd (Some dev) (PlanPciCommandEnable cur req) w h) = kIOReturnSuccess \<longrightarrow>
      w \<and> new \<noteq> [] \<and> last new = CfgRead cmd (ucast (cur OR req))) \<and>
    (fst (RTXMacApplyPciCommandTransition cmd (Some dev) (PlanPciCommandEnable cur req) w h) = kIOReturnIOError \<longrightarrow>
      new \<noteq> [] \<and> last new = CfgRead cmd (ucast cur)) \<and>
    (\<not> w \<longrightarrow> new = [])"
  using PlanPciCommandEnable_fields [OF req, of cur] PlanPciCommandEnable_valid [of cur req] req
  by (simp add: RTXMacApplyPciCommandTransition_def ReadCommand_def ConfigurationRead16_def ConfigurationWrite16_def
      Let_def cfg_only_def split: if_splits)

lemma apply_store:
  assumes "CfgWrite cmd (ucast v) \<in> set (drop (length h) (snd (RTXMacApplyPciCommandTransition cmd (Some dev) plan w h)))"
  shows "w \<and> fst (ReadCommand cmd dev h) = oldValue plan"
  using assms
  by (auto simp: RTXMacApplyPciCommandTransition_def ReadCommand_def ConfigurationRead16_def ConfigurationWrite16_def
      ValidatePciCommandTransition_def Let_def split: if_splits)

lemma apply_rollback:
  fixes req :: u16
  assumes req: "req AND NOT kPciDmaWritableMask = 0" and dev: "command_register cmd dev v" and live: "command_after cmd v h = cur"
  shows "\<exists>h'. RTXMacApplyPciCommandTransition cmd (Some dev) (PlanPciCommandEnable cur req) True h = (kIOReturnSuccess, h') \<and>
    command_after cmd v h' = cur OR req \<and>
    (\<exists>h''. RTXMacRollbackPciCommandTransition cmd (Some dev) (PlanPciCommandEnable cur req) True h' = (kIOReturnSuccess, h'') \<and>
      command_after cmd v h'' = cur)"
proof -
  have rd: "ReadCommand cmd dev g = (command_after cmd v g, g @ [CfgRead cmd (ucast (command_after cmd v g))])" for g
    using dev by (simp add: ReadCommand_def ConfigurationRead16_def Let_def command_register_def)
  show ?thesis
    using PlanPciCommandEnable_fields [OF req, of cur] PlanPciCommandEnable_valid [of cur req] req live
    by (cases "cur OR req = cur")
      (simp_all add: RTXMacApplyPciCommandTransition_def RTXMacRollbackPciCommandTransition_def rd ConfigurationWrite16_def Let_def)
qed

text \<open>
  Enabling memory space and bus mastering. For every device and every requested mask, the planned
  transition is applied only for masks of these two bits; nothing is stored without the permission, or
  when the live register is not the one the plan was made for; each stored value is the original one with
  the requested bits set, or the original one; success means the requested value was read back and
  \<open>kIOReturnIOError\<close> that the original one was. On a device whose register keeps what is stored, applying
  succeeds and rolling back restores the register.
\<close>

theorem RTXMacApplyPciCommandTransition_safe:
  fixes req cur :: u16
  defines "plan \<equiv> PlanPciCommandEnable cur req"
  shows "if req AND NOT kPciDmaWritableMask = 0
    then (\<exists>kr new. RTXMacApplyPciCommandTransition cmd (Some dev) plan w h = (kr, h @ new) \<and>
        cfg_only cmd {cur OR req, cur} new \<and> (cur OR req) AND NOT kPciDmaWritableMask = cur AND NOT kPciDmaWritableMask \<and>
        (\<forall>v. CfgWrite cmd (ucast (v :: u16)) \<in> set new \<longrightarrow> w \<and> fst (ReadCommand cmd dev h) = cur) \<and>
        (kr = kIOReturnSuccess \<longrightarrow> w \<and> new \<noteq> [] \<and> last new = CfgRead cmd (ucast (cur OR req))) \<and>
        (kr = kIOReturnIOError \<longrightarrow> new \<noteq> [] \<and> last new = CfgRead cmd (ucast cur))) \<and>
      (\<forall>v. command_register cmd dev v \<and> command_after cmd v h = cur \<longrightarrow>
        (\<exists>h' h''. RTXMacApplyPciCommandTransition cmd (Some dev) plan True h = (kIOReturnSuccess, h') \<and>
          command_after cmd v h' = cur OR req \<and>
          RTXMacRollbackPciCommandTransition cmd (Some dev) plan True h' = (kIOReturnSuccess, h'') \<and>
          command_after cmd v h'' = cur))
    else \<forall>pci. snd (RTXMacApplyPciCommandTransition cmd pci plan w h) = h \<and>
      fst (RTXMacApplyPciCommandTransition cmd pci plan w h) \<noteq> kIOReturnSuccess"
proof (cases "req AND NOT kPciDmaWritableMask = 0")
  case True
  obtain kr h' where r: "RTXMacApplyPciCommandTransition cmd (Some dev) plan w h = (kr, h')" by (cases "RTXMacApplyPciCommandTransition cmd (Some dev) plan w h")
  obtain new where new: "h' = h @ new" "cfg_only cmd {cur OR req, cur} new"
    "kr = kIOReturnSuccess \<longrightarrow> w \<and> new \<noteq> [] \<and> last new = CfgRead cmd (ucast (cur OR req))"
    "kr = kIOReturnIOError \<longrightarrow> new \<noteq> [] \<and> last new = CfgRead cmd (ucast cur)"
    using apply_cases [OF True, of cmd dev cur w h] r by (auto simp: plan_def)
  have "w \<and> fst (ReadCommand cmd dev h) = cur" if "CfgWrite cmd (ucast (v :: u16)) \<in> set new" for v
    using apply_store [of cmd v h dev plan w] that new(1) r PlanPciCommandEnable_fields(2) [OF True] by (simp add: plan_def)
  then show ?thesis
    using True r new enable_bits(2) [OF True, of cur] apply_rollback [OF True, of cmd dev] unfolding plan_def by simp blast
next
  case False
  then show ?thesis using PlanPciCommandEnable_valid [of cur req]
    by (auto simp: plan_def RTXMacApplyPciCommandTransition_def PlanShapeValid_def split: option.splits)
qed

text \<open>A device that keeps its command register.\<close>

definition command_gpu :: PciDevice where
  "command_gpu = \<lparr>cfg_load = \<lambda>h off. ucast (command_after 4 0x0400 h), FindPCICapability = \<lambda>h c. (kIOReturnSuccess, 0x60),
     ResetDevice = \<lambda>h t. kIOReturnSuccess\<rparr>"

theorem RTXMacApplyPciCommandTransition_witness:
  "(\<exists>h'. RTXMacApplyPciCommandTransition 4 (Some command_gpu) (PlanPciCommandEnable 0x0400 6) True [] = (kIOReturnSuccess, h') \<and>
      command_after 4 0x0400 h' = 0x0406) \<and>
    snd (RTXMacApplyPciCommandTransition 4 (Some command_gpu) (PlanPciCommandEnable 0x0400 7) True []) = []"
proof
  have "command_register 4 command_gpu 0x0400" by (simp add: command_register_def command_gpu_def)
  moreover have "(6 :: u16) AND NOT kPciDmaWritableMask = 0" by (simp add: writable_mask)
  ultimately show "\<exists>h'. RTXMacApplyPciCommandTransition 4 (Some command_gpu) (PlanPciCommandEnable 0x0400 6) True [] = (kIOReturnSuccess, h') \<and>
      command_after 4 0x0400 h' = 0x0406"
    using RTXMacApplyPciCommandTransition_safe [where req = 6 and cur = "0x0400" and cmd = 4 and dev = command_gpu and w = True and h = "[]"] by fastforce
  have "(7 :: u16) AND NOT kPciDmaWritableMask \<noteq> 0" by (simp add: writable_mask)
  then show "snd (RTXMacApplyPciCommandTransition 4 (Some command_gpu) (PlanPciCommandEnable 0x0400 7) True []) = []"
    using RTXMacApplyPciCommandTransition_safe [where req = 7 and cur = "0x0400" and cmd = 4 and dev = command_gpu and w = True and h = "[]"] by simp
qed

section \<open>The flush page\<close>

definition kSysmemFlushAddrLoOffset :: u32 where "kSysmemFlushAddrLoOffset = 0x00100C10"
definition kSysmemFlushAddrHiOffset :: u32 where "kSysmemFlushAddrHiOffset = 0x00100C40"
definition kSysmemFlushAddrHiMask :: u32 where "kSysmemFlushAddrHiMask = 0x00FFFFFF"
definition kSysmemFlushPageBytes :: u64 where "kSysmemFlushPageBytes = 0x1000"

record SysmemFlushPagePlan =
  valid :: bool
  dmaAddress :: u64
  oldLo :: u32
  oldHi :: u32
  newLo :: u32
  newHi :: u32

definition encode_lo :: "u64 \<Rightarrow> u32" where
  "encode_lo a = ucast (drop_bit 8 a AND 0xFFFFFFFF)"

definition encode_hi :: "u64 \<Rightarrow> u32" where
  "encode_hi a = ucast (drop_bit 40 a AND ucast kSysmemFlushAddrHiMask)"

definition PlanSysmemFlushPage :: "u64 \<Rightarrow> u32 \<Rightarrow> u32 \<Rightarrow> SysmemFlushPagePlan" where
  "PlanSysmemFlushPage a lo hi =
     (let out = \<lparr>valid = False, dmaAddress = a, oldLo = lo, oldHi = hi, newLo = 0, newHi = 0\<rparr>
      in if a = 0 \<or> a mod kSysmemFlushPageBytes \<noteq> 0 then out
      else out\<lparr>newLo := encode_lo a, newHi := (hi AND NOT kSysmemFlushAddrHiMask) OR encode_hi a, valid := True\<rparr>)"

definition DecodeSysmemFlushPageAddress :: "u32 \<Rightarrow> u32 \<Rightarrow> u64" where
  "DecodeSysmemFlushPageAddress lo hi =
     push_bit 8 (ucast lo) OR push_bit 40 (ucast (hi AND kSysmemFlushAddrHiMask))"

definition ValidateSysmemFlushPagePlan :: "SysmemFlushPagePlan \<Rightarrow> bool" where
  "ValidateSysmemFlushPagePlan p \<longleftrightarrow>
     \<not> (\<not> valid p \<or> dmaAddress p = 0 \<or> dmaAddress p mod kSysmemFlushPageBytes \<noteq> 0) \<and>
     \<not> (newLo p \<noteq> encode_lo (dmaAddress p) \<or>
       newHi p \<noteq> (oldHi p AND NOT kSysmemFlushAddrHiMask) OR encode_hi (dmaAddress p)) \<and>
     (oldHi p XOR newHi p) AND NOT kSysmemFlushAddrHiMask = 0 \<and>
     DecodeSysmemFlushPageAddress (newLo p) (newHi p) = dmaAddress p"

text \<open>The encoding loses nothing of a page address.\<close>

lemma flush_roundtrip:
  assumes "4096 dvd unat a"
  shows "DecodeSysmemFlushPageAddress (encode_lo a) ((hi AND NOT kSysmemFlushAddrHiMask) OR encode_hi a) = a"
proof -
  have low: "\<not> bit a n" if "n < 12" for n
  proof -
    have "a AND mask 12 = 0" using assms by (simp add: and_mask_zero_iff)
    then have "bit (a AND mask 12) n = False" by simp
    then show ?thesis using that by (auto simp: bit_simps)
  qed
  have m: "kSysmemFlushAddrHiMask = mask 24" "(0xFFFFFFFF :: u64) = mask 32" "(ucast (mask 24 :: u32) :: u64) = mask 24"
    by (simp_all add: kSysmemFlushAddrHiMask_def mask_eq_exp_minus_1)
  show ?thesis
    unfolding DecodeSysmemFlushPageAddress_def encode_lo_def encode_hi_def m
  proof (rule bit_word_eqI)
    fix n assume n: "n < LENGTH(64)"
    show "bit (push_bit 8 (ucast (ucast (drop_bit 8 a AND mask 32) :: u32)) OR
        push_bit 40 (ucast (((hi AND NOT (mask 24)) OR ucast (drop_bit 40 a AND mask 24)) AND mask 24)) :: u64) n = bit a n"
    proof (cases "n < 12")
      case True
      then show ?thesis using low [of n] by (auto simp: bit_simps)
    next
      case False
      then have "8 + (n - 8) = n" "40 \<le> n \<Longrightarrow> 40 + (n - 40) = n" by simp_all
      then show ?thesis using False n by (cases "40 \<le> n") (auto simp: bit_simps)
    qed
  qed
qed

lemma PlanSysmemFlushPage_valid:
  "ValidateSysmemFlushPagePlan (PlanSysmemFlushPage a lo hi) \<longleftrightarrow> 0 < unat a \<and> 4096 dvd unat a"
proof (cases "a = 0 \<or> a mod kSysmemFlushPageBytes \<noteq> 0")
  case False
  then have d: "4096 dvd unat a" by (simp add: kSysmemFlushPageBytes_def word_mod_eq_0_iff)
  have "(hi XOR ((hi AND NOT kSysmemFlushAddrHiMask) OR encode_hi a)) AND NOT kSysmemFlushAddrHiMask = 0"
    by (rule bit_word_eqI) (auto simp: encode_hi_def bit_simps)
  then show ?thesis using False d flush_roundtrip [OF d]
    by (simp add: ValidateSysmemFlushPagePlan_def PlanSysmemFlushPage_def Let_def unat_gt_0)
next
  case True
  then show ?thesis
    by (auto simp: ValidateSysmemFlushPagePlan_def PlanSysmemFlushPage_def Let_def kSysmemFlushPageBytes_def word_mod_eq_0_iff)
qed

text \<open>The driver side. A null descriptor is \<open>None\<close>; releasing a mapping has no effect the model keeps.\<close>

definition kPageBytes :: u64 where "kPageBytes = 0x1000"

definition MapRegister :: "Aperture option \<Rightarrow> u64 \<Rightarrow> u32 \<Rightarrow> history \<Rightarrow> kern_return \<times> history" where
  "MapRegister bar0 bar0Size off h =
     (case bar0 of None \<Rightarrow> (kIOReturnBadArgument, h)
      | Some dev \<Rightarrow>
        if off AND 3 \<noteq> 0 \<or> bar0Size < ucast off + 4 then (kIOReturnNoResources, h)
        else let pageBase = ucast off AND NOT (kPageBytes - 1);
                 inPage = ucast off - pageBase;
                 mapLength = (if pageBase + kPageBytes \<le> bar0Size then kPageBytes else bar0Size - pageBase)
        in if mapLength < inPage + 4 then (kIOReturnNoResources, h)
        else let (kr, m) = CreateMapping dev h pageBase mapLength; h = h @ [Mapped pageBase mapLength]
        in if kr \<noteq> kIOReturnSuccess \<or> m = None then (if kr = kIOReturnSuccess then kIOReturnError else kr, h)
        else if m = Some 0 then (kIOReturnNoResources, h)
        else (kIOReturnSuccess, h))"

definition ReadRegister :: "Aperture option \<Rightarrow> u64 \<Rightarrow> u32 \<Rightarrow> history \<Rightarrow> kern_return \<times> u32 \<times> history" where
  "ReadRegister bar0 bar0Size off h =
     (let (kr, h) = MapRegister bar0 bar0Size off h
      in if kr \<noteq> kIOReturnSuccess then (kr, 0, h)
      else case bar0 of None \<Rightarrow> (kr, 0, h)
      | Some dev \<Rightarrow> let (v, h) = reg_read dev off h in (kIOReturnSuccess, v, h))"

definition WriteRegister :: "Aperture option \<Rightarrow> u64 \<Rightarrow> u32 \<Rightarrow> u32 \<Rightarrow> history \<Rightarrow> kern_return \<times> history" where
  "WriteRegister bar0 bar0Size off v h =
     (let (kr, h) = MapRegister bar0 bar0Size off h
      in if kr \<noteq> kIOReturnSuccess then (kr, h)
      else case bar0 of None \<Rightarrow> (kr, h)
      | Some dev \<Rightarrow> let h = reg_write off v h; (flush, h) = reg_read dev off h in (kIOReturnSuccess, h))"

definition ReadState :: "Aperture option \<Rightarrow> u64 \<Rightarrow> history \<Rightarrow> kern_return \<times> u32 \<times> u32 \<times> history" where
  "ReadState bar0 bar0Size h =
     (let (kr, lo, h) = ReadRegister bar0 bar0Size kSysmemFlushAddrLoOffset h
      in if kr \<noteq> kIOReturnSuccess then (kr, lo, 0, h)
      else let (kr, hi, h) = ReadRegister bar0 bar0Size kSysmemFlushAddrHiOffset h in (kr, lo, hi, h))"

definition WriteState :: "Aperture option \<Rightarrow> u64 \<Rightarrow> u32 \<Rightarrow> u32 \<Rightarrow> history \<Rightarrow> kern_return \<times> history" where
  "WriteState bar0 bar0Size lo hi h =
     (let (kr, h) = WriteRegister bar0 bar0Size kSysmemFlushAddrHiOffset hi h
      in if kr \<noteq> kIOReturnSuccess then (kr, h)
      else WriteRegister bar0 bar0Size kSysmemFlushAddrLoOffset lo h)"

definition StateEquals :: "u32 \<Rightarrow> u32 \<Rightarrow> u32 \<Rightarrow> u32 \<Rightarrow> bool" where
  "StateEquals lo hi expectedLo expectedHi \<longleftrightarrow> lo = expectedLo \<and> hi = expectedHi"

definition RestoreAndVerify :: "Aperture option \<Rightarrow> u64 \<Rightarrow> u32 \<Rightarrow> u32 \<Rightarrow> history \<Rightarrow> kern_return \<times> history" where
  "RestoreAndVerify bar0 bar0Size lo hi h =
     (let (kr, h) = WriteState bar0 bar0Size lo hi h
      in if kr \<noteq> kIOReturnSuccess then (kr, h)
      else let (kr, verifyLo, verifyHi, h) = ReadState bar0 bar0Size h
      in if kr \<noteq> kIOReturnSuccess then (kr, h)
      else (if StateEquals verifyLo verifyHi lo hi then kIOReturnSuccess else kIOReturnIOError, h))"

definition RTXMacProgramSysmemFlushPage ::
    "Aperture option \<Rightarrow> u64 \<Rightarrow> SysmemFlushPagePlan \<Rightarrow> bool \<Rightarrow> history \<Rightarrow> kern_return \<times> history" where
  "RTXMacProgramSysmemFlushPage bar0 bar0Size plan writesEnabled h =
     (if \<not> writesEnabled then (kIOReturnNotPermitted, h)
      else if bar0 = None \<or> \<not> ValidateSysmemFlushPagePlan plan then (kIOReturnBadArgument, h)
      else let (kr, liveLo, liveHi, h) = ReadState bar0 bar0Size h
      in if kr \<noteq> kIOReturnSuccess then (kr, h)
      else if \<not> StateEquals liveLo liveHi (oldLo plan) (oldHi plan) then (kIOReturnNotPermitted, h)
      else let (kr, h) = WriteState bar0 bar0Size (newLo plan) (newHi plan) h
      in if kr \<noteq> kIOReturnSuccess
      then let (_, h) = RestoreAndVerify bar0 bar0Size (oldLo plan) (oldHi plan) h in (kr, h)
      else let (kr, liveLo, liveHi, h) = ReadState bar0 bar0Size h
      in if kr = kIOReturnSuccess \<and> StateEquals liveLo liveHi (newLo plan) (newHi plan) then (kIOReturnSuccess, h)
      else let (rollbackKr, h) = RestoreAndVerify bar0 bar0Size (oldLo plan) (oldHi plan) h
      in if rollbackKr \<noteq> kIOReturnSuccess then (rollbackKr, h)
      else (if kr = kIOReturnSuccess then kIOReturnIOError else kr, h))"

definition RTXMacRollbackSysmemFlushPage ::
    "Aperture option \<Rightarrow> u64 \<Rightarrow> SysmemFlushPagePlan \<Rightarrow> bool \<Rightarrow> history \<Rightarrow> kern_return \<times> history" where
  "RTXMacRollbackSysmemFlushPage bar0 bar0Size plan writesEnabled h =
     (if \<not> writesEnabled then (kIOReturnNotPermitted, h)
      else if bar0 = None \<or> \<not> ValidateSysmemFlushPagePlan plan then (kIOReturnBadArgument, h)
      else let (kr, liveLo, liveHi, h) = ReadState bar0 bar0Size h
      in if kr \<noteq> kIOReturnSuccess then (kr, h)
      else if \<not> StateEquals liveLo liveHi (newLo plan) (newHi plan) then (kIOReturnNotPermitted, h)
      else RestoreAndVerify bar0 bar0Size (oldLo plan) (oldHi plan) h)"

text \<open>A device whose two flush registers keep what is stored in them, and a mapping that never fails.\<close>

fun flush_after :: "u32 \<times> u32 \<Rightarrow> history \<Rightarrow> u32 \<times> u32" where
  "flush_after g [] = g"
| "flush_after g (RegWrite off v # es) = flush_after
     (if off = kSysmemFlushAddrLoOffset then (v, snd g) else if off = kSysmemFlushAddrHiOffset then (fst g, v) else g) es"
| "flush_after g (_ # es) = flush_after g es"

lemma flush_after_append [simp]: "flush_after g (xs @ ys) = flush_after (flush_after g xs) ys"
  by (induction g xs rule: flush_after.induct) auto

definition flush_device :: "Aperture \<Rightarrow> u32 \<times> u32 \<Rightarrow> bool" where
  "flush_device dev g \<longleftrightarrow> (\<forall>h. load dev h kSysmemFlushAddrLoOffset = fst (flush_after g h) \<and>
     load dev h kSysmemFlushAddrHiOffset = snd (flush_after g h))"

definition flush_maps :: "Aperture \<Rightarrow> u64 \<Rightarrow> bool" where
  "flush_maps dev bar0Size \<longleftrightarrow> (\<forall>h. fst (MapRegister (Some dev) bar0Size kSysmemFlushAddrLoOffset h) = kIOReturnSuccess \<and>
     fst (MapRegister (Some dev) bar0Size kSysmemFlushAddrHiOffset h) = kIOReturnSuccess)"

text \<open>The only stores: one of the planned words to its register.\<close>

definition flush_store :: "u32 set \<Rightarrow> u32 set \<Rightarrow> Event option \<Rightarrow> u32 \<Rightarrow> u32 \<Rightarrow> bool" where
  "flush_store los his prev off v \<longleftrightarrow>
     off = kSysmemFlushAddrLoOffset \<and> v \<in> los \<or> off = kSysmemFlushAddrHiOffset \<and> v \<in> his"

lemma flush_offsets [simp]: "kSysmemFlushAddrLoOffset \<noteq> kSysmemFlushAddrHiOffset" "kSysmemFlushAddrHiOffset \<noteq> kSysmemFlushAddrLoOffset"
  by (simp_all add: kSysmemFlushAddrLoOffset_def kSysmemFlushAddrHiOffset_def)

lemma MapRegister_step:
  assumes "MapRegister bar0 n off h = (kr, h')"
  shows "flush_after g h' = flush_after g h" and "extends P h h' 0"
  using assms by (auto simp: MapRegister_def Let_def split: option.splits prod.splits if_splits)

lemma ReadState_step:
  assumes dev: "flush_device dev g" and r: "ReadState (Some dev) n h = (kr, lo, hi, h')"
  shows "flush_after g h' = flush_after g h" and "extends P h h' 0"
    and "kr = kIOReturnSuccess \<Longrightarrow> (lo, hi) = flush_after g h"
    and "flush_maps dev n \<Longrightarrow> kr = kIOReturnSuccess"
proof -
  let ?L = kSysmemFlushAddrLoOffset and ?H = kSysmemFlushAddrHiOffset
  have reg: "flush_after g h2 = flush_after g h1 \<and> extends P h1 h2 0 \<and>
      (k = kIOReturnSuccess \<longrightarrow> v = (if off = ?L then fst (flush_after g h1) else snd (flush_after g h1))) \<and>
      (flush_maps dev n \<longrightarrow> k = kIOReturnSuccess)"
    if "off = ?L \<or> off = ?H" "ReadRegister (Some dev) n off h1 = (k, v, h2)" for off h1 h2 k v
  proof -
    obtain k0 h0 where m: "MapRegister (Some dev) n off h1 = (k0, h0)" by force
    note st = MapRegister_step(1) [OF m, of g] MapRegister_step(2) [OF m, of P]
    have ok: "flush_maps dev n \<longrightarrow> k0 = kIOReturnSuccess" using that(1) m by (auto simp: flush_maps_def dest: spec [of _ h1])
    show ?thesis
    proof (cases "k0 = kIOReturnSuccess")
      case True
      then have "h2 = h0 @ [RegRead off v]" "v = load dev h0 off" "k = kIOReturnSuccess"
        using that(2) m by (auto simp: ReadRegister_def Let_def reg_read_def)
      then show ?thesis using st that(1) dev extends_trans [OF st(2), of "h0 @ [RegRead off v]" 0]
        by (auto simp: flush_device_def)
    next
      case False
      then show ?thesis using that(2) m st ok by (auto simp: ReadRegister_def Let_def)
    qed
  qed
  obtain k1 v1 h1 where a: "ReadRegister (Some dev) n ?L h = (k1, v1, h1)" by (cases "ReadRegister (Some dev) n ?L h")
  obtain k2 v2 h2 where b: "ReadRegister (Some dev) n ?H h1 = (k2, v2, h2)" by (cases "ReadRegister (Some dev) n ?H h1")
  note ra = reg [OF disjI1 [OF refl] a] and rb = reg [OF disjI2 [OF refl] b]
  have res: "(kr, lo, hi, h') = (if k1 \<noteq> kIOReturnSuccess then (k1, v1, 0, h1) else (k2, v1, v2, h2))"
    using r a b by (auto simp: ReadState_def Let_def)
  have tr: "extends P h h2 0" using ra rb extends_trans [of P h h1 0 h2 0] by simp
  show "flush_after g h' = flush_after g h" "extends P h h' 0" "kr = kIOReturnSuccess \<Longrightarrow> (lo, hi) = flush_after g h"
    "flush_maps dev n \<Longrightarrow> kr = kIOReturnSuccess"
    using res ra rb tr by (auto split: if_splits)
qed

lemma WriteRegister_step:
  assumes "flush_device dev g" and "WriteRegister (Some dev) n off v h = (kr, h')" and "\<forall>prev. P prev off v"
    and off: "off = kSysmemFlushAddrLoOffset \<or> off = kSysmemFlushAddrHiOffset"
  shows "flush_after g h' = (if kr \<noteq> kIOReturnSuccess then flush_after g h
      else if off = kSysmemFlushAddrLoOffset then (v, snd (flush_after g h)) else (fst (flush_after g h), v))"
    and "extends P h h' 0" and "flush_maps dev n \<Longrightarrow> kr = kIOReturnSuccess"
proof -
  obtain k0 h0 where m: "MapRegister (Some dev) n off h = (k0, h0)" by force
  note st = MapRegister_step(1) [OF m, of g] MapRegister_step(2) [OF m, of P]
  have ok: "flush_maps dev n \<longrightarrow> k0 = kIOReturnSuccess" using off m by (auto simp: flush_maps_def dest: spec [of _ h])
  have "kr = k0 \<and> (if k0 = kIOReturnSuccess then \<exists>x. h' = (h0 @ [RegWrite off v]) @ [RegRead off x] else h' = h0)"
    using assms(2) m by (auto simp: WriteRegister_def Let_def reg_read_def reg_write_def)
  moreover have "extends P h ((h0 @ [RegWrite off v]) @ [RegRead off x]) 0" for x
  proof -
    have "extends P h0 (h0 @ [RegWrite off v]) 0" using extends_event [where e = "RegWrite off v" and P = P and h = h0] assms(3) by simp
    then have "extends P h (h0 @ [RegWrite off v]) 0" using extends_trans [OF st(2)] by fastforce
    from extends_trans [OF this extends_read [where a = off and v = x]] show ?thesis by simp
  qed
  ultimately show "flush_after g h' = (if kr \<noteq> kIOReturnSuccess then flush_after g h
      else if off = kSysmemFlushAddrLoOffset then (v, snd (flush_after g h)) else (fst (flush_after g h), v))"
    and "extends P h h' 0" and "flush_maps dev n \<Longrightarrow> kr = kIOReturnSuccess"
    using st ok off by (auto split: if_splits)
qed

text \<open>A pair of stores that fails may have written the high word already.\<close>

lemma WriteState_step:
  assumes "flush_device dev g" and "WriteState (Some dev) n lo hi h = (kr, h')" and "lo \<in> los" "hi \<in> his"
  shows "extends (flush_store los his) h h' 0"
    and "kr = kIOReturnSuccess \<Longrightarrow> flush_after g h' = (lo, hi)"
    and "fst (flush_after g h') \<in> {fst (flush_after g h), lo}" "snd (flush_after g h') \<in> {snd (flush_after g h), hi}"
    and "flush_maps dev n \<Longrightarrow> kr = kIOReturnSuccess"
proof -
  let ?P = "flush_store los his"
  obtain k1 h1 where a: "WriteRegister (Some dev) n kSysmemFlushAddrHiOffset hi h = (k1, h1)" by force
  obtain k2 h2 where b: "WriteRegister (Some dev) n kSysmemFlushAddrLoOffset lo h1 = (k2, h2)" by force
  have p: "\<forall>prev. ?P prev kSysmemFlushAddrHiOffset hi" "\<forall>prev. ?P prev kSysmemFlushAddrLoOffset lo"
    using assms(3,4) by (simp_all add: flush_store_def)
  have off: "kSysmemFlushAddrHiOffset = kSysmemFlushAddrLoOffset \<or> kSysmemFlushAddrHiOffset = kSysmemFlushAddrHiOffset"
    "kSysmemFlushAddrLoOffset = kSysmemFlushAddrLoOffset \<or> kSysmemFlushAddrLoOffset = kSysmemFlushAddrHiOffset" by simp_all
  note ra = WriteRegister_step [where P = ?P, OF assms(1) a p(1) off(1)]
    and rb = WriteRegister_step [where P = ?P, OF assms(1) b p(2) off(2)]
  have res: "(kr, h') = (if k1 \<noteq> kIOReturnSuccess then (k1, h1) else (k2, h2))"
    using assms(2) a b by (auto simp: WriteState_def Let_def)
  have tr: "extends ?P h h2 0" using ra(2) rb(2) extends_trans [of ?P h h1 0 h2 0] by simp
  show "extends ?P h h' 0" "kr = kIOReturnSuccess \<Longrightarrow> flush_after g h' = (lo, hi)"
    "fst (flush_after g h') \<in> {fst (flush_after g h), lo}" "snd (flush_after g h') \<in> {snd (flush_after g h), hi}"
    "flush_maps dev n \<Longrightarrow> kr = kIOReturnSuccess"
    using res ra rb tr by (auto split: if_splits)
qed

lemma RestoreAndVerify_step:
  assumes "flush_device dev g" and "RestoreAndVerify (Some dev) n lo hi h = (kr, h')" and "lo \<in> los" "hi \<in> his"
  shows "extends (flush_store los his) h h' 0"
    and "kr = kIOReturnSuccess \<Longrightarrow> flush_after g h' = (lo, hi)"
    and "fst (flush_after g h') \<in> {fst (flush_after g h), lo}" "snd (flush_after g h') \<in> {snd (flush_after g h), hi}"
    and "flush_maps dev n \<Longrightarrow> kr = kIOReturnSuccess"
proof -
  obtain k1 h1 where a: "WriteState (Some dev) n lo hi h = (k1, h1)" by force
  obtain k2 v w h2 where b: "ReadState (Some dev) n h1 = (k2, v, w, h2)" by (cases "ReadState (Some dev) n h1")
  note ra = WriteState_step [OF assms(1) a assms(3,4)] and rb = ReadState_step [OF assms(1) b]
  have res: "(kr, h') = (if k1 \<noteq> kIOReturnSuccess then (k1, h1) else if k2 \<noteq> kIOReturnSuccess then (k2, h2)
      else (if v = lo \<and> w = hi then kIOReturnSuccess else kIOReturnIOError, h2))"
    using assms(2) a b by (auto simp: RestoreAndVerify_def Let_def StateEquals_def)
  have tr: "extends (flush_store los his) h h2 0" using ra(1) rb(2) extends_trans [of _ h h1 0 h2 0] by simp
  show "extends (flush_store los his) h h' 0" "kr = kIOReturnSuccess \<Longrightarrow> flush_after g h' = (lo, hi)"
    "fst (flush_after g h') \<in> {fst (flush_after g h), lo}" "snd (flush_after g h') \<in> {snd (flush_after g h), hi}"
    "flush_maps dev n \<Longrightarrow> kr = kIOReturnSuccess"
    using res ra rb tr by (auto split: if_splits)
qed

lemma Rollback_step:
  assumes dev: "flush_device dev g" and maps: "flush_maps dev n" and plan: "ValidateSysmemFlushPagePlan plan"
    and live: "flush_after g h = (newLo plan, newHi plan)"
  shows "\<exists>h'. RTXMacRollbackSysmemFlushPage (Some dev) n plan True h = (kIOReturnSuccess, h') \<and>
    flush_after g h' = (oldLo plan, oldHi plan)"
proof -
  obtain k1 v w h1 where a: "ReadState (Some dev) n h = (k1, v, w, h1)" by (cases "ReadState (Some dev) n h")
  obtain k2 h2 where b: "RestoreAndVerify (Some dev) n (oldLo plan) (oldHi plan) h1 = (k2, h2)" by force
  note ra = ReadState_step [OF dev a] and rb = RestoreAndVerify_step [OF dev b UNIV_I UNIV_I]
  show ?thesis
    using ra rb maps plan live a b by (auto simp: RTXMacRollbackSysmemFlushPage_def Let_def StateEquals_def)
qed

lemma Program_step:
  assumes dev: "flush_device dev g" and r: "RTXMacProgramSysmemFlushPage (Some dev) n plan w h = (kr, h')"
  shows "extends (flush_store {oldLo plan, newLo plan} {oldHi plan, newHi plan}) h h' 0"
    and "\<not> w \<or> \<not> ValidateSysmemFlushPagePlan plan \<Longrightarrow> h' = h \<and> kr \<noteq> kIOReturnSuccess"
    and "flush_after g h \<noteq> (oldLo plan, oldHi plan) \<Longrightarrow> flush_after g h' = flush_after g h \<and> kr \<noteq> kIOReturnSuccess"
    and "kr = kIOReturnSuccess \<Longrightarrow> flush_after g h' = (newLo plan, newHi plan)"
    and "flush_after g h = (oldLo plan, oldHi plan) \<Longrightarrow>
      fst (flush_after g h') \<in> {oldLo plan, newLo plan} \<and> snd (flush_after g h') \<in> {oldHi plan, newHi plan}"
    and "w \<Longrightarrow> ValidateSysmemFlushPagePlan plan \<Longrightarrow> flush_maps dev n \<Longrightarrow> flush_after g h = (oldLo plan, oldHi plan) \<Longrightarrow>
      kr = kIOReturnSuccess"
proof -
  let ?los = "{oldLo plan, newLo plan}" and ?his = "{oldHi plan, newHi plan}"
  have mem: "oldLo plan \<in> ?los" "newLo plan \<in> ?los" "oldHi plan \<in> ?his" "newHi plan \<in> ?his" by simp_all
  obtain k1 v1 w1 h1 where a: "ReadState (Some dev) n h = (k1, v1, w1, h1)" by (cases "ReadState (Some dev) n h")
  obtain k2 h2 where b: "WriteState (Some dev) n (newLo plan) (newHi plan) h1 = (k2, h2)" by force
  obtain k3 h3 where c: "RestoreAndVerify (Some dev) n (oldLo plan) (oldHi plan) h2 = (k3, h3)" by force
  obtain k4 v4 w4 h4 where d: "ReadState (Some dev) n h2 = (k4, v4, w4, h4)" by (cases "ReadState (Some dev) n h2")
  obtain k5 h5 where e: "RestoreAndVerify (Some dev) n (oldLo plan) (oldHi plan) h4 = (k5, h5)" by force
  note sa = ReadState_step [OF dev a] and sb = WriteState_step [OF dev b mem(2,4)] and sc = RestoreAndVerify_step [OF dev c mem(1,3)]
    and sd = ReadState_step [OF dev d] and se = RestoreAndVerify_step [OF dev e mem(1,3)]
  let ?P = "flush_store ?los ?his"
  have t1: "extends ?P h h1 0" by (rule sa(2))
  have t2: "extends ?P h h2 0" using extends_trans [OF t1 sb(1)] by simp
  have t4: "extends ?P h h4 0" using extends_trans [OF t2 sd(2) [of ?P]] by simp
  have t3: "extends ?P h h3 0" using extends_trans [OF t2 sc(1)] by simp
  have t5: "extends ?P h h5 0" using extends_trans [OF t4 se(1)] by simp
  note tr = t1 t2 t3 t4 t5
  have res: "(kr, h') = (if \<not> w then (kIOReturnNotPermitted, h)
      else if \<not> ValidateSysmemFlushPagePlan plan then (kIOReturnBadArgument, h)
      else if k1 \<noteq> kIOReturnSuccess then (k1, h1)
      else if (v1, w1) \<noteq> (oldLo plan, oldHi plan) then (kIOReturnNotPermitted, h1)
      else if k2 \<noteq> kIOReturnSuccess then (k2, h3)
      else if k4 = kIOReturnSuccess \<and> (v4, w4) = (newLo plan, newHi plan) then (kIOReturnSuccess, h4)
      else if k5 \<noteq> kIOReturnSuccess then (k5, h5)
      else (if k4 = kIOReturnSuccess then kIOReturnIOError else k4, h5))"
    unfolding r [symmetric] by (simp add: a b c d e RTXMacProgramSysmemFlushPage_def Let_def StateEquals_def)
  show "extends ?P h h' 0" using res tr by (simp split: if_split_asm)
  show "\<not> w \<or> \<not> ValidateSysmemFlushPagePlan plan \<Longrightarrow> h' = h \<and> kr \<noteq> kIOReturnSuccess" using res by (simp split: if_split_asm)
  show "flush_after g h' = flush_after g h \<and> kr \<noteq> kIOReturnSuccess" if "flush_after g h \<noteq> (oldLo plan, oldHi plan)"
    using res that sa(1,3) by (simp split: if_split_asm)
  show "kr = kIOReturnSuccess \<Longrightarrow> flush_after g h' = (newLo plan, newHi plan)"
    using res sd(1,3) by (simp split: if_split_asm)
  show "fst (flush_after g h') \<in> ?los \<and> snd (flush_after g h') \<in> ?his" if "flush_after g h = (oldLo plan, oldHi plan)"
  proof -
    have h2: "fst (flush_after g h2) \<in> ?los" "snd (flush_after g h2) \<in> ?his" using that sa(1) sb(3,4) by auto
    have h3: "fst (flush_after g h3) \<in> ?los" "snd (flush_after g h3) \<in> ?his" using h2 sc(3,4) by auto
    have h5: "fst (flush_after g h5) \<in> ?los" "snd (flush_after g h5) \<in> ?his" using h2 sd(1) se(3,4) by auto
    have "h' = h \<or> h' = h1 \<or> h' = h3 \<or> h' = h4 \<or> h' = h5" using res by (simp split: if_split_asm)
    then show ?thesis using that sa(1) sd(1) h2 h3 h5 by (elim disjE) simp_all
  qed
  show "kr = kIOReturnSuccess" if "w" "ValidateSysmemFlushPagePlan plan" "flush_maps dev n" "flush_after g h = (oldLo plan, oldHi plan)"
    using res that sa(3,4) sb(2,5) sd(1,3,4) by (simp split: if_split_asm)
qed

lemma Program_planned:
  fixes a :: u64 and lo hi :: u32
  defines "plan \<equiv> PlanSysmemFlushPage a lo hi"
  assumes dev: "flush_device dev g" and r: "RTXMacProgramSysmemFlushPage (Some dev) n plan w h = (kr, h')"
  shows "extends (flush_store {lo, newLo plan} {hi, newHi plan}) h h' 0"
    and "\<not> (w \<and> 0 < unat a \<and> 4096 dvd unat a) \<longrightarrow> h' = h \<and> kr \<noteq> kIOReturnSuccess"
    and "flush_after g h \<noteq> (lo, hi) \<longrightarrow> flush_after g h' = flush_after g h \<and> kr \<noteq> kIOReturnSuccess"
    and "kr = kIOReturnSuccess \<longrightarrow> flush_after g h' = (newLo plan, newHi plan) \<and>
      DecodeSysmemFlushPageAddress (newLo plan) (newHi plan) = a \<and>
      newHi plan AND NOT kSysmemFlushAddrHiMask = hi AND NOT kSysmemFlushAddrHiMask"
    and "flush_after g h = (lo, hi) \<longrightarrow> fst (flush_after g h') \<in> {lo, newLo plan} \<and> snd (flush_after g h') \<in> {hi, newHi plan}"
    and "w \<and> 0 < unat a \<and> 4096 dvd unat a \<and> flush_maps dev n \<and> flush_after g h = (lo, hi) \<longrightarrow> kr = kIOReturnSuccess \<and>
      (\<exists>h''. RTXMacRollbackSysmemFlushPage (Some dev) n plan True h' = (kIOReturnSuccess, h'') \<and> flush_after g h'' = (lo, hi))"
proof -
  have old: "oldLo plan = lo" "oldHi plan = hi" by (simp_all add: plan_def PlanSysmemFlushPage_def Let_def)
  note v = PlanSysmemFlushPage_valid [of a lo hi, folded plan_def]
  note p = Program_step [OF dev r, unfolded old v]
  show "extends (flush_store {lo, newLo plan} {hi, newHi plan}) h h' 0" by (rule p(1))
  show "\<not> (w \<and> 0 < unat a \<and> 4096 dvd unat a) \<longrightarrow> h' = h \<and> kr \<noteq> kIOReturnSuccess" using p(2) by blast
  show "flush_after g h \<noteq> (lo, hi) \<longrightarrow> flush_after g h' = flush_after g h \<and> kr \<noteq> kIOReturnSuccess" using p(3) by blast
  show "kr = kIOReturnSuccess \<longrightarrow> flush_after g h' = (newLo plan, newHi plan) \<and>
      DecodeSysmemFlushPageAddress (newLo plan) (newHi plan) = a \<and>
      newHi plan AND NOT kSysmemFlushAddrHiMask = hi AND NOT kSysmemFlushAddrHiMask"
  proof
    assume s: "kr = kIOReturnSuccess"
    then have "ValidateSysmemFlushPagePlan plan" using p(2) v by blast
    then have e: "DecodeSysmemFlushPageAddress (newLo plan) (newHi plan) = a" "newHi plan = (hi AND NOT kSysmemFlushAddrHiMask) OR encode_hi a"
      by (auto simp: ValidateSysmemFlushPagePlan_def old) (simp_all add: plan_def PlanSysmemFlushPage_def Let_def)
    have "newHi plan AND NOT kSysmemFlushAddrHiMask = hi AND NOT kSysmemFlushAddrHiMask"
      unfolding e(2) by (rule bit_word_eqI) (auto simp: encode_hi_def bit_simps)
    then show "flush_after g h' = (newLo plan, newHi plan) \<and> DecodeSysmemFlushPageAddress (newLo plan) (newHi plan) = a \<and>
        newHi plan AND NOT kSysmemFlushAddrHiMask = hi AND NOT kSysmemFlushAddrHiMask" using p(4) s e(1) by blast
  qed
  show "flush_after g h = (lo, hi) \<longrightarrow> fst (flush_after g h') \<in> {lo, newLo plan} \<and> snd (flush_after g h') \<in> {hi, newHi plan}"
    using p(5) by blast
  show "w \<and> 0 < unat a \<and> 4096 dvd unat a \<and> flush_maps dev n \<and> flush_after g h = (lo, hi) \<longrightarrow> kr = kIOReturnSuccess \<and>
      (\<exists>h''. RTXMacRollbackSysmemFlushPage (Some dev) n plan True h' = (kIOReturnSuccess, h'') \<and> flush_after g h'' = (lo, hi))"
    using p(4,6) Rollback_step [OF dev, of n plan h', unfolded old v] by blast
qed

text \<open>
  Programming the flush page. On a device whose two registers keep what is stored in them, the driver
  stores only planned words to the two registers, and nothing without the permission, for an address that
  is not a nonzero page, or when the live registers are not the ones the plan was made for. Success means
  that the registers hold the planned words, which decode to exactly the page address and leave the
  unrelated bits of the high register. After a failure each register holds its old or its new word; a
  mapping that fails between the two stores can leave one of each. When mappings succeed, programming
  succeeds and rolling back restores both registers.
\<close>

theorem RTXMacProgramSysmemFlushPage_sound:
  fixes a :: u64 and lo hi :: u32
  defines "plan \<equiv> PlanSysmemFlushPage a lo hi"
  assumes "flush_device dev g" and "RTXMacProgramSysmemFlushPage (Some dev) n plan w h = (kr, h')"
  shows "extends (flush_store {lo, newLo plan} {hi, newHi plan}) h h' 0 \<and>
    (\<not> (w \<and> 0 < unat a \<and> 4096 dvd unat a) \<longrightarrow> h' = h \<and> kr \<noteq> kIOReturnSuccess) \<and>
    (flush_after g h \<noteq> (lo, hi) \<longrightarrow> flush_after g h' = flush_after g h \<and> kr \<noteq> kIOReturnSuccess) \<and>
    (kr = kIOReturnSuccess \<longrightarrow> flush_after g h' = (newLo plan, newHi plan) \<and>
      DecodeSysmemFlushPageAddress (newLo plan) (newHi plan) = a \<and>
      newHi plan AND NOT kSysmemFlushAddrHiMask = hi AND NOT kSysmemFlushAddrHiMask) \<and>
    (flush_after g h = (lo, hi) \<longrightarrow>
      fst (flush_after g h') \<in> {lo, newLo plan} \<and> snd (flush_after g h') \<in> {hi, newHi plan}) \<and>
    (w \<and> 0 < unat a \<and> 4096 dvd unat a \<and> flush_maps dev n \<and> flush_after g h = (lo, hi) \<longrightarrow>
      kr = kIOReturnSuccess \<and> (\<exists>h''. RTXMacRollbackSysmemFlushPage (Some dev) n plan True h' = (kIOReturnSuccess, h'') \<and>
        flush_after g h'' = (lo, hi)))"
  unfolding plan_def by (intro conjI; rule Program_planned [OF assms(2,3) [unfolded plan_def]])

text \<open>A device with the two registers, mapping always.\<close>

definition flush_gpu :: Aperture where
  "flush_gpu = \<lparr>CreateMapping = \<lambda>h off n. (kIOReturnSuccess, Some 1),
     load = \<lambda>h off. (if off = kSysmemFlushAddrLoOffset then fst (flush_after (0, 0xFF000000) h)
       else snd (flush_after (0, 0xFF000000) h))\<rparr>"

theorem RTXMacProgramSysmemFlushPage_witness:
  "\<exists>h'. RTXMacProgramSysmemFlushPage (Some flush_gpu) 0x1000000 (PlanSysmemFlushPage 0x123456789000 0 0xFF000000) True [] =
      (kIOReturnSuccess, h') \<and> flush_after (0, 0xFF000000) h' = (0x34567890, 0xFF000012)"
proof -
  let ?plan = "PlanSysmemFlushPage 0x123456789000 0 0xFF000000"
  have dev: "flush_device flush_gpu (0, 0xFF000000)" by (simp add: flush_device_def flush_gpu_def)
  have maps: "flush_maps flush_gpu 0x1000000"
    by (simp add: flush_maps_def MapRegister_def flush_gpu_def kSysmemFlushAddrLoOffset_def kSysmemFlushAddrHiOffset_def kPageBytes_def Let_def)
  obtain kr h' where r: "RTXMacProgramSysmemFlushPage (Some flush_gpu) 0x1000000 ?plan True [] = (kr, h')" by force
  have "newLo ?plan = 0x34567890" "newHi ?plan = 0xFF000012"
    by (simp_all add: PlanSysmemFlushPage_def encode_lo_def encode_hi_def kSysmemFlushAddrHiMask_def kSysmemFlushPageBytes_def)
  then show ?thesis using RTXMacProgramSysmemFlushPage_sound [OF dev r] maps r by simp
qed

section \<open>The recovery reset\<close>

definition kPcieDeviceCapabilitiesOffset :: u64 where "kPcieDeviceCapabilitiesOffset = 4"
definition kPcieDeviceCapabilitiesFlr :: u32 where "kPcieDeviceCapabilitiesFlr = 0x10000000"

record RTXMacResetExecutionResult =
  status :: kern_return
  resetIssued :: bool
  coldRebuildRequired :: bool

text \<open>\<open>pcie\<close> is \<open>kIOPCICapabilityIDPCIExpress\<close>. The capability offset and word are \<open>None\<close> where the source
  leaves the output arguments as they are.\<close>

definition RTXMacQueryResetCapabilities ::
    "u32 \<Rightarrow> PciDevice option \<Rightarrow> bool \<Rightarrow> history \<Rightarrow> kern_return \<times> ResetCapabilities \<times> (u64 \<times> u32) option \<times> history" where
  "RTXMacQueryResetCapabilities pcie pci hotAllowed h =
     (let caps = \<lparr>functionLevelResetSupported = False, hotResetAllowed = False\<rparr>
      in case pci of None \<Rightarrow> (kIOReturnBadArgument, caps, None, h)
      | Some dev \<Rightarrow>
        let (kr, capabilityOffset) = FindPCICapability dev h pcie
        in if kr \<noteq> kIOReturnSuccess \<or> capabilityOffset = 0
        then (if kr = kIOReturnSuccess then kIOReturnNotFound else kr, caps, None, h)
        else let (deviceCapabilities, h) = ConfigurationRead32 dev (capabilityOffset + kPcieDeviceCapabilitiesOffset) h
        in if deviceCapabilities = 0xFFFFFFFF then (kIOReturnIOError, caps, None, h)
        else (kIOReturnSuccess, \<lparr>functionLevelResetSupported = deviceCapabilities AND kPcieDeviceCapabilitiesFlr \<noteq> 0,
            hotResetAllowed = hotAllowed\<rparr>, Some (capabilityOffset, deviceCapabilities), h))"

text \<open>\<open>functionReset\<close> and \<open>hotReset\<close> are the reset types of PCIDriverKit.\<close>

definition IssueReset :: "PciDevice \<Rightarrow> u32 \<Rightarrow> RTXMacResetExecutionResult \<Rightarrow> history \<Rightarrow> RTXMacResetExecutionResult \<times> history" where
  "IssueReset dev resetType out h =
     (let kr = ResetDevice dev h resetType; h = h @ [DeviceReset resetType]; out = out\<lparr>status := kr\<rparr>
      in (if kr = kIOReturnSuccess then out\<lparr>resetIssued := True, coldRebuildRequired := True\<rparr> else out, h))"

definition RTXMacExecuteRecoveryReset ::
    "u32 \<Rightarrow> u32 \<Rightarrow> u32 \<Rightarrow> PciDevice option \<Rightarrow> GpuResetPlan \<Rightarrow> bool \<Rightarrow> bool \<Rightarrow> history \<Rightarrow>
     RTXMacResetExecutionResult \<times> history" where
  "RTXMacExecuteRecoveryReset pcie functionReset hotReset pci plan resetsEnabled hotAllowed h =
     (let out = \<lparr>status = kIOReturnNotPermitted, resetIssued = False, coldRebuildRequired = False\<rparr>
      in if \<not> resetsEnabled then (out, h)
      else case pci of None \<Rightarrow> (out\<lparr>status := kIOReturnBadArgument\<rparr>, h)
      | Some dev \<Rightarrow>
        if \<not> GpuResetPlan.valid plan \<or> \<not> ResetPlanInvalidatesBootState plan \<or>
          GpuResetPlan.failure plan \<noteq> ResetPlanFailure.NoFailure \<or> mechanism plan = NoReset
        then (out\<lparr>status := kIOReturnBadArgument\<rparr>, h)
        else case mechanism plan of
          FunctionLevelReset \<Rightarrow>
            let (capKr, live, found, h) = RTXMacQueryResetCapabilities pcie pci hotAllowed h
            in if capKr \<noteq> kIOReturnSuccess then (out\<lparr>status := capKr\<rparr>, h)
            else if \<not> functionLevelResetSupported live then (out\<lparr>status := kIOReturnUnsupported\<rparr>, h)
            else IssueReset dev functionReset out h
        | HotReset \<Rightarrow>
            if \<not> hotAllowed then (out\<lparr>status := kIOReturnNotPermitted\<rparr>, h)
            else IssueReset dev hotReset out h
        | NoReset \<Rightarrow> (out\<lparr>status := kIOReturnUnsupported\<rparr>, h))"

text \<open>The function-level reset a live device advertises.\<close>

definition flr_live :: "u32 \<Rightarrow> PciDevice \<Rightarrow> history \<Rightarrow> bool" where
  "flr_live pcie dev h \<longleftrightarrow> (\<exists>off. FindPCICapability dev h pcie = (kIOReturnSuccess, off) \<and> off \<noteq> 0 \<and>
     cfg_load dev h (off + 4) \<noteq> 0xFFFFFFFF \<and> bit (cfg_load dev h (off + 4)) 28)"

lemma flr_bit: "(w :: u32) AND kPcieDeviceCapabilitiesFlr \<noteq> 0 \<longleftrightarrow> bit w 28"
proof -
  have "kPcieDeviceCapabilitiesFlr = push_bit 28 1" by (simp add: kPcieDeviceCapabilitiesFlr_def)
  then show ?thesis
    by (metis (no_types, lifting) and_exp_eq_0_iff_not_bit push_bit_of_1)
qed

text \<open>
  The recovery reset. Whatever the device, the executor touches nothing but the capability word and
  issues at most one reset, its last access. A reset is issued only with the permission and from a plan
  made behind the execution gate: a function-level reset only if the live device advertises it, a hot reset
  only if the plan was made without function-level support, with the permission, and the permission still
  holds. The result reports a reset exactly when the device accepted it, and then a cold rebuild is
  required.
\<close>

theorem RTXMacExecuteRecoveryReset_safe:
  "\<exists>out new. RTXMacExecuteRecoveryReset pcie functionReset hotReset (Some dev) (PlanGpuRecoveryReset caps gate) enabled hotAllowed h =
      (out, h @ new) \<and>
    (\<forall>e \<in> set new. (\<exists>off v. e = CfgRead off v) \<or> (\<exists>t. e = DeviceReset t)) \<and>
    length (filter (\<lambda>e. \<exists>t. e = DeviceReset t) new) \<le> 1 \<and>
    (\<forall>t. DeviceReset t \<in> set new \<longrightarrow> last new = DeviceReset t \<and> enabled \<and> gate \<and>
      (if functionLevelResetSupported caps then t = functionReset \<and> flr_live pcie dev h
       else t = hotReset \<and> hotResetAllowed caps \<and> hotAllowed)) \<and>
    (resetIssued out \<longleftrightarrow> RTXMacResetExecutionResult.status out = kIOReturnSuccess) \<and>
    (coldRebuildRequired out \<longleftrightarrow> resetIssued out) \<and>
    (resetIssued out \<longrightarrow> (\<exists>t. DeviceReset t \<in> set new))"
proof -
  have inv: "ResetPlanInvalidatesBootState (PlanGpuRecoveryReset caps gate) \<longleftrightarrow> GpuResetPlan.valid (PlanGpuRecoveryReset caps gate)"
    by (simp add: ResetPlanInvalidatesBootState_def PlanGpuRecoveryReset_def Let_def)
  show ?thesis
    unfolding RTXMacExecuteRecoveryReset_def inv
    by (auto simp: PlanGpuRecoveryReset_def RTXMacQueryResetCapabilities_def IssueReset_def ConfigurationRead32_def
        flr_live_def flr_bit kPcieDeviceCapabilitiesOffset_def Let_def split: prod.splits)
qed

definition reset_gpu :: PciDevice where
  "reset_gpu = command_gpu\<lparr>cfg_load := \<lambda>h off. 0x10000000\<rparr>"

theorem RTXMacExecuteRecoveryReset_witness:
  "\<exists>out h'. RTXMacExecuteRecoveryReset 16 1 2 (Some reset_gpu)
      (PlanGpuRecoveryReset \<lparr>functionLevelResetSupported = True, hotResetAllowed = True\<rparr> True) True False [] = (out, h') \<and>
    resetIssued out \<and> coldRebuildRequired out \<and> last h' = DeviceReset 1 \<and> flr_live 16 reset_gpu []"
proof -
  let ?caps = "\<lparr>functionLevelResetSupported = True, hotResetAllowed = True\<rparr>"
  have "RTXMacResetExecutionResult.status (fst (RTXMacExecuteRecoveryReset 16 1 2 (Some reset_gpu) (PlanGpuRecoveryReset ?caps True) True False [])) =
      kIOReturnSuccess"
    by (simp add: RTXMacExecuteRecoveryReset_def PlanGpuRecoveryReset_def ResetPlanInvalidatesBootState_def RTXMacQueryResetCapabilities_def
        IssueReset_def ConfigurationRead32_def reset_gpu_def command_gpu_def kPcieDeviceCapabilitiesFlr_def Let_def)
  then show ?thesis
    using RTXMacExecuteRecoveryReset_safe [of 16 1 2 reset_gpu ?caps True True False "[]"] by auto
qed

end
