(* ===== verification/LiveCheck.thy ===== *)
theory LiveCheck
  imports BootPrepare DriverKit
begin

text \<open>
  What the code reads of the live device before a boot, all without a store: the register interface with
  its recorder and its replay (\<open>include/rtxmac/mmio.hpp\<close>, \<open>src/core/mmio_trace.cpp\<close>), the identity probe
  and the diagnostic snapshot (\<open>src/core/nvidia_boot.cpp\<close>, \<open>nvidia_probe.cpp\<close>, \<open>nvidia_snapshot.cpp\<close>),
  the BAR decoder (\<open>src/core/pci_bar.cpp\<close>), and the check of the reserved boundary
  (\<open>src/core/ga10x_live_preflight.cpp\<close>, \<open>macos/Driver/RTXMacLivePreflight.cpp\<close>).
\<close>

section \<open>The register interface, recorded and replayed\<close>

datatype IoStatus = Ok | Unmapped | Misaligned | BackendError

record Read32Result =
  status :: IoStatus
  value' :: u32

text \<open>An implementation of \<open>ReadOnlyMmio\<close> is a state and what a read answers there.\<close>

type_synonym 's mmio = "u32 \<Rightarrow> 's \<Rightarrow> Read32Result \<times> 's"

record MmioReadEvent =
  offset :: u32
  status :: IoStatus
  value' :: u32

definition Recording_Read32 :: "'s mmio \<Rightarrow> ('s \<times> MmioReadEvent list) mmio" where
  "Recording_Read32 backend byteOffset = (\<lambda>(s, events).
     let (result, s) = backend byteOffset s
     in (result, (s, events @ [\<lparr>offset = byteOffset, status = Read32Result.status result, value' = Read32Result.value' result\<rparr>])))"

record ReplayMmio =
  events :: "MmioReadEvent list"
  position :: nat
  mismatch :: bool

definition Replay0 :: "MmioReadEvent list \<Rightarrow> ReplayMmio" where
  "Replay0 es = \<lparr>events = es, position = 0, mismatch = False\<rparr>"

definition Replay_Read32 :: "ReplayMmio mmio" where
  "Replay_Read32 byteOffset r =
     (if mismatch r \<or> length (events r) \<le> position r
      then (\<lparr>Read32Result.status = BackendError, value' = 0\<rparr>, r\<lparr>mismatch := True\<rparr>)
      else let event = events r ! position r
      in if offset event \<noteq> byteOffset
      then (\<lparr>Read32Result.status = BackendError, value' = 0\<rparr>, r\<lparr>mismatch := True\<rparr>)
      else (\<lparr>Read32Result.status = MmioReadEvent.status event, value' = MmioReadEvent.value' event\<rparr>,
        r\<lparr>position := position r + 1\<rparr>))"

definition Replay_Complete :: "ReplayMmio \<Rightarrow> bool" where
  "Replay_Complete r \<longleftrightarrow> position r = length (events r) \<and> \<not> mismatch r"

section \<open>The identity probe\<close>

definition kPmcBoot0Offset :: u32 where "kPmcBoot0Offset = 0"
definition kPmcBoot42Offset :: u32 where "kPmcBoot42Offset = 0xA00"

record Boot42Identity =
  raw :: u32
  architecture :: byte
  implementation :: byte
  majorRevision :: byte
  minorRevision :: byte
  minorExtendedRevision :: byte

definition DecodeBoot42 :: "u32 \<Rightarrow> Boot42Identity" where
  "DecodeBoot42 v = \<lparr>raw = v, architecture = ucast (drop_bit 24 v AND 0x1F), implementation = ucast (drop_bit 20 v AND 0xF),
     majorRevision = ucast (drop_bit 16 v AND 0xF), minorRevision = ucast (drop_bit 12 v AND 0xF),
     minorExtendedRevision = ucast (drop_bit 8 v AND 0xF)\<rparr>"

definition IsAmpere :: "Boot42Identity \<Rightarrow> bool" where
  "IsAmpere i \<longleftrightarrow> architecture i = 0x17"

definition ArchitectureName :: "byte \<Rightarrow> string" where
  "ArchitectureName a = (if a = 0x16 then ''Turing'' else if a = 0x17 then ''Ampere'' else if a = 0x18 then ''Hopper''
     else if a = 0x19 then ''Ada'' else if a = 0x1A then ''Blackwell'' else ''Unknown'')"

definition ChipName :: "Boot42Identity \<Rightarrow> string" where
  "ChipName i = (if architecture i \<noteq> 0x17 then ''Unknown''
     else if implementation i = 0 then ''GA100'' else if implementation i = 2 then ''GA102''
     else if implementation i = 3 then ''GA103'' else if implementation i = 4 then ''GA104''
     else if implementation i = 6 then ''GA106'' else if implementation i = 7 then ''GA107''
     else ''Unknown Ampere'')"

datatype ProbeStatus = Ok | Boot0ReadFailed | Boot42ReadFailed | InvalidAllZero | InvalidAllOnes | NotAmpere

record IdentityProbe =
  status :: ProbeStatus
  boot0 :: u32
  boot42 :: Boot42Identity

definition IdentityProbe0 :: IdentityProbe where
  "IdentityProbe0 = \<lparr>status = Boot0ReadFailed, boot0 = 0, boot42 = \<lparr>raw = 0, architecture = 0, implementation = 0,
     majorRevision = 0, minorRevision = 0, minorExtendedRevision = 0\<rparr>\<rparr>"

definition ProbeIdentity :: "'s mmio \<Rightarrow> 's \<Rightarrow> IdentityProbe \<times> 's" where
  "ProbeIdentity Read32 s =
     (let out = IdentityProbe0; (b0, s) = Read32 kPmcBoot0Offset s
      in if Read32Result.status b0 \<noteq> IoStatus.Ok then (out\<lparr>status := Boot0ReadFailed\<rparr>, s)
      else let out = out\<lparr>boot0 := Read32Result.value' b0\<rparr>; (b42, s) = Read32 kPmcBoot42Offset s
      in if Read32Result.status b42 \<noteq> IoStatus.Ok then (out\<lparr>status := Boot42ReadFailed\<rparr>, s)
      else let out = out\<lparr>boot42 := DecodeBoot42 (Read32Result.value' b42)\<rparr>
      in if boot0 out = 0 \<and> Read32Result.value' b42 = 0 then (out\<lparr>status := InvalidAllZero\<rparr>, s)
      else if boot0 out = 0xFFFFFFFF \<and> Read32Result.value' b42 = 0xFFFFFFFF then (out\<lparr>status := InvalidAllOnes\<rparr>, s)
      else if \<not> IsAmpere (boot42 out) then (out\<lparr>status := NotAmpere\<rparr>, s)
      else (out\<lparr>status := Ok\<rparr>, s))"

section \<open>The diagnostic snapshot\<close>

datatype SnapshotRegisterId = PmcBoot0 | PmcBoot42 | Wpr2AddrHi | MmuLockPrivMask | MmuLockAddrLo | MmuLockAddrHi
  | GspMailbox0 | GspMailbox1 | GspRiscvCpuCtl | VramSizeMb | GfwBootProgress | BsiSecureScratch14
  | Sec2Mailbox0 | Sec2Mailbox1

record SnapshotRegisterSpec =
  id' :: SnapshotRegisterId
  offset :: u32
  name :: string

definition kDiagnosticRegisters :: "SnapshotRegisterSpec list" where
  "kDiagnosticRegisters = map (\<lambda>(i, off, n). \<lparr>id' = i, offset = off, name = n\<rparr>)
     [(PmcBoot0, 0x00000000, ''NV_PMC_BOOT_0''),
      (PmcBoot42, 0x00000A00, ''NV_PMC_BOOT_42''),
      (Wpr2AddrHi, 0x001FA828, ''NV_PFB_PRI_MMU_WPR2_ADDR_HI''),
      (MmuLockPrivMask, 0x001FA7C8, ''NV_PFB_PRI_MMU_LOCK_CFG_PRIV_LEVEL_MASK''),
      (MmuLockAddrLo, 0x001FA82C, ''NV_PFB_PRI_MMU_LOCK_ADDR_LO''),
      (MmuLockAddrHi, 0x001FA830, ''NV_PFB_PRI_MMU_LOCK_ADDR_HI''),
      (GspMailbox0, 0x00110040, ''NV_PGSP_FALCON_MAILBOX0''),
      (GspMailbox1, 0x00110044, ''NV_PGSP_FALCON_MAILBOX1''),
      (GspRiscvCpuCtl, 0x00111388, ''GSP NV_PRISCV_RISCV_CPUCTL''),
      (VramSizeMb, 0x001183A4, ''NV_PGC6_AON_SECURE_SCRATCH_GROUP_42''),
      (GfwBootProgress, 0x00118234, ''NV_PGC6_AON_SECURE_SCRATCH_GROUP_05(0)''),
      (BsiSecureScratch14, 0x001180F8, ''NV_PGC6_BSI_SECURE_SCRATCH_14''),
      (Sec2Mailbox0, 0x00840040, ''NV_PSEC_FALCON_MAILBOX0''),
      (Sec2Mailbox1, 0x00840044, ''NV_PSEC_FALCON_MAILBOX1'')]"

record SnapshotSample =
  spec :: SnapshotRegisterSpec
  status :: IoStatus
  value' :: u32

type_synonym DiagnosticSnapshot = "SnapshotSample list"

definition Snapshot_Find :: "DiagnosticSnapshot \<Rightarrow> SnapshotRegisterId \<Rightarrow> SnapshotSample option" where
  "Snapshot_Find samples i = find (\<lambda>x. id' (spec x) = i) samples"

definition Snapshot_Complete :: "DiagnosticSnapshot \<Rightarrow> bool" where
  "Snapshot_Complete samples \<longleftrightarrow> list_all (\<lambda>x. status x = IoStatus.Ok) samples"

fun CaptureDiagnosticSnapshot_loop :: "'s mmio \<Rightarrow> SnapshotRegisterSpec list \<Rightarrow> 's \<Rightarrow> DiagnosticSnapshot \<times> 's" where
  "CaptureDiagnosticSnapshot_loop Read32 [] s = ([], s)"
| "CaptureDiagnosticSnapshot_loop Read32 (sp # sps) s =
     (let (read, s) = Read32 (offset sp) s;
          (samples, s) = CaptureDiagnosticSnapshot_loop Read32 sps s
      in (\<lparr>spec = sp, status = Read32Result.status read, value' = Read32Result.value' read\<rparr> # samples, s))"

definition CaptureDiagnosticSnapshot :: "'s mmio \<Rightarrow> 's \<Rightarrow> DiagnosticSnapshot \<times> 's" where
  "CaptureDiagnosticSnapshot Read32 s = CaptureDiagnosticSnapshot_loop Read32 kDiagnosticRegisters s"

definition VramSizeBytes :: "DiagnosticSnapshot \<Rightarrow> u64 option" where
  "VramSizeBytes snapshot =
     (case Snapshot_Find snapshot VramSizeMb of None \<Rightarrow> None
      | Some x \<Rightarrow> if status x \<noteq> IoStatus.Ok \<or> value' x = 0 \<or> value' x = 0xFFFFFFFF then None
          else Some (push_bit 20 (ucast (value' x))))"

record GspCpuCtlState =
  active :: bool
  halted :: bool

record MmuLockState =
  readable :: bool
  valid :: bool
  low :: u64
  high :: u64

definition DecodeGspCpuCtl :: "u32 \<Rightarrow> GspCpuCtlState" where
  "DecodeGspCpuCtl v = \<lparr>active = drop_bit 7 v AND 1 \<noteq> 0, halted = drop_bit 4 v AND 1 \<noteq> 0\<rparr>"

definition DecodeMmuLock :: "u32 \<Rightarrow> u32 \<Rightarrow> u32 \<Rightarrow> MmuLockState" where
  "DecodeMmuLock privilegeMask lowRegister highRegister =
     (let readable = privilegeMask AND 1 \<noteq> 0;
          low = push_bit 8 (ucast (lowRegister AND 0xFFFFFFF0));
          high = push_bit 8 (ucast (highRegister AND 0xFFFFFFF0))
      in \<lparr>readable = readable, valid = readable \<and> low \<le> high, low = low, high = high\<rparr>)"

definition GspCpuCtl :: "DiagnosticSnapshot \<Rightarrow> GspCpuCtlState option" where
  "GspCpuCtl snapshot =
     (case Snapshot_Find snapshot GspRiscvCpuCtl of None \<Rightarrow> None
      | Some x \<Rightarrow> if status x \<noteq> IoStatus.Ok then None else Some (DecodeGspCpuCtl (value' x)))"

definition MmuLock :: "DiagnosticSnapshot \<Rightarrow> MmuLockState option" where
  "MmuLock snapshot =
     (case (Snapshot_Find snapshot MmuLockPrivMask, Snapshot_Find snapshot MmuLockAddrLo, Snapshot_Find snapshot MmuLockAddrHi) of
        (Some plm, Some lo, Some hi) \<Rightarrow>
          if status plm \<noteq> IoStatus.Ok \<or> status lo \<noteq> IoStatus.Ok \<or> status hi \<noteq> IoStatus.Ok then None
          else Some (DecodeMmuLock (value' plm) (value' lo) (value' hi))
      | _ \<Rightarrow> None)"

section \<open>Replaying a recording\<close>

text \<open>A client of the register interface: it returns, or it reads a register and goes on with the
  answer.\<close>

datatype 'a client = Return 'a | Read u32 "Read32Result \<Rightarrow> 'a client"

primrec run :: "'s mmio \<Rightarrow> 'a client \<Rightarrow> 's \<Rightarrow> 'a \<times> 's" where
  "run Read32 (Return x) s = (x, s)"
| "run Read32 (Read off k) s = (let (r, s) = Read32 off s in run Read32 (k r) s)"

primrec and_then :: "'a client \<Rightarrow> ('a \<Rightarrow> 'b client) \<Rightarrow> 'b client" where
  "and_then (Return x) f = f x"
| "and_then (Read off k) f = Read off (\<lambda>r. and_then (k r) f)"

lemma run_and_then: "run Read32 (and_then p f) s = (let (x, s) = run Read32 p s in run Read32 (f x) s)"
  by (induction p arbitrary: s) (simp_all split: prod.split)

text \<open>The probe and the snapshot are such clients.\<close>

definition probe_client :: "IdentityProbe client" where
  "probe_client = (let out = IdentityProbe0 in Read kPmcBoot0Offset (\<lambda>b0.
     if Read32Result.status b0 \<noteq> IoStatus.Ok then Return (out\<lparr>IdentityProbe.status := Boot0ReadFailed\<rparr>)
     else let out = out\<lparr>boot0 := Read32Result.value' b0\<rparr> in Read kPmcBoot42Offset (\<lambda>b42. Return
       (if Read32Result.status b42 \<noteq> IoStatus.Ok then out\<lparr>IdentityProbe.status := Boot42ReadFailed\<rparr>
        else let out = out\<lparr>boot42 := DecodeBoot42 (Read32Result.value' b42)\<rparr>
        in if boot0 out = 0 \<and> Read32Result.value' b42 = 0 then out\<lparr>IdentityProbe.status := InvalidAllZero\<rparr>
        else if boot0 out = 0xFFFFFFFF \<and> Read32Result.value' b42 = 0xFFFFFFFF then out\<lparr>IdentityProbe.status := InvalidAllOnes\<rparr>
        else if \<not> IsAmpere (boot42 out) then out\<lparr>IdentityProbe.status := NotAmpere\<rparr>
        else out\<lparr>IdentityProbe.status := Ok\<rparr>))))"

fun snapshot_client :: "SnapshotRegisterSpec list \<Rightarrow> DiagnosticSnapshot client" where
  "snapshot_client [] = Return []"
| "snapshot_client (sp # sps) = Read (offset sp) (\<lambda>r. and_then (snapshot_client sps) (\<lambda>xs.
     Return (\<lparr>spec = sp, status = Read32Result.status r, value' = Read32Result.value' r\<rparr> # xs)))"

lemma ProbeIdentity_client: "ProbeIdentity Read32 s = run Read32 probe_client s"
  by (auto simp: ProbeIdentity_def probe_client_def Let_def split: prod.split)

lemma Capture_client: "CaptureDiagnosticSnapshot Read32 s = run Read32 (snapshot_client kDiagnosticRegisters) s"
proof -
  have "CaptureDiagnosticSnapshot_loop Read32 sps s = run Read32 (snapshot_client sps) s" for sps
    by (induction sps arbitrary: s) (simp_all add: run_and_then split: prod.split)
  then show ?thesis by (simp add: CaptureDiagnosticSnapshot_def)
qed

text \<open>Recording is transparent, and its trace replays to the same answers.\<close>

lemma run_recorded:
  "run (Recording_Read32 bk) p (s, es) = (x, (s', es')) \<Longrightarrow> run bk p s = (x, s') \<and> (\<exists>new. es' = es @ new \<and>
    (\<forall>pre post. run Replay_Read32 p \<lparr>events = pre @ new @ post, position = length pre, mismatch = False\<rparr> =
      (x, \<lparr>events = pre @ new @ post, position = length pre + length new, mismatch = False\<rparr>)))"
proof (induction p arbitrary: s es)
  case (Return y)
  then show ?case by auto
next
  case (Read off k)
  obtain r s1 where r: "bk off s = (r, s1)" by force
  let ?e = "\<lparr>MmioReadEvent.offset = off, status = Read32Result.status r, value' = Read32Result.value' r\<rparr>"
  have rec: "run (Recording_Read32 bk) (k r) (s1, es @ [?e]) = (x, (s', es'))"
  proof -
    have "Recording_Read32 bk off (s, es) = (r, (s1, es @ [?e]))" using r by (simp add: Recording_Read32_def)
    then show ?thesis using Read.prems by simp
  qed
  obtain new where new: "run bk (k r) s1 = (x, s')" "es' = (es @ [?e]) @ new"
    "\<forall>pre post. run Replay_Read32 (k r) \<lparr>events = pre @ new @ post, position = length pre, mismatch = False\<rparr> =
      (x, \<lparr>events = pre @ new @ post, position = length pre + length new, mismatch = False\<rparr>)"
    using Read.IH [OF _ rec] by auto
  have eta: "\<lparr>Read32Result.status = Read32Result.status r, value' = Read32Result.value' r\<rparr> = r" by simp
  have "run Replay_Read32 (Read off k) \<lparr>events = pre @ (?e # new) @ post, position = length pre, mismatch = False\<rparr> =
      (x, \<lparr>events = pre @ (?e # new) @ post, position = length pre + length (?e # new), mismatch = False\<rparr>)" for pre post
    using new(3) [rule_format, of "pre @ [?e]" post] by (simp add: Replay_Read32_def nth_append Let_def eta)
  then show ?case using new r by (intro conjI exI [of _ "?e # new"]) simp_all
qed

lemma replay_recorded:
  "run (Recording_Read32 bk) p (s, []) = (x, (s', es)) \<Longrightarrow> run bk p s = (x, s') \<and>
    (\<exists>st. run Replay_Read32 p (Replay0 es) = (x, st) \<and> Replay_Complete st)"
proof -
  assume r: "run (Recording_Read32 bk) p (s, []) = (x, (s', es))"
  obtain new where new: "run bk p s = (x, s')" "es = [] @ new"
    "\<forall>pre post. run Replay_Read32 p \<lparr>events = pre @ new @ post, position = length pre, mismatch = False\<rparr> =
      (x, \<lparr>events = pre @ new @ post, position = length pre + length new, mismatch = False\<rparr>)"
    using run_recorded [OF r] by blast
  show ?thesis
    using new(1,2) new(3) [rule_format, of "[]" "[]"] by (simp add: Replay0_def Replay_Complete_def)
qed

text \<open>
  A recorded session replays. For every backend and every client of the register interface, recording
  changes neither the answers nor the backend, and replaying the trace from its start gives the client the
  same result, reads every event and finds no mismatch. In particular the identity probe and the
  diagnostic snapshot, replayed offline, report exactly what the live device answered.
\<close>

theorem Replay_Read32_faithful:
  "(\<exists>x s' es st. run (Recording_Read32 bk) p (s, []) = (x, (s', es)) \<and> run bk p s = (x, s') \<and>
      run Replay_Read32 p (Replay0 es) = (x, st) \<and> Replay_Complete st) \<and>
    (\<exists>x s' es st. ProbeIdentity (Recording_Read32 bk) (s, []) = (x, (s', es)) \<and> ProbeIdentity bk s = (x, s') \<and>
      ProbeIdentity Replay_Read32 (Replay0 es) = (x, st) \<and> Replay_Complete st) \<and>
    (\<exists>x s' es st. CaptureDiagnosticSnapshot (Recording_Read32 bk) (s, []) = (x, (s', es)) \<and>
      CaptureDiagnosticSnapshot bk s = (x, s') \<and>
      CaptureDiagnosticSnapshot Replay_Read32 (Replay0 es) = (x, st) \<and> Replay_Complete st)"
proof -
  have "\<exists>x s' es st. run (Recording_Read32 bk) c (s, []) = (x, (s', es)) \<and> run bk c s = (x, s') \<and>
      run Replay_Read32 c (Replay0 es) = (x, st) \<and> Replay_Complete st" for c :: "'x client"
    using replay_recorded [of bk c s] by (cases "run (Recording_Read32 bk) c (s, [])") blast
  note all = this
  show ?thesis unfolding ProbeIdentity_client Capture_client by (intro conjI all)
qed

section \<open>Base address registers\<close>

datatype BarStatus = Ok | InvalidIndex | IoSpaceUnsupported | ReservedMemoryType | MissingHighDword | InvalidSize
  | ZeroBase | BaseSizeMisaligned

record DecodedBar =
  status :: BarStatus
  barIndex :: byte
  base :: u64
  size' :: u64
  is64Bit :: bool
  prefetchable :: bool

definition DecodeMemoryBar :: "byte \<Rightarrow> u32 \<Rightarrow> u32 \<Rightarrow> bool \<Rightarrow> u64 \<Rightarrow> DecodedBar" where
  "DecodeMemoryBar i lowDword highDword highDwordAvailable expectedSize =
     (let out = \<lparr>status = InvalidIndex, barIndex = i, base = 0, size' = 0, is64Bit = False, prefetchable = False\<rparr>
      in if 6 \<le> i then out\<lparr>status := InvalidIndex\<rparr>
      else if lowDword AND 1 \<noteq> 0 then out\<lparr>status := IoSpaceUnsupported\<rparr>
      else if expectedSize = 0 \<or> expectedSize AND (expectedSize - 1) \<noteq> 0 then out\<lparr>status := InvalidSize\<rparr>
      else let memoryType = lowDword AND 6
      in if memoryType = 2 \<or> memoryType = 6 then out\<lparr>status := ReservedMemoryType\<rparr>
      else let out = out\<lparr>is64Bit := memoryType = 4, prefetchable := lowDword AND 8 \<noteq> 0\<rparr>;
               lowBase = ucast (lowDword AND 0xFFFFFFF0)
      in if is64Bit out \<and> (i = 5 \<or> \<not> highDwordAvailable) then out\<lparr>status := MissingHighDword\<rparr>
      else let out = out\<lparr>base := if is64Bit out then push_bit 32 (ucast highDword) OR lowBase else lowBase\<rparr>
      in if base out = 0 then out\<lparr>status := ZeroBase\<rparr>
      else if base out AND (expectedSize - 1) \<noteq> 0 then out\<lparr>status := BaseSizeMisaligned\<rparr>
      else out\<lparr>size' := expectedSize, status := Ok\<rparr>)"

fun BarStatusName :: "BarStatus \<Rightarrow> string" where
  "BarStatusName Ok = ''ok''"
| "BarStatusName InvalidIndex = ''invalid-index''"
| "BarStatusName IoSpaceUnsupported = ''io-space-unsupported''"
| "BarStatusName ReservedMemoryType = ''reserved-memory-type''"
| "BarStatusName MissingHighDword = ''missing-high-dword''"
| "BarStatusName InvalidSize = ''invalid-size''"
| "BarStatusName ZeroBase = ''zero-base''"
| "BarStatusName BaseSizeMisaligned = ''base-size-misaligned''"

text \<open>An accepted BAR is one aligned range that does not wrap.\<close>

lemma aligned_fits:
  fixes a n :: u64
  assumes "n \<noteq> 0" and "a AND (n - 1) = 0"
  shows "unat a + unat n \<le> 2 ^ 64"
proof -
  have "unat a AND unat (n - 1) = unat (a AND (n - 1))" by (simp only: unsigned_and_eq)
  then have "unat a + unat (n - 1) = unat (a OR (n - 1))"
    using assms(2) by (simp add: disjunctive_add_eq_or unsigned_or_eq)
  also have "\<dots> < 2 ^ 64" using unat_lt(4) .
  finally show ?thesis using assms(1) by (simp add: unat_minus_one)
qed

lemma DecodeMemoryBar_accepted:
  assumes "status (DecodeMemoryBar i lo hi avail n) = Ok"
  shows "i < 6" and "size' (DecodeMemoryBar i lo hi avail n) = n" and "n \<noteq> 0"
    and "base (DecodeMemoryBar i lo hi avail n) \<noteq> 0"
    and "unat (base (DecodeMemoryBar i lo hi avail n)) + unat n \<le> 2 ^ 64"
  using assms aligned_fits [of n "base (DecodeMemoryBar i lo hi avail n)"]
  by (auto simp: DecodeMemoryBar_def Let_def split: if_split_asm)

section \<open>The reserved boundary\<close>

datatype ReservedBoundaryStatus = Ok | InvalidProfile | MmuLockUnavailable | MmuLockUnreadable | RebuildRequired

record ReservedBoundaryProfile =
  valid :: bool
  vgaWorkspaceOffset :: u64
  vbiosReservedOffset :: u64

record ReservedBoundaryDecision =
  status :: ReservedBoundaryStatus
  activeMmuLock :: bool
  prototypeBoundary :: u64
  effectiveBoundary :: u64
  mmuLockLow :: u64
  mmuLockHigh :: u64

definition BuildReservedBoundaryProfile :: "PackageView \<Rightarrow> ReservedBoundaryProfile" where
  "BuildReservedBoundaryProfile v =
     (let out = \<lparr>valid = False, vgaWorkspaceOffset = 0, vbiosReservedOffset = 0\<rparr>;
          fb = StaticMetadata.vramBytes (PackageView.metadata v)
      in if PackageView.status v \<noteq> Package.ParseStatus.Ok \<or> \<not> IsKnownRtx3060Ti (StaticMetadata.pci (PackageView.metadata v)) \<or>
        fb \<le> kVgaWorkspaceBytes then out
      else let boundary = fb - kVgaWorkspaceBytes
      in \<lparr>valid = True, vgaWorkspaceOffset = boundary, vbiosReservedOffset = boundary\<rparr>)"

definition CheckReservedBoundary :: "ReservedBoundaryProfile \<Rightarrow> MmuLockState option \<Rightarrow> ReservedBoundaryDecision" where
  "CheckReservedBoundary p mmuLock =
     (let out = \<lparr>status = InvalidProfile, activeMmuLock = False, prototypeBoundary = 0, effectiveBoundary = 0,
            mmuLockLow = 0, mmuLockHigh = 0\<rparr>
      in if \<not> valid p \<or> vbiosReservedOffset p = 0 \<or> vgaWorkspaceOffset p = 0 then out\<lparr>status := InvalidProfile\<rparr>
      else let out = out\<lparr>prototypeBoundary := vbiosReservedOffset p, effectiveBoundary := vbiosReservedOffset p\<rparr>
      in case mmuLock of
        None \<Rightarrow> out\<lparr>status := MmuLockUnavailable\<rparr>
      | Some l \<Rightarrow>
          let out = out\<lparr>mmuLockLow := low l, mmuLockHigh := high l\<rparr>
          in if \<not> readable l then out\<lparr>status := MmuLockUnreadable\<rparr>
          else if \<not> MmuLockState.valid l then out\<lparr>activeMmuLock := False, status := Ok\<rparr>
          else let out = out\<lparr>activeMmuLock := True, effectiveBoundary := min (low l) (vgaWorkspaceOffset p)\<rparr>
          in if effectiveBoundary out \<noteq> vbiosReservedOffset p then out\<lparr>status := RebuildRequired\<rparr>
          else out\<lparr>status := Ok\<rparr>)"

text \<open>The overload for a full profile.\<close>

definition CheckReservedBoundary_profile :: "Profile \<Rightarrow> MmuLockState option \<Rightarrow> ReservedBoundaryDecision" where
  "CheckReservedBoundary_profile p mmuLock = CheckReservedBoundary
     \<lparr>valid = Profile.status p = ProfileStatus.Ok \<and> BootManifest.valid (manifest p),
      vgaWorkspaceOffset = ManifestInputs.vgaWorkspaceOffset (manifestInputs p),
      vbiosReservedOffset = ManifestInputs.vbiosReservedOffset (manifestInputs p)\<rparr> mmuLock"

fun ReservedBoundaryStatusName :: "ReservedBoundaryStatus \<Rightarrow> string" where
  "ReservedBoundaryStatusName Ok = ''ok''"
| "ReservedBoundaryStatusName InvalidProfile = ''invalid-profile''"
| "ReservedBoundaryStatusName MmuLockUnavailable = ''mmu-lock-unavailable''"
| "ReservedBoundaryStatusName MmuLockUnreadable = ''mmu-lock-unreadable''"
| "ReservedBoundaryStatusName RebuildRequired = ''rebuild-required''"

lemma LiveStatusName_inj:
  "BarStatusName s = BarStatusName t \<longleftrightarrow> s = t"
  "ReservedBoundaryStatusName p = ReservedBoundaryStatusName q \<longleftrightarrow> p = q"
  by (cases s; cases t; simp) (cases p; cases q; simp)

section \<open>The check in the driver\<close>

text \<open>What the PCI service answers: the memory index and the size of BAR 0, and the descriptor of a memory
  index. The release of the descriptor and of the mapping is not recorded.\<close>

record PciBars =
  GetBARInfo :: "kern_return \<times> byte \<times> u64"
  CopyDeviceMemoryWithIndex :: "byte \<Rightarrow> kern_return \<times> Aperture option"

record RTXMacLiveBoundaryPreflight =
  ioStatus :: kern_return
  captured :: bool
  decision :: ReservedBoundaryDecision

definition RTXMacLiveBoundaryPreflight0 :: RTXMacLiveBoundaryPreflight where
  "RTXMacLiveBoundaryPreflight0 = \<lparr>ioStatus = kIOReturnError, captured = False,
     decision = \<lparr>status = InvalidProfile, activeMmuLock = False, prototypeBoundary = 0, effectiveBoundary = 0,
       mmuLockLow = 0, mmuLockHigh = 0\<rparr>\<rparr>"

definition kPageBytes :: u64 where "kPageBytes = 0x1000"
definition kMmuLockPrivMaskOffset :: u64 where "kMmuLockPrivMaskOffset = 0x001FA7C8"
definition kMmuLockAddrLoOffset :: u64 where "kMmuLockAddrLoOffset = 0x001FA82C"
definition kMmuLockAddrHiOffset :: u64 where "kMmuLockAddrHiOffset = 0x001FA830"
definition kMmuPageBase :: u64 where "kMmuPageBase = kMmuLockPrivMaskOffset AND NOT (kPageBytes - 1)"

text \<open>A load at an offset of the BAR through the mapping of its page.\<close>

definition ReadMappedU32 :: "Aperture \<Rightarrow> u64 \<Rightarrow> history \<Rightarrow> u32 \<times> history" where
  "ReadMappedU32 dev off h = (let inPage = off - kMmuPageBase in reg_read dev (ucast (kMmuPageBase + inPage)) h)"

definition RTXMacCheckLiveReservedBoundary ::
    "bool \<Rightarrow> PciBars option \<Rightarrow> ReservedBoundaryProfile \<Rightarrow> history \<Rightarrow> RTXMacLiveBoundaryPreflight \<times> history" where
  "RTXMacCheckLiveReservedBoundary owner service profile h =
     (let out = RTXMacLiveBoundaryPreflight0
      in case service of None \<Rightarrow> (out\<lparr>ioStatus := kIOReturnBadArgument\<rparr>, h)
      | Some bars \<Rightarrow>
        if \<not> owner then (out\<lparr>ioStatus := kIOReturnBadArgument\<rparr>, h)
        else let (kr, memoryIndex, bar0Size) = GetBARInfo bars
        in if kr \<noteq> kIOReturnSuccess \<or> bar0Size < kMmuLockAddrHiOffset + 4
        then (out\<lparr>ioStatus := (if kr = kIOReturnSuccess then kIOReturnNoResources else kr)\<rparr>, h)
        else let (kr, bar0) = CopyDeviceMemoryWithIndex bars memoryIndex
        in if kr \<noteq> kIOReturnSuccess \<or> bar0 = None
        then (out\<lparr>ioStatus := (if kr = kIOReturnSuccess then kIOReturnNoResources else kr)\<rparr>, h)
        else let dev = the bar0;
                 (kr, map') = CreateMapping dev h kMmuPageBase kPageBytes;
                 h = h @ [Mapped kMmuPageBase kPageBytes]
        in if kr \<noteq> kIOReturnSuccess \<or> map' = None
        then (out\<lparr>ioStatus := (if kr = kIOReturnSuccess then kIOReturnNoResources else kr)\<rparr>, h)
        else if map' = Some 0 then (out\<lparr>ioStatus := kIOReturnNoResources\<rparr>, h)
        else let (privilegeMask, h) = ReadMappedU32 dev kMmuLockPrivMaskOffset h;
                 (lowRegister, h) = ReadMappedU32 dev kMmuLockAddrLoOffset h;
                 (highRegister, h) = ReadMappedU32 dev kMmuLockAddrHiOffset h;
                 mmuLock = DecodeMmuLock privilegeMask lowRegister highRegister
        in (out\<lparr>decision := CheckReservedBoundary profile (Some mmuLock), ioStatus := kIOReturnSuccess, captured := True\<rparr>, h))"

text \<open>The check maps one page and never stores; a captured result is the decision for the three
  registers it read, in this order.\<close>

lemma RTXMacCheckLiveReservedBoundary_reads:
  assumes "RTXMacCheckLiveReservedBoundary owner service profile h = (out, h')"
  shows "(h' = h \<and> \<not> captured out) \<or> (h' = h @ [Mapped 0x1FA000 0x1000] \<and> \<not> captured out) \<or>
    (\<exists>m lo hi. h' = h @ [Mapped 0x1FA000 0x1000, RegRead 0x1FA7C8 m, RegRead 0x1FA82C lo, RegRead 0x1FA830 hi] \<and>
      out = \<lparr>ioStatus = kIOReturnSuccess, captured = True,
        decision = CheckReservedBoundary profile (Some (DecodeMmuLock m lo hi))\<rparr>)"
  using assms
  by (auto simp: RTXMacCheckLiveReservedBoundary_def RTXMacLiveBoundaryPreflight0_def Let_def ReadMappedU32_def reg_read_def
      kMmuPageBase_def kMmuLockPrivMaskOffset_def kMmuLockAddrLoOffset_def kMmuLockAddrHiOffset_def kPageBytes_def
      split: option.splits prod.splits if_split_asm)

section \<open>A lowered boundary\<close>

text \<open>
  A live lock below the workspace asks for a rebuild, and the session then plans the boot memory of the profile
  rebuilt at that boundary. That plan is always refused: \<open>PlanGa10xBootPreparation\<close> compares the planned FRTS region with the one
  of the FRTS command, which is computed from the size of the framebuffer. So the rebuild that
  \<open>docs/ARCHITECTURE.md\<close> describes never leads to a boot.
\<close>

lemma lowered_boundary_refused:
  assumes check: "ReservedBoundaryDecision.status (CheckReservedBoundary (BuildReservedBoundaryProfile v) (Some l)) = RebuildRequired"
  defines "b \<equiv> effectiveBoundary (CheckReservedBoundary (BuildReservedBoundaryProfile v) (Some l))"
  assumes ok: "Profile.status (BuildGa10xPrototypeProfile_at v b) = ProfileStatus.Ok"
  shows "\<exists>plan. PlanGa10xBootPreparation (BuildGa10xPrototypeProfile_at v b) = Some plan \<and>
    (BootPreparationPlan.status plan = FrtsPlacementMismatch \<or> BootPreparationPlan.status plan = FramebufferScratchUnderflow)"
proof -
  let ?fb = "StaticMetadata.vramBytes (PackageView.metadata v)"
  have fb: "kVgaWorkspaceBytes < ?fb" and b: "b \<noteq> ?fb - kVgaWorkspaceBytes"
    using check unfolding b_def
    by (auto simp: CheckReservedBoundary_def BuildReservedBoundaryProfile_def Let_def split: if_split_asm)
  have "unat b \<noteq> unat ?fb - 0x100000"
    using fb b by (auto simp: kVgaWorkspaceBytes_def unat_sub less_imp_le word_unat_eq_iff)
  then have "unat b \<noteq> unat (ManifestInputs.fbSize (profile_inputs v b)) - 0x100000"
    by (simp add: profile_inputs_def Let_def)
  then show ?thesis using PlanGa10xBootPreparation_cases [OF ok] by auto
qed

text \<open>An instance: a lock 2 MiB below the workspace of the sample package.\<close>

lemma lowered_boundary_sample:
  defines "d \<equiv> CheckReservedBoundary (BuildReservedBoundaryProfile sample_view)
    (Some \<lparr>readable = True, valid = True, low = 0xFD00000, high = 0xFE00000\<rparr>)"
  shows "ReservedBoundaryDecision.status d = RebuildRequired \<and> effectiveBoundary d = 0xFD00000 \<and>
    (\<exists>plan. PlanGa10xBootPreparation (BuildGa10xPrototypeProfile_at sample_view (effectiveBoundary d)) = Some plan \<and>
      (BootPreparationPlan.status plan = FrtsPlacementMismatch \<or> BootPreparationPlan.status plan = FramebufferScratchUnderflow))"
proof -
  have d: "ReservedBoundaryDecision.status d = RebuildRequired" "effectiveBoundary d = 0xFD00000"
    by (simp_all add: d_def CheckReservedBoundary_def BuildReservedBoundaryProfile_def sample_view_def StaticMetadata0_def
        Let_def kVgaWorkspaceBytes_def IsKnownRtx3060Ti_def IsNvidia_def)
  show ?thesis
    using d lowered_boundary_refused [OF d(1) [unfolded d_def]] sample_profile(1) [of "0xFD00000"] unfolding d_def by simp
qed

end
