(* ===== verification/Spec2Isabelle.thy ===== *)
theory Spec2Isabelle
  imports Dma FalconExec WritePolicy Pramin GspQueue GspRadix3 GspWpr GspBootstrap Nvfw Elf Frts PraminExec DmaBuffer PhaseExec Sha256 PciIdentity Package PackageDma PackageSample BootPrepare BootResolve BootArm ColdState LiveCheck
begin

text \<open>
  A verification development for the RTXMac prototype: a DriverKit driver that brings up the GSP of an
  NVIDIA GA10x GPU (RTX 3060 Ti), with the offline tool that prepares its boot package.

  \<^bold>\<open>The program.\<close> The portable core (\<open>src/core\<close>, \<open>include/rtxmac\<close>) parses the vendor's files, plans
  memory layouts, register sequences and their audits, and builds the byte images the GPU reads; it
  touches no hardware. The driver (\<open>macos/Driver\<close>) owns the PCI device: it allocates DMA buffers,
  runs the planned register actions after asking the write policy about each of them, stages images
  through the PRAMIN window, and steps the boot attempt phase by phase. The offline tool packs the
  prepared payloads, with their SHA-256 digests, into the package that the driver accepts.

  \<^bold>\<open>The theories\<close>, in the order of the code:
  \<^item> \<open>Prelude\<close>: byte access with its bounds (\<open>None\<close> is a read or write outside a span), little-endian
    words, no-wrap lemmas on \<open>u16\<close> to \<open>u64\<close>; \<open>Tiling\<close>: consecutive ranges that cover an interval; \<open>Layout\<close>:
    sequences of stores of a fixed record and the locale \<open>record_layout\<close> of their contract.
  \<^item> \<open>Fips180\<close>: SHA-256 as the standard states it, with the word library only; \<open>Fips180Example\<close>: its published
    example; \<open>Sha256\<close> (\<open>sha256.cpp\<close>), the code against it; \<open>PciIdentity\<close> (\<open>pci_identity.cpp\<close>, \<open>pci_identity_policy.cpp\<close>).
  \<^item> \<open>Vbios\<close> (\<open>vbios.cpp\<close>), \<open>Elf\<close> (\<open>elf.cpp\<close>), \<open>Nvfw\<close> (\<open>nvfw.cpp\<close>), \<open>Frts\<close> (\<open>frts.cpp\<close>): the parsers of the
    four source files and the patches of the FWSEC and booter images.
  \<^item> \<open>Package\<close> (\<open>boot_package.cpp\<close>): composes the four into the package and parses it back;
    \<open>PackageSample\<close> is a concrete run of it.
  \<^item> \<open>PackageDma\<close> (\<open>boot_package_policy.cpp\<close>, \<open>package_dma_plan.cpp\<close>, \<open>package_dma_resolve.cpp\<close>): the semantic checks of a
    package, the staging plan of its payloads and the resolution of their pages.
  \<^item> \<open>Dma\<close> (\<open>dma.cpp\<close>, \<open>dma_plan.cpp\<close>), \<open>GspQueue\<close>, \<open>GspRadix3\<close>, \<open>GspWpr\<close>, \<open>GspRpc\<close>, \<open>GspBootstrap\<close> (\<open>gsp_boot.cpp\<close>, \<open>gsp_radix3.cpp\<close>,
    \<open>gsp_metadata.cpp\<close>, \<open>gsp_rpc.cpp\<close>, \<open>gsp_bootstrap.cpp\<close>): segment lists and the images the GSP reads.
  \<^item> \<open>Manifest\<close> (\<open>gsp_manifest.cpp\<close>, \<open>framebuffer_stage.cpp\<close>): the allocation manifest, the resolved artifacts
    and the framebuffer staging.
  \<^item> \<open>Falcon\<close> (\<open>falcon_plan.cpp\<close>, \<open>falcon_policy.cpp\<close>), \<open>WritePolicy\<close> (\<open>write_policy.hpp\<close>, the audited
    registers), \<open>Pramin\<close> (\<open>pramin.cpp\<close>, window plans), \<open>Sequence\<close> (\<open>gsp_manifest.cpp\<close>,
    \<open>boot_sequence_policy.cpp\<close>: the boot sequence and its audit), \<open>Attempt\<close> (\<open>boot_preflight.cpp\<close>,
    \<open>boot_orchestrator.cpp\<close>, \<open>boot_recovery.cpp\<close>, \<open>reset_recovery.cpp\<close>, \<open>reset_postcheck.cpp\<close>: the state
    machine of one boot attempt).
  \<^item> \<open>BootPrepare\<close> (\<open>ga10x_prototype.cpp\<close>, \<open>ga10x_boot_prepare.cpp\<close>), \<open>BootResolve\<close> (\<open>ga10x_boot_resolve.cpp\<close>): the profile of
    a package, the preparation plan with its ten host buffers, and the address graph of the prepared memory.
  \<^item> \<open>BootArm\<close> (\<open>boot_arm.cpp\<close>): the challenge that binds a cold session and the acceptance of an arming request.
  \<^item> \<open>DriverKit\<close>: the PCI device as a parameter with a history of events; \<open>FalconExec\<close>, \<open>PraminExec\<close>,
    \<open>DmaBuffer\<close>, \<open>PhaseExec\<close>: the executors of \<open>macos/Driver\<close> over it.
  \<^item> \<open>ColdState\<close> (\<open>pci_command.hpp\<close>, \<open>sysmem_flush.cpp\<close>, \<open>RTXMacPciCommand.cpp\<close>, \<open>RTXMacSysmemFlush.cpp\<close>,
    \<open>RTXMacReset.cpp\<close>): the command register, the system memory flush page and the recovery reset, each a plan and its
    executor with rollback.
  \<^item> \<open>LiveCheck\<close> (\<open>mmio_trace.cpp\<close>, \<open>nvidia_boot.cpp\<close>, \<open>nvidia_probe.cpp\<close>, \<open>nvidia_snapshot.cpp\<close>, \<open>pci_bar.cpp\<close>,
    \<open>ga10x_live_preflight.cpp\<close>, \<open>RTXMacLivePreflight.cpp\<close>): the reads of the live device before a boot, recorded and
    replayed, and the check of the reserved boundary.

  \<^bold>\<open>The state.\<close> Structures are records and enumerations datatypes with the names of the source; integers
  keep their width. The driver's effects are a list of events (reads, writes, sleeps) that each
  executor extends, and a ledger of the DriverKit objects it holds. The boot attempt is a record
  stepped by \<open>attempt_step\<close>, whose reachable states satisfy \<open>attempt_inv\<close>.

  \<^bold>\<open>What the lemmas show.\<close> For each parser: it never leaves its span and accepts exactly the stated
  inputs. For each planner: the plan tiles the request, stays inside its region and equals a
  declarative description, and invalid requests get their status. For each image: every field reads
  back. For the executors: every store is allowed by the policy, a failure rolls back or releases
  what was acquired, and the device history only grows. For the compositions: the package that is
  built is the package that is accepted, an audited sequence is what the phase executor runs, and
  every boot attempt ends within a bounded number of steps.

  \<^bold>\<open>Interfaces.\<close> \<open>record_layout\<close> is the contract of a binary record, \<open>tiling\<close> that of a chunking planner,
  \<open>dry_run\<close> that of a write recorder; each is interpreted on the definitions of the code in the
  theories that provide them (FRTS command, WPR metadata, queue arguments, system information; DMA
  chunks, PRAMIN chunks, RPC fragments; register and region dry runs).

  \<^bold>\<open>Bounds.\<close> Loops of the code are structural or well-founded recursions, so no fuel is used apart from
  the poll budgets that the code itself has. Hypotheses such as \<open>length img < 2 ^ 64\<close> state that a span
  has a size that \<open>size_t\<close> can hold.

  \<^bold>\<open>Not modelled.\<close> The order of the operations in a boot session and the copies of the
  artifacts into the buffers (\<open>RTXMacBootSession.cpp\<close>), the allocation and filling of the staged package
  (\<open>RTXMacPackageStaging.cpp\<close>), the user client (\<open>RTXMacUserClient.cpp\<close>: argument marshalling), the attach path and the
  system information (\<open>RTXMacDriver.cpp\<close>, \<open>RTXMacSystemInfo.cpp\<close>: life cycle, logging, reads for display), the constants of
  \<open>abi.hpp\<close>, the \<open>.iig\<close> interfaces, the Swift host application, the command line of the offline tool
  (\<open>rtxmac_offline.cpp\<close>: files around the modelled functions), the tests and the scripts. These are glue around operations
  that are modelled, or another language. Not modelled of a modelled file: null checks of output pointers that are results
  here, and the releases of mappings and of the register descriptor, which have no effect on the state kept. Hardware is a parameter: nothing is
  assumed about what the GPU answers beyond the named hypotheses of a theorem.

  \<^bold>\<open>Where the code is not what it means to be.\<close> Five facts about the code differ from its intention or its documents: a registry record can
  overwrite the system record (\<open>GspBootstrap\<close>, C31), a lowered reserved boundary never prepares (\<open>BootPrepare\<close>, C9, and
  \<open>lowered_boundary_refused\<close>), the places of a FWSEC patch may overlap (\<open>Frts\<close>, C38, and \<open>PlanFwsecFrtsPatch_overlap\<close>), the queue page
  table can be one entry short (\<open>PlanQueueMemory_short_table\<close>), and the checksum of a record does not cover its padding (C28).
\<close>

end
